(* ===== verification/Prelude.thy ===== *)
theory Prelude
  imports Main
begin

text \<open>
  Shared vocabulary of the development: the exceptions the Python code raises, the
  result type that carries them, and the generic list lemmas the components share.
  A Python \<^verbatim>\<open>raise\<close> is the value \<open>Inl e\<close>; a normal return is \<open>Inr x\<close>. Times are
  the integer \<^verbatim>\<open>int(time.time())\<close>, passed in as an argument \<open>now\<close>.
\<close>

section \<open>Exceptions and results\<close>

datatype exc =
    HTTPException int string
  | ValueError string
  | KeyError string
  | IndexError
  | RuntimeError string
  | TypeError
  | StopIteration
  | IntegrityError
  | FileNotFoundError
  | UploadCeilingExceeded
  | ResumeOutOfRange
  | BodyReadTimeout
  | TelegramError int "int option"
  | FloodBudgetExceeded

type_synonym 'a res = "exc + 'a"

type_synonym time = int

definition rbind :: "'a res \<Rightarrow> ('a \<Rightarrow> 'b res) \<Rightarrow> 'b res" where
  "rbind r f = (case r of Inl e \<Rightarrow> Inl e | Inr x \<Rightarrow> f x)"

lemma rbind_simps [simp]:
  "rbind (Inl e) f = Inl e"
  "rbind (Inr x) f = f x"
  by (simp_all add: rbind_def)

lemma rbind_InrE:
  assumes "rbind r f = Inr y"
  obtains x where "r = Inr x" and "f x = Inr y"
  using assms by (cases r) simp_all

text \<open>\<^verbatim>\<open>x or d\<close> for optional strings and integers: the empty value counts as missing.\<close>

definition str_or :: "string option \<Rightarrow> string \<Rightarrow> string" where
  "str_or s d = (case s of None \<Rightarrow> d | Some t \<Rightarrow> if t = [] then d else t)"

definition truthy_str :: "string option \<Rightarrow> bool" where
  "truthy_str s = (case s of None \<Rightarrow> False | Some t \<Rightarrow> t \<noteq> [])"

definition truthy_int :: "int option \<Rightarrow> bool" where
  "truthy_int n = (case n of None \<Rightarrow> False | Some i \<Rightarrow> i \<noteq> 0)"

lemma truthy_simps [simp]:
  "truthy_str None = False" "truthy_str (Some t) = (t \<noteq> [])"
  "truthy_int None = False" "truthy_int (Some i) = (i \<noteq> 0)"
  by (simp_all add: truthy_str_def truthy_int_def)

section \<open>Proof collections\<close>

named_theorems field_simps_db "projections of the database record after an operation"
named_theorems inv_intros "preservation of invariants, one fact per operation"
named_theorems kv_simps "reads of the kv table after a write"

section \<open>List lemmas\<close>

lemma sum_list_nonneg_int: "(\<And>x. x \<in> set xs \<Longrightarrow> (0::int) \<le> f x) \<Longrightarrow> 0 \<le> sum_list (map f xs)"
  by (induction xs) auto

lemma filter_map_upd_fst:
  "(\<And>r. key (f r) = key r) \<Longrightarrow> map key (map (\<lambda>r. if P r then f r else r) rs) = map key rs"
  by simp

lemma distinct_map_filter: "distinct (map f xs) \<Longrightarrow> distinct (map f (filter P xs))"
  by (induction xs) auto

lemma find_None_iff2: "(find P xs = None) = (\<forall>x \<in> set xs. \<not> P x)"
  by (auto simp: find_None_iff)

lemma find_SomeD: "find P xs = Some x \<Longrightarrow> x \<in> set xs \<and> P x"
  by (induction xs) (auto split: if_splits)

lemma find_cong_set: "(\<And>x. x \<in> set xs \<Longrightarrow> P x = Q x) \<Longrightarrow> find P xs = find Q xs"
  by (induction xs) auto

lemma find_map_key:
  assumes "\<And>r. key (f r) = key r"
  shows "find (\<lambda>r. key r = k) (map f rs) = map_option f (find (\<lambda>r. key r = k) rs)"
  using assms by (induction rs) auto

lemma find_append: "find P (xs @ ys) = (case find P xs of None \<Rightarrow> find P ys | Some x \<Rightarrow> Some x)"
  by (induction xs) auto

lemma find_filter_key:
  "find (\<lambda>r. key r = k) (filter (\<lambda>r. key r \<noteq> k') rs) =
     (if k = k' then None else find (\<lambda>r. key r = k) rs)"
  by (induction rs) auto

lemma find_unique:
  assumes "distinct (map key rs)" and "r \<in> set rs"
  shows "find (\<lambda>x. key x = key r) rs = Some r"
  using assms
proof (induction rs)
  case Nil
  then show ?case by simp
next
  case (Cons x xs)
  show ?case
  proof (cases "r = x")
    case True
    then show ?thesis by simp
  next
    case False
    with Cons.prems have "r \<in> set xs" by simp
    with Cons.prems(1) have "key x \<noteq> key r" by auto
    with Cons \<open>r \<in> set xs\<close> show ?thesis by simp
  qed
qed

lemma find_filter_subset:
  assumes "distinct (map key rs)" and "find (\<lambda>r. key r = k) rs = Some r" and "P r"
  shows "find (\<lambda>r. key r = k) (filter P rs) = Some r"
proof -
  from assms(2) have "r \<in> set rs" and k: "key r = k" by (auto dest: find_SomeD)
  with assms(3) have "r \<in> set (filter P rs)" by simp
  from find_unique [OF distinct_map_filter [OF assms(1)] this] k show ?thesis by simp
qed

lemma length_filter_map_split:
  "length (filter P xs) + length (filter (\<lambda>x. \<not> P x) xs) = length xs"
  by (rule sum_length_filter_compl)

end
