(* ===== verification/PyStr.thy ===== *)
theory PyStr
  imports Prelude
begin

text \<open>
  Python's string operations as the source uses them, on HOL strings (lists of
  characters). \<open>lower\<close>, \<open>strip\<close> and \<open>isdigit\<close> follow Python on ASCII and Latin-1
  blanks. \<open>py_int\<close> is \<^verbatim>\<open>int(s)\<close> on a string: surrounding blanks, one sign, decimal
  digits with single underscores between them; everything else is a \<^verbatim>\<open>ValueError\<close>,
  here \<open>None\<close>. \<open>str_of_int\<close> is \<^verbatim>\<open>str(n)\<close>. The main fact is their round trip.
\<close>

section \<open>Characters\<close>

definition code :: "char \<Rightarrow> nat" where
  "code c = of_char c"

definition is_digit :: "char \<Rightarrow> bool" where
  "is_digit c = (48 \<le> code c \<and> code c \<le> 57)"

definition is_space :: "char \<Rightarrow> bool" where
  "is_space c = (code c \<in> {9, 10, 11, 12, 13, 28, 29, 30, 31, 32, 133, 160})"

definition lower_char :: "char \<Rightarrow> char" where
  "lower_char c = (if 65 \<le> code c \<and> code c \<le> 90 then char_of (code c + 32) else c)"

definition lower :: "string \<Rightarrow> string" where
  "lower s = map lower_char s"

definition is_alnum :: "char \<Rightarrow> bool" where
  "is_alnum c = (is_digit c \<or> (65 \<le> code c \<and> code c \<le> 90) \<or> (97 \<le> code c \<and> code c \<le> 122))"

lemma code_char_of [simp]: "n < 256 \<Longrightarrow> code (char_of n) = n"
  by (simp add: code_def of_char_of)

lemma length_lower [simp]: "length (lower s) = length s"
  by (simp add: lower_def)

lemma lower_char_idem [simp]: "lower_char (lower_char c) = lower_char c"
  by (auto simp: lower_char_def)

lemma lower_append: "lower (s @ t) = lower s @ lower t"
  by (simp add: lower_def)

section \<open>Prefixes, suffixes, stripping and splitting\<close>

definition startswith :: "string \<Rightarrow> string \<Rightarrow> bool" where
  "startswith s p = (take (length p) s = p)"

definition endswith :: "string \<Rightarrow> string \<Rightarrow> bool" where
  "endswith s p = startswith (rev s) (rev p)"

definition lstrip_by :: "(char \<Rightarrow> bool) \<Rightarrow> string \<Rightarrow> string" where
  "lstrip_by P s = dropWhile P s"

definition rstrip_by :: "(char \<Rightarrow> bool) \<Rightarrow> string \<Rightarrow> string" where
  "rstrip_by P s = rev (dropWhile P (rev s))"

definition strip_by :: "(char \<Rightarrow> bool) \<Rightarrow> string \<Rightarrow> string" where
  "strip_by P s = rstrip_by P (lstrip_by P s)"

abbreviation strip :: "string \<Rightarrow> string" where
  "strip \<equiv> strip_by is_space"

abbreviation rstrip_slash :: "string \<Rightarrow> string" where
  "rstrip_slash \<equiv> rstrip_by (\<lambda>c. c = CHR ''/'')"

abbreviation strip_slash :: "string \<Rightarrow> string" where
  "strip_slash \<equiv> strip_by (\<lambda>c. c = CHR ''/'')"

text \<open>\<^verbatim>\<open>s.split(c)\<close>, and \<^verbatim>\<open>s.split(c, 1)\<close> and \<^verbatim>\<open>s.rsplit(c, 1)\<close> where \<open>c\<close> occurs.\<close>

fun split_on :: "char \<Rightarrow> string \<Rightarrow> string list" where
  "split_on c [] = [[]]"
| "split_on c (x # xs) =
     (if x = c then [] # split_on c xs
      else (case split_on c xs of [] \<Rightarrow> [[x]] | p # ps \<Rightarrow> (x # p) # ps))"

definition split1 :: "char \<Rightarrow> string \<Rightarrow> (string \<times> string) option" where
  "split1 c s = (if c \<in> set s
     then Some (takeWhile (\<lambda>x. x \<noteq> c) s, tl (dropWhile (\<lambda>x. x \<noteq> c) s)) else None)"

definition rsplit1 :: "char \<Rightarrow> string \<Rightarrow> (string \<times> string) option" where
  "rsplit1 c s = (case split1 c (rev s) of
     None \<Rightarrow> None | Some (a, b) \<Rightarrow> Some (rev b, rev a))"

text \<open>\<^verbatim>\<open>s.rsplit(c, 1)[-1]\<close>: the last piece, the whole string when \<open>c\<close> does not occur.\<close>

definition last_piece :: "char \<Rightarrow> string \<Rightarrow> string" where
  "last_piece c s = (case rsplit1 c s of None \<Rightarrow> s | Some (_, b) \<Rightarrow> b)"

fun join :: "string \<Rightarrow> string list \<Rightarrow> string" where
  "join sep [] = []"
| "join sep [s] = s"
| "join sep (s # t # ss) = s @ sep @ join sep (t # ss)"

fun replace_char :: "char \<Rightarrow> string \<Rightarrow> string \<Rightarrow> string" where
  "replace_char c r [] = []"
| "replace_char c r (x # xs) = (if x = c then r else [x]) @ replace_char c r xs"

text \<open>\<^verbatim>\<open>sub in s\<close>\<close>

fun contains_str :: "string \<Rightarrow> string \<Rightarrow> bool" where
  "contains_str sub [] = (sub = [])"
| "contains_str sub (x # xs) = (startswith (x # xs) sub \<or> contains_str sub xs)"

lemma strip_by_clean:
  assumes "strip_by P s \<noteq> []" shows "\<not> P (hd (strip_by P s)) \<and> \<not> P (last (strip_by P s))"
proof -
  define t where "t = dropWhile P s"
  define u where "u = rev (dropWhile P (rev t))"
  have s: "strip_by P s = u" by (simp add: strip_by_def lstrip_by_def rstrip_by_def t_def u_def)
  have u: "u \<noteq> []" using assms s by simp
  have "t = u @ rev (takeWhile P (rev t))" unfolding u_def by (metis rev_append rev_rev_ident takeWhile_dropWhile_id)
  then have "t \<noteq> []" "hd u = hd t" using u by (metis append_is_Nil_conv, metis hd_append2)
  then have "\<not> P (hd u)" unfolding t_def by (metis hd_dropWhile)
  moreover have "dropWhile P (rev t) \<noteq> []" using u by (simp add: u_def)
  then have "\<not> P (last u)" unfolding u_def last_rev by (rule hd_dropWhile)
  ultimately show ?thesis by (simp add: s)
qed

lemma strip_by_ends: "strip_by P s = s \<longleftrightarrow> s = [] \<or> \<not> P (hd s) \<and> \<not> P (last s)"
proof
  assume "strip_by P s = s"
  then show "s = [] \<or> \<not> P (hd s) \<and> \<not> P (last s)" using strip_by_clean [of P s] by auto
next
  assume "s = [] \<or> \<not> P (hd s) \<and> \<not> P (last s)"
  then have "s = [] \<or> \<not> P (hd s)" "rev s = [] \<or> \<not> P (hd (rev s))" by (auto simp: hd_rev)
  moreover have "t = [] \<or> \<not> P (hd t) \<Longrightarrow> dropWhile P t = t" for t by (cases t) auto
  ultimately have "dropWhile P s = s" "dropWhile P (rev s) = rev s" by blast+
  then show "strip_by P s = s" by (simp add: strip_by_def lstrip_by_def rstrip_by_def)
qed

lemma startswith_iff: "startswith s p \<longleftrightarrow> (\<exists>t. s = p @ t)"
  unfolding startswith_def
  by (metis append_eq_conv_conj)

lemma startswith_append [simp]: "startswith (p @ t) p"
  by (simp add: startswith_def)

lemma startswith_refl [simp]: "startswith s s"
  by (simp add: startswith_def)

lemma startswith_Nil [simp]: "startswith s []"
  by (simp add: startswith_def)

lemma startswith_Cons_Cons [simp]: "startswith (x # xs) (y # ys) \<longleftrightarrow> x = y \<and> startswith xs ys"
  by (auto simp: startswith_def)

lemma startswith_Nil_left [simp]: "startswith [] p \<longleftrightarrow> p = []"
  by (auto simp: startswith_def)

lemma startswith_append_cancel [simp]: "startswith (p @ s) (p @ t) \<longleftrightarrow> startswith s t"
  by (auto simp: startswith_iff)

lemma split1_append: "c \<notin> set a \<Longrightarrow> split1 c (a @ c # b) = Some (a, b)"
  by (auto simp: split1_def takeWhile_append dropWhile_append)

lemma rsplit1_append: "c \<notin> set b \<Longrightarrow> rsplit1 c (a @ c # b) = Some (a, b)"
  using split1_append [of c "rev b" "rev a"] by (simp add: rsplit1_def)

lemma rsplit1_Some: "rsplit1 c s = Some (a, b) \<Longrightarrow> s = a @ c # b \<and> c \<notin> set b"
proof -
  assume h: "rsplit1 c s = Some (a, b)"
  then obtain x y where xy: "split1 c (rev s) = Some (x, y)" and ab: "a = rev y" "b = rev x"
    by (auto simp: rsplit1_def split: option.splits prod.splits)
  from xy have c: "c \<in> set (rev s)" and x: "x = takeWhile (\<lambda>z. z \<noteq> c) (rev s)"
    and y: "y = tl (dropWhile (\<lambda>z. z \<noteq> c) (rev s))"
    by (auto simp: split1_def split: if_splits)
  from c have "dropWhile (\<lambda>z. z \<noteq> c) (rev s) = c # y"
    using y by (metis (mono_tags, lifting) dropWhile_eq_Nil_conv hd_dropWhile list.collapse)
  with x have "rev s = x @ c # y" by (metis takeWhile_dropWhile_id)
  moreover have "c \<notin> set x" using x by (metis (mono_tags, lifting) set_takeWhileD)
  ultimately show "s = a @ c # b \<and> c \<notin> set b"
    using ab by (metis append.assoc append_Cons append_Nil rev.simps(2) rev_append rev_rev_ident set_rev)
qed

lemma rstrip_by_snoc: "\<not> P c \<Longrightarrow> rstrip_by P (s @ [c]) = s @ [c]"
  by (simp add: rstrip_by_def)

lemma split_on_join:
  "c \<notin> set s \<Longrightarrow> split_on c (s @ c # t) = s # split_on c t"
  by (induction s) auto

lemma split_on_none: "c \<notin> set s \<Longrightarrow> split_on c s = [s]"
  by (induction s) auto

lemma split_on_nonempty [simp]: "split_on c s \<noteq> []"
  by (induction s) (auto split: list.splits)

lemma split_on_append: "split_on c (s @ c # t) = split_on c s @ split_on c t"
proof (induction s)
  case (Cons x s)
  then show ?case by (cases "split_on c s") auto
qed simp

lemma last_split_on: "c \<notin> set t \<Longrightarrow> last (split_on c (s @ c # t)) = t"
  by (simp add: split_on_append split_on_none)

lemma join_split_on: "join [c] (split_on c s) = s"
proof (induction s)
  case (Cons x s)
  then show ?case
    by (cases "split_on c s"; cases "tl (split_on c s)") auto
qed simp

lemma split_on_three: "split_on c s = [p, q, r] \<Longrightarrow> s = p @ c # q @ c # r"
  using join_split_on [of c s] by simp

section \<open>Decimal numbers\<close>

definition digit_char :: "nat \<Rightarrow> char" where
  "digit_char d = char_of (48 + d)"

definition digit_val :: "char \<Rightarrow> nat" where
  "digit_val c = code c - 48"

fun str_of_nat :: "nat \<Rightarrow> string" where
  "str_of_nat n = (if n < 10 then [digit_char n]
     else str_of_nat (n div 10) @ [digit_char (n mod 10)])"

declare str_of_nat.simps [simp del]

definition str_of_int :: "int \<Rightarrow> string" where
  "str_of_int i = (if i < 0 then CHR ''-'' # str_of_nat (nat (- i)) else str_of_nat (nat i))"

definition digits_val :: "string \<Rightarrow> nat" where
  "digits_val s = foldl (\<lambda>v c. 10 * v + digit_val c) 0 s"

text \<open>Digits with single underscores between them, as \<^verbatim>\<open>int()\<close> accepts.\<close>

fun digits_us :: "bool \<Rightarrow> string \<Rightarrow> bool" where
  "digits_us prev [] = prev"
| "digits_us prev (c # cs) =
     (if is_digit c then digits_us True cs
      else if c = CHR ''_'' \<and> prev then digits_us False cs else False)"

definition py_int :: "string \<Rightarrow> int option" where
  "py_int s = (let t = strip s in
     case t of
       [] \<Rightarrow> None
     | c # cs \<Rightarrow>
         let body = (if c = CHR ''-'' \<or> c = CHR ''+'' then cs else t);
             v = int (digits_val (filter is_digit body))
         in if digits_us False body then Some (if c = CHR ''-'' then - v else v) else None)"

text \<open>\<^verbatim>\<open>s.isdigit()\<close> on ASCII.\<close>

definition isdigit :: "string \<Rightarrow> bool" where
  "isdigit s = (s \<noteq> [] \<and> list_all is_digit s)"

lemma is_digit_digit_char [simp]: "d < 10 \<Longrightarrow> is_digit (digit_char d)"
  by (simp add: is_digit_def digit_char_def)

lemma digit_val_digit_char [simp]: "d < 10 \<Longrightarrow> digit_val (digit_char d) = d"
  by (simp add: digit_val_def digit_char_def)

lemma digits_val_snoc: "digits_val (s @ [c]) = 10 * digits_val s + digit_val c"
  by (simp add: digits_val_def)

lemma digits_val_str_of_nat [simp]: "digits_val (str_of_nat n) = n"
proof (induction n rule: str_of_nat.induct)
  case (1 n)
  show ?case
  proof (cases "n < 10")
    case True
    then show ?thesis by (subst str_of_nat.simps) (simp add: digits_val_def)
  next
    case False
    with 1 have "digits_val (str_of_nat (n div 10)) = n div 10" by simp
    with False show ?thesis by (subst str_of_nat.simps) (simp add: digits_val_snoc)
  qed
qed

lemma str_of_nat_digits [simp]: "list_all is_digit (str_of_nat n)"
proof (induction n rule: str_of_nat.induct)
  case (1 n)
  then show ?case by (subst str_of_nat.simps) auto
qed

lemma str_of_nat_digits': "c \<in> set (str_of_nat n) \<Longrightarrow> is_digit c"
  using str_of_nat_digits [of n] by (auto simp: list_all_iff)

lemma str_of_nat_nonempty [simp]: "str_of_nat n \<noteq> []"
  by (subst str_of_nat.simps) simp

lemma digits_us_all: "list_all is_digit s \<Longrightarrow> s \<noteq> [] \<or> prev \<Longrightarrow> digits_us prev s"
  by (induction s arbitrary: prev) auto

lemma filter_digits: "list_all is_digit s \<Longrightarrow> filter is_digit s = s"
  by (simp add: list_all_iff)

lemma digit_not_space: "is_digit c \<Longrightarrow> \<not> is_space c"
  by (auto simp: is_digit_def is_space_def)

lemma digit_neq_sign: "is_digit c \<Longrightarrow> c \<noteq> CHR ''-'' \<and> c \<noteq> CHR ''+'' \<and> c \<noteq> CHR '':''"
  by (auto simp: is_digit_def code_def)

lemma strip_by_id: "(\<And>c. c \<in> set s \<Longrightarrow> \<not> P c) \<Longrightarrow> strip_by P s = s"
proof -
  assume h: "\<And>c. c \<in> set s \<Longrightarrow> \<not> P c"
  have "dropWhile P s = s" using h by (cases s) auto
  moreover have "dropWhile P (rev s) = rev s"
  proof (cases "rev s")
    case (Cons a as)
    then have "a \<in> set s" by (metis list.set_intros(1) set_rev)
    with h Cons show ?thesis by simp
  qed simp
  ultimately show ?thesis by (simp add: strip_by_def rstrip_by_def lstrip_by_def)
qed

lemma str_of_int_chars: "c \<in> set (str_of_int i) \<Longrightarrow> is_digit c \<or> c = CHR ''-''"
  by (auto simp: str_of_int_def str_of_nat_digits' split: if_splits)

lemma colon_not_in_str_of_int [simp]: "CHR '':'' \<notin> set (str_of_int i)"
  using str_of_int_chars [of "CHR '':''" i] by (auto simp: is_digit_def code_def)

lemma strip_str_of_int [simp]: "strip (str_of_int i) = str_of_int i"
proof (rule strip_by_id)
  fix c
  assume "c \<in> set (str_of_int i)"
  then have "is_digit c \<or> c = CHR ''-''" by (rule str_of_int_chars)
  then show "\<not> is_space c" by (auto simp: digit_not_space) (simp add: is_space_def code_def)
qed

lemma py_int_str_of_nat: "py_int (str_of_nat n) = Some (int n)"
proof -
  obtain c cs where s: "str_of_nat n = c # cs" by (cases "str_of_nat n") auto
  have c: "is_digit c" using str_of_nat_digits' [of c n] s by simp
  have st: "strip (str_of_nat n) = str_of_nat n"
    by (rule strip_by_id) (blast dest: str_of_nat_digits' digit_not_space)
  have "digits_us False (str_of_nat n)" by (rule digits_us_all) auto
  moreover have "digits_val (c # cs) = n" using digits_val_str_of_nat [of n] s by simp
  ultimately show ?thesis
    using c s st digit_neq_sign [OF c] filter_digits [OF str_of_nat_digits, of n]
    by (auto simp: py_int_def Let_def)
qed

theorem py_int_str_of_int [simp]: "py_int (str_of_int i) = Some i"
proof (cases "i < 0")
  case False
  then show ?thesis using py_int_str_of_nat [of "nat i"] by (simp add: str_of_int_def)
next
  case True
  let ?n = "str_of_nat (nat (- i))"
  have s: "str_of_int i = CHR ''-'' # ?n" using True by (simp add: str_of_int_def)
  have "strip (CHR ''-'' # ?n) = CHR ''-'' # ?n" using strip_str_of_int [of i] s by simp
  moreover have "digits_us False ?n" by (rule digits_us_all) auto
  moreover have "filter is_digit ?n = ?n" by (rule filter_digits) simp
  ultimately show ?thesis using True s by (simp add: py_int_def Let_def)
qed

lemma str_of_int_inject [simp]: "str_of_int i = str_of_int j \<longleftrightarrow> i = j"
  by (metis option.inject py_int_str_of_int)

lemma str_of_int_nonempty [simp]: "str_of_int i \<noteq> []"
  by (simp add: str_of_int_def)

end
