(* ===== verification/PyJson.thy ===== *)
theory PyJson
  imports PyStr "HOL-Library.AList"
begin

text \<open>
  Python's \<^verbatim>\<open>json\<close> module as the source uses it: values without floats, \<^verbatim>\<open>json.dumps\<close>
  with its separators and \<^verbatim>\<open>ensure_ascii\<close> flag, and \<^verbatim>\<open>json.loads\<close>. A dict is an association
  list in insertion order. \<open>loads\<close> returns \<open>None\<close> where Python raises \<^verbatim>\<open>JSONDecodeError\<close>
  and also on what lies outside the model (floats, code points above 255). The main
  theorem is the round trip \<open>loads_dumps\<close>.
\<close>

datatype json =
    JNull
  | JBool bool
  | JInt int
  | JStr string
  | JList "json list"
  | JObj "(string \<times> json) list"

definition jget :: "json \<Rightarrow> string \<Rightarrow> json option" where
  "jget j k = (case j of JObj kvs \<Rightarrow> map_of kvs k | _ \<Rightarrow> None)"

text \<open>Python truthiness of a decoded value.\<close>

definition jtruthy :: "json \<Rightarrow> bool" where
  "jtruthy j = (case j of JNull \<Rightarrow> False | JBool b \<Rightarrow> b | JInt i \<Rightarrow> i \<noteq> 0 | JStr s \<Rightarrow> s \<noteq> []
     | JList l \<Rightarrow> l \<noteq> [] | JObj l \<Rightarrow> l \<noteq> [])"

definition jstr_opt :: "string option \<Rightarrow> json" where
  "jstr_opt s = (case s of None \<Rightarrow> JNull | Some t \<Rightarrow> JStr t)"

definition jint_opt :: "int option \<Rightarrow> json" where
  "jint_opt s = (case s of None \<Rightarrow> JNull | Some t \<Rightarrow> JInt t)"

lemma jget_JObj [simp]: "jget (JObj kvs) k = map_of kvs k"
  by (simp add: jget_def)

section \<open>Encoding\<close>

definition hex_char :: "nat \<Rightarrow> char" where
  "hex_char n = (if n < 10 then char_of (48 + n) else char_of (87 + n))"

definition hex_val :: "char \<Rightarrow> nat option" where
  "hex_val c = (if is_digit c then Some (code c - 48)
     else if 97 \<le> code c \<and> code c \<le> 102 then Some (code c - 87)
     else if 65 \<le> code c \<and> code c \<le> 70 then Some (code c - 55) else None)"

definition esc_char :: "bool \<Rightarrow> char \<Rightarrow> string" where
  "esc_char ascii c =
     (if c = CHR 0x22 then [CHR 0x5C, CHR 0x22]
      else if c = CHR 0x5C then [CHR 0x5C, CHR 0x5C]
      else if c = CHR 0x0A then [CHR 0x5C, CHR ''n'']
      else if c = CHR 0x0D then [CHR 0x5C, CHR ''r'']
      else if c = CHR 0x09 then [CHR 0x5C, CHR ''t'']
      else if c = CHR 0x0C then [CHR 0x5C, CHR ''f'']
      else if c = CHR 0x08 then [CHR 0x5C, CHR ''b'']
      else if code c < 32 \<or> ascii \<and> 126 < code c
      then [CHR 0x5C, CHR ''u'', CHR ''0'', CHR ''0'',
            hex_char (code c div 16), hex_char (code c mod 16)]
      else [c])"

definition dumps_str :: "bool \<Rightarrow> string \<Rightarrow> string" where
  "dumps_str ascii s = CHR 0x22 # concat (map (esc_char ascii) s) @ [CHR 0x22]"

primrec dumps_gen :: "bool \<Rightarrow> string \<Rightarrow> string \<Rightarrow> json \<Rightarrow> string"
  and dumps_items :: "bool \<Rightarrow> string \<Rightarrow> string \<Rightarrow> json list \<Rightarrow> string"
  and dumps_fields :: "bool \<Rightarrow> string \<Rightarrow> string \<Rightarrow> (string \<times> json) list \<Rightarrow> string"
  and dumps_field :: "bool \<Rightarrow> string \<Rightarrow> string \<Rightarrow> string \<times> json \<Rightarrow> string" where
  "dumps_gen a sep ks JNull = ''null''"
| "dumps_gen a sep ks (JBool b) = (if b then ''true'' else ''false'')"
| "dumps_gen a sep ks (JInt i) = str_of_int i"
| "dumps_gen a sep ks (JStr s) = dumps_str a s"
| "dumps_gen a sep ks (JList js) = ''['' @ dumps_items a sep ks js @ '']''"
| "dumps_gen a sep ks (JObj kvs) = ''{'' @ dumps_fields a sep ks kvs @ ''}''"
| "dumps_items a sep ks [] = []"
| "dumps_items a sep ks (j # js) =
     dumps_gen a sep ks j @ (if js = [] then [] else sep @ dumps_items a sep ks js)"
| "dumps_fields a sep ks [] = []"
| "dumps_fields a sep ks (kv # kvs) =
     dumps_field a sep ks kv @ (if kvs = [] then [] else sep @ dumps_fields a sep ks kvs)"
| "dumps_field a sep ks (k, v) = dumps_str a k @ ks @ dumps_gen a sep ks v"

text \<open>\<^verbatim>\<open>json.dumps(j)\<close>, with \<^verbatim>\<open>ensure_ascii=False\<close>, and with the compact separators.\<close>

definition dumps :: "json \<Rightarrow> string" where
  "dumps = dumps_gen True '', '' '': ''"

definition dumps_uni :: "json \<Rightarrow> string" where
  "dumps_uni = dumps_gen False '', '' '': ''"

definition dumps_compact :: "json \<Rightarrow> string" where
  "dumps_compact = dumps_gen True '','' '':''"

section \<open>Decoding\<close>

definition is_ws :: "char \<Rightarrow> bool" where
  "is_ws c = (c = CHR '' '' \<or> c = CHR 0x09 \<or> c = CHR 0x0A \<or> c = CHR 0x0D)"

definition skip_ws :: "string \<Rightarrow> string" where
  "skip_ws s = dropWhile is_ws s"

lemma length_skip_ws: "length (skip_ws s) \<le> length s"
  by (simp add: skip_ws_def length_dropWhile_le)

definition unesc :: "char \<Rightarrow> char option" where
  "unesc e = (if e = CHR 0x22 \<or> e = CHR 0x5C \<or> e = CHR ''/'' then Some e
     else if e = CHR ''n'' then Some (CHR 0x0A) else if e = CHR ''r'' then Some (CHR 0x0D)
     else if e = CHR ''t'' then Some (CHR 0x09) else if e = CHR ''f'' then Some (CHR 0x0C)
     else if e = CHR ''b'' then Some (CHR 0x08) else None)"

definition hex4 :: "char \<Rightarrow> char \<Rightarrow> char \<Rightarrow> char \<Rightarrow> nat option" where
  "hex4 a b c d = (case (hex_val a, hex_val b, hex_val c, hex_val d) of
     (Some w, Some x, Some y, Some z) \<Rightarrow> Some (4096 * w + 256 * x + 16 * y + z)
   | _ \<Rightarrow> None)"

definition consr :: "char \<Rightarrow> (string \<times> string) option \<Rightarrow> (string \<times> string) option" where
  "consr c r = map_option (\<lambda>(s, t). (c # s, t)) r"

fun p_str :: "string \<Rightarrow> (string \<times> string) option" where
  "p_str [] = None"
| "p_str (c # cs) =
     (if c = CHR 0x22 then Some ([], cs)
      else if c = CHR 0x5C then
        (case cs of [] \<Rightarrow> None
         | e # es \<Rightarrow>
           if e = CHR ''u'' then
             (case es of
                h1 # h2 # h3 # h4 # r \<Rightarrow>
                  (case hex4 h1 h2 h3 h4 of
                     None \<Rightarrow> None
                   | Some n \<Rightarrow> if n < 256 then consr (char_of n) (p_str r) else None)
              | _ \<Rightarrow> None)
           else (case unesc e of None \<Rightarrow> None | Some d \<Rightarrow> consr d (p_str es)))
      else if code c < 32 then None
      else consr c (p_str cs))"

definition num_lexeme :: "string \<Rightarrow> string" where
  "num_lexeme t = (if startswith t ''0'' then ''0'' else takeWhile is_digit t)"

definition p_int :: "string \<Rightarrow> (json \<times> string) option" where
  "p_int s =
     (let (neg, t) = (if startswith s ''-'' then (True, tl s) else (False, s));
          ds = num_lexeme t;
          r = drop (length ds) t;
          v = int (digits_val ds)
      in if ds = [] then None
         else if r \<noteq> [] \<and> hd r \<in> {CHR ''.'', CHR ''e'', CHR ''E''} then None
         else Some (JInt (if neg then - v else v), r))"

definition dict_of :: "(string \<times> json) list \<Rightarrow> (string \<times> json) list" where
  "dict_of kvs = fold (\<lambda>(k, v) d. AList.update k v d) kvs []"

function (sequential) p_value :: "string \<Rightarrow> (json \<times> string) option"
  and p_items :: "string \<Rightarrow> (json list \<times> string) option"
  and p_fields :: "string \<Rightarrow> ((string \<times> json) list \<times> string) option" where
  "p_value [] = None"
| "p_value (c # cs) =
     (if c = CHR 0x22 then map_option (\<lambda>(s, r). (JStr s, r)) (p_str cs)
      else if c = CHR ''{'' then
        (if startswith (skip_ws cs) ''}'' then Some (JObj [], tl (skip_ws cs))
         else map_option (\<lambda>(kvs, r). (JObj (dict_of kvs), r)) (p_fields (skip_ws cs)))
      else if c = CHR ''['' then
        (if startswith (skip_ws cs) '']'' then Some (JList [], tl (skip_ws cs))
         else map_option (\<lambda>(js, r). (JList js, r)) (p_items (skip_ws cs)))
      else if startswith (c # cs) ''null'' then Some (JNull, drop 4 (c # cs))
      else if startswith (c # cs) ''true'' then Some (JBool True, drop 4 (c # cs))
      else if startswith (c # cs) ''false'' then Some (JBool False, drop 5 (c # cs))
      else p_int (c # cs))"
| "p_items s =
     (case p_value s of
        None \<Rightarrow> None
      | Some (j, r) \<Rightarrow>
        (case skip_ws r of
           [] \<Rightarrow> None
         | d # ds \<Rightarrow>
           if d = CHR '']'' then Some ([j], ds)
           else if d = CHR '','' then
             (if length (skip_ws ds) < length s
              then map_option (\<lambda>(js, t). (j # js, t)) (p_items (skip_ws ds)) else None)
           else None))"
| "p_fields s =
     (case s of
        [] \<Rightarrow> None
      | q # qs \<Rightarrow>
        if q \<noteq> CHR 0x22 then None
        else (case p_str qs of
           None \<Rightarrow> None
         | Some (k, r) \<Rightarrow>
           (case skip_ws r of
              [] \<Rightarrow> None
            | d # ds \<Rightarrow>
              if d \<noteq> CHR '':'' then None
              else if \<not> length (skip_ws ds) < length s then None
              else (case p_value (skip_ws ds) of
                 None \<Rightarrow> None
               | Some (j, t) \<Rightarrow>
                 (case skip_ws t of
                    [] \<Rightarrow> None
                  | e # es \<Rightarrow>
                    if e = CHR ''}'' then Some ([(k, j)], es)
                    else if e = CHR '','' then
                      (if length (skip_ws es) < length s
                       then map_option (\<lambda>(kvs, u). ((k, j) # kvs, u)) (p_fields (skip_ws es))
                       else None)
                    else None)))))"
  by pat_completeness auto

termination
  by (relation "measure (\<lambda>x. case x of Inl s \<Rightarrow> 2 * length s
        | Inr (Inl s) \<Rightarrow> 2 * length s + 1 | Inr (Inr s) \<Rightarrow> 2 * length s + 1)")
     (auto simp: less_Suc_eq_le intro: le_trans [OF length_skip_ws])

definition loads :: "string \<Rightarrow> json option" where
  "loads s = (case p_value (skip_ws s) of
     None \<Rightarrow> None
   | Some (j, r) \<Rightarrow> if skip_ws r = [] then Some j else None)"


declare p_value.simps(2) [simp del]
declare p_items.simps [simp del]
declare p_fields.simps [simp del]

section \<open>The round trip\<close>

text \<open>A value Python can hold: the keys of every dict are distinct.\<close>

primrec jwf :: "json \<Rightarrow> bool"
  and jwf_items :: "json list \<Rightarrow> bool"
  and jwf_fields :: "(string \<times> json) list \<Rightarrow> bool"
  and jwf_field :: "string \<times> json \<Rightarrow> bool" where
  "jwf JNull = True"
| "jwf (JBool b) = True"
| "jwf (JInt i) = True"
| "jwf (JStr s) = True"
| "jwf (JList js) = jwf_items js"
| "jwf (JObj kvs) = (distinct (map fst kvs) \<and> jwf_fields kvs)"
| "jwf_items [] = True"
| "jwf_items (j # js) = (jwf j \<and> jwf_items js)"
| "jwf_fields [] = True"
| "jwf_fields (kv # kvs) = (jwf_field kv \<and> jwf_fields kvs)"
| "jwf_field (k, v) = jwf v"

lemma jwf_items_iff [simp]: "jwf_items js \<longleftrightarrow> (\<forall>j \<in> set js. jwf j)"
  by (induction js) auto

lemma jwf_fields_iff [simp]: "jwf_fields kvs \<longleftrightarrow> (\<forall>kv \<in> set kvs. jwf (snd kv))"
  by (induction kvs) auto

lemma hex_val_hex_char [simp]: "n < 16 \<Longrightarrow> hex_val (hex_char n) = Some n"
  by (auto simp: hex_val_def hex_char_def is_digit_def)

lemma code_less [simp]: "code c < 256"
  by (simp add: code_def)

lemma char_of_code [simp]: "char_of (code c) = c"
  by (simp add: code_def)

lemma hex4_code: "hex4 (CHR ''0'') (CHR ''0'') (hex_char (code c div 16)) (hex_char (code c mod 16))
    = Some (code c)"
proof -
  have "code c div 16 < 16" using code_less [of c] by linarith
  moreover have "hex_val (CHR ''0'') = Some 0"
    by (simp add: hex_val_def is_digit_def code_def)
  ultimately show ?thesis by (simp add: hex4_def)
qed

lemma p_str_esc: "p_str (esc_char a c @ t) = consr c (p_str t)"
proof -
  consider "c \<in> {CHR 0x22, CHR 0x5C, CHR 0x0A, CHR 0x0D, CHR 0x09, CHR 0x0C, CHR 0x08}"
    | "c \<notin> {CHR 0x22, CHR 0x5C, CHR 0x0A, CHR 0x0D, CHR 0x09, CHR 0x0C, CHR 0x08}"
      "code c < 32 \<or> a \<and> 126 < code c"
    | "c \<notin> {CHR 0x22, CHR 0x5C, CHR 0x0A, CHR 0x0D, CHR 0x09, CHR 0x0C, CHR 0x08}"
      "\<not> (code c < 32 \<or> a \<and> 126 < code c)"
    by blast
  then show ?thesis
  proof cases
    case 1
    then show ?thesis by (auto simp: esc_char_def unesc_def)
  next
    case 2
    then have "esc_char a c = [CHR 0x5C, CHR ''u'', CHR ''0'', CHR ''0'',
            hex_char (code c div 16), hex_char (code c mod 16)]"
      by (simp add: esc_char_def)
    then show ?thesis by (simp add: hex4_code)
  next
    case 3
    then have "esc_char a c = [c]" by (simp add: esc_char_def)
    with 3 show ?thesis by simp
  qed
qed

lemma p_str_dumps: "p_str (concat (map (esc_char a) s) @ CHR 0x22 # t) = Some (s, t)"
  by (induction s) (auto simp: p_str_esc consr_def)

definition numok :: "string \<Rightarrow> bool" where
  "numok r = (r = [] \<or> \<not> is_digit (hd r) \<and> hd r \<notin> {CHR ''.'', CHR ''e'', CHR ''E''})"

lemma digit_char_0: "d < 10 \<Longrightarrow> digit_char d = CHR ''0'' \<longleftrightarrow> d = 0"
proof
  assume d: "d < 10" and e: "digit_char d = CHR ''0''"
  from d have "digit_val (digit_char d) = d" by simp
  moreover have "digit_val (CHR ''0'') = 0" by (simp add: digit_val_def code_def)
  ultimately show "d = 0" using e by simp
next
  assume "d = 0"
  then show "digit_char d = CHR ''0''" by (simp add: digit_char_def char_of_def bit_0)
qed

lemma str_of_nat_hd: "0 < n \<Longrightarrow> hd (str_of_nat n) \<noteq> CHR ''0''"
proof (induction n rule: str_of_nat.induct)
  case (1 n)
  show ?case
  proof (cases "n < 10")
    case True
    with 1 show ?thesis by (subst str_of_nat.simps) (simp add: digit_char_0)
  next
    case False
    with 1 have "hd (str_of_nat (n div 10)) \<noteq> CHR ''0''" by simp
    with False show ?thesis by (subst str_of_nat.simps) simp
  qed
qed

lemma takeWhile_digits:
  assumes "list_all is_digit ds" and "numok r"
  shows "takeWhile is_digit (ds @ r) = ds"
proof -
  from assms(2) have "takeWhile is_digit r = []" by (cases r) (auto simp: numok_def)
  then show ?thesis using assms(1) by (simp add: takeWhile_append2 list_all_iff)
qed

lemma str_of_nat_0: "str_of_nat 0 = ''0''"
  by (subst str_of_nat.simps) (simp add: digit_char_0)

lemma num_lexeme_nat: "numok r \<Longrightarrow> num_lexeme (str_of_nat n @ r) = str_of_nat n"
proof (cases "n = 0")
  case True
  then show ?thesis by (simp add: str_of_nat_0 num_lexeme_def)
next
  case False
  assume "numok r"
  obtain c cs where s: "str_of_nat n = c # cs" by (cases "str_of_nat n") auto
  from False have "hd (str_of_nat n) \<noteq> CHR ''0''" using str_of_nat_hd by simp
  then have "\<not> startswith (str_of_nat n @ r) ''0''" by (simp add: s)
  then show ?thesis
    using takeWhile_digits [OF str_of_nat_digits \<open>numok r\<close>, of n] by (simp add: num_lexeme_def)
qed

lemma p_int_int:
  assumes "numok r"
  shows "p_int (str_of_int i @ r) = Some (JInt i, r)"
proof -
  let ?s = "str_of_nat (nat \<bar>i\<bar>)"
  obtain c cs where s: "?s = c # cs" by (cases ?s) auto
  have c: "is_digit c" using str_of_nat_digits' [of c "nat \<bar>i\<bar>"] s by simp
  have "r \<noteq> [] \<Longrightarrow> hd r \<notin> {CHR ''.'', CHR ''e'', CHR ''E''}"
    using assms by (auto simp: numok_def)
  moreover have "\<not> startswith (?s @ r) ''-''"
    using digit_neq_sign [OF c] by (simp add: s)
  ultimately show ?thesis
    by (auto simp: p_int_def str_of_int_def num_lexeme_nat [OF assms])
qed


lemma skip_ws_id: "s \<noteq> [] \<Longrightarrow> \<not> is_ws (hd s) \<Longrightarrow> skip_ws s = s"
  by (cases s) (auto simp: skip_ws_def)

lemma skip_ws_space [simp]: "skip_ws (CHR '' '' # s) = skip_ws s"
  by (simp add: skip_ws_def is_ws_def)

lemma skip_ws_Cons [simp]: "\<not> is_ws c \<Longrightarrow> skip_ws (c # s) = c # s"
  by (simp add: skip_ws_def)

lemma is_ws_chars [simp]:
  "\<not> is_ws (CHR '']'')" "\<not> is_ws (CHR ''}'')" "\<not> is_ws (CHR '','')" "\<not> is_ws (CHR '':'')"
  "\<not> is_ws (CHR 0x22)" "\<not> is_ws (CHR ''{'')" "\<not> is_ws (CHR ''['')"
  by (simp_all add: is_ws_def)

lemma numok_chars [simp]:
  "numok (CHR '']'' # s)" "numok (CHR ''}'' # s)" "numok (CHR '','' # s)" "numok []"
  by (simp_all add: numok_def is_digit_def code_def)

lemma digit_start: "is_digit c \<or> c = CHR ''-'' \<Longrightarrow>
    \<not> is_ws c \<and> c \<noteq> CHR '']'' \<and> c \<noteq> CHR ''}'' \<and> c \<noteq> CHR 0x22 \<and> c \<noteq> CHR ''{'' \<and> c \<noteq> CHR ''[''
    \<and> c \<noteq> CHR ''n'' \<and> c \<noteq> CHR ''t'' \<and> c \<noteq> CHR ''f''"
  by (auto simp: is_digit_def code_def is_ws_def)

lemma dumps_hd:
  "\<exists>c cs. dumps_gen a sep ks j = c # cs \<and> \<not> is_ws c \<and> c \<noteq> CHR '']''"
proof (cases j)
  case (JInt i)
  obtain c cs where s: "str_of_int i = c # cs" by (cases "str_of_int i") auto
  then have "is_digit c \<or> c = CHR ''-''" using str_of_int_chars [of c i] by simp
  from digit_start [OF this] s JInt show ?thesis by simp
qed (auto simp: dumps_str_def is_ws_def)

lemma p_value_int:
  assumes "numok r"
  shows "p_value (str_of_int i @ r) = Some (JInt i, r)"
proof -
  obtain c cs where s: "str_of_int i = c # cs" by (cases "str_of_int i") auto
  then have "is_digit c \<or> c = CHR ''-''" using str_of_int_chars [of c i] by simp
  from digit_start [OF this] have "p_value (c # cs @ r) = p_int (c # cs @ r)"
    by (simp add: p_value.simps(2))
  with p_int_int [OF assms, of i] s show ?thesis by simp
qed

lemma dict_of_distinct:
  "distinct (map fst kvs) \<Longrightarrow> dict_of kvs = kvs"
proof -
  have "distinct (map fst (d @ kvs)) \<Longrightarrow> fold (\<lambda>(k, v) d. AList.update k v d) kvs d = d @ kvs"
    for d :: "(string \<times> json) list"
  proof (induction kvs arbitrary: d)
    case Nil
    then show ?case by simp
  next
    case (Cons kv kvs)
    obtain k v where kv: "kv = (k, v)" by (cases kv)
    have "k \<notin> fst ` set d \<Longrightarrow> AList.update k v d = d @ [(k, v)]" by (induction d) auto
    with Cons show ?case by (auto simp: kv)
  qed
  from this [of "[]"] show "distinct (map fst kvs) \<Longrightarrow> dict_of kvs = kvs"
    by (simp add: dict_of_def)
qed

definition seps_ok :: "string \<Rightarrow> string \<Rightarrow> bool" where
  "seps_ok sep ks = ((sep, ks) \<in> {('','', '':''), ('', '', '': '')})"

lemma seps_okE:
  assumes "seps_ok sep ks"
  obtains sp kp where "sep = CHR '','' # sp" "ks = CHR '':'' # kp"
    "\<And>s. skip_ws (sp @ s) = skip_ws s" "\<And>s. skip_ws (kp @ s) = skip_ws s"
  using assms by (auto simp: seps_ok_def)

lemma skip_ws_dumps [simp]:
  "skip_ws (dumps_gen a sep ks j @ r) = dumps_gen a sep ks j @ r"
  using dumps_hd [of a sep ks j] by auto

lemma skip_ws_dumps_items:
  "js \<noteq> [] \<Longrightarrow> skip_ws (dumps_items a sep ks js @ r) = dumps_items a sep ks js @ r"
  by (cases js) auto

lemma p_items_dumps:
  assumes sep: "seps_ok sep ks"
    and ih: "\<And>j r. j \<in> set js \<Longrightarrow> numok r \<Longrightarrow> p_value (dumps_gen a sep ks j @ r) = Some (j, r)"
    and ne: "js \<noteq> []"
  shows "p_items (dumps_items a sep ks js @ CHR '']'' # r) = Some (js, r)"
  using ne ih
proof (induction js)
  case Nil
  then show ?case by simp
next
  case (Cons j js)
  obtain sp kp where s: "sep = CHR '','' # sp" "\<And>s. skip_ws (sp @ s) = skip_ws s"
    using sep by (elim seps_okE) blast
  have j: "numok r \<Longrightarrow> p_value (dumps_gen a sep ks j @ r) = Some (j, r)" for r
    using Cons.prems by simp
  show ?case
  proof (cases "js = []")
    case True
    then show ?thesis by (subst p_items.simps) (simp add: j)
  next
    case False
    let ?t = "dumps_items a sep ks js @ CHR '']'' # r"
    have r: "skip_ws (sp @ ?t) = ?t"
      using s(2) [of ?t] skip_ws_dumps_items [OF False, of a sep ks "CHR '']'' # r"] by simp
    have "p_items ?t = Some (js, r)"
      using Cons False by simp
    moreover have "p_value (dumps_gen a sep ks j @ CHR '','' # sp @ ?t) =
        Some (j, CHR '','' # sp @ ?t)"
      by (rule j) simp
    ultimately show ?thesis using False r
      by (subst p_items.simps) (simp add: s(1))
  qed
qed

lemma p_fields_dumps:
  assumes sep: "seps_ok sep ks"
    and ih: "\<And>kv r. kv \<in> set kvs \<Longrightarrow> numok r \<Longrightarrow>
        p_value (dumps_gen a sep ks (snd kv) @ r) = Some (snd kv, r)"
    and ne: "kvs \<noteq> []"
  shows "p_fields (dumps_fields a sep ks kvs @ CHR ''}'' # r) = Some (kvs, r)"
  using ne ih
proof (induction kvs)
  case Nil
  then show ?case by simp
next
  case (Cons kv kvs)
  obtain k j where kv: "kv = (k, j)" by (cases kv)
  obtain sp kp where s: "sep = CHR '','' # sp" "ks = CHR '':'' # kp"
      "\<And>s. skip_ws (sp @ s) = skip_ws s" "\<And>s. skip_ws (kp @ s) = skip_ws s"
    by (rule seps_okE [OF sep]) (rule that)
  have j: "numok r \<Longrightarrow> p_value (dumps_gen a sep ks j @ r) = Some (j, r)" for r
    using Cons.prems(2) [of "(k, j)"] kv by simp
  have k: "p_str (concat (map (esc_char a) k) @ CHR 0x22 # t) = Some (k, t)" for t
    by (rule p_str_dumps)
  show ?case
  proof (cases "kvs = []")
    case True
    then show ?thesis
      by (subst p_fields.simps) (simp add: kv dumps_str_def k s(2) s(4) j [unfolded s(2)])
  next
    case False
    let ?t = "dumps_fields a sep ks kvs @ CHR ''}'' # r"
    have "\<exists>u. dumps_fields a sep ks kvs = CHR 0x22 # u"
      using False by (cases kvs) (auto simp: dumps_str_def)
    then have r: "skip_ws (sp @ ?t) = ?t"
      using s(3) [of ?t] by auto
    have "p_fields ?t = Some (kvs, r)"
      using Cons False by simp
    moreover have "p_value (dumps_gen a sep ks j @ CHR '','' # sp @ ?t) =
        Some (j, CHR '','' # sp @ ?t)"
      by (rule j) simp
    ultimately show ?thesis using False r
      by (subst p_fields.simps) (simp add: kv dumps_str_def k s(2) s(4), simp add: s(1) s(2))
  qed
qed

lemma p_value_dumps:
  assumes "seps_ok sep ks"
  shows "jwf j \<Longrightarrow> numok r \<Longrightarrow> p_value (dumps_gen a sep ks j @ r) = Some (j, r)"
proof (induction j arbitrary: r)
  case JNull
  then show ?case by (simp add: p_value.simps(2))
next
  case (JBool b)
  then show ?case by (simp add: p_value.simps(2))
next
  case (JInt i)
  then show ?case by (simp add: p_value_int)
next
  case (JStr s)
  then show ?case by (simp add: p_value.simps(2) dumps_str_def p_str_dumps)
next
  case (JList js)
  show ?case
  proof (cases "js = []")
    case True
    then show ?thesis by (simp add: p_value.simps(2))
  next
    case False
    have "p_items (dumps_items a sep ks js @ CHR '']'' # r) = Some (js, r)"
      by (rule p_items_dumps [OF assms _ False]) (use JList in simp)
    moreover obtain c cs where "dumps_items a sep ks js = c # cs" "\<not> is_ws c" "c \<noteq> CHR '']''"
      using False dumps_hd [of a sep ks "hd js"] by (cases js) auto
    ultimately show ?thesis by (simp add: p_value.simps(2))
  qed
next
  case (JObj kvs)
  show ?case
  proof (cases "kvs = []")
    case True
    then show ?thesis by (simp add: p_value.simps(2))
  next
    case False
    have "p_fields (dumps_fields a sep ks kvs @ CHR ''}'' # r) = Some (kvs, r)"
      by (rule p_fields_dumps [OF assms _ False]) (use JObj in \<open>auto simp: prod.split_asm\<close>)
    moreover obtain cs where "dumps_fields a sep ks kvs = CHR 0x22 # cs"
      using False by (cases kvs) (auto simp: dumps_str_def)
    ultimately show ?thesis using JObj.prems by (simp add: p_value.simps(2) dict_of_distinct)
  qed
qed

lemma loads_dumps_gen:
  assumes "seps_ok sep ks" and "jwf j"
  shows "loads (dumps_gen a sep ks j) = Some j"
proof -
  have "p_value (dumps_gen a sep ks j) = Some (j, [])"
    using p_value_dumps [OF assms, of "[]"] by simp
  moreover have "skip_ws (dumps_gen a sep ks j) = dumps_gen a sep ks j"
    using skip_ws_dumps [of a sep ks j "[]"] by simp
  ultimately show ?thesis by (simp add: loads_def skip_ws_def)
qed

lemma loads_dumps [simp]:
  "jwf j \<Longrightarrow> loads (dumps j) = Some j"
  "jwf j \<Longrightarrow> loads (dumps_uni j) = Some j"
  "jwf j \<Longrightarrow> loads (dumps_compact j) = Some j"
  by (simp_all add: dumps_def dumps_uni_def dumps_compact_def loads_dumps_gen seps_ok_def)

lemma dumps_nonempty [simp]: "dumps_gen a sep ks j \<noteq> []"
  using dumps_hd [of a sep ks j] by auto


text \<open>What \<open>loads\<close> returns is always a value with distinct keys.\<close>

lemma dict_of_fold:
  "distinct (map fst d) \<Longrightarrow> distinct (map fst (fold (\<lambda>(k, v) d. AList.update k v d) kvs d))
     \<and> snd ` set (fold (\<lambda>(k, v) d. AList.update k v d) kvs d) \<subseteq> snd ` set d \<union> snd ` set kvs"
proof (induction kvs arbitrary: d)
  case Nil
  then show ?case by simp
next
  case (Cons kv kvs)
  obtain k v where kv: "kv = (k, v)" by (cases kv)
  have "snd ` set (AList.update k v d) \<subseteq> snd ` set d \<union> {v}"
    by (induction d) auto
  then have u: "snd ` set (AList.update k v d) \<union> snd ` set kvs \<subseteq> snd ` set d \<union> snd ` set (kv # kvs)"
    using kv by auto
  have "distinct (map fst (AList.update k v d))"
    using Cons.prems by (simp add: distinct_update)
  from Cons.IH [OF this]
  have "distinct (map fst (fold (\<lambda>(k, v) d. AList.update k v d) kvs (AList.update k v d)))"
    and "snd ` set (fold (\<lambda>(k, v) d. AList.update k v d) kvs (AList.update k v d))
       \<subseteq> snd ` set (AList.update k v d) \<union> snd ` set kvs"
    by (rule conjunct1, rule conjunct2)
  from this(1) subset_trans [OF this(2) u] show ?case
    by (simp only: kv fold_Cons comp_apply prod.case simp_thms)
qed

lemma jwf_dict_of: "\<forall>kv \<in> set kvs. jwf (snd kv) \<Longrightarrow> jwf (JObj (dict_of kvs))"
  using dict_of_fold [of "[]" kvs] by (fastforce simp: dict_of_def)

lemma jwf_JObj_Nil: "jwf (JObj [])"
  by simp

lemma p_value_jwf:
  "p_value s = Some (j, r) \<Longrightarrow> jwf j"
  "p_items s' = Some (js, r') \<Longrightarrow> \<forall>j \<in> set js. jwf j"
  "p_fields s'' = Some (kvs, r'') \<Longrightarrow> \<forall>kv \<in> set kvs. jwf (snd kv)"
proof (induction s and s' and s'' arbitrary: j r and js r' and kvs r'' rule: p_value_p_items_p_fields.induct)
  case (2 c cs)
  show ?case
    using 2(3) 2(1) 2(2)
    by (subst (asm) p_value.simps(2))
       (auto simp: p_int_def Let_def jwf_dict_of jwf_JObj_Nil simp del: jwf.simps(6) split: if_splits prod.splits)
next
  case (3 s)
  from 3(3) obtain j t where v: "p_value s = Some (j, t)"
    by (subst (asm) p_items.simps) (auto split: option.splits)
  with 3(3) obtain d ds where t: "skip_ws t = d # ds"
    by (subst (asm) p_items.simps) (auto split: list.splits)
  have j: "jwf j" using 3(1) v by blast
  show ?case
  proof (cases "d = CHR '']''")
    case True
    with 3(3) v t j show ?thesis by (subst (asm) p_items.simps) auto
  next
    case False
    with 3(3) v t obtain js' u where "js = j # js'" "p_items (skip_ws ds) = Some (js', u)"
      "d = CHR '',''" "length (skip_ws ds) < length s"
      by (subst (asm) p_items.simps) (auto split: if_splits)
    with 3(2) [OF v refl t False] j show ?thesis by auto
  qed
next
  case (4 s)
  from 4(3) obtain qs k t where s: "s = CHR 0x22 # qs" "p_str qs = Some (k, t)"
    by (subst (asm) p_fields.simps) (auto split: list.splits if_splits option.splits)
  with 4(3) obtain ds where t: "skip_ws t = CHR '':'' # ds" "length (skip_ws ds) < length s"
    by (subst (asm) p_fields.simps) (auto split: list.splits if_splits)
  with s 4(3) obtain j u where v: "p_value (skip_ws ds) = Some (j, u)"
    by (subst (asm) p_fields.simps) (auto split: option.splits)
  with s t 4(3) obtain e es where e: "skip_ws u = e # es"
    by (subst (asm) p_fields.simps) (auto split: list.splits)
  have j: "jwf j" using 4(1) s t v by auto
  show ?case
  proof (cases "e = CHR ''}''")
    case True
    with 4(3) s t v e j show ?thesis by (subst (asm) p_fields.simps) auto
  next
    case False
    with 4(3) s t v e obtain kvs' w where "kvs = (k, j) # kvs'" "p_fields (skip_ws es) = Some (kvs', w)"
      "e = CHR '',''" "length (skip_ws es) < length s"
      by (subst (asm) p_fields.simps) (auto split: if_splits)
    with 4(2) s t v e False j show ?thesis by auto
  qed
qed simp_all

lemma loads_jwf: "loads s = Some j \<Longrightarrow> jwf j"
  by (auto simp: loads_def dest: p_value_jwf(1) split: option.splits if_splits)

end
