(* ===== verification/Objects.thy ===== *)
theory Objects
  imports PyJson
begin

text \<open>
  The object layer of \<^verbatim>\<open>src/src/anbar/objects.py\<close>: object ids and blob names, the chunk
  manifest with its JSON form, the byte-range mapping \<open>map_range\<close>, and the chunker
  \<open>chunk_stream\<close>, which drains a byte stream in pieces of \<open>chunk_size\<close>. The stream is the
  interface \<open>byte_stream\<close>; the hash and the MAC are parameters.
\<close>

section \<open>Ids and names\<close>

(* src: src/src/anbar/objects.py 17-17 _ALPHABET *)
definition id_alphabet :: string where
  "id_alphabet = ''abcdefghjkmnpqrstuvwxyz23456789ABCDEFGHJKMNPQRSTUVWXYZ''"

definition id_len :: nat where
  "id_len = 12"

text \<open>The draws of \<^verbatim>\<open>secrets.choice\<close> are the indices \<open>draws\<close> into the alphabet.\<close>

(* src: src/src/anbar/objects.py auto new_object_id *)
definition new_object_id :: "nat list \<Rightarrow> string" where
  "new_object_id draws = map (\<lambda>d. id_alphabet ! d) (take id_len draws)"

(* src: src/src/anbar/objects.py auto opaque_chunk_name *)
definition pad4 :: "nat \<Rightarrow> string" where
  "pad4 n = replicate (4 - length (str_of_nat n)) (CHR ''0'') @ str_of_nat n"

(* src: src/src/anbar/objects.py auto opaque_chunk_name *)
definition opaque_chunk_name :: "string \<Rightarrow> nat \<Rightarrow> string" where
  "opaque_chunk_name token chunk_index = ''blob_'' @ token @ ''_'' @ pad4 chunk_index @ ''.bin''"

section \<open>Manifests\<close>

(* src: src/src/anbar/objects.py auto Chunk *)
record chunk =
  c_index :: int
  c_size :: int
  c_file_id :: string
  c_message_id :: "int option"
  c_bot_file_id :: "string option"
  c_backend :: "string option"

(* src: src/src/anbar/objects.py auto Manifest *)
record manifest =
  m_chunks :: "chunk list"
  m_total_size :: int

(* src: src/src/anbar/objects.py 61-72 Manifest.to_json *)
definition chunk_json :: "chunk \<Rightarrow> json" where
  "chunk_json c = JObj (
     [(''i'', JInt (c_index c)), (''s'', JInt (c_size c)), (''f'', JStr (c_file_id c))]
     @ (case c_message_id c of None \<Rightarrow> [] | Some m \<Rightarrow> [(''m'', JInt m)])
     @ (case c_bot_file_id c of None \<Rightarrow> [] | Some b \<Rightarrow> [(''b'', JStr b)])
     @ (if truthy_str (c_backend c) then [(''k'', jstr_opt (c_backend c))] else []))"

(* src: src/src/anbar/objects.py auto Manifest.to_json *)
definition manifest_json :: "manifest \<Rightarrow> json" where
  "manifest_json m = JObj [(''chunks'', JList (map chunk_json (m_chunks m))),
                           (''size'', JInt (m_total_size m))]"

(* src: src/src/anbar/objects.py auto Manifest.to_json *)
definition to_json :: "manifest \<Rightarrow> string" where
  "to_json m = dumps_compact (manifest_json m)"

text \<open>
  \<^verbatim>\<open>d[k]\<close> and \<^verbatim>\<open>d.get(k)\<close> on a decoded value, at the type the code goes on to use. Python
  does not check these types; a value of another type is reported as \<open>TypeError\<close>.
\<close>

definition j_item :: "json \<Rightarrow> string \<Rightarrow> json res" where
  "j_item j k = (case j of
     JObj kvs \<Rightarrow> (case map_of kvs k of None \<Rightarrow> Inl (KeyError k) | Some v \<Rightarrow> Inr v)
   | _ \<Rightarrow> Inl TypeError)"

definition as_int :: "json \<Rightarrow> int res" where
  "as_int j = (case j of JInt i \<Rightarrow> Inr i | _ \<Rightarrow> Inl TypeError)"

definition as_str :: "json \<Rightarrow> string res" where
  "as_str j = (case j of JStr s \<Rightarrow> Inr s | _ \<Rightarrow> Inl TypeError)"

definition as_list :: "json \<Rightarrow> json list res" where
  "as_list j = (case j of JList l \<Rightarrow> Inr l | _ \<Rightarrow> Inl TypeError)"

definition get_int :: "json \<Rightarrow> string \<Rightarrow> int option res" where
  "get_int j k = (case jget j k of
     None \<Rightarrow> Inr None | Some JNull \<Rightarrow> Inr None | Some (JInt i) \<Rightarrow> Inr (Some i) | _ \<Rightarrow> Inl TypeError)"

definition get_str :: "json \<Rightarrow> string \<Rightarrow> string option res" where
  "get_str j k = (case jget j k of
     None \<Rightarrow> Inr None | Some JNull \<Rightarrow> Inr None | Some (JStr i) \<Rightarrow> Inr (Some i) | _ \<Rightarrow> Inl TypeError)"

fun mapr :: "('a \<Rightarrow> 'b res) \<Rightarrow> 'a list \<Rightarrow> 'b list res" where
  "mapr f [] = Inr []"
| "mapr f (x # xs) = rbind (f x) (\<lambda>y. rbind (mapr f xs) (\<lambda>ys. Inr (y # ys)))"

(* src: src/src/anbar/objects.py 80-90 Manifest.from_json *)
definition chunk_of_json :: "json \<Rightarrow> chunk res" where
  "chunk_of_json c =
     rbind (rbind (j_item c ''i'') as_int) (\<lambda>i.
     rbind (rbind (j_item c ''s'') as_int) (\<lambda>s.
     rbind (rbind (j_item c ''f'') as_str) (\<lambda>f.
     rbind (get_int c ''m'') (\<lambda>m.
     rbind (get_str c ''b'') (\<lambda>b.
     rbind (get_str c ''k'') (\<lambda>k.
       Inr \<lparr>c_index = i, c_size = s, c_file_id = f, c_message_id = m,
            c_bot_file_id = b, c_backend = k\<rparr>))))))"

(* src: src/src/anbar/objects.py auto Manifest.from_json *)
definition from_json :: "string \<Rightarrow> manifest res" where
  "from_json raw = (case loads raw of
     None \<Rightarrow> Inl (ValueError ''json'')
   | Some d \<Rightarrow>
       rbind (rbind (j_item d ''chunks'') as_list) (\<lambda>cs.
       rbind (mapr chunk_of_json cs) (\<lambda>chunks.
       rbind (rbind (j_item d ''size'') as_int) (\<lambda>sz.
         Inr \<lparr>m_chunks = chunks, m_total_size = sz\<rparr>))))"

(* src: src/src/anbar/objects.py auto Manifest.prefix_sizes *)
fun prefix_from :: "int \<Rightarrow> chunk list \<Rightarrow> int list" where
  "prefix_from acc [] = []"
| "prefix_from acc (c # cs) = (acc + c_size c) # prefix_from (acc + c_size c) cs"

(* src: src/src/anbar/objects.py auto Manifest.prefix_sizes *)
definition prefix_sizes :: "manifest \<Rightarrow> int list" where
  "prefix_sizes m = prefix_from 0 (m_chunks m)"

text \<open>\<^verbatim>\<open>next(i for i, e in enumerate(ends) if e > pos)\<close>\<close>

(* src: src/src/anbar/objects.py 115-116 Manifest.map_range *)
fun first_beyond :: "int \<Rightarrow> int list \<Rightarrow> nat option" where
  "first_beyond pos [] = None"
| "first_beyond pos (e # es) = (if e > pos then Some 0 else map_option Suc (first_beyond pos es))"

lemma first_beyond_Some: "first_beyond pos es = Some i \<Longrightarrow> i < length es \<and> pos < es ! i"
  by (induction es arbitrary: i) (auto split: if_splits)

(* src: src/src/anbar/objects.py 114-122 Manifest.map_range *)
function map_range_loop :: "int list \<Rightarrow> int \<Rightarrow> int \<Rightarrow> (nat \<times> int \<times> int) list res" where
  "map_range_loop ends pos stop =
     (if pos < stop then
        (case first_beyond pos ends of
           None \<Rightarrow> Inl StopIteration
         | Some i \<Rightarrow>
             let chunk_start = (if i > 0 then ends ! (i - 1) else 0);
                 off = pos - chunk_start;
                 n = min (ends ! i - pos) (stop - pos)
             in rbind (map_range_loop ends (pos + n) stop) (\<lambda>out. Inr ((i, off, n) # out)))
      else Inr [])"
  by pat_completeness auto
termination
  by (relation "measure (\<lambda>(ends, pos, stop). nat (stop - pos))")
     (auto dest: first_beyond_Some)

declare map_range_loop.simps [simp del]

(* src: src/src/anbar/objects.py auto Manifest.map_range *)
definition map_range :: "manifest \<Rightarrow> int \<Rightarrow> int \<Rightarrow> (nat \<times> int \<times> int) list res" where
  "map_range m start stop =
     (if \<not> (0 \<le> start \<and> start < stop \<and> stop \<le> m_total_size m)
      then Inl (ValueError ''range outside object'')
      else map_range_loop (prefix_sizes m) start stop)"

section \<open>Manifest round trip\<close>

text \<open>An empty backend name is written as no name.\<close>

definition norm_chunk :: "chunk \<Rightarrow> chunk" where
  "norm_chunk c = c\<lparr>c_backend := (if truthy_str (c_backend c) then c_backend c else None)\<rparr>"

lemma mapr_map: "(\<And>x. x \<in> set xs \<Longrightarrow> f (g x) = Inr (h x)) \<Longrightarrow> mapr f (map g xs) = Inr (map h xs)"
  by (induction xs) simp_all

lemma chunk_of_json_chunk_json: "chunk_of_json (chunk_json c) = Inr (norm_chunk c)"
  by (cases c)
     (auto simp: chunk_of_json_def chunk_json_def norm_chunk_def j_item_def as_int_def as_str_def
        get_int_def get_str_def jstr_opt_def truthy_str_def split: option.splits)

lemma jwf_chunk_json: "jwf (chunk_json c)"
  by (auto simp: chunk_json_def jstr_opt_def split: option.splits)

lemma from_json_to_json:
  "from_json (to_json m) = Inr \<lparr>m_chunks = map norm_chunk (m_chunks m), m_total_size = m_total_size m\<rparr>"
proof -
  have "jwf (manifest_json m)"
    by (auto simp: manifest_json_def jwf_chunk_json)
  then show ?thesis
    by (simp add: from_json_def to_json_def)
       (simp add: manifest_json_def j_item_def as_list_def as_int_def mapr_map chunk_of_json_chunk_json)
qed

text \<open>C9: a stored manifest reads back as it was written: parsing the JSON that \<open>to_json\<close>
  prints gives the same chunks and total size (an empty backend name counts as none).\<close>

theorem manifest_roundtrip:
  "from_json (to_json m) = Inr \<lparr>m_chunks = map norm_chunk (m_chunks m), m_total_size = m_total_size m\<rparr>"
  by (rule from_json_to_json)

section \<open>Byte ranges\<close>

text \<open>The bytes a mapped range reads from the chunk contents \<open>ds\<close>.\<close>

definition read_piece :: "'b list list \<Rightarrow> nat \<times> int \<times> int \<Rightarrow> 'b list" where
  "read_piece ds p = (case p of (i, off, n) \<Rightarrow> take (nat n) (drop (nat off) (ds ! i)))"

lemma first_beyond_None: "first_beyond pos es = None \<longleftrightarrow> (\<forall>e \<in> set es. e \<le> pos)"
  by (induction es) auto

lemma first_beyond_before: "first_beyond pos es = Some i \<Longrightarrow> j < i \<Longrightarrow> es ! j \<le> pos"
  by (induction es arbitrary: i j) (auto simp: nth_Cons split: if_splits nat.splits)

lemma length_prefix_from [simp]: "length (prefix_from acc cs) = length cs"
  by (induction cs arbitrary: acc) auto

lemma prefix_from_nth:
  "i < length cs \<Longrightarrow> prefix_from acc cs ! i = acc + sum_list (map c_size (take (Suc i) cs))"
  by (induction cs arbitrary: i acc) (auto simp: nth_Cons split: nat.splits)

definition holds :: "chunk list \<Rightarrow> 'b list list \<Rightarrow> bool" where
  "holds cs ds = (map c_size cs = map (\<lambda>d. int (length d)) ds)"

lemma holds_length: "holds cs ds \<Longrightarrow> length cs = length ds"
  unfolding holds_def by (metis length_map)

lemma sum_list_int: "sum_list (map (\<lambda>d. int (f d)) xs) = int (sum_list (map f xs))"
  by (induction xs) auto

lemma prefix_nth_concat:
  assumes "holds cs ds" and "i < length ds"
  shows "prefix_from 0 cs ! i = int (length (concat (take (Suc i) ds)))"
proof -
  have "map c_size (take (Suc i) cs) = map (\<lambda>d. int (length d)) (take (Suc i) ds)"
    using assms(1) by (metis holds_def take_map)
  then show ?thesis
    using assms holds_length [OF assms(1)]
    by (simp add: prefix_from_nth length_concat sum_list_int del: take_Suc_conv_app_nth)
qed

lemma drop_concat_nth:
  assumes "i < length ds" and "off \<le> length (ds ! i)"
  shows "drop (length (concat (take i ds)) + off) (concat ds)
     = drop off (ds ! i) @ concat (drop (Suc i) ds)"
proof -
  have "concat ds = concat (take i ds) @ ds ! i @ concat (drop (Suc i) ds)"
    using id_take_nth_drop [OF assms(1)] by (metis concat.simps(2) concat_append)
  then show ?thesis using assms(2) by simp
qed

text \<open>One step of the loop: the chunk that holds \<open>pos\<close>.\<close>

lemma first_beyond_chunk:
  assumes h: "holds cs ds" and pos: "0 \<le> pos" "pos < int (length (concat ds))"
  obtains i where "first_beyond pos (prefix_from 0 cs) = Some i" and "i < length ds"
    and "(if i > 0 then prefix_from 0 cs ! (i - 1) else 0) = int (length (concat (take i ds)))"
    and "int (length (concat (take i ds))) \<le> pos"
    and "prefix_from 0 cs ! i = int (length (concat (take i ds))) + int (length (ds ! i))"
    and "pos < prefix_from 0 cs ! i"
proof -
  let ?es = "prefix_from 0 cs"
  have len: "length cs = length ds" by (rule holds_length [OF h])
  have ne: "ds \<noteq> []" using pos by auto
  have "?es ! (length ds - 1) = int (length (concat ds))"
    using prefix_nth_concat [OF h, of "length ds - 1"] ne by simp
  moreover have "?es ! (length ds - 1) \<in> set ?es"
    using ne len by (intro nth_mem) simp
  ultimately have "first_beyond pos ?es \<noteq> None"
    using pos(2) by (simp only: first_beyond_None) (metis not_less)
  then obtain i where i: "first_beyond pos ?es = Some i" by auto
  with first_beyond_Some have il: "i < length ds" and gt: "pos < ?es ! i"
    using len by fastforce+
  have start: "(if i > 0 then ?es ! (i - 1) else 0) = int (length (concat (take i ds)))"
    using prefix_nth_concat [OF h, of "i - 1"] il by auto
  moreover have "(if i > 0 then ?es ! (i - 1) else 0) \<le> pos"
    using first_beyond_before [OF i, of "i - 1"] pos(1) by auto
  moreover have "?es ! i = int (length (concat (take i ds))) + int (length (ds ! i))"
    using prefix_nth_concat [OF h il] il by (simp add: take_Suc_conv_app_nth)
  ultimately show ?thesis using that [OF i il] gt by simp
qed

lemma map_range_loop_exact:
  assumes h: "holds cs ds" and "0 \<le> pos" "pos \<le> stop" "stop \<le> int (length (concat ds))"
  shows "\<exists>rs. map_range_loop (prefix_from 0 cs) pos stop = Inr rs
     \<and> concat (map (read_piece ds) rs) = take (nat (stop - pos)) (drop (nat pos) (concat ds))
     \<and> (\<forall>(i, off, n) \<in> set rs. i < length ds \<and> 0 \<le> off \<and> 0 < n \<and> off + n \<le> int (length (ds ! i)))"
  using assms(2-4)
proof (induction "nat (stop - pos)" arbitrary: pos rule: less_induct)
  case less
  let ?es = "prefix_from 0 cs"
  show ?case
  proof (cases "pos < stop")
    case False
    with less.prems show ?thesis by (simp add: map_range_loop.simps)
  next
    case True
    let ?pre = "\<lambda>i. int (length (concat (take i ds)))"
    have "pos < int (length (concat ds))" using True less.prems by simp
    from first_beyond_chunk [OF h less.prems(1) this]
    obtain i where i: "first_beyond pos ?es = Some i" and il: "i < length ds"
      and st: "(if i > 0 then ?es ! (i - 1) else 0) = ?pre i" and lo: "?pre i \<le> pos"
      and e: "?es ! i = ?pre i + int (length (ds ! i))" and gt: "pos < ?es ! i" .
    define n where "n = min (?es ! i - pos) (stop - pos)"
    define off where "off = pos - ?pre i"
    have n: "0 < n" "n \<le> stop - pos" using gt True by (auto simp: n_def)
    have ob: "0 \<le> off" "off + n \<le> int (length (ds ! i))"
      using lo e by (auto simp: off_def n_def)
    obtain rs where rs: "map_range_loop ?es (pos + n) stop = Inr rs"
      "concat (map (read_piece ds) rs) = take (nat (stop - (pos + n))) (drop (nat (pos + n)) (concat ds))"
      "\<forall>(i, off, n) \<in> set rs. i < length ds \<and> 0 \<le> off \<and> 0 < n \<and> off + n \<le> int (length (ds ! i))"
      using less.hyps [of "pos + n"] n less.prems by auto
    have "drop (nat pos) (concat ds) = drop (nat off) (ds ! i) @ concat (drop (Suc i) ds)"
      using drop_concat_nth [OF il, of "nat off"] ob lo n
      by (simp add: off_def nat_diff_distrib)
    then have "take (nat n) (drop (nat pos) (concat ds)) = read_piece ds (i, off, n)"
      using ob n by (simp add: read_piece_def)
    moreover have "nat (stop - pos) = nat n + nat (stop - (pos + n))"
      "nat (pos + n) = nat n + nat pos" using n less.prems by auto
    ultimately have "take (nat (stop - pos)) (drop (nat pos) (concat ds))
        = read_piece ds (i, off, n) @ concat (map (read_piece ds) rs)"
      using rs(2) by (simp add: take_add)
    moreover have "map_range_loop ?es pos stop = Inr ((i, off, n) # rs)"
      using i rs(1) True by (subst map_range_loop.simps) (simp add: st off_def n_def Let_def)
    ultimately show ?thesis using rs(3) ob n(1) il by auto
  qed
qed

text \<open>C8: \<open>map_range\<close> never fails on a range inside the object, every piece it lists lies
  inside its chunk, and the pieces read from the chunk contents in that order are exactly
  the bytes \<open>[start, stop)\<close> of the object.\<close>

theorem map_range_exact:
  assumes "holds (m_chunks m) ds" and "m_total_size m = int (length (concat ds))"
    and "0 \<le> start" and "start < stop" and "stop \<le> m_total_size m"
  shows "\<exists>rs. map_range m start stop = Inr rs
     \<and> concat (map (read_piece ds) rs) = take (nat (stop - start)) (drop (nat start) (concat ds))
     \<and> (\<forall>(i, off, n) \<in> set rs. i < length ds \<and> 0 \<le> off \<and> 0 < n \<and> off + n \<le> int (length (ds ! i)))"
  using map_range_loop_exact [OF assms(1), of start stop] assms
  by (simp add: map_range_def prefix_sizes_def)

definition demo_manifest :: manifest where
  "demo_manifest = \<lparr>m_chunks = [\<lparr>c_index = 0, c_size = 3, c_file_id = ''a'', c_message_id = None,
      c_bot_file_id = None, c_backend = None\<rparr>, \<lparr>c_index = 1, c_size = 2, c_file_id = ''b'',
      c_message_id = Some 7, c_bot_file_id = None, c_backend = None\<rparr>], m_total_size = 5\<rparr>"

lemma map_range_exact_witness:
  "\<exists>rs. map_range demo_manifest 1 4 = Inr rs
     \<and> concat (map (read_piece [[10, 11, 12], [13, 14 :: nat]]) rs) = [11, 12, 13]"
  using map_range_exact [of demo_manifest "[[10, 11, 12], [13, 14 :: nat]]" 1 4]
  by (auto simp: demo_manifest_def holds_def eval_nat_numeral)

text \<open>Also: outside the object \<open>map_range\<close> raises, and the empty range is outside it.\<close>

theorem map_range_rejects:
  "(\<exists>e. map_range m start stop = Inl (ValueError e))
     \<longleftrightarrow> start < 0 \<or> stop \<le> start \<or> m_total_size m < stop"
proof -
  have "map_range_loop es pos st \<noteq> Inl (ValueError e)" for es pos st e
  proof (induction es pos st rule: map_range_loop.induct)
    case (1 ends pos stop)
    then show ?case
      by (subst map_range_loop.simps)
         (auto simp: Let_def rbind_def split: option.splits sum.splits)
  qed
  then show ?thesis by (auto simp: map_range_def)
qed


section \<open>The chunker\<close>

lemma buffer_grows: "p \<noteq> [] \<Longrightarrow> n < c \<Longrightarrow> c - (n + length p) < c - n"
  by (cases p) auto

text \<open>
  \<open>fill\<close> is the inner loop of \<^verbatim>\<open>chunk_stream\<close>: read until the buffer holds \<open>csize\<close> bytes or
  the stream returns an empty piece. The state \<open>s\<close> is the stream's. It always ends, since
  every piece it keeps makes the buffer longer.
\<close>

(* src: src/src/anbar/objects.py 148-155 chunk_stream *)
function fill :: "('s \<Rightarrow> nat \<Rightarrow> ('b list \<times> 's) res) \<Rightarrow> nat option \<Rightarrow> nat \<Rightarrow> nat \<Rightarrow> 's \<Rightarrow> 'b list
     \<Rightarrow> ('b list \<times> 's) res" where
  "fill read max_bytes tot csize s buf =
     (if length buf < csize then
        (case read s (csize - length buf) of
           Inl e \<Rightarrow> Inl e
         | Inr (piece, s') \<Rightarrow>
             if piece = [] then Inr (buf, s')
             else if (case max_bytes of None \<Rightarrow> False | Some m \<Rightarrow> tot + length (buf @ piece) > m)
             then Inl UploadCeilingExceeded
             else fill read max_bytes tot csize s' (buf @ piece))
      else Inr (buf, s))"
  by pat_completeness auto
termination
  by (relation "measure (\<lambda>(read, max_bytes, tot, csize, s, buf). csize - length buf)") (auto simp: buffer_grows)

declare fill.simps [simp del]

text \<open>
  The outer loop, which an endless stream keeps running: \<open>None\<close> is not returning.
  \<open>on_chunk\<close> is the caller's callback on its state \<open>st\<close>; what it stored before an error stays
  in the state that is returned with the error. \<open>hashed\<close> collects the bytes given to
  \<^verbatim>\<open>h.update\<close>, and \<open>sha\<close> is SHA-256 over them.
\<close>

(* src: src/src/anbar/objects.py 144-162 chunk_stream *)
partial_function (option) chunk_loop ::
  "('b list \<Rightarrow> string) \<Rightarrow> ('s \<Rightarrow> nat \<Rightarrow> ('b list \<times> 's) res) \<Rightarrow> nat
     \<Rightarrow> ('b list \<Rightarrow> bool \<Rightarrow> 'st \<Rightarrow> 'st \<times> string res) \<Rightarrow> bool \<Rightarrow> nat option
     \<Rightarrow> 's \<Rightarrow> 'st \<Rightarrow> nat \<Rightarrow> nat \<Rightarrow> 'b list \<Rightarrow> ('st \<times> (nat \<times> string) res) option" where
  "chunk_loop sha read csize on_chunk media max_bytes s st tot index hashed =
     (case fill read max_bytes tot csize s [] of
        Inl e \<Rightarrow> Some (st, Inl e)
      | Inr (buf, s') \<Rightarrow>
          if buf = [] then Some (st, Inr (tot, sha hashed))
          else (case on_chunk buf (index = 0 \<and> media) st of
                  (st', Inl e) \<Rightarrow> Some (st', Inl e)
                | (st', Inr _) \<Rightarrow>
                    chunk_loop sha read csize on_chunk media max_bytes s' st'
                      (tot + length buf) (index + 1) (hashed @ buf)))"

(* src: src/src/anbar/objects.py auto chunk_stream *)
definition chunk_stream ::
  "('b list \<Rightarrow> string) \<Rightarrow> ('s \<Rightarrow> nat \<Rightarrow> ('b list \<times> 's) res) \<Rightarrow> nat
     \<Rightarrow> ('b list \<Rightarrow> bool \<Rightarrow> 'st \<Rightarrow> 'st \<times> string res) \<Rightarrow> bool \<Rightarrow> nat option
     \<Rightarrow> 's \<Rightarrow> 'st \<Rightarrow> ('st \<times> (nat \<times> string) res) option" where
  "chunk_stream sha read csize on_chunk media max_bytes s st =
     chunk_loop sha read csize on_chunk media max_bytes s st 0 0 []"

text \<open>The reference: cut the bytes into pieces of \<open>csize\<close> and hand them over in order.\<close>

function chop :: "nat \<Rightarrow> 'b list \<Rightarrow> 'b list list" where
  "chop n xs = (if xs = [] \<or> n = 0 then [] else take n xs # chop n (drop n xs))"
  by pat_completeness auto
termination
  by (relation "measure (\<lambda>(n, xs). length xs)") auto

declare chop.simps [simp del]

fun feed :: "('b list \<Rightarrow> bool \<Rightarrow> 'st \<Rightarrow> 'st \<times> string res) \<Rightarrow> bool \<Rightarrow> 'b list list \<Rightarrow> 'st \<Rightarrow> 'st \<times> unit res" where
  "feed on_chunk first [] st = (st, Inr ())"
| "feed on_chunk first (c # cs) st =
     (case on_chunk c first st of
        (st', Inl e) \<Rightarrow> (st', Inl e)
      | (st', Inr _) \<Rightarrow> feed on_chunk False cs st')"

lemma concat_chop: "0 < n \<Longrightarrow> concat (chop n xs) = xs"
proof (induction n xs rule: chop.induct)
  case (1 n xs)
  then show ?case by (subst chop.simps) auto
qed

lemma chop_sizes: "c \<in> set (chop n xs) \<Longrightarrow> c \<noteq> [] \<and> length c \<le> n"
proof (induction n xs rule: chop.induct)
  case (1 n xs)
  then show ?case by (subst (asm) (2) chop.simps) (auto split: if_splits)
qed

lemma length_chop: "0 < n \<Longrightarrow> length (chop n xs) = (length xs + n - 1) div n"
proof (induction n xs rule: chop.induct)
  case (1 n xs)
  show ?case
  proof (cases "xs = []")
    case True
    then show ?thesis using 1 by (simp add: chop.simps)
  next
    case False
    have "(length xs + n - 1) div n = Suc ((length (drop n xs) + n - 1) div n)"
    proof (cases "length xs \<le> n")
      case True
      moreover have "0 < length xs" using False by simp
      ultimately have "(length xs + n - 1) div n = Suc ((length xs - 1) div n)"
        using 1(2) by (metis Nat.add_diff_assoc2 One_nat_def Suc_leI div_add_self2 less_numeral_extra(3) Suc_eq_plus1)
      with True 1(2) False show ?thesis
        by (simp add: div_less)
    next
      case False
      then have "length xs + n - 1 = (length (drop n xs) + n - 1) + n" using 1(2) by simp
      then show ?thesis using 1(2) by (metis Suc_eq_plus1 div_add_self2 less_numeral_extra(3))
    qed
    with 1 False show ?thesis by (subst chop.simps) simp
  qed
qed

text \<open>What the chunker needs of a reader in a good state (no stall, no cancellation ahead):
  it delivers the bytes \<open>rest\<close> in order, at most as many as asked for, and an empty piece
  only at the end.\<close>

locale byte_stream =
  fixes read :: "'s \<Rightarrow> nat \<Rightarrow> ('b list \<times> 's) res"
    and rest :: "'s \<Rightarrow> 'b list"
    and good :: "'s \<Rightarrow> bool"
  assumes read_delivers: "good s \<Longrightarrow> 0 < n \<Longrightarrow> \<exists>p s'. read s n = Inr (p, s') \<and> good s'
      \<and> rest s = p @ rest s' \<and> length p \<le> n \<and> (p = [] \<longrightarrow> rest s = [])"
begin

lemma fill_takes:
  assumes "good s" and "length buf \<le> csize"
    and "case max_bytes of None \<Rightarrow> True
       | Some m \<Rightarrow> tot + length buf + length (take (csize - length buf) (rest s)) \<le> m"
  shows "\<exists>s'. fill read max_bytes tot csize s buf = Inr (buf @ take (csize - length buf) (rest s), s')
     \<and> good s' \<and> rest s' = drop (csize - length buf) (rest s)"
  using assms
proof (induction "csize - length buf" arbitrary: s buf rule: less_induct)
  case less
  show ?case
  proof (cases "length buf < csize")
    case False
    with less.prems show ?thesis by (subst fill.simps) simp
  next
    case True
    let ?k = "csize - length buf"
    obtain p s' where r: "read s ?k = Inr (p, s')" "good s'" "rest s = p @ rest s'"
      "length p \<le> ?k" "p = [] \<longrightarrow> rest s = []"
      using read_delivers [OF less.prems(1), of ?k] True by auto
    show ?thesis
    proof (cases "p = []")
      case pe: True
      with r have "rest s' = []" by simp
      with True r pe show ?thesis by (subst fill.simps) simp
    next
      case False
      have "take ?k (rest s) = p @ take (?k - length p) (rest s')" using r(3,4) by simp
      moreover from this have "\<not> (case max_bytes of None \<Rightarrow> False | Some m \<Rightarrow> tot + length (buf @ p) > m)"
        using less.prems(3) by (auto split: option.splits)
      ultimately have st: "fill read max_bytes tot csize s buf = fill read max_bytes tot csize s' (buf @ p)"
        using True r(1) False by (subst fill.simps) (simp split: option.splits)
      have "\<exists>s''. fill read max_bytes tot csize s' (buf @ p) =
            Inr ((buf @ p) @ take (csize - length (buf @ p)) (rest s'), s'')
          \<and> good s'' \<and> rest s'' = drop (csize - length (buf @ p)) (rest s')"
      proof (rule less.hyps)
        show "csize - length (buf @ p) < csize - length buf" using buffer_grows [OF False True] by simp
        show "good s'" by (rule r)
        show "length (buf @ p) \<le> csize" using r(4) True by simp
        show "case max_bytes of None \<Rightarrow> True | Some m \<Rightarrow>
            tot + length (buf @ p) + length (take (csize - length (buf @ p)) (rest s')) \<le> m"
          using less.prems(3) r(3,4) by (auto split: option.splits simp: min_def split: if_splits)
      qed
      then show ?thesis using st r(3,4) by auto
    qed
  qed
qed

lemma fill_ceiling:
  assumes "good s" and "length buf \<le> csize" and "max_bytes = Some m"
    and "tot + length buf \<le> m"
    and "m < tot + length buf + length (take (csize - length buf) (rest s))"
  shows "fill read max_bytes tot csize s buf = Inl UploadCeilingExceeded"
  using assms
proof (induction "csize - length buf" arbitrary: s buf rule: less_induct)
  case less
  let ?k = "csize - length buf"
  have True: "length buf < csize" using less.prems by (cases "length buf < csize") auto
  then obtain p s' where r: "read s ?k = Inr (p, s')" "good s'" "rest s = p @ rest s'"
    "length p \<le> ?k" "p = [] \<longrightarrow> rest s = []"
    using read_delivers [OF less.prems(1), of ?k] by auto
  have pn: "p \<noteq> []" using r(5) less.prems by auto
  show ?case
  proof (cases "tot + length (buf @ p) > m")
    case over: True
    then show ?thesis using True r(1) pn less.prems(3) by (subst fill.simps) simp
  next
    case False
    have "fill read max_bytes tot csize s' (buf @ p) = Inl UploadCeilingExceeded"
    proof (rule less.hyps)
      show "csize - length (buf @ p) < csize - length buf" using buffer_grows [OF pn True] by simp
      show "good s'" by (rule r)
      show "length (buf @ p) \<le> csize" using r(4) True by simp
      show "max_bytes = Some m" by (rule less.prems)
      show "tot + length (buf @ p) \<le> m" using False by simp
      show "m < tot + length (buf @ p) + length (take (csize - length (buf @ p)) (rest s'))"
        using less.prems(5) r(3,4) by (auto simp: min_def split: if_splits)
    qed
    then show ?thesis using True r(1) pn less.prems(3) False by (subst fill.simps) simp
  qed
qed

text \<open>Under the ceiling the chunker is the reference.\<close>

lemma chunk_loop_feed:
  assumes "good s" and "0 < csize"
    and "case max_bytes of None \<Rightarrow> True | Some m \<Rightarrow> tot + length (rest s) \<le> m"
  shows "chunk_loop sha read csize on_chunk media max_bytes s st tot index hashed =
     (case feed on_chunk (index = 0 \<and> media) (chop csize (rest s)) st of
        (st', Inl e) \<Rightarrow> Some (st', Inl e)
      | (st', Inr _) \<Rightarrow> Some (st', Inr (tot + length (rest s), sha (hashed @ rest s))))"
  using assms
proof (induction "length (rest s)" arbitrary: s st tot index hashed rule: less_induct)
  case less
  have "case max_bytes of None \<Rightarrow> True
       | Some m \<Rightarrow> tot + length ([] :: 'b list) + length (take (csize - length ([] :: 'b list)) (rest s)) \<le> m"
    using less.prems(3) by (auto split: option.splits)
  from fill_takes [OF less.prems(1) _ this]
  obtain s' where f: "fill read max_bytes tot csize s [] = Inr (take csize (rest s), s')"
    and g: "good s'" and d: "rest s' = drop csize (rest s)"
    by auto
  show ?case
  proof (cases "rest s = []")
    case True
    then show ?thesis by (subst chunk_loop.simps) (simp add: f chop.simps)
  next
    case False
    have sp: "chop csize (rest s) = take csize (rest s) # chop csize (rest s')"
      using False less.prems(2) d by (subst chop.simps) simp
    have ne: "take csize (rest s) \<noteq> []" using False less.prems(2) by simp
    have lt: "length (rest s') < length (rest s)" using False less.prems(2) d by simp
    obtain st' r where o: "on_chunk (take csize (rest s)) (index = 0 \<and> media) st = (st', r)"
      by (cases "on_chunk (take csize (rest s)) (index = 0 \<and> media) st")
    have len: "length (take csize (rest s)) + length (rest s') = length (rest s)"
      and app: "take csize (rest s) @ rest s' = rest s" using d by simp_all
    show ?thesis
    proof (cases r)
      case (Inl e)
      then show ?thesis using f ne o by (subst chunk_loop.simps) (simp add: sp)
    next
      case (Inr x)
      have m: "case max_bytes of None \<Rightarrow> True
          | Some m \<Rightarrow> tot + length (take csize (rest s)) + length (rest s') \<le> m"
        using less.prems(3) len by (auto split: option.splits)
      have "chunk_loop sha read csize on_chunk media max_bytes s st tot index hashed =
          chunk_loop sha read csize on_chunk media max_bytes s' st'
            (tot + length (take csize (rest s))) (index + 1) (hashed @ take csize (rest s))"
        using f ne o Inr by (subst chunk_loop.simps) simp
      also have "\<dots> = (case feed on_chunk False (chop csize (rest s')) st' of
          (st'', Inl e) \<Rightarrow> Some (st'', Inl e)
        | (st'', Inr _) \<Rightarrow> Some (st'', Inr (tot + length (rest s), sha (hashed @ rest s))))"
        using less.hyps [OF lt g less.prems(2) m] app len by (simp add: add.assoc)
      finally show ?thesis using o Inr by (simp add: sp)
    qed
  qed
qed

lemma chunk_stream_feed:
  assumes "good s" and "0 < csize"
    and "case max_bytes of None \<Rightarrow> True | Some m \<Rightarrow> length (rest s) \<le> m"
  shows "chunk_stream sha read csize on_chunk media max_bytes s st =
     (case feed on_chunk media (chop csize (rest s)) st of
        (st', Inl e) \<Rightarrow> Some (st', Inl e)
      | (st', Inr _) \<Rightarrow> Some (st', Inr (length (rest s), sha (rest s))))"
proof -
  have "case max_bytes of None \<Rightarrow> True | Some m \<Rightarrow> 0 + length (rest s) \<le> m"
    using assms(3) by (cases max_bytes) simp_all
  from chunk_loop_feed [OF assms(1,2) this, of sha on_chunk media st 0 "[]"]
  show ?thesis by (simp add: chunk_stream_def split: prod.splits sum.splits)
qed

text \<open>Over the ceiling only whole chunks under it reach the callback, then the upload stops.\<close>

lemma chunk_loop_ceiling:
  assumes "good s" and "0 < csize" and "tot \<le> m" and "m < tot + length (rest s)"
  shows "chunk_loop sha read csize on_chunk media (Some m) s st tot index hashed =
     (case feed on_chunk (index = 0 \<and> media) (chop csize (take (csize * ((m - tot) div csize)) (rest s))) st of
        (st', Inl e) \<Rightarrow> Some (st', Inl e)
      | (st', Inr _) \<Rightarrow> Some (st', Inl UploadCeilingExceeded))"
  using assms
proof (induction "length (rest s)" arbitrary: s st tot index hashed rule: less_induct)
  case less
  show ?case
  proof (cases "m < tot + length (take csize (rest s))")
    case True
    have "fill read (Some m) tot csize s [] = Inl UploadCeilingExceeded"
      by (rule fill_ceiling [OF less.prems(1) _ refl]) (use True less.prems in auto)
    moreover have "(m - tot) div csize = 0"
      using True less.prems(3) by (intro div_less) auto
    ultimately show ?thesis by (subst chunk_loop.simps) (simp add: chop.simps)
  next
    case False
    have le: "tot + csize \<le> m"
      using False less.prems(4) by (auto simp: min_def split: if_splits)
    have "case Some m of None \<Rightarrow> True
       | Some m \<Rightarrow> tot + length ([] :: 'b list) + length (take (csize - length ([] :: 'b list)) (rest s)) \<le> m"
      using False by simp
    from fill_takes [OF less.prems(1) _ this]
    obtain s' where f: "fill read (Some m) tot csize s [] = Inr (take csize (rest s), s')"
      and g: "good s'" and d: "rest s' = drop csize (rest s)"
      by auto
    have lc: "length (take csize (rest s)) = csize"
      using False less.prems(4) le by (auto simp: min_def split: if_splits)
    have ne: "take csize (rest s) \<noteq> []" using lc less.prems(2) by auto
    define q where "q = (m - (tot + csize)) div csize"
    have e: "m - tot = (m - (tot + csize)) + csize" using le by linarith
    have q: "(m - tot) div csize = Suc q"
      unfolding e q_def using less.prems(2) by (metis Suc_eq_plus1 div_add_self2 not_less_zero)
    have ne2: "take (csize * Suc q) (rest s) \<noteq> []" using ne less.prems(2) by (cases "rest s") auto
    have sp: "chop csize (take (csize * Suc q) (rest s)) =
        take csize (rest s) # chop csize (take (csize * q) (rest s'))"
      using ne2 less.prems(2) d by (subst chop.simps) (simp add: drop_take min_absorb1)
    obtain st' r where o: "on_chunk (take csize (rest s)) (index = 0 \<and> media) st = (st', r)"
      by (cases "on_chunk (take csize (rest s)) (index = 0 \<and> media) st")
    show ?thesis
    proof (cases r)
      case (Inl e)
      then show ?thesis using f ne o by (subst chunk_loop.simps) (simp add: sp q del: mult_Suc_right)
    next
      case (Inr x)
      have "chunk_loop sha read csize on_chunk media (Some m) s st tot index hashed =
          chunk_loop sha read csize on_chunk media (Some m) s' st'
            (tot + csize) (index + 1) (hashed @ take csize (rest s))"
        using f ne o Inr lc by (subst chunk_loop.simps) simp
      also have "\<dots> = (case feed on_chunk False (chop csize (take (csize * q) (rest s'))) st' of
          (st'', Inl e) \<Rightarrow> Some (st'', Inl e)
        | (st'', Inr _) \<Rightarrow> Some (st'', Inl UploadCeilingExceeded))"
        using less.hyps [of s' "tot + csize" st' "index + 1"] g less.prems d lc le
        by (simp add: q_def)
      finally show ?thesis using o Inr by (simp add: sp q del: mult_Suc_right)
    qed
  qed
qed

end

end
