(* ===== verification/Readers.thy ===== *)
theory Readers
  imports Objects
begin

text \<open>
  The byte streams the chunker drains: the request body and the multipart file of
  \<^verbatim>\<open>api/upload.py\<close>, the origin response of \<^verbatim>\<open>api/ingest.py\<close> with its progress hook, and the
  Telegram download of \<^verbatim>\<open>telegram_ingest.py\<close>. What the network will still deliver is a list
  of arrivals: a piece of bytes (perhaps empty), a stall longer than the idle timeout, or
  a cancellation by the admin. Each reader is an instance of \<open>byte_stream\<close>.
\<close>

datatype 'b arrival = Piece "'b list" | Stall | Cancel

definition calm :: "'b arrival list \<Rightarrow> bool" where
  "calm as = (\<forall>a \<in> set as. case a of Piece _ \<Rightarrow> True | _ \<Rightarrow> False)"

fun bytes_of :: "'b arrival list \<Rightarrow> 'b list" where
  "bytes_of [] = []"
| "bytes_of (Piece p # as) = p @ bytes_of as"
| "bytes_of (_ # as) = bytes_of as"

lemma calm_Cons [simp]: "calm (a # as) \<longleftrightarrow> (\<exists>p. a = Piece p) \<and> calm as"
  by (auto simp: calm_def split: arrival.splits)

lemma calm_Nil [simp]: "calm []"
  by (simp add: calm_def)

lemma calm_pieces [simp]: "calm (map Piece ps)"
  by (induction ps) auto

lemma bytes_of_pieces [simp]: "bytes_of (map Piece ps) = concat ps"
  by (induction ps) auto

section \<open>The request body and the origin response\<close>

(* src: src/src/anbar/api/upload.py 378-395 _RequestBodyReader *)
record 'b body_reader =
  br_iter :: "'b arrival list"
  br_buf :: "'b list"
  br_eof :: bool

text \<open>The wait loop both readers share; they differ in the exception a stall raises.\<close>

(* src: src/src/anbar/api/upload.py 397-406 _RequestBodyReader.read *)
fun pull :: "exc \<Rightarrow> nat \<Rightarrow> 'b arrival list \<Rightarrow> 'b list \<Rightarrow> bool \<Rightarrow> 'b body_reader res" where
  "pull stall n [] buf eof =
     Inr \<lparr>br_iter = [], br_buf = buf, br_eof = (if length buf < n then True else eof)\<rparr>"
| "pull stall n (a # as) buf eof =
     (if length buf < n \<and> \<not> eof then
        (case a of
           Piece p \<Rightarrow> pull stall n as (buf @ p) eof
         | Stall \<Rightarrow> Inl stall
         | Cancel \<Rightarrow> pull stall n as buf eof)
      else Inr \<lparr>br_iter = a # as, br_buf = buf, br_eof = eof\<rparr>)"

(* src: src/src/anbar/api/upload.py auto _RequestBodyReader.read *)
definition body_read :: "'b body_reader \<Rightarrow> nat \<Rightarrow> ('b list \<times> 'b body_reader) res" where
  "body_read r n =
     rbind (pull BodyReadTimeout n (br_iter r) (br_buf r) (br_eof r))
       (\<lambda>r'. Inr (take n (br_buf r'), r'\<lparr>br_buf := drop n (br_buf r')\<rparr>))"

(* src: src/src/anbar/api/ingest.py auto _UrlReader.read *)
definition url_read :: "'b body_reader \<Rightarrow> nat \<Rightarrow> ('b list \<times> 'b body_reader) res" where
  "url_read r n =
     rbind (pull (RuntimeError ''origin stalled'') n (br_iter r) (br_buf r) (br_eof r))
       (\<lambda>r'. Inr (take n (br_buf r'), r'\<lparr>br_buf := drop n (br_buf r')\<rparr>))"

definition body_rest :: "'b body_reader \<Rightarrow> 'b list" where
  "body_rest r = br_buf r @ bytes_of (br_iter r)"

definition body_good :: "'b body_reader \<Rightarrow> bool" where
  "body_good r = (calm (br_iter r) \<and> (br_eof r \<longrightarrow> br_iter r = []))"

lemma pull_delivers:
  "calm as \<Longrightarrow> (eof \<longrightarrow> as = []) \<Longrightarrow>
     \<exists>r. pull stall n as buf eof = Inr r \<and> body_good r \<and> body_rest r = buf @ bytes_of as
       \<and> (length (br_buf r) < n \<longrightarrow> br_iter r = [])"
proof (induction stall n as buf eof rule: pull.induct)
  case (2 stall n a as buf eof)
  then obtain p where a: "a = Piece p" by auto
  show ?case
  proof (cases "length buf < n")
    case True
    with 2 a show ?thesis by auto
  next
    case False
    with 2 a show ?thesis by (auto simp: body_good_def body_rest_def)
  qed
qed (auto simp: body_good_def body_rest_def)

lemma pull_take:
  assumes "body_good r" and "0 < n"
  shows "\<exists>p s'. rbind (pull stall n (br_iter r) (br_buf r) (br_eof r))
       (\<lambda>r'. Inr (take n (br_buf r'), r'\<lparr>br_buf := drop n (br_buf r')\<rparr>)) = Inr (p, s')
     \<and> body_good s' \<and> body_rest r = p @ body_rest s' \<and> length p \<le> n \<and> (p = [] \<longrightarrow> body_rest r = [])"
proof -
  from pull_delivers [of "br_iter r" "br_eof r" stall n "br_buf r"] assms(1)
  obtain r' where r': "pull stall n (br_iter r) (br_buf r) (br_eof r) = Inr r'" "body_good r'"
    "body_rest r' = body_rest r" "length (br_buf r') < n \<longrightarrow> br_iter r' = []"
    by (auto simp: body_good_def body_rest_def)
  then show ?thesis using assms(2)
    by (auto simp: body_good_def body_rest_def simp flip: append_assoc)
qed

interpretation body: byte_stream body_read body_rest body_good
  by unfold_locales (simp add: body_read_def pull_take)

interpretation url: byte_stream url_read body_rest body_good
  by unfold_locales (simp add: url_read_def pull_take)

(* src: src/src/anbar/api/upload.py auto _RequestBodyReader.__init__ *)
definition body_reader_init :: "'b arrival list \<Rightarrow> 'b body_reader" where
  "body_reader_init as = \<lparr>br_iter = as, br_buf = [], br_eof = False\<rparr>"

section \<open>The ingest job's progress hook\<close>

(* src: src/src/anbar/api/ingest.py 218-235 _JobReader *)
record 'b job_reader =
  jr_reader :: "'b body_reader"
  jr_total_in :: nat
  jr_cancelled :: bool

(* src: src/src/anbar/api/ingest.py 221-235 _JobReader.read *)
definition job_read :: "'b job_reader \<Rightarrow> nat \<Rightarrow> ('b list \<times> 'b job_reader) res" where
  "job_read r n =
     (if jr_cancelled r then Inl (RuntimeError ''Ingest cancelled by admin'')
      else rbind (url_read (jr_reader r) n)
        (\<lambda>(data, u). Inr (data, r\<lparr>jr_reader := u, jr_total_in := jr_total_in r + length data\<rparr>)))"

interpretation job: byte_stream job_read "\<lambda>r. body_rest (jr_reader r)"
    "\<lambda>r. body_good (jr_reader r) \<and> \<not> jr_cancelled r"
proof unfold_locales
  fix s :: "'b job_reader" and n :: nat
  assume "body_good (jr_reader s) \<and> \<not> jr_cancelled s" and "0 < n"
  with url.read_delivers [of "jr_reader s" n]
  show "\<exists>p s'. job_read s n = Inr (p, s') \<and> (body_good (jr_reader s') \<and> \<not> jr_cancelled s')
      \<and> body_rest (jr_reader s) = p @ body_rest (jr_reader s') \<and> length p \<le> n
      \<and> (p = [] \<longrightarrow> body_rest (jr_reader s) = [])"
    by (auto simp: job_read_def)
qed

section \<open>Multipart files\<close>

(* src: src/src/anbar/api/upload.py auto _UploadFileReader *)
definition file_read :: "'b list \<Rightarrow> nat \<Rightarrow> ('b list \<times> 'b list) res" where
  "file_read f n = Inr (take n f, drop n f)"

interpretation upfile: byte_stream file_read "\<lambda>f. f" "\<lambda>_. True"
  by unfold_locales (auto simp: file_read_def)

section \<open>The Telegram download\<close>

(* src: src/src/anbar/telegram_ingest.py 323-339 AsyncIteratorReader *)
record 'b air =
  ar_aiter :: "'b arrival list"
  ar_buf :: "'b list"
  ar_eof :: bool
  ar_bytes_read :: nat
  ar_cancelled :: bool

(* src: src/src/anbar/telegram_ingest.py 344-363 AsyncIteratorReader.read *)
fun air_pull :: "nat \<Rightarrow> 'b arrival list \<Rightarrow> 'b list \<Rightarrow> bool \<Rightarrow> nat \<Rightarrow> bool \<Rightarrow> 'b air res" where
  "air_pull n [] buf eof cnt canc = Inr \<lparr>ar_aiter = [], ar_buf = buf,
     ar_eof = (if length buf < n then True else eof), ar_bytes_read = cnt, ar_cancelled = canc\<rparr>"
| "air_pull n (a # as) buf eof cnt canc =
     (if length buf < n \<and> \<not> eof then
        (case a of
           Piece p \<Rightarrow>
             if p \<noteq> [] then
               (if canc then Inl (RuntimeError ''Ingest cancelled by admin'')
                else air_pull n as (buf @ p) eof (cnt + length p) canc)
             else air_pull n as buf eof cnt canc
         | Stall \<Rightarrow> Inl (RuntimeError ''Download stream stalled'')
         | Cancel \<Rightarrow> air_pull n as buf eof cnt True)
      else Inr \<lparr>ar_aiter = a # as, ar_buf = buf, ar_eof = eof, ar_bytes_read = cnt,
                ar_cancelled = canc\<rparr>)"

(* src: src/src/anbar/telegram_ingest.py auto AsyncIteratorReader.read *)
definition air_read :: "'b air \<Rightarrow> nat \<Rightarrow> ('b list \<times> 'b air) res" where
  "air_read r n =
     (if ar_cancelled r then Inl (RuntimeError ''Ingest cancelled by admin'')
      else rbind (air_pull n (ar_aiter r) (ar_buf r) (ar_eof r) (ar_bytes_read r) (ar_cancelled r))
        (\<lambda>r'. if ar_buf r' = [] then Inr ([], r')
              else Inr (take n (ar_buf r'), r'\<lparr>ar_buf := drop n (ar_buf r')\<rparr>)))"

definition air_rest :: "'b air \<Rightarrow> 'b list" where
  "air_rest r = ar_buf r @ bytes_of (ar_aiter r)"

definition air_good :: "'b air \<Rightarrow> bool" where
  "air_good r = (calm (ar_aiter r) \<and> (ar_eof r \<longrightarrow> ar_aiter r = []) \<and> \<not> ar_cancelled r)"

lemma air_pull_delivers:
  "calm as \<Longrightarrow> (eof \<longrightarrow> as = []) \<Longrightarrow> \<not> canc \<Longrightarrow>
     \<exists>r. air_pull n as buf eof cnt canc = Inr r \<and> air_good r \<and> air_rest r = buf @ bytes_of as
       \<and> (length (ar_buf r) < n \<longrightarrow> ar_aiter r = [])"
proof (induction n as buf eof cnt canc rule: air_pull.induct)
  case (2 n a as buf eof cnt canc)
  then obtain p where a: "a = Piece p" by auto
  show ?case
  proof (cases "length buf < n")
    case True
    with 2 a show ?thesis by (cases "p = []") auto
  next
    case False
    with 2 a show ?thesis by (auto simp: air_good_def air_rest_def)
  qed
qed (auto simp: air_good_def air_rest_def)

interpretation air: byte_stream air_read air_rest air_good
proof unfold_locales
  fix s :: "'b air" and n :: nat
  assume g: "air_good s" and n: "0 < n"
  from air_pull_delivers [of "ar_aiter s" "ar_eof s" "ar_cancelled s" n "ar_buf s" "ar_bytes_read s"] g
  obtain r' where r': "air_pull n (ar_aiter s) (ar_buf s) (ar_eof s) (ar_bytes_read s) (ar_cancelled s) = Inr r'"
    "air_good r'" "air_rest r' = air_rest s" "length (ar_buf r') < n \<longrightarrow> ar_aiter r' = []"
    by (auto simp: air_good_def air_rest_def)
  show "\<exists>p s'. air_read s n = Inr (p, s') \<and> air_good s' \<and> air_rest s = p @ air_rest s'
      \<and> length p \<le> n \<and> (p = [] \<longrightarrow> air_rest s = [])"
  proof (cases "ar_buf r' = []")
    case True
    then show ?thesis using r' g n
      by (auto simp: air_read_def air_good_def air_rest_def)
  next
    case False
    then show ?thesis using r' g n
      by (auto simp: air_read_def air_good_def air_rest_def simp flip: append_assoc)
  qed
qed

section \<open>Properties\<close>

text \<open>C17: draining a request body that keeps arriving and stays under the ceiling ends,
  hands the callback exactly the pieces of the body cut at \<open>csize\<close>, in order, and returns its
  length and hash, however the network had cut the bytes; a failing callback stops it.\<close>

theorem body_stream_chunks:
  assumes "0 < csize" and "length (concat ps) \<le> m"
  shows "chunk_stream sha body_read csize on_chunk media (Some m) (body_reader_init (map Piece ps)) st =
     (case feed on_chunk media (chop csize (concat ps)) st of
        (st', Inl e) \<Rightarrow> Some (st', Inl e)
      | (st', Inr _) \<Rightarrow> Some (st', Inr (length (concat ps), sha (concat ps))))"
  using body.chunk_stream_feed [of "body_reader_init (map Piece ps)" csize "Some m" sha on_chunk media st]
    assms
  by (simp add: body_reader_init_def body_good_def body_rest_def)

definition log_chunk :: "'b list \<Rightarrow> bool \<Rightarrow> 'b list list \<Rightarrow> 'b list list \<times> string res" where
  "log_chunk c media st = (st @ [c], Inr [])"

lemma body_stream_chunks_witness:
  "chunk_stream (\<lambda>_. ''h'') body_read 2 log_chunk False (Some 9)
      (body_reader_init (map Piece [[1], [2, 3 :: nat]])) []
     = Some ([[1, 2], [3]], Inr (3, ''h''))"
  using body_stream_chunks [of 2 "[[1], [2, 3 :: nat]]" 9 "\<lambda>_. ''h''" log_chunk False "[]"]
  by (simp add: log_chunk_def chop.simps)

text \<open>C27: a body longer than the ceiling is refused, and only whole chunks that fit under the
  ceiling have reached the callback by then.\<close>

theorem body_stream_ceiling:
  assumes "0 < csize" and "m < length (concat ps)"
  shows "chunk_stream sha body_read csize on_chunk media (Some m) (body_reader_init (map Piece ps)) st =
     (case feed on_chunk media (chop csize (take (csize * (m div csize)) (concat ps))) st of
        (st', Inl e) \<Rightarrow> Some (st', Inl e)
      | (st', Inr _) \<Rightarrow> Some (st', Inl UploadCeilingExceeded))"
  using body.chunk_loop_ceiling [of "body_reader_init (map Piece ps)" csize 0 m sha on_chunk media st 0 "[]"]
    assms
  by (simp add: body_reader_init_def body_good_def body_rest_def chunk_stream_def)

lemma body_stream_ceiling_witness:
  "chunk_stream (\<lambda>_. ''h'') body_read 2 log_chunk False (Some 3)
      (body_reader_init (map Piece [[1], [2, 3 :: nat, 4]])) []
     = Some ([[1, 2]], Inl UploadCeilingExceeded)"
  using body_stream_ceiling [of 2 3 "[[1], [2, 3 :: nat, 4]]" "\<lambda>_. ''h''" log_chunk False "[]"]
  by (simp add: log_chunk_def chop.simps)

end
