(* ===== verification/Sql.thy ===== *)
theory Sql
  imports PyStr "HOL-Library.AList"
begin

text \<open>
  What the source uses of SQLite and of Python's ordered dicts. A table is the list of its
  rows in rowid order; \<open>upd_where\<close>, \<open>del_where\<close> and \<open>count_where\<close> are UPDATE, DELETE and
  COUNT with a condition. \<open>like\<close> is the LIKE operator: ASCII case does not count, \<open>%\<close> is any
  text and \<open>_\<close> any character, with an optional escape character. A dict is an association
  list in insertion order, \<^verbatim>\<open>d[k] = v\<close> is \<open>AList.update\<close> and \<^verbatim>\<open>d.pop(k, None)\<close> is \<open>AList.delete\<close>.
\<close>

section \<open>Rows\<close>

definition upd_where :: "('r \<Rightarrow> bool) \<Rightarrow> ('r \<Rightarrow> 'r) \<Rightarrow> 'r list \<Rightarrow> 'r list" where
  "upd_where P f rs = map (\<lambda>r. if P r then f r else r) rs"

definition del_where :: "('r \<Rightarrow> bool) \<Rightarrow> 'r list \<Rightarrow> 'r list" where
  "del_where P rs = filter (\<lambda>r. \<not> P r) rs"

definition count_where :: "('r \<Rightarrow> bool) \<Rightarrow> 'r list \<Rightarrow> nat" where
  "count_where P rs = length (filter P rs)"

text \<open>\<^verbatim>\<open>ORDER BY e DESC\<close> with ties in rowid order, and \<^verbatim>\<open>LIMIT\<close>/\<^verbatim>\<open>OFFSET\<close> (a negative limit is none).\<close>

definition order_desc :: "('r \<Rightarrow> int) \<Rightarrow> 'r list \<Rightarrow> 'r list" where
  "order_desc e rs = sort_key (\<lambda>r. - e r) rs"

definition sql_limit :: "int \<Rightarrow> int \<Rightarrow> 'r list \<Rightarrow> 'r list" where
  "sql_limit lim off rs =
     (let r = drop (nat off) rs in if lim < 0 then r else take (nat lim) r)"

lemma mem_order_desc [simp]: "set (order_desc e rs) = set rs"
  by (simp add: order_desc_def)

lemma length_order_desc [simp]: "length (order_desc e rs) = length rs"
  by (simp add: order_desc_def)

lemma set_sql_limit: "set (sql_limit l off rs) \<subseteq> set rs"
  by (auto simp: sql_limit_def Let_def dest: in_set_takeD in_set_dropD)

lemma length_sql_limit: "0 \<le> l \<Longrightarrow> length (sql_limit l off rs) \<le> nat l"
  by (simp add: sql_limit_def Let_def)

lemma map_key_upd_where [simp]:
  "(\<And>r. key (f r) = key r) \<Longrightarrow> map key (upd_where P f rs) = map key rs"
  by (simp add: upd_where_def)

lemma set_upd_where: "set (upd_where P f rs) = (\<lambda>r. if P r then f r else r) ` set rs"
  by (auto simp: upd_where_def)

lemma length_upd_where [simp]: "length (upd_where P f rs) = length rs"
  by (simp add: upd_where_def)

lemma find_upd_where:
  assumes "\<And>r. key (f r) = key r"
  shows "find (\<lambda>r. key r = k) (upd_where P f rs) =
     map_option (\<lambda>r. if P r then f r else r) (find (\<lambda>r. key r = k) rs)"
  using assms by (induction rs) (auto simp: upd_where_def)

lemma find_del_where_key:
  "find (\<lambda>r. key r = k) (del_where (\<lambda>r. key r = k') rs) =
     (if k = k' then None else find (\<lambda>r. key r = k) rs)"
  unfolding del_where_def by (rule find_filter_key)

lemma distinct_del_where: "distinct (map key rs) \<Longrightarrow> distinct (map key (del_where P rs))"
  by (simp add: del_where_def distinct_map_filter)

lemma find_del_where:
  assumes "distinct (map key rs)"
  shows "find (\<lambda>r. key r = k) (del_where P rs) =
     (case find (\<lambda>r. key r = k) rs of None \<Rightarrow> None | Some r \<Rightarrow> if P r then None else Some r)"
proof (cases "find (\<lambda>r. key r = k) rs")
  case None
  then have "find (\<lambda>r. key r = k) (del_where P rs) = None"
    by (auto simp: find_None_iff del_where_def)
  with None show ?thesis by simp
next
  case (Some r)
  then have r: "r \<in> set rs" "key r = k" by (auto dest: find_SomeD)
  show ?thesis
  proof (cases "P r")
    case True
    have "s = r" if "s \<in> set rs" "key s = k" for s
      using assms r that by (auto simp: distinct_map inj_on_def)
    then have "find (\<lambda>r. key r = k) (del_where P rs) = None"
      using True by (auto simp: find_None_iff del_where_def)
    with Some True show ?thesis by simp
  next
    case False
    then show ?thesis using find_filter_subset [OF assms Some, of "\<lambda>r. \<not> P r"] Some
      by (simp add: del_where_def)
  qed
qed

section \<open>LIKE\<close>

datatype lpat = LAny | LOne | LLit char | LBad

fun like_tokens :: "char option \<Rightarrow> string \<Rightarrow> lpat list" where
  "like_tokens esc [] = []"
| "like_tokens esc (c # cs) =
     (if Some c = esc then (case cs of [] \<Rightarrow> [LBad] | d # ds \<Rightarrow> LLit d # like_tokens esc ds)
      else if c = CHR ''%'' then LAny # like_tokens esc cs
      else if c = CHR ''_'' then LOne # like_tokens esc cs
      else LLit c # like_tokens esc cs)"

fun like_match :: "lpat list \<Rightarrow> string \<Rightarrow> bool" where
  "like_match [] s = (s = [])"
| "like_match (LAny # ps) [] = like_match ps []"
| "like_match (LAny # ps) (c # cs) = (like_match ps (c # cs) \<or> like_match (LAny # ps) cs)"
| "like_match (LOne # ps) [] = False"
| "like_match (LOne # ps) (c # cs) = like_match ps cs"
| "like_match (LLit d # ps) [] = False"
| "like_match (LLit d # ps) (c # cs) = (lower_char c = lower_char d \<and> like_match ps cs)"
| "like_match (LBad # ps) s = False"

definition like :: "string \<Rightarrow> string \<Rightarrow> bool" where
  "like s pat = like_match (like_tokens None pat) s"

definition like_esc :: "char \<Rightarrow> string \<Rightarrow> string \<Rightarrow> bool" where
  "like_esc e s pat = like_match (like_tokens (Some e) pat) s"

lemma like_match_LAny [simp]: "like_match [LAny] s"
  by (induction s) auto

lemma like_match_lits:
  "like_match (map LLit p @ [LAny]) s \<longleftrightarrow> startswith (lower s) (lower p)"
proof (induction p arbitrary: s)
  case Nil
  then show ?case by (simp add: lower_def)
next
  case (Cons c p)
  then show ?case by (cases s) (auto simp: lower_def)
qed

text \<open>A prefix with no wildcard matches the names that start with it, up to ASCII case.\<close>

lemma like_tokens_plain:
  "CHR ''%'' \<notin> set p \<Longrightarrow> CHR ''_'' \<notin> set p \<Longrightarrow> like_tokens None (p @ q) = map LLit p @ like_tokens None q"
  by (induction p) auto

lemma like_prefix:
  "CHR ''%'' \<notin> set p \<Longrightarrow> CHR ''_'' \<notin> set p \<Longrightarrow> like s (p @ ''%'') \<longleftrightarrow> startswith (lower s) (lower p)"
  by (simp add: like_def like_tokens_plain like_match_lits)

text \<open>Every name that starts with the prefix matches, wildcards or not.\<close>

lemma like_match_LAnyI: "like_match ps s \<Longrightarrow> like_match (LAny # ps) s"
  by (cases s) auto

lemma like_prefix_complete: "startswith s p \<Longrightarrow> like s (p @ ''%'')"
proof -
  have "like_match (like_tokens None (p @ ''%'')) (p @ t)" for t
    by (induction p) (auto intro: like_match_LAnyI)
  then show "startswith s p \<Longrightarrow> like s (p @ ''%'')" by (auto simp: like_def startswith_iff)
qed

end
