(* ===== verification/DbCore.thy ===== *)
theory DbCore
  imports Sql PyJson
begin

text \<open>
  The objects table of \<^verbatim>\<open>src/src/anbar/db.py\<close> and its read cache \<^verbatim>\<open>_ObjectLRU\<close>. The state of a
  \<^verbatim>\<open>Database\<close> is the record \<open>db\<close>: one list of rows per table, and the cache. Each method is a
  function on it; the method lock makes them atomic. The invariant \<open>db_ok\<close> says that ids are
  unique, the cache is within its capacity, and every cached row is the table's live row;
  every operation keeps it, so \<open>get_object\<close> answers as if there were no cache.
\<close>

section \<open>State\<close>

(* src: src/src/anbar/db.py 45-58 SCHEMA objects *)
record obj =
  o_id :: string
  o_file_id :: string
  o_backend :: string
  o_filename :: string
  o_size :: int
  o_content_type :: "string option"
  o_sha256 :: "string option"
  o_manifest :: "string option"
  o_uploader_key :: "string option"
  o_created_at :: int
  o_downloaded :: int
  o_deleted_at :: "int option"

(* src: src/src/anbar/db.py 62-73 SCHEMA links *)
record link =
  l_obj_id :: string
  l_exp :: int
  l_sig :: "string option"
  l_slug :: "string option"
  l_pw :: bool
  l_max_dl :: "int option"
  l_downloads :: int
  l_created_at :: int
  l_revoked :: bool

(* src: src/src/anbar/db.py 81-85 SCHEMA rate *)
record rate_row =
  rt_k :: string
  rt_window_start :: int
  rt_n :: int

(* src: src/src/anbar/db.py 86-94 SCHEMA audit_logs *)
record audit_row =
  a_id :: int
  a_created_at :: int
  a_event :: string
  a_actor :: string
  a_target :: "string option"
  a_ip :: "string option"
  a_details :: "string option"

(* src: src/src/anbar/db.py 17-22 _ObjectLRU *)
record obj_lru =
  lru_capacity :: nat
  lru_cache :: "(string \<times> obj) list"

(* src: src/src/anbar/db.py 44-96 SCHEMA *)
record db =
  d_objects :: "obj list"
  d_links :: "link list"
  d_kv :: "(string \<times> string) list"
  d_rate :: "rate_row list"
  d_audit :: "audit_row list"
  d_audit_seq :: int
  d_obj_cache :: obj_lru

section \<open>The row cache\<close>

text \<open>\<^verbatim>\<open>OrderedDict.move_to_end\<close>; the oldest entry is first.\<close>

definition move_to_end :: "'k \<Rightarrow> ('k \<times> 'v) list \<Rightarrow> ('k \<times> 'v) list" where
  "move_to_end k d = (case map_of d k of None \<Rightarrow> d | Some v \<Rightarrow> AList.delete k d @ [(k, v)])"

(* src: src/src/anbar/db.py auto _ObjectLRU.get *)
definition lru_get :: "obj_lru \<Rightarrow> string \<Rightarrow> obj option \<times> obj_lru" where
  "lru_get c k = (case map_of (lru_cache c) k of
     None \<Rightarrow> (None, c)
   | Some v \<Rightarrow> (Some v, c\<lparr>lru_cache := move_to_end k (lru_cache c)\<rparr>))"

(* src: src/src/anbar/db.py auto _ObjectLRU.put *)
definition lru_put :: "obj_lru \<Rightarrow> string \<Rightarrow> obj \<Rightarrow> obj_lru" where
  "lru_put c k v =
     (let d = (if map_of (lru_cache c) k \<noteq> None then move_to_end k (lru_cache c) else lru_cache c);
          d' = AList.update k v d
      in c\<lparr>lru_cache := (if length d' > lru_capacity c then tl d' else d')\<rparr>)"

(* src: src/src/anbar/db.py auto _ObjectLRU.invalidate *)
definition lru_invalidate :: "obj_lru \<Rightarrow> string \<Rightarrow> obj_lru" where
  "lru_invalidate c k = c\<lparr>lru_cache := AList.delete k (lru_cache c)\<rparr>"

(* src: src/src/anbar/db.py auto _ObjectLRU.clear *)
definition lru_clear :: "obj_lru \<Rightarrow> obj_lru" where
  "lru_clear c = c\<lparr>lru_cache := []\<rparr>"

definition cache_put :: "string \<Rightarrow> obj \<Rightarrow> db \<Rightarrow> db" where
  "cache_put k v d = d\<lparr>d_obj_cache := lru_put (d_obj_cache d) k v\<rparr>"

definition cache_invalidate :: "string \<Rightarrow> db \<Rightarrow> db" where
  "cache_invalidate k d = d\<lparr>d_obj_cache := lru_invalidate (d_obj_cache d) k\<rparr>"

definition cache_clear :: "db \<Rightarrow> db" where
  "cache_clear d = d\<lparr>d_obj_cache := lru_clear (d_obj_cache d)\<rparr>"

definition find_obj :: "db \<Rightarrow> string \<Rightarrow> obj option" where
  "find_obj d i = find (\<lambda>r. o_id r = i) (d_objects d)"

text \<open>\<^verbatim>\<open>deleted_at IS NULL\<close>\<close>

definition untrashed :: "obj \<Rightarrow> bool" where
  "untrashed r = (o_deleted_at r = None)"

section \<open>Reading and writing rows\<close>

text \<open>The dict given to \<^verbatim>\<open>insert_object\<close>; a missing optional key is \<open>None\<close>.\<close>

(* src: src/src/anbar/db.py 216-237 Database.insert_object *)
record obj_in =
  i_id :: string
  i_file_id :: string
  i_backend :: string
  i_filename :: string
  i_size :: int
  i_content_type :: "string option"
  i_sha256 :: "string option"
  i_manifest :: "string option"
  i_uploader_key :: "string option"
  i_created_at :: "int option"
  i_downloaded :: "int option"

(* src: src/src/anbar/db.py 239-252 Database.insert_object *)
definition full_obj :: "time \<Rightarrow> obj_in \<Rightarrow> obj" where
  "full_obj now o' = \<lparr>o_id = i_id o', o_file_id = i_file_id o', o_backend = i_backend o',
     o_filename = i_filename o', o_size = i_size o', o_content_type = i_content_type o',
     o_sha256 = i_sha256 o', o_manifest = i_manifest o', o_uploader_key = i_uploader_key o',
     o_created_at = (case i_created_at o' of None \<Rightarrow> now | Some t \<Rightarrow> t),
     o_downloaded = (case i_downloaded o' of None \<Rightarrow> 0 | Some n \<Rightarrow> n), o_deleted_at = None\<rparr>"

(* src: src/src/anbar/db.py auto Database.insert_object *)
definition insert_object :: "time \<Rightarrow> obj_in \<Rightarrow> db \<Rightarrow> db \<times> unit res" where
  "insert_object now o' d =
     (if find_obj d (i_id o') \<noteq> None then (d, Inl IntegrityError)
      else (cache_put (i_id o') (full_obj now o') (d\<lparr>d_objects := d_objects d @ [full_obj now o']\<rparr>),
            Inr ()))"

(* src: src/src/anbar/db.py auto Database.get_object *)
definition get_object :: "string \<Rightarrow> bool \<Rightarrow> db \<Rightarrow> obj option \<times> db" where
  "get_object i include_trashed d =
     (let (cached, c) = (if include_trashed then (None, d_obj_cache d) else lru_get (d_obj_cache d) i);
          d = d\<lparr>d_obj_cache := c\<rparr>
      in if (case cached of None \<Rightarrow> False | Some r \<Rightarrow> \<not> truthy_int (o_deleted_at r)) then (cached, d)
         else (case find_obj d i of
                 None \<Rightarrow> (None, d)
               | Some r \<Rightarrow>
                   if \<not> include_trashed \<and> truthy_int (o_deleted_at r) then (None, d)
                   else if \<not> truthy_int (o_deleted_at r) then (Some r, cache_put i r d)
                   else (Some r, d)))"

(* src: src/src/anbar/db.py auto Database.delete_object *)
definition delete_object :: "string \<Rightarrow> db \<Rightarrow> db \<times> bool" where
  "delete_object i d =
     (let d = cache_invalidate i d
      in (d\<lparr>d_objects := del_where (\<lambda>r. o_id r = i) (d_objects d)\<rparr>,
          count_where (\<lambda>r. o_id r = i) (d_objects d) > 0))"

(* src: src/src/anbar/db.py auto Database.soft_delete *)
definition soft_delete :: "time \<Rightarrow> string \<Rightarrow> db \<Rightarrow> db \<times> bool" where
  "soft_delete now i d =
     (let d = cache_invalidate i d; P = (\<lambda>r. o_id r = i \<and> untrashed r)
      in (d\<lparr>d_objects := upd_where P (\<lambda>r. r\<lparr>o_deleted_at := Some now\<rparr>) (d_objects d)\<rparr>,
          count_where P (d_objects d) > 0))"

(* src: src/src/anbar/db.py auto Database.restore_object *)
definition restore_object :: "string \<Rightarrow> db \<Rightarrow> db \<times> bool" where
  "restore_object i d =
     (let d = cache_invalidate i d; P = (\<lambda>r. o_id r = i \<and> \<not> untrashed r)
      in (d\<lparr>d_objects := upd_where P (\<lambda>r. r\<lparr>o_deleted_at := None\<rparr>) (d_objects d)\<rparr>,
          count_where P (d_objects d) > 0))"

(* src: src/src/anbar/db.py auto Database.trash_count *)
definition trash_count :: "db \<Rightarrow> nat" where
  "trash_count d = count_where (\<lambda>r. \<not> untrashed r) (d_objects d)"

(* src: src/src/anbar/db.py 137-137 Database.TRASH_TTL_S *)
definition TRASH_TTL_S :: int where
  "TRASH_TTL_S = 7 * 86400"

(* src: src/src/anbar/db.py auto Database.purge_expired_trash *)
definition purge_expired_trash :: "time \<Rightarrow> db \<Rightarrow> db \<times> string list" where
  "purge_expired_trash now d =
     (let d = cache_clear d;
          cutoff = now - TRASH_TTL_S;
          ids = map o_id (filter (\<lambda>r. case o_deleted_at r of None \<Rightarrow> False | Some t \<Rightarrow> t < cutoff)
                            (d_objects d))
      in (d\<lparr>d_objects := del_where (\<lambda>r. o_id r \<in> set ids) (d_objects d)\<rparr>, ids))"

(* src: src/src/anbar/db.py auto Database.rename_object *)
definition rename_object :: "string \<Rightarrow> string \<Rightarrow> db \<Rightarrow> db \<times> bool" where
  "rename_object i fn d =
     (let d = cache_invalidate i d
      in (d\<lparr>d_objects := upd_where (\<lambda>r. o_id r = i) (\<lambda>r. r\<lparr>o_filename := fn\<rparr>) (d_objects d)\<rparr>,
          count_where (\<lambda>r. o_id r = i) (d_objects d) > 0))"

(* src: src/src/anbar/db.py auto Database.bump_downloads *)
definition bump_downloads :: "string \<Rightarrow> db \<Rightarrow> db" where
  "bump_downloads i d =
     (let d = d\<lparr>d_objects := upd_where (\<lambda>r. o_id r = i)
                  (\<lambda>r. r\<lparr>o_downloaded := o_downloaded r + 1\<rparr>) (d_objects d)\<rparr>;
          (cached, c) = lru_get (d_obj_cache d) i;
          d = d\<lparr>d_obj_cache := c\<rparr>
      in case cached of
           None \<Rightarrow> d
         | Some r \<Rightarrow> cache_put i (r\<lparr>o_downloaded := o_downloaded r + 1\<rparr>) d)"


section \<open>Folders\<close>

text \<open>A folder is a filename prefix. The pattern of the folder operations is not escaped.\<close>

definition in_folder :: "string \<Rightarrow> obj \<Rightarrow> bool" where
  "in_folder prefix r = (like (o_filename r) (prefix @ ''%'') \<and> untrashed r)"

definition set_filename :: "string \<Rightarrow> string \<Rightarrow> obj list \<Rightarrow> obj list" where
  "set_filename i fn os = upd_where (\<lambda>r. o_id r = i) (\<lambda>r. r\<lparr>o_filename := fn\<rparr>) os"

(* src: src/src/anbar/db.py auto Database.rename_folder *)
definition rename_folder :: "string \<Rightarrow> string \<Rightarrow> db \<Rightarrow> db \<times> nat" where
  "rename_folder old_prefix new_prefix d =
     (let d = cache_clear d;
          old = rstrip_slash old_prefix @ ''/'';
          new = rstrip_slash new_prefix @ ''/'';
          rows = filter (in_folder old) (d_objects d)
      in (d\<lparr>d_objects := fold (\<lambda>r. set_filename (o_id r) (new @ drop (length old) (o_filename r)))
                           rows (d_objects d)\<rparr>,
          length rows))"

(* src: src/src/anbar/db.py 402-423 Database.copy_folder *)
definition copy_row :: "time \<Rightarrow> string \<Rightarrow> string \<Rightarrow> obj \<Rightarrow> obj" where
  "copy_row now new_id fn r = r\<lparr>o_id := new_id, o_filename := fn, o_created_at := now,
     o_downloaded := 0, o_deleted_at := None\<rparr>"

text \<open>\<open>uuid n\<close> is the id \<^verbatim>\<open>uuid4().hex[:12]\<close> of the n-th row. An id that exists already raises;
  the rows inserted before it stay in the open transaction.\<close>

(* src: src/src/anbar/db.py 399-424 Database.copy_folder *)
fun copy_rows :: "time \<Rightarrow> (nat \<Rightarrow> string) \<Rightarrow> nat \<Rightarrow> nat \<Rightarrow> string \<Rightarrow> obj list \<Rightarrow> db \<Rightarrow> db \<times> nat res" where
  "copy_rows now uuid n plen dst [] d = (d, Inr n)"
| "copy_rows now uuid n plen dst (r # rs) d =
     (if find_obj d (uuid n) \<noteq> None then (d, Inl IntegrityError)
      else copy_rows now uuid (n + 1) plen dst rs
        (d\<lparr>d_objects := d_objects d
             @ [copy_row now (uuid n) (dst @ drop plen (o_filename r)) r]\<rparr>))"

(* src: src/src/anbar/db.py auto Database.copy_folder *)
definition copy_folder :: "time \<Rightarrow> (nat \<Rightarrow> string) \<Rightarrow> string \<Rightarrow> string \<Rightarrow> db \<Rightarrow> db \<times> nat res" where
  "copy_folder now uuid src_prefix dst_prefix d =
     (let src = rstrip_slash src_prefix @ ''/'';
          dst = rstrip_slash dst_prefix @ ''/'';
          rows = filter (in_folder src) (d_objects d)
      in copy_rows now uuid 0 (length src) dst rows d)"

(* src: src/src/anbar/db.py 441-447 Database.copy_object *)
definition copy_name :: "string \<Rightarrow> string" where
  "copy_name fn =
     (if CHR ''.'' \<in> set fn \<and> \<not> startswith fn ''.''
      then (case rsplit1 (CHR ''.'') fn of
              Some (base, ext) \<Rightarrow> base @ '' (copy).'' @ ext
            | None \<Rightarrow> fn)
      else fn @ '' (copy)'')"

(* src: src/src/anbar/db.py auto Database.copy_object *)
definition copy_object :: "time \<Rightarrow> string \<Rightarrow> string \<Rightarrow> string option \<Rightarrow> db \<Rightarrow> db \<times> obj option res" where
  "copy_object now uuid i new_filename d =
     (case find (\<lambda>r. o_id r = i \<and> untrashed r) (d_objects d) of
        None \<Rightarrow> (d, Inr None)
      | Some r \<Rightarrow>
          let fn = (if truthy_str new_filename then the new_filename else copy_name (o_filename r));
              row = copy_row now uuid fn r
          in if find_obj d uuid \<noteq> None then (d, Inl IntegrityError)
             else (d\<lparr>d_objects := d_objects d @ [row]\<rparr>, Inr (Some row)))"

(* src: src/src/anbar/db.py auto Database.soft_delete_folder *)
definition soft_delete_folder :: "time \<Rightarrow> string \<Rightarrow> db \<Rightarrow> db \<times> nat" where
  "soft_delete_folder now prefix d =
     (let d = cache_clear d;
          pre = rstrip_slash prefix @ ''/'';
          P = (\<lambda>r. (like (o_filename r) (pre @ ''%'') \<or> o_filename r = rstrip_slash pre) \<and> untrashed r)
      in (d\<lparr>d_objects := upd_where P (\<lambda>r. r\<lparr>o_deleted_at := Some now\<rparr>) (d_objects d)\<rparr>,
          count_where P (d_objects d)))"

(* src: src/src/anbar/db.py 561-577 Database.move_objects_to_prefix *)
fun move_rows :: "string \<Rightarrow> obj list \<Rightarrow> obj list \<Rightarrow> obj list \<times> nat \<times> string list" where
  "move_rows prefix [] os = (os, 0, [])"
| "move_rows prefix (r # rs) os =
     (let base = last_piece (CHR ''/'') (o_filename r); new_name = prefix @ base
      in if base = [] then
           (case move_rows prefix rs os of (os', n, sk) \<Rightarrow> (os', n, o_id r # sk))
         else if new_name = o_filename r then
           (case move_rows prefix rs os of (os', n, sk) \<Rightarrow> (os', n + 1, sk))
         else (case move_rows prefix rs (set_filename (o_id r) new_name os) of
                 (os', n, sk) \<Rightarrow> (os', n + 1, sk)))"

(* src: src/src/anbar/db.py auto Database.move_objects_to_prefix *)
definition move_objects_to_prefix :: "string list \<Rightarrow> string \<Rightarrow> db \<Rightarrow> db \<times> nat \<times> string list" where
  "move_objects_to_prefix ids new_prefix d =
     (let d = cache_clear d
      in if ids = [] then (d, 0, [])
         else let p = strip_slash new_prefix;
                  prefix = (if p \<noteq> [] then p @ ''/'' else []);
                  rows = filter (\<lambda>r. o_id r \<in> set ids \<and> untrashed r) (d_objects d);
                  (os, moved, skipped) = move_rows prefix rows (d_objects d)
              in (d\<lparr>d_objects := os\<rparr>, moved, skipped))"

section \<open>Listings and statistics\<close>

text \<open>\<^verbatim>\<open>len(x)\<close> of a decoded value.\<close>

definition json_len :: "json \<Rightarrow> nat option" where
  "json_len j = (case j of JStr s \<Rightarrow> Some (length s) | JList l \<Rightarrow> Some (length l)
     | JObj l \<Rightarrow> Some (length l) | _ \<Rightarrow> None)"

(* src: src/src/anbar/db.py 285-293 Database.list_objects *)
definition chunk_count :: "obj \<Rightarrow> nat" where
  "chunk_count r =
     (if truthy_str (o_manifest r) then
        (case loads (the (o_manifest r)) of
           Some (JObj kvs) \<Rightarrow>
             (case json_len (case map_of kvs ''chunks'' of None \<Rightarrow> JList [] | Some v \<Rightarrow> v) of
                None \<Rightarrow> 1
              | Some n \<Rightarrow> if n = 0 then 1 else n)
         | _ \<Rightarrow> 1)
      else 1)"

text \<open>The rows stand for the columns the SELECT lists; the number is the field \<^verbatim>\<open>chunks\<close>.\<close>

(* src: src/src/anbar/db.py auto Database.list_objects *)
definition list_objects :: "int \<Rightarrow> int \<Rightarrow> bool \<Rightarrow> db \<Rightarrow> (obj \<times> nat) list" where
  "list_objects lim off trash d =
     (let rows = filter (\<lambda>r. untrashed r \<noteq> trash) (d_objects d);
          key = (if trash then (\<lambda>r. the (o_deleted_at r)) else o_created_at)
      in map (\<lambda>r. (r\<lparr>o_manifest := None\<rparr>, chunk_count r)) (sql_limit lim off (order_desc key rows)))"

(* src: src/src/anbar/db.py auto Database.count_objects_by_prefix *)
definition count_objects_by_prefix :: "string list \<Rightarrow> bool \<Rightarrow> db \<Rightarrow> nat" where
  "count_objects_by_prefix prefixes trash d =
     (if prefixes = [] then 0
      else count_where (\<lambda>r. untrashed r \<noteq> trash \<and>
             list_ex (\<lambda>p. like (o_filename r) (p @ ''%'')) prefixes) (d_objects d))"

(* src: src/src/anbar/db.py 322-326 Database.list_objects_full *)
definition chunk_count_full :: "obj \<Rightarrow> nat" where
  "chunk_count_full r =
     (if truthy_str (o_manifest r) then
        (case loads (the (o_manifest r)) of
           Some (JObj kvs) \<Rightarrow>
             (case map_of kvs ''chunks'' of
                None \<Rightarrow> 0
              | Some v \<Rightarrow> (case json_len v of None \<Rightarrow> 0 | Some n \<Rightarrow> n))
         | _ \<Rightarrow> 0)
      else 0)"

(* src: src/src/anbar/db.py auto Database.list_objects_full *)
definition list_objects_full :: "int \<Rightarrow> bool \<Rightarrow> db \<Rightarrow> (obj \<times> nat) list" where
  "list_objects_full lim trash d =
     (let rows = filter (\<lambda>r. untrashed r \<noteq> trash) (d_objects d)
      in map (\<lambda>r. (r, chunk_count_full r)) (sql_limit lim 0 (order_desc o_created_at rows)))"

(* src: src/src/anbar/db.py 356-356 Database.list_objects_by_prefix *)
definition escape_like :: "string \<Rightarrow> string" where
  "escape_like p =
     replace_char (CHR ''_'') [CHR 0x5C, CHR ''_'']
       (replace_char (CHR ''%'') [CHR 0x5C, CHR ''%'']
         (replace_char (CHR 0x5C) [CHR 0x5C, CHR 0x5C] p))"

(* src: src/src/anbar/db.py auto Database.list_objects_by_prefix *)
definition list_objects_by_prefix :: "string \<Rightarrow> bool \<Rightarrow> db \<Rightarrow> obj list" where
  "list_objects_by_prefix prefix include_trashed d =
     order_desc o_created_at
       (filter (\<lambda>r. like_esc (CHR 0x5C) (o_filename r) (escape_like prefix @ ''%'')
                  \<and> (include_trashed \<or> untrashed r)) (d_objects d))"

(* src: src/src/anbar/db.py auto Database.count_objects *)
definition count_objects :: "bool \<Rightarrow> db \<Rightarrow> nat" where
  "count_objects trash d = count_where (\<lambda>r. untrashed r \<noteq> trash) (d_objects d)"

(* src: src/src/anbar/db.py 607-615 Database.get_system_stats *)
datatype category = Image | Video | Audio | Pdf | Text | Archive | Other

(* src: src/src/anbar/db.py 616-652 Database.get_system_stats *)
definition categorize :: "obj \<Rightarrow> category" where
  "categorize r =
     (let fn = lower (o_filename r); ct = lower (str_or (o_content_type r) []);
          ends = list_ex (endswith fn)
      in if startswith ct ''image/''
            \<or> ends [''.png'', ''.jpg'', ''.jpeg'', ''.gif'', ''.webp'', ''.svg'', ''.avif''] then Image
         else if startswith ct ''video/''
            \<or> ends [''.mp4'', ''.webm'', ''.mkv'', ''.mov'', ''.avi''] then Video
         else if startswith ct ''audio/''
            \<or> ends [''.mp3'', ''.ogg'', ''.wav'', ''.flac'', ''.m4a'', ''.opus'', ''.aac''] then Audio
         else if ct = ''application/pdf'' \<or> ends [''.pdf''] then Pdf
         else if startswith ct ''text/''
            \<or> ends [''.txt'', ''.json'', ''.js'', ''.ts'', ''.py'', ''.md'', ''.sh'', ''.yaml'', ''.yml'',
                    ''.html'', ''.css'', ''.sql''] then Text
         else if ends [''.zip'', ''.tar'', ''.gz'', ''.7z'', ''.rar'', ''.bz2'', ''.xz''] then Archive
         else Other)"

(* src: src/src/anbar/db.py auto Database.get_system_stats *)
definition get_system_stats :: "db \<Rightarrow> nat \<times> int \<times> int \<times> (category \<Rightarrow> int)" where
  "get_system_stats d =
     (let live = filter untrashed (d_objects d)
      in (length live, sum_list (map o_size live), sum_list (map o_downloaded live),
          fold (\<lambda>r b. b(categorize r := b (categorize r) + o_size r)) live (\<lambda>_. 0)))"

end
