(* ===== verification/DbCoherence.thy ===== *)
theory DbCoherence
  imports DbCore
begin

text \<open>
  The invariant of the objects table and its cache, kept by every operation of \<open>DbCore\<close>,
  and what it gives: \<open>get_object\<close> answers from the table as it is now.
\<close>

section \<open>The cache\<close>

text \<open>Apart from the entries with a key in \<open>K\<close>, every entry is the table's row, and not trashed.\<close>

definition cache_ok_but :: "string set \<Rightarrow> obj_lru \<Rightarrow> obj list \<Rightarrow> bool" where
  "cache_ok_but K c os = (distinct (map fst (lru_cache c)) \<and> length (lru_cache c) \<le> lru_capacity c
     \<and> (\<forall>(k, v) \<in> set (lru_cache c). k \<notin> K \<longrightarrow> find (\<lambda>r. o_id r = k) os = Some v
          \<and> \<not> truthy_int (o_deleted_at v)))"

abbreviation cache_ok :: "obj_lru \<Rightarrow> obj list \<Rightarrow> bool" where
  "cache_ok \<equiv> cache_ok_but {}"

lemmas cache_ok_def = cache_ok_but_def

definition db_ok :: "db \<Rightarrow> bool" where
  "db_ok d = (distinct (map o_id (d_objects d)) \<and> cache_ok (d_obj_cache d) (d_objects d))"

lemma set_delete: "set (AList.delete k xs) = {p \<in> set xs. fst p \<noteq> k}"
  by (auto simp: AList.delete_eq)

lemma length_delete: "map_of xs k \<noteq> None \<Longrightarrow> length (AList.delete k xs) < length xs"
  by (induction xs) (auto simp: length_delete_le le_imp_less_Suc)

lemma set_move_to_end: "distinct (map fst d) \<Longrightarrow> set (move_to_end k d) = set d"
  by (auto simp: move_to_end_def set_delete split: option.splits dest: map_of_SomeD)
     (metis map_of_is_SomeI option.inject)

lemma length_move_to_end: "length (move_to_end k d) \<le> length d"
  using length_delete [of d k] by (auto simp: move_to_end_def split: option.splits)

lemma distinct_move_to_end: "distinct (map fst d) \<Longrightarrow> distinct (map fst (move_to_end k d))"
  by (auto simp: move_to_end_def set_delete distinct_delete split: option.splits)

lemma set_update: "distinct (map fst d) \<Longrightarrow> set (AList.update k v d) = insert (k, v) {p \<in> set d. fst p \<noteq> k}"
  by (induction d) (auto simp: image_iff)

lemma length_update: "length (AList.update k v d) \<le> length d + (if map_of d k = None then 1 else 0)"
  by (induction d) auto

lemma map_of_move_to_end [simp]: "map_of (move_to_end k d) j = map_of d j"
  by (auto simp: move_to_end_def map_add_def delete_conv' split: option.splits)

lemma cache_ok_put:
  assumes c: "cache_ok_but {k} c os" and f: "find (\<lambda>r. o_id r = k) os = Some v" and t: "\<not> truthy_int (o_deleted_at v)"
  shows "cache_ok (lru_put c k v) os"
proof -
  define d where "d = (if map_of (lru_cache c) k \<noteq> None then move_to_end k (lru_cache c) else lru_cache c)"
  define d' where "d' = AList.update k v d"
  have di: "distinct (map fst d)" and s: "set d = set (lru_cache c)" and l: "length d \<le> lru_capacity c"
    using c length_move_to_end [of k "lru_cache c"]
    by (auto simp: d_def cache_ok_def distinct_move_to_end set_move_to_end)
  have di': "distinct (map fst d')" using di by (simp add: d'_def distinct_update)
  have s': "set d' \<subseteq> insert (k, v) {p \<in> set (lru_cache c). fst p \<noteq> k}"
    using set_update [OF di] s by (auto simp: d'_def)
  have l': "length d' \<le> lru_capacity c + 1"
    using length_update [of k v d] l by (simp add: d'_def split: if_splits)
  have p: "lru_put c k v = c\<lparr>lru_cache := (if length d' > lru_capacity c then tl d' else d')\<rparr>"
    by (simp add: lru_put_def d'_def d_def Let_def)
  have "distinct (map fst (tl d'))" using di' by (cases d') auto
  moreover have "set (tl d') \<subseteq> set d'" by (cases d') auto
  ultimately obtain d'' where p': "lru_put c k v = c\<lparr>lru_cache := d''\<rparr>"
    and d'': "distinct (map fst d'')" "set d'' \<subseteq> set d'" "length d'' \<le> lru_capacity c"
    using p di' l' by (cases "length d' > lru_capacity c") auto
  have "find (\<lambda>r. o_id r = j) os = Some w \<and> \<not> truthy_int (o_deleted_at w)" if "(j, w) \<in> set d''" for j w
    using that d''(2) s' c f t by (cases "j = k") (auto simp: cache_ok_def)
  with d'' show ?thesis unfolding cache_ok_def p' by auto
qed

lemma cache_ok_get: "cache_ok c os \<Longrightarrow> cache_ok (snd (lru_get c k)) os"
  using length_move_to_end [of k "lru_cache c"]
  by (auto simp: cache_ok_def lru_get_def set_move_to_end distinct_move_to_end split: option.splits)

lemma cache_ok_clear [simp]: "cache_ok (lru_clear c) os"
  by (simp add: cache_ok_def lru_clear_def)

lemma cache_ok_invalidate:
  assumes "cache_ok c os" and "\<And>j. j \<noteq> k \<Longrightarrow> find (\<lambda>r. o_id r = j) os' = find (\<lambda>r. o_id r = j) os"
  shows "cache_ok (lru_invalidate c k) os'"
  using assms length_delete_le [of k "lru_cache c"]
  by (auto simp: cache_ok_def lru_invalidate_def set_delete distinct_delete)

lemma cache_ok_extend:
  assumes "cache_ok c os" and "distinct (map o_id (os @ new))"
  shows "cache_ok c (os @ new)"
  using assms(1) by (auto simp: cache_ok_def find_append)

lemma lru_get_coherent:
  "cache_ok c os \<Longrightarrow> fst (lru_get c k) = Some v \<Longrightarrow>
     find (\<lambda>r. o_id r = k) os = Some v \<and> \<not> truthy_int (o_deleted_at v)"
  by (auto simp: lru_get_def cache_ok_def split: option.splits dest: map_of_SomeD)

section \<open>Every operation keeps the invariant\<close>

lemma db_ok_find:
  "db_ok d \<Longrightarrow> r \<in> set (d_objects d) \<Longrightarrow> find_obj d (o_id r) = Some r"
  unfolding db_ok_def find_obj_def by (auto intro: find_unique)

lemma find_obj_None: "find_obj d i = None \<longleftrightarrow> i \<notin> o_id ` set (d_objects d)"
  by (auto simp: find_obj_def find_None_iff)

lemma db_ok_cache_put:
  "distinct (map o_id (d_objects d)) \<Longrightarrow> cache_ok_but {i} (d_obj_cache d) (d_objects d)
     \<Longrightarrow> find_obj d i = Some r \<Longrightarrow> \<not> truthy_int (o_deleted_at r) \<Longrightarrow> db_ok (cache_put i r d)"
  by (simp add: db_ok_def cache_put_def find_obj_def cache_ok_put)

lemma db_ok_but: "db_ok d \<Longrightarrow> distinct (map o_id (d_objects d)) \<and> cache_ok_but K (d_obj_cache d) (d_objects d)"
  by (auto simp: db_ok_def cache_ok_def)

lemma db_ok_insert: "db_ok d \<Longrightarrow> db_ok (fst (insert_object now o' d))"
proof (cases "find_obj d (i_id o') = None")
  case True
  assume ok: "db_ok d"
  let ?r = "full_obj now o'"
  let ?d = "d\<lparr>d_objects := d_objects d @ [?r]\<rparr>"
  have i: "o_id ?r = i_id o'" "o_deleted_at ?r = None" by (simp_all add: full_obj_def)
  have "db_ok ?d"
    using ok True i by (auto simp: db_ok_def find_obj_None intro!: cache_ok_extend)
  moreover have "find_obj ?d (i_id o') = Some ?r"
    using True i by (simp add: find_obj_def find_append)
  ultimately have "db_ok (cache_put (i_id o') ?r ?d)" using i db_ok_but [of ?d] by (intro db_ok_cache_put) auto
  with True show ?thesis by (simp add: insert_object_def)
qed (simp add: insert_object_def)

lemma db_ok_get: "db_ok d \<Longrightarrow> db_ok (snd (get_object i t d))"
proof -
  assume ok: "db_ok d"
  define c where "c = (if t then (None, d_obj_cache d) else lru_get (d_obj_cache d) i)"
  have "cache_ok (snd c) (d_objects d)"
    using ok by (auto simp: c_def db_ok_def cache_ok_get)
  then have ok': "db_ok (d\<lparr>d_obj_cache := snd c\<rparr>)" using ok by (simp add: db_ok_def)
  have f: "find_obj (d\<lparr>d_obj_cache := snd c\<rparr>) i = find_obj d i" by (simp add: find_obj_def)
  show ?thesis
    unfolding get_object_def c_def [symmetric]
    using ok' f db_ok_but [OF ok', of "{i}"]
    by (auto simp: split_beta Let_def f split: option.splits intro!: db_ok_cache_put)
qed

lemma d_objects_cache [simp]:
  "d_objects (cache_invalidate i d) = d_objects d" "d_objects (cache_clear d) = d_objects d"
  "d_objects (cache_put i r d) = d_objects d"
  "d_obj_cache (cache_clear d) = lru_clear (d_obj_cache d)"
  by (simp_all add: cache_invalidate_def cache_clear_def cache_put_def)

text \<open>Writes that drop the entry of the one row they change, or the whole cache.\<close>

lemma db_ok_write_one:
  assumes "db_ok d" and "\<And>r. o_id (f r) = o_id r" and "\<And>r. P r \<Longrightarrow> o_id r = i"
  shows "db_ok ((cache_invalidate i d)\<lparr>d_objects := upd_where P f (d_objects d)\<rparr>)"
proof -
  have "find (\<lambda>r. o_id r = j) (upd_where P f (d_objects d)) = find (\<lambda>r. o_id r = j) (d_objects d)"
    if "j \<noteq> i" for j
    using find_upd_where [of o_id f j P "d_objects d", OF assms(2)] assms(3) that
    by (cases "find (\<lambda>r. o_id r = j) (d_objects d)") (auto dest: find_SomeD)
  then show ?thesis using assms(1,2)
    by (auto simp: db_ok_def cache_invalidate_def intro!: cache_ok_invalidate)
qed

lemma db_ok_write_all:
  "distinct (map o_id os) \<Longrightarrow> db_ok ((cache_clear d)\<lparr>d_objects := os\<rparr>)"
  by (simp add: db_ok_def cache_clear_def)

lemma db_ok_soft_delete: "db_ok d \<Longrightarrow> db_ok (fst (soft_delete now i d))"
  by (auto simp: soft_delete_def Let_def intro!: db_ok_write_one)

lemma db_ok_restore: "db_ok d \<Longrightarrow> db_ok (fst (restore_object i d))"
  by (auto simp: restore_object_def Let_def intro!: db_ok_write_one)

lemma db_ok_rename: "db_ok d \<Longrightarrow> db_ok (fst (rename_object i fn d))"
  by (auto simp: rename_object_def Let_def intro!: db_ok_write_one)

lemma db_ok_delete:
  assumes "db_ok d"
  shows "db_ok (fst (delete_object i d))"
proof -
  have "find (\<lambda>r. o_id r = j) (del_where (\<lambda>r. o_id r = i) (d_objects d)) =
      find (\<lambda>r. o_id r = j) (d_objects d)" if "j \<noteq> i" for j
    using that by (simp add: find_del_where_key)
  then show ?thesis using assms
    by (auto simp: delete_object_def Let_def db_ok_def cache_invalidate_def distinct_del_where
        intro!: cache_ok_invalidate)
qed

lemma db_ok_purge: "db_ok d \<Longrightarrow> db_ok (fst (purge_expired_trash now d))"
  by (simp add: purge_expired_trash_def Let_def db_ok_def distinct_del_where)

lemma db_ok_soft_delete_folder: "db_ok d \<Longrightarrow> db_ok (fst (soft_delete_folder now p d))"
  by (simp add: soft_delete_folder_def Let_def db_ok_def)

lemma ids_set_filename [simp]: "map o_id (set_filename i fn os) = map o_id os"
  by (simp add: set_filename_def)

lemma ids_fold_set_filename [simp]: "map o_id (fold (\<lambda>r. set_filename (o_id r) (f r)) rs os) = map o_id os"
  by (induction rs arbitrary: os) auto

lemma db_ok_rename_folder: "db_ok d \<Longrightarrow> db_ok (fst (rename_folder a b d))"
  by (simp add: rename_folder_def Let_def db_ok_def)

lemma ids_move_rows: "map o_id (fst (move_rows p rs os)) = map o_id os"
  by (induction rs arbitrary: os) (simp_all add: Let_def split_beta)

lemma db_ok_move: "db_ok d \<Longrightarrow> db_ok (fst (move_objects_to_prefix ids p d))"
  by (auto simp: move_objects_to_prefix_def Let_def db_ok_def ids_move_rows split_beta)

lemma db_ok_append:
  "db_ok d \<Longrightarrow> find_obj d (o_id r) = None \<Longrightarrow> db_ok (d\<lparr>d_objects := d_objects d @ [r]\<rparr>)"
  by (auto simp: db_ok_def find_obj_None intro!: cache_ok_extend)

lemma db_ok_copy_rows: "db_ok d \<Longrightarrow> db_ok (fst (copy_rows now uuid n plen dst rs d))"
proof (induction now uuid n plen dst rs d rule: copy_rows.induct)
  case (2 now uuid n plen dst r rs d)
  then show ?case
    using db_ok_append [of d "copy_row now (uuid n) (dst @ drop plen (o_filename r)) r"]
    by (simp add: copy_row_def)
qed simp

lemma db_ok_copy_folder: "db_ok d \<Longrightarrow> db_ok (fst (copy_folder now uuid a b d))"
  by (simp add: copy_folder_def Let_def db_ok_copy_rows)

lemma db_ok_copy_object: "db_ok d \<Longrightarrow> db_ok (fst (copy_object now uuid i fn d))"
  by (auto simp: copy_object_def Let_def copy_row_def split: option.splits intro!: db_ok_append)

lemma db_ok_bump:
  assumes ok: "db_ok d"
  shows "db_ok (bump_downloads i d)"
proof -
  let ?f = "\<lambda>r. r\<lparr>o_downloaded := o_downloaded r + 1\<rparr>"
  let ?os = "upd_where (\<lambda>r. o_id r = i) ?f (d_objects d)"
  have fnd: "find (\<lambda>r. o_id r = j) ?os =
      map_option (\<lambda>r. if o_id r = i then ?f r else r) (find (\<lambda>r. o_id r = j) (d_objects d))" for j
    by (rule find_upd_where) simp
  have other: "find (\<lambda>r. o_id r = j) ?os = find (\<lambda>r. o_id r = j) (d_objects d)" if "j \<noteq> i" for j
    using that fnd [of j] by (cases "find (\<lambda>r. o_id r = j) (d_objects d)") (auto dest: find_SomeD)
  let ?d = "d\<lparr>d_objects := ?os\<rparr>"
  have di: "distinct (map o_id ?os)" using ok by (simp add: db_ok_def)
  have but: "cache_ok_but {i} c ?os" if "cache_ok c (d_objects d)" for c
    using that other by (auto simp: cache_ok_def)
  show ?thesis
  proof (cases "fst (lru_get (d_obj_cache d) i)")
    case None
    then have "map_of (lru_cache (d_obj_cache d)) i = None" "snd (lru_get (d_obj_cache d) i) = d_obj_cache d"
      by (auto simp: lru_get_def split: option.splits)
    moreover have "cache_ok_but {i} (d_obj_cache d) ?os" using ok but by (simp add: db_ok_def)
    ultimately have "cache_ok (d_obj_cache d) ?os"
      unfolding cache_ok_def map_of_eq_None_iff by force
    then show ?thesis using None di \<open>snd (lru_get (d_obj_cache d) i) = d_obj_cache d\<close>
      by (simp add: bump_downloads_def Let_def split_beta db_ok_def)
  next
    case (Some v)
    have v: "find (\<lambda>r. o_id r = i) (d_objects d) = Some v" "\<not> truthy_int (o_deleted_at v)"
      using lru_get_coherent [OF _ Some] ok by (auto simp: db_ok_def)
    have "cache_ok_but {i} (snd (lru_get (d_obj_cache d) i)) ?os"
      using ok by (intro but cache_ok_get) (simp add: db_ok_def)
    then show ?thesis using Some di v
      by (auto simp: bump_downloads_def Let_def split_beta find_obj_def fnd dest: find_SomeD
          intro!: db_ok_cache_put)
  qed
qed


section \<open>Runs of operations\<close>

text \<open>The calls that touch the objects table, and what a sequence of them does to the state.
  \<open>now\<close> is the clock at the call; \<open>uuid\<close> the ids drawn in it.\<close>

datatype db_op =
    OInsert time obj_in
  | OGet string bool
  | ODelete string
  | OSoftDelete time string
  | ORestore string
  | OPurge time
  | ORename string string
  | OBump string
  | ORenameFolder string string
  | OCopyFolder time "nat \<Rightarrow> string" string string
  | OCopy time string string "string option"
  | OSoftDeleteFolder time string
  | OMove "string list" string

fun db_exec :: "db_op \<Rightarrow> db \<Rightarrow> db" where
  "db_exec (OInsert now o') d = fst (insert_object now o' d)"
| "db_exec (OGet i t) d = snd (get_object i t d)"
| "db_exec (ODelete i) d = fst (delete_object i d)"
| "db_exec (OSoftDelete now i) d = fst (soft_delete now i d)"
| "db_exec (ORestore i) d = fst (restore_object i d)"
| "db_exec (OPurge now) d = fst (purge_expired_trash now d)"
| "db_exec (ORename i fn) d = fst (rename_object i fn d)"
| "db_exec (OBump i) d = bump_downloads i d"
| "db_exec (ORenameFolder a b) d = fst (rename_folder a b d)"
| "db_exec (OCopyFolder now uuid a b) d = fst (copy_folder now uuid a b d)"
| "db_exec (OCopy now uuid i fn) d = fst (copy_object now uuid i fn d)"
| "db_exec (OSoftDeleteFolder now p) d = fst (soft_delete_folder now p d)"
| "db_exec (OMove ids p) d = fst (move_objects_to_prefix ids p d)"

lemmas db_ok_ops [inv_intros] =
  db_ok_insert db_ok_get db_ok_delete db_ok_soft_delete db_ok_restore db_ok_purge db_ok_rename
  db_ok_bump db_ok_rename_folder db_ok_copy_folder db_ok_copy_object db_ok_soft_delete_folder
  db_ok_move

lemma db_ok_exec: "db_ok d \<Longrightarrow> db_ok (db_exec op' d)"
  by (cases op') (simp_all add: db_ok_ops)

lemma db_ok_run: "db_ok d \<Longrightarrow> db_ok (fold db_exec ops d)"
  by (induction ops arbitrary: d) (simp_all add: db_ok_exec)

text \<open>A freshly opened empty database; the cache holds 4000 rows.\<close>

(* src: src/src/anbar/db.py auto Database.__init__ *)
definition db_empty :: db where
  "db_empty = \<lparr>d_objects = [], d_links = [], d_kv = [], d_rate = [], d_audit = [], d_audit_seq = 0,
     d_obj_cache = \<lparr>lru_capacity = 4000, lru_cache = []\<rparr>\<rparr>"

lemma db_ok_empty: "db_ok db_empty"
  by (simp add: db_empty_def db_ok_def cache_ok_def)

text \<open>What the table itself holds for a read.\<close>

definition visible :: "string \<Rightarrow> bool \<Rightarrow> db \<Rightarrow> obj option" where
  "visible i include_trashed d = (case find_obj d i of
     None \<Rightarrow> None
   | Some r \<Rightarrow> if \<not> include_trashed \<and> truthy_int (o_deleted_at r) then None else Some r)"

lemma get_object_rows: "d_objects (snd (get_object i t d)) = d_objects d"
  by (auto simp: get_object_def cache_put_def Let_def split: prod.split option.split)

lemma get_object_visible: "db_ok d \<Longrightarrow> fst (get_object i t d) = visible i t d"
proof -
  assume ok: "db_ok d"
  have f: "find_obj (d\<lparr>d_obj_cache := c\<rparr>) i = find_obj d i" for c by (simp add: find_obj_def)
  show ?thesis
  proof (cases "t \<or> fst (lru_get (d_obj_cache d) i) = None")
    case True
    then show ?thesis
      by (auto simp: get_object_def visible_def f split_beta Let_def split: option.splits)
  next
    case False
    then obtain v where v: "fst (lru_get (d_obj_cache d) i) = Some v" by auto
    with lru_get_coherent [of "d_obj_cache d" "d_objects d" i v] ok
    have "find_obj d i = Some v \<and> \<not> truthy_int (o_deleted_at v)"
      by (simp add: db_ok_def find_obj_def)
    with v False show ?thesis
      by (auto simp: get_object_def visible_def f split_beta Let_def)
  qed
qed

text \<open>C10: the row cache is invisible. After any sequence of the store's operations on a new
  database, \<open>get_object\<close> answers exactly what the table holds at that moment, whatever was
  cached, and never a soft-deleted row unless asked.\<close>

theorem cache_transparent:
  "fst (get_object i t (fold db_exec ops db_empty)) = visible i t (fold db_exec ops db_empty)"
  by (rule get_object_visible [OF db_ok_run [OF db_ok_empty]])

text \<open>Also: the cache never outgrows its capacity and ids stay unique.\<close>

theorem cache_bounded:
  "length (lru_cache (d_obj_cache (fold db_exec ops db_empty))) \<le> 4000
     \<and> distinct (map o_id (d_objects (fold db_exec ops db_empty)))"
proof -
  have p: "lru_capacity (snd (lru_get c k)) = lru_capacity c"
    "lru_capacity (lru_put c k v) = lru_capacity c" "lru_capacity (lru_invalidate c k) = lru_capacity c"
    "lru_capacity (lru_clear c) = lru_capacity c" for c k v
    by (simp_all add: lru_get_def lru_put_def lru_invalidate_def lru_clear_def Let_def split: option.splits)
  have r: "lru_capacity (d_obj_cache (fst (copy_rows now uuid n plen dst rs d))) =
      lru_capacity (d_obj_cache d)" for now uuid n plen dst rs d
    by (induction now uuid n plen dst rs d rule: copy_rows.induct) auto
  have "lru_capacity (d_obj_cache (db_exec op' d)) = lru_capacity (d_obj_cache d)" for op' d
    by (cases op')
       (auto simp: insert_object_def get_object_def delete_object_def soft_delete_def restore_object_def
          purge_expired_trash_def rename_object_def bump_downloads_def rename_folder_def copy_folder_def
          copy_object_def soft_delete_folder_def move_objects_to_prefix_def cache_put_def
          cache_invalidate_def cache_clear_def p r Let_def split_beta split: option.splits)
  then have "lru_capacity (d_obj_cache (fold db_exec ops d)) = lru_capacity (d_obj_cache d)" for d
    by (induction ops arbitrary: d) auto
  from this [of db_empty] db_ok_run [OF db_ok_empty, of ops] show ?thesis
    by (auto simp: db_ok_def cache_ok_def db_empty_def)
qed

end
