(* ===== verification/DbFolders.thy ===== *)
theory DbFolders
  imports DbCoherence
begin

text \<open>
  What the trash, folder and statistics operations of the object table do: a soft delete is
  undone by a restore, the purge drops exactly the rows past the retention, the row loops of
  the folder operations amount to one update of the table, and the two ways in which the
  unescaped LIKE pattern of a folder reaches beyond it.
\<close>

section \<open>Row loops as one update\<close>

lemma set_filename_map:
  "set_filename i fn os = map (\<lambda>x. if o_id x = i then x\<lparr>o_filename := fn\<rparr> else x) os"
  by (simp add: set_filename_def upd_where_def)

lemma fold_set_filename:
  "distinct (map o_id rs) \<Longrightarrow>
     fold (\<lambda>r. set_filename (o_id r) (f r)) rs os =
       map (\<lambda>x. case find (\<lambda>r. o_id r = o_id x) rs of None \<Rightarrow> x | Some r \<Rightarrow> x\<lparr>o_filename := f r\<rparr>) os"
proof (induction rs arbitrary: os)
  case Nil
  then show ?case by simp
next
  case (Cons r rs)
  have "find (\<lambda>s. o_id s = o_id r) rs = None"
    using Cons.prems unfolding find_None_iff by (metis distinct.simps(2) image_eqI list.simps(9) set_map)
  then show ?case using Cons by (auto simp: set_filename_map split: option.splits)
qed

lemma find_filter_self:
  assumes "distinct (map o_id os)" and "x \<in> set os"
  shows "find (\<lambda>r. o_id r = o_id x) (filter P os) = (if P x then Some x else None)"
proof (cases "P x")
  case True
  then show ?thesis
    using find_unique [OF distinct_map_filter [OF assms(1), of P], of x] assms(2) by simp
next
  case False
  have "s = x" if "s \<in> set os" "o_id s = o_id x" for s
    using assms that by (auto simp: distinct_map inj_on_def)
  with False have "find (\<lambda>r. o_id r = o_id x) (filter P os) = None"
    by (auto simp: find_None_iff)
  with False show ?thesis by simp
qed

lemma fold_set_filename_filter:
  assumes "distinct (map o_id os)"
  shows "fold (\<lambda>r. set_filename (o_id r) (f r)) (filter P os) os =
     map (\<lambda>x. if P x then x\<lparr>o_filename := f x\<rparr> else x) os"
  using assms
  by (simp add: fold_set_filename distinct_map_filter find_filter_self cong: map_cong)

section \<open>Trash\<close>

lemma upd_where_twice_id:
  assumes "\<And>r. r \<in> set rs \<Longrightarrow> (if P r then g (f r) else if Q r then g r else r) = r"
    and "\<And>r. P r \<Longrightarrow> Q (f r)"
  shows "upd_where Q g (upd_where P f rs) = rs"
  unfolding upd_where_def map_map
proof (rule map_idI)
  fix r
  assume "r \<in> set rs"
  from assms(1) [OF this] assms(2) [of r]
  show "((\<lambda>r. if Q r then g r else r) \<circ> (\<lambda>r. if P r then f r else r)) r = r"
    by (cases "P r") auto
qed

lemma soft_delete_restore_parts:
  assumes "db_ok d" and "find_obj d i = Some r" and "untrashed r" and "now \<noteq> 0"
  shows "snd (soft_delete now i d)"
    and "fst (get_object i False (fst (soft_delete now i d))) = None"
    and "fst (get_object i True (fst (soft_delete now i d))) = Some (r\<lparr>o_deleted_at := Some now\<rparr>)"
    and "d_objects (fst (restore_object i (fst (soft_delete now i d)))) = d_objects d"
proof -
  let ?P = "\<lambda>r. o_id r = i \<and> untrashed r"
  have r: "r \<in> set (d_objects d)" "o_id r = i"
    using assms(2) by (auto simp: find_obj_def dest: find_SomeD)
  have same: "s = r" if "s \<in> set (d_objects d)" "o_id s = i" for s
    using assms(1) r that by (auto simp: db_ok_def distinct_map inj_on_def)
  show "snd (soft_delete now i d)"
    using r assms(3) by (force simp: soft_delete_def count_where_def Let_def filter_empty_conv)
  have f: "find_obj (fst (soft_delete now i d)) i = Some (r\<lparr>o_deleted_at := Some now\<rparr>)"
    using assms(2,3) r(2) find_upd_where [of o_id "\<lambda>r. r\<lparr>o_deleted_at := Some now\<rparr>" i ?P "d_objects d"]
    by (simp add: soft_delete_def find_obj_def Let_def)
  have ok: "db_ok (fst (soft_delete now i d))" by (rule db_ok_soft_delete [OF assms(1)])
  show "fst (get_object i False (fst (soft_delete now i d))) = None"
    "fst (get_object i True (fst (soft_delete now i d))) = Some (r\<lparr>o_deleted_at := Some now\<rparr>)"
    using assms(4) by (simp_all add: get_object_visible [OF ok] visible_def f)
  show "d_objects (fst (restore_object i (fst (soft_delete now i d)))) = d_objects d"
    using same assms(3)
    by (auto simp: restore_object_def soft_delete_def Let_def untrashed_def intro!: upd_where_twice_id)
qed

text \<open>Also: a soft delete hides a live object from the normal read but keeps its row, and
  restoring it afterwards gives back the table as it was.\<close>

theorem soft_delete_restore:
  assumes "db_ok d" and "find_obj d i = Some r" and "untrashed r" and "now \<noteq> 0"
  shows "(snd (soft_delete now i d))
     \<and> (fst (get_object i False (fst (soft_delete now i d))) = None)
     \<and> (fst (get_object i True (fst (soft_delete now i d))) = Some (r\<lparr>o_deleted_at := Some now\<rparr>))
     \<and> (d_objects (fst (restore_object i (fst (soft_delete now i d)))) = d_objects d)"
  by (intro conjI soft_delete_restore_parts [OF assms])

definition demo_row :: "string \<Rightarrow> string \<Rightarrow> obj" where
  "demo_row i fn = \<lparr>o_id = i, o_file_id = ''f'', o_backend = ''bot'', o_filename = fn, o_size = 5,
     o_content_type = None, o_sha256 = None, o_manifest = None, o_uploader_key = None,
     o_created_at = 10, o_downloaded = 0, o_deleted_at = None\<rparr>"

definition demo_db :: db where
  "demo_db = db_empty\<lparr>d_objects := [demo_row ''1'' ''a_b/x.txt'', demo_row ''2'' ''axb/y.txt'',
     demo_row ''3'' ''A_B/z.txt'', demo_row ''4'' ''c/w.png'']\<rparr>"

lemma demo_db_ok: "db_ok demo_db"
  by (simp add: demo_db_def db_ok_def db_empty_def cache_ok_def demo_row_def)

lemma soft_delete_restore_witness:
  "snd (soft_delete 20 ''2'' demo_db)
     \<and> d_objects (fst (restore_object ''2'' (fst (soft_delete 20 ''2'' demo_db)))) = d_objects demo_db"
proof -
  have f: "find_obj demo_db ''2'' = Some (demo_row ''2'' ''axb/y.txt'')" "untrashed (demo_row ''2'' ''axb/y.txt'')"
    by (simp_all add: find_obj_def demo_db_def demo_row_def untrashed_def)
  show ?thesis
    using soft_delete_restore [OF demo_db_ok f, of 20] by simp
qed

definition past_retention :: "time \<Rightarrow> obj \<Rightarrow> bool" where
  "past_retention now r = (case o_deleted_at r of None \<Rightarrow> False | Some t \<Rightarrow> t < now - 7 * 86400)"

lemma purge_exact_parts:
  assumes "db_ok d"
  shows "d_objects (fst (purge_expired_trash now d)) = filter (\<lambda>r. \<not> past_retention now r) (d_objects d)"
    and "snd (purge_expired_trash now d) = map o_id (filter (past_retention now) (d_objects d))"
proof -
  have inj: "o_id r = o_id s \<Longrightarrow> r = s" if "r \<in> set (d_objects d)" "s \<in> set (d_objects d)" for r s
    using assms(1) that by (auto simp: db_ok_def distinct_map inj_on_def)
  show "d_objects (fst (purge_expired_trash now d)) = filter (\<lambda>r. \<not> past_retention now r) (d_objects d)"
    unfolding purge_expired_trash_def Let_def TRASH_TTL_S_def fst_conv del_where_def past_retention_def
    by (auto intro!: filter_cong dest: inj)
  show "snd (purge_expired_trash now d) = map o_id (filter (past_retention now) (d_objects d))"
    unfolding purge_expired_trash_def Let_def snd_conv TRASH_TTL_S_def past_retention_def
      d_objects_cache by (rule refl)
qed

text \<open>Also: the retention purge removes exactly the rows whose soft delete is more than seven
  days old, reports their ids, and leaves every other row as it is.\<close>

theorem purge_exact:
  assumes "db_ok d"
  shows "(d_objects (fst (purge_expired_trash now d)) = filter (\<lambda>r. \<not> past_retention now r) (d_objects d))
     \<and> (snd (purge_expired_trash now d) = map o_id (filter (past_retention now) (d_objects d)))"
  by (intro conjI purge_exact_parts [OF assms])

lemma purge_exact_witness:
  "d_objects (fst (purge_expired_trash 9 demo_db)) = d_objects demo_db"
  using purge_exact [OF demo_db_ok, of 9] by (simp add: demo_db_def demo_row_def past_retention_def)

section \<open>Folders\<close>

lemma rename_folder_update_parts:
  assumes "db_ok d"
  shows "d_objects (fst (rename_folder old new d)) =
      map (\<lambda>r. if in_folder (rstrip_slash old @ ''/'') r
               then r\<lparr>o_filename := rstrip_slash new @ ''/'' @ drop (length (rstrip_slash old) + 1) (o_filename r)\<rparr>
               else r) (d_objects d)"
    and "snd (rename_folder old new d) = count_where (in_folder (rstrip_slash old @ ''/'')) (d_objects d)"
  using assms
  by (simp_all add: rename_folder_def Let_def fold_set_filename_filter db_ok_def count_where_def)

text \<open>Also: renaming a folder is one update: each live row the folder pattern matches keeps what
  follows the folder name and gets the new folder in front; every other row, and every other
  column, is untouched. The count is the number of rows renamed.\<close>

theorem rename_folder_update:
  assumes "db_ok d"
  shows "(d_objects (fst (rename_folder old new d)) =
      map (\<lambda>r. if in_folder (rstrip_slash old @ ''/'') r
               then r\<lparr>o_filename := rstrip_slash new @ ''/'' @ drop (length (rstrip_slash old) + 1) (o_filename r)\<rparr>
               else r) (d_objects d))
     \<and> (snd (rename_folder old new d) = count_where (in_folder (rstrip_slash old @ ''/'')) (d_objects d))"
  by (intro conjI rename_folder_update_parts [OF assms])

lemma rename_folder_update_witness:
  "snd (rename_folder ''c'' ''d'' demo_db) = 1
     \<and> map o_filename (d_objects (fst (rename_folder ''c/'' ''d'' demo_db))) =
         [''a_b/x.txt'', ''axb/y.txt'', ''A_B/z.txt'', ''d/w.png'']"
  using rename_folder_update [OF demo_db_ok, of "''c/''" "''d''", THEN conjunct1]
    rename_folder_update [OF demo_db_ok, of "''c''" "''d''", THEN conjunct2]
  by (simp add: demo_db_def demo_row_def in_folder_def like_def untrashed_def rstrip_by_def
      count_where_def lower_char_def code_def)

text \<open>Also: with no wildcard in its name, a folder holds exactly the live rows whose name starts
  with it up to ASCII case, so \<open>Docs\<close> and \<open>docs\<close> are one folder.\<close>

theorem in_folder_prefix:
  assumes "CHR ''%'' \<notin> set p" and "CHR ''_'' \<notin> set p"
  shows "in_folder p r \<longleftrightarrow> startswith (lower (o_filename r)) (lower p) \<and> untrashed r"
  using like_prefix [OF assms] by (simp add: in_folder_def)

lemma in_folder_prefix_witness:
  "in_folder ''docs/'' (demo_row ''1'' ''Docs/x'') \<longleftrightarrow>
     startswith (lower ''Docs/x'') (lower ''docs/'') \<and> untrashed (demo_row ''1'' ''Docs/x'')"
  using in_folder_prefix [of "''docs/''" "demo_row ''1'' ''Docs/x''"] by (simp add: demo_row_def)

text \<open>Also: deleting the folder \<open>a_b\<close> also puts \<open>axb/y.txt\<close> and \<open>A_B/z.txt\<close> in the trash: the
  pattern is neither escaped nor case sensitive.\<close>

theorem folder_pattern_overreach:
  "map o_filename (filter (\<lambda>r. \<not> untrashed r) (d_objects (fst (soft_delete_folder 20 ''a_b'' demo_db))))
     = [''a_b/x.txt'', ''axb/y.txt'', ''A_B/z.txt'']"
  by code_simp

lemma move_rows_fold:
  "fst (move_rows p rs os) = fold (\<lambda>r. set_filename (o_id r) (p @ last_piece (CHR ''/'') (o_filename r)))
      (filter (\<lambda>r. last_piece (CHR ''/'') (o_filename r) \<noteq> []
          \<and> p @ last_piece (CHR ''/'') (o_filename r) \<noteq> o_filename r) rs) os"
  by (induction rs arbitrary: os) (auto simp: Let_def split_beta)

lemma move_rows_counts:
  "fst (snd (move_rows p rs os)) = length (filter (\<lambda>r. last_piece (CHR ''/'') (o_filename r) \<noteq> []) rs)"
  "snd (snd (move_rows p rs os)) = map o_id (filter (\<lambda>r. last_piece (CHR ''/'') (o_filename r) = []) rs)"
  by (induction rs arbitrary: os) (simp_all add: Let_def split_beta)

definition base_name :: "obj \<Rightarrow> string" where
  "base_name r = last_piece (CHR ''/'') (o_filename r)"

definition selected :: "string list \<Rightarrow> obj \<Rightarrow> bool" where
  "selected ids r = (o_id r \<in> set ids \<and> untrashed r)"

definition dest_prefix :: "string \<Rightarrow> string" where
  "dest_prefix p = (if strip_slash p = [] then [] else strip_slash p @ ''/'')"

lemma move_objects_update_parts:
  assumes "db_ok d" and "ids \<noteq> []"
  shows "d_objects (fst (move_objects_to_prefix ids p d)) =
      map (\<lambda>r. if selected ids r \<and> base_name r \<noteq> [] then r\<lparr>o_filename := dest_prefix p @ base_name r\<rparr> else r) (d_objects d)"
    and "snd (move_objects_to_prefix ids p d) =
      (count_where (\<lambda>r. selected ids r \<and> base_name r \<noteq> []) (d_objects d),
       map o_id (filter (\<lambda>r. selected ids r \<and> base_name r = []) (d_objects d)))"
proof -
  have di: "distinct (map o_id (d_objects d))" using assms(1) by (simp add: db_ok_def)
  have m: "move_objects_to_prefix ids p d =
     ((cache_clear d)\<lparr>d_objects := fst (move_rows (dest_prefix p) (filter (selected ids) (d_objects d)) (d_objects d))\<rparr>,
      snd (move_rows (dest_prefix p) (filter (selected ids) (d_objects d)) (d_objects d)))"
    using assms(2) by (simp add: move_objects_to_prefix_def dest_prefix_def selected_def [abs_def] Let_def split_beta)
  show "d_objects (fst (move_objects_to_prefix ids p d)) =
      map (\<lambda>r. if selected ids r \<and> base_name r \<noteq> [] then r\<lparr>o_filename := dest_prefix p @ base_name r\<rparr> else r) (d_objects d)"
    unfolding m move_rows_fold
    by (simp add: fold_set_filename_filter [OF di] base_name_def cong: map_cong)
  show "snd (move_objects_to_prefix ids p d) =
      (count_where (\<lambda>r. selected ids r \<and> base_name r \<noteq> []) (d_objects d),
       map o_id (filter (\<lambda>r. selected ids r \<and> base_name r = []) (d_objects d)))"
    unfolding m snd_conv
    by (rule prod_eqI) (simp_all add: move_rows_counts count_where_def base_name_def conj_commute)
qed

text \<open>Also: moving objects to a folder changes only the path of the selected live rows and keeps
  their base names; a name with no base name is skipped and reported.\<close>

theorem move_objects_update:
  assumes "db_ok d" and "ids \<noteq> []"
  shows "(d_objects (fst (move_objects_to_prefix ids p d)) =
      map (\<lambda>r. if selected ids r \<and> base_name r \<noteq> [] then r\<lparr>o_filename := dest_prefix p @ base_name r\<rparr> else r) (d_objects d))
     \<and> (snd (move_objects_to_prefix ids p d) =
      (count_where (\<lambda>r. selected ids r \<and> base_name r \<noteq> []) (d_objects d),
       map o_id (filter (\<lambda>r. selected ids r \<and> base_name r = []) (d_objects d))))"
  by (intro conjI move_objects_update_parts [OF assms])

lemma move_objects_update_witness:
  "map o_filename (d_objects (fst (move_objects_to_prefix [''1'', ''4''] ''/q/'' demo_db))) =
     [''q/x.txt'', ''axb/y.txt'', ''A_B/z.txt'', ''q/w.png'']"
  using move_objects_update [OF demo_db_ok, of "[''1'', ''4'']" "''/q/''", THEN conjunct1]
  by (simp add: demo_db_def demo_row_def untrashed_def base_name_def selected_def dest_prefix_def strip_by_def lstrip_by_def rstrip_by_def
      last_piece_def rsplit1_def split1_def)

section \<open>Exact prefixes and statistics\<close>

lemma like_tokens_escaped:
  "like_tokens (Some (CHR 0x5C)) (escape_like p @ ''%'') = map LLit p @ [LAny]"
  by (induction p) (auto simp: escape_like_def)

text \<open>Also: the escaped listing matches exactly the names that start with the prefix, up to ASCII
  case: wildcards in the prefix are literal.\<close>

theorem list_by_prefix_exact:
  "set (list_objects_by_prefix p t d) =
     {r \<in> set (d_objects d). startswith (lower (o_filename r)) (lower p) \<and> (t \<or> untrashed r)}"
  by (auto simp: list_objects_by_prefix_def like_esc_def like_tokens_escaped like_match_lits)

definition total_of :: "(category \<Rightarrow> int) \<Rightarrow> int" where
  "total_of b = b Image + b Video + b Audio + b Pdf + b Text + b Archive + b Other"

lemma total_of_upd [simp]: "total_of (b(c := b c + n)) = total_of b + n"
  by (cases c) (simp_all add: total_of_def)

lemma fold_breakdown:
  "total_of (fold (\<lambda>r b. b(categorize r := b (categorize r) + o_size r)) rs b) =
     total_of b + sum_list (map o_size rs)"
  by (induction rs arbitrary: b) simp_all

text \<open>Also: the storage breakdown accounts for every byte: the seven categories add up to the
  total size of the live objects.\<close>

theorem breakdown_total:
  "get_system_stats d = (n, total_bytes, dls, breakdown) \<Longrightarrow>
     breakdown Image + breakdown Video + breakdown Audio + breakdown Pdf + breakdown Text
       + breakdown Archive + breakdown Other = total_bytes"
  using fold_breakdown [of "filter untrashed (d_objects d)" "\<lambda>_. 0"]
  by (auto simp: get_system_stats_def Let_def total_of_def)

lemma breakdown_total_witness:
  "snd (snd (snd (get_system_stats demo_db))) Image + snd (snd (snd (get_system_stats demo_db))) Video
     + snd (snd (snd (get_system_stats demo_db))) Audio + snd (snd (snd (get_system_stats demo_db))) Pdf
     + snd (snd (snd (get_system_stats demo_db))) Text + snd (snd (snd (get_system_stats demo_db))) Archive
     + snd (snd (snd (get_system_stats demo_db))) Other = 20"
proof -
  obtain n tb dl b where s: "get_system_stats demo_db = (n, tb, dl, b)" by (cases "get_system_stats demo_db")
  then have "tb = 20" by (simp add: get_system_stats_def Let_def demo_db_def demo_row_def untrashed_def)
  with breakdown_total [OF s] s show ?thesis by simp
qed

end
