(* ===== verification/DbTables.thy ===== *)
theory DbTables
  imports DbCoherence "HOL-Library.List_Lexorder" "HOL-Library.Char_ord"
begin

text \<open>
  The other tables of \<^verbatim>\<open>src/src/anbar/db.py\<close>: the kv store, the share links, the rate-limit
  windows and the audit log, and the restore of a backup. The kv store satisfies the
  interface \<open>kv_store\<close>, which is all that its clients (settings, secrets, tags) rely on.
\<close>

section \<open>The kv table\<close>

(* src: src/src/anbar/db.py auto Database.kv_get *)
definition kv_get :: "db \<Rightarrow> string \<Rightarrow> string option" where
  "kv_get d k = map_of (d_kv d) k"

(* src: src/src/anbar/db.py auto Database.kv_set *)
definition kv_set :: "string \<Rightarrow> string \<Rightarrow> db \<Rightarrow> db" where
  "kv_set k v d = d\<lparr>d_kv := AList.update k v (d_kv d)\<rparr>"

(* src: src/src/anbar/db.py auto Database.kv_delete *)
definition kv_delete :: "string \<Rightarrow> db \<Rightarrow> db" where
  "kv_delete k d = d\<lparr>d_kv := AList.delete k (d_kv d)\<rparr>"

text \<open>\<^verbatim>\<open>int(ts)\<close> on a decoded value.\<close>

definition json_int :: "json \<Rightarrow> int res" where
  "json_int j = (case j of
     JInt i \<Rightarrow> Inr i
   | JBool b \<Rightarrow> Inr (if b then 1 else 0)
   | JStr s \<Rightarrow> (case py_int s of None \<Rightarrow> Inl (ValueError ''int'') | Some i \<Rightarrow> Inr i)
   | _ \<Rightarrow> Inl TypeError)"

(* src: src/src/anbar/db.py 694-707 Database.kv_prune_prefix *)
fun prune_rows :: "int \<Rightarrow> (string \<times> string) list \<Rightarrow> nat \<Rightarrow> db \<Rightarrow> db \<times> nat res" where
  "prune_rows cutoff [] removed d = (d, Inr removed)"
| "prune_rows cutoff ((k, v) # rows) removed d =
     (case loads v of
        None \<Rightarrow> prune_rows cutoff rows removed d
      | Some payload \<Rightarrow>
          (case jget payload ''_ts'' of
             None \<Rightarrow> prune_rows cutoff rows removed d
           | Some JNull \<Rightarrow> prune_rows cutoff rows removed d
           | Some ts \<Rightarrow>
               (case json_int ts of
                  Inl e \<Rightarrow> (d, Inl e)
                | Inr t \<Rightarrow>
                    if t < cutoff then prune_rows cutoff rows (removed + 1) (kv_delete k d)
                    else prune_rows cutoff rows removed d)))"

(* src: src/src/anbar/db.py auto Database.kv_prune_prefix *)
definition kv_prune_prefix :: "time \<Rightarrow> string \<Rightarrow> int \<Rightarrow> db \<Rightarrow> db \<times> nat res" where
  "kv_prune_prefix now p max_age_s d =
     prune_rows (now - max_age_s) (filter (\<lambda>(k, v). like k (p @ ''%'')) (d_kv d)) 0 d"

(* src: src/src/anbar/db.py auto Database.kv_prefix *)
definition kv_prefix :: "db \<Rightarrow> string \<Rightarrow> (string \<times> string) list" where
  "kv_prefix d p = sort_key fst (filter (\<lambda>(k, v). like k (p @ ''%'')) (d_kv d))"

(* src: src/src/anbar/db.py auto Database.kv_all *)
definition kv_all :: "db \<Rightarrow> (string \<times> string) list" where
  "kv_all d = d_kv d"

locale kv_store =
  fixes get :: "'s \<Rightarrow> string \<Rightarrow> string option"
    and put :: "string \<Rightarrow> string \<Rightarrow> 's \<Rightarrow> 's"
    and del :: "string \<Rightarrow> 's \<Rightarrow> 's"
  assumes get_put: "get (put k v s) j = (if j = k then Some v else get s j)"
    and get_del: "get (del k s) j = (if j = k then None else get s j)"
begin

text \<open>Create on first use: the value is chosen once and every later call finds it.\<close>

definition ensure :: "string \<Rightarrow> string \<Rightarrow> 's \<Rightarrow> 's" where
  "ensure k v s = (case get s k of None \<Rightarrow> put k v s | Some _ \<Rightarrow> s)"

lemma ensure_first: "get (ensure k w (ensure k v s)) k = get (ensure k v s) k"
  by (simp add: ensure_def get_put split: option.splits)

lemma ensure_set: "get (ensure k v s) k = Some (case get s k of None \<Rightarrow> v | Some u \<Rightarrow> u)"
  by (simp add: ensure_def get_put split: option.splits)

lemma ensure_other: "j \<noteq> k \<Longrightarrow> get (ensure k v s) j = get s j"
  by (simp add: ensure_def get_put split: option.splits)

lemma put_put: "get (put k v (put k u s)) j = get (put k v s) j"
  by (simp add: get_put)

lemma del_put: "get (del k (put k v s)) j = get (del k s) j"
  by (simp add: get_put get_del)

lemma fold_del: "get (fold del ks s) j = (if j \<in> set ks then None else get s j)"
  by (induction ks arbitrary: s) (auto simp: get_del)

end

interpretation kv: kv_store kv_get kv_set kv_delete
  by unfold_locales (simp_all add: kv_get_def kv_set_def kv_delete_def update_conv' delete_conv')

lemmas kv_laws [kv_simps] = kv.get_put kv.get_del

lemma kv_get_fields [kv_simps]:
  "kv_get (d\<lparr>d_objects := os\<rparr>) k = kv_get d k" "kv_get (d\<lparr>d_links := ls\<rparr>) k = kv_get d k"
  "kv_get (d\<lparr>d_obj_cache := c\<rparr>) k = kv_get d k" "kv_get (d\<lparr>d_rate := rs\<rparr>) k = kv_get d k"
  "kv_get (d\<lparr>d_audit := as\<rparr>) k = kv_get d k"
  by (simp_all add: kv_get_def)

section \<open>Share links\<close>

definition link_is :: "string \<Rightarrow> int \<Rightarrow> link \<Rightarrow> bool" where
  "link_is i e r = (l_obj_id r = i \<and> l_exp r = e)"

(* src: src/src/anbar/db.py auto Database.link_insert *)
definition link_insert :: "time \<Rightarrow> string \<Rightarrow> int \<Rightarrow> string option \<Rightarrow> string option \<Rightarrow> bool \<Rightarrow> int option
     \<Rightarrow> int option \<Rightarrow> int \<Rightarrow> db \<Rightarrow> db" where
  "link_insert now i e sig slug pw max_dl created_at downloads d =
     d\<lparr>d_links := del_where (link_is i e) (d_links d)
        @ [\<lparr>l_obj_id = i, l_exp = e, l_sig = sig, l_slug = slug, l_pw = pw, l_max_dl = max_dl,
            l_downloads = downloads,
            l_created_at = (if truthy_int created_at then the created_at else now),
            l_revoked = False\<rparr>]\<rparr>"

(* src: src/src/anbar/db.py auto Database.link_get *)
definition link_get :: "db \<Rightarrow> string \<Rightarrow> int \<Rightarrow> link option" where
  "link_get d i e = find (link_is i e) (d_links d)"

definition rev_key :: "string \<Rightarrow> int \<Rightarrow> string" where
  "rev_key i e = ''rev:'' @ i @ '':'' @ str_of_int e"

(* src: src/src/anbar/db.py auto Database.link_is_revoked *)
definition link_is_revoked :: "db \<Rightarrow> string \<Rightarrow> int \<Rightarrow> bool" where
  "link_is_revoked d i e = (case link_get d i e of
     Some r \<Rightarrow> l_revoked r
   | None \<Rightarrow> kv_get d (rev_key i e) \<noteq> None)"

(* src: src/src/anbar/db.py auto Database.link_revoke *)
definition link_revoke :: "string \<Rightarrow> int \<Rightarrow> db \<Rightarrow> db \<times> bool" where
  "link_revoke i e d =
     (let P = (\<lambda>r. link_is i e r \<and> \<not> l_revoked r)
      in (d\<lparr>d_links := upd_where P (\<lambda>r. r\<lparr>l_revoked := True\<rparr>) (d_links d)\<rparr>,
          count_where P (d_links d) > 0))"

(* src: src/src/anbar/db.py auto Database.link_revoke_all *)
definition link_revoke_all :: "db \<Rightarrow> db \<times> nat" where
  "link_revoke_all d =
     (d\<lparr>d_links := upd_where (\<lambda>r. \<not> l_revoked r) (\<lambda>r. r\<lparr>l_revoked := True\<rparr>) (d_links d)\<rparr>,
      count_where (\<lambda>r. \<not> l_revoked r) (d_links d))"

(* src: src/src/anbar/db.py auto Database.link_list *)
definition link_list :: "time \<Rightarrow> int \<Rightarrow> bool \<Rightarrow> db \<Rightarrow> link list" where
  "link_list now lim include_dead d =
     (if include_dead then sql_limit (max 1 lim) 0 (order_desc l_exp (d_links d))
      else sql_limit (max 1 lim) 0
             (order_desc l_exp (filter (\<lambda>r. \<not> l_revoked r \<and> l_exp r > now) (d_links d))))"

(* src: src/src/anbar/db.py auto Database.link_bump_downloads *)
definition link_bump_downloads :: "time \<Rightarrow> string \<Rightarrow> db \<Rightarrow> db" where
  "link_bump_downloads now i d =
     d\<lparr>d_links := upd_where (\<lambda>r. l_obj_id r = i \<and> \<not> l_revoked r \<and> l_exp r > now)
         (\<lambda>r. r\<lparr>l_downloads := l_downloads r + 1\<rparr>) (d_links d)\<rparr>"

(* src: src/src/anbar/db.py 808-812 Database.link_purge_expired *)
definition purgeable :: "time \<Rightarrow> link \<Rightarrow> bool" where
  "purgeable now r = ((\<not> l_revoked r \<and> l_exp r \<le> now) \<or> (l_revoked r \<and> l_exp r + 7 * 86400 < now))"

(* src: src/src/anbar/db.py auto Database.link_purge_expired *)
definition link_purge_expired :: "time \<Rightarrow> int option \<Rightarrow> db \<Rightarrow> db \<times> nat" where
  "link_purge_expired clock now d =
     (let t = (if truthy_int now then the now else clock)
      in (d\<lparr>d_links := del_where (purgeable t) (d_links d)\<rparr>, count_where (purgeable t) (d_links d)))"

(* src: src/src/anbar/db.py auto Database.link_has_live *)
definition link_has_live :: "time \<Rightarrow> string \<Rightarrow> db \<Rightarrow> bool" where
  "link_has_live now i d =
     (\<exists>r \<in> set (d_links d). l_obj_id r = i \<and> \<not> l_revoked r \<and> l_exp r > now)"

section \<open>Rate-limit windows\<close>

(* src: src/src/anbar/db.py 840-849 Database.rate_check *)
definition rate_upsert :: "string \<Rightarrow> int \<Rightarrow> time \<Rightarrow> rate_row list \<Rightarrow> rate_row list" where
  "rate_upsert k win_start now rs =
     (if find (\<lambda>r. rt_k r = k) rs = None
      then rs @ [\<lparr>rt_k = k, rt_window_start = win_start, rt_n = 1\<rparr>]
      else upd_where (\<lambda>r. rt_k r = k)
             (\<lambda>r. r\<lparr>rt_window_start := (if rt_window_start r = win_start then win_start else now),
                    rt_n := (if rt_window_start r = win_start then rt_n r + 1 else 1)\<rparr>) rs)"

(* src: src/src/anbar/db.py auto Database.rate_check *)
definition rate_check :: "time \<Rightarrow> string \<Rightarrow> int \<Rightarrow> int \<Rightarrow> db \<Rightarrow> db \<times> bool \<times> int \<times> int" where
  "rate_check now k window_s limit d =
     (let win_start = now - (now mod window_s);
          d = d\<lparr>d_rate := rate_upsert k win_start now (d_rate d)\<rparr>;
          row = find (\<lambda>r. rt_k r = k) (d_rate d);
          n = (case row of None \<Rightarrow> 1 | Some r \<Rightarrow> if rt_window_start r < win_start then 1 else rt_n r)
      in if n > limit then (d, False, max 1 (win_start + window_s - now), n)
         else (d, True, 0, n))"

(* src: src/src/anbar/db.py auto Database.rate_prune *)
definition rate_prune :: "time \<Rightarrow> int \<Rightarrow> db \<Rightarrow> db \<times> nat" where
  "rate_prune now max_age_s d =
     (let P = (\<lambda>r. rt_window_start r < now - max_age_s)
      in (d\<lparr>d_rate := del_where P (d_rate d)\<rparr>, count_where P (d_rate d)))"

section \<open>The audit log\<close>

datatype audit_details = DNone | DText string | DJson json

(* src: src/src/anbar/db.py 991-995 Database.log_audit *)
definition audit_text :: "audit_details \<Rightarrow> string option" where
  "audit_text a = (case a of
     DJson j \<Rightarrow> Some (dumps_uni j)
   | DText s \<Rightarrow> if s \<noteq> [] then Some s else None
   | DNone \<Rightarrow> None)"

(* src: src/src/anbar/db.py auto Database.log_audit *)
definition log_audit :: "time \<Rightarrow> string \<Rightarrow> string \<Rightarrow> string option \<Rightarrow> string option \<Rightarrow> audit_details
     \<Rightarrow> db \<Rightarrow> db \<times> int" where
  "log_audit now event actor target ip details d =
     (let i = d_audit_seq d + 1
      in (d\<lparr>d_audit := d_audit d @ [\<lparr>a_id = i, a_created_at = now, a_event = event, a_actor = actor,
             a_target = target, a_ip = ip, a_details = audit_text details\<rparr>],
            d_audit_seq := i\<rparr>, i))"

(* src: src/src/anbar/db.py auto Database.audit_prune *)
definition audit_prune :: "time \<Rightarrow> int \<Rightarrow> db \<Rightarrow> db \<times> nat" where
  "audit_prune now max_age_s d =
     (let P = (\<lambda>r. a_created_at r < now - max_age_s)
      in (d\<lparr>d_audit := del_where P (d_audit d)\<rparr>, count_where P (d_audit d)))"

text \<open>The details come back decoded when they are JSON.\<close>

(* src: src/src/anbar/db.py auto Database.list_audit_logs *)
definition list_audit_logs :: "int \<Rightarrow> int \<Rightarrow> db \<Rightarrow> (audit_row \<times> json option) list" where
  "list_audit_logs lim off d =
     map (\<lambda>r. (r, if truthy_str (a_details r)
                   then Some (case loads (the (a_details r)) of Some j \<Rightarrow> j | None \<Rightarrow> JStr (the (a_details r)))
                   else None))
       (sql_limit (max 1 (min lim 200)) (max 0 off)
          (order_desc a_created_at (order_desc a_id (d_audit d))))"

section \<open>Restoring a backup\<close>

text \<open>
  Opening the bytes as a database is SQLite's: \<open>image\<close> is what it reads from them, the
  answer of its integrity check, the names of its tables and their rows.
\<close>

record image =
  im_check :: string
  im_tables :: "string list"
  im_db :: db

definition sqlite_header :: string where
  "sqlite_header = ''SQLite format 3'' @ [CHR 0x00]"

(* src: src/src/anbar/db.py auto Database.restore_bytes *)
definition restore_bytes :: "(string \<Rightarrow> image) \<Rightarrow> string \<Rightarrow> db \<Rightarrow> db \<times> nat res" where
  "restore_bytes open_image data d =
     (if \<not> startswith data sqlite_header then (d, Inl (ValueError ''header''))
      else let im = open_image data
           in if im_check im \<noteq> ''ok'' then (d, Inl (ValueError ''corrupted''))
              else if \<not> {''objects'', ''kv''} \<subseteq> set (im_tables im) then (d, Inl (ValueError ''tables''))
              else (cache_clear ((im_db im)\<lparr>d_obj_cache := d_obj_cache d\<rparr>),
                    Inr (length (d_objects (im_db im)))))"

(* src: src/src/anbar/db.py auto Database.restore_from_file *)
definition restore_from_file :: "(string \<Rightarrow> image) \<Rightarrow> string \<Rightarrow> db \<Rightarrow> db \<times> nat res" where
  "restore_from_file open_image content d =
     (if take 16 content \<noteq> sqlite_header then (d, Inl (ValueError ''header''))
      else let im = open_image content
           in if im_check im \<noteq> ''ok'' then (d, Inl (ValueError ''corrupted''))
              else if \<not> {''objects'', ''kv''} \<subseteq> set (im_tables im) then (d, Inl (ValueError ''tables''))
              else (cache_clear ((im_db im)\<lparr>d_obj_cache := d_obj_cache d\<rparr>),
                    Inr (length (d_objects (im_db im)))))"


section \<open>What the tables guarantee\<close>

subsection \<open>Rate limiting\<close>

text \<open>The outcomes \<open>(allowed, retry_after, count)\<close> of calls at the times \<open>ts\<close>.\<close>

fun rate_calls :: "string \<Rightarrow> int \<Rightarrow> int \<Rightarrow> time list \<Rightarrow> db \<Rightarrow> (bool \<times> int \<times> int) list" where
  "rate_calls k w lim [] d = []"
| "rate_calls k w lim (t # ts) d = snd (rate_check t k w lim d) # rate_calls k w lim ts (fst (rate_check t k w lim d))"

definition rate_row_of :: "db \<Rightarrow> string \<Rightarrow> rate_row option" where
  "rate_row_of d k = find (\<lambda>r. rt_k r = k) (d_rate d)"

definition rate_next :: "string \<Rightarrow> int \<Rightarrow> time \<Rightarrow> rate_row option \<Rightarrow> rate_row" where
  "rate_next k win_start now r = (case r of
     None \<Rightarrow> \<lparr>rt_k = k, rt_window_start = win_start, rt_n = 1\<rparr>
   | Some r \<Rightarrow> r\<lparr>rt_window_start := (if rt_window_start r = win_start then win_start else now),
                 rt_n := (if rt_window_start r = win_start then rt_n r + 1 else 1)\<rparr>)"

lemma find_rate_upsert:
  "find (\<lambda>r. rt_k r = k) (rate_upsert k s t rs) = Some (rate_next k s t (find (\<lambda>r. rt_k r = k) rs))"
  unfolding rate_upsert_def
  by (cases "find (\<lambda>r. rt_k r = k) rs")
     (auto simp: find_append find_upd_where [where key = rt_k] rate_next_def dest: find_SomeD)

lemma rate_row_of_check:
  "rate_row_of (fst (rate_check t k w lim d)) k = Some (rate_next k (t - t mod w) t (rate_row_of d k))"
  by (simp add: rate_check_def rate_row_of_def find_rate_upsert Let_def)

lemma rate_check_result:
  "snd (rate_check t k w lim d) =
     (let s = t - t mod w; r = rate_next k s t (rate_row_of d k);
          n = (if rt_window_start r < s then 1 else rt_n r)
      in if n > lim then (False, max 1 (s + w - t), n) else (True, 0, n))"
  by (simp add: rate_check_def rate_row_of_def find_rate_upsert Let_def)

lemma rate_calls_window:
  assumes "\<forall>t \<in> set ts. t - t mod w = s"
    and "rate_row_of d k = (if n = 0 then None else Some \<lparr>rt_k = k, rt_window_start = s, rt_n = n\<rparr>)"
    and "0 \<le> n"
  shows "map (snd \<circ> snd) (rate_calls k w lim ts d) = map (\<lambda>i. n + 1 + int i) [0..<length ts]
     \<and> map fst (rate_calls k w lim ts d) = map (\<lambda>i. n + 1 + int i \<le> lim) [0..<length ts]"
  using assms
proof (induction ts arbitrary: d n)
  case Nil
  then show ?case by simp
next
  case (Cons t ts)
  have r: "rate_next k s t (rate_row_of d k) = \<lparr>rt_k = k, rt_window_start = s, rt_n = n + 1\<rparr>"
    using Cons.prems(2) by (simp add: rate_next_def)
  have "rate_row_of (fst (rate_check t k w lim d)) k = Some \<lparr>rt_k = k, rt_window_start = s, rt_n = n + 1\<rparr>"
    using rate_row_of_check [of t k w lim d] r Cons.prems(1) by simp
  with Cons.IH [of "fst (rate_check t k w lim d)" "n + 1"] Cons.prems(1,3)
  have ih: "map (snd \<circ> snd) (rate_calls k w lim ts (fst (rate_check t k w lim d)))
        = map (\<lambda>i. n + 1 + 1 + int i) [0..<length ts]"
    "map fst (rate_calls k w lim ts (fst (rate_check t k w lim d)))
        = map (\<lambda>i. n + 1 + 1 + int i \<le> lim) [0..<length ts]"
    by (simp_all add: comp_def)
  have up: "[0..<length (t # ts)] = 0 # map Suc [0..<length ts]"
    unfolding map_Suc_upt by (simp add: upt_conv_Cons del: upt_Suc)
  have c: "snd (rate_check t k w lim d) =
      (if n + 1 > lim then (False, max 1 (s + w - t), n + 1) else (True, 0, n + 1))"
    using rate_check_result [of t k w lim d] Cons.prems(1) r by (simp add: Let_def)
  show ?case unfolding up
    by (auto simp: c ih [unfolded comp_def] comp_def add.assoc)
qed

lemma rate_window_exact_parts:
  assumes "rate_row_of d k = None" and "\<forall>t \<in> set ts. t - t mod w = s"
  shows "map (snd \<circ> snd) (rate_calls k w lim ts d) = map (\<lambda>i. 1 + int i) [0..<length ts]"
    and "map fst (rate_calls k w lim ts d) = map (\<lambda>i. 1 + int i \<le> lim) [0..<length ts]"
  using rate_calls_window [OF assms(2), of d k 0 lim] assms(1) by simp_all

text \<open>Also: for a key with no earlier row, the calls inside one window are counted from one, and
  exactly the first \<open>limit\<close> of them are allowed.\<close>

theorem rate_window_exact:
  assumes "rate_row_of d k = None" and "\<forall>t \<in> set ts. t - t mod w = s"
  shows "(map (snd \<circ> snd) (rate_calls k w lim ts d) = map (\<lambda>i. 1 + int i) [0..<length ts])
     \<and> (map fst (rate_calls k w lim ts d) = map (\<lambda>i. 1 + int i \<le> lim) [0..<length ts])"
  by (intro conjI rate_window_exact_parts [OF assms])

lemma rate_window_exact_witness:
  "map fst (rate_calls ''ip'' 60 2 [121, 130, 179] db_empty) = [True, True, False]"
  using rate_window_exact [of db_empty "''ip''" "[121, 130, 179]" 60 120 2]
  by (simp add: rate_row_of_def db_empty_def)

text \<open>Also: once a key has a row from an earlier window, later calls are no longer limited: every
  call of the next window except one at its first second is counted as the first and allowed,
  because the reset stores the call's time, not the window's start.\<close>

theorem rate_limit_lost:
  assumes "rate_row_of d k = Some r" and "rt_window_start r \<noteq> s" and "1 \<le> lim"
    and "\<forall>t \<in> set ts. t - t mod w = s \<and> s < t"
  shows "rate_calls k w lim ts d = replicate (length ts) (True, 0, 1)"
  using assms
proof (induction ts arbitrary: d r)
  case Nil
  then show ?case by simp
next
  case (Cons t ts)
  let ?r = "r\<lparr>rt_window_start := t, rt_n := 1\<rparr>"
  have r: "rate_next k s t (rate_row_of d k) = ?r"
    using Cons.prems by (simp add: rate_next_def)
  have "rate_row_of (fst (rate_check t k w lim d)) k = Some ?r"
    using rate_row_of_check [of t k w lim d] r Cons.prems(4) by simp
  moreover have "rt_window_start ?r \<noteq> s" using Cons.prems(4) by auto
  ultimately have "rate_calls k w lim ts (fst (rate_check t k w lim d)) = replicate (length ts) (True, 0, 1)"
    using Cons.IH Cons.prems(3,4) by auto
  moreover have "snd (rate_check t k w lim d) = (True, 0, 1)"
    using rate_check_result [of t k w lim d] Cons.prems(3,4) r by (simp add: Let_def)
  ultimately show ?case by simp
qed

lemma rate_limit_lost_witness:
  "rate_calls ''ip'' 60 1 [181, 190, 200]
      (db_empty\<lparr>d_rate := [\<lparr>rt_k = ''ip'', rt_window_start = 120, rt_n = 1\<rparr>]\<rparr>)
     = [(True, 0, 1), (True, 0, 1), (True, 0, 1)]"
  using rate_limit_lost [of "db_empty\<lparr>d_rate := [\<lparr>rt_k = ''ip'', rt_window_start = 120, rt_n = 1\<rparr>]\<rparr>"
      "''ip''" "\<lparr>rt_k = ''ip'', rt_window_start = 120, rt_n = 1\<rparr>" 180 1 "[181, 190, 200]" 60]
  by (simp add: rate_row_of_def numeral_eq_Suc)

subsection \<open>Revocation\<close>

definition link_key :: "link \<Rightarrow> string \<times> int" where
  "link_key r = (l_obj_id r, l_exp r)"

definition links_ok :: "db \<Rightarrow> bool" where
  "links_ok d = distinct (map link_key (d_links d))"

lemma link_is_key: "link_is i e = (\<lambda>r. link_key r = (i, e))"
  by (auto simp: link_is_def link_key_def)

datatype link_op =
    LInsert time string int "string option" "string option" bool "int option" "int option" int
  | LRevoke string int
  | LRevokeAll
  | LBump time string
  | LPurge time

fun link_exec :: "link_op \<Rightarrow> db \<Rightarrow> db" where
  "link_exec (LInsert now i e sig slug pw mx c n) d = link_insert now i e sig slug pw mx c n d"
| "link_exec (LRevoke i e) d = fst (link_revoke i e d)"
| "link_exec LRevokeAll d = fst (link_revoke_all d)"
| "link_exec (LBump now i) d = link_bump_downloads now i d"
| "link_exec (LPurge now) d = fst (link_purge_expired now None d)"

lemma links_ok_exec: "links_ok d \<Longrightarrow> links_ok (link_exec op' d)"
proof (cases op')
  case (LInsert now i e sig slug pw mx c n)
  assume "links_ok d"
  then show ?thesis
    by (auto simp: LInsert links_ok_def link_insert_def link_is_key distinct_del_where)
       (auto simp: link_key_def del_where_def)
qed (simp_all add: links_ok_def link_revoke_def link_revoke_all_def link_bump_downloads_def
      link_purge_expired_def distinct_del_where link_key_def Let_def)

text \<open>The operations a link survives as revoked up to the time \<open>t\<close>.\<close>

fun keeps_link :: "string \<Rightarrow> int \<Rightarrow> time \<Rightarrow> link_op \<Rightarrow> bool" where
  "keeps_link i e t (LInsert _ i' e' _ _ _ _ _ _) = ((i', e') \<noteq> (i, e))"
| "keeps_link i e t (LPurge now) = (now \<le> t)"
| "keeps_link i e t _ = True"

lemma revoked_upd:
  assumes "\<And>r. link_key (f r) = link_key r" and "\<And>r. l_revoked r \<Longrightarrow> l_revoked (f r)"
    and "link_is_revoked d i e"
  shows "link_is_revoked (d\<lparr>d_links := upd_where P f (d_links d)\<rparr>) i e"
  using assms find_upd_where [of link_key f "(i, e)" P "d_links d", OF assms(1)]
  by (auto simp: link_is_revoked_def link_get_def link_is_key kv_simps split: option.splits)

lemma revoked_exec:
  assumes ok: "links_ok d" and rev: "link_is_revoked d i e" and k: "keeps_link i e t op'"
  shows "link_is_revoked (link_exec op' d) i e \<or> e \<le> t"
proof (cases op')
  case (LInsert now i' e' sig slug pw mx c n)
  have "find (\<lambda>r. link_key r = (i, e)) (del_where (\<lambda>r. link_key r = (i', e')) (d_links d)) =
      find (\<lambda>r. link_key r = (i, e)) (d_links d)"
    using k LInsert find_del_where_key [of link_key "(i, e)" "(i', e')" "d_links d"] by auto
  then show ?thesis using k rev LInsert
    by (auto simp: link_is_revoked_def link_get_def link_insert_def link_is_key find_append kv_simps
        link_key_def split: option.splits)
next
  case (LRevoke i' e')
  then show ?thesis using rev by (auto simp: link_revoke_def Let_def link_key_def intro!: revoked_upd)
next
  case LRevokeAll
  then show ?thesis using rev by (auto simp: link_revoke_all_def link_key_def intro!: revoked_upd)
next
  case (LBump now i')
  then show ?thesis using rev by (auto simp: link_bump_downloads_def link_key_def intro!: revoked_upd)
next
  case (LPurge now)
  show ?thesis
  proof (cases "find (\<lambda>r. link_key r = (i, e)) (d_links d)")
    case None
    then show ?thesis using rev LPurge ok
      by (auto simp: link_is_revoked_def link_get_def link_purge_expired_def link_is_key kv_simps
          links_ok_def find_del_where Let_def)
  next
    case (Some r)
    then have "l_revoked r" "l_exp r = e"
      using rev by (auto simp: link_is_revoked_def link_get_def link_is_key link_key_def dest: find_SomeD)
    then show ?thesis using Some k LPurge ok
      by (auto simp: link_is_revoked_def link_get_def link_purge_expired_def link_is_key
          links_ok_def find_del_where purgeable_def Let_def)
  qed
qed

text \<open>C35: revocation is permanent. Whatever links are inserted, revoked, counted or purged
  afterwards, a revoked link stays revoked until it has expired, unless that same link
  (object and expiry) is minted again.\<close>

theorem revocation_permanent:
  assumes "links_ok d" and "link_is_revoked d i e" and "\<forall>op' \<in> set ops. keeps_link i e t op'"
  shows "link_is_revoked (fold link_exec ops d) i e \<or> e \<le> t"
  using assms
proof (induction ops arbitrary: d)
  case Nil
  then show ?case by simp
next
  case (Cons op' ops)
  then have k: "keeps_link i e t op'" by simp
  from revoked_exec [OF Cons.prems(1,2) k] Cons.IH [of "link_exec op' d"] Cons.prems
  show ?case by (auto simp: links_ok_exec)
qed

lemma revocation_permanent_witness:
  "link_is_revoked (fold link_exec [LBump 5 ''a'', LPurge 6, LInsert 6 ''a'' 200 None None False None None 0]
      (fst (link_revoke ''a'' 100 (link_insert 1 ''a'' 100 None None False None None 0 db_empty)))) ''a'' 100"
  using revocation_permanent [of "fst (link_revoke ''a'' 100 (link_insert 1 ''a'' 100 None None False None None 0 db_empty))"
      "''a''" 100 "[LBump 5 ''a'', LPurge 6, LInsert 6 ''a'' 200 None None False None None 0]" 6]
  by (simp add: links_ok_def link_revoke_def link_insert_def db_empty_def del_where_def upd_where_def
      link_is_revoked_def link_get_def link_is_def link_key_def Let_def)

text \<open>Also: minting the same link again after a revocation makes it valid again.\<close>

theorem remint_unrevokes:
  "\<not> link_is_revoked (link_insert now i e sig slug pw mx c n d) i e"
proof -
  have "find (\<lambda>r. link_key r = (i, e)) (del_where (\<lambda>r. link_key r = (i, e)) (d_links d)) = None"
    by (simp add: find_del_where_key)
  then show ?thesis
    by (simp add: link_is_revoked_def link_get_def link_insert_def link_is_key find_append)
       (simp add: link_key_def)
qed

subsection \<open>Restoring\<close>

text \<open>Also: a rejected backup leaves the store as it was, and an accepted one, whose rows have
  unique ids, leaves a store whose reads come from the restored table.\<close>

theorem restore_bytes_sound:
  assumes "distinct (map o_id (d_objects (im_db (open_image data))))"
  shows "case restore_bytes open_image data d of
       (d', Inl _) \<Rightarrow> d' = d
     | (d', Inr n) \<Rightarrow> db_ok d' \<and> d_objects d' = d_objects (im_db (open_image data))
          \<and> fst (get_object i False d') = visible i False (im_db (open_image data))"
proof -
  let ?d = "cache_clear ((im_db (open_image data))\<lparr>d_obj_cache := d_obj_cache d\<rparr>)"
  have "db_ok ?d" using assms by (simp add: db_ok_def)
  moreover from this have "fst (get_object i False ?d) = visible i False ?d" by (rule get_object_visible)
  ultimately show ?thesis
    by (auto simp: restore_bytes_def Let_def visible_def find_obj_def)
qed

lemma restore_bytes_sound_witness:
  "case restore_bytes (\<lambda>_. \<lparr>im_check = ''ok'', im_tables = [''kv'', ''objects''], im_db = db_empty\<rparr>)
      (sqlite_header @ ''x'') db_empty of
       (d', Inl _) \<Rightarrow> d' = db_empty
     | (d', Inr n) \<Rightarrow> db_ok d' \<and> d_objects d' = [] \<and> fst (get_object ''a'' False d') = visible ''a'' False db_empty"
  using restore_bytes_sound [of "\<lambda>_. \<lparr>im_check = ''ok'', im_tables = [''kv'', ''objects''], im_db = db_empty\<rparr>"
      "sqlite_header @ ''x''" db_empty "''a''"]
  by (simp add: db_empty_def [THEN arg_cong [where f = d_objects]] split: prod.splits sum.splits)

end
