(* ===== verification/Config.thy ===== *)
theory Config
  imports PyStr
begin

text \<open>
  \<^verbatim>\<open>src/src/anbar/config.py\<close>: the validated settings and the values derived from them. The
  record keeps the fields the modelled code reads; paths and timeouts in seconds are left out.
\<close>

(* src: src/src/anbar/config.py 14-17 Backend *)
datatype backend_kind = BOT | MTPROTO | FAKE

(* src: src/src/anbar/config.py 25-101 Settings *)
record settings =
  s_port :: int
  s_base_url :: string
  s_backend :: backend_kind
  s_bot_token :: "string option"
  s_bot_tokens_raw :: "string option"
  s_channel_id :: string
  s_max_upload_mb :: int
  s_chunk_size_mb :: int
  s_mtproto_chunk_cap_mb :: int
  s_admin_key :: "string option"
  s_api_key :: "string option"
  s_hmac_secret :: "string option"
  s_auth_enabled :: bool
  s_rate_download_per_min :: int
  s_rate_upload_per_min :: int
  s_rate_login_per_min :: int
  s_web_session_ttl :: int
  s_miniapp_allowed_users_raw :: "string option"
  s_tg_webhook_secret :: "string option"
  s_owner_tg_ids_raw :: "string option"
  s_owner_tg_id :: "int option"
  s_cache_enabled :: bool
  s_cache_max_mb :: int
  s_mtproto_export_conns :: int
  s_hybrid_enabled :: bool
  s_auto_backup_enabled :: bool
  s_seek_cache_mb :: int

text \<open>The bounds pydantic enforces when the settings are read.\<close>

(* src: src/src/anbar/config.py 32-101 Settings *)
definition settings_valid :: "settings \<Rightarrow> bool" where
  "settings_valid s =
     (1 \<le> s_port s \<and> s_port s \<le> 65535 \<and> 1 \<le> s_max_upload_mb s \<and> 1 \<le> s_chunk_size_mb s
      \<and> 1 \<le> s_mtproto_chunk_cap_mb s \<and> 0 \<le> s_rate_download_per_min s
      \<and> 0 \<le> s_rate_upload_per_min s \<and> 0 \<le> s_rate_login_per_min s \<and> 300 \<le> s_web_session_ttl s
      \<and> 0 \<le> s_cache_max_mb s \<and> 0 \<le> s_mtproto_export_conns s \<and> s_mtproto_export_conns s \<le> 8
      \<and> 0 \<le> s_seek_cache_mb s)"

(* src: src/src/anbar/config.py auto Settings.miniapp_allowed_users *)
definition miniapp_allowed_users :: "settings \<Rightarrow> int set" where
  "miniapp_allowed_users s =
     (if \<not> truthy_str (s_miniapp_allowed_users_raw s) then {}
      else set (map (\<lambda>p. the (py_int p))
             (filter (\<lambda>p. isdigit (strip p)) (split_on (CHR '','') (the (s_miniapp_allowed_users_raw s))))))"

(* src: src/src/anbar/config.py auto Settings.owner_tg_ids *)
definition owner_tg_ids :: "settings \<Rightarrow> int set" where
  "owner_tg_ids s =
     (if truthy_int (s_owner_tg_id s) then {the (s_owner_tg_id s)} else {})
     \<union> (if truthy_str (s_owner_tg_ids_raw s)
        then set (map (\<lambda>p. the (py_int (strip p)))
               (filter (\<lambda>p. isdigit (strip p)) (split_on (CHR '','') (the (s_owner_tg_ids_raw s)))))
        else {})
     \<union> miniapp_allowed_users s"

(* src: src/src/anbar/config.py auto Settings.bot_tokens *)
definition bot_tokens :: "settings \<Rightarrow> string list" where
  "bot_tokens s =
     (let tokens = (if truthy_str (s_bot_tokens_raw s)
            then filter (\<lambda>t. t \<noteq> []) (map strip (split_on (CHR '','') (the (s_bot_tokens_raw s))))
            else []);
          v = (case s_bot_token s of None \<Rightarrow> [] | Some t \<Rightarrow> strip t)
      in if v \<noteq> [] \<and> v \<notin> set tokens then tokens @ [v] else tokens)"

(* src: src/src/anbar/config.py auto Settings._strip_slash *)
definition norm_base_url :: "string \<Rightarrow> string" where
  "norm_base_url v = rstrip_slash v"

(* src: src/src/anbar/config.py auto Settings.max_upload_bytes *)
definition max_upload_bytes :: "settings \<Rightarrow> int" where
  "max_upload_bytes s = s_max_upload_mb s * 1024 * 1024"

(* src: src/src/anbar/config.py auto Settings.chunk_size *)
definition chunk_size :: "settings \<Rightarrow> int" where
  "chunk_size s =
     (let sz = s_chunk_size_mb s * 1024 * 1024;
          cap = (if s_backend s = MTPROTO then s_mtproto_chunk_cap_mb s * 1024 * 1024
                 else 19 * 1024 * 1024)
      in min sz cap)"

text \<open>Chunks are never empty and fit what the Bot API takes back (20 MB).\<close>

lemma chunk_size_pos: "settings_valid s \<Longrightarrow> 0 < chunk_size s"
  by (auto simp: settings_valid_def chunk_size_def Let_def)

lemma chunk_size_bot: "s_backend s \<noteq> MTPROTO \<Longrightarrow> chunk_size s \<le> 19 * 1024 * 1024"
  by (simp add: chunk_size_def Let_def)

definition default_settings :: settings where
  "default_settings = \<lparr>s_port = 8567, s_base_url = ''http://127.0.0.1:8567'', s_backend = BOT,
     s_bot_token = None, s_bot_tokens_raw = None, s_channel_id = [], s_max_upload_mb = 10240,
     s_chunk_size_mb = 16, s_mtproto_chunk_cap_mb = 49, s_admin_key = None, s_api_key = None,
     s_hmac_secret = None, s_auth_enabled = True, s_rate_download_per_min = 10,
     s_rate_upload_per_min = 5, s_rate_login_per_min = 10, s_web_session_ttl = 43200,
     s_miniapp_allowed_users_raw = None, s_tg_webhook_secret = None, s_owner_tg_ids_raw = None,
     s_owner_tg_id = None, s_cache_enabled = False, s_cache_max_mb = 512,
     s_mtproto_export_conns = 0, s_hybrid_enabled = False, s_auto_backup_enabled = True,
     s_seek_cache_mb = 32\<rparr>"

lemma default_settings_valid: "settings_valid default_settings"
  by (simp add: settings_valid_def default_settings_def)

end
