(* ===== verification/Runtime.thy ===== *)
theory Runtime
  imports DbTables Config
begin

text \<open>
  The settings an operator changes at run time (\<^verbatim>\<open>src/src/anbar/runtime.py\<close>), kept in the kv
  table and checked against \<open>SPEC\<close>, and the request limits on top of \<open>rate_check\<close>
  (\<^verbatim>\<open>src/src/anbar/ratelimit.py\<close>).
\<close>

section \<open>Runtime settings\<close>

(* src: src/src/anbar/runtime.py 18-53 SPEC *)
definition SPEC :: "(string \<times> int \<times> int) list" where
  "SPEC = [
     (''rate_download'', 0, 100000),
     (''rate_upload'', 0, 100000),
     (''rate_login'', 0, 10000),
     (''max_upload_mb'', 1, 102400),
     (''web_session_ttl'', 300, 604800),
     (''cache_mb'', 0, 8192),
     (''mtproto_export_conns'', 0, 8),
     (''hybrid_enabled'', 0, 1),
     (''hybrid_bot_timeout_ms'', 200, 30000),
     (''encryption_enabled'', 0, 1),
     (''cache_enabled'', 0, 1),
     (''auto_backup_enabled'', 0, 1),
     (''seek_cache_mb'', 0, 512),
     (''subs_extract_enabled'', 0, 1),
     (''tg_ingest_bot_only'', 0, 1),
     (''tg_ingest_concurrency'', 1, 8)]"

definition cfg_key :: "string \<Rightarrow> string" where
  "cfg_key name = ''cfg_'' @ name"

(* src: src/src/anbar/runtime.py auto get_int *)
definition get_int_setting :: "db \<Rightarrow> string \<Rightarrow> int \<Rightarrow> int" where
  "get_int_setting d name dflt = (case kv_get d (cfg_key name) of
     None \<Rightarrow> dflt
   | Some raw \<Rightarrow> (case py_int raw of None \<Rightarrow> dflt | Some i \<Rightarrow> i))"

text \<open>The value comes decoded from the request; \<^verbatim>\<open>bool\<close> and other types are refused.\<close>

(* src: src/src/anbar/runtime.py auto set_int *)
definition set_int :: "string \<Rightarrow> json \<Rightarrow> db \<Rightarrow> db \<times> int res" where
  "set_int name v d = (case map_of SPEC name of
     None \<Rightarrow> (d, Inl (KeyError name))
   | Some (lo, hi) \<Rightarrow>
       (case v of
          JInt i \<Rightarrow> if lo \<le> i \<and> i \<le> hi then (kv_set (cfg_key name) (str_of_int i) d, Inr i)
                    else (d, Inl (ValueError name))
        | _ \<Rightarrow> (d, Inl (ValueError name))))"

(* src: src/src/anbar/runtime.py auto reset *)
definition reset_setting :: "string \<Rightarrow> db \<Rightarrow> db \<times> bool" where
  "reset_setting name d =
     (if kv_get d (cfg_key name) = None then (d, False) else (kv_delete (cfg_key name) d, True))"

text \<open>One entry: the name, its value, its default and whether it is overridden.\<close>

(* src: src/src/anbar/runtime.py auto effective *)
definition effective :: "db \<Rightarrow> (string \<Rightarrow> int) \<Rightarrow> (string \<times> int \<times> int \<times> bool) list res" where
  "effective d defaults =
     (let entry = (\<lambda>(name, _).
        let raw = kv_get d (cfg_key name);
            mk = (\<lambda>v. (name, v, defaults name, raw \<noteq> None))
        in case raw of
             None \<Rightarrow> Inr (mk (defaults name))
           | Some r \<Rightarrow>
               if isdigit (lstrip_by (\<lambda>c. c = CHR ''-'') r)
               then (case py_int r of None \<Rightarrow> Inl (ValueError ''int'') | Some i \<Rightarrow> Inr (mk i))
               else Inr (mk (defaults name)));
        loop = (\<lambda>e acc. rbind acc (\<lambda>es. rbind (entry e) (\<lambda>x. Inr (es @ [x]))))
      in fold loop SPEC (Inr []))"

text \<open>Also: a runtime setting is stored exactly when it is an integer within its bounds, then reads
  back as the value given, and every other key keeps its value; a refused value changes nothing;
  resetting restores the default.\<close>

theorem runtime_setting_roundtrip:
  "case set_int name v d of
     (d', Inr i) \<Rightarrow> v = JInt i \<and> get_int_setting d' name dflt = i
        \<and> (\<exists>lo hi. map_of SPEC name = Some (lo, hi) \<and> lo \<le> i \<and> i \<le> hi)
        \<and> (\<forall>k. k \<noteq> cfg_key name \<longrightarrow> kv_get d' k = kv_get d k)
        \<and> get_int_setting (fst (reset_setting name d')) name dflt = dflt
   | (d', Inl _) \<Rightarrow> d' = d \<and> (\<forall>i. v = JInt i \<longrightarrow>
        (\<forall>lo hi. map_of SPEC name = Some (lo, hi) \<longrightarrow> i < lo \<or> hi < i))"
  by (auto simp: set_int_def get_int_setting_def reset_setting_def kv_simps
      split: option.splits json.splits)

lemma runtime_setting_roundtrip_witness:
  "get_int_setting (fst (set_int ''cache_mb'' (JInt 64) db_empty)) ''cache_mb'' 512 = 64
     \<and> snd (set_int ''cache_mb'' (JInt 9000) db_empty) = Inl (ValueError ''cache_mb'')"
proof -
  have s: "set_int ''cache_mb'' (JInt 64) db_empty = (kv_set (cfg_key ''cache_mb'') (str_of_int 64) db_empty, Inr 64)"
    by (simp add: set_int_def SPEC_def)
  show ?thesis
    using runtime_setting_roundtrip [where name = "''cache_mb''" and v = "JInt 64" and d = db_empty and dflt = 512]
    by (simp add: s) (simp add: set_int_def SPEC_def)
qed

section \<open>Request limits\<close>

text \<open>What the code reads of a request: the peer address, headers by lower-case name, query
  parameters.\<close>

record request =
  rq_peer :: "string option"
  rq_headers :: "(string \<times> string) list"
  rq_query :: "(string \<times> string) list"

definition header :: "request \<Rightarrow> string \<Rightarrow> string" where
  "header r k = (case map_of (rq_headers r) k of None \<Rightarrow> [] | Some v \<Rightarrow> v)"

definition WINDOW_S :: int where
  "WINDOW_S = 60"

(* src: src/src/anbar/ratelimit.py auto _client_ip *)
definition client_ip :: "request \<Rightarrow> string" where
  "client_ip r =
     (let peer = (case rq_peer r of None \<Rightarrow> ''?'' | Some p \<Rightarrow> p);
          fwd = header r ''x-forwarded-for''
      in if fwd \<noteq> [] \<and> peer \<in> {''127.0.0.1'', ''::1'', ''localhost''}
         then strip (last (split_on (CHR '','') fwd)) else peer)"

(* src: src/src/anbar/ratelimit.py 45-47 limit_download *)
definition limited :: "time \<Rightarrow> string \<Rightarrow> int \<Rightarrow> db \<Rightarrow> db \<times> unit res" where
  "limited now k lim d =
     (if lim \<le> 0 then (d, Inr ())
      else (case rate_check now k WINDOW_S lim d of
              (d', True, _) \<Rightarrow> (d', Inr ())
            | (d', False, _) \<Rightarrow> (d', Inl (HTTPException 429 ''rate limited''))))"

(* src: src/src/anbar/ratelimit.py auto limit_download *)
definition limit_download :: "time \<Rightarrow> request \<Rightarrow> string \<Rightarrow> int \<Rightarrow> db \<Rightarrow> db \<times> unit res" where
  "limit_download now r i lim d = limited now (''dl:'' @ client_ip r @ '':'' @ i) lim d"

(* src: src/src/anbar/ratelimit.py auto limit_upload *)
definition limit_upload :: "(string \<Rightarrow> string) \<Rightarrow> time \<Rightarrow> request \<Rightarrow> int \<Rightarrow> db \<Rightarrow> db \<times> unit res" where
  "limit_upload sha256 now r lim d =
     (let auth = header r ''authorization'';
          digest = (if auth \<noteq> [] then take 16 (sha256 auth) else ''anon'')
      in limited now (''up:'' @ digest) lim d)"

(* src: src/src/anbar/ratelimit.py auto limit_login *)
definition limit_login :: "time \<Rightarrow> request \<Rightarrow> int \<Rightarrow> db \<Rightarrow> db \<times> unit res" where
  "limit_login now r lim d = limited now (''lg:'' @ client_ip r) lim d"

lemma client_ip_not_spoofable_parts:
  assumes "peer \<notin> {''127.0.0.1'', ''::1'', ''localhost''}"
  shows "client_ip (r\<lparr>rq_peer := Some peer, rq_headers := hs\<rparr>) = peer"
    and "CHR '','' \<notin> set hop \<Longrightarrow>
      client_ip \<lparr>rq_peer = Some ''127.0.0.1'', rq_headers = [(''x-forwarded-for'', forged @ '','' @ hop)],
                 rq_query = q\<rparr> = strip hop"
proof -
  show "client_ip (r\<lparr>rq_peer := Some peer, rq_headers := hs\<rparr>) = peer"
    using assms by (auto simp: client_ip_def Let_def)
  assume "CHR '','' \<notin> set hop"
  then show "client_ip \<lparr>rq_peer = Some ''127.0.0.1'', rq_headers = [(''x-forwarded-for'', forged @ '','' @ hop)],
                 rq_query = q\<rparr> = strip hop"
    by (simp add: client_ip_def header_def last_split_on Let_def)
qed

text \<open>Also: a client that is not on this host cannot choose the address it is limited by: the
  forwarded header counts only when the peer is the local proxy, and then only its last hop.\<close>

theorem client_ip_not_spoofable:
  assumes "peer \<notin> {''127.0.0.1'', ''::1'', ''localhost''}"
  shows "(client_ip (r\<lparr>rq_peer := Some peer, rq_headers := hs\<rparr>) = peer)
     \<and> (CHR '','' \<notin> set hop \<longrightarrow>
      client_ip \<lparr>rq_peer = Some ''127.0.0.1'', rq_headers = [(''x-forwarded-for'', forged @ '','' @ hop)],
                 rq_query = q\<rparr> = strip hop)"
  using client_ip_not_spoofable_parts [OF assms] by blast

lemma client_ip_not_spoofable_witness:
  "client_ip \<lparr>rq_peer = Some ''9.9.9.9'', rq_headers = [(''x-forwarded-for'', ''1.1.1.1'')], rq_query = []\<rparr> = ''9.9.9.9''
     \<and> client_ip \<lparr>rq_peer = Some ''127.0.0.1'', rq_headers = [(''x-forwarded-for'', ''6.6.6.6, 8.8.8.8'')], rq_query = []\<rparr>
         = strip '' 8.8.8.8''"
  using client_ip_not_spoofable [where peer = "''9.9.9.9''" and hs = "[(''x-forwarded-for'', ''1.1.1.1'')]"
      and r = "\<lparr>rq_peer = None, rq_headers = [], rq_query = []\<rparr>", THEN conjunct1]
    client_ip_not_spoofable [where peer = "''9.9.9.9''" and hop = "'' 8.8.8.8''" and forged = "''6.6.6.6''" and q = "[]", THEN conjunct2]
  by simp

end
