(* ===== verification/Auth.thy ===== *)
theory Auth
  imports Runtime
begin

text \<open>
  Authentication: \<^verbatim>\<open>src/src/anbar/auth.py\<close> (signed links, uploader keys, Telegram init data,
  \<open>whoami\<close>) and \<^verbatim>\<open>src/src/anbar/webauth.py\<close> (session cookies). HMAC-SHA256 and SHA-256 are the
  parameters \<open>hmac\<close> (key, message, hex digest) and \<open>sha256\<close>; random tokens are arguments.
\<close>

section \<open>Signatures\<close>

text \<open>\<^verbatim>\<open>hmac.compare_digest\<close> on two strings: they must be ASCII.\<close>

definition compare_digest :: "string \<Rightarrow> string \<Rightarrow> bool res" where
  "compare_digest a b = (if list_all (\<lambda>c. code c < 128) (a @ b) then Inr (a = b) else Inl TypeError)"

(* src: src/src/anbar/auth.py auto sign *)
definition sign :: "(string \<Rightarrow> string \<Rightarrow> string) \<Rightarrow> string \<Rightarrow> int \<Rightarrow> string \<Rightarrow> string" where
  "sign hmac obj_id e secret = hmac secret (obj_id @ '':'' @ str_of_int e)"

(* src: src/src/anbar/auth.py auto verify_sig *)
definition verify_sig :: "(string \<Rightarrow> string \<Rightarrow> string) \<Rightarrow> string \<Rightarrow> int \<Rightarrow> string \<Rightarrow> string \<Rightarrow> bool res" where
  "verify_sig hmac obj_id e sig secret =
     (if sig = [] \<or> e = 0 then Inr False
      else compare_digest (sign hmac obj_id e secret) sig)"

(* src: src/src/anbar/auth.py auto is_expired *)
definition is_expired :: "time \<Rightarrow> int \<Rightarrow> bool" where
  "is_expired now e = (e \<le> now)"

(* src: src/src/anbar/auth.py auto constant_time_equal *)
definition constant_time_equal :: "string option \<Rightarrow> string option \<Rightarrow> bool" where
  "constant_time_equal a b = (truthy_str a \<and> truthy_str b \<and> a = b)"

(* src: src/src/anbar/auth.py auto effective_auth_enabled *)
definition effective_auth_enabled :: "db \<Rightarrow> bool \<Rightarrow> bool" where
  "effective_auth_enabled d dflt = (case kv_get d ''auth_enabled'' of None \<Rightarrow> dflt | Some v \<Rightarrow> v = ''1'')"

(* src: src/src/anbar/auth.py auto effective_hmac_secret *)
definition effective_hmac_secret :: "db \<Rightarrow> string option \<Rightarrow> string option" where
  "effective_hmac_secret d configured =
     (if truthy_str (kv_get d ''hmac_secret'') then kv_get d ''hmac_secret'' else configured)"

text \<open>The settings' webhook secret, given the store (\<^verbatim>\<open>db is not None\<close>) or not.\<close>

(* src: src/src/anbar/config.py auto Settings.effective_webhook_secret *)
definition effective_webhook_secret :: "(string \<Rightarrow> string \<Rightarrow> string) \<Rightarrow> settings \<Rightarrow> db option \<Rightarrow> string" where
  "effective_webhook_secret hmac s db' =
     (let own = (case s_tg_webhook_secret s of None \<Rightarrow> [] | Some v \<Rightarrow> strip v);
          configured = (if truthy_str (s_hmac_secret s) then the (s_hmac_secret s) else ''anbar-webhook'')
      in if own \<noteq> [] then own
         else let sec = (case db' of
                   None \<Rightarrow> configured
                 | Some d \<Rightarrow> str_or (effective_hmac_secret d (Some configured)) ''anbar-webhook'')
              in take 64 (hmac sec ''tg-webhook''))"

section \<open>Telegram init data\<close>

text \<open>\<^verbatim>\<open>urllib.parse.unquote\<close> of \<open>+\<close>-replaced text, with percent escapes as Latin-1.\<close>

fun unquote :: "string \<Rightarrow> string" where
  "unquote [] = []"
| "unquote (c # cs) =
     (if c = CHR ''%'' then
        (case cs of
           a # b # r \<Rightarrow> (case (hex_val a, hex_val b) of
               (Some x, Some y) \<Rightarrow> char_of (16 * x + y) # unquote r
             | _ \<Rightarrow> c # unquote cs)
         | _ \<Rightarrow> c # unquote cs)
      else c # unquote cs)"

definition unquote_plus :: "string \<Rightarrow> string" where
  "unquote_plus s = unquote (map (\<lambda>c. if c = CHR ''+'' then CHR '' '' else c) s)"

definition parse_qsl :: "string \<Rightarrow> (string \<times> string) list" where
  "parse_qsl q = map (\<lambda>nv. case split1 (CHR ''='') nv of
       None \<Rightarrow> (unquote_plus nv, [])
     | Some (n, v) \<Rightarrow> (unquote_plus n, unquote_plus v)) (filter (\<lambda>p. p \<noteq> []) (split_on (CHR ''&'') q))"

definition py_dict :: "(string \<times> 'v) list \<Rightarrow> (string \<times> 'v) list" where
  "py_dict kvs = fold (\<lambda>(k, v) d. AList.update k v d) kvs []"

(* src: src/src/anbar/auth.py 76-76 verify_telegram_init_data *)
definition data_check_string :: "(string \<times> string) list \<Rightarrow> string" where
  "data_check_string params = join [CHR 0x0A] (map (\<lambda>(k, v). k @ ''='' @ v) (sort_key fst params))"

(* src: src/src/anbar/auth.py auto verify_telegram_init_data *)
definition verify_telegram_init_data :: "(string \<Rightarrow> string \<Rightarrow> string) \<Rightarrow> (string \<Rightarrow> string \<Rightarrow> string)
     \<Rightarrow> time \<Rightarrow> string \<Rightarrow> string \<Rightarrow> int \<Rightarrow> bool" where
  "verify_telegram_init_data hmac hmac_raw now init_data bot_token max_age_s =
     (let params = py_dict (parse_qsl init_data);
          given = map_of params ''hash'';
          rest = AList.delete ''hash'' params
      in if \<not> truthy_str given then False
         else (case py_int (case map_of rest ''auth_date'' of None \<Rightarrow> ''0'' | Some v \<Rightarrow> v) of
                 None \<Rightarrow> False
               | Some auth_date \<Rightarrow>
                   if auth_date = 0 \<or> now - auth_date > max_age_s then False
                   else (case compare_digest
                             (hmac (hmac_raw ''WebAppData'' bot_token) (data_check_string rest)) (the given) of
                           Inl _ \<Rightarrow> False
                         | Inr b \<Rightarrow> b)))"

section \<open>Uploader keys\<close>

text \<open>Only what \<open>add_api_key\<close> writes is stored under the key, a list; anything else reads as none.\<close>

(* src: src/src/anbar/auth.py auto list_api_keys *)
definition list_api_keys :: "db \<Rightarrow> json list" where
  "list_api_keys d = (case loads (str_or (kv_get d ''api_keys'') ''[]'') of
     Some (JList l) \<Rightarrow> l | _ \<Rightarrow> [])"

(* src: src/src/anbar/auth.py 125-131 add_api_key *)
definition stored_key :: "(string \<Rightarrow> string) \<Rightarrow> time \<Rightarrow> string \<Rightarrow> string \<Rightarrow> string \<Rightarrow> json" where
  "stored_key sha256 now raw_key i name = JObj
     [(''id'', JStr i), (''name'', JStr name), (''created_at'', JInt now),
      (''key_hash'', JStr (sha256 raw_key)), (''prefix'', JStr (take 6 raw_key @ ''...''))]"

(* src: src/src/anbar/auth.py auto add_api_key *)
definition add_api_key :: "(string \<Rightarrow> string) \<Rightarrow> time \<Rightarrow> string \<Rightarrow> string \<Rightarrow> string \<Rightarrow> db
     \<Rightarrow> db \<times> (string \<times> string \<times> string \<times> int)" where
  "add_api_key sha256 now raw_key i name d =
     (let nm = take 60 (strip (if name \<noteq> [] then name else ''key''))
      in (kv_set ''api_keys''
            (dumps (JList (list_api_keys d @ [stored_key sha256 now raw_key i nm]))) d,
          (i, raw_key, nm, now)))"

definition key_id_is :: "string \<Rightarrow> json \<Rightarrow> bool" where
  "key_id_is i k = (jget k ''id'' = Some (JStr i))"

(* src: src/src/anbar/auth.py auto revoke_api_key *)
definition revoke_api_key :: "string \<Rightarrow> db \<Rightarrow> db \<times> bool" where
  "revoke_api_key i d =
     (let keys = list_api_keys d; kept = filter (\<lambda>k. \<not> key_id_is i k) keys
      in if length kept = length keys then (d, False)
         else (kv_set ''api_keys'' (dumps (JList kept)) d, True))"

definition jstr :: "json option \<Rightarrow> string option" where
  "jstr j = (case j of Some (JStr s) \<Rightarrow> Some s | _ \<Rightarrow> None)"

(* src: src/src/anbar/auth.py auto _match_dynamic_key *)
definition match_dynamic_key :: "(string \<Rightarrow> string) \<Rightarrow> string \<Rightarrow> db \<Rightarrow> bool" where
  "match_dynamic_key sha256 key d =
     list_ex (\<lambda>k. constant_time_equal (Some (sha256 key)) (jstr (jget k ''key_hash''))
                  \<or> constant_time_equal (Some key) (jstr (jget k ''key''))) (list_api_keys d)"

section \<open>Web sessions\<close>

datatype role = Admin | Uploader | Anon

definition role_name :: "role \<Rightarrow> string" where
  "role_name r = (case r of Admin \<Rightarrow> ''admin'' | Uploader \<Rightarrow> ''uploader'' | Anon \<Rightarrow> ''anon'')"

(* src: src/src/anbar/webauth.py auto _sign *)
definition session_sign :: "(string \<Rightarrow> string \<Rightarrow> string) \<Rightarrow> string \<Rightarrow> role \<Rightarrow> int \<Rightarrow> string \<Rightarrow> string" where
  "session_sign hmac secret r e tag =
     hmac secret (''anbar-ui:'' @ role_name r @ '':'' @ str_of_int e @ '':'' @ tag)"

(* src: src/src/anbar/webauth.py auto _secret *)
definition session_secret :: "string \<Rightarrow> db \<Rightarrow> string \<times> db" where
  "session_secret tok d =
     (if truthy_str (kv_get d ''ui_session_secret'') then (the (kv_get d ''ui_session_secret''), d)
      else (tok, kv_set ''ui_session_secret'' tok d))"

(* src: src/src/anbar/webauth.py auto issue_session *)
definition issue_session :: "(string \<Rightarrow> string \<Rightarrow> string) \<Rightarrow> time \<Rightarrow> string \<Rightarrow> string \<Rightarrow> int \<Rightarrow> role \<Rightarrow> db
     \<Rightarrow> string \<times> db" where
  "issue_session hmac now tok tag ttl r d =
     (let e = now + ttl; (secret, d) = session_secret tok d
      in (str_of_int e @ '':'' @ tag @ '':'' @ session_sign hmac secret r e tag, d))"

(* src: src/src/anbar/webauth.py auto verify_session *)
definition verify_session :: "(string \<Rightarrow> string \<Rightarrow> string) \<Rightarrow> time \<Rightarrow> string \<Rightarrow> string \<Rightarrow> db
     \<Rightarrow> role option res \<times> db" where
  "verify_session hmac now tok v d =
     (case split_on (CHR '':'') v of
        [exp_s, tag, sig] \<Rightarrow>
          (case py_int exp_s of
             None \<Rightarrow> (Inr None, d)
           | Some e \<Rightarrow>
               if e \<le> now then (Inr None, d)
               else let (secret, d) = session_secret tok d
                    in (rbind (compare_digest (session_sign hmac secret Admin e tag) sig) (\<lambda>a.
                          if a then Inr (Some Admin)
                          else rbind (compare_digest (session_sign hmac secret Uploader e tag) sig) (\<lambda>u.
                            Inr (if u then Some Uploader else None))), d))
      | _ \<Rightarrow> (Inr None, d))"

section \<open>Who is calling\<close>

text \<open>\<^verbatim>\<open>re.search(r"Credential=([^/,\\s]+)/", auth)\<close>\<close>

(* src: src/src/anbar/auth.py 183-185 whoami *)
fun credential_in :: "string \<Rightarrow> string option" where
  "credential_in [] = None"
| "credential_in (c # cs) =
     (let r = drop 11 (c # cs);
          g = takeWhile (\<lambda>x. x \<noteq> CHR ''/'' \<and> x \<noteq> CHR '','' \<and> \<not> is_space x) r
      in if startswith (c # cs) ''Credential='' \<and> g \<noteq> [] \<and> startswith (drop (length g) r) ''/''
         then Some g else credential_in cs)"

definition before :: "char \<Rightarrow> string \<Rightarrow> string" where
  "before c s = takeWhile (\<lambda>x. x \<noteq> c) s"

(* src: src/src/anbar/auth.py 175-197 whoami *)
definition presented_key :: "request \<Rightarrow> string option" where
  "presented_key r =
     (let auth = strip (header r ''authorization'')
      in if startswith (lower auth) ''bearer '' then Some (strip (drop 7 auth))
         else if startswith auth ''AWS4-HMAC-SHA256'' then map_option strip (credential_in auth)
         else if startswith auth ''AWS '' \<and> CHR '':'' \<in> set (drop 4 auth)
         then Some (strip (before (CHR '':'') (drop 4 auth)))
         else if map_of (rq_query r) ''x-amz-credential'' \<noteq> None
                 \<or> map_of (rq_query r) ''X-Amz-Credential'' \<noteq> None
         then (let cred = str_or (map_of (rq_query r) ''x-amz-credential'')
                            (str_or (map_of (rq_query r) ''X-Amz-Credential'') [])
               in if CHR ''/'' \<in> set cred then Some (strip (before (CHR ''/'') cred)) else None)
         else if map_of (rq_headers r) ''x-api-key'' \<noteq> None
         then Some (strip (header r ''x-api-key''))
         else None)"

(* src: src/src/anbar/auth.py 224-233 whoami *)
fun cookie_role :: "(string \<Rightarrow> string \<Rightarrow> string) \<Rightarrow> time \<Rightarrow> string \<Rightarrow> string list \<Rightarrow> db \<Rightarrow> role \<times> db" where
  "cookie_role hmac now tok [] d = (Anon, d)"
| "cookie_role hmac now tok (p # ps) d =
     (let pair = strip p
      in if startswith pair ''anbar_session=''
         then (case verify_session hmac now tok (drop 14 pair) d of
                 (Inr (Some r), d') \<Rightarrow> (r, d')
               | (_, d') \<Rightarrow> cookie_role hmac now tok ps d')
         else cookie_role hmac now tok ps d)"

(* src: src/src/anbar/auth.py auto whoami *)
definition whoami :: "(string \<Rightarrow> string) \<Rightarrow> (string \<Rightarrow> string \<Rightarrow> string) \<Rightarrow> time \<Rightarrow> string \<Rightarrow> settings
     \<Rightarrow> request \<Rightarrow> db \<Rightarrow> role \<times> db" where
  "whoami sha256 hmac now tok s r d =
     (let key = presented_key r
      in if truthy_str key \<and> truthy_str (s_admin_key s) \<and> constant_time_equal key (s_admin_key s)
         then (Admin, d)
         else if truthy_str key \<and>
              ((truthy_str (s_api_key s) \<and> constant_time_equal key (s_api_key s))
               \<or> match_dynamic_key sha256 (the key) d)
         then (Uploader, d)
         else let cookie = header r ''cookie''
              in if cookie \<noteq> [] \<and> contains_str ''anbar_session='' cookie
                 then cookie_role hmac now tok (split_on (CHR '';'') cookie) d
                 else (Anon, d))"

(* src: src/src/anbar/auth.py auto _auth_on *)
definition auth_on :: "settings \<Rightarrow> db \<Rightarrow> bool" where
  "auth_on s d = effective_auth_enabled d (s_auth_enabled s)"

(* src: src/src/anbar/auth.py auto require_uploader *)
definition require_uploader :: "(string \<Rightarrow> string) \<Rightarrow> (string \<Rightarrow> string \<Rightarrow> string) \<Rightarrow> time \<Rightarrow> string \<Rightarrow> settings
     \<Rightarrow> request \<Rightarrow> db \<Rightarrow> role res \<times> db" where
  "require_uploader sha256 hmac now tok s r d =
     (case whoami sha256 hmac now tok s r d of
        (ro, d) \<Rightarrow> if auth_on s d \<and> ro = Anon then (Inl (HTTPException 401 ''authentication required''), d)
                    else (Inr ro, d))"

(* src: src/src/anbar/auth.py auto require_admin *)
definition require_admin :: "(string \<Rightarrow> string) \<Rightarrow> (string \<Rightarrow> string \<Rightarrow> string) \<Rightarrow> time \<Rightarrow> string \<Rightarrow> settings
     \<Rightarrow> request \<Rightarrow> db \<Rightarrow> role res \<times> db" where
  "require_admin sha256 hmac now tok s r d =
     (case whoami sha256 hmac now tok s r d of
        (ro, d) \<Rightarrow> if auth_on s d \<and> ro = Anon then (Inl (HTTPException 401 ''authentication required''), d)
                    else if ro \<noteq> Admin then (Inl (HTTPException 403 ''admin key required''), d)
                    else (Inr ro, d))"


section \<open>What authentication guarantees\<close>

text \<open>What the code relies on of HMAC-SHA256: hex digests are non-empty ASCII without a colon, and
  two messages under one key do not collide.\<close>

definition mac_ok :: "(string \<Rightarrow> string \<Rightarrow> string) \<Rightarrow> bool" where
  "mac_ok hmac = ((\<forall>s m. hmac s m \<noteq> [] \<and> (\<forall>c \<in> set (hmac s m). code c < 128 \<and> c \<noteq> CHR '':''))
     \<and> (\<forall>s m m'. hmac s m = hmac s m' \<longrightarrow> m = m'))"

text \<open>A concrete function with these properties, for the witnesses.\<close>

definition toy_mac :: "string \<Rightarrow> string \<Rightarrow> string" where
  "toy_mac s m = ''x'' @ concat (map (\<lambda>c. [hex_char (code c div 16), hex_char (code c mod 16)]) m)"

lemma hex_char_ok: "n < 16 \<Longrightarrow> code (hex_char n) < 128 \<and> hex_char n \<noteq> CHR '':''"
proof -
  assume n: "n < 16"
  then have "code (hex_char n) < 128 \<and> code (hex_char n) \<noteq> 58" by (auto simp: hex_char_def)
  moreover have "code (CHR '':'') = 58" by (simp add: code_def)
  ultimately show ?thesis by auto
qed

lemma hex_pair_inj:
  "hex_char (code c div 16) = hex_char (code d div 16) \<Longrightarrow> hex_char (code c mod 16) = hex_char (code d mod 16)
     \<Longrightarrow> c = d"
proof -
  have b: "code x div 16 < 16" for x using code_less [of x] by linarith
  assume "hex_char (code c div 16) = hex_char (code d div 16)" "hex_char (code c mod 16) = hex_char (code d mod 16)"
  then have "code c div 16 = code d div 16" "code c mod 16 = code d mod 16"
    using hex_val_hex_char b by (metis option.inject, metis mod_less_divisor option.inject zero_less_numeral)
  then have "code c = code d" by (metis div_mult_mod_eq)
  then show "c = d" by (metis char_of_code)
qed

lemma toy_mac_ok: "mac_ok toy_mac"
proof -
  let ?h = "\<lambda>m. concat (map (\<lambda>c. [hex_char (code c div 16), hex_char (code c mod 16)]) m)"
  have inj: "?h m = ?h m' \<Longrightarrow> m = m'" for m m'
  proof (induction m arbitrary: m')
    case Nil
    then show ?case by (cases m') auto
  next
    case (Cons c m)
    then obtain c' n where m': "m' = c' # n" by (cases m') simp_all
    have "hex_char (code c div 16) = hex_char (code c' div 16)"
      "hex_char (code c mod 16) = hex_char (code c' mod 16)" "?h m = ?h n"
      using Cons.prems unfolding m' by simp_all
    then show ?case using Cons.IH [of n] hex_pair_inj [of c c'] m' by simp
  qed
  have "code c div 16 < 16" for c using code_less [of c] by linarith
  then have "\<forall>c \<in> set (toy_mac s m). code c < 128 \<and> c \<noteq> CHR '':''" for s m
    using hex_char_ok by (auto simp: toy_mac_def code_def)
  moreover have "toy_mac s m = toy_mac s m' \<longrightarrow> m = m'" for s m m'
    using inj [of m m'] unfolding toy_mac_def by (simp only: same_append_eq) blast
  moreover have "toy_mac s m \<noteq> []" for s m by (simp add: toy_mac_def)
  ultimately show ?thesis unfolding mac_ok_def by (intro conjI allI) assumption+
qed

lemma session_secret_kept:
  "session_secret tok d = (secret, d') \<Longrightarrow> tok \<noteq> [] \<Longrightarrow> session_secret tok' d' = (secret, d')"
  by (auto simp: session_secret_def kv_simps split: if_splits)

text \<open>Also: a session cookie the server issues is accepted for the role it was issued for, until
  it expires, and verifying it does not change the store.\<close>

theorem session_roundtrip:
  assumes "mac_ok hmac" and "CHR '':'' \<notin> set tag" and "tok \<noteq> []" and "r \<noteq> Anon"
    and "issue_session hmac now tok tag ttl r d = (v, d')" and "now' < now + ttl"
  shows "verify_session hmac now' tok' v d' = (Inr (Some r), d')"
proof -
  obtain secret where ss: "session_secret tok d = (secret, d')"
    and v: "v = str_of_int (now + ttl) @ '':'' @ tag @ '':'' @ session_sign hmac secret r (now + ttl) tag"
    using assms(5) by (auto simp: issue_session_def Let_def split: prod.splits)
  let ?sig = "\<lambda>r. session_sign hmac secret r (now + ttl) tag"
  have sig: "\<forall>c \<in> set (?sig r). code c < 128 \<and> c \<noteq> CHR '':''" for r
    using assms(1) by (simp add: mac_ok_def session_sign_def)
  then have cd: "compare_digest (?sig r) (?sig r') = Inr (?sig r = ?sig r')" for r r'
    by (auto simp: compare_digest_def list_all_iff)
  have ne: "?sig Admin \<noteq> ?sig Uploader"
  proof
    have inj: "hmac s m = hmac s m' \<Longrightarrow> m = m'" for s m m'
      using assms(1) [unfolded mac_ok_def, THEN conjunct2, rule_format] .
    assume "?sig Admin = ?sig Uploader"
    then have "''anbar-ui:'' @ role_name Admin @ '':'' @ str_of_int (now + ttl) @ '':'' @ tag =
        ''anbar-ui:'' @ role_name Uploader @ '':'' @ str_of_int (now + ttl) @ '':'' @ tag"
      unfolding session_sign_def by (rule inj)
    then show False by (simp add: role_name_def)
  qed
  have "split_on (CHR '':'') v = [str_of_int (now + ttl), tag, ?sig r]"
  proof -
    have "CHR '':'' \<notin> set (?sig r)" using sig [of r] by blast
    then show ?thesis using assms(2) by (simp add: v split_on_join split_on_none)
  qed
  then show ?thesis using assms(4,6) ne session_secret_kept [OF ss assms(3)]
    by (cases r) (simp_all add: verify_session_def cd Let_def)
qed

lemma session_roundtrip_witness:
  "fst (verify_session toy_mac 150 ''u'' (fst (issue_session toy_mac 100 ''t'' ''g'' 60 Uploader db_empty))
      (snd (issue_session toy_mac 100 ''t'' ''g'' 60 Uploader db_empty))) = Inr (Some Uploader)"
  using session_roundtrip [OF toy_mac_ok, of "''g''" "''t''" Uploader 100 60 db_empty
      "fst (issue_session toy_mac 100 ''t'' ''g'' 60 Uploader db_empty)"
      "snd (issue_session toy_mac 100 ''t'' ''g'' 60 Uploader db_empty)" 150 "''u''"]
  by simp

text \<open>A cookie value that is a signature over an unexpired time, under the stored secret.\<close>

definition valid_session :: "(string \<Rightarrow> string \<Rightarrow> string) \<Rightarrow> time \<Rightarrow> db \<Rightarrow> role \<Rightarrow> string \<Rightarrow> bool" where
  "valid_session hmac now d r v = (r \<noteq> Anon \<and> (\<exists>exp_s tag e secret.
     v = exp_s @ '':'' @ tag @ '':'' @ session_sign hmac secret r e tag \<and> py_int exp_s = Some e \<and> now < e
     \<and> kv_get d ''ui_session_secret'' = Some secret))"

lemma session_secret_stored:
  "session_secret tok d = (secret, d') \<Longrightarrow> kv_get d' ''ui_session_secret'' = Some secret"
  by (auto simp: session_secret_def kv_simps truthy_str_def split: if_splits option.splits)

lemma verify_session_sound:
  assumes "verify_session hmac now tok v d = (Inr (Some r), d')"
  shows "valid_session hmac now d' r v"
proof -
  obtain exp_s tag sig where sp: "split_on (CHR '':'') v = [exp_s, tag, sig]"
    using assms by (auto simp: verify_session_def split: list.splits)
  obtain e where e: "py_int exp_s = Some e" "now < e"
    using assms sp by (auto simp: verify_session_def split: option.splits if_splits)
  obtain secret d'' where ss: "session_secret tok d = (secret, d'')" by (cases "session_secret tok d")
  have "r \<noteq> Anon \<and> sig = session_sign hmac secret r e tag \<and> d'' = d'"
    using assms sp e ss by (auto simp: verify_session_def compare_digest_def split: if_splits)
  then show ?thesis
    using split_on_three [OF sp] e session_secret_stored [OF ss]
    by (auto simp: valid_session_def)
qed

lemma cookie_role_sound:
  "cookie_role hmac now tok ps d = (r, d') \<Longrightarrow> r \<noteq> Anon \<Longrightarrow>
     \<exists>p \<in> set ps. startswith (strip p) ''anbar_session='' \<and> valid_session hmac now d' r (drop 14 (strip p))"
proof (induction ps arbitrary: d)
  case (Cons p ps)
  show ?case
  proof (cases "startswith (strip p) ''anbar_session=''")
    case True
    then show ?thesis using Cons
      by (cases "verify_session hmac now tok (drop 14 (strip p)) d")
         (auto simp: Let_def dest: verify_session_sound split: sum.splits option.splits)
  qed (use Cons in \<open>auto simp: Let_def\<close>)
qed simp

lemma whoami_admin:
  assumes w: "whoami sha256 hmac now tok s rq d = (Admin, d')"
  shows "(\<exists>k. k \<noteq> [] \<and> presented_key rq = Some k \<and> s_admin_key s = Some k)
      \<or> (\<exists>p \<in> set (split_on (CHR '';'') (header rq ''cookie'')).
           valid_session hmac now d' Admin (drop 14 (strip p)))"
proof (cases "truthy_str (presented_key rq) \<and> truthy_str (s_admin_key s)
      \<and> constant_time_equal (presented_key rq) (s_admin_key s)")
  case True
  then show ?thesis by (auto simp: constant_time_equal_def truthy_str_def split: option.splits)
next
  case False
  with w have "cookie_role hmac now tok (split_on (CHR '';'') (header rq ''cookie'')) d = (Admin, d')"
    by (auto simp: whoami_def Let_def split: if_splits)
  from cookie_role_sound [OF this] show ?thesis by blast
qed

text \<open>C20: whoever passes \<open>require_admin\<close> has presented the configured admin key or holds a cookie
  that is an unexpired admin signature under the stored session secret; this holds with
  authentication switched off too.\<close>

theorem require_admin_sound:
  assumes "require_admin sha256 hmac now tok s rq d = (Inr r, d')"
  shows "r = Admin \<and>
     ((\<exists>k. k \<noteq> [] \<and> presented_key rq = Some k \<and> s_admin_key s = Some k)
      \<or> (\<exists>p \<in> set (split_on (CHR '';'') (header rq ''cookie'')).
           valid_session hmac now d' Admin (drop 14 (strip p))))"
proof -
  have "whoami sha256 hmac now tok s rq d = (Admin, d')" and "r = Admin"
    using assms by (auto simp: require_admin_def split: prod.splits if_splits)
  then show ?thesis using whoami_admin by blast
qed

definition demo_request :: request where
  "demo_request = \<lparr>rq_peer = Some ''9.9.9.9'', rq_headers = [(''authorization'', ''Bearer adm'')], rq_query = []\<rparr>"

lemma demo_presented: "presented_key demo_request = Some ''adm''"
  by code_simp

lemma require_admin_sound_witness:
  "fst (require_admin (\<lambda>_. ''h'') toy_mac 5 ''t'' (default_settings\<lparr>s_admin_key := Some ''adm''\<rparr>) demo_request db_empty)
     = Inr Admin
   \<and> (\<exists>k. k \<noteq> [] \<and> presented_key demo_request = Some k \<and> Some ''adm'' = Some k)"
proof -
  have "require_admin (\<lambda>_. ''h'') toy_mac 5 ''t'' (default_settings\<lparr>s_admin_key := Some ''adm''\<rparr>) demo_request db_empty
     = (Inr Admin, db_empty)"
    by (simp add: require_admin_def whoami_def demo_presented constant_time_equal_def)
  from require_admin_sound [OF this] this show ?thesis
    by (simp add: demo_presented)
qed

subsection \<open>Uploader keys\<close>

lemma list_api_keys_jwf: "k \<in> set (list_api_keys d) \<Longrightarrow> jwf k"
  using loads_jwf [of "str_or (kv_get d ''api_keys'') ''[]''"]
  by (cases "loads (str_or (kv_get d ''api_keys'') ''[]'')")
     (auto simp: list_api_keys_def split: json.splits)

lemma list_api_keys_set:
  "\<forall>k \<in> set ks. jwf k \<Longrightarrow> list_api_keys (kv_set ''api_keys'' (dumps (JList ks)) d) = ks"
proof -
  assume "\<forall>k \<in> set ks. jwf k"
  then have "loads (dumps (JList ks)) = Some (JList ks)" by simp
  moreover have "dumps (JList ks) \<noteq> []" unfolding dumps_def by (rule dumps_nonempty)
  ultimately show ?thesis by (simp add: list_api_keys_def kv_simps str_or_def)
qed

definition key_matches :: "(string \<Rightarrow> string) \<Rightarrow> string \<Rightarrow> json \<Rightarrow> bool" where
  "key_matches sha256 key k = (constant_time_equal (Some (sha256 key)) (jstr (jget k ''key_hash''))
     \<or> constant_time_equal (Some key) (jstr (jget k ''key'')))"

lemma match_dynamic_key_iff:
  "match_dynamic_key sha256 key d \<longleftrightarrow> (\<exists>k \<in> set (list_api_keys d). key_matches sha256 key k)"
  by (auto simp: match_dynamic_key_def key_matches_def list_ex_iff)

lemma api_key_lifecycle_parts:
  assumes "\<forall>k. sha256 k \<noteq> []"
  shows "match_dynamic_key sha256 key (fst (add_api_key sha256 now raw i name d)) \<longleftrightarrow>
      match_dynamic_key sha256 key d \<or> sha256 key = sha256 raw"
    and "match_dynamic_key sha256 key (fst (revoke_api_key i d)) \<longleftrightarrow>
      (\<exists>k \<in> set (list_api_keys d). \<not> key_id_is i k \<and> key_matches sha256 key k)"
    and "jstr (jget (stored_key sha256 now raw i name) ''key'') = None"
proof -
  let ?new = "stored_key sha256 now raw i (take 60 (strip (if name \<noteq> [] then name else ''key'')))"
  have new: "jwf ?new" "key_matches sha256 key ?new \<longleftrightarrow> sha256 key = sha256 raw"
    using assms by (auto simp: stored_key_def key_matches_def constant_time_equal_def jstr_def)
  have "list_api_keys (fst (add_api_key sha256 now raw i name d)) = list_api_keys d @ [?new]"
    unfolding add_api_key_def Let_def fst_conv
    by (rule list_api_keys_set) (use new(1) list_api_keys_jwf in auto)
  then show "match_dynamic_key sha256 key (fst (add_api_key sha256 now raw i name d)) \<longleftrightarrow>
      match_dynamic_key sha256 key d \<or> sha256 key = sha256 raw"
    using new(2) by (auto simp: match_dynamic_key_iff)
  show "jstr (jget (stored_key sha256 now raw i name) ''key'') = None"
    by (simp add: stored_key_def jstr_def)
  let ?keep = "filter (\<lambda>k. \<not> key_id_is i k) (list_api_keys d)"
  have "list_api_keys (fst (revoke_api_key i d)) = ?keep"
  proof (cases "length ?keep = length (list_api_keys d)")
    case True
    then have "?keep = list_api_keys d" by (metis length_filter_less less_irrefl_nat filter_True)
    then show ?thesis by (simp add: revoke_api_key_def Let_def True)
  next
    case False
    then show ?thesis
      by (simp add: revoke_api_key_def Let_def) (rule list_api_keys_set, use list_api_keys_jwf in auto)
  qed
  then show "match_dynamic_key sha256 key (fst (revoke_api_key i d)) \<longleftrightarrow>
      (\<exists>k \<in> set (list_api_keys d). \<not> key_id_is i k \<and> key_matches sha256 key k)"
    by (auto simp: match_dynamic_key_iff)
qed

text \<open>Also: adding an uploader key lets exactly the holders of a key with that hash in, besides
  those let in before; revoking an id leaves exactly the other entries; and the raw key is
  not in what is stored.\<close>

theorem api_key_lifecycle:
  assumes "\<forall>k. sha256 k \<noteq> []"
  shows "(match_dynamic_key sha256 key (fst (add_api_key sha256 now raw i name d)) \<longleftrightarrow>
      match_dynamic_key sha256 key d \<or> sha256 key = sha256 raw)
     \<and> (match_dynamic_key sha256 key (fst (revoke_api_key i d)) \<longleftrightarrow>
      (\<exists>k \<in> set (list_api_keys d). \<not> key_id_is i k \<and> key_matches sha256 key k))
     \<and> (jstr (jget (stored_key sha256 now raw i name) ''key'') = None)"
  by (intro conjI api_key_lifecycle_parts [OF assms])

lemma api_key_lifecycle_witness:
  "match_dynamic_key (\<lambda>k. ''h'' @ k) ''secret'' (fst (add_api_key (\<lambda>k. ''h'' @ k) 5 ''secret'' ''id1'' ''bob'' db_empty))"
  using api_key_lifecycle [of "\<lambda>k. ''h'' @ k" "''secret''" 5 "''secret''" "''id1''" "''bob''" db_empty]
  by simp

text \<open>Also: with no secret configured anywhere, the webhook secret is a constant of the code, the
  same for every installation.\<close>

theorem webhook_secret_predictable:
  assumes "s_tg_webhook_secret s = None" and "s_hmac_secret s = None"
    and "kv_get d ''hmac_secret'' = None"
  shows "effective_webhook_secret hmac s (Some d) = take 64 (hmac ''anbar-webhook'' ''tg-webhook'')"
  using assms by (simp add: effective_webhook_secret_def effective_hmac_secret_def str_or_def Let_def)

lemma webhook_secret_predictable_witness:
  "effective_webhook_secret toy_mac default_settings (Some db_empty) = take 64 (toy_mac ''anbar-webhook'' ''tg-webhook'')"
  by (rule webhook_secret_predictable) (simp_all add: default_settings_def db_empty_def kv_get_def)

end
