(* ===== verification/Links.thy ===== *)
theory Links
  imports Auth
begin

text \<open>
  The share-link registry \<^verbatim>\<open>src/src/anbar/links.py\<close>: every minted link has a row in the links
  table and an entry \<open>link:<id>:<exp>\<close> in the kv table; a revocation marks the row, drops the
  entry and leaves a tombstone \<open>rev:<id>:<exp>\<close>; the tags of an object (password, download cap,
  slugs) go with its last live link. Shared albums are kv entries \<open>album:<token>\<close>. The
  fallback branches for a store without the links table are not modelled: \<^verbatim>\<open>Database\<close> has it.
\<close>

definition link_kv_key :: "string \<Rightarrow> int \<Rightarrow> string" where
  "link_kv_key i e = ''link:'' @ i @ '':'' @ str_of_int e"

(* src: src/src/anbar/links.py 50-63 register_link *)
definition link_meta :: "time \<Rightarrow> string option \<Rightarrow> string option \<Rightarrow> bool \<Rightarrow> int \<Rightarrow> json" where
  "link_meta now sig slug pw max_dl = JObj
     [(''sig'', if truthy_str sig then jstr_opt sig else JNull),
      (''slug'', if truthy_str slug then jstr_opt slug else JNull),
      (''pw'', JBool pw),
      (''max_dl'', if max_dl \<noteq> 0 then JInt max_dl else JNull),
      (''created_at'', JInt now), (''downloads'', JInt 0)]"

(* src: src/src/anbar/links.py auto register_link *)
definition register_link :: "time \<Rightarrow> string \<Rightarrow> int \<Rightarrow> string option \<Rightarrow> string option \<Rightarrow> bool \<Rightarrow> int
     \<Rightarrow> db \<Rightarrow> db" where
  "register_link now i e sig slug pw max_dl d =
     kv_set (link_kv_key i e) (dumps_compact (link_meta now sig slug pw max_dl))
       (link_insert now i e sig slug pw (if max_dl \<noteq> 0 then Some max_dl else None) (Some now) 0 d)"

(* src: src/src/anbar/links.py auto is_revoked *)
definition is_revoked :: "db \<Rightarrow> string \<Rightarrow> int \<Rightarrow> bool" where
  "is_revoked d i e = link_is_revoked d i e"

text \<open>\<^verbatim>\<open>int(x or 0)\<close> on a decoded value.\<close>

definition int_or_0 :: "json option \<Rightarrow> int res" where
  "int_or_0 j = (case j of None \<Rightarrow> Inr 0 | Some v \<Rightarrow> if jtruthy v then json_int v else Inr 0)"

text \<open>The loop of \<open>bump_link_downloads\<close>; an exception ends it and keeps what was written.\<close>

(* src: src/src/anbar/links.py 75-90 bump_link_downloads *)
fun bump_rows :: "time \<Rightarrow> string \<Rightarrow> (string \<times> string) list \<Rightarrow> db \<Rightarrow> db" where
  "bump_rows now i [] d = d"
| "bump_rows now i ((k, v) # rows) d =
     (if \<not> startswith k ''link:'' then bump_rows now i rows d
      else (case rsplit1 (CHR '':'') (drop 5 k) of
              None \<Rightarrow> d
            | Some (oid, exp_s) \<Rightarrow>
                if oid \<noteq> i then bump_rows now i rows d
                else (case py_int exp_s of
                        None \<Rightarrow> d
                      | Some e \<Rightarrow>
                          if is_revoked d oid e then bump_rows now i rows d
                          else (case loads v of
                                  None \<Rightarrow> bump_rows now i rows d
                                | Some meta \<Rightarrow>
                                    if e \<le> now then bump_rows now i rows d
                                    else (case meta of
                                            JObj m \<Rightarrow>
                                              (case int_or_0 (map_of m ''downloads'') of
                                                 Inl _ \<Rightarrow> d
                                               | Inr n \<Rightarrow> bump_rows now i rows
                                                   (kv_set k (dumps_compact (JObj
                                                      (AList.update ''downloads'' (JInt (n + 1)) m))) d))
                                          | _ \<Rightarrow> d)))))"

(* src: src/src/anbar/links.py auto bump_link_downloads *)
definition bump_link_downloads :: "time \<Rightarrow> string \<Rightarrow> db \<Rightarrow> db" where
  "bump_link_downloads now i d =
     (let d = link_bump_downloads now i d in bump_rows now i (kv_all d) d)"

(* src: src/src/anbar/links.py auto _cleanup_tags *)
definition cleanup_tags :: "time \<Rightarrow> string \<Rightarrow> db \<Rightarrow> db" where
  "cleanup_tags now i d =
     (if link_has_live now i d then d
      else if list_ex (\<lambda>(k, _). startswith k ''link:'' \<and> startswith (drop 5 k) (i @ '':'')) (kv_all d) then d
      else let d = fold kv_delete [''pw:'' @ i, ''maxdl:'' @ i, ''dlc:'' @ i] d
           in fold (\<lambda>(k, v) d. if startswith k ''slug:'' \<and> v = i then kv_delete k d else d) (kv_all d) d)"

(* src: src/src/anbar/links.py auto revoke *)
definition revoke :: "time \<Rightarrow> string \<Rightarrow> int \<Rightarrow> db \<Rightarrow> db \<times> bool" where
  "revoke now i e d =
     (let had_kv = kv_get d (link_kv_key i e) \<noteq> None;
          (d, had_tbl) = link_revoke i e d
      in if \<not> had_kv \<and> \<not> had_tbl then (d, False)
         else (cleanup_tags now i (kv_set (rev_key i e) ''1'' (kv_delete (link_kv_key i e) d)), True))"

(* src: src/src/anbar/links.py 135-150 revoke_all *)
fun revoke_all_rows :: "time \<Rightarrow> (string \<times> string) list \<Rightarrow> db \<times> nat \<Rightarrow> db \<times> nat" where
  "revoke_all_rows now [] (d, n) = (d, n)"
| "revoke_all_rows now ((k, v) # rows) (d, n) =
     (if startswith k ''album:'' then revoke_all_rows now rows (kv_delete k d, n + 1)
      else if \<not> startswith k ''link:'' then revoke_all_rows now rows (d, n)
      else (case rsplit1 (CHR '':'') (drop 5 k) of
              None \<Rightarrow> revoke_all_rows now rows (d, n)
            | Some (i, exp_s) \<Rightarrow>
                (case py_int exp_s of
                   None \<Rightarrow> revoke_all_rows now rows (d, n)
                 | Some e \<Rightarrow> revoke_all_rows now rows
                     (cleanup_tags now i (kv_set (rev_key i e) ''1'' (kv_delete k d)), n))))"

(* src: src/src/anbar/links.py auto revoke_all *)
definition revoke_all :: "time \<Rightarrow> db \<Rightarrow> db \<times> nat" where
  "revoke_all now d = (case link_revoke_all d of (d, n) \<Rightarrow> revoke_all_rows now (kv_all d) (d, n))"

(* src: src/src/anbar/links.py 180-195 list_links *)
record link_view =
  v_obj_id :: string
  v_filename :: "string option"
  v_exists :: bool
  v_exp :: int
  v_expired :: bool
  v_revoked :: bool
  v_slug :: "string option"
  v_pw :: bool
  v_max_dl :: "int option"
  v_downloads :: int
  v_created_at :: int
  v_sig :: "string option"

(* src: src/src/anbar/links.py 165-195 list_links *)
fun view_rows :: "(string \<Rightarrow> string \<Rightarrow> string) \<Rightarrow> string option \<Rightarrow> time \<Rightarrow> link list \<Rightarrow> db
     \<Rightarrow> link_view list \<times> db" where
  "view_rows hmac configured now [] d = ([], d)"
| "view_rows hmac configured now (r # rs) d =
     (let (row, d) = get_object (l_obj_id r) False d;
          secret = effective_hmac_secret d configured;
          sig = (if truthy_str (l_sig r) then l_sig r
                 else if truthy_str secret then Some (sign hmac (l_obj_id r) (l_exp r) (the secret))
                 else l_sig r);
          view = \<lparr>v_obj_id = l_obj_id r, v_filename = map_option o_filename row, v_exists = (row \<noteq> None),
                  v_exp = l_exp r, v_expired = (l_exp r \<le> now), v_revoked = l_revoked r,
                  v_slug = l_slug r, v_pw = l_pw r, v_max_dl = l_max_dl r,
                  v_downloads = l_downloads r, v_created_at = l_created_at r, v_sig = sig\<rparr>
      in case view_rows hmac configured now rs d of (vs, d) \<Rightarrow> (view # vs, d))"

(* src: src/src/anbar/links.py 154-197 list_links *)
definition list_links :: "(string \<Rightarrow> string \<Rightarrow> string) \<Rightarrow> string option \<Rightarrow> time \<Rightarrow> int \<Rightarrow> bool \<Rightarrow> db
     \<Rightarrow> link_view list \<times> db" where
  "list_links hmac configured now lim include_dead d =
     (case view_rows hmac configured now (link_list now lim include_dead d) d of
        (vs, d) \<Rightarrow> (take (nat (max 1 lim)) (order_desc v_exp vs), d))"

section \<open>Albums\<close>

text \<open>The ids of an album: anything but a list of strings raises.\<close>

definition str_items :: "json option \<Rightarrow> string list res" where
  "str_items j = (case j of
     None \<Rightarrow> Inr []
   | Some v \<Rightarrow> if \<not> jtruthy v then Inr []
               else (case v of
                       JList l \<Rightarrow> if list_all (\<lambda>x. case x of JStr _ \<Rightarrow> True | _ \<Rightarrow> False) l
                                  then Inr (map (\<lambda>x. case x of JStr s \<Rightarrow> s | _ \<Rightarrow> []) l) else Inl TypeError
                     | _ \<Rightarrow> Inl TypeError))"

(* src: src/src/anbar/links.py 279-284 list_albums *)
fun album_names :: "string list \<Rightarrow> db \<Rightarrow> string list \<times> db" where
  "album_names [] d = ([], d)"
| "album_names (oid # ids) d =
     (case get_object oid False d of
        (None, d) \<Rightarrow> album_names ids d
      | (Some r, d) \<Rightarrow> (case album_names ids d of (ns, d) \<Rightarrow> (o_filename r # ns, d)))"

text \<open>The label: the topmost folders, or the first three base names. The ellipsis character is
  outside the model's characters and written as three dots.\<close>

(* src: src/src/anbar/links.py 285-293 list_albums *)
definition album_label :: "string list \<Rightarrow> string" where
  "album_label names =
     (let folders = remdups (map (\<lambda>n. case rsplit1 (CHR ''/'') n of Some (a, _) \<Rightarrow> a | None \<Rightarrow> [])
                       (filter (\<lambda>n. CHR ''/'' \<in> set n) names));
          top = filter (\<lambda>f. \<not> list_ex (\<lambda>g. f \<noteq> g \<and> startswith f (g @ ''/'')) folders) folders;
          label = (if folders \<noteq> [] then join '' / '' (sort top) else [])
      in if label \<noteq> [] then label
         else join '' / '' (map (last_piece (CHR ''/'')) (take 3 names))
              @ (if length names > 3 then '' ...'' else []))"

(* src: src/src/anbar/links.py 294-309 list_albums *)
record album_view =
  b_token :: string
  b_label :: string
  b_exp :: int
  b_count :: nat
  b_created_at :: int

(* src: src/src/anbar/links.py 267-309 list_albums *)
fun album_rows :: "time \<Rightarrow> (string \<times> string) list \<Rightarrow> db \<Rightarrow> album_view list res \<times> db" where
  "album_rows now [] d = (Inr [], d)"
| "album_rows now ((k, v) # rows) d =
     (case loads v of
        None \<Rightarrow> album_rows now rows d
      | Some (JObj m) \<Rightarrow>
          (case (int_or_0 (map_of m ''exp''), str_items (map_of m ''ids''), int_or_0 (map_of m ''created_at'')) of
             (Inr e, ids', created') \<Rightarrow>
               if e \<noteq> 0 \<and> e \<le> now then album_rows now rows d
               else (case (ids', created') of
                       (Inr ids, Inr created) \<Rightarrow>
                         (case album_names ids d of
                            (names, d) \<Rightarrow>
                              let l = album_label names;
                                  view = \<lparr>b_token = drop 6 k, b_label = (if l \<noteq> [] then l else ''album''),
                                          b_exp = e, b_count = length ids, b_created_at = created\<rparr>
                              in (case album_rows now rows d of
                                    (Inr vs, d) \<Rightarrow> (Inr (view # vs), d)
                                  | (Inl x, d) \<Rightarrow> (Inl x, d)))
                     | (Inl x, _) \<Rightarrow> (Inl x, d)
                     | (_, Inl x) \<Rightarrow> (Inl x, d))
           | (Inl x, _) \<Rightarrow> (Inl x, d))
      | Some _ \<Rightarrow> (Inl TypeError, d))"

(* src: src/src/anbar/links.py auto list_albums *)
definition list_albums :: "time \<Rightarrow> int \<Rightarrow> db \<Rightarrow> album_view list res \<times> db" where
  "list_albums now lim d =
     (case album_rows now (kv_prefix d ''album:'') d of
        (Inr vs, d) \<Rightarrow> (Inr (take (nat (max 1 lim)) (order_desc b_created_at vs)), d)
      | (Inl x, d) \<Rightarrow> (Inl x, d))"

section \<open>Purging\<close>

text \<open>\<^verbatim>\<open>k.split(":", 2)\<close> when it has three parts.\<close>

definition split3 :: "string \<Rightarrow> (string \<times> string \<times> string) option" where
  "split3 k = (case split1 (CHR '':'') k of
     None \<Rightarrow> None
   | Some (a, r) \<Rightarrow> (case split1 (CHR '':'') r of None \<Rightarrow> None | Some (b, c) \<Rightarrow> Some (a, b, c)))"

definition key_exp :: "string \<Rightarrow> (string \<times> int) option" where
  "key_exp k = (case split3 k of
     None \<Rightarrow> None
   | Some (_, i, s) \<Rightarrow> (case py_int s of None \<Rightarrow> None | Some e \<Rightarrow> Some (i, e)))"

(* src: src/src/anbar/links.py 320-337 purge_expired *)
fun purge_rows :: "time \<Rightarrow> time \<Rightarrow> (string \<times> string) list \<Rightarrow> db \<times> nat \<Rightarrow> db \<times> nat" where
  "purge_rows clock t [] (d, n) = (d, n)"
| "purge_rows clock t ((k, v) # rows) (d, n) =
     (if startswith k ''rev:'' then
        (case key_exp k of
           None \<Rightarrow> purge_rows clock t rows (d, n)
         | Some (i, e) \<Rightarrow>
             if e + 7 * 86400 < t then purge_rows clock t rows (kv_delete k d, n + 1)
             else purge_rows clock t rows (d, n))
      else if startswith k ''link:'' then
        (case key_exp k of
           None \<Rightarrow> purge_rows clock t rows (d, n)
         | Some (i, e) \<Rightarrow>
             if e \<le> t then purge_rows clock t rows (cleanup_tags clock i (kv_delete k d), n + 1)
             else purge_rows clock t rows (d, n))
      else purge_rows clock t rows (d, n))"

(* src: src/src/anbar/links.py auto purge_expired *)
definition purge_expired :: "time \<Rightarrow> int option \<Rightarrow> db \<Rightarrow> db \<times> nat" where
  "purge_expired clock now d =
     (let t = (if truthy_int now then the now else clock);
          (d, n) = link_purge_expired clock (Some t) d
      in purge_rows clock t (kv_all d) (d, n))"

section \<open>What the registry guarantees\<close>

lemma kv_set_links [simp]: "d_links (kv_set k v d) = d_links d"
  and kv_delete_links [simp]: "d_links (kv_delete k d) = d_links d"
  by (simp_all add: kv_set_def kv_delete_def)

lemma fold_kv_delete_links [simp]: "d_links (fold kv_delete ks d) = d_links d"
  by (induction ks arbitrary: d) auto

lemma fold_slug_delete:
  "d_links (fold (\<lambda>(k, v) d. if P k v then kv_delete k d else d) rows d) = d_links d
   \<and> (kv_get (fold (\<lambda>(k, v) d. if P k v then kv_delete k d else d) rows d) j =
        (if \<exists>(k, v) \<in> set rows. k = j \<and> P k v then None else kv_get d j))"
  by (induction rows arbitrary: d) (auto simp: kv_simps)

lemma cleanup_links [simp]: "d_links (cleanup_tags now i d) = d_links d"
  by (simp add: cleanup_tags_def Let_def fold_slug_delete)

lemma cleanup_keeps:
  assumes "\<not> startswith k ''pw:''" "\<not> startswith k ''maxdl:''" "\<not> startswith k ''dlc:''"
    "\<not> startswith k ''slug:''"
  shows "kv_get (cleanup_tags now i d) k = kv_get d k"
  using assms fold_slug_delete [of "\<lambda>k v. startswith k ''slug:'' \<and> v = i"]
  by (auto simp: cleanup_tags_def Let_def kv_simps)

lemma cleanup_None: "kv_get d k = None \<Longrightarrow> kv_get (cleanup_tags now i d) k = None"
  unfolding cleanup_tags_def Let_def by (simp add: fold_slug_delete kv_simps split: if_split)

lemma link_get_links: "d_links d' = d_links d \<Longrightarrow> link_get d' i e = link_get d i e"
  by (simp add: link_get_def)

lemma link_revoke_get:
  "link_get (fst (link_revoke i e d)) i e = map_option (\<lambda>r. r\<lparr>l_revoked := True\<rparr>) (link_get d i e)"
proof -
  have "find (\<lambda>r. link_key r = (i, e)) (upd_where (\<lambda>r. link_key r = (i, e) \<and> \<not> l_revoked r)
        (\<lambda>r. r\<lparr>l_revoked := True\<rparr>) ls) = map_option (\<lambda>r. r\<lparr>l_revoked := True\<rparr>) (find (\<lambda>r. link_key r = (i, e)) ls)"
    for ls
    by (subst find_upd_where [where key = link_key])
       (auto simp: link_key_def split: option.splits dest: find_SomeD
         intro!: option.map_cong0 simp del: upd_where_def)
  then show ?thesis by (simp add: link_revoke_def link_get_def link_is_key Let_def)
qed

lemma revoke_kills_parts:
  "snd (revoke now i e d) \<Longrightarrow> is_revoked (fst (revoke now i e d)) i e"
  "\<not> snd (revoke now i e d) \<Longrightarrow> kv_get d (link_kv_key i e) = None
     \<and> (\<forall>r \<in> set (d_links d). link_is i e r \<longrightarrow> l_revoked r)"
proof -
  let ?d1 = "fst (link_revoke i e d)"
  let ?d2 = "cleanup_tags now i (kv_set (rev_key i e) ''1'' (kv_delete (link_kv_key i e) ?d1))"
  have "d_links ?d2 = d_links ?d1" by simp
  then have g: "link_get ?d2 i e = map_option (\<lambda>r. r\<lparr>l_revoked := True\<rparr>) (link_get d i e)"
    using link_revoke_get link_get_links by metis
  have "kv_get ?d2 (rev_key i e) = Some ''1''"
    by (subst cleanup_keeps) (simp_all add: kv_simps rev_key_def)
  with g have "link_is_revoked ?d2 i e"
    by (auto simp: link_is_revoked_def split: option.splits)
  then show "snd (revoke now i e d) \<Longrightarrow> is_revoked (fst (revoke now i e d)) i e"
    by (auto simp: revoke_def is_revoked_def Let_def split_beta split: if_splits)
  show "\<not> snd (revoke now i e d) \<Longrightarrow> kv_get d (link_kv_key i e) = None
     \<and> (\<forall>r \<in> set (d_links d). link_is i e r \<longrightarrow> l_revoked r)"
    by (auto simp: revoke_def Let_def split_beta link_revoke_def count_where_def filter_empty_conv
        split: if_splits)
qed


text \<open>Also: revoking a link that exists kills it at once: from then on the download check finds it
  revoked, whether it was in the table or only in the kv registry. When \<open>revoke\<close> answers that
  there was nothing to revoke, no registered entry and no live row existed.\<close>

theorem revoke_kills:
  "(snd (revoke now i e d) \<longrightarrow> is_revoked (fst (revoke now i e d)) i e)
     \<and> (\<not> snd (revoke now i e d) \<longrightarrow> kv_get d (link_kv_key i e) = None
     \<and> (\<forall>r \<in> set (d_links d). link_is i e r \<longrightarrow> l_revoked r))"
  using revoke_kills_parts [of now i e d] by blast

lemma revoke_kills_witness:
  "is_revoked (fst (revoke 5 ''a'' 100 (register_link 1 ''a'' 100 None None False 0 db_empty))) ''a'' 100
     \<and> kv_get db_empty (link_kv_key ''b'' 9) = None"
proof -
  have "snd (revoke 5 ''a'' 100 (register_link 1 ''a'' 100 None None False 0 db_empty))"
    by (simp add: revoke_def register_link_def kv_simps Let_def split_beta)
  moreover have "\<not> snd (revoke 5 ''b'' 9 db_empty)"
    by (simp add: revoke_def db_empty_def kv_get_def link_revoke_def count_where_def Let_def)
  ultimately show ?thesis using revoke_kills by blast
qed

lemma revoke_all_rows_links: "d_links (fst (revoke_all_rows now rows (d, n))) = d_links d"
  by (induction rows arbitrary: d n) (auto split: option.splits)

lemma revoke_all_rows_album:
  assumes "kv_get d (''album:'' @ t) = None \<or> ''album:'' @ t \<in> fst ` set rows"
  shows "kv_get (fst (revoke_all_rows now rows (d, n))) (''album:'' @ t) = None"
  using assms
proof (induction rows arbitrary: d n)
  case Nil
  then show ?case by simp
next
  case (Cons kv rows)
  obtain k v where kv: "kv = (k, v)" by (cases kv)
  have r: "rev_key i e \<noteq> ''album:'' @ t" for i e by (simp add: rev_key_def)
  show ?case
  proof (cases "k = ''album:'' @ t")
    case True
    then show ?thesis using Cons.IH [of "kv_delete k d" "n + 1"] by (simp add: kv kv_simps)
  next
    case False
    then have p: "kv_get d (''album:'' @ t) = None \<or> ''album:'' @ t \<in> fst ` set rows"
      using Cons.prems kv by auto
    have q: "kv_get (kv_delete k d) (''album:'' @ t) = None \<or> ''album:'' @ t \<in> fst ` set rows"
      using p by (auto simp: kv_simps)
    have c: "kv_get (cleanup_tags now i (kv_set (rev_key i e) ''1'' (kv_delete k d))) (''album:'' @ t) = None
        \<or> ''album:'' @ t \<in> fst ` set rows" for i e
    proof -
      have "kv_get d (''album:'' @ t) = None \<Longrightarrow>
          kv_get (kv_set (rev_key i e) ''1'' (kv_delete k d)) (''album:'' @ t) = None"
        using r [of i e] unfolding kv_laws by (metis (full_types))
      then show ?thesis using p by (metis cleanup_None)
    qed
    show ?thesis using Cons.IH p q c by (auto simp: kv split: option.splits)
  qed
qed

lemma revoke_all_kills_parts:
  "link_get d i e \<noteq> None \<Longrightarrow> is_revoked (fst (revoke_all now d)) i e"
  "kv_get (fst (revoke_all now d)) (''album:'' @ t) = None"
proof -
  obtain d1 n where d1: "link_revoke_all d = (d1, n)" by (cases "link_revoke_all d")
  have kv: "d_kv d1 = d_kv d" and ls: "d_links d1 = upd_where (\<lambda>r. \<not> l_revoked r) (\<lambda>r. r\<lparr>l_revoked := True\<rparr>) (d_links d)"
    using d1 by (auto simp: link_revoke_all_def)
  have g: "link_get (fst (revoke_all now d)) i e = link_get d1 i e"
    by (rule link_get_links) (simp add: revoke_all_def d1 revoke_all_rows_links)
  show "link_get d i e \<noteq> None \<Longrightarrow> is_revoked (fst (revoke_all now d)) i e"
  proof -
    have "find (\<lambda>r. link_key r = (i, e)) (d_links d1) =
        map_option (\<lambda>r. if \<not> l_revoked r then r\<lparr>l_revoked := True\<rparr> else r)
          (find (\<lambda>r. link_key r = (i, e)) (d_links d))"
      unfolding ls by (rule find_upd_where) (simp add: link_key_def)
    then show "link_get d i e \<noteq> None \<Longrightarrow> is_revoked (fst (revoke_all now d)) i e"
      unfolding is_revoked_def link_is_revoked_def g by (auto simp: link_get_def link_is_key)
  qed
  show "kv_get (fst (revoke_all now d)) (''album:'' @ t) = None"
    unfolding revoke_all_def d1 prod.case
    by (rule revoke_all_rows_album)
       (auto simp: kv_get_def kv_all_def kv map_of_eq_None_iff)
qed

text \<open>Also: revoking everything kills every link of the table and every shared album.\<close>

theorem revoke_all_kills:
  "(link_get d i e \<noteq> None \<longrightarrow> is_revoked (fst (revoke_all now d)) i e)
     \<and> (kv_get (fst (revoke_all now d)) (''album:'' @ t) = None)"
  by (intro conjI impI revoke_all_kills_parts)

lemma revoke_all_kills_witness:
  "is_revoked (fst (revoke_all 5 (register_link 1 ''a'' 100 None None False 0 db_empty))) ''a'' 100"
  by (rule revoke_all_kills [THEN conjunct1, rule_format])
     (simp add: register_link_def link_get_def link_insert_def link_is_def find_append split: option.splits)

definition demo_link_db :: db where
  "demo_link_db = kv_set (''pw:'' @ ''a'') ''hash'' (register_link 1 ''a'' 100 None None True 0 db_empty)"

text \<open>Also: when the last link of an object is purged after its expiry, the object's password and
  download cap are dropped with it; only a link that is still live keeps them.\<close>

theorem purge_drops_password:
  "kv_get (fst (purge_expired 50 None demo_link_db)) ''pw:a'' = Some ''hash''
     \<and> kv_get (fst (purge_expired 100 None demo_link_db)) ''pw:a'' = None"
  by code_simp

end
