(* ===== verification/Cache.thy ===== *)
theory Cache
  imports PyStr "HOL-Library.AList"
begin

text \<open>
  The two caches of \<^verbatim>\<open>src/src/anbar/cache.py\<close>: \<open>DiskLRU\<close>, whole objects as temp files, with the
  files that exist on disk as part of its state, and \<open>ChunkMicroCache\<close>, single chunks in memory
  with a time to live. Both keep a running byte count and evict the entry used longest ago;
  \<open>byte_budget\<close> is the accounting contract they share. Entries are kept oldest first.
\<close>

section \<open>Eviction and accounting\<close>

text \<open>The loop of \<open>_evict_for\<close>: what is dropped, what stays, and the byte count.\<close>

(* src: src/src/anbar/cache.py auto DiskLRU._evict_for *)
fun evict :: "('v \<Rightarrow> int) \<Rightarrow> int \<Rightarrow> int \<Rightarrow> ('k \<times> 'v) list \<Rightarrow> int
     \<Rightarrow> ('k \<times> 'v) list \<times> ('k \<times> 'v) list \<times> int" where
  "evict w mx need [] bytes = ([], [], bytes)"
| "evict w mx need (e # es) bytes =
     (if bytes + need > mx then (case evict w mx need es (bytes - w (snd e)) of (dr, kp, b) \<Rightarrow> (e # dr, kp, b))
      else ([], e # es, bytes))"

definition weights :: "('v \<Rightarrow> int) \<Rightarrow> ('k \<times> 'v) list \<Rightarrow> int" where
  "weights w es = sum_list (map (w \<circ> snd) es)"

lemma weights_simps [simp]:
  "weights w [] = 0" "weights w (e # es) = w (snd e) + weights w es"
  "weights w (xs @ ys) = weights w xs + weights w ys"
  by (simp_all add: weights_def)

lemma evict_split:
  "evict w mx need es bytes = (dr, kp, b) \<Longrightarrow> es = dr @ kp \<and> b = bytes - weights w dr"
  by (induction es arbitrary: bytes dr kp b) (fastforce split: if_splits prod.splits)+

lemma evict_fits:
  "evict w mx need es bytes = (dr, kp, b) \<Longrightarrow> bytes = weights w es \<Longrightarrow> need \<le> mx \<Longrightarrow> b + need \<le> mx"
  by (induction es arbitrary: bytes dr kp b) (auto split: if_splits prod.splits)

lemma weights_delete:
  "distinct (map fst es) \<Longrightarrow>
     weights w (AList.delete k es) = weights w es - (case map_of es k of None \<Rightarrow> 0 | Some v \<Rightarrow> w v)"
proof (induction es)
  case (Cons e es)
  have "map_of es (fst e) = None" using Cons.prems by (auto simp: map_of_eq_None_iff)
  with Cons show ?case by (cases e) (auto split: option.splits)
qed simp

lemma weights_nonneg: "(\<And>v. v \<in> snd ` set es \<Longrightarrow> 0 \<le> w v) \<Longrightarrow> 0 \<le> weights w es"
  unfolding weights_def by (rule sum_list_nonneg_int) auto

definition nonneg_in :: "('v \<Rightarrow> int) \<Rightarrow> ('k \<times> 'v) list \<Rightarrow> bool" where
  "nonneg_in w es = (\<forall>v \<in> snd ` set es. 0 \<le> w v)"

lemma nonneg_in_simps [simp]:
  "nonneg_in w []" "nonneg_in w (e # es) \<longleftrightarrow> 0 \<le> w (snd e) \<and> nonneg_in w es"
  "nonneg_in w (xs @ ys) \<longleftrightarrow> nonneg_in w xs \<and> nonneg_in w ys"
  by (auto simp: nonneg_in_def)

lemma nonneg_in_delete: "nonneg_in w es \<Longrightarrow> nonneg_in w (AList.delete k es)"
  by (auto simp: nonneg_in_def AList.delete_eq)

lemma weights_delete_le: "distinct (map fst es) \<Longrightarrow> nonneg_in w es \<Longrightarrow> weights w (AList.delete k es) \<le> weights w es"
  by (auto simp: weights_delete nonneg_in_def split: option.splits dest: map_of_SomeD)

locale byte_budget =
  fixes entries :: "'s \<Rightarrow> ('k \<times> 'v) list"
    and bytes :: "'s \<Rightarrow> int"
    and budget :: "'s \<Rightarrow> int"
    and weight :: "'v \<Rightarrow> int"
    and exec :: "'op \<Rightarrow> 's \<Rightarrow> 's"
    and legal :: "'op \<Rightarrow> bool"
  assumes exec_accounts: "legal x \<Longrightarrow> distinct (map fst (entries s)) \<Longrightarrow> bytes s = weights weight (entries s) \<Longrightarrow>
        nonneg_in weight (entries s) \<Longrightarrow> bytes s \<le> budget s \<Longrightarrow>
        distinct (map fst (entries (exec x s))) \<and> bytes (exec x s) = weights weight (entries (exec x s))
        \<and> nonneg_in weight (entries (exec x s)) \<and> bytes (exec x s) \<le> budget (exec x s)"
begin

definition accounted :: "'s \<Rightarrow> bool" where
  "accounted s = (distinct (map fst (entries s)) \<and> bytes s = weights weight (entries s)
     \<and> nonneg_in weight (entries s) \<and> bytes s \<le> budget s)"

lemma accounted_exec: "legal x \<Longrightarrow> accounted s \<Longrightarrow> accounted (exec x s)"
  unfolding accounted_def by (elim conjE) (rule exec_accounts)

lemma accounted_run: "\<forall>x \<in> set ops. legal x \<Longrightarrow> accounted s \<Longrightarrow> accounted (fold exec ops s)"
  by (induction ops arbitrary: s) (auto simp: accounted_exec)

lemma run_within_budget:
  assumes "\<forall>x \<in> set ops. legal x" and "accounted s"
  shows "bytes (fold exec ops s) = weights weight (entries (fold exec ops s))"
    and "0 \<le> bytes (fold exec ops s)" and "bytes (fold exec ops s) \<le> budget (fold exec ops s)"
  using accounted_run [OF assms] weights_nonneg [of "entries (fold exec ops s)" weight]
  by (auto simp: accounted_def nonneg_in_def)

end

section \<open>DiskLRU\<close>

text \<open>\<open>dl_files\<close> are the files that exist under the cache directory.\<close>

(* src: src/src/anbar/cache.py 34-39 DiskLRU.__init__ *)
record disk_lru =
  dl_max_bytes :: int
  dl_entries :: "(string \<times> string \<times> int \<times> time) list"
  dl_bytes :: int
  dl_files :: "string set"

definition dl_size :: "string \<times> int \<times> time \<Rightarrow> int" where
  "dl_size e = fst (snd e)"

definition unlink :: "string \<Rightarrow> disk_lru \<Rightarrow> disk_lru" where
  "unlink p c = c\<lparr>dl_files := dl_files c - {p}\<rparr>"

text \<open>\<open>p\<close> is the fresh name \<^verbatim>\<open>mkstemp\<close> makes.\<close>

(* src: src/src/anbar/cache.py auto DiskLRU.new_entry_path *)
definition new_entry_path :: "string \<Rightarrow> disk_lru \<Rightarrow> disk_lru" where
  "new_entry_path p c = c\<lparr>dl_files := insert p (dl_files c)\<rparr>"

(* src: src/src/anbar/cache.py auto DiskLRU.contains *)
definition dl_contains :: "disk_lru \<Rightarrow> string \<Rightarrow> bool" where
  "dl_contains c i = (map_of (dl_entries c) i \<noteq> None)"

(* src: src/src/anbar/cache.py auto DiskLRU.remove *)
definition dl_remove :: "string \<Rightarrow> disk_lru \<Rightarrow> disk_lru" where
  "dl_remove i c = (case map_of (dl_entries c) i of
     None \<Rightarrow> c
   | Some (p, sz, at) \<Rightarrow>
       unlink p (c\<lparr>dl_entries := AList.delete i (dl_entries c), dl_bytes := dl_bytes c - sz\<rparr>))"

(* src: src/src/anbar/cache.py auto DiskLRU.get *)
definition dl_get :: "time \<Rightarrow> string \<Rightarrow> disk_lru \<Rightarrow> string option \<times> disk_lru" where
  "dl_get now i c = (case map_of (dl_entries c) i of
     None \<Rightarrow> (None, c)
   | Some (p, sz, at) \<Rightarrow>
       if p \<notin> dl_files c then (None, dl_remove i c)
       else (Some p, c\<lparr>dl_entries := AList.delete i (dl_entries c) @ [(i, p, sz, now)]\<rparr>))"

(* src: src/src/anbar/cache.py auto DiskLRU._evict_for *)
definition dl_evict_for :: "int \<Rightarrow> disk_lru \<Rightarrow> disk_lru" where
  "dl_evict_for need c =
     (case evict dl_size (dl_max_bytes c) need (dl_entries c) (dl_bytes c) of
        (dr, kp, b) \<Rightarrow> fold (\<lambda>e. unlink (fst (snd e))) dr (c\<lparr>dl_entries := kp, dl_bytes := b\<rparr>))"

(* src: src/src/anbar/cache.py auto DiskLRU.add *)
definition dl_add :: "time \<Rightarrow> string \<Rightarrow> string \<Rightarrow> int \<Rightarrow> disk_lru \<Rightarrow> disk_lru \<times> bool" where
  "dl_add now i p sz c =
     (if sz > dl_max_bytes c then (unlink p c, False)
      else let c = dl_evict_for sz c;
               c = (case map_of (dl_entries c) i of
                      None \<Rightarrow> c
                    | Some (op, osz, at) \<Rightarrow>
                        (unlink op (c\<lparr>dl_entries := AList.delete i (dl_entries c)\<rparr>))
                          \<lparr>dl_bytes := dl_bytes c - osz\<rparr>)
           in (c\<lparr>dl_entries := dl_entries c @ [(i, p, sz, now)], dl_bytes := dl_bytes c + sz\<rparr>, True))"

(* src: src/src/anbar/cache.py auto DiskLRU.remove_prefix *)
definition dl_remove_prefix :: "string \<Rightarrow> disk_lru \<Rightarrow> disk_lru" where
  "dl_remove_prefix pre c =
     fold dl_remove (filter (\<lambda>k. startswith k pre) (map fst (dl_entries c))) c"

(* src: src/src/anbar/cache.py auto DiskLRU.close *)
definition dl_close :: "disk_lru \<Rightarrow> disk_lru" where
  "dl_close c = (fold (\<lambda>e. unlink (fst (snd e))) (dl_entries c) c)\<lparr>dl_entries := [], dl_bytes := 0\<rparr>"

text \<open>Pieces of \<open>rd\<close> bytes of a cached file.\<close>

(* src: src/src/anbar/cache.py auto iter_range *)
function iter_range :: "nat \<Rightarrow> 'b list \<Rightarrow> nat \<Rightarrow> nat \<Rightarrow> 'b list list" where
  "iter_range rd file pos n =
     (if n = 0 \<or> rd = 0 then []
      else take (min rd n) (drop pos file) # iter_range rd file (pos + min rd n) (n - min rd n))"
  by pat_completeness auto
termination
  by (relation "measure (\<lambda>(rd, file, pos, n). n)") auto

declare iter_range.simps [simp del]

section \<open>ChunkMicroCache\<close>

(* src: src/src/anbar/cache.py 165-172 ChunkMicroCache.__init__ *)
record 'b micro =
  mc_max_bytes :: int
  mc_ttl :: int
  mc_entries :: "((string \<times> nat) \<times> 'b list \<times> time) list"
  mc_bytes :: int
  mc_hits :: nat
  mc_misses :: nat

definition mc_size :: "'b list \<times> time \<Rightarrow> int" where
  "mc_size e = int (length (fst e))"

(* src: src/src/anbar/cache.py auto ChunkMicroCache.enabled *)
definition mc_enabled :: "'b micro \<Rightarrow> bool" where
  "mc_enabled c = (mc_max_bytes c > 0)"

(* src: src/src/anbar/cache.py auto ChunkMicroCache.get *)
definition mc_get :: "time \<Rightarrow> string \<Rightarrow> nat \<Rightarrow> 'b micro \<Rightarrow> 'b list option \<times> 'b micro" where
  "mc_get now i idx c = (case map_of (mc_entries c) (i, idx) of
     None \<Rightarrow> (None, c\<lparr>mc_misses := mc_misses c + 1\<rparr>)
   | Some (data, at) \<Rightarrow>
       if now - at > mc_ttl c
       then (None, c\<lparr>mc_entries := AList.delete (i, idx) (mc_entries c),
                     mc_bytes := mc_bytes c - int (length data), mc_misses := mc_misses c + 1\<rparr>)
       else (Some data, c\<lparr>mc_entries := AList.delete (i, idx) (mc_entries c) @ [((i, idx), data, at)],
                          mc_hits := mc_hits c + 1\<rparr>))"

(* src: src/src/anbar/cache.py auto ChunkMicroCache._evict_for *)
definition mc_evict_for :: "int \<Rightarrow> 'b micro \<Rightarrow> 'b micro" where
  "mc_evict_for need c =
     (case evict mc_size (mc_max_bytes c) need (mc_entries c) (mc_bytes c) of
        (dr, kp, b) \<Rightarrow> c\<lparr>mc_entries := kp, mc_bytes := b\<rparr>)"

(* src: src/src/anbar/cache.py auto ChunkMicroCache.put *)
definition mc_put :: "time \<Rightarrow> string \<Rightarrow> nat \<Rightarrow> 'b list \<Rightarrow> 'b micro \<Rightarrow> 'b micro" where
  "mc_put now i idx data c =
     (if \<not> mc_enabled c \<or> int (length data) > mc_max_bytes c then c
      else let c = (case map_of (mc_entries c) (i, idx) of
                      None \<Rightarrow> c
                    | Some (old, at) \<Rightarrow> c\<lparr>mc_entries := AList.delete (i, idx) (mc_entries c),
                                         mc_bytes := mc_bytes c - int (length old)\<rparr>);
               c = mc_evict_for (int (length data)) c
           in c\<lparr>mc_entries := mc_entries c @ [((i, idx), data, now)],
                mc_bytes := mc_bytes c + int (length data)\<rparr>)"

(* src: src/src/anbar/cache.py auto ChunkMicroCache.remove_object *)
definition mc_remove_object :: "string \<Rightarrow> 'b micro \<Rightarrow> 'b micro" where
  "mc_remove_object i c =
     fold (\<lambda>k c. case map_of (mc_entries c) k of
             None \<Rightarrow> c
           | Some (data, at) \<Rightarrow> c\<lparr>mc_entries := AList.delete k (mc_entries c),
                                 mc_bytes := mc_bytes c - int (length data)\<rparr>)
       (filter (\<lambda>k. fst k = i) (map fst (mc_entries c))) c"

(* src: src/src/anbar/cache.py auto ChunkMicroCache.close *)
definition mc_close :: "'b micro \<Rightarrow> 'b micro" where
  "mc_close c = c\<lparr>mc_entries := [], mc_bytes := 0\<rparr>"


section \<open>Both caches keep the accounts\<close>

datatype dl_op = DGet time string | DAdd time string string int | DRemove string
  | DRemovePrefix string | DClose | DNew string

fun dl_exec :: "dl_op \<Rightarrow> disk_lru \<Rightarrow> disk_lru" where
  "dl_exec (DGet now i) c = snd (dl_get now i c)"
| "dl_exec (DAdd now i p sz) c = fst (dl_add now i p sz c)"
| "dl_exec (DRemove i) c = dl_remove i c"
| "dl_exec (DRemovePrefix pre) c = dl_remove_prefix pre c"
| "dl_exec DClose c = dl_close c"
| "dl_exec (DNew p) c = new_entry_path p c"

fun dl_legal :: "dl_op \<Rightarrow> bool" where
  "dl_legal (DAdd _ _ _ sz) = (0 \<le> sz)"
| "dl_legal _ = True"

text \<open>One predicate with the budget as an argument, which no operation changes.\<close>

definition dl_ok :: "disk_lru \<Rightarrow> bool" where
  "dl_ok c = (distinct (map fst (dl_entries c)) \<and> dl_bytes c = weights dl_size (dl_entries c))"

lemma unlink_fields [simp]:
  "dl_entries (unlink p c) = dl_entries c" "dl_bytes (unlink p c) = dl_bytes c"
  "dl_max_bytes (unlink p c) = dl_max_bytes c" "dl_files (unlink p c) = dl_files c - {p}"
  by (simp_all add: unlink_def)

lemma fold_unlink_fields [simp]:
  "dl_entries (fold (\<lambda>e. unlink (f e)) es c) = dl_entries c"
  "dl_bytes (fold (\<lambda>e. unlink (f e)) es c) = dl_bytes c"
  "dl_max_bytes (fold (\<lambda>e. unlink (f e)) es c) = dl_max_bytes c"
  "dl_files (fold (\<lambda>e. unlink (f e)) es c) = dl_files c - f ` set es"
  by (induction es arbitrary: c) auto

lemma not_key_deleted [simp]: "k \<notin> fst ` set (AList.delete k es)"
  by (auto simp: AList.delete_eq)

lemma dl_remove_ok:
  "dl_ok c \<Longrightarrow> dl_ok (dl_remove i c) \<and> dl_max_bytes (dl_remove i c) = dl_max_bytes c
     \<and> (nonneg_in dl_size (dl_entries c) \<longrightarrow> nonneg_in dl_size (dl_entries (dl_remove i c))
          \<and> dl_bytes (dl_remove i c) \<le> dl_bytes c)"
  using weights_delete_le [of "dl_entries c" dl_size i]
  by (auto simp: dl_ok_def dl_remove_def distinct_delete weights_delete dl_size_def nonneg_in_delete
      split: option.splits)

lemma dl_remove_prefix_ok:
  "dl_ok c \<Longrightarrow> dl_ok (fold dl_remove ks c) \<and> dl_max_bytes (fold dl_remove ks c) = dl_max_bytes c
     \<and> (nonneg_in dl_size (dl_entries c) \<longrightarrow> nonneg_in dl_size (dl_entries (fold dl_remove ks c))
          \<and> dl_bytes (fold dl_remove ks c) \<le> dl_bytes c)"
proof (induction ks arbitrary: c)
  case (Cons k ks)
  note r = dl_remove_ok [OF Cons.prems, of k]
  from Cons.IH [OF conjunct1 [OF r]] r show ?case unfolding fold_Cons comp_apply by linarith
qed simp

lemma dl_add_ok:
  assumes ok: "dl_ok c" and sz: "0 \<le> sz"
  shows "dl_ok (fst (dl_add now i p sz c)) \<and> dl_max_bytes (fst (dl_add now i p sz c)) = dl_max_bytes c
     \<and> (nonneg_in dl_size (dl_entries c) \<and> dl_bytes c \<le> dl_max_bytes c \<longrightarrow>
          nonneg_in dl_size (dl_entries (fst (dl_add now i p sz c)))
          \<and> dl_bytes (fst (dl_add now i p sz c)) \<le> dl_max_bytes c)"
proof (cases "sz > dl_max_bytes c")
  case True
  then show ?thesis using ok by (auto simp: dl_add_def dl_ok_def)
next
  case False
  obtain dr kp b where ev: "evict dl_size (dl_max_bytes c) sz (dl_entries c) (dl_bytes c) = (dr, kp, b)"
    by (cases "evict dl_size (dl_max_bytes c) sz (dl_entries c) (dl_bytes c)")
  have sp: "dl_entries c = dr @ kp" "b = dl_bytes c - weights dl_size dr"
    using evict_split [OF ev] by auto
  have fit: "b + sz \<le> dl_max_bytes c"
    using evict_fits [OF ev] ok False by (simp add: dl_ok_def)
  have kp: "distinct (map fst kp)" "b = weights dl_size kp"
    and nn: "nonneg_in dl_size (dl_entries c) \<Longrightarrow> nonneg_in dl_size kp"
    using ok sp by (auto simp: dl_ok_def)
  have s: "dl_size (q, n, t) = n" for q n t by (simp add: dl_size_def)
  show ?thesis
  proof (cases "map_of kp i")
    case None
    then have "i \<notin> fst ` set kp" by (simp add: map_of_eq_None_iff)
    with None show ?thesis using False kp fit sz nn
      by (auto simp: dl_add_def dl_evict_for_def ev dl_ok_def s Let_def)
  next
    case (Some old)
    have le: "nonneg_in dl_size kp \<Longrightarrow> weights dl_size (AList.delete i kp) \<le> weights dl_size kp"
      using weights_delete_le [OF kp(1)] by blast
    from Some show ?thesis using False kp fit sz nn le
      by (cases old)
         (auto simp: dl_add_def dl_evict_for_def ev dl_ok_def s Let_def distinct_delete weights_delete
            nonneg_in_delete)
  qed
qed

lemma dl_get_ok:
  "dl_ok c \<Longrightarrow> dl_ok (snd (dl_get now i c)) \<and> dl_max_bytes (snd (dl_get now i c)) = dl_max_bytes c
     \<and> (nonneg_in dl_size (dl_entries c) \<longrightarrow> nonneg_in dl_size (dl_entries (snd (dl_get now i c)))
          \<and> dl_bytes (snd (dl_get now i c)) \<le> dl_bytes c)"
proof (cases "map_of (dl_entries c) i")
  case (Some e)
  assume ok: "dl_ok c"
  obtain p sz at where e: "e = (p, sz, at)" by (cases e)
  have "nonneg_in dl_size (dl_entries c) \<Longrightarrow> 0 \<le> sz"
    using map_of_SomeD [OF Some] by (force simp: nonneg_in_def e dl_size_def)
  then show ?thesis using ok Some dl_remove_ok [OF ok, of i]
    by (auto simp: dl_get_def e dl_ok_def distinct_delete weights_delete dl_size_def nonneg_in_delete)
qed (simp add: dl_get_def)

lemma dl_exec_ok:
  assumes "dl_legal x" and ok: "dl_ok c"
  shows "dl_ok (dl_exec x c) \<and> dl_max_bytes (dl_exec x c) = dl_max_bytes c
     \<and> (nonneg_in dl_size (dl_entries c) \<and> dl_bytes c \<le> dl_max_bytes c \<longrightarrow>
          nonneg_in dl_size (dl_entries (dl_exec x c)) \<and> dl_bytes (dl_exec x c) \<le> dl_max_bytes c)"
proof (cases x)
  case (DGet now i)
  then show ?thesis using dl_get_ok [OF ok, of now i] by (simp, linarith)
next
  case (DAdd now i p sz)
  then show ?thesis using dl_add_ok [OF ok, of sz now i p] assms(1) by simp
next
  case (DRemove i)
  then show ?thesis using dl_remove_ok [OF ok, of i] by (simp, linarith)
next
  case (DRemovePrefix pre)
  then show ?thesis
    using dl_remove_prefix_ok [OF ok, of "filter (\<lambda>k. startswith k pre) (map fst (dl_entries c))"]
    by (simp add: dl_remove_prefix_def, linarith)
next
  case DClose
  have "nonneg_in dl_size (dl_entries c) \<Longrightarrow> 0 \<le> dl_bytes c"
    using ok by (auto simp: dl_ok_def nonneg_in_def intro!: weights_nonneg)
  then show ?thesis using DClose by (auto simp: dl_close_def dl_ok_def)
next
  case (DNew p)
  then show ?thesis using ok by (simp add: new_entry_path_def dl_ok_def)
qed

interpretation dl: byte_budget dl_entries dl_bytes dl_max_bytes dl_size dl_exec dl_legal
proof unfold_locales
  fix x :: dl_op and s :: disk_lru
  assume l: "dl_legal x" and d: "distinct (map fst (dl_entries s))"
    and b: "dl_bytes s = weights dl_size (dl_entries s)"
    and n: "nonneg_in dl_size (dl_entries s)" "dl_bytes s \<le> dl_max_bytes s"
  have ok: "dl_ok s" using d b by (simp add: dl_ok_def)
  show "distinct (map fst (dl_entries (dl_exec x s)))
     \<and> dl_bytes (dl_exec x s) = weights dl_size (dl_entries (dl_exec x s))
     \<and> nonneg_in dl_size (dl_entries (dl_exec x s)) \<and> dl_bytes (dl_exec x s) \<le> dl_max_bytes (dl_exec x s)"
    using dl_exec_ok [OF l ok] n by (simp add: dl_ok_def)
qed

(* src: src/src/anbar/cache.py auto DiskLRU.__init__ *)
definition dl_init :: "int \<Rightarrow> disk_lru" where
  "dl_init mx = \<lparr>dl_max_bytes = mx, dl_entries = [], dl_bytes = 0, dl_files = {}\<rparr>"

lemma dl_max_run: "\<forall>x \<in> set ops. dl_legal x \<Longrightarrow> dl_ok c \<Longrightarrow> dl_max_bytes (fold dl_exec ops c) = dl_max_bytes c"
proof (induction ops arbitrary: c)
  case (Cons x ops)
  then show ?case using dl_exec_ok [of x c] by simp
qed simp

lemma disk_lru_within_budget_parts:
  assumes "\<forall>x \<in> set ops. dl_legal x" and "0 \<le> mx"
  shows "dl_bytes (fold dl_exec ops (dl_init mx)) = weights dl_size (dl_entries (fold dl_exec ops (dl_init mx)))"
    and "0 \<le> dl_bytes (fold dl_exec ops (dl_init mx))" and "dl_bytes (fold dl_exec ops (dl_init mx)) \<le> mx"
proof -
  have "dl.accounted (dl_init mx)" using assms(2) by (simp add: dl.accounted_def dl_init_def)
  from dl.run_within_budget [OF assms(1) this] dl_max_run [OF assms(1), of "dl_init mx"]
  show "dl_bytes (fold dl_exec ops (dl_init mx)) = weights dl_size (dl_entries (fold dl_exec ops (dl_init mx)))"
    and "0 \<le> dl_bytes (fold dl_exec ops (dl_init mx))" and "dl_bytes (fold dl_exec ops (dl_init mx)) \<le> mx"
    by (simp_all add: dl_init_def dl_ok_def)
qed

text \<open>Also: whatever sequence of operations runs, the disk cache's byte count is the sum of the
  sizes of its entries and never exceeds the budget.\<close>

theorem disk_lru_within_budget:
  assumes "\<forall>x \<in> set ops. dl_legal x" and "0 \<le> mx"
  shows "(dl_bytes (fold dl_exec ops (dl_init mx)) = weights dl_size (dl_entries (fold dl_exec ops (dl_init mx))))
     \<and> (0 \<le> dl_bytes (fold dl_exec ops (dl_init mx)))
     \<and> (dl_bytes (fold dl_exec ops (dl_init mx)) \<le> mx)"
  by (intro conjI disk_lru_within_budget_parts [OF assms])

lemma disk_lru_within_budget_witness:
  "dl_bytes (fold dl_exec [DNew ''p'', DAdd 1 ''a'' ''p'' 6, DNew ''q'', DAdd 2 ''b'' ''q'' 7] (dl_init 10)) \<le> 10"
  by (rule disk_lru_within_budget [THEN conjunct2, THEN conjunct2]) simp_all

text \<open>Also: committing a temp file leaves no orphan behind: if the only file besides those of the
  entries (and of other uploads \<open>pend\<close> in progress) is the one handed in, then afterwards the
  files are again those of the entries, whether it was admitted, rejected or replaced another.\<close>

theorem disk_lru_no_orphans:
  assumes "dl_ok c" and "dl_files c \<subseteq> insert p (fst ` snd ` set (dl_entries c) \<union> pend)"
  shows "dl_files (fst (dl_add now i p sz c)) \<subseteq> fst ` snd ` set (dl_entries (fst (dl_add now i p sz c))) \<union> pend"
proof (cases "sz > dl_max_bytes c")
  case True
  then show ?thesis using assms by (auto simp: dl_add_def)
next
  case False
  obtain dr kp b where ev: "evict dl_size (dl_max_bytes c) sz (dl_entries c) (dl_bytes c) = (dr, kp, b)"
    by (cases "evict dl_size (dl_max_bytes c) sz (dl_entries c) (dl_bytes c)")
  then have sp: "dl_entries c = dr @ kp" using evict_split by blast
  let ?P = "\<lambda>es. (\<lambda>e. fst (snd e)) ` set es"
  have f: "dl_files c - ?P dr \<subseteq> insert p (?P kp \<union> pend)"
    using assms by (auto simp: sp image_image)
  show ?thesis
  proof (cases "map_of kp i")
    case None
    then show ?thesis using False f by (auto simp: dl_add_def dl_evict_for_def ev Let_def image_image)
  next
    case (Some old)
    obtain op osz at where old: "old = (op, osz, at)" by (cases old)
    have "?P kp \<subseteq> insert op (?P (AList.delete i kp))"
    proof
      fix q
      assume "q \<in> ?P kp"
      then obtain e where e: "e \<in> set kp" "q = fst (snd e)" by auto
      have "distinct (map fst kp)" using assms(1) sp by (simp add: dl_ok_def)
      with Some e(1) have "fst e = i \<Longrightarrow> snd e = old"
        by (metis map_of_is_SomeI option.inject prod.collapse)
      with e show "q \<in> insert op (?P (AList.delete i kp))"
        by (cases "fst e = i") (auto simp: AList.delete_eq old)
    qed
    with f have "dl_files c - ?P dr - {op} \<subseteq> insert p (?P (AList.delete i kp) \<union> pend)" by blast
    then show ?thesis using False Some
      by (auto simp: dl_add_def dl_evict_for_def ev old Let_def image_image)
  qed
qed


lemma disk_lru_no_orphans_witness:
  "dl_files (fst (dl_add 1 ''a'' ''p'' 6 (new_entry_path ''p'' (dl_init 10))))
     \<subseteq> fst ` snd ` set (dl_entries (fst (dl_add 1 ''a'' ''p'' 6 (new_entry_path ''p'' (dl_init 10))))) \<union> {}"
  by (rule disk_lru_no_orphans) (simp_all add: new_entry_path_def dl_init_def dl_ok_def)

lemma iter_range_concat: "0 < rd \<Longrightarrow> concat (iter_range rd content pos n) = take n (drop pos content)"
proof (induction rd content pos n rule: iter_range.induct)
  case (1 rd content pos n)
  show ?case
  proof (cases "n = 0")
    case True
    then show ?thesis by (simp add: iter_range.simps)
  next
    case False
    have "take n (drop pos content) = take (min rd n + (n - min rd n)) (drop pos content)" by simp
    also have "\<dots> = take (min rd n) (drop pos content) @ take (n - min rd n) (drop (pos + min rd n) content)"
      by (simp only: take_add drop_drop add.commute)
    finally show ?thesis using 1 False by (subst iter_range.simps) simp
  qed
qed

datatype 'b mc_op = MGet time string nat | MPut time string nat "'b list" | MRemove string | MClose

fun mc_exec :: "'b mc_op \<Rightarrow> 'b micro \<Rightarrow> 'b micro" where
  "mc_exec (MGet now i idx) c = snd (mc_get now i idx c)"
| "mc_exec (MPut now i idx data) c = mc_put now i idx data c"
| "mc_exec (MRemove i) c = mc_remove_object i c"
| "mc_exec MClose c = mc_close c"

definition mc_ok :: "'b micro \<Rightarrow> bool" where
  "mc_ok c = (distinct (map fst (mc_entries c)) \<and> mc_bytes c = weights mc_size (mc_entries c)
     \<and> mc_bytes c \<le> mc_max_bytes c)"

lemma mc_size_nonneg [simp]: "nonneg_in mc_size es"
  by (simp add: nonneg_in_def mc_size_def)

lemma mc_weights_delete_le:
  "distinct (map fst es) \<Longrightarrow> weights mc_size (AList.delete k es) \<le> weights mc_size es"
  by (rule weights_delete_le) simp_all

lemma mc_size_pair [simp]: "mc_size (d, t) = int (length d)"
  by (simp add: mc_size_def)

lemma mc_drop_ok:
  "mc_ok c \<Longrightarrow> map_of (mc_entries c) k = Some (data, at) \<Longrightarrow>
     mc_ok (c\<lparr>mc_entries := AList.delete k (mc_entries c), mc_bytes := mc_bytes c - int (length data)\<rparr>)"
  using mc_weights_delete_le [of "mc_entries c" k]
  by (auto simp: mc_ok_def distinct_delete weights_delete)

lemma mc_get_ok: "mc_ok c \<Longrightarrow> mc_ok (snd (mc_get now i idx c)) \<and> mc_max_bytes (snd (mc_get now i idx c)) = mc_max_bytes c"
proof (cases "map_of (mc_entries c) (i, idx)")
  case (Some e)
  assume ok: "mc_ok c"
  obtain data at where e: "e = (data, at)" by (cases e)
  show ?thesis
  proof (cases "now - at > mc_ttl c")
    case True
    then show ?thesis using mc_drop_ok [OF ok, of "(i, idx)" data at] Some
      by (simp add: mc_get_def e mc_ok_def)
  next
    case False
    then show ?thesis using ok Some
      by (simp add: mc_get_def e mc_ok_def distinct_delete weights_delete)
  qed
qed (simp add: mc_get_def mc_ok_def)

lemma mc_put_ok:
  assumes ok: "mc_ok c"
  shows "mc_ok (mc_put now i idx data c) \<and> mc_max_bytes (mc_put now i idx data c) = mc_max_bytes c"
proof (cases "\<not> mc_enabled c \<or> int (length data) > mc_max_bytes c")
  case True
  then show ?thesis using ok by (auto simp: mc_put_def)
next
  case False
  define c1 where "c1 = (case map_of (mc_entries c) (i, idx) of
      None \<Rightarrow> c
    | Some (old, at) \<Rightarrow> c\<lparr>mc_entries := AList.delete (i, idx) (mc_entries c),
                         mc_bytes := mc_bytes c - int (length old)\<rparr>)"
  have c1: "mc_ok c1" "mc_max_bytes c1 = mc_max_bytes c" "(i, idx) \<notin> fst ` set (mc_entries c1)"
    using ok mc_drop_ok [OF ok] by (auto simp: c1_def map_of_eq_None_iff split: option.splits)
  obtain dr kp b where ev: "evict mc_size (mc_max_bytes c) (int (length data)) (mc_entries c1) (mc_bytes c1) = (dr, kp, b)"
    by (cases "evict mc_size (mc_max_bytes c) (int (length data)) (mc_entries c1) (mc_bytes c1)")
  have "mc_entries c1 = dr @ kp" "b = mc_bytes c1 - weights mc_size dr"
    using evict_split [OF ev] by auto
  moreover have "b + int (length data) \<le> mc_max_bytes c"
    using evict_fits [OF ev] c1(1) False by (simp add: mc_ok_def)
  moreover have "mc_put now i idx data c =
      c1\<lparr>mc_entries := kp @ [((i, idx), data, now)], mc_bytes := b + int (length data)\<rparr>"
    using False by (simp add: mc_put_def Let_def mc_evict_for_def ev c1(2) flip: c1_def)
  ultimately show ?thesis using c1 by (auto simp: mc_ok_def)
qed

lemma mc_remove_ok: "mc_ok c \<Longrightarrow> mc_ok (mc_remove_object i c) \<and> mc_max_bytes (mc_remove_object i c) = mc_max_bytes c"
proof -
  let ?f = "\<lambda>k c. case map_of (mc_entries c) k of None \<Rightarrow> c
     | Some (data, at) \<Rightarrow> c\<lparr>mc_entries := AList.delete k (mc_entries c), mc_bytes := mc_bytes c - int (length data)\<rparr>"
  have step: "mc_ok c \<Longrightarrow> mc_ok (?f k c) \<and> mc_max_bytes (?f k c) = mc_max_bytes c" for k and c :: "'a micro"
    using mc_drop_ok [of c k] by (auto split: option.splits)
  have "mc_ok c \<Longrightarrow> mc_ok (fold ?f ks c) \<and> mc_max_bytes (fold ?f ks c) = mc_max_bytes c" for ks and c :: "'a micro"
  proof (induction ks arbitrary: c)
    case (Cons k ks)
    from Cons.IH [of "?f k c"] step [OF Cons.prems, of k] show ?case by simp
  qed simp
  then show "mc_ok c \<Longrightarrow> ?thesis" by (simp add: mc_remove_object_def)
qed

lemma mc_exec_ok: "mc_ok c \<Longrightarrow> mc_ok (mc_exec x c) \<and> mc_max_bytes (mc_exec x c) = mc_max_bytes c"
proof (cases x)
  case MClose
  assume ok: "mc_ok c"
  then have "0 \<le> mc_bytes c"
    using weights_nonneg [of "mc_entries c" mc_size] by (simp add: mc_ok_def mc_size_def)
  with MClose ok show ?thesis by (simp add: mc_close_def mc_ok_def)
qed (simp_all add: mc_get_ok mc_put_ok mc_remove_ok)

interpretation mc: byte_budget mc_entries mc_bytes mc_max_bytes mc_size mc_exec "\<lambda>_. True"
proof unfold_locales
  fix x :: "'b mc_op" and s :: "'b micro"
  assume "distinct (map fst (mc_entries s))" "mc_bytes s = weights mc_size (mc_entries s)"
    "mc_bytes s \<le> mc_max_bytes s"
  then have "mc_ok s" by (simp add: mc_ok_def)
  from mc_exec_ok [OF this, of x]
  show "distinct (map fst (mc_entries (mc_exec x s)))
     \<and> mc_bytes (mc_exec x s) = weights mc_size (mc_entries (mc_exec x s))
     \<and> nonneg_in mc_size (mc_entries (mc_exec x s)) \<and> mc_bytes (mc_exec x s) \<le> mc_max_bytes (mc_exec x s)"
    by (simp add: mc_ok_def)
qed

(* src: src/src/anbar/cache.py auto ChunkMicroCache.__init__ *)
definition mc_init :: "int \<Rightarrow> int \<Rightarrow> 'b micro" where
  "mc_init mx ttl = \<lparr>mc_max_bytes = max 0 mx, mc_ttl = ttl, mc_entries = [], mc_bytes = 0,
     mc_hits = 0, mc_misses = 0\<rparr>"

lemma mc_init_ok: "mc_ok (mc_init mx ttl)"
  by (simp add: mc_init_def mc_ok_def)

lemma mc_run_ok: "mc_ok c \<Longrightarrow> mc_ok (fold mc_exec ops c) \<and> mc_max_bytes (fold mc_exec ops c) = mc_max_bytes c"
proof (induction ops arbitrary: c)
  case (Cons x ops)
  then show ?case using mc_exec_ok [of c x] by simp
qed simp

text \<open>The last admitted chunk per key, as a map: what an unbounded cache would hold.\<close>

fun last_put :: "int \<Rightarrow> 'b mc_op \<Rightarrow> (string \<times> nat \<rightharpoonup> 'b list \<times> time) \<Rightarrow> (string \<times> nat \<rightharpoonup> 'b list \<times> time)" where
  "last_put mx (MPut now i idx data) m =
     (if 0 < mx \<and> int (length data) \<le> mx then m((i, idx) \<mapsto> (data, now)) else m)"
| "last_put mx _ m = m"

definition within :: "('k \<times> 'v) list \<Rightarrow> ('k \<rightharpoonup> 'v) \<Rightarrow> bool" where
  "within es m = (\<forall>k v. map_of es k = Some v \<longrightarrow> m k = Some v)"

lemma within_delete: "within es m \<Longrightarrow> within (AList.delete k es) m"
  by (auto simp: within_def delete_conv' split: if_splits)

lemma within_suffix: "distinct (map fst (dr @ kp)) \<Longrightarrow> within (dr @ kp) m \<Longrightarrow> within kp m"
  unfolding within_def
proof (intro allI impI)
  fix k v
  assume d: "distinct (map fst (dr @ kp))" and w: "\<forall>k v. map_of (dr @ kp) k = Some v \<longrightarrow> m k = Some v"
    and k: "map_of kp k = Some v"
  have "k \<in> fst ` set kp" using map_of_SomeD [OF k] by force
  then have "map_of dr k = None" using d by (auto simp: map_of_eq_None_iff)
  with k have "map_of (dr @ kp) k = Some v" by (simp add: map_add_def)
  with w show "m k = Some v" by blast
qed

lemma within_touch: "within es m \<Longrightarrow> map_of es k = Some v \<Longrightarrow> within (AList.delete k es @ [(k, v)]) m"
  by (auto simp: within_def delete_conv' map_add_Some_iff split: if_splits)

lemma within_snoc: "within es m \<Longrightarrow> k \<notin> fst ` set es \<Longrightarrow> within (es @ [(k, v)]) (m(k \<mapsto> v))"
  by (auto simp: within_def map_add_Some_iff split: if_splits)
     (metis domI dom_map_of_conv_image_fst map_of_eq_None_iff option.distinct(1))

lemma mc_within_exec:
  assumes ok: "mc_ok c" and w: "within (mc_entries c) m"
  shows "within (mc_entries (mc_exec x c)) (last_put (mc_max_bytes c) x m)"
proof (cases x)
  case (MGet now i idx)
  then show ?thesis using w
    by (auto simp: mc_get_def within_delete within_touch split: option.splits)
next
  case (MPut now i idx data)
  show ?thesis
  proof (cases "\<not> mc_enabled c \<or> int (length data) > mc_max_bytes c")
    case True
    then show ?thesis using w by (auto simp: MPut mc_put_def mc_enabled_def)
  next
    case False
    define c1 where "c1 = (case map_of (mc_entries c) (i, idx) of
        None \<Rightarrow> c
      | Some (old, at) \<Rightarrow> c\<lparr>mc_entries := AList.delete (i, idx) (mc_entries c),
                           mc_bytes := mc_bytes c - int (length old)\<rparr>)"
    have c1: "mc_max_bytes c1 = mc_max_bytes c" "(i, idx) \<notin> fst ` set (mc_entries c1)"
      "distinct (map fst (mc_entries c1))" "within (mc_entries c1) m"
      using ok w by (auto simp: c1_def map_of_eq_None_iff mc_ok_def distinct_delete within_delete split: option.splits)
    obtain dr kp b where ev: "evict mc_size (mc_max_bytes c) (int (length data)) (mc_entries c1) (mc_bytes c1) = (dr, kp, b)"
      by (cases "evict mc_size (mc_max_bytes c) (int (length data)) (mc_entries c1) (mc_bytes c1)")
    have sp: "mc_entries c1 = dr @ kp" using evict_split [OF ev] by simp
    have "within kp m" using within_suffix [of dr kp m] c1(3,4) sp by simp
    moreover have "(i, idx) \<notin> fst ` set kp" using c1(2) sp by auto
    moreover have "mc_entries (mc_put now i idx data c) = kp @ [((i, idx), data, now)]"
      using False by (simp add: mc_put_def Let_def mc_evict_for_def ev c1(1) flip: c1_def)
    moreover have "0 < mc_max_bytes c" "int (length data) \<le> mc_max_bytes c" using False by (auto simp: mc_enabled_def)
    ultimately show ?thesis by (simp add: MPut within_snoc)
  qed
next
  case (MRemove i)
  have "within (mc_entries c) m \<Longrightarrow> within (mc_entries (fold (\<lambda>k c. case map_of (mc_entries c) k of None \<Rightarrow> c
     | Some (data, at) \<Rightarrow> c\<lparr>mc_entries := AList.delete k (mc_entries c), mc_bytes := mc_bytes c - int (length data)\<rparr>) ks c)) m"
    for ks and c :: "'a micro"
  proof (induction ks arbitrary: c)
    case (Cons k ks)
    then show ?case by (cases "map_of (mc_entries c) k") (auto intro!: Cons.IH simp: within_delete)
  qed simp
  with w show ?thesis by (simp add: MRemove mc_remove_object_def)
next
  case MClose
  then show ?thesis by (simp add: mc_close_def within_def)
qed

lemma mc_within_run:
  "mc_ok c \<Longrightarrow> within (mc_entries c) m \<Longrightarrow>
     within (mc_entries (fold mc_exec ops c)) (fold (last_put (mc_max_bytes c)) ops m)"
proof (induction ops arbitrary: c m)
  case (Cons x ops)
  from Cons.IH [of "mc_exec x c" "last_put (mc_max_bytes c) x m"] mc_exec_ok [OF Cons.prems(1), of x]
    mc_within_exec [OF Cons.prems, of x]
  show ?case by simp
qed simp

text \<open>Also: whatever operations ran, the seek cache stays within its memory budget and a hit returns
  exactly the chunk last admitted under that object and index, no older than the time to live.\<close>

theorem micro_cache_sound:
  "mc_bytes (fold mc_exec ops (mc_init mx ttl)) \<le> max 0 mx
   \<and> (\<forall>now i idx data. fst (mc_get now i idx (fold mc_exec ops (mc_init mx ttl))) = Some data \<longrightarrow>
        (\<exists>at. fold (last_put (max 0 mx)) ops Map.empty (i, idx) = Some (data, at) \<and> now - at \<le> mc_ttl (fold mc_exec ops (mc_init mx ttl))))"
proof -
  let ?c = "fold mc_exec ops (mc_init mx ttl)"
  have mx: "mc_max_bytes (mc_init mx ttl) = max 0 mx" "mc_entries (mc_init mx ttl) = []"
    by (simp_all add: mc_init_def)
  have w0: "within (mc_entries (mc_init mx ttl)) Map.empty"
    by (simp add: within_def mc_init_def)
  have "mc_bytes ?c \<le> max 0 mx"
    using mc_run_ok [OF mc_init_ok, of ops mx ttl] mx(1) unfolding mc_ok_def by metis
  moreover have "within (mc_entries ?c) (fold (last_put (max 0 mx)) ops Map.empty)"
    using mc_within_run [OF mc_init_ok w0, of ops] by (simp add: mc_init_def)
  ultimately show ?thesis
    by (auto simp: mc_get_def within_def split: option.splits if_splits)
qed

lemma micro_cache_sound_witness:
  "fst (mc_get 20 ''a'' 0 (fold mc_exec [MPut 1 ''a'' 0 [1 :: nat, 2], MPut 2 ''b'' 0 [3, 4]] (mc_init 4 120))) = Some [1, 2]
     \<and> mc_bytes (fold mc_exec [MPut 1 ''a'' 0 [1 :: nat, 2], MPut 2 ''b'' 0 [3, 4]] (mc_init 4 120)) \<le> 4"
  using micro_cache_sound [of "[MPut 1 ''a'' 0 [1 :: nat, 2], MPut 2 ''b'' 0 [3, 4]]" 4 120]
  by (simp add: mc_init_def mc_put_def mc_enabled_def mc_evict_for_def mc_get_def Let_def)

end
