(* ===== verification/Storage.thy ===== *)
theory Storage
  imports Objects "HOL-Library.AList"
begin

text \<open>
  \<^verbatim>\<open>src/src/anbar/storage/base.py\<close>: the reference a backend hands out for stored bytes, the
  contract of a backend as the locale \<open>blob_store\<close>, and the in-memory \<^verbatim>\<open>FakeBackend\<close>, which
  is the contract's instance. A Python dict is an association list in insertion order.
\<close>

section \<open>References\<close>

(* src: src/src/anbar/storage/base.py auto ObjectRef *)
record object_ref =
  or_file_id :: string
  or_backend :: string
  or_size :: int
  or_name :: string
  or_message_id :: "int option"

definition mk_ref :: "string \<Rightarrow> int option \<Rightarrow> string \<Rightarrow> object_ref" where
  "mk_ref fid mid bk = \<lparr>or_file_id = fid, or_backend = bk, or_size = 0, or_name = [], or_message_id = mid\<rparr>"

lemma mk_ref_simps [simp]:
  "or_file_id (mk_ref fid mid bk) = fid" "or_message_id (mk_ref fid mid bk) = mid"
  "or_backend (mk_ref fid mid bk) = bk"
  by (simp_all add: mk_ref_def)

section \<open>The contract\<close>

text \<open>
  What the object layer relies on: storing succeeds or fails, a stored blob is read back from
  its file id and message id, and neither a later store nor a read changes what the other blobs
  hold. \<open>good\<close> is the provider's invariant. Nothing is promised after a delete.
\<close>

locale blob_store =
  fixes store :: "string \<Rightarrow> 'b list \<Rightarrow> string \<Rightarrow> string option \<Rightarrow> 'w \<Rightarrow> 'w \<times> object_ref res"
    and fetch :: "string \<Rightarrow> object_ref \<Rightarrow> 'w \<Rightarrow> 'w \<times> 'b list res"
    and good :: "'w \<Rightarrow> bool"
  assumes store_good: "good w \<Longrightarrow> good (fst (store m d n c w))"
    and stored: "good w \<Longrightarrow> store m d n c w = (w', Inr r) \<Longrightarrow>
        snd (fetch m (mk_ref (or_file_id r) (or_message_id r) b) w') = Inr d"
    and store_keeps: "good w \<Longrightarrow> snd (fetch m' q w) = Inr e \<Longrightarrow>
        snd (fetch m' q (fst (store m d n c w))) = Inr e"
    and fetch_good: "good w \<Longrightarrow> good (fst (fetch m q w))"
    and fetch_keeps: "good w \<Longrightarrow> snd (fetch m' q (fst (fetch m q' w))) = snd (fetch m' q w)"
begin

fun store_all :: "string \<Rightarrow> 'b list list \<Rightarrow> 'w \<Rightarrow> 'w \<times> object_ref list res" where
  "store_all m [] w = (w, Inr [])"
| "store_all m (d # ds) w =
     (case store m d [] None w of
        (w', Inl e) \<Rightarrow> (w', Inl e)
      | (w', Inr r) \<Rightarrow>
          (case store_all m ds w' of
             (w'', Inl e) \<Rightarrow> (w'', Inl e)
           | (w'', Inr rs) \<Rightarrow> (w'', Inr (r # rs))))"

lemma store_all_good: "good w \<Longrightarrow> good (fst (store_all m ds w))"
proof (induction ds arbitrary: w)
  case (Cons d ds)
  obtain w' x where s: "store m d [] None w = (w', x)" by (cases "store m d [] None w")
  have "good w'" using store_good [OF Cons.prems, of m d "[]" None] s by simp
  with Cons.IH [OF this] show ?case
    by (auto simp: s split: sum.splits prod.splits)
qed simp

lemma store_all_keeps:
  "good w \<Longrightarrow> snd (fetch m' q w) = Inr e \<Longrightarrow> snd (fetch m' q (fst (store_all m ds w))) = Inr e"
proof (induction ds arbitrary: w)
  case (Cons d ds)
  obtain w' x where s: "store m d [] None w = (w', x)" by (cases "store m d [] None w")
  have "good w'" using store_good [OF Cons.prems(1), of m d "[]" None] s by simp
  moreover have "snd (fetch m' q w') = Inr e"
    using store_keeps [OF Cons.prems, of m d "[]" None] s by simp
  ultimately have "snd (fetch m' q (fst (store_all m ds w'))) = Inr e" by (rule Cons.IH)
  then show ?case
    using \<open>snd (fetch m' q w') = Inr e\<close> by (auto simp: s split: sum.splits prod.splits)
qed simp

text \<open>All blobs stored one after the other can be read back together.\<close>

lemma store_all_reads:
  assumes "good w" and "store_all m ds w = (w', Inr rs)"
  shows "map (\<lambda>r. snd (fetch m (mk_ref (or_file_id r) (or_message_id r) b) w')) rs = map Inr ds"
  using assms
proof (induction ds arbitrary: w rs)
  case (Cons d ds)
  from Cons.prems(2) obtain w1 r rs' where s: "store m d [] None w = (w1, Inr r)"
    and a: "store_all m ds w1 = (w', Inr rs')" and rs: "rs = r # rs'"
    by (auto split: prod.splits sum.splits)
  have g: "good w1" using store_good [OF Cons.prems(1), of m d "[]" None] s by simp
  have "snd (fetch m (mk_ref (or_file_id r) (or_message_id r) b) w') = Inr d"
    using store_all_keeps [OF g stored [OF Cons.prems(1) s], where m = m and ds = ds] a by simp
  with Cons.IH [OF g a] rs show ?case by simp
qed simp

end

section \<open>FakeBackend\<close>

(* src: src/src/anbar/storage/base.py 68-78 FakeBackend *)
record 'b fake =
  fb_store :: "(string \<times> 'b list) list"
  fb_open_calls :: nat
  fb_store_calls :: nat
  fb_next_msg :: int

(* src: src/src/anbar/storage/base.py auto FakeBackend.__init__ *)
definition fake_init :: "'b fake" where
  "fake_init = \<lparr>fb_store = [], fb_open_calls = 0, fb_store_calls = 0, fb_next_msg = 1\<rparr>"

definition fake_id :: "nat \<Rightarrow> string" where
  "fake_id n = ''fake-'' @ str_of_nat n"

(* src: src/src/anbar/storage/base.py auto FakeBackend.store *)
definition fake_store :: "'b list \<Rightarrow> string \<Rightarrow> string option \<Rightarrow> 'b fake \<Rightarrow> 'b fake \<times> object_ref res" where
  "fake_store data blob_name caption fb =
     (let r = fake_id (length (fb_store fb)) in
      (fb\<lparr>fb_store_calls := fb_store_calls fb + 1, fb_store := AList.update r data (fb_store fb),
          fb_next_msg := fb_next_msg fb + 1\<rparr>,
       Inr \<lparr>or_file_id = r, or_backend = ''fake'', or_size = int (length data), or_name = blob_name,
            or_message_id = Some (fb_next_msg fb)\<rparr>))"

(* src: src/src/anbar/storage/base.py auto FakeBackend.open *)
definition fake_open :: "object_ref \<Rightarrow> 'b fake \<Rightarrow> 'b fake \<times> 'b list res" where
  "fake_open r fb =
     (fb\<lparr>fb_open_calls := fb_open_calls fb + 1\<rparr>,
      case map_of (fb_store fb) (or_file_id r) of None \<Rightarrow> Inl (KeyError (or_file_id r)) | Some d \<Rightarrow> Inr d)"

(* src: src/src/anbar/storage/base.py auto FakeBackend.delete *)
definition fake_delete :: "object_ref \<Rightarrow> 'b fake \<Rightarrow> 'b fake \<times> bool res" where
  "fake_delete r fb =
     (fb\<lparr>fb_store := AList.delete (or_file_id r) (fb_store fb)\<rparr>,
      Inr (map_of (fb_store fb) (or_file_id r) \<noteq> None))"

text \<open>Until the first delete the keys are \<^verbatim>\<open>fake-0\<close>, \<^verbatim>\<open>fake-1\<close>, \<open>\<dots>\<close> without a gap.\<close>

definition fake_ok :: "'b fake \<Rightarrow> bool" where
  "fake_ok fb = (map fst (fb_store fb) = map fake_id [0..<length (fb_store fb)])"

lemma fake_id_inj: "fake_id m = fake_id n \<Longrightarrow> m = n"
  by (metis append_eq_append_conv fake_id_def digits_val_str_of_nat)

lemma fake_id_fresh: "fake_ok fb \<Longrightarrow> fake_id (length (fb_store fb)) \<notin> set (map fst (fb_store fb))"
  unfolding fake_ok_def by (metis (no_types, lifting) fake_id_inj atLeastLessThan_iff image_iff list.set_map
      nat_less_le set_upt)

lemma update_fresh: "k \<notin> set (map fst xs) \<Longrightarrow> AList.update k v xs = xs @ [(k, v)]"
  by (induction xs) auto

lemma fake_store_ok: "fake_ok fb \<Longrightarrow> fake_ok (fst (fake_store d n c fb))"
  using fake_id_fresh [of fb]
  by (simp add: fake_store_def Let_def update_fresh) (simp add: fake_ok_def)

text \<open>The backends of a process, by name, each with the operations of \<^verbatim>\<open>FakeBackend\<close>.\<close>

definition at :: "('s \<Rightarrow> 's \<times> 'r) \<Rightarrow> string \<Rightarrow> (string \<Rightarrow> 's) \<Rightarrow> (string \<Rightarrow> 's) \<times> 'r" where
  "at f m w = (case f (w m) of (s, r) \<Rightarrow> (w(m := s), r))"

definition fakes_store :: "string \<Rightarrow> 'b list \<Rightarrow> string \<Rightarrow> string option \<Rightarrow> (string \<Rightarrow> 'b fake)
    \<Rightarrow> (string \<Rightarrow> 'b fake) \<times> object_ref res" where
  "fakes_store m d n c = at (fake_store d n c) m"

definition fakes_open :: "string \<Rightarrow> object_ref \<Rightarrow> (string \<Rightarrow> 'b fake) \<Rightarrow> (string \<Rightarrow> 'b fake) \<times> 'b list res" where
  "fakes_open m r = at (fake_open r) m"

definition fakes_delete :: "string \<Rightarrow> object_ref \<Rightarrow> (string \<Rightarrow> 'b fake) \<Rightarrow> (string \<Rightarrow> 'b fake) \<times> bool res" where
  "fakes_delete m r = at (fake_delete r) m"

lemma fake_open_store: "fb_store (fst (fake_open r fb)) = fb_store fb"
  by (simp add: fake_open_def)

interpretation fakes: blob_store fakes_store fakes_open "\<lambda>w. \<forall>m. fake_ok (w m)"
proof unfold_locales
  fix w :: "string \<Rightarrow> 'b fake" and m m' n :: string and d e and c w' r b q q'
  assume g: "\<forall>m. fake_ok (w m)"
  show "\<forall>x. fake_ok (fst (fakes_store m d n c w) x)"
    using g by (auto simp: fakes_store_def at_def split_beta intro!: fake_store_ok)
  show "\<forall>x. fake_ok (fst (fakes_open m q w) x)"
    using g by (auto simp: fakes_open_def at_def fake_open_def fake_ok_def)
  show "snd (fakes_open m' q (fst (fakes_open m q' w))) = snd (fakes_open m' q w)"
    by (auto simp: fakes_open_def at_def fake_open_def)
  show "snd (fakes_open m (mk_ref (or_file_id r) (or_message_id r) b) w') = Inr d"
    if "fakes_store m d n c w = (w', Inr r)"
    using that by (auto simp: fakes_open_def fakes_store_def at_def fake_open_def fake_store_def Let_def update_conv)
  show "snd (fakes_open m' q (fst (fakes_store m d n c w))) = Inr e"
    if "snd (fakes_open m' q w) = Inr e"
  proof -
    from that have l: "map_of (fb_store (w m')) (or_file_id q) = Some e"
      by (auto simp: fakes_open_def at_def fake_open_def split: option.splits)
    then have "or_file_id q \<in> set (map fst (fb_store (w m')))" by (force dest: map_of_SomeD)
    then have "or_file_id q \<noteq> fake_id (length (fb_store (w m')))"
      using fake_id_fresh [of "w m'"] g by metis
    with l show ?thesis
      by (auto simp: fakes_open_def fakes_store_def at_def fake_open_def fake_store_def Let_def update_conv)
  qed
qed

section \<open>Properties\<close>

text \<open>Also: after a blob has been deleted, the next blob is stored under an id that another blob
  already has, and replaces it: the ids count the blobs present, not the blobs ever stored.\<close>

theorem fake_id_reused:
  "let w0 = fst (fake_store y n2 c2 (fst (fake_store x n1 c1 fake_init)));
       w = fst (fake_delete (mk_ref (fake_id 0) None []) w0)
   in snd (fake_open (mk_ref (fake_id 1) None []) w) = Inr y
      \<and> snd (fake_open (mk_ref (fake_id 1) None []) (fst (fake_store z n3 c3 w))) = Inr z"
proof -
  have "fake_id 0 \<noteq> fake_id (Suc 0)" by (auto dest: fake_id_inj)
  then show ?thesis
    by (simp add: fake_store_def fake_delete_def fake_open_def fake_init_def Let_def)
qed

end
