(* ===== verification/BotBackend.thy ===== *)
theory BotBackend
  imports Storage PyStr
begin

text \<open>
  \<^verbatim>\<open>src/src/anbar/storage/bot_backend.py\<close>: the Telegram Bot API backend. The Bot API, the file
  CDN and the event loop's clock are outside the source: they are the arguments \<open>post\<close>, \<open>cdn\<close>,
  \<open>clock\<close> and \<open>sleep\<close> over a world \<open>'w\<close>. Times are milliseconds. Both retry loops are modelled
  as the code has them: the store loop ends only by its deadline, so it is a partial function and
  its termination is a theorem.
\<close>

section \<open>Responses\<close>

text \<open>\<^verbatim>\<open>BotBackend._parse\<close>. A \<^verbatim>\<open>.get\<close> on something that is no object raises AttributeError, here
  \<open>TypeError\<close>.\<close>

definition as_obj :: "json \<Rightarrow> (string \<times> json) list res" where
  "as_obj j = (case j of JObj o' \<Rightarrow> Inr o' | _ \<Rightarrow> Inl TypeError)"

definition obj_get :: "string \<Rightarrow> json \<Rightarrow> json \<Rightarrow> json res" where
  "obj_get k d j = rbind (as_obj j) (\<lambda>o'. Inr (case map_of o' k of None \<Rightarrow> d | Some v \<Rightarrow> v))"

definition int_of_json :: "json \<Rightarrow> int option" where
  "int_of_json j = (case j of JInt n \<Rightarrow> Some n | _ \<Rightarrow> None)"

(* src: src/src/anbar/storage/bot_backend.py auto BotBackend._parse *)
definition tg_parse :: "json \<Rightarrow> json res" where
  "tg_parse body =
     rbind (obj_get ''ok'' JNull body) (\<lambda>ok.
       if \<not> jtruthy ok then
         rbind (obj_get ''error'' (JObj []) body) (\<lambda>e.
         rbind (obj_get ''parameters'' (JObj []) e) (\<lambda>ps.
         rbind (obj_get ''retry_after'' JNull ps) (\<lambda>ra.
         rbind (obj_get ''code'' (JInt 500) e) (\<lambda>cd.
           case int_of_json cd of
             None \<Rightarrow> Inl TypeError
           | Some c \<Rightarrow> Inl (TelegramError c (int_of_json ra))))))
       else j_item body ''result'')"

(* src: src/src/anbar/storage/bot_backend.py auto BotBackend._is_rate_limited *)
definition is_rate_limited :: "int \<Rightarrow> bool" where
  "is_rate_limited cd = (cd \<in> {429, 402, 500, 502})"

section \<open>Sending\<close>

(* src: src/src/anbar/storage/bot_backend.py 179-189 BotBackend.store *)
definition send_method :: "string \<Rightarrow> string option \<Rightarrow> string" where
  "send_method blob_name content_type =
     (let mime = str_or content_type ''application/octet-stream'';
          l0 = lower blob_name;
          low = (if endswith l0 ''.part'' then take (length l0 - 5) l0 else l0) in
      if startswith mime ''video/''
         \<or> list_ex (endswith low) [''.mp4'', ''.webm'', ''.mkv'', ''.mov'', ''.avi'', ''.m4v'']
      then ''sendVideo''
      else if startswith mime ''audio/''
         \<or> list_ex (endswith low) [''.mp3'', ''.ogg'', ''.wav'', ''.flac'', ''.m4a'', ''.opus'', ''.aac'']
      then ''sendAudio'' else ''sendDocument'')"

(* src: src/src/anbar/storage/bot_backend.py auto BotBackend._extract_file_id *)
definition bot_extract_file_id :: "json \<Rightarrow> string res" where
  "bot_extract_file_id r =
     (case find (\<lambda>k. jget r k \<noteq> None) [''document'', ''video'', ''audio'', ''animation''] of
        None \<Rightarrow> Inl (KeyError ''no file payload'')
      | Some k \<Rightarrow> rbind (j_item (the (jget r k)) ''file_id'') as_str)"

(* src: src/src/anbar/storage/bot_backend.py 74-110 BotBackend *)
record bot =
  bt_name :: string
  bt_channel :: string
  bt_thread_id :: "int option"
  bt_send_gap :: int
  bt_flood_budget :: int
  bt_last_send :: int

text \<open>The field list of a post, in the order the code adds the fields.\<close>

(* src: src/src/anbar/storage/bot_backend.py 238-254 BotBackend._paced_multipart *)
definition post_fields :: "bot \<Rightarrow> string \<Rightarrow> string option \<Rightarrow> (string \<times> string) list" where
  "post_fields b mth caption =
     [(''chat_id'', bt_channel b)]
     @ (case bt_thread_id b of None \<Rightarrow> [] | Some t \<Rightarrow> [(''message_thread_id'', str_of_int t)])
     @ (if mth = ''sendVideo'' then [(''supports_streaming'', ''true'')] else [])
     @ (if truthy_str caption then [(''caption'', the caption)] else [])"

(* src: src/src/anbar/storage/bot_backend.py 238-243 BotBackend._paced_multipart *)
definition post_file :: "string \<Rightarrow> string \<times> string" where
  "post_file mth = (if mth = ''sendVideo'' then (''video'', ''video/mp4'')
     else if mth = ''sendAudio'' then (''audio'', ''audio/mpeg'') else (''document'', ''application/octet-stream''))"

type_synonym ('w, 'b) post_fn =
  "string \<Rightarrow> (string \<times> string) list \<Rightarrow> string \<times> string \<Rightarrow> string \<Rightarrow> 'b list \<Rightarrow> 'w \<Rightarrow> 'w \<times> json res"

text \<open>\<open>post\<close> is one HTTP post with the wall-clock cap: a transport error or a timeout is
  \<open>Inl (TelegramError 502 None)\<close> (\<^verbatim>\<open>_call_multipart\<close>), a response is its JSON body.\<close>

(* src: src/src/anbar/storage/bot_backend.py auto BotBackend._call_multipart *)
definition call_multipart :: "('w, 'b) post_fn \<Rightarrow> string \<Rightarrow> (string \<times> string) list \<Rightarrow> string \<times> string
    \<Rightarrow> string \<Rightarrow> 'b list \<Rightarrow> 'w \<Rightarrow> 'w \<times> json res" where
  "call_multipart post mth fs fld n d w = (case post mth fs fld n d w of (w', r) \<Rightarrow> (w', rbind r tg_parse))"

(* src: src/src/anbar/storage/bot_backend.py auto BotBackend._paced_multipart *)
definition paced_multipart :: "('w, 'b) post_fn \<Rightarrow> ('w \<Rightarrow> int) \<Rightarrow> (int \<Rightarrow> 'w \<Rightarrow> 'w) \<Rightarrow> string \<Rightarrow> string
    \<Rightarrow> 'b list \<Rightarrow> string option \<Rightarrow> bot \<times> 'w \<Rightarrow> (bot \<times> 'w) \<times> json res" where
  "paced_multipart post clock sleep mth n d caption bw =
     (let b = fst bw; w = snd bw;
          gap = bt_last_send b + bt_send_gap b - clock w;
          w1 = (if 0 < gap then sleep gap w else w) in
      case call_multipart post mth (post_fields b mth caption) (post_file mth) n d w1 of
        (w2, r) \<Rightarrow> ((b\<lparr>bt_last_send := clock w2\<rparr>, w2), r))"

definition wait_ms :: "int option \<Rightarrow> int" where
  "wait_ms ra = (if truthy_int ra then the ra else 3) * 1000 + 500"

(* src: src/src/anbar/storage/bot_backend.py 191-218 BotBackend.store *)
partial_function (option) flood_loop ::
  "('w, 'b) post_fn \<Rightarrow> ('w \<Rightarrow> int) \<Rightarrow> (int \<Rightarrow> 'w \<Rightarrow> 'w) \<Rightarrow> string \<Rightarrow> string \<Rightarrow> 'b list
     \<Rightarrow> string option \<Rightarrow> int \<Rightarrow> bot \<times> 'w \<Rightarrow> ((bot \<times> 'w) \<times> object_ref res) option" where
  "flood_loop post clock sleep mth n d caption deadline bw =
     (case paced_multipart post clock sleep mth n d caption bw of
        (bw', Inl (TelegramError cd ra)) \<Rightarrow>
          if is_rate_limited cd then
            (if clock (snd bw') + wait_ms ra > deadline then Some (bw', Inl FloodBudgetExceeded)
             else flood_loop post clock sleep mth n d caption deadline
                    (fst bw', sleep (wait_ms ra) (snd bw')))
          else Some (bw', Inl (TelegramError cd ra))
      | (bw', Inl e) \<Rightarrow> Some (bw', Inl e)
      | (bw', Inr res) \<Rightarrow>
          Some (bw', rbind (bot_extract_file_id res) (\<lambda>fid.
            Inr \<lparr>or_file_id = fid, or_backend = bt_name (fst bw'), or_size = int (length d), or_name = n,
                 or_message_id = Option.bind (jget res ''message_id'') int_of_json\<rparr>)))"

(* src: src/src/anbar/storage/bot_backend.py auto BotBackend.store *)
definition bot_store :: "('w, 'b) post_fn \<Rightarrow> ('w \<Rightarrow> int) \<Rightarrow> (int \<Rightarrow> 'w \<Rightarrow> 'w) \<Rightarrow> 'b list \<Rightarrow> string
    \<Rightarrow> string option \<Rightarrow> string option \<Rightarrow> bot \<times> 'w \<Rightarrow> ((bot \<times> 'w) \<times> object_ref res) option" where
  "bot_store post clock sleep d n content_type caption bw =
     flood_loop post clock sleep (send_method n content_type) n d caption
       (clock (snd bw) + bt_flood_budget (fst bw)) bw"

section \<open>Fetching and deleting\<close>

text \<open>\<open>call\<close> is \<^verbatim>\<open>_call\<close> (transport errors are \<open>TelegramError 502\<close>); \<open>cdn\<close> gets a file: a transport
  error, or the status, the \<^verbatim>\<open>retry-after\<close> header and the content.\<close>

datatype 'b cdn_response = Transport_Error | Response int "string option" "'b list"

(* src: src/src/anbar/storage/bot_backend.py 271-318 BotBackend.open *)
fun open_loop :: "(string \<Rightarrow> 'w \<Rightarrow> 'w \<times> json res) \<Rightarrow> (string \<Rightarrow> 'w \<Rightarrow> 'w \<times> 'b cdn_response) \<Rightarrow> (int \<Rightarrow> 'w \<Rightarrow> 'w)
    \<Rightarrow> string \<Rightarrow> nat \<Rightarrow> nat \<Rightarrow> 'w \<Rightarrow> 'w \<times> 'b list res" where
  "open_loop get_file cdn sleep fid attempt 0 w = (w, Inl (RuntimeError ''bot_backend.open failed''))"
| "open_loop get_file cdn sleep fid attempt (Suc left) w =
     (case get_file fid w of
        (w1, Inl (TelegramError cd ra)) \<Rightarrow>
          open_loop get_file cdn sleep fid (attempt + 1) left (sleep (min (2 ^ attempt) 10 * 1000) w1)
      | (w1, Inl e) \<Rightarrow> (w1, Inl (RuntimeError ''bot_backend.open failed''))
      | (w1, Inr info) \<Rightarrow>
          (case rbind (j_item info ''file_path'') as_str of
             Inl e \<Rightarrow> (w1, Inl (RuntimeError ''bot_backend.open failed''))
           | Inr path \<Rightarrow>
               (case cdn path w1 of
                  (w2, Transport_Error) \<Rightarrow>
                    open_loop get_file cdn sleep fid (attempt + 1) left (sleep (min (2 ^ attempt) 10 * 1000) w2)
                | (w2, Response status ra content) \<Rightarrow>
                    if status = 200 then (w2, Inr content)
                    else if status = 429 then
                      open_loop get_file cdn sleep fid (attempt + 1) left
                        (sleep ((case py_int (case ra of None \<Rightarrow> ''5'' | Some r \<Rightarrow> r) of
                                   None \<Rightarrow> 5 | Some s \<Rightarrow> s) * 1000) w2)
                    else if 500 \<le> status then
                      open_loop get_file cdn sleep fid (attempt + 1) left (sleep (min (2 ^ attempt) 10 * 1000) w2)
                    else (w2, Inl (RuntimeError ''bot_backend.open failed'')))))"

(* src: src/src/anbar/storage/bot_backend.py auto BotBackend.open *)
definition bot_open :: "(string \<Rightarrow> 'w \<Rightarrow> 'w \<times> json res) \<Rightarrow> (string \<Rightarrow> 'w \<Rightarrow> 'w \<times> 'b cdn_response) \<Rightarrow> (int \<Rightarrow> 'w \<Rightarrow> 'w)
    \<Rightarrow> object_ref \<Rightarrow> nat \<Rightarrow> 'w \<Rightarrow> 'w \<times> 'b list res" where
  "bot_open get_file cdn sleep r max_retries w = open_loop get_file cdn sleep (or_file_id r) 1 max_retries w"

(* src: src/src/anbar/storage/bot_backend.py auto BotBackend.delete *)
definition bot_delete :: "(int \<Rightarrow> 'w \<Rightarrow> 'w \<times> json res) \<Rightarrow> object_ref \<Rightarrow> 'w \<Rightarrow> 'w \<times> bool res" where
  "bot_delete delete_message r w =
     (case or_message_id r of
        None \<Rightarrow> (w, Inr False)
      | Some m \<Rightarrow>
          (case delete_message m w of
             (w', Inl (TelegramError cd ra)) \<Rightarrow> (w', Inr False)
           | (w', Inl e) \<Rightarrow> (w', Inl e)
           | (w', Inr res) \<Rightarrow> (w', Inr True)))"

section \<open>The store loop returns\<close>

text \<open>What the loop needs of the world: waiting takes at least the time asked for, posting does not
  turn the clock back, and Telegram never asks for a negative wait.\<close>

definition world_ok :: "('w, 'b) post_fn \<Rightarrow> ('w \<Rightarrow> int) \<Rightarrow> (int \<Rightarrow> 'w \<Rightarrow> 'w) \<Rightarrow> bool" where
  "world_ok post clock sleep =
     ((\<forall>t w. clock w + max 0 t \<le> clock (sleep t w))
      \<and> (\<forall>mth fs fl n d w. clock w \<le> clock (fst (post mth fs fl n d w)))
      \<and> (\<forall>mth fs fl n d w cd ra. rbind (snd (post mth fs fl n d w)) tg_parse = Inl (TelegramError cd (Some ra)) \<longrightarrow> 0 \<le> ra))"

lemma paced_facts:
  assumes "world_ok post clock sleep" and "paced_multipart post clock sleep mth n d caption bw = (bw', r)"
  shows "clock (snd bw) \<le> clock (snd bw')" and "bt_name (fst bw') = bt_name (fst bw)"
    and "r = Inl (TelegramError cd (Some ra)) \<Longrightarrow> 0 \<le> ra"
    and "bt_last_send (fst bw') = clock (snd bw')"
    and "bt_send_gap (fst bw') = bt_send_gap (fst bw)"
proof -
  let ?gap = "bt_last_send (fst bw) + bt_send_gap (fst bw) - clock (snd bw)"
  let ?w1 = "if 0 < ?gap then sleep ?gap (snd bw) else snd bw"
  obtain w2 x where p: "post mth (post_fields (fst bw) mth caption) (post_file mth) n d ?w1 = (w2, x)"
    by (cases "post mth (post_fields (fst bw) mth caption) (post_file mth) n d ?w1")
  have e: "bw' = ((fst bw)\<lparr>bt_last_send := clock w2\<rparr>, w2)" "r = rbind x tg_parse"
    using assms(2) p unfolding paced_multipart_def call_multipart_def Let_def by auto
  have "clock (snd bw) \<le> clock ?w1"
    using assms(1) unfolding world_ok_def by (smt (verit) max_def)
  also have "\<dots> \<le> clock w2"
    using assms(1) p unfolding world_ok_def by (metis fst_conv)
  finally show "clock (snd bw) \<le> clock (snd bw')" by (simp add: e)
  show "0 \<le> ra" if "r = Inl (TelegramError cd (Some ra))"
    using assms(1) p that unfolding world_ok_def e(2) by (metis snd_conv)
qed (use assms(2) in \<open>auto simp: paced_multipart_def Let_def split: prod.splits\<close>)

lemma wait_ms_pos: "(\<And>x. ra = Some x \<Longrightarrow> 0 \<le> x) \<Longrightarrow> 500 \<le> wait_ms ra"
  by (cases ra) (auto simp: wait_ms_def)

definition store_outcome :: "string \<Rightarrow> nat \<Rightarrow> object_ref res \<Rightarrow> bool" where
  "store_outcome nm sz r = (case r of
     Inr x \<Rightarrow> or_backend x = nm \<and> or_size x = int sz
   | Inl (TelegramError cd ra) \<Rightarrow> \<not> is_rate_limited cd
   | Inl _ \<Rightarrow> True)"

lemma item_str_errors: "rbind (j_item j k) as_str \<noteq> Inl (TelegramError cd ra)"
  by (cases "j_item j k") (auto simp: j_item_def as_str_def split: option.splits json.splits)

lemma extract_errors: "bot_extract_file_id j \<noteq> Inl (TelegramError cd ra)"
  unfolding bot_extract_file_id_def by (simp only: item_str_errors not_False_eq_True split: option.split) simp

lemma flood_loop_returns:
  assumes "world_ok post clock sleep"
  shows "\<exists>bw' r. flood_loop post clock sleep mth n d caption deadline bw = Some (bw', r)
     \<and> store_outcome (bt_name (fst bw)) (length d) r"
proof (induction "nat (deadline - clock (snd bw) + 500)" arbitrary: bw rule: less_induct)
  case less
  obtain bw1 r1 where p: "paced_multipart post clock sleep mth n d caption bw = (bw1, r1)"
    by (cases "paced_multipart post clock sleep mth n d caption bw")
  note pf = paced_facts [OF assms p]
  consider (flood) cd ra where "r1 = Inl (TelegramError cd ra)" "is_rate_limited cd"
      "clock (snd bw1) + wait_ms ra \<le> deadline"
    | (stop) "\<not> (\<exists>cd ra. r1 = Inl (TelegramError cd ra) \<and> is_rate_limited cd \<and> clock (snd bw1) + wait_ms ra \<le> deadline)"
    by blast
  then show ?case
  proof cases
    case flood
    let ?bw = "(fst bw1, sleep (wait_ms ra) (snd bw1))"
    have w: "500 \<le> wait_ms ra" using pf(3) flood(1) by (intro wait_ms_pos) auto
    have "clock (snd bw1) + max 0 (wait_ms ra) \<le> clock (sleep (wait_ms ra) (snd bw1))"
      using assms unfolding world_ok_def by blast
    with w pf(1) flood(3) have "nat (deadline - clock (snd ?bw) + 500) < nat (deadline - clock (snd bw) + 500)"
      by simp
    from less.hyps [OF this] pf(2) show ?thesis
      using flood by (subst flood_loop.simps) (simp add: p)
  next
    case stop
    show ?thesis
    proof (cases r1)
      case (Inl e)
      then show ?thesis using stop pf(2)
        by (subst flood_loop.simps) (cases e; auto simp: p store_outcome_def not_le)
    next
      case (Inr x)
      then show ?thesis using pf(2) extract_errors [of x]
        by (subst flood_loop.simps)
           (cases "bot_extract_file_id x"; auto simp: p store_outcome_def split: exc.splits)
    qed
  qed
qed

text \<open>C29: a store through the Bot API always returns, whatever sequence of errors Telegram
  answers with: either the reference of the sent blob (this bot's name and the blob's size), or an
  error that is never a bare rate limit (those have been waited out or end as
  FloodBudgetExceeded).\<close>

theorem bot_store_returns:
  assumes "world_ok post clock sleep"
  shows "\<exists>bw' r. bot_store post clock sleep d n ct caption bw = Some (bw', r)
     \<and> (case r of Inr x \<Rightarrow> or_backend x = bt_name (fst bw) \<and> or_size x = int (length d)
        | Inl (TelegramError cd ra) \<Rightarrow> \<not> is_rate_limited cd
        | Inl _ \<Rightarrow> True)"
  using flood_loop_returns [OF assms, of "send_method n ct" n d caption "clock (snd bw) + bt_flood_budget (fst bw)" bw]
  unfolding bot_store_def store_outcome_def .

text \<open>A Telegram that answers 429 until second 9 and then accepts.\<close>

definition demo_post :: "(int, nat) post_fn" where
  "demo_post mth fs fl n d w =
     (w + 100, Inr (if w < 9000
        then JObj [(''ok'', JBool False), (''error'', JObj [(''code'', JInt 429), (''parameters'', JObj [(''retry_after'', JInt 4)])])]
        else JObj [(''ok'', JBool True), (''result'', JObj [(''message_id'', JInt 7), (''document'', JObj [(''file_id'', JStr ''F'')])])]))"

definition demo_bot :: bot where
  "demo_bot = \<lparr>bt_name = ''bot'', bt_channel = ''-100'', bt_thread_id = None, bt_send_gap = 1100,
     bt_flood_budget = 2400000, bt_last_send = 0\<rparr>"

definition demo_sleep :: "int \<Rightarrow> int \<Rightarrow> int" where "demo_sleep t w = w + max 0 t"

lemma demo_world_ok: "world_ok demo_post (\<lambda>w. w) demo_sleep"
  by (auto simp: world_ok_def demo_post_def demo_sleep_def tg_parse_def obj_get_def as_obj_def jtruthy_def
      int_of_json_def j_item_def)

lemma bot_store_returns_witness:
  "\<exists>bw' r. bot_store demo_post (\<lambda>w. w) demo_sleep [1, 2] ''0001.bin'' None None (demo_bot, 0) = Some (bw', r)
     \<and> (case r of Inr x \<Rightarrow> or_backend x = bt_name demo_bot \<and> or_size x = int (length [1 :: nat, 2])
        | Inl (TelegramError cd ra) \<Rightarrow> \<not> is_rate_limited cd
        | Inl _ \<Rightarrow> True)"
  using bot_store_returns [OF demo_world_ok, of "[1, 2]" "''0001.bin''" None None "(demo_bot, 0)"]
  by (simp only: fst_conv)

section \<open>Error bodies\<close>

text \<open>Also: the error body the Bot API documents (\<^verbatim>\<open>ok\<close>, \<^verbatim>\<open>error_code\<close>, \<^verbatim>\<open>description\<close> and
  \<^verbatim>\<open>parameters\<close> side by side) is always read as error 500 without a retry_after: the code looks
  for them under a key \<^verbatim>\<open>error\<close>. A permanent refusal is then retried as if it were transient,
  and a 429 is not waited out as asked.\<close>

theorem documented_error_misread:
  "tg_parse (JObj [(''ok'', JBool False), (''error_code'', JInt c), (''description'', JStr t),
                   (''parameters'', JObj [(''retry_after'', JInt s)])]) = Inl (TelegramError 500 None)
   \<and> is_rate_limited 500 \<and> wait_ms None = 3500"
  by (simp add: tg_parse_def obj_get_def as_obj_def jtruthy_def int_of_json_def is_rate_limited_def wait_ms_def)

section \<open>Fetching\<close>

text \<open>The answers of the file CDN, one per attempt; \<open>transient\<close> ones are retried.\<close>

fun transient :: "'b cdn_response \<Rightarrow> bool" where
  "transient Transport_Error = True"
| "transient (Response status ra content) = (status = 429 \<or> 500 \<le> status)"

definition scripted_file :: "string \<Rightarrow> 'b cdn_response list \<Rightarrow> 'b cdn_response list \<times> json res" where
  "scripted_file fid w = (w, Inr (JObj [(''file_path'', JStr (''documents/'' @ fid))]))"

definition scripted_cdn :: "string \<Rightarrow> 'b cdn_response list \<Rightarrow> 'b cdn_response list \<times> 'b cdn_response" where
  "scripted_cdn path w = (case w of [] \<Rightarrow> ([], Transport_Error) | r # w' \<Rightarrow> (w', r))"

lemma open_loop_retries:
  "\<forall>r \<in> set rs. transient r \<Longrightarrow>
     snd (open_loop scripted_file scripted_cdn (\<lambda>_ w. w) fid attempt left (rs @ Response 200 ra c # rest)) =
       (if length rs < left then Inr c else Inl (RuntimeError ''bot_backend.open failed''))"
proof (induction left arbitrary: rs attempt)
  case (Suc left)
  show ?case
  proof (cases rs)
    case Nil
    then show ?thesis by (simp add: scripted_file_def scripted_cdn_def j_item_def as_str_def)
  next
    case (Cons r rs')
    with Suc.prems have "transient r" "\<forall>r \<in> set rs'. transient r" by auto
    with Suc.IH [OF this(2)] Cons show ?thesis
      by (cases r) (auto simp: scripted_file_def scripted_cdn_def j_item_def as_str_def)
  qed
qed simp

text \<open>Also: fetching a blob returns its bytes exactly when the CDN answers with them within
  \<open>max_retries\<close> attempts: transport errors, 429 and 5xx answers are retried, and after that
  many the call fails with a RuntimeError.\<close>

theorem bot_open_retries:
  assumes "\<forall>r \<in> set rs. transient r"
  shows "snd (bot_open scripted_file scripted_cdn (\<lambda>_ w. w) ref max_retries (rs @ Response 200 ra c # rest)) =
     (if length rs < max_retries then Inr c else Inl (RuntimeError ''bot_backend.open failed''))"
  unfolding bot_open_def by (rule open_loop_retries [OF assms])

lemma bot_open_retries_witness:
  "snd (bot_open scripted_file scripted_cdn (\<lambda>_ w. w) (mk_ref ''F'' (Some 7) ''bot'') 5
     [Transport_Error, Response 429 (Some ''2'') [], Response 200 None [1 :: nat]]) = Inr [1]"
  using bot_open_retries [of "[Transport_Error, Response 429 (Some ''2'') []]" "mk_ref ''F'' (Some 7) ''bot''" 5 None "[1 :: nat]" "[]"]
  by simp

end
