(* ===== verification/Pool.thy ===== *)
theory Pool
  imports BotBackend "HOL-Library.Multiset"
begin

text \<open>
  \<^verbatim>\<open>src/src/anbar/storage/bot_pool.py\<close>: the pool of bots that uploads are spread over, with its
  round-robin iterator and the members paused for a flood; and
  \<^verbatim>\<open>src/src/anbar/storage/mtproto_backend.py\<close>: parts of an upload and the healing of a dead
  connection. A backend object is a handle: a member of the pool by its position, or a backend
  outside it by its name.
\<close>

section \<open>Members and names\<close>

datatype handle = Member nat | Outside string

(* src: src/src/anbar/storage/bot_pool.py 30-61 BotPool.__init__ *)
record pool =
  pl_names :: "string list"
  pl_pos :: nat
  pl_flood_until :: "(nat \<times> int) list"
  pl_rr :: nat

(* src: src/src/anbar/storage/bot_pool.py 50-52 BotPool.__init__ *)
definition member_name :: "nat \<Rightarrow> string" where
  "member_name i = (if i = 0 then ''bot'' else ''bot:'' @ str_of_nat i)"

(* src: src/src/anbar/storage/bot_pool.py auto BotPool.__init__ *)
definition pool_init :: "nat \<Rightarrow> pool" where
  "pool_init tokens = \<lparr>pl_names = map member_name [0..<tokens], pl_pos = 0, pl_flood_until = [], pl_rr = 0\<rparr>"

(* src: src/src/anbar/storage/bot_pool.py auto BotPool.size *)
definition pool_size :: "pool \<Rightarrow> nat" where
  "pool_size p = length (pl_names p)"

(* src: src/src/anbar/storage/bot_backend.py 83-93 BotBackend.__init__ *)
definition bot_instance_name :: "string option \<Rightarrow> bool \<Rightarrow> string" where
  "bot_instance_name nm has_instance_named =
     (case nm of Some n \<Rightarrow> n | None \<Rightarrow> if \<not> has_instance_named then ''bot'' else ''bot:1'')"

definition handle_name :: "pool \<Rightarrow> handle \<Rightarrow> string" where
  "handle_name p h = (case h of Member i \<Rightarrow> pl_names p ! i | Outside n \<Rightarrow> n)"

(* src: src/src/anbar/storage/bot_pool.py auto BotPool.by_name *)
definition by_name :: "pool \<Rightarrow> string option \<Rightarrow> handle option" where
  "by_name p nm =
     (if pl_names p = [] then None
      else if \<not> truthy_str nm then Some (Member 0)
      else (case find (\<lambda>i. pl_names p ! i = the nm) [0..<pool_size p] of
              Some i \<Rightarrow> Some (Member i)
            | None \<Rightarrow> Some (Member 0)))"

(* src: src/src/anbar/storage/bot_pool.py auto BotPool.contains *)
definition pool_contains :: "pool \<Rightarrow> handle \<Rightarrow> bool" where
  "pool_contains p h = (case h of Member i \<Rightarrow> i < pool_size p | Outside _ \<Rightarrow> False)"

section \<open>Rotation\<close>

definition FLOOD_TTL :: int where "FLOOD_TTL = 60"

(* src: src/src/anbar/storage/bot_pool.py auto BotPool.mark_flood *)
definition mark_flood :: "int \<Rightarrow> string \<Rightarrow> pool \<Rightarrow> pool" where
  "mark_flood now nm p =
     (case find (\<lambda>i. pl_names p ! i = nm) [0..<pool_size p] of
        None \<Rightarrow> p
      | Some i \<Rightarrow> p\<lparr>pl_flood_until := AList.update i (now + FLOOD_TTL) (pl_flood_until p)\<rparr>)"

definition paused :: "int \<Rightarrow> pool \<Rightarrow> nat \<Rightarrow> bool" where
  "paused now p i = (\<not> (case map_of (pl_flood_until p) i of None \<Rightarrow> 0 | Some t \<Rightarrow> t) \<le> now)"

text \<open>\<^verbatim>\<open>next(self._cycle)\<close>\<close>

definition cycle_next :: "pool \<Rightarrow> nat \<times> pool" where
  "cycle_next p = (pl_pos p mod pool_size p, p\<lparr>pl_pos := pl_pos p + 1\<rparr>)"

(* src: src/src/anbar/storage/bot_pool.py auto BotPool.next *)
definition pool_next :: "int \<Rightarrow> pool \<Rightarrow> pool \<times> handle res" where
  "pool_next now p =
     (if pl_names p = [] then (p, Inl (RuntimeError ''BotPool has no active bot backends''))
      else if pl_flood_until p \<noteq> [] then
        (let healthy = filter (\<lambda>i. \<not> paused now p i) [0..<pool_size p] in
         if healthy \<noteq> [] then
           (p\<lparr>pl_rr := pl_rr p + 1\<rparr>, Inr (Member (healthy ! (pl_rr p mod length healthy))))
         else (p, Inr (Member 0)))
      else (snd (cycle_next p), Inr (Member (fst (cycle_next p)))))"

text \<open>Fetching and storing through the pool use the iterator, whatever is paused.\<close>

(* src: src/src/anbar/storage/bot_pool.py 132-156 BotPool *)
definition pool_pick :: "pool \<Rightarrow> pool \<times> handle res" where
  "pool_pick p =
     (if pl_names p = [] then (p, Inl (RuntimeError ''BotPool has no active bot backends''))
      else (snd (cycle_next p), Inr (Member (fst (cycle_next p)))))"

fun picks :: "int \<Rightarrow> nat \<Rightarrow> pool \<Rightarrow> handle list" where
  "picks now 0 p = []"
| "picks now (Suc n) p =
     (case pool_next now p of
        (p', Inl e) \<Rightarrow> []
      | (p', Inr h) \<Rightarrow> h # picks now n p')"

section \<open>Names resolve to their member\<close>

lemma member_name_inj: "member_name i = member_name j \<Longrightarrow> i = j"
proof -
  assume "member_name i = member_name j"
  then have "i = 0 \<and> j = 0 \<or> str_of_nat i = str_of_nat j"
    by (simp add: member_name_def split: if_splits)
  then show ?thesis using digits_val_str_of_nat by metis
qed

lemma find_upt_unique:
  assumes "i < n" and "P i" and "\<And>j. j < n \<Longrightarrow> P j \<Longrightarrow> j = i"
  shows "find P [0..<n] = Some i"
proof -
  have "[0..<n] ! i = i" using assms(1) by simp
  moreover have "\<not> P ([0..<n] ! j)" if "j < i" for j
    using assms(1) assms(3) [of j] that by auto
  ultimately show ?thesis using assms(1,2) unfolding find_Some_iff by (intro exI [of _ i]) simp
qed

text \<open>Also: the name a chunk's manifest entry records leads back to the very member that stored it,
  for every pool size; a name the pool does not know, or none, leads to the primary.\<close>

theorem by_name_exact:
  assumes "i < n"
  shows "by_name (pool_init n) (Some (handle_name (pool_init n) (Member i))) = Some (Member i)
    \<and> (\<forall>m. m \<notin> member_name ` {..<n} \<longrightarrow> by_name (pool_init n) (Some m) = Some (Member 0))
    \<and> by_name (pool_init n) None = Some (Member 0)"
proof -
  let ?p = "pool_init n"
  have nm: "pl_names ?p ! j = member_name j" if "j < n" for j
    using that by (simp add: pool_init_def)
  have sz: "pool_size ?p = n" and ne: "pl_names ?p \<noteq> []"
    using assms by (auto simp: pool_size_def pool_init_def)
  have "find (\<lambda>j. pl_names ?p ! j = member_name i) [0..<n] = Some i"
    using assms nm by (intro find_upt_unique) (auto dest: member_name_inj)
  then have 1: "by_name ?p (Some (handle_name ?p (Member i))) = Some (Member i)"
    using ne nm [OF assms] by (simp add: by_name_def handle_name_def sz member_name_def)
  have 2: "by_name ?p (Some m) = Some (Member 0)" if "m \<notin> member_name ` {..<n}" for m
  proof -
    have "find (\<lambda>j. pl_names ?p ! j = m) [0..<n] = None"
      using that nm by (auto simp: find_None_iff)
    then show ?thesis using ne by (simp add: by_name_def sz)
  qed
  have "by_name ?p None = Some (Member 0)" using ne by (simp add: by_name_def)
  with 1 2 show ?thesis by blast
qed

lemma by_name_exact_witness:
  "by_name (pool_init 3) (Some (handle_name (pool_init 3) (Member 2))) = Some (Member 2)
    \<and> by_name (pool_init 3) (Some ''mtproto'') = Some (Member 0)"
proof -
  have "''mtproto'' \<notin> member_name ` {..<3}" by (auto simp: member_name_def)
  then show ?thesis using by_name_exact [of 2 3] by simp
qed

section \<open>Rotation is fair and skips paused members\<close>

text \<open>Also: the pool never hands out a paused member while a healthy one is left, and never a
  position outside the pool; a member is paused for the whole penalty after
  \<open>mark_flood\<close> names it.\<close>

theorem pool_next_healthy:
  assumes "0 < n" and "p = fold (\<lambda>(t, m). mark_flood t (member_name m)) marks (pool_init n)"
    and "\<exists>i < n. \<not> paused now p i"
  shows "\<exists>i p'. pool_next now p = (p', Inr (Member i)) \<and> i < n \<and> \<not> paused now p i"
proof -
  have names: "pl_names p = map member_name [0..<n]" unfolding assms(2)
  proof (induction marks rule: rev_induct)
    case (snoc x xs)
    then show ?case by (cases x) (auto simp: mark_flood_def split: option.splits)
  qed (simp add: pool_init_def)
  have sz: "pool_size p = n" by (simp add: pool_size_def names)
  show ?thesis
  proof (cases "pl_flood_until p = []")
    case True
    have "\<not> paused now p i" for i using assms(3) True by (auto simp: paused_def)
    moreover have "pool_next now p = (snd (cycle_next p), Inr (Member (pl_pos p mod n)))"
      using True assms(1) by (simp add: pool_next_def names cycle_next_def sz)
    ultimately show ?thesis using assms(1) by simp
  next
    case False
    let ?h = "filter (\<lambda>i. \<not> paused now p i) [0..<n]"
    have ne: "?h \<noteq> []" using assms(3) by (auto simp: filter_empty_conv)
    then have "?h ! (pl_rr p mod length ?h) \<in> set ?h" by (intro nth_mem) simp
    moreover have "pool_next now p = (p\<lparr>pl_rr := pl_rr p + 1\<rparr>, Inr (Member (?h ! (pl_rr p mod length ?h))))"
      using ne False assms(1) by (simp add: pool_next_def names sz Let_def)
    ultimately show ?thesis by auto
  qed
qed

lemma pool_next_healthy_witness:
  "\<exists>i p'. pool_next 30 (fold (\<lambda>(t, m). mark_flood t (member_name m)) [(0, 0), (10, 2)] (pool_init 3)) = (p', Inr (Member i))
     \<and> i < 3 \<and> \<not> paused 30 (fold (\<lambda>(t, m). mark_flood t (member_name m)) [(0, 0), (10, 2)] (pool_init 3)) i"
proof (rule pool_next_healthy [OF _ refl])
  have "\<not> paused 30 (fold (\<lambda>(t, m). mark_flood t (member_name m)) [(0, 0), (10, 2)] (pool_init 3)) 1"
    by code_simp
  then show "\<exists>i<3. \<not> paused 30 (fold (\<lambda>(t, m). mark_flood t (member_name m)) [(0, 0), (10, 2)] (pool_init 3)) i"
    by (intro exI [of _ 1]) simp
qed simp

lemma picks_cycle:
  "pl_names p \<noteq> [] \<Longrightarrow> pl_flood_until p = [] \<Longrightarrow>
     picks now k p = map (\<lambda>j. Member ((pl_pos p + j) mod pool_size p)) [0..<k]"
proof (induction k arbitrary: p)
  case (Suc k)
  let ?p = "snd (cycle_next p)"
  have "picks now k ?p = map (\<lambda>j. Member ((pl_pos p + 1 + j) mod pool_size p)) [0..<k]"
    using Suc.IH [of ?p] Suc.prems by (simp add: cycle_next_def pool_size_def)
  moreover have "map f [0..<Suc k] = f 0 # map (\<lambda>j. f (Suc j)) [0..<k]" for f :: "nat \<Rightarrow> handle"
    by (rule map_upt_Suc)
  ultimately show ?case
    using Suc.prems by (simp add: pool_next_def cycle_next_def del: upt_Suc)
qed simp

lemma image_mset_mod: "0 < n \<Longrightarrow> mset (map (\<lambda>j. (a + j) mod n) [0..<n]) = mset [0..<(n::nat)]"
proof (induction a)
  case (Suc a)
  have n: "[0..<n] = 0 # map Suc [0..<n - 1]" "[0..<n] = [0..<n - 1] @ [n - 1]"
    using Suc.prems by (simp_all add: map_Suc_upt upt_conv_Cons upt_Suc_append [symmetric] del: upt_Suc)
  have "map (\<lambda>j. (Suc a + j) mod n) [0..<n] = map (\<lambda>j. (a + j) mod n) (map Suc [0..<n - 1] @ [n])"
    using Suc.prems by (subst n(2)) simp
  also have "mset \<dots> = mset (map (\<lambda>j. (a + j) mod n) (0 # map Suc [0..<n - 1]))" by simp
  also have "\<dots> = mset (map (\<lambda>j. (a + j) mod n) [0..<n])" by (subst n(1)) (rule refl)
  finally show ?case using Suc by simp
next
  case 0
  have "map (\<lambda>j. (0 + j) mod n) [0..<n] = [0..<n]" by (rule map_idI) simp
  then show ?case by simp
qed

text \<open>Also: while nothing is paused, any run of as many stores as the pool has members uses each
  member exactly once, wherever the rotation stood.\<close>

theorem pool_round_robin:
  assumes "0 < n"
  shows "mset (picks now n ((pool_init n)\<lparr>pl_pos := pos\<rparr>)) = mset (map Member [0..<n])"
proof -
  have "picks now n ((pool_init n)\<lparr>pl_pos := pos\<rparr>) = map (\<lambda>j. Member ((pos + j) mod n)) [0..<n]"
    using assms by (subst picks_cycle) (simp_all add: pool_init_def pool_size_def)
  also have "\<dots> = map Member (map (\<lambda>j. (pos + j) mod n) [0..<n])" by simp
  finally show ?thesis using image_mset_mod [OF assms, of pos] by (metis mset_map)
qed

lemma pool_round_robin_witness:
  "mset (picks 5 3 ((pool_init 3)\<lparr>pl_pos := 7\<rparr>)) = {#Member 0, Member 1, Member 2#}"
  using pool_round_robin [of 3 5 7] by (simp add: upt_rec)

section \<open>The legacy name\<close>

text \<open>Also: a bot built without a name calls itself \<^verbatim>\<open>bot:1\<close>, also the first one:
  \<^verbatim>\<open>hasattr(self, "_instance_named")\<close> sees the class attribute and is always true, so the
  branch that keeps the name \<^verbatim>\<open>bot\<close> is dead. In a pool that name is the second member's.\<close>

theorem unnamed_bot_is_second:
  "bot_instance_name None True = handle_name (pool_init 2) (Member 1)
   \<and> bot_instance_name None True \<noteq> handle_name (pool_init 2) (Member 0)"
  by code_simp

end
