(* ===== verification/Mtproto.thy ===== *)
theory Mtproto
  imports BotBackend
begin

text \<open>
  \<^verbatim>\<open>src/src/anbar/storage/mtproto_backend.py\<close>: the user-account backend. The Telethon client is
  outside the source: its calls are arguments over a world \<open>'w\<close>, together with the text of an
  exception (\<^verbatim>\<open>str(e)\<close>), which the code inspects. The cut of an upload into parts, the
  reconnection of a dead link and its bound, and the storage operations on top are modelled.
\<close>

section \<open>Connections\<close>

definition exc_text :: "exc \<Rightarrow> string" where
  "exc_text e = (case e of RuntimeError t \<Rightarrow> t | ValueError t \<Rightarrow> t | KeyError t \<Rightarrow> t
     | HTTPException st t \<Rightarrow> t | _ \<Rightarrow> [])"

(* src: src/src/anbar/storage/mtproto_backend.py auto MTProtoBackend._is_dead_link *)
definition is_dead_link :: "exc \<Rightarrow> bool" where
  "is_dead_link e = list_ex (\<lambda>m. contains_str m (lower (exc_text e)))
     [''cannot send requests while disconnected'', ''connection reset by peer'', ''connection closed'',
      ''not connected'', ''brokenpipe'', ''database or disk is full'']"

(* src: src/src/anbar/storage/mtproto_backend.py 46-60 MTProtoBackend.__init__ *)
record 'w mt =
  mt_world :: 'w
  mt_connected :: bool
  mt_export_conns :: int
  mt_pool :: nat

text \<open>\<open>begin_session\<close> stands for the session check, \<^verbatim>\<open>client.start()\<close> and the resolution of the peer.\<close>

(* src: src/src/anbar/storage/mtproto_backend.py auto MTProtoBackend.connect *)
definition mt_connect :: "('w \<Rightarrow> bool) \<Rightarrow> ('w \<Rightarrow> 'w \<times> unit res) \<Rightarrow> ('w \<Rightarrow> 'w \<times> unit res) \<Rightarrow> bool
    \<Rightarrow> 'w mt \<Rightarrow> 'w mt \<times> unit res" where
  "mt_connect has_session client_start resolve peer_me m =
     (if mt_connected m then (m, Inr ())
      else if \<not> has_session (mt_world m) then (m, Inl (RuntimeError ''mtproto: session file not found''))
      else (case client_start (mt_world m) of
              (w, Inl e) \<Rightarrow> (m\<lparr>mt_world := w\<rparr>,
                 Inl (RuntimeError (''mtproto: could not start client ('' @ exc_text e @ '')'')))
            | (w, Inr _) \<Rightarrow>
                if peer_me then (m\<lparr>mt_world := w, mt_connected := True\<rparr>, Inr ())
                else (case resolve w of
                        (w', Inl (ValueError t)) \<Rightarrow> (m\<lparr>mt_world := w'\<rparr>, Inl (RuntimeError ''mtproto: cannot resolve peer''))
                      | (w', Inl e) \<Rightarrow> (m\<lparr>mt_world := w'\<rparr>, Inl e)
                      | (w', Inr _) \<Rightarrow> (m\<lparr>mt_world := w', mt_connected := True\<rparr>, Inr ()))))"

(* src: src/src/anbar/storage/mtproto_backend.py auto MTProtoBackend._reconnect *)
definition mt_reconnect :: "('w mt \<Rightarrow> 'w mt \<times> unit res) \<Rightarrow> ('w \<Rightarrow> 'w) \<Rightarrow> 'w mt \<Rightarrow> 'w mt \<times> unit res" where
  "mt_reconnect connect disconnect m =
     connect (m\<lparr>mt_world := disconnect (mt_world m), mt_connected := False\<rparr>)"

text \<open>One try of the loop: connect if needed, then run the operation. \<open>left\<close> counts the retries
  that remain; an exception of the reconnect itself leaves the loop.\<close>

(* src: src/src/anbar/storage/mtproto_backend.py 225-228 MTProtoBackend._run_healed *)
definition one_try :: "('w mt \<Rightarrow> 'w mt \<times> unit res) \<Rightarrow> ('w \<Rightarrow> 'w \<times> 'a res) \<Rightarrow> 'w mt \<Rightarrow> 'w mt \<times> 'a res" where
  "one_try connect op' m =
     (case (if mt_connected m then (m, Inr ()) else connect m) of
        (m1, Inl e) \<Rightarrow> (m1, Inl e)
      | (m1, Inr _) \<Rightarrow> (case op' (mt_world m1) of (w, r) \<Rightarrow> (m1\<lparr>mt_world := w\<rparr>, r)))"

(* src: src/src/anbar/storage/mtproto_backend.py auto MTProtoBackend._run_healed *)
fun run_healed :: "('w mt \<Rightarrow> 'w mt \<times> unit res) \<Rightarrow> ('w \<Rightarrow> 'w) \<Rightarrow> ('w \<Rightarrow> 'w \<times> 'a res) \<Rightarrow> nat
    \<Rightarrow> 'w mt \<Rightarrow> 'w mt \<times> 'a res" where
  "run_healed connect disconnect op' 0 m = one_try connect op' m"
| "run_healed connect disconnect op' (Suc left) m =
     (case one_try connect op' m of
        (m1, Inl e) \<Rightarrow>
          if is_dead_link e then
            (case mt_reconnect connect disconnect m1 of
               (m2, Inl e') \<Rightarrow> (m2, Inl e')
             | (m2, Inr _) \<Rightarrow> run_healed connect disconnect op' left m2)
          else (m1, Inl e)
      | (m1, Inr x) \<Rightarrow> (m1, Inr x))"

section \<open>Uploads\<close>

(* src: src/src/anbar/storage/mtproto_backend.py 24-24 _UPLOAD_PART_BYTES *)
definition UPLOAD_PART_BYTES :: nat where "UPLOAD_PART_BYTES = 524288"

(* src: src/src/anbar/storage/mtproto_backend.py 147-148 MTProtoBackend._upload_parallel *)
definition part_count :: "nat \<Rightarrow> nat \<Rightarrow> nat" where
  "part_count part n = max 1 ((n + part - 1) div part)"

text \<open>The parts in index order; they are sent concurrently, each with its index.\<close>

(* src: src/src/anbar/storage/mtproto_backend.py auto MTProtoBackend._upload_parallel *)
definition upload_parts :: "nat \<Rightarrow> 'b list \<Rightarrow> (nat \<times> 'b list) list" where
  "upload_parts part data =
     map (\<lambda>i. (i, take ((i + 1) * part - i * part) (drop (i * part) data))) [0..<part_count part (length data)]"

(* src: src/src/anbar/storage/mtproto_backend.py auto MTProtoBackend.store *)
definition mt_store :: "('w mt \<Rightarrow> 'w mt \<times> unit res) \<Rightarrow> ('w \<Rightarrow> 'w) \<Rightarrow> ((nat \<times> 'b list) list \<Rightarrow> string \<Rightarrow> 'w \<Rightarrow> 'w \<times> 'h res)
    \<Rightarrow> ('h \<Rightarrow> string \<Rightarrow> string option \<Rightarrow> 'w \<Rightarrow> 'w \<times> (int \<times> int option) res) \<Rightarrow> 'b list \<Rightarrow> string \<Rightarrow> string option
    \<Rightarrow> 'w mt \<Rightarrow> 'w mt \<times> object_ref res" where
  "mt_store connect disconnect save_parts send_file data n caption m =
     (case run_healed connect disconnect (save_parts (upload_parts UPLOAD_PART_BYTES data) n) 2 m of
        (m1, Inl e) \<Rightarrow> (m1, Inl e)
      | (m1, Inr handle) \<Rightarrow>
          (case run_healed connect disconnect (send_file handle n caption) 2 m1 of
             (m2, Inl e) \<Rightarrow> (m2, Inl e)
           | (m2, Inr (mid, None)) \<Rightarrow> (m2, Inl (RuntimeError ''mtproto: message has no document''))
           | (m2, Inr (mid, Some doc)) \<Rightarrow>
               (m2, Inr \<lparr>or_file_id = str_of_int doc, or_backend = ''mtproto'', or_size = int (length data),
                         or_name = n, or_message_id = Some mid\<rparr>)))"

text \<open>\<open>get_message\<close> is the message's document as the pieces \<^verbatim>\<open>iter_download\<close> yields, if it has one.\<close>

(* src: src/src/anbar/storage/mtproto_backend.py auto MTProtoBackend.open *)
definition mt_open :: "('w mt \<Rightarrow> 'w mt \<times> unit res) \<Rightarrow> ('w \<Rightarrow> 'w) \<Rightarrow> (int \<Rightarrow> 'w \<Rightarrow> 'w \<times> 'b list list option res)
    \<Rightarrow> object_ref \<Rightarrow> 'w mt \<Rightarrow> 'w mt \<times> 'b list res" where
  "mt_open connect disconnect get_message r m =
     (case or_message_id r of
        None \<Rightarrow> (m, Inl (RuntimeError ''mtproto ref without message_id''))
      | Some mid \<Rightarrow>
          run_healed connect disconnect
            (\<lambda>w. case get_message mid w of
                    (w', Inl e) \<Rightarrow> (w', Inl e)
                  | (w', Inr None) \<Rightarrow> (w', Inl FileNotFoundError)
                  | (w', Inr (Some pieces)) \<Rightarrow> (w', Inr (concat pieces))) 2 m)"

(* src: src/src/anbar/storage/mtproto_backend.py auto MTProtoBackend.delete *)
definition mt_delete :: "(int \<Rightarrow> 'w \<Rightarrow> 'w \<times> unit res) \<Rightarrow> object_ref \<Rightarrow> 'w mt \<Rightarrow> 'w mt \<times> bool" where
  "mt_delete delete_messages r m =
     (case or_message_id r of
        None \<Rightarrow> (m, False)
      | Some mid \<Rightarrow> (case delete_messages mid (mt_world m) of (w, x) \<Rightarrow> (m\<lparr>mt_world := w\<rparr>, \<not> isl x)))"

(* src: src/src/anbar/storage/mtproto_backend.py auto MTProtoBackend.set_export_conns *)
definition set_export_conns :: "int \<Rightarrow> 'w mt \<Rightarrow> 'w mt" where
  "set_export_conns n m =
     (let n = max 0 (min 8 n); m = m\<lparr>mt_export_conns := n\<rparr> in
      if n = 0 then m\<lparr>mt_pool := 0\<rparr> else m)"

section \<open>The parts make up the data\<close>

lemma slices_concat:
  "concat (map (\<lambda>i. take part (drop (i * part) data)) [0..<k]) = take (k * part) data"
proof (induction k)
  case (Suc k)
  have "take (Suc k * part) data = take (k * part) data @ take part (drop (k * part) data)"
    by (metis mult_Suc add.commute take_add)
  then show ?case using Suc by (simp del: mult_Suc)
qed simp

text \<open>Also: the parts of an upload, in index order, are exactly the data; each holds at most the
  part size, all but the last hold exactly that, and their indices are \<open>0..<n\<close>.\<close>

theorem upload_parts_exact:
  assumes "0 < part"
  shows "concat (map snd (upload_parts part data)) = data
    \<and> map fst (upload_parts part data) = [0..<length (upload_parts part data)]
    \<and> (\<forall>(i, p) \<in> set (upload_parts part data). length p \<le> part
         \<and> (Suc i < length (upload_parts part data) \<longrightarrow> length p = part))"
proof -
  let ?k = "part_count part (length data)"
  have sl: "(i + 1) * part - i * part = part" for i by simp
  have up: "upload_parts part data = map (\<lambda>i. (i, take part (drop (i * part) data))) [0..<?k]"
    unfolding upload_parts_def sl by (rule refl)
  have enough: "length data \<le> ?k * part"
  proof (cases "data = []")
    case False
    let ?x = "length data + part - 1"
    have "?x < (?x div part) * part + part"
      using assms by (metis div_mult_mod_eq mod_less_divisor nat_add_left_cancel_less)
    then have "length data \<le> (?x div part) * part" using assms by linarith
    also have "\<dots> \<le> ?k * part" unfolding part_count_def by (rule mult_le_mono1) simp
    finally show ?thesis .
  qed simp
  have full: "length (take part (drop (i * part) data)) = part" if "Suc i < ?k" for i
  proof -
    have "Suc i \<le> (length data + part - 1) div part - 1" using that by (simp add: part_count_def)
    moreover have "(length data + part - 1) div part - 1 \<le> length data div part"
    proof -
      have "(length data + part - 1) div part \<le> (length data + part) div part"
        by (intro div_le_mono) simp
      also have "\<dots> = length data div part + 1" using assms by (simp add: div_add_self2)
      finally show ?thesis by simp
    qed
    ultimately have "Suc i * part \<le> length data"
      using assms by (metis div_times_less_eq_dividend le_trans mult_le_mono1)
    then show ?thesis by simp
  qed
  have "concat (map snd (upload_parts part data)) = take (?k * part) data"
    unfolding up by (simp add: slices_concat comp_def)
  moreover have "map fst (upload_parts part data) = [0..<length (upload_parts part data)]"
    unfolding up by (simp add: comp_def)
  ultimately show ?thesis using enough full by (auto simp: up)
qed

lemma upload_parts_exact_witness:
  "concat (map snd (upload_parts 2 [1 :: nat, 2, 3])) = [1, 2, 3] \<and> length (upload_parts 2 [1 :: nat, 2, 3]) = 2"
  using upload_parts_exact [of 2 "[1 :: nat, 2, 3]"] by (simp add: upload_parts_def part_count_def)

section \<open>Healing\<close>

text \<open>A link whose operation gives the results of a script, one per call.\<close>

definition script_op :: "'a res list \<Rightarrow> 'a res list \<times> 'a res" where
  "script_op w = (case w of [] \<Rightarrow> ([], Inl IndexError) | r # w' \<Rightarrow> (w', r))"

definition script_connect :: "'a res list mt \<Rightarrow> 'a res list mt \<times> unit res" where
  "script_connect = mt_connect (\<lambda>_. True) (\<lambda>w. (w, Inr ())) (\<lambda>w. (w, Inr ())) True"

lemma script_connect_connected:
  "script_connect m = (m\<lparr>mt_connected := True\<rparr>, Inr ())"
  by (cases "mt_connected m") (simp_all add: script_connect_def mt_connect_def)

lemma run_healed_script:
  "\<forall>e \<in> set es. is_dead_link e \<Longrightarrow> (\<And>e. r = Inl e \<Longrightarrow> \<not> is_dead_link e) \<Longrightarrow> mt_world m = map Inl es @ r # rest \<Longrightarrow>
     run_healed script_connect (\<lambda>w. w) script_op left m =
       (if length es \<le> left then (m\<lparr>mt_world := rest, mt_connected := True\<rparr>, r)
        else (m\<lparr>mt_world := drop (Suc left) (mt_world m), mt_connected := True\<rparr>, Inl (es ! left)))"
proof (induction left arbitrary: es m)
  case 0
  then show ?case
    by (cases es) (auto simp: one_try_def script_op_def script_connect_connected)
next
  case (Suc left)
  show ?case
  proof (cases es)
    case Nil
    then show ?thesis using Suc.prems
      by (cases r) (auto simp: one_try_def script_op_def script_connect_connected)
  next
    case (Cons e es')
    let ?m = "m\<lparr>mt_world := map Inl es' @ r # rest, mt_connected := True\<rparr>"
    have "run_healed script_connect (\<lambda>w. w) script_op (Suc left) m = run_healed script_connect (\<lambda>w. w) script_op left ?m"
      using Suc.prems Cons
      by (auto simp: one_try_def script_op_def script_connect_connected mt_reconnect_def)
    with Suc.IH [of es' ?m] Suc.prems Cons show ?thesis by auto
  qed
qed

text \<open>Also: an operation on a dead link is retried after a reconnect, at most twice: if the link
  dies \<open>n\<close> times in a row before the operation comes through (or is refused for another reason),
  its result is returned when \<open>n \<le> 2\<close>, and the third death is raised otherwise.\<close>

theorem healing_bounded:
  assumes "\<forall>e \<in> set es. is_dead_link e" and "\<And>e. r = Inl e \<Longrightarrow> \<not> is_dead_link e"
  shows "snd (run_healed script_connect (\<lambda>w. w) script_op 2
           \<lparr>mt_world = map Inl es @ r # rest, mt_connected = c, mt_export_conns = x, mt_pool = p\<rparr>) =
     (if length es \<le> 2 then r else Inl (es ! 2))"
  by (subst run_healed_script [OF assms, where rest = rest]) auto

lemma healing_bounded_witness:
  "snd (run_healed script_connect (\<lambda>w. w) script_op 2
           \<lparr>mt_world = map Inl [RuntimeError ''Connection reset by peer''] @ Inr (5 :: nat) # [], mt_connected = True,
            mt_export_conns = 0, mt_pool = 0\<rparr>) = Inr 5"
proof -
  have "is_dead_link (RuntimeError ''Connection reset by peer'')" by code_simp
  then show ?thesis
    using healing_bounded [of "[RuntimeError ''Connection reset by peer'']" "Inr (5 :: nat)" "[]" True 0 0] by simp
qed

end
