(* ===== verification/Jobs.thy ===== *)
theory Jobs
  imports Sql PyJson "HOL-Library.List_Lexorder" "HOL-Library.Char_ord" "HOL-Library.Product_Lexorder"
    "HOL-Library.AList"
begin

text \<open>
  \<^verbatim>\<open>src/src/anbar/jobstore.py\<close> and \<^verbatim>\<open>src/src/anbar/jobqueue.py\<close>: the jobs table and the queue that
  runs its rows under a cap per kind. A task that runs a handler is a member of \<open>q_tasks\<close>; the
  end of its handler is an outcome, and what the handler itself does to the queue (progress,
  finish) are steps of their own, so that every interleaving of the event loop is a run of the
  step relation \<open>jstep\<close>.
\<close>

section \<open>The jobs table\<close>

(* src: src/src/anbar/jobstore.py 27-46 JobStore.ensure_table *)
record job =
  j_id :: string
  j_kind :: string
  j_payload :: "string option"
  j_state :: string
  j_progress :: int
  j_total :: int
  j_error :: "string option"
  j_result :: "string option"
  j_created_at :: int
  j_started_at :: "int option"
  j_finished_at :: "int option"

text \<open>\<^verbatim>\<open>INSERT OR REPLACE\<close> deletes the row with that key first.\<close>

(* src: src/src/anbar/jobstore.py auto JobStore.submit *)
definition js_submit :: "time \<Rightarrow> string \<Rightarrow> string \<Rightarrow> json \<Rightarrow> job list \<Rightarrow> job list" where
  "js_submit now i kind payload rows =
     del_where (\<lambda>r. j_id r = i) rows
     @ [\<lparr>j_id = i, j_kind = kind, j_payload = Some (dumps payload), j_state = ''queued'', j_progress = 0,
         j_total = 0, j_error = None, j_result = None, j_created_at = now, j_started_at = None,
         j_finished_at = None\<rparr>]"

definition job_order :: "job \<Rightarrow> int \<times> string" where
  "job_order r = (j_created_at r, j_id r)"

definition queued_of :: "string \<Rightarrow> job \<Rightarrow> bool" where
  "queued_of kind r = (j_kind r = kind \<and> j_state r = ''queued'')"

(* src: src/src/anbar/jobstore.py auto JobStore.next_queued *)
definition js_next_queued :: "string \<Rightarrow> job list \<Rightarrow> (string \<times> string option) option" where
  "js_next_queued kind rows =
     (case sort_key job_order (filter (queued_of kind) rows) of
        [] \<Rightarrow> None
      | r # _ \<Rightarrow> Some (j_id r, j_payload r))"

(* src: src/src/anbar/jobstore.py auto JobStore.mark_running *)
definition js_mark_running :: "time \<Rightarrow> string \<Rightarrow> job list \<Rightarrow> job list" where
  "js_mark_running now i rows =
     upd_where (\<lambda>r. j_id r = i) (\<lambda>r. r\<lparr>j_state := ''running'', j_started_at := Some now\<rparr>) rows"

(* src: src/src/anbar/jobstore.py 80-84 JobStore.update_progress *)
definition js_set_progress :: "string \<Rightarrow> int \<Rightarrow> int \<Rightarrow> job list \<Rightarrow> job list" where
  "js_set_progress i n t rows =
     upd_where (\<lambda>r. j_id r = i) (\<lambda>r. r\<lparr>j_progress := n, j_total := t\<rparr>) rows"

(* src: src/src/anbar/jobstore.py auto JobStore.finish *)
definition js_finish :: "time \<Rightarrow> string \<Rightarrow> string \<Rightarrow> json option \<Rightarrow> string option \<Rightarrow> job list \<Rightarrow> job list" where
  "js_finish now i st result err rows =
     upd_where (\<lambda>r. j_id r = i)
       (\<lambda>r. r\<lparr>j_state := st, j_error := err, j_result := map_option dumps_uni result, j_finished_at := Some now\<rparr>)
       rows"

(* src: src/src/anbar/jobstore.py auto JobStore.get *)
definition js_get :: "string \<Rightarrow> job list \<Rightarrow> (job \<times> json option) option" where
  "js_get i rows =
     map_option (\<lambda>r. (r, if truthy_str (j_result r)
         then (case loads (the (j_result r)) of Some v \<Rightarrow> Some v | None \<Rightarrow> map_option JStr (j_result r))
         else map_option JStr (j_result r)))
       (find (\<lambda>r. j_id r = i) rows)"

(* src: src/src/anbar/jobstore.py auto JobStore.list *)
definition js_list :: "string option \<Rightarrow> string option \<Rightarrow> int \<Rightarrow> job list \<Rightarrow> job list" where
  "js_list st kind lim rows =
     take (nat (max 1 (min lim 200)))
       (rev (sort_key job_order
          (filter (\<lambda>r. (truthy_str st \<longrightarrow> j_state r = the st) \<and> (truthy_str kind \<longrightarrow> j_kind r = the kind)) rows)))"

(* src: src/src/anbar/jobstore.py auto JobStore.delete *)
definition js_delete :: "string \<Rightarrow> job list \<Rightarrow> job list \<times> nat" where
  "js_delete i rows = (del_where (\<lambda>r. j_id r = i) rows, count_where (\<lambda>r. j_id r = i) rows)"

definition terminal :: "string \<Rightarrow> bool" where
  "terminal st = (st \<in> {''done'', ''error'', ''interrupted'', ''cancelled''})"

definition prunable :: "time \<Rightarrow> job \<Rightarrow> bool" where
  "prunable cutoff r = (terminal (j_state r) \<and> (case j_finished_at r of None \<Rightarrow> False | Some t \<Rightarrow> t < cutoff))"

(* src: src/src/anbar/jobstore.py auto JobStore.prune *)
definition js_prune :: "time \<Rightarrow> job list \<Rightarrow> job list \<times> nat" where
  "js_prune cutoff rows = (del_where (prunable cutoff) rows, count_where (prunable cutoff) rows)"

definition in_flight :: "job \<Rightarrow> bool" where
  "in_flight r = (j_state r \<in> {''queued'', ''running''})"

(* src: src/src/anbar/jobstore.py auto JobStore.mark_interrupted_on_boot *)
definition js_mark_interrupted :: "time \<Rightarrow> job list \<Rightarrow> job list \<times> nat" where
  "js_mark_interrupted now rows =
     (upd_where in_flight (\<lambda>r. r\<lparr>j_state := ''interrupted'', j_finished_at := Some now,
        j_error := Some ''server restarted while this job was in flight''\<rparr>) rows,
      count_where in_flight rows)"

(* src: src/src/anbar/jobstore.py auto JobStore.stats *)
definition js_stats :: "job list \<Rightarrow> (string \<times> nat) list" where
  "js_stats rows =
     map (\<lambda>st. (st, count_where (\<lambda>r. j_state r = st) rows)) (sort (remdups (map j_state rows)))"

section \<open>The queue\<close>

(* src: src/src/anbar/jobqueue.py 41-45 KIND_CONCURRENCY *)
definition KIND_CONCURRENCY :: "(string \<times> nat) list" where
  "KIND_CONCURRENCY = [(''ingest_url'', 2), (''backup_now'', 1), (''channel_rebuild'', 1)]"

definition cap :: "string \<Rightarrow> nat" where
  "cap kind = (case map_of KIND_CONCURRENCY kind of None \<Rightarrow> 0 | Some n \<Rightarrow> n)"

(* src: src/src/anbar/jobqueue.py 48-48 JOB_TTL_S *)
definition JOB_TTL_S :: int where "JOB_TTL_S = 3600"

(* src: src/src/anbar/jobqueue.py auto JobQueue.__init__ *)
record jobq =
  q_rows :: "job list"
  q_handlers :: "string list"
  q_running :: "string \<Rightarrow> nat"
  q_tasks :: "(string \<times> string \<times> string option) list"
  q_stopped :: bool

definition jq_init :: "job list \<Rightarrow> jobq" where
  "jq_init rows = \<lparr>q_rows = rows, q_handlers = [], q_running = (\<lambda>_. 0), q_tasks = [], q_stopped = False\<rparr>"

definition start_task :: "time \<Rightarrow> string \<Rightarrow> string \<Rightarrow> string option \<Rightarrow> jobq \<Rightarrow> jobq" where
  "start_task now kind i payload q =
     q\<lparr>q_running := (q_running q)(kind := q_running q kind + 1),
       q_rows := js_mark_running now i (q_rows q),
       q_tasks := q_tasks q @ [(kind, i, payload)]\<rparr>"

(* src: src/src/anbar/jobqueue.py auto JobQueue._wake *)
function jq_wake :: "time \<Rightarrow> string \<Rightarrow> jobq \<Rightarrow> jobq" where
  "jq_wake now kind q =
     (if q_stopped q then q
      else if q_running q kind < cap kind then
        (case js_next_queued kind (q_rows q) of
           None \<Rightarrow> q
         | Some (i, payload) \<Rightarrow> jq_wake now kind (start_task now kind i payload q))
      else q)"
  by pat_completeness auto
termination
  by (relation "measure (\<lambda>(now, kind, q). cap kind - q_running q kind)") (auto simp: start_task_def)

declare jq_wake.simps [simp del]

(* src: src/src/anbar/jobqueue.py auto JobQueue.submit *)
definition jq_submit :: "time \<Rightarrow> string \<Rightarrow> string \<Rightarrow> json \<Rightarrow> bool \<Rightarrow> jobq \<Rightarrow> jobq \<times> string res" where
  "jq_submit now kind i payload has_handler q =
     (if kind \<notin> fst ` set KIND_CONCURRENCY then (q, Inl (ValueError ''unknown job kind''))
      else let q = q\<lparr>q_rows := js_submit now i kind payload (q_rows q)\<rparr>;
               q = (if has_handler then q\<lparr>q_handlers := List.insert kind (q_handlers q)\<rparr> else q)
           in (jq_wake now kind q, Inr i))"

(* src: src/src/anbar/jobqueue.py auto JobQueue.finish *)
definition jq_finish :: "time \<Rightarrow> string \<Rightarrow> json option \<Rightarrow> string option \<Rightarrow> jobq \<Rightarrow> jobq" where
  "jq_finish now i result err q =
     q\<lparr>q_rows := js_finish now i (if truthy_str err then ''error'' else ''done'') result err (q_rows q)\<rparr>"

definition jq_state :: "jobq \<Rightarrow> string \<Rightarrow> string option" where
  "jq_state q i = map_option j_state (find (\<lambda>r. j_id r = i) (q_rows q))"

text \<open>How a handler ends.\<close>

datatype outcome = Returned | Raised string | Cancelled

text \<open>\<open>json_error\<close> is the text of the decoding error.\<close>

(* src: src/src/anbar/jobqueue.py 106-131 JobQueue._run_one *)
definition close_row :: "time \<Rightarrow> string \<Rightarrow> string \<Rightarrow> string \<Rightarrow> string option \<Rightarrow> outcome \<Rightarrow> jobq \<Rightarrow> jobq" where
  "close_row now json_error kind i payload_raw oc q =
     (case loads (str_or payload_raw ''{}'') of
        None \<Rightarrow> jq_finish now i None (Some json_error) q
      | Some payload \<Rightarrow>
          if kind \<notin> set (q_handlers q) then
            jq_finish now i None (Some (''no handler registered for job kind '' @ kind)) q
          else (case oc of
             Returned \<Rightarrow>
               if jq_state q i = Some ''running'' then jq_finish now i (Some (JObj [(''ok'', JBool True)])) None q
               else q
           | Raised e \<Rightarrow> jq_finish now i None (Some e) q
           | Cancelled \<Rightarrow>
               if jq_state q i \<in> {Some ''queued'', Some ''running''}
               then jq_finish now i None (Some ''server shutting down'') q else q))"

(* src: src/src/anbar/jobqueue.py auto JobQueue._run_one *)
definition jq_run_one :: "time \<Rightarrow> string \<Rightarrow> string \<times> string \<times> string option \<Rightarrow> outcome \<Rightarrow> jobq \<Rightarrow> jobq" where
  "jq_run_one now json_error t oc q =
     (case t of (kind, i, payload) \<Rightarrow>
        let q = close_row now json_error kind i payload oc q;
            q = q\<lparr>q_running := (q_running q)(kind := q_running q kind - 1), q_tasks := remove1 t (q_tasks q)\<rparr>
        in jq_wake now kind q)"

(* src: src/src/anbar/jobqueue.py auto JobQueue.set_progress *)
definition jq_set_progress :: "string \<Rightarrow> int \<Rightarrow> int \<Rightarrow> jobq \<Rightarrow> jobq" where
  "jq_set_progress i n t q = q\<lparr>q_rows := js_set_progress i n t (q_rows q)\<rparr>"

(* src: src/src/anbar/jobqueue.py auto JobQueue.cancel *)
definition jq_cancel :: "time \<Rightarrow> string \<Rightarrow> jobq \<Rightarrow> jobq \<times> bool" where
  "jq_cancel now i q =
     (if jq_state q i = Some ''queued'' then (jq_finish now i None (Some ''cancelled'') q, True) else (q, False))"

(* src: src/src/anbar/jobqueue.py auto JobQueue.delete *)
definition jq_delete :: "string \<Rightarrow> jobq \<Rightarrow> jobq \<times> bool" where
  "jq_delete i q =
     (if (case jq_state q i of None \<Rightarrow> False | Some st \<Rightarrow> terminal st)
      then (q\<lparr>q_rows := fst (js_delete i (q_rows q))\<rparr>, snd (js_delete i (q_rows q)) > 0) else (q, False))"

(* src: src/src/anbar/jobqueue.py auto JobQueue.prune *)
definition jq_prune :: "time \<Rightarrow> jobq \<Rightarrow> jobq \<times> nat" where
  "jq_prune now q = (q\<lparr>q_rows := fst (js_prune (now - JOB_TTL_S) (q_rows q))\<rparr>, snd (js_prune (now - JOB_TTL_S) (q_rows q)))"

(* src: src/src/anbar/jobqueue.py auto JobQueue.mark_interrupted_on_boot *)
definition jq_boot :: "time \<Rightarrow> job list \<Rightarrow> jobq" where
  "jq_boot now rows = jq_init (fst (js_mark_interrupted now rows))"

text \<open>\<^verbatim>\<open>stop\<close> cancels the tasks; each then ends by itself with \<open>Cancelled\<close>.\<close>

(* src: src/src/anbar/jobqueue.py auto JobQueue.stop *)
definition jq_stop :: "jobq \<Rightarrow> jobq" where
  "jq_stop q = q\<lparr>q_stopped := True\<rparr>"

section \<open>Runs\<close>

inductive jstep :: "jobq \<Rightarrow> jobq \<Rightarrow> bool" where
  submit: "jstep q (fst (jq_submit now kind i payload has_handler q))"
| task_end: "t \<in> set (q_tasks q) \<Longrightarrow> jstep q (jq_run_one now json_error t oc q)"
| progress: "jstep q (jq_set_progress i n tot q)"
| finish: "jstep q (jq_finish now i result err q)"
| cancel: "jstep q (fst (jq_cancel now i q))"
| delete: "jstep q (fst (jq_delete i q))"
| prune: "jstep q (fst (jq_prune now q))"
| stop: "jstep q (jq_stop q)"

inductive reachable :: "jobq \<Rightarrow> bool" where
  boot: "distinct (map j_id rows) \<Longrightarrow> reachable (jq_boot now rows)"
| step: "reachable q \<Longrightarrow> jstep q q' \<Longrightarrow> reachable q'"

inductive_cases jstepE: "jstep q q'"

section \<open>The queue's invariant\<close>

definition has_queued :: "string \<Rightarrow> job list \<Rightarrow> bool" where
  "has_queued k rows = (\<exists>r \<in> set rows. queued_of k r)"

definition tasks_of :: "string \<Rightarrow> jobq \<Rightarrow> nat" where
  "tasks_of k q = length (filter (\<lambda>t. fst t = k) (q_tasks q))"

definition counts_ok :: "jobq \<Rightarrow> bool" where
  "counts_ok q = ((\<forall>k. q_running q k = tasks_of k q) \<and> (\<forall>k. tasks_of k q \<le> cap k)
     \<and> distinct (map j_id (q_rows q)))"

definition busy :: "jobq \<Rightarrow> string \<Rightarrow> bool" where
  "busy q k = (q_stopped q \<or> (has_queued k (q_rows q) \<longrightarrow> cap k \<le> q_running q k))"

lemma ids_upd [simp]:
  "(\<And>r. j_id (f r) = j_id r) \<Longrightarrow> map j_id (upd_where P f rows) = map j_id rows"
  by (simp add: upd_where_def)

lemma has_queued_upd:
  "(\<And>r. queued_of k (f r) \<Longrightarrow> queued_of k r) \<Longrightarrow> has_queued k (upd_where P f rows) \<Longrightarrow> has_queued k rows"
  by (auto simp: has_queued_def upd_where_def split: if_splits)

lemma has_queued_subset: "set rows \<subseteq> set rows' \<Longrightarrow> has_queued k rows \<Longrightarrow> has_queued k rows'"
  by (auto simp: has_queued_def)

lemma next_queued_None: "js_next_queued k rows = None \<longleftrightarrow> \<not> has_queued k rows"
proof -
  have "js_next_queued k rows = None \<longleftrightarrow> sort_key job_order (filter (queued_of k) rows) = []"
    by (auto simp: js_next_queued_def split: list.splits)
  also have "\<dots> \<longleftrightarrow> filter (queued_of k) rows = []"
    by (metis set_empty set_sort)
  also have "\<dots> \<longleftrightarrow> \<not> has_queued k rows"
    by (auto simp: filter_empty_conv has_queued_def)
  finally show ?thesis .
qed

lemma next_queued_Some:
  assumes "js_next_queued k rows = Some (i, p)"
  shows "\<exists>r \<in> set rows. queued_of k r \<and> j_id r = i \<and> j_payload r = p
     \<and> (\<forall>r' \<in> set rows. queued_of k r' \<longrightarrow> job_order r \<le> job_order r')"
proof -
  from assms obtain r rs where s: "sort_key job_order (filter (queued_of k) rows) = r # rs"
    and r: "j_id r = i" "j_payload r = p"
    by (auto simp: js_next_queued_def split: list.splits)
  have st: "set (r # rs) = set (filter (queued_of k) rows)" using s by (metis set_sort)
  have "sorted (map job_order (r # rs))" using s by (metis sorted_sort_key)
  then have "\<forall>x \<in> set (r # rs). job_order r \<le> job_order x" by auto
  with st r show ?thesis by auto
qed

lemma start_task_counts:
  assumes "counts_ok q" and "q_running q kind < cap kind"
  shows "counts_ok (start_task now kind i p q)"
  using assms by (auto simp: counts_ok_def start_task_def tasks_of_def js_mark_running_def)

lemma start_task_busy: "busy q k \<Longrightarrow> busy (start_task now kind i p q) k"
  using has_queued_upd [of k "\<lambda>r. r\<lparr>j_state := ''running'', j_started_at := Some now\<rparr>" "\<lambda>r. j_id r = i" "q_rows q"]
  by (auto simp: busy_def start_task_def js_mark_running_def queued_of_def)

lemma wake_ok:
  "counts_ok q \<Longrightarrow> counts_ok (jq_wake now kind q) \<and> busy (jq_wake now kind q) kind
     \<and> (\<forall>k. busy q k \<longrightarrow> busy (jq_wake now kind q) k)"
proof (induction now kind q rule: jq_wake.induct)
  case (1 now kind q)
  consider (stop) "q_stopped q" | (full) "\<not> q_stopped q" "\<not> q_running q kind < cap kind"
    | (empty) "\<not> q_stopped q" "q_running q kind < cap kind" "js_next_queued kind (q_rows q) = None"
    | (start) i p where "\<not> q_stopped q" "q_running q kind < cap kind"
        "js_next_queued kind (q_rows q) = Some (i, p)"
    by (cases "js_next_queued kind (q_rows q)") auto
  then show ?case
  proof cases
    case stop
    then have "jq_wake now kind q = q" by (subst jq_wake.simps) simp
    with 1(2) stop show ?thesis by (simp add: busy_def)
  next
    case full
    then have "jq_wake now kind q = q" by (subst jq_wake.simps) simp
    with 1(2) full show ?thesis by (simp add: busy_def)
  next
    case empty
    then have "jq_wake now kind q = q" by (subst jq_wake.simps) simp
    moreover from empty(3) have "busy q kind" by (simp add: busy_def next_queued_None)
    ultimately show ?thesis using 1(2) by simp
  next
    case start
    from 1(2) start have c: "counts_ok (start_task now kind i p q)" by (intro start_task_counts)
    have e: "jq_wake now kind q = jq_wake now kind (start_task now kind i p q)"
      using start by (subst jq_wake.simps) simp
    from 1(1) [OF start(1,2,3) refl c] show ?thesis
      unfolding e using start_task_busy by blast
  qed
qed

lemma tasks_of_fields [simp]:
  "tasks_of k (q\<lparr>q_rows := rows\<rparr>) = tasks_of k q" "tasks_of k (q\<lparr>q_handlers := hs\<rparr>) = tasks_of k q"
  "tasks_of k (q\<lparr>q_stopped := b\<rparr>) = tasks_of k q" "tasks_of k (q\<lparr>q_running := rn\<rparr>) = tasks_of k q"
  by (simp_all add: tasks_of_def)

definition jq_ok :: "jobq \<Rightarrow> bool" where
  "jq_ok q = (counts_ok q \<and> (\<forall>k. busy q k))"

lemma jq_ok_wake: "counts_ok q \<Longrightarrow> (\<And>k. k \<noteq> kind \<Longrightarrow> busy q k) \<Longrightarrow> jq_ok (jq_wake now kind q)"
  unfolding jq_ok_def using wake_ok by metis

text \<open>Steps that only rewrite rows keep the invariant if they queue nothing.\<close>

lemma jq_ok_rows:
  assumes "jq_ok q" and "distinct (map j_id rows)" and "\<And>k. has_queued k rows \<Longrightarrow> has_queued k (q_rows q)"
  shows "jq_ok (q\<lparr>q_rows := rows\<rparr>)"
proof -
  have "busy (q\<lparr>q_rows := rows\<rparr>) k" for k using assms(1) assms(3) [of k] by (auto simp: jq_ok_def busy_def)
  then show ?thesis using assms(1,2) by (simp add: jq_ok_def counts_ok_def)
qed

lemma jq_ok_distinct: "jq_ok q \<Longrightarrow> distinct (map j_id (q_rows q))"
  by (simp add: jq_ok_def counts_ok_def)

lemma has_queued_del: "has_queued k (del_where P rows) \<Longrightarrow> has_queued k rows"
  by (auto simp: has_queued_def del_where_def)

lemma ids_del: "distinct (map j_id rows) \<Longrightarrow> distinct (map j_id (del_where P rows))"
  by (simp add: del_where_def distinct_map_filter)

lemma jq_ok_finish [inv_intros]: "jq_ok q \<Longrightarrow> jq_ok (jq_finish now i result err q)"
  unfolding jq_finish_def js_finish_def
  by (rule jq_ok_rows) (auto simp: jq_ok_distinct queued_of_def split: if_splits elim!: has_queued_upd [rotated])

lemma jq_ok_progress [inv_intros]: "jq_ok q \<Longrightarrow> jq_ok (jq_set_progress i n t q)"
  unfolding jq_set_progress_def js_set_progress_def
  by (rule jq_ok_rows) (auto simp: jq_ok_distinct queued_of_def elim!: has_queued_upd [rotated])

lemma jq_ok_del: "jq_ok q \<Longrightarrow> jq_ok (q\<lparr>q_rows := del_where P (q_rows q)\<rparr>)"
  by (intro jq_ok_rows ids_del jq_ok_distinct) (auto dest: has_queued_del)

lemma jq_ok_delete [inv_intros]: "jq_ok q \<Longrightarrow> jq_ok (fst (jq_delete i q))"
  by (simp add: jq_delete_def js_delete_def jq_ok_del)

lemma jq_ok_prune [inv_intros]: "jq_ok q \<Longrightarrow> jq_ok (fst (jq_prune now q))"
  by (simp add: jq_prune_def js_prune_def jq_ok_del)

lemma jq_ok_cancel [inv_intros]: "jq_ok q \<Longrightarrow> jq_ok (fst (jq_cancel now i q))"
  by (simp add: jq_cancel_def jq_ok_finish)

lemma jq_ok_stop [inv_intros]: "jq_ok q \<Longrightarrow> jq_ok (jq_stop q)"
  by (simp add: jq_stop_def jq_ok_def counts_ok_def busy_def)

lemma jq_ok_boot: "distinct (map j_id rows) \<Longrightarrow> jq_ok (jq_boot now rows)"
proof -
  assume "distinct (map j_id rows)"
  moreover have "map j_id (fst (js_mark_interrupted now rows)) = map j_id rows"
    unfolding js_mark_interrupted_def fst_conv by (rule ids_upd) simp
  moreover have "\<not> has_queued k (fst (js_mark_interrupted now rows))" for k
    by (auto simp: has_queued_def js_mark_interrupted_def upd_where_def queued_of_def in_flight_def)
  ultimately show ?thesis
    by (simp add: jq_boot_def jq_init_def jq_ok_def counts_ok_def tasks_of_def busy_def)
qed

lemma jq_ok_submit [inv_intros]:
  assumes "jq_ok q" shows "jq_ok (fst (jq_submit now kind i payload h q))"
proof (cases "kind \<in> fst ` set KIND_CONCURRENCY")
  case True
  let ?rows = "js_submit now i kind payload (q_rows q)"
  let ?q = "if h then (q\<lparr>q_rows := ?rows\<rparr>)\<lparr>q_handlers := List.insert kind (q_handlers q)\<rparr> else q\<lparr>q_rows := ?rows\<rparr>"
  have "distinct (map j_id ?rows)"
    using assms by (auto simp: jq_ok_def counts_ok_def js_submit_def del_where_def distinct_map_filter)
  then have "counts_ok ?q" using assms by (simp add: jq_ok_def counts_ok_def)
  moreover have "busy ?q k" if "k \<noteq> kind" for k
    using assms that by (auto simp: jq_ok_def busy_def has_queued_def js_submit_def del_where_def queued_of_def)
  ultimately have "jq_ok (jq_wake now kind ?q)" by (rule jq_ok_wake)
  with True show ?thesis by (simp add: jq_submit_def Let_def split: if_splits)
qed (simp add: jq_submit_def assms)

lemma close_row_cases:
  "(\<And>r e. P (jq_finish now i r e q)) \<Longrightarrow> P q \<Longrightarrow> P (close_row now je kind i p oc q)"
  by (simp add: close_row_def split: option.splits outcome.splits)

lemma remove1_count:
  "t \<in> set ts \<Longrightarrow> length (filter P (remove1 t ts)) = length (filter P ts) - (if P t then 1 else 0)"
  by (cases "P t") (simp_all add: filter_remove1 length_remove1)

lemma jq_ok_run_one [inv_intros]:
  assumes "jq_ok q" and "t \<in> set (q_tasks q)" shows "jq_ok (jq_run_one now je t oc q)"
proof -
  obtain kind i p where t: "t = (kind, i, p)" by (cases t)
  let ?q = "close_row now je kind i p oc q"
  have ok: "jq_ok ?q" by (rule close_row_cases) (use assms jq_ok_finish in auto)
  have "q_tasks ?q = q_tasks q" by (rule close_row_cases) (simp_all add: jq_finish_def)
  with assms(2) have m: "t \<in> set (q_tasks ?q)" by simp
  let ?q2 = "?q\<lparr>q_running := (q_running ?q)(kind := q_running ?q kind - 1), q_tasks := remove1 t (q_tasks ?q)\<rparr>"
  have "counts_ok ?q2"
  proof -
    have "tasks_of k ?q2 = tasks_of k ?q - (if k = kind then 1 else 0)" for k
      using remove1_count [OF m, of "\<lambda>t. fst t = k"] by (auto simp: tasks_of_def t)
    moreover from ok have "tasks_of k ?q \<le> cap k" "q_running ?q k = tasks_of k ?q" for k
      by (simp_all add: jq_ok_def counts_ok_def)
    ultimately show ?thesis using ok
      by (simp add: jq_ok_def counts_ok_def) (meson diff_le_self le_trans)
  qed
  moreover have "busy ?q2 k" if "k \<noteq> kind" for k
    using ok that by (auto simp: jq_ok_def busy_def)
  ultimately have "jq_ok (jq_wake now kind ?q2)" by (rule jq_ok_wake)
  then show ?thesis by (simp add: jq_run_one_def t Let_def)
qed

lemma jq_ok_step: "jstep q q' \<Longrightarrow> jq_ok q \<Longrightarrow> jq_ok q'"
  by (induction rule: jstep.induct) (simp_all add: inv_intros)

lemma jq_ok_reachable: "reachable q \<Longrightarrow> jq_ok q"
  by (induction rule: reachable.induct) (simp_all add: jq_ok_boot jq_ok_step)

section \<open>Terminal rows\<close>

definition ended :: "jobq \<Rightarrow> string \<Rightarrow> bool" where
  "ended q i = (\<forall>r \<in> set (q_rows q). j_id r = i \<longrightarrow> terminal (j_state r))"

lemma not_terminal_queued: "\<not> terminal ''queued''"
  by (simp add: terminal_def)

lemma ended_wake: "ended q i \<Longrightarrow> distinct (map j_id (q_rows q)) \<Longrightarrow> ended (jq_wake now kind q) i"
proof (induction now kind q rule: jq_wake.induct)
  case (1 now kind q)
  show ?case
  proof (cases "\<not> q_stopped q \<and> q_running q kind < cap kind \<and> js_next_queued kind (q_rows q) \<noteq> None")
    case False
    then have "jq_wake now kind q = q" by (subst jq_wake.simps) (auto split: option.split)
    with 1 show ?thesis by simp
  next
    case True
    then obtain j p where n: "\<not> q_stopped q" "q_running q kind < cap kind"
      "js_next_queued kind (q_rows q) = Some (j, p)" by auto
    from next_queued_Some [OF n(3)] obtain r where r: "r \<in> set (q_rows q)" "queued_of kind r" "j_id r = j"
      by auto
    with 1(2) have "j \<noteq> i" using not_terminal_queued by (auto simp: ended_def queued_of_def)
    then have "ended (start_task now kind j p q) i"
      using 1(2) by (auto simp: ended_def start_task_def js_mark_running_def upd_where_def split: if_splits)
    moreover have "map j_id (q_rows (start_task now kind j p q)) = map j_id (q_rows q)"
      by (simp add: start_task_def js_mark_running_def)
    ultimately have "ended (jq_wake now kind (start_task now kind j p q)) i"
      using 1(1) [OF n refl] 1(3) by metis
    moreover have "jq_wake now kind q = jq_wake now kind (start_task now kind j p q)"
      using n by (subst jq_wake.simps) simp
    ultimately show ?thesis by simp
  qed
qed

lemma ended_finish: "ended q i \<Longrightarrow> ended (jq_finish now j r e q) i"
  by (auto simp: ended_def jq_finish_def js_finish_def upd_where_def terminal_def)

lemma ended_fields: "q_rows q' = q_rows q \<Longrightarrow> ended q' i = ended q i"
  by (simp add: ended_def)

definition submits :: "string \<Rightarrow> jobq \<Rightarrow> jobq \<Rightarrow> bool" where
  "submits i q q' = (\<exists>now kind payload h. q' = fst (jq_submit now kind i payload h q))"

lemma ended_step:
  assumes "jstep q q'" and "jq_ok q" and "ended q i" and "\<not> submits i q q'"
  shows "ended q' i"
  using assms
proof (cases rule: jstep.cases)
  case (submit now kind j payload h)
  with assms(4) have ne: "j \<noteq> i" by (auto simp: submits_def)
  show ?thesis
  proof (cases "kind \<in> fst ` set KIND_CONCURRENCY")
    case True
    let ?rows = "js_submit now j kind payload (q_rows q)"
    have e: "ended (q\<lparr>q_rows := ?rows\<rparr>) i"
      using assms(3) ne by (auto simp: ended_def js_submit_def del_where_def)
    have d: "distinct (map j_id ?rows)"
      using jq_ok_distinct [OF assms(2)] by (auto simp: js_submit_def del_where_def distinct_map_filter)
    have "ended (jq_wake now kind (q\<lparr>q_rows := ?rows\<rparr>)) i"
      by (rule ended_wake [OF e]) (simp add: d)
    moreover have "ended (jq_wake now kind (q\<lparr>q_rows := ?rows, q_handlers := List.insert kind (q_handlers q)\<rparr>)) i"
      by (rule ended_wake) (use e d in \<open>simp_all add: ended_def\<close>)
    ultimately show ?thesis using True submit by (simp add: jq_submit_def Let_def)
  qed (use submit assms(3) in \<open>simp add: jq_submit_def\<close>)
next
  case (task_end t now je oc)
  obtain kind j p where t: "t = (kind, j, p)" by (cases t)
  have "ended (close_row now je kind j p oc q) i"
    by (rule close_row_cases) (use assms(3) ended_finish in auto)
  moreover have "distinct (map j_id (q_rows (close_row now je kind j p oc q)))"
    by (rule close_row_cases) (use jq_ok_distinct [OF assms(2)] in \<open>auto simp: jq_finish_def js_finish_def\<close>)
  ultimately show ?thesis
    unfolding task_end jq_run_one_def t prod.case Let_def by (intro ended_wake) (simp_all add: ended_def)
next
  case (finish now j r e)
  then show ?thesis using assms(3) by (simp add: ended_finish)
next
  case (cancel now j)
  then show ?thesis using assms(3) by (simp add: jq_cancel_def ended_finish)
qed (auto simp: ended_def jq_set_progress_def js_set_progress_def upd_where_def jq_delete_def js_delete_def del_where_def
    jq_prune_def js_prune_def jq_stop_def)

section \<open>Properties\<close>

text \<open>C6: in every reachable state of the queue, whatever the interleaving of submissions, ends of
  handlers, cancellations and deletions, each kind runs exactly as many tasks as its counter says
  and never more than its cap; and no capacity is wasted: unless the queue has been stopped, a
  queued job waits only while its kind is at its cap.\<close>

theorem queue_caps_and_no_waste:
  assumes "reachable q"
  shows "q_running q k = length (filter (\<lambda>t. fst t = k) (q_tasks q)) \<and> q_running q k \<le> cap k
    \<and> (\<not> q_stopped q \<longrightarrow> (\<exists>r \<in> set (q_rows q). j_kind r = k \<and> j_state r = ''queued'') \<longrightarrow> q_running q k = cap k)"
proof -
  from jq_ok_reachable [OF assms] have c: "q_running q k = tasks_of k q" "tasks_of k q \<le> cap k" and b: "busy q k"
    by (simp_all add: jq_ok_def counts_ok_def)
  have "q_running q k = cap k" if "\<not> q_stopped q" "\<exists>r \<in> set (q_rows q). j_kind r = k \<and> j_state r = ''queued''"
    using b c that unfolding busy_def has_queued_def queued_of_def by (simp add: le_antisym)
  with c show ?thesis by (auto simp: tasks_of_def)
qed

definition demo_submit :: "string \<Rightarrow> jobq \<Rightarrow> jobq" where
  "demo_submit i q = fst (jq_submit 5 ''backup_now'' i (JObj []) True q)"

lemma reachable_demo: "reachable (demo_submit ''b'' (demo_submit ''a'' (jq_boot 0 [])))"
proof -
  have "reachable (demo_submit i q)" if "reachable q" for i q
    unfolding demo_submit_def by (rule reachable.step [OF that jstep.submit])
  moreover have "reachable (jq_boot 0 [])" by (rule reachable.boot) simp
  ultimately show ?thesis by blast
qed

lemma queue_caps_and_no_waste_witness:
  "q_running (demo_submit ''b'' (demo_submit ''a'' (jq_boot 0 []))) ''backup_now'' \<le> cap ''backup_now''
   \<and> map (\<lambda>r. (j_id r, j_state r)) (q_rows (demo_submit ''b'' (demo_submit ''a'' (jq_boot 0 []))))
       = [(''a'', ''running''), (''b'', ''queued'')]"
proof
  show "q_running (demo_submit ''b'' (demo_submit ''a'' (jq_boot 0 []))) ''backup_now'' \<le> cap ''backup_now''"
    using queue_caps_and_no_waste [OF reachable_demo] by blast
  show "map (\<lambda>r. (j_id r, j_state r)) (q_rows (demo_submit ''b'' (demo_submit ''a'' (jq_boot 0 []))))
       = [(''a'', ''running''), (''b'', ''queued'')]" by code_simp
qed

text \<open>Also: the job the dispatcher starts next is a queued one of that kind, and none of that kind
  that is queued was created earlier.\<close>

theorem dispatch_is_fifo:
  assumes "js_next_queued kind rows = Some (i, payload)"
  shows "\<exists>r \<in> set rows. j_id r = i \<and> j_kind r = kind \<and> j_state r = ''queued'' \<and> j_payload r = payload
     \<and> (\<forall>r' \<in> set rows. j_kind r' = kind \<and> j_state r' = ''queued'' \<longrightarrow> j_created_at r \<le> j_created_at r')"
proof -
  have "j_created_at r \<le> j_created_at r'" if "job_order r \<le> job_order r'" for r r'
    using that by (auto simp: job_order_def less_eq_prod_def)
  with next_queued_Some [OF assms] show ?thesis unfolding queued_of_def by blast
qed

lemma dispatch_is_fifo_witness:
  "\<exists>r \<in> set (js_submit 3 ''b'' ''backup_now'' (JObj []) (js_submit 7 ''a'' ''backup_now'' (JObj []) [])).
     j_id r = ''b'' \<and> j_created_at r = 3"
proof -
  have "js_next_queued ''backup_now'' (js_submit 3 ''b'' ''backup_now'' (JObj []) (js_submit 7 ''a'' ''backup_now'' (JObj []) []))
      = Some (''b'', Some ''{}'')" by code_simp
  from dispatch_is_fifo [OF this] show ?thesis by (auto simp: js_submit_def del_where_def)
qed

text \<open>C23: a job that has ended (done, failed, cancelled or interrupted) stays ended under every
  later step until someone submits a job under the same id: no cancelled or interrupted job is
  ever started.\<close>

theorem ended_stays_ended:
  assumes "reachable q" and "jstep q q'"
    and "\<forall>r \<in> set (q_rows q). j_id r = i \<longrightarrow> terminal (j_state r)"
    and "\<not> (\<exists>now kind payload h. q' = fst (jq_submit now kind i payload h q))"
  shows "\<forall>r \<in> set (q_rows q'). j_id r = i \<longrightarrow> terminal (j_state r)"
  using ended_step [OF assms(2) jq_ok_reachable [OF assms(1)], of i] assms(3,4)
  unfolding ended_def submits_def by blast

definition demo_cancelled :: jobq where
  "demo_cancelled = jq_stop (fst (jq_cancel 6 ''b'' (demo_submit ''b'' (demo_submit ''a'' (jq_boot 0 [])))))"

lemma ended_stays_ended_witness:
  "filter (\<lambda>r. j_id r = ''b'' \<and> \<not> terminal (j_state r)) (q_rows (jq_set_progress ''b'' 1 2 demo_cancelled)) = []"
proof -
  have "\<forall>r \<in> set (q_rows (jq_set_progress ''b'' 1 2 demo_cancelled)). j_id r = ''b'' \<longrightarrow> terminal (j_state r)"
  proof (rule ended_stays_ended)
  show "reachable demo_cancelled" unfolding demo_cancelled_def
    by (rule reachable.step [OF reachable.step [OF reachable_demo jstep.cancel] jstep.stop])
  show "jstep demo_cancelled (jq_set_progress ''b'' 1 2 demo_cancelled)" by (rule jstep.progress)
  show "\<forall>r \<in> set (q_rows demo_cancelled). j_id r = ''b'' \<longrightarrow> terminal (j_state r)" by code_simp
  have s: "q_stopped demo_cancelled" by (simp add: demo_cancelled_def jq_stop_def)
  have l: "j_state (last (q_rows (jq_set_progress ''b'' 1 2 demo_cancelled))) = ''error''"
    and p: "map j_progress (q_rows (jq_set_progress ''b'' 1 2 demo_cancelled)) \<noteq> map j_progress (q_rows demo_cancelled)"
    by code_simp+
  have "j_state (last (q_rows (fst (jq_submit now kind i payload h demo_cancelled)))) = ''queued''
      \<or> q_rows (fst (jq_submit now kind i payload h demo_cancelled)) = q_rows demo_cancelled" for now kind i payload h
    using s by (simp add: jq_submit_def Let_def jq_wake.simps js_submit_def)
  then have "jq_set_progress ''b'' 1 2 demo_cancelled \<noteq> fst (jq_submit now kind ''b'' payload h demo_cancelled)"
    for now kind payload h
  proof (rule_tac notI)
    assume e: "jq_set_progress ''b'' 1 2 demo_cancelled = fst (jq_submit now kind ''b'' payload h demo_cancelled)"
    assume "\<And>now kind i payload h. j_state (last (q_rows (fst (jq_submit now kind i payload h demo_cancelled)))) = ''queued''
      \<or> q_rows (fst (jq_submit now kind i payload h demo_cancelled)) = q_rows demo_cancelled"
    from this [of now kind "''b''" payload h] show False using l p unfolding e [symmetric] by auto
  qed
  then show "\<not> (\<exists>now kind payload h. jq_set_progress ''b'' 1 2 demo_cancelled
      = fst (jq_submit now kind ''b'' payload h demo_cancelled))" by blast
  qed
  then show ?thesis by (auto simp: filter_empty_conv)
qed

text \<open>Also: after a restart nothing is left queued or running: the rows that were in flight are
  interrupted, at the time of the boot and with an error, and all others are unchanged.\<close>

theorem boot_interrupts:
  "map (\<lambda>r. j_state r \<in> {''queued'', ''running''}) (q_rows (jq_boot now rows)) = replicate (length rows) False
   \<and> length (q_rows (jq_boot now rows)) = length rows
   \<and> (\<forall>n < length rows. q_rows (jq_boot now rows) ! n =
        (if j_state (rows ! n) \<in> {''queued'', ''running''}
         then (rows ! n)\<lparr>j_state := ''interrupted'', j_finished_at := Some now,
                j_error := Some ''server restarted while this job was in flight''\<rparr>
         else rows ! n))"
  by (auto simp: jq_boot_def jq_init_def js_mark_interrupted_def upd_where_def in_flight_def
      split: if_splits intro!: nth_equalityI)

lemma boot_interrupts_witness:
  "map j_state (q_rows (jq_boot 9 (js_submit 3 ''b'' ''backup_now'' (JObj []) []))) = [''interrupted'']"
  using boot_interrupts [of 9 "js_submit 3 ''b'' ''backup_now'' (JObj []) []"]
  by (cases "q_rows (jq_boot 9 (js_submit 3 ''b'' ''backup_now'' (JObj []) []))")
     (auto simp: js_submit_def del_where_def)

text \<open>Also: a handler that fails with an exception whose text is empty (a bare TimeoutError, say)
  leaves a row that says the job is done: the state is computed from the text.\<close>

theorem empty_error_is_done:
  assumes "kind \<in> set (q_handlers q)" and "payload = Some ''{}''" and "find (\<lambda>r. j_id r = i) (q_rows q) = Some r"
  shows "jq_state (close_row now je kind i payload (Raised []) q) i = Some ''done''"
proof -
  have l: "loads ''{}'' = Some (JObj [])" by code_simp
  have "find (\<lambda>r. j_id r = i) (map (\<lambda>r. if j_id r = i then f r else r) rows) = map_option f (find (\<lambda>r. j_id r = i) rows)"
    if "\<And>r. j_id (f r) = j_id r" for f and rows :: "job list"
    using that by (induction rows) auto
  with assms l show ?thesis
    by (simp add: close_row_def str_or_def jq_finish_def js_finish_def jq_state_def upd_where_def)
qed

lemma empty_error_is_done_witness:
  "jq_state (close_row 9 [] ''backup_now'' ''a'' (Some ''{}'') (Raised []) (demo_submit ''a'' (jq_boot 0 []))) ''a'' = Some ''done''"
proof (rule empty_error_is_done [OF _ refl])
  show "''backup_now'' \<in> set (q_handlers (demo_submit ''a'' (jq_boot 0 [])))" by code_simp
  show "find (\<lambda>r. j_id r = ''a'') (q_rows (demo_submit ''a'' (jq_boot 0 []))) = Some (q_rows (demo_submit ''a'' (jq_boot 0 [])) ! 0)"
    by code_simp
qed

end
