(* ===== verification/Captions.thy ===== *)
theory Captions
  imports PyJson
begin

text \<open>
  The self-describing captions of \<^verbatim>\<open>src/src/anbar/self_healing.py\<close> and the AES-GCM framing of
  \<^verbatim>\<open>src/src/anbar/crypto.py\<close>. Bytes are 8-bit characters. SHA-256, PBKDF2 and OpenSSL's AES-256-GCM
  are outside the source: \<open>seal key nonce data\<close> gives the tag and the ciphertext,
  \<open>unseal key nonce tag ciphertext\<close> the data if the tag fits. The URL-safe Base64 of the standard
  library is modelled, decoding as leniently as \<^verbatim>\<open>binascii.a2b_base64\<close>.
\<close>

section \<open>Base64\<close>

definition b64_char :: "nat \<Rightarrow> char" where
  "b64_char n = (if n < 26 then char_of (65 + n) else if n < 52 then char_of (71 + n)
     else if n < 62 then char_of (n - 4) else if n = 62 then CHR ''-'' else CHR ''_'')"

definition b64_val :: "char \<Rightarrow> nat option" where
  "b64_val c = (let n = code c in
     if 65 \<le> n \<and> n \<le> 90 then Some (n - 65) else if 97 \<le> n \<and> n \<le> 122 then Some (n - 71)
     else if 48 \<le> n \<and> n \<le> 57 then Some (n + 4) else if c = CHR ''-'' \<or> c = CHR ''+'' then Some 62
     else if c = CHR ''_'' \<or> c = CHR ''/'' then Some 63 else None)"

fun b64_encode :: "string \<Rightarrow> string" where
  "b64_encode (a # b # c # xs) =
     b64_char (code a div 4) # b64_char (code a mod 4 * 16 + code b div 16)
     # b64_char (code b mod 16 * 4 + code c div 64) # b64_char (code c mod 64) # b64_encode xs"
| "b64_encode [a, b] =
     [b64_char (code a div 4), b64_char (code a mod 4 * 16 + code b div 16), b64_char (code b mod 16 * 4), CHR ''='']"
| "b64_encode [a] = [b64_char (code a div 4), b64_char (code a mod 4 * 16), CHR ''='', CHR ''='']"
| "b64_encode [] = []"

text \<open>The state is the position in the group of four, the bits left over and the pads seen.\<close>

fun b64_scan :: "nat \<Rightarrow> nat \<Rightarrow> nat \<Rightarrow> string \<Rightarrow> string option" where
  "b64_scan pos left pads [] = (if pos = 0 then Some [] else None)"
| "b64_scan pos left pads (c # cs) =
     (if c = CHR ''='' then
        (if 2 \<le> pos \<and> 4 \<le> pos + (pads + 1) then Some []
         else b64_scan pos left (if 2 \<le> pos then pads + 1 else pads) cs)
      else case b64_val c of
        None \<Rightarrow> b64_scan pos left pads cs
      | Some v \<Rightarrow>
          if pos = 0 then b64_scan 1 v 0 cs
          else if pos = 1 then map_option ((#) (char_of (left * 4 + v div 16))) (b64_scan 2 (v mod 16) 0 cs)
          else if pos = 2 then map_option ((#) (char_of (left * 16 + v div 4))) (b64_scan 3 (v mod 4) 0 cs)
          else map_option ((#) (char_of (left * 64 + v))) (b64_scan 0 0 0 cs))"

definition b64_decode :: "string \<Rightarrow> string option" where
  "b64_decode s = b64_scan 0 0 0 s"

text \<open>\<^verbatim>\<open>rstrip("=")\<close> after encoding, \<^verbatim>\<open>"=" * (-len(s) % 4)\<close> before decoding.\<close>

(* src: src/src/anbar/self_healing.py 44-48 encode_chunk_caption *)
definition b64_unpadded :: "string \<Rightarrow> string" where
  "b64_unpadded s = rstrip_by (\<lambda>c. c = CHR ''='') (b64_encode s)"

(* src: src/src/anbar/self_healing.py 64-68 decode_chunk_caption *)
definition b64_repad :: "string \<Rightarrow> string" where
  "b64_repad s = s @ replicate (nat ((- int (length s)) mod 4)) (CHR ''='')"

text \<open>\<^verbatim>\<open>bytes.decode("utf-8")\<close>, for characters up to U+00FF (the strings of the model).\<close>

fun utf8_decode :: "string \<Rightarrow> string option" where
  "utf8_decode [] = Some []"
| "utf8_decode (c # cs) =
     (if code c < 128 then map_option ((#) c) (utf8_decode cs)
      else if code c = 194 \<or> code c = 195 then
        (case cs of
           [] \<Rightarrow> None
         | d # ds \<Rightarrow> if 128 \<le> code d \<and> code d < 192
             then map_option ((#) (char_of ((code c - 192) * 64 + (code d - 128)))) (utf8_decode ds) else None)
      else None)"

section \<open>Encryption\<close>

definition gcm_len_ok :: "string \<Rightarrow> bool" where "gcm_len_ok key = (length key = 32)"

(* src: src/src/anbar/crypto.py auto encrypt_gcm *)
definition encrypt_gcm :: "(string \<Rightarrow> string \<Rightarrow> string \<Rightarrow> string \<times> string) \<Rightarrow> string \<Rightarrow> string \<Rightarrow> string \<Rightarrow> string res" where
  "encrypt_gcm seal nonce data key =
     (if length key \<noteq> 32 then Inl (ValueError ''AES-256 requires a 32-byte key'')
      else if length nonce \<noteq> 12 then Inl (ValueError ''GCM nonce must be 12 bytes'')
      else (case seal key nonce data of (tag, ct) \<Rightarrow> Inr (nonce @ take 16 tag @ ct)))"

(* src: src/src/anbar/crypto.py auto decrypt_gcm *)
definition decrypt_gcm :: "(string \<Rightarrow> string \<Rightarrow> string \<Rightarrow> string \<Rightarrow> string option) \<Rightarrow> string \<Rightarrow> string \<Rightarrow> string res" where
  "decrypt_gcm unseal enc key =
     (if length key \<noteq> 32 then Inl (ValueError ''AES-256 requires a 32-byte key'')
      else if length enc < 28 then Inl (ValueError ''Ciphertext too short'')
      else (case unseal key (take 12 enc) (take 16 (drop 12 enc)) (drop 28 enc) of
              None \<Rightarrow> Inl (ValueError ''Decryption failed'')
            | Some d \<Rightarrow> Inr d))"

(* src: src/src/anbar/crypto.py 189-189 MAGIC_CLIENT_ZK *)
definition MAGIC_CLIENT_ZK :: string where "MAGIC_CLIENT_ZK = ''ANBAR_ZK1''"

text \<open>\<open>pbkdf2 password salt\<close> has the 100000 iterations and 32 bytes fixed.\<close>

(* src: src/src/anbar/crypto.py auto client_zk_encrypt *)
definition client_zk_encrypt :: "(string \<Rightarrow> string \<Rightarrow> string \<Rightarrow> string \<times> string) \<Rightarrow> (string \<Rightarrow> string \<Rightarrow> string)
    \<Rightarrow> string \<Rightarrow> string \<Rightarrow> string \<Rightarrow> string \<Rightarrow> string res" where
  "client_zk_encrypt seal pbkdf2 salt nonce data password =
     rbind (encrypt_gcm seal nonce data (pbkdf2 password salt)) (\<lambda>enc. Inr (MAGIC_CLIENT_ZK @ salt @ enc))"

(* src: src/src/anbar/crypto.py auto client_zk_decrypt *)
definition client_zk_decrypt :: "(string \<Rightarrow> string \<Rightarrow> string \<Rightarrow> string \<Rightarrow> string option) \<Rightarrow> (string \<Rightarrow> string \<Rightarrow> string)
    \<Rightarrow> string \<Rightarrow> string \<Rightarrow> string res" where
  "client_zk_decrypt unseal pbkdf2 data password =
     (if \<not> startswith data MAGIC_CLIENT_ZK \<or> length data < length MAGIC_CLIENT_ZK + 16 + 12 + 16
      then Inl (ValueError ''Invalid or corrupted client ZK payload'')
      else let salt = take 16 (drop (length MAGIC_CLIENT_ZK) data);
               enc = drop (length MAGIC_CLIENT_ZK + 16) data in
           decrypt_gcm unseal enc (pbkdf2 password salt))"

text \<open>What the code relies on of the primitives: tags of 16 bytes, keys of 32, and that a sealed
  text opens.\<close>

definition aead_ok :: "(string \<Rightarrow> string \<Rightarrow> string \<Rightarrow> string \<times> string) \<Rightarrow> (string \<Rightarrow> string \<Rightarrow> string \<Rightarrow> string \<Rightarrow> string option) \<Rightarrow> bool" where
  "aead_ok seal unseal =
     (\<forall>k n d. length (fst (seal k n d)) = 16 \<and> unseal k n (fst (seal k n d)) (snd (seal k n d)) = Some d)"

lemma gcm_roundtrip:
  assumes "aead_ok seal unseal" and "length key = 32" and "length nonce = 12"
  shows "\<exists>enc. encrypt_gcm seal nonce data key = Inr enc \<and> 28 \<le> length enc \<and> decrypt_gcm unseal enc key = Inr data"
proof -
  obtain tag ct where s: "seal key nonce data = (tag, ct)" by (cases "seal key nonce data")
  with assms(1) have "length tag = 16" "unseal key nonce tag ct = Some data"
    unfolding aead_ok_def by (metis fst_conv, metis fst_conv snd_conv)
  with assms s show ?thesis by (auto simp: encrypt_gcm_def decrypt_gcm_def)
qed

section \<open>Envelopes\<close>

(* src: src/src/anbar/self_healing.py 15-15 CAPTION_PREFIX *)
definition CAPTION_PREFIX :: string where "CAPTION_PREFIX = ''anbar:v1:''"

(* src: src/src/anbar/self_healing.py 16-16 EVENT_PREFIX *)
definition EVENT_PREFIX :: string where "EVENT_PREFIX = ''anbar:v1:evt:''"

text \<open>The primitives the envelopes use, with the random nonce of the call.\<close>

record keys =
  k_sha256 :: "string \<Rightarrow> string"
  k_seal :: "string \<Rightarrow> string \<Rightarrow> string \<Rightarrow> string \<times> string"
  k_unseal :: "string \<Rightarrow> string \<Rightarrow> string \<Rightarrow> string \<Rightarrow> string option"
  k_nonce :: string

(* src: src/src/anbar/self_healing.py 93-101 encode_meta_event *)
definition envelope :: "keys \<Rightarrow> string \<Rightarrow> json \<Rightarrow> string option \<Rightarrow> string res" where
  "envelope ks pre meta secret =
     (let raw = dumps_compact meta in
      if truthy_str secret then
        rbind (encrypt_gcm (k_seal ks) (k_nonce ks) raw (k_sha256 ks (the secret)))
          (\<lambda>enc. Inr (pre @ ''e:'' @ b64_unpadded enc))
      else Inr (pre @ ''p:'' @ b64_unpadded raw))"

text \<open>Opening: the stripped text must carry the prefix; whatever fails gives \<open>None\<close>.\<close>

(* src: src/src/anbar/self_healing.py 112-136 decode_meta_event *)
definition open_envelope :: "keys \<Rightarrow> string \<Rightarrow> string option \<Rightarrow> string option \<Rightarrow> json option" where
  "open_envelope ks pre text secret =
     (if \<not> truthy_str text then None
      else let t = strip (the text) in
        if \<not> startswith t pre then None
        else let env = drop (length pre) t in
          if startswith env ''e:'' then
            (if \<not> truthy_str secret then None
             else Option.bind (b64_decode (b64_repad (drop 2 env))) (\<lambda>enc.
               case decrypt_gcm (k_unseal ks) enc (k_sha256 ks (the secret)) of
                 Inl e \<Rightarrow> None
               | Inr raw \<Rightarrow> Option.bind (utf8_decode raw) loads))
          else if startswith env ''p:'' then
            Option.bind (b64_decode (b64_repad (drop 2 env))) (\<lambda>raw. Option.bind (utf8_decode raw) loads)
          else None)"

(* src: src/src/anbar/self_healing.py 30-39 encode_chunk_caption *)
definition caption_meta :: "time \<Rightarrow> string \<Rightarrow> int \<Rightarrow> int \<Rightarrow> string \<Rightarrow> int \<Rightarrow> string option \<Rightarrow> string option \<Rightarrow> json" where
  "caption_meta now obj_id idx n filename total_size ct sha =
     JObj [(''id'', JStr obj_id), (''i'', JInt idx), (''n'', JInt n), (''fn'', JStr filename),
           (''sz'', JInt total_size), (''ct'', JStr (str_or ct [])), (''h'', JStr (take 16 (str_or sha []))),
           (''ts'', JInt now)]"

(* src: src/src/anbar/self_healing.py auto encode_chunk_caption *)
definition encode_chunk_caption :: "keys \<Rightarrow> time \<Rightarrow> string \<Rightarrow> int \<Rightarrow> int \<Rightarrow> string \<Rightarrow> int \<Rightarrow> string option
    \<Rightarrow> string option \<Rightarrow> string option \<Rightarrow> string res" where
  "encode_chunk_caption ks now obj_id idx n filename total_size ct sha secret =
     envelope ks CAPTION_PREFIX (caption_meta now obj_id idx n filename total_size ct sha) secret"

(* src: src/src/anbar/self_healing.py auto decode_chunk_caption *)
definition decode_chunk_caption :: "keys \<Rightarrow> string option \<Rightarrow> string option \<Rightarrow> json option" where
  "decode_chunk_caption ks caption secret = open_envelope ks CAPTION_PREFIX caption secret"

(* src: src/src/anbar/self_healing.py auto encode_meta_event *)
definition encode_meta_event :: "keys \<Rightarrow> time \<Rightarrow> (string \<times> json) list \<Rightarrow> string option \<Rightarrow> string res" where
  "encode_meta_event ks now event secret =
     (let event = (if map_of event ''ts'' = None then event @ [(''ts'', JInt now)] else event) in
      envelope ks EVENT_PREFIX (JObj event) secret)"

(* src: src/src/anbar/self_healing.py auto decode_meta_event *)
definition decode_meta_event :: "keys \<Rightarrow> string option \<Rightarrow> string option \<Rightarrow> json option" where
  "decode_meta_event ks text secret = open_envelope ks EVENT_PREFIX text secret"

section \<open>Base64 round trip\<close>

definition b64_char_ok :: "nat \<Rightarrow> bool" where
  "b64_char_ok n = (b64_val (b64_char n) = Some n \<and> b64_char n \<noteq> CHR ''='' \<and> \<not> is_space (b64_char n))"

lemma code_ne: "code c \<noteq> code d \<Longrightarrow> c \<noteq> d" by auto
lemma b64_table: "n < 64 \<Longrightarrow> b64_char_ok n"
proof -
  assume "n < 64"
  then consider "n < 26" | "26 \<le> n" "n < 52" | "52 \<le> n" "n < 62" | "n = 62" | "n = 63" by linarith
  then show ?thesis
  proof cases
    case 1
    then have c: "code (b64_char n) = 65 + n" by (simp add: b64_char_def)
    with 1 show ?thesis using code_ne [of "b64_char n" "CHR ''=''"]
      by (auto simp: b64_char_ok_def b64_val_def is_space_def Let_def code_def)
  next
    case 2
    then have c: "code (b64_char n) = 71 + n" by (simp add: b64_char_def)
    with 2 show ?thesis using code_ne [of "b64_char n" "CHR ''=''"]
      by (auto simp: b64_char_ok_def b64_val_def is_space_def Let_def code_def)
  next
    case 3
    then have c: "code (b64_char n) = n - 4" by (simp add: b64_char_def)
    with 3 show ?thesis using code_ne [of "b64_char n" "CHR ''=''"]
      by (auto simp: b64_char_ok_def b64_val_def is_space_def Let_def code_def)
  qed (simp_all add: b64_char_ok_def b64_char_def b64_val_def is_space_def code_def)
qed

lemma code_lt [simp]: "code c < 256"
  by (simp add: code_def)

lemma char_of_byte [simp]: "char_of (code c) = c"
  by (simp add: code_def)

lemma high_bits [simp]:
  "code c div 16 div 16 = 0" "code c div 16 mod 16 = code c div 16"
  "code c div 64 div 4 = 0" "code c div 64 mod 4 = code c div 64"
proof -
  have "code c div 16 < 16" "code c div 64 < 4" using code_lt [of c] by (simp_all add: div_less_iff_less_mult del: code_lt)
  then show "code c div 16 div 16 = 0" "code c div 16 mod 16 = code c div 16"
    "code c div 64 div 4 = 0" "code c div 64 mod 4 = code c div 64" by simp_all
qed

lemma sextets:
  "code a div 4 < 64" "code a mod 4 * 16 + code b div 16 < 64" "code b mod 16 * 4 + code c div 64 < 64"
  "code c mod 64 < 64" "code a mod 4 * 16 < 64" "code b mod 16 * 4 < 64"
proof -
  have h: "code a div 4 < 64" "code b div 16 < 16" "code c div 64 < 4"
    using code_lt [of a] code_lt [of b] code_lt [of c] by (simp_all add: div_less_iff_less_mult del: code_lt)
  moreover have "code a mod 4 < 4" "code b mod 16 < 16" by simp_all
  ultimately show "code a div 4 < 64" "code a mod 4 * 16 + code b div 16 < 64" "code b mod 16 * 4 + code c div 64 < 64"
    "code c mod 64 < 64" "code a mod 4 * 16 < 64" "code b mod 16 * 4 < 64" by linarith+
qed

lemma b64_scan_char:
  "n < 64 \<Longrightarrow> b64_scan pos left pads (b64_char n # cs) =
     (if pos = 0 then b64_scan 1 n 0 cs
      else if pos = 1 then map_option ((#) (char_of (left * 4 + n div 16))) (b64_scan 2 (n mod 16) 0 cs)
      else if pos = 2 then map_option ((#) (char_of (left * 16 + n div 4))) (b64_scan 3 (n mod 4) 0 cs)
      else map_option ((#) (char_of (left * 64 + n))) (b64_scan 0 0 0 cs))"
  using b64_table [of n] by (simp add: b64_char_ok_def)

lemma b64_decode_encode: "b64_scan 0 0 0 (b64_encode s) = Some s"
proof (induction s rule: b64_encode.induct)
  case (1 a b c xs)
  then show ?case by (simp add: b64_scan_char sextets del: b64_scan.simps)
next
  case (2 a b)
  show ?case by (simp add: b64_scan_char sextets del: b64_scan.simps) simp
next
  case (3 a)
  show ?case by (simp add: b64_scan_char sextets del: b64_scan.simps) simp
qed simp

definition plain :: "char \<Rightarrow> bool" where
  "plain c = (c \<noteq> CHR ''='' \<and> \<not> is_space c)"

lemma plain_b64: "n < 64 \<Longrightarrow> plain (b64_char n)"
  using b64_table [of n] by (simp add: b64_char_ok_def plain_def)

definition padded :: "string \<Rightarrow> string \<Rightarrow> nat \<Rightarrow> bool" where
  "padded e t k = (e = t @ replicate k (CHR ''='') \<and> list_all plain t \<and> k < 4 \<and> (length t + k) mod 4 = 0)"

lemma b64_split: "\<exists>t k. padded (b64_encode s) t k"
proof (induction s rule: b64_encode.induct)
  case (1 a b c xs)
  then obtain t k where t: "padded (b64_encode xs) t k" by blast
  let ?t = "b64_char (code a div 4) # b64_char (code a mod 4 * 16 + code b div 16)
     # b64_char (code b mod 16 * 4 + code c div 64) # b64_char (code c mod 64) # t"
  have "(length ?t + k) mod 4 = (length t + k) mod 4" by simp
  with t have "padded (b64_encode (a # b # c # xs)) ?t k"
    by (simp add: padded_def plain_b64 sextets)
  then show ?case by blast
next
  case (2 a b)
  have "padded (b64_encode [a, b])
     [b64_char (code a div 4), b64_char (code a mod 4 * 16 + code b div 16), b64_char (code b mod 16 * 4)] 1"
    by (simp add: padded_def plain_b64 sextets)
  then show ?case by blast
next
  case (3 a)
  have "padded (b64_encode [a]) [b64_char (code a div 4), b64_char (code a mod 4 * 16)] 2"
    by (simp add: padded_def plain_b64 sextets numeral_2_eq_2)
  then show ?case by blast
next
  case 4
  have "padded (b64_encode []) [] 0" by (simp add: padded_def)
  then show ?case by blast
qed

lemma drop_pads: "list_all plain t \<Longrightarrow> dropWhile (\<lambda>c. c = CHR ''='') (replicate k (CHR ''='') @ rev t) = rev t"
proof (induction k)
  case 0
  then show ?case by (cases t rule: rev_cases) (simp_all add: plain_def)
qed simp

lemma unpadded_repad:
  "b64_repad (b64_unpadded s) = b64_encode s" (is ?A)
  "c \<in> set (b64_unpadded s) \<Longrightarrow> \<not> is_space c"
proof -
  obtain t k where t: "padded (b64_encode s) t k" using b64_split [of s] by blast
  then have u: "b64_unpadded s = t" by (simp add: b64_unpadded_def rstrip_by_def padded_def drop_pads)
  have "k < 4" "(length t + k) mod 4 = 0" using t by (simp_all add: padded_def)
  then have "(- int (length t)) mod 4 = int k" by presburger
  then show ?A using t by (simp add: u b64_repad_def padded_def)
  show "c \<in> set (b64_unpadded s) \<Longrightarrow> \<not> is_space c" using t u by (simp add: padded_def list_all_iff plain_def)
qed

lemma b64_open: "b64_decode (b64_repad (b64_unpadded s)) = Some s"
  by (simp add: unpadded_repad b64_decode_def b64_decode_encode)

section \<open>JSON text is ASCII\<close>

lemma utf8_ascii: "\<forall>c \<in> set s. code c < 128 \<Longrightarrow> utf8_decode s = Some s"
  by (induction s) auto

lemma digit_ascii: "is_digit c \<Longrightarrow> code c < 128"
  by (simp add: is_digit_def)

lemma code_lits: "code (CHR 0x22) = 34" "code (CHR 0x5C) = 92" "code (CHR ''-'') = 45" "code (CHR ''n'') = 110"
  "code (CHR ''r'') = 114" "code (CHR ''t'') = 116" "code (CHR ''f'') = 102" "code (CHR ''b'') = 98"
  "code (CHR ''u'') = 117" "code (CHR ''0'') = 48" "code (CHR '','') = 44" "code (CHR '':'') = 58"
  "code (CHR ''['') = 91" "code (CHR '']'') = 93" "code (CHR ''{'') = 123" "code (CHR ''}'') = 125"
  "code (CHR ''l'') = 108" "code (CHR ''e'') = 101" "code (CHR ''a'') = 97" "code (CHR ''s'') = 115" "code (CHR ''p'') = 112"
  by (simp_all add: code_def of_char_def)

lemma hex_char_ascii: "n < 16 \<Longrightarrow> code (hex_char n) < 128"
  by (simp add: hex_char_def)

lemma esc_char_ascii: "x \<in> set (esc_char True c) \<Longrightarrow> code x < 128"
  using hex_char_ascii [of "code c div 16"] hex_char_ascii [of "code c mod 16"] high_bits(1) [of c]
  by (auto simp: esc_char_def code_lits div_less_iff_less_mult split: if_splits)

lemma dumps_str_ascii: "x \<in> set (dumps_str True s) \<Longrightarrow> code x < 128"
  by (auto simp: dumps_str_def code_lits dest: esc_char_ascii)

lemma items_ascii:
  "(\<And>j x. j \<in> set js \<Longrightarrow> x \<in> set (dumps_gen True '','' '':'' j) \<Longrightarrow> code x < 128) \<Longrightarrow>
     x \<in> set (dumps_items True '','' '':'' js) \<Longrightarrow> code x < 128"
  by (induction js) (auto simp: code_lits split: if_splits)

lemma fields_ascii:
  "(\<And>k j x. (k, j) \<in> set kvs \<Longrightarrow> x \<in> set (dumps_gen True '','' '':'' j) \<Longrightarrow> code x < 128) \<Longrightarrow>
     x \<in> set (dumps_fields True '','' '':'' kvs) \<Longrightarrow> code x < 128"
  by (induction kvs) (fastforce simp: code_lits dumps_str_ascii split: if_splits)+

lemma dumps_ascii: "x \<in> set (dumps_gen True '','' '':'' j) \<Longrightarrow> code x < 128"
proof (induction j arbitrary: x)
  case (JInt i)
  then show ?case using str_of_int_chars [of x i] by (auto dest: digit_ascii simp: code_lits)
next
  case (JList js)
  then show ?case using items_ascii [of js x] by (auto simp: code_lits)
next
  case (JObj kvs)
  then show ?case using fields_ascii [of kvs x] by (fastforce simp: code_lits)
qed (auto simp: code_lits dumps_str_ascii split: if_splits)

lemma loads_utf8: "jwf j \<Longrightarrow> Option.bind (utf8_decode (dumps_compact j)) loads = Some j"
  using dumps_ascii [of _ j] by (simp add: utf8_ascii dumps_compact_def) (simp add: dumps_compact_def [symmetric])

section \<open>Properties\<close>

definition keys_ok :: "keys \<Rightarrow> bool" where
  "keys_ok ks = (aead_ok (k_seal ks) (k_unseal ks) \<and> (\<forall>s. length (k_sha256 ks s) = 32) \<and> length (k_nonce ks) = 12)"

lemma open_sealed:
  assumes "keys_ok ks" and "jwf meta" and "\<forall>c \<in> set pre. \<not> is_space c"
  shows "\<exists>t. envelope ks pre meta secret = Inr t \<and> open_envelope ks pre (Some t) secret = Some meta
     \<and> (\<exists>b. t = pre @ b \<and> (startswith b ''e:'' \<or> startswith b ''p:'') \<and> (\<forall>c \<in> set b. \<not> is_space c))"
proof (cases "truthy_str secret")
  case True
  have "length (k_sha256 ks (the secret)) = 32" "length (k_nonce ks) = 12" using assms(1) by (auto simp: keys_ok_def)
  from gcm_roundtrip [OF _ this, of "k_seal ks" "k_unseal ks" "dumps_compact meta"] assms(1)
  obtain enc where e: "encrypt_gcm (k_seal ks) (k_nonce ks) (dumps_compact meta) (k_sha256 ks (the secret)) = Inr enc"
    "decrypt_gcm (k_unseal ks) enc (k_sha256 ks (the secret)) = Inr (dumps_compact meta)"
    by (auto simp: keys_ok_def)
  let ?t = "pre @ ''e:'' @ b64_unpadded enc"
  have sp: "\<forall>c \<in> set ?t. \<not> is_space c"
    using assms(3) unpadded_repad(2) [of _ enc] by (auto simp: is_space_def code_lits)
  then have "strip ?t = ?t" by (intro strip_by_id) blast
  with True e sp assms(2) show ?thesis
    by (simp add: envelope_def open_envelope_def b64_open loads_utf8)
next
  case False
  let ?t = "pre @ ''p:'' @ b64_unpadded (dumps_compact meta)"
  have sp: "\<forall>c \<in> set ?t. \<not> is_space c"
    using assms(3) unpadded_repad(2) [of _ "dumps_compact meta"] by (auto simp: is_space_def code_lits)
  then have "strip ?t = ?t" by (intro strip_by_id) blast
  with False sp assms(2) show ?thesis
    by (simp add: envelope_def open_envelope_def b64_open loads_utf8 Let_def)
qed

lemma no_space_prefixes: "\<forall>c \<in> set CAPTION_PREFIX. \<not> is_space c" "\<forall>c \<in> set EVENT_PREFIX. \<not> is_space c"
  by (simp_all add: CAPTION_PREFIX_def EVENT_PREFIX_def) code_simp+

lemma not_an_event:
  assumes "t = CAPTION_PREFIX @ b" and "startswith b ''e:'' \<or> startswith b ''p:''" and "\<forall>c \<in> set b. \<not> is_space c"
  shows "open_envelope ks EVENT_PREFIX (Some t) secret = None"
proof -
  have "strip t = t" using no_space_prefixes(1) assms(1,3) by (intro strip_by_id) auto
  moreover have "\<not> startswith t EVENT_PREFIX"
    using assms(1,2) by (auto simp: CAPTION_PREFIX_def EVENT_PREFIX_def startswith_iff)
  ultimately show ?thesis by (simp add: open_envelope_def)
qed

text \<open>C32: whatever the file is called and whatever its type, the caption a chunk is posted with can
  be read back with the secret of the installation (or without one, when none is set) and
  gives the chunk's object, position, name, size and time; and it is never taken for a journal event.\<close>

theorem caption_roundtrip:
  assumes "keys_ok ks"
  shows "\<exists>t. encode_chunk_caption ks now obj_id idx n filename total_size ct sha secret = Inr t
     \<and> decode_chunk_caption ks (Some t) secret = Some (caption_meta now obj_id idx n filename total_size ct sha)
     \<and> decode_meta_event ks (Some t) secret = None"
proof -
  have "jwf (caption_meta now obj_id idx n filename total_size ct sha)" by (simp add: caption_meta_def)
  from open_sealed [OF assms this no_space_prefixes(1), of secret] not_an_event show ?thesis
    unfolding encode_chunk_caption_def decode_chunk_caption_def decode_meta_event_def by blast
qed

definition toy_keys :: keys where
  "toy_keys = \<lparr>k_sha256 = (\<lambda>s. replicate 32 (CHR ''k'')), k_seal = (\<lambda>k n d. (replicate 16 (CHR ''t''), rev d)),
     k_unseal = (\<lambda>k n t c. Some (rev c)), k_nonce = replicate 12 (CHR ''n'')\<rparr>"

lemma toy_keys_ok: "keys_ok toy_keys"
  by (simp add: toy_keys_def keys_ok_def aead_ok_def)

lemma caption_roundtrip_witness:
  "\<exists>t. encode_chunk_caption toy_keys 9 ''u1'' 0 0 ''a b.txt'' 0 None None (Some ''s3cret'') = Inr t
     \<and> decode_chunk_caption toy_keys (Some t) (Some ''s3cret'') = Some (caption_meta 9 ''u1'' 0 0 ''a b.txt'' 0 None None)
     \<and> decode_meta_event toy_keys (Some t) (Some ''s3cret'') = None"
  by (rule caption_roundtrip [OF toy_keys_ok])

text \<open>Also: a journal event reads back as it was posted, with its time added when it had none.\<close>

theorem event_roundtrip:
  assumes "keys_ok ks" and "jwf (JObj event)"
  shows "\<exists>t. encode_meta_event ks now event secret = Inr t
     \<and> decode_meta_event ks (Some t) secret =
         Some (JObj (if map_of event ''ts'' = None then event @ [(''ts'', JInt now)] else event))"
proof -
  let ?e = "if map_of event ''ts'' = None then event @ [(''ts'', JInt now)] else event"
  have "map_of event ''ts'' = None \<Longrightarrow> ''ts'' \<notin> fst ` set event" by (simp only: map_of_eq_None_iff not_False_eq_True)
  then have "jwf (JObj ?e)" using assms(2) by auto
  from open_sealed [OF assms(1) this no_space_prefixes(2), of secret] show ?thesis
    unfolding encode_meta_event_def decode_meta_event_def Let_def by blast
qed

lemma event_roundtrip_witness:
  "\<exists>t. encode_meta_event toy_keys 9 [(''op'', JStr ''rn_obj''), (''id'', JStr ''a''), (''new'', JStr ''b'')] None = Inr t
     \<and> decode_meta_event toy_keys (Some t) None =
         Some (JObj [(''op'', JStr ''rn_obj''), (''id'', JStr ''a''), (''new'', JStr ''b''), (''ts'', JInt 9)])"
  using event_roundtrip [OF toy_keys_ok, of "[(''op'', JStr ''rn_obj''), (''id'', JStr ''a''), (''new'', JStr ''b'')]" 9 None]
  by simp

text \<open>Also: a client-side encrypted file decrypts with its password to what was encrypted; anything
  shorter than the header, or without the magic, is refused.\<close>

theorem client_zk_roundtrip:
  assumes "aead_ok seal unseal" and "length (pbkdf2 password salt) = 32" and "length salt = 16" and "length nonce = 12"
  shows "(\<exists>f. client_zk_encrypt seal pbkdf2 salt nonce data password = Inr f
       \<and> client_zk_decrypt unseal pbkdf2 f password = Inr data)
     \<and> (\<forall>f. length f < 53 \<or> \<not> startswith f ''ANBAR_ZK1'' \<longrightarrow>
          client_zk_decrypt unseal pbkdf2 f password = Inl (ValueError ''Invalid or corrupted client ZK payload''))"
proof -
  from gcm_roundtrip [OF assms(1,2,4), of data] obtain enc where
    e: "encrypt_gcm seal nonce data (pbkdf2 password salt) = Inr enc" "28 \<le> length enc"
      "decrypt_gcm unseal enc (pbkdf2 password salt) = Inr data" by blast
  have "client_zk_encrypt seal pbkdf2 salt nonce data password = Inr (MAGIC_CLIENT_ZK @ salt @ enc)"
    by (simp add: client_zk_encrypt_def e)
  moreover have "client_zk_decrypt unseal pbkdf2 (MAGIC_CLIENT_ZK @ salt @ enc) password = Inr data"
    using e assms(3) by (simp add: client_zk_decrypt_def MAGIC_CLIENT_ZK_def)
  ultimately show ?thesis
    by (auto simp: client_zk_decrypt_def MAGIC_CLIENT_ZK_def)
qed

lemma client_zk_roundtrip_witness:
  "\<exists>f. client_zk_encrypt (k_seal toy_keys) (\<lambda>p s. replicate 32 (CHR ''k'')) (replicate 16 (CHR ''s'')) (replicate 12 (CHR ''n'')) ''data'' ''pw'' = Inr f
       \<and> client_zk_decrypt (k_unseal toy_keys) (\<lambda>p s. replicate 32 (CHR ''k'')) f ''pw'' = Inr ''data''"
  using client_zk_roundtrip [of "k_seal toy_keys" "k_unseal toy_keys" "\<lambda>p s. replicate 32 (CHR ''k'')" "''pw''"
      "replicate 16 (CHR ''s'')" "replicate 12 (CHR ''n'')" "''data''"] toy_keys_ok
  by (simp add: keys_ok_def)

end
