(* ===== verification/SelfHealing.thy ===== *)
theory SelfHealing
  imports DbFolders DbTables Captions Objects "HOL-Library.Multiset"
begin

text \<open>
  The rebuild of the object table from the channel, \<^verbatim>\<open>src/src/anbar/self_healing.py\<close>: replaying
  the journal of renames, moves and deletions, and recreating rows from the chunks' captions;
  and the offline reassembly of \<^verbatim>\<open>scripts/recover.py\<close>. Events and captions are decoded
  JSON values; a value whose type the code cannot use is a \<open>TypeError\<close>.
\<close>

section \<open>The journal\<close>

text \<open>\<^verbatim>\<open>e.get(k, default)\<close> for an integer, a string and a list of ids.\<close>

definition get_int_d :: "json \<Rightarrow> string \<Rightarrow> int \<Rightarrow> int res" where
  "get_int_d e k d = (case jget e k of None \<Rightarrow> Inr d | Some v \<Rightarrow> as_int v)"

definition get_str_d :: "json \<Rightarrow> string \<Rightarrow> string \<Rightarrow> string res" where
  "get_str_d e k d = (case jget e k of None \<Rightarrow> Inr d | Some v \<Rightarrow> as_str v)"

definition get_ids :: "json \<Rightarrow> string \<Rightarrow> string list res" where
  "get_ids e k = (case jget e k of None \<Rightarrow> Inr [] | Some v \<Rightarrow> rbind (as_list v) (mapr as_str))"

(* src: src/src/anbar/self_healing.py 180-185 replay_meta_events *)
fun delete_batch :: "string list \<Rightarrow> db \<Rightarrow> db \<times> nat" where
  "delete_batch [] d = (d, 0)"
| "delete_batch (i # is) d =
     (if i \<noteq> [] then (case delete_batch is (fst (delete_object i d)) of (d', n) \<Rightarrow> (d', n + 1))
      else delete_batch is d)"

(* src: src/src/anbar/self_healing.py 155-185 replay_meta_events *)
definition replay_event :: "json \<Rightarrow> db \<Rightarrow> (db \<times> nat) res" where
  "replay_event e d =
     (let op' = jget e ''op'' in
      if op' = Some (JStr ''rn_dir'') then
        rbind (get_str_d e ''old'' []) (\<lambda>old_p. rbind (get_str_d e ''new'' []) (\<lambda>new_p.
          if old_p \<noteq> [] \<and> new_p \<noteq> [] then Inr (fst (rename_folder old_p new_p d), 1) else Inr (d, 0)))
      else if op' = Some (JStr ''rn_obj'') then
        rbind (get_str_d e ''id'' []) (\<lambda>i. rbind (get_str_d e ''new'' []) (\<lambda>new_fn.
          if i \<noteq> [] \<and> new_fn \<noteq> [] then Inr (fst (rename_object i new_fn d), 1) else Inr (d, 0)))
      else if op' = Some (JStr ''mv_obj'') then
        rbind (get_ids e ''ids'') (\<lambda>ids. rbind (get_str_d e ''dest'' []) (\<lambda>dest.
          if ids \<noteq> [] then Inr (fst (move_objects_to_prefix ids dest d), 1) else Inr (d, 0)))
      else if op' = Some (JStr ''del_obj'') then
        rbind (get_str_d e ''id'' []) (\<lambda>i.
          if i \<noteq> [] then Inr (fst (delete_object i d), 1) else Inr (d, 0))
      else if op' = Some (JStr ''del_batch'') then
        rbind (get_ids e ''ids'') (\<lambda>ids. Inr (delete_batch ids d))
      else Inr (d, 0))"

fun replay_all :: "json list \<Rightarrow> db \<Rightarrow> nat \<Rightarrow> db \<times> nat res" where
  "replay_all [] d n = (d, Inr n)"
| "replay_all (e # es) d n =
     (case replay_event e d of Inl x \<Rightarrow> (d, Inl x) | Inr (d', k) \<Rightarrow> replay_all es d' (n + k))"

definition event_ts :: "json \<Rightarrow> int" where
  "event_ts e = (case get_int_d e ''ts'' 0 of Inr t \<Rightarrow> t | Inl _ \<Rightarrow> 0)"

(* src: src/src/anbar/self_healing.py auto replay_meta_events *)
definition replay_meta_events :: "json list \<Rightarrow> db \<Rightarrow> db \<times> nat res" where
  "replay_meta_events events d =
     (case mapr (\<lambda>e. get_int_d e ''ts'' 0) events of
        Inl x \<Rightarrow> (d, Inl x)
      | Inr _ \<Rightarrow> replay_all (sort_key event_ts events) d 0)"

section \<open>Rebuilding rows\<close>

text \<open>One chunk found in the channel: its decoded caption and what the message says.\<close>

record found =
  f_meta :: json
  f_size :: int
  f_file_id :: string
  f_message_id :: "int option"
  f_bot_file_id :: "string option"
  f_backend :: "string option"

(* src: src/src/anbar/self_healing.py 230-240 rebuild_from_manifests *)
definition found_chunk :: "found \<Rightarrow> chunk res" where
  "found_chunk c = rbind (get_int_d (f_meta c) ''i'' 0) (\<lambda>i.
     Inr \<lparr>c_index = i, c_size = f_size c, c_file_id = f_file_id c, c_message_id = f_message_id c,
          c_bot_file_id = f_bot_file_id c, c_backend = None\<rparr>)"

definition found_index :: "found \<Rightarrow> int" where
  "found_index c = (case get_int_d (f_meta c) ''i'' 0 of Inr i \<Rightarrow> i | Inl _ \<Rightarrow> 0)"

datatype verdict = Recovered | Skipped | Incomplete | Empty

(* src: src/src/anbar/self_healing.py 199-257 rebuild_from_manifests *)
definition rebuild_one :: "time \<Rightarrow> string \<Rightarrow> found list \<Rightarrow> db \<Rightarrow> (db \<times> verdict) res" where
  "rebuild_one now obj_id fs d =
     (case fs of [] \<Rightarrow> Inr (d, Empty) | first # _ \<Rightarrow>
        rbind (get_str_d (f_meta first) ''fn'' (''recovered_'' @ obj_id)) (\<lambda>filename.
        rbind (get_str_d (f_meta first) ''ct'' []) (\<lambda>ct.
        rbind (get_int_d (f_meta first) ''ts'' now) (\<lambda>created.
        rbind (get_int_d (f_meta first) ''n'' (int (length fs))) (\<lambda>n.
        rbind (get_int_d (f_meta first) ''sz'' (sum_list (map f_size fs))) (\<lambda>sz.
          if 0 < n \<and> int (length fs) < n then Inr (d, Incomplete)
          else rbind (mapr found_chunk (sort_key found_index fs)) (\<lambda>cs.
            let (existing, d) = get_object obj_id True d in
            if existing \<noteq> None then Inr (d, Skipped)
            else rbind (get_str_d (f_meta first) ''h'' []) (\<lambda>h.
              case insert_object now
                \<lparr>i_id = obj_id, i_file_id = c_file_id (hd cs),
                 i_backend = (case f_backend (hd (sort_key found_index fs)) of None \<Rightarrow> ''bot'' | Some b \<Rightarrow> b),
                 i_filename = filename, i_size = sz,
                 i_content_type = Some (if ct \<noteq> [] then ct else ''application/octet-stream''),
                 i_sha256 = Some h, i_manifest = Some (to_json \<lparr>m_chunks = cs, m_total_size = sz\<rparr>),
                 i_uploader_key = Some ''recovered'', i_created_at = Some created, i_downloaded = None\<rparr> d of
                (d', Inl e) \<Rightarrow> Inl e
              | (d', Inr _) \<Rightarrow> Inr (d', Recovered)))))))))"

record report =
  rp_recovered :: nat
  rp_skipped :: nat
  rp_incomplete :: nat
  rp_events :: nat

fun rebuild_groups :: "time \<Rightarrow> (string \<times> found list) list \<Rightarrow> report \<Rightarrow> db \<Rightarrow> db \<times> report res" where
  "rebuild_groups now [] rp d = (d, Inr rp)"
| "rebuild_groups now ((i, fs) # gs) rp d =
     (case rebuild_one now i fs d of
        Inl e \<Rightarrow> (d, Inl e)
      | Inr (d', v) \<Rightarrow> rebuild_groups now gs
          (case v of Recovered \<Rightarrow> rp\<lparr>rp_recovered := rp_recovered rp + 1\<rparr>
           | Skipped \<Rightarrow> rp\<lparr>rp_skipped := rp_skipped rp + 1\<rparr>
           | Incomplete \<Rightarrow> rp\<lparr>rp_incomplete := rp_incomplete rp + 1\<rparr> | Empty \<Rightarrow> rp) d')"

text \<open>The keys of \<^verbatim>\<open>collected_chunks\<close> are distinct, being a dict's.\<close>

(* src: src/src/anbar/self_healing.py auto rebuild_from_manifests *)
definition rebuild_from_manifests :: "time \<Rightarrow> (string \<times> found list) list \<Rightarrow> json list \<Rightarrow> db \<Rightarrow> db \<times> report res" where
  "rebuild_from_manifests now groups events d =
     (case rebuild_groups now groups \<lparr>rp_recovered = 0, rp_skipped = 0, rp_incomplete = 0, rp_events = 0\<rparr> d of
        (d1, Inl e) \<Rightarrow> (d1, Inl e)
      | (d1, Inr rp) \<Rightarrow>
          if events = [] then (d1, Inr rp)
          else (case replay_meta_events events d1 of
                  (d2, Inl e) \<Rightarrow> (d2, Inl e)
                | (d2, Inr n) \<Rightarrow> (d2, Inr (rp\<lparr>rp_events := n\<rparr>))))"

section \<open>What a rebuilt row holds\<close>

definition plain_chunk :: "found \<Rightarrow> chunk" where
  "plain_chunk c = \<lparr>c_index = found_index c, c_size = f_size c, c_file_id = f_file_id c,
     c_message_id = f_message_id c, c_bot_file_id = f_bot_file_id c, c_backend = None\<rparr>"

text \<open>The group of an object's chunks whose captions all carry the same header.\<close>

definition captioned :: "string \<Rightarrow> int \<Rightarrow> string \<Rightarrow> int \<Rightarrow> string option \<Rightarrow> string option \<Rightarrow> found \<Rightarrow> bool" where
  "captioned oid n fn sz ct sha c = (\<exists>t i. f_meta c = caption_meta t oid i n fn sz ct sha)"

lemma captioned_fields:
  assumes "captioned oid n fn sz ct sha c"
  shows "get_str_d (f_meta c) ''fn'' x = Inr fn" "get_str_d (f_meta c) ''ct'' y = Inr (str_or ct [])"
    "\<exists>t. \<forall>z. get_int_d (f_meta c) ''ts'' z = Inr t" "get_int_d (f_meta c) ''n'' a = Inr n"
    "get_int_d (f_meta c) ''sz'' b = Inr sz" "get_str_d (f_meta c) ''h'' e = Inr (take 16 (str_or sha []))"
    "found_chunk c = Inr (plain_chunk c)"
  using assms
  by (auto simp: captioned_def caption_meta_def get_str_d_def get_int_d_def as_str_def as_int_def
      found_chunk_def plain_chunk_def found_index_def)

lemma mapr_found: "\<forall>c \<in> set fs. captioned oid n fn sz ct sha c \<Longrightarrow> mapr found_chunk fs = Inr (map plain_chunk fs)"
  by (induction fs) (auto simp: captioned_fields(7))

lemma get_object_absent: "find_obj d i = None \<Longrightarrow> get_object i True d = (None, d)"
  by (simp add: get_object_def find_obj_def Let_def)

lemma rebuild_one_captioned:
  assumes "fs \<noteq> []" and "\<forall>c \<in> set fs. captioned oid n fn sz ct sha c" and "n \<le> int (length fs)"
    and "find_obj d oid = None"
  shows "\<exists>d' r. rebuild_one now oid fs d = Inr (d', Recovered) \<and> find_obj d' oid = Some r
     \<and> o_filename r = fn \<and> o_size r = sz
     \<and> o_manifest r = Some (to_json \<lparr>m_chunks = map plain_chunk (sort_key found_index fs), m_total_size = sz\<rparr>)"
proof -
  obtain f fs' where fs: "fs = f # fs'" using assms(1) by (cases fs) auto
  note h = captioned_fields [OF bspec [OF assms(2)], of f]
  obtain t where t: "\<forall>z. get_int_d (f_meta f) ''ts'' z = Inr t" using h(3) fs by auto
  have m: "mapr found_chunk (sort_key found_index fs) = Inr (map plain_chunk (sort_key found_index fs))"
    by (rule mapr_found) (use assms(2) in simp)
  define row where "row = \<lparr>i_id = oid, i_file_id = c_file_id (hd (map plain_chunk (sort_key found_index fs))),
     i_backend = (case f_backend (hd (sort_key found_index fs)) of None \<Rightarrow> ''bot'' | Some b \<Rightarrow> b),
     i_filename = fn, i_size = sz,
     i_content_type = Some (if str_or ct [] \<noteq> [] then str_or ct [] else ''application/octet-stream''),
     i_sha256 = Some (take 16 (str_or sha [])),
     i_manifest = Some (to_json \<lparr>m_chunks = map plain_chunk (sort_key found_index fs), m_total_size = sz\<rparr>),
     i_uploader_key = Some ''recovered'', i_created_at = Some t, i_downloaded = None\<rparr>"
  have "rebuild_one now oid fs d = (case insert_object now row d of (d', Inl e) \<Rightarrow> Inl e | (d', Inr _) \<Rightarrow> Inr (d', Recovered))"
    unfolding rebuild_one_def
    using fs h t m assms(3) get_object_absent [OF assms(4)]
    by (simp add: row_def Let_def)
  moreover have "insert_object now row d =
      (cache_put oid (full_obj now row) (d\<lparr>d_objects := d_objects d @ [full_obj now row]\<rparr>), Inr ())"
    by (simp add: insert_object_def row_def assms(4))
  moreover have "find_obj (cache_put oid (full_obj now row) (d\<lparr>d_objects := d_objects d @ [full_obj now row]\<rparr>)) oid
      = Some (full_obj now row)"
    using assms(4) by (simp add: find_obj_def cache_put_def find_append full_obj_def row_def)
  ultimately show ?thesis by (auto simp: full_obj_def row_def)
qed


definition demo_found :: "int \<Rightarrow> int \<Rightarrow> string \<Rightarrow> found" where
  "demo_found n i fid = \<lparr>f_meta = caption_meta 9 ''u1'' i n ''a.bin'' (if n = 0 then 0 else 30) None None, f_size = 10,
     f_file_id = fid, f_message_id = Some (i + 40), f_bot_file_id = None, f_backend = None\<rparr>"

lemma demo_captioned: "captioned ''u1'' n ''a.bin'' (if n = 0 then 0 else 30) None None (demo_found n i fid)"
  by (auto simp: captioned_def demo_found_def)


text \<open>Also: the captions that uploads write carry neither the number of chunks nor the size of the
  object (both are 0), so the row rebuilt from them has size 0, whatever the chunks hold, and
  every range of it is refused: the object is listed but cannot be downloaded.\<close>

theorem rebuilt_from_upload_captions_is_empty:
  assumes "fs \<noteq> []" and "\<forall>c \<in> set fs. \<exists>t i. f_meta c = caption_meta t oid i 0 fn 0 ct None" and "find_obj d oid = None"
  shows "\<exists>d' r m. rebuild_one now oid fs d = Inr (d', Recovered) \<and> find_obj d' oid = Some r \<and> o_size r = 0
     \<and> o_manifest r = Some (to_json m) \<and> m_total_size m = 0 \<and> length (m_chunks m) = length fs
     \<and> isl (map_range m a b)"
proof -
  let ?m = "\<lparr>m_chunks = map plain_chunk (sort_key found_index fs), m_total_size = 0\<rparr>"
  have "\<forall>c \<in> set fs. captioned oid 0 fn 0 ct None c" using assms(2) by (simp add: captioned_def)
  from rebuild_one_captioned [OF assms(1) this _ assms(3), of now] obtain d' r where
    "rebuild_one now oid fs d = Inr (d', Recovered)" "find_obj d' oid = Some r" "o_size r = 0"
    "o_manifest r = Some (to_json ?m)" by auto
  moreover have "isl (map_range ?m a b)" by (auto simp: map_range_def)
  ultimately show ?thesis by (intro exI [of _ d'] exI [of _ r] exI [of _ ?m]) simp
qed

lemma rebuilt_from_upload_captions_is_empty_witness:
  "\<exists>d' r. rebuild_one 50 ''u1'' [demo_found 0 0 ''A'', demo_found 0 1 ''B''] db_empty = Inr (d', Recovered)
     \<and> find_obj d' ''u1'' = Some r \<and> o_size r = 0"
proof -
  let ?fs = "[demo_found 0 0 ''A'', demo_found 0 1 ''B'']"
  have c: "\<forall>c \<in> set ?fs. \<exists>t i. f_meta c = caption_meta t ''u1'' i 0 ''a.bin'' 0 None None"
    by (auto simp: demo_found_def)
  have "find_obj db_empty ''u1'' = None" by (simp add: db_empty_def find_obj_def)
  from rebuilt_from_upload_captions_is_empty [OF list.distinct(2) c this, of 50] show ?thesis by blast
qed

section \<open>The journal's order\<close>

lemma sort_key_inj:
  assumes "distinct (map f xs)" and "mset xs = mset ys"
  shows "sort_key f xs = sort_key f ys"
proof (rule map_sorted_distinct_set_unique)
  have s: "set xs = set ys" using assms(2) by (rule mset_eq_setD)
  show "inj_on f (set (sort_key f xs) \<union> set (sort_key f ys))"
    using assms(1) s by (simp add: distinct_map)
  have "mset (map f xs) = mset (map f ys)" using assms(2) by (metis mset_map)
  then have "distinct (map f ys)" using assms(1) by (metis mset_eq_imp_distinct_iff)
  with assms(1) show "distinct (map f (sort_key f xs))" "distinct (map f (sort_key f ys))"
    by (simp_all add: distinct_map)
  show "set (sort_key f xs) = set (sort_key f ys)" using s by simp
qed simp_all

lemma mapr_Inr_iff: "(\<exists>ys. mapr f xs = Inr ys) \<longleftrightarrow> (\<forall>x \<in> set xs. \<exists>y. f x = Inr y)"
proof (induction xs)
  case (Cons x xs)
  show ?case
  proof (cases "f x")
    case (Inr y)
    with Cons show ?thesis by (cases "mapr f xs") auto
  qed auto
qed simp

text \<open>Also: the journal may be collected from the channel in any order: events with different times
  replay to the same store and count.\<close>

theorem replay_order_irrelevant:
  assumes "mset events = mset events'" and "distinct (map event_ts events)"
    and "\<forall>e \<in> set events. \<exists>t. get_int_d e ''ts'' 0 = Inr t"
  shows "replay_meta_events events d = replay_meta_events events' d"
proof -
  let ?f = "\<lambda>e. get_int_d e ''ts'' 0"
  have "set events = set events'" using assms(1) by (rule mset_eq_setD)
  with assms(3) have "\<forall>e \<in> set events'. \<exists>t. ?f e = Inr t" by simp
  then obtain zs where "mapr ?f events' = Inr zs" unfolding mapr_Inr_iff [of ?f, symmetric] by blast
  moreover obtain ys where "mapr ?f events = Inr ys" using assms(3) unfolding mapr_Inr_iff [of ?f, symmetric] by blast
  moreover have "sort_key event_ts events = sort_key event_ts events'"
    by (rule sort_key_inj [OF assms(2,1)])
  ultimately show ?thesis by (simp add: replay_meta_events_def)
qed

definition demo_event :: "int \<Rightarrow> string \<Rightarrow> json" where
  "demo_event t nm = JObj [(''op'', JStr ''rn_obj''), (''id'', JStr ''1''), (''new'', JStr nm), (''ts'', JInt t)]"

lemma demo_event_ts: "get_int_d (demo_event t n) ''ts'' 0 = Inr t"
  by (simp add: demo_event_def get_int_d_def as_int_def)

lemma demo_event_ts': "event_ts (demo_event t n) = t"
  by (simp only: event_ts_def demo_event_ts sum.case)

lemma demo_event_swap: "mset [demo_event a x, demo_event b y] = mset [demo_event b y, demo_event a x]"
  unfolding mset.simps by (rule add_mset_commute)

lemma replay_order_irrelevant_witness:
  "replay_meta_events [demo_event 9 ''x'', demo_event 4 ''y''] demo_db = replay_meta_events [demo_event 4 ''y'', demo_event 9 ''x''] demo_db"
proof (rule replay_order_irrelevant [OF demo_event_swap])
  show "distinct (map event_ts [demo_event 9 ''x'', demo_event 4 ''y''])" by (simp add: demo_event_ts')
  show "\<forall>e \<in> set [demo_event 9 ''x'', demo_event 4 ''y'']. \<exists>t. get_int_d e ''ts'' 0 = Inr t"
    by (simp add: demo_event_ts)
qed

end
