(* ===== verification/Recover.thy ===== *)
theory Recover
  imports Captions Objects "HOL-Library.AList"
begin

text \<open>
  \<^verbatim>\<open>scripts/recover.py\<close>: the reassembly of files from chunks and captions without a server. What
  is written is an association list from file name to contents; the output directory is taken
  to hold no symbolic link, so that a name without a slash stays inside it.
\<close>

section \<open>Decryption\<close>

(* src: src/scripts/recover.py auto decrypt_aes_gcm_raw *)
definition decrypt_raw :: "(string \<Rightarrow> string \<Rightarrow> string \<Rightarrow> string \<Rightarrow> string option) \<Rightarrow> string \<Rightarrow> string \<Rightarrow> string res" where
  "decrypt_raw unseal payload key =
     (if length payload < 12 + 16 then Inl (ValueError ''Payload too short'')
      else if length key \<noteq> 32 then Inl (ValueError ''AES-256 requires 32-byte key'')
      else (case unseal key (take 12 payload) (take 16 (drop 12 payload)) (drop (12 + 16) payload) of
              None \<Rightarrow> Inl (ValueError ''Authentication tag mismatch'')
            | Some d \<Rightarrow> Inr d))"

(* src: src/scripts/recover.py auto decrypt_server_chunk *)
definition decrypt_server_chunk :: "keys \<Rightarrow> string \<Rightarrow> string \<Rightarrow> string res" where
  "decrypt_server_chunk ks chunk_bytes secret = decrypt_raw (k_unseal ks) chunk_bytes (k_sha256 ks secret)"

(* src: src/scripts/recover.py auto decrypt_client_zk *)
definition recover_client_zk :: "keys \<Rightarrow> (string \<Rightarrow> string \<Rightarrow> string) \<Rightarrow> string \<Rightarrow> string \<Rightarrow> string res" where
  "recover_client_zk ks pbkdf2 data passphrase =
     (if \<not> startswith data ''ANBAR_ZK1'' then Inl (ValueError ''Not an ANBAR_ZK1 formatted file'')
      else if length data < 9 + 16 + 12 + 16 then Inl (ValueError ''Truncated ANBAR_ZK1 file'')
      else let salt = take 16 (drop 9 data); iv = take 12 (drop (9 + 16) data);
               tag = take 16 (drop (9 + 16 + 12) data); ct = drop (9 + 16 + 12 + 16) data in
           decrypt_raw (k_unseal ks) (iv @ tag @ ct) (pbkdf2 passphrase salt))"

section \<open>Grouping\<close>

(* src: src/scripts/recover.py 238-243 recover_files *)
record rec_obj =
  rc_fn :: string
  rc_total :: int
  rc_chunks :: "(int \<times> string) list"

definition meta_int :: "json \<Rightarrow> string \<Rightarrow> int \<Rightarrow> int res" where
  "meta_int m k d = (case jget m k of None \<Rightarrow> Inr d | Some v \<Rightarrow> as_int v)"

definition meta_str :: "json \<Rightarrow> string \<Rightarrow> string \<Rightarrow> string res" where
  "meta_str m k d = (case jget m k of None \<Rightarrow> Inr d | Some v \<Rightarrow> as_str v)"

(* src: src/scripts/recover.py 233-245 recover_files *)
definition rec_add :: "json \<times> string \<Rightarrow> (string \<times> rec_obj) list \<Rightarrow> (string \<times> rec_obj) list res" where
  "rec_add item objs =
     (case item of (meta, data) \<Rightarrow>
        rbind (meta_str meta ''id'' []) (\<lambda>i0.
          let i = (if i0 = [] then ''unknown'' else i0) in
          rbind (case map_of objs i of
                   Some ob \<Rightarrow> Inr ob
                 | None \<Rightarrow> rbind (meta_str meta ''fn'' (''recovered_'' @ i @ ''.bin'')) (\<lambda>fn.
                            rbind (meta_int meta ''n'' 1) (\<lambda>n.
                              Inr \<lparr>rc_fn = fn, rc_total = n, rc_chunks = []\<rparr>))) (\<lambda>ob.
          rbind (meta_int meta ''i'' 0) (\<lambda>idx.
            Inr (AList.update i (ob\<lparr>rc_chunks := AList.update idx data (rc_chunks ob)\<rparr>) objs)))))"

fun rec_collect :: "(json \<times> string) list \<Rightarrow> (string \<times> rec_obj) list \<Rightarrow> (string \<times> rec_obj) list res" where
  "rec_collect [] objs = Inr objs"
| "rec_collect (it # its) objs = rbind (rec_add it objs) (rec_collect its)"

(* src: src/scripts/recover.py 247-261 recover_files *)
definition rec_event :: "json \<Rightarrow> (string \<times> rec_obj) list \<Rightarrow> (string \<times> rec_obj) list res" where
  "rec_event ev objs =
     (let op' = jget ev ''op'' in
      if op' = Some (JStr ''rn_obj'') \<or> op' = Some (JStr ''mv_obj'') then
        (case jget ev ''id'' of
           Some (JStr i) \<Rightarrow>
             (case map_of objs i of
                None \<Rightarrow> Inr objs
              | Some ob \<Rightarrow> rbind (meta_str ev ''new_fn'' (rc_fn ob)) (\<lambda>fn.
                  Inr (AList.update i (ob\<lparr>rc_fn := fn\<rparr>) objs)))
         | _ \<Rightarrow> Inr objs)
      else if op' = Some (JStr ''rn_dir'') then
        rbind (meta_str ev ''old_prefix'' []) (\<lambda>old_p. rbind (meta_str ev ''new_prefix'' []) (\<lambda>new_p.
          Inr (map (\<lambda>(i, ob). (i, if startswith (rc_fn ob) old_p
                 then ob\<lparr>rc_fn := new_p @ drop (length old_p) (rc_fn ob)\<rparr> else ob)) objs)))
      else if op' = Some (JStr ''del_batch'') then
        rbind (case jget ev ''ids'' of None \<Rightarrow> Inr [] | Some v \<Rightarrow> rbind (as_list v) (mapr as_str)) (\<lambda>ids.
          Inr (filter (\<lambda>(i, ob). i \<notin> set ids) objs))
      else Inr objs)"

fun rec_events :: "json list \<Rightarrow> (string \<times> rec_obj) list \<Rightarrow> (string \<times> rec_obj) list res" where
  "rec_events [] objs = Inr objs"
| "rec_events (e # es) objs = rbind (rec_event e objs) (rec_events es)"

section \<open>Reassembly\<close>

text \<open>\<^verbatim>\<open>PurePosixPath(s).name\<close> of a name with backslashes made slashes.\<close>

definition posix_name :: "string \<Rightarrow> string" where
  "posix_name s =
     (let ps = filter (\<lambda>p. p \<noteq> [] \<and> p \<noteq> ''.'') (split_on (CHR ''/'') (replace_char (CHR 0x5C) ''/'' s)) in
      if ps = [] then [] else last ps)"

(* src: src/scripts/recover.py 276-285 recover_files *)
definition rec_chunk :: "keys \<Rightarrow> string option \<Rightarrow> string \<Rightarrow> string" where
  "rec_chunk ks secret raw =
     (if truthy_str secret \<and> \<not> startswith raw ''ANBAR_ZK1'' then
        (case decrypt_server_chunk ks raw (the secret) of Inl e \<Rightarrow> raw | Inr d \<Rightarrow> d)
      else raw)"

(* src: src/scripts/recover.py 267-308 recover_files *)
definition rec_file :: "keys \<Rightarrow> (string \<Rightarrow> string \<Rightarrow> string) \<Rightarrow> string option \<Rightarrow> string option \<Rightarrow> string \<Rightarrow> rec_obj
    \<Rightarrow> (string \<times> string) res" where
  "rec_file ks pbkdf2 secret passphrase obj_id ob =
     (if \<exists>i \<in> set [0..<nat (rc_total ob)]. map_of (rc_chunks ob) (int i) = None
      then Inl (ValueError ''missing chunks'')
      else let file_data = concat (map (\<lambda>i. rec_chunk ks secret (the (map_of (rc_chunks ob) (int i)))) [0..<nat (rc_total ob)]);
               fn = posix_name (rc_fn ob);
               stem = (if endswith fn ''.enc'' then take (length fn - 4) fn else fn) in
        rbind (if startswith file_data ''ANBAR_ZK1'' then
                 (if \<not> truthy_str passphrase then Inr (if endswith fn ''.enc'' then fn else fn @ ''.enc'', file_data)
                  else rbind (recover_client_zk ks pbkdf2 file_data (the passphrase)) (\<lambda>d. Inr (stem, d)))
               else Inr (fn, file_data)) (\<lambda>(clean, d).
          Inr (if clean = [] \<or> clean = ''.'' \<or> clean = ''..'' then ''recovered_'' @ obj_id @ ''.bin'' else clean, d)))"

(* src: src/scripts/recover.py 263-318 recover_files *)
fun rec_write :: "keys \<Rightarrow> (string \<Rightarrow> string \<Rightarrow> string) \<Rightarrow> string option \<Rightarrow> string option \<Rightarrow> (string \<times> rec_obj) list
    \<Rightarrow> (string \<times> string) list \<Rightarrow> nat \<Rightarrow> string list \<Rightarrow> (string \<times> string) list \<times> nat \<times> string list" where
  "rec_write ks pbkdf2 secret pass [] files n errs = (files, n, errs)"
| "rec_write ks pbkdf2 secret pass ((i, ob) # objs) files n errs =
     (case rec_file ks pbkdf2 secret pass i ob of
        Inl e \<Rightarrow> rec_write ks pbkdf2 secret pass objs files n (errs @ [i])
      | Inr (nm, d) \<Rightarrow> rec_write ks pbkdf2 secret pass objs (AList.update nm d files) (n + 1) errs)"

(* src: src/scripts/recover.py auto recover_files *)
definition recover_files :: "keys \<Rightarrow> (string \<Rightarrow> string \<Rightarrow> string) \<Rightarrow> string option \<Rightarrow> string option
    \<Rightarrow> (json \<times> string) list \<Rightarrow> json list \<Rightarrow> ((string \<times> string) list \<times> nat \<times> string list) res" where
  "recover_files ks pbkdf2 secret pass items events =
     rbind (rec_collect items []) (\<lambda>objs. rbind (rec_events events objs) (\<lambda>objs.
       Inr (rec_write ks pbkdf2 secret pass objs [] 0 [])))"

section \<open>One object\<close>

definition put_all :: "(int \<times> string) list \<Rightarrow> (int \<times> string) list \<Rightarrow> (int \<times> string) list" where
  "put_all ps acc = fold (\<lambda>(i, x). AList.update i x) ps acc"

definition captioned_item :: "(int \<Rightarrow> int) \<Rightarrow> string \<Rightarrow> int \<Rightarrow> string \<Rightarrow> int \<Rightarrow> string option \<Rightarrow> string option
    \<Rightarrow> int \<times> string \<Rightarrow> json \<times> string" where
  "captioned_item t oid n fn sz ct sha p = (caption_meta (t (fst p)) oid (fst p) n fn sz ct sha, snd p)"

lemma rec_add_item:
  "oid \<noteq> [] \<Longrightarrow> rec_add (captioned_item t oid n fn sz ct sha p) [(oid, ob)] =
     Inr [(oid, ob\<lparr>rc_chunks := put_all [p] (rc_chunks ob)\<rparr>)]"
  "oid \<noteq> [] \<Longrightarrow> rec_add (captioned_item t oid n fn sz ct sha p) [] =
     Inr [(oid, \<lparr>rc_fn = fn, rc_total = n, rc_chunks = put_all [p] []\<rparr>)]"
  by (cases p; simp add: rec_add_def captioned_item_def caption_meta_def meta_str_def meta_int_def as_str_def as_int_def
      put_all_def)+

lemma rec_collect_items:
  "oid \<noteq> [] \<Longrightarrow> rec_collect (map (captioned_item t oid n fn sz ct sha) ps) [(oid, ob)] =
     Inr [(oid, ob\<lparr>rc_chunks := put_all ps (rc_chunks ob)\<rparr>)]"
  by (induction ps arbitrary: ob) (simp_all add: rec_add_item(1), simp_all add: put_all_def)

lemma rec_collect_object:
  assumes "oid \<noteq> []" and "ps \<noteq> []"
  shows "rec_collect (map (captioned_item t oid n fn sz ct sha) ps) [] =
     Inr [(oid, \<lparr>rc_fn = fn, rc_total = n, rc_chunks = put_all ps []\<rparr>)]"
  using assms by (cases ps) (simp_all add: rec_add_item(2) rec_collect_items, simp_all add: put_all_def)

lemma put_all_lookup:
  "distinct (map fst ps) \<Longrightarrow> (i, x) \<in> set ps \<Longrightarrow> map_of (put_all ps acc) i = Some x"
proof (induction ps rule: rev_induct)
  case (snoc p ps)
  then show ?case by (cases p) (auto simp: put_all_def update_conv' image_iff)
qed simp

definition safe_name :: "string \<Rightarrow> string \<Rightarrow> string" where
  "safe_name oid fn = (let nm = posix_name fn in
     if nm = [] \<or> nm = ''.'' \<or> nm = ''..'' then ''recovered_'' @ oid @ ''.bin'' else nm)"

section \<open>Properties\<close>

text \<open>Also: when the captions carry the number of chunks, an unencrypted object is recovered as one
  file, whose contents are its chunks in the order of their index, in whatever order they were found,
  under the last component of its name.\<close>

theorem recover_assembles:
  assumes "oid \<noteq> []" and "0 < n" and "distinct is" and "set is = {0..<n}"
    and "\<not> startswith (concat (map content [0..<n])) ''ANBAR_ZK1''"
  shows "recover_files ks pbkdf2 None None
       (map (\<lambda>i. (caption_meta (t (int i)) oid (int i) (int n) fn sz ct sha, content i)) is) [] =
     Inr ([(safe_name oid fn, concat (map content [0..<n]))], 1, [])"
proof -
  let ?ps = "map (\<lambda>i. (int i, content i)) is"
  let ?ob = "\<lparr>rc_fn = fn, rc_total = int n, rc_chunks = put_all ?ps []\<rparr>"
  have "is \<noteq> []" using assms(2,4) by auto
  then have c: "rec_collect (map (captioned_item t oid (int n) fn sz ct sha) ?ps) [] = Inr [(oid, ?ob)]"
    by (intro rec_collect_object assms(1)) simp
  have items: "map (captioned_item t oid (int n) fn sz ct sha) ?ps =
      map (\<lambda>i. (caption_meta (t (int i)) oid (int i) (int n) fn sz ct sha, content i)) is"
    by (simp add: captioned_item_def comp_def)
  have "distinct (map fst ?ps)" using assms(3) by (simp add: comp_def distinct_map inj_on_def)
  then have l: "map_of (put_all ?ps []) (int i) = Some (content i)" if "i < n" for i
    using that assms(4) by (intro put_all_lookup) auto
  then have cc: "map (\<lambda>i. rec_chunk ks None (the (map_of (put_all ?ps []) (int i)))) [0..<n] = map content [0..<n]"
    by (intro map_cong) (simp_all add: rec_chunk_def)
  from l have mm: "(\<exists>i \<in> set [0..<n]. map_of (put_all ?ps []) (int i) = None) = False" by auto
  have "rec_file ks pbkdf2 None None oid ?ob = Inr (safe_name oid fn, concat (map content [0..<n]))"
    unfolding rec_file_def rec_obj.select_convs nat_int cc mm if_False Let_def
    using assms(5) by (simp add: safe_name_def Let_def)
  then show ?thesis using c unfolding items by (simp add: recover_files_def)
qed

lemma recover_assembles_witness:
  "recover_files toy_keys (\<lambda>p s. []) None None
     [(caption_meta 7 ''u1'' 1 2 ''docs/a.txt'' 4 None None, ''cd''), (caption_meta 7 ''u1'' 0 2 ''docs/a.txt'' 4 None None, ''ab'')] []
     = Inr ([(''a.txt'', ''abcd'')], 1, [])"
proof -
  have "safe_name ''u1'' ''docs/a.txt'' = ''a.txt''" by code_simp
  moreover have "{0..<2 :: nat} = {1, 0}" by auto
  ultimately show ?thesis
    using recover_assembles [of "''u1''" 2 "[1, 0]" "\<lambda>i. if i = 0 then ''ab'' else ''cd''" toy_keys "\<lambda>p s. []" "\<lambda>_. 7" "''docs/a.txt''" 4 None None]
    by (simp add: upt_rec)
qed

text \<open>Also: from the captions that uploads really write, whose chunk count is 0, every object is
  recovered as an empty file and counted as a success, whatever its chunks hold.\<close>

theorem recovered_upload_is_empty:
  assumes "oid \<noteq> []" and "parts \<noteq> []"
  shows "recover_files ks pbkdf2 secret pass (map (\<lambda>(i, x). (caption_meta now oid i 0 fn 0 ct None, x)) parts) [] =
     Inr ([(safe_name oid fn, [])], 1, [])"
proof -
  have i: "(\<lambda>(i, x). (caption_meta now oid i 0 fn 0 ct None, x)) = captioned_item (\<lambda>_. now) oid 0 fn 0 ct None"
    by (auto simp: captioned_item_def)
  show ?thesis unfolding i recover_files_def rec_collect_object [OF assms]
    by (simp add: rec_file_def safe_name_def Let_def)
qed

lemma recovered_upload_is_empty_witness:
  "recover_files toy_keys (\<lambda>p s. []) None None [(caption_meta 7 ''u1'' 0 0 ''a.txt'' 0 None None, ''data'')] []
     = Inr ([(safe_name ''u1'' ''a.txt'', [])], 1, [])"
  using recovered_upload_is_empty [of "''u1''" "[(0, ''data'')]" toy_keys "\<lambda>p s. []" None None 7 "''a.txt''" None] by simp

text \<open>The rename and move events as the server posts them.\<close>

definition posted_event :: "json \<Rightarrow> bool" where
  "posted_event e =
     ((\<exists>i nw t. e = JObj [(''op'', JStr ''rn_obj''), (''id'', JStr i), (''new'', JStr nw), (''ts'', JInt t)])
      \<or> (\<exists>old nw t. e = JObj [(''op'', JStr ''rn_dir''), (''old'', JStr old), (''new'', JStr nw), (''ts'', JInt t)])
      \<or> (\<exists>ids dest t. e = JObj [(''op'', JStr ''mv_obj''), (''ids'', JList ids), (''dest'', JStr dest), (''ts'', JInt t)]))"

lemma rec_event_posted:
  assumes "posted_event e" shows "rec_event e objs = Inr objs"
proof -
  have u: "AList.update i ob xs = xs" if "map_of xs i = Some ob" for i ob and xs :: "(string \<times> rec_obj) list"
    using that by (induction xs) auto
  from assms consider i nw t where "e = JObj [(''op'', JStr ''rn_obj''), (''id'', JStr i), (''new'', JStr nw), (''ts'', JInt t)]"
    | old nw t where "e = JObj [(''op'', JStr ''rn_dir''), (''old'', JStr old), (''new'', JStr nw), (''ts'', JInt t)]"
    | ids dest t where "e = JObj [(''op'', JStr ''mv_obj''), (''ids'', JList ids), (''dest'', JStr dest), (''ts'', JInt t)]"
    unfolding posted_event_def by blast
  then show ?thesis
    by cases (simp_all add: u rec_event_def meta_str_def Let_def case_prod_beta split: option.split)
qed

text \<open>Also: the offline recovery ignores every rename and move the server has journalled: it looks for
  them under other keys than the server writes, so files get the names they were uploaded with.\<close>

theorem recover_ignores_renames:
  assumes "\<forall>e \<in> set events. posted_event e"
  shows "recover_files ks pbkdf2 secret pass items events = recover_files ks pbkdf2 secret pass items []"
proof -
  have "rec_events events objs = Inr objs" for objs
    using assms by (induction events) (auto simp: rec_event_posted)
  then show ?thesis by (simp add: recover_files_def)
qed

lemma recover_ignores_renames_witness:
  "recover_files toy_keys (\<lambda>p s. []) None None [(caption_meta 7 ''u1'' 0 1 ''a.txt'' 0 None None, ''data'')]
      [JObj [(''op'', JStr ''rn_obj''), (''id'', JStr ''u1''), (''new'', JStr ''b.txt''), (''ts'', JInt 3)]]
    = recover_files toy_keys (\<lambda>p s. []) None None [(caption_meta 7 ''u1'' 0 1 ''a.txt'' 0 None None, ''data'')] []"
  by (rule recover_ignores_renames) (simp add: posted_event_def)

end
