(* ===== verification/Subtitles.thy ===== *)
theory Subtitles
  imports DbCoherence DbTables Captions Objects
begin

text \<open>
  \<^verbatim>\<open>src/src/anbar/subtitles.py\<close>: the subtitle tracks of a video, a JSON list in the kv table
  under \<open>subs:<id>\<close>, and the conversion of an uploaded SRT or WebVTT file. The regular
  expressions are written out as matchers; characters are those up to U+00FF, and the entries of a
  track list are the objects this module itself writes.
\<close>

section \<open>Sanitising\<close>

definition cut_span :: "string \<Rightarrow> (string \<times> string) option" where
  "cut_span s =
     (let body = takeWhile (\<lambda>c. c \<noteq> CHR ''>'' \<and> c \<noteq> CHR 0x0A) s in
      if length body \<le> 200 \<and> length body < length s \<and> s ! length body = CHR ''>''
      then Some (body, drop (length body + 1) s) else None)"

(* src: src/src/anbar/subtitles.py 25-25 _VTT_TAG_WHITELIST *)
definition vtt_tag :: "string \<Rightarrow> bool" where
  "vtt_tag body =
     (let b = lower (if startswith body ''/'' then drop 1 body else body) in
      list_ex (\<lambda>t. b = t \<or> (startswith b t \<and> length t < length b \<and> is_space (b ! length t)))
        [''i'', ''b'', ''u'', ''v'', ''c'', ''ruby'', ''rt'', ''rp''])"

lemma cut_span_shorter: "cut_span s = Some (b, r) \<Longrightarrow> length r < length s"
  by (auto simp: cut_span_def Let_def split: if_splits)

(* src: src/src/anbar/subtitles.py auto _sanitize_vtt *)
function sanitize_vtt :: "string \<Rightarrow> string" where
  "sanitize_vtt [] = []"
| "sanitize_vtt (c # cs) =
     (if c = CHR ''<'' then
        (case cut_span cs of
           None \<Rightarrow> c # sanitize_vtt cs
         | Some (body, rest) \<Rightarrow>
             if vtt_tag body then c # body @ CHR ''>'' # sanitize_vtt rest
             else ''&lt;'' @ body @ ''&gt;'' @ sanitize_vtt rest)
      else c # sanitize_vtt cs)"
  by pat_completeness auto
termination
  by (relation "measure length") (auto dest: cut_span_shorter)

section \<open>SRT\<close>

text \<open>One match of \<^verbatim>\<open>_SRT_TS\<close> at the head of the text: its replacement and the text after it.\<close>

definition two_digits :: "char \<Rightarrow> char \<Rightarrow> bool" where
  "two_digits a b = (is_digit a \<and> is_digit b)"

definition pad2 :: "nat \<Rightarrow> string" where
  "pad2 n = replicate (2 - length (str_of_nat n)) (CHR ''0'') @ str_of_nat n"

(* src: src/src/anbar/subtitles.py 29-29 _SRT_TS *)
definition srt_ts :: "string \<Rightarrow> (string \<times> string) option" where
  "srt_ts s =
     (let h = takeWhile is_digit s in
      if h = [] \<or> 3 < length h then None
      else (case drop (length h) s of
              k1 # m1 # m2 # k2 # s1 # s2 # sep # r \<Rightarrow>
                if k1 = CHR '':'' \<and> two_digits m1 m2 \<and> k2 = CHR '':'' \<and> two_digits s1 s2
                   \<and> sep \<in> {CHR '','', CHR ''.'', CHR '':''} \<and> takeWhile is_digit r \<noteq> []
                then let ms = take 3 (takeWhile is_digit r) in
                  Some (pad2 (digits_val h) @ '':'' @ [m1, m2] @ '':'' @ [s1, s2] @ ''.''
                          @ ms @ replicate (3 - length ms) (CHR ''0''),
                        drop (length ms) r)
                else None
            | _ \<Rightarrow> None))"

lemma srt_ts_shorter: "srt_ts s = Some (a, r) \<Longrightarrow> length r < length s"
proof -
  assume a: "srt_ts s = Some (a, r)"
  then have "\<exists>k1 m1 m2 k2 s1 s2 sep r' n. drop (length (takeWhile is_digit s)) s = k1 # m1 # m2 # k2 # s1 # s2 # sep # r' \<and> r = drop n r'"
    by (auto simp: srt_ts_def Let_def split: if_splits list.splits)
  then obtain k1 m1 m2 k2 s1 s2 sep r' n where
    d: "drop (length (takeWhile is_digit s)) s = k1 # m1 # m2 # k2 # s1 # s2 # sep # r'" and r: "r = drop n r'" by blast
  have "length r' < length (drop (length (takeWhile is_digit s)) s)" unfolding d by simp
  also have "\<dots> \<le> length s" by simp
  finally show ?thesis using r by simp
qed

(* src: src/src/anbar/subtitles.py 49-51 _convert_srt *)
function srt_sub :: "string \<Rightarrow> string" where
  "srt_sub [] = []"
| "srt_sub (c # cs) =
     (case srt_ts (c # cs) of
        Some (rep, rest) \<Rightarrow> rep @ srt_sub rest
      | None \<Rightarrow> c # srt_sub cs)"
  by pat_completeness auto
termination
  by (relation "measure length") (auto dest: srt_ts_shorter)

(* src: src/src/anbar/subtitles.py auto _convert_srt *)
definition convert_srt :: "string \<Rightarrow> string" where
  "convert_srt text =
     ''WEBVTT'' @ [CHR 0x0A, CHR 0x0A]
     @ strip_by (\<lambda>c. c = CHR 0x0A)
         (join [CHR 0x0A] (map (\<lambda>l. if contains_str ''-->'' l then srt_sub l else l) (split_on (CHR 0x0A) text)))
     @ [CHR 0x0A]"

text \<open>\<^verbatim>\<open>data.decode("utf-8-sig")\<close> and the normalisation of line ends.\<close>

definition decode_sig :: "string \<Rightarrow> string option" where
  "decode_sig data =
     utf8_decode (if startswith data [CHR 0xEF, CHR 0xBB, CHR 0xBF] then drop 3 data else data)"

fun unify_newlines :: "string \<Rightarrow> string" where
  "unify_newlines [] = []"
| "unify_newlines [c] = [if c = CHR 0x0D then CHR 0x0A else c]"
| "unify_newlines (c # d # cs) =
     (if c = CHR 0x0D \<and> d = CHR 0x0A then CHR 0x0A # unify_newlines cs
      else (if c = CHR 0x0D then CHR 0x0A else c) # unify_newlines (d # cs))"

(* src: src/src/anbar/subtitles.py 21-21 MAX_SUB_BYTES *)
definition MAX_SUB_BYTES :: nat where "MAX_SUB_BYTES = 2 * 1024 * 1024"

(* src: src/src/anbar/subtitles.py 68-82 parse_subtitle *)
definition parse_text :: "string \<Rightarrow> string res" where
  "parse_text data =
     (case decode_sig data of
        None \<Rightarrow> Inl (ValueError ''subtitle must be UTF-8 text'')
      | Some t0 \<Rightarrow>
          let text = unify_newlines t0; vtt = startswith (lstrip_by is_space text) ''WEBVTT'' in
          if \<not> vtt \<and> \<not> contains_str ''-->'' text then Inl (ValueError ''no cues found'')
          else let out = sanitize_vtt (if vtt then text else convert_srt text) in
            if \<not> contains_str ''-->'' out then Inl (ValueError ''no cues found'') else Inr out)"

(* src: src/src/anbar/subtitles.py 61-67 parse_subtitle *)
definition parse_subtitle :: "string \<Rightarrow> string res" where
  "parse_subtitle data =
     (if length data > MAX_SUB_BYTES then Inl (ValueError ''subtitle file too large (max 2 MB)'') else parse_text data)"

lemma parse_small: "length data \<le> MAX_SUB_BYTES \<Longrightarrow> parse_subtitle data = parse_text data"
  by (simp add: parse_subtitle_def)

section \<open>Names\<close>

definition is_letter :: "char \<Rightarrow> bool" where
  "is_letter c = (65 \<le> code c \<and> code c \<le> 90 \<or> 97 \<le> code c \<and> code c \<le> 122)"

definition sub_ext :: "string \<Rightarrow> bool" where
  "sub_ext s = (lower s \<in> {''.srt'', ''.vtt'', ''.srt'' @ [CHR 0x0A], ''.vtt'' @ [CHR 0x0A]})"

text \<open>\<^verbatim>\<open>_LANG_FROM_NAME\<close> at a position: the choices of the pattern in the order it tries them.\<close>

(* src: src/src/anbar/subtitles.py 31-33 _LANG_FROM_NAME *)
definition lang_at :: "string \<Rightarrow> string option" where
  "lang_at s =
     (case s of [] \<Rightarrow> None | c # cs \<Rightarrow>
        if c \<notin> {CHR ''.'', CHR ''['', CHR '' ''} then None
        else map_option (\<lambda>(k, j, b). take (k + j) cs)
          (find (\<lambda>(k, j, b).
              length cs \<ge> k + j + b \<and> list_all is_letter (take k cs)
              \<and> (j > 0 \<longrightarrow> cs ! k = CHR ''-'' \<and> list_all is_letter (take (j - 1) (drop (k + 1) cs)))
              \<and> (b > 0 \<longrightarrow> cs ! (k + j) \<in> {CHR ''.'', CHR '']''})
              \<and> sub_ext (drop (k + j + b) cs))
            [(k, j, b). k \<leftarrow> [3, 2], j \<leftarrow> [5, 4, 3, 0], b \<leftarrow> [1, 0]]))"

fun lang_search :: "nat \<Rightarrow> string \<Rightarrow> (nat \<times> string) option" where
  "lang_search n [] = None"
| "lang_search n (c # cs) =
     (case lang_at (c # cs) of Some l \<Rightarrow> Some (n, l) | None \<Rightarrow> lang_search (n + 1) cs)"

definition drop_ext :: "string \<Rightarrow> string" where
  "drop_ext nm =
     (if length nm \<ge> 4 \<and> lower (drop (length nm - 4) nm) \<in> {''.srt'', ''.vtt''} then take (length nm - 4) nm
      else if length nm \<ge> 5 \<and> sub_ext (drop (length nm - 5) nm) then take (length nm - 5) nm @ [CHR 0x0A]
      else nm)"

(* src: src/src/anbar/subtitles.py auto _meta_from_filename *)
definition meta_from_filename :: "string \<Rightarrow> string \<times> string" where
  "meta_from_filename filename =
     (let nm = last_piece (CHR 0x5C) (last_piece (CHR ''/'') (if filename = [] then ''subtitle'' else filename));
          (lang, label) = (case lang_search 0 nm of
             Some (p, l) \<Rightarrow>
               (lower l, let b = strip_by (\<lambda>c. c \<in> {CHR ''.'', CHR ''['', CHR '' ''}) (take p nm) in
                         if b = [] then nm else b)
           | None \<Rightarrow> ([], drop_ext nm));
          label = strip label
      in (lang, if label = [] then ''subtitle'' else label))"

section \<open>The tracks of an object\<close>

definition subs_key :: "string \<Rightarrow> string" where "subs_key i = ''subs:'' @ i"

(* src: src/src/anbar/subtitles.py 22-22 MAX_TRACKS *)
definition MAX_TRACKS :: nat where "MAX_TRACKS = 16"

(* src: src/src/anbar/subtitles.py auto load *)
definition load_tracks :: "db \<Rightarrow> string \<Rightarrow> json list" where
  "load_tracks d i =
     (if \<not> truthy_str (kv_get d (subs_key i)) then []
      else (case loads (the (kv_get d (subs_key i))) of Some (JList js) \<Rightarrow> js | _ \<Rightarrow> []))"

(* src: src/src/anbar/subtitles.py auto _save *)
definition save_tracks :: "string \<Rightarrow> json list \<Rightarrow> db \<Rightarrow> db" where
  "save_tracks i ts d = kv_set (subs_key i) (dumps_uni (JList ts)) d"

definition jset :: "string \<Rightarrow> json \<Rightarrow> json \<Rightarrow> json" where
  "jset k v j = (case j of JObj kvs \<Rightarrow> JObj (AList.update k v kvs) | _ \<Rightarrow> j)"

definition jflag :: "json \<Rightarrow> string \<Rightarrow> bool" where
  "jflag t k = (case jget t k of None \<Rightarrow> False | Some v \<Rightarrow> jtruthy v)"

(* src: src/src/anbar/subtitles.py auto public_view *)
definition public_view :: "json \<Rightarrow> json res" where
  "public_view t =
     rbind (j_item t ''id'') (\<lambda>i. Inr (JObj
       [(''id'', i), (''lang'', case jget t ''lang'' of None \<Rightarrow> JStr [] | Some v \<Rightarrow> v),
        (''label'', case jget t ''label'' of None \<Rightarrow> JStr [] | Some v \<Rightarrow> v), (''default'', JBool (jflag t ''default''))]))"

definition has_id :: "string \<Rightarrow> json \<Rightarrow> bool" where
  "has_id tid t = (jget t ''id'' = Some (JStr tid))"

definition clear_default :: "json \<Rightarrow> json" where
  "clear_default = jset ''default'' (JBool False)"

(* src: src/src/anbar/subtitles.py 140-146 add *)
definition track_json :: "string \<Rightarrow> string \<Rightarrow> string \<Rightarrow> bool \<Rightarrow> string \<Rightarrow> json" where
  "track_json tid lang label dflt vtt =
     JObj [(''id'', JStr tid), (''lang'', JStr lang), (''label'', JStr label), (''default'', JBool dflt), (''vtt'', JStr vtt)]"

(* src: src/src/anbar/subtitles.py auto add *)
definition add_track :: "string \<Rightarrow> string \<Rightarrow> string \<Rightarrow> string \<Rightarrow> bool \<Rightarrow> string option \<Rightarrow> db \<Rightarrow> db \<times> json res" where
  "add_track token i filename data dflt lang d =
     (let tracks = load_tracks d i in
      if length tracks \<ge> MAX_TRACKS then (d, Inl (ValueError ''too many subtitle tracks''))
      else (case parse_subtitle data of
         Inl e \<Rightarrow> (d, Inl e)
       | Inr vtt \<Rightarrow>
           let (file_lang, label) = meta_from_filename filename;
               lang = take 16 (lower (strip (str_or lang file_lang)));
               dflt = (dflt \<or> tracks = []);
               entry = track_json (''s'' @ token) lang label dflt vtt
           in (save_tracks i ((if dflt then map clear_default tracks else tracks) @ [entry]) d, public_view entry)))"

(* src: src/src/anbar/subtitles.py auto get_vtt *)
definition get_vtt :: "db \<Rightarrow> string \<Rightarrow> string \<Rightarrow> json option res" where
  "get_vtt d i tid =
     (case find (has_id tid) (load_tracks d i) of
        None \<Rightarrow> Inr None | Some t \<Rightarrow> rbind (j_item t ''vtt'') (\<lambda>v. Inr (Some v)))"

text \<open>The fields of the request that are present; \<^verbatim>\<open>str(x or "")\<close> has been taken.\<close>

record track_patch =
  tp_label :: "string option"
  tp_lang :: "string option"
  tp_default :: "bool option"

text \<open>\<open>with_first f P ts\<close> changes the first track that satisfies \<open>P\<close>.\<close>

fun with_first :: "(json \<Rightarrow> json) \<Rightarrow> (json \<Rightarrow> bool) \<Rightarrow> json list \<Rightarrow> json list" where
  "with_first f P [] = []"
| "with_first f P (t # ts) = (if P t then f t # ts else t # with_first f P ts)"

(* src: src/src/anbar/subtitles.py auto update *)
definition update_track :: "string \<Rightarrow> string \<Rightarrow> track_patch \<Rightarrow> db \<Rightarrow> db \<times> json option res" where
  "update_track i tid p d =
     (let tracks = load_tracks d i in
      case find (has_id tid) tracks of
        None \<Rightarrow> (d, Inr None)
      | Some t0 \<Rightarrow>
          if (case tp_label p of None \<Rightarrow> False | Some l \<Rightarrow> strip l = [])
          then (d, Inl (ValueError ''label must not be empty''))
          else let f = (\<lambda>t. case tp_label p of None \<Rightarrow> t | Some l \<Rightarrow> jset ''label'' (JStr (take 80 (strip l))) t);
                   g = (\<lambda>t. case tp_lang p of None \<Rightarrow> t | Some l \<Rightarrow> jset ''lang'' (JStr (take 16 (lower (strip l)))) t);
                   ts = with_first (g \<circ> f) (has_id tid) tracks;
                   ts = (if tp_default p = Some True
                         then with_first (jset ''default'' (JBool True)) (has_id tid) (map clear_default ts) else ts)
               in (save_tracks i ts d,
                   case find (has_id tid) ts of None \<Rightarrow> Inr None | Some t \<Rightarrow> rbind (public_view t) (\<lambda>v. Inr (Some v))))"

(* src: src/src/anbar/subtitles.py auto delete *)
definition delete_track :: "string \<Rightarrow> string \<Rightarrow> db \<Rightarrow> db \<times> bool" where
  "delete_track i tid d =
     (let tracks = load_tracks d i; gone = filter (has_id tid) tracks; rest = filter (\<lambda>t. \<not> has_id tid t) tracks in
      if gone = [] then (d, False)
      else (save_tracks i
        (if jflag (last gone) ''default'' \<and> rest \<noteq> []
         then jset ''default'' (JBool True) (clear_default (hd rest)) # map clear_default (tl rest) else rest) d, True))"

(* src: src/src/anbar/subtitles.py auto drop_for *)
definition drop_subs :: "string \<Rightarrow> db \<Rightarrow> db" where
  "drop_subs i d = kv_delete (subs_key i) d"

section \<open>One default track\<close>

text \<open>The abstract state: a list of tracks with ids; exactly one is the default when there are any.\<close>

definition track_ok :: "json \<Rightarrow> bool" where
  "track_ok t = (\<exists>tid lang label dflt vtt. t = track_json tid lang label dflt vtt)"

definition tracks_ok :: "json list \<Rightarrow> bool" where
  "tracks_ok ts = ((\<forall>t \<in> set ts. track_ok t) \<and> distinct (map (\<lambda>t. jget t ''id'') ts)
     \<and> (ts \<noteq> [] \<longrightarrow> length (filter (\<lambda>t. jflag t ''default'') ts) = 1) \<and> length ts \<le> MAX_TRACKS)"

lemma jwf_track: "track_ok t \<Longrightarrow> jwf t"
  by (auto simp: track_ok_def track_json_def)

lemma load_save: "\<forall>t \<in> set ts. track_ok t \<Longrightarrow> load_tracks (save_tracks i ts d) j = (if j = i then ts else load_tracks d j)"
proof -
  assume "\<forall>t \<in> set ts. track_ok t"
  then have "jwf (JList ts)" using jwf_track by simp
  then have "loads (dumps_uni (JList ts)) = Some (JList ts)" by (rule loads_dumps)
  moreover have "dumps_uni (JList ts) \<noteq> []" by (simp add: dumps_uni_def)
  ultimately show ?thesis by (auto simp: load_tracks_def save_tracks_def kv_simps subs_key_def)
qed

lemma track_ok_jset:
  assumes "track_ok t"
  shows "track_ok (clear_default t)" "track_ok (jset ''default'' (JBool True) t)"
    "track_ok (jset ''label'' (JStr x) t)" "track_ok (jset ''lang'' (JStr x) t)"
    "jflag (clear_default t) ''default'' = False" "jflag (jset ''default'' (JBool True) t) ''default'' = True"
    "jget (clear_default t) ''id'' = jget t ''id''" "jget (jset ''default'' (JBool True) t) ''id'' = jget t ''id''"
    "jget (jset ''label'' (JStr x) t) ''id'' = jget t ''id''" "jget (jset ''lang'' (JStr x) t) ''id'' = jget t ''id''"
    "jflag (jset ''label'' (JStr x) t) ''default'' = jflag t ''default''"
    "jflag (jset ''lang'' (JStr x) t) ''default'' = jflag t ''default''"
  using assms by (auto simp: track_ok_def track_json_def clear_default_def jset_def jflag_def jtruthy_def)

abbreviation is_default :: "json \<Rightarrow> bool" where
  "is_default t \<equiv> jflag t ''default''"

definition on_id :: "string \<Rightarrow> (json \<Rightarrow> json) \<Rightarrow> json list \<Rightarrow> json list" where
  "on_id tid f ts = map (\<lambda>t. if has_id tid t then f t else t) ts"

lemma id_not_again:
  "jget t ''id'' \<notin> (\<lambda>t. jget t ''id'') ` set ts \<Longrightarrow> has_id tid t \<Longrightarrow> y \<in> set ts \<Longrightarrow> \<not> has_id tid y"
  unfolding has_id_def by (metis imageI)

lemma with_first_on_id:
  "distinct (map (\<lambda>t. jget t ''id'') ts) \<Longrightarrow> with_first f (has_id tid) ts = on_id tid f ts"
proof (induction ts)
  case (Cons t ts)
  show ?case
  proof (cases "has_id tid t")
    case True
    have "\<not> has_id tid y" if "y \<in> set ts" for y
      using id_not_again [OF _ True that] Cons.prems by simp
    then have "map (\<lambda>t. if has_id tid t then f t else t) ts = ts" by (intro map_idI) simp
    then show ?thesis using True by (simp add: on_id_def)
  next
    case False
    then show ?thesis using Cons by (simp add: on_id_def)
  qed
qed (simp add: on_id_def)

lemma on_id_ids: "(\<And>t. t \<in> set ts \<Longrightarrow> jget (f t) ''id'' = jget t ''id'') \<Longrightarrow>
    map (\<lambda>t. jget t ''id'') (on_id tid f ts) = map (\<lambda>t. jget t ''id'') ts"
  by (auto simp: on_id_def)

lemma one_with_id:
  assumes "distinct (map (\<lambda>t. jget t ''id'') ts)" and "find (has_id tid) ts = Some t"
  shows "filter (has_id tid) ts = [t]"
  using assms
proof (induction ts)
  case (Cons x ts)
  show ?case
  proof (cases "has_id tid x")
    case True
    have "\<not> has_id tid y" if "y \<in> set ts" for y
      using id_not_again [OF _ True that] Cons.prems(1) by simp
    then have "filter (has_id tid) ts = []" by (simp add: filter_empty_conv)
    with True Cons.prems(2) show ?thesis by simp
  qed (use Cons in auto)
qed simp

lemma count_by_flag: "map P xs = map Q ys \<Longrightarrow> length (filter P xs) = length (filter Q ys)"
proof -
  assume "map P xs = map Q ys"
  then have "length (filter (\<lambda>b. b) (map P xs)) = length (filter (\<lambda>b. b) (map Q ys))" by simp
  then show ?thesis by (simp add: filter_map o_def)
qed

text \<open>A change of a track that keeps its id and its default flag.\<close>

lemma tracks_ok_on_id:
  assumes "tracks_ok ts"
    and "\<And>t. track_ok t \<Longrightarrow> track_ok (f t) \<and> jget (f t) ''id'' = jget t ''id'' \<and> is_default (f t) = is_default t"
  shows "tracks_ok (on_id tid f ts)"
proof -
  have "map is_default (on_id tid f ts) = map is_default ts"
    using assms by (auto simp: on_id_def tracks_ok_def)
  then have "length (filter is_default (on_id tid f ts)) = length (filter is_default ts)"
    by (rule count_by_flag)
  moreover have "map (\<lambda>t. jget t ''id'') (on_id tid f ts) = map (\<lambda>t. jget t ''id'') ts"
    using assms by (intro on_id_ids) (auto simp: tracks_ok_def)
  moreover have "\<forall>t \<in> set (on_id tid f ts). track_ok t" using assms by (auto simp: on_id_def tracks_ok_def)
  ultimately show ?thesis using assms(1) by (auto simp: tracks_ok_def) (simp_all add: on_id_def)
qed


lemma tracks_ok_subs:
  "tracks_ok [] " "tracks_ok (t # ts) \<Longrightarrow> track_ok t"
  by (auto simp: tracks_ok_def)

text \<open>The tracks of a list with its flags cleared, and one new default at the end or in front.\<close>

lemma clear_all:
  assumes "\<forall>t \<in> set ts. track_ok t"
  shows "filter is_default (map clear_default ts) = []" "map (\<lambda>t. jget t ''id'') (map clear_default ts) = map (\<lambda>t. jget t ''id'') ts"
    "\<forall>t \<in> set (map clear_default ts). track_ok t"
    "map ((\<lambda>t. jget t ''id'') \<circ> clear_default) ts = map (\<lambda>t. jget t ''id'') ts"
  using assms by (auto simp: filter_empty_conv track_ok_jset)

lemma tracks_ok_append:
  assumes "tracks_ok ts" and "length ts < MAX_TRACKS" and "JStr tid \<notin> {v. \<exists>t \<in> set ts. jget t ''id'' = Some v}"
  shows "tracks_ok ((if dflt \<or> ts = [] then map clear_default ts else ts) @ [track_json tid lang label (dflt \<or> ts = []) vtt])"
proof -
  let ?e = "track_json tid lang label (dflt \<or> ts = []) vtt"
  have e: "track_ok ?e" "jget ?e ''id'' = Some (JStr tid)" "is_default ?e = (dflt \<or> ts = [])"
    by (auto simp: track_ok_def track_json_def jflag_def jtruthy_def)
  have ok: "\<forall>t \<in> set ts. track_ok t" using assms(1) by (simp add: tracks_ok_def)
  have fresh: "Some (JStr tid) \<notin> set (map (\<lambda>t. jget t ''id'') ts)" using assms(3) by force
  note c = clear_all [OF ok]
  show ?thesis
  proof (cases "dflt \<or> ts = []")
    case True
    have "length (filter is_default (map clear_default ts @ [?e])) = 1" using c(1) e(3) True by (simp only: filter_append) simp
    moreover have "distinct (map (\<lambda>t. jget t ''id'') (map clear_default ts @ [?e]))"
      using assms(1) fresh e(2) unfolding map_append c(2) by (simp add: tracks_ok_def)
    ultimately show ?thesis using True c(3) e(1) assms(2) by (simp add: tracks_ok_def)
  next
    case False
    then show ?thesis using assms fresh e ok by (simp add: tracks_ok_def)
  qed
qed

lemma has_id_kept: "jget u ''id'' = jget t ''id'' \<Longrightarrow> has_id tid u = has_id tid t"
  by (simp add: has_id_def)

lemma tracks_ok_default:
  assumes "tracks_ok ts" and "find (has_id tid) ts = Some t"
  shows "tracks_ok (on_id tid (jset ''default'' (JBool True)) (map clear_default ts))" (is "tracks_ok ?us")
proof -
  have ok: "\<forall>t \<in> set ts. track_ok t" using assms(1) by (simp add: tracks_ok_def)
  have h: "has_id tid (clear_default x) = has_id tid x" if "x \<in> set ts" for x
    using ok that by (intro has_id_kept) (simp add: track_ok_jset)
  have "map is_default ?us = map (has_id tid) ts"
    using ok h by (auto simp: on_id_def track_ok_jset)
  then have "length (filter is_default ?us) = 1" using count_by_flag one_with_id assms by (fastforce simp: tracks_ok_def)
  moreover have "map (\<lambda>t. jget t ''id'') ?us = map (\<lambda>t. jget t ''id'') ts"
  proof -
    have "map (\<lambda>t. jget t ''id'') ?us = map (\<lambda>t. jget t ''id'') (map clear_default ts)"
      using clear_all(3) [OF ok] by (intro on_id_ids track_ok_jset(8)) (rule bspec)
    then show ?thesis using clear_all(2) [OF ok] by simp
  qed
  moreover have "\<forall>t \<in> set ?us. track_ok t" using ok by (auto simp: on_id_def track_ok_jset)
  moreover have "length ?us = length ts" by (simp add: on_id_def)
  ultimately show ?thesis using assms(1) unfolding tracks_ok_def by simp
qed

lemma load_save_ok: "tracks_ok ts \<Longrightarrow> load_tracks (save_tracks i ts d) j = (if j = i then ts else load_tracks d j)"
  unfolding tracks_ok_def by (intro load_save) (rule conjunct1)

lemma filter_split_count: "length (filter P (filter Q xs)) + length (filter P (filter (\<lambda>x. \<not> Q x) xs)) = length (filter P xs)"
  by (induction xs) auto

lemma tracks_ok_delete:
  assumes "tracks_ok ts" and "find (has_id tid) ts = Some t"
    and rest: "rest = filter (\<lambda>t. \<not> has_id tid t) ts"
  shows "tracks_ok (if is_default t \<and> rest \<noteq> []
    then jset ''default'' (JBool True) (clear_default (hd rest)) # map clear_default (tl rest) else rest)"
proof -
  have ok: "\<forall>t \<in> set rest. track_ok t" using assms(1) rest by (auto simp: tracks_ok_def)
  have d: "distinct (map (\<lambda>t. jget t ''id'') rest)" using assms(1) unfolding rest tracks_ok_def by (simp add: distinct_map_filter)
  have l: "length rest \<le> MAX_TRACKS" using assms(1) length_filter_le [of "\<lambda>t. \<not> has_id tid t" ts] unfolding rest tracks_ok_def by linarith
  have one: "filter (has_id tid) ts = [t]" using assms one_with_id by (auto simp: tracks_ok_def)
  have "ts \<noteq> []" using one by auto
  then have cnt: "length (filter is_default ts) = 1" using assms(1) by (simp add: tracks_ok_def)
  show ?thesis
  proof (cases "is_default t")
    case False
    then have "length (filter is_default rest) = 1"
      using filter_split_count [of is_default "has_id tid" ts] one cnt unfolding rest by simp
    with False ok d l show ?thesis by (simp add: tracks_ok_def)
  next
    case True
    show ?thesis
    proof (cases rest)
      case Nil
      then show ?thesis by (simp add: tracks_ok_def)
    next
      case (Cons x xs)
      have "tracks_ok (jset ''default'' (JBool True) (clear_default x) # map clear_default xs)"
        using ok d l clear_all [of xs] unfolding Cons
        by (simp add: tracks_ok_def track_ok_jset del: map_map)
      with True Cons show ?thesis by simp
    qed
  qed
qed

text \<open>The operations on the registry of any object, in any order.  The token of a new track is
  random; it is assumed new among the tracks of that object.\<close>

inductive sub_step :: "db \<Rightarrow> db \<Rightarrow> bool" where
  added: "filter (has_id (''s'' @ token)) (load_tracks d i) = [] \<Longrightarrow> sub_step d (fst (add_track token i filename data dflt lang d))"
| updated: "sub_step d (fst (update_track i tid p d))"
| deleted: "sub_step d (fst (delete_track i tid d))"
| dropped: "sub_step d (drop_subs i d)"

lemma load_drop: "load_tracks (drop_subs i d) j = (if j = i then [] else load_tracks d j)"
  by (auto simp: load_tracks_def drop_subs_def kv_simps subs_key_def)

lemma add_keeps:
  assumes "tracks_ok (load_tracks d i)" and "filter (has_id (''s'' @ token)) (load_tracks d i) = []"
  shows "tracks_ok (load_tracks (fst (add_track token i filename data dflt lang d)) i)"
proof -
  have new: "JStr (''s'' @ token) \<notin> {v. \<exists>t \<in> set (load_tracks d i). jget t ''id'' = Some v}"
    using assms(2) by (auto simp: filter_empty_conv has_id_def)
  show ?thesis
  proof (cases "length (load_tracks d i) < MAX_TRACKS")
    case True
    note k = tracks_ok_append [OF assms(1) True new]
    obtain fl label where m: "meta_from_filename filename = (fl, label)" by (cases "meta_from_filename filename")
    show ?thesis
    proof (cases "parse_subtitle data")
      case (Inr vtt)
      have "fst (add_track token i filename data dflt lang d) = save_tracks i
          ((if dflt \<or> load_tracks d i = [] then map clear_default (load_tracks d i) else load_tracks d i)
           @ [track_json (''s'' @ token) (take 16 (lower (strip (str_or lang fl)))) label (dflt \<or> load_tracks d i = []) vtt]) d"
        using True Inr m by (simp add: add_track_def Let_def)
      then show ?thesis using load_save_ok [OF k] k by simp
    qed (use True assms(1) in \<open>simp add: add_track_def Let_def\<close>)
  qed (use assms(1) in \<open>simp add: add_track_def\<close>)
qed

lemma update_keeps:
  assumes "tracks_ok (load_tracks d i)"
  shows "tracks_ok (load_tracks (fst (update_track i tid p d)) i)"
proof (cases "find (has_id tid) (load_tracks d i)")
  case (Some t)
  let ?ts = "load_tracks d i"
  define h where "h = (\<lambda>t. case tp_lang p of None \<Rightarrow> t | Some l \<Rightarrow> jset ''lang'' (JStr (take 16 (lower (strip l)))) t)
    \<circ> (\<lambda>t. case tp_label p of None \<Rightarrow> t | Some l \<Rightarrow> jset ''label'' (JStr (take 80 (strip l))) t)"
  have h: "track_ok (h x) \<and> jget (h x) ''id'' = jget x ''id'' \<and> is_default (h x) = is_default x" if "track_ok x" for x
    using that by (simp add: h_def track_ok_jset split: option.split)
  have dist: "distinct (map (\<lambda>t. jget t ''id'') ?ts)" using assms by (simp add: tracks_ok_def)
  have u: "with_first h (has_id tid) ?ts = on_id tid h ?ts" using dist by (rule with_first_on_id)
  have ok: "tracks_ok (on_id tid h ?ts)" using assms h by (rule tracks_ok_on_id)
  have "filter (has_id tid) (on_id tid h ?ts) \<noteq> []"
  proof -
    have "t \<in> set ?ts" "has_id tid t" using one_with_id [OF dist Some] by (metis filter_eq_Cons_iff in_set_conv_decomp)+
    moreover from this have "has_id tid (h t)" using h assms by (simp add: tracks_ok_def has_id_def)
    ultimately have "h t \<in> set (on_id tid h ?ts)" and "has_id tid (h t)" by (auto simp: on_id_def)
    then show ?thesis by (metis filter_empty_conv)
  qed
  then obtain t' where t': "find (has_id tid) (on_id tid h ?ts) = Some t'"
    by (metis filter_empty_conv find_None_iff2 option.exhaust)
  have ok2: "tracks_ok (with_first (jset ''default'' (JBool True)) (has_id tid) (map clear_default (on_id tid h ?ts)))"
  proof -
    have "distinct (map (\<lambda>t. jget t ''id'') (map clear_default (on_id tid h ?ts)))"
      using ok clear_all [of "on_id tid h ?ts"] by (simp add: tracks_ok_def del: map_map)
    then show ?thesis using tracks_ok_default [OF ok t'] by (simp only: with_first_on_id)
  qed
  have "fst (update_track i tid p d) = d \<or> fst (update_track i tid p d) = save_tracks i (on_id tid h ?ts) d \<or>
      fst (update_track i tid p d) = save_tracks i (with_first (jset ''default'' (JBool True)) (has_id tid) (map clear_default (on_id tid h ?ts))) d"
    using Some u by (simp add: update_track_def Let_def h_def)
  then show ?thesis using assms ok ok2 load_save_ok by auto
qed (use assms in \<open>simp add: update_track_def\<close>)

lemma delete_keeps:
  assumes "tracks_ok (load_tracks d i)"
  shows "tracks_ok (load_tracks (fst (delete_track i tid d)) i)"
proof (cases "find (has_id tid) (load_tracks d i)")
  case (Some t)
  have one: "filter (has_id tid) (load_tracks d i) = [t]" using one_with_id Some assms by (auto simp: tracks_ok_def)
  note k = tracks_ok_delete [OF assms Some refl]
  show ?thesis using one load_save_ok [OF k] k by (simp add: delete_track_def Let_def)
next
  case None
  then have "filter (has_id tid) (load_tracks d i) = []" by (simp add: filter_empty_conv find_None_iff)
  then show ?thesis using assms by (simp add: delete_track_def)
qed

lemma other_object:
  "j \<noteq> i \<Longrightarrow> load_tracks (save_tracks i ts d) j = load_tracks d j"
  by (simp add: load_tracks_def save_tracks_def kv_simps subs_key_def)

lemma step_other:
  "j \<noteq> i \<Longrightarrow> load_tracks (fst (add_track token i filename data dflt lang d)) j = load_tracks d j"
  "j \<noteq> i \<Longrightarrow> load_tracks (fst (update_track i tid p d)) j = load_tracks d j"
  "j \<noteq> i \<Longrightarrow> load_tracks (fst (delete_track i tid d)) j = load_tracks d j"
  by (auto simp: add_track_def update_track_def delete_track_def Let_def other_object split: sum.split option.split prod.split)

lemma sub_step_keeps: "sub_step d d' \<Longrightarrow> tracks_ok (load_tracks d j) \<Longrightarrow> tracks_ok (load_tracks d' j)"
proof (induction rule: sub_step.induct)
  case (added token d i filename data dflt lang)
  then show ?case using add_keeps step_other(1) by (cases "j = i") simp_all
next
  case (updated d i tid p)
  then show ?case using update_keeps step_other(2) by (cases "j = i") simp_all
next
  case (deleted d i tid)
  then show ?case using delete_keeps step_other(3) by (cases "j = i") simp_all
qed (simp add: load_drop tracks_ok_subs)

text \<open>Also: whatever is added, changed, deleted or dropped, an object that has subtitle tracks has
  exactly one default track, at most 16 tracks, and no two with the same id.\<close>

theorem one_default_track:
  "sub_step\<^sup>*\<^sup>* d d' \<Longrightarrow> load_tracks d j = [] \<Longrightarrow> load_tracks d' j \<noteq> [] \<Longrightarrow>
    length (filter (\<lambda>t. jflag t ''default'') (load_tracks d' j)) = 1 \<and> length (load_tracks d' j) \<le> 16
    \<and> distinct (map (\<lambda>t. jget t ''id'') (load_tracks d' j))"
proof -
  assume run: "sub_step\<^sup>*\<^sup>* d d'" and init: "load_tracks d j = []" and ne: "load_tracks d' j \<noteq> []"
  have "tracks_ok (load_tracks d' j)" using run
    by (induction rule: rtranclp_induct) (use init sub_step_keeps in \<open>auto simp: tracks_ok_subs\<close>)
  with ne show ?thesis by (simp add: tracks_ok_def MAX_TRACKS_def)
qed

theorem one_default_track_witness:
  "(let d = fst (add_track ''1f'' ''x'' ''a.vtt'' ''WEBVTT -->'' False None db_empty);
        d' = fst (delete_track ''x'' ''nosuch'' d)
    in length (filter (\<lambda>t. jflag t ''default'') (load_tracks d' ''x'')) = 1)"
proof -
  let ?ini = "db_empty"
  let ?d = "fst (add_track ''1f'' ''x'' ''a.vtt'' ''WEBVTT -->'' False None ?ini)"
  let ?d' = "fst (delete_track ''x'' ''nosuch'' ?d)"
  define vtt where "vtt = ''WEBVTT -->''"
  define t where "t = track_json (''s'' @ ''1f'') [] ''a'' True vtt"
  have p: "parse_subtitle ''WEBVTT -->'' = Inr vtt"
  proof -
    have "length ''WEBVTT -->'' \<le> MAX_SUB_BYTES" by (simp add: MAX_SUB_BYTES_def)
    then have "parse_subtitle ''WEBVTT -->'' = parse_text ''WEBVTT -->''" by (rule parse_small)
    also have "\<dots> = Inr ''WEBVTT -->''" by code_simp
    finally show ?thesis unfolding vtt_def .
  qed
  have l0: "load_tracks ?ini ''x'' = []" by (simp add: load_tracks_def kv_get_def db_empty_def)
  have m: "meta_from_filename ''a.vtt'' = ([], ''a'')" by code_simp
  have lang: "take 16 (lower (strip (str_or None []))) = []" by code_simp
  have d: "?d = save_tracks ''x'' [t] ?ini"
    unfolding add_track_def Let_def l0 p m t_def using lang by (simp add: MAX_TRACKS_def)
  have "\<forall>x \<in> set [t]. track_ok x" unfolding track_ok_def t_def by force
  note l = load_save [OF this]
  have n: "\<not> has_id ''nosuch'' t" by (simp add: has_id_def t_def track_json_def)
  have d': "?d' = ?d" unfolding d delete_track_def Let_def l by (simp add: n)
  have "filter (has_id (''s'' @ ''1f'')) (load_tracks ?ini ''x'') = []" unfolding l0 by simp
  then have "sub_step ?ini ?d" by (rule sub_step.added)
  then have run: "sub_step\<^sup>*\<^sup>* ?ini ?d'"
    by (rule converse_rtranclp_into_rtranclp [OF _ r_into_rtranclp [where r = sub_step, OF sub_step.deleted]])
  have ne: "load_tracks ?d' ''x'' \<noteq> []" unfolding d' unfolding d l by simp
  show ?thesis unfolding Let_def using one_default_track [OF run l0 ne] by (rule conjunct1)
qed

text \<open>Also: a span that starts with a second \<^verbatim>\<open><\<close> passes the sanitiser with a live tag.\<close>

theorem sanitizer_bypassed:
  "map_sum id (contains_str ''<img src=x onerror=y '') (parse_subtitle ''WEBVTT --> <<img src=x onerror=y >z>'') = Inr True
   \<and> sanitize_vtt ''<<img src=x onerror=y >z>'' = ''&lt;<img src=x onerror=y &gt;z>''"
proof
  show "map_sum id (contains_str ''<img src=x onerror=y '') (parse_subtitle ''WEBVTT --> <<img src=x onerror=y >z>'') = Inr True"
    by (subst parse_small, simp add: MAX_SUB_BYTES_def) code_simp
  show "sanitize_vtt ''<<img src=x onerror=y >z>'' = ''&lt;<img src=x onerror=y &gt;z>''" by code_simp
qed

end
