(* ===== verification/ObjectService.thy ===== *)
theory ObjectService
  imports Readers Storage Pool Captions DbTables Auth Links Subtitles
begin

text \<open>
  \<^verbatim>\<open>src/src/anbar/object_service.py\<close>: storing a stream as chunks over the members of a bot
  pool, the checkpoint of a resumable upload, the rollback, the commit of the object row and the
  purge of an object with its blobs. The backends are the operations \<open>store\<close> and \<open>delete\<close>, which
  take the name of the backend and act on a world \<open>'w\<close>; \<open>fetch\<close> is what a download calls.
\<close>

section \<open>The service\<close>

(* src: src/src/anbar/object_service.py 32-66 ObjectService.__init__ *)
record ('b, 'w) svc =
  sv_backend :: handle
  sv_db :: db
  sv_filename :: string
  sv_content_type :: "string option"
  sv_upload_id :: "string option"
  sv_chunks :: "chunk list"
  sv_total_size :: int
  sv_pool :: "pool option"
  sv_distribute :: bool
  sv_first_chunk :: "'b list"
  sv_ck_key :: "string option"
  sv_resume_from :: nat
  sv_skip :: nat
  sv_max_bytes :: "nat option"
  sv_world :: 'w
  sv_calls :: nat

(* src: src/src/anbar/object_service.py auto ObjectService.__init__ *)
definition svc_init :: "handle \<Rightarrow> db \<Rightarrow> string \<Rightarrow> string option \<Rightarrow> string option \<Rightarrow> nat \<Rightarrow> string \<Rightarrow> pool option \<Rightarrow> nat option
    \<Rightarrow> 'w \<Rightarrow> ('b, 'w) svc" where
  "svc_init backend d filename content_type upload_id resume_from checkpoint_prefix pool max_bytes w =
     (let ck = (if truthy_str upload_id then Some (checkpoint_prefix @ '':'' @ the upload_id) else None);
          rf = (if ck \<noteq> None then resume_from else 0)
      in \<lparr>sv_backend = backend, sv_db = d, sv_filename = filename, sv_content_type = content_type,
          sv_upload_id = upload_id, sv_chunks = [], sv_total_size = 0, sv_pool = pool,
          sv_distribute = (case pool of None \<Rightarrow> False | Some p \<Rightarrow> pool_size p > 1 \<and> pool_contains p backend),
          sv_first_chunk = [], sv_ck_key = ck, sv_resume_from = rf, sv_skip = rf, sv_max_bytes = max_bytes,
          sv_world = w, sv_calls = 0\<rparr>)"

text \<open>
  What a callback draws from outside: the clock and the random nonce and token, by the number of
  the callback and of the reading in it, and the bot file id the harvester finds for a message
  (an error of the harvester counts as none).
\<close>

record env =
  en_clock :: "nat \<Rightarrow> nat \<Rightarrow> time"
  en_keys :: keys
  en_nonce :: "nat \<Rightarrow> string"
  en_token :: "nat \<Rightarrow> nat \<Rightarrow> string"
  en_harvester :: "(nat \<Rightarrow> int \<Rightarrow> string option) option"
  en_hmac_secret :: "string option"
  en_chunk_size :: nat

section \<open>Checkpoints\<close>

text \<open>A stored entry becomes a chunk with its position as the index.\<close>

(* src: src/src/anbar/object_service.py 118-127 ObjectService.store_stream *)
definition prior_chunk :: "nat \<Rightarrow> json \<Rightarrow> chunk res" where
  "prior_chunk i c =
     rbind (rbind (j_item c ''s'') as_int) (\<lambda>s.
     rbind (rbind (j_item c ''f'') as_str) (\<lambda>f.
     rbind (get_int c ''m'') (\<lambda>m.
     rbind (get_str c ''k'') (\<lambda>k.
       Inr \<lparr>c_index = int i, c_size = s, c_file_id = f, c_message_id = m, c_bot_file_id = None, c_backend = k\<rparr>))))"

(* src: src/src/anbar/object_service.py auto ObjectService._load_prior_chunks *)
definition load_prior_chunks :: "('b, 'w) svc \<Rightarrow> json list res" where
  "load_prior_chunks s =
     (if sv_ck_key s = None \<or> sv_resume_from s = 0 then Inr []
      else rbind (case loads (str_or (kv_get (sv_db s) (the (sv_ck_key s))) []) of
                    None \<Rightarrow> Inr []
                  | Some (JObj kvs) \<Rightarrow> (case map_of kvs ''chunks'' of None \<Rightarrow> Inr [] | Some v \<Rightarrow> as_list v)
                  | Some v \<Rightarrow> as_list v)
             (\<lambda>prior. if length prior < sv_resume_from s then Inl ResumeOutOfRange
                      else Inr (take (sv_resume_from s) prior)))"

(* src: src/src/anbar/object_service.py 98-107 ObjectService._write_checkpoint *)
definition ck_chunk :: "chunk \<Rightarrow> json" where
  "ck_chunk c = JObj ([(''s'', JInt (c_size c)), (''f'', JStr (c_file_id c)),
      (''m'', case c_message_id c of None \<Rightarrow> JNull | Some m \<Rightarrow> JInt m)]
      @ (if truthy_str (c_backend c) then [(''k'', jstr_opt (c_backend c))] else []))"

(* src: src/src/anbar/object_service.py auto ObjectService._write_checkpoint *)
definition write_checkpoint :: "time \<Rightarrow> ('b, 'w) svc \<Rightarrow> ('b, 'w) svc" where
  "write_checkpoint now s =
     (case sv_ck_key s of
        None \<Rightarrow> s
      | Some k \<Rightarrow> s\<lparr>sv_db := kv_set k (dumps_compact (JObj [(''_ts'', JInt now),
            (''chunks'', JList (map ck_chunk (sv_chunks s)))])) (sv_db s)\<rparr>)"

(* src: src/src/anbar/object_service.py auto ObjectService.drop_checkpoint *)
definition drop_checkpoint :: "('b, 'w) svc \<Rightarrow> ('b, 'w) svc" where
  "drop_checkpoint s = (case sv_ck_key s of None \<Rightarrow> s | Some k \<Rightarrow> s\<lparr>sv_db := kv_delete k (sv_db s)\<rparr>)"

section \<open>Storing\<close>

text \<open>The name of a backend, and the backend that holds a chunk by the name in its row.\<close>

definition pool_name :: "pool option \<Rightarrow> handle \<Rightarrow> string" where
  "pool_name po h = (case po of Some p \<Rightarrow> handle_name p h | None \<Rightarrow> (case h of Outside n \<Rightarrow> n | Member i \<Rightarrow> member_name i))"

(* src: src/src/anbar/object_service.py 226-229 ObjectService.rollback *)
definition holder_of :: "pool option \<Rightarrow> handle \<Rightarrow> string option \<Rightarrow> handle" where
  "holder_of po backend k =
     (if truthy_str k then
        (case po of None \<Rightarrow> backend | Some p \<Rightarrow> (case by_name p k of Some h \<Rightarrow> h | None \<Rightarrow> backend))
      else backend)"

abbreviation name_of :: "('b, 'w) svc \<Rightarrow> handle \<Rightarrow> string" where
  "name_of s h \<equiv> pool_name (sv_pool s) h"

abbreviation holder :: "('b, 'w) svc \<Rightarrow> string option \<Rightarrow> handle" where
  "holder s k \<equiv> holder_of (sv_pool s) (sv_backend s) k"

text \<open>The member for a chunk: the primary backend, or the next of the pool when distributing.\<close>

(* src: src/src/anbar/object_service.py 152-156 ObjectService.store_stream *)
definition pick_member :: "time \<Rightarrow> ('b, 'w) svc \<Rightarrow> ('b, 'w) svc \<times> handle res" where
  "pick_member now s =
     (if \<not> sv_distribute s then (s, Inr (sv_backend s))
      else (case sv_pool s of
         None \<Rightarrow> (s, Inr (sv_backend s))
       | Some p \<Rightarrow> (case pool_next now p of (p', r) \<Rightarrow> (s\<lparr>sv_pool := Some p'\<rparr>, r))))"

definition store_at :: "(string \<Rightarrow> 'b list \<Rightarrow> string \<Rightarrow> string option \<Rightarrow> 'w \<Rightarrow> 'w \<times> object_ref res)
    \<Rightarrow> handle \<Rightarrow> 'b list \<Rightarrow> string \<Rightarrow> string \<Rightarrow> ('b, 'w) svc \<Rightarrow> ('b, 'w) svc \<times> object_ref res" where
  "store_at store h data blob caption s =
     (case store (name_of s h) data blob (Some caption) (sv_world s) of (w, r) \<Rightarrow> (s\<lparr>sv_world := w\<rparr>, r))"

text \<open>One try, and after a flood one more on the next member; the member that stored the chunk is returned.\<close>

(* src: src/src/anbar/object_service.py 157-179 ObjectService.store_stream *)
definition store_chunk :: "(string \<Rightarrow> 'b list \<Rightarrow> string \<Rightarrow> string option \<Rightarrow> 'w \<Rightarrow> 'w \<times> object_ref res)
    \<Rightarrow> env \<Rightarrow> nat \<Rightarrow> 'b list \<Rightarrow> nat \<Rightarrow> string \<Rightarrow> ('b, 'w) svc \<Rightarrow> ('b, 'w) svc \<times> (handle \<times> object_ref) res" where
  "store_chunk store env n data idx caption s =
     (case pick_member (en_clock env n 1) s of
        (s, Inl e) \<Rightarrow> (s, Inl e)
      | (s, Inr target) \<Rightarrow>
          (case store_at store target data (opaque_chunk_name (en_token env n 0) idx) caption s of
             (s, Inr r) \<Rightarrow> (s, Inr (target, r))
           | (s, Inl e) \<Rightarrow>
               if e = FloodBudgetExceeded \<and> sv_distribute s then
                 let s = s\<lparr>sv_pool := map_option (mark_flood (en_clock env n 2) (name_of s target)) (sv_pool s)\<rparr>
                 in (case pick_member (en_clock env n 3) s of
                       (s, Inl e) \<Rightarrow> (s, Inl e)
                     | (s, Inr target) \<Rightarrow>
                         (case store_at store target data (opaque_chunk_name (en_token env n 1) idx) caption s of
                            (s, Inr r) \<Rightarrow> (s, Inr (target, r))
                          | (s, Inl e) \<Rightarrow> (s, Inl e)))
               else (s, Inl e)))"

(* src: src/src/anbar/object_service.py 180-202 ObjectService.store_stream *)
definition record_chunk :: "env \<Rightarrow> nat \<Rightarrow> 'b list \<Rightarrow> handle \<Rightarrow> object_ref \<Rightarrow> ('b, 'w) svc \<Rightarrow> ('b, 'w) svc \<times> string res" where
  "record_chunk env n data target r s =
     (let bot_fid = (case (en_harvester env, or_message_id r) of (Some h, Some m) \<Rightarrow> h n m | _ \<Rightarrow> None);
          c = \<lparr>c_index = int (length (sv_chunks s)), c_size = int (length data), c_file_id = or_file_id r,
               c_message_id = or_message_id r, c_bot_file_id = bot_fid,
               c_backend = (if sv_distribute s then Some (name_of s target) else None)\<rparr>
      in (write_checkpoint (en_clock env n 4) (s\<lparr>sv_chunks := sv_chunks s @ [c]\<rparr>), Inr (or_file_id r)))"

(* src: src/src/anbar/object_service.py 134-203 ObjectService.store_stream *)
definition on_chunk :: "(string \<Rightarrow> 'b list \<Rightarrow> string \<Rightarrow> string option \<Rightarrow> 'w \<Rightarrow> 'w \<times> object_ref res)
    \<Rightarrow> env \<Rightarrow> string option \<Rightarrow> 'b list \<Rightarrow> bool \<Rightarrow> ('b, 'w) svc \<Rightarrow> ('b, 'w) svc \<times> string res" where
  "on_chunk store env secret data media s0 =
     (let n = sv_calls s0; s = s0\<lparr>sv_calls := n + 1\<rparr> in
      if sv_skip s > 0 then (s\<lparr>sv_skip := sv_skip s - 1\<rparr>, Inr [])
      else
        let s = (if sv_first_chunk s = [] then s\<lparr>sv_first_chunk := data\<rparr> else s); idx = length (sv_chunks s) in
        case encode_chunk_caption (en_keys env\<lparr>k_nonce := en_nonce env n\<rparr>) (en_clock env n 0)
            (str_or (sv_upload_id s) []) (int idx) 0 (sv_filename s) 0 (sv_content_type s) None secret of
          Inl e \<Rightarrow> (s, Inl e)
        | Inr caption \<Rightarrow>
            (case store_chunk store env n data idx caption s of
               (s, Inl e) \<Rightarrow> (s, Inl e)
             | (s, Inr (target, r)) \<Rightarrow> record_chunk env n data target r s))"

(* src: src/src/anbar/object_service.py 222-239 ObjectService.rollback *)
fun rollback_chunks :: "(string \<Rightarrow> object_ref \<Rightarrow> 'w \<Rightarrow> 'w \<times> bool res) \<Rightarrow> chunk list \<Rightarrow> ('b, 'w) svc \<Rightarrow> ('b, 'w) svc \<times> nat" where
  "rollback_chunks delete [] s = (s, 0)"
| "rollback_chunks delete (c # cs) s =
     (let nm = name_of s (holder s (c_backend c)) in
      case delete nm (mk_ref (c_file_id c) (c_message_id c) nm) (sv_world s) of
        (w, Inl e) \<Rightarrow> rollback_chunks delete cs (s\<lparr>sv_world := w\<rparr>)
      | (w, Inr _) \<Rightarrow> (case rollback_chunks delete cs (s\<lparr>sv_world := w\<rparr>) of (s, n) \<Rightarrow> (s, n + 1)))"

(* src: src/src/anbar/object_service.py auto ObjectService.rollback *)
definition rollback :: "(string \<Rightarrow> object_ref \<Rightarrow> 'w \<Rightarrow> 'w \<times> bool res) \<Rightarrow> ('b, 'w) svc \<Rightarrow> ('b, 'w) svc \<times> nat" where
  "rollback delete s = rollback_chunks delete (sv_chunks s) s"

fun seed :: "nat \<Rightarrow> json list \<Rightarrow> chunk list \<Rightarrow> chunk list \<times> unit res" where
  "seed i [] cs = (cs, Inr ())"
| "seed i (j # js) cs = (case prior_chunk i j of Inl e \<Rightarrow> (cs, Inl e) | Inr c \<Rightarrow> seed (i + 1) js (cs @ [c]))"

text \<open>\<open>None\<close>: the stream never ends.\<close>

(* src: src/src/anbar/object_service.py auto ObjectService.store_stream *)
definition store_stream :: "(string \<Rightarrow> 'b list \<Rightarrow> string \<Rightarrow> string option \<Rightarrow> 'w \<Rightarrow> 'w \<times> object_ref res)
    \<Rightarrow> (string \<Rightarrow> object_ref \<Rightarrow> 'w \<Rightarrow> 'w \<times> bool res) \<Rightarrow> ('b list \<Rightarrow> string) \<Rightarrow> ('s \<Rightarrow> nat \<Rightarrow> ('b list \<times> 's) res)
    \<Rightarrow> env \<Rightarrow> 's \<Rightarrow> ('b, 'w) svc \<Rightarrow> (('b, 'w) svc \<times> string res) option" where
  "store_stream store delete sha read env stream s =
     (case load_prior_chunks s of
        Inl e \<Rightarrow> Some (s, Inl e)
      | Inr prior \<Rightarrow>
          (case seed 0 prior (sv_chunks s) of
             (cs, Inl e) \<Rightarrow> Some (s\<lparr>sv_chunks := cs\<rparr>, Inl e)
           | (cs, Inr _) \<Rightarrow>
               let s = s\<lparr>sv_chunks := cs\<rparr>;
                   secret = effective_hmac_secret (sv_db s) (en_hmac_secret env)
               in (case chunk_stream sha read (en_chunk_size env) (on_chunk store env secret)
                     (truthy_str (sv_content_type s)) (sv_max_bytes s) stream s of
                     None \<Rightarrow> None
                   | Some (s, Inl e) \<Rightarrow> Some (fst (rollback delete s), Inl e)
                   | Some (s, Inr (_, sha_hex)) \<Rightarrow> Some (s, Inr sha_hex))))"

section \<open>Commit\<close>

(* src: src/src/anbar/object_service.py auto ObjectService.commit *)
definition commit :: "time \<Rightarrow> nat list \<Rightarrow> string \<Rightarrow> string option \<Rightarrow> ('b, 'w) svc \<Rightarrow> ('b, 'w) svc \<times> string res" where
  "commit now draws sha_hex uploader_key s0 =
     (let s = s0\<lparr>sv_total_size := sum_list (map c_size (sv_chunks s0))\<rparr>; obj_id = new_object_id draws in
      case sv_chunks s of
        [] \<Rightarrow> (s, Inl IndexError)
      | c # _ \<Rightarrow>
          (case insert_object now
              \<lparr>i_id = obj_id, i_file_id = c_file_id c, i_backend = str_or (c_backend c) (name_of s (sv_backend s)),
               i_filename = sv_filename s, i_size = sv_total_size s,
               i_content_type = Some (str_or (sv_content_type s) ''application/octet-stream''),
               i_sha256 = Some sha_hex,
               i_manifest = Some (to_json \<lparr>m_chunks = sv_chunks s, m_total_size = sv_total_size s\<rparr>),
               i_uploader_key = uploader_key, i_created_at = None, i_downloaded = None\<rparr> (sv_db s) of
             (d, Inl e) \<Rightarrow> (s\<lparr>sv_db := d\<rparr>, Inl e)
           | (d, Inr _) \<Rightarrow> (s\<lparr>sv_db := d\<rparr>, Inr obj_id)))"

text \<open>The status a route answers with; the text of the exception is left out.\<close>

(* src: src/src/anbar/object_service.py auto describe_storage_error *)
definition describe_storage_error :: "exc \<Rightarrow> int" where
  "describe_storage_error e = (case e of FloodBudgetExceeded \<Rightarrow> 504 | TelegramError _ _ \<Rightarrow> 502 | _ \<Rightarrow> 502)"

section \<open>Purge\<close>

(* src: src/src/anbar/object_service.py 286-302 purge_object_blobs *)
fun purge_chunks :: "(string \<Rightarrow> object_ref \<Rightarrow> 'w \<Rightarrow> 'w \<times> bool res) \<Rightarrow> pool option \<Rightarrow> handle \<Rightarrow> json list \<Rightarrow> 'w \<Rightarrow> 'w \<times> nat res" where
  "purge_chunks delete po backend [] w = (w, Inr 0)"
| "purge_chunks delete po backend (c # cs) w =
     (case get_str c ''k'' of
        Inl e \<Rightarrow> (w, Inl e)
      | Inr k \<Rightarrow>
          let nm = pool_name po (holder_of po backend k) in
          (case rbind (rbind (j_item c ''f'') as_str) (\<lambda>f. rbind (get_int c ''m'') (\<lambda>m. Inr (mk_ref f m nm))) of
             Inl _ \<Rightarrow> purge_chunks delete po backend cs w
           | Inr r \<Rightarrow>
               (case delete nm r w of
                  (w, Inr True) \<Rightarrow> (case purge_chunks delete po backend cs w of (w, x) \<Rightarrow> (w, rbind x (\<lambda>n. Inr (n + 1))))
                | (w, _) \<Rightarrow> purge_chunks delete po backend cs w)))"

text \<open>The kv entries that belong to an object by a scan: its slugs, and its link registrations and tombstones.\<close>

(* src: src/src/anbar/object_service.py 309-312 purge_object_blobs *)
definition object_kv :: "string \<Rightarrow> string \<Rightarrow> string \<Rightarrow> bool" where
  "object_kv i k v =
     (v = i \<and> startswith k ''slug:''
      \<or> list_ex (\<lambda>p. startswith k p \<and> (case split1 (CHR '':'') (drop (length p) k) of Some (a, _) \<Rightarrow> a = i | None \<Rightarrow> False))
          [''link:'', ''rev:''])"

(* src: src/src/anbar/object_service.py 304-321 purge_object_blobs *)
definition purge_rows_of :: "string \<Rightarrow> db \<Rightarrow> db" where
  "purge_rows_of i d =
     (let d = fst (delete_object i d);
          d = fold (\<lambda>(k, v) d. if object_kv i k v then kv_delete k d else d) (kv_all d) d;
          d = fold kv_delete [''pw:'' @ i, ''maxdl:'' @ i, ''dlc:'' @ i] d;
          d = drop_subs i d
      in fold kv_delete [''subs_imported:'' @ i, ''subsimported:'' @ i] d)"

text \<open>The result has the number of deleted blobs and the event that goes to the channel.\<close>

(* src: src/src/anbar/object_service.py auto purge_object_blobs *)
definition purge_object_blobs :: "(string \<Rightarrow> object_ref \<Rightarrow> 'w \<Rightarrow> 'w \<times> bool res) \<Rightarrow> pool option \<Rightarrow> handle \<Rightarrow> obj \<Rightarrow> db \<Rightarrow> 'w
    \<Rightarrow> db \<times> 'w \<times> (nat \<times> (string \<times> json) list option) res" where
  "purge_object_blobs delete po backend row d w =
     (case rbind (if truthy_str (o_manifest row)
                  then (case loads (the (o_manifest row)) of None \<Rightarrow> Inl (ValueError ''json'') | Some j \<Rightarrow> Inr j)
                  else Inr (JObj [(''chunks'', JList [])]))
             (\<lambda>m. case m of JObj kvs \<Rightarrow> (case map_of kvs ''chunks'' of None \<Rightarrow> Inr [] | Some v \<Rightarrow> as_list v) | _ \<Rightarrow> Inl TypeError) of
        Inl e \<Rightarrow> (d, w, Inl e)
      | Inr chunks \<Rightarrow>
          (case purge_chunks delete po backend chunks w of
             (w, Inl e) \<Rightarrow> (d, w, Inl e)
           | (w, Inr deleted) \<Rightarrow>
               (purge_rows_of (o_id row) d, w,
                Inr (deleted, if deleted < length chunks
                              then Some [(''op'', JStr ''del_obj''), (''id'', JStr (o_id row))] else None))))"

section \<open>Where a chunk went\<close>

lemma pool_name_cong: "map_option pl_names po = map_option pl_names po' \<Longrightarrow> pool_name po = pool_name po'"
  by (auto simp: pool_name_def handle_name_def fun_eq_iff split: option.splits handle.splits)

lemma holder_of_cong: "map_option pl_names po = map_option pl_names po' \<Longrightarrow> holder_of po = holder_of po'"
  by (auto simp: holder_of_def by_name_def pool_size_def fun_eq_iff split: option.splits)

text \<open>A service distributes only over a pool whose members have the names the constructor gives them.\<close>

definition svc_ok :: "('b, 'w) svc \<Rightarrow> bool" where
  "svc_ok s = (sv_distribute s \<longrightarrow> (\<exists>p n. sv_pool s = Some p \<and> pl_names p = map member_name [0..<n] \<and> 0 < n))"

definition fits :: "('b, 'w) svc \<Rightarrow> handle \<Rightarrow> bool" where
  "fits s h = (if sv_distribute s then \<exists>i p. sv_pool s = Some p \<and> i < pool_size p \<and> h = Member i else h = sv_backend s)"

text \<open>What storing a chunk leaves alone.\<close>

definition same :: "('b, 'w) svc \<Rightarrow> ('b, 'w) svc \<Rightarrow> bool" where
  "same s s' = (sv_chunks s' = sv_chunks s \<and> sv_backend s' = sv_backend s \<and> sv_distribute s' = sv_distribute s
     \<and> map_option pl_names (sv_pool s') = map_option pl_names (sv_pool s) \<and> sv_db s' = sv_db s \<and> sv_ck_key s' = sv_ck_key s
     \<and> sv_skip s' = sv_skip s \<and> sv_filename s' = sv_filename s \<and> sv_content_type s' = sv_content_type s)"

lemma same_trans: "same s t \<Longrightarrow> same t u \<Longrightarrow> same s u"
  by (simp add: same_def)

lemma same_ok: "same s s' \<Longrightarrow> svc_ok s \<Longrightarrow> svc_ok s'"
  by (fastforce simp: same_def svc_ok_def)

lemma fits_holder:
  assumes "svc_ok s" and "fits s h"
  shows "holder s (if sv_distribute s then Some (name_of s h) else None) = h"
proof (cases "sv_distribute s")
  case True
  then obtain p n i where p: "sv_pool s = Some p" "pl_names p = map member_name [0..<n]" "0 < n" "i < n" "h = Member i"
    using assms by (auto simp: svc_ok_def fits_def pool_size_def)
  have "find (\<lambda>j. pl_names p ! j = member_name i) [0..<n] = Some i"
    using p by (intro find_upt_unique) (auto dest: member_name_inj)
  then have "by_name p (Some (member_name i)) = Some (Member i)"
    using p by (simp add: by_name_def pool_size_def member_name_def)
  then show ?thesis using True p by (simp add: holder_of_def pool_name_def handle_name_def member_name_def)
qed (use assms in \<open>simp add: fits_def holder_of_def\<close>)

lemma pool_next_names: "pool_next now p = (p', r) \<Longrightarrow> pl_names p' = pl_names p"
  by (auto simp: pool_next_def cycle_next_def Let_def split: if_splits)

lemma pool_next_member: "pl_names p \<noteq> [] \<Longrightarrow> \<exists>p' i. pool_next now p = (p', Inr (Member i)) \<and> i < pool_size p"
proof -
  assume ne: "pl_names p \<noteq> []"
  let ?h = "filter (\<lambda>i. \<not> paused now p i) [0..<pool_size p]"
  have "?h ! (pl_rr p mod length ?h) < pool_size p" if "?h \<noteq> []"
  proof -
    have "pl_rr p mod length ?h < length ?h" using that by simp
    then have "?h ! (pl_rr p mod length ?h) \<in> set ?h" by (rule nth_mem)
    then show ?thesis by simp
  qed
  with ne show ?thesis by (auto simp: pool_next_def cycle_next_def Let_def pool_size_def)
qed

lemma pick_member_ok:
  assumes "svc_ok s"
  shows "\<exists>s' h. pick_member now s = (s', Inr h) \<and> same s s' \<and> sv_world s' = sv_world s \<and> fits s' h"
proof (cases "sv_distribute s")
  case True
  then obtain p n where p: "sv_pool s = Some p" "pl_names p = map member_name [0..<n]" "0 < n"
    using assms by (auto simp: svc_ok_def)
  then have "pl_names p \<noteq> []" by simp
  from pool_next_member [OF this] obtain p' i where n: "pool_next now p = (p', Inr (Member i))" "i < pool_size p" by blast
  with pool_next_names [OF n(1)] True p show ?thesis
    by (simp add: pick_member_def same_def fits_def pool_size_def)
qed (simp add: pick_member_def same_def fits_def)

lemma store_at_same: "store_at store h data nm caption s = (s', x) \<Longrightarrow> same s s' \<and> sv_pool s' = sv_pool s"
  by (auto simp: store_at_def same_def split: prod.splits)

lemma fits_same: "same s s' \<Longrightarrow> sv_pool s' = sv_pool s \<Longrightarrow> fits s' h = fits s h"
  by (simp add: same_def fits_def)

text \<open>A chunk is stored by one call of a backend, or by a second one after a first that raised; the chunk is then on the
  member of the last call.\<close>

lemma store_chunk_tries:
  assumes ok: "svc_ok s" and st: "store_chunk store env n data idx caption s = (s', x)"
  shows "same s s' \<and> (\<exists>h nm w1. (w1 = sv_world s \<or> (\<exists>m0 nm0 e. store m0 data nm0 (Some caption) (sv_world s) = (w1, Inl e)))
     \<and> store (name_of s' h) data nm (Some caption) w1 = (sv_world s', map_sum id snd x)
     \<and> (case x of Inl _ \<Rightarrow> True | Inr (h', _) \<Rightarrow> h' = h \<and> fits s' h))"
proof -
  obtain s1 h1 where p1: "pick_member (en_clock env n 1) s = (s1, Inr h1)" "same s s1" "sv_world s1 = sv_world s" "fits s1 h1"
    using pick_member_ok [OF ok] by blast
  let ?nm = "opaque_chunk_name (en_token env n 0) idx"
  obtain s2 x2 where a: "store_at store h1 data ?nm caption s1 = (s2, x2)" by (cases "store_at store h1 data ?nm caption s1")
  note f2 = store_at_same [OF a]
  have ss2: "same s s2" using same_trans p1(2) f2 by blast
  have w2: "store (name_of s2 h1) data ?nm (Some caption) (sv_world s) = (sv_world s2, x2)"
    using a f2 p1(3) by (auto simp: store_at_def split: prod.splits)
  show ?thesis
  proof (cases "(\<exists>e. x2 = Inl e \<and> e = FloodBudgetExceeded) \<and> sv_distribute s2")
    case False
    then have "s' = s2" "x = map_sum id (Pair h1) x2" using st p1(1) a by (auto simp: store_chunk_def split: sum.splits)
    then show ?thesis using ss2 w2 p1(4) fits_same [of s1 s2 h1] f2
      by (intro conjI exI [of _ h1] exI [of _ ?nm] exI [of _ "sv_world s"]) (cases x2; simp)+
  next
    case True
    then have x2: "x2 = Inl FloodBudgetExceeded" and dist: "sv_distribute s2" by blast+
    define s3 where "s3 = s2\<lparr>sv_pool := map_option (mark_flood (en_clock env n 2) (name_of s2 h1)) (sv_pool s2)\<rparr>"
    have "pl_names (mark_flood t nm p) = pl_names p" for t nm p by (simp add: mark_flood_def split: option.split)
    then have s23: "same s2 s3" by (simp add: s3_def same_def option.map_comp o_def)
    obtain s4 h4 where p4: "pick_member (en_clock env n 3) s3 = (s4, Inr h4)" "same s3 s4" "sv_world s4 = sv_world s3" "fits s4 h4"
      using pick_member_ok [OF same_ok [OF same_trans [OF ss2 s23] ok]] by blast
    let ?nm' = "opaque_chunk_name (en_token env n 1) idx"
    obtain s5 x5 where a5: "store_at store h4 data ?nm' caption s4 = (s5, x5)" by (cases "store_at store h4 data ?nm' caption s4")
    note f5 = store_at_same [OF a5]
    have w5: "store (name_of s5 h4) data ?nm' (Some caption) (sv_world s2) = (sv_world s5, x5)"
      using a5 f5 p4(3) by (auto simp: store_at_def s3_def split: prod.splits)
    have "s' = s5" "x = map_sum id (Pair h4) x5"
      using st p1(1) a x2 dist p4(1) a5 by (auto simp: store_chunk_def s3_def Let_def split: sum.splits)
    moreover have "same s s5" using same_trans ss2 s23 p4(2) f5 by blast
    moreover have "fits s5 h4" using p4(4) fits_same [of s4 s5 h4] f5 by blast
    ultimately show ?thesis using w5 w2 x2
      by (intro conjI exI [of _ h4] exI [of _ ?nm'] exI [of _ "sv_world s2"]) (cases x5; auto)+
  qed
qed

text \<open>Without a checkpoint to resume from, storing is the chunker with a rollback on errors.\<close>

lemma store_stream_fresh:
  assumes "sv_resume_from s = 0" and "sv_chunks s = []"
  shows "store_stream store delete sha read env stream s =
     (case chunk_stream sha read (en_chunk_size env)
          (on_chunk store env (effective_hmac_secret (sv_db s) (en_hmac_secret env)))
          (truthy_str (sv_content_type s)) (sv_max_bytes s) stream s of
        None \<Rightarrow> None
      | Some (s, Inl e) \<Rightarrow> Some (fst (rollback delete s), Inl e)
      | Some (s, Inr (_, sha_hex)) \<Rightarrow> Some (s, Inr sha_hex))"
proof -
  have id: "s\<lparr>sv_chunks := []\<rparr> = s" using assms(2) by (cases s) simp
  show ?thesis using assms by (simp add: store_stream_def load_prior_chunks_def id)
qed

section \<open>A stored chunk can be read back\<close>

context blob_store
begin

definition stored_as :: "pool option \<Rightarrow> handle \<Rightarrow> 'w \<Rightarrow> chunk \<Rightarrow> 'b list \<Rightarrow> bool" where
  "stored_as po backend w c d =
     (c_size c = int (length d)
      \<and> (\<forall>b. snd (fetch (pool_name po (holder_of po backend (c_backend c))) (mk_ref (c_file_id c) (c_message_id c) b) w) = Inr d))"

definition keeps_world :: "'w \<Rightarrow> 'w \<Rightarrow> bool" where
  "keeps_world w w' = (good w' \<and> (\<forall>m q e. snd (fetch m q w) = Inr e \<longrightarrow> snd (fetch m q w') = Inr e))"

lemma keeps_refl: "good w \<Longrightarrow> keeps_world w w"
  by (simp add: keeps_world_def)

lemma keeps_trans: "keeps_world w w' \<Longrightarrow> keeps_world w' w'' \<Longrightarrow> keeps_world w w''"
  by (simp add: keeps_world_def)

lemma stored_as_keeps: "keeps_world w w' \<Longrightarrow> stored_as po b w c d \<Longrightarrow> stored_as po b w' c d"
  by (simp add: keeps_world_def stored_as_def)

lemma store_keeps_world: "good w \<Longrightarrow> store m d n c w = (w', x) \<Longrightarrow> keeps_world w w'"
  using store_good [of w m d n c] store_keeps [of w _ _ _ m d n c] by (simp add: keeps_world_def)

lemma store_chunk_ok:
  assumes ok: "svc_ok s" and g: "good (sv_world s)" and st: "store_chunk store env n data idx caption s = (s', x)"
  shows "same s s' \<and> keeps_world (sv_world s) (sv_world s')
    \<and> (case x of Inl _ \<Rightarrow> True
       | Inr (h, r) \<Rightarrow> fits s' h
           \<and> (\<forall>b. snd (fetch (name_of s' h) (mk_ref (or_file_id r) (or_message_id r) b) (sv_world s')) = Inr data))"
proof -
  obtain h nm w1 where same: "same s s'"
    and w1: "w1 = sv_world s \<or> (\<exists>m0 nm0 e. store m0 data nm0 (Some caption) (sv_world s) = (w1, Inl e))"
    and w: "store (name_of s' h) data nm (Some caption) w1 = (sv_world s', map_sum id snd x)"
    and x: "case x of Inl _ \<Rightarrow> True | Inr (h', _) \<Rightarrow> h' = h \<and> fits s' h"
    using store_chunk_tries [OF ok st] by blast
  have k1: "keeps_world (sv_world s) w1" using w1 store_keeps_world [OF g] keeps_refl [OF g] by blast
  then have g1: "good w1" by (simp add: keeps_world_def)
  have "keeps_world (sv_world s) (sv_world s')" using keeps_trans [OF k1 store_keeps_world [OF g1 w]] .
  moreover have "\<forall>b. snd (fetch (name_of s' h) (mk_ref (or_file_id r) (or_message_id r) b) (sv_world s')) = Inr data" if "x = Inr (h, r)" for r
    using stored [OF g1, of "name_of s' h" data nm "Some caption" "sv_world s'" r] w that by simp
  ultimately show ?thesis using same x by (auto split: sum.splits)
qed

definition stores :: "('b, 'w) svc \<Rightarrow> 'b list list \<Rightarrow> bool" where
  "stores s ds = (svc_ok s \<and> good (sv_world s) \<and> sv_skip s = 0
     \<and> list_all2 (stored_as (sv_pool s) (sv_backend s) (sv_world s)) (sv_chunks s) ds
     \<and> map c_index (sv_chunks s) = map int [0..<length ds])"

definition frame :: "('b, 'w) svc \<Rightarrow> ('b, 'w) svc \<Rightarrow> bool" where
  "frame s s' = (d_objects (sv_db s') = d_objects (sv_db s) \<and> sv_backend s' = sv_backend s
     \<and> map_option pl_names (sv_pool s') = map_option pl_names (sv_pool s)
     \<and> sv_filename s' = sv_filename s \<and> sv_content_type s' = sv_content_type s)"

lemma frame_trans: "frame s t \<Longrightarrow> frame t u \<Longrightarrow> frame s u"
  by (simp add: frame_def)

lemma stores_same:
  assumes "stores s ds" and "same s s'" and "keeps_world (sv_world s) (sv_world s')"
  shows "stores s' ds"
proof -
  have p: "map_option pl_names (sv_pool s) = map_option pl_names (sv_pool s')" using assms(2) by (simp add: same_def)
  have "list_all2 (stored_as (sv_pool s') (sv_backend s') (sv_world s')) (sv_chunks s) ds"
    using assms pool_name_cong [OF p] holder_of_cong [OF p] stored_as_keeps [OF assms(3)]
    unfolding stores_def same_def by (auto elim!: list_all2_mono simp: stored_as_def)
  then show ?thesis using assms same_ok [OF assms(2)] by (simp add: stores_def same_def keeps_world_def)
qed

lemma write_checkpoint_fields [simp]:
  "sv_chunks (write_checkpoint t s) = sv_chunks s" "sv_backend (write_checkpoint t s) = sv_backend s"
  "sv_pool (write_checkpoint t s) = sv_pool s" "sv_world (write_checkpoint t s) = sv_world s"
  "sv_distribute (write_checkpoint t s) = sv_distribute s" "sv_skip (write_checkpoint t s) = sv_skip s"
  "sv_filename (write_checkpoint t s) = sv_filename s" "sv_content_type (write_checkpoint t s) = sv_content_type s"
  "d_objects (sv_db (write_checkpoint t s)) = d_objects (sv_db s)"
  by (simp_all add: write_checkpoint_def kv_set_def split: option.split)

lemma record_chunk_ok:
  assumes st: "stores s ds" and fit: "fits s h"
    and r: "\<forall>b. snd (fetch (name_of s h) (mk_ref (or_file_id r) (or_message_id r) b) (sv_world s)) = Inr data"
    and rc: "record_chunk env n data h r s = (s', x)"
  shows "frame s s' \<and> x = Inr (or_file_id r) \<and> stores s' (ds @ [data])"
proof -
  have len: "length (sv_chunks s) = length ds" using st by (auto simp: stores_def dest: list_all2_lengthD)
  have h: "holder s (if sv_distribute s then Some (name_of s h) else None) = h"
    using st fit by (intro fits_holder) (simp_all add: stores_def)
  show ?thesis using rc st r len h
    by (auto simp: record_chunk_def Let_def frame_def stores_def svc_ok_def stored_as_def
        intro!: list_all2_appendI)
qed

lemma on_chunk_ok:
  assumes st: "stores s ds" and oc: "on_chunk store env secret data media s = (s', x)"
  shows "frame s s' \<and> (case x of Inl _ \<Rightarrow> stores s' ds | Inr _ \<Rightarrow> stores s' (ds @ [data]))"
proof -
  define s1 where "s1 = (let s = s\<lparr>sv_calls := sv_calls s + 1\<rparr> in if sv_first_chunk s = [] then s\<lparr>sv_first_chunk := data\<rparr> else s)"
  have s1: "same s s1" "sv_world s1 = sv_world s" "sv_skip s1 = 0"
    using st by (simp_all add: s1_def same_def Let_def stores_def)
  have g: "good (sv_world s)" using st by (simp add: stores_def)
  have st1: "stores s1 ds" using stores_same [OF st s1(1)] s1(2) keeps_refl [OF g] by simp
  have fr: "frame s t" if "same s t" for t using that by (simp add: same_def frame_def)
  obtain cap where cap: "cap = encode_chunk_caption (en_keys env\<lparr>k_nonce := en_nonce env (sv_calls s)\<rparr>) (en_clock env (sv_calls s) 0)
            (str_or (sv_upload_id s1) []) (int (length (sv_chunks s1))) 0 (sv_filename s1) 0 (sv_content_type s1) None secret" by simp
  show ?thesis
  proof (cases cap)
    case (Inl e)
    then have "s' = s1" "x = Inl e" using oc cap st by (auto simp: on_chunk_def Let_def s1_def stores_def)
    then show ?thesis using st1 fr s1 by simp
  next
    case (Inr caption)
    obtain s2 y where sc: "store_chunk store env (sv_calls s) data (length (sv_chunks s1)) caption s1 = (s2, y)"
      by (cases "store_chunk store env (sv_calls s) data (length (sv_chunks s1)) caption s1")
    have k: "same s1 s2 \<and> keeps_world (sv_world s1) (sv_world s2) \<and> (case y of Inl _ \<Rightarrow> True
       | Inr (h, r) \<Rightarrow> fits s2 h
           \<and> (\<forall>b. snd (fetch (name_of s2 h) (mk_ref (or_file_id r) (or_message_id r) b) (sv_world s2)) = Inr data))"
      using st1 by (intro store_chunk_ok [OF _ _ sc]) (simp_all add: stores_def)
    then have st2: "stores s2 ds" using stores_same [OF st1] by blast
    have f2: "frame s s2" using fr same_trans [OF s1(1)] k by blast
    have e: "on_chunk store env secret data media s = (case y of Inl e \<Rightarrow> (s2, Inl e)
        | Inr (h, r) \<Rightarrow> record_chunk env (sv_calls s) data h r s2)"
    proof -
      have "sv_skip s = 0" using st by (simp add: stores_def)
      then show ?thesis using Inr cap sc by (simp add: on_chunk_def Let_def s1_def split: sum.split)
    qed
    show ?thesis
    proof (cases y)
      case (Inl e')
      then show ?thesis using oc e st2 f2 by auto
    next
      case (Inr hr)
      obtain h r where hr: "hr = (h, r)" by (cases hr)
      have "record_chunk env (sv_calls s) data h r s2 = (s', x)" using oc e Inr hr by simp
      from record_chunk_ok [OF st2 _ _ this] k Inr hr have "frame s2 s' \<and> x = Inr (or_file_id r) \<and> stores s' (ds @ [data])" by simp
      then show ?thesis using frame_trans [OF f2] by simp
    qed
  qed
qed

lemma feed_ok:
  "stores s ds \<Longrightarrow> feed (on_chunk store env secret) media cs s = (s', x) \<Longrightarrow>
     frame s s' \<and> (x = Inr () \<longrightarrow> stores s' (ds @ cs)) \<and> (\<exists>k \<le> length cs. stores s' (ds @ take k cs))"
proof (induction cs arbitrary: s ds media)
  case Nil
  then show ?case by (auto simp: frame_def)
next
  case (Cons c cs)
  obtain t y where t: "on_chunk store env secret c media s = (t, y)" by (cases "on_chunk store env secret c media s")
  note o = on_chunk_ok [OF Cons.prems(1) t]
  show ?case
  proof (cases y)
    case (Inl e)
    then show ?thesis using Cons.prems(2) t o by (auto intro!: exI [of _ 0])
  next
    case (Inr z)
    then have f: "feed (on_chunk store env secret) False cs t = (s', x)" using Cons.prems(2) t by simp
    from Cons.IH [OF _ f] o Inr have ih: "frame t s' \<and> (x = Inr () \<longrightarrow> stores s' (ds @ c # cs))
        \<and> (\<exists>k \<le> length cs. stores s' ((ds @ [c]) @ take k cs))" by fastforce
    then obtain k where "k \<le> length cs" "stores s' (ds @ take (Suc k) (c # cs))" by auto
    then show ?thesis using ih o frame_trans by (auto intro!: exI [of _ "Suc k"])
  qed
qed

text \<open>A fresh upload that returns has stored the stream, cut into chunks.\<close>

lemma upload_stores:
  assumes bs: "byte_stream read rest rgood" and rg: "rgood stream" and cs: "0 < en_chunk_size env"
    and mx: "case sv_max_bytes s of None \<Rightarrow> True | Some m \<Rightarrow> length (rest stream) \<le> m"
    and s: "svc_ok s" "good (sv_world s)" "sv_resume_from s = 0" "sv_skip s = 0" "sv_chunks s = []"
  shows "\<exists>s' x. store_stream store delete sha read env stream s = Some (s', x)
     \<and> (\<forall>h. x = Inr h \<longrightarrow> h = sha (rest stream) \<and> frame s s' \<and> stores s' (chop (en_chunk_size env) (rest stream)))"
proof -
  let ?sec = "effective_hmac_secret (sv_db s) (en_hmac_secret env)"
  let ?f = "feed (on_chunk store env ?sec) (truthy_str (sv_content_type s)) (chop (en_chunk_size env) (rest stream)) s"
  have st: "stores s []" using s by (simp add: stores_def)
  obtain s' x where f: "?f = (s', x)" by (cases ?f)
  note c = byte_stream.chunk_stream_feed [OF bs rg cs mx, of sha "on_chunk store env ?sec" "truthy_str (sv_content_type s)" s]
  show ?thesis
  proof (cases x)
    case (Inl e)
    then show ?thesis using c f by (simp add: store_stream_fresh [OF s(3,5)])
  next
    case (Inr u)
    then show ?thesis using c f feed_ok [OF st f] by (simp add: store_stream_fresh [OF s(3,5)])
  qed
qed

end

definition read_object :: "(string \<Rightarrow> object_ref \<Rightarrow> 'w \<Rightarrow> 'w \<times> 'b list res) \<Rightarrow> pool option \<Rightarrow> handle \<Rightarrow> 'w \<Rightarrow> manifest \<Rightarrow> 'b list res" where
  "read_object fetch po backend w m =
     rbind (mapr (\<lambda>c. let nm = pool_name po (holder_of po backend (c_backend c))
                      in snd (fetch nm (mk_ref (c_file_id c) (c_message_id c) nm) w)) (m_chunks m))
       (\<lambda>ds. Inr (concat ds))"

context blob_store
begin

lemma stored_as_norm: "stored_as po b w (norm_chunk c) d = stored_as po b w c d"
  by (simp add: stored_as_def norm_chunk_def holder_of_def truthy_str_def split: option.split)

lemma mapr_stored:
  "list_all2 (stored_as po backend w) cs ds \<Longrightarrow>
     mapr (\<lambda>c. let nm = pool_name po (holder_of po backend (c_backend c))
               in snd (fetch nm (mk_ref (c_file_id c) (c_message_id c) nm) w)) cs = Inr ds"
  by (induction rule: list_all2_induct) (simp_all add: stored_as_def Let_def)

lemma stored_sizes: "list_all2 (stored_as po backend w) cs ds \<Longrightarrow> sum_list (map c_size cs) = int (length (concat ds))"
  by (induction rule: list_all2_induct) (simp_all add: stored_as_def)

lemma commit_reads:
  assumes st: "stores s ds" and ne: "ds \<noteq> []" and new: "find_obj (sv_db s) (new_object_id draws) = None"
  shows "\<exists>s2 row m. commit now draws sha_hex key s = (s2, Inr (new_object_id draws)) \<and> sv_world s2 = sv_world s
     \<and> find_obj (sv_db s2) (new_object_id draws) = Some row \<and> o_size row = int (length (concat ds))
     \<and> o_sha256 row = Some sha_hex \<and> o_filename row = sv_filename s
     \<and> o_manifest row \<noteq> None \<and> from_json (the (o_manifest row)) = Inr m \<and> m_total_size m = o_size row
     \<and> list_all2 (stored_as (sv_pool s) (sv_backend s) (sv_world s)) (m_chunks m) ds
     \<and> read_object fetch (sv_pool s) (sv_backend s) (sv_world s) m = Inr (concat ds)"
proof -
  have all: "list_all2 (stored_as (sv_pool s) (sv_backend s) (sv_world s)) (sv_chunks s) ds" using st by (simp add: stores_def)
  with ne obtain c cs where c: "sv_chunks s = c # cs" by (cases "sv_chunks s") auto
  define m where "m = \<lparr>m_chunks = map norm_chunk (sv_chunks s), m_total_size = sum_list (map c_size (sv_chunks s))\<rparr>"
  have sm: "list_all2 (stored_as (sv_pool s) (sv_backend s) (sv_world s)) (m_chunks m) ds"
    using all by (simp add: m_def list_all2_map1 stored_as_norm)
  then have rd: "read_object fetch (sv_pool s) (sv_backend s) (sv_world s) m = Inr (concat ds)"
    by (simp add: read_object_def mapr_stored)
  have js: "from_json (to_json \<lparr>m_chunks = sv_chunks s, m_total_size = sum_list (map c_size (sv_chunks s))\<rparr>) = Inr m"
    by (simp add: from_json_to_json m_def)
  show ?thesis using c new rd js sm stored_sizes [OF all]
    by (simp add: commit_def Let_def insert_object_def find_obj_def cache_put_def find_append full_obj_def m_def)
qed

end

section \<open>Uploads over FakeBackends\<close>

lemma fakes_store_ok: "\<exists>w' r. fakes_store m d n c w = (w', Inr r)"
  by (simp add: fakes_store_def at_def fake_store_def Let_def)

text \<open>SHA-256 gives 32 bytes, \<^verbatim>\<open>os.urandom(12)\<close> gives 12, and chunks are not empty.\<close>

definition env_ok :: "env \<Rightarrow> bool" where
  "env_ok env = ((\<forall>s. length (k_sha256 (en_keys env) s) = 32) \<and> (\<forall>n. length (en_nonce env n) = 12) \<and> 0 < en_chunk_size env)"

lemma caption_total:
  assumes "\<forall>s. length (k_sha256 ks s) = 32" and "length (k_nonce ks) = 12"
  shows "\<exists>t. encode_chunk_caption ks now i idx n fn sz ct sha secret = Inr t"
  using assms by (simp add: encode_chunk_caption_def envelope_def encrypt_gcm_def gcm_len_ok_def Let_def split: prod.split)

text \<open>A callback that is not draining stores once and records the chunk.\<close>

lemma fakes_on_chunk_form:
  assumes ok: "svc_ok s" and k: "env_ok env" and skip: "sv_skip s = 0"
  shows "\<exists>s2 h r w nm cap. same s s2 \<and> sv_world s2 = sv_world s \<and> fits s2 h
     \<and> fakes_store (name_of s2 h) data nm cap (sv_world s) = (w, Inr r)
     \<and> on_chunk fakes_store env secret data media s = record_chunk env (sv_calls s) data h r (s2\<lparr>sv_world := w\<rparr>)"
proof -
  define s1 where "s1 = (let s = s\<lparr>sv_calls := sv_calls s + 1\<rparr> in if sv_first_chunk s = [] then s\<lparr>sv_first_chunk := data\<rparr> else s)"
  have s1: "same s s1" "sv_world s1 = sv_world s" by (simp_all add: s1_def Let_def same_def)
  have ok1: "svc_ok s1" using same_ok [OF s1(1) ok] .
  obtain s2 h where p: "pick_member (en_clock env (sv_calls s) 1) s1 = (s2, Inr h)" "same s1 s2" "sv_world s2 = sv_world s1" "fits s2 h"
    using pick_member_ok [OF ok1] by blast
  obtain cap where cap: "encode_chunk_caption (en_keys env\<lparr>k_nonce := en_nonce env (sv_calls s)\<rparr>) (en_clock env (sv_calls s) 0)
            (str_or (sv_upload_id s1) []) (int (length (sv_chunks s1))) 0 (sv_filename s1) 0 (sv_content_type s1) None secret = Inr cap"
    using caption_total [of "en_keys env\<lparr>k_nonce := en_nonce env (sv_calls s)\<rparr>"] k by (fastforce simp: env_ok_def)
  let ?b = "opaque_chunk_name (en_token env (sv_calls s) 0) (length (sv_chunks s1))"
  obtain w r where w: "fakes_store (name_of s2 h) data ?b (Some cap) (sv_world s2) = (w, Inr r)" using fakes_store_ok by blast
  have "on_chunk fakes_store env secret data media s = record_chunk env (sv_calls s) data h r (s2\<lparr>sv_world := w\<rparr>)"
    using skip cap p(1) w by (simp add: on_chunk_def Let_def s1_def store_chunk_def store_at_def)
  moreover have "same s s2" "sv_world s2 = sv_world s" using same_trans [OF s1(1) p(2)] s1(2) p(3) by simp_all
  ultimately show ?thesis using p(4) w by metis
qed

lemma fakes_on_chunk_total:
  assumes ok: "svc_ok s" and k: "env_ok env"
  shows "\<exists>s' f. on_chunk fakes_store env secret data media s = (s', Inr f) \<and> svc_ok s'"
proof (cases "sv_skip s = 0")
  case False
  then show ?thesis using ok by (simp add: on_chunk_def Let_def svc_ok_def)
next
  case True
  obtain s2 h r w nm cap where f: "same s s2" "on_chunk fakes_store env secret data media s = record_chunk env (sv_calls s) data h r (s2\<lparr>sv_world := w\<rparr>)"
    using fakes_on_chunk_form [OF ok k True] by blast
  have "svc_ok (fst (record_chunk env (sv_calls s) data h r (s2\<lparr>sv_world := w\<rparr>)))"
    using same_ok [OF f(1) ok] by (simp add: record_chunk_def Let_def svc_ok_def)
  then show ?thesis using f(2) by (simp add: record_chunk_def Let_def)
qed

lemma fakes_feed_total:
  assumes "env_ok env"
  shows "svc_ok s \<Longrightarrow> \<exists>s'. feed (on_chunk fakes_store env secret) media cs s = (s', Inr ())"
proof (induction cs arbitrary: s media)
  case (Cons c cs)
  from fakes_on_chunk_total [OF Cons.prems assms, of secret c media]
  obtain s' f where "on_chunk fakes_store env secret c media s = (s', Inr f)" "svc_ok s'" by blast
  with Cons.IH [of s' False] show ?case by simp
qed simp

lemma upload_commits:
  assumes "calm pieces" and "concat_pieces = bytes_of pieces" and "concat_pieces \<noteq> []"
    and eok: "env_ok env"
    and "case max_bytes of None \<Rightarrow> True | Some m \<Rightarrow> length concat_pieces \<le> m"
    and "\<forall>m. fake_ok (w m)" and "po = None \<or> (\<exists>n. po = Some (pool_init n))"
    and "find_obj d (new_object_id draws) = None"
  shows "\<exists>s1 s2 row m.
       store_stream fakes_store fakes_delete sha body_read env (body_reader_init pieces)
         (svc_init backend d fn ct upload_id 0 ''upres'' po max_bytes w) = Some (s1, Inr (sha concat_pieces))
     \<and> commit now draws (sha concat_pieces) key s1 = (s2, Inr (new_object_id draws))
     \<and> find_obj (sv_db s2) (new_object_id draws) = Some row
     \<and> o_filename row = fn \<and> o_size row = int (length concat_pieces) \<and> o_sha256 row = Some (sha concat_pieces)
     \<and> from_json (the (o_manifest row)) = Inr m \<and> m_total_size m = int (length concat_pieces)
     \<and> o_manifest row \<noteq> None
     \<and> list_all2 (fakes.stored_as po backend (sv_world s2)) (m_chunks m) (chop (en_chunk_size env) concat_pieces)
     \<and> read_object fakes_open po backend (sv_world s2) m = Inr concat_pieces"
proof -
  let ?s = "svc_init backend d fn ct upload_id 0 ''upres'' po max_bytes w :: ('a, string \<Rightarrow> 'a fake) svc"
  let ?r = "body_reader_init pieces" and ?cs = "chop (en_chunk_size env) concat_pieces"
  have chunk: "0 < en_chunk_size env" using eok by (simp add: env_ok_def)
  have s: "sv_resume_from ?s = 0" "sv_skip ?s = 0" "sv_chunks ?s = []" "sv_world ?s = w" "sv_db ?s = d"
    "sv_pool ?s = po" "sv_backend ?s = backend" "sv_filename ?s = fn" "sv_max_bytes ?s = max_bytes" "sv_content_type ?s = ct"
    by (simp_all add: svc_init_def Let_def)
  have ok: "svc_ok ?s" using assms(7)
    by (auto simp: svc_init_def Let_def svc_ok_def pool_size_def pool_init_def intro!: exI [of _ "_ :: nat"] split: if_splits)
  have rest: "body_rest ?r = concat_pieces" "body_good ?r"
    using assms(1,2) by (simp_all add: body_rest_def body_good_def body_reader_init_def)
  have cat: "concat ?cs = concat_pieces" and ne: "?cs \<noteq> []"
    using concat_chop [OF chunk] assms(3) by (force, metis concat.simps(1) concat_chop [OF chunk])
  have tot: "\<exists>s'. store_stream fakes_store fakes_delete sha body_read env ?r ?s = Some (s', Inr (sha concat_pieces))"
  proof -
    let ?sec = "effective_hmac_secret (sv_db ?s) (en_hmac_secret env)"
    have "case sv_max_bytes ?s of None \<Rightarrow> True | Some m \<Rightarrow> length (body_rest ?r) \<le> m" using assms(5) unfolding rest s .
    note c = body.chunk_stream_feed [OF rest(2) chunk this, of sha "on_chunk fakes_store env ?sec" "truthy_str ct" ?s]
    from fakes_feed_total [OF eok ok, of ?sec "truthy_str ct" "chop (en_chunk_size env) (body_rest ?r)"]
    obtain s' where "feed (on_chunk fakes_store env ?sec) (truthy_str ct) (chop (en_chunk_size env) (body_rest ?r)) ?s = (s', Inr ())" by blast
    then show ?thesis using c rest s by (simp add: store_stream_fresh [OF s(1,3)])
  qed
  have mx: "case sv_max_bytes ?s of None \<Rightarrow> True | Some m \<Rightarrow> length (body_rest ?r) \<le> m" using assms(5) unfolding rest s .
  have g: "\<forall>m. fake_ok (sv_world ?s m)" using assms(6) s by simp
  obtain s1 x where x: "store_stream fakes_store fakes_delete sha body_read env ?r ?s = Some (s1, x)"
    "\<forall>h. x = Inr h \<longrightarrow> h = sha (body_rest ?r) \<and> fakes.frame ?s s1 \<and> fakes.stores s1 (chop (en_chunk_size env) (body_rest ?r))"
    using fakes.upload_stores [OF body.byte_stream_axioms rest(2) chunk mx ok g s(1-3), of fakes_delete sha] by blast
  have xr: "x = Inr (sha concat_pieces)" using tot x(1) by simp
  have s1: "store_stream fakes_store fakes_delete sha body_read env ?r ?s = Some (s1, Inr (sha concat_pieces))"
    "fakes.frame ?s s1" "fakes.stores s1 ?cs" using x unfolding xr rest by simp_all
  have "find_obj (sv_db s1) (new_object_id draws) = None" using s1(2) assms(8) s by (simp add: fakes.frame_def find_obj_def)
  from fakes.commit_reads [OF s1(3) ne this, of now "sha concat_pieces" key]
  obtain s2 row m where c: "commit now draws (sha concat_pieces) key s1 = (s2, Inr (new_object_id draws))" "sv_world s2 = sv_world s1"
     "find_obj (sv_db s2) (new_object_id draws) = Some row" "o_size row = int (length concat_pieces)"
     "o_sha256 row = Some (sha concat_pieces)" "o_filename row = sv_filename s1"
     "o_manifest row \<noteq> None" "from_json (the (o_manifest row)) = Inr m" "m_total_size m = o_size row"
     "list_all2 (fakes.stored_as (sv_pool s1) (sv_backend s1) (sv_world s1)) (m_chunks m) ?cs"
     "read_object fakes_open (sv_pool s1) (sv_backend s1) (sv_world s1) m = Inr concat_pieces" using cat by auto
  have n: "map_option pl_names (sv_pool s1) = map_option pl_names po" "sv_backend s1 = backend" "sv_filename s1 = fn"
    using s1(2) s by (simp_all add: fakes.frame_def)
  have "read_object fakes_open po backend (sv_world s2) m = Inr concat_pieces"
    using c(2,11) n pool_name_cong [OF n(1)] holder_of_cong [OF n(1)] by (simp add: read_object_def)
  moreover have "list_all2 (fakes.stored_as po backend (sv_world s2)) (m_chunks m) ?cs"
  proof -
    have "fakes.stored_as (sv_pool s1) backend (sv_world s1) = fakes.stored_as po backend (sv_world s1)"
      by (simp add: fun_eq_iff fakes.stored_as_def pool_name_cong [OF n(1)] holder_of_cong [OF n(1)])
    then show ?thesis using c(2,10) n by simp
  qed
  ultimately show ?thesis using s1(1) c n by auto
qed

text \<open>C1: an upload of a body into FakeBackends, spread over any number of pool members, always
  succeeds, and from the row that is committed the same bytes are read back: the manifest parses,
  its total size and the recorded hash are the body's, and the chunks, fetched each from the
  member its row names, concatenate to the body.\<close>

theorem upload_reads_back:
  assumes "calm pieces" and "concat_pieces = bytes_of pieces" and "concat_pieces \<noteq> []"
    and eok: "env_ok env"
    and "case max_bytes of None \<Rightarrow> True | Some m \<Rightarrow> length concat_pieces \<le> m"
    and "\<forall>m. fake_ok (w m)" and "po = None \<or> (\<exists>n. po = Some (pool_init n))"
    and "find_obj d (new_object_id draws) = None"
  shows "\<exists>s1 s2 row m.
       store_stream fakes_store fakes_delete sha body_read env (body_reader_init pieces)
         (svc_init backend d fn ct upload_id 0 ''upres'' po max_bytes w) = Some (s1, Inr (sha concat_pieces))
     \<and> commit now draws (sha concat_pieces) key s1 = (s2, Inr (new_object_id draws))
     \<and> find_obj (sv_db s2) (new_object_id draws) = Some row
     \<and> o_filename row = fn \<and> o_size row = int (length concat_pieces) \<and> o_sha256 row = Some (sha concat_pieces)
     \<and> from_json (the (o_manifest row)) = Inr m \<and> m_total_size m = int (length concat_pieces)
     \<and> read_object fakes_open po backend (sv_world s2) m = Inr concat_pieces"
  using upload_commits [OF assms, where backend = backend and fn = fn and ct = ct and upload_id = upload_id
    and sha = sha and now = now and key = key]
  by (elim exE conjE) (intro exI conjI; assumption)

definition demo_env :: "nat \<Rightarrow> env" where
  "demo_env csize = \<lparr>en_clock = (\<lambda>_ _. 7), en_keys = toy_keys, en_nonce = (\<lambda>_. replicate 12 (CHR ''n'')),
     en_token = (\<lambda>_ _. ''t''), en_harvester = None, en_hmac_secret = None, en_chunk_size = csize\<rparr>"

lemma demo_env_ok: "0 < n \<Longrightarrow> env_ok (demo_env n)"
  by (simp add: env_ok_def demo_env_def toy_keys_def)

lemma fakes_init_ok: "\<forall>m. fake_ok ((\<lambda>_. fake_init) m)"
  by (simp add: fake_ok_def fake_init_def)

theorem upload_reads_back_witness:
  "\<exists>s1 s2 row m.
       store_stream fakes_store fakes_delete (\<lambda>_. ''h'') body_read (demo_env 2) (body_reader_init [Piece [1, 2, 3], Piece [4 :: nat]])
         (svc_init (Member 0) db_empty ''f'' None None 0 ''upres'' (Some (pool_init 3)) (Some 9) (\<lambda>_. fake_init)) = Some (s1, Inr ''h'')
     \<and> commit 5 [] ''h'' None s1 = (s2, Inr (new_object_id []))
     \<and> find_obj (sv_db s2) (new_object_id []) = Some row
     \<and> o_filename row = ''f'' \<and> o_size row = int (length [1, 2, 3, 4 :: nat]) \<and> o_sha256 row = Some ''h''
     \<and> from_json (the (o_manifest row)) = Inr m \<and> m_total_size m = int (length [1, 2, 3, 4 :: nat])
     \<and> read_object fakes_open (Some (pool_init 3)) (Member 0) (sv_world s2) m = Inr [1, 2, 3, 4]"
proof (rule upload_reads_back [where sha = "\<lambda>_. ''h''"])
  show "calm [Piece [1, 2, 3], Piece [4 :: nat]]" by simp
  show "[1, 2, 3, 4] = bytes_of [Piece [1, 2, 3], Piece [4 :: nat]]" by simp
  show "env_ok (demo_env 2)" by (simp add: demo_env_ok)
  show "\<forall>m. fake_ok fake_init" by (simp add: fake_ok_def fake_init_def)
  show "find_obj db_empty (new_object_id []) = None" by (simp add: find_obj_def db_empty_def)
  show "Some (pool_init 3) = None \<or> (\<exists>n. Some (pool_init 3) = Some (pool_init n))" by blast
qed simp_all

text \<open>Also: an empty upload is accepted by the store and then fails in the commit with an
  \<^verbatim>\<open>IndexError\<close>: there is no chunk whose holder could be recorded.\<close>

theorem empty_upload_fails:
  fixes w :: "string \<Rightarrow> 'e fake"
  assumes "calm pieces" and "bytes_of pieces = []" and "env_ok env"
    and "\<forall>m. fake_ok (w m)" and "po = None \<or> (\<exists>n. po = Some (pool_init n))"
  shows "\<exists>s1. store_stream fakes_store fakes_delete sha body_read env (body_reader_init pieces)
         (svc_init backend d fn ct upload_id 0 pre po max_bytes w) = Some (s1, Inr (sha []))
     \<and> snd (commit now draws h key s1) = Inl IndexError \<and> d_objects (sv_db s1) = d_objects d"
proof -
  let ?s = "svc_init backend d fn ct upload_id 0 pre po max_bytes w :: ('e, string \<Rightarrow> 'e fake) svc"
  have s: "sv_resume_from ?s = 0" "sv_chunks ?s = []" "sv_db ?s = d" by (simp_all add: svc_init_def Let_def)
  have rest: "body_rest (body_reader_init pieces) = []" "body_good (body_reader_init pieces)"
    using assms(1,2) by (simp_all add: body_rest_def body_good_def body_reader_init_def)
  have cs: "0 < en_chunk_size env" using assms(3) by (simp add: env_ok_def)
  have mx: "case sv_max_bytes ?s of None \<Rightarrow> True | Some m \<Rightarrow> length (body_rest (body_reader_init pieces)) \<le> m"
    unfolding rest by (simp split: option.split)
  have "store_stream fakes_store fakes_delete sha body_read env (body_reader_init pieces) ?s = Some (?s, Inr (sha []))"
    unfolding store_stream_fresh [OF s(1,2)] body.chunk_stream_feed [OF rest(2) cs mx] rest by (simp add: chop.simps)
  then show ?thesis using s by (simp add: commit_def Let_def)
qed

theorem empty_upload_fails_witness:
  "\<exists>s1. store_stream fakes_store fakes_delete (\<lambda>_. ''h'') body_read (demo_env 2) (body_reader_init [Piece ([] :: nat list)])
         (svc_init (Outside ''fake'') db_empty ''f'' None None 0 ''upres'' None None (\<lambda>_. fake_init)) = Some (s1, Inr ''h'')
     \<and> snd (commit 5 [] ''h'' None s1) = Inl IndexError \<and> d_objects (sv_db s1) = d_objects db_empty"
  by (rule empty_upload_fails [where sha = "\<lambda>_. ''h''"]) (simp_all add: demo_env_ok fake_ok_def fake_init_def)

section \<open>Failed uploads\<close>

text \<open>Whatever every callback keeps, a run of the chunker keeps, however it ends.\<close>

lemma chunk_loop_keeps:
  fixes read :: "'s \<Rightarrow> nat \<Rightarrow> ('e list \<times> 's) res" and cb :: "'e list \<Rightarrow> bool \<Rightarrow> 'st \<Rightarrow> 'st \<times> string res"
  assumes step: "\<And>buf m st st' x. P st \<Longrightarrow> cb buf m st = (st', x) \<Longrightarrow> P st'"
    and run: "chunk_loop sha read csize cb media mx s st t i h = Some y" and start: "P st"
  shows "P (fst y)"
proof -
  have "cb = cb \<longrightarrow> P st \<longrightarrow> P (fst y)"
  proof (rule chunk_loop.raw_induct [of "\<lambda>sha read csize cb' media mx s st t i h y. cb' = cb \<longrightarrow> P st \<longrightarrow> P (fst y)", OF _ run], intro impI)
    fix chunk_loop sha csize media mx st t i h y and read :: "'s \<Rightarrow> nat \<Rightarrow> ('e list \<times> 's) res" and cb' s
    assume ih: "\<And>sha read csize cb' media mx s st t i h y. chunk_loop sha read csize cb' media mx s st t i h = Some y \<Longrightarrow>
        cb' = cb \<longrightarrow> P st \<longrightarrow> P (fst y)"
      and eq: "(case fill read mx t csize s [] of Inl e \<Rightarrow> Some (st, Inl e)
        | Inr (buf, s') \<Rightarrow> if buf = [] then Some (st, Inr (t, sha h))
            else case cb' buf (i = 0 \<and> media) st of (st', Inl e) \<Rightarrow> Some (st', Inl e)
              | (st', Inr x) \<Rightarrow> chunk_loop sha read csize cb' media mx s' st' (t + length buf) (i + 1) (h @ buf)) = Some y"
      and cb: "cb' = cb" and p: "P st"
    show "P (fst y)"
    proof (cases "fill read mx t csize s []")
      case (Inl e)
      then show ?thesis using eq p by auto
    next
      case (Inr bs)
      obtain buf s' where bs: "bs = (buf, s')" by (cases bs)
      obtain st' x where o: "cb buf (i = 0 \<and> media) st = (st', x)" by (cases "cb buf (i = 0 \<and> media) st")
      have p': "P st'" using step [OF p o] .
      show ?thesis
      proof (cases "buf = []")
        case True
        then show ?thesis using eq p Inr bs by auto
      next
        case False
        then show ?thesis using eq Inr bs o cb p' ih by (cases x) auto
      qed
    qed
  qed
  with start show ?thesis by simp
qed

text \<open>Where an error of the chunker comes from: a read, the ceiling or a callback. \<open>I\<close> is what every read keeps of
  the stream, \<open>rest\<close> what it still gives.\<close>

lemma fill_outcome:
  fixes read :: "'s \<Rightarrow> nat \<Rightarrow> ('e list \<times> 's) res" and rest :: "'s \<Rightarrow> 'e list"
  assumes reads: "\<And>s n p s'. I s \<Longrightarrow> read s n = Inr (p, s') \<Longrightarrow> I s' \<and> rest s = p @ rest s'"
  shows "I s \<Longrightarrow> case fill read mx t c s buf of
       Inl e \<Rightarrow> (\<exists>s n. I s \<and> read s n = Inl e) \<or> (e = UploadCeilingExceeded \<and> (\<exists>m. mx = Some m \<and> m < t + length buf + length (rest s)))
     | Inr (buf', s') \<Rightarrow> I s' \<and> buf @ rest s = buf' @ rest s' \<and> (buf \<noteq> [] \<longrightarrow> buf' \<noteq> [])"
proof (induction "c - length buf" arbitrary: s buf rule: less_induct)
  case less
  let ?k = "c - length buf"
  show ?case
  proof (cases "length buf < c")
    case False
    then show ?thesis using less.prems by (subst fill.simps) simp
  next
    case True
    note lt = True
    show ?thesis
    proof (cases "read s ?k")
      case (Inl e)
      then have "fill read mx t c s buf = Inl e" using lt by (subst fill.simps) simp
      then show ?thesis using Inl less.prems by auto
    next
      case (Inr y)
      obtain p s' where y: "y = (p, s')" by (rule prod.exhaust)
      note r = reads [OF less.prems Inr [unfolded y]]
      show ?thesis
      proof (cases "p = [] \<or> (case mx of None \<Rightarrow> False | Some m \<Rightarrow> t + length (buf @ p) > m)")
        case True
        show ?thesis
        proof (cases "p = []")
          case True
          then have "fill read mx t c s buf = Inr (buf, s')" using lt Inr y by (subst fill.simps) simp
          then show ?thesis using r True by simp
        next
          case False
          then obtain m where m: "mx = Some m" "m < t + length (buf @ p)" using True by (cases mx) auto
          then have "fill read mx t c s buf = Inl UploadCeilingExceeded" using lt Inr y False by (subst fill.simps) simp
          then show ?thesis using m r by auto
        qed
      next
        case False
        then have f: "fill read mx t c s buf = fill read mx t c s' (buf @ p)" using lt Inr y by (subst fill.simps) (simp split: option.splits)
        have "c - length (buf @ p) < ?k" using buffer_grows [of p "length buf" c] False lt by simp
        from less.hyps [OF this conjunct1 [OF r]] show ?thesis using r False unfolding f by (auto split: sum.splits)
      qed
    qed
  qed
qed

lemma chunk_loop_error:
  fixes read :: "'s \<Rightarrow> nat \<Rightarrow> ('e list \<times> 's) res" and cb :: "'e list \<Rightarrow> bool \<Rightarrow> 'st \<Rightarrow> 'st \<times> string res" and rest :: "'s \<Rightarrow> 'e list"
  assumes step: "\<And>buf m st st' x. P st \<Longrightarrow> cb buf m st = (st', x) \<Longrightarrow> P st'"
    and reads: "\<And>s n p s'. I s \<Longrightarrow> read s n = Inr (p, s') \<Longrightarrow> I s' \<and> rest s = p @ rest s'"
    and run: "chunk_loop sha read csize cb media mx s st t i h = Some (st', Inl e)" and start: "P st" "I s"
  shows "(\<exists>s n. I s \<and> read s n = Inl e) \<or> (e = UploadCeilingExceeded \<and> (\<exists>m. mx = Some m \<and> m < t + length (rest s)))
     \<or> (\<exists>buf m st1 st2. P st1 \<and> cb buf m st1 = (st2, Inl e))"
proof -
  let ?Q = "\<lambda>mx s t e. (\<exists>s n. I s \<and> read s n = Inl e) \<or> (e = UploadCeilingExceeded \<and> (\<exists>m. mx = Some m \<and> m < t + length (rest s)))
     \<or> (\<exists>buf m st1 st2. P st1 \<and> cb buf m st1 = (st2, Inl e))"
  have "read = read \<and> cb = cb \<longrightarrow> P st \<longrightarrow> I s \<longrightarrow> (\<forall>e'. snd (st', Inl e :: (nat \<times> string) res) = Inl e' \<longrightarrow> ?Q mx s t e')"
  proof (rule chunk_loop.raw_induct [of "\<lambda>sha read' csize cb' media mx s st t i h y. read' = read \<and> cb' = cb \<longrightarrow> P st \<longrightarrow> I s
      \<longrightarrow> (\<forall>e'. snd y = Inl e' \<longrightarrow> ?Q mx s t e')", OF _ run], intro impI allI, elim conjE)
    fix chunk_loop sha csize media mx st t i h y e' and read' :: "'s \<Rightarrow> nat \<Rightarrow> ('e list \<times> 's) res" and cb' s
    assume ih: "\<And>sha read' csize cb' media mx s st t i h y. chunk_loop sha read' csize cb' media mx s st t i h = Some y \<Longrightarrow>
        read' = read \<and> cb' = cb \<longrightarrow> P st \<longrightarrow> I s \<longrightarrow> (\<forall>e'. snd y = Inl e' \<longrightarrow> ?Q mx s t e')"
      and eq: "(case fill read' mx t csize s [] of Inl e \<Rightarrow> Some (st, Inl e)
        | Inr (buf, s') \<Rightarrow> if buf = [] then Some (st, Inr (t, sha h))
            else case cb' buf (i = 0 \<and> media) st of (st', Inl e) \<Rightarrow> Some (st', Inl e)
              | (st', Inr x) \<Rightarrow> chunk_loop sha read' csize cb' media mx s' st' (t + length buf) (i + 1) (h @ buf)) = Some y"
      and same: "read' = read" "cb' = cb" and p: "P st" "I s" and e': "snd y = Inl e'"
    have fo: "case fill read mx t csize s [] of
       Inl e \<Rightarrow> (\<exists>s n. I s \<and> read s n = Inl e) \<or> (e = UploadCeilingExceeded \<and> (\<exists>m. mx = Some m \<and> m < t + length ([] :: 'e list) + length (rest s)))
     | Inr (buf', s') \<Rightarrow> I s' \<and> [] @ rest s = buf' @ rest s' \<and> (([] :: 'e list) \<noteq> [] \<longrightarrow> buf' \<noteq> [])"
      by (rule fill_outcome [of I read rest], erule (1) reads, rule p(2))
    show "?Q mx s t e'"
    proof (cases "fill read mx t csize s []")
      case (Inl e1)
      then show ?thesis using fo eq same e' by auto
    next
      case (Inr bs)
      obtain buf s' where bs: "bs = (buf, s')" by (rule prod.exhaust)
      note f = fo [unfolded Inr bs sum.case prod.case]
      obtain st1 x where o: "cb buf (i = 0 \<and> media) st = (st1, x)" by (rule prod.exhaust)
      show ?thesis
      proof (cases "buf = []")
        case True
        then show ?thesis using eq Inr bs same e' by auto
      next
        case False
        show ?thesis
        proof (cases x)
          case (Inl e1)
          then show ?thesis using eq \<open>fill read mx t csize s [] = Inr bs\<close> bs same False o e' p(1) by auto
        next
          case (Inr z)
          have "chunk_loop sha read csize cb media mx s' st1 (t + length buf) (i + 1) (h @ buf) = Some y"
            using eq \<open>fill read mx t csize s [] = Inr bs\<close> bs same False o Inr by simp
          then have "?Q mx s' (t + length buf) e'" using ih step [OF p(1) o] f e' by blast
          moreover have "t + length buf + length (rest s') = t + length (rest s)" using f by simp
          ultimately show ?thesis by simp
        qed
      qed
    qed
  qed
  then show ?thesis using start by simp
qed

text \<open>The blobs of the FakeBackends.\<close>

definition blob :: "(string \<Rightarrow> 'b fake) \<Rightarrow> string \<times> string \<Rightarrow> 'b list option" where
  "blob w = (\<lambda>(m, f). map_of (fb_store (w m)) f)"

lemma fakes_open_blob:
  "snd (fakes_open m q w) = (case blob w (m, or_file_id q) of None \<Rightarrow> Inl (KeyError (or_file_id q)) | Some d \<Rightarrow> Inr d)"
  by (simp add: fakes_open_def at_def fake_open_def blob_def)

lemma blob_stored:
  assumes "\<forall>m. fake_ok (w m)" and "fakes_store m d n c w = (w', Inr r)"
  shows "blob w (m, or_file_id r) = None \<and> blob w' = (blob w)((m, or_file_id r) \<mapsto> d)"
proof -
  have "w' = w(m := fst (fake_store d n c (w m)))" "snd (fake_store d n c (w m)) = Inr r"
    using assms(2) by (simp_all add: fakes_store_def at_def split_beta)
  moreover have "map_of (fb_store (w m)) (fake_id (length (fb_store (w m)))) = None"
    using fake_id_fresh [of "w m"] assms(1) by (simp add: map_of_eq_None_iff)
  ultimately show ?thesis by (auto simp: fake_store_def Let_def blob_def update_conv' fun_eq_iff)
qed

lemma blob_deleted:
  assumes "fakes_delete m q w = (w', x)"
  shows "blob w' = (blob w)((m, or_file_id q) := None) \<and> (\<exists>b. x = Inr b)"
proof -
  have "w' = w(m := fst (fake_delete q (w m)))" "x = snd (fake_delete q (w m))"
    using assms by (simp_all add: fakes_delete_def at_def split_beta)
  then show ?thesis by (auto simp: fake_delete_def blob_def delete_conv' fun_eq_iff)
qed

definition chunk_at :: "pool option \<Rightarrow> handle \<Rightarrow> chunk \<Rightarrow> string \<times> string" where
  "chunk_at po backend c = (pool_name po (holder_of po backend (c_backend c)), c_file_id c)"

abbreviation own :: "('b, 'w) svc \<Rightarrow> (string \<times> string) set" where
  "own s \<equiv> chunk_at (sv_pool s) (sv_backend s) ` set (sv_chunks s)"

lemma chunk_at_cong: "map_option pl_names po = map_option pl_names po' \<Longrightarrow> chunk_at po = chunk_at po'"
  using pool_name_cong [of po po'] holder_of_cong [of po po'] by (simp add: chunk_at_def fun_eq_iff)

lemma rollback_blobs:
  "rollback_chunks fakes_delete cs s = (s', n) \<Longrightarrow>
     sv_db s' = sv_db s \<and> sv_chunks s' = sv_chunks s \<and> sv_pool s' = sv_pool s \<and> sv_backend s' = sv_backend s \<and> sv_ck_key s' = sv_ck_key s
     \<and> (\<forall>p. blob (sv_world s') p = (if p \<in> chunk_at (sv_pool s) (sv_backend s) ` set cs then None else blob (sv_world s) p))"
proof (induction cs arbitrary: s s' n)
  case (Cons c cs)
  let ?nm = "name_of s (holder s (c_backend c))"
  obtain w b where d: "fakes_delete ?nm (mk_ref (c_file_id c) (c_message_id c) ?nm) (sv_world s) = (w, Inr b)"
    using blob_deleted by (metis surj_pair)
  from Cons.prems d obtain n' where r: "rollback_chunks fakes_delete cs (s\<lparr>sv_world := w\<rparr>) = (s', n')"
    by (auto simp: Let_def split: prod.splits)
  from Cons.IH [OF r] blob_deleted [OF d] show ?case by (auto simp: chunk_at_def)
qed simp

section \<open>A failed upload\<close>

text \<open>A backend that may fail: a call stores the chunk, or it raises and has stored nothing.\<close>

type_synonym 'b store_op = "string \<Rightarrow> 'b list \<Rightarrow> string \<Rightarrow> string option \<Rightarrow> (string \<Rightarrow> 'b fake) \<Rightarrow> (string \<Rightarrow> 'b fake) \<times> object_ref res"

definition flaky :: "'b store_op \<Rightarrow> bool" where
  "flaky st = (\<forall>m data nm cap w. st m data nm cap w = fakes_store m data nm cap w \<or> (\<exists>e. st m data nm cap w = (w, Inl e)))"

lemma flaky_fakes [simp]: "flaky fakes_store"
  by (simp add: flaky_def)

lemma flaky_call:
  assumes "flaky st" and "st m data nm cap w = (w', x)"
  shows "case x of Inl _ \<Rightarrow> w' = w | Inr _ \<Rightarrow> fakes_store m data nm cap w = (w', x)"
proof -
  obtain w1 r where f: "fakes_store m data nm cap w = (w1, Inr r)" using fakes_store_ok by blast
  have "st m data nm cap w = fakes_store m data nm cap w \<or> (\<exists>e. st m data nm cap w = (w, Inl e))" using assms(1) unfolding flaky_def by blast
  then show ?thesis using f assms(2) by (auto split: sum.split)
qed

lemma flaky_chunk:
  assumes fl: "flaky st" and ok: "svc_ok s" and st: "store_chunk st env n data idx caption s = (s', x)"
  shows "same s s' \<and> (case x of Inl _ \<Rightarrow> sv_world s' = sv_world s
     | Inr (h, r) \<Rightarrow> fits s' h \<and> (\<exists>nm. fakes_store (name_of s' h) data nm (Some caption) (sv_world s) = (sv_world s', Inr r)))"
proof -
  obtain h nm w1 where t: "same s s'"
    and w1: "w1 = sv_world s \<or> (\<exists>m0 nm0 e. st m0 data nm0 (Some caption) (sv_world s) = (w1, Inl e))"
    and w: "st (name_of s' h) data nm (Some caption) w1 = (sv_world s', map_sum id snd x)"
    and x: "case x of Inl _ \<Rightarrow> True | Inr (h', _) \<Rightarrow> h' = h \<and> fits s' h"
    using store_chunk_tries [OF ok st] by blast
  have "w1 = sv_world s" using w1 by (auto dest: flaky_call [OF fl])
  then show ?thesis using t x flaky_call [OF fl w] by (cases x) auto
qed

text \<open>A callback stores and records its chunk, or leaves the chunks and the backends alone: it drains a chunk that was
  taken over, or it raises.\<close>

definition untouched :: "('b, 'w) svc \<Rightarrow> ('b, 'w) svc \<Rightarrow> bool" where
  "untouched s s' = (sv_chunks s' = sv_chunks s \<and> sv_world s' = sv_world s \<and> sv_backend s' = sv_backend s \<and> sv_db s' = sv_db s
     \<and> sv_ck_key s' = sv_ck_key s \<and> sv_distribute s' = sv_distribute s \<and> map_option pl_names (sv_pool s') = map_option pl_names (sv_pool s))"

lemma untouched_same: "same s s' \<Longrightarrow> sv_world s' = sv_world s \<Longrightarrow> untouched s s'"
  by (simp add: untouched_def same_def)

lemma flaky_on_chunk:
  assumes fl: "flaky st" and ok: "svc_ok s" and oc: "on_chunk st env secret data media s = (s', x)"
  shows "untouched s s' \<and> (0 < sv_skip s \<or> (\<exists>e. x = Inl e)) \<or> (\<exists>s2 h r w nm cap. same s s2 \<and> fits s2 h
     \<and> fakes_store (name_of s2 h) data nm cap (sv_world s) = (w, Inr r)
     \<and> (s', x) = record_chunk env (sv_calls s) data h r (s2\<lparr>sv_world := w\<rparr>))"
proof (cases "sv_skip s = 0")
  case False
  then have "untouched s s'" using oc by (auto simp: on_chunk_def Let_def untouched_def)
  then show ?thesis using False by simp
next
  case True
  define s1 where "s1 = (let s = s\<lparr>sv_calls := sv_calls s + 1\<rparr> in if sv_first_chunk s = [] then s\<lparr>sv_first_chunk := data\<rparr> else s)"
  have s1: "same s s1" "sv_world s1 = sv_world s" by (simp_all add: s1_def Let_def same_def)
  define cap where "cap = encode_chunk_caption (en_keys env\<lparr>k_nonce := en_nonce env (sv_calls s)\<rparr>) (en_clock env (sv_calls s) 0)
            (str_or (sv_upload_id s1) []) (int (length (sv_chunks s1))) 0 (sv_filename s1) 0 (sv_content_type s1) None secret"
  have o: "(s', x) = (case cap of Inl e \<Rightarrow> (s1, Inl e)
        | Inr caption \<Rightarrow> (case store_chunk st env (sv_calls s) data (length (sv_chunks s1)) caption s1 of
               (s, Inl e) \<Rightarrow> (s, Inl e) | (s2, Inr (target, r)) \<Rightarrow> record_chunk env (sv_calls s) data target r s2))"
    using True oc unfolding on_chunk_def Let_def s1_def cap_def by (cases "sv_first_chunk s = []") simp_all
  show ?thesis
  proof (cases cap)
    case (Inl e)
    then show ?thesis using o s1 untouched_same by auto
  next
    case (Inr caption)
    obtain s2 y where y: "store_chunk st env (sv_calls s) data (length (sv_chunks s1)) caption s1 = (s2, y)" by (rule prod.exhaust)
    note f = flaky_chunk [OF fl same_ok [OF s1(1) ok] y]
    have ss2: "same s s2" using same_trans [OF s1(1)] f by blast
    show ?thesis
    proof (cases y)
      case (Inl e)
      then show ?thesis using o Inr y f ss2 s1(2) untouched_same by auto
    next
      case (Inr hr)
      obtain h r where hr: "hr = (h, r)" by (rule prod.exhaust)
      have e: "(s', x) = record_chunk env (sv_calls s) data h r s2" using o \<open>cap = Inr caption\<close> y Inr hr by simp
      obtain nm where st: "fits s2 h" "fakes_store (name_of s2 h) data nm (Some caption) (sv_world s) = (sv_world s2, Inr r)"
        using f s1(2) Inr hr by auto
      have "s2\<lparr>sv_world := sv_world s2\<rparr> = s2" by simp
      then show ?thesis using e ss2 st by metis
    qed
  qed
qed

lemma untouched_ok: "untouched s s' \<Longrightarrow> svc_ok s \<Longrightarrow> svc_ok s'"
  by (fastforce simp: untouched_def svc_ok_def)

lemma flaky_keeps:
  assumes "flaky st" and "svc_ok s" and "on_chunk st env secret data media s = (s', x)"
  shows "svc_ok s' \<and> d_objects (sv_db s') = d_objects (sv_db s) \<and> (sv_chunks s \<noteq> [] \<or> sv_skip s = 0 \<and> (\<exists>f. x = Inr f) \<longrightarrow> sv_chunks s' \<noteq> [])"
  using flaky_on_chunk [OF assms]
proof (elim disjE exE conjE)
  fix s2 h r w nm cap
  assume f: "same s s2" "(s', x) = record_chunk env (sv_calls s) data h r (s2\<lparr>sv_world := w\<rparr>)"
  have "svc_ok (fst (record_chunk env (sv_calls s) data h r (s2\<lparr>sv_world := w\<rparr>)))"
    using same_ok [OF f(1) assms(2)] by (simp add: record_chunk_def Let_def svc_ok_def)
  moreover have "d_objects (sv_db (fst (record_chunk env (sv_calls s) data h r (s2\<lparr>sv_world := w\<rparr>)))) = d_objects (sv_db s)"
    using f(1) by (simp add: record_chunk_def Let_def same_def)
  moreover have "sv_chunks (fst (record_chunk env (sv_calls s) data h r (s2\<lparr>sv_world := w\<rparr>))) \<noteq> []" by (simp add: record_chunk_def Let_def)
  ultimately show ?thesis unfolding f(2) [symmetric] fst_conv by blast
qed (use untouched_ok [OF _ assms(2)] in \<open>auto simp: untouched_def\<close>)

text \<open>While chunks are stored, after the chunks \<open>old\<close> that were taken over from a checkpoint: the blobs are those there
  were and those of the new chunks, at places that were free; the checkpoint lists the chunks once there is a new one.\<close>

definition checkpoint_of :: "chunk list \<Rightarrow> string \<Rightarrow> bool" where
  "checkpoint_of cs t = (\<exists>now. t = dumps_compact (JObj [(''_ts'', JInt now), (''chunks'', JList (map ck_chunk cs))]))"

definition uploading :: "(string \<Rightarrow> 'b fake) \<Rightarrow> db \<Rightarrow> string option \<Rightarrow> pool option \<Rightarrow> handle \<Rightarrow> chunk list \<Rightarrow> chunk list
    \<Rightarrow> ('b, string \<Rightarrow> 'b fake) svc \<Rightarrow> bool" where
  "uploading w d ck po backend old new s = (svc_ok s \<and> (\<forall>m. fake_ok (sv_world s m))
     \<and> sv_backend s = backend \<and> map_option pl_names (sv_pool s) = map_option pl_names po \<and> sv_ck_key s = ck
     \<and> d_objects (sv_db s) = d_objects d \<and> sv_chunks s = old @ new
     \<and> (\<forall>c \<in> set new. blob w (chunk_at po backend c) = None)
     \<and> (\<forall>p. p \<notin> chunk_at po backend ` set new \<longrightarrow> blob (sv_world s) p = blob w p)
     \<and> (new \<noteq> [] \<longrightarrow> (case ck of None \<Rightarrow> True | Some k \<Rightarrow> \<exists>t. kv_get (sv_db s) k = Some t \<and> checkpoint_of (sv_chunks s) t)))"

lemma uploading_blobs:
  assumes "uploading w d ck po backend old new s"
  shows "(\<forall>c \<in> set new. blob w (chunk_at po backend c) = None) \<and> (\<forall>p. p \<notin> chunk_at po backend ` set new \<longrightarrow> blob (sv_world s) p = blob w p)"
  using assms unfolding uploading_def by (elim conjE) (rule conjI)

lemma uploading_checkpoint:
  assumes "uploading w d ck po backend old new s"
  shows "d_objects (sv_db s) = d_objects d \<and> sv_chunks s = old @ new
    \<and> (new \<noteq> [] \<longrightarrow> (case ck of None \<Rightarrow> True | Some k \<Rightarrow> \<exists>t. kv_get (sv_db s) k = Some t \<and> checkpoint_of (sv_chunks s) t))"
  using assms unfolding uploading_def by (elim conjE) (intro conjI)

lemma uploading_fields:
  assumes "uploading w d ck po backend old new s"
  shows "svc_ok s" "\<forall>m. fake_ok (sv_world s m)" "sv_backend s = backend" "map_option pl_names (sv_pool s) = map_option pl_names po"
    "sv_ck_key s = ck" "d_objects (sv_db s) = d_objects d" "sv_chunks s = old @ new"
  using assms by (simp_all only: uploading_def simp_thms)

lemma uploading_untouched:
  assumes "uploading w d ck po backend old new s" and "untouched s s'"
  shows "uploading w d ck po backend old new s'"
proof -
  have v: "sv_chunks s' = sv_chunks s" "sv_world s' = sv_world s" "sv_backend s' = sv_backend s" "sv_db s' = sv_db s"
     "sv_ck_key s' = sv_ck_key s" "sv_distribute s' = sv_distribute s" "map_option pl_names (sv_pool s') = map_option pl_names (sv_pool s)"
    using assms(2) by (simp_all add: untouched_def)
  have "svc_ok s'" using uploading_fields(1) [OF assms(1)] v(6,7) by (fastforce simp: svc_ok_def)
  then show ?thesis using assms(1) unfolding uploading_def v by (elim conjE) (intro conjI; assumption)
qed

lemma uploading_step:
  assumes u: "uploading w d ck po backend old new s" and fl: "flaky st"
    and oc: "on_chunk st env secret data media s = (s', x)"
  shows "\<exists>new'. uploading w d ck po backend old new' s'"
proof (cases "untouched s s'")
  case True
  then show ?thesis using uploading_untouched [OF u] by blast
next
  case False
  note s = uploading_fields [OF u]
  obtain s2 h r w' nm cap where f: "same s s2" "fits s2 h"
     "fakes_store (name_of s2 h) data nm cap (sv_world s) = (w', Inr r)"
     "(s', x) = record_chunk env (sv_calls s) data h r (s2\<lparr>sv_world := w'\<rparr>)"
    using flaky_on_chunk [OF fl s(1) oc] False by blast
  have ok2: "svc_ok s2" using same_ok [OF f(1) s(1)] .
  have h: "holder s2 (if sv_distribute s2 then Some (name_of s2 h) else None) = h" using fits_holder [OF ok2 f(2)] .
  define c where "c = \<lparr>c_index = int (length (sv_chunks s2)), c_size = int (length data), c_file_id = or_file_id r,
               c_message_id = or_message_id r,
               c_bot_file_id = (case (en_harvester env, or_message_id r) of (Some h, Some m) \<Rightarrow> h (sv_calls s) m | _ \<Rightarrow> None),
               c_backend = (if sv_distribute s2 then Some (name_of s2 h) else None)\<rparr>"
  have s': "s' = write_checkpoint (en_clock env (sv_calls s) 4) (s2\<lparr>sv_world := w', sv_chunks := sv_chunks s2 @ [c]\<rparr>)"
    using f(4) unfolding c_def by (auto simp: record_chunk_def Let_def)
  let ?at = "(name_of s2 h, or_file_id r)"
  have pn: "map_option pl_names (sv_pool s2) = map_option pl_names po" "sv_backend s2 = backend" using f(1) s(3,4) by (simp_all add: same_def)
  have "chunk_at (sv_pool s2) (sv_backend s2) c = ?at" using h by (simp add: chunk_at_def c_def)
  then have ca: "chunk_at po backend c = ?at" using chunk_at_cong [OF pn(1)] pn(2) by simp
  have b: "blob (sv_world s) ?at = None" "blob w' = (blob (sv_world s))(?at \<mapsto> data)"
    using blob_stored [OF s(2) f(3)] by simp_all
  have g: "\<forall>m. fake_ok (w' m)" using fakes.store_good [OF s(2), of "name_of s2 h" data nm cap] f(3) by simp
  have db: "d_objects (sv_db s') = d_objects d" using s(6) f(1) by (simp add: s' same_def)
  have ckp: "case ck of None \<Rightarrow> True | Some k \<Rightarrow> \<exists>t. kv_get (sv_db s') k = Some t \<and> checkpoint_of (sv_chunks s') t"
  proof (cases ck)
    case (Some k)
    then have "sv_ck_key s2 = Some k" using s(5) f(1) Some by (simp add: same_def)
    then have "kv_get (sv_db s') k = Some (dumps_compact (JObj [(''_ts'', JInt (en_clock env (sv_calls s) 4)),
        (''chunks'', JList (map ck_chunk (sv_chunks s')))]))"
      by (simp add: s' write_checkpoint_def kv_simps)
    then show ?thesis unfolding Some checkpoint_of_def option.case by blast
  qed simp
  note fresh = conjunct1 [OF uploading_blobs [OF u]] and rest = conjunct2 [OF uploading_blobs [OF u]]
  have "blob w ?at = None"
  proof (cases "?at \<in> chunk_at po backend ` set new")
    case True
    then obtain c' where "c' \<in> set new" "?at = chunk_at po backend c'" by (elim imageE)
    then show ?thesis using bspec [OF fresh] by simp
  next
    case False
    then show ?thesis using spec [OF rest, of ?at] b(1) by simp
  qed
  then have new': "\<forall>c \<in> set (new @ [c]). blob w (chunk_at po backend c) = None" using fresh ca by simp
  have rest': "\<forall>p. p \<notin> chunk_at po backend ` set (new @ [c]) \<longrightarrow> blob (sv_world s') p = blob w p"
    using rest unfolding s' by (simp add: ca b(2))
  have sw: "sv_world s' = w'" "sv_backend s' = backend" "sv_pool s' = sv_pool s2" "sv_distribute s' = sv_distribute s2" "sv_ck_key s' = ck"
    "sv_chunks s' = old @ (new @ [c])"
    using s(3,5,7) f(1) by (simp_all add: s' same_def write_checkpoint_def split: option.split)
  have "svc_ok s'" using ok2 sw by (simp add: svc_ok_def)
  then have "uploading w d ck po backend old (new @ [c]) s'" unfolding uploading_def using g db ckp new' rest' sw(1-3,5,6) pn(1) by (intro conjI) (assumption | simp only: simp_thms)+
  then show ?thesis ..
qed

text \<open>The chunks that a resumed upload takes over from its checkpoint; an upload whose checkpoint is too short or
  unreadable fails before it takes any over.\<close>

definition taken_over :: "('b, 'w) svc \<Rightarrow> chunk list" where
  "taken_over s =
     (case load_prior_chunks s of
        Inl _ \<Rightarrow> []
      | Inr prior \<Rightarrow> (case seed 0 prior [] of (_, Inl _) \<Rightarrow> [] | (cs, Inr _) \<Rightarrow> cs))"

lemma taken_over_fresh [simp]: "taken_over (svc_init backend d fn ct upload_id 0 pre po mx w) = []"
  by (simp add: taken_over_def load_prior_chunks_def svc_init_def Let_def)

lemma uploading_init:
  assumes "\<forall>m. fake_ok (w m)" and "po = None \<or> (\<exists>n. po = Some (pool_init n))"
  shows "uploading w d (sv_ck_key (svc_init backend d fn ct upload_id n pre po mx w)) po backend old []
    (svc_init backend d fn ct upload_id n pre po mx w\<lparr>sv_chunks := old\<rparr>)"
  using assms by (auto simp: uploading_def svc_init_def Let_def svc_ok_def pool_size_def pool_init_def
      intro!: exI [of _ "_ :: nat"] split: if_splits)

text \<open>A failed upload has stored nothing, or it was rolled back after storing.\<close>

lemma failing_upload:
  fixes read :: "'s \<Rightarrow> nat \<Rightarrow> ('e list \<times> 's) res" and w :: "string \<Rightarrow> 'e fake"
    and backend d fn ct upload_id n pre po mx
  defines "s0 \<equiv> svc_init backend d fn ct upload_id n pre po mx w"
  assumes ok: "\<forall>m. fake_ok (w m)" and po: "po = None \<or> (\<exists>n. po = Some (pool_init n))" and fl: "flaky st"
    and run: "store_stream st fakes_delete sha read env stream s0 = Some (s', Inl e)"
  shows "(0 < n \<and> sv_world s' = w \<and> d_objects (sv_db s') = d_objects d \<and> taken_over s0 = [])
     \<or> (\<exists>s1 new k. uploading w d (sv_ck_key s0) po backend (taken_over s0) new s1 \<and> rollback_chunks fakes_delete (sv_chunks s1) s1 = (s', k))"
proof -
  have s0: "sv_world s0 = w" "sv_db s0 = d" "sv_chunks s0 = []" by (simp_all add: s0_def svc_init_def Let_def)
  have n0: "load_prior_chunks s0 = Inr []" if "n = 0" using that by (simp add: s0_def load_prior_chunks_def svc_init_def Let_def)
  show ?thesis
  proof (cases "load_prior_chunks s0")
    case (Inl e')
    then have "0 < n" using n0 by (cases n) auto
    then show ?thesis using run Inl s0 by (simp add: store_stream_def taken_over_def)
  next
    case (Inr prior)
    obtain cs y where y: "seed 0 prior [] = (cs, y)" by (rule prod.exhaust)
    show ?thesis
    proof (cases y)
      case (Inl e')
      then have "0 < n" using n0 y \<open>load_prior_chunks s0 = Inr prior\<close> by (cases n) auto
      then show ?thesis using run Inl Inr y s0 by (auto simp: store_stream_def taken_over_def)
    next
      case (Inr u)
      have t: "taken_over s0 = cs" using \<open>load_prior_chunks s0 = Inr prior\<close> y Inr by (simp add: taken_over_def)
      let ?s = "s0\<lparr>sv_chunks := cs\<rparr>"
      let ?cb = "on_chunk st env (effective_hmac_secret (sv_db ?s) (en_hmac_secret env))"
      have "\<exists>s1 e'. chunk_stream sha read (en_chunk_size env) ?cb (truthy_str (sv_content_type ?s)) (sv_max_bytes ?s) stream ?s
          = Some (s1, Inl e') \<and> s' = fst (rollback fakes_delete s1)"
        using run \<open>load_prior_chunks s0 = Inr prior\<close> y Inr s0(3)
        by (auto simp: store_stream_def Let_def split: option.splits prod.splits sum.splits)
      then obtain s1 e' where s1: "chunk_stream sha read (en_chunk_size env) ?cb (truthy_str (sv_content_type ?s)) (sv_max_bytes ?s) stream ?s
          = Some (s1, Inl e')" and s': "s' = fst (rollback fakes_delete s1)" by blast
      let ?P = "\<lambda>s. \<exists>new. uploading w d (sv_ck_key s0) po backend cs new s"
      have "?P ?s" using uploading_init [OF ok po, of d backend fn ct upload_id n pre mx cs] unfolding s0_def by blast
      then have "?P (fst (s1, Inl e' :: (nat \<times> string) res))"
        by (intro chunk_loop_keeps [where P = ?P, OF _ s1 [unfolded chunk_stream_def]]) (auto dest: uploading_step [OF _ fl])
      then obtain new where "uploading w d (sv_ck_key s0) po backend cs new s1" by auto
      moreover obtain k where "rollback_chunks fakes_delete (sv_chunks s1) s1 = (s', k)" using s' by (simp add: rollback_def) (metis surj_pair fst_conv)
      ultimately show ?thesis using t by blast
    qed
  qed
qed

lemma rolled_back:
  assumes u: "uploading w d ck po backend old new s1" and r: "rollback_chunks fakes_delete (sv_chunks s1) s1 = (s', k)"
  shows "blob (sv_world s') p = (if p \<in> chunk_at po backend ` set old then None else blob w p)"
proof -
  note b = rollback_blobs [OF r]
  have ch: "sv_chunks s1 = old @ new" using u by (simp add: uploading_def)
  have own: "chunk_at (sv_pool s1) (sv_backend s1) = chunk_at po backend" using u chunk_at_cong [of "sv_pool s1" po] by (simp add: uploading_def)
  have after: "\<forall>p. blob (sv_world s') p = (if p \<in> chunk_at po backend ` set (old @ new) then None else blob (sv_world s1) p)"
    using b unfolding own ch by blast
  note fresh = conjunct1 [OF uploading_blobs [OF u]] and rest = conjunct2 [OF uploading_blobs [OF u]]
  show ?thesis
  proof (cases "p \<in> chunk_at po backend ` set new")
    case True
    then obtain c where "c \<in> set new" "p = chunk_at po backend c" by (elim imageE)
    then have "blob w p = None" using bspec [OF fresh] by simp
    then show ?thesis using spec [OF after, of p] True by (simp add: image_Un)
  next
    case False
    then show ?thesis using spec [OF after, of p] spec [OF rest, of p] by (simp add: image_Un)
  qed
qed

lemma failed_upload_blobs:
  fixes read :: "'s \<Rightarrow> nat \<Rightarrow> ('e list \<times> 's) res" and w :: "string \<Rightarrow> 'e fake"
  assumes "\<forall>m. fake_ok (w m)" and "po = None \<or> (\<exists>n. po = Some (pool_init n))" and "flaky st"
    and "store_stream st fakes_delete sha read env stream (svc_init backend d fn ct upload_id n pre po mx w) = Some (s', Inl e)"
  shows "blob (sv_world s') p = (if p \<in> chunk_at po backend ` set (taken_over (svc_init backend d fn ct upload_id n pre po mx w
       :: ('e, string \<Rightarrow> 'e fake) svc)) then None else blob w p) \<and> d_objects (sv_db s') = d_objects d"
  using failing_upload [OF assms]
proof (elim disjE exE conjE)
  fix s1 new k
  assume u: "uploading w d (sv_ck_key (svc_init backend d fn ct upload_id n pre po mx w :: ('e, string \<Rightarrow> 'e fake) svc)) po backend
      (taken_over (svc_init backend d fn ct upload_id n pre po mx w :: ('e, string \<Rightarrow> 'e fake) svc)) new s1"
    and r: "rollback_chunks fakes_delete (sv_chunks s1) s1 = (s', k)"
  have "d_objects (sv_db s') = d_objects d" using rollback_blobs [OF r] uploading_checkpoint [OF u] by simp
  then show ?thesis using rolled_back [OF u r] by blast
qed simp

lemma failed_upload:
  fixes read :: "'s \<Rightarrow> nat \<Rightarrow> ('e list \<times> 's) res" and w :: "string \<Rightarrow> 'e fake"
  assumes "\<forall>m. fake_ok (w m)" and "po = None \<or> (\<exists>n. po = Some (pool_init n))" and "flaky st"
    and "store_stream st fakes_delete sha read env stream (svc_init backend d fn ct upload_id 0 pre po mx w) = Some (s', Inl e)"
  shows "blob (sv_world s') = blob w \<and> d_objects (sv_db s') = d_objects d
     \<and> (\<forall>c \<in> set (sv_chunks s'). blob w (chunk_at po backend c) = None)
     \<and> (sv_chunks s' \<noteq> [] \<longrightarrow> (case sv_ck_key (svc_init backend d fn ct upload_id 0 pre po mx w :: ('e, string \<Rightarrow> 'e fake) svc) of
          None \<Rightarrow> True | Some k \<Rightarrow> \<exists>t. kv_get (sv_db s') k = Some t \<and> checkpoint_of (sv_chunks s') t))"
proof -
  let ?s = "svc_init backend d fn ct upload_id 0 pre po mx w :: ('e, string \<Rightarrow> 'e fake) svc"
  obtain s1 new k where u: "uploading w d (sv_ck_key ?s) po backend [] new s1" and r: "rollback_chunks fakes_delete (sv_chunks s1) s1 = (s', k)"
    using failing_upload [OF assms] by auto
  have "blob (sv_world s') = blob w" using rolled_back [OF u r] by auto
  moreover have e: "sv_db s' = sv_db s1" "sv_chunks s' = sv_chunks s1" using rollback_blobs [OF r] by simp_all
  note uploading_checkpoint [OF u, folded e] conjunct1 [OF uploading_blobs [OF u]]
  ultimately show ?thesis by (elim conjE) simp
qed


text \<open>Also: the checkpoint of a failed upload survives the rollback: a client that resumes from it is
  accepted, with the deleted chunks as the first chunks of its object, none of which can be fetched.\<close>

theorem resume_after_failure:
  fixes read :: "'s \<Rightarrow> nat \<Rightarrow> ('e list \<times> 's) res"
  assumes "\<forall>m. fake_ok (w m)" and "po = None \<or> (\<exists>n. po = Some (pool_init n))" and "flaky st"
    and "store_stream st fakes_delete sha read env stream
       (svc_init backend d fn ct (Some upload_id) 0 pre po mx w) = Some (s', Inl e)"
    and "upload_id \<noteq> []" and "sv_chunks s' \<noteq> []"
  shows "load_prior_chunks (svc_init backend (sv_db s') fn ct (Some upload_id) (length (sv_chunks s')) pre po mx (sv_world s')
       :: ('e, string \<Rightarrow> 'e fake) svc) = Inr (map ck_chunk (sv_chunks s'))
    \<and> filter (\<lambda>c. \<exists>x. snd (fakes_open (pool_name po (holder_of po backend (c_backend c))) (mk_ref (c_file_id c) (c_message_id c) []) (sv_world s')) = Inr x)
        (sv_chunks s') = []"
proof -
  have ck: "sv_ck_key (svc_init backend d fn ct (Some upload_id) 0 pre po mx w :: ('e, string \<Rightarrow> 'e fake) svc) = Some (pre @ '':'' @ upload_id)"
    using assms(5) by (simp add: svc_init_def Let_def)
  note f = failed_upload [OF assms(1-4), unfolded ck option.case]
  then obtain now where t: "kv_get (sv_db s') (pre @ '':'' @ upload_id)
      = Some (dumps_compact (JObj [(''_ts'', JInt now), (''chunks'', JList (map ck_chunk (sv_chunks s')))]))"
    using assms(6) unfolding checkpoint_of_def by blast
  have w: "jwf (ck_chunk c)" for c by (auto simp: ck_chunk_def jstr_opt_def truthy_str_def split: option.splits)
  have l: "loads (dumps_compact (JObj [(''_ts'', JInt now), (''chunks'', JList (map ck_chunk (sv_chunks s')))]))
      = Some (JObj [(''_ts'', JInt now), (''chunks'', JList (map ck_chunk (sv_chunks s')))])"
    using w by (intro loads_dumps) auto
  have ne: "dumps_compact j \<noteq> []" for j by (simp add: dumps_compact_def)
  have "load_prior_chunks (svc_init backend (sv_db s') fn ct (Some upload_id) (length (sv_chunks s')) pre po mx (sv_world s')
       :: ('e, string \<Rightarrow> 'e fake) svc) = Inr (map ck_chunk (sv_chunks s'))"
    using assms(5,6) t l ne by (simp add: load_prior_chunks_def svc_init_def Let_def str_or_def as_list_def)
  moreover have "blob (sv_world s') (chunk_at po backend c) = None" if "c \<in> set (sv_chunks s')" for c using f that by simp
  ultimately show ?thesis by (auto simp: filter_empty_conv fakes_open_blob chunk_at_def)
qed

lemma demo_failure:
  fixes upload_id :: string
  defines "s0 \<equiv> svc_init (Outside ''fake'') db_empty ''f'' None (Some upload_id) 0 ''upres'' None None (\<lambda>_. fake_init) :: (nat, string \<Rightarrow> nat fake) svc"
  shows "\<exists>s'. store_stream fakes_store fakes_delete sha (\<lambda>s n. if s = 0 then Inr ([4], Suc 0) else Inl BodyReadTimeout) (demo_env 1) 0 s0
     = Some (s', Inl BodyReadTimeout) \<and> sv_chunks s' \<noteq> []"
proof -
  let ?read = "\<lambda>s n. if s = 0 then Inr ([4 :: nat], Suc 0) else Inl BodyReadTimeout"
  have f: "sv_resume_from s0 = 0" "sv_chunks s0 = []" "sv_skip s0 = 0" "svc_ok s0" by (simp_all add: s0_def svc_init_def Let_def svc_ok_def)
  let ?cb = "on_chunk fakes_store (demo_env 1) (effective_hmac_secret (sv_db s0) (en_hmac_secret (demo_env 1)))"
  from fakes_on_chunk_form [OF f(4) demo_env_ok [of 1] f(3)]
  obtain s2 h r w where o: "?cb [4] (truthy_str (sv_content_type s0)) s0 = record_chunk (demo_env 1) (sv_calls s0) [4] h r (s2\<lparr>sv_world := w\<rparr>)"
    by (metis zero_less_one)
  define s1 where "s1 = fst (record_chunk (demo_env 1) (sv_calls s0) [4] h r (s2\<lparr>sv_world := w\<rparr>))"
  have s1: "?cb [4] (truthy_str (sv_content_type s0)) s0 = (s1, Inr (or_file_id r))" "sv_chunks s1 \<noteq> []"
    unfolding o s1_def by (simp_all add: record_chunk_def Let_def)
  have one: "fill ?read None 0 (Suc 0) 0 [] = Inr ([4], Suc 0)" by (subst fill.simps, simp) (subst fill.simps, simp)
  have two: "fill ?read None t (Suc 0) (Suc 0) [] = Inl BodyReadTimeout" for t by (subst fill.simps) simp
  have e: "en_chunk_size (demo_env 1) = Suc 0" "sv_max_bytes s0 = None" by (simp_all add: demo_env_def s0_def svc_init_def Let_def)
  have "chunk_stream sha ?read (Suc 0) ?cb (truthy_str (sv_content_type s0)) None 0 s0 = Some (s1, Inl BodyReadTimeout)"
    unfolding chunk_stream_def using one two s1(1) by (subst chunk_loop.simps) (simp add: chunk_loop.simps [of _ _ _ _ _ _ "Suc 0"])
  moreover obtain s' n where r: "rollback_chunks fakes_delete (sv_chunks s1) s1 = (s', n)" by (metis surj_pair)
  ultimately have "store_stream fakes_store fakes_delete sha ?read (demo_env 1) 0 s0 = Some (s', Inl BodyReadTimeout)"
    unfolding store_stream_fresh [OF f(1,2)] e by (simp add: rollback_def)
  then show ?thesis using rollback_blobs [OF r] s1(2) by auto
qed

text \<open>A resumed upload whose body stalls while its one chunk is drained: the chunk it took over is deleted.\<close>

definition resumable_world :: "string \<Rightarrow> nat fake" where
  "resumable_world = fst (fakes_store ''fake'' [4] ''c'' None (\<lambda>_. fake_init))"

definition resumable_db :: db where
  "resumable_db = kv_set ''upres:u'' (dumps_compact (JObj [(''chunks'', JList [JObj [(''s'', JInt 1), (''f'', JStr ''fake-0'')]])])) db_empty"

lemma demo_stall: "chunk_stream sha (\<lambda>s n. Inl BodyReadTimeout) (en_chunk_size (demo_env 1)) cb m mx s st = Some (st, Inl BodyReadTimeout)"
  by (simp add: chunk_stream_def demo_env_def chunk_loop.simps [of _ _ _ _ _ _ s] fill.simps [of _ _ 0])


theorem resume_after_failure_witness:
  "\<exists>s' :: (nat, string \<Rightarrow> nat fake) svc. sv_chunks s' \<noteq> []
     \<and> load_prior_chunks (svc_init (Outside ''fake'') (sv_db s') ''f'' None (Some ''u'') (length (sv_chunks s')) ''upres'' None None (sv_world s')
       :: (nat, string \<Rightarrow> nat fake) svc) = Inr (map ck_chunk (sv_chunks s'))"
proof -
  obtain s' where s': "store_stream fakes_store fakes_delete (\<lambda>_. []) (\<lambda>s n. if s = 0 then Inr ([4 :: nat], Suc 0) else Inl BodyReadTimeout) (demo_env 1) 0
       (svc_init (Outside ''fake'') db_empty ''f'' None (Some ''u'') 0 ''upres'' None None (\<lambda>_. fake_init)) = Some (s', Inl BodyReadTimeout)"
    "sv_chunks s' \<noteq> []" using demo_failure by blast
  have po: "None = None \<or> (\<exists>n. None = Some (pool_init n))" and u: "''u'' \<noteq> []" by simp_all
  note r = conjunct1 [OF resume_after_failure [OF fakes_init_ok po flaky_fakes s'(1) u s'(2)]]
  show ?thesis by (rule exI [where x = s'], rule conjI, rule s'(2), rule r)
qed

section \<open>A purged object\<close>

text \<open>The keys that go with an object.\<close>

definition object_tags :: "string \<Rightarrow> string list" where
  "object_tags i = [''pw:'' @ i, ''maxdl:'' @ i, ''dlc:'' @ i, subs_key i, ''subs_imported:'' @ i, ''subsimported:'' @ i]"

lemma kv_get_fold_delete: "kv_get (fold kv_delete ks d) x = (if x \<in> set ks then None else kv_get d x)"
  by (induction ks arbitrary: d) (auto simp: kv_simps)

lemma kv_get_fold_if:
  "kv_get (fold (\<lambda>(k, v) d. if P k v then kv_delete k d else d) rows d) x
     = (if list_ex (\<lambda>(k, v). k = x \<and> P k v) rows then None else kv_get d x)"
  by (induction rows arbitrary: d) (auto simp: kv_simps split: if_splits)

lemma kv_delete_fields [simp]: "d_objects (kv_delete k d) = d_objects d" "d_links (kv_delete k d) = d_links d"
  by (simp_all add: kv_delete_def)

lemma fold_delete_fields:
  "d_objects (fold kv_delete ks d) = d_objects d" "d_links (fold kv_delete ks d) = d_links d"
  by (induction ks arbitrary: d) simp_all

lemma fold_if_fields:
  "d_objects (fold (\<lambda>(k, v) d. if P k v then kv_delete k d else d) rows d) = d_objects d"
  "d_links (fold (\<lambda>(k, v) d. if P k v then kv_delete k d else d) rows d) = d_links d"
  by (induction rows arbitrary: d) auto

lemma delete_object_fields:
  "d_objects (fst (delete_object i d)) = filter (\<lambda>r. o_id r \<noteq> i) (d_objects d)"
  "d_kv (fst (delete_object i d)) = d_kv d" "d_links (fst (delete_object i d)) = d_links d"
  by (simp_all add: delete_object_def cache_invalidate_def del_where_def Let_def)

lemma purge_rows_fields:
  "d_objects (purge_rows_of i d) = filter (\<lambda>r. o_id r \<noteq> i) (d_objects d)" "d_links (purge_rows_of i d) = d_links d"
  by (simp_all add: purge_rows_of_def Let_def fold_if_fields fold_delete_fields delete_object_fields drop_subs_def)

lemma list_ex_kv:
  assumes "distinct (map fst rows)"
  shows "list_ex (\<lambda>(k, v). k = x \<and> P k v) rows = (case map_of rows x of None \<Rightarrow> False | Some v \<Rightarrow> P x v)"
  using assms
proof (induction rows)
  case (Cons r rows)
  obtain k v where r: "r = (k, v)" by (cases r)
  have "\<not> list_ex (\<lambda>(k, v). k = x \<and> P k v) rows" if "k = x"
    using that Cons.prems r by (force simp: list_ex_iff)
  then show ?case using Cons r by auto
qed simp

lemma purge_rows_kv:
  assumes "distinct (map fst (d_kv d))"
  shows "kv_get (purge_rows_of i d) x
     = (if x \<in> set (object_tags i) \<or> (case kv_get d x of None \<Rightarrow> False | Some v \<Rightarrow> object_kv i x v) then None else kv_get d x)"
proof -
  have k: "kv_all (fst (delete_object i d)) = d_kv d" "kv_get (fst (delete_object i d)) x = kv_get d x"
    by (simp_all add: kv_all_def kv_get_def delete_object_fields)
  show ?thesis using list_ex_kv [OF assms, of x "object_kv i"]
    by (simp add: purge_rows_of_def Let_def drop_subs_def kv_simps kv_get_fold_delete kv_get_fold_if k object_tags_def)
      (auto simp: kv_get_def)
qed

lemma purge_chunks_blobs:
  "\<exists>w' n. purge_chunks fakes_delete po backend (map chunk_json cs) w = (w', Inr n) \<and> n \<le> length cs
     \<and> (\<forall>p. blob w' p = (if p \<in> chunk_at po backend ` set cs then None else blob w p))"
proof (induction cs arbitrary: w)
  case (Cons c cs)
  define k where "k = (if truthy_str (c_backend c) then c_backend c else None)"
  have g: "get_str (chunk_json c) ''k'' = Inr k" "rbind (j_item (chunk_json c) ''f'') as_str = Inr (c_file_id c)"
    "get_int (chunk_json c) ''m'' = Inr (c_message_id c)"
    by (auto simp: chunk_json_def get_str_def get_int_def j_item_def as_str_def k_def jstr_opt_def truthy_str_def split: option.splits)
  have hk: "holder_of po backend k = holder_of po backend (c_backend c)" by (simp add: holder_of_def k_def)
  let ?nm = "pool_name po (holder_of po backend (c_backend c))"
  obtain w1 b where d: "fakes_delete ?nm (mk_ref (c_file_id c) (c_message_id c) ?nm) w = (w1, Inr b)"
    using blob_deleted by (metis surj_pair)
  obtain w' n where ih: "purge_chunks fakes_delete po backend (map chunk_json cs) w1 = (w', Inr n)" "n \<le> length cs"
    "\<forall>p. blob w' p = (if p \<in> chunk_at po backend ` set cs then None else blob w1 p)" using Cons.IH by blast
  have bl: "\<forall>p. blob w' p = (if p \<in> chunk_at po backend ` set (c # cs) then None else blob w p)"
    using ih(3) blob_deleted [OF d] by (auto simp: chunk_at_def)
  have "purge_chunks fakes_delete po backend (map chunk_json (c # cs)) w = (w', Inr (if b then n + 1 else n))"
    using g d ih(1) by (cases b) (simp_all add: hk)
  with bl ih(2) show ?case by auto
qed simp

lemma object_purge:
  assumes m: "o_manifest row = Some (to_json mf)"
  shows "\<exists>w' n ev. purge_object_blobs fakes_delete po backend row d w = (purge_rows_of (o_id row) d, w', Inr (n, ev))
     \<and> (\<forall>p. blob w' p = (if p \<in> chunk_at po backend ` set (m_chunks mf) then None else blob w p))"
proof -
  have "jwf (manifest_json mf)" by (auto simp: manifest_json_def jwf_chunk_json)
  then have l: "loads (to_json mf) = Some (manifest_json mf)" unfolding to_json_def by (rule loads_dumps)
  have "to_json mf \<noteq> []" by (simp add: to_json_def dumps_compact_def)
  moreover obtain w' n where "purge_chunks fakes_delete po backend (map chunk_json (m_chunks mf)) w = (w', Inr n)"
     "\<forall>p. blob w' p = (if p \<in> chunk_at po backend ` set (m_chunks mf) then None else blob w p)"
    using purge_chunks_blobs by blast
  ultimately show ?thesis using m l by (simp add: purge_object_blobs_def manifest_json_def as_list_def)
qed

text \<open>C14: purging an object deletes its row and no other, its blobs at their members and no other
  blob, and exactly the kv entries that belong to it; the rows of its links stay in the links table.\<close>

theorem object_purge_exact:
  assumes "o_manifest row = Some (to_json mf)" and "distinct (map fst (d_kv d))"
    and "purge_object_blobs fakes_delete po backend row d w = (d', w', res)"
  shows "d_objects d' = filter (\<lambda>r. o_id r \<noteq> o_id row) (d_objects d) \<and> d_links d' = d_links d
     \<and> kv_get d' k = (if k \<in> set (object_tags (o_id row)) \<or> (case kv_get d k of None \<Rightarrow> False | Some v \<Rightarrow> object_kv (o_id row) k v)
                      then None else kv_get d k)
     \<and> (case snd (fakes_open m (mk_ref f mid b) w') of Inl _ \<Rightarrow> None | Inr x \<Rightarrow> Some x)
         = (if list_ex (\<lambda>c. pool_name po (holder_of po backend (c_backend c)) = m \<and> c_file_id c = f) (m_chunks mf) then None
            else (case snd (fakes_open m (mk_ref f mid b) w) of Inl _ \<Rightarrow> None | Inr x \<Rightarrow> Some x))"
proof -
  have d': "d' = purge_rows_of (o_id row) d" and w': "\<forall>p. blob w' p = (if p \<in> chunk_at po backend ` set (m_chunks mf) then None else blob w p)"
    using object_purge [OF assms(1), of po backend d w] assms(3) by auto
  have o: "(case snd (fakes_open m (mk_ref f mid b) w) of Inl _ \<Rightarrow> None | Inr x \<Rightarrow> Some x) = blob w (m, f)" for w
    by (simp add: fakes_open_blob split: option.split)
  have c: "list_ex (\<lambda>c. pool_name po (holder_of po backend (c_backend c)) = m \<and> c_file_id c = f) (m_chunks mf)
      = ((m, f) \<in> chunk_at po backend ` set (m_chunks mf))"
    by (auto simp: list_ex_iff chunk_at_def)
  show ?thesis unfolding o c d' using spec [OF w', of "(m, f)"] purge_rows_fields purge_rows_kv [OF assms(2)] by (intro conjI) simp_all
qed

definition demo_purged :: obj where
  "demo_purged = \<lparr>o_id = ''x'', o_file_id = ''fake-0'', o_backend = ''fake'', o_filename = ''f'', o_size = 2, o_content_type = None,
     o_sha256 = None, o_manifest = Some (to_json \<lparr>m_chunks = [\<lparr>c_index = 0, c_size = 2, c_file_id = ''fake-0'', c_message_id = None,
       c_bot_file_id = None, c_backend = None\<rparr>], m_total_size = 2\<rparr>), o_uploader_key = None, o_created_at = 1, o_downloaded = 0,
     o_deleted_at = None\<rparr>"

theorem object_purge_exact_witness:
  "let w0 = (\<lambda>_. fst (fake_store [7 :: nat, 8] [] None fake_init));
       d0 = kv_set ''rev:x:9'' ''1'' (kv_set ''pw:y'' ''p'' (db_empty\<lparr>d_objects := [demo_purged]\<rparr>));
       (d', w', res) = purge_object_blobs fakes_delete None (Outside ''fake'') demo_purged d0 w0
   in kv_get d' ''pw:y'' = Some ''p'' \<and> d_objects d' = []"
proof -
  let ?w = "\<lambda>_. fst (fake_store [7 :: nat, 8] [] None fake_init)"
  let ?d = "kv_set ''rev:x:9'' ''1'' (kv_set ''pw:y'' ''p'' (db_empty\<lparr>d_objects := [demo_purged]\<rparr>))"
  have i: "o_id demo_purged = ''x''" and m: "o_manifest demo_purged = Some (to_json \<lparr>m_chunks = [\<lparr>c_index = 0, c_size = 2,
      c_file_id = ''fake-0'', c_message_id = None, c_bot_file_id = None, c_backend = None\<rparr>], m_total_size = 2\<rparr>)"
    by (simp_all add: demo_purged_def)
  have k: "distinct (map fst (d_kv ?d))" by (simp add: kv_set_def db_empty_def)
  have g: "kv_get ?d ''pw:y'' = Some ''p''" by (simp add: kv_simps)
  have n: "''pw:y'' \<notin> set (object_tags ''x'')" "\<not> object_kv ''x'' ''pw:y'' ''p''"
    by (simp_all add: object_tags_def subs_key_def) code_simp
  have ob: "d_objects ?d = [demo_purged]" by (simp add: kv_set_def)
  obtain d' w' res where p: "purge_object_blobs fakes_delete None (Outside ''fake'') demo_purged ?d ?w = (d', w', res)"
    by (metis surj_pair)
  note t = object_purge_exact [OF m k p, of "''pw:y''" "[]" "[]" None "[]", unfolded i g ob]
  have "d_objects d' = []" using conjunct1 [OF t] by (simp add: i)
  moreover have "kv_get d' ''pw:y'' = Some ''p''" using t n by simp
  ultimately show ?thesis unfolding Let_def p by simp
qed

end
