(* ===== verification/Access.thy ===== *)
theory Access
  imports ObjectService Runtime Cache
begin

text \<open>
  The access rules of \<^verbatim>\<open>src/src/anbar/api/download.py\<close>: who may fetch an object (roles, password,
  key parameter, signed link), minting a link, deleting and renaming an object, and the subtitle
  and info routes. The clock stands still during one request; SHA-256 and HMAC are arguments.
\<close>

section \<open>The context of a request\<close>

record ctx =
  cx_sha256 :: "string \<Rightarrow> string"
  cx_hmac :: "string \<Rightarrow> string \<Rightarrow> string"
  cx_now :: time
  cx_tok :: string
  cx_settings :: settings

definition role_of :: "ctx \<Rightarrow> request \<Rightarrow> db \<Rightarrow> role \<times> db" where
  "role_of cx r d = whoami (cx_sha256 cx) (cx_hmac cx) (cx_now cx) (cx_tok cx) (cx_settings cx) r d"

definition query :: "request \<Rightarrow> string \<Rightarrow> string option" where
  "query r k = map_of (rq_query r) k"

definition secret_of :: "ctx \<Rightarrow> db \<Rightarrow> string option" where
  "secret_of cx d = effective_hmac_secret d (s_hmac_secret (cx_settings cx))"

section \<open>Who may download\<close>

(* src: src/src/anbar/api/download.py 97-99 _authenticate_download *)
definition pw_tag :: "ctx \<Rightarrow> string \<Rightarrow> string \<Rightarrow> string \<Rightarrow> string" where
  "pw_tag cx secret i given = take 32 (cx_hmac cx secret (''pw:'' @ i @ '':'' @ given))"

text \<open>The password of the object, when it has one, against the \<open>pw\<close> parameter.\<close>

(* src: src/src/anbar/api/download.py 92-103 _authenticate_download *)
definition check_password :: "ctx \<Rightarrow> request \<Rightarrow> string \<Rightarrow> db \<Rightarrow> unit res" where
  "check_password cx r i d =
     (if \<not> truthy_str (kv_get d (''pw:'' @ i)) then Inr ()
      else rbind (compare_digest (pw_tag cx (str_or (secret_of cx d) []) i (str_or (query r ''pw'') [])) (the (kv_get d (''pw:'' @ i))))
        (\<lambda>ok. if ok then Inr () else Inl (HTTPException 403 ''password required'')))"

(* src: src/src/anbar/api/download.py 114-124 _authenticate_download *)
definition query_key_ok :: "ctx \<Rightarrow> request \<Rightarrow> db \<Rightarrow> bool" where
  "query_key_ok cx r d =
     (case query r ''k'' of
        None \<Rightarrow> False
      | Some k \<Rightarrow> k \<noteq> [] \<and>
          (truthy_str (s_api_key (cx_settings cx)) \<and> constant_time_equal (Some k) (s_api_key (cx_settings cx))
           \<or> match_dynamic_key (cx_sha256 cx) k d))"

(* src: src/src/anbar/api/download.py 126-144 _authenticate_download *)
definition check_link :: "ctx \<Rightarrow> request \<Rightarrow> string \<Rightarrow> db \<Rightarrow> unit res" where
  "check_link cx r i d =
     (if \<not> truthy_str (query r ''sig'') \<or> \<not> truthy_str (query r ''exp'')
      then Inl (HTTPException 401 ''signed link or bearer key required'')
      else (case py_int (the (query r ''exp'')) of
         None \<Rightarrow> Inl (HTTPException 403 ''invalid signature'')
       | Some e \<Rightarrow>
           if is_revoked d i e then Inl (HTTPException 410 ''link revoked'')
           else if \<not> truthy_str (secret_of cx d) then Inl (HTTPException 403 ''invalid signature'')
           else rbind (verify_sig (cx_hmac cx) i e (the (query r ''sig'')) (the (secret_of cx d))) (\<lambda>ok.
                  if \<not> ok then Inl (HTTPException 403 ''invalid signature'')
                  else if e \<le> cx_now cx then Inl (HTTPException 410 ''link expired'')
                  else Inr ())))"

(* src: src/src/anbar/api/download.py auto _authenticate_download *)
definition authenticate_download :: "ctx \<Rightarrow> request \<Rightarrow> string \<Rightarrow> db \<Rightarrow> db \<times> unit res" where
  "authenticate_download cx r i d =
     (case role_of cx r d of
        (role, d) \<Rightarrow>
          (d, if role \<noteq> Anon then Inr ()
              else rbind (check_password cx r i d) (\<lambda>_.
                if \<not> auth_on (cx_settings cx) d then Inr ()
                else if query_key_ok cx r d then Inr ()
                else rbind (check_link cx r i d) (\<lambda>_. check_password cx r i d))))"

section \<open>Minting a link\<close>

(* src: src/src/anbar/api/download.py auto DEFAULT_LINK_TTL *)
definition DEFAULT_LINK_TTL :: int where "DEFAULT_LINK_TTL = 3600"

(* src: src/src/anbar/api/download.py auto TTL_NEVER *)
definition TTL_NEVER :: int where "TTL_NEVER = 100 * 365 * 86400"

(* src: src/src/anbar/api/download.py auto _SLUG_RE *)
definition slug_ok :: "string \<Rightarrow> bool" where
  "slug_ok s =
     (let alnum = (\<lambda>c. is_digit c \<or> 97 \<le> code c \<and> code c \<le> 122) in
      s \<noteq> [] \<and> length s \<le> 64 \<and> alnum (hd s) \<and> list_all (\<lambda>c. alnum c \<or> c = CHR ''-'' \<or> c = CHR ''_'') (tl s))"

record minted =
  mt_url :: string
  mt_sig :: string
  mt_exp :: int
  mt_ttl :: int
  mt_slug :: "string option"
  mt_protected :: bool
  mt_max_dl :: "int option"

(* src: src/src/anbar/api/download.py 610-610 mint_link *)
definition clamp_ttl :: "int \<Rightarrow> int" where
  "clamp_ttl ttl = (if ttl = 0 then TTL_NEVER else max 60 (min ttl (7 * 86400)))"

(* src: src/src/anbar/api/download.py 624-660 mint_link *)
definition mint_signed :: "ctx \<Rightarrow> string \<Rightarrow> string \<Rightarrow> int \<Rightarrow> string \<Rightarrow> string \<Rightarrow> int \<Rightarrow> db \<Rightarrow> db \<times> minted" where
  "mint_signed cx secret i ttl slug password max_dl d =
     (let e = cx_now cx + ttl;
          sig = sign (cx_hmac cx) i e secret;
          base = rstrip_by (\<lambda>c. c = CHR ''/'') (s_base_url (cx_settings cx));
          pw = strip password;
          d = register_link (cx_now cx) i e (Some sig) (if slug = [] then None else Some slug) (pw \<noteq> []) max_dl d;
          d = (if pw \<noteq> [] then kv_set (''pw:'' @ i) (pw_tag cx secret i pw) d else d);
          d = (if max_dl > 0 then kv_set (''dlc:'' @ i) ''0'' (kv_set (''maxdl:'' @ i) (str_of_int max_dl) d) else d)
      in (d, \<lparr>mt_url = base @ ''/f/'' @ i @ ''?sig='' @ sig @ ''&exp='' @ str_of_int e, mt_sig = sig, mt_exp = e,
              mt_ttl = ttl, mt_slug = (if slug = [] then None else Some slug), mt_protected = (pw \<noteq> []),
              mt_max_dl = (if max_dl > 0 then Some max_dl else None)\<rparr>))"

(* src: src/src/anbar/api/download.py auto mint_link *)
definition mint_link :: "ctx \<Rightarrow> request \<Rightarrow> string \<Rightarrow> int \<Rightarrow> string \<Rightarrow> int \<Rightarrow> db \<Rightarrow> db \<times> minted res" where
  "mint_link cx r i ttl password max_dl d =
     (case get_object i False d of
        (None, d) \<Rightarrow> (d, Inl (HTTPException 404 ''object not found''))
      | (Some _, d) \<Rightarrow>
          (case role_of cx r d of (role, d) \<Rightarrow>
             if auth_on (cx_settings cx) d \<and> role = Anon then (d, Inl (HTTPException 401 ''authentication required''))
             else if \<not> truthy_str (secret_of cx d) then (d, Inl (HTTPException 500 ''hmac secret not configured''))
             else
               let secret = the (secret_of cx d); slug = strip_by (\<lambda>c. c = CHR ''/'') (strip (str_or (query r ''slug'') []));
                   owner = kv_get d (''slug:'' @ slug)
               in if slug \<noteq> [] \<and> \<not> slug_ok slug then (d, Inl (HTTPException 400 ''invalid slug''))
                  else if slug \<noteq> [] \<and> truthy_str owner \<and> owner \<noteq> Some i
                  then (d, Inl (HTTPException 409 ''link name already taken''))
                  else let d = (if slug = [] then d else kv_set (''slug:'' @ slug) i d);
                           (d, m) = mint_signed cx secret i (clamp_ttl ttl) slug password max_dl d
                       in (d, Inr m)))"

section \<open>Changing an object\<close>

(* src: src/src/anbar/api/download.py auto _key_matches *)
definition caller_key_matches :: "request \<Rightarrow> string \<Rightarrow> bool" where
  "caller_key_matches r uploader_key =
     (let auth = header r ''authorization'' in
      startswith (lower auth) ''bearer '' \<and> drop 7 auth \<noteq> [] \<and> constant_time_equal (Some (drop 7 auth)) (Some uploader_key))"

(* src: src/src/anbar/api/download.py 704-709 delete *)
definition may_change :: "ctx \<Rightarrow> request \<Rightarrow> obj \<Rightarrow> db \<Rightarrow> db \<times> unit res" where
  "may_change cx r row d =
     (case role_of cx r d of (role, d) \<Rightarrow>
        let is_owner = (truthy_str (o_uploader_key row) \<and> caller_key_matches r (the (o_uploader_key row))) in
        (d, if auth_on (cx_settings cx) d \<and> role = Anon then Inl (HTTPException 401 ''authentication required'')
            else if \<not> (role = Admin \<or> role = Uploader \<and> is_owner) then Inl (HTTPException 403 ''admin or owner key required'')
            else Inr ()))"

text \<open>The caches a deletion clears; the thumbnail file is left out.\<close>

record 'b caches =
  ca_disk :: "disk_lru option"
  ca_chunks :: "'b micro option"

definition forget :: "string \<Rightarrow> 'b caches \<Rightarrow> 'b caches" where
  "forget i c = \<lparr>ca_disk = map_option (dl_remove i) (ca_disk c), ca_chunks = map_option (mc_remove_object i) (ca_chunks c)\<rparr>"

datatype deleted = Trashed | Purged nat

(* src: src/src/anbar/api/download.py auto delete *)
definition delete_route :: "ctx \<Rightarrow> (string \<Rightarrow> object_ref \<Rightarrow> 'w \<Rightarrow> 'w \<times> bool res) \<Rightarrow> pool option \<Rightarrow> handle \<Rightarrow> request \<Rightarrow> string \<Rightarrow> bool
    \<Rightarrow> db \<times> 'w \<times> 'b caches \<Rightarrow> (db \<times> 'w \<times> 'b caches) \<times> (deleted \<times> (string \<times> json) list option) res" where
  "delete_route cx delete po backend r i purge s =
     (case s of (d, w, c) \<Rightarrow>
      (case get_object i True d of
        (None, d) \<Rightarrow> ((d, w, c), Inl (HTTPException 404 ''object not found''))
      | (Some row, d) \<Rightarrow>
          (case may_change cx r row d of
             (d, Inl e) \<Rightarrow> ((d, w, c), Inl e)
           | (d, Inr _) \<Rightarrow>
               let (d, trashed) = (if purge then (d, False) else soft_delete (cx_now cx) i d) in
               if trashed then ((d, w, forget i c), Inr (Trashed, None))
               else (case purge_object_blobs delete po backend row d w of
                       (d, w, Inl e) \<Rightarrow> ((d, w, c), Inl e)
                     | (d, w, Inr (n, ev)) \<Rightarrow> ((d, w, forget i c), Inr (Purged n, ev))))))"

text \<open>The JSON body of a request is \<open>None\<close> when it does not parse.\<close>

definition body_filename :: "json \<Rightarrow> string res" where
  "body_filename body =
     (if \<not> jtruthy body then Inr []
      else (case body of
         JObj kvs \<Rightarrow> (case map_of kvs ''filename'' of
             None \<Rightarrow> Inr [] | Some v \<Rightarrow> if \<not> jtruthy v then Inr [] else rbind (as_str v) (\<lambda>s. Inr (strip s)))
       | _ \<Rightarrow> Inl TypeError))"

(* src: src/src/anbar/api/download.py auto rename *)
definition rename_route :: "ctx \<Rightarrow> request \<Rightarrow> string \<Rightarrow> json option \<Rightarrow> db \<Rightarrow> db \<times> (string \<times> (string \<times> json) list) res" where
  "rename_route cx r i body d =
     (case get_object i False d of
        (None, d) \<Rightarrow> (d, Inl (HTTPException 404 ''object not found''))
      | (Some row, d) \<Rightarrow>
          (case may_change cx r row d of
             (d, Inl e) \<Rightarrow> (d, Inl e)
           | (d, Inr _) \<Rightarrow>
               (case body of
                  None \<Rightarrow> (d, Inl (HTTPException 400 ''expected JSON {filename}''))
                | Some b \<Rightarrow>
                    (case body_filename b of
                       Inl e \<Rightarrow> (d, Inl e)
                     | Inr nm \<Rightarrow>
                         if nm = [] \<or> length nm > 200 \<or> CHR ''/'' \<in> set nm \<or> CHR 0x5C \<in> set nm
                         then (d, Inl (HTTPException 400 ''invalid filename''))
                         else
                           let pre = (case rsplit1 (CHR ''/'') (o_filename row) of None \<Rightarrow> [] | Some (a, _) \<Rightarrow> a @ ''/'');
                               (d, ok) = rename_object i (pre @ nm) d
                           in if \<not> ok then (d, Inl (HTTPException 404 ''object not found''))
                              else (d, Inr (pre @ nm, [(''op'', JStr ''rn_obj''), (''id'', JStr i), (''new'', JStr (pre @ nm))]))))))"

section \<open>Subtitles and information\<close>

(* src: src/src/anbar/api/download.py auto subs_list *)
definition subs_list :: "ctx \<Rightarrow> request \<Rightarrow> string \<Rightarrow> db \<Rightarrow> db \<times> json list res" where
  "subs_list cx r i d =
     (case get_object i False d of
        (None, d) \<Rightarrow> (d, Inl (HTTPException 404 ''object not found''))
      | (Some _, d) \<Rightarrow>
          (case authenticate_download cx r i d of
             (d, Inl e) \<Rightarrow> (d, Inl e)
           | (d, Inr _) \<Rightarrow> (d, mapr public_view (load_tracks d i))))"

(* src: src/src/anbar/api/download.py auto subs_get *)
definition subs_get :: "ctx \<Rightarrow> request \<Rightarrow> string \<Rightarrow> string \<Rightarrow> db \<Rightarrow> db \<times> json res" where
  "subs_get cx r i tid d =
     (case get_object i False d of
        (None, d) \<Rightarrow> (d, Inl (HTTPException 404 ''object not found''))
      | (Some _, d) \<Rightarrow>
          (case authenticate_download cx r i d of
             (d, Inl e) \<Rightarrow> (d, Inl e)
           | (d, Inr _) \<Rightarrow> (d, rbind (get_vtt d i tid) (\<lambda>v. case v of
                None \<Rightarrow> Inl (HTTPException 404 ''track not found'') | Some t \<Rightarrow> Inr t))))"

(* src: src/src/anbar/api/download.py auto info *)
definition info_route :: "ctx \<Rightarrow> request \<Rightarrow> string \<Rightarrow> db \<Rightarrow> db \<times> (obj \<times> nat) res" where
  "info_route cx r i d =
     (case authenticate_download cx r i d of
        (d, Inl e) \<Rightarrow> (d, Inl e)
      | (d, Inr _) \<Rightarrow>
          (case get_object i False d of
             (None, d) \<Rightarrow> (d, Inl (HTTPException 404 ''object not found''))
           | (Some row, d) \<Rightarrow>
               (d, if \<not> truthy_str (o_manifest row) then Inr (row, 0)
                   else (case loads (the (o_manifest row)) of
                      None \<Rightarrow> Inl (ValueError ''json'')
                    | Some (JObj kvs) \<Rightarrow> (case map_of kvs ''chunks'' of None \<Rightarrow> Inr (row, 0)
                        | Some v \<Rightarrow> rbind (as_list v) (\<lambda>l. Inr (row, length l)))
                    | Some _ \<Rightarrow> Inl TypeError))))"

section \<open>Links\<close>

text \<open>A visitor brings no key and no session cookie.\<close>

definition visitor :: "request \<Rightarrow> bool" where
  "visitor r = (\<not> truthy_str (presented_key r) \<and> header r ''cookie'' = [])"

lemma visitor_role: "visitor r \<Longrightarrow> role_of cx r d = (Anon, d)"
  by (simp add: visitor_def role_of_def whoami_def Let_def)

lemma visitor_authenticate:
  "visitor r \<Longrightarrow> auth_on (cx_settings cx) d \<Longrightarrow> \<not> query_key_ok cx r d \<Longrightarrow>
     authenticate_download cx r i d = (d, rbind (check_password cx r i d) (\<lambda>_. rbind (check_link cx r i d) (\<lambda>_. check_password cx r i d)))"
  by (simp add: authenticate_download_def visitor_role)

lemma digest_self: "mac_ok hmac \<Longrightarrow> compare_digest (hmac s m) (hmac s m) = Inr True"
  by (auto simp: compare_digest_def mac_ok_def list_all_iff)

lemma digest_self_take: "mac_ok hmac \<Longrightarrow> compare_digest (take n (hmac s m)) (take n (hmac s m)) = Inr True"
  by (auto simp: compare_digest_def mac_ok_def list_all_iff dest: in_set_takeD)

lemma verify_own: "mac_ok hmac \<Longrightarrow> e \<noteq> 0 \<Longrightarrow> verify_sig hmac i e (sign hmac i e secret) secret = Inr True"
  using digest_self by (auto simp: verify_sig_def sign_def mac_ok_def)

lemma digest_true: "compare_digest a b = Inr True \<Longrightarrow> a = b"
  by (simp add: compare_digest_def split: if_splits)

text \<open>What the link parameters must be for the check to pass.\<close>

lemma check_link_sound:
  assumes "check_link cx r i d = Inr ()"
  shows "\<exists>e x secret. query r ''exp'' = Some x \<and> py_int x = Some e \<and> secret_of cx d = Some secret
     \<and> query r ''sig'' = Some (sign (cx_hmac cx) i e secret) \<and> cx_now cx < e \<and> \<not> is_revoked d i e"
proof -
  obtain x where x: "query r ''exp'' = Some x" using assms by (cases "query r ''exp''") (simp_all add: check_link_def)
  obtain g where g: "query r ''sig'' = Some g" using assms by (cases "query r ''sig''") (simp_all add: check_link_def)
  obtain e where e: "py_int x = Some e" using assms x g by (cases "py_int x") (simp_all add: check_link_def split: if_splits)
  obtain secret where s: "secret_of cx d = Some secret"
    using assms x g e by (cases "secret_of cx d") (simp_all add: check_link_def split: if_splits)
  have "verify_sig (cx_hmac cx) i e g secret = Inr True \<and> cx_now cx < e \<and> \<not> is_revoked d i e"
    using assms x g e s by (cases "verify_sig (cx_hmac cx) i e g secret") (auto simp: check_link_def split: if_splits)
  moreover from this have "g = sign (cx_hmac cx) i e secret" using digest_true by (auto simp: verify_sig_def split: if_splits)
  ultimately show ?thesis using x g e s by blast
qed

lemma colon_split: "i @ '':'' @ str_of_int e = j @ '':'' @ str_of_int e' \<Longrightarrow> i = j \<and> e = e'"
proof -
  assume a: "i @ '':'' @ str_of_int e = j @ '':'' @ str_of_int e'"
  have "rsplit1 (CHR '':'') (i @ '':'' @ str_of_int e) = Some (i, str_of_int e)"
    "rsplit1 (CHR '':'') (j @ '':'' @ str_of_int e') = Some (j, str_of_int e')"
    using rsplit1_append colon_not_in_str_of_int by auto
  with a show ?thesis using str_of_int_inject by simp
qed

text \<open>C11: with authentication on, a visitor without a key cannot open an object with the signature of a link to another
  object, nor with the signature of a link to this object that was made for another expiry than the request claims.\<close>

theorem foreign_signature_refused:
  assumes "mac_ok (cx_hmac cx)" and "visitor r" and "auth_on (cx_settings cx) d" and "\<not> query_key_ok cx r d"
    and "secret_of cx d = Some secret" and "query r ''exp'' = Some x" and "i \<noteq> j \<or> py_int x \<noteq> Some e"
    and "query r ''sig'' = Some (sign (cx_hmac cx) j e secret)"
  shows "snd (authenticate_download cx r i d) \<noteq> Inr ()"
proof
  assume "snd (authenticate_download cx r i d) = Inr ()"
  then have "rbind (check_password cx r i d) (\<lambda>_. rbind (check_link cx r i d) (\<lambda>_. check_password cx r i d)) = Inr ()"
    using visitor_authenticate [OF assms(2-4), of i] by simp
  then have "check_link cx r i d = Inr ()" by (elim rbind_InrE) simp
  from check_link_sound [OF this] obtain e' where s: "sign (cx_hmac cx) j e secret = sign (cx_hmac cx) i e' secret" and x: "py_int x = Some e'"
    using assms(5,6,8) by auto
  from s have "j @ '':'' @ str_of_int e = i @ '':'' @ str_of_int e'"
    using assms(1) unfolding sign_def mac_ok_def by (elim conjE allE) (rule mp)
  from colon_split [OF this] x show False using assms(7) by simp
qed

section \<open>The life of a minted link\<close>

lemma registered_live:
  assumes "d_links d' = d_links (link_insert now i e sig slug pw mx c n d)"
  shows "\<not> is_revoked d' i e"
proof -
  have "find (\<lambda>r. link_key r = (i, e)) (del_where (\<lambda>r. link_key r = (i, e)) (d_links d)) = None"
    by (simp add: find_del_where_key)
  then have "map_option l_revoked (link_get d' i e) = Some False"
    unfolding link_get_def assms link_is_key by (simp add: link_insert_def link_is_key find_append) (simp add: link_key_def)
  then show ?thesis by (auto simp: is_revoked_def link_is_revoked_def)
qed

lemma mint_fields:
  assumes "mint_link cx r i ttl password max_dl d = (d', Inr m)"
  shows "\<exists>secret. secret_of cx d' = Some secret \<and> secret \<noteq> [] \<and> mt_exp m = cx_now cx + mt_ttl m \<and> 60 \<le> mt_ttl m
     \<and> mt_sig m = sign (cx_hmac cx) i (mt_exp m) secret \<and> \<not> is_revoked d' i (mt_exp m)
     \<and> mt_protected m = (strip password \<noteq> [])
     \<and> (mt_protected m \<longrightarrow> kv_get d' (''pw:'' @ i) = Some (pw_tag cx secret i (strip password)))"
proof -
  obtain row d1 where g: "get_object i False d = (Some row, d1)"
    using assms by (auto simp: mint_link_def split: prod.splits option.splits)
  obtain role d2 where w: "role_of cx r d1 = (role, d2)" by (cases "role_of cx r d1")
  obtain secret where sec: "secret_of cx d2 = Some secret" "secret \<noteq> []"
    using assms g w by (auto simp: mint_link_def truthy_str_def Let_def split: if_splits option.splits)
  define slug where "slug = strip_by (\<lambda>c. c = CHR ''/'') (strip (str_or (query r ''slug'') []))"
  define d3 where "d3 = (if slug = [] then d2 else kv_set (''slug:'' @ slug) i d2)"
  have ms: "mint_signed cx secret i (clamp_ttl ttl) slug password max_dl d3 = (d', m)"
    using assms g w sec by (auto simp: mint_link_def slug_def d3_def Let_def split: if_splits prod.splits)
  define e where "e = cx_now cx + clamp_ttl ttl"
  define sig where "sig = sign (cx_hmac cx) i e secret"
  define pw where "pw = strip password"
  define d4 where "d4 = register_link (cx_now cx) i e (Some sig) (if slug = [] then None else Some slug) (pw \<noteq> []) max_dl d3"
  define d5 where "d5 = (if pw \<noteq> [] then kv_set (''pw:'' @ i) (pw_tag cx secret i pw) d4 else d4)"
  have d': "d' = (if max_dl > 0 then kv_set (''dlc:'' @ i) ''0'' (kv_set (''maxdl:'' @ i) (str_of_int max_dl) d5) else d5)"
    using ms by (auto simp: mint_signed_def Let_def e_def sig_def pw_def d4_def d5_def)
  have m: "mt_exp m = e" "mt_sig m = sig" "mt_ttl m = clamp_ttl ttl" "mt_protected m = (pw \<noteq> [])"
    using ms by (auto simp: mint_signed_def Let_def e_def sig_def pw_def)
  have kv: "kv_get d' ''hmac_secret'' = kv_get d2 ''hmac_secret''"
    by (simp add: d' d5_def d4_def d3_def register_link_def link_insert_def link_kv_key_def kv_simps)
  have "secret_of cx d' = Some secret" using sec(1) unfolding secret_of_def effective_hmac_secret_def kv .
  moreover have "kv_get d' (''pw:'' @ i) = Some (pw_tag cx secret i pw)" if "pw \<noteq> []"
    using that by (simp add: d' d5_def kv_simps)
  moreover have "\<not> is_revoked d' i e"
  proof (rule registered_live)
    have "d_links d' = d_links d4" by (simp add: d' d5_def kv_set_def)
    also have "\<dots> = d_links (link_insert (cx_now cx) i e (Some sig) (if slug = [] then None else Some slug) (pw \<noteq> [])
        (if max_dl \<noteq> 0 then Some max_dl else None) (Some (cx_now cx)) 0 d3)"
      by (simp only: d4_def register_link_def kv_set_def) simp
    finally show "d_links d' = \<dots>" .
  qed
  moreover have "60 \<le> clamp_ttl ttl" by (simp add: clamp_ttl_def TTL_NEVER_def)
  ultimately show ?thesis using m sec(2) by (auto simp: e_def sig_def pw_def)
qed

text \<open>C21: a minted link opens its object for a visitor until it expires, with the password when one
  was set; once it is revoked, or its time is over, the same request is refused.\<close>

theorem minted_link_opens:
  assumes "mac_ok (cx_hmac cx)" and "0 \<le> cx_now cx"
    and "mint_link cx r0 i ttl password max_dl d0 = (d, Inr m)"
    and "visitor r" and "query r ''k'' = None"
    and "query r ''sig'' = Some (mt_sig m)" and "query r ''exp'' = Some (str_of_int (mt_exp m))"
    and "if mt_protected m then query r ''pw'' = Some (strip password) else kv_get d (''pw:'' @ i) = None"
  shows "(now < mt_exp m \<longrightarrow> authenticate_download (cx\<lparr>cx_now := now\<rparr>) r i d = (d, Inr ()))
     \<and> (mt_exp m \<le> now \<and> auth_on (cx_settings cx) d \<longrightarrow>
          authenticate_download (cx\<lparr>cx_now := now\<rparr>) r i d = (d, Inl (HTTPException 410 ''link expired'')))
     \<and> (snd (revoke t i (mt_exp m) d) \<and> auth_on (cx_settings cx) (fst (revoke t i (mt_exp m) d)) \<longrightarrow>
          snd (authenticate_download (cx\<lparr>cx_now := now\<rparr>) r i (fst (revoke t i (mt_exp m) d))) \<noteq> Inr ())"
proof -
  let ?cx = "cx\<lparr>cx_now := now\<rparr>"
  obtain secret where m: "secret_of cx d = Some secret" "secret \<noteq> []" "mt_exp m = cx_now cx + mt_ttl m" "60 \<le> mt_ttl m"
     "mt_sig m = sign (cx_hmac cx) i (mt_exp m) secret" "\<not> is_revoked d i (mt_exp m)"
     "mt_protected m \<longrightarrow> kv_get d (''pw:'' @ i) = Some (pw_tag cx secret i (strip password))"
     "mt_protected m = (strip password \<noteq> [])"
    using mint_fields [OF assms(3)] by blast
  have sec: "secret_of ?cx d = Some secret" using m(1) by (simp add: secret_of_def)
  have e0: "mt_exp m \<noteq> 0" using m(3,4) assms(2) by simp
  have sig: "mt_sig m \<noteq> []" using assms(1) m(5) by (simp add: sign_def mac_ok_def)
  have pw: "check_password ?cx r i d = Inr ()"
  proof (cases "mt_protected m")
    case True
    have "pw_tag ?cx secret i (strip password) = pw_tag cx secret i (strip password)" by (simp add: pw_tag_def)
    moreover have "compare_digest (pw_tag cx secret i (strip password)) (pw_tag cx secret i (strip password)) = Inr True"
      unfolding pw_tag_def by (rule digest_self_take [OF assms(1)])
    ultimately show ?thesis using True assms(8) m(7,8) m(2) sec by (simp add: check_password_def str_or_def)
  next
    case False
    then show ?thesis using assms(8) by (simp add: check_password_def)
  qed
  have ver: "verify_sig (cx_hmac cx) i (mt_exp m) (mt_sig m) secret = Inr True"
    unfolding m(5) by (rule verify_own [OF assms(1) e0])
  have link: "check_link ?cx r i d = (if now < mt_exp m then Inr () else Inl (HTTPException 410 ''link expired''))"
    using assms(6,7) sig sec m(2,6) ver by (simp add: check_link_def)
  have qk: "\<not> query_key_ok ?cx r d'" for d' using assms(5) by (simp add: query_key_ok_def)
  have live: "authenticate_download ?cx r i d = (d, if \<not> auth_on (cx_settings cx) d \<or> now < mt_exp m then Inr () else Inl (HTTPException 410 ''link expired''))"
  proof (cases "auth_on (cx_settings cx) d")
    case True
    then show ?thesis using visitor_authenticate [OF assms(4) _ qk, of d i] pw link by simp
  next
    case False
    then show ?thesis using visitor_role [OF assms(4)] pw by (simp add: authenticate_download_def)
  qed
  have dead: "\<not> snd (revoke t i (mt_exp m) d)"
    if "auth_on (cx_settings cx) (fst (revoke t i (mt_exp m) d))"
      and "snd (authenticate_download ?cx r i (fst (revoke t i (mt_exp m) d))) = Inr ()"
  proof
    let ?d = "fst (revoke t i (mt_exp m) d)"
    assume "snd (revoke t i (mt_exp m) d)"
    then have rev: "is_revoked ?d i (mt_exp m)" by (rule revoke_kills_parts(1))
    have "rbind (check_password ?cx r i ?d) (\<lambda>_. rbind (check_link ?cx r i ?d) (\<lambda>_. check_password ?cx r i ?d)) = Inr ()"
      using that visitor_authenticate [OF assms(4) _ qk, of ?d i] by simp
    then have "check_link ?cx r i ?d = Inr ()" by (elim rbind_InrE) simp
    from check_link_sound [OF this] assms(7) rev show False by auto
  qed
  show ?thesis using live dead by fastforce
qed

section \<open>Witnesses\<close>

definition demo_cx :: ctx where
  "demo_cx = \<lparr>cx_sha256 = (\<lambda>s. s), cx_hmac = toy_mac, cx_now = 10, cx_tok = ''tok'',
     cx_settings = default_settings\<lparr>s_auth_enabled := True, s_hmac_secret := Some ''s'', s_admin_key := Some ''adm''\<rparr>\<rparr>"

definition demo_visit :: "string \<Rightarrow> string \<Rightarrow> request" where
  "demo_visit sig e = \<lparr>rq_peer = None, rq_headers = [], rq_query = [(''sig'', sig), (''exp'', e)]\<rparr>"

definition demo_store :: db where
  "demo_store = db_empty\<lparr>d_objects := [demo_purged]\<rparr>"

lemma demo_visitor: "visitor (demo_visit sig e)"
  by (simp add: visitor_def demo_visit_def presented_key_def header_def startswith_def lower_def Let_def lstrip_by_def rstrip_by_def strip_by_def)

lemma demo_visit_query:
  "query (demo_visit sig e) ''sig'' = Some sig" "query (demo_visit sig e) ''exp'' = Some e"
  "query (demo_visit sig e) ''k'' = None" "query (demo_visit sig e) ''pw'' = None"
  by (simp_all add: query_def demo_visit_def)

text \<open>A link to the same object, with its expiry moved from 99 to 9999.\<close>

theorem foreign_signature_refused_witness:
  "snd (authenticate_download demo_cx (demo_visit (sign toy_mac ''a'' 99 ''s'') ''9999'') ''a'' db_empty) \<noteq> Inr ()"
proof (rule foreign_signature_refused [where j = "''a''" and e = 99 and x = "''9999''" and secret = "''s''"])
  show "mac_ok (cx_hmac demo_cx)" by (simp add: demo_cx_def toy_mac_ok)
  show "auth_on (cx_settings demo_cx) db_empty" by (simp add: auth_on_def effective_auth_enabled_def demo_cx_def kv_get_def db_empty_def)
  show "\<not> query_key_ok demo_cx (demo_visit (sign toy_mac ''a'' 99 ''s'') ''9999'') db_empty" by (simp add: query_key_ok_def demo_visit_query)
  show "secret_of demo_cx db_empty = Some ''s''" by (simp add: secret_of_def effective_hmac_secret_def demo_cx_def kv_get_def db_empty_def)
  have "py_int ''9999'' = Some 9999" by code_simp
  then show "''a'' \<noteq> ''a'' \<or> py_int ''9999'' \<noteq> Some 99" by simp
qed (simp_all add: demo_visitor demo_visit_query demo_cx_def)

lemma demo_mint:
  "\<exists>d m. mint_link demo_cx demo_request ''x'' 3600 [] 0 demo_store = (d, Inr m) \<and> \<not> mt_protected m
     \<and> kv_get d (''pw:'' @ ''x'') = None \<and> mt_exp m = 3610"
proof -
  have g: "get_object ''x'' False demo_store = (Some demo_purged, cache_put ''x'' demo_purged demo_store)"
    by (simp add: get_object_def demo_store_def demo_purged_def lru_get_def db_empty_def find_obj_def Let_def)
  have r: "role_of demo_cx demo_request d = (Admin, d)" for d
    by (simp add: role_of_def whoami_def demo_presented demo_cx_def constant_time_equal_def Let_def)
  have kv: "kv_get (cache_put ''x'' demo_purged demo_store) k = None" for k
    by (simp add: cache_put_def kv_get_def demo_store_def db_empty_def)
  have s: "secret_of demo_cx (cache_put ''x'' demo_purged demo_store) = Some ''s''"
    by (simp add: secret_of_def effective_hmac_secret_def kv demo_cx_def)
  have q: "query demo_request ''slug'' = None" by (simp add: query_def demo_request_def)
  have st: "strip [] = []" "strip_by P [] = []" for P by (simp_all add: strip_by_def lstrip_by_def rstrip_by_def)
  have e: "mint_link demo_cx demo_request ''x'' 3600 [] 0 demo_store =
      (\<lambda>(d, m). (d, Inr m)) (mint_signed demo_cx ''s'' ''x'' (clamp_ttl 3600) [] [] 0 (cache_put ''x'' demo_purged demo_store))"
    by (simp add: mint_link_def g r s q st str_or_def Let_def split_beta)
  have c: "clamp_ttl 3600 = 3600" by (simp add: clamp_ttl_def)
  show ?thesis unfolding e c using kv
    by (simp add: mint_signed_def Let_def st register_link_def link_insert_def link_kv_key_def kv_simps demo_cx_def split_beta)
qed

theorem minted_link_opens_witness:
  "\<exists>d m. mint_link demo_cx demo_request ''x'' 3600 [] 0 demo_store = (d, Inr m) \<and> mt_exp m = 3610
     \<and> authenticate_download (demo_cx\<lparr>cx_now := 3609\<rparr>) (demo_visit (mt_sig m) (str_of_int (mt_exp m))) ''x'' d = (d, Inr ())"
proof -
  obtain d m where m: "mint_link demo_cx demo_request ''x'' 3600 [] 0 demo_store = (d, Inr m)" "\<not> mt_protected m"
     "kv_get d (''pw:'' @ ''x'') = None" "mt_exp m = 3610" using demo_mint by blast
  have h: "mac_ok (cx_hmac demo_cx)" "0 \<le> cx_now demo_cx" by (simp_all add: demo_cx_def toy_mac_ok)
  have p: "if mt_protected m then query (demo_visit (mt_sig m) (str_of_int (mt_exp m))) ''pw'' = Some (strip []) else kv_get d (''pw:'' @ ''x'') = None"
    using m(2,3) by simp
  note t = minted_link_opens [OF h m(1) demo_visitor demo_visit_query(3) demo_visit_query(1) demo_visit_query(2) p, THEN conjunct1, of 3609]
  have "authenticate_download (demo_cx\<lparr>cx_now := 3609\<rparr>) (demo_visit (mt_sig m) (str_of_int (mt_exp m))) ''x'' d = (d, Inr ())"
    using t m(4) by simp
  with m(1,4) show ?thesis by (intro exI conjI)
qed

section \<open>Who may delete\<close>

lemma may_change_sound:
  assumes "may_change cx r row d = (d', Inr ())"
  shows "fst (role_of cx r d) = Admin
     \<or> fst (role_of cx r d) = Uploader \<and> (\<exists>k. o_uploader_key row = Some k \<and> k \<noteq> [] \<and> drop 7 (header r ''authorization'') = k)"
  using assms by (auto simp: may_change_def caller_key_matches_def constant_time_equal_def truthy_str_def Let_def
      split: prod.splits if_splits option.splits)



end
