(* ===== verification/Download.thy ===== *)
theory Download
  imports Access
begin

text \<open>
  The download route of \<^verbatim>\<open>src/src/anbar/api/download.py\<close>: the Range header, the plan of
  segments, the headers, the counters and the per-link cap, the unlock page, and the stream
  itself over the disk cache, the seek cache, the bot CDN and the backends with their retries. A
  stream is the list of the pieces it yields and the error that ends it, if one does.
\<close>

section \<open>The Range header\<close>

(* src: src/src/anbar/api/download.py 47-47 _RANGE_RE *)
definition range_match :: "string \<Rightarrow> (string \<times> string) option" where
  "range_match s =
     (if lower (take 5 s) \<noteq> ''bytes'' then None
      else (case lstrip_by is_space (drop 5 s) of
         [] \<Rightarrow> None
       | c # s1 \<Rightarrow>
           if c \<noteq> CHR ''='' then None
           else let s2 = lstrip_by is_space s1; a = takeWhile is_digit s2; s3 = lstrip_by is_space (drop (length a) s2)
                in (case s3 of
                      [] \<Rightarrow> None
                    | m # s4 \<Rightarrow>
                        if m \<noteq> CHR ''-'' then None
                        else let s5 = lstrip_by is_space s4; b = takeWhile is_digit s5
                             in if drop (length b) s5 = [] then Some (a, b) else None)))"

(* src: src/src/anbar/api/download.py auto _range_416 *)
definition range_416 :: exc where "range_416 = HTTPException 416 ''unsatisfiable range''"

(* src: src/src/anbar/api/download.py auto _parse_range *)
definition parse_range :: "string option \<Rightarrow> int \<Rightarrow> (int \<times> int) option res" where
  "parse_range hdr total_size =
     (if \<not> truthy_str hdr then Inr None
      else (case range_match (strip (the hdr)) of
         None \<Rightarrow> Inl range_416
       | Some (a, b) \<Rightarrow>
           if a = [] \<and> b = [] then Inl range_416
           else if a = [] then
             (let n = int (digits_val b) in
              if n = 0 then Inl range_416 else Inr (Some (max (total_size - n) 0, total_size - 1)))
           else let start = int (digits_val a); stop = (if b \<noteq> [] then int (digits_val b) else total_size - 1)
                in if start \<ge> total_size \<or> start > stop then Inl range_416
                   else Inr (Some (start, min stop (total_size - 1)))))"

(* src: src/src/anbar/api/download.py 232-242 download *)
definition range_plan :: "manifest \<Rightarrow> (int \<times> int) option \<Rightarrow> (int \<times> (nat \<times> int \<times> int) list) res" where
  "range_plan m rg =
     (if m_total_size m = 0 then Inr (0, [])
      else (case rg of
         Some (s, e) \<Rightarrow> rbind (map_range m s (e + 1)) (\<lambda>segs. Inr (e - s + 1, segs))
       | None \<Rightarrow> rbind (map_range m 0 (m_total_size m)) (\<lambda>segs. Inr (m_total_size m, segs))))"

section \<open>Headers\<close>

(* src: src/src/anbar/api/download.py 247-250 download *)
definition etag_matches :: "string \<Rightarrow> request \<Rightarrow> bool" where
  "etag_matches etag r =
     (header r ''if-none-match'' \<noteq> [] \<and>
      list_ex (\<lambda>t. t = ''*'' \<or> t = etag \<or> t = ''W/'' @ etag) (map strip (split_on (CHR '','') (header r ''if-none-match''))))"

text \<open>\<^verbatim>\<open>mimetypes.guess_type\<close> is the argument \<open>guess\<close>.\<close>

(* src: src/src/anbar/api/download.py 258-267 download *)
definition response_type :: "(string \<Rightarrow> string option) \<Rightarrow> string option \<Rightarrow> string \<Rightarrow> string" where
  "response_type guess content_type filename =
     (let ct = str_or content_type []; fn = lower filename in
      if endswith fn ''.mkv'' \<or> ct \<in> {''video/matroska'', ''application/x-matroska''} then ''video/x-matroska''
      else if endswith fn ''.mka'' \<or> ct = ''audio/matroska'' then ''audio/x-matroska''
      else if ct = [] \<or> ct = ''application/octet-stream'' then str_or (guess filename) ct
      else ct)"

(* src: src/src/anbar/api/download.py 269-281 download *)
definition disposition_kind :: "request \<Rightarrow> string \<Rightarrow> string" where
  "disposition_kind r content_type =
     (let ct = lower content_type;
          yes = (\<lambda>k. query r k = Some ''1'' \<or> query r k = Some ''true'')
      in if yes ''dl'' \<or> yes ''download'' then ''attachment''
         else if yes ''view'' \<or> startswith ct ''image/'' \<or> startswith ct ''video/'' \<or> startswith ct ''audio/''
           \<or> startswith ct ''text/'' \<or> ct = ''application/pdf'' then ''inline''
         else ''attachment'')"

text \<open>\<^verbatim>\<open>urllib.parse.quote(s, safe="")\<close> on characters up to U+00FF, as UTF-8.\<close>

definition unreserved :: "char \<Rightarrow> bool" where
  "unreserved c = (is_alnum c \<or> c \<in> {CHR ''_'', CHR ''.'', CHR ''-'', CHR ''~''})"

definition upper_hex :: "nat \<Rightarrow> char" where
  "upper_hex n = (if n < 10 then char_of (48 + n) else char_of (55 + n))"

definition pct :: "nat \<Rightarrow> string" where
  "pct b = [CHR 0x25, upper_hex (b div 16), upper_hex (b mod 16)]"

definition quote_char :: "char \<Rightarrow> string" where
  "quote_char c =
     (if unreserved c then [c]
      else if code c < 128 then pct (code c)
      else pct (192 + code c div 64) @ pct (128 + code c mod 64))"

definition quote :: "string \<Rightarrow> string" where
  "quote s = concat (map quote_char s)"

(* src: src/src/anbar/api/download.py 289-296 download *)
definition disposition_value :: "string \<Rightarrow> string \<Rightarrow> string" where
  "disposition_value disposition filename =
     (let base = last_piece (CHR ''/'') filename;
          raw_fn = (if base \<noteq> [] then base else if filename \<noteq> [] then filename else ''file'');
          ascii_fn = map (\<lambda>c. if code c \<ge> 128 then CHR ''?'' else if c \<in> {CHR 0x22, CHR 0x0D, CHR 0x0A} then CHR ''_'' else c) raw_fn;
          utf8_fn = quote raw_fn
      in if utf8_fn = ascii_fn \<and> CHR 0x22 \<notin> set ascii_fn
         then disposition @ ''; filename='' @ [CHR 0x22] @ ascii_fn @ [CHR 0x22]
         else disposition @ ''; filename='' @ [CHR 0x22] @ ascii_fn @ [CHR 0x22] @ ''; filename*=UTF-8'' @ [CHR 0x27, CHR 0x27] @ utf8_fn)"

(* src: src/src/anbar/api/download.py 297-314 download *)
definition response_headers :: "(string \<Rightarrow> string option) \<Rightarrow> request \<Rightarrow> obj \<Rightarrow> int \<Rightarrow> (int \<times> int) option \<Rightarrow> int \<Rightarrow> (string \<times> string) list" where
  "response_headers guess r row total_size rg len =
     (let ct = response_type guess (o_content_type row) (o_filename row) in
      [(''Content-Length'', str_of_int len), (''Content-Type'', if ct = [] then ''application/octet-stream'' else ct),
       (''Content-Disposition'', disposition_value (disposition_kind r ct) (o_filename row)),
       (''Accept-Ranges'', ''bytes''), (''X-Content-Type-Options'', ''nosniff'')]
      @ (if rg = None then [(''Cache-Control'', ''private, max-age=3600'')] else [])
      @ (if truthy_str (o_sha256 row) then [(''ETag'', [CHR 0x22] @ the (o_sha256 row) @ [CHR 0x22])] else [])
      @ (case rg of None \<Rightarrow> []
         | Some (s, e) \<Rightarrow> [(''Content-Range'', ''bytes '' @ str_of_int s @ ''-'' @ str_of_int e @ ''/'' @ str_of_int total_size)]))"

section \<open>Counters and the cap\<close>

(* src: src/src/anbar/api/download.py 326-334 download *)
definition count_cap :: "string \<Rightarrow> db \<Rightarrow> db \<times> unit res" where
  "count_cap i d =
     (if \<not> truthy_str (kv_get d (''maxdl:'' @ i)) then (d, Inr ())
      else (case py_int (str_or (kv_get d (''dlc:'' @ i)) ''0'') of
         None \<Rightarrow> (d, Inr ())
       | Some n \<Rightarrow>
           let d = kv_set (''dlc:'' @ i) (str_of_int (n + 1)) d in
           (case py_int (the (kv_get d (''maxdl:'' @ i))) of
              None \<Rightarrow> (d, Inr ())
            | Some mx \<Rightarrow> (d, if n + 1 > mx then Inl (HTTPException 410 ''download limit reached for this link'') else Inr ()))))"

(* src: src/src/anbar/api/download.py 319-334 download *)
definition count_download :: "time \<Rightarrow> string \<Rightarrow> bool \<Rightarrow> db \<Rightarrow> db \<times> unit res" where
  "count_download now i full d =
     (if \<not> full then (d, Inr ()) else count_cap i (bump_link_downloads now i (bump_downloads i d)))"

section \<open>The unlock page\<close>

(* src: src/src/anbar/api/download.py 184-228 download *)
definition unlock_page :: "ctx \<Rightarrow> request \<Rightarrow> string \<Rightarrow> db \<Rightarrow> db \<times> (string \<times> int \<times> bool) option res" where
  "unlock_page cx r i d =
     (if \<not> contains_str ''text/html'' (header r ''accept'') then (d, Inr None)
      else (case role_of cx r d of (role, d) \<Rightarrow>
        if role \<noteq> Anon \<or> \<not> truthy_str (kv_get d (''pw:'' @ i)) then (d, Inr None)
        else
          let given = str_or (query r ''pw'') []; secret = secret_of cx d in
          (d, rbind (compare_digest (pw_tag cx (str_or secret []) i given) (the (kv_get d (''pw:'' @ i)))) (\<lambda>ok.
             if ok then Inr None
             else rbind
               (if truthy_str (query r ''sig'') \<and> truthy_str (query r ''exp'') \<and> truthy_str secret then
                  (case py_int (the (query r ''exp'')) of
                     None \<Rightarrow> Inr None
                   | Some e \<Rightarrow> rbind (verify_sig (cx_hmac cx) i e (the (query r ''sig'')) (the secret)) (\<lambda>v.
                       if v \<and> e > cx_now cx \<and> \<not> is_revoked d i e then Inr (Some (the (query r ''sig''), e)) else Inr None))
                else Inr None)
               (\<lambda>use. case use of
                  Some (g, e) \<Rightarrow> Inr (Some (g, e, given \<noteq> []))
                | None \<Rightarrow>
                    if truthy_str secret
                    then Inr (Some (sign (cx_hmac cx) i (cx_now cx + 3600) (the secret), cx_now cx + 3600, given \<noteq> []))
                    else Inr None)))))"

section \<open>Fetching chunks\<close>

text \<open>What a stream reads from and changes: the backends, the disk cache with the contents of its
  files, and the seek cache.\<close>

record ('b, 'w) store_state =
  ss_world :: 'w
  ss_disk :: "disk_lru option"
  ss_files :: "string \<Rightarrow> 'b list"
  ss_chunks :: "'b micro option"

text \<open>The operations it calls: \<open>fetch\<close> of a backend by name, and the bot CDN (an error or a timeout is \<open>None\<close>).\<close>

record ('b, 'w) source =
  so_fetch :: "string \<Rightarrow> object_ref \<Rightarrow> 'w \<Rightarrow> 'w \<times> 'b list res"
  so_cdn :: "(string \<Rightarrow> 'w \<Rightarrow> 'w \<times> 'b list option) option"
  so_hybrid :: bool
  so_pool :: "pool option"
  so_backend :: handle

(* src: src/src/anbar/api/download.py 411-418 download *)
fun open_retry :: "(string \<Rightarrow> object_ref \<Rightarrow> 'w \<Rightarrow> 'w \<times> 'b list res) \<Rightarrow> string \<Rightarrow> object_ref \<Rightarrow> nat \<Rightarrow> exc \<Rightarrow> 'w \<Rightarrow> 'w \<times> 'b list res" where
  "open_retry fetch nm q 0 err w = (w, Inl err)"
| "open_retry fetch nm q (Suc n) err w =
     (case fetch nm q w of
        (w, Inr x) \<Rightarrow> (w, Inr x)
      | (w, Inl e) \<Rightarrow> open_retry fetch nm q n e w)"

(* src: src/src/anbar/api/download.py 403-418 download *)
definition fetch_holder :: "('b, 'w) source \<Rightarrow> chunk \<Rightarrow> 'w \<Rightarrow> 'w \<times> 'b list res" where
  "fetch_holder so c w =
     (let nm = pool_name (so_pool so) (holder_of (so_pool so) (so_backend so) (c_backend c))
      in open_retry (so_fetch so) nm (mk_ref (c_file_id c) (c_message_id c) nm) 3
           (RuntimeError ''failed to fetch chunk from backend'') w)"

(* src: src/src/anbar/api/download.py 390-418 download *)
definition fetch_uncached :: "('b, 'w) source \<Rightarrow> chunk \<Rightarrow> 'w \<Rightarrow> 'w \<times> 'b list res" where
  "fetch_uncached so c w =
     (case (so_cdn so, c_bot_file_id c) of
        (Some cdn, Some b) \<Rightarrow>
          if so_hybrid so \<and> b \<noteq> [] then
            (case cdn b w of (w, Some x) \<Rightarrow> (w, Inr x) | (w, None) \<Rightarrow> fetch_holder so c w)
          else fetch_holder so c w
      | _ \<Rightarrow> fetch_holder so c w)"

(* src: src/src/anbar/api/download.py 379-388 download *)
definition fetch_chunk :: "('b, 'w) source \<Rightarrow> time \<Rightarrow> string \<Rightarrow> manifest \<Rightarrow> nat \<Rightarrow> ('b, 'w) store_state
    \<Rightarrow> ('b, 'w) store_state \<times> 'b list res" where
  "fetch_chunk so now i m idx st =
     (let (hit, mc) = (case ss_chunks st of None \<Rightarrow> (None, None) | Some c \<Rightarrow> (case mc_get now i idx c of (h, c) \<Rightarrow> (h, Some c)));
          st = st\<lparr>ss_chunks := mc\<rparr>
      in case hit of
           Some x \<Rightarrow> (st, Inr x)
         | None \<Rightarrow>
             (case fetch_uncached so (m_chunks m ! idx) (ss_world st) of
                (w, Inl e) \<Rightarrow> (st\<lparr>ss_world := w\<rparr>, Inl e)
              | (w, Inr x) \<Rightarrow> (st\<lparr>ss_world := w, ss_chunks := map_option (mc_put now i idx x) mc\<rparr>, Inr x)))"

section \<open>Streams\<close>

(* src: src/src/anbar/api/download.py 450-450 download *)
definition SLICE :: nat where "SLICE = 128 * 1024"

text \<open>Segment by segment; \<open>dice\<close> is how a part is yielded. The prefetch of the next chunk only
  moves its fetch before the yields of the current one.\<close>

(* src: src/src/anbar/api/download.py 448-482 download *)
fun stream_segments :: "(nat \<Rightarrow> 's \<Rightarrow> 's \<times> 'b list res) \<Rightarrow> ('b list \<Rightarrow> 'b list list) \<Rightarrow> (nat \<times> int \<times> int) list \<Rightarrow> 's
    \<Rightarrow> 's \<times> 'b list list \<times> exc option" where
  "stream_segments fc dice [] st = (st, [], None)"
| "stream_segments fc dice ((idx, off, n) # segs) st =
     (case fc idx st of
        (st, Inl e) \<Rightarrow> (st, [], Some e)
      | (st, Inr x) \<Rightarrow>
          (case stream_segments fc dice segs st of
             (st, out, e) \<Rightarrow> (st, dice (take (nat n) (drop (nat off) x)) @ out, e)))"

(* src: src/src/anbar/api/download.py 349-359 download *)
function read_pieces :: "nat \<Rightarrow> nat \<Rightarrow> 'b list \<Rightarrow> 'b list list" where
  "read_pieces rd n xs =
     (let p = take (min rd n) xs in
      if n = 0 \<or> p = [] then [] else p # read_pieces rd (n - length p) (drop (length p) xs))"
  by pat_completeness auto
termination
  by (relation "measure (\<lambda>(rd, n, xs). n)") auto

declare read_pieces.simps [simp del]

(* src: src/src/anbar/api/download.py 346-364 download *)
definition cached_stream :: "'b list \<Rightarrow> (int \<times> int) option \<Rightarrow> int \<Rightarrow> 'b list list" where
  "cached_stream file rg len =
     (case rg of
        Some (s, _) \<Rightarrow> read_pieces (1024 * 1024) (nat len) (drop (nat s) file)
      | None \<Rightarrow> read_pieces (1024 * 1024) (length file) file)"

text \<open>\<open>tmp\<close> is the fresh file name; a run to the end without a client abort.\<close>

(* src: src/src/anbar/api/download.py 420-446 download *)
definition filling_stream :: "('b, 'w) source \<Rightarrow> time \<Rightarrow> string \<Rightarrow> string \<Rightarrow> manifest \<Rightarrow> int \<Rightarrow> (nat \<times> int \<times> int) list
    \<Rightarrow> ('b, 'w) store_state \<Rightarrow> ('b, 'w) store_state \<times> 'b list list \<times> exc option" where
  "filling_stream so now tmp i m total_size segs st =
     (case stream_segments (fetch_chunk so now i m) (\<lambda>x. [x]) segs st of
        (st, out, Some e) \<Rightarrow> (st, out, Some e)
      | (st, out, None) \<Rightarrow>
          let st = st\<lparr>ss_files := (ss_files st)(tmp := concat out),
                      ss_disk := map_option (new_entry_path tmp) (ss_disk st)\<rparr>;
              sz = int (length (concat out))
          in (if sz = total_size then st\<lparr>ss_disk := map_option (\<lambda>c. fst (dl_add now i tmp sz c)) (ss_disk st)\<rparr> else st,
              out, None))"

(* src: src/src/anbar/api/download.py 339-483 download *)
definition serve_body :: "('b, 'w) source \<Rightarrow> time \<Rightarrow> string \<Rightarrow> int \<Rightarrow> string \<Rightarrow> manifest \<Rightarrow> (int \<times> int) option \<Rightarrow> int
    \<Rightarrow> (nat \<times> int \<times> int) list \<Rightarrow> ('b, 'w) store_state \<Rightarrow> ('b, 'w) store_state \<times> 'b list list \<times> exc option" where
  "serve_body so now tmp cache_mb i m rg len segs st =
     (let use_cache = (ss_disk st \<noteq> None \<and> rg = None \<and> m_total_size m > 0 \<and> m_total_size m \<le> cache_mb * 1024 * 1024);
          (path, disk) = (case ss_disk st of None \<Rightarrow> (None, None) | Some c \<Rightarrow> (case dl_get now i c of (p, c) \<Rightarrow> (p, Some c)));
          st = st\<lparr>ss_disk := disk\<rparr>
      in case path of
           Some p \<Rightarrow> (st, cached_stream (ss_files st p) rg len, None)
         | None \<Rightarrow>
             if use_cache then filling_stream so now tmp i m (m_total_size m) segs st
             else stream_segments (fetch_chunk so now i m) (chop SLICE) segs st)"

section \<open>The route\<close>

datatype 'b reply =
    UnlockPage string int bool
  | NotModified string
  | HeadReply int "(string \<times> string) list"
  | BodyReply int "(string \<times> string) list" "'b list list" "exc option"

(* src: src/src/anbar/api/download.py 167-170 download *)
definition resolve_slug :: "string \<Rightarrow> db \<Rightarrow> db \<times> string" where
  "resolve_slug i d =
     (case get_object i False d of
        (Some _, d) \<Rightarrow> (d, i)
      | (None, d) \<Rightarrow> (d, if truthy_str (kv_get d (''slug:'' @ i)) then the (kv_get d (''slug:'' @ i)) else i))"

(* src: src/src/anbar/api/download.py 166-179 download *)
definition admit :: "ctx \<Rightarrow> request \<Rightarrow> string \<Rightarrow> db \<Rightarrow> db \<times> (string \<times> obj) res" where
  "admit cx r i0 d =
     (case resolve_slug i0 d of (d, i) \<Rightarrow>
        let (d, lim) = (if header r ''range'' = []
                        then limit_download (cx_now cx) r i (get_int_setting d ''rate_download'' (s_rate_download_per_min (cx_settings cx))) d
                        else (d, Inr ()))
        in (case lim of
              Inl e \<Rightarrow> (d, Inl e)
            | Inr _ \<Rightarrow>
                (case get_object i False d of
                   (None, d) \<Rightarrow> (d, Inl (HTTPException 404 ''object not found''))
                 | (Some row, d) \<Rightarrow> (d, Inr (i, row)))))"

text \<open>From the row to the reply: range, etag, headers, counters, body.\<close>

(* src: src/src/anbar/api/download.py 231-250 download *)
definition answer :: "ctx \<Rightarrow> (string \<Rightarrow> string option) \<Rightarrow> ('b, 'w) source \<Rightarrow> string \<Rightarrow> request \<Rightarrow> bool \<Rightarrow> string \<Rightarrow> obj \<Rightarrow> db \<Rightarrow> ('b, 'w) store_state
    \<Rightarrow> (db \<times> ('b, 'w) store_state) \<times> 'b reply res" where
  "answer cx guess so tmp r is_head i row d st =
     (case (case o_manifest row of None \<Rightarrow> Inl TypeError | Some j \<Rightarrow> from_json j) of
        Inl e \<Rightarrow> ((d, st), Inl e)
      | Inr m \<Rightarrow>
          (case rbind (parse_range (map_of (rq_headers r) ''range'') (m_total_size m))
                  (\<lambda>rg. rbind (range_plan m rg) (\<lambda>(len, segs). Inr (rg, len, segs))) of
             Inl e \<Rightarrow> ((d, st), Inl e)
           | Inr (rg, len, segs) \<Rightarrow>
               let etag = [CHR 0x22] @ the (o_sha256 row) @ [CHR 0x22] in
               if truthy_str (o_sha256 row) \<and> rg = None \<and> etag_matches etag r then ((d, st), Inr (NotModified etag))
               else
                 let headers = response_headers guess r row (m_total_size m) rg len;
                     status = (if rg \<noteq> None then 206 else 200)
                 in (case count_download (cx_now cx) i (rg = None) d of
                       (d, Inl e) \<Rightarrow> ((d, st), Inl e)
                     | (d, Inr _) \<Rightarrow>
                         if is_head then ((d, st), Inr (HeadReply status headers))
                         else (case serve_body so (cx_now cx) tmp (get_int_setting d ''cache_mb'' (s_cache_max_mb (cx_settings cx))) i m rg len segs st of
                                 (st, out, e) \<Rightarrow> ((d, st), Inr (BodyReply status headers out e))))))"

(* src: src/src/anbar/api/download.py 161-229 download *)
definition download :: "ctx \<Rightarrow> (string \<Rightarrow> string option) \<Rightarrow> ('b, 'w) source \<Rightarrow> string \<Rightarrow> request \<Rightarrow> bool \<Rightarrow> string \<Rightarrow> db \<Rightarrow> ('b, 'w) store_state
    \<Rightarrow> (db \<times> ('b, 'w) store_state) \<times> 'b reply res" where
  "download cx guess so tmp r is_head i0 d st =
     (case admit cx r i0 d of
        (d, Inl e) \<Rightarrow> ((d, st), Inl e)
      | (d, Inr (i, row)) \<Rightarrow>
          (case unlock_page cx r i d of
             (d, Inl e) \<Rightarrow> ((d, st), Inl e)
           | (d, Inr (Some (g, e, failed))) \<Rightarrow> ((d, st), Inr (UnlockPage g e failed))
           | (d, Inr None) \<Rightarrow>
               (case authenticate_download cx r i d of
                  (d, Inl e) \<Rightarrow> ((d, st), Inl e)
                | (d, Inr _) \<Rightarrow> answer cx guess so tmp r is_head i row d st)))"

section \<open>Ranges\<close>

lemma range_bounds:
  "parse_range hdr n = Inr (Some (s, e)) \<Longrightarrow> 0 < n \<Longrightarrow> 0 \<le> s \<and> s \<le> e \<and> e < n"
  by (auto simp: parse_range_def range_416_def Let_def split: if_splits option.splits)

lemma lstrip_digit: "s \<noteq> [] \<Longrightarrow> is_digit (hd s) \<Longrightarrow> lstrip_by is_space (s @ t) = s @ t"
  by (cases s) (auto simp: lstrip_by_def digit_not_space)

lemma takeWhile_nat: "takeWhile is_digit (str_of_nat a @ c # t) = (if is_digit c then str_of_nat a @ c # takeWhile is_digit t else str_of_nat a)"
proof -
  have "\<forall>x \<in> set (str_of_nat a). is_digit x" using str_of_nat_digits by (simp add: list_all_iff)
  then show ?thesis by (simp add: takeWhile_append)
qed

lemma takeWhile_nat_end: "takeWhile is_digit (str_of_nat a) = str_of_nat a"
  using str_of_nat_digits [of a] by (simp add: list_all_iff takeWhile_eq_all_conv)

definition range_text :: "string \<Rightarrow> string \<Rightarrow> string" where
  "range_text a b = ''bytes='' @ a @ ''-'' @ b"

lemma range_text_plain:
  assumes "list_all is_digit a" and "list_all is_digit b"
  shows "strip (range_text a b) = range_text a b"
proof (rule strip_by_id)
  fix c assume "c \<in> set (range_text a b)"
  then have "c \<in> set ''bytes=-'' \<or> is_digit c" using assms by (auto simp: range_text_def list_all_iff)
  then show "\<not> is_space c" using digit_not_space by (auto simp: is_space_def code_def)
qed

lemma lstrip_plain: "s = [] \<or> \<not> is_space (hd s) \<Longrightarrow> lstrip_by is_space s = s"
  by (cases s) (auto simp: lstrip_by_def)

lemma takeWhile_all: "list_all P xs \<Longrightarrow> takeWhile P xs = xs"
  by (induction xs) auto

lemma takeWhile_all_app: "list_all P xs \<Longrightarrow> \<not> P y \<Longrightarrow> takeWhile P (xs @ y # ys) = xs"
  by (induction xs) auto

lemma range_match_text:
  assumes "list_all is_digit a" and "list_all is_digit b"
  shows "range_match (range_text a b) = Some (a, b)"
proof -
  have m: "\<not> is_digit (CHR ''-'')" "\<not> is_space (CHR ''-'')" "\<not> is_space (CHR ''='')" by (simp_all add: is_digit_def is_space_def code_def)
  have sp: "lstrip_by is_space (a @ ''-'' @ b) = a @ ''-'' @ b" "lstrip_by is_space b = b"
    using assms m digit_not_space by (cases a; cases b; intro lstrip_plain; auto)+
  have "lower (take 5 (range_text a b)) = ''bytes''" by (simp add: range_text_def lower_def lower_char_def code_def)
  moreover have "lstrip_by is_space (drop 5 (range_text a b)) = CHR ''='' # a @ ''-'' @ b"
    using m by (simp add: range_text_def lstrip_by_def)
  moreover have "takeWhile is_digit (a @ ''-'' @ b) = a" using takeWhile_all_app [OF assms(1) m(1)] by simp
  moreover have "lstrip_by is_space (''-'' @ b) = ''-'' @ b" using m by (intro lstrip_plain) simp
  moreover have "takeWhile is_digit b = b" using assms(2) by (rule takeWhile_all)
  ultimately show ?thesis using sp by (simp add: range_match_def Let_def del: takeWhile_eq_all_conv)
qed

text \<open>Also: the ranges of the HTTP syntax mean what they say: \<open>a-b\<close> is the bytes from \<open>a\<close> to \<open>b\<close>, cut at the end;
  \<open>a-\<close> is everything from \<open>a\<close>; \<open>-n\<close> is the last \<open>n\<close> bytes; what cannot be satisfied is refused with 416.\<close>

theorem range_header_exact:
  "parse_range (Some (range_text (str_of_nat a) (str_of_nat b))) n
     = (if int a < n \<and> a \<le> b then Inr (Some (int a, min (int b) (n - 1))) else Inl range_416)
   \<and> parse_range (Some (range_text (str_of_nat a) [])) n = (if int a < n then Inr (Some (int a, n - 1)) else Inl range_416)
   \<and> parse_range (Some (range_text [] (str_of_nat b))) n
     = (if b = 0 then Inl range_416 else Inr (Some (max (n - int b) 0, n - 1)))"
proof -
  have ne: "range_text x y \<noteq> []" for x y by (simp add: range_text_def)
  have p: "parse_range (Some (range_text x y)) n = (if x = [] \<and> y = [] then Inl range_416
           else if x = [] then (let k = int (digits_val y) in if k = 0 then Inl range_416 else Inr (Some (max (n - k) 0, n - 1)))
           else let start = int (digits_val x); stop = (if y \<noteq> [] then int (digits_val y) else n - 1)
                in if start \<ge> n \<or> start > stop then Inl range_416 else Inr (Some (start, min stop (n - 1))))"
    if "list_all is_digit x" "list_all is_digit y" for x y
    using ne range_text_plain [OF that] range_match_text [OF that] by (simp add: parse_range_def)
  show ?thesis by (simp add: p Let_def)
qed

section \<open>Coherent caches\<close>

text \<open>The seek cache and the disk cache hold, for the object \<open>i\<close>, the contents \<open>ds\<close> of its chunks.\<close>

definition chunks_ok :: "string \<Rightarrow> 'b list list \<Rightarrow> 'b micro option \<Rightarrow> bool" where
  "chunks_ok i ds mc = (case mc of None \<Rightarrow> True
     | Some c \<Rightarrow> \<forall>(k, x, t) \<in> set (mc_entries c). fst k = i \<longrightarrow> snd k < length ds \<and> x = ds ! snd k)"

definition disk_ok :: "string \<Rightarrow> 'b list list \<Rightarrow> (string \<Rightarrow> 'b list) \<Rightarrow> disk_lru option \<Rightarrow> bool" where
  "disk_ok i ds files dc = (case dc of None \<Rightarrow> True
     | Some c \<Rightarrow> \<forall>(j, p, sz, t) \<in> set (dl_entries c). j = i \<longrightarrow> files p = concat ds)"

definition coherent :: "string \<Rightarrow> 'b list list \<Rightarrow> ('b, 'w) store_state \<Rightarrow> bool" where
  "coherent i ds st = (chunks_ok i ds (ss_chunks st) \<and> disk_ok i ds (ss_files st) (ss_disk st))"

lemma set_alist_delete: "set (AList.delete k xs) \<subseteq> set xs"
  by (induction xs) auto

lemma mc_get_entries:
  "mc_get now i idx c = (h, c') \<Longrightarrow> set (mc_entries c') \<subseteq> set (mc_entries c)
     \<and> (case h of None \<Rightarrow> True | Some x \<Rightarrow> \<exists>t. ((i, idx), x, t) \<in> set (mc_entries c))"
  using set_alist_delete [of "(i, idx)" "mc_entries c"]
  by (auto simp: mc_get_def split: option.splits prod.splits if_splits dest: map_of_SomeD)

lemma mc_put_entries: "set (mc_entries (mc_put now i idx x c)) \<subseteq> insert ((i, idx), x, now) (set (mc_entries c))"
proof -
  have ev: "set (mc_entries (mc_evict_for n c)) \<subseteq> set (mc_entries c)" for n and c :: "'a micro"
    by (auto simp: mc_evict_for_def split: prod.split dest: evict_split)
  show ?thesis
  proof (cases "\<not> mc_enabled c \<or> int (length x) > mc_max_bytes c")
    case True
    then show ?thesis by (auto simp: mc_put_def)
  next
    case False
    define c1 where "c1 = (case map_of (mc_entries c) (i, idx) of None \<Rightarrow> c
       | Some (old, t) \<Rightarrow> c\<lparr>mc_entries := AList.delete (i, idx) (mc_entries c), mc_bytes := mc_bytes c - int (length old)\<rparr>)"
    have "set (mc_entries c1) \<subseteq> set (mc_entries c)"
      using set_alist_delete [of "(i, idx)" "mc_entries c"] by (auto simp: c1_def split: option.split)
    then have "set (mc_entries (mc_evict_for (int (length x)) c1)) \<subseteq> set (mc_entries c)" using ev by blast
    then show ?thesis using False by (auto simp: mc_put_def Let_def c1_def)
  qed
qed

lemma dl_get_entries:
  "dl_get now i c = (h, c') \<Longrightarrow> (case h of
      None \<Rightarrow> set (dl_entries c') \<subseteq> set (dl_entries c)
    | Some p \<Rightarrow> \<exists>sz t. (i, p, sz, t) \<in> set (dl_entries c) \<and> set (dl_entries c') \<subseteq> insert (i, p, sz, now) (set (dl_entries c)))"
  using set_alist_delete [of i "dl_entries c"]
  by (auto simp: dl_get_def dl_remove_def split: option.splits prod.splits if_splits dest!: map_of_SomeD) blast

lemma dl_add_entries: "set (dl_entries (fst (dl_add now i p sz c))) \<subseteq> insert (i, p, sz, now) (set (dl_entries c))"
proof -
  have fu: "dl_entries (fold (\<lambda>e. unlink (f e)) es c) = dl_entries c" for f and es :: "(string \<times> string \<times> int \<times> time) list" and c
    by (induction es arbitrary: c) simp_all
  have ev: "set (dl_entries (dl_evict_for sz c)) \<subseteq> set (dl_entries c)"
    by (auto simp: dl_evict_for_def fu split: prod.split dest: evict_split)
  then show ?thesis
    using set_alist_delete [of i "dl_entries (dl_evict_for sz c)"]
    by (auto simp: dl_add_def Let_def split: option.splits)
qed

text \<open>What the backends hold: every chunk of the manifest is fetched as its content.\<close>

definition held :: "('b, string \<Rightarrow> 'b fake) source \<Rightarrow> manifest \<Rightarrow> 'b list list \<Rightarrow> (string \<Rightarrow> 'b fake) \<Rightarrow> bool" where
  "held so m ds w =
     (length ds = length (m_chunks m)
      \<and> (\<forall>idx < length ds. blob w (chunk_at (so_pool so) (so_backend so) (m_chunks m ! idx)) = Some (ds ! idx)))"

definition plain_source :: "('b, string \<Rightarrow> 'b fake) source \<Rightarrow> bool" where
  "plain_source so = (so_fetch so = fakes_open \<and> (so_hybrid so \<longrightarrow> so_cdn so = None))"

lemma fakes_open_keeps: "fakes_open nm q w = (w', x) \<Longrightarrow> blob w' = blob w"
proof -
  assume a: "fakes_open nm q w = (w', x)"
  then have "w' = w(nm := fst (fake_open q (w nm)))" by (simp add: fakes_open_def at_def split_beta)
  then show ?thesis by (auto simp: blob_def fun_eq_iff fake_open_store)
qed

lemma fetch_uncached_held:
  assumes "plain_source so" and "held so m ds w" and "idx < length ds"
  shows "\<exists>w'. fetch_uncached so (m_chunks m ! idx) w = (w', Inr (ds ! idx)) \<and> blob w' = blob w"
proof -
  let ?c = "m_chunks m ! idx"
  let ?nm = "pool_name (so_pool so) (holder_of (so_pool so) (so_backend so) (c_backend ?c))"
  let ?q = "mk_ref (c_file_id ?c) (c_message_id ?c) ?nm"
  obtain w' x where f: "fakes_open ?nm ?q w = (w', x)" by (cases "fakes_open ?nm ?q w")
  have "x = Inr (ds ! idx)" using fakes_open_blob [of ?nm ?q w] assms(2,3) f by (simp add: held_def chunk_at_def)
  with f fakes_open_keeps [OF f] have h: "fetch_holder so ?c w = (w', Inr (ds ! idx)) \<and> blob w' = blob w"
    using assms(1) by (simp add: fetch_holder_def plain_source_def Let_def numeral_3_eq_3)
  then show ?thesis using assms(1) by (auto simp: fetch_uncached_def plain_source_def split: option.split)
qed

text \<open>Fetching a chunk gives its content, from whichever place, and keeps the caches coherent.\<close>

definition ready :: "('b, string \<Rightarrow> 'b fake) source \<Rightarrow> string \<Rightarrow> manifest \<Rightarrow> 'b list list \<Rightarrow> ('b, string \<Rightarrow> 'b fake) store_state \<Rightarrow> bool" where
  "ready so i m ds st = (held so m ds (ss_world st) \<and> coherent i ds st)"

lemma fetch_chunk_ready:
  assumes p: "plain_source so" and r: "ready so i m ds st" and idx: "idx < length ds"
  shows "\<exists>st'. fetch_chunk so now i m idx st = (st', Inr (ds ! idx)) \<and> ready so i m ds st'"
proof -
  have h: "held so m ds (ss_world st)" and c: "coherent i ds st" using r by (simp_all add: ready_def)
  obtain w' where f: "fetch_uncached so (m_chunks m ! idx) (ss_world st) = (w', Inr (ds ! idx))" "blob w' = blob (ss_world st)"
    using fetch_uncached_held [OF p h idx] by blast
  have h': "held so m ds w'" using h f(2) by (simp add: held_def)
  show ?thesis
  proof (cases "ss_chunks st")
    case None
    then show ?thesis using f h' c by (simp add: fetch_chunk_def ready_def coherent_def chunks_ok_def)
  next
    case (Some mc)
    obtain hit mc1 where g: "mc_get now i idx mc = (hit, mc1)" by (cases "mc_get now i idx mc")
    have ok: "\<forall>(k, x, t) \<in> set (mc_entries mc). fst k = i \<longrightarrow> snd k < length ds \<and> x = ds ! snd k"
      using c Some by (simp add: coherent_def chunks_ok_def)
    have ok1: "\<forall>(k, x, t) \<in> set (mc_entries mc1). fst k = i \<longrightarrow> snd k < length ds \<and> x = ds ! snd k"
      using ok mc_get_entries [OF g] by blast
    show ?thesis
    proof (cases hit)
      case (Some x)
      then have "x = ds ! idx" using mc_get_entries [OF g] ok by fastforce
      then show ?thesis using Some \<open>ss_chunks st = Some mc\<close> g h c ok1 by (simp add: fetch_chunk_def ready_def coherent_def chunks_ok_def)
    next
      case None
      have "\<forall>(k, x, t) \<in> set (mc_entries (mc_put now i idx (ds ! idx) mc1)). fst k = i \<longrightarrow> snd k < length ds \<and> x = ds ! snd k"
        using ok1 idx mc_put_entries [of now i idx "ds ! idx" mc1] by fastforce
      then show ?thesis using None \<open>ss_chunks st = Some mc\<close> g f h' c by (simp add: fetch_chunk_def ready_def coherent_def chunks_ok_def)
    qed
  qed
qed

lemma stream_ready:
  assumes p: "plain_source so" and cd: "\<And>x. concat (dice x) = x"
  shows "ready so i m ds st \<Longrightarrow> \<forall>(idx, off, n) \<in> set segs. idx < length ds \<Longrightarrow>
    \<exists>st' out. stream_segments (fetch_chunk so now i m) dice segs st = (st', out, None) \<and> ready so i m ds st'
      \<and> concat out = concat (map (read_piece ds) segs)"
proof (induction segs arbitrary: st)
  case (Cons s segs)
  obtain idx off n where s: "s = (idx, off, n)" by (cases s)
  obtain st1 where f: "fetch_chunk so now i m idx st = (st1, Inr (ds ! idx))" "ready so i m ds st1"
    using fetch_chunk_ready [OF p Cons.prems(1), of idx now] Cons.prems(2) s by auto
  obtain st2 out where t: "stream_segments (fetch_chunk so now i m) dice segs st1 = (st2, out, None)" "ready so i m ds st2"
    "concat out = concat (map (read_piece ds) segs)" using Cons.IH [OF f(2)] Cons.prems(2) by auto
  have "read_piece ds (idx, off, n) = take (nat n) (drop (nat off) (ds ! idx))" by (simp add: read_piece_def)
  then show ?case using f(1) s t by (simp add: cd)
qed (simp add: ready_def)

lemma read_pieces_take: "0 < rd \<Longrightarrow> concat (read_pieces rd n xs) = take n xs"
proof (induction rd n xs rule: read_pieces.induct)
  case (1 rd n xs)
  let ?p = "take (min rd n) xs"
  show ?case
  proof (cases "n = 0 \<or> ?p = []")
    case True
    then show ?thesis using 1(2) by (subst read_pieces.simps) auto
  next
    case False
    have "concat (read_pieces rd (n - length ?p) (drop (length ?p) xs)) = take (n - length ?p) (drop (length ?p) xs)"
      using 1(1) [OF refl False] 1(2) by simp
    moreover have "?p @ take (n - length ?p) (drop (length ?p) xs) = take n xs"
    proof (cases "length xs \<le> min rd n")
      case True
      then show ?thesis by simp
    next
      case False
      then have "min rd n \<le> length xs" by linarith
      then have "length ?p = min rd n" unfolding length_take by (rule min_absorb2)
      then show ?thesis by (metis append_take_drop_id le_add_diff_inverse min.cobounded2 take_add)
    qed
    ultimately show ?thesis using False by (subst read_pieces.simps) (simp add: Let_def)
  qed
qed

section \<open>The served bytes\<close>

definition selected :: "'b list list \<Rightarrow> (int \<times> int) option \<Rightarrow> 'b list" where
  "selected ds rg = (case rg of None \<Rightarrow> concat ds | Some (s, e) \<Rightarrow> take (nat (e - s + 1)) (drop (nat s) (concat ds)))"

lemma plan_exact:
  assumes h: "holds (m_chunks m) ds" "m_total_size m = int (length (concat ds))" "concat ds \<noteq> []"
    and rg: "parse_range hdr (m_total_size m) = Inr rg"
  shows "\<exists>len segs. range_plan m rg = Inr (len, segs) \<and> concat (map (read_piece ds) segs) = selected ds rg
     \<and> len = int (length (selected ds rg)) \<and> (\<forall>(idx, off, n) \<in> set segs. idx < length ds)"
proof -
  have pos: "0 < m_total_size m" using h by simp
  define s e where "s = (case rg of None \<Rightarrow> 0 | Some (s, _) \<Rightarrow> s)" and "e = (case rg of None \<Rightarrow> m_total_size m | Some (_, e) \<Rightarrow> e + 1)"
  have b: "0 \<le> s" "s < e" "e \<le> m_total_size m"
    using pos rg range_bounds [of hdr "m_total_size m"] by (auto simp: s_def e_def split: option.splits)
  obtain rs where rs: "map_range_loop (prefix_from 0 (m_chunks m)) s e = Inr rs"
     "concat (map (read_piece ds) rs) = take (nat (e - s)) (drop (nat s) (concat ds))"
     "\<forall>(i, off, n) \<in> set rs. i < length ds \<and> 0 \<le> off \<and> 0 < n \<and> off + n \<le> int (length (ds ! i))"
    using map_range_loop_exact [OF h(1) b(1) less_imp_le [OF b(2)]] b(3) h(2) by auto
  have mr: "map_range m s e = Inr rs" using rs(1) b by (simp add: map_range_def prefix_sizes_def)
  have sel: "selected ds rg = take (nat (e - s)) (drop (nat s) (concat ds))"
  proof (cases rg)
    case None
    then show ?thesis using h(2) by (simp add: selected_def s_def e_def)
  next
    case (Some se)
    then show ?thesis by (cases se) (simp add: selected_def s_def e_def algebra_simps)
  qed
  have len: "int (length (selected ds rg)) = e - s"
    unfolding sel using b h(2) by (auto simp: min_def nat_le_iff nat_diff_distrib)
  have "range_plan m rg = Inr (e - s, rs)"
    using mr pos by (cases rg) (auto simp: range_plan_def s_def e_def split: prod.splits)
  then show ?thesis using rs sel len by fastforce
qed

lemma SLICE_pos: "0 < SLICE" by (simp add: SLICE_def)

lemma serve_ready:
  assumes p: "plain_source so" and r: "ready so i m ds st" and h: "m_total_size m = int (length (concat ds))"
    and segs: "concat (map (read_piece ds) segs) = selected ds rg" "\<forall>(idx, off, n) \<in> set segs. idx < length ds"
    and rg: "case rg of None \<Rightarrow> True | Some (s, e) \<Rightarrow> 0 \<le> s \<and> s \<le> e \<and> e < m_total_size m"
    and len: "len = int (length (selected ds rg))"
  shows "\<exists>st' out. serve_body so now tmp cache_mb i m rg len segs st = (st', out, None) \<and> concat out = selected ds rg \<and> ready so i m ds st'"
proof -
  obtain path disk where pd: "(case ss_disk st of None \<Rightarrow> (None, None) | Some c \<Rightarrow> (case dl_get now i c of (p, c) \<Rightarrow> (p, Some c))) = (path, disk)"
    by (cases "case ss_disk st of None \<Rightarrow> (None, None) | Some c \<Rightarrow> (case dl_get now i c of (p, c) \<Rightarrow> (p, Some c))")
  let ?st = "st\<lparr>ss_disk := disk\<rparr>"
  have c: "chunks_ok i ds (ss_chunks st)" "disk_ok i ds (ss_files st) (ss_disk st)" and hd: "held so m ds (ss_world st)"
    using r by (simp_all add: ready_def coherent_def)
  have dk: "disk_ok i ds (ss_files st) disk \<and> (case path of None \<Rightarrow> True | Some p \<Rightarrow> ss_files st p = concat ds)"
  proof (cases "ss_disk st")
    case None
    then show ?thesis using pd by (simp add: disk_ok_def)
  next
    case (Some dc)
    obtain q dc' where g: "dl_get now i dc = (q, dc')" by (cases "dl_get now i dc")
    then have "path = q" "disk = Some dc'" using pd Some by simp_all
    then show ?thesis using dl_get_entries [OF g] c(2) Some by (cases q) (fastforce simp: disk_ok_def)+
  qed
  have r1: "ready so i m ds ?st" using hd c dk by (simp add: ready_def coherent_def)
  show ?thesis
  proof (cases path)
    case (Some p)
    then have f: "ss_files st p = concat ds" using dk by simp
    have "concat (cached_stream (concat ds) rg len) = selected ds rg"
    proof (cases rg)
      case None
      then show ?thesis by (simp add: cached_stream_def selected_def read_pieces_take)
    next
      case (Some se)
      obtain a b where se: "se = (a, b)" by (cases se)
      have "take (length (take k xs)) xs = take k xs" for k and xs :: "'a list" by (cases "length xs \<le> k") simp_all
      then show ?thesis using Some se len by (simp add: cached_stream_def selected_def read_pieces_take del: length_take)
    qed
    then show ?thesis using Some pd f r1 by (simp add: serve_body_def Let_def)
  next
    case None
    show ?thesis
    proof (cases "ss_disk st \<noteq> None \<and> rg = None \<and> m_total_size m > 0 \<and> m_total_size m \<le> cache_mb * 1024 * 1024")
      case False
      obtain st' out where t: "stream_segments (fetch_chunk so now i m) (chop SLICE) segs ?st = (st', out, None)" "ready so i m ds st'"
        "concat out = concat (map (read_piece ds) segs)" using stream_ready [OF p concat_chop [OF SLICE_pos] r1 segs(2)] by blast
      then show ?thesis using None pd False segs(1) by (auto simp: serve_body_def Let_def)
    next
      case True
      have "concat [x] = x" for x :: "'a list" by simp
      from stream_ready [OF p this r1 segs(2), of now]
      obtain st' out where t: "stream_segments (fetch_chunk so now i m) (\<lambda>x. [x]) segs ?st = (st', out, None)" "ready so i m ds st'"
        "concat out = concat (map (read_piece ds) segs)" by blast
      have out: "concat out = concat ds" using t(3) segs(1) True by (simp add: selected_def)
      define st1 where "st1 = st'\<lparr>ss_files := (ss_files st')(tmp := concat out), ss_disk := map_option (new_entry_path tmp) (ss_disk st')\<rparr>"
      define st2 where "st2 = st1\<lparr>ss_disk := map_option (\<lambda>c. fst (dl_add now i tmp (int (length (concat out))) c)) (ss_disk st1)\<rparr>"
      have "filling_stream so now tmp i m (m_total_size m) segs ?st = (st2, out, None)"
        using t(1) h by (simp add: filling_stream_def st1_def st2_def Let_def out)
      moreover have "ready so i m ds st2"
      proof -
        have d: "disk_ok i ds (ss_files st') (ss_disk st')" and o: "chunks_ok i ds (ss_chunks st')" "held so m ds (ss_world st')"
          using t(2) by (simp_all add: ready_def coherent_def)
        have "disk_ok i ds (ss_files st2) (ss_disk st2)"
        proof (cases "ss_disk st'")
          case (Some dc)
          have e: "dl_entries (new_entry_path tmp dc) = dl_entries dc" by (simp add: new_entry_path_def)
          show ?thesis using d Some dl_add_entries [of now i tmp "int (length (concat out))" "new_entry_path tmp dc"] out
            unfolding e by (fastforce simp: disk_ok_def st1_def st2_def)
        qed (simp add: disk_ok_def st1_def st2_def)
        then show ?thesis using o by (simp add: ready_def coherent_def st1_def st2_def)
      qed
      ultimately show ?thesis using None pd True t(3) segs(1) by (auto simp: serve_body_def Let_def)
    qed
  qed
qed

end
