(* ===== verification/S3Api.thy ===== *)
theory S3Api
  imports Download Readers "HOL-Library.List_Lexorder" "HOL-Library.Char_ord"
begin

text \<open>
  The S3 endpoints of \<^verbatim>\<open>src/src/anbar/api/s3.py\<close>: access, buckets, listings with pages and
  delimiters, PutObject, HeadObject, GetObject and the deletions. The XML of a reply is its data; the
  parsed keys of a DeleteObjects body are an argument (\<^verbatim>\<open>xml.etree\<close>), and \<^verbatim>\<open>formatdate\<close> is left out.
\<close>

section \<open>Access\<close>

datatype 'b s3_reply =
    XmlError string string string int
  | Plain int "(string \<times> string) list"
  | Buckets "string list"
  | Listing "(string \<times> string) list" "(string \<times> int \<times> string) list" "string list"
  | Bytes int "(string \<times> string) list" "'b list list" "exc option"
  | Deleted "string list"

(* src: src/src/anbar/api/s3.py auto _check_s3_auth *)
definition check_s3_auth :: "ctx \<Rightarrow> request \<Rightarrow> bool \<Rightarrow> db \<Rightarrow> db \<times> unit res" where
  "check_s3_auth cx r write d =
     (let enabled = effective_auth_enabled d (s_auth_enabled (cx_settings cx)) in
      case role_of cx r d of (role, d) \<Rightarrow>
        (d, if enabled then (if role = Anon then Inl (HTTPException 401 ''S3 Access Denied'') else Inr ())
            else if write \<and> role = Anon then Inl (HTTPException 401 ''S3 writes require authentication'')
            else Inr ()))"

(* src: src/src/anbar/api/s3.py 290-290 put_object *)
definition s3_kv :: "string \<Rightarrow> string \<Rightarrow> string" where
  "s3_kv bucket key = ''s3:'' @ bucket @ '':'' @ key"

(* src: src/src/anbar/api/s3.py 118-120 list_objects_v2 *)
definition s3_limit :: "ctx \<Rightarrow> request \<Rightarrow> string \<Rightarrow> db \<Rightarrow> db \<times> unit res" where
  "s3_limit cx r k d =
     limit_download (cx_now cx) r k (get_int_setting d ''rate_download'' (s_rate_download_per_min (cx_settings cx))) d"

definition no_such_key :: "string \<Rightarrow> string \<Rightarrow> 'b s3_reply" where
  "no_such_key bucket key = XmlError ''NoSuchKey'' ''The specified key does not exist.'' (''/'' @ bucket @ ''/'' @ key) 404"

definition invalid_range :: "string \<Rightarrow> string \<Rightarrow> 'b s3_reply" where
  "invalid_range bucket key =
     XmlError ''InvalidRange'' ''The requested range is not satisfiable.'' (''/'' @ bucket @ ''/'' @ key) 416"

section \<open>Buckets\<close>

(* src: src/src/anbar/api/s3.py auto list_buckets *)
definition list_buckets :: "ctx \<Rightarrow> request \<Rightarrow> db \<Rightarrow> db \<times> 'b s3_reply res" where
  "list_buckets cx r d =
     (case check_s3_auth cx r False d of
        (d, Inl e) \<Rightarrow> (d, Inl e)
      | (d, Inr _) \<Rightarrow>
          let names = map (o_filename \<circ> fst) (list_objects 1000 0 False d);
              tops = map (\<lambda>fn. strip (takeWhile (\<lambda>c. c \<noteq> CHR ''/'') fn)) (filter (\<lambda>fn. CHR ''/'' \<in> set fn) names)
          in (d, Inr (Buckets (sort (remdups (''default'' # filter (\<lambda>p. p \<noteq> []) tops))))))"

(* src: src/src/anbar/api/s3.py auto head_bucket *)
definition head_bucket :: "ctx \<Rightarrow> request \<Rightarrow> db \<Rightarrow> db \<times> 'b s3_reply res" where
  "head_bucket cx r d =
     (case check_s3_auth cx r False d of (d, x) \<Rightarrow> (d, rbind x (\<lambda>_. Inr (Plain 200 [(''x-amz-bucket-region'', ''us-east-1'')]))))"

(* src: src/src/anbar/api/s3.py auto create_bucket *)
definition create_bucket :: "ctx \<Rightarrow> request \<Rightarrow> string \<Rightarrow> db \<Rightarrow> db \<times> 'b s3_reply res" where
  "create_bucket cx r bucket d =
     (case check_s3_auth cx r True d of (d, x) \<Rightarrow> (d, rbind x (\<lambda>_. Inr (Plain 200 [(''Location'', ''/s3/'' @ bucket)]))))"

section \<open>Listings\<close>

text \<open>\<^verbatim>\<open>s.split(sep)[0]\<close> for a separator that is not empty.\<close>

fun before :: "string \<Rightarrow> string \<Rightarrow> string" where
  "before sep [] = []"
| "before sep (c # cs) = (if startswith (c # cs) sep then [] else c # before sep cs)"

(* src: src/src/anbar/api/s3.py 147-152 list_objects_v2 *)
definition rest_key :: "string \<Rightarrow> string \<Rightarrow> string \<Rightarrow> string" where
  "rest_key bucket_prefix req_prefix fn =
     (let rel_key = (if startswith fn bucket_prefix then drop (length bucket_prefix) fn else fn)
      in if req_prefix \<noteq> [] \<and> startswith rel_key req_prefix then drop (length req_prefix) rel_key else rel_key)"

(* src: src/src/anbar/api/s3.py 141-160 list_objects_v2 *)
definition split_contents :: "string \<Rightarrow> string \<Rightarrow> string \<Rightarrow> obj list \<Rightarrow> obj list \<times> string list" where
  "split_contents delimiter bucket_prefix req_prefix rows =
     (if delimiter = [] then (rows, [])
      else (filter (\<lambda>r. \<not> contains_str delimiter (rest_key bucket_prefix req_prefix (o_filename r))) rows,
            remdups (map (\<lambda>r. req_prefix @ before delimiter (rest_key bucket_prefix req_prefix (o_filename r)) @ delimiter)
              (filter (\<lambda>r. contains_str delimiter (rest_key bucket_prefix req_prefix (o_filename r))) rows))))"

(* src: src/src/anbar/api/s3.py 133-139 list_objects_v2 *)
definition page_offset :: "string option \<Rightarrow> nat" where
  "page_offset token = (if truthy_str token then (case py_int (the token) of None \<Rightarrow> 0 | Some n \<Rightarrow> nat (max 0 n)) else 0)"

(* src: src/src/anbar/api/s3.py 132-132 list_objects_v2 *)
definition page_size :: "int \<Rightarrow> nat" where
  "page_size n = nat (max 1 (min n 1000))"

(* src: src/src/anbar/api/s3.py 162-164 list_objects_v2 *)
definition page_of :: "nat \<Rightarrow> nat \<Rightarrow> 'a list \<Rightarrow> 'a list \<times> string option" where
  "page_of lim offset xs =
     (take lim (drop offset xs), if offset + lim < length xs then Some (str_of_nat (offset + lim)) else None)"

(* src: src/src/anbar/api/s3.py 122-130 list_objects_v2 *)
definition matching_rows :: "string \<Rightarrow> string \<Rightarrow> db \<Rightarrow> obj list" where
  "matching_rows bucket req_prefix d =
     (let full = bucket @ ''/'' @ req_prefix
      in filter (\<lambda>r. startswith (o_filename r) full \<and> \<not> truthy_int (o_deleted_at r)) (list_objects_by_prefix full False d))"

(* src: src/src/anbar/api/s3.py 166-194 list_objects_v2 *)
definition listing_reply :: "string \<Rightarrow> string \<Rightarrow> string \<Rightarrow> nat \<Rightarrow> obj list \<Rightarrow> string option \<Rightarrow> string list \<Rightarrow> 'b s3_reply" where
  "listing_reply bucket req_prefix delimiter lim paged next_token prefixes =
     (let bp = bucket @ ''/'' in
      Listing
        ([(''Name'', bucket)] @ (if req_prefix \<noteq> [] then [(''Prefix'', req_prefix)] else [])
         @ (if delimiter \<noteq> [] then [(''Delimiter'', delimiter)] else [])
         @ [(''KeyCount'', str_of_nat (length paged + length prefixes)), (''MaxKeys'', str_of_nat lim),
            (''IsTruncated'', if next_token = None then ''false'' else ''true'')]
         @ (case next_token of None \<Rightarrow> [] | Some t \<Rightarrow> [(''NextContinuationToken'', t)]))
        (map (\<lambda>r. (if startswith (o_filename r) bp then drop (length bp) (o_filename r) else o_filename r, o_size r,
                   [CHR 0x22] @ str_or (o_sha256 r) [] @ [CHR 0x22])) paged)
        (sort prefixes))"

text \<open>\<open>max_keys\<close> and \<open>token\<close> are the parameters FastAPI has parsed.\<close>

(* src: src/src/anbar/api/s3.py auto list_objects_v2 *)
definition list_objects_v2 :: "ctx \<Rightarrow> request \<Rightarrow> string \<Rightarrow> int \<Rightarrow> string option \<Rightarrow> db \<Rightarrow> db \<times> 'b s3_reply res" where
  "list_objects_v2 cx r bucket max_keys token d =
     (case check_s3_auth cx r False d of
        (d, Inl e) \<Rightarrow> (d, Inl e)
      | (d, Inr _) \<Rightarrow>
     (case s3_limit cx r (''s3:'' @ bucket) d of
        (d, Inl e) \<Rightarrow> (d, Inl e)
      | (d, Inr _) \<Rightarrow>
          let req_prefix = str_or (query r ''prefix'') []; delimiter = str_or (query r ''delimiter'') [];
              rows = matching_rows bucket req_prefix d
          in (d, case (case query r ''max-keys'' of None \<Rightarrow> Some max_keys | Some s \<Rightarrow> py_int s) of
                None \<Rightarrow> Inl (ValueError ''int'')
              | Some n \<Rightarrow>
                  let offset = page_offset (if truthy_str (query r ''continuation-token'') then query r ''continuation-token'' else token);
                      (contents, prefixes) = split_contents delimiter (bucket @ ''/'') req_prefix rows;
                      (paged, next_token) = page_of (page_size n) offset contents
                  in Inr (listing_reply bucket req_prefix delimiter (page_size n) paged next_token prefixes))))"

section \<open>PutObject\<close>

record 'w put_state =
  ps_chunks :: "chunk list"
  ps_world :: 'w

text \<open>\<open>token\<close> gives the random part of the name of chunk \<open>i\<close>.\<close>

(* src: src/src/anbar/api/s3.py auto put_object.on_chunk *)
definition s3_on_chunk :: "(string \<Rightarrow> 'b list \<Rightarrow> string \<Rightarrow> string option \<Rightarrow> 'w \<Rightarrow> 'w \<times> object_ref res) \<Rightarrow> (nat \<Rightarrow> string) \<Rightarrow> string
    \<Rightarrow> 'b list \<Rightarrow> bool \<Rightarrow> 'w put_state \<Rightarrow> 'w put_state \<times> string res" where
  "s3_on_chunk store token nm data media s =
     (let n = length (ps_chunks s) in
      case store nm data (opaque_chunk_name (token n) n) None (ps_world s) of
        (w, Inl e) \<Rightarrow> (s\<lparr>ps_world := w\<rparr>, Inl e)
      | (w, Inr r) \<Rightarrow>
          (\<lparr>ps_chunks = ps_chunks s @ [\<lparr>c_index = int n, c_size = int (length data), c_file_id = or_file_id r,
               c_message_id = or_message_id r, c_bot_file_id = None, c_backend = None\<rparr>], ps_world = w\<rparr>, Inr (or_file_id r)))"

(* src: src/src/anbar/api/s3.py 245-255 put_object *)
fun delete_refs :: "(string \<Rightarrow> object_ref \<Rightarrow> 'w \<Rightarrow> 'w \<times> bool res) \<Rightarrow> (chunk \<Rightarrow> string) \<Rightarrow> chunk list \<Rightarrow> 'w \<Rightarrow> 'w" where
  "delete_refs delete place [] w = w"
| "delete_refs delete place (c # cs) w =
     delete_refs delete place cs (fst (delete (place c) (mk_ref (c_file_id c) (c_message_id c) (place c)) w))"

(* src: src/src/anbar/api/s3.py 263-273 put_object *)
definition replace_old :: "(string \<Rightarrow> object_ref \<Rightarrow> 'w \<Rightarrow> 'w \<times> bool res) \<Rightarrow> pool option \<Rightarrow> handle \<Rightarrow> string \<Rightarrow> db \<Rightarrow> 'w \<Rightarrow> (db \<times> 'w) \<times> unit res" where
  "replace_old delete po backend k d w =
     (let old = kv_get d k in
      if \<not> truthy_str old then ((d, w), Inr ())
      else (case get_object (the old) False d of
         (None, d) \<Rightarrow> ((kv_delete k d, w), Inr ())
       | (Some row, d) \<Rightarrow>
           (case purge_object_blobs delete po backend row d w of
              (d, w, Inl e) \<Rightarrow> ((d, w), Inl e)
            | (d, w, Inr _) \<Rightarrow> ((kv_delete k d, w), Inr ()))))"

(* src: src/src/anbar/api/s3.py 258-296 put_object *)
definition s3_commit :: "ctx \<Rightarrow> (string \<Rightarrow> object_ref \<Rightarrow> 'w \<Rightarrow> 'w \<times> bool res) \<Rightarrow> pool option \<Rightarrow> handle \<Rightarrow> nat list \<Rightarrow> request \<Rightarrow> string \<Rightarrow> string
    \<Rightarrow> nat \<times> string \<Rightarrow> db \<Rightarrow> 'w put_state \<Rightarrow> (db \<times> 'w) \<times> 'b s3_reply res" where
  "s3_commit cx delete po backend draws r bucket key size_sha d s =
     (case size_sha of (total_size, sha_hex) \<Rightarrow>
      let obj_id = new_object_id draws; ct = header r ''content-type'' in
      case replace_old delete po backend (s3_kv bucket key) d (ps_world s) of
        ((d, w), Inl e) \<Rightarrow> ((d, w), Inl e)
      | ((d, w), Inr _) \<Rightarrow>
          (case insert_object (cx_now cx)
              \<lparr>i_id = obj_id, i_file_id = (case ps_chunks s of [] \<Rightarrow> [] | c # _ \<Rightarrow> c_file_id c), i_backend = pool_name po backend,
               i_filename = bucket @ ''/'' @ key, i_size = int total_size,
               i_content_type = Some (if ct \<noteq> [] then ct else ''application/octet-stream''), i_sha256 = Some sha_hex,
               i_manifest = Some (to_json \<lparr>m_chunks = ps_chunks s, m_total_size = int total_size\<rparr>),
               i_uploader_key = Some ''s3'', i_created_at = None, i_downloaded = None\<rparr> d of
             (d, Inl e) \<Rightarrow> ((d, w), Inl e)
           | (d, Inr _) \<Rightarrow>
               ((kv_set (s3_kv bucket key) obj_id d, w),
                Inr (Plain 200 [(''ETag'', [CHR 0x22] @ sha_hex @ [CHR 0x22]), (''x-amz-request-id'', obj_id)]))))"

text \<open>Only a body over the ceiling is rolled back; any other error leaves the stored chunks. \<open>None\<close>: the body never ends.\<close>

(* src: src/src/anbar/api/s3.py auto put_object *)
definition put_object :: "ctx \<Rightarrow> (string \<Rightarrow> 'b list \<Rightarrow> string \<Rightarrow> string option \<Rightarrow> 'w \<Rightarrow> 'w \<times> object_ref res)
    \<Rightarrow> (string \<Rightarrow> object_ref \<Rightarrow> 'w \<Rightarrow> 'w \<times> bool res) \<Rightarrow> ('b list \<Rightarrow> string) \<Rightarrow> ('s \<Rightarrow> nat \<Rightarrow> ('b list \<times> 's) res) \<Rightarrow> pool option \<Rightarrow> handle
    \<Rightarrow> (nat \<Rightarrow> string) \<Rightarrow> nat list \<Rightarrow> request \<Rightarrow> string \<Rightarrow> string \<Rightarrow> 's \<Rightarrow> db \<Rightarrow> 'w \<Rightarrow> ((db \<times> 'w) \<times> 'b s3_reply res) option" where
  "put_object cx store delete sha read po backend token draws r bucket key stream d w =
     (case check_s3_auth cx r True d of
        (d, Inl e) \<Rightarrow> Some ((d, w), Inl e)
      | (d, Inr _) \<Rightarrow>
     (case limit_upload (cx_sha256 cx) (cx_now cx) r (get_int_setting d ''rate_upload'' (s_rate_upload_per_min (cx_settings cx))) d of
        (d, Inl e) \<Rightarrow> Some ((d, w), Inl e)
      | (d, Inr _) \<Rightarrow>
     (let max_bytes = get_int_setting d ''max_upload_mb'' (s_max_upload_mb (cx_settings cx)) * 1024 * 1024;
          nm = pool_name po backend in
      case (case map_of (rq_headers r) ''content-length'' of None \<Rightarrow> Some 0 | Some s \<Rightarrow> if s = [] then Some 0 else py_int s) of
        None \<Rightarrow> Some ((d, w), Inl (ValueError ''int''))
      | Some declared \<Rightarrow>
          if declared \<noteq> 0 \<and> declared > max_bytes then Some ((d, w), Inl (HTTPException 413 ''object exceeds configured ceiling''))
          else (case chunk_stream sha read (nat (chunk_size (cx_settings cx))) (s3_on_chunk store token nm) False (Some (nat max_bytes)) stream
                       \<lparr>ps_chunks = [], ps_world = w\<rparr> of
                  None \<Rightarrow> None
                | Some (s, Inl e) \<Rightarrow>
                    if e = UploadCeilingExceeded
                    then Some ((d, delete_refs delete (\<lambda>_. nm) (ps_chunks s) (ps_world s)), Inl (HTTPException 413 ''object exceeds configured ceiling''))
                    else Some ((d, ps_world s), Inl e)
                | Some (s, Inr size_sha) \<Rightarrow> Some (s3_commit cx delete po backend draws r bucket key size_sha d s)))))"

section \<open>HeadObject and GetObject\<close>

(* src: src/src/anbar/api/s3.py 332-340 get_object *)
definition s3_lookup :: "string \<Rightarrow> string \<Rightarrow> db \<Rightarrow> db \<times> obj option" where
  "s3_lookup bucket key d =
     (let i = kv_get d (s3_kv bucket key) in
      if \<not> truthy_str i then (d, None) else (case get_object (the i) False d of (row, d) \<Rightarrow> (d, row)))"

definition s3_headers :: "obj \<Rightarrow> int \<Rightarrow> (string \<times> string) list" where
  "s3_headers row len =
     [(''Content-Length'', str_of_int len), (''Content-Type'', str_or (o_content_type row) ''application/octet-stream''),
      (''ETag'', [CHR 0x22] @ (case o_sha256 row of None \<Rightarrow> ''None'' | Some h \<Rightarrow> h) @ [CHR 0x22]), (''Accept-Ranges'', ''bytes'')]"

(* src: src/src/anbar/api/s3.py auto head_object *)
definition head_object :: "ctx \<Rightarrow> request \<Rightarrow> string \<Rightarrow> string \<Rightarrow> db \<Rightarrow> db \<times> 'b s3_reply res" where
  "head_object cx r bucket key d =
     (case check_s3_auth cx r False d of
        (d, Inl e) \<Rightarrow> (d, Inl e)
      | (d, Inr _) \<Rightarrow>
     (case s3_limit cx r (s3_kv bucket key) d of
        (d, Inl e) \<Rightarrow> (d, Inl e)
      | (d, Inr _) \<Rightarrow>
          (case s3_lookup bucket key d of
             (d, None) \<Rightarrow> (d, Inr (Plain 404 []))
           | (d, Some row) \<Rightarrow> (d, Inr (Plain 200 (s3_headers row (o_size row)))))))"

text \<open>The Range header: \<open>None\<close> is the whole object, \<open>Inl ()\<close> the InvalidRange reply. A suffix range \<open>-n\<close> is read
  as a start of 0 and an end of \<open>n\<close>.\<close>

(* src: src/src/anbar/api/s3.py 343-376 get_object *)
definition s3_range :: "string option \<Rightarrow> int \<Rightarrow> unit + (int \<times> int) option" where
  "s3_range hdr total_size =
     (if \<not> truthy_str hdr \<or> \<not> startswith (the hdr) ''bytes='' then Inr None
      else let raw = strip (drop 6 (the hdr)) in
        if CHR '','' \<in> set raw then Inr None
        else (case split_on (CHR ''-'') raw of
           a # b # _ \<Rightarrow>
             (case (if a = [] then Some 0 else py_int a, if b = [] then Some (total_size - 1) else py_int b) of
                (Some start, Some stop) \<Rightarrow>
                  if start \<ge> total_size \<or> start > stop then Inl () else Inr (Some (start, min stop (total_size - 1)))
              | _ \<Rightarrow> Inl ())
         | _ \<Rightarrow> Inl ()))"

definition s3_fetch :: "('b, 'w) source \<Rightarrow> manifest \<Rightarrow> nat \<Rightarrow> 'w \<Rightarrow> 'w \<times> 'b list res" where
  "s3_fetch so m idx w =
     (let c = m_chunks m ! idx; nm = pool_name (so_pool so) (holder_of (so_pool so) (so_backend so) (c_backend c))
      in so_fetch so nm (mk_ref (c_file_id c) (c_message_id c) nm) w)"

(* src: src/src/anbar/api/s3.py auto get_object *)
definition s3_get_object :: "ctx \<Rightarrow> ('b, 'w) source \<Rightarrow> request \<Rightarrow> string \<Rightarrow> string \<Rightarrow> db \<Rightarrow> 'w \<Rightarrow> (db \<times> 'w) \<times> 'b s3_reply res" where
  "s3_get_object cx so r bucket key d w =
     (case check_s3_auth cx r False d of
        (d, Inl e) \<Rightarrow> ((d, w), Inl e)
      | (d, Inr _) \<Rightarrow>
     (case s3_limit cx r (s3_kv bucket key) d of
        (d, Inl e) \<Rightarrow> ((d, w), Inl e)
      | (d, Inr _) \<Rightarrow>
     (case s3_lookup bucket key d of
        (d, None) \<Rightarrow> ((d, w), Inr (no_such_key bucket key))
      | (d, Some row) \<Rightarrow>
     (case (case o_manifest row of None \<Rightarrow> Inl TypeError | Some j \<Rightarrow> from_json j) of
        Inl e \<Rightarrow> ((d, w), Inl e)
      | Inr m \<Rightarrow>
          (case s3_range (map_of (rq_headers r) ''range'') (m_total_size m) of
             Inl _ \<Rightarrow> ((d, w), Inr (invalid_range bucket key))
           | Inr rg \<Rightarrow>
               (case map_range m (case rg of None \<Rightarrow> 0 | Some (s, _) \<Rightarrow> s) (case rg of None \<Rightarrow> m_total_size m | Some (_, e) \<Rightarrow> e + 1) of
                  Inl e \<Rightarrow> ((d, w), Inl e)
                | Inr segs \<Rightarrow>
                    let etag = [CHR 0x22] @ (case o_sha256 row of None \<Rightarrow> ''None'' | Some h \<Rightarrow> h) @ [CHR 0x22];
                        inm = header r ''if-none-match''
                    in if inm \<noteq> [] \<and> rg = None \<and> (inm = etag \<or> inm = ''*'')
                       then ((d, w), Inr (Plain 304 [(''ETag'', etag), (''Accept-Ranges'', ''bytes'')]))
                       else (case stream_segments (s3_fetch so m) (\<lambda>x. [x]) segs w of
                               (w, out, e) \<Rightarrow> ((d, w), Inr (Bytes (if rg = None then 200 else 206)
                                 (s3_headers row (case rg of None \<Rightarrow> m_total_size m | Some (s, e) \<Rightarrow> e - s + 1)
                                  @ (case rg of None \<Rightarrow> [] | Some (s, e) \<Rightarrow> [(''Content-Range'', ''bytes '' @ str_of_int s @ ''-'' @ str_of_int e @ ''/'' @ str_of_int (m_total_size m))]))
                                 out e))))))))) "

section \<open>Deletions\<close>

(* src: src/src/anbar/api/s3.py 420-441 delete_object *)
definition s3_delete_key :: "(string \<Rightarrow> object_ref \<Rightarrow> 'w \<Rightarrow> 'w \<times> bool res) \<Rightarrow> pool option \<Rightarrow> handle \<Rightarrow> string \<Rightarrow> string \<Rightarrow> db \<Rightarrow> 'w
    \<Rightarrow> (db \<times> 'w) \<times> unit res" where
  "s3_delete_key delete po backend bucket key d w =
     (let k = s3_kv bucket key; i = kv_get d k in
      if \<not> truthy_str i then ((d, w), Inr ())
      else (case get_object (the i) False d of
         (None, d) \<Rightarrow> ((kv_delete k d, w), Inr ())
       | (Some row, d) \<Rightarrow>
           (case (case o_manifest row of None \<Rightarrow> Inl TypeError | Some j \<Rightarrow> from_json j) of
              Inl e \<Rightarrow> ((d, w), Inl e)
            | Inr m \<Rightarrow>
                ((kv_delete k (fst (delete_object (the i) d)),
                  delete_refs delete (\<lambda>c. pool_name po (holder_of po backend (c_backend c))) (m_chunks m) w), Inr ()))))"

(* src: src/src/anbar/api/s3.py auto delete_object *)
definition s3_delete_object :: "ctx \<Rightarrow> (string \<Rightarrow> object_ref \<Rightarrow> 'w \<Rightarrow> 'w \<times> bool res) \<Rightarrow> pool option \<Rightarrow> handle \<Rightarrow> request \<Rightarrow> string \<Rightarrow> string
    \<Rightarrow> db \<Rightarrow> 'w \<Rightarrow> (db \<times> 'w) \<times> 'b s3_reply res" where
  "s3_delete_object cx delete po backend r bucket key d w =
     (case check_s3_auth cx r True d of
        (d, Inl e) \<Rightarrow> ((d, w), Inl e)
      | (d, Inr _) \<Rightarrow> (case s3_delete_key delete po backend bucket key d w of (s, x) \<Rightarrow> (s, rbind x (\<lambda>_. Inr (Plain 204 [])))))"

(* src: src/src/anbar/api/s3.py 482-500 delete_objects *)
fun s3_delete_keys :: "(string \<Rightarrow> object_ref \<Rightarrow> 'w \<Rightarrow> 'w \<times> bool res) \<Rightarrow> pool option \<Rightarrow> handle \<Rightarrow> string \<Rightarrow> string list \<Rightarrow> db \<Rightarrow> 'w
    \<Rightarrow> (db \<times> 'w) \<times> unit res" where
  "s3_delete_keys delete po backend bucket [] d w = ((d, w), Inr ())"
| "s3_delete_keys delete po backend bucket (k # ks) d w =
     (case s3_delete_key delete po backend bucket k d w of
        ((d, w), Inl e) \<Rightarrow> ((d, w), Inl e)
      | ((d, w), Inr _) \<Rightarrow> s3_delete_keys delete po backend bucket ks d w)"

text \<open>\<open>keys\<close>: what the XML parser finds in the body, \<open>None\<close> when it fails.\<close>

(* src: src/src/anbar/api/s3.py auto delete_objects *)
definition delete_objects :: "ctx \<Rightarrow> (string \<Rightarrow> string list option) \<Rightarrow> (string \<Rightarrow> object_ref \<Rightarrow> 'w \<Rightarrow> 'w \<times> bool res) \<Rightarrow> pool option \<Rightarrow> handle
    \<Rightarrow> request \<Rightarrow> string \<Rightarrow> string \<Rightarrow> db \<Rightarrow> 'w \<Rightarrow> (db \<times> 'w) \<times> 'b s3_reply res" where
  "delete_objects cx keys delete po backend r bucket body d w =
     (case check_s3_auth cx r True d of
        (d, Inl e) \<Rightarrow> ((d, w), Inl e)
      | (d, Inr _) \<Rightarrow>
          if length body > 1024 * 1024
          then ((d, w), Inr (XmlError ''EntityTooLarge'' ''Your proposed upload exceeds the maximum allowed size.'' (''/'' @ bucket) 400))
          else if contains_str ''<!ENTITY'' body \<or> contains_str ''<!DOCTYPE'' body
          then ((d, w), Inr (XmlError ''MalformedXML'' ''XML doctype/entity definitions are not allowed'' (''/'' @ bucket) 400))
          else (case keys body of
             None \<Rightarrow> ((d, w), Inr (XmlError ''MalformedXML'' ''The XML provided was not well-formed'' (''/'' @ bucket) 400))
           | Some ks \<Rightarrow>
               (case s3_delete_keys delete po backend bucket (map strip ks) d w of
                  (s, x) \<Rightarrow> (s, rbind x (\<lambda>_. Inr (Deleted (map strip ks)))))))"

end
