(* ===== verification/Serving.thy ===== *)
theory Serving
  imports Download
begin

text \<open>
  What the download route of \<^verbatim>\<open>src/src/anbar/api/download.py\<close> promises, put together: the bytes of
  a reply, an upload followed by a download, the Content-Disposition header, the download cap and
  the link that the unlock page hands out.
\<close>

section \<open>The bytes of a reply\<close>

lemma answer_serves:
  assumes p: "plain_source so" and r: "ready so i m ds st"
    and h: "holds (m_chunks m) ds" "m_total_size m = int (length (concat ds))" "concat ds \<noteq> []"
    and j: "o_manifest row = Some j" "from_json j = Inr m"
    and rg: "parse_range (map_of (rq_headers q) ''range'') (m_total_size m) = Inr rg"
    and etag: "header q ''if-none-match'' = []"
    and cnt: "count_download (cx_now cx) i (rg = None) d = (d', Inr ())"
  shows "\<exists>st' out. answer cx guess so tmp q False i row d st
      = ((d', st'), Inr (BodyReply (if rg \<noteq> None then 206 else 200)
           (response_headers guess q row (m_total_size m) rg (int (length (selected ds rg)))) out None))
    \<and> concat out = selected ds rg \<and> ready so i m ds st'"
proof -
  obtain len segs where pl: "range_plan m rg = Inr (len, segs)" "concat (map (read_piece ds) segs) = selected ds rg"
      "len = int (length (selected ds rg))" "\<forall>(idx, off, n) \<in> set segs. idx < length ds"
    using plan_exact [OF h rg] by blast
  have "case rg of None \<Rightarrow> True | Some (s, e) \<Rightarrow> 0 \<le> s \<and> s \<le> e \<and> e < m_total_size m"
    using rg h(2,3) range_bounds [of "map_of (rq_headers q) ''range''" "m_total_size m"] by (auto split: option.split)
  from serve_ready [OF p r h(2) pl(2,4) this pl(3), of "cx_now cx" tmp
      "get_int_setting d' ''cache_mb'' (s_cache_max_mb (cx_settings cx))"]
  obtain st' out where s: "serve_body so (cx_now cx) tmp (get_int_setting d' ''cache_mb'' (s_cache_max_mb (cx_settings cx))) i m rg len segs st
      = (st', out, None)" "concat out = selected ds rg" "ready so i m ds st'" by blast
  have "\<not> etag_matches e q" for e using etag by (simp add: etag_matches_def)
  then show ?thesis using j rg pl(1,3) cnt s unfolding answer_def by (simp add: Let_def)
qed

text \<open>C4: a download that is admitted and authenticated gives exactly the bytes its Range header asks for, with
  status 206 for a range and 200 otherwise and the length in the headers, whichever of the disk
  cache, the seek cache and the backends they come from; and it leaves the caches coherent.\<close>

theorem download_exact:
  assumes "plain_source so" and "ready so i m ds st"
    and "holds (m_chunks m) ds" and "m_total_size m = int (length (concat ds))" and "concat ds \<noteq> []"
    and "admit cx q i0 d0 = (d1, Inr (i, row))" and "unlock_page cx q i d1 = (d2, Inr None)"
    and "authenticate_download cx q i d2 = (d3, Inr ())"
    and "o_manifest row = Some j" and "from_json j = Inr m"
    and "parse_range (map_of (rq_headers q) ''range'') (m_total_size m) = Inr rg"
    and "header q ''if-none-match'' = []"
    and "count_download (cx_now cx) i (rg = None) d3 = (d4, Inr ())"
  shows "\<exists>st' out. download cx guess so tmp q False i0 d0 st
      = ((d4, st'), Inr (BodyReply (if rg \<noteq> None then 206 else 200)
           (response_headers guess q row (m_total_size m) rg (int (length (selected ds rg)))) out None))
    \<and> concat out = selected ds rg \<and> ready so i m ds st'"
  using answer_serves [OF assms(1-5,9-13)] assms(6-8) by (simp add: download_def)

section \<open>Upload, then download\<close>

definition uncached :: "string \<Rightarrow> ('b, 'w) store_state \<Rightarrow> bool" where
  "uncached i st =
     ((case ss_chunks st of None \<Rightarrow> True | Some c \<Rightarrow> i \<notin> (\<lambda>(k, _). fst k) ` set (mc_entries c))
      \<and> (case ss_disk st of None \<Rightarrow> True | Some c \<Rightarrow> i \<notin> fst ` set (dl_entries c)))"

lemma uncached_coherent: "uncached i st \<Longrightarrow> coherent i ds st"
  by (force simp: uncached_def coherent_def chunks_ok_def disk_ok_def split: option.splits)

lemma stored_chunks_held:
  assumes "list_all2 (fakes.stored_as (so_pool so) (so_backend so) w) (m_chunks m) ds"
  shows "held so m ds w \<and> holds (m_chunks m) ds"
proof
  have l: "length (m_chunks m) = length ds" using assms by (rule list_all2_lengthD)
  have s: "fakes.stored_as (so_pool so) (so_backend so) w (m_chunks m ! k) (ds ! k)" if "k < length ds" for k
    using list_all2_nthD2 [OF assms that] .
  have "blob w (chunk_at (so_pool so) (so_backend so) (m_chunks m ! k)) = Some (ds ! k)" if "k < length ds" for k
  proof -
    have "snd (fakes_open (pool_name (so_pool so) (holder_of (so_pool so) (so_backend so) (c_backend (m_chunks m ! k))))
        (mk_ref (c_file_id (m_chunks m ! k)) (c_message_id (m_chunks m ! k)) []) w) = Inr (ds ! k)"
      using s [OF that] by (simp add: fakes.stored_as_def)
    then show ?thesis by (simp add: fakes_open_blob chunk_at_def split: option.splits)
  qed
  then show "held so m ds w" using l by (simp add: held_def)
  show "holds (m_chunks m) ds" unfolding holds_def
    using l s by (intro nth_equalityI) (simp_all add: fakes.stored_as_def)
qed

text \<open>C3: what was uploaded is what a later download gives: the reply to any satisfiable Range header, or to none, is
  that part of the uploaded body.\<close>

theorem upload_download_roundtrip:
  fixes w :: "string \<Rightarrow> 'b fake"
  assumes "calm pieces" and "body = bytes_of pieces" and "body \<noteq> []"
    and "env_ok env" and "case max_bytes of None \<Rightarrow> True | Some n \<Rightarrow> length body \<le> n"
    and "\<forall>n. fake_ok (w n)" and "po = None \<or> (\<exists>n. po = Some (pool_init n))"
    and "find_obj d (new_object_id draws) = None"
    and so: "plain_source so" "so_pool so = po" "so_backend so = backend"
    and st: "uncached (new_object_id draws) st"
    and rg: "parse_range (map_of (rq_headers q) ''range'') (int (length body)) = Inr rg"
    and q: "header q ''if-none-match'' = []"
    and cnt: "count_download (cx_now cx) (new_object_id draws) (rg = None) e = (e', Inr ())"
  shows "\<exists>s1 s2 row st' out.
       store_stream fakes_store fakes_delete sha body_read env (body_reader_init pieces)
         (svc_init backend d fn ct upload_id 0 ''upres'' po max_bytes w) = Some (s1, Inr (sha body))
     \<and> commit now draws (sha body) key s1 = (s2, Inr (new_object_id draws))
     \<and> find_obj (sv_db s2) (new_object_id draws) = Some row
     \<and> answer cx guess so tmp q False (new_object_id draws) row e (st\<lparr>ss_world := sv_world s2\<rparr>)
       = ((e', st'), Inr (BodyReply (if rg \<noteq> None then 206 else 200)
            (response_headers guess q row (int (length body)) rg (int (length (selected [body] rg)))) out None))
     \<and> concat out = selected [body] rg"
proof -
  let ?id = "new_object_id draws" and ?ds = "chop (en_chunk_size env) body"
  from upload_commits [OF assms(1-8), where backend = backend and fn = fn and ct = ct and upload_id = upload_id
    and sha = sha and now = now and key = key]
  obtain s1 s2 :: "('b, string \<Rightarrow> 'b fake) svc" and row m where u:
    "store_stream fakes_store fakes_delete sha body_read env (body_reader_init pieces)
         (svc_init backend d fn ct upload_id 0 ''upres'' po max_bytes w) = Some (s1, Inr (sha body))"
    "commit now draws (sha body) key s1 = (s2, Inr ?id)" "find_obj (sv_db s2) ?id = Some row"
    "from_json (the (o_manifest row)) = Inr m" "m_total_size m = int (length body)" "o_manifest row \<noteq> None"
    "list_all2 (fakes.stored_as po backend (sv_world s2)) (m_chunks m) ?ds" by (elim exE conjE)
  have "0 < en_chunk_size env" using assms(4) by (simp add: env_ok_def)
  then have cat: "concat ?ds = body" by (rule concat_chop)
  obtain j where j: "o_manifest row = Some j" "from_json j = Inr m" using u(4,6) by auto
  have hd: "held so m ?ds (sv_world s2)" "holds (m_chunks m) ?ds" using stored_chunks_held u(7) so(2,3) by blast+
  have "ready so ?id m ?ds (st\<lparr>ss_world := sv_world s2\<rparr>)"
    using hd(1) uncached_coherent [of ?id "st\<lparr>ss_world := sv_world s2\<rparr>"] st by (simp add: ready_def uncached_def)
  moreover have "selected ?ds rg = selected [body] rg" using cat by (simp add: selected_def split: option.split)
  ultimately show ?thesis
    using answer_serves [OF so(1) _ hd(2) _ _ j _ q cnt, of "st\<lparr>ss_world := sv_world s2\<rparr>" guess tmp] rg u(1-3,5) cat assms(3) by auto
qed

section \<open>The Content-Disposition header\<close>

lemma pct_plain:
  assumes "c \<in> set (pct n)" and "n < 256"
  shows "code c < 128 \<and> 32 \<le> code c \<and> code c \<noteq> 34"
proof -
  have hex: "code (upper_hex k) = (if k < 10 then 48 + k else 55 + k)" if "k < 16" for k
    using that by (simp add: upper_hex_def code_def)
  have "n div 16 < 16" "n mod 16 < 16" using assms(2) by simp_all
  then show ?thesis using assms(1) by (auto simp: pct_def hex split: if_splits) (simp_all add: code_def)
qed

lemma quote_plain: "c \<in> set (quote s) \<Longrightarrow> code c < 128 \<and> 32 \<le> code c \<and> code c \<noteq> 34"
proof -
  assume "c \<in> set (quote s)"
  then obtain d where d: "c \<in> set (quote_char d)" by (auto simp: quote_def)
  have "code d < 256" by (rule code_less)
  then have "code d div 64 < 4" by (simp add: div_less_iff_less_mult)
  then have m: "192 + code d div 64 < 256" "128 + code d mod 64 < 256" by simp_all
  show ?thesis
  proof (cases "unreserved d")
    case True
    then have "c = d" using d by (simp add: quote_char_def)
    then show ?thesis using True by (auto simp: unreserved_def is_alnum_def is_digit_def code_def)
  next
    case False
    show ?thesis
    proof (cases "code d < 128")
      case True
      then show ?thesis using False d by (intro pct_plain [of _ "code d"]) (simp_all add: quote_char_def)
    next
      case False
      then have "c \<in> set (pct (192 + code d div 64)) \<or> c \<in> set (pct (128 + code d mod 64))"
        using d \<open>\<not> unreserved d\<close> by (simp add: quote_char_def)
      then show ?thesis using pct_plain m by blast
    qed
  qed
qed

text \<open>Also: whatever the file name, the Content-Disposition header is one line of ASCII with exactly the two quotes
  that delimit the file name: no name can inject a header or a parameter.\<close>

theorem disposition_safe:
  "count_list (disposition_value (disposition_kind q ct) fn) CHR 0x22 = 2
   \<and> list_all (\<lambda>c. code c < 128 \<and> c \<noteq> CHR 0x0D \<and> c \<noteq> CHR 0x0A) (disposition_value (disposition_kind q ct) fn)"
proof -
  define base where "base = last_piece (CHR ''/'') fn"
  define raw where "raw = (if base \<noteq> [] then base else if fn \<noteq> [] then fn else ''file'')"
  define asc where "asc = map (\<lambda>c. if code c \<ge> 128 then CHR ''?'' else if c \<in> {CHR 0x22, CHR 0x0D, CHR 0x0A} then CHR ''_'' else c) raw"
  have a: "CHR 0x22 \<notin> set asc" "\<forall>c \<in> set asc. code c < 128 \<and> c \<noteq> CHR 0x0D \<and> c \<noteq> CHR 0x0A"
    by (auto simp: asc_def code_def)
  have q: "CHR 0x22 \<notin> set (quote raw)" "\<forall>c \<in> set (quote raw). code c < 128 \<and> c \<noteq> CHR 0x0D \<and> c \<noteq> CHR 0x0A"
    using quote_plain [of "CHR 0x22" raw] quote_plain [of "CHR 0x0D" raw] quote_plain [of "CHR 0x0A" raw] quote_plain [of _ raw]
    by (auto simp: code_def)
  have v: "disposition_value k fn = (if quote raw = asc
      then k @ ''; filename='' @ [CHR 0x22] @ asc @ [CHR 0x22]
      else k @ ''; filename='' @ [CHR 0x22] @ asc @ [CHR 0x22] @ ''; filename*=UTF-8'' @ [CHR 0x27, CHR 0x27] @ quote raw)" for k
    unfolding disposition_value_def Let_def base_def [symmetric] raw_def [symmetric] asc_def [symmetric] using a(1) by simp
  define k where "k = disposition_kind q ct"
  let ?ok = "\<lambda>c. code c < 128 \<and> c \<noteq> CHR 0x0D \<and> c \<noteq> CHR 0x0A"
  have lit: "list_all ?ok ''inline''" "count_list ''inline'' CHR 0x22 = 0" "list_all ?ok ''attachment''" "count_list ''attachment'' CHR 0x22 = 0"
    by code_simp+
  have "k = ''inline'' \<or> k = ''attachment''" by (simp add: k_def disposition_kind_def Let_def)
  then have k: "list_all ?ok k" "count_list k CHR 0x22 = 0" by (elim disjE, simp_all only: lit)+
  have lits: "list_all ?ok ''; filename=''" "list_all ?ok ''; filename*=UTF-8''" "list_all ?ok [CHR 0x22]" "list_all ?ok [CHR 0x27, CHR 0x27]"
    "count_list ''; filename='' CHR 0x22 = 0" "count_list ''; filename*=UTF-8'' CHR 0x22 = 0" "count_list [CHR 0x27, CHR 0x27] CHR 0x22 = 0"
    "count_list [CHR 0x22] CHR 0x22 = 1"
    by code_simp+
  have z: "count_list asc CHR 0x22 = 0" "count_list (quote raw) CHR 0x22 = 0" using a(1) q(1) by (simp_all add: count_list_0_iff)
  have al: "list_all ?ok asc" "list_all ?ok (quote raw)" using a(2) q(2) by (simp_all add: list_all_iff)
  show ?thesis unfolding k_def [symmetric] v
    by (cases "quote raw = asc") (simp_all only: if_True if_False list_all_append count_list_append k z al lits simp_thms arith_simps)
qed


section \<open>The download cap\<close>

lemma kv_get_cache [simp]: "kv_get (bump_downloads i d) = kv_get d" "kv_get (link_bump_downloads now i d) = kv_get d"
  by (simp_all add: fun_eq_iff kv_get_def bump_downloads_def link_bump_downloads_def cache_put_def Let_def split: prod.split option.split)

lemma kv_get_bump_rows:
  "\<not> startswith k ''link:'' \<Longrightarrow> kv_get (bump_rows now i rows d) k = kv_get d k"
proof (induction now i rows d rule: bump_rows.induct)
  case (2 now i k' v rows d)
  have "k' \<noteq> k" if "startswith k' ''link:''" using that 2(7) by auto
  then show ?case using 2 by (auto simp: kv_simps split: option.split prod.split json.split sum.split)
qed simp

lemma kv_get_bump_links: "\<not> startswith k ''link:'' \<Longrightarrow> kv_get (bump_link_downloads now i d) k = kv_get d k"
  by (simp add: bump_link_downloads_def kv_get_bump_rows Let_def)

lemma count_cap_used_up:
  assumes "kv_get d (''maxdl:'' @ i) = Some (str_of_int mx)" and "kv_get d (''dlc:'' @ i) = Some (str_of_int n)" and "mx \<le> n"
  shows "count_cap i d = (kv_set (''dlc:'' @ i) (str_of_int (n + 1)) d, Inl (HTTPException 410 ''download limit reached for this link''))"
proof -
  have "''maxdl:'' @ i \<noteq> ''dlc:'' @ i" by simp
  then have "kv_get (kv_set (''dlc:'' @ i) (str_of_int (n + 1)) d) (''maxdl:'' @ i) = Some (str_of_int mx)"
    using assms(1) by (simp only: kv_simps if_False)
  then show ?thesis using assms str_of_int_nonempty unfolding count_cap_def by (simp add: truthy_str_def str_or_def Let_def)
qed

text \<open>Also: the download cap of a link counts whole downloads only: once the cap is used up a plain request is refused
  with 410, but a request with the range \<open>bytes=0-\<close> still gets every byte and counts nothing.\<close>

theorem range_request_ignores_cap:
  assumes "plain_source so" and "ready so i m ds st"
    and "holds (m_chunks m) ds" and "m_total_size m = int (length (concat ds))" and "concat ds \<noteq> []"
    and "o_manifest row = Some j" and "from_json j = Inr m"
    and "kv_get d (''maxdl:'' @ i) = Some (str_of_int mx)" and "kv_get d (''dlc:'' @ i) = Some (str_of_int n)" and "mx \<le> n"
    and "header q ''if-none-match'' = []" and "header q' ''if-none-match'' = []"
    and "map_of (rq_headers q) ''range'' = None" and "map_of (rq_headers q') ''range'' = Some (range_text (str_of_nat 0) [])"
  shows "(\<exists>d'. answer cx guess so tmp q False i row d st = ((d', st), Inl (HTTPException 410 ''download limit reached for this link'')))
     \<and> (\<exists>st' out hs. answer cx guess so tmp q' False i row d st = ((d, st'), Inr (BodyReply 206 hs out None)) \<and> concat out = concat ds)"
proof
  have "0 < m_total_size m" using assms(4,5) by simp
  have whole: "parse_range (map_of (rq_headers q) ''range'') (m_total_size m) = Inr None"
    using assms(13) by (simp add: parse_range_def truthy_str_def)
  obtain len segs where pl: "range_plan m None = Inr (len, segs)" using plan_exact [OF assms(3-5) whole] by blast
  have nl: "\<not> startswith (''maxdl:'' @ i) ''link:''" "\<not> startswith (''dlc:'' @ i) ''link:''" by (simp_all add: startswith_def)
  let ?d = "bump_link_downloads (cx_now cx) i (bump_downloads i d)"
  have "kv_get ?d (''maxdl:'' @ i) = Some (str_of_int mx)" "kv_get ?d (''dlc:'' @ i) = Some (str_of_int n)"
    using assms(8,9) by (simp_all only: kv_get_bump_links [OF nl(1)] kv_get_bump_links [OF nl(2)] kv_get_cache)
  from count_cap_used_up [OF this assms(10)]
  have "\<exists>d'. count_download (cx_now cx) i True d = (d', Inl (HTTPException 410 ''download limit reached for this link''))"
    by (simp add: count_download_def)
  moreover have "\<not> etag_matches e q" for e using assms(11) by (simp add: etag_matches_def)
  ultimately show "\<exists>d'. answer cx guess so tmp q False i row d st = ((d', st), Inl (HTTPException 410 ''download limit reached for this link''))"
    using assms(6,7) whole pl unfolding answer_def by auto
next
  let ?n = "m_total_size m"
  have rg: "parse_range (map_of (rq_headers q') ''range'') ?n = Inr (Some (0, ?n - 1))"
    using range_header_exact [of 0 0 ?n] assms(4,5,14) by simp
  have "count_download (cx_now cx) i (Some (0, ?n - 1) = None) d = (d, Inr ())" by (simp add: count_download_def)
  from answer_serves [OF assms(1-7) rg assms(12) this, of guess tmp]
  show "\<exists>st' out hs. answer cx guess so tmp q' False i row d st = ((d, st'), Inr (BodyReply 206 hs out None)) \<and> concat out = concat ds"
    using assms(4) by (simp add: selected_def) blast
qed

section \<open>The unlock page\<close>

text \<open>C40: a visitor who opens an expired or revoked link of a password-protected object in a browser, without the
  password, gets an unlock page with a fresh signature that is valid for an hour: the link check
  that refused the old link accepts the new one.\<close>

theorem unlock_renews_link:
  assumes mac: "mac_ok (cx_hmac cx)" and now: "0 \<le> cx_now cx" and v: "visitor r"
    and html: "contains_str ''text/html'' (header r ''accept'')"
    and pw: "kv_get d (''pw:'' @ i) = Some tag" "tag \<noteq> []"
    and bad: "compare_digest (pw_tag cx s i (str_or (query r ''pw'') [])) tag = Inr False"
    and sec: "secret_of cx d = Some s" "s \<noteq> []"
    and old: "query r ''exp'' = Some (str_of_int e)" "query r ''sig'' = Some (sign (cx_hmac cx) i e s)" "e \<noteq> 0"
    and dead: "is_revoked d i e \<or> e \<le> cx_now cx"
    and r': "query r' ''exp'' = Some (str_of_int (cx_now cx + 3600))" "query r' ''sig'' = Some (sign (cx_hmac cx) i (cx_now cx + 3600) s)"
    and new: "\<not> is_revoked d i (cx_now cx + 3600)"
  shows "(\<exists>x. check_link cx r i d = Inl x)
     \<and> unlock_page cx r i d = (d, Inr (Some (sign (cx_hmac cx) i (cx_now cx + 3600) s, cx_now cx + 3600, str_or (query r ''pw'') [] \<noteq> [])))
     \<and> check_link cx r' i d = Inr ()"
proof -
  have ne: "sign (cx_hmac cx) j f t \<noteq> []" for j f t using mac by (simp add: sign_def mac_ok_def)
  have own: "verify_sig (cx_hmac cx) i f (sign (cx_hmac cx) i f s) s = Inr True" if "f \<noteq> 0" for f using verify_own [OF mac that] .
  have 1: "\<exists>x. check_link cx r i d = Inl x"
    using old sec dead own [OF old(3)] ne str_of_int_nonempty by (auto simp: check_link_def truthy_str_def)
  have 3: "check_link cx r' i d = Inr ()"
    using r' sec new own [of "cx_now cx + 3600"] now ne str_of_int_nonempty by (simp add: check_link_def truthy_str_def)
  have stale: "\<not> (True \<and> e > cx_now cx \<and> \<not> is_revoked d i e)" using dead by auto
  have given: "truthy_str (query r ''sig'')" "truthy_str (query r ''exp'')" "truthy_str (secret_of cx d)" "truthy_str (kv_get d (''pw:'' @ i))"
    using old sec pw ne str_of_int_nonempty by (simp_all add: truthy_str_def)
  have "unlock_page cx r i d = (d, Inr (Some (sign (cx_hmac cx) i (cx_now cx + 3600) s, cx_now cx + 3600, str_or (query r ''pw'') [] \<noteq> [])))"
    unfolding unlock_page_def using html visitor_role [OF v, of cx d] pw(1) sec bad given old(1,2) own [OF old(3)] stale
    by (auto simp: str_or_def Let_def)
  with 1 3 show ?thesis by blast
qed


section \<open>Witnesses\<close>

definition demo_open :: ctx where
  "demo_open = demo_cx\<lparr>cx_settings := default_settings\<lparr>s_auth_enabled := False\<rparr>\<rparr>"

definition demo_manifest :: manifest where
  "demo_manifest = \<lparr>m_chunks = [\<lparr>c_index = 0, c_size = 2, c_file_id = ''fake-0'', c_message_id = None,
     c_bot_file_id = None, c_backend = None\<rparr>], m_total_size = 2\<rparr>"

definition demo_source :: "(nat, string \<Rightarrow> nat fake) source" where
  "demo_source = \<lparr>so_fetch = fakes_open, so_cdn = None, so_hybrid = False, so_pool = None, so_backend = Outside ''fake''\<rparr>"

definition demo_state :: "(nat, string \<Rightarrow> nat fake) store_state" where
  "demo_state = \<lparr>ss_world = (\<lambda>_. fst (fake_store [7, 8] [] None fake_init)), ss_disk = None, ss_files = (\<lambda>_. []), ss_chunks = None\<rparr>"

definition range_request :: "string \<Rightarrow> request" where
  "range_request v = \<lparr>rq_peer = None, rq_headers = [(''range'', v)], rq_query = []\<rparr>"

lemma demo_held: "plain_source demo_source" "ready demo_source i demo_manifest [[7, 8]] demo_state"
    "holds (m_chunks demo_manifest) [[7, 8 :: nat]]" "m_total_size demo_manifest = int (length (concat [[7, 8 :: nat]]))"
  by (simp_all add: plain_source_def demo_source_def ready_def held_def demo_state_def demo_manifest_def coherent_def chunks_ok_def disk_ok_def
      chunk_at_def pool_name_def holder_of_def blob_def fake_store_def fake_init_def fake_id_def truthy_str_def str_of_nat_0 Let_def holds_def)

lemma demo_row: "o_manifest demo_purged = Some (to_json demo_manifest)" "from_json (to_json demo_manifest) = Inr demo_manifest"
  by (simp_all add: demo_purged_def demo_manifest_def from_json_to_json norm_chunk_def truthy_str_def)

lemma demo_get: "get_object ''x'' False demo_store = (Some demo_purged, cache_put ''x'' demo_purged demo_store)"
  by (simp add: get_object_def demo_store_def demo_purged_def lru_get_def db_empty_def find_obj_def Let_def)

lemma demo_get_again: "get_object ''x'' False (cache_put ''x'' demo_purged demo_store) = (Some demo_purged, cache_put ''x'' demo_purged demo_store)"
  by code_simp

lemma demo_kv: "kv_get (cache_put ''x'' demo_purged demo_store) k = None"
  by (simp add: cache_put_def kv_get_def demo_store_def db_empty_def)

theorem download_exact_witness:
  "\<exists>d4 st' hs out. download demo_open (\<lambda>_. None) demo_source ''t'' (range_request (range_text (str_of_nat 1) (str_of_nat 9))) False ''x'' demo_store demo_state
     = ((d4, st'), Inr (BodyReply 206 hs out None)) \<and> concat out = [8]"
proof -
  let ?q = "range_request (range_text (str_of_nat 1) (str_of_nat 9))"
  let ?d = "cache_put ''x'' demo_purged demo_store"
  have hd: "header ?q ''range'' \<noteq> []" "header ?q ''accept'' = []" "header ?q ''if-none-match'' = []"
    by (simp_all add: range_request_def header_def range_text_def)
  have vis: "visitor ?q" 
    by (simp add: visitor_def range_request_def presented_key_def header_def startswith_def lower_def Let_def lstrip_by_def rstrip_by_def strip_by_def)
  have adm: "admit demo_open ?q ''x'' demo_store = (?d, Inr (''x'', demo_purged))"
    using hd(1) demo_get demo_get_again by (simp add: admit_def resolve_slug_def)
  have ul: "unlock_page demo_open ?q ''x'' ?d = (?d, Inr None)"
    unfolding unlock_page_def hd(2) by simp
  have pw: "check_password demo_open ?q ''x'' ?d = Inr ()" by (simp add: check_password_def demo_kv truthy_str_def)
  have au: "authenticate_download demo_open ?q ''x'' ?d = (?d, Inr ())"
    using visitor_role [OF vis] pw
    by (simp add: authenticate_download_def auth_on_def effective_auth_enabled_def demo_kv demo_open_def default_settings_def)
  have "map_of (rq_headers ?q) ''range'' = Some (range_text (str_of_nat 1) (str_of_nat 9))" by (simp add: range_request_def)
  then have rg: "parse_range (map_of (rq_headers ?q) ''range'') (m_total_size demo_manifest) = Inr (Some (1, 1))"
    using range_header_exact [of 1 9 2] by (simp add: demo_manifest_def)
  have cnt: "count_download (cx_now demo_open) ''x'' (Some (1 :: int, 1 :: int) = None) ?d = (?d, Inr ())" by (simp add: count_download_def)
  have ne: "concat [[7, 8 :: nat]] \<noteq> []" by simp
  show ?thesis
    using download_exact [OF demo_held(1,2,3,4) ne adm ul au demo_row rg hd(3) cnt, of "\<lambda>_. None" "''t''"]
    by (auto simp: selected_def)
qed

theorem upload_download_roundtrip_witness:
  "\<exists>s1 s2 row st' hs out.
       store_stream fakes_store fakes_delete (\<lambda>_. ''h'') body_read (demo_env 2) (body_reader_init [Piece [1, 2, 3], Piece [4 :: nat]])
         (svc_init (Member 0) db_empty ''f'' None None 0 ''upres'' (Some (pool_init 3)) (Some 9) (\<lambda>_. fake_init)) = Some (s1, Inr ''h'')
     \<and> commit 5 [] ''h'' None s1 = (s2, Inr (new_object_id []))
     \<and> find_obj (sv_db s2) (new_object_id []) = Some row
     \<and> answer demo_open (\<lambda>_. None) (demo_source\<lparr>so_pool := Some (pool_init 3), so_backend := Member 0\<rparr>) ''t''
         (range_request (range_text (str_of_nat 1) (str_of_nat 2))) False (new_object_id []) row db_empty (demo_state\<lparr>ss_world := sv_world s2\<rparr>)
       = ((db_empty, st'), Inr (BodyReply 206 hs out None))
     \<and> concat out = [2, 3]"
proof -
  let ?q = "range_request (range_text (str_of_nat 1) (str_of_nat 2))"
  let ?so = "demo_source\<lparr>so_pool := Some (pool_init 3), so_backend := Member 0\<rparr>"
  have c: "calm [Piece [1, 2, 3], Piece [4 :: nat]]" "[1, 2, 3, 4] = bytes_of [Piece [1, 2, 3], Piece [4 :: nat]]" "[1, 2, 3, 4 :: nat] \<noteq> []"
    by simp_all
  have mx: "case Some 9 of None \<Rightarrow> True | Some n \<Rightarrow> length [1, 2, 3, 4 :: nat] \<le> n" by simp
  have w: "\<forall>n. fake_ok ((\<lambda>_. fake_init :: nat fake) (n :: string))" by (simp add: fake_ok_def fake_init_def)
  have po: "Some (pool_init 3) = None \<or> (\<exists>n. Some (pool_init 3) = Some (pool_init n))" by blast
  have f: "find_obj db_empty (new_object_id []) = None" by (simp add: find_obj_def db_empty_def)
  have so: "plain_source ?so" "so_pool ?so = Some (pool_init 3)" "so_backend ?so = Member 0" by (simp_all add: plain_source_def demo_source_def)
  have st: "uncached (new_object_id []) demo_state" by (simp add: uncached_def demo_state_def)
  have hq: "header ?q ''if-none-match'' = []" by (simp add: range_request_def header_def)
  have "map_of (rq_headers ?q) ''range'' = Some (range_text (str_of_nat 1) (str_of_nat 2))" by (simp add: range_request_def)
  then have rg: "parse_range (map_of (rq_headers ?q) ''range'') (int (length [1, 2, 3, 4 :: nat])) = Inr (Some (1, 2))"
    using range_header_exact [of 1 2 4] by simp
  have cnt: "count_download (cx_now demo_open) (new_object_id []) (Some (1 :: int, 2 :: int) = None) db_empty = (db_empty, Inr ())"
    by (simp add: count_download_def)
  have sel: "selected [[1, 2, 3, 4 :: nat]] (Some (1, 2)) = [2, 3]" by (simp add: selected_def)
  have ra: "(if Some (1 :: int, 2 :: int) \<noteq> None then 206 else 200 :: int) = 206" by simp
  have e: "0 < (2 :: nat)" by simp
  from upload_download_roundtrip [OF c demo_env_ok [OF e] mx w po f so st rg hq cnt, where sha = "\<lambda>_. ''h''" and fn = "''f''" and ct = None
      and upload_id = None and now = 5 and key = None and guess = "\<lambda>_. None" and tmp = "''t''"]
  show ?thesis unfolding sel ra by (elim exE conjE) (intro exI conjI; assumption)
qed

definition demo_capped :: db where
  "demo_capped = kv_set (''maxdl:'' @ ''x'') (str_of_int 1) (kv_set (''dlc:'' @ ''x'') (str_of_int 1) demo_store)"

theorem range_request_ignores_cap_witness:
  "(\<exists>d'. answer demo_open (\<lambda>_. None) demo_source ''t'' demo_request False ''x'' demo_purged demo_capped demo_state
       = ((d', demo_state), Inl (HTTPException 410 ''download limit reached for this link'')))
   \<and> (\<exists>st' out hs. answer demo_open (\<lambda>_. None) demo_source ''t'' (range_request (range_text (str_of_nat 0) [])) False ''x'' demo_purged demo_capped demo_state
       = ((demo_capped, st'), Inr (BodyReply 206 hs out None)) \<and> concat out = [7, 8])"
proof -
  have kv: "kv_get demo_capped (''maxdl:'' @ ''x'') = Some (str_of_int 1)" "kv_get demo_capped (''dlc:'' @ ''x'') = Some (str_of_int 1)"
    by (simp_all add: demo_capped_def kv_simps)
  have q: "header demo_request ''if-none-match'' = []" "map_of (rq_headers demo_request) ''range'' = None"
    by (simp_all add: demo_request_def header_def)
  let ?q = "range_request (range_text (str_of_nat 0) [])"
  have q': "header ?q ''if-none-match'' = []" "map_of (rq_headers ?q) ''range'' = Some (range_text (str_of_nat 0) [])"
    by (simp_all add: range_request_def header_def)
  have ne: "concat [[7, 8 :: nat]] \<noteq> []" and le: "(1 :: int) \<le> 1" and cc: "concat [[7, 8 :: nat]] = [7, 8]" by simp_all
  show ?thesis
    using range_request_ignores_cap [OF demo_held(1,2,3,4) ne demo_row kv le q(1) q'(1) q(2) q'(2), of demo_open "\<lambda>_. None" "''t''"]
    unfolding cc .
qed

definition browse :: "string \<Rightarrow> int \<Rightarrow> request" where
  "browse sig e = \<lparr>rq_peer = None, rq_headers = [(''accept'', ''text/html'')], rq_query = [(''sig'', sig), (''exp'', str_of_int e)]\<rparr>"

theorem unlock_renews_link_witness:
  "(\<exists>x. check_link demo_cx (browse (sign toy_mac ''x'' 5 ''s'') 5) ''x'' (kv_set (''pw:'' @ ''x'') ''p'' demo_store) = Inl x)
   \<and> unlock_page demo_cx (browse (sign toy_mac ''x'' 5 ''s'') 5) ''x'' (kv_set (''pw:'' @ ''x'') ''p'' demo_store)
     = (kv_set (''pw:'' @ ''x'') ''p'' demo_store, Inr (Some (sign toy_mac ''x'' 3610 ''s'', 3610, False)))
   \<and> check_link demo_cx (browse (sign toy_mac ''x'' 3610 ''s'') 3610) ''x'' (kv_set (''pw:'' @ ''x'') ''p'' demo_store) = Inr ()"
proof -
  let ?d = "kv_set (''pw:'' @ ''x'') ''p'' demo_store"
  have kv: "kv_get ?d k = (if k = ''pw:'' @ ''x'' then Some ''p'' else None)" for k
    by (auto simp: kv_simps) (simp add: kv_get_def demo_store_def db_empty_def)
  have q: "query (browse g e) ''exp'' = Some (str_of_int e)" "query (browse g e) ''sig'' = Some g" "query (browse g e) ''pw'' = None" for g e
    by (simp_all add: query_def browse_def)
  have vis: "visitor (browse g e)" for g e
    by (simp add: visitor_def browse_def presented_key_def header_def startswith_def lower_def Let_def lstrip_by_def rstrip_by_def strip_by_def)
  have cx: "cx_hmac demo_cx = toy_mac" "cx_now demo_cx = 10" by (simp_all add: demo_cx_def)
  have n: "(10 :: int) + 3600 = 3610" by simp
  let ?r = "browse (sign toy_mac ''x'' 5 ''s'') 5" and ?r' = "browse (sign toy_mac ''x'' 3610 ''s'') 3610"
  have html: "contains_str ''text/html'' (header ?r ''accept'')" by (simp add: browse_def header_def)
  have tag: "take 32 (toy_mac ''s'' ''pw:x:'') \<noteq> ''p''" by code_simp
  have bad: "compare_digest (pw_tag demo_cx ''s'' ''x'' (str_or (query ?r ''pw'') [])) ''p'' = Inr False"
  proof -
    have "compare_digest (take 32 (toy_mac ''s'' ''pw:x:'')) ''p'' = Inr False" by code_simp
    then show ?thesis by (simp add: pw_tag_def q cx str_or_def)
  qed
  have "kv_get ?d ''hmac_secret'' = None" unfolding kv by simp
  then have sec: "secret_of demo_cx ?d = Some ''s''" unfolding secret_of_def effective_hmac_secret_def by (simp add: demo_cx_def truthy_str_def)
  have rev: "\<not> is_revoked ?d ''x'' 3610"
    by (simp add: is_revoked_def link_is_revoked_def link_get_def kv_simps demo_store_def db_empty_def)
     (simp add: rev_key_def kv_get_def)
  have sig: "query ?r ''sig'' = Some (sign (cx_hmac demo_cx) ''x'' 5 ''s'')"
    "query ?r' ''exp'' = Some (str_of_int (cx_now demo_cx + 3600))" "query ?r' ''sig'' = Some (sign (cx_hmac demo_cx) ''x'' (cx_now demo_cx + 3600) ''s'')"
    "\<not> is_revoked ?d ''x'' (cx_now demo_cx + 3600)"
    using rev by (simp_all add: q cx)
  have h: "mac_ok (cx_hmac demo_cx)" "0 \<le> cx_now demo_cx" "kv_get ?d (''pw:'' @ ''x'') = Some ''p''" "''p'' \<noteq> []" "''s'' \<noteq> []"
    "(5 :: int) \<noteq> 0" "is_revoked ?d ''x'' 5 \<or> 5 \<le> cx_now demo_cx"
    by (simp_all add: cx toy_mac_ok kv_simps)
  show ?thesis
    using unlock_renews_link [OF h(1,2) vis html h(3,4) bad sec h(5) q(1) sig(1) h(6,7) sig(2,3,4)]
    by (simp add: cx q str_or_def)
qed

end
