(* ===== verification/UploadApi.thy ===== *)
theory UploadApi
  imports Access Readers
begin

text \<open>
  The upload routes of \<^verbatim>\<open>src/src/anbar/api/upload.py\<close>: \<^verbatim>\<open>POST /upload\<close>, \<^verbatim>\<open>POST /upload/raw\<close>, the
  status of a resumable upload and the segment reader of the background subtitle importer. The
  guess of \<^verbatim>\<open>mimetypes\<close> and the presence of ffmpeg are arguments; the background tasks a route
  spawns are part of its reply.
\<close>

section \<open>What a request says\<close>

(* src: src/src/anbar/api/upload.py auto _uploader_key *)
definition uploader_key :: "request \<Rightarrow> string option" where
  "uploader_key r =
     (let auth = header r ''authorization'' in if startswith (lower auth) ''bearer '' then Some (drop 7 auth) else None)"

(* src: src/src/anbar/api/upload.py auto _rate_upload *)
definition rate_upload :: "ctx \<Rightarrow> db \<Rightarrow> int" where
  "rate_upload cx d = get_int_setting d ''rate_upload'' (s_rate_upload_per_min (cx_settings cx))"

(* src: src/src/anbar/api/upload.py auto _max_upload_bytes *)
definition max_upload :: "ctx \<Rightarrow> db \<Rightarrow> int" where
  "max_upload cx d = get_int_setting d ''max_upload_mb'' (s_max_upload_mb (cx_settings cx)) * 1024 * 1024"

(* src: src/src/anbar/api/upload.py auto _resolve_upload_content_type *)
definition resolve_content_type :: "(string \<Rightarrow> string option) \<Rightarrow> string \<Rightarrow> string option \<Rightarrow> string" where
  "resolve_content_type guess filename content_type =
     (let ct = strip (str_or content_type []); fn = lower filename in
      if endswith fn ''.mkv'' \<or> ct \<in> {''video/matroska'', ''application/x-matroska''} then ''video/x-matroska''
      else if endswith fn ''.mka'' \<or> ct = ''audio/matroska'' then ''audio/x-matroska''
      else if (ct = [] \<or> ct = ''application/octet-stream'') \<and> truthy_str (guess filename) then the (guess filename)
      else if ct = [] then ''application/octet-stream'' else ct)"

text \<open>A header with an integer, \<^verbatim>\<open>int(request.headers.get(name, "0") or 0)\<close>.\<close>

definition int_header :: "request \<Rightarrow> string \<Rightarrow> int option" where
  "int_header r k = (if header r k = [] then Some 0 else py_int (header r k))"

(* src: src/src/anbar/api/upload.py 297-303 upload_raw *)
definition resume_headers :: "request \<Rightarrow> (string option \<times> nat) res" where
  "resume_headers r =
     (let u = strip (header r ''x-upload-id'') in
      if u = [] then Inr (None, 0)
      else (case int_header r ''x-resume-from'' of
         None \<Rightarrow> Inl (HTTPException 400 ''X-Resume-From must be an integer'')
       | Some n \<Rightarrow> Inr (Some u, nat (max 0 n))))"

section \<open>Storing and committing\<close>

(* src: src/src/anbar/api/upload.py 146-156 _store_stream *)
definition store_error :: "exc \<Rightarrow> exc" where
  "store_error e =
     (case e of
        UploadCeilingExceeded \<Rightarrow> HTTPException 413 ''object exceeds configured ceiling''
      | ResumeOutOfRange \<Rightarrow> HTTPException 409 ''resume out of range''
      | BodyReadTimeout \<Rightarrow> HTTPException 408 ''client stalled''
      | _ \<Rightarrow> HTTPException (describe_storage_error e) ''storage error'')"

text \<open>The environment of the service, with the secret and the chunk size of the settings.\<close>

definition service_env :: "ctx \<Rightarrow> env \<Rightarrow> env" where
  "service_env cx env = env\<lparr>en_hmac_secret := s_hmac_secret (cx_settings cx), en_chunk_size := nat (chunk_size (cx_settings cx))\<rparr>"

(* src: src/src/anbar/api/upload.py auto _service_for *)
definition service_for :: "ctx \<Rightarrow> pool option \<Rightarrow> handle \<Rightarrow> string \<Rightarrow> string option \<Rightarrow> string option \<Rightarrow> nat \<Rightarrow> db \<Rightarrow> 'w \<Rightarrow> ('b, 'w) svc" where
  "service_for cx po backend filename content_type upload_id resume_from d w =
     svc_init backend d filename content_type upload_id resume_from ''upres'' po (Some (nat (max_upload cx d))) w"

text \<open>\<open>None\<close>: the stream never ends.\<close>

(* src: src/src/anbar/api/upload.py auto _store_stream *)
definition store_upload :: "ctx \<Rightarrow> (string \<Rightarrow> 'b list \<Rightarrow> string \<Rightarrow> string option \<Rightarrow> 'w \<Rightarrow> 'w \<times> object_ref res)
    \<Rightarrow> (string \<Rightarrow> object_ref \<Rightarrow> 'w \<Rightarrow> 'w \<times> bool res) \<Rightarrow> ('b list \<Rightarrow> string) \<Rightarrow> ('s \<Rightarrow> nat \<Rightarrow> ('b list \<times> 's) res) \<Rightarrow> env \<Rightarrow> pool option \<Rightarrow> handle
    \<Rightarrow> 's \<Rightarrow> string \<Rightarrow> string option \<Rightarrow> string option \<Rightarrow> nat \<Rightarrow> db \<Rightarrow> 'w \<Rightarrow> (('b, 'w) svc \<times> string res) option" where
  "store_upload cx store delete sha read env po backend stream filename content_type upload_id resume_from d w =
     (case store_stream store delete sha read (service_env cx env) stream
             (service_for cx po backend filename content_type upload_id resume_from d w) of
        None \<Rightarrow> None
      | Some (s, Inl e) \<Rightarrow> Some (s, Inl (store_error e))
      | Some (s, Inr h) \<Rightarrow> Some (s, Inr h))"

datatype background = MakeThumb string | ImportSubs string

(* src: src/src/anbar/thumbs.py 51-51 SUPPORTED *)
definition SUPPORTED :: "string list" where
  "SUPPORTED = [''image/jpeg'', ''image/png'', ''image/webp'', ''image/gif'', ''image/bmp'', ''image/tiff'',
     ''video/mp4'', ''video/x-matroska'', ''video/webm'', ''video/quicktime'']"

(* src: src/src/anbar/thumbs.py auto SUPPORTED_OK *)
definition SUPPORTED_OK :: "string option \<Rightarrow> bool" where
  "SUPPORTED_OK ct = (lower (str_or ct []) \<in> set SUPPORTED)"

(* src: src/src/anbar/subs_extract.py auto video_ext *)
definition video_ext :: "string \<Rightarrow> bool" where
  "video_ext filename =
     (lower (last_piece (CHR ''.'') filename) \<in> {''mp4'', ''webm'', ''mkv'', ''mov'', ''avi'', ''m4v'', ''ogv'', ''ts''})"

record upload_reply =
  up_id :: string
  up_url :: string
  up_size :: int
  up_sha256 :: string
  up_chunks :: nat
  up_tasks :: "background list"

text \<open>The branch of a service that produced the manifest itself, which is the one the routes take.\<close>

(* src: src/src/anbar/api/upload.py auto _commit *)
definition commit_upload :: "ctx \<Rightarrow> bool \<Rightarrow> nat list \<Rightarrow> request \<Rightarrow> string \<Rightarrow> string \<Rightarrow> string \<Rightarrow> ('b, 'w) svc \<Rightarrow> ('b, 'w) svc \<times> upload_reply res" where
  "commit_upload cx ffmpeg draws r sha_hex filename content_type s =
     (case commit (cx_now cx) draws sha_hex (uploader_key r) s of
        (s, Inl e) \<Rightarrow> (s, Inl e)
      | (s, Inr obj_id) \<Rightarrow>
          let s = drop_checkpoint s;
              (d, _) = log_audit (cx_now cx) ''file.upload'' ''admin'' (Some filename) None
                (DJson (JObj [(''size'', JInt (sv_total_size s)), (''id'', JStr obj_id)])) (sv_db s);
              s = s\<lparr>sv_db := d\<rparr>;
              base = rstrip_by (\<lambda>c. c = CHR ''/'') (s_base_url (cx_settings cx))
          in (s, Inr \<lparr>up_id = obj_id, up_url = base @ ''/f/'' @ obj_id, up_size = sv_total_size s, up_sha256 = sha_hex,
                up_chunks = length (sv_chunks s),
                up_tasks = (if sv_first_chunk s \<noteq> [] \<and> SUPPORTED_OK (Some content_type) then [MakeThumb obj_id] else [])
                  @ (if ffmpeg \<and> video_ext filename \<and> get_int_setting d ''subs_extract_enabled'' 1 \<noteq> 0 then [ImportSubs obj_id] else [])\<rparr>))"

section \<open>The routes\<close>

text \<open>What both routes do once the request is admitted: headers, store and commit.\<close>

(* src: src/src/anbar/api/upload.py 297-313 upload_raw *)
definition store_and_commit :: "ctx \<Rightarrow> (string \<Rightarrow> 'b list \<Rightarrow> string \<Rightarrow> string option \<Rightarrow> 'w \<Rightarrow> 'w \<times> object_ref res)
    \<Rightarrow> (string \<Rightarrow> object_ref \<Rightarrow> 'w \<Rightarrow> 'w \<times> bool res) \<Rightarrow> ('b list \<Rightarrow> string) \<Rightarrow> ('s \<Rightarrow> nat \<Rightarrow> ('b list \<times> 's) res) \<Rightarrow> env \<Rightarrow> pool option \<Rightarrow> handle
    \<Rightarrow> bool \<Rightarrow> nat list \<Rightarrow> request \<Rightarrow> 's \<Rightarrow> string \<Rightarrow> string \<Rightarrow> db \<Rightarrow> 'w \<Rightarrow> ((db \<times> 'w) \<times> upload_reply res) option" where
  "store_and_commit cx store delete sha read env po backend ffmpeg draws r stream filename content_type d w =
     (case resume_headers r of
        Inl e \<Rightarrow> Some ((d, w), Inl e)
      | Inr (upload_id, resume_from) \<Rightarrow>
          (case store_upload cx store delete sha read env po backend stream filename (Some content_type) upload_id resume_from d w of
             None \<Rightarrow> None
           | Some (s, Inl e) \<Rightarrow> Some ((sv_db s, sv_world s), Inl e)
           | Some (s, Inr sha_hex) \<Rightarrow>
               (case commit_upload cx ffmpeg draws r sha_hex filename content_type s of
                  (s, x) \<Rightarrow> Some ((sv_db s, sv_world s), x))))"

(* src: src/src/anbar/api/upload.py 249-250 upload_multipart *)
definition admit_upload :: "ctx \<Rightarrow> request \<Rightarrow> db \<Rightarrow> db \<times> unit res" where
  "admit_upload cx r d =
     (case require_uploader (cx_sha256 cx) (cx_hmac cx) (cx_now cx) (cx_tok cx) (cx_settings cx) r d of
        (Inl e, d) \<Rightarrow> (d, Inl e)
      | (Inr _, d) \<Rightarrow> limit_upload (cx_sha256 cx) (cx_now cx) r (rate_upload cx d) d)"

(* src: src/src/anbar/api/upload.py auto upload_raw *)
definition upload_raw :: "ctx \<Rightarrow> (string \<Rightarrow> string option) \<Rightarrow> (string \<Rightarrow> 'b list \<Rightarrow> string \<Rightarrow> string option \<Rightarrow> 'w \<Rightarrow> 'w \<times> object_ref res)
    \<Rightarrow> (string \<Rightarrow> object_ref \<Rightarrow> 'w \<Rightarrow> 'w \<times> bool res) \<Rightarrow> ('b list \<Rightarrow> string) \<Rightarrow> env \<Rightarrow> pool option \<Rightarrow> handle
    \<Rightarrow> bool \<Rightarrow> nat list \<Rightarrow> request \<Rightarrow> 'b arrival list \<Rightarrow> db \<Rightarrow> 'w \<Rightarrow> ((db \<times> 'w) \<times> upload_reply res) option" where
  "upload_raw cx guess store delete sha env po backend ffmpeg draws r body d w =
     (case admit_upload cx r d of
        (d, Inl e) \<Rightarrow> Some ((d, w), Inl e)
      | (d, Inr _) \<Rightarrow>
          let filename = (case map_of (rq_headers r) ''x-file-name'' of None \<Rightarrow> ''upload.bin'' | Some f \<Rightarrow> f);
              content_type = resolve_content_type guess filename
                (case map_of (rq_headers r) ''content-type'' of None \<Rightarrow> Some ''application/octet-stream'' | Some c \<Rightarrow> Some c)
          in (case int_header r ''content-length'' of
                None \<Rightarrow> Some ((d, w), Inl (ValueError ''int''))
              | Some declared \<Rightarrow>
                  if declared \<noteq> 0 \<and> declared > max_upload cx d
                  then Some ((d, w), Inl (HTTPException 413 ''object exceeds configured ceiling''))
                  else store_and_commit cx store delete sha body_read env po backend ffmpeg draws r (body_reader_init body)
                         filename content_type d w))"

record 'b upload_file =
  uf_name :: "string option"
  uf_type :: "string option"
  uf_size :: "int option"
  uf_data :: "'b list"

(* src: src/src/anbar/api/upload.py auto _peek_size *)
definition peek_size :: "'b upload_file \<Rightarrow> int" where
  "peek_size f = (case uf_size f of Some n \<Rightarrow> if n \<ge> 0 then n else - 1 | None \<Rightarrow> - 1)"

(* src: src/src/anbar/api/upload.py auto upload_multipart *)
definition upload_multipart :: "ctx \<Rightarrow> (string \<Rightarrow> string option) \<Rightarrow> (string \<Rightarrow> 'b list \<Rightarrow> string \<Rightarrow> string option \<Rightarrow> 'w \<Rightarrow> 'w \<times> object_ref res)
    \<Rightarrow> (string \<Rightarrow> object_ref \<Rightarrow> 'w \<Rightarrow> 'w \<times> bool res) \<Rightarrow> ('b list \<Rightarrow> string) \<Rightarrow> env \<Rightarrow> pool option \<Rightarrow> handle
    \<Rightarrow> bool \<Rightarrow> nat list \<Rightarrow> request \<Rightarrow> 'b upload_file \<Rightarrow> db \<Rightarrow> 'w \<Rightarrow> ((db \<times> 'w) \<times> upload_reply res) option" where
  "upload_multipart cx guess store delete sha env po backend ffmpeg draws r f d w =
     (case admit_upload cx r d of
        (d, Inl e) \<Rightarrow> Some ((d, w), Inl e)
      | (d, Inr _) \<Rightarrow>
          let filename = str_or (uf_name f) ''upload.bin'';
              content_type = resolve_content_type guess filename (uf_type f)
          in if peek_size f > max_upload cx d
             then Some ((d, w), Inl (HTTPException 413 ''object exceeds configured ceiling''))
             else store_and_commit cx store delete sha file_read env po backend ffmpeg draws r (uf_data f)
                    filename content_type d w)"

section \<open>The status of a resumable upload\<close>

record resume_status =
  rs_upload_id :: string
  rs_exists :: bool
  rs_chunks_done :: nat
  rs_bytes_done :: int
  rs_timestamp :: json

(* src: src/src/anbar/api/upload.py 325-332 get_upload_resume_status *)
definition no_checkpoint :: "string \<Rightarrow> resume_status" where
  "no_checkpoint i = \<lparr>rs_upload_id = i, rs_exists = False, rs_chunks_done = 0, rs_bytes_done = 0, rs_timestamp = JNull\<rparr>"

text \<open>What Python iterates over in the value of \<^verbatim>\<open>chunks\<close>; \<open>None\<close> stands for an exception.\<close>

fun iterated :: "json \<Rightarrow> json list option" where
  "iterated (JList l) = Some l"
| "iterated (JObj kvs) = Some (map (JStr \<circ> fst) kvs)"
| "iterated (JStr s) = Some (map (\<lambda>c. JStr [c]) s)"
| "iterated _ = None"

(* src: src/src/anbar/api/upload.py 344-344 get_upload_resume_status *)
fun bytes_done :: "json list \<Rightarrow> int option" where
  "bytes_done [] = Some 0"
| "bytes_done (JObj kvs # cs) =
     (case map_of kvs ''s'' of
        None \<Rightarrow> bytes_done cs
      | Some (JInt n) \<Rightarrow> map_option ((+) n) (bytes_done cs)
      | Some (JBool b) \<Rightarrow> map_option ((+) (if b then 1 else 0)) (bytes_done cs)
      | Some _ \<Rightarrow> None)"
| "bytes_done (_ # cs) = bytes_done cs"

(* src: src/src/anbar/api/upload.py 333-359 get_upload_resume_status *)
definition read_status :: "string \<Rightarrow> string \<Rightarrow> resume_status" where
  "read_status i raw =
     (case loads raw of
        None \<Rightarrow> no_checkpoint i
      | Some j \<Rightarrow>
          let (chunks, ts) = (case j of
                JObj kvs \<Rightarrow> (case map_of kvs ''chunks'' of None \<Rightarrow> JList [] | Some v \<Rightarrow> v,
                             case map_of kvs ''_ts'' of None \<Rightarrow> JNull | Some v \<Rightarrow> v)
              | JList l \<Rightarrow> (JList l, JNull)
              | _ \<Rightarrow> (JList [], JNull))
          in (case iterated chunks of
                None \<Rightarrow> no_checkpoint i
              | Some cs \<Rightarrow>
                  (case bytes_done cs of
                     None \<Rightarrow> no_checkpoint i
                   | Some n \<Rightarrow> \<lparr>rs_upload_id = i, rs_exists = True, rs_chunks_done = length cs, rs_bytes_done = n, rs_timestamp = ts\<rparr>)))"

(* src: src/src/anbar/api/upload.py auto get_upload_resume_status *)
definition get_upload_resume_status :: "ctx \<Rightarrow> request \<Rightarrow> string \<Rightarrow> db \<Rightarrow> db \<times> resume_status res" where
  "get_upload_resume_status cx r upload_id d =
     (case require_uploader (cx_sha256 cx) (cx_hmac cx) (cx_now cx) (cx_tok cx) (cx_settings cx) r d of
        (Inl e, d) \<Rightarrow> (d, Inl e)
      | (Inr _, d) \<Rightarrow>
          let i = strip upload_id in
          if i = [] then (d, Inl (HTTPException 400 ''upload_id cannot be empty''))
          else (d, Inr (let raw = kv_get d (''upres:'' @ i) in if \<not> truthy_str raw then no_checkpoint i else read_status i (the raw))))"

section \<open>Segments for the background importer\<close>

(* src: src/src/anbar/api/upload.py auto _chunk_fetcher.fetch_chunk *)
definition fetch_segment :: "(string \<Rightarrow> object_ref \<Rightarrow> 'w \<Rightarrow> 'w \<times> 'b list res) \<Rightarrow> 'b \<Rightarrow> pool option \<Rightarrow> handle
    \<Rightarrow> string \<Rightarrow> int \<Rightarrow> int \<Rightarrow> int \<Rightarrow> db \<times> 'w \<Rightarrow> (db \<times> 'w) \<times> 'b list res" where
  "fetch_segment fetch zero po backend i idx off len s =
     (case s of (d, w) \<Rightarrow>
      (case get_object i False d of
        (None, d) \<Rightarrow> ((d, w), Inr (replicate (nat len) zero))
      | (Some row, d) \<Rightarrow>
          (case (if truthy_str (o_manifest row) then rbind (from_json (the (o_manifest row))) (\<lambda>m. Inr (m_chunks m)) else Inr []) of
             Inl e \<Rightarrow> ((d, w), Inl e)
           | Inr chunks \<Rightarrow>
               let n = int (length chunks); j = (if idx < 0 then n + idx else idx) in
               if idx \<ge> n then ((d, w), Inr (replicate (nat len) zero))
               else if j < 0 then ((d, w), Inl IndexError)
               else
                 let c = chunks ! nat j; nm = pool_name po (holder_of po backend (c_backend c)) in
                 (case fetch nm (mk_ref (c_file_id c) (c_message_id c) nm) w of
                    (w, Inl e) \<Rightarrow> ((d, w), Inl e)
                  | (w, Inr b) \<Rightarrow>
                      let start = max 0 (min off (int (length b)))
                      in ((d, w), Inr (take (nat len) (drop (nat start) b)))))))"

end
