(* ===== verification/S3Store.thy ===== *)
theory S3Store
  imports S3Api Serving UploadApi
begin

text \<open>
  What the S3 endpoints of \<^verbatim>\<open>src/src/anbar/api/s3.py\<close> do: an object that was put is read back, also
  under another bucket whose name makes the same entry; pages of a listing cover it; suffix ranges
  and empty objects are served wrongly; writes need a key.
\<close>

section \<open>Storing the chunks\<close>

text \<open>\<open>w0\<close>: the backends before the put.\<close>

definition put_ok :: "pool option \<Rightarrow> handle \<Rightarrow> (string \<Rightarrow> 'b fake) \<Rightarrow> 'b list list \<Rightarrow> (string \<Rightarrow> 'b fake) put_state \<Rightarrow> bool" where
  "put_ok po backend w0 ds s =
     ((\<forall>m. fake_ok (ps_world s m)) \<and> list_all2 (fakes.stored_as po backend (ps_world s)) (ps_chunks s) ds
      \<and> map norm_chunk (ps_chunks s) = ps_chunks s
      \<and> (\<forall>c \<in> set (ps_chunks s). blob w0 (chunk_at po backend c) = None) \<and> (\<forall>p. blob w0 p \<noteq> None \<longrightarrow> blob (ps_world s) p \<noteq> None))"

lemma s3_on_chunk_ok:
  assumes ok: "put_ok po backend w0 ds s"
  shows "\<exists>s' f. s3_on_chunk fakes_store token (pool_name po backend) data media s = (s', Inr f) \<and> put_ok po backend w0 (ds @ [data]) s'"
proof -
  let ?n = "length (ps_chunks s)" and ?nm = "pool_name po backend"
  have g: "\<forall>m. fake_ok (ps_world s m)" using ok by (simp add: put_ok_def)
  obtain w r where w: "fakes_store ?nm data (opaque_chunk_name (token ?n) ?n) None (ps_world s) = (w, Inr r)" using fakes_store_ok by blast
  let ?c = "\<lparr>c_index = int ?n, c_size = int (length data), c_file_id = or_file_id r, c_message_id = or_message_id r,
    c_bot_file_id = None, c_backend = None\<rparr>"
  have k: "fakes.keeps_world (ps_world s) w"
    using fakes.store_good [OF g, of ?nm data "opaque_chunk_name (token ?n) ?n" None]
      fakes.store_keeps [OF g, where m = ?nm and d = data and n = "opaque_chunk_name (token ?n) ?n" and c = None] w
    by (simp add: fakes.keeps_world_def)
  have "list_all2 (fakes.stored_as po backend w) (ps_chunks s) ds"
    using ok fakes.stored_as_keeps [OF k] by (auto simp: put_ok_def elim: list_all2_mono)
  moreover have "fakes.stored_as po backend w ?c data"
    using fakes.stored [OF g w] by (simp add: fakes.stored_as_def holder_of_def truthy_str_def)
  moreover have "norm_chunk ?c = ?c" by (simp add: norm_chunk_def truthy_str_def)
  moreover have b: "blob (ps_world s) (?nm, or_file_id r) = None" "blob w = (blob (ps_world s))((?nm, or_file_id r) \<mapsto> data)"
    using blob_stored [OF g w] by simp_all
  have "chunk_at po backend ?c = (?nm, or_file_id r)" by (simp add: chunk_at_def holder_of_def truthy_str_def)
  moreover have "blob w0 (?nm, or_file_id r) = None" using ok b(1) unfolding put_ok_def by blast
  moreover have "\<forall>p. blob w0 p \<noteq> None \<longrightarrow> blob w p \<noteq> None" using ok unfolding b(2) put_ok_def by simp
  ultimately show ?thesis using w k ok by (auto simp: s3_on_chunk_def Let_def put_ok_def fakes.keeps_world_def list_all2_appendI)
qed

lemma s3_feed_ok:
  "put_ok po backend w0 ds s \<Longrightarrow>
     \<exists>s'. feed (s3_on_chunk fakes_store token (pool_name po backend)) first cs s = (s', Inr ()) \<and> put_ok po backend w0 (ds @ cs) s'"
proof (induction cs arbitrary: ds s first)
  case (Cons c cs)
  obtain s1 f where 1: "s3_on_chunk fakes_store token (pool_name po backend) c first s = (s1, Inr f)" "put_ok po backend w0 (ds @ [c]) s1"
    using s3_on_chunk_ok [OF Cons.prems] by blast
  from Cons.IH [OF 1(2), of False] 1(1) show ?case by simp
qed simp

lemma stored_blob: "fakes.stored_as po backend w c b \<longleftrightarrow> c_size c = int (length b) \<and> blob w (chunk_at po backend c) = Some b"
  by (auto simp: fakes.stored_as_def fakes_open_blob chunk_at_def split: option.split)

section \<open>What stays as it is\<close>

text \<open>Reading access changes neither the rows nor the entries of S3 keys.\<close>

definition same_store :: "db \<Rightarrow> db \<Rightarrow> bool" where
  "same_store d d' =
     (d_objects d' = d_objects d \<and> (db_ok d \<longrightarrow> db_ok d') \<and> (\<forall>b k. kv_get d' (s3_kv b k) = kv_get d (s3_kv b k)))"

lemma same_refl [simp]: "same_store d d"
  by (simp add: same_store_def)

lemma same_store_trans: "same_store a b \<Longrightarrow> same_store b c \<Longrightarrow> same_store a c"
  by (simp add: same_store_def)

lemma same_session: "same_store d (snd (session_secret tok d))"
proof -
  have "s3_kv b k \<noteq> ''ui_session_secret''" for b k by (simp add: s3_kv_def)
  moreover have "d_objects (kv_set x y d) = d_objects d" "d_obj_cache (kv_set x y d) = d_obj_cache d" for x y
    by (simp_all add: kv_set_def)
  ultimately show ?thesis by (auto simp: same_store_def session_secret_def kv_simps db_ok_def)
qed

lemma same_verify: "same_store d (snd (verify_session hmac now tok v d))"
  using same_session [of d tok] by (auto simp: verify_session_def split_beta Let_def split: list.split option.split)

lemma same_cookie: "same_store d (snd (cookie_role hmac now tok ps d))"
proof (induction ps arbitrary: d)
  case (Cons p ps)
  then show ?case using same_verify same_store_trans by (auto simp: Let_def split_beta split: option.splits sum.splits prod.splits) (metis snd_conv)+
qed simp

lemma same_role: "role_of cx r d = (ro, d') \<Longrightarrow> same_store d d'"
  using same_cookie by (auto simp: role_of_def whoami_def Let_def split: if_splits) (metis snd_conv)+

lemma same_auth: "check_s3_auth cx r write d = (d', x) \<Longrightarrow> same_store d d'"
  by (auto simp: check_s3_auth_def Let_def dest: same_role split: prod.splits)

lemma same_rate: "same_store d (d\<lparr>d_rate := rs\<rparr>)"
  by (simp add: same_store_def kv_get_def db_ok_def)

lemma same_limited: "limited now k lim d = (d', x) \<Longrightarrow> same_store d d'"
  using same_rate by (auto simp: limited_def rate_check_def Let_def split: if_splits)

lemma same_s3_limit: "s3_limit cx r k d = (d', x) \<Longrightarrow> same_store d d'"
  using same_limited by (simp add: s3_limit_def limit_download_def)

lemma same_upload_limit: "limit_upload sha now r lim d = (d', x) \<Longrightarrow> same_store d d'"
  using same_limited by (simp add: limit_upload_def Let_def)


section \<open>Put, then get\<close>

lemma same_kv: "same_store d d' \<Longrightarrow> kv_get d' (s3_kv b k) = kv_get d (s3_kv b k)"
  by (simp add: same_store_def)

lemma insert_row:
  assumes "db_ok d" and "insert_object now o' d = (d', Inr ())"
  shows "db_ok d' \<and> find_obj d' (i_id o') = Some (full_obj now o') \<and> kv_get d' = kv_get d"
proof -
  have n: "find_obj d (i_id o') = None" using assms(2) by (auto simp: insert_object_def split: if_splits)
  have "db_ok d'" using db_ok_insert [OF assms(1), of now o'] assms(2) by simp
  moreover have "o_id (full_obj now o') = i_id o'" by (simp add: full_obj_def)
  ultimately show ?thesis using assms(2) n
    by (auto simp: insert_object_def find_obj_def find_append cache_put_def kv_get_def fun_eq_iff split: if_splits)
qed

lemma kv_set_keeps: "d_objects (kv_set k v d) = d_objects d" "db_ok (kv_set k v d) = db_ok d" "find_obj (kv_set k v d) i = find_obj d i"
  by (simp_all add: kv_set_def db_ok_def find_obj_def)

text \<open>A put under a key that is taken purges the object there. It must be whole: were a chunk of it gone, a backend might have
  given its id to a chunk of the new object, as \<open>fake_id_reused\<close> shows.\<close>

definition replaceable :: "pool option \<Rightarrow> handle \<Rightarrow> db \<Rightarrow> (string \<Rightarrow> 'b fake) \<Rightarrow> string \<Rightarrow> bool" where
  "replaceable po backend d w k =
     (case kv_get d k of None \<Rightarrow> True
      | Some i \<Rightarrow> i = [] \<or> (case visible i False d of None \<Rightarrow> True
          | Some row \<Rightarrow> \<exists>m. o_manifest row = Some (to_json m) \<and> (\<forall>c \<in> set (m_chunks m). blob w (chunk_at po backend c) \<noteq> None)))"

lemma kv_delete_keeps [simp]: "db_ok (kv_delete k d) = db_ok d" "find_obj (kv_delete k d) i = find_obj d i"
  by (simp_all add: kv_delete_def db_ok_def find_obj_def)

lemma purge_rows_ok: "db_ok d \<Longrightarrow> db_ok (purge_rows_of i d)"
proof -
  have f: "db_ok (fold kv_delete ks d) = db_ok d" for ks d by (induction ks arbitrary: d) simp_all
  have g: "db_ok (fold (\<lambda>(k, v) d. if P k v then kv_delete k d else d) rows d) = db_ok d" for P rows d
    by (induction rows arbitrary: d) (simp_all add: split_beta)
  have h: "db_ok (drop_subs i d) = db_ok d" for d by (simp add: drop_subs_def)
  show "db_ok d \<Longrightarrow> db_ok (purge_rows_of i d)" by (simp only: purge_rows_of_def Let_def f g h db_ok_delete)
qed

lemma replace_old_ok:
  assumes ok: "db_ok d" and r: "replaceable po backend d w0 k"
  shows "\<exists>d' w'. replace_old fakes_delete po backend k d w = ((d', w'), Inr ()) \<and> db_ok d'
     \<and> (\<forall>j. find_obj d j = None \<longrightarrow> find_obj d' j = None) \<and> (\<forall>p. blob w0 p = None \<longrightarrow> blob w' p = blob w p)"
proof (cases "truthy_str (kv_get d k)")
  case False
  then show ?thesis using ok by (simp add: replace_old_def Let_def)
next
  case True
  then obtain i where i: "kv_get d k = Some i" "i \<noteq> []" by (auto simp: truthy_str_def split: option.splits)
  define d1 where "d1 = snd (get_object i False d)"
  have g: "get_object i False d = (visible i False d, d1)" using get_object_visible [OF ok, of i False] by (metis d1_def prod.collapse)
  have d1: "db_ok d1" "d_objects d1 = d_objects d" using db_ok_get [OF ok] get_object_rows by (simp_all add: d1_def)
  show ?thesis
  proof (cases "visible i False d")
    case None
    then show ?thesis using True i g d1 by (simp add: replace_old_def Let_def find_obj_def)
  next
    case (Some row)
    then obtain m where m: "o_manifest row = Some (to_json m)" "\<forall>c \<in> set (m_chunks m). blob w0 (chunk_at po backend c) \<noteq> None"
      using r i by (auto simp: replaceable_def)
    obtain w' n ev where p: "purge_object_blobs fakes_delete po backend row d1 w = (purge_rows_of (o_id row) d1, w', Inr (n, ev))"
      and b: "\<forall>p. blob w' p = (if p \<in> chunk_at po backend ` set (m_chunks m) then None else blob w p)"
      using object_purge [OF m(1), of po backend d1 w] by blast
    have "find_obj (purge_rows_of (o_id row) d1) j = None" if "find_obj d j = None" for j
      using that d1(2) by (auto simp: find_obj_def purge_rows_fields find_None_iff)
    moreover have "blob w' p = blob w p" if "blob w0 p = None" for p
    proof -
      have "p \<notin> chunk_at po backend ` set (m_chunks m)" using m(2) that by auto
      then show ?thesis using spec [OF b, of p] by simp
    qed
    ultimately show ?thesis using True i g Some p purge_rows_ok [OF d1(1)]
      by (intro exI [of _ "kv_delete k (purge_rows_of (o_id row) d1)"] exI [of _ w']) (simp add: replace_old_def Let_def)
  qed
qed

text \<open>What a put leaves: the entry of the key, the row behind it and the chunks behind the row.\<close>

definition s3_holds :: "pool option \<Rightarrow> handle \<Rightarrow> string \<Rightarrow> string \<Rightarrow> 'b list \<Rightarrow> nat \<Rightarrow> db \<Rightarrow> (string \<Rightarrow> 'b fake) \<Rightarrow> bool" where
  "s3_holds po backend bucket key body csize d w =
     (\<exists>i row m. db_ok d \<and> kv_get d (s3_kv bucket key) = Some i \<and> i \<noteq> [] \<and> find_obj d i = Some row \<and> o_deleted_at row = None
        \<and> (\<exists>j. o_manifest row = Some j \<and> from_json j = Inr m) \<and> m_total_size m = int (length body)
        \<and> list_all2 (fakes.stored_as po backend w) (m_chunks m) (chop csize body))"

lemma new_object_id_nonempty: "draws \<noteq> [] \<Longrightarrow> new_object_id draws \<noteq> []"
  by (simp add: new_object_id_def id_len_def)

lemma int_header_cases:
  "(case map_of (rq_headers r) k of None \<Rightarrow> Some 0 | Some s \<Rightarrow> if s = [] then Some 0 else py_int s) = int_header r k"
  by (simp add: int_header_def header_def split: option.split)

lemma put_leaves:
  fixes w :: "string \<Rightarrow> 'b fake"
  assumes body: "calm pieces" "body = bytes_of pieces" and ok: "db_ok d" "\<forall>m. fake_ok (w m)"
    and fresh: "replaceable po backend d w (s3_kv bucket key)" "draws \<noteq> []" "find_obj d (new_object_id draws) = None"
    and auth: "check_s3_auth cx r True d = (d1, Inr ())"
    and lim: "limit_upload (cx_sha256 cx) (cx_now cx) r (get_int_setting d1 ''rate_upload'' (s_rate_upload_per_min (cx_settings cx))) d1 = (d2, Inr ())"
    and len: "int_header r ''content-length'' = Some declared" "declared \<le> get_int_setting d2 ''max_upload_mb'' (s_max_upload_mb (cx_settings cx)) * 1024 * 1024"
      "int (length body) \<le> get_int_setting d2 ''max_upload_mb'' (s_max_upload_mb (cx_settings cx)) * 1024 * 1024"
    and chunk: "0 < chunk_size (cx_settings cx)"
  shows "\<exists>d3 w' hs. put_object cx fakes_store fakes_delete sha body_read po backend token draws r bucket key (body_reader_init pieces) d w
       = Some ((d3, w'), Inr (Plain 200 hs)) \<and> s3_holds po backend bucket key body (nat (chunk_size (cx_settings cx))) d3 w'
     \<and> (kv_get d (s3_kv bucket key) = None \<longrightarrow> (\<forall>k. k \<noteq> s3_kv bucket key \<longrightarrow> kv_get d3 k = kv_get d2 k))"
proof -
  let ?r = "body_reader_init pieces" and ?cs = "nat (chunk_size (cx_settings cx))" and ?nm = "pool_name po backend" and ?id = "new_object_id draws"
  define mb where "mb = get_int_setting d2 ''max_upload_mb'' (s_max_upload_mb (cx_settings cx)) * 1024 * 1024"
  have same: "same_store d d2" using same_auth [OF auth] same_upload_limit [OF lim] same_store_trans by blast
  have rest: "body_rest ?r = body" "body_good ?r" using body by (simp_all add: body_rest_def body_good_def body_reader_init_def)
  have cs: "0 < ?cs" using chunk by simp
  have mx: "case Some (nat mb) of None \<Rightarrow> True | Some m \<Rightarrow> length (body_rest ?r) \<le> m" using len(3) rest unfolding mb_def by simp
  let ?s0 = "\<lparr>ps_chunks = [], ps_world = w\<rparr>"
  have "put_ok po backend w [] ?s0" using ok(2) by (simp add: put_ok_def)
  from s3_feed_ok [OF this, of token False "chop ?cs body"]
  obtain s where s: "feed (s3_on_chunk fakes_store token ?nm) False (chop ?cs body) ?s0 = (s, Inr ())" "put_ok po backend w (chop ?cs body) s" by auto
  have st: "chunk_stream sha body_read ?cs (s3_on_chunk fakes_store token ?nm) False (Some (nat mb)) ?r ?s0 = Some (s, Inr (length body, sha body))"
    using body.chunk_stream_feed [OF rest(2) cs mx, of sha "s3_on_chunk fakes_store token ?nm" False ?s0] s(1) rest(1) by simp
  have "kv_get d2 (s3_kv bucket key) = kv_get d (s3_kv bucket key)" "d_objects d2 = d_objects d" using same by (simp_all add: same_store_def)
  then have "replaceable po backend d2 w (s3_kv bucket key)" using fresh(1) by (simp add: replaceable_def visible_def find_obj_def cong: option.case_cong)
  moreover have ok2: "db_ok d2" using same ok(1) by (simp add: same_store_def)
  ultimately obtain d2' w2 where rep: "replace_old fakes_delete po backend (s3_kv bucket key) d2 (ps_world s) = ((d2', w2), Inr ())" "db_ok d2'"
    "\<forall>j. find_obj d2 j = None \<longrightarrow> find_obj d2' j = None" "\<forall>p. blob w p = None \<longrightarrow> blob w2 p = blob (ps_world s) p"
    using replace_old_ok [of d2 po backend w "s3_kv bucket key" "ps_world s"] by blast
  let ?o = "\<lparr>i_id = ?id, i_file_id = (case ps_chunks s of [] \<Rightarrow> [] | c # _ \<Rightarrow> c_file_id c), i_backend = ?nm,
               i_filename = bucket @ ''/'' @ key, i_size = int (length body),
               i_content_type = Some (if header r ''content-type'' \<noteq> [] then header r ''content-type'' else ''application/octet-stream''), i_sha256 = Some (sha body),
               i_manifest = Some (to_json \<lparr>m_chunks = ps_chunks s, m_total_size = int (length body)\<rparr>),
               i_uploader_key = Some ''s3'', i_created_at = None, i_downloaded = None\<rparr>"
  have "find_obj d2 ?id = None" using same fresh(3) by (simp add: same_store_def find_obj_def)
  then have "find_obj d2' ?id = None" using rep(3) by blast
  then obtain d3 where ins: "insert_object (cx_now cx) ?o d2' = (d3, Inr ())" by (simp add: insert_object_def)
  from insert_row [OF rep(2) ins] have row: "db_ok d3" "find_obj d3 ?id = Some (full_obj (cx_now cx) ?o)" by simp_all
  let ?hs = "[(''ETag'', [CHR 0x22] @ sha body @ [CHR 0x22]), (''x-amz-request-id'', ?id)]"
  have com: "s3_commit cx fakes_delete po backend draws r bucket key (length body, sha body) d2 s
      = ((kv_set (s3_kv bucket key) ?id d3, w2), Inr (Plain 200 ?hs))"
    unfolding s3_commit_def Let_def prod.case rep(1) sum.case ins by simp
  have put: "put_object cx fakes_store fakes_delete sha body_read po backend token draws r bucket key ?r d w
      = Some ((kv_set (s3_kv bucket key) ?id d3, w2), Inr (Plain 200 ?hs))"
    unfolding put_object_def auth prod.case sum.case lim Let_def int_header_cases len(1) option.case
    using st com len(2) unfolding mb_def by simp
  have "list_all2 (fakes.stored_as po backend w2) (ps_chunks s) (chop ?cs body)"
  proof -
    have "list_all2 (fakes.stored_as po backend (ps_world s)) (ps_chunks s) (chop ?cs body)"
      and n: "\<forall>c \<in> set (ps_chunks s). blob w (chunk_at po backend c) = None" using s(2) by (simp_all add: put_ok_def)
    moreover have "blob w2 (chunk_at po backend c) = blob (ps_world s) (chunk_at po backend c)" if "c \<in> set (ps_chunks s)" for c
      using spec [OF rep(4), of "chunk_at po backend c"] n that by simp
    ultimately show ?thesis by (simp add: list_all2_conv_all_nth stored_blob)
  qed
  moreover have "from_json (to_json \<lparr>m_chunks = ps_chunks s, m_total_size = int (length body)\<rparr>) = Inr \<lparr>m_chunks = ps_chunks s, m_total_size = int (length body)\<rparr>"
    using s(2) by (simp add: from_json_to_json put_ok_def)
  moreover have "o_manifest (full_obj (cx_now cx) ?o) = Some (to_json \<lparr>m_chunks = ps_chunks s, m_total_size = int (length body)\<rparr>)"
    "o_deleted_at (full_obj (cx_now cx) ?o) = None" by (simp_all add: full_obj_def)
  moreover have "kv_get (kv_set (s3_kv bucket key) ?id d3) (s3_kv bucket key) = Some ?id" by (simp add: kv_simps)
  ultimately have holds: "s3_holds po backend bucket key body ?cs (kv_set (s3_kv bucket key) ?id d3) w2"
    unfolding s3_holds_def using row new_object_id_nonempty [OF fresh(2)] kv_set_keeps
    by (intro exI conjI) (assumption | simp)+
  have "kv_get (kv_set (s3_kv bucket key) ?id d3) k = kv_get d2 k" if "k \<noteq> s3_kv bucket key" "kv_get d (s3_kv bucket key) = None" for k
  proof -
    have "kv_get d2 (s3_kv bucket key) = None" using same that(2) by (simp add: same_kv)
    then have "d2' = d2" using rep(1) by (simp add: replace_old_def truthy_str_def Let_def)
    then show ?thesis using that(1) insert_row [OF ok2] ins by (simp add: kv_simps)
  qed
  then show ?thesis using put holds by blast
qed

lemma split_on_pieces: "c \<notin> set a \<and> set a \<subseteq> set s" if "a \<in> set (split_on c s)"
  using that
proof (induction s arbitrary: a)
  case (Cons x xs)
  show ?case
  proof (cases "split_on c xs")
    case Nil
    then show ?thesis using Cons.prems by (auto split: if_splits)
  next
    case (Cons p ps)
    have p: "c \<notin> set p \<and> set p \<subseteq> set xs" using Cons Cons.IH [of p] by simp
    show ?thesis
    proof (cases "a = x # p \<and> x \<noteq> c")
      case False
      then have "a \<in> set (split_on c xs) \<or> a = []" using Cons.prems Cons by (auto split: if_splits)
      then show ?thesis using Cons.IH [of a] by auto
    qed (use p in auto)
  qed
qed simp

lemma set_strip: "set (strip s) \<subseteq> set s"
proof -
  have d: "set (dropWhile P xs) \<subseteq> set xs" for P and xs :: string by (auto dest: set_dropWhileD)
  show ?thesis using d [of is_space "rev (dropWhile is_space s)"] d [of is_space s] by (simp add: strip_by_def lstrip_by_def rstrip_by_def)
qed

lemma py_int_nonneg: "CHR ''-'' \<notin> set s \<Longrightarrow> py_int s = Some i \<Longrightarrow> 0 \<le> i"
proof -
  assume m: "CHR ''-'' \<notin> set s" and i: "py_int s = Some i"
  then have "CHR ''-'' \<notin> set (strip s)" using set_strip by blast
  then show "0 \<le> i" using i by (auto simp: py_int_def Let_def split: list.splits if_splits)
qed

lemma s3_range_bounds: "s3_range hdr n = Inr (Some (s, e)) \<Longrightarrow> 0 \<le> s \<and> s \<le> e \<and> e < n"
proof -
  assume r: "s3_range hdr n = Inr (Some (s, e))"
  let ?raw = "strip (drop 6 (the hdr))"
  obtain a b ps where sp: "split_on (CHR ''-'') ?raw = a # b # ps"
    using r by (auto simp: s3_range_def Let_def split: if_splits list.splits)
  have a: "CHR ''-'' \<notin> set a" using split_on_pieces [of a "CHR ''-''" ?raw] sp by simp
  show ?thesis using r sp py_int_nonneg [OF a] by (auto simp: s3_range_def Let_def split: if_splits option.splits)
qed

lemma s3_fetch_held:
  assumes "so_fetch so = fakes_open" and "held so m ds w" and "idx < length ds"
  shows "\<exists>w'. s3_fetch so m idx w = (w', Inr (ds ! idx)) \<and> held so m ds w'"
proof -
  let ?c = "m_chunks m ! idx"
  let ?nm = "pool_name (so_pool so) (holder_of (so_pool so) (so_backend so) (c_backend ?c))"
  let ?q = "mk_ref (c_file_id ?c) (c_message_id ?c) ?nm"
  obtain w' x where f: "fakes_open ?nm ?q w = (w', x)" by (cases "fakes_open ?nm ?q w")
  have "x = Inr (ds ! idx)" using fakes_open_blob [of ?nm ?q w] assms(2,3) f by (simp add: held_def chunk_at_def)
  then show ?thesis using f fakes_open_keeps [OF f] assms(1,2) by (simp add: s3_fetch_def Let_def held_def)
qed

lemma s3_stream_held:
  "so_fetch so = fakes_open \<Longrightarrow> held so m ds w \<Longrightarrow> \<forall>(idx, off, n) \<in> set segs. idx < length ds \<Longrightarrow>
     \<exists>w' out. stream_segments (s3_fetch so m) (\<lambda>x. [x]) segs w = (w', out, None) \<and> concat out = concat (map (read_piece ds) segs)"
proof (induction segs arbitrary: w)
  case (Cons sg segs)
  obtain idx off n where s: "sg = (idx, off, n)" by (cases sg)
  obtain w1 where f: "s3_fetch so m idx w = (w1, Inr (ds ! idx))" "held so m ds w1"
    using s3_fetch_held [OF Cons.prems(1,2), of idx] Cons.prems(3) s by auto
  obtain w2 out where t: "stream_segments (s3_fetch so m) (\<lambda>x. [x]) segs w1 = (w2, out, None)" "concat out = concat (map (read_piece ds) segs)"
    using Cons.IH [OF Cons.prems(1) f(2)] Cons.prems(3) by auto
  have "read_piece ds (idx, off, n) = take (nat n) (drop (nat off) (ds ! idx))" by (simp add: read_piece_def)
  then show ?case using f(1) s t by simp
qed simp

definition open_source :: "pool option \<Rightarrow> handle \<Rightarrow> ('b, string \<Rightarrow> 'b fake) source \<Rightarrow> bool" where
  "open_source po backend so = (so_fetch so = fakes_open \<and> so_pool so = po \<and> so_backend so = backend)"

lemma get_finds:
  assumes h: "s3_holds po backend bucket key body csize d w" and k: "s3_kv bucket' key' = s3_kv bucket key"
    and auth: "check_s3_auth cx r False d = (d1, Inr ())" and lim: "s3_limit cx r (s3_kv bucket' key') d1 = (d2, Inr ())"
  shows "\<exists>row j m d3. s3_lookup bucket' key' d2 = (d3, Some row) \<and> o_manifest row = Some j \<and> from_json j = Inr m
     \<and> m_total_size m = int (length body) \<and> list_all2 (fakes.stored_as po backend w) (m_chunks m) (chop csize body)"
proof -
  obtain i row j m where i: "db_ok d" "kv_get d (s3_kv bucket key) = Some i" "i \<noteq> []" "find_obj d i = Some row" "o_deleted_at row = None"
     "o_manifest row = Some j" "from_json j = Inr m" "m_total_size m = int (length body)"
     "list_all2 (fakes.stored_as po backend w) (m_chunks m) (chop csize body)"
    using h unfolding s3_holds_def by blast
  have same: "same_store d d2" using same_auth [OF auth] same_s3_limit [OF lim] same_store_trans by blast
  have kv: "kv_get d2 (s3_kv bucket' key') = Some i" using same i(2) k by (simp add: same_kv)
  have "find_obj d2 i = Some row" "db_ok d2" using same i(1,4) by (simp_all add: same_store_def find_obj_def)
  then have "fst (get_object i False d2) = Some row" using i(5) by (simp add: get_object_visible visible_def truthy_int_def)
  then obtain d3 where "get_object i False d2 = (Some row, d3)" by (metis prod.collapse)
  then have "s3_lookup bucket' key' d2 = (d3, Some row)" using kv i(3) by (simp add: s3_lookup_def truthy_str_def)
  then show ?thesis using i(6-9) by blast
qed

lemma get_serves:
  assumes h: "s3_holds po backend bucket key body csize d w" and k: "s3_kv bucket' key' = s3_kv bucket key"
    and so: "open_source po backend so" and ne: "body \<noteq> []" "0 < csize"
    and auth: "check_s3_auth cx r False d = (d1, Inr ())" and lim: "s3_limit cx r (s3_kv bucket' key') d1 = (d2, Inr ())"
    and rg: "s3_range (map_of (rq_headers r) ''range'') (int (length body)) = Inr rg" and inm: "header r ''if-none-match'' = []"
  shows "\<exists>d' w' hs out. s3_get_object cx so r bucket' key' d w = ((d', w'), Inr (Bytes (if rg = None then 200 else 206) hs out None))
     \<and> concat out = selected [body] rg"
proof -
  let ?ds = "chop csize body"
  obtain row j m d3 where f: "s3_lookup bucket' key' d2 = (d3, Some row)" "o_manifest row = Some j" "from_json j = Inr m"
     "m_total_size m = int (length body)" "list_all2 (fakes.stored_as po backend w) (m_chunks m) ?ds"
    using get_finds [OF h k auth lim] by blast
  have cat: "concat ?ds = body" using concat_chop [OF ne(2)] .
  have hd: "held so m ?ds w \<and> holds (m_chunks m) ?ds"
    using stored_chunks_held [of so w m ?ds] so f(5) by (simp add: open_source_def)
  define s e where "s = (case rg of None \<Rightarrow> 0 | Some (s, _) \<Rightarrow> s)" and "e = (case rg of None \<Rightarrow> m_total_size m | Some (_, e) \<Rightarrow> e + 1)"
  have b: "0 \<le> s" "s < e" "e \<le> m_total_size m"
    using ne(1) f(4) rg s3_range_bounds [of "map_of (rq_headers r) ''range''" "int (length body)"] by (auto simp: s_def e_def split: option.splits)
  obtain rs where rs: "map_range_loop (prefix_from 0 (m_chunks m)) s e = Inr rs"
     "concat (map (read_piece ?ds) rs) = take (nat (e - s)) (drop (nat s) body)"
     "\<forall>(i, off, n) \<in> set rs. i < length ?ds \<and> 0 \<le> off \<and> 0 < n \<and> off + n \<le> int (length (?ds ! i))"
    using map_range_loop_exact [OF conjunct2 [OF hd] b(1) less_imp_le [OF b(2)]] b(3) f(4) cat by auto
  have mr: "map_range m s e = Inr rs" using rs(1) b by (simp add: map_range_def prefix_sizes_def)
  have sel: "selected [body] rg = take (nat (e - s)) (drop (nat s) body)"
    by (cases rg) (auto simp: selected_def s_def e_def f(4) algebra_simps)
  have "\<forall>(idx, off, n) \<in> set rs. idx < length ?ds" using rs(3) by auto
  from s3_stream_held [OF _ conjunct1 [OF hd] this] so
  obtain w' out where st: "stream_segments (s3_fetch so m) (\<lambda>x. [x]) rs w = (w', out, None)" "concat out = concat (map (read_piece ?ds) rs)"
    by (auto simp: open_source_def)
  show ?thesis
    unfolding s3_get_object_def auth prod.case sum.case lim f(1) option.case
    using f(2,3,4) rg inm mr [unfolded s_def e_def f(4)] st rs(2) sel unfolding s_def e_def by (cases rg) (auto simp: Let_def)
qed


section \<open>Ranges\<close>

text \<open>What a client asks for, as the header it sends and as the part of the body HTTP means by it.\<close>

datatype ask = Whole | Span nat nat | From nat

fun ask_header :: "ask \<Rightarrow> string option" where
  "ask_header Whole = None"
| "ask_header (Span a b) = Some (range_text (str_of_nat a) (str_of_nat b))"
| "ask_header (From a) = Some (range_text (str_of_nat a) [])"

fun asked :: "ask \<Rightarrow> 'b list \<Rightarrow> 'b list" where
  "asked Whole body = body"
| "asked (Span a b) body = take (b + 1 - a) (drop a body)"
| "asked (From a) body = drop a body"

fun askable :: "ask \<Rightarrow> 'b list \<Rightarrow> bool" where
  "askable Whole body = True"
| "askable (Span a b) body = (a \<le> b \<and> a < length body)"
| "askable (From a) body = (a < length body)"

lemma strip_nat: "strip (str_of_nat a @ ''-'' @ str_of_nat b) = str_of_nat a @ ''-'' @ str_of_nat b" "strip (''-'' @ str_of_nat b) = ''-'' @ str_of_nat b"
    "strip (str_of_nat a @ ''-'') = str_of_nat a @ ''-''"
proof -
  have d: "\<not> is_space c" if "c \<in> set (str_of_nat n)" for c n
    using that str_of_nat_digits [of n] digit_not_space by (auto simp: list_all_iff)
  have m: "\<not> is_space (CHR ''-'')" by (simp add: is_space_def code_def)
  show "strip (str_of_nat a @ ''-'' @ str_of_nat b) = str_of_nat a @ ''-'' @ str_of_nat b" using d m by (intro strip_by_id) auto
  show "strip (''-'' @ str_of_nat b) = ''-'' @ str_of_nat b" using d m by (intro strip_by_id) auto
  show "strip (str_of_nat a @ ''-'') = str_of_nat a @ ''-''" using d m by (intro strip_by_id) auto
qed

lemma no_digit: "x \<in> {CHR ''-'', CHR '',''} \<Longrightarrow> x \<notin> set (str_of_nat n)"
  using str_of_nat_digits [of n] by (auto simp: list_all_iff is_digit_def code_def)

lemma range_header: "startswith (range_text x y) ''bytes=''" "drop 6 (range_text x y) = x @ ''-'' @ y" "range_text x y \<noteq> []"
  by (simp_all add: range_text_def startswith_def)

lemma s3_range_span:
  "s3_range (Some (range_text (str_of_nat a) (str_of_nat b))) n = (if int a < n \<and> a \<le> b then Inr (Some (int a, min (int b) (n - 1))) else Inl ())"
proof -
  have "split_on (CHR ''-'') (str_of_nat a @ ''-'' @ str_of_nat b) = [str_of_nat a, str_of_nat b]"
    using split_on_append [of "CHR ''-''" "str_of_nat a" "str_of_nat b"] no_digit by (simp add: split_on_none)
  moreover have "CHR '','' \<notin> set (str_of_nat a @ ''-'' @ str_of_nat b)" using no_digit by auto
  ultimately show ?thesis using range_header strip_nat(1) [of a b] py_int_str_of_nat by (simp add: s3_range_def truthy_str_def Let_def)
qed

lemma s3_range_from:
  "s3_range (Some (range_text (str_of_nat a) [])) n = (if int a < n then Inr (Some (int a, n - 1)) else Inl ())"
proof -
  have "split_on (CHR ''-'') (str_of_nat a @ ''-'') = [str_of_nat a, []]"
    using split_on_append [of "CHR ''-''" "str_of_nat a" "[]"] no_digit by (simp add: split_on_none)
  moreover have "CHR '','' \<notin> set (str_of_nat a @ ''-'')" using no_digit by auto
  ultimately show ?thesis using range_header(1,3) [of "str_of_nat a" "[]"] range_header(2) [of "str_of_nat a" "[]"] strip_nat(3) [of a] py_int_str_of_nat
    by (auto simp: s3_range_def truthy_str_def Let_def)
qed

lemma ask_range:
  assumes "askable ask body" and "body \<noteq> []"
  shows "\<exists>rg. s3_range (ask_header ask) (int (length body)) = Inr rg \<and> (rg = None \<longleftrightarrow> ask = Whole) \<and> selected [body] rg = asked ask body"
proof (cases ask)
  case Whole
  then show ?thesis by (simp add: s3_range_def truthy_str_def selected_def)
next
  case (Span a b)
  have "nat (min (int b) (int (length body) - 1) - int a + 1) = min (b + 1 - a) (length body - a)" using assms Span by simp
  moreover have "take (min (b + 1 - a) (length body - a)) (drop a body) = take (b + 1 - a) (drop a body)" by (simp add: min_def)
  ultimately show ?thesis using assms Span by (simp add: s3_range_span selected_def)
next
  case (From a)
  then show ?thesis using assms by (simp add: s3_range_from selected_def)
qed

lemma ask_refused: "\<not> askable ask body \<Longrightarrow> s3_range (ask_header ask) (int (length body)) = Inl ()"
  by (cases ask) (auto simp: s3_range_span s3_range_from)

lemma get_refuses:
  assumes "s3_holds po backend bucket key body csize d w"
    and "check_s3_auth cx r False d = (d1, Inr ())" and "s3_limit cx r (s3_kv bucket key) d1 = (d2, Inr ())"
    and "s3_range (map_of (rq_headers r) ''range'') (int (length body)) = Inl ()"
  shows "\<exists>d'. s3_get_object cx so r bucket key d w = ((d', w), Inr (invalid_range bucket key))"
proof -
  obtain row j m d3 where f: "s3_lookup bucket key d2 = (d3, Some row)" "o_manifest row = Some j" "from_json j = Inr m" "m_total_size m = int (length body)"
    using get_finds [OF assms(1) refl assms(2,3)] by blast
  show ?thesis unfolding s3_get_object_def assms(2,3) prod.case sum.case f(1) option.case using f(2-4) assms(4) by simp
qed


text \<open>Also: bucket and key are joined by a colon without escaping: an object put under the key \<open>a:b\<close> of a bucket is
  served to a GetObject of the key \<open>b\<close> in the bucket named \<open>bucket:a\<close>.\<close>

theorem s3_key_collision:
  assumes "s3_holds po backend bucket (a @ '':'' @ b) body csize d w" and "open_source po backend so" and "body \<noteq> []" and "0 < csize"
    and "check_s3_auth cx r False d = (d1, Inr ())" and "s3_limit cx r (s3_kv (bucket @ '':'' @ a) b) d1 = (d2, Inr ())"
    and "map_of (rq_headers r) ''range'' = None" and "header r ''if-none-match'' = []"
  shows "\<exists>d' w' hs out. s3_get_object cx so r (bucket @ '':'' @ a) b d w = ((d', w'), Inr (Bytes 200 hs out None)) \<and> concat out = body"
proof -
  have k: "s3_kv (bucket @ '':'' @ a) b = s3_kv bucket (a @ '':'' @ b)" by (simp add: s3_kv_def)
  have rg: "s3_range (map_of (rq_headers r) ''range'') (int (length body)) = Inr None" using assms(7) by (simp add: s3_range_def truthy_str_def)
  from get_serves [OF assms(1) k assms(2-6) rg assms(8)] show ?thesis by (simp add: selected_def)
qed

text \<open>Also: an empty object can be put but not got: the plan of its bytes raises \<^verbatim>\<open>ValueError\<close>.\<close>

theorem s3_empty_object_unreadable:
  assumes "s3_holds po backend bucket key [] csize d w"
    and "check_s3_auth cx r False d = (d1, Inr ())" and "s3_limit cx r (s3_kv bucket key) d1 = (d2, Inr ())"
    and "map_of (rq_headers r) ''range'' = None"
  shows "\<exists>d'. s3_get_object cx so r bucket key d w = ((d', w), Inl (ValueError ''range outside object''))"
proof -
  obtain row j m d3 where f: "s3_lookup bucket key d2 = (d3, Some row)" "o_manifest row = Some j" "from_json j = Inr m" "m_total_size m = 0"
    using get_finds [OF assms(1) refl assms(2,3)] by auto
  have "s3_range (map_of (rq_headers r) ''range'') n = Inr None" for n using assms(4) by (simp add: s3_range_def truthy_str_def)
  moreover have "map_range m 0 0 = Inl (ValueError ''range outside object'')" by (simp add: map_range_def)
  ultimately show ?thesis
    unfolding s3_get_object_def assms(2,3) prod.case sum.case f(1) option.case using f(2-4) by simp
qed

section \<open>Suffix ranges\<close>

text \<open>Also: a range \<open>a-b\<close> means the same here as in the download route, but a suffix range \<open>-n\<close>, the last \<open>n\<close> bytes in
  HTTP, selects the first \<open>n + 1\<close> bytes.\<close>

theorem s3_suffix_range_is_a_prefix:
  "s3_range (Some (range_text (str_of_nat a) (str_of_nat b))) n = (if int a < n \<and> a \<le> b then Inr (Some (int a, min (int b) (n - 1))) else Inl ())
   \<and> s3_range (Some (range_text [] (str_of_nat b))) n = (if 0 < n then Inr (Some (0, min (int b) (n - 1))) else Inl ())"
proof -
  have "split_on (CHR ''-'') (''-'' @ str_of_nat b) = [[], str_of_nat b]" using no_digit by (simp add: split_on_none)
  moreover have "CHR '','' \<notin> set (''-'' @ str_of_nat b)" using no_digit by auto
  ultimately have "s3_range (Some (range_text [] (str_of_nat b))) n = (if 0 < n then Inr (Some (0, min (int b) (n - 1))) else Inl ())"
    using range_header strip_nat(2) [of b] py_int_str_of_nat by (simp add: s3_range_def truthy_str_def Let_def)
  then show ?thesis using s3_range_span by blast
qed

section \<open>Pages\<close>

lemma page_offset_nat [simp]: "page_offset (Some (str_of_nat n)) = n"
  using py_int_str_of_nat [of n] by (simp add: page_offset_def truthy_str_def)

text \<open>A client that follows the continuation tokens.\<close>

function all_pages :: "nat \<Rightarrow> nat \<Rightarrow> 'a list \<Rightarrow> 'a list" where
  "all_pages lim offset xs =
     (if lim = 0 then [] else case page_of lim offset xs of
        (p, None) \<Rightarrow> p
      | (p, Some t) \<Rightarrow> p @ all_pages lim (page_offset (Some t)) xs)"
  by pat_completeness auto

termination
  by (relation "measure (\<lambda>(lim, offset, xs). length xs - offset)") (auto simp: page_of_def split: if_splits)

declare all_pages.simps [simp del]

text \<open>Also: following the continuation tokens of a listing gives every entry exactly once and in order, whatever the
  page size asked for.\<close>

theorem s3_pages_complete: "all_pages (page_size n) 0 xs = xs"
proof -
  have pos: "0 < page_size n" by (simp add: page_size_def)
  have "all_pages lim off xs = drop off xs" if "0 < lim" for lim off
    using that
  proof (induction lim off xs rule: all_pages.induct)
    case (1 lim off xs)
    show ?case
    proof (cases "off + lim < length xs")
      case True
      then have p: "page_of lim off xs = (take lim (drop off xs), Some (str_of_nat (off + lim)))" by (simp add: page_of_def)
      have "all_pages lim (off + lim) xs = drop (off + lim) xs" using 1(1) [OF _ p [symmetric] refl] 1(2) by simp
      then show ?thesis using 1(2) p by (subst all_pages.simps) (simp add: add.commute flip: drop_drop)
    next
      case False
      then have "page_of lim off xs = (take lim (drop off xs), None)" by (simp add: page_of_def)
      then show ?thesis using 1(2) False by (subst all_pages.simps) simp
    qed
  qed
  from this [OF pos, of 0] show ?thesis by simp
qed

section \<open>Writes\<close>

text \<open>C26: nobody without a key or a session changes anything through S3, even when authentication is switched off.\<close>

theorem s3_writes_need_key:
  assumes "visitor r"
  shows "(\<exists>e. put_object cx store delete sha read po backend token draws r bucket key stream d w = Some ((d, w), Inl e))
     \<and> (\<exists>e. s3_delete_object cx delete po backend r bucket key d w = ((d, w), Inl e))
     \<and> (\<exists>e. delete_objects cx keys delete po backend r bucket body d w = ((d, w), Inl e))
     \<and> (\<exists>e. create_bucket cx r bucket d = (d, Inl e))"
proof -
  have "\<exists>e. check_s3_auth cx r True d = (d, Inl e)" using visitor_role [OF assms] by (simp add: check_s3_auth_def Let_def)
  then show ?thesis by (auto simp: put_object_def s3_delete_object_def delete_objects_def create_bucket_def)
qed


section \<open>Witnesses\<close>

definition demo_s3 :: ctx where
  "demo_s3 = demo_cx\<lparr>cx_settings := (cx_settings demo_cx)\<lparr>s_rate_download_per_min := 0, s_rate_upload_per_min := 0\<rparr>\<rparr>"

lemma demo_s3_auth: "check_s3_auth demo_s3 demo_request write d = (d, Inr ())"
  by (simp add: check_s3_auth_def role_of_def whoami_def demo_presented demo_s3_def demo_cx_def constant_time_equal_def Let_def)

lemma demo_s3_upload_limit: "kv_get d (cfg_key ''rate_upload'') = None \<Longrightarrow>
    limit_upload (cx_sha256 demo_s3) (cx_now demo_s3) demo_request (get_int_setting d ''rate_upload'' (s_rate_upload_per_min (cx_settings demo_s3))) d = (d, Inr ())"
  by (simp add: limit_upload_def limited_def get_int_setting_def demo_s3_def Let_def)

lemma demo_s3_limit: "kv_get d (cfg_key ''rate_download'') = None \<Longrightarrow> s3_limit demo_s3 demo_request k d = (d, Inr ())"
  by (simp add: s3_limit_def limit_download_def limited_def get_int_setting_def demo_s3_def)

lemma demo_headers: "int_header demo_request ''content-length'' = Some 0" "map_of (rq_headers demo_request) ''range'' = None"
    "header demo_request ''if-none-match'' = []"
  by (simp_all add: demo_request_def header_def int_header_def)

lemma demo_replaceable: "replaceable po backend db_empty w k"
  by (simp add: replaceable_def kv_get_def db_empty_def)

definition demo_asks :: "ask \<Rightarrow> request" where
  "demo_asks ask = demo_request\<lparr>rq_headers := (case ask_header ask of None \<Rightarrow> [] | Some h \<Rightarrow> [(''range'', h)]) @ rq_headers demo_request\<rparr>"

lemma demo_s3_asks:
  assumes "kv_get d (cfg_key ''rate_download'') = None"
  shows "check_s3_auth demo_s3 (demo_asks ask) write d = (d, Inr ())" "s3_limit demo_s3 (demo_asks ask) k d = (d, Inr ())"
proof -
  have "presented_key (demo_asks ask) = Some ''adm''"
  proof -
    have "map_of (rq_headers (demo_asks ask)) ''authorization'' = map_of (rq_headers demo_request) ''authorization''"
      "map_of (rq_headers (demo_asks ask)) ''x-api-key'' = map_of (rq_headers demo_request) ''x-api-key''"
      "rq_query (demo_asks ask) = rq_query demo_request" by (simp_all add: demo_asks_def split: option.split)
    then have "presented_key (demo_asks ask) = presented_key demo_request" by (simp only: presented_key_def header_def query_def)
    then show ?thesis using demo_presented by simp
  qed
  then show "check_s3_auth demo_s3 (demo_asks ask) write d = (d, Inr ())"
    by (simp add: check_s3_auth_def role_of_def whoami_def demo_s3_def demo_cx_def constant_time_equal_def Let_def)
  show "s3_limit demo_s3 (demo_asks ask) k d = (d, Inr ())"
    using assms by (simp add: s3_limit_def limit_download_def limited_def get_int_setting_def demo_s3_def)
qed

lemma demo_kv_empty: "kv_get db_empty k = None"
  by (simp add: kv_get_def db_empty_def)

lemma demo_put:
  assumes "calm pieces" and "body = bytes_of pieces" and "length body \<le> 100"
  shows "\<exists>d3 w' hs. put_object demo_s3 fakes_store fakes_delete sha body_read None (Outside ''fake'') (\<lambda>_. []) [0] demo_request bucket key
       (body_reader_init pieces) db_empty (\<lambda>_. fake_init) = Some ((d3, w'), Inr (Plain 200 hs))
     \<and> s3_holds None (Outside ''fake'') bucket key body (nat (chunk_size (cx_settings demo_s3))) d3 w' \<and> kv_get d3 (cfg_key ''rate_download'') = None"
proof -
  have f: "\<forall>m. fake_ok ((\<lambda>_. fake_init) m)" by (simp add: fake_ok_def fake_init_def)
  have i: "find_obj db_empty (new_object_id [0]) = None" by (simp add: find_obj_def db_empty_def)
  have m: "0 \<le> get_int_setting db_empty ''max_upload_mb'' (s_max_upload_mb (cx_settings demo_s3)) * 1024 * 1024" "int (length body) \<le> get_int_setting db_empty ''max_upload_mb'' (s_max_upload_mb (cx_settings demo_s3)) * 1024 * 1024"
    using assms(3) by (simp_all add: get_int_setting_def demo_kv_empty demo_s3_def demo_cx_def default_settings_def)
  have c: "0 < chunk_size (cx_settings demo_s3)" by (simp add: chunk_size_def demo_s3_def demo_cx_def default_settings_def)
  have n: "[0 :: nat] \<noteq> []" by simp
  obtain d3 w' hs where p: "put_object demo_s3 fakes_store fakes_delete sha body_read None (Outside ''fake'') (\<lambda>_. []) [0] demo_request bucket key
       (body_reader_init pieces) db_empty (\<lambda>_. fake_init) = Some ((d3, w'), Inr (Plain 200 hs))"
     "s3_holds None (Outside ''fake'') bucket key body (nat (chunk_size (cx_settings demo_s3))) d3 w'"
     "\<forall>k. k \<noteq> s3_kv bucket key \<longrightarrow> kv_get d3 k = kv_get db_empty k"
    using put_leaves [where w = "\<lambda>_. fake_init" and sha = sha and po = None and backend = "Outside ''fake''" and token = "\<lambda>_. []" and bucket = bucket and key = key, OF assms(1,2) db_ok_empty f demo_replaceable n i demo_s3_auth demo_s3_upload_limit [OF demo_kv_empty] demo_headers(1) m c] demo_kv_empty [of "s3_kv bucket key"] by blast
  have "cfg_key ''rate_download'' \<noteq> s3_kv bucket key" by (simp add: cfg_key_def s3_kv_def)
  then have "kv_get d3 (cfg_key ''rate_download'') = None" using p(3) demo_kv_empty by simp
  then show ?thesis using p(1,2) by blast
qed

definition demo_open_source :: "(nat, string \<Rightarrow> nat fake) source" where
  "demo_open_source = \<lparr>so_fetch = fakes_open, so_cdn = None, so_hybrid = False, so_pool = None, so_backend = Outside ''fake''\<rparr>"

lemma demo_is_open: "open_source None (Outside ''fake'') demo_open_source"
  by (simp add: open_source_def demo_open_source_def)


theorem s3_key_collision_witness:
  "\<exists>d w d' w' hs out. s3_get_object demo_s3 demo_open_source demo_request ''b:x'' ''y'' d w = ((d', w'), Inr (Bytes 200 hs out None)) \<and> concat out = [1, 2, 3]"
proof -
  have b: "calm [Piece [1, 2], Piece [3 :: nat]]" "[1, 2, 3] = bytes_of [Piece [1, 2], Piece [3 :: nat]]" by simp_all
  obtain d w where h: "s3_holds None (Outside ''fake'') ''b'' (''x'' @ '':'' @ ''y'') [1, 2, 3 :: nat] (nat (chunk_size (cx_settings demo_s3))) d w"
     "kv_get d (cfg_key ''rate_download'') = None"
    using demo_put [OF b, of "\<lambda>_. ''h''" "''b''" "''x'' @ '':'' @ ''y''"] by auto
  have n: "[1, 2, 3 :: nat] \<noteq> []" "0 < nat (chunk_size (cx_settings demo_s3))"
    by (simp_all add: chunk_size_def demo_s3_def demo_cx_def default_settings_def)
  have "''b'' @ '':'' @ ''x'' = ''b:x''" by simp
  with s3_key_collision [OF h(1) demo_is_open n demo_s3_auth demo_s3_limit [OF h(2)] demo_headers(2,3)]
  obtain d' w' hs out where "s3_get_object demo_s3 demo_open_source demo_request ''b:x'' ''y'' d w = ((d', w'), Inr (Bytes 200 hs out None))" "concat out = [1, 2, 3]"
    by auto
  then show ?thesis by blast
qed

theorem s3_empty_object_unreadable_witness:
  "\<exists>d w d'. s3_get_object demo_s3 demo_open_source demo_request ''b'' ''k'' d w = ((d', w), Inl (ValueError ''range outside object''))"
proof -
  have b: "calm [Piece ([] :: nat list)]" "[] = bytes_of [Piece ([] :: nat list)]" by simp_all
  obtain d w where h: "s3_holds None (Outside ''fake'') ''b'' ''k'' ([] :: nat list) (nat (chunk_size (cx_settings demo_s3))) d w"
     "kv_get d (cfg_key ''rate_download'') = None"
    using demo_put [OF b, of "\<lambda>_. ''h''" "''b''" "''k''"] by auto
  from s3_empty_object_unreadable [OF h(1) demo_s3_auth demo_s3_limit [OF h(2)] demo_headers(2), of demo_open_source] show ?thesis by blast
qed

theorem s3_writes_need_key_witness:
  "\<exists>e. s3_delete_object demo_cx fakes_delete None (Outside ''fake'') (demo_visit [] []) ''b'' ''k'' demo_store (\<lambda>_. fake_init :: nat fake)
     = ((demo_store, \<lambda>_. fake_init), Inl e)"
  by (rule s3_writes_need_key [OF demo_visitor, where cx = demo_cx and delete = fakes_delete and po = None and backend = "Outside ''fake''"
    and bucket = "''b''" and key = "''k''" and d = demo_store and w = "\<lambda>_. fake_init", THEN conjunct2, THEN conjunct1])

end
