(* ===== verification/UploadFlow.thy ===== *)
theory UploadFlow
  imports UploadApi Serving
begin

text \<open>
  What the upload routes of \<^verbatim>\<open>src/src/anbar/api/upload.py\<close> promise: an admitted body is stored,
  recorded and readable; a failed one is reported with a status of its own and leaves nothing but its
  checkpoint; and what the status of a resumable upload says after that.
\<close>

section \<open>An accepted upload\<close>

lemma commit_row:
  assumes "commit now draws sha key s = (s', Inr i)"
  shows "\<exists>row. find_obj (sv_db s') i = Some row \<and> o_size row = sv_total_size s' \<and> sv_chunks s' = sv_chunks s
     \<and> o_manifest row = Some (to_json \<lparr>m_chunks = sv_chunks s, m_total_size = sv_total_size s'\<rparr>) \<and> i = new_object_id draws
     \<and> sv_ck_key s' = sv_ck_key s \<and> sv_world s' = sv_world s"
  using assms
  by (auto simp: commit_def insert_object_def find_obj_def find_append cache_put_def full_obj_def Let_def
      split: list.splits if_splits prod.splits sum.splits)

lemma drop_checkpoint_fields [simp]:
  "find_obj (sv_db (drop_checkpoint s)) i = find_obj (sv_db s) i" "sv_world (drop_checkpoint s) = sv_world s"
  "sv_chunks (drop_checkpoint s) = sv_chunks s" "sv_total_size (drop_checkpoint s) = sv_total_size s"
  by (simp_all add: drop_checkpoint_def find_obj_def split: option.split)

lemma drop_checkpoint_gone: "sv_ck_key s = Some k \<Longrightarrow> kv_get (sv_db (drop_checkpoint s)) k = None"
  by (simp add: drop_checkpoint_def kv_simps)

lemma log_audit_keeps [simp]:
  "find_obj (fst (log_audit now ev actor tgt ip dt d)) i = find_obj d i"
  "kv_get (fst (log_audit now ev actor tgt ip dt d)) k = kv_get d k"
  by (simp_all add: log_audit_def find_obj_def kv_get_def Let_def)

lemma commit_upload_done:
  assumes "commit (cx_now cx) draws sha_hex (uploader_key r) s = (s1, Inr i)"
  shows "\<exists>s' rep. commit_upload cx ffmpeg draws r sha_hex fn ct s = (s', Inr rep) \<and> up_id rep = i \<and> up_size rep = sv_total_size s1
     \<and> up_sha256 rep = sha_hex \<and> up_chunks rep = length (sv_chunks s1) \<and> find_obj (sv_db s') j = find_obj (sv_db s1) j \<and> sv_world s' = sv_world s1
     \<and> (case sv_ck_key s1 of None \<Rightarrow> True | Some k \<Rightarrow> kv_get (sv_db s') k = None)"
  unfolding commit_upload_def assms Let_def using drop_checkpoint_gone [of s1]
  by (auto simp: split_beta split: option.split)

lemma pick_keeps: "pick_member now s = (s', x) \<Longrightarrow> sv_ck_key s' = sv_ck_key s"
  by (auto simp: pick_member_def split: if_splits option.splits prod.splits)

lemma store_at_keeps: "store_at store h data nm cap s = (s', x) \<Longrightarrow> sv_ck_key s' = sv_ck_key s"
  by (auto simp: store_at_def split: prod.splits)

lemma store_chunk_keeps: "store_chunk store env n data idx cap s = (s', x) \<Longrightarrow> sv_ck_key s' = sv_ck_key s"
  by (auto simp: store_chunk_def Let_def split: prod.splits sum.splits if_splits dest!: pick_keeps store_at_keeps)

lemma on_chunk_keeps: "on_chunk store env secret data media s = (s', x) \<Longrightarrow> sv_ck_key s' = sv_ck_key s"
  by (auto simp: on_chunk_def record_chunk_def write_checkpoint_def Let_def split: prod.splits sum.splits if_splits option.splits
      dest!: store_chunk_keeps)

lemma stream_keeps:
  fixes read :: "'s \<Rightarrow> nat \<Rightarrow> ('b list \<times> 's) res" and s :: "('b, 'w) svc"
  assumes "chunk_stream sha read csize (on_chunk store env secret) media mx stream s = Some (s', x)"
  shows "sv_ck_key s' = sv_ck_key s"
proof -
  have "sv_ck_key (fst (s', x)) = sv_ck_key s"
    by (rule chunk_loop_keeps [where P = "\<lambda>t. sv_ck_key t = sv_ck_key s", OF _ assms [unfolded chunk_stream_def]])
      (auto dest: on_chunk_keeps)
  then show ?thesis by simp
qed

lemma service_for_fields:
  "sv_resume_from (service_for cx po backend fn ct u 0 d w) = 0" "sv_chunks (service_for cx po backend fn ct u n d w) = []"
  "sv_ck_key (service_for cx po backend fn ct u n d w) = (if truthy_str u then Some (''upres:'' @ the u) else None)"
  by (simp_all add: service_for_def svc_init_def Let_def)

lemma stored_ck_key:
  assumes "store_stream store delete sha read env stream (service_for cx po backend fn ct u 0 d w) = Some (s', Inr h)"
  shows "sv_ck_key s' = (if truthy_str u then Some (''upres:'' @ the u) else None)"
  using assms unfolding store_stream_fresh [OF service_for_fields(1,2)]
  by (auto simp: service_for_fields(3) split: option.splits prod.splits sum.splits dest!: stream_keeps)

text \<open>C2: an admitted raw upload of a body within the ceiling is answered with its size, its hash and its number of
  chunks; the row of the id in the reply names chunks that read back as the body, from whichever members of the
  pool hold them; and the checkpoint of the upload is gone.\<close>

theorem upload_route_stores:
  fixes w :: "string \<Rightarrow> 'b fake"
  assumes "calm pieces" and "body = bytes_of pieces" and "body \<noteq> []"
    and "env_ok (service_env cx env)" and "\<forall>m. fake_ok (w m)" and "po = None \<or> (\<exists>n. po = Some (pool_init n))"
    and "admit_upload cx r d = (d1, Inr ())" and "find_obj d1 (new_object_id draws) = None"
    and "int_header r ''content-length'' = Some declared" and "declared \<le> max_upload cx d1" and "int (length body) \<le> max_upload cx d1"
    and "resume_headers r = Inr (upload_id, 0)"
  shows "\<exists>d2 w2 rep row m. upload_raw cx guess fakes_store fakes_delete sha env po backend ffmpeg draws r pieces d w = Some ((d2, w2), Inr rep)
     \<and> up_id rep = new_object_id draws \<and> up_size rep = int (length body) \<and> up_sha256 rep = sha body
     \<and> up_chunks rep = length (chop (nat (chunk_size (cx_settings cx))) body)
     \<and> find_obj d2 (up_id rep) = Some row \<and> o_size row = int (length body) \<and> o_sha256 row = Some (sha body)
     \<and> from_json (the (o_manifest row)) = Inr m \<and> read_object fakes_open po backend w2 m = Inr body
     \<and> (truthy_str upload_id \<longrightarrow> kv_get d2 (''upres:'' @ the upload_id) = None)"
proof -
  define fn where "fn = (case map_of (rq_headers r) ''x-file-name'' of None \<Rightarrow> ''upload.bin'' | Some f \<Rightarrow> f)"
  define ct where "ct = resolve_content_type guess fn (case map_of (rq_headers r) ''content-type'' of None \<Rightarrow> Some ''application/octet-stream'' | Some c \<Rightarrow> Some c)"
  let ?id = "new_object_id draws" and ?s = "service_for cx po backend fn (Some ct) upload_id 0 d1 w"
  have mx: "case Some (nat (max_upload cx d1)) of None \<Rightarrow> True | Some m \<Rightarrow> length body \<le> m" using assms(11) by simp
  from upload_commits [OF assms(1-4) mx assms(5,6,8), where backend = backend and fn = fn and ct = "Some ct" and upload_id = upload_id
    and sha = sha and now = "cx_now cx" and key = "uploader_key r"]
  obtain s1 s2 row m where u: "store_stream fakes_store fakes_delete sha body_read (service_env cx env) (body_reader_init pieces) ?s = Some (s1, Inr (sha body))"
     "commit (cx_now cx) draws (sha body) (uploader_key r) s1 = (s2, Inr ?id)" "find_obj (sv_db s2) ?id = Some row"
     "o_size row = int (length body)" "o_sha256 row = Some (sha body)" "from_json (the (o_manifest row)) = Inr m"
     "list_all2 (fakes.stored_as po backend (sv_world s2)) (m_chunks m) (chop (en_chunk_size (service_env cx env)) body)"
     "read_object fakes_open po backend (sv_world s2) m = Inr body"
    unfolding service_for_def by (elim exE conjE)
  from commit_row [OF u(2)] u(3) have c: "o_size row = sv_total_size s2" "sv_chunks s2 = sv_chunks s1" "sv_ck_key s2 = sv_ck_key s1"
    "o_manifest row = Some (to_json \<lparr>m_chunks = sv_chunks s1, m_total_size = sv_total_size s2\<rparr>)" by auto
  have "length (m_chunks m) = length (sv_chunks s2)" using u(6) c(2,4) by (auto simp: from_json_to_json)
  then have n: "length (sv_chunks s2) = length (chop (nat (chunk_size (cx_settings cx))) body)"
    using list_all2_lengthD [OF u(7)] by (simp add: service_env_def)
  from commit_upload_done [OF u(2), of ffmpeg fn ct ?id]
  obtain s3 rep where r: "commit_upload cx ffmpeg draws r (sha body) fn ct s1 = (s3, Inr rep)" "up_id rep = ?id" "up_size rep = sv_total_size s2"
     "up_sha256 rep = sha body" "up_chunks rep = length (sv_chunks s2)" "find_obj (sv_db s3) ?id = find_obj (sv_db s2) ?id" "sv_world s3 = sv_world s2"
     "case sv_ck_key s2 of None \<Rightarrow> True | Some k \<Rightarrow> kv_get (sv_db s3) k = None" by (elim exE conjE)
  have "store_upload cx fakes_store fakes_delete sha body_read env po backend (body_reader_init pieces) fn (Some ct) upload_id 0 d1 w = Some (s1, Inr (sha body))"
    unfolding store_upload_def u(1) by simp
  then have "store_and_commit cx fakes_store fakes_delete sha body_read env po backend ffmpeg draws r (body_reader_init pieces) fn ct d1 w
      = Some ((sv_db s3, sv_world s3), Inr rep)"
    unfolding store_and_commit_def assms(12) by (simp add: r(1))
  then have up: "upload_raw cx guess fakes_store fakes_delete sha env po backend ffmpeg draws r pieces d w = Some ((sv_db s3, sv_world s3), Inr rep)"
    unfolding upload_raw_def assms(7,9) Let_def fn_def [symmetric] ct_def [symmetric] using assms(10) by simp
  have "truthy_str upload_id \<longrightarrow> kv_get (sv_db s3) (''upres:'' @ the upload_id) = None"
    using r(8) stored_ck_key [OF u(1)] c(3) by auto
  then show ?thesis using up r(2-7) u c(1) n by (intro exI [where x = "sv_db s3"] exI [where x = "sv_world s3"] exI [where x = rep] exI [where x = row] exI [where x = m] conjI) simp_all
qed

section \<open>A failed upload\<close>

text \<open>An error that a backend raises for some call.\<close>

definition raises :: "'b store_op \<Rightarrow> exc \<Rightarrow> bool" where
  "raises st e = (\<exists>m data nm cap w w'. st m data nm cap w = (w', Inl e))"

text \<open>What a checkpoint lists, and whether its first \<open>n\<close> entries can be read as chunks.\<close>

definition listed_chunks :: "string \<Rightarrow> json list res" where
  "listed_chunks t =
     (case loads t of
        None \<Rightarrow> Inr []
      | Some (JObj kvs) \<Rightarrow> (case map_of kvs ''chunks'' of None \<Rightarrow> Inr [] | Some v \<Rightarrow> as_list v)
      | Some v \<Rightarrow> as_list v)"

definition readable :: "nat \<Rightarrow> string \<Rightarrow> bool" where
  "readable n t = (\<exists>l. listed_chunks t = Inr l \<and> list_all (\<lambda>i. \<exists>c. prior_chunk i (l ! i) = Inr c) [0..<n])"

definition checkpoint_text :: "string option \<Rightarrow> db \<Rightarrow> string" where
  "checkpoint_text u d = str_or (kv_get d (''upres:'' @ str_or u [])) []"

text \<open>What stands behind a status of the upload route.\<close>

definition cause_of :: "int \<Rightarrow> 'b store_op \<Rightarrow> 'b arrival list \<Rightarrow> int \<Rightarrow> string option \<Rightarrow> nat \<Rightarrow> db \<Rightarrow> bool" where
  "cause_of status st arrivals mx u n d =
     (if status = 408 then Stall \<in> set arrivals
      else if status = 413 then mx < int (length (bytes_of arrivals))
      else if status = 409 then \<exists>l. listed_chunks (checkpoint_text u d) = Inr l \<and> length l < n
      else if status = 504 then raises st FloodBudgetExceeded
      else status = 502 \<and> ((\<exists>e. raises st e \<and> e \<noteq> FloodBudgetExceeded) \<or> 0 < n \<and> \<not> readable n (checkpoint_text u d)))"

lemma pull_outcome:
  "case pull stall n as buf eof of Inl e \<Rightarrow> e = stall \<and> Stall \<in> set as
   | Inr r \<Rightarrow> set (br_iter r) \<subseteq> set as \<and> body_rest r = buf @ bytes_of as \<and> (br_buf r = [] \<and> 0 < n \<and> \<not> eof \<longrightarrow> br_iter r = [])"
  by (induction stall n as buf eof rule: pull.induct) (auto simp: body_rest_def split: arrival.split sum.splits)

lemma body_read_outcome:
  "case body_read r n of Inl e \<Rightarrow> e = BodyReadTimeout \<and> Stall \<in> set (br_iter r)
   | Inr (p, r') \<Rightarrow> set (br_iter r') \<subseteq> set (br_iter r) \<and> body_rest r = p @ body_rest r' \<and> (p = [] \<and> 0 < n \<and> \<not> br_eof r \<longrightarrow> body_rest r = [])"
proof (cases "pull BodyReadTimeout n (br_iter r) (br_buf r) (br_eof r)")
  case (Inl e)
  then show ?thesis using pull_outcome [where stall = BodyReadTimeout and n = n and as = "br_iter r" and buf = "br_buf r" and eof = "br_eof r"] by (simp add: body_read_def)
next
  case (Inr r')
  note o = pull_outcome [where stall = BodyReadTimeout and n = n and as = "br_iter r" and buf = "br_buf r" and eof = "br_eof r", unfolded Inr sum.case]
  have "body_rest r' = body_rest r" using o by (simp add: body_rest_def)
  moreover have "body_rest r' = take n (br_buf r') @ (drop n (br_buf r') @ bytes_of (br_iter r'))" by (simp add: body_rest_def)
  moreover have "take n (br_buf r') = [] \<and> 0 < n \<and> \<not> br_eof r \<longrightarrow> body_rest r' = []" using o by (auto simp: body_rest_def)
  ultimately show ?thesis using Inr o by (simp add: body_read_def body_rest_def)
qed

lemma body_read_rest: "body_read r n = Inr (p, r') \<Longrightarrow> body_rest r = p @ body_rest r'"
  using body_read_outcome [of r n] by simp

lemma on_chunk_error:
  assumes "svc_ok s" and "env_ok env" and "on_chunk st env secret data media s = (s', Inl e)"
  shows "raises st e"
proof (cases "sv_skip s = 0")
  case False
  then show ?thesis using assms(3) by (simp add: on_chunk_def Let_def)
next
  case True
  define s1 where "s1 = (let s = s\<lparr>sv_calls := sv_calls s + 1\<rparr> in if sv_first_chunk s = [] then s\<lparr>sv_first_chunk := data\<rparr> else s)"
  have "same s s1" by (simp add: s1_def Let_def same_def)
  then have ok: "svc_ok s1" using same_ok assms(1) by blast
  obtain cap where cap: "encode_chunk_caption (en_keys env\<lparr>k_nonce := en_nonce env (sv_calls s)\<rparr>) (en_clock env (sv_calls s) 0)
            (str_or (sv_upload_id s1) []) (int (length (sv_chunks s1))) 0 (sv_filename s1) 0 (sv_content_type s1) None secret = Inr cap"
    using caption_total [of "en_keys env\<lparr>k_nonce := en_nonce env (sv_calls s)\<rparr>"] assms(2) by (fastforce simp: env_ok_def)
  obtain s2 y where y: "store_chunk st env (sv_calls s) data (length (sv_chunks s1)) cap s1 = (s2, y)" by (rule prod.exhaust)
  have "on_chunk st env secret data media s = (case y of Inl e \<Rightarrow> (s2, Inl e) | Inr (h, r) \<Rightarrow> record_chunk env (sv_calls s) data h r s2)"
    using True cap y unfolding on_chunk_def Let_def s1_def by (cases "sv_first_chunk s = []") simp_all
  then have "y = Inl e" using assms(3) by (auto simp: record_chunk_def Let_def split: sum.splits)
  then obtain m nm w1 where "st m data nm (Some cap) w1 = (sv_world s2, Inl e)" using store_chunk_tries [OF ok y] by auto
  then show ?thesis unfolding raises_def by blast
qed

lemma seed_outcome:
  "case seed k js cs of (cs', Inl e) \<Rightarrow> \<exists>i < length js. prior_chunk (k + i) (js ! i) = Inl e
   | (cs', Inr _) \<Rightarrow> length cs' = length cs + length js"
proof (induction k js cs rule: seed.induct)
  case (2 i j js cs)
  show ?case
  proof (cases "prior_chunk i j")
    case (Inr c)
    note ih = 2 [OF Inr]
    show ?thesis
    proof (cases "seed (i + 1) js (cs @ [c])")
      case (Pair cs' x)
      show ?thesis
      proof (cases x)
        case (Inl e)
        then obtain a where "a < length js" "prior_chunk (i + 1 + a) (js ! a) = Inl e" using ih Pair by auto
        then show ?thesis using Inr Pair Inl by (auto intro!: exI [of _ "Suc a"])
      qed (use ih Pair Inr in auto)
    qed
  qed (auto intro!: exI [of _ 0])
qed simp

lemma prior_errors: "prior_chunk i j = Inl e \<Longrightarrow> e = TypeError \<or> (\<exists>k. e = KeyError k)"
  by (auto simp: prior_chunk_def j_item_def as_int_def as_str_def get_int_def get_str_def split: json.splits option.splits sum.splits)

text \<open>The checkpoint of an upload that the service loads.\<close>

lemma prior_outcome:
  fixes s0 :: "('b, 'w) svc"
  assumes s0_def: "s0 = service_for cx po backend fn ct u n d w"
  shows "case load_prior_chunks s0 of
      Inl e \<Rightarrow> 0 < n \<and> (e = ResumeOutOfRange \<and> (\<exists>l. listed_chunks (checkpoint_text u d) = Inr l \<and> length l < n)
          \<or> e = TypeError \<and> \<not> readable n (checkpoint_text u d))
    | Inr prior \<Rightarrow> length prior = sv_resume_from s0 \<and> (0 < sv_resume_from s0 \<longrightarrow> sv_resume_from s0 = n \<and>
          (\<exists>l. listed_chunks (checkpoint_text u d) = Inr l \<and> prior = take n l \<and> n \<le> length l))"
proof (cases "truthy_str u \<and> 0 < n")
  case False
  then have "sv_ck_key s0 = None \<or> sv_resume_from s0 = 0" by (auto simp: s0_def service_for_def svc_init_def Let_def)
  moreover from this have "sv_resume_from s0 = 0" by (auto simp: s0_def service_for_def svc_init_def Let_def split: if_splits)
  ultimately show ?thesis by (simp add: load_prior_chunks_def)
next
  case True
  then have s0: "sv_ck_key s0 = Some (''upres:'' @ str_or u [])" "sv_resume_from s0 = n" "sv_db s0 = d"
    by (auto simp: s0_def service_for_def svc_init_def Let_def truthy_str_def str_or_def split: option.splits)
  have "load_prior_chunks s0 = rbind (listed_chunks (checkpoint_text u d)) (\<lambda>prior. if length prior < n then Inl ResumeOutOfRange else Inr (take n prior))"
    using True unfolding load_prior_chunks_def s0 listed_chunks_def checkpoint_text_def by simp
  moreover have "e = TypeError" if "listed_chunks t = Inl e" for t e
    using that by (auto simp: listed_chunks_def as_list_def split: option.splits json.splits)
  ultimately show ?thesis using True s0(2) by (cases "listed_chunks (checkpoint_text u d)") (auto simp: readable_def)
qed

lemma service_for_more:
  "sv_world (service_for cx po backend fn ct u n d w) = w" "sv_db (service_for cx po backend fn ct u n d w) = d"
  "sv_max_bytes (service_for cx po backend fn ct u n d w) = Some (nat (max_upload cx d))"
  "sv_skip (service_for cx po backend fn ct u n d w :: ('b, 'w) svc) = sv_resume_from (service_for cx po backend fn ct u n d w :: ('b, 'w) svc)"
  by (simp_all add: service_for_def svc_init_def Let_def)

lemma service_for_ok:
  assumes "po = None \<or> (\<exists>n. po = Some (pool_init n))"
  shows "svc_ok (service_for cx po backend fn ct u n d w\<lparr>sv_chunks := cs\<rparr>)"
  using assms by (auto simp: service_for_def svc_init_def Let_def svc_ok_def pool_size_def pool_init_def
      intro!: exI [of _ "_ :: nat"] split: if_splits)

text \<open>Storing an upload ends in the chunker, unless its checkpoint cannot be taken over.\<close>

lemma store_stream_cases:
  fixes s0 :: "('b, 'w) svc"
  assumes s0_def: "s0 = service_for cx po backend fn ct u n d w" and "store_stream st delete sha read env stream s0 = Some (s', x)"
  shows "(\<exists>cs e. x = Inl e \<and> s' = s0\<lparr>sv_chunks := cs\<rparr> \<and> 0 < n
        \<and> (e = ResumeOutOfRange \<and> (\<exists>l. listed_chunks (checkpoint_text u d) = Inr l \<and> length l < n)
          \<or> (e = TypeError \<or> (\<exists>k. e = KeyError k)) \<and> \<not> readable n (checkpoint_text u d)))
    \<or> (\<exists>cs s1 y. length cs = sv_resume_from s0
        \<and> chunk_stream sha read (en_chunk_size env) (on_chunk st env (effective_hmac_secret d (en_hmac_secret env))) (truthy_str ct)
            (Some (nat (max_upload cx d))) stream (s0\<lparr>sv_chunks := cs\<rparr>) = Some (s1, y)
        \<and> (case y of Inl e \<Rightarrow> x = Inl e \<and> s' = fst (rollback delete s1) | Inr (_, h) \<Rightarrow> x = Inr h \<and> s' = s1))"
proof -
  note p = prior_outcome [OF s0_def]
  have s0: "sv_chunks s0 = []" "sv_db s0 = d" "sv_content_type s0 = ct" "sv_max_bytes s0 = Some (nat (max_upload cx d))"
    by (simp_all add: s0_def service_for_def svc_init_def Let_def)
  show ?thesis
  proof (cases "load_prior_chunks s0")
    case (Inl e)
    have "s0\<lparr>sv_chunks := []\<rparr> = s0" using s0(1) by (cases s0) simp
    then show ?thesis using p assms(2) Inl by (intro disjI1 exI [of _ "[]"]) (auto simp: store_stream_def)
  next
    case (Inr prior)
    note load = Inr
    obtain cs y where sd: "seed 0 prior [] = (cs, y)" by (rule prod.exhaust)
    note o = seed_outcome [where k = 0 and js = prior and cs = "[]", unfolded sd prod.case]
    show ?thesis
    proof (cases y)
      case (Inl e)
      then obtain i where i: "i < length prior" "prior_chunk i (prior ! i) = Inl e" using o by auto
      then have "0 < sv_resume_from s0" using p load by auto
      then obtain l where l: "listed_chunks (checkpoint_text u d) = Inr l" "prior = take n l" "sv_resume_from s0 = n" using p load by auto
      have "\<not> readable n (checkpoint_text u d)"
      proof
        assume "readable n (checkpoint_text u d)"
        then have "\<exists>c. prior_chunk i (l ! i) = Inr c" using l i(1) by (auto simp: readable_def list_all_iff)
        then show False using i l(2) by auto
      qed
      moreover have "x = Inl e" "s' = s0\<lparr>sv_chunks := cs\<rparr>" using assms(2) load sd Inl s0(1) by (auto simp: store_stream_def)
      ultimately show ?thesis using prior_errors [OF i(2)] l(3) \<open>0 < sv_resume_from s0\<close> by blast
    next
      case (Inr z)
      have "length cs = sv_resume_from s0" using o Inr p load by simp
      moreover obtain s1 y where "chunk_stream sha read (en_chunk_size env) (on_chunk st env (effective_hmac_secret d (en_hmac_secret env))) (truthy_str ct)
            (Some (nat (max_upload cx d))) stream (s0\<lparr>sv_chunks := cs\<rparr>) = Some (s1, y)"
        "case y of Inl e \<Rightarrow> x = Inl e \<and> s' = fst (rollback delete s1) | Inr (_, h) \<Rightarrow> x = Inr h \<and> s' = s1"
        using assms(2) load sd Inr s0 by (auto simp: store_stream_def Let_def split: option.splits prod.splits sum.splits)
      ultimately show ?thesis by blast
    qed
  qed
qed

lemma store_stream_stored:
  fixes s0 :: "('b, 'w) svc"
  assumes "s0 = service_for cx po backend fn ct u n d w" and "store_stream st delete sha read env stream s0 = Some (s', Inr h)"
  shows "\<exists>cs x. length cs = sv_resume_from s0
     \<and> chunk_stream sha read (en_chunk_size env) (on_chunk st env (effective_hmac_secret d (en_hmac_secret env))) (truthy_str ct)
            (Some (nat (max_upload cx d))) stream (s0\<lparr>sv_chunks := cs\<rparr>) = Some (s', Inr x)"
  using store_stream_cases [OF assms]
proof (elim disjE exE conjE)
  fix cs s1 y
  assume c: "length cs = sv_resume_from s0"
      "chunk_stream sha read (en_chunk_size env) (on_chunk st env (effective_hmac_secret d (en_hmac_secret env))) (truthy_str ct)
            (Some (nat (max_upload cx d))) stream (s0\<lparr>sv_chunks := cs\<rparr>) = Some (s1, y)"
    and y: "case y of Inl e \<Rightarrow> Inr h = Inl e \<and> s' = fst (rollback delete s1) | Inr (_, h') \<Rightarrow> Inr h = Inr h' \<and> s' = s1"
  obtain x where "y = Inr x" using y by (cases y) auto
  moreover from this have "s' = s1" using y by (auto split: prod.splits)
  ultimately show ?thesis using c by blast
qed simp_all

lemma stream_objects:
  fixes s :: "('b, string \<Rightarrow> 'b fake) svc" and read :: "'s \<Rightarrow> nat \<Rightarrow> ('b list \<times> 's) res"
  assumes "flaky st" and "svc_ok s" and "chunk_stream sha read csize (on_chunk st env secret) media mx stream s = Some (s1, y)"
  shows "d_objects (sv_db s1) = d_objects (sv_db s) \<and> (sv_chunks s \<noteq> [] \<longrightarrow> sv_chunks s1 \<noteq> [])"
proof -
  let ?P = "\<lambda>t. svc_ok t \<and> d_objects (sv_db t) = d_objects (sv_db s) \<and> (sv_chunks s \<noteq> [] \<longrightarrow> sv_chunks t \<noteq> [])"
  have "?P (fst (s1, y))"
    by (rule chunk_loop_keeps [where P = ?P, OF _ assms(3) [unfolded chunk_stream_def]]) (use flaky_keeps [OF assms(1)] assms(2) in auto)
  then show ?thesis by simp
qed

text \<open>An upload that stored no chunk had an empty body.\<close>

lemma stored_nothing:
  fixes s :: "('b, string \<Rightarrow> 'b fake) svc"
  assumes "flaky st" and "svc_ok s" and "0 < csize" and "sv_skip s = 0"
    and run: "chunk_stream sha body_read csize (on_chunk st env secret) media mx (body_reader_init arrivals) s = Some (s1, Inr y)"
    and "sv_chunks s1 = []"
  shows "bytes_of arrivals = []"
proof -
  let ?r = "body_reader_init arrivals" and ?cb = "on_chunk st env secret"
  have rest: "body_rest ?r = bytes_of arrivals" "br_eof ?r = False" by (simp_all add: body_reader_init_def body_rest_def)
  note loop = run [unfolded chunk_stream_def, simplified chunk_loop.simps [of sha body_read csize ?cb media mx ?r s 0 0 "[]"]]
  obtain x where x: "fill body_read mx 0 csize ?r [] = x" by blast
  show ?thesis
  proof (cases x)
    case (Inl e)
    then show ?thesis using loop x by simp
  next
    case (Inr br)
    obtain buf r' where br: "br = (buf, r')" by (rule prod.exhaust)
    show ?thesis
    proof (cases "buf = []")
      case True
      note o = body_read_outcome [of ?r csize]
      have "\<exists>r''. body_read ?r csize = Inr ([], r'')"
      proof (cases "body_read ?r csize")
        case (Inl e)
        then show ?thesis using x Inr br assms(3) by (subst (asm) fill.simps) simp
      next
        case (Inr pr)
        obtain p r'' where pr: "pr = (p, r'')" by (rule prod.exhaust)
        show ?thesis
        proof (cases "p = []")
          case False
          have "case fill body_read mx 0 csize r'' p of
               Inl e \<Rightarrow> (\<exists>(s :: 'b body_reader) n. True \<and> body_read s n = Inl e) \<or> (e = UploadCeilingExceeded \<and> (\<exists>m. mx = Some m \<and> m < 0 + length p + length (body_rest r'')))
             | Inr (buf', s') \<Rightarrow> True \<and> p @ body_rest r'' = buf' @ body_rest s' \<and> (p \<noteq> [] \<longrightarrow> buf' \<noteq> [])"
            by (rule fill_outcome [of "\<lambda>_. True" body_read body_rest]) (simp_all add: body_read_rest)
          note fo = this
          have "fill body_read mx 0 csize ?r [] = fill body_read mx 0 csize r'' p"
            using x \<open>x = Inr br\<close> Inr pr False assms(3) by (subst (asm) fill.simps, subst fill.simps) (auto split: option.splits if_splits)
          then have "fill body_read mx 0 csize r'' p = Inr ([], r')" using x \<open>x = Inr br\<close> br True by simp
          then show ?thesis using fo False by simp
        qed (use Inr pr in simp)
      qed
      then show ?thesis using o rest assms(3) by auto
    next
      case False
      obtain s2 z where o: "?cb buf media s = (s2, z)" by (rule prod.exhaust)
      show ?thesis
      proof (cases z)
        case (Inl e)
        then show ?thesis using loop x Inr br False o by simp
      next
        case (Inr f)
        note k = flaky_keeps [OF assms(1,2) o]
        have run': "chunk_loop sha body_read csize ?cb media mx r' s2 (length buf) 1 buf = Some (s1, Inr y)"
          using loop x \<open>x = Inr br\<close> br False o Inr by simp
        have "(\<lambda>t. svc_ok t \<and> sv_chunks t \<noteq> []) (fst (s1, Inr y :: (nat \<times> string) res))"
          by (rule chunk_loop_keeps [where P = "\<lambda>t. svc_ok t \<and> sv_chunks t \<noteq> []", OF _ run']) (use flaky_keeps [OF assms(1)] k assms(4) Inr in blast)+
        then show ?thesis using assms(6) by simp
      qed
    qed
  qed
qed

lemma store_error_status:
  "e \<notin> {BodyReadTimeout, UploadCeilingExceeded, ResumeOutOfRange} \<Longrightarrow>
     \<exists>msg. store_error e = HTTPException (if e = FloodBudgetExceeded then 504 else 502) msg"
  by (cases e) (simp_all add: store_error_def describe_storage_error_def)

lemma storing_error:
  fixes w :: "string \<Rightarrow> 'b fake"
  assumes po: "po = None \<or> (\<exists>n. po = Some (pool_init n))" and k: "env_ok (service_env cx env)" and fl: "flaky st"
    and own: "\<forall>e \<in> {BodyReadTimeout, UploadCeilingExceeded, ResumeOutOfRange}. \<not> raises st e"
    and run: "store_upload cx st fakes_delete sha body_read env po backend (body_reader_init arrivals) fn ct u n d w = Some (s', Inl e)"
  shows "(\<exists>status msg. e = HTTPException status msg \<and> cause_of status st arrivals (max_upload cx d) u n d) \<and> d_objects (sv_db s') = d_objects d"
proof -
  let ?s0 = "service_for cx po backend fn ct u n d w :: ('b, string \<Rightarrow> 'b fake) svc"
  obtain e' where e: "store_stream st fakes_delete sha body_read (service_env cx env) (body_reader_init arrivals) ?s0 = Some (s', Inl e')"
    "e = store_error e'" using run by (auto simp: store_upload_def split: option.splits prod.splits sum.splits)
  from store_stream_cases [OF refl e(1)] show ?thesis
  proof (elim disjE exE conjE)
    fix cs e1 l
    assume "Inl e' = Inl e1" "s' = ?s0\<lparr>sv_chunks := cs\<rparr>" "e1 = ResumeOutOfRange"
      "listed_chunks (checkpoint_text u d) = Inr l" "length l < n"
    then show ?thesis using e(2) by (simp add: store_error_def cause_of_def service_for_more)
  next
    fix cs e1
    assume "Inl e' = Inl e1" "s' = ?s0\<lparr>sv_chunks := cs\<rparr>" "e1 = TypeError" "\<not> readable n (checkpoint_text u d)" "0 < n"
    then show ?thesis using e(2) by (simp add: store_error_def describe_storage_error_def cause_of_def service_for_more)
  next
    fix cs e1 k
    assume "Inl e' = Inl e1" "s' = ?s0\<lparr>sv_chunks := cs\<rparr>" "e1 = KeyError k" "\<not> readable n (checkpoint_text u d)" "0 < n"
    then show ?thesis using e(2) by (simp add: store_error_def describe_storage_error_def cause_of_def service_for_more)
  next
    fix cs s1 y
    let ?cb = "on_chunk st (service_env cx env) (effective_hmac_secret d (en_hmac_secret (service_env cx env)))"
    assume c: "chunk_stream sha body_read (en_chunk_size (service_env cx env)) ?cb (truthy_str ct) (Some (nat (max_upload cx d)))
        (body_reader_init arrivals) (?s0\<lparr>sv_chunks := cs\<rparr>) = Some (s1, y)"
      and y: "case y of Inl e \<Rightarrow> Inl e' = Inl e \<and> s' = fst (rollback fakes_delete s1) | Inr (_, h) \<Rightarrow> Inl e' = Inr h \<and> s' = s1"
    have ok: "svc_ok (?s0\<lparr>sv_chunks := cs\<rparr>)" by (rule service_for_ok [OF po])
    have y': "y = Inl e'" "s' = fst (rollback fakes_delete s1)" using y by (auto split: sum.splits)
    obtain s2 j where rb: "rollback_chunks fakes_delete (sv_chunks s1) s1 = (s2, j)" by (rule prod.exhaust)
    have "d_objects (sv_db s') = d_objects d"
      using rollback_blobs [OF rb] stream_objects [OF fl ok c] y'(2) rb by (simp add: rollback_def service_for_more)
    moreover have "(\<exists>r m. set (br_iter r) \<subseteq> set arrivals \<and> body_read r m = Inl e')
        \<or> (e' = UploadCeilingExceeded \<and> (\<exists>m. Some (nat (max_upload cx d)) = Some m \<and> m < 0 + length (body_rest (body_reader_init arrivals))))
        \<or> (\<exists>buf m t1 t2. svc_ok t1 \<and> ?cb buf m t1 = (t2, Inl e'))"
    proof (rule chunk_loop_error [where P = svc_ok and I = "\<lambda>r. set (br_iter r) \<subseteq> set arrivals" and rest = body_rest])
      show "set (br_iter r') \<subseteq> set arrivals \<and> body_rest r = p @ body_rest r'"
        if "set (br_iter r) \<subseteq> set arrivals" "body_read r m = Inr (p, r')" for r m p r'
        using that body_read_outcome [of r m] by auto
      show "chunk_loop sha body_read (en_chunk_size (service_env cx env)) ?cb (truthy_str ct) (Some (nat (max_upload cx d)))
          (body_reader_init arrivals) (?s0\<lparr>sv_chunks := cs\<rparr>) 0 0 [] = Some (s1, Inl e')" using c y'(1) by (simp add: chunk_stream_def)
      show "svc_ok t'" if "svc_ok t" "?cb buf m t = (t', x)" for buf m t t' x using flaky_keeps [OF fl that] by blast
    qed (simp_all add: ok body_reader_init_def)
    then have "\<exists>status msg. e = HTTPException status msg \<and> cause_of status st arrivals (max_upload cx d) u n d"
    proof (elim disjE exE conjE)
      fix r m
      assume "set (br_iter r) \<subseteq> set arrivals" "body_read r m = Inl e'"
      then have "e' = BodyReadTimeout" "Stall \<in> set arrivals" using body_read_outcome [of r m] by auto
      then show ?thesis using e(2) by (simp add: store_error_def cause_of_def)
    next
      fix m
      assume "e' = UploadCeilingExceeded" "Some (nat (max_upload cx d)) = Some m" "m < 0 + length (body_rest (body_reader_init arrivals))"
      then have "max_upload cx d < int (length (bytes_of arrivals))" by (simp add: body_reader_init_def body_rest_def)
      then show ?thesis using e(2) \<open>e' = UploadCeilingExceeded\<close> by (simp add: store_error_def cause_of_def)
    next
      fix buf m t1 t2
      assume "svc_ok t1" "?cb buf m t1 = (t2, Inl e')"
      then have r: "raises st e'" using on_chunk_error [OF _ k] by blast
      then obtain msg where "store_error e' = HTTPException (if e' = FloodBudgetExceeded then 504 else 502) msg"
        using own store_error_status [of e'] by auto
      then show ?thesis using r e(2) by (auto simp: cause_of_def)
    qed
    ultimately show ?thesis by blast
  qed
qed

lemma commit_error:
  assumes "commit now draws sha key s = (s', Inl e)" and "find_obj (sv_db s) (new_object_id draws) = None"
  shows "e = IndexError \<and> sv_chunks s = [] \<and> d_objects (sv_db s') = d_objects (sv_db s)"
  using assms by (auto simp: commit_def insert_object_def Let_def split: list.splits if_splits prod.splits sum.splits)

lemma resume_headers_from:
  "resume_headers r = Inr (u, n) \<Longrightarrow> sv_resume_from (service_for cx po backend fn ct u n d w) = n"
  by (auto simp: resume_headers_def service_for_def svc_init_def Let_def truthy_str_def split: if_splits option.splits)


text \<open>Finding out who calls leaves every kv entry but the session secret.\<close>

lemma session_kv: "k \<noteq> ''ui_session_secret'' \<Longrightarrow> kv_get (snd (session_secret tok d)) k = kv_get d k"
  by (simp add: session_secret_def kv_simps)

lemma verify_kv: "k \<noteq> ''ui_session_secret'' \<Longrightarrow> kv_get (snd (verify_session hmac now tok v d)) k = kv_get d k"
  using session_kv [of k tok d] by (auto simp: verify_session_def split_beta Let_def split: list.split option.split)

lemma cookie_kv: "k \<noteq> ''ui_session_secret'' \<Longrightarrow> kv_get (snd (cookie_role hmac now tok ps d)) k = kv_get d k"
proof (induction ps arbitrary: d)
  case (Cons p ps)
  show ?case using Cons.IH [OF Cons.prems] verify_kv [OF Cons.prems, of hmac now tok "drop 14 (strip p)" d]
    by (auto simp: Let_def split: prod.split sum.split option.split)
qed simp

lemma whoami_kv: "k \<noteq> ''ui_session_secret'' \<Longrightarrow> kv_get (snd (whoami sha hmac now tok s r d)) k = kv_get d k"
  using cookie_kv by (auto simp: whoami_def Let_def)

lemma uploader_kv:
  assumes "require_uploader sha hmac now tok s r d = (x, d')" and "k \<noteq> ''ui_session_secret''"
  shows "kv_get d' k = kv_get d k"
  using assms(1) whoami_kv [OF assms(2), of sha hmac now tok s r d] by (auto simp: require_uploader_def split: prod.splits if_splits)

lemma bytes_of_checkpoint: "bytes_done (map ck_chunk cs) = Some (sum_list (map c_size cs))"
  by (induction cs) (simp_all add: ck_chunk_def)

lemma ck_chunk_wf: "jwf (ck_chunk c)"
  by (auto simp: ck_chunk_def jstr_opt_def truthy_str_def split: option.splits)

lemma read_checkpoint:
  assumes "checkpoint_of cs t"
  shows "\<exists>now. read_status i t = \<lparr>rs_upload_id = i, rs_exists = True, rs_chunks_done = length cs, rs_bytes_done = sum_list (map c_size cs), rs_timestamp = JInt now\<rparr>"
proof -
  obtain now where t: "t = dumps_compact (JObj [(''_ts'', JInt now), (''chunks'', JList (map ck_chunk cs))])" using assms by (auto simp: checkpoint_of_def)
  have "loads t = Some (JObj [(''_ts'', JInt now), (''chunks'', JList (map ck_chunk cs))])"
    unfolding t using ck_chunk_wf by (intro loads_dumps) auto
  then show ?thesis by (simp add: read_status_def bytes_of_checkpoint)
qed

text \<open>Also: after a failed upload whose chunks were rolled back, its status still says that the chunks exist and how many
  bytes they have, though none of them can be fetched any more.\<close>

theorem failed_upload_looks_resumable:
  fixes read :: "'s \<Rightarrow> nat \<Rightarrow> ('b list \<times> 's) res"
  assumes "\<forall>m. fake_ok (w m)" and "po = None \<or> (\<exists>n. po = Some (pool_init n))" and "flaky st"
    and "store_upload cx st fakes_delete sha read env po backend stream fn ct (Some u) 0 d w = Some (s', Inl e)"
    and "sv_chunks s' \<noteq> []" and "u \<noteq> []" and "strip u = u"
    and "require_uploader (cx_sha256 cx') (cx_hmac cx') (cx_now cx') (cx_tok cx') (cx_settings cx') r (sv_db s') = (Inr ro, d')"
  shows "\<exists>now. get_upload_resume_status cx' r u (sv_db s') = (d', Inr \<lparr>rs_upload_id = u, rs_exists = True,
       rs_chunks_done = length (sv_chunks s'), rs_bytes_done = sum_list (map c_size (sv_chunks s')), rs_timestamp = JInt now\<rparr>)
     \<and> filter (\<lambda>c. \<exists>x. snd (fakes_open (pool_name po (holder_of po backend (c_backend c))) (mk_ref (c_file_id c) (c_message_id c) []) (sv_world s')) = Inr x)
        (sv_chunks s') = []"
proof -
  obtain e' where e: "store_stream st fakes_delete sha read (service_env cx env) stream (service_for cx po backend fn ct (Some u) 0 d w) = Some (s', Inl e')"
    using assms(4) by (auto simp: store_upload_def split: option.splits prod.splits sum.splits)
  have ck: "sv_ck_key (svc_init backend d fn ct (Some u) 0 ''upres'' po (Some (nat (max_upload cx d))) w :: ('b, string \<Rightarrow> 'b fake) svc) = Some (''upres:'' @ u)"
    using assms(6) by (simp add: svc_init_def Let_def)
  note f = failed_upload [OF assms(1-3) e [unfolded service_for_def], unfolded ck option.case]
  then obtain t where t: "kv_get (sv_db s') (''upres:'' @ u) = Some t" "checkpoint_of (sv_chunks s') t" using assms(5) by blast
  have "kv_get d' (''upres:'' @ u) = Some t" using uploader_kv [OF assms(8), of "''upres:'' @ u"] t(1) by simp
  moreover have "t \<noteq> []" using t(2) by (auto simp: checkpoint_of_def dumps_compact_def)
  ultimately have "get_upload_resume_status cx' r u (sv_db s') = (d', Inr (read_status u t))"
    unfolding get_upload_resume_status_def assms(8) prod.case sum.case Let_def assms(7) using assms(6) by (simp add: truthy_str_def)
  moreover have "blob (sv_world s') (chunk_at po backend c) = None" if "c \<in> set (sv_chunks s')" for c using f that by simp
  ultimately show ?thesis using read_checkpoint [OF t(2), of u] by (auto simp: filter_empty_conv fakes_open_blob chunk_at_def)
qed

section \<open>Witnesses\<close>

definition demo_up :: ctx where
  "demo_up = demo_cx\<lparr>cx_settings := (cx_settings demo_cx)\<lparr>s_rate_upload_per_min := 0\<rparr>\<rparr>"

definition up_request :: request where
  "up_request = demo_request\<lparr>rq_headers := [(''authorization'', ''Bearer adm''), (''x-upload-id'', ''u'')]\<rparr>"

lemma up_presented: "presented_key up_request = Some ''adm''"
  by code_simp

lemma demo_no_kv: "kv_get db_empty k = None"
  by (simp add: kv_get_def db_empty_def)

lemma up_admitted: "require_uploader (cx_sha256 demo_up) (cx_hmac demo_up) (cx_now demo_up) (cx_tok demo_up) (cx_settings demo_up) up_request d = (Inr Admin, d)"
  by (simp add: require_uploader_def whoami_def up_presented demo_up_def demo_cx_def constant_time_equal_def)

lemma up_admit: "admit_upload demo_up up_request db_empty = (db_empty, Inr ())"
  unfolding admit_upload_def up_admitted prod.case sum.case
  by (simp add: limit_upload_def limited_def rate_upload_def get_int_setting_def demo_no_kv demo_up_def Let_def)

lemma up_env_ok: "env_ok (service_env demo_up (demo_env 1))"
  by (simp add: env_ok_def service_env_def demo_env_def toy_keys_def chunk_size_def demo_up_def demo_cx_def default_settings_def)

lemma up_headers: "int_header up_request ''content-length'' = Some 0" "resume_headers up_request = Inr (Some ''u'', 0)"
  by (simp_all add: int_header_def resume_headers_def up_request_def header_def strip_by_def lstrip_by_def rstrip_by_def is_space_def code_def)

lemma up_max: "max_upload demo_up db_empty = 10240 * 1024 * 1024"
  by (simp add: max_upload_def get_int_setting_def demo_no_kv demo_up_def demo_cx_def default_settings_def)

theorem upload_route_stores_witness:
  "\<exists>d2 w2 rep row m. upload_raw demo_up (\<lambda>_. None) fakes_store fakes_delete (\<lambda>_. ''h'') (demo_env 1) (Some (pool_init 3)) (Member 0) False [0] up_request
       [Piece [1, 2], Piece [3 :: nat]] db_empty (\<lambda>_. fake_init) = Some ((d2, w2), Inr rep)
     \<and> up_size rep = 3 \<and> find_obj d2 (up_id rep) = Some row \<and> from_json (the (o_manifest row)) = Inr m
     \<and> read_object fakes_open (Some (pool_init 3)) (Member 0) w2 m = Inr [1, 2, 3] \<and> kv_get d2 (''upres:'' @ ''u'') = None"
proof -
  have b: "calm [Piece [1, 2], Piece [3 :: nat]]" "[1, 2, 3] = bytes_of [Piece [1, 2], Piece [3 :: nat]]" "[1, 2, 3 :: nat] \<noteq> []" by simp_all
  have po: "Some (pool_init 3) = None \<or> (\<exists>n. Some (pool_init 3) = Some (pool_init n))" by blast
  have i: "find_obj db_empty (new_object_id [0]) = None" by (simp add: find_obj_def db_empty_def)
  have m: "0 \<le> max_upload demo_up db_empty" "int (length [1, 2, 3 :: nat]) \<le> max_upload demo_up db_empty" by (simp_all add: up_max)
  from upload_route_stores [OF b up_env_ok fakes_init_ok po up_admit i up_headers(1) m up_headers(2), where guess = "\<lambda>_. None" and sha = "\<lambda>_. ''h''"
    and backend = "Member 0" and ffmpeg = False]
  obtain d2 w2 rep row m where "upload_raw demo_up (\<lambda>_. None) fakes_store fakes_delete (\<lambda>_. ''h'') (demo_env 1) (Some (pool_init 3)) (Member 0) False [0] up_request
       [Piece [1, 2], Piece [3 :: nat]] db_empty (\<lambda>_. fake_init) = Some ((d2, w2), Inr rep)" "up_size rep = 3"
    "find_obj d2 (up_id rep) = Some row" "from_json (the (o_manifest row)) = Inr m"
    "read_object fakes_open (Some (pool_init 3)) (Member 0) w2 m = Inr [1, 2, 3]" "kv_get d2 (''upres:'' @ ''u'') = None"
    by (elim exE conjE) (simp add: truthy_str_def)
  then show ?thesis by (intro exI conjI)
qed

text \<open>A stall after the first chunk, whatever the chunk size.\<close>

definition stalling :: "nat \<Rightarrow> nat \<Rightarrow> (nat list \<times> nat) res" where
  "stalling s n = (if s = 0 then Inr (replicate n 4, Suc 0) else Inl BodyReadTimeout)"

lemma stalled_upload:
  defines "s0 \<equiv> service_for demo_up None (Outside ''fake'') ''f'' None (Some ''u'') 0 db_empty (\<lambda>_. fake_init) :: (nat, string \<Rightarrow> nat fake) svc"
  shows "\<exists>s'. store_upload demo_up fakes_store fakes_delete sha stalling (demo_env 1) None (Outside ''fake'') 0 ''f'' None (Some ''u'') 0 db_empty (\<lambda>_. fake_init)
     = Some (s', Inl (HTTPException 408 ''client stalled'')) \<and> sv_chunks s' \<noteq> []"
proof -
  define env where "env = service_env demo_up (demo_env 1)"
  define c where "c = en_chunk_size env"
  have eok: "env_ok env" using up_env_ok by (simp add: env_def)
  then have c: "0 < c" by (simp add: env_ok_def c_def)
  have f: "sv_resume_from s0 = 0" "sv_chunks s0 = []" "sv_skip s0 = 0" "svc_ok s0"
    by (simp_all add: s0_def service_for_def svc_init_def Let_def svc_ok_def)
  define mx where "mx = nat (max_upload demo_up db_empty)"
  have "c \<le> mx" unfolding mx_def up_max by (simp add: c_def env_def service_env_def chunk_size_def demo_up_def demo_cx_def default_settings_def)
  moreover have "sv_max_bytes s0 = Some mx" by (simp add: s0_def service_for_def svc_init_def Let_def mx_def)
  ultimately have mx: "sv_max_bytes s0 = Some mx" "c \<le> mx" by blast+
  let ?cb = "on_chunk fakes_store env (effective_hmac_secret (sv_db s0) (en_hmac_secret env))" and ?d = "replicate c (4 :: nat)"
  from fakes_on_chunk_form [OF f(4) eok f(3)]
  obtain s2 h r w where o: "?cb ?d (truthy_str (sv_content_type s0)) s0 = record_chunk env (sv_calls s0) ?d h r (s2\<lparr>sv_world := w\<rparr>)" by metis
  define s1 where "s1 = fst (record_chunk env (sv_calls s0) ?d h r (s2\<lparr>sv_world := w\<rparr>))"
  have s1: "?cb ?d (truthy_str (sv_content_type s0)) s0 = (s1, Inr (or_file_id r))" "sv_chunks s1 \<noteq> []"
    unfolding o s1_def by (simp_all add: record_chunk_def Let_def)
  have one: "fill stalling (Some mx) 0 c 0 [] = Inr (?d, Suc 0)"
    using c mx(2) by (subst fill.simps, simp add: stalling_def) (subst fill.simps, simp)
  have two: "fill stalling (Some mx) t c (Suc 0) [] = Inl BodyReadTimeout" for t using c by (subst fill.simps) (simp add: stalling_def)
  have "chunk_stream sha stalling c ?cb (truthy_str (sv_content_type s0)) (Some mx) 0 s0 = Some (s1, Inl BodyReadTimeout)"
    unfolding chunk_stream_def using one two s1(1) c by (subst chunk_loop.simps) (simp add: chunk_loop.simps [of _ _ _ _ _ _ "Suc 0"])
  moreover obtain s' n where r: "rollback_chunks fakes_delete (sv_chunks s1) s1 = (s', n)" by (metis surj_pair)
  ultimately have "store_stream fakes_store fakes_delete sha stalling env 0 s0 = Some (s', Inl BodyReadTimeout)"
    unfolding store_stream_fresh [OF f(1,2)] c_def [symmetric] mx(1) by (simp add: rollback_def)
  then have "store_upload demo_up fakes_store fakes_delete sha stalling (demo_env 1) None (Outside ''fake'') 0 ''f'' None (Some ''u'') 0 db_empty (\<lambda>_. fake_init)
     = Some (s', Inl (HTTPException 408 ''client stalled''))"
    unfolding store_upload_def env_def s0_def by (simp add: store_error_def)
  then show ?thesis using rollback_blobs [OF r] s1(2) by auto
qed

text \<open>A backend that gives up on a flood at every call.\<close>

definition flooded :: "nat store_op" where
  "flooded m data nm cap w = (w, Inl FloodBudgetExceeded)"

lemma flooded_raises: "raises flooded e \<longleftrightarrow> e = FloodBudgetExceeded"
  by (auto simp: raises_def flooded_def)

lemma flooded_on_chunk:
  assumes "\<not> sv_distribute s" and "env_ok env" and "sv_skip s = 0"
  shows "\<exists>s'. on_chunk flooded env secret data media s = (s', Inl FloodBudgetExceeded)"
proof -
  define s1 where "s1 = (let s = s\<lparr>sv_calls := sv_calls s + 1\<rparr> in if sv_first_chunk s = [] then s\<lparr>sv_first_chunk := data\<rparr> else s)"
  have d: "\<not> sv_distribute s1" using assms(1) by (simp add: s1_def Let_def)
  obtain cap where cap: "encode_chunk_caption (en_keys env\<lparr>k_nonce := en_nonce env (sv_calls s)\<rparr>) (en_clock env (sv_calls s) 0)
            (str_or (sv_upload_id s1) []) (int (length (sv_chunks s1))) 0 (sv_filename s1) 0 (sv_content_type s1) None secret = Inr cap"
    using caption_total [of "en_keys env\<lparr>k_nonce := en_nonce env (sv_calls s)\<rparr>"] assms(2) by (fastforce simp: env_ok_def)
  have "store_chunk flooded env (sv_calls s) data (length (sv_chunks s1)) cap s1 = (s1\<lparr>sv_world := sv_world s1\<rparr>, Inl FloodBudgetExceeded)"
    using d by (simp add: store_chunk_def pick_member_def store_at_def flooded_def)
  then show ?thesis using assms(3) cap unfolding on_chunk_def Let_def s1_def by (cases "sv_first_chunk s = []") simp_all
qed

lemma flooded_upload:
  "\<exists>s'. store_upload demo_up flooded fakes_delete sha body_read (demo_env 1) None (Outside ''fake'') (body_reader_init [Piece [1, 2]]) fn ct (Some ''u'') 0 db_empty w
     = Some (s', Inl (HTTPException 504 ''storage error''))"
proof -
  let ?s0 = "service_for demo_up None (Outside ''fake'') fn ct (Some ''u'') 0 db_empty w :: (nat, string \<Rightarrow> nat fake) svc"
  let ?env = "service_env demo_up (demo_env 1)" and ?r = "body_reader_init [Piece [1, 2 :: nat]]"
  let ?cb = "on_chunk flooded ?env (effective_hmac_secret (sv_db ?s0) (en_hmac_secret ?env))"
  have f: "sv_resume_from ?s0 = 0" "sv_chunks ?s0 = []" "sv_skip ?s0 = 0" "\<not> sv_distribute ?s0" "sv_max_bytes ?s0 = Some (nat (max_upload demo_up db_empty))"
    by (simp_all add: service_for_def svc_init_def Let_def)
  have cs: "0 < en_chunk_size ?env" using up_env_ok by (simp add: env_ok_def)
  have rest: "body_rest ?r = [1, 2]" "body_good ?r" by (simp_all add: body_rest_def body_good_def body_reader_init_def)
  have mx: "case Some (nat (max_upload demo_up db_empty)) of None \<Rightarrow> True | Some m \<Rightarrow> length (body_rest ?r) \<le> m" unfolding rest up_max by simp
  obtain c rest' where ch: "chop (en_chunk_size ?env) (body_rest ?r) = c # rest'" using cs rest(1) by (simp add: chop.simps)
  obtain s1 where "?cb c (truthy_str (sv_content_type ?s0)) ?s0 = (s1, Inl FloodBudgetExceeded)" using flooded_on_chunk [OF f(4) up_env_ok f(3)] by blast
  then have "chunk_stream sha body_read (en_chunk_size ?env) ?cb (truthy_str (sv_content_type ?s0)) (sv_max_bytes ?s0) ?r ?s0 = Some (s1, Inl FloodBudgetExceeded)"
    using body.chunk_stream_feed [OF rest(2) cs mx, of sha ?cb "truthy_str (sv_content_type ?s0)" ?s0] unfolding ch f(5) by simp
  then have "store_stream flooded fakes_delete sha body_read ?env ?r ?s0 = Some (fst (rollback fakes_delete s1), Inl FloodBudgetExceeded)"
    unfolding store_stream_fresh [OF f(1,2)] by simp
  then show ?thesis by (simp add: store_upload_def store_error_def describe_storage_error_def)
qed


theorem failed_upload_looks_resumable_witness:
  "\<exists>(s' :: (nat, string \<Rightarrow> nat fake) svc) now. sv_chunks s' \<noteq> []
     \<and> get_upload_resume_status demo_up up_request ''u'' (sv_db s') = (sv_db s', Inr \<lparr>rs_upload_id = ''u'', rs_exists = True,
       rs_chunks_done = length (sv_chunks s'), rs_bytes_done = sum_list (map c_size (sv_chunks s')), rs_timestamp = JInt now\<rparr>)
     \<and> filter (\<lambda>c. \<exists>x. snd (fakes_open (pool_name None (holder_of None (Outside ''fake'') (c_backend c))) (mk_ref (c_file_id c) (c_message_id c) [])
         (sv_world s')) = Inr x) (sv_chunks s') = []"
proof -
  obtain s' where s': "store_upload demo_up fakes_store fakes_delete (\<lambda>_. ''h'') stalling (demo_env 1) None (Outside ''fake'') 0 ''f'' None (Some ''u'') 0 db_empty (\<lambda>_. fake_init)
     = Some (s', Inl (HTTPException 408 ''client stalled''))" "sv_chunks s' \<noteq> []" using stalled_upload by blast
  have po: "None = None \<or> (\<exists>n. None = Some (pool_init n))" by simp
  have u: "''u'' \<noteq> []" "strip ''u'' = ''u''" by (simp_all add: strip_by_def lstrip_by_def rstrip_by_def is_space_def code_def)
  from failed_upload_looks_resumable [OF fakes_init_ok po flaky_fakes s' u up_admitted] obtain now where n:
    "get_upload_resume_status demo_up up_request ''u'' (sv_db s') = (sv_db s', Inr \<lparr>rs_upload_id = ''u'', rs_exists = True,
       rs_chunks_done = length (sv_chunks s'), rs_bytes_done = sum_list (map c_size (sv_chunks s')), rs_timestamp = JInt now\<rparr>)"
    "filter (\<lambda>c. \<exists>x. snd (fakes_open (pool_name None (holder_of None (Outside ''fake'') (c_backend c))) (mk_ref (c_file_id c) (c_message_id c) [])
         (sv_world s')) = Inr x) (sv_chunks s') = []" by blast
  show ?thesis by (rule exI [where x = s'], rule exI [where x = now], intro conjI, rule s'(2), rule n(1), rule n(2))
qed

end
