(* ===== verification/SubsImport.thy ===== *)
theory SubsImport
  imports UploadApi
begin

text \<open>
  \<^verbatim>\<open>src/src/anbar/subs_extract.py\<close>: importing the subtitle tracks embedded in an uploaded video. What
  ffprobe prints about the gathered file and what ffmpeg extracts from it are arguments; the time
  limits are left out. A byte is a character, as in the subtitle parser.
\<close>

section \<open>What ffprobe reports\<close>

record sub_stream =
  ss_index :: int
  ss_codec :: string
  ss_lang :: string
  ss_title :: string

text \<open>\<^verbatim>\<open>str(v)\<close>; the tags ffprobe prints are strings, so a container is never converted.\<close>

fun py_str :: "json \<Rightarrow> string" where
  "py_str (JStr s) = s"
| "py_str (JInt n) = str_of_int n"
| "py_str (JBool b) = (if b then ''True'' else ''False'')"
| "py_str JNull = ''None''"
| "py_str _ = []"

definition text_codec :: "json \<Rightarrow> bool" where
  "text_codec s =
     (jget s ''codec_type'' = Some (JStr ''subtitle'')
      \<and> jget s ''codec_name'' \<in> (Some \<circ> JStr) ` {''subrip'', ''srt'', ''ass'', ''ssa'', ''webvtt'', ''mov_text''})"

(* src: src/src/anbar/subs_extract.py 94-102 _text_sub_streams *)
definition sub_stream_of :: "json \<Rightarrow> sub_stream res" where
  "sub_stream_of s =
     rbind (rbind (j_item s ''index'') (\<lambda>v. case v of
         JInt n \<Rightarrow> Inr n
       | JBool b \<Rightarrow> Inr (if b then 1 else 0)
       | JStr t \<Rightarrow> (case py_int t of None \<Rightarrow> Inl (ValueError ''int'') | Some n \<Rightarrow> Inr n)
       | _ \<Rightarrow> Inl TypeError)) (\<lambda>idx.
     let tags = (case jget s ''tags'' of None \<Rightarrow> JObj [] | Some v \<Rightarrow> if jtruthy v then v else JObj []);
         tag = (\<lambda>k. case jget tags k of None \<Rightarrow> [] | Some v \<Rightarrow> py_str v)
     in (case tags of
           JObj _ \<Rightarrow> Inr \<lparr>ss_index = idx, ss_codec = (case jget s ''codec_name'' of Some v \<Rightarrow> py_str v | None \<Rightarrow> []),
                       ss_lang = lower (tag ''language''), ss_title = tag ''title''\<rparr>
         | _ \<Rightarrow> Inl TypeError))"

(* src: src/src/anbar/subs_extract.py auto _text_sub_streams *)
definition text_sub_streams :: "json \<Rightarrow> sub_stream list res" where
  "text_sub_streams data =
     (case data of
        JObj kvs \<Rightarrow>
          rbind (case map_of kvs ''streams'' of None \<Rightarrow> Inr [] | Some v \<Rightarrow> as_list v) (\<lambda>ss.
            if list_all (\<lambda>s. case s of JObj _ \<Rightarrow> True | _ \<Rightarrow> False) ss
            then mapr sub_stream_of (filter text_codec ss) else Inl TypeError)
      | _ \<Rightarrow> Inl TypeError)"

section \<open>The import\<close>

(* src: src/src/anbar/subs_extract.py auto _lang_name *)
definition lang_name :: "string \<Rightarrow> string \<Rightarrow> int \<Rightarrow> string" where
  "lang_name lang title idx =
     (let lang = strip lang; lang = (if lang = ''per'' then ''fa'' else lang);
          base = (if lang \<noteq> [] then ''embedded'' else ''embedded-'' @ str_of_int idx);
          safe = strip (take 40 (filter (\<lambda>c. is_alnum c \<or> c \<in> set '' ._-'') title));
          base = (if title \<noteq> [] \<and> safe \<noteq> [] then base @ '' '' @ safe else base)
      in base @ ''.srt'')"

text \<open>An error leaves what was written before it.\<close>

(* src: src/src/anbar/subs_extract.py auto _gather_all_chunks *)
fun gather_chunks :: "(int \<Rightarrow> int \<Rightarrow> int \<Rightarrow> 's \<Rightarrow> 's \<times> string res) \<Rightarrow> (int \<times> int) list \<Rightarrow> 's \<Rightarrow> 's \<times> string" where
  "gather_chunks fetch [] s = (s, [])"
| "gather_chunks fetch ((i, n) # cs) s =
     (case fetch i 0 n s of
        (s, Inl _) \<Rightarrow> (s, [])
      | (s, Inr data) \<Rightarrow> (case gather_chunks fetch cs s of (s, rest) \<Rightarrow> (s, data @ rest)))"

definition DONE_PREFIX :: string where "DONE_PREFIX = ''subsimported:''"

(* src: src/src/anbar/subs_extract.py 35-35 MAX_EMBEDDED *)
definition MAX_EMBEDDED :: nat where "MAX_EMBEDDED = 8"

(* src: src/src/anbar/subs_extract.py auto _filename_of *)
definition filename_of :: "string \<Rightarrow> db \<Rightarrow> db \<times> string" where
  "filename_of i d = (case get_object i False d of (None, d) \<Rightarrow> (d, []) | (Some row, d) \<Rightarrow> (d, o_filename row))"

text \<open>The loop over the streams: languages and labels already there are skipped, a track that does
  not parse is skipped, any other error ends the import with what it has. \<open>token\<close> gives the random part of a
  track id.\<close>

(* src: src/src/anbar/subs_extract.py 204-236 import_embedded *)
fun import_streams :: "(int \<Rightarrow> string option) \<Rightarrow> (nat \<Rightarrow> string) \<Rightarrow> string \<Rightarrow> json option list \<Rightarrow> json option list \<Rightarrow> sub_stream list \<Rightarrow> nat
    \<Rightarrow> db \<Rightarrow> db \<times> json list" where
  "import_streams extract token i langs labels [] n d = (d, [])"
| "import_streams extract token i langs labels (st # sts) n d =
     (let eff = (if ss_lang st = ''per'' then ''fa'' else ss_lang st) in
      if eff \<noteq> [] \<and> Some (JStr eff) \<in> set langs then import_streams extract token i langs labels sts n d
      else (case extract (ss_index st) of
         None \<Rightarrow> import_streams extract token i langs labels sts n d
       | Some data \<Rightarrow>
           let fname = lang_name (ss_lang st) (ss_title st) (ss_index st); label = take (length fname - 4) fname in
           if Some (JStr label) \<in> set labels then import_streams extract token i langs labels sts n d
           else (case add_track (token n) i fname data False (Some eff) d of
              (d, Inr view) \<Rightarrow>
                (case import_streams extract token i (Some (JStr eff) # langs) (Some (JStr label) # labels) sts (n + 1) d of
                   (d, vs) \<Rightarrow> (d, view # vs))
            | (d, Inl (ValueError _)) \<Rightarrow> import_streams extract token i langs labels sts n d
            | (d, Inl _) \<Rightarrow> (d, []))))"

text \<open>\<open>probe\<close>: what ffprobe prints about the file, \<open>None\<close> when it fails or prints no JSON.\<close>

(* src: src/src/anbar/subs_extract.py auto import_embedded *)
definition import_embedded :: "bool \<Rightarrow> (string \<Rightarrow> json option) \<Rightarrow> (string \<Rightarrow> int \<Rightarrow> string option) \<Rightarrow> (nat \<Rightarrow> string)
    \<Rightarrow> (int \<Rightarrow> int \<Rightarrow> int \<Rightarrow> db \<times> 'w \<Rightarrow> (db \<times> 'w) \<times> string res) \<Rightarrow> string \<Rightarrow> (int \<times> int) list \<Rightarrow> bool \<Rightarrow> db \<Rightarrow> 'w \<Rightarrow> (db \<times> 'w) \<times> json list" where
  "import_embedded available probe extract token fetch i chunks force d w =
     (case (if available then filename_of i d else (d, [])) of
        (d, fn) \<Rightarrow>
          if \<not> available \<or> \<not> video_ext fn then ((d, w), [])
          else if \<not> force \<and> truthy_str (kv_get d (DONE_PREFIX @ i)) then ((d, w), [])
          else (case gather_chunks fetch chunks (kv_set (DONE_PREFIX @ i) ''1'' d, w) of
             ((d, w), video) \<Rightarrow>
               if length video < 16 * 1024 then ((d, w), [])
               else (case probe video of
                  None \<Rightarrow> ((d, w), [])
                | Some out \<Rightarrow>
                    (case text_sub_streams out of
                       Inl _ \<Rightarrow> ((d, w), [])
                     | Inr sts \<Rightarrow>
                         (case import_streams (extract video) token i (map (\<lambda>t. jget t ''lang'') (load_tracks d i))
                             (map (\<lambda>t. jget t ''label'') (load_tracks d i)) (take MAX_EMBEDDED sts) 0 d of
                            (d, vs) \<Rightarrow> ((d, w), vs))))))"

section \<open>What the import does\<close>

lemma add_track_kv: "k \<noteq> subs_key i \<Longrightarrow> kv_get (fst (add_track token i fn data dflt lang d)) k = kv_get d k"
  by (auto simp: add_track_def save_tracks_def kv_simps Let_def split: prod.split sum.split)

text \<open>One round: the stream is skipped, or the import ends, or a track is added and its label remembered.\<close>

lemma import_cons:
  defines "fname st \<equiv> lang_name (ss_lang st) (ss_title st) (ss_index st)"
  shows "\<exists>d1. (\<forall>k. k \<noteq> subs_key i \<longrightarrow> kv_get d1 k = kv_get d k)
     \<and> (import_streams extract token i langs labels (st # sts) n d = (d1, [])
      \<or> import_streams extract token i langs labels (st # sts) n d = import_streams extract token i langs labels sts n d1
      \<or> Some (JStr (take (length (fname st) - 4) (fname st))) \<notin> set labels \<and> (\<exists>x view. import_streams extract token i langs labels (st # sts) n d
          = (case import_streams extract token i (x # langs) (Some (JStr (take (length (fname st) - 4) (fname st))) # labels) sts (n + 1) d1 of
               (d, vs) \<Rightarrow> (d, view # vs))))"
proof -
  define eff where "eff = (if ss_lang st = ''per'' then ''fa'' else ss_lang st)"
  define label where "label = take (length (fname st) - 4) (fname st)"
  have step: "import_streams extract token i langs labels (st # sts) n d =
     (if eff \<noteq> [] \<and> Some (JStr eff) \<in> set langs then import_streams extract token i langs labels sts n d
      else (case extract (ss_index st) of
         None \<Rightarrow> import_streams extract token i langs labels sts n d
       | Some data \<Rightarrow>
           if Some (JStr label) \<in> set labels then import_streams extract token i langs labels sts n d
           else (case add_track (token n) i (fname st) data False (Some eff) d of
              (d, Inr view) \<Rightarrow>
                (case import_streams extract token i (Some (JStr eff) # langs) (Some (JStr label) # labels) sts (n + 1) d of
                   (d, vs) \<Rightarrow> (d, view # vs))
            | (d, Inl (ValueError _)) \<Rightarrow> import_streams extract token i langs labels sts n d
            | (d, Inl _) \<Rightarrow> (d, []))))"
    unfolding import_streams.simps(2) eff_def label_def fname_def Let_def by (rule refl)
  show ?thesis
  proof (cases "eff \<noteq> [] \<and> Some (JStr eff) \<in> set langs")
    case True
    then show ?thesis unfolding step by auto
  next
    case l: False
    show ?thesis
    proof (cases "extract (ss_index st)")
      case None
      then show ?thesis unfolding step using l by auto
    next
      case (Some data)
      obtain d1 r where add: "add_track (token n) i (fname st) data False (Some eff) d = (d1, r)" by (metis surj_pair)
      have k: "\<forall>k. k \<noteq> subs_key i \<longrightarrow> kv_get d1 k = kv_get d k" using add_track_kv [of _ i "token n" "fname st" data False "Some eff" d] add by auto
      show ?thesis
      proof (cases "Some (JStr label) \<in> set labels")
        case True
        then show ?thesis unfolding step using l Some by auto
      next
        case new: False
        show ?thesis
        proof (cases r)
          case (Inl e)
          then show ?thesis unfolding step using l Some new add k by (cases e) auto
        next
          case (Inr view)
          then show ?thesis unfolding step label_def [symmetric] using l Some new add k by (intro exI [where x = d1]) auto
        qed
      qed
    qed
  qed
qed

lemma untitled_label: "strip l \<noteq> [] \<Longrightarrow> lang_name l [] k = ''embedded.srt''"
  by (simp add: lang_name_def Let_def)

lemma untitled_none:
  assumes "\<forall>st \<in> set sts. strip (ss_lang st) \<noteq> [] \<and> ss_title st = []" and "Some (JStr ''embedded'') \<in> set labels"
  shows "snd (import_streams extract token i langs labels sts n d) = []"
  using assms
proof (induction sts arbitrary: d)
  case (Cons st sts)
  have t: "ss_title st = []" and l: "lang_name (ss_lang st) [] (ss_index st) = ''embedded.srt''"
    using Cons.prems by (simp_all add: untitled_label)
  obtain d1 where "import_streams extract token i langs labels (st # sts) n d = (d1, [])
      \<or> import_streams extract token i langs labels (st # sts) n d = import_streams extract token i langs labels sts n d1"
    using import_cons [of i d "extract" token langs labels st sts n] Cons.prems(2) unfolding t l by auto
  then show ?case using Cons.IH [of d1] Cons.prems by auto
qed simp

text \<open>Also: of the embedded tracks of a video that have a language and no title, at most one is imported, however many
  languages there are: they all get the label ``embedded''.\<close>

theorem untitled_tracks_lost:
  assumes "\<forall>st \<in> set sts. strip (ss_lang st) \<noteq> [] \<and> ss_title st = []"
  shows "length (snd (import_streams extract token i langs labels sts n d)) \<le> 1"
  using assms
proof (induction sts arbitrary: d)
  case (Cons st sts)
  have rest: "\<forall>st \<in> set sts. strip (ss_lang st) \<noteq> [] \<and> ss_title st = []" and t: "ss_title st = []" using Cons.prems by simp_all
  have l: "lang_name (ss_lang st) [] (ss_index st) = ''embedded.srt''" using Cons.prems by (simp add: untitled_label)
  obtain d1 where "import_streams extract token i langs labels (st # sts) n d = (d1, [])
      \<or> import_streams extract token i langs labels (st # sts) n d = import_streams extract token i langs labels sts n d1
      \<or> (\<exists>x view. import_streams extract token i langs labels (st # sts) n d
          = (case import_streams extract token i (x # langs) (Some (JStr ''embedded'') # labels) sts (n + 1) d1 of (d, vs) \<Rightarrow> (d, view # vs)))"
    using import_cons [of i d "extract" token langs labels st sts n] unfolding t l by auto
  then show ?case using Cons.IH [OF rest, of d1] untitled_none [OF rest, of "Some (JStr ''embedded'') # labels"]
    by (elim disjE exE) (simp_all add: split_beta)
qed simp

text \<open>The mark an import leaves.\<close>

lemma get_object_kv: "get_object i t d = (x, d') \<Longrightarrow> kv_get d' k = kv_get d k"
  by (auto simp: get_object_def cache_put_def kv_get_def Let_def split: prod.splits option.splits if_splits)

lemma filename_kv: "filename_of i d = (d', x) \<Longrightarrow> kv_get d' k = kv_get d k"
  by (auto simp: filename_of_def dest: get_object_kv split: prod.splits option.splits)

definition quiet :: "(int \<Rightarrow> int \<Rightarrow> int \<Rightarrow> db \<times> 'w \<Rightarrow> (db \<times> 'w) \<times> string res) \<Rightarrow> bool" where
  "quiet fetch = (\<forall>i off n d w k. kv_get (fst (fst (fetch i off n (d, w)))) k = kv_get d k)"

lemma fetch_segment_quiet: "quiet (fetch_segment fetch zero po backend i)"
  unfolding quiet_def
proof (intro allI)
  fix idx off n :: int and d w k
  obtain x d1 where g: "get_object i False d = (x, d1)" by (metis surj_pair)
  have "fst (fst (fetch_segment fetch zero po backend i idx off n (d, w))) = d1"
    unfolding fetch_segment_def prod.case g Let_def
    by (cases x) (simp_all split: prod.split sum.split)
  then show "kv_get (fst (fst (fetch_segment fetch zero po backend i idx off n (d, w)))) k = kv_get d k"
    using get_object_kv [OF g] by simp
qed

lemma gather_quiet: "quiet fetch \<Longrightarrow> gather_chunks fetch cs (d, w) = ((d', w'), v) \<Longrightarrow> kv_get d' k = kv_get d k"
proof (induction cs arbitrary: d w v)
  case (Cons c cs)
  obtain i n where c: "c = (i, n)" by (cases c)
  obtain d1 w1 x where f: "fetch i 0 n (d, w) = ((d1, w1), x)" by (metis surj_pair)
  have q: "kv_get d1 k = kv_get d k" using Cons.prems(1) f by (metis quiet_def fst_conv)
  show ?case using Cons.prems(2) Cons.IH [OF Cons.prems(1), of d1 w1] q
    by (auto simp: c f split: sum.splits prod.splits)
qed simp

lemma import_streams_kv: "k \<noteq> subs_key i \<Longrightarrow> kv_get (fst (import_streams extract token i langs labels sts n d)) k = kv_get d k"
proof (induction sts arbitrary: langs labels n d)
  case (Cons st sts)
  show ?case using import_cons [of i d "extract" token langs labels st sts n]
    by (elim exE conjE disjE) (use Cons in \<open>simp_all add: split_beta\<close>)
qed simp

lemma import_leaves_mark:
  assumes "import_embedded available probe extract token fetch i chunks force d w = ((d', w'), vs)" and "quiet fetch"
    and "available" and "video_ext (snd (filename_of i d))"
  shows "truthy_str (kv_get d' (DONE_PREFIX @ i))"
proof -
  obtain d1 fn where f: "filename_of i d = (d1, fn)" by (cases "filename_of i d")
  have ve: "video_ext fn" using assms(4) f by simp
  have k: "DONE_PREFIX @ i \<noteq> subs_key i" by (simp add: DONE_PREFIX_def subs_key_def)
  show ?thesis
  proof (cases "\<not> force \<and> truthy_str (kv_get d1 (DONE_PREFIX @ i))")
    case True
    then show ?thesis using assms(1,3) f ve by (simp add: import_embedded_def)
  next
    case False
    obtain d2 w2 video where g: "gather_chunks fetch chunks (kv_set (DONE_PREFIX @ i) ''1'' d1, w) = ((d2, w2), video)" by (metis surj_pair)
    have "kv_get d2 (DONE_PREFIX @ i) = Some ''1''" using gather_quiet [OF assms(2) g] by (simp add: kv_simps)
    then have "truthy_str (kv_get d2 (DONE_PREFIX @ i))" by (simp add: truthy_str_def)
    moreover have "kv_get d' (DONE_PREFIX @ i) = kv_get d2 (DONE_PREFIX @ i)"
      using assms(1,3) f ve False g import_streams_kv [OF k]
      by (auto simp: import_embedded_def split: option.splits sum.splits prod.splits if_splits) (metis fst_conv)+
    ultimately show ?thesis by simp
  qed
qed

text \<open>Also: an import marks the object: a second one that is not forced finds the mark and does nothing.\<close>

theorem import_runs_once:
  assumes "import_embedded available probe extract token fetch i chunks force d w = ((d', w'), vs)" and "quiet fetch"
    and "available" and "video_ext (snd (filename_of i d))"
  shows "import_embedded available probe' extract' token' fetch i chunks' False d' w' = ((fst (filename_of i d'), w'), [])"
proof -
  obtain d1 fn where f: "filename_of i d' = (d1, fn)" by (cases "filename_of i d'")
  have "truthy_str (kv_get d1 (DONE_PREFIX @ i))" using import_leaves_mark [OF assms] filename_kv [OF f] by simp
  then show ?thesis using f assms(3) by (simp add: import_embedded_def)
qed

definition two_languages :: "sub_stream list" where
  "two_languages = [\<lparr>ss_index = 2, ss_codec = ''subrip'', ss_lang = ''eng'', ss_title = []\<rparr>,
     \<lparr>ss_index = 3, ss_codec = ''subrip'', ss_lang = ''fre'', ss_title = []\<rparr>]"

theorem untitled_tracks_lost_witness:
  "length (snd (import_streams (\<lambda>_. Some ''x'') (\<lambda>_. ''t'') ''v'' [] [] two_languages 0 db_empty)) \<le> 1"
proof -
  have "\<forall>st \<in> set two_languages. strip (ss_lang st) \<noteq> [] \<and> ss_title st = []" by code_simp
  then show ?thesis by (rule untitled_tracks_lost)
qed

definition demo_video :: db where
  "demo_video = fst (insert_object 5 \<lparr>i_id = ''v'', i_file_id = ''f'', i_backend = ''fake'', i_filename = ''a.mkv'', i_size = 0,
     i_content_type = None, i_sha256 = None, i_manifest = None, i_uploader_key = None, i_created_at = None, i_downloaded = None\<rparr> db_empty)"

theorem import_runs_once_witness:
  "\<exists>d' w' vs. import_embedded True (\<lambda>_. None) (\<lambda>_ _. None) (\<lambda>_. []) (fetch_segment fakes_open (CHR 0x00) None (Outside ''fake'') ''v'') ''v'' [] False
      demo_video (\<lambda>_. fake_init) = ((d', w'), vs)
    \<and> import_embedded True (\<lambda>_. None) (\<lambda>_ _. None) (\<lambda>_. []) (fetch_segment fakes_open (CHR 0x00) None (Outside ''fake'') ''v'') ''v'' [] False
      d' w' = ((fst (filename_of ''v'' d'), w'), [])"
proof -
  obtain d' w' vs where r: "import_embedded True (\<lambda>_. None) (\<lambda>_ _. None) (\<lambda>_. []) (fetch_segment fakes_open (CHR 0x00) None (Outside ''fake'') ''v'') ''v'' [] False
      demo_video (\<lambda>_. fake_init) = ((d', w'), vs)" by (metis surj_pair)
  have v: "video_ext (snd (filename_of ''v'' demo_video))" by code_simp
  from r import_runs_once [OF r fetch_segment_quiet _ v, of "\<lambda>_. None" "\<lambda>_ _. None" "\<lambda>_. []" "[]"] show ?thesis by blast
qed

end
