(* ===== verification/ZipStream.thy ===== *)
theory ZipStream
  imports Storage
begin

text \<open>
  \<^verbatim>\<open>src/src/anbar/zipper.py\<close>: the names of archive entries and what the worker of a streamed
  archive writes. A character is a code point below 256, so UTF-8 gives it one or two bytes; the ZIP
  format itself is \<^verbatim>\<open>zipfile\<close>, of which the members and their bytes are kept.
\<close>

section \<open>Entry names\<close>

definition utf8_len :: "string \<Rightarrow> nat" where
  "utf8_len s = sum_list (map (\<lambda>c. if code c < 128 then 1 else 2) s)"

text \<open>The loop that cuts a name to 120 bytes; it may run forever.\<close>

(* src: src/src/anbar/zipper.py 106-111 entry_name *)
partial_function (option) shorten :: "string \<Rightarrow> string option" where
  "shorten safe =
     (if utf8_len safe \<le> 120 then Some safe
      else (case rsplit1 (CHR ''.'') safe of
         None \<Rightarrow> Some (take 110 safe)
       | Some (stem, ext) \<Rightarrow>
           if stem = [] then Some (take 110 safe)
           else shorten (if 1 < length stem then butlast stem @ ''.'' @ ext else take 110 safe)))"

(* src: src/src/anbar/zipper.py auto entry_name *)
definition entry_name :: "string \<Rightarrow> string \<Rightarrow> string option" where
  "entry_name filename obj_id =
     map_option (\<lambda>s. s @ ''.'' @ drop (length obj_id - 4) obj_id)
       (shorten (map (\<lambda>c. if c = CHR 0x5C \<or> c = CHR ''/'' then CHR ''_'' else c) (if filename = [] then ''file'' else filename)))"

lemma utf8_len_ascii: "\<forall>c \<in> set s. code c < 128 \<Longrightarrow> utf8_len s = length s"
  by (induction s) (simp_all add: utf8_len_def)

lemma shorten_ascii:
  assumes "\<forall>c \<in> set s. code c < 128"
  shows "\<exists>t. shorten s = Some t \<and> length t \<le> 120 \<and> set t \<subseteq> set s \<union> {CHR ''.''}"
  using assms
proof (induction "length s" arbitrary: s rule: less_induct)
  case less
  have u: "utf8_len s = length s" using utf8_len_ascii [OF less.prems] .
  show ?case
  proof (cases "length s \<le> 120")
    case True
    then show ?thesis using u by (subst shorten.simps) auto
  next
    case long: False
    have t: "length (take 110 s) \<le> 120" "set (take 110 s) \<subseteq> set s" by (auto dest: in_set_takeD)
    show ?thesis
    proof (cases "rsplit1 (CHR ''.'') s")
      case None
      then show ?thesis using long u t by (subst shorten.simps) auto
    next
      case (Some p)
      obtain stem ext where p: "p = (stem, ext)" by (cases p)
      have s: "s = stem @ ''.'' @ ext" using Some p rsplit1_Some by simp
      show ?thesis
      proof (cases "stem = []")
        case True
        then show ?thesis using long u t Some p by (subst shorten.simps) auto
      next
        case ne: False
        define s' where "s' = (if 1 < length stem then butlast stem @ ''.'' @ ext else take 110 s)"
        have r: "shorten s = shorten s'" using long u Some p ne by (subst shorten.simps) (simp add: s'_def)
        have "set s' \<subseteq> set s \<union> {CHR ''.''}" using s t(2) by (auto simp: s'_def dest: in_set_butlastD)
        moreover have "length s' < length s" using s ne long by (cases "1 < length stem") (auto simp: s'_def)
        moreover have "\<forall>c \<in> set s'. code c < 128" using less.prems calculation(1) by (auto simp: code_def)
        ultimately show ?thesis using less.hyps [of s'] r by auto
      qed
    qed
  qed
qed

text \<open>Also: for an ASCII file name the cutting ends, with a name of at most 120 bytes before the id, and nothing that
  separates directories in it.\<close>

theorem entry_name_ascii:
  assumes "\<forall>c \<in> set filename. code c < 128"
  shows "\<exists>t. entry_name filename obj_id = Some (t @ ''.'' @ drop (length obj_id - 4) obj_id)
     \<and> length t \<le> 120 \<and> CHR ''/'' \<notin> set t \<and> CHR 0x5C \<notin> set t"
proof -
  define s where "s = map (\<lambda>c. if c = CHR 0x5C \<or> c = CHR ''/'' then CHR ''_'' else c) (if filename = [] then ''file'' else filename)"
  have "\<forall>c \<in> set s. code c < 128" using assms by (auto simp: s_def code_def)
  from shorten_ascii [OF this] obtain t where t: "shorten s = Some t" "length t \<le> 120" "set t \<subseteq> set s \<union> {CHR ''.''}" by blast
  have "CHR ''/'' \<notin> set s" "CHR 0x5C \<notin> set s" by (auto simp: s_def)
  then show ?thesis using t by (auto simp: entry_name_def s_def)
qed

lemma shorten_stuck:
  assumes "x = c # ''.'' @ ext" and "CHR ''.'' \<notin> set ext" and "length x \<le> 110" and "120 < utf8_len x"
  shows "shorten x = None"
proof (cases "shorten x")
  case (Some y)
  have sp: "rsplit1 (CHR ''.'') x = Some ([c], ext)" using rsplit1_append [OF assms(2), of "[c]"] assms(1) by simp
  have "x \<noteq> x"
  proof (rule shorten.raw_induct [where P = "\<lambda>z y. z \<noteq> x", OF _ Some])
    fix f z y
    assume ih: "\<And>z y. f z = Some y \<Longrightarrow> z \<noteq> x"
      and step: "(if utf8_len z \<le> 120 then Some z
        else case rsplit1 (CHR ''.'') z of None \<Rightarrow> Some (take 110 z)
           | Some (stem, ext) \<Rightarrow> if stem = [] then Some (take 110 z)
               else f (if 1 < length stem then butlast stem @ ''.'' @ ext else take 110 z)) = Some y"
    show "z \<noteq> x"
    proof
      assume "z = x"
      then have "f x = Some y" using step assms(3,4) sp by simp
      then show False using ih by blast
    qed
  qed
  then show ?thesis by simp
qed simp

text \<open>The cutting ends exactly for the names that fit, that have nothing to cut before the last dot, or whose first character and
  extension make at most 120 bytes when they are cut to 110 characters.\<close>

definition cuttable :: "string \<Rightarrow> bool" where
  "cuttable s = (utf8_len s \<le> 120 \<or> (case rsplit1 (CHR ''.'') s of None \<Rightarrow> True
     | Some (stem, ext) \<Rightarrow> stem = [] \<or> utf8_len (take 110 (hd stem # ''.'' @ ext)) \<le> 120))"

definition safe_name :: "string \<Rightarrow> string" where
  "safe_name filename = map (\<lambda>c. if c = CHR 0x5C \<or> c = CHR ''/'' then CHR ''_'' else c) (if filename = [] then ''file'' else filename)"

lemma utf8_len_append [simp]: "utf8_len (a @ b) = utf8_len a + utf8_len b"
  by (simp add: utf8_len_def)

lemma utf8_len_take: "utf8_len (take n s) \<le> utf8_len s"
  using utf8_len_append [of "take n s" "drop n s"] by simp

lemma shorten_stem:
  assumes "CHR ''.'' \<notin> set ext" and "stem \<noteq> []"
  shows "shorten (stem @ ''.'' @ ext) \<noteq> None \<longleftrightarrow>
    utf8_len (stem @ ''.'' @ ext) \<le> 120 \<or> utf8_len (take 110 (hd stem # ''.'' @ ext)) \<le> 120"
  using assms(2)
proof (induction "length stem" arbitrary: stem rule: less_induct)
  case less
  let ?s = "stem @ ''.'' @ ext" and ?y = "take 110 (hd stem # ''.'' @ ext)"
  have sp: "rsplit1 (CHR ''.'') ?s = Some (stem, ext)" using rsplit1_append [OF assms(1), of stem] by simp
  show ?case
  proof (cases "utf8_len ?s \<le> 120")
    case True
    then show ?thesis by (subst shorten.simps) simp
  next
    case long: False
    show ?thesis
    proof (cases "1 < length stem")
      case True
      define rest where "rest = butlast (tl stem)"
      have b: "butlast stem = hd stem # rest" using True by (cases stem) (auto simp: rest_def)
      have l: "length (butlast stem) < length stem" "butlast stem \<noteq> []" "hd (butlast stem) = hd stem" using True length_butlast [of stem] unfolding b by simp_all
      have eq: "shorten ?s = shorten (butlast stem @ ''.'' @ ext)"
        using long sp less.prems True by (subst shorten.simps) simp
      have "utf8_len ?y \<le> 120" if "utf8_len (butlast stem @ ''.'' @ ext) \<le> 120"
      proof -
        have "utf8_len (hd stem # ''.'' @ ext) = utf8_len [hd stem] + utf8_len (''.'' @ ext)" by (simp add: utf8_len_def)
        also have "\<dots> \<le> utf8_len (butlast stem @ ''.'' @ ext)" unfolding b by (simp add: utf8_len_def)
        finally show ?thesis using that utf8_len_take [of 110 "hd stem # ''.'' @ ext"] by linarith
      qed
      then show ?thesis using less.hyps [OF l(1,2)] long unfolding l(3) eq by argo
    next
      case False
      then obtain c where c: "stem = [c]" using less.prems by (cases stem) auto
      have y: "?y = c # ''.'' @ take 108 ext" by (simp add: c numeral_eq_Suc)
      have r: "shorten ?s = shorten ?y" using long sp less.prems False by (subst shorten.simps) (simp add: c)
      show ?thesis
      proof (cases "utf8_len ?y \<le> 120")
        case True
        then have "shorten ?y = Some ?y" by (subst shorten.simps) simp
        then show ?thesis using r True by simp
      next
        case False
        have "CHR ''.'' \<notin> set (take 108 ext)" using assms(1) by (auto dest: in_set_takeD)
        then have "shorten ?y = None" using False by (intro shorten_stuck [OF y]) auto
        then show ?thesis using r False long by simp
      qed
    qed
  qed
qed

theorem shorten_ends: "shorten s \<noteq> None \<longleftrightarrow> cuttable s"
proof (cases "utf8_len s \<le> 120")
  case True
  then show ?thesis by (subst shorten.simps) (simp add: cuttable_def)
next
  case long: False
  show ?thesis
  proof (cases "rsplit1 (CHR ''.'') s")
    case None
    then show ?thesis using long by (subst shorten.simps) (simp add: cuttable_def)
  next
    case (Some p)
    obtain stem ext where p: "p = (stem, ext)" by (cases p)
    note s = rsplit1_Some [OF Some [unfolded p]]
    show ?thesis
    proof (cases "stem = []")
      case True
      then show ?thesis using long Some p by (subst shorten.simps) (simp add: cuttable_def)
    next
      case False
      then show ?thesis using shorten_stem [of ext stem] s Some p long by (simp add: cuttable_def)
    qed
  qed
qed

lemma entry_name_ends: "entry_name filename obj_id \<noteq> None \<longleftrightarrow> cuttable (safe_name filename)"
  using shorten_ends [of "safe_name filename"] by (simp add: entry_name_def safe_name_def)

text \<open>Also: a name of one character, a dot and an extension of at most 108 characters that takes more than 118 bytes is cut to itself
  over and over: the request that names the entry never ends.\<close>

theorem entry_name_hangs:
  assumes "CHR ''.'' \<notin> set ext" and "length ext \<le> 108" and "118 < utf8_len ext" and "set (c # ext) \<inter> {CHR ''/'', CHR 0x5C} = {}" and "code c < 128"
  shows "entry_name (c # ''.'' @ ext) obj_id = None"
proof -
  have m: "map (\<lambda>c. if c = CHR 0x5C \<or> c = CHR ''/'' then CHR ''_'' else c) (c # ''.'' @ ext) = c # ''.'' @ ext"
    using assms(4) by (auto intro!: map_idI)
  have "utf8_len (c # ''.'' @ ext) = 2 + utf8_len ext" using assms(5) by (simp add: utf8_len_def code_def)
  then have "shorten (c # ''.'' @ ext) = None" using assms by (intro shorten_stuck [OF refl]) auto
  then show ?thesis using m by (simp add: entry_name_def)
qed

section \<open>The members of an archive\<close>

text \<open>What the worker writes for each entry, up to the first error; the segments of an entry are the index and
  the size of its chunks, or what reading them from the manifest raises.\<close>

(* src: src/src/anbar/zipper.py 70-84 stream_zip *)
fun write_member :: "(string \<Rightarrow> int \<Rightarrow> int \<Rightarrow> int \<Rightarrow> 's \<Rightarrow> 's \<times> 'b list res) \<Rightarrow> string \<Rightarrow> (int \<times> int) res list \<Rightarrow> 's \<Rightarrow> 's \<times> 'b list \<times> exc option" where
  "write_member fetch i [] s = (s, [], None)"
| "write_member fetch i (Inl e # segs) s = (s, [], Some e)"
| "write_member fetch i (Inr (k, n) # segs) s =
     (case fetch i k 0 n s of
        (s, Inl e) \<Rightarrow> (s, [], Some e)
      | (s, Inr data) \<Rightarrow> (case write_member fetch i segs s of (s, rest, e) \<Rightarrow> (s, data @ rest, e)))"

(* src: src/src/anbar/zipper.py 59-91 stream_zip *)
fun stream_zip :: "(string \<Rightarrow> int \<Rightarrow> int \<Rightarrow> int \<Rightarrow> 's \<Rightarrow> 's \<times> 'b list res) \<Rightarrow> (string \<times> string \<times> (int \<times> int) res list) list \<Rightarrow> 's
    \<Rightarrow> 's \<times> (string \<times> 'b list) list \<times> exc option" where
  "stream_zip fetch [] s = (s, [], None)"
| "stream_zip fetch ((nm, i, segs) # es) s =
     (case write_member fetch i segs s of
        (s, data, Some e) \<Rightarrow> (s, [(nm, data)], Some e)
      | (s, data, None) \<Rightarrow> (case stream_zip fetch es s of (s, ms, e) \<Rightarrow> (s, (nm, data) # ms, e)))"

theorem entry_name_ascii_witness: "\<exists>t. entry_name ''a/b.txt'' ''0123456789'' = Some (t @ ''.6789'') \<and> length t \<le> 120"
proof -
  have "\<forall>c \<in> set ''a/b.txt''. code c < 128" by code_simp
  from entry_name_ascii [OF this, of "''0123456789''"] show ?thesis by auto
qed

theorem entry_name_hangs_witness: "entry_name (CHR ''a'' # ''.'' @ replicate 100 (CHR 0xE9)) ''0123'' = None"
proof (rule entry_name_hangs)
  show "118 < utf8_len (replicate 100 (CHR 0xE9))" by (simp add: utf8_len_def code_def sum_list_replicate map_replicate_const)
  show "code (CHR ''a'') < 128" by (simp add: code_def)
qed (auto simp: set_replicate_conv_if)

end
