(* ===== verification/QrField.thy ===== *)
theory QrField
  imports Prelude "HOL-Library.Word"
begin

text \<open>
  The arithmetic of \<^verbatim>\<open>src/src/anbar/qrcode.py\<close>: the exponential and logarithm tables of the field
  with 256 elements, polynomials over it as coefficient lists from the highest degree, and the
  Reed-Solomon encoder. Bytes are 8-bit words; the laws of the field are derived from the doubling
  step that fills the tables.
\<close>

unbundle bit_operations_syntax

type_synonym byte = "8 word"

section \<open>Tables\<close>

(* src: src/src/anbar/qrcode.py 20-22 _init_gf *)
definition gf_step :: "byte \<Rightarrow> byte" where
  "gf_step x = (let y = push_bit 1 (ucast x :: 9 word) in ucast (if bit y 8 then y XOR 0x11D else y))"

fun gf_powers :: "nat \<Rightarrow> byte \<Rightarrow> byte list" where
  "gf_powers 0 x = []"
| "gf_powers (Suc n) x = x # gf_powers n (gf_step x)"

(* src: src/src/anbar/qrcode.py 16-24 _init_gf *)
definition EXP :: "byte list" where
  "EXP = fold (\<lambda>i e. e[i := e ! (i - 255)]) [255..<512] (gf_powers 255 1 @ replicate 257 0)"

(* src: src/src/anbar/qrcode.py 17-19 _init_gf *)
definition LOG :: "nat list" where
  "LOG = fold (\<lambda>(i, x) l. l[unat x := i]) (enumerate 0 (gf_powers 255 1)) (replicate 256 0)"

(* src: src/src/anbar/qrcode.py auto _gmul *)
definition gmul :: "byte \<Rightarrow> byte \<Rightarrow> byte" where
  "gmul a b = (if a = 0 \<or> b = 0 then 0 else EXP ! (LOG ! unat a + LOG ! unat b))"

section \<open>Polynomials\<close>

(* src: src/src/anbar/qrcode.py auto _poly_mul *)
definition poly_mul :: "byte list \<Rightarrow> byte list \<Rightarrow> byte list" where
  "poly_mul p1 p2 =
     fold (\<lambda>(i, c1). fold (\<lambda>(j, c2) out. out[i + j := out ! (i + j) XOR gmul c1 c2]) (enumerate 0 p2))
       (enumerate 0 p1) (replicate (length p1 + length p2 - 1) 0)"

(* src: src/src/anbar/qrcode.py auto _rs_gen_poly *)
definition rs_gen_poly :: "nat \<Rightarrow> byte list" where
  "rs_gen_poly nsym = fold (\<lambda>i g. poly_mul g [1, EXP ! i]) [0..<nsym] [1]"

definition rs_row :: "byte list \<Rightarrow> nat \<Rightarrow> byte list \<Rightarrow> byte list" where
  "rs_row gen i res =
     (let coef = res ! i in
      if coef = 0 then res
      else fold (\<lambda>(j, g) res. res[i + j := res ! (i + j) XOR gmul g coef]) (enumerate 0 gen) res)"

(* src: src/src/anbar/qrcode.py auto _rs_encode *)
definition rs_encode :: "byte list \<Rightarrow> nat \<Rightarrow> byte list" where
  "rs_encode data nsym =
     drop (length data) (fold (rs_row (rs_gen_poly nsym)) [0..<length data] (data @ replicate nsym 0))"

section \<open>The field\<close>

definition pw :: "nat \<Rightarrow> byte" where
  "pw n = (gf_step ^^ n) 1"

lemma gf_step_alt: "gf_step x = push_bit 1 x XOR (if bit x 7 then 0x1D else 0)"
proof (rule bit_word_eqI)
  fix n assume n: "n < LENGTH(8)"
  have y: "bit (push_bit 1 (ucast x :: 9 word)) 8 = bit x 7" unfolding bit_push_bit_iff bit_ucast_iff by simp
  have z: "bit (push_bit 1 (ucast x :: 9 word)) n = bit (push_bit 1 x) n"
    using n unfolding bit_push_bit_iff bit_ucast_iff by (auto simp: bit_imp_le_length)
  have c: "bit (0x11D :: 9 word) n = bit (0x1D :: byte) n"
  proof -
    from n have "n \<in> {0, 1, 2, 3, 4, 5, 6, 7}" by auto
    then show ?thesis by (elim insertE emptyE) simp_all
  qed
  show "bit (gf_step x) n = bit (push_bit 1 x XOR (if bit x 7 then 0x1D else 0)) n"
    unfolding gf_step_def Let_def y bit_ucast_iff bit_xor_iff if_distrib [where f = "\<lambda>w. bit w n"] z c using n by simp
qed

lemma gf_step_xor: "gf_step (x XOR y) = gf_step x XOR gf_step y"
  by (auto simp: gf_step_alt bit_xor_iff push_bit_xor xor.assoc xor.left_commute)

lemma gf_step_0: "gf_step 0 = 0"
  by (simp add: gf_step_alt)

lemma steps_xor: "(gf_step ^^ n) (x XOR y) = (gf_step ^^ n) x XOR (gf_step ^^ n) y"
  by (induction n) (simp_all add: gf_step_xor)

lemma steps_0: "(gf_step ^^ n) 0 = 0"
  by (induction n) (simp_all add: gf_step_0)

lemma gf_powers_steps: "gf_powers n x = map (\<lambda>i. (gf_step ^^ i) x) [0..<n]"
  by (induction n arbitrary: x) (simp_all add: upt_conv_Cons map_Suc_upt [symmetric] funpow_swap1 del: upt_Suc)

lemma powers_pw: "gf_powers n 1 = map pw [0..<n]"
  by (simp add: gf_powers_steps pw_def)

lemma powers_facts: "(0 :: byte) \<notin> set (gf_powers 255 1) \<and> 1 \<notin> set (tl (gf_powers 255 1)) \<and> gf_step (last (gf_powers 255 1)) = 1"
  by code_simp

lemma pw_0 [simp]: "pw 0 = 1"
  by (simp add: pw_def)

lemma last_powers: "gf_step (last (gf_powers (Suc n) 1)) = pw (Suc n)"
  by (simp add: powers_pw pw_def)

lemma pw_255: "pw 255 = 1"
proof -
  have "Suc 254 = 255" by simp
  then show ?thesis using powers_facts last_powers [of 254] by argo
qed

lemma pw_add: "pw (m + n) = (gf_step ^^ m) (pw n)"
  by (simp add: pw_def funpow_add)

lemma pw_period: "pw p = 1 \<Longrightarrow> pw (p * k + r) = pw r"
proof (induction k)
  case (Suc k)
  have "pw (p * Suc k + r) = (gf_step ^^ (p * k + r)) (pw p)" using pw_add [of "p * k + r" p] by (simp add: algebra_simps)
  then show ?case using Suc by (simp add: pw_def)
qed simp

lemma pw_mod: "pw (n mod 255) = pw n"
  using pw_period [OF pw_255, of "n div 255" "n mod 255"] by (simp only: mult_div_mod_eq)

lemma gf_step_nonzero: "gf_step x = 0 \<Longrightarrow> x = 0"
proof -
  assume z: "gf_step x = 0"
  have "bit (gf_step x) 0 = bit x 7" by (cases "bit x 7") (simp_all add: gf_step_alt bit_0 even_xor_iff)
  then have "\<not> bit x 7" using z by simp
  then have p: "push_bit 1 x = 0" "\<not> bit x 7" using z by (simp_all add: gf_step_alt)
  have "\<not> bit x n" if "n < 8" for n
  proof (cases "n = 7")
    case False
    then have "bit (push_bit 1 x) (Suc n) = bit x n" using that by (simp add: bit_push_bit_iff del: push_bit_Suc push_bit_of_1 One_nat_def)
    then show ?thesis using p(1) by simp
  qed (use p(2) in simp)
  then show "x = 0" by (intro bit_word_eqI) simp
qed

lemma steps_nonzero: "(gf_step ^^ n) x = 0 \<Longrightarrow> x = 0"
  by (induction n) (auto dest: gf_step_nonzero)

lemma xor_0_eq: "x XOR y = (0 :: byte) \<Longrightarrow> x = y"
proof -
  assume "x XOR y = 0"
  then have "(x XOR y) XOR y = 0 XOR y" by (simp only:)
  then show "x = y" by (simp add: xor.assoc)
qed

lemma steps_inj: "(gf_step ^^ n) x = (gf_step ^^ n) y \<Longrightarrow> x = y"
  using steps_nonzero [of n "x XOR y"] by (simp add: steps_xor xor_0_eq)

lemma pw_nonzero: "pw n \<noteq> 0"
  using steps_nonzero [of n 1] by (auto simp: pw_def)

lemma tl_powers: "set (tl (gf_powers n 1)) = pw ` {1..<n}"
  by (simp add: powers_pw map_tl [symmetric] tl_upt atLeastLessThan_upt [symmetric])

lemma pw_one: "0 < n \<Longrightarrow> n < 255 \<Longrightarrow> pw n \<noteq> 1"
proof
  assume n: "0 < n" "n < 255" and one: "pw n = 1"
  from n have "n \<in> {1..<255}" by simp
  then have "pw n \<in> set (tl (gf_powers 255 1))" unfolding tl_powers by (rule imageI)
  with one powers_facts show False by argo
qed

lemma pw_inj: "i < 255 \<Longrightarrow> j < 255 \<Longrightarrow> pw i = pw j \<Longrightarrow> i = j"
proof (rule ccontr)
  have *: False if "i < j" "j < 255" "pw i = pw j" for i j
  proof -
    have "(gf_step ^^ i) (pw (j - i)) = (gf_step ^^ i) (pw 0)" using that pw_add [of i "j - i"] pw_add [of i 0] by simp
    then have "pw (j - i) = 1" using steps_inj by fastforce
    then show False using pw_one [of "j - i"] that by simp
  qed
  assume "i < 255" "j < 255" "pw i = pw j" "i \<noteq> j"
  then show False using * [of i j] * [of j i] by (metis linorder_neqE_nat)
qed

lemma pw_covers: "x \<noteq> 0 \<Longrightarrow> \<exists>i < 255. pw i = x"
proof -
  assume x: "x \<noteq> 0"
  have "inj_on pw {..<255}" using pw_inj by (auto intro: inj_onI)
  then have "card (pw ` {..<255}) = 255" by (simp add: card_image)
  moreover have "pw ` {..<255} \<subseteq> UNIV - {0}" using pw_nonzero by auto
  moreover have "card (UNIV - {0 :: byte}) = 255" by (simp add: card_Diff_singleton card_word)
  ultimately have "pw ` {..<255} = UNIV - {0}" by (intro card_subset_eq) auto
  then show ?thesis using x by (metis (no_types, lifting) DiffI UNIV_I imageE lessThan_iff singletonD)
qed

section \<open>The tables hold the powers\<close>

lemma EXP_fill: "0 < p \<Longrightarrow> pw p = 1 \<Longrightarrow> n \<le> k \<Longrightarrow>
    fold (\<lambda>i e. e[i := e ! (i - p)]) [p..<p + n] (map pw [0..<p] @ replicate k 0) = map pw [0..<p + n] @ replicate (k - n) 0"
proof (induction n)
  case (Suc n)
  have w: "pw (p + n - p) = pw (p + n)" using pw_period [OF Suc(3), of 1 n] by simp
  obtain m where m: "k - n = Suc m" "k - Suc n = m" using Suc(4) by (cases "k - n") auto
  have "(map pw [0..<p + n] @ replicate (k - n) 0)[p + n := pw (p + n)] = map pw [0..<p + Suc n] @ replicate (k - Suc n) 0"
    unfolding m by (simp add: list_update_append)
  then show ?case using Suc w by (simp add: nth_append)
qed simp

lemma nth_powers: "i < n \<Longrightarrow> map pw [0..<n] ! i = pw i"
  by simp

lemma EXP_pw: "i < 512 \<Longrightarrow> EXP ! i = pw i"
proof -
  assume i: "i < 512"
  have "[255..<512] = [255..<255 + 257]" by (simp del: upt_conv_Cons upt_rec_numeral)
  then have "EXP = map pw [0..<255 + 257] @ replicate (257 - 257) 0"
    unfolding EXP_def powers_pw using EXP_fill [of 255 257 257] pw_255 by (simp only: zero_less_numeral order_refl)
  then have "EXP = map pw [0..<512]" by (simp del: upt_rec_numeral upt_Suc)
  then show ?thesis using nth_powers [OF i] by simp
qed


lemma LOG_fold:
  assumes "distinct xs" and "length l = 256"
  shows "length (fold (\<lambda>(i, x) l. l[unat x := i]) (enumerate k xs) l) = 256
     \<and> (\<forall>x :: byte. x \<notin> set xs \<longrightarrow> fold (\<lambda>(i, x) l. l[unat x := i]) (enumerate k xs) l ! unat x = l ! unat x)
     \<and> (\<forall>i < length xs. fold (\<lambda>(i, x) l. l[unat x := i]) (enumerate k xs) l ! unat (xs ! i) = k + i)"
  using assms
proof (induction xs arbitrary: k l)
  case (Cons y ys)
  have u: "unat x < 256" for x :: byte using unsigned_less [of x] by simp
  have ne: "unat y \<noteq> unat x" if "x \<noteq> y" for x using that by (simp add: word_unat_eq_iff)
  from Cons.IH [of "l[unat y := k]" "Suc k"] Cons.prems
  have ih: "length (fold (\<lambda>(i, x) l. l[unat x := i]) (enumerate (Suc k) ys) (l[unat y := k])) = 256"
    "\<And>x. x \<notin> set ys \<Longrightarrow> fold (\<lambda>(i, x) l. l[unat x := i]) (enumerate (Suc k) ys) (l[unat y := k]) ! unat x = l[unat y := k] ! unat x"
    "\<And>i. i < length ys \<Longrightarrow> fold (\<lambda>(i, x) l. l[unat x := i]) (enumerate (Suc k) ys) (l[unat y := k]) ! unat (ys ! i) = Suc k + i"
    by simp_all
  show ?case using ih u ne Cons.prems by (auto simp: less_Suc_eq_0_disj nth_list_update)
qed simp

lemma LOG_pw: "i < 255 \<Longrightarrow> LOG ! unat (pw i) = i"
proof -
  assume i: "i < 255"
  have d: "distinct (map pw [0..<255])" using pw_inj by (auto simp: distinct_map intro!: inj_onI simp del: upt_rec_numeral)
  have l: "length (replicate 256 0 :: nat list) = 256" by (rule length_replicate)
  have n: "i < length (map pw [0..<255])" using i by (simp only: length_map length_upt minus_nat.diff_0)
  from LOG_fold [OF d l, of 0] n have "LOG ! unat (map pw [0..<255] ! i) = 0 + i"
    unfolding LOG_def powers_pw by blast
  then show ?thesis using nth_powers [OF i] by simp
qed

section \<open>Laws\<close>

lemma gmul_0 [simp]: "gmul 0 b = 0" "gmul a 0 = 0"
  by (simp_all add: gmul_def)

lemma gmul_pw: "gmul (pw i) (pw j) = pw (i + j)"
proof -
  have l: "LOG ! unat (pw k) = k mod 255" for k
    using LOG_pw [of "k mod 255"] pw_mod [of k] by simp
  have "i mod 255 + j mod 255 < 512" by (rule less_le_trans [OF add_strict_mono [OF mod_less_divisor mod_less_divisor]]) simp_all
  then have "gmul (pw i) (pw j) = pw (i mod 255 + j mod 255)"
    using pw_nonzero EXP_pw by (simp add: gmul_def l)
  also have "\<dots> = pw ((i + j) mod 255)" using pw_mod [of "i mod 255 + j mod 255"] by (simp add: mod_add_eq)
  finally show ?thesis using pw_mod by simp
qed

lemma gmul_steps: "gmul (pw i) b = (gf_step ^^ i) b"
proof (cases "b = 0")
  case False
  then obtain j where "b = pw j" using pw_covers by blast
  then show ?thesis using gmul_pw pw_add by simp
qed (simp add: steps_0)

lemma gmul_comm: "gmul a b = gmul b a"
  by (simp add: gmul_def add.commute)

lemma gmul_distrib: "gmul a (b XOR c) = gmul a b XOR gmul a c"
proof (cases "a = 0")
  case False
  then obtain i where "a = pw i" using pw_covers by blast
  then show ?thesis by (simp add: gmul_steps steps_xor)
qed simp

lemma gmul_distrib': "gmul (a XOR b) c = gmul a c XOR gmul b c"
  by (simp add: gmul_comm [of _ c] gmul_distrib)

lemma gmul_assoc: "gmul (gmul a b) c = gmul a (gmul b c)"
proof (cases "a = 0 \<or> b = 0 \<or> c = 0")
  case False
  then obtain i j k where "a = pw i" "b = pw j" "c = pw k" using pw_covers by metis
  then show ?thesis by (simp add: gmul_pw add.assoc)
qed auto

lemma gmul_1 [simp]: "gmul 1 a = a" "gmul a 1 = a"
  using gmul_steps [of 0 a] gmul_comm [of a 1] by simp_all

lemma gmul_left_comm: "gmul a (gmul b c) = gmul b (gmul a c)"
  by (metis gmul_assoc gmul_comm)

lemmas gmul_ac = gmul_assoc gmul_comm gmul_left_comm


section \<open>Evaluation of polynomials\<close>

fun rpow :: "byte \<Rightarrow> nat \<Rightarrow> byte" where
  "rpow r 0 = 1"
| "rpow r (Suc n) = gmul r (rpow r n)"

lemma rpow_add: "rpow r (m + n) = gmul (rpow r m) (rpow r n)"
  by (induction m) (simp_all add: gmul_assoc)

fun ev :: "byte \<Rightarrow> byte list \<Rightarrow> byte" where
  "ev r [] = 0"
| "ev r (c # p) = gmul c (rpow r (length p)) XOR ev r p"

lemma ev_append: "ev r (p @ q) = gmul (ev r p) (rpow r (length q)) XOR ev r q"
  by (induction p) (simp_all add: rpow_add gmul_distrib' gmul_assoc xor.assoc)

lemma ev_zeros [simp]: "ev r (replicate n 0) = 0"
  by (induction n) simp_all

lemma ev_update: "k < length p \<Longrightarrow> ev r (p[k := p ! k XOR v]) = ev r p XOR gmul v (rpow r (length p - 1 - k))"
  by (induction p arbitrary: k) (auto simp: gmul_distrib' xor.assoc xor.commute xor.left_commute split: nat.split)

text \<open>Adding the multiple \<open>c\<close> of a polynomial, shifted to start at position \<open>i\<close>.\<close>

definition add_row :: "nat \<Rightarrow> byte \<Rightarrow> byte list \<Rightarrow> byte list \<Rightarrow> byte list" where
  "add_row i c q out = fold (\<lambda>(j, g) out. out[i + j := out ! (i + j) XOR gmul c g]) (enumerate 0 q) out"

lemma fold_add_row:
  "i + k + length q \<le> length out \<Longrightarrow>
     length (fold (\<lambda>(j, g) out. out[i + j := out ! (i + j) XOR gmul c g]) (enumerate k q) out) = length out
   \<and> ev r (fold (\<lambda>(j, g) out. out[i + j := out ! (i + j) XOR gmul c g]) (enumerate k q) out)
     = ev r out XOR gmul (gmul c (ev r q)) (rpow r (length out - (i + k + length q)))
   \<and> (\<forall>n < i + k. fold (\<lambda>(j, g) out. out[i + j := out ! (i + j) XOR gmul c g]) (enumerate k q) out ! n = out ! n)"
proof (induction q arbitrary: k out)
  case (Cons a q)
  let ?out = "out[i + k := out ! (i + k) XOR gmul c a]"
  have l: "i + Suc k + length q \<le> length ?out" using Cons.prems by simp
  have e: "length out - 1 - (i + k) = length q + (length out - (i + k + length (a # q)))" using Cons.prems by simp
  have "ev r ?out = ev r out XOR gmul (gmul c (gmul a (rpow r (length q)))) (rpow r (length out - (i + k + length (a # q))))"
    using ev_update [of "i + k" out r "gmul c a"] Cons.prems unfolding e rpow_add by (simp add: gmul_assoc)
  then show ?case using Cons.IH [OF l] by (simp add: gmul_distrib gmul_distrib' xor.assoc)
qed simp

lemma add_row_facts:
  assumes "i + length q \<le> length out"
  shows "length (add_row i c q out) = length out"
    and "ev r (add_row i c q out) = ev r out XOR gmul (gmul c (ev r q)) (rpow r (length out - (i + length q)))"
    and "n < i \<Longrightarrow> add_row i c q out ! n = out ! n"
  using fold_add_row [of i 0 q out c r] fold_add_row [of i 0 q out c] assms by (simp_all add: add_row_def)

section \<open>The generator polynomial\<close>

lemma poly_mul_rows: "poly_mul p q = fold (\<lambda>(i, c). add_row i c q) (enumerate 0 p) (replicate (length p + length q - 1) 0)"
  by (simp add: poly_mul_def add_row_def [abs_def])

lemma rows_ev:
  "k + length p + length q \<le> Suc (length out) \<Longrightarrow> q \<noteq> [] \<Longrightarrow>
     length (fold (\<lambda>(i, c). add_row i c q) (enumerate k p) out) = length out
   \<and> ev r (fold (\<lambda>(i, c). add_row i c q) (enumerate k p) out)
     = ev r out XOR gmul (gmul (ev r p) (ev r q)) (rpow r (Suc (length out) - (k + length p + length q)))"
proof (induction p arbitrary: k out)
  case (Cons c p)
  let ?out = "add_row k c q out"
  have l: "k + length q \<le> length out" using Cons.prems by (cases q) simp_all
  note a = add_row_facts(1) [OF l, of c] add_row_facts(2) [OF l, where c = c and r = r]
  have pre: "Suc k + length p + length q \<le> Suc (length ?out)" using Cons.prems a(1) by simp
  have e: "length out - (k + length q) = length p + (Suc (length out) - (k + length (c # p) + length q))" using Cons.prems by simp
  have "ev r ?out = ev r out XOR gmul (gmul (gmul c (rpow r (length p))) (ev r q)) (rpow r (Suc (length out) - (k + length (c # p) + length q)))"
    unfolding a(2) e rpow_add by (simp add: gmul_ac)
  then show ?case using Cons.IH [OF pre Cons.prems(2)] a(1) by (simp add: gmul_distrib' xor.assoc)
qed simp

lemma poly_mul_ev:
  assumes "p \<noteq> []" and "q \<noteq> []"
  shows "length (poly_mul p q) = length p + length q - 1" and "ev r (poly_mul p q) = gmul (ev r p) (ev r q)"
proof -
  have "0 + length p + length q \<le> Suc (length (replicate (length p + length q - 1) (0 :: byte)))" using assms by (cases p; cases q) simp_all
  note f = rows_ev [OF this assms(2), of r]
  show "length (poly_mul p q) = length p + length q - 1" using f by (simp add: poly_mul_rows)
  have "Suc (length p + length q - 1) - (length p + length q) = 0" using assms by (cases p) simp_all
  then show "ev r (poly_mul p q) = gmul (ev r p) (ev r q)" using f by (simp add: poly_mul_rows)
qed


lemma rs_gen_poly_facts:
  "n \<le> 512 \<Longrightarrow> length (rs_gen_poly n) = Suc n \<and> rs_gen_poly n ! 0 = 1 \<and> (\<forall>i < n. ev (pw i) (rs_gen_poly n) = 0)"
proof (induction n)
  case (Suc n)
  let ?g = "rs_gen_poly n"
  have ih: "length ?g = Suc n" "?g ! 0 = 1" "\<And>i. i < n \<Longrightarrow> ev (pw i) ?g = 0" and n: "n < 512" using Suc by simp_all
  have step: "rs_gen_poly (Suc n) = poly_mul ?g [1, pw n]" using EXP_pw [OF n] by (simp add: rs_gen_poly_def)
  have ne: "?g \<noteq> []" "[1, pw n] \<noteq> []" using ih(1) by auto
  have l: "length (rs_gen_poly (Suc n)) = Suc (Suc n)" unfolding step poly_mul_ev(1) [OF ne] using ih(1) by simp
  moreover have "ev (pw i) (rs_gen_poly (Suc n)) = 0" if "i < Suc n" for i
    unfolding step poly_mul_ev(2) [OF ne] using ih(3) that by (cases "i = n") simp_all
  moreover have "rs_gen_poly (Suc n) ! 0 = 1"
  proof -
    obtain g0 gs where g: "?g = g0 # gs" using ne(1) by (cases ?g) auto
    have len: "0 < length (add_row 0 g0 [1, pw n] (replicate (Suc (Suc n)) 0))"
      by (subst add_row_facts(1)) simp_all
    have keep: "fold (\<lambda>(i, c). add_row i c [1, pw n]) (enumerate (Suc k) ps) out ! 0 = out ! 0"
      if "Suc k + length ps + 1 \<le> length out" for k ps out
      using that
    proof (induction ps arbitrary: k out)
      case (Cons c ps)
      have "Suc k + length [1, pw n] \<le> length out" using Cons.prems by simp
      note a = add_row_facts(1,3) [OF this, where c = c]
      have "Suc (Suc k) + length ps + 1 \<le> length (add_row (Suc k) c [1, pw n] out)" using a(1) Cons.prems by simp
      from Cons.IH [OF this] a(2) [of 0] show ?case by simp
    qed simp
    have "rs_gen_poly (Suc n) = fold (\<lambda>(i, c). add_row i c [1, pw n]) (enumerate (Suc 0) gs) (add_row 0 g0 [1, pw n] (replicate (Suc (Suc n)) 0))"
      unfolding step poly_mul_rows using g ih(1) by simp
    also have "\<dots> ! 0 = add_row 0 g0 [1, pw n] (replicate (Suc (Suc n)) 0) ! 0"
      using keep [of 0 gs "add_row 0 g0 [1, pw n] (replicate (Suc (Suc n)) 0)"] g ih(1) add_row_facts(1) [of 0 "[1, pw n]" "replicate (Suc (Suc n)) 0" g0]
      by simp
    also have "\<dots> = 1" using g ih(2) by (simp add: add_row_def)
    finally show ?thesis .
  qed
  ultimately show ?case by blast
qed (simp add: rs_gen_poly_def)

section \<open>Codewords\<close>

lemma rs_row_add: "rs_row gen i res = (if res ! i = 0 then res else add_row i (res ! i) gen res)"
  by (simp add: rs_row_def add_row_def Let_def gmul_comm)

lemma rs_rows:
  assumes gen: "length gen = Suc nsym" "gen ! 0 = 1" "ev r gen = 0"
  shows "k + nsym \<le> length res \<Longrightarrow>
      length (fold (rs_row gen) [0..<k] res) = length res \<and> ev r (fold (rs_row gen) [0..<k] res) = ev r res
    \<and> (\<forall>i < k. fold (rs_row gen) [0..<k] res ! i = 0)"
proof (induction k)
  case (Suc k)
  let ?m = "fold (rs_row gen) [0..<k] res"
  have ih: "length ?m = length res" "ev r ?m = ev r res" "\<And>i. i < k \<Longrightarrow> ?m ! i = 0" using Suc by simp_all
  have l: "k + length gen \<le> length ?m" using Suc.prems ih(1) gen(1) by simp
  have z: "add_row k (?m ! k) gen ?m ! k = 0"
  proof -
    obtain gs where g: "gen = 1 # gs" using gen(1,2) by (cases gen) auto
    have "Suc k + length gs \<le> length (?m[k := 0])" using l g by simp
    from fold_add_row [of k 1 gs "?m[k := 0]" "?m ! k"] this
    have "fold (\<lambda>(j, g) out. out[k + j := out ! (k + j) XOR gmul (?m ! k) g]) (enumerate 1 gs) (?m[k := 0]) ! k = ?m[k := 0] ! k" by simp
    then show ?thesis using l g by (simp add: add_row_def)
  qed
  define m where "m = ?m"
  have "fold (rs_row gen) [0..<Suc k] res = (if m ! k = 0 then m else add_row k (m ! k) gen m)"
    by (simp add: m_def rs_row_add [of gen k])
  then show ?case
    using ih z add_row_facts(1) [OF l, of "?m ! k"] add_row_facts(2) [OF l, where c = "?m ! k" and r = r] add_row_facts(3) [OF l, where c = "?m ! k"] gen(3)
    unfolding m_def [symmetric] by (auto simp: less_Suc_eq)
qed simp

text \<open>Also: the data followed by the bytes of \<open>rs_encode\<close> is a Reed-Solomon codeword: it vanishes at the first \<open>nsym\<close>
  powers of the generator of the field, and there are \<open>nsym\<close> check bytes.\<close>

theorem rs_encode_codeword:
  assumes "i < nsym" and "nsym \<le> 512"
  shows "ev (EXP ! i) (data @ rs_encode data nsym) = 0 \<and> length (rs_encode data nsym) = nsym"
proof -
  let ?g = "rs_gen_poly nsym" and ?res = "data @ replicate nsym 0"
  let ?out = "fold (rs_row ?g) [0..<length data] ?res"
  have g: "length ?g = Suc nsym" "?g ! 0 = 1" "ev (pw i) ?g = 0" using rs_gen_poly_facts [OF assms(2)] assms(1) by simp_all
  have o: "length ?out = length ?res" "ev (pw i) ?out = ev (pw i) ?res" "\<And>k. k < length data \<Longrightarrow> ?out ! k = 0"
    using rs_rows [OF g, of "length data" ?res] by simp_all
  have "take (length data) ?out = replicate (length data) 0" using o(1,3) by (intro nth_equalityI) simp_all
  then have s: "?out = replicate (length data) 0 @ rs_encode data nsym" unfolding rs_encode_def by (metis append_take_drop_id)
  have len: "length (rs_encode data nsym) = nsym" using o(1) by (simp add: rs_encode_def)
  have "ev (pw i) (rs_encode data nsym) = gmul (ev (pw i) data) (rpow (pw i) nsym)"
    using o(2) arg_cong [OF s, of "ev (pw i)"] by (simp add: ev_append)
  then show ?thesis using len EXP_pw [of i] assms by (simp add: ev_append)
qed


theorem rs_encode_codeword_witness:
  "ev (EXP ! 6) ([1, 2, 3] @ rs_encode [1, 2, 3] 7) = 0 \<and> length (rs_encode [1, 2, 3] 7) = 7"
  by (rule rs_encode_codeword) simp_all

end
