(* ===== verification/QrMatrix.thy ===== *)
theory QrMatrix
  imports QrField Captions
begin

text \<open>
  The symbol built by \<^verbatim>\<open>src/src/anbar/qrcode.py\<close>: the bit stream and its code words, the function
  patterns, the zigzag placement of the data under mask 0, the format information and the SVG
  text. A matrix is a map from cells to their values; a cell outside the map is unset.
\<close>

section \<open>Code words\<close>

definition data_caps :: "(nat \<times> nat) list" where
  "data_caps = [(1, 19), (2, 34), (3, 55), (4, 80), (5, 108), (6, 136), (7, 156), (8, 194), (9, 232), (10, 274)]"

(* src: src/src/anbar/qrcode.py auto _version_for *)
definition version_for :: "nat \<Rightarrow> (nat \<times> nat) res" where
  "version_for nbits =
     (case find (\<lambda>(v, cap). nbits \<le> cap * 8) data_caps of
        Some (v, cap) \<Rightarrow> Inr (v, cap * 8)
      | None \<Rightarrow> Inl (ValueError ''payload too long for versions 1-10 (use shorter URL)''))"

(* src: src/src/anbar/qrcode.py auto _EC_PER_BLOCK *)
definition EC_PER_BLOCK :: "(nat \<times> nat) list" where
  "EC_PER_BLOCK = [(1, 7), (2, 10), (3, 15), (4, 20), (5, 26), (6, 18), (7, 20), (8, 24), (9, 30), (10, 18)]"

definition byte_bits :: "byte \<Rightarrow> bool list" where
  "byte_bits b = map (bit b) (rev [0..<8])"

(* src: src/src/anbar/qrcode.py 89-97 _build_matrix *)
definition header_bits :: "nat \<Rightarrow> byte list \<Rightarrow> bool list" where
  "header_bits ver payload =
     [True, False, False] @ [bit (4 :: int) 3, bit (4 :: int) 2, bit (4 :: int) 1, bit (4 :: int) 0]
     @ map (bit (int (length payload))) (rev [0..<(if ver < 10 then 8 else 16)])
     @ concat (map byte_bits payload)"

definition shift_in :: "byte \<Rightarrow> bool \<Rightarrow> byte" where
  "shift_in b y = push_bit 1 b OR of_bool y"

(* src: src/src/anbar/qrcode.py 105-110 _build_matrix *)
fun pack_bits :: "bool list \<Rightarrow> byte list" where
  "pack_bits [] = []"
| "pack_bits (x # xs) =
     foldl shift_in 0 (take 8 (x # xs)) # pack_bits (drop 8 (x # xs))"

(* src: src/src/anbar/qrcode.py 100-115 _build_matrix *)
definition data_bytes :: "nat \<Rightarrow> bool list \<Rightarrow> byte list" where
  "data_bytes total_data bits =
     (let bits = bits @ replicate (min 4 (total_data * 8 - length bits)) False;
          bits = bits @ replicate ((8 - length bits mod 8) mod 8) False;
          ds = pack_bits bits
      in ds @ map (\<lambda>i. if even i then 0xEC else 0x11) [0..<total_data - length ds])"

(* src: src/src/anbar/qrcode.py 87-119 _build_matrix *)
definition codewords :: "byte list \<Rightarrow> (nat \<times> byte list) res" where
  "codewords payload =
     rbind (version_for (4 + (if length payload > 255 then 16 else 8) + 8 * length payload)) (\<lambda>(ver, _).
       let ds = data_bytes (the (map_of data_caps ver)) (header_bits ver payload)
       in Inr (ver, ds @ rs_encode ds (the (map_of EC_PER_BLOCK ver))))"

section \<open>Function patterns\<close>

type_synonym cell = "nat \<times> nat"
type_synonym grid = "cell \<Rightarrow> bool option"

(* src: src/src/anbar/qrcode.py 124-136 _build_matrix.set_finder *)
definition set_finder :: "nat \<Rightarrow> nat \<Rightarrow> nat \<Rightarrow> grid \<Rightarrow> grid" where
  "set_finder n row col m =
     (let m = fold (\<lambda>(r, c) m. m((row + r, col + c) \<mapsto>
                       (r \<in> {0, 6} \<or> c \<in> {0, 6}) \<or> (2 \<le> r \<and> r \<le> 4 \<and> 2 \<le> c \<and> c \<le> 4)))
                (List.product [0..<7] [0..<7]) m
      in fold (\<lambda>(r, c) m.
           if \<not> (0 \<le> r \<and> r \<le> 6 \<and> 0 \<le> c \<and> c \<le> 6) \<and> 0 \<le> int row + r \<and> int row + r < int n \<and> 0 \<le> int col + c \<and> int col + c < int n
           then m((nat (int row + r), nat (int col + c)) \<mapsto> False) else m) (List.product [-1..7] [-1..7]) m)"

(* src: src/src/anbar/qrcode.py 143-145 _build_matrix *)
definition set_timing :: "nat \<Rightarrow> grid \<Rightarrow> grid" where
  "set_timing n m = fold (\<lambda>i m. m((6, i) \<mapsto> even i, (i, 6) \<mapsto> even i)) [8..<n - 8] m"

(* src: src/src/anbar/qrcode.py 149-159 _build_matrix *)
definition align_pos :: "(nat \<times> nat list) list" where
  "align_pos = [(2, [6, 18]), (3, [6, 22]), (4, [6, 26]), (5, [6, 30]), (6, [6, 34]), (7, [6, 22, 38]), (8, [6, 24, 42]),
     (9, [6, 26, 46]), (10, [6, 28, 50])]"

(* src: src/src/anbar/qrcode.py 148-168 _build_matrix *)
definition set_alignment :: "nat \<Rightarrow> grid \<Rightarrow> grid" where
  "set_alignment ver m =
     (if ver < 2 then m
      else let ps = the (map_of align_pos ver) in
        fold (\<lambda>(r, c) m. if m (r, c) \<noteq> None then m
            else fold (\<lambda>(dr, dc) m. m((nat (int r + dr), nat (int c + dc)) \<mapsto> (dr \<in> {-2, 2} \<or> dc \<in> {-2, 2}) \<or> (dr = 0 \<and> dc = 0)))
                   (List.product [-2..2] [-2..2]) m)
          (List.product ps ps) m)"

definition keep_or_clear :: "cell \<Rightarrow> grid \<Rightarrow> grid" where
  "keep_or_clear p m = (if m p = None then m(p \<mapsto> False) else m)"

(* src: src/src/anbar/qrcode.py 171-183 _build_matrix *)
definition reserve_format :: "nat \<Rightarrow> grid \<Rightarrow> grid" where
  "reserve_format n m =
     fold (\<lambda>i m. keep_or_clear (i, 8) (keep_or_clear (8, i) m)) [n - 8..<n]
       (fold (\<lambda>i m. keep_or_clear (i, 8) (keep_or_clear (8, i) m)) [0..<9] (m((n - 8, 8) \<mapsto> True)))"

(* src: src/src/anbar/qrcode.py 121-183 _build_matrix *)
definition function_patterns :: "nat \<Rightarrow> nat \<Rightarrow> grid" where
  "function_patterns ver n =
     reserve_format n (set_alignment ver (set_timing n
       (set_finder n (n - 7) 0 (set_finder n 0 (n - 7) (set_finder n 0 0 (\<lambda>_. None))))))"

section \<open>Data placement\<close>

(* src: src/src/anbar/qrcode.py 188-207 _build_matrix *)
function zigzag :: "nat \<Rightarrow> nat \<Rightarrow> bool \<Rightarrow> cell list" where
  "zigzag n col upward =
     (if col = 0 then []
      else let c = (if col = 6 then 5 else col) in
        concat (map (\<lambda>row. [(row, c), (row, c - 1)]) (if upward then rev [0..<n] else [0..<n])) @ zigzag n (c - 2) (\<not> upward))"
  by pat_completeness auto
termination
  by (relation "measure (\<lambda>(n, col, up). col)") auto

declare zigzag.simps [simp del]

(* src: src/src/anbar/qrcode.py 194-205 _build_matrix *)
fun place :: "bool list \<Rightarrow> cell list \<Rightarrow> grid \<Rightarrow> grid" where
  "place bits [] m = m"
| "place bits ((r, c) # ps) m =
     (if m (r, c) \<noteq> None then place bits ps m
      else let v = (case bits of [] \<Rightarrow> False | b # _ \<Rightarrow> b);
               v = (if even (r + c) then \<not> v else v)
           in place (tl bits) ps (m((r, c) \<mapsto> v)))"

(* src: src/src/anbar/qrcode.py 210-210 _build_matrix *)
definition FMT :: string where "FMT = ''111011111000100''"

definition format_cells :: "nat \<Rightarrow> (cell \<times> nat) list" where
  "format_cells n =
     map (\<lambda>c. ((8, c), c)) [0..<6] @ [((8, 7), 6), ((8, 8), 7), ((7, 8), 8)]
     @ map (\<lambda>r. ((r, 8), 9 + (5 - r))) (rev [0..<6])
     @ map (\<lambda>i. ((n - 1 - i, 8), i)) [0..<7] @ map (\<lambda>i. ((8, n - 8 + i), 7 + i)) [0..<8]"

(* src: src/src/anbar/qrcode.py 212-229 _build_matrix *)
definition set_format :: "nat \<Rightarrow> grid \<Rightarrow> grid" where
  "set_format n m = fold (\<lambda>(p, k) m. m(p \<mapsto> FMT ! k = CHR ''1'')) (format_cells n) m"

(* src: src/src/anbar/qrcode.py auto _build_matrix *)
definition build_matrix :: "byte list \<Rightarrow> (nat \<times> (cell \<Rightarrow> bool)) res" where
  "build_matrix payload =
     rbind (codewords payload) (\<lambda>(ver, final).
       let n = 21 + (ver - 1) * 4;
           m = set_format n (place (concat (map byte_bits final)) (zigzag n (n - 1) True) (function_patterns ver n))
       in Inr (n, \<lambda>p. m p = Some True))"


section \<open>The SVG text\<close>

text \<open>\<^verbatim>\<open>str.encode("utf-8")\<close> for characters up to U+00FF.\<close>

definition utf8_bytes :: "string \<Rightarrow> byte list" where
  "utf8_bytes s = concat (map (\<lambda>c. if code c < 128 then [word_of_nat (code c)]
     else [word_of_nat (192 + code c div 64), word_of_nat (128 + code c mod 64)]) s)"

definition quoted :: "string \<Rightarrow> string" where
  "quoted s = [CHR 0x22] @ s @ [CHR 0x22]"

(* src: src/src/anbar/qrcode.py auto qr_svg *)
definition qr_svg :: "string \<Rightarrow> nat \<Rightarrow> string res" where
  "qr_svg text box_px =
     rbind (build_matrix (utf8_bytes text)) (\<lambda>(n, m).
       let quiet = 2; dim = (n + quiet * 2) * 4;
           rect = (\<lambda>(r, c). if m (r, c)
                     then ''<rect x='' @ quoted (str_of_nat ((c + quiet) * 4)) @ '' y='' @ quoted (str_of_nat ((r + quiet) * 4))
                          @ '' width='' @ quoted ''4'' @ '' height='' @ quoted ''4'' @ ''/>''
                     else []);
           body = concat (map rect (List.product [0..<n] [0..<n]))
       in Inr (''<svg xmlns='' @ quoted ''http://www.w3.org/2000/svg'' @ '' viewBox='' @ quoted (''0 0 '' @ str_of_nat dim @ '' '' @ str_of_nat dim)
            @ '' width='' @ quoted (str_of_nat box_px) @ '' height='' @ quoted (str_of_nat box_px) @ '' shape-rendering='' @ quoted ''crispEdges'' @ ''>''
            @ ''<rect width='' @ quoted (str_of_nat dim) @ '' height='' @ quoted (str_of_nat dim) @ '' fill='' @ quoted ''#fff'' @ ''/>'' @ body @ ''</svg>''))"

section \<open>The zigzag visits every cell once\<close>

lemma zigzag_cols: "(r, c) \<in> set (zigzag n col up) \<Longrightarrow> c \<le> col \<and> r < n \<and> 0 < col"
proof (induction n col up arbitrary: r c rule: zigzag.induct)
  case (1 n col up)
  show ?case
  proof (cases "col = 0")
    case True
    then show ?thesis using 1(2) by (simp add: zigzag.simps)
  next
    case False
    let ?c = "if col = 6 then 5 else col"
    have "(r, c) \<in> set (concat (map (\<lambda>row. [(row, ?c), (row, ?c - 1)]) (if up then rev [0..<n] else [0..<n]))) \<or> (r, c) \<in> set (zigzag n (?c - 2) (\<not> up))"
      using 1(2) False by (subst (asm) zigzag.simps) (simp add: Let_def)
    then show ?thesis using 1(1) [OF False refl, of r c] False by (auto split: if_splits)
  qed
qed

lemma distinct_pairs: "0 < (c :: nat) \<Longrightarrow> distinct rows \<Longrightarrow> distinct (concat (map (\<lambda>row :: nat. [(row, c), (row, c - 1)]) rows))"
  by (induction rows) auto

lemma zigzag_distinct: "distinct (zigzag n col up)"
proof (induction n col up rule: zigzag.induct)
  case (1 n col up)
  show ?case
  proof (cases "col = 0")
    case True
    then show ?thesis by (simp add: zigzag.simps)
  next
    case False
    let ?c = "if col = 6 then 5 else col"
    let ?now = "concat (map (\<lambda>row. [(row, ?c), (row, ?c - 1)]) (if up then rev [0..<n] else [0..<n]))"
    have c: "0 < ?c" using False by simp
    have e: "zigzag n col up = ?now @ zigzag n (?c - 2) (\<not> up)" using False by (subst zigzag.simps) (simp add: Let_def)
    have d: "distinct ?now" using distinct_pairs [OF c] by simp
    have "set ?now \<inter> set (zigzag n (?c - 2) (\<not> up)) = {}"
    proof -
      have "c' = ?c \<or> c' = ?c - 1" if "(r, c') \<in> set ?now" for r c' using that by auto
      moreover have "c' \<le> ?c - 2 \<and> 0 < ?c - 2" if "(r, c') \<in> set (zigzag n (?c - 2) (\<not> up))" for r c' using zigzag_cols [OF that] by blast
      ultimately show ?thesis using c by fastforce
    qed
    then show ?thesis using 1 [OF False refl] d unfolding e by simp
  qed
qed

section \<open>Reading the data back\<close>

definition unmask :: "cell \<Rightarrow> bool \<Rightarrow> bool" where
  "unmask p v = (v \<noteq> even (fst p + snd p))"

definition stream_bit :: "bool list \<Rightarrow> nat \<Rightarrow> bool" where
  "stream_bit bits i = (i < length bits \<and> bits ! i)"

lemma place_keeps: "m p \<noteq> None \<or> p \<notin> set ps \<Longrightarrow> place bits ps m p = m p"
proof (induction ps arbitrary: bits m)
  case (Cons q ps)
  obtain r c where q: "q = (r, c)" by (cases q)
  show ?case
  proof (cases "m (r, c)")
    case None
    then have ne: "p \<noteq> (r, c)" using Cons.prems q by auto
    have ih: "place bs ps (m((r, c) \<mapsto> v)) p = m p" for bs v
      by (subst Cons.IH) (use Cons.prems ne in auto)
    show ?thesis unfolding q by (simp add: None Let_def ih)
  next
    case (Some v)
    have "place bits ps m p = m p" by (rule Cons.IH) (use Cons.prems in auto)
    then show ?thesis using Some q by simp
  qed
qed simp

lemma place_reads:
  "distinct ps \<Longrightarrow> i < length (filter (\<lambda>p. m p = None) ps) \<Longrightarrow>
     let p = filter (\<lambda>p. m p = None) ps ! i in \<exists>v. place bits ps m p = Some v \<and> unmask p v = stream_bit bits i"
proof (induction bits ps m arbitrary: i rule: place.induct)
  case (2 bits r c ps m)
  show ?case
  proof (cases "m (r, c)")
    case (Some v)
    then show ?thesis using 2 by simp
  next
    case None
    define v where "v = (if even (r + c) then \<not> (case bits of [] \<Rightarrow> False | b # _ \<Rightarrow> b) else (case bits of [] \<Rightarrow> False | b # _ \<Rightarrow> b))"
    let ?m = "m((r, c) \<mapsto> v)"
    have nc: "(r, c) \<notin> set ps" using 2(3) by simp
    have pl: "place bits ((r, c) # ps) m = place (tl bits) ps ?m" using None by (simp add: v_def Let_def)
    have fl: "filter (\<lambda>p. m p = None) ((r, c) # ps) = (r, c) # filter (\<lambda>p. ?m p = None) ps"
      using None nc by (auto intro!: filter_cong)
    show ?thesis
    proof (cases i)
      case 0
      have "place (tl bits) ps ?m (r, c) = Some v" using place_keeps [of ?m "(r, c)"] by simp
      moreover have "unmask (r, c) v = stream_bit bits 0" by (cases bits) (auto simp: v_def unmask_def stream_bit_def Let_def)
      ultimately show ?thesis unfolding pl fl 0 by simp
    next
      case (Suc k)
      have "stream_bit bits (Suc k) = stream_bit (tl bits) k" by (cases bits) (auto simp: stream_bit_def)
      moreover have "let p = filter (\<lambda>p. ?m p = None) ps ! k in \<exists>w. place (tl bits) ps ?m p = Some w \<and> unmask p w = stream_bit (tl bits) k"
        unfolding v_def using 2(4) None 2(3) unfolding fl Suc v_def by (intro 2(2) [OF _ refl refl]) simp_all
      ultimately show ?thesis unfolding pl fl Suc by simp
    qed
  qed
qed simp


lemma fold_keep_dom:
  "m p \<noteq> None \<Longrightarrow> fold (\<lambda>i m. keep_or_clear (i, 8) (keep_or_clear (8, i) m)) is m p \<noteq> None"
proof (induction "is" arbitrary: m)
  case (Cons i "is")
  have "keep_or_clear (i, 8) (keep_or_clear (8, i) m) p \<noteq> None" using Cons.prems by (auto simp: keep_or_clear_def)
  then show ?case using Cons.IH [of "keep_or_clear (i, 8) (keep_or_clear (8, i) m)"] by simp
qed simp

lemma fold_keep_sets:
  "i \<in> set is \<Longrightarrow> p = (8, i) \<or> p = (i, 8) \<Longrightarrow> fold (\<lambda>i m. keep_or_clear (i, 8) (keep_or_clear (8, i) m)) is m p \<noteq> None"
proof (induction "is" arbitrary: m)
  case (Cons j "is")
  show ?case
  proof (cases "i = j")
    case True
    have "keep_or_clear (j, 8) (keep_or_clear (8, j) m) p \<noteq> None" using Cons.prems(2) True by (auto simp: keep_or_clear_def)
    then show ?thesis using fold_keep_dom [of "keep_or_clear (j, 8) (keep_or_clear (8, j) m)" p "is"] True by simp
  next
    case False
    then show ?thesis using Cons by simp
  qed
qed simp

lemma format_reserved:
  assumes "21 \<le> n" and "(p, k) \<in> set (format_cells n)"
  shows "reserve_format n m p \<noteq> None"
proof -
  obtain r c where p: "p = (r, c)" by (cases p)
  have "r = 8 \<and> (c < 9 \<or> n - 8 \<le> c \<and> c < n) \<or> c = 8 \<and> (r < 9 \<or> n - 8 \<le> r \<and> r < n)"
    using assms unfolding p by (auto simp: format_cells_def)
  then consider "r = 8" "c \<in> set [0..<9]" | "r = 8" "c \<in> set [n - 8..<n]" | "c = 8" "r \<in> set [0..<9]" | "c = 8" "r \<in> set [n - 8..<n]"
    by auto
  then show ?thesis
    unfolding reserve_format_def p
    by cases ((rule fold_keep_sets, assumption, simp) | (rule fold_keep_dom, rule fold_keep_sets, assumption, simp))+
qed

lemma set_format_keeps: "p \<notin> fst ` set (format_cells n) \<Longrightarrow> set_format n m p = m p"
proof -
  have "p \<notin> fst ` set ps \<Longrightarrow> fold (\<lambda>(p, k) m. m(p \<mapsto> FMT ! k = CHR ''1'')) ps m p = m p" for ps and m :: grid
    by (induction ps arbitrary: m) auto
  then show "p \<notin> fst ` set (format_cells n) \<Longrightarrow> set_format n m p = m p" by (simp add: set_format_def)
qed

text \<open>The cells of the data, in the order of placement.\<close>

definition data_cells :: "nat \<Rightarrow> nat \<Rightarrow> cell list" where
  "data_cells ver n = filter (\<lambda>p. function_patterns ver n p = None) (zigzag n (n - 1) True)"

text \<open>Also: reading the data cells of a finished symbol in zigzag order and undoing the mask gives the bits of
  the code words, in order, and then zeros: no function pattern and no format bit overwrites data.\<close>

theorem qr_data_reads_back:
  assumes "codewords payload = Inr (ver, cw)" and "build_matrix payload = Inr (n, g)"
  shows "n = 21 + (ver - 1) * 4
    \<and> map (\<lambda>p. unmask p (g p)) (data_cells ver n) = map (stream_bit (concat (map byte_bits cw))) [0..<length (data_cells ver n)]"
proof -
  let ?bits = "concat (map byte_bits cw)" and ?f = "function_patterns ver n"
  let ?m = "place ?bits (zigzag n (n - 1) True) ?f"
  have n: "n = 21 + (ver - 1) * 4" and g: "g = (\<lambda>p. set_format n ?m p = Some True)"
    using assms by (auto simp: build_matrix_def Let_def)
  have "unmask (data_cells ver n ! i) (g (data_cells ver n ! i)) = stream_bit ?bits i" if i: "i < length (data_cells ver n)" for i
  proof -
    let ?p = "data_cells ver n ! i"
    have "?p \<in> set (data_cells ver n)" using i by simp
    then have "?f ?p = None" by (simp add: data_cells_def)
    have "?p \<notin> fst ` set (format_cells n)"
    proof
      assume "?p \<in> fst ` set (format_cells n)"
      then obtain k where "(?p, k) \<in> set (format_cells n)" by force
      moreover have "21 \<le> n" using n by simp
      ultimately show False using format_reserved \<open>?f ?p = None\<close> unfolding function_patterns_def by blast
    qed
    then have "set_format n ?m ?p = ?m ?p" by (rule set_format_keeps)
    moreover obtain v where "?m ?p = Some v" "unmask ?p v = stream_bit ?bits i"
      using place_reads [OF zigzag_distinct, of i ?f n "n - 1" True ?bits] i unfolding data_cells_def by (auto simp: Let_def)
    ultimately show ?thesis by (simp add: g)
  qed
  then show ?thesis using n by (auto intro!: nth_equalityI)
qed


section \<open>The code words carry the stream\<close>

lemma bit_shift_in: "bit (shift_in b y) n = (if n = 0 then y else n < 8 \<and> bit b (n - 1))"
  unfolding shift_in_def bit_or_iff bit_push_bit_iff bit_of_bool_iff by auto

lemma foldl_bits:
  "n < 8 \<Longrightarrow> bit (foldl shift_in a ys) n = (if n < length ys then rev ys ! n else bit a (n - length ys))"
proof (induction ys arbitrary: n rule: rev_induct)
  case (snoc y ys)
  show ?case
  proof (cases n)
    case (Suc k)
    then show ?thesis using snoc.IH [of k] snoc.prems by (simp add: bit_shift_in)
  qed (simp add: bit_shift_in)
qed simp

lemma byte_bits_pack: "length ys = 8 \<Longrightarrow> byte_bits (foldl shift_in 0 ys) = ys"
proof (rule nth_equalityI)
  fix i assume "length ys = 8" and "i < length (byte_bits (foldl shift_in 0 ys))"
  moreover from this have "i < 8" by (simp add: byte_bits_def)
  moreover have "7 - i < 8" by simp
  ultimately show "byte_bits (foldl shift_in 0 ys) ! i = ys ! i"
    by (simp add: byte_bits_def foldl_bits rev_nth del: upt_rec_numeral upt_Suc)
qed (simp add: byte_bits_def)

lemma pack_bits_inverse: "length bits mod 8 = 0 \<Longrightarrow> concat (map byte_bits (pack_bits bits)) = bits \<and> length (pack_bits bits) = length bits div 8"
proof (induction bits rule: pack_bits.induct)
  case (2 x xs)
  let ?b = "x # xs"
  have l: "8 \<le> length ?b" using 2(2) by (metis length_0_conv list.distinct(1) mod_less not_less)
  have m: "length (drop 8 ?b) mod 8 = 0" using 2(2) l by (simp add: le_mod_geq)
  have "concat (map byte_bits (pack_bits ?b)) = take 8 ?b @ drop 8 ?b"
    using 2(1) [OF m] byte_bits_pack [of "take 8 ?b"] l by simp
  moreover have "length ?b div 8 = Suc (length (drop 8 ?b) div 8)" using l by (simp add: le_div_geq)
  ultimately show ?case using 2(1) [OF m] by simp
qed simp

lemma round_up:
  fixes a :: nat
  shows "(a + (8 - a mod 8) mod 8) mod 8 = 0" and "a \<le> 8 * n \<Longrightarrow> a + (8 - a mod 8) mod 8 \<le> 8 * n"
proof -
  define q r where "q = a div 8" and "r = a mod 8"
  have a: "a = 8 * q + r" and r: "r < 8" unfolding q_def r_def by simp_all
  have m: "a mod 8 = r" by (simp add: r_def)
  have up: "a + (8 - a mod 8) mod 8 = (if r = 0 then 8 * q else 8 * (q + 1))"
    unfolding m using r by (cases "r = 0") (simp_all add: a)
  show "(a + (8 - a mod 8) mod 8) mod 8 = 0" unfolding up by simp
  assume le: "a \<le> 8 * n"
  show "a + (8 - a mod 8) mod 8 \<le> 8 * n" unfolding up
  proof (cases "r = 0")
    case False
    then have "8 * q < 8 * n" using le a by linarith
    then show "(if r = 0 then 8 * q else 8 * (q + 1)) \<le> 8 * n" using False by simp
  qed (use le a in simp)
qed

lemma header_fits:
  fixes l n :: nat
  assumes "(ver, n) \<in> set data_caps" and "4 + (if l > 255 then 16 else 8) + 8 * l \<le> 8 * n"
    and "ver < 10 \<longrightarrow> 4 + (if l > 255 then 16 else 8) + 8 * l \<le> 1856"
  shows "7 + (if ver < 10 then 8 else 16) + 8 * l \<le> 8 * n"
proof (cases "ver < 10")
  case True
  then have "l \<le> 255" using assms(3) by (cases "l > 255") simp_all
  then have "12 + 8 * l \<le> 8 * n" using assms(2) by simp
  then have "15 + 8 * l \<le> 8 * n" by presburger
  then show ?thesis using True by simp
next
  case False
  then have n: "n = 274" using assms(1) by (auto simp: data_caps_def)
  show ?thesis
  proof (cases "l > 255")
    case True
    then have "20 + 8 * l \<le> 8 * n" using assms(2) by simp
    then have "23 + 8 * l \<le> 8 * n" by presburger
    then show ?thesis using False by simp
  qed (use n False in simp)
qed

lemma data_bytes_facts:
  assumes "length bits \<le> 8 * n"
  shows "length (data_bytes n bits) = n \<and> take (length bits) (concat (map byte_bits (data_bytes n bits))) = bits"
proof -
  define b1 where "b1 = bits @ replicate (min 4 (n * 8 - length bits)) False"
  define b2 where "b2 = b1 @ replicate ((8 - length b1 mod 8) mod 8) False"
  have l1: "length b1 \<le> 8 * n" using assms by (simp add: b1_def)
  have m: "length b2 mod 8 = 0" unfolding b2_def length_append length_replicate by (rule round_up(1))
  have l2: "length b2 \<le> 8 * n" unfolding b2_def length_append length_replicate using l1 by (rule round_up(2))
  then have "length b2 div 8 \<le> n" by simp
  moreover have d: "data_bytes n bits = pack_bits b2 @ map (\<lambda>i. if even i then 0xEC else 0x11) [0..<n - length (pack_bits b2)]"
    by (simp add: data_bytes_def Let_def b1_def [symmetric] b2_def [symmetric])
  moreover have "take (length bits) (b2 @ xs) = bits" for xs by (simp add: b2_def b1_def)
  ultimately show ?thesis using pack_bits_inverse [OF m] by simp
qed

lemma length_header: "length (header_bits ver payload) = 7 + (if ver < 10 then 8 else 16) + 8 * length payload"
proof -
  have "length (concat (map byte_bits xs)) = 8 * length xs" for xs by (induction xs) (simp_all add: byte_bits_def)
  then show ?thesis by (simp add: header_bits_def)
qed

lemma version_for_cases:
  assumes "version_for k = Inr (ver, c)"
  shows "(ver, c div 8) \<in> set data_caps \<and> k \<le> c \<and> c mod 8 = 0 \<and> (ver < 10 \<longrightarrow> k \<le> 1856)"
  using assms by (auto simp: version_for_def data_caps_def split: if_splits)

text \<open>Also: the code words of a payload have the length the version prescribes, vanish at the roots of the generator,
  and begin with the header and the payload. But the header starts with seven bits, 1000100: its
  mode indicator is 1000 and not 0100, the one of byte mode, and all that follows is three bits late.\<close>

theorem qr_stream_is_misaligned:
  assumes "codewords payload = Inr (ver, cw)" and "map_of data_caps ver = Some n" and "map_of EC_PER_BLOCK ver = Some k"
    and "i < k"
  shows "length cw = n + k \<and> ev (EXP ! i) cw = 0
    \<and> take 4 (concat (map byte_bits cw)) = [True, False, False, False]
    \<and> drop 4 (take (length (header_bits ver payload)) (concat (map byte_bits cw)))
      = [True, False, False] @ map (bit (int (length payload))) (rev [0..<(if ver < 10 then 8 else 16)]) @ concat (map byte_bits payload)"
proof -
  let ?l = "length payload" and ?h = "header_bits ver payload"
  obtain c where v: "version_for (4 + (if ?l > 255 then 16 else 8) + 8 * ?l) = Inr (ver, c)"
    and cw: "cw = data_bytes n ?h @ rs_encode (data_bytes n ?h) k"
    using assms by (auto simp: codewords_def Let_def elim!: rbind_InrE)
  have c: "c = 8 * n" using version_for_cases [OF v] assms(2) by (auto simp: data_caps_def)
  have "length ?h \<le> 8 * n"
    using header_fits [of ver n ?l] version_for_cases [OF v] unfolding length_header c by simp
  from data_bytes_facts [OF this] have d: "length (data_bytes n ?h) = n" "take (length ?h) (concat (map byte_bits (data_bytes n ?h))) = ?h" by simp_all
  have k: "k \<le> 512" using assms(3) by (auto simp: EC_PER_BLOCK_def split: if_splits)
  have le: "length ?h \<le> length (concat (map byte_bits (data_bytes n ?h)))" using arg_cong [OF d(2), of length] by simp
  then have t: "take (length ?h) (concat (map byte_bits cw)) = ?h" using d(2) cw by simp
  have h: "?h = [True, False, False, False, True, False, False] @ map (bit (int ?l)) (rev [0..<(if ver < 10 then 8 else 16)]) @ concat (map byte_bits payload)"
    by (simp add: header_bits_def)
  have "4 \<le> length ?h" unfolding length_header by simp
  then have "take 4 (concat (map byte_bits cw)) = take 4 (take (length ?h) (concat (map byte_bits cw)))" by (simp add: min_absorb1)
  also have "\<dots> = [True, False, False, False]" unfolding t by (subst h) simp
  finally have t4: "take 4 (concat (map byte_bits cw)) = [True, False, False, False]" .
  have d4: "drop 4 ?h = [True, False, False] @ map (bit (int ?l)) (rev [0..<(if ver < 10 then 8 else 16)]) @ concat (map byte_bits payload)"
    by (subst h) simp
  have "length cw = n + k" "ev (EXP ! i) cw = 0" using rs_encode_codeword [OF assms(4) k, of "data_bytes n ?h"] d(1) unfolding cw by simp_all
  then show ?thesis using t4 d4 unfolding t by (intro conjI)
qed


section \<open>Witnesses\<close>

lemma demo_codewords:
  "codewords [0x41] = Inr (1, data_bytes 19 (header_bits 1 [0x41]) @ rs_encode (data_bytes 19 (header_bits 1 [0x41])) 7)"
  by (simp add: codewords_def version_for_def data_caps_def EC_PER_BLOCK_def Let_def)

theorem qr_stream_is_misaligned_witness:
  "\<exists>cw. codewords [0x41] = Inr (1, cw) \<and> length cw = 26 \<and> ev (EXP ! 3) cw = 0
     \<and> take 4 (concat (map byte_bits cw)) = [True, False, False, False]"
proof -
  have c: "map_of data_caps 1 = Some 19" "map_of EC_PER_BLOCK 1 = Some 7" "(3 :: nat) < 7" by (simp_all add: data_caps_def EC_PER_BLOCK_def)
  obtain cw where cw: "codewords [0x41] = Inr (1, cw)" using demo_codewords by blast
  have "(19 :: nat) + 7 = 26" by simp
  with qr_stream_is_misaligned [OF cw c] cw show ?thesis by (elim conjE) (intro exI conjI; simp only:)
qed

theorem qr_data_reads_back_witness:
  "\<exists>cw g. codewords [0x41] = Inr (1, cw) \<and> build_matrix [0x41] = Inr (21, g)
     \<and> map (\<lambda>p. unmask p (g p)) (data_cells 1 21) = map (stream_bit (concat (map byte_bits cw))) [0..<length (data_cells 1 21)]"
proof -
  obtain g where g: "build_matrix [0x41] = Inr (21, g)"
    using demo_codewords by (simp add: build_matrix_def Let_def)
  from qr_data_reads_back [OF demo_codewords g] demo_codewords g show ?thesis by blast
qed

end
