(* ===== verification/Gallery.thy ===== *)
theory Gallery
  imports Serving SubsImport ZipStream QrMatrix
begin

text \<open>
  The remaining routes of \<^verbatim>\<open>src/src/anbar/api/download.py\<close>: an archive of several objects, the QR
  code of a link, shared albums and thumbnails (\<^verbatim>\<open>thumbs.py\<close>, with the image encoders as arguments).
\<close>

section \<open>Admin routes with a list of ids\<close>

(* src: src/src/anbar/api/download.py 830-834 zip_download *)
definition admin_only :: "ctx \<Rightarrow> request \<Rightarrow> db \<Rightarrow> db \<times> unit res" where
  "admin_only cx r d =
     (case role_of cx r d of (role, d) \<Rightarrow>
        (d, if auth_on (cx_settings cx) d \<and> role = Anon then Inl (HTTPException 401 ''authentication required'')
            else if role \<noteq> Admin then Inl (HTTPException 403 ''admin only'') else Inr ()))"

text \<open>The body of the request is \<open>None\<close> when it is no JSON.\<close>

(* src: src/src/anbar/api/download.py 835-842 zip_download *)
definition body_ids :: "json option \<Rightarrow> string list res" where
  "body_ids body =
     (case body of
        None \<Rightarrow> Inl (HTTPException 400 ''json body required'')
      | Some (JObj kvs) \<Rightarrow>
          (case map_of kvs ''ids'' of
             Some (JList (v # vs)) \<Rightarrow> Inr (take 100 (map py_str (v # vs)))
           | _ \<Rightarrow> Inl (HTTPException 400 ''ids[] required''))
      | Some _ \<Rightarrow> Inl (HTTPException 400 ''ids[] required''))"

section \<open>An archive\<close>

text \<open>\<^verbatim>\<open>f"{stem}-{n}{dot}{ext}"\<close>, or \<^verbatim>\<open>f"{name}-{n}"\<close> without a dot.\<close>

(* src: src/src/anbar/api/download.py 855-860 zip_download *)
definition variant :: "string \<Rightarrow> nat \<Rightarrow> string" where
  "variant nm n = (case rsplit1 (CHR ''.'') nm of
     None \<Rightarrow> nm @ ''-'' @ str_of_nat n | Some (stem, ext) \<Rightarrow> stem @ ''-'' @ str_of_nat n @ ''.'' @ ext)"

lemma str_of_nat_inj: "str_of_nat a = str_of_nat b \<longleftrightarrow> a = b"
  by (metis py_int_str_of_nat option.inject of_nat_eq_iff)

lemma variant_inj: "variant nm a = variant nm b \<longleftrightarrow> a = b"
  by (auto simp: variant_def str_of_nat_inj split: option.split prod.split)

(* src: src/src/anbar/api/download.py 856-860 zip_download *)
function next_name :: "string list \<Rightarrow> string \<Rightarrow> string \<Rightarrow> nat \<Rightarrow> string" where
  "next_name used nm base n = (if base \<in> set used then next_name used nm (variant nm (n + 1)) (n + 1) else base)"
  by pat_completeness auto

termination
proof (relation "measure (\<lambda>(used, nm, base, n). (if base = variant nm n then 0 else 1) + card {k. n \<le> k \<and> variant nm k \<in> set used})")
  fix used :: "string list" and nm base :: string and n :: nat
  assume b: "base \<in> set used"
  have fin: "finite {k. n \<le> k \<and> variant nm k \<in> set used}" for n
    by (rule finite_subset [of _ "variant nm -` set used"]) (auto simp: inj_def variant_inj intro: finite_vimageI)
  have s: "{k. n + 1 \<le> k \<and> variant nm k \<in> set used} \<subseteq> {k. n \<le> k \<and> variant nm k \<in> set used}" by auto
  have "card {k. n + 1 \<le> k \<and> variant nm k \<in> set used} < (if base = variant nm n then 0 else 1) + card {k. n \<le> k \<and> variant nm k \<in> set used}"
  proof (cases "base = variant nm n")
    case True
    then have "n \<in> {k. n \<le> k \<and> variant nm k \<in> set used}" using b by simp
    moreover have "n \<notin> {k. n + 1 \<le> k \<and> variant nm k \<in> set used}" by simp
    ultimately have "{k. n + 1 \<le> k \<and> variant nm k \<in> set used} \<subset> {k. n \<le> k \<and> variant nm k \<in> set used}" using s by blast
    then have "card {k. n + 1 \<le> k \<and> variant nm k \<in> set used} < card {k. n \<le> k \<and> variant nm k \<in> set used}" using psubset_card_mono [OF fin] by blast
    then show ?thesis using True by simp
  qed (use card_mono [OF fin s] in simp)
  then show "((used, nm, variant nm (n + 1), n + 1), used, nm, base, n)
      \<in> measure (\<lambda>(used, nm, base, n). (if base = variant nm n then 0 else 1) + card {k. n \<le> k \<and> variant nm k \<in> set used})" by simp
qed simp

declare next_name.simps [simp del]

lemma next_name_fresh: "next_name used nm base n \<notin> set used"
  by (induction used nm base n rule: next_name.induct) (subst next_name.simps, simp)

text \<open>\<^verbatim>\<open>xs[a:b]\<close>\<close>

definition py_slice :: "'b list \<Rightarrow> int \<Rightarrow> int \<Rightarrow> 'b list" where
  "py_slice xs a b =
     (let n = int (length xs); norm = (\<lambda>i. if i < 0 then max 0 (i + n) else min i n)
      in take (nat (norm b - norm a)) (drop (nat (norm a)) xs))"

definition row_manifest :: "obj \<Rightarrow> json res" where
  "row_manifest row =
     (if truthy_str (o_manifest row)
      then (case loads (the (o_manifest row)) of None \<Rightarrow> Inl (ValueError ''json'') | Some j \<Rightarrow> Inr j)
      else Inr (JObj [(''chunks'', JList [])]))"

definition manifest_chunks :: "json \<Rightarrow> json list res" where
  "manifest_chunks m =
     (case m of JObj kvs \<Rightarrow> (case map_of kvs ''chunks'' of None \<Rightarrow> Inr [] | Some v \<Rightarrow> as_list v) | _ \<Rightarrow> Inl TypeError)"

(* src: src/src/anbar/zipper.py 54-56 stream_zip._segments *)
definition segments_of :: "json \<Rightarrow> (int \<times> int) res list" where
  "segments_of m =
     (case manifest_chunks m of
        Inl e \<Rightarrow> [Inl e]
      | Inr cs \<Rightarrow> map (\<lambda>c. rbind (rbind (j_item c ''i'') as_int) (\<lambda>i. rbind (rbind (j_item c ''s'') as_int) (\<lambda>n. Inr (i, n)))) cs)"

text \<open>\<open>None\<close>: cutting a name never ends.\<close>

(* src: src/src/anbar/api/download.py 848-863 zip_download *)
fun zip_entries :: "string list \<Rightarrow> string list \<Rightarrow> db \<Rightarrow> (db \<times> ((string \<times> string \<times> (int \<times> int) res list) list \<times> int) res) option" where
  "zip_entries used [] d = Some (d, Inr ([], 0))"
| "zip_entries used (i # is) d =
     (case get_object i False d of
        (None, d) \<Rightarrow> zip_entries used is d
      | (Some row, d) \<Rightarrow>
          (case row_manifest row of
             Inl e \<Rightarrow> Some (d, Inl e)
           | Inr m \<Rightarrow>
               (case entry_name (o_filename row) i of
                  None \<Rightarrow> None
                | Some nm \<Rightarrow>
                    let base = next_name used nm nm 1 in
                    (case zip_entries (base # used) is d of
                       None \<Rightarrow> None
                     | Some (d, Inl e) \<Rightarrow> Some (d, Inl e)
                     | Some (d, Inr (es, n)) \<Rightarrow> Some (d, Inr ((base, i, segments_of m) # es, o_size row + n))))))"

(* src: src/src/anbar/api/download.py auto zip_download.fetch_chunk *)
definition zip_fetch :: "(string \<Rightarrow> object_ref \<Rightarrow> 'w \<Rightarrow> 'w \<times> 'b list res) \<Rightarrow> 'b \<Rightarrow> pool option \<Rightarrow> handle
    \<Rightarrow> string \<Rightarrow> int \<Rightarrow> int \<Rightarrow> int \<Rightarrow> db \<times> 'w \<Rightarrow> (db \<times> 'w) \<times> 'b list res" where
  "zip_fetch fetch zero po backend i idx off len s =
     (case s of (d, w) \<Rightarrow>
      (case get_object i False d of
        (None, d) \<Rightarrow> ((d, w), Inr (replicate (nat len) zero))
      | (Some row, d) \<Rightarrow>
          (case rbind (row_manifest row) manifest_chunks of
             Inl e \<Rightarrow> ((d, w), Inl e)
           | Inr cs \<Rightarrow>
               let n = int (length cs); j = (if idx < 0 then n + idx else idx) in
               if idx \<ge> n then ((d, w), Inr (replicate (nat len) zero))
               else if j < 0 then ((d, w), Inl IndexError)
               else
                 let c = cs ! nat j in
                 (case rbind (get_str c ''k'') (\<lambda>k. let nm = pool_name po (holder_of po backend k) in
                         rbind (rbind (j_item c ''f'') as_str) (\<lambda>f. rbind (get_int c ''m'') (\<lambda>m. Inr (nm, mk_ref f m nm)))) of
                    Inl e \<Rightarrow> ((d, w), Inl e)
                  | Inr (nm, r) \<Rightarrow>
                      (case fetch nm r w of
                         (w, Inl e) \<Rightarrow> ((d, w), Inl e)
                       | (w, Inr b) \<Rightarrow> ((d, w), Inr (py_slice b off (off + len))))))))"

text \<open>The reply is the members and the error that cuts the archive off.\<close>

(* src: src/src/anbar/api/download.py auto zip_download *)
definition zip_download :: "ctx \<Rightarrow> (string \<Rightarrow> object_ref \<Rightarrow> 'w \<Rightarrow> 'w \<times> 'b list res) \<Rightarrow> 'b \<Rightarrow> pool option \<Rightarrow> handle \<Rightarrow> request \<Rightarrow> json option \<Rightarrow> db \<Rightarrow> 'w
    \<Rightarrow> ((db \<times> 'w) \<times> ((string \<times> 'b list) list \<times> exc option) res) option" where
  "zip_download cx fetch zero po backend r body d w =
     (case admin_only cx r d of
        (d, Inl e) \<Rightarrow> Some ((d, w), Inl e)
      | (d, Inr _) \<Rightarrow>
          (case body_ids body of
             Inl e \<Rightarrow> Some ((d, w), Inl e)
           | Inr is \<Rightarrow>
               (case zip_entries [] is d of
                  None \<Rightarrow> None
                | Some (d, Inl e) \<Rightarrow> Some ((d, w), Inl e)
                | Some (d, Inr (es, bytes)) \<Rightarrow>
                    if es = [] then Some ((d, w), Inl (HTTPException 404 ''no valid objects''))
                    else if bytes > 8 * 1024 ^ 3 then Some ((d, w), Inl (HTTPException 413 ''selection too large for one archive (>8 GB)''))
                    else (case stream_zip (zip_fetch fetch zero po backend) es (d, w) of
                            (s, ms, e) \<Rightarrow> Some (s, Inr (ms, e))))))"

section \<open>What an archive holds\<close>

text \<open>An object whose chunks are held, with the bytes they make, and whose name can be cut.\<close>

definition archivable :: "pool option \<Rightarrow> handle \<Rightarrow> db \<Rightarrow> (string \<Rightarrow> 'b fake) \<Rightarrow> string \<Rightarrow> 'b list \<Rightarrow> bool" where
  "archivable po backend d w i body =
     (\<exists>row m ds. visible i False d = Some row \<and> o_manifest row = Some (to_json m)
        \<and> cuttable (safe_name (o_filename row)) \<and> map c_index (m_chunks m) = map int [0..<length (m_chunks m)]
        \<and> list_all2 (fakes.stored_as po backend w) (m_chunks m) ds \<and> concat ds = body)"

lemma archivable_cong: "d_objects d' = d_objects d \<Longrightarrow> archivable po backend d' w i b = archivable po backend d w i b"
  by (simp add: archivable_def visible_def find_obj_def)

definition live :: "db \<Rightarrow> string \<Rightarrow> bool" where
  "live d i = (visible i False d \<noteq> None)"

lemma visible_cong: "d_objects d' = d_objects d \<Longrightarrow> visible i t d' = visible i t d"
  by (simp add: visible_def find_obj_def)

lemma get_row:
  assumes "db_ok d" and "visible i False d = Some row"
  shows "\<exists>d'. get_object i False d = (Some row, d') \<and> db_ok d' \<and> d_objects d' = d_objects d"
proof -
  have "fst (get_object i False d) = Some row" using assms by (simp add: get_object_visible)
  then show ?thesis using db_ok_get [OF assms(1), of i False] get_object_rows [of i False d] by (metis prod.collapse)
qed

lemma row_of_manifest:
  assumes "o_manifest row = Some (to_json m)"
  shows "row_manifest row = Inr (manifest_json m)" and "manifest_chunks (manifest_json m) = Inr (map chunk_json (m_chunks m))"
    and "segments_of (manifest_json m) = map (\<lambda>c. Inr (c_index c, c_size c)) (m_chunks m)"
proof -
  have w: "jwf (manifest_json m)" by (auto simp: manifest_json_def jwf_chunk_json)
  have "to_json m \<noteq> []" by (simp add: to_json_def dumps_compact_def)
  then show "row_manifest row = Inr (manifest_json m)" using w by (simp add: row_manifest_def assms truthy_str_def to_json_def)
  show c: "manifest_chunks (manifest_json m) = Inr (map chunk_json (m_chunks m))" by (simp add: manifest_chunks_def manifest_json_def as_list_def)
  show "segments_of (manifest_json m) = map (\<lambda>c. Inr (c_index c, c_size c)) (m_chunks m)"
    by (simp add: segments_of_def c chunk_json_def j_item_def as_int_def)
qed

text \<open>Fetching only counts.\<close>

definition alike :: "(string \<Rightarrow> 'b fake) \<Rightarrow> (string \<Rightarrow> 'b fake) \<Rightarrow> bool" where
  "alike w w' = (\<forall>m q. snd (fakes_open m q w') = snd (fakes_open m q w))"

lemma alike_trans: "alike u v \<Longrightarrow> alike v w \<Longrightarrow> alike u w"
  by (simp add: alike_def)

lemma alike_stored: "alike w w' \<Longrightarrow> fakes.stored_as po backend w' = fakes.stored_as po backend w"
  by (simp add: alike_def fakes.stored_as_def fun_eq_iff)

lemma alike_open: "alike w (fst (fakes_open n r w))"
  by (simp add: alike_def fakes_open_def at_def fake_open_def)

lemma zip_fetch_held:
  assumes ok: "db_ok d" and row: "visible i False d = Some row" "o_manifest row = Some (to_json m)"
    and held: "list_all2 (fakes.stored_as po backend w) (m_chunks m) ds" and k: "k < length ds"
  shows "\<exists>d' w'. zip_fetch fakes_open zero po backend i (int k) 0 (c_size (m_chunks m ! k)) (d, w) = ((d', w'), Inr (ds ! k))
     \<and> db_ok d' \<and> d_objects d' = d_objects d \<and> alike w w'"
proof -
  obtain d' where g: "get_object i False d = (Some row, d')" "db_ok d'" "d_objects d' = d_objects d" using get_row [OF ok row(1)] by blast
  have l: "length (m_chunks m) = length ds" using held by (rule list_all2_lengthD)
  define c where "c = m_chunks m ! k"
  have st: "fakes.stored_as po backend w c (ds ! k)" using list_all2_nthD2 [OF held k] by (simp add: c_def)
  have h: "holder_of po backend (if truthy_str (c_backend c) then c_backend c else None) = holder_of po backend (c_backend c)"
    by (simp add: holder_of_def truthy_str_def)
  have gk: "get_str (chunk_json c) ''k'' = Inr (if truthy_str (c_backend c) then c_backend c else None)"
    by (auto simp: get_str_def jget_def chunk_json_def jstr_opt_def truthy_str_def split: option.splits)
  have gf: "rbind (j_item (chunk_json c) ''f'') as_str = Inr (c_file_id c)" by (simp add: j_item_def chunk_json_def as_str_def)
  have gm: "get_int (chunk_json c) ''m'' = Inr (c_message_id c)"
    by (auto simp: get_int_def jget_def chunk_json_def split: option.splits)
  have f: "snd (fakes_open (pool_name po (holder_of po backend (c_backend c))) (mk_ref (c_file_id c) (c_message_id c) b) w) = Inr (ds ! k)" for b
    using st by (simp add: fakes.stored_as_def)
  let ?n = "pool_name po (holder_of po backend (c_backend c))"
  obtain w' where o: "fakes_open ?n (mk_ref (c_file_id c) (c_message_id c) ?n) w = (w', Inr (ds ! k))" using f by (metis prod.collapse)
  then have al: "alike w w'" using alike_open [of w ?n "mk_ref (c_file_id c) (c_message_id c) ?n"] by simp
  have sz: "c_size c = int (length (ds ! k))" using st by (simp add: fakes.stored_as_def)
  have nth: "map chunk_json (m_chunks m) ! k = chunk_json c" using k l by (simp add: c_def)
  have "zip_fetch fakes_open zero po backend i (int k) 0 (c_size c) (d, w) = ((d', w'), Inr (ds ! k))"
    unfolding zip_fetch_def prod.case g(1) option.case row_of_manifest(1) [OF row(2)] rbind_simps row_of_manifest(2) [OF row(2)] sum.case Let_def
    using k l nth gk gf gm o sz h by (simp add: py_slice_def)
  then show ?thesis using g(2,3) al by (auto simp: c_def)
qed

lemma write_member_held:
  assumes "db_ok d" and "visible i False d = Some row" and row: "o_manifest row = Some (to_json m)"
    and "list_all2 (fakes.stored_as po backend w) (m_chunks m) ds" and "n \<le> length ds"
  shows "\<exists>d' w'. write_member (zip_fetch fakes_open zero po backend) i (map (\<lambda>k. Inr (int k, c_size (m_chunks m ! k))) [n..<length ds]) (d, w)
     = ((d', w'), concat (drop n ds), None) \<and> db_ok d' \<and> d_objects d' = d_objects d \<and> alike w w'"
  using assms(1,2,4,5)
proof (induction "length ds - n" arbitrary: n d w)
  case (Suc x)
  have n: "n < length ds" using Suc.hyps(2) by simp
  obtain d1 w1 where f: "zip_fetch fakes_open zero po backend i (int n) 0 (c_size (m_chunks m ! n)) (d, w) = ((d1, w1), Inr (ds ! n))"
     "db_ok d1" "d_objects d1 = d_objects d" "alike w w1"
    using zip_fetch_held [OF Suc.prems(1,2) row Suc.prems(3) n] by blast
  have x: "x = length ds - Suc n" and n': "Suc n \<le> length ds" using Suc.hyps(2) by simp_all
  have fo: "visible i False d1 = Some row" using Suc.prems(2) visible_cong [OF f(3)] by simp
  have st: "list_all2 (fakes.stored_as po backend w1) (m_chunks m) ds" using Suc.prems(3) alike_stored [OF f(4)] by metis
  from Suc.hyps(1) [OF x f(2) fo st n'] obtain d2 w2 where
    "write_member (zip_fetch fakes_open zero po backend) i (map (\<lambda>k. Inr (int k, c_size (m_chunks m ! k))) [Suc n..<length ds]) (d1, w1)
      = ((d2, w2), concat (drop (Suc n) ds), None)" "db_ok d2" "d_objects d2 = d_objects d1" "alike w1 w2" by blast
  then show ?case using f n alike_trans [OF f(4)] by (auto simp add: upt_conv_Cons Cons_nth_drop_Suc [symmetric])
next
  case 0
  then show ?case by (auto simp: alike_def)
qed

lemma archivable_member:
  assumes "db_ok d" and "archivable po backend d w i body"
  shows "\<exists>row m. get_object i False d = (Some row, snd (get_object i False d)) \<and> row_manifest row = Inr m \<and> entry_name (o_filename row) i \<noteq> None
    \<and> visible i False d = Some row
    \<and> (\<forall>d0 w0. db_ok d0 \<longrightarrow> d_objects d0 = d_objects d \<longrightarrow> alike w w0 \<longrightarrow>
        (\<exists>d' w'. write_member (zip_fetch fakes_open zero po backend) i (segments_of m) (d0, w0) = ((d', w'), body, None)
          \<and> db_ok d' \<and> d_objects d' = d_objects d \<and> alike w w'))"
proof -
  obtain row m ds where a: "visible i False d = Some row" "o_manifest row = Some (to_json m)"
    "cuttable (safe_name (o_filename row))" "map c_index (m_chunks m) = map int [0..<length (m_chunks m)]"
    "list_all2 (fakes.stored_as po backend w) (m_chunks m) ds" "concat ds = body"
    using assms(2) unfolding archivable_def by blast
  have l: "length (m_chunks m) = length ds" using a(5) by (rule list_all2_lengthD)
  have "c_index (m_chunks m ! k) = int k" if "k < length ds" for k
    using a(4) l that by (metis diff_zero length_upt nth_map nth_upt plus_nat.add_0)
  then have sg: "segments_of (manifest_json m) = map (\<lambda>k. Inr (int k, c_size (m_chunks m ! k))) [0..<length ds]"
    unfolding row_of_manifest(3) [OF a(2)] using l by (intro nth_equalityI) simp_all
  have wm: "\<exists>d' w'. write_member (zip_fetch fakes_open zero po backend) i (segments_of (manifest_json m)) (d0, w0) = ((d', w'), body, None)
      \<and> db_ok d' \<and> d_objects d' = d_objects d \<and> alike w w'" if h: "db_ok d0" "d_objects d0 = d_objects d" "alike w w0" for d0 w0
  proof -
    have "visible i False d0 = Some row" using a(1) visible_cong [OF h(2)] by simp
    moreover have "list_all2 (fakes.stored_as po backend w0) (m_chunks m) ds" using a(5) alike_stored [OF h(3)] by metis
    ultimately show ?thesis using write_member_held [OF h(1) _ a(2), of i po backend w0 ds 0 zero] h(2) alike_trans [OF h(3)] a(6)
      unfolding sg by fastforce
  qed
  have "entry_name (o_filename row) i \<noteq> None" using a(3) by (simp only: entry_name_ends)
  moreover have "get_object i False d = (Some row, snd (get_object i False d))" using get_row [OF assms(1) a(1)] by auto
  ultimately show ?thesis using row_of_manifest(1) [OF a(2)] a(1) wm by blast
qed

definition writes :: "'b \<Rightarrow> pool option \<Rightarrow> handle \<Rightarrow> obj list \<Rightarrow> (string \<Rightarrow> 'b fake) \<Rightarrow> string \<times> string \<times> (int \<times> int) res list \<Rightarrow> 'b list \<Rightarrow> bool" where
  "writes zero po backend rows w e body =
     (case e of (nm, i, segs) \<Rightarrow> \<forall>d0 w0. db_ok d0 \<longrightarrow> d_objects d0 = rows \<longrightarrow> alike w w0 \<longrightarrow>
        (\<exists>d' w'. write_member (zip_fetch fakes_open zero po backend) i segs (d0, w0) = ((d', w'), body, None)
          \<and> db_ok d' \<and> d_objects d' = rows \<and> alike w w'))"

definition size_of :: "db \<Rightarrow> string \<Rightarrow> int" where
  "size_of d i = (case visible i False d of None \<Rightarrow> 0 | Some row \<Rightarrow> o_size row)"

lemma zip_entries_ok:
  assumes "db_ok d" and "\<forall>i \<in> set is. live d i \<longrightarrow> archivable po backend d w i (content i)"
  shows "\<exists>d' es. zip_entries used is d = Some (d', Inr (es, sum_list (map (size_of d) is))) \<and> db_ok d' \<and> d_objects d' = d_objects d
     \<and> distinct (map fst es) \<and> set (map fst es) \<inter> set used = {}
     \<and> list_all2 (writes zero po backend (d_objects d) w) es (map content (filter (live d) is))"
  using assms
proof (induction "is" arbitrary: d used)
  case (Cons i "is")
  define d1 where "d1 = snd (get_object i False d)"
  have d1: "db_ok d1" "d_objects d1 = d_objects d" using db_ok_get [OF Cons.prems(1)] get_object_rows by (simp_all add: d1_def)
  have lv: "live d1 = live d" "size_of d1 = size_of d" using visible_cong [OF d1(2)] by (simp_all add: live_def size_of_def fun_eq_iff)
  have l: "\<forall>j \<in> set is. live d1 j \<longrightarrow> archivable po backend d1 w j (content j)"
    using Cons.prems(2) unfolding lv archivable_cong [OF d1(2)] by simp
  show ?case
  proof (cases "live d i")
    case False
    then have v: "visible i False d = None" by (simp add: live_def)
    then have "get_object i False d = (None, d1)" using get_object_visible [OF Cons.prems(1), of i False] by (metis d1_def prod.collapse)
    then have "zip_entries used (i # is) d = zip_entries used is d1" by simp
    moreover have "size_of d i = 0" using v by (simp add: size_of_def)
    ultimately show ?thesis using Cons.IH [OF d1(1) l, of used] False unfolding d1(2) lv by simp
  next
    case True
    then have ib: "archivable po backend d w i (content i)" using Cons.prems(2) by simp
    obtain row m where r: "get_object i False d = (Some row, snd (get_object i False d))" "row_manifest row = Inr m" "entry_name (o_filename row) i \<noteq> None"
      "visible i False d = Some row"
      "\<forall>d0 w0. db_ok d0 \<longrightarrow> d_objects d0 = d_objects d \<longrightarrow> alike w w0 \<longrightarrow>
        (\<exists>d' w'. write_member (zip_fetch fakes_open zero po backend) i (segments_of m) (d0, w0) = ((d', w'), content i, None)
          \<and> db_ok d' \<and> d_objects d' = d_objects d \<and> alike w w')"
      using archivable_member [OF Cons.prems(1) ib, of zero] by blast
    obtain nm where nm: "entry_name (o_filename row) i = Some nm" using r(3) by auto
    define base where "base = next_name used nm nm 1"
    have fresh: "base \<notin> set used" by (simp add: base_def next_name_fresh)
    from Cons.IH [OF d1(1) l, of "base # used"] obtain d2 es where e: "zip_entries (base # used) is d1 = Some (d2, Inr (es, sum_list (map (size_of d) is)))"
       "db_ok d2" "d_objects d2 = d_objects d" "distinct (map fst es)" "set (map fst es) \<inter> set (base # used) = {}"
       "list_all2 (writes zero po backend (d_objects d) w) es (map content (filter (live d) is))" unfolding lv d1(2) by blast
    have "zip_entries used (i # is) d = Some (d2, Inr ((base, i, segments_of m) # es, o_size row + sum_list (map (size_of d) is)))"
      unfolding zip_entries.simps(2) r(1) [folded d1_def] using r(2) nm e(1) by (simp add: base_def)
    moreover have "writes zero po backend (d_objects d) w (base, i, segments_of m) (content i)" using r(5) by (simp add: writes_def)
    moreover have "size_of d i = o_size row" using r(4) by (simp add: size_of_def)
    ultimately show ?thesis using e(2-6) fresh True by (intro exI [where x = d2] exI [where x = "(base, i, segments_of m) # es"]) auto
  qed
qed simp

lemma stream_zip_ok:
  assumes "list_all2 (writes zero po backend rows w) es bodies" and "db_ok d" and "d_objects d = rows" and "alike w w0"
  shows "\<exists>s. stream_zip (zip_fetch fakes_open zero po backend) es (d, w0) = (s, zip (map fst es) bodies, None)"
  using assms
proof (induction es arbitrary: bodies d w0)
  case (Cons e es)
  obtain nm i segs where e: "e = (nm, i, segs)" by (metis surj_pair)
  obtain b bs where b: "bodies = b # bs" "writes zero po backend rows w e b" "list_all2 (writes zero po backend rows w) es bs"
    using Cons.prems(1) by (cases bodies) auto
  obtain d1 w1 where m: "write_member (zip_fetch fakes_open zero po backend) i segs (d, w0) = ((d1, w1), b, None)" "db_ok d1" "d_objects d1 = rows" "alike w w1"
    using b(2) Cons.prems(2-4) unfolding writes_def e by blast
  from Cons.IH [OF b(3) m(2-4)] obtain s where "stream_zip (zip_fetch fakes_open zero po backend) es (d1, w1) = (s, zip (map fst es) bs, None)" by blast
  then show ?case using m(1) by (simp add: e b(1))
qed simp

text \<open>C18: what an admin gets for a list of ids whose live objects have names that can be cut: ids without a live object are
  passed over; with none left the answer is 404 and above 8 GB in total it is 413; otherwise the archive has one member for each
  live object, in the order asked, under names that differ, and its bytes are the bytes of the object. Names that cannot be cut
  are those of \<open>shorten_ends\<close>; they make the request run forever.\<close>

theorem zip_exact:
  fixes w :: "string \<Rightarrow> 'b fake"
  assumes "admin_only cx r d = (d1, Inr ())" and "body_ids body = Inr is" and "db_ok d1"
    and "\<forall>i \<in> set is. live d1 i \<longrightarrow> archivable po backend d1 w i (content i)"
  shows "\<exists>s names. zip_download cx fakes_open zero po backend r body d w = Some (s,
       if filter (live d1) is = [] then Inl (HTTPException 404 ''no valid objects'')
       else if 8 * 1024 ^ 3 < sum_list (map (size_of d1) is) then Inl (HTTPException 413 ''selection too large for one archive (>8 GB)'')
       else Inr (zip names (map content (filter (live d1) is)), None))
     \<and> distinct names \<and> length names = length (filter (live d1) is)"
proof -
  let ?bs = "map content (filter (live d1) is)"
  obtain d2 es where e: "zip_entries [] is d1 = Some (d2, Inr (es, sum_list (map (size_of d1) is)))" "db_ok d2" "d_objects d2 = d_objects d1"
     "distinct (map fst es)" "list_all2 (writes zero po backend (d_objects d1) w) es ?bs"
    using zip_entries_ok [OF assms(3,4), of "[]" zero] by auto
  have al: "alike w w" by (simp add: alike_def)
  obtain s where s: "stream_zip (zip_fetch fakes_open zero po backend) es (d2, w) = (s, zip (map fst es) ?bs, None)"
    using stream_zip_ok [OF e(5,2,3) al] by blast
  have l: "length es = length (filter (live d1) is)" using list_all2_lengthD [OF e(5)] by simp
  then have "es = [] \<longleftrightarrow> filter (live d1) is = []" by (metis length_0_conv)
  then have "\<exists>t. zip_download cx fakes_open zero po backend r body d w = Some (t,
       if filter (live d1) is = [] then Inl (HTTPException 404 ''no valid objects'')
       else if 8 * 1024 ^ 3 < sum_list (map (size_of d1) is) then Inl (HTTPException 413 ''selection too large for one archive (>8 GB)'')
       else Inr (zip (map fst es) ?bs, None))"
    unfolding zip_download_def assms(1,2) using e(1) s by simp
  then show ?thesis using e(4) l by (metis length_map)
qed

text \<open>Also: one object with a name that cannot be cut makes the whole request run forever.\<close>

theorem zip_hangs:
  assumes "admin_only cx r d = (d1, Inr ())" and "body_ids body = Inr (i # is)" and "get_object i False d1 = (Some row, d2)"
    and "row_manifest row = Inr m" and "o_filename row = c # ''.'' @ ext" and "code c < 128" and "c \<noteq> CHR ''/''" and "c \<noteq> CHR 0x5C"
    and "set ext \<inter> {CHR ''.'', CHR ''/'', CHR 0x5C} = {}" and "length ext \<le> 108" and "118 < utf8_len ext"
  shows "zip_download cx fetch zero po backend r body d w = None"
proof -
  have "shorten (c # ''.'' @ ext) = None" using assms(6,9,10,11) by (intro shorten_stuck [OF refl]) (auto simp: utf8_len_def code_def)
  moreover have "map (\<lambda>c. if c = CHR 0x5C \<or> c = CHR ''/'' then CHR ''_'' else c) (c # ''.'' @ ext) = c # ''.'' @ ext"
    using assms(7-9) by (auto intro!: map_idI)
  ultimately have "entry_name (o_filename row) i = None" unfolding entry_name_def assms(5) by simp
  then show ?thesis unfolding zip_download_def assms(1,2) using assms(3,4) by simp
qed

definition demo_ids :: "json option" where
  "demo_ids = Some (JObj [(''ids'', JList [JStr ''x'', JStr ''gone'', JStr ''x''])])"

lemma demo_ids_body: "body_ids demo_ids = Inr [''x'', ''gone'', ''x'']"
  by (simp add: demo_ids_def body_ids_def)

lemma demo_admin: "admin_only demo_cx demo_request d = (d, Inr ())"
  by (simp add: admin_only_def role_of_def whoami_def demo_presented demo_cx_def constant_time_equal_def)

lemma demo_archivable:
  "archivable None (Outside ''fake'') demo_store (\<lambda>_. fst (fake_store [7 :: nat, 8] [] None fake_init)) ''x'' [7, 8]"
  unfolding archivable_def
proof (intro exI [where x = demo_purged] exI [where x = demo_manifest] exI [where x = "[[7, 8]]"] conjI)
  show "list_all2 (fakes.stored_as None (Outside ''fake'') (\<lambda>_. fst (fake_store [7 :: nat, 8] [] None fake_init))) (m_chunks demo_manifest) [[7, 8]]"
    by (simp add: demo_manifest_def fakes.stored_as_def fakes_open_def at_def fake_open_def fake_store_def fake_init_def fake_id_def mk_ref_def str_of_nat_0 Let_def)
  show "o_manifest demo_purged = Some (to_json demo_manifest)" by (rule demo_row)
  show "cuttable (safe_name (o_filename demo_purged))" by (simp add: cuttable_def safe_name_def demo_purged_def utf8_len_def code_def)
qed (simp_all add: visible_def find_obj_def demo_store_def demo_purged_def demo_manifest_def db_empty_def truthy_int_def)

lemma demo_store_ok: "db_ok demo_store"
  by (simp add: db_ok_def demo_store_def db_empty_def cache_ok_def)

theorem zip_exact_witness:
  "\<exists>s names. zip_download demo_cx fakes_open 0 None (Outside ''fake'') demo_request demo_ids demo_store (\<lambda>_. fst (fake_store [7 :: nat, 8] [] None fake_init))
     = Some (s, Inr (zip names [[7, 8], [7, 8]], None)) \<and> distinct names \<and> length names = 2"
proof -
  let ?w = "\<lambda>_. fst (fake_store [7 :: nat, 8] [] None fake_init)"
  have v: "visible ''x'' False demo_store = Some demo_purged" "visible ''gone'' False demo_store = None"
    by (simp_all add: visible_def find_obj_def demo_store_def demo_purged_def db_empty_def truthy_int_def)
  have f: "filter (live demo_store) [''x'', ''gone'', ''x''] = [''x'', ''x'']" by (simp add: live_def v)
  have sz: "sum_list (map (size_of demo_store) [''x'', ''gone'', ''x'']) \<le> 8 * 1024 ^ 3" by (simp add: size_of_def v demo_purged_def)
  have a: "\<forall>i \<in> set [''x'', ''gone'', ''x'']. live demo_store i \<longrightarrow> archivable None (Outside ''fake'') demo_store ?w i [7, 8]"
    using demo_archivable by (simp add: live_def v)
  from zip_exact [OF demo_admin demo_ids_body demo_store_ok a, of 0, unfolded f] sz show ?thesis
    by (simp only: list.simps if_False not_less if_True list.size Suc_eq_plus1 add_0 one_add_one) (simp add: not_less [symmetric])
qed

definition demo_stuck :: db where
  "demo_stuck = fst (insert_object 5 \<lparr>i_id = ''z'', i_file_id = ''f'', i_backend = ''fake'', i_filename = CHR ''a'' # ''.'' @ replicate 100 (CHR 0xE9), i_size = 0,
     i_content_type = None, i_sha256 = None, i_manifest = None, i_uploader_key = None, i_created_at = None, i_downloaded = None\<rparr> db_empty)"

theorem zip_hangs_witness:
  "zip_download demo_cx fakes_open (0 :: nat) None (Outside ''fake'') demo_request (Some (JObj [(''ids'', JList [JStr ''z''])])) demo_stuck (\<lambda>_. fake_init) = None"
proof -
  have b: "body_ids (Some (JObj [(''ids'', JList [JStr ''z''])])) = Inr [''z'']" by (simp add: body_ids_def)
  have ok: "db_ok demo_stuck" unfolding demo_stuck_def by (rule db_ok_insert [OF db_ok_empty])
  have g: "fst (get_object ''z'' False demo_stuck) = Some (full_obj 5 \<lparr>i_id = ''z'', i_file_id = ''f'', i_backend = ''fake'',
     i_filename = CHR ''a'' # ''.'' @ replicate 100 (CHR 0xE9), i_size = 0,
     i_content_type = None, i_sha256 = None, i_manifest = None, i_uploader_key = None, i_created_at = None, i_downloaded = None\<rparr>)"
    unfolding get_object_visible [OF ok]
    by (simp add: visible_def demo_stuck_def insert_object_def find_obj_def cache_put_def full_obj_def db_empty_def truthy_int_def)
  show ?thesis
  proof (rule zip_hangs [OF demo_admin b prod_eqI])
    show "fst (get_object ''z'' False demo_stuck) = fst (Some (full_obj 5 \<lparr>i_id = ''z'', i_file_id = ''f'', i_backend = ''fake'',
     i_filename = CHR ''a'' # ''.'' @ replicate 100 (CHR 0xE9), i_size = 0,
     i_content_type = None, i_sha256 = None, i_manifest = None, i_uploader_key = None, i_created_at = None, i_downloaded = None\<rparr>), snd (get_object ''z'' False demo_stuck))"
      using g by simp
    show "118 < utf8_len (replicate 100 (CHR 0xE9))" by (simp add: utf8_len_def code_def sum_list_replicate map_replicate_const)
  qed (auto simp: row_manifest_def full_obj_def truthy_str_def code_def set_replicate_conv_if)
qed

end
