(* ===== verification/Album.thy ===== *)
theory Album
  imports Gallery
begin

text \<open>
  Shared albums, the QR code of a link and thumbnails: the routes \<^verbatim>\<open>/album\<close>, \<^verbatim>\<open>/a/{token}\<close>, \<^verbatim>\<open>/{id}/qr\<close> and
  \<^verbatim>\<open>/{id}/thumb\<close> of \<^verbatim>\<open>src/src/anbar/api/download.py\<close> with \<^verbatim>\<open>src/src/anbar/thumbs.py\<close>. The random token
  and the image encoders are arguments; the page is the data it is rendered from.
\<close>

section \<open>Albums\<close>

definition ALBUM_PREFIX :: string where "ALBUM_PREFIX = ''album:''"

text \<open>\<^verbatim>\<open>int(body.get("ttl", 86400))\<close>; \<open>None\<close> is the 422 reply.\<close>

(* src: src/src/anbar/api/download.py 941-946 album_create *)
definition album_ttl :: "(string \<times> json) list \<Rightarrow> int option" where
  "album_ttl kvs =
     (case map_of kvs ''ttl'' of
        None \<Rightarrow> Some 86400
      | Some v \<Rightarrow> (case json_int v of Inl _ \<Rightarrow> None | Inr n \<Rightarrow> if n < 0 then None else Some n))"

(* src: src/src/anbar/api/download.py 937-937 album_create *)
definition album_title :: "(string \<times> json) list \<Rightarrow> string" where
  "album_title kvs =
     take 120 (strip (case map_of kvs ''title'' of None \<Rightarrow> [] | Some v \<Rightarrow> if jtruthy v then py_str v else []))"

(* src: src/src/anbar/api/download.py 948-952 album_create *)
fun album_members :: "string list \<Rightarrow> db \<Rightarrow> db \<times> string list" where
  "album_members [] d = (d, [])"
| "album_members (i # is) d =
     (case get_object i False d of
        (None, d) \<Rightarrow> album_members is d
      | (Some _, d) \<Rightarrow> (case album_members is d of (d, ids) \<Rightarrow> (d, i # ids)))"

(* src: src/src/anbar/api/download.py 958-967 album_create *)
definition album_json :: "time \<Rightarrow> string list \<Rightarrow> string \<Rightarrow> int \<Rightarrow> json" where
  "album_json now ids title ttl =
     JObj [(''ids'', JList (map JStr ids)), (''title'', JStr title), (''created_at'', JInt now), (''_ts'', JInt now),
       (''exp'', JInt (if ttl > 0 then now + ttl else 0))]"

(* src: src/src/anbar/api/download.py auto album_create *)
definition album_create :: "ctx \<Rightarrow> string \<Rightarrow> request \<Rightarrow> json option \<Rightarrow> db \<Rightarrow> db \<times> (string \<times> nat \<times> string) res" where
  "album_create cx token r body d =
     (case admin_only cx r d of
        (d, Inl e) \<Rightarrow> (d, Inl e)
      | (d, Inr _) \<Rightarrow>
          (case body_ids body of
             Inl e \<Rightarrow> (d, Inl e)
           | Inr is \<Rightarrow>
               let kvs = (case body of Some (JObj kvs) \<Rightarrow> kvs | _ \<Rightarrow> []) in
               (case album_ttl kvs of
                  None \<Rightarrow> (d, Inl (HTTPException 422 ''ttl must be integer seconds''))
                | Some ttl \<Rightarrow>
                    (case album_members is d of
                       (d, clean) \<Rightarrow>
                         if clean = [] then (d, Inl (HTTPException 404 ''no valid objects''))
                         else (kv_set (ALBUM_PREFIX @ token) (dumps_compact (album_json (cx_now cx) clean (album_title kvs) ttl)) d,
                               Inr (token, length clean,
                                    rstrip_by (\<lambda>c. c = CHR ''/'') (s_base_url (cx_settings cx)) @ ''/f/a/'' @ token))))))"

text \<open>\<^verbatim>\<open>html.escape\<close>\<close>

fun html_escape :: "bool \<Rightarrow> string \<Rightarrow> string" where
  "html_escape q [] = []"
| "html_escape q (c # cs) =
     (if c = CHR ''&'' then ''&amp;'' else if c = CHR ''<'' then ''&lt;'' else if c = CHR ''>'' then ''&gt;''
      else if q \<and> c = CHR 0x22 then ''&quot;'' else if q \<and> c = CHR 0x27 then ''&#x27;'' else [c]) @ html_escape q cs"

datatype media = Image | Video | Audio | Pdf

(* src: src/src/anbar/api/download.py 1025-1044 album_page *)
definition media_of :: "obj \<Rightarrow> media option" where
  "media_of row =
     (let ext = lower (last_piece (CHR ''.'') (o_filename row)); ct = str_or (o_content_type row) [] in
      if startswith ct ''image/'' \<or> startswith ct ''photo'' \<or> ext \<in> {''jpg'', ''jpeg'', ''png'', ''gif'', ''webp'', ''bmp'', ''svg'', ''avif''} then Some Image
      else if startswith ct ''video/'' \<or> ext \<in> {''mp4'', ''webm'', ''mkv'', ''mov'', ''avi'', ''m4v''} then Some Video
      else if startswith ct ''audio/'' \<or> ext \<in> {''mp3'', ''ogg'', ''wav'', ''flac'', ''m4a'', ''opus'', ''aac''} then Some Audio
      else if ext = ''pdf'' then Some Pdf else None)"

record album_item =
  ai_id :: string
  ai_name :: string
  ai_kind :: "media option"
  ai_ct :: string
  ai_size :: int
  ai_sig :: string
  ai_exp :: int
  ai_subs :: "(json \<times> json \<times> json \<times> json) list"

datatype album_reply = NoAlbum | AlbumExpired | AlbumPage string "album_item list"

text \<open>The metadata of the tracks; a label that is a text is escaped.\<close>

(* src: src/src/anbar/api/download.py 1010-1019 album_page *)
definition album_subs :: "string \<Rightarrow> db \<Rightarrow> (json \<times> json \<times> json \<times> json) list res" where
  "album_subs i d =
     mapr (\<lambda>t. rbind (j_item t ''id'') (\<lambda>a. rbind (j_item t ''label'') (\<lambda>b. rbind (j_item t ''lang'') (\<lambda>c. rbind (j_item t ''default'') (\<lambda>e.
       Inr (a, if jtruthy b then JStr (html_escape False (py_str b)) else b, c, e))))))
       (load_tracks d i)"

(* src: src/src/anbar/api/download.py 1020-1063 album_page *)
fun album_items :: "ctx \<Rightarrow> int \<Rightarrow> string list \<Rightarrow> db \<Rightarrow> db \<times> album_item list res" where
  "album_items cx e [] d = (d, Inr [])"
| "album_items cx e (i # is) d =
     (case get_object i False d of
        (None, d) \<Rightarrow> album_items cx e is d
      | (Some row, d) \<Rightarrow>
          (case album_subs i d of
             Inl x \<Rightarrow> (d, Inl x)
           | Inr subs \<Rightarrow>
               let item = \<lparr>ai_id = i, ai_name = html_escape False (o_filename row), ai_kind = media_of row,
                     ai_ct = str_or (o_content_type row) ''application/octet-stream'', ai_size = o_size row,
                     ai_sig = sign (cx_hmac cx) i e (str_or (secret_of cx d) []), ai_exp = e, ai_subs = subs\<rparr>
               in (case album_items cx e is d of (d, x) \<Rightarrow> (d, rbind x (\<lambda>items. Inr (item # items))))))"

(* src: src/src/anbar/api/download.py 1001-1010 album_page *)
definition album_ids :: "int \<Rightarrow> (string \<times> json) list \<Rightarrow> (int \<times> string list) res" where
  "album_ids album_exp kvs =
     rbind (if album_exp \<noteq> 0 then Inr album_exp
            else rbind (rbind (j_item (JObj kvs) ''created_at'') json_int) (\<lambda>c. Inr (c + 86400 * 30))) (\<lambda>sig_exp.
     rbind (case map_of kvs ''ids'' of None \<Rightarrow> Inr [] | Some v \<Rightarrow> rbind (as_list v) (mapr as_str)) (\<lambda>ids. Inr (sig_exp, ids)))"

(* src: src/src/anbar/api/download.py auto album_page *)
definition album_page :: "ctx \<Rightarrow> string \<Rightarrow> db \<Rightarrow> db \<times> album_reply res" where
  "album_page cx token d =
     (let raw = kv_get d (ALBUM_PREFIX @ token) in
      if \<not> truthy_str raw then (d, Inr NoAlbum)
      else (case loads (the raw) of
         Some (JObj kvs) \<Rightarrow>
           (case int_or_0 (map_of kvs ''exp'') of
              Inl e \<Rightarrow> (d, Inl e)
            | Inr album_exp \<Rightarrow>
                if album_exp \<noteq> 0 \<and> cx_now cx \<ge> album_exp then (d, Inr AlbumExpired)
                else (case rbind (album_ids album_exp kvs) (\<lambda>(e, ids). rbind (mapr (\<lambda>i. album_subs i d) ids) (\<lambda>_. Inr (e, ids))) of
                   Inl e \<Rightarrow> (d, Inl e)
                 | Inr (sig_exp, ids) \<Rightarrow>
                     (case album_items cx sig_exp ids d of
                        (d, Inl e) \<Rightarrow> (d, Inl e)
                      | (d, Inr items) \<Rightarrow>
                          let title = (case map_of kvs ''title'' of Some (JStr t) \<Rightarrow> t | _ \<Rightarrow> [])
                          in (d, Inr (AlbumPage (html_escape True
                                (if title = [] then ''anbar '' @ [CHR 0xB7] @ '' '' @ str_of_nat (length items) @ '' files'' else title)) items)))))
       | Some _ \<Rightarrow> (d, Inl TypeError)
       | None \<Rightarrow> (d, Inl (ValueError ''json''))))"

section \<open>The QR code of a link\<close>

text \<open>The link is not registered.\<close>

(* src: src/src/anbar/api/download.py 681-684 qr *)
definition qr_link :: "ctx \<Rightarrow> string \<Rightarrow> string \<Rightarrow> string \<times> int \<times> string" where
  "qr_link cx secret i =
     (let e = cx_now cx + 7 * 86400; sig = sign (cx_hmac cx) i e secret
      in (sig, e, rstrip_by (\<lambda>c. c = CHR ''/'') (s_base_url (cx_settings cx)) @ ''/f/'' @ i @ ''?sig='' @ sig @ ''&exp='' @ str_of_int e))"

(* src: src/src/anbar/api/download.py auto qr *)
definition qr_route :: "ctx \<Rightarrow> request \<Rightarrow> string \<Rightarrow> db \<Rightarrow> db \<times> string res" where
  "qr_route cx r i d =
     (case get_object i False d of
        (None, d) \<Rightarrow> (d, Inl (HTTPException 404 ''object not found''))
      | (Some _, d) \<Rightarrow>
          (case role_of cx r d of
             (role, d) \<Rightarrow>
               if auth_on (cx_settings cx) d \<and> role = Anon then (d, Inl (HTTPException 401 ''authentication required''))
               else if \<not> truthy_str (secret_of cx d) then (d, Inl (HTTPException 500 ''hmac secret not configured''))
               else (d, qr_svg (snd (snd (qr_link cx (the (secret_of cx d)) i))) 160)))"

section \<open>Thumbnails\<close>

text \<open>The files of the thumbnail directory, by their name without the suffix.\<close>

record 'b thumbs =
  th_webp :: "string \<Rightarrow> 'b list option"
  th_jpg :: "string \<Rightarrow> 'b list option"

(* src: src/src/anbar/thumbs.py auto _path *)
definition thumb_path :: "string \<Rightarrow> string" where
  "thumb_path i = (let safe = take 64 (filter (\<lambda>c. is_alnum c \<or> c = CHR ''-'' \<or> c = CHR ''_'') i) in if safe = [] then ''x'' else safe)"

(* src: src/src/anbar/thumbs.py auto read_thumb *)
definition read_thumb :: "'b thumbs \<Rightarrow> string \<Rightarrow> 'b list option" where
  "read_thumb t i =
     (case th_webp t (thumb_path i) of
        Some (b # bs) \<Rightarrow> Some (b # bs)
      | _ \<Rightarrow> (case th_jpg t (thumb_path i) of Some (b # bs) \<Rightarrow> Some (b # bs) | _ \<Rightarrow> None))"

(* src: src/src/anbar/thumbs.py auto has_thumb *)
definition has_thumb :: "'b thumbs \<Rightarrow> string \<Rightarrow> bool" where
  "has_thumb t i = (th_webp t (thumb_path i) \<noteq> None \<or> th_jpg t (thumb_path i) \<noteq> None)"

(* src: src/src/anbar/thumbs.py auto delete_thumb *)
definition delete_thumb :: "string \<Rightarrow> 'b thumbs \<Rightarrow> 'b thumbs" where
  "delete_thumb i t = \<lparr>th_webp = (th_webp t)(thumb_path i := None), th_jpg = (th_jpg t)(thumb_path i := None)\<rparr>"

(* src: src/src/anbar/thumbs.py auto is_video *)
definition is_video :: "string option \<Rightarrow> bool" where
  "is_video ct = (lower (str_or ct []) \<in> {''video/mp4'', ''video/x-matroska'', ''video/webm'', ''video/quicktime''})"

text \<open>\<open>img\<close>: what Pillow makes of the data, a WebP or a JPEG file; \<open>video\<close>: the frame ffmpeg extracts.\<close>

(* src: src/src/anbar/thumbs.py auto generate *)
definition generate_thumb :: "('b list \<Rightarrow> ('b list + 'b list) option) \<Rightarrow> ('b list \<Rightarrow> 'b list option) \<Rightarrow> string \<Rightarrow> string option \<Rightarrow> 'b list
    \<Rightarrow> 'b thumbs \<Rightarrow> 'b thumbs \<times> bool" where
  "generate_thumb img video i ct first t =
     (if first = [] \<or> \<not> SUPPORTED_OK ct then (t, False)
      else if th_webp t (thumb_path i) \<noteq> None then (t, True)
      else if is_video ct
      then (case video first of
              None \<Rightarrow> (t, False)
            | Some f \<Rightarrow> if f = [] then (t, False) else (t\<lparr>th_webp := (th_webp t)(thumb_path i := Some f)\<rparr>, True))
      else (case img first of
              None \<Rightarrow> (t, False)
            | Some (Inl webp) \<Rightarrow> (t\<lparr>th_webp := (th_webp t)(thumb_path i := Some webp)\<rparr>, True)
            | Some (Inr jpg) \<Rightarrow> (t\<lparr>th_jpg := (th_jpg t)(thumb_path i := Some jpg)\<rparr>, True)))"

(* src: src/src/anbar/api/download.py 558-562 thumb *)
definition thumb_cached :: "string \<Rightarrow> request \<Rightarrow> bool" where
  "thumb_cached i r =
     (header r ''if-none-match'' \<noteq> [] \<and>
      list_ex (\<lambda>t. t = ''*'' \<or> t = [CHR 0x22] @ i @ [CHR 0x22]) (map strip (split_on (CHR '','') (header r ''if-none-match''))))"

datatype 'b thumb_reply = ThumbFound "'b list" | ThumbCached

(* src: src/src/anbar/api/download.py auto thumb *)
definition thumb_route :: "ctx \<Rightarrow> (string \<Rightarrow> object_ref \<Rightarrow> 'w \<Rightarrow> 'w \<times> 'b list res) \<Rightarrow> 'b \<Rightarrow> pool option \<Rightarrow> handle
    \<Rightarrow> ('b list \<Rightarrow> ('b list + 'b list) option) \<Rightarrow> ('b list \<Rightarrow> 'b list option) \<Rightarrow> request \<Rightarrow> string
    \<Rightarrow> db \<times> 'w \<Rightarrow> 'b thumbs \<Rightarrow> ((db \<times> 'w) \<times> 'b thumbs) \<times> 'b thumb_reply res" where
  "thumb_route cx fetch zero po backend img video r i0 s t =
     (case s of (d, w) \<Rightarrow>
      (case resolve_slug i0 d of (d, i) \<Rightarrow>
      (case limit_download (cx_now cx) r i (get_int_setting d ''rate_download'' (s_rate_download_per_min (cx_settings cx))) d of
         (d, Inl e) \<Rightarrow> (((d, w), t), Inl e)
       | (d, Inr _) \<Rightarrow>
      (case get_object i False d of
         (None, d) \<Rightarrow> (((d, w), t), Inl (HTTPException 404 ''object not found''))
       | (Some row, d) \<Rightarrow>
      (case authenticate_download cx r i d of
         (d, Inl e) \<Rightarrow> (((d, w), t), Inl e)
       | (d, Inr _) \<Rightarrow>
          let (s, t) = (if read_thumb t i = None \<and> SUPPORTED_OK (o_content_type row)
                        then (case fetch_segment fetch zero po backend i 0 0 (4 * 1024 * 1024) (d, w) of
                                (s, Inr (b # bs)) \<Rightarrow> (s, fst (generate_thumb img video i (o_content_type row) (b # bs) t))
                              | (s, _) \<Rightarrow> (s, t))
                        else ((d, w), t))
          in (case read_thumb t i of
                None \<Rightarrow> ((s, t), Inl (HTTPException 404 ''no thumbnail''))
              | Some data \<Rightarrow> ((s, t), Inr (if thumb_cached i r then ThumbCached else ThumbFound data))))))))"

section \<open>The links of an album\<close>

lemma get_object_kvs: "d_kv (snd (get_object i t d)) = d_kv d" "d_links (snd (get_object i t d)) = d_links d"
  by (auto simp: get_object_def cache_put_def Let_def split: prod.split option.split)

lemma secret_kv: "d_kv d' = d_kv d \<Longrightarrow> secret_of cx d' = secret_of cx d"
  by (simp add: secret_of_def effective_hmac_secret_def kv_get_def)

lemma album_items_signed:
  assumes "album_items cx e is d = (d', Inr items)"
  shows "d_kv d' = d_kv d \<and> (\<forall>it \<in> set items. ai_exp it = e \<and> ai_sig it = sign (cx_hmac cx) (ai_id it) e (str_or (secret_of cx d) []))"
  using assms
proof (induction "is" arbitrary: d items)
  case (Cons i "is")
  obtain x d1 where g: "get_object i False d = (x, d1)" by (metis surj_pair)
  have k: "d_kv d1 = d_kv d" using get_object_kvs(1) [of i False d] g by simp
  show ?case
  proof (cases x)
    case None
    then show ?thesis using Cons.IH [of d1 items] Cons.prems g k secret_kv [OF k] by simp
  next
    case (Some row)
    obtain rest d2 where r: "album_items cx e is d1 = (d2, rest)" by (metis surj_pair)
    obtain subs its it where it: "rest = Inr its" "items = it # its" "ai_exp it = e" "ai_id it = i"
        "ai_sig it = sign (cx_hmac cx) i e (str_or (secret_of cx d1) [])" "d' = d2"
      using Cons.prems g Some r by (auto simp: Let_def split: sum.splits elim!: rbind_InrE)
    then show ?thesis using Cons.IH [of d1 its] r k secret_kv [OF k] by auto
  qed
qed simp

text \<open>Also: every file on an album page opens for a visitor with the signature on the page, as long as that is valid: the
  link is not revoked and the file has no password.\<close>

theorem album_items_open:
  assumes "mac_ok (cx_hmac cx)" and "album_page cx token d = (d', Inr (AlbumPage title items))" and "item \<in> set items"
    and "truthy_str (secret_of cx d')" and "0 < ai_exp item" and "now < ai_exp item"
    and "visitor r" and "query r ''k'' = None" and "query r ''sig'' = Some (ai_sig item)" and "query r ''exp'' = Some (str_of_int (ai_exp item))"
    and "kv_get d' (''pw:'' @ ai_id item) = None" and "\<not> is_revoked d' (ai_id item) (ai_exp item)"
  shows "authenticate_download (cx\<lparr>cx_now := now\<rparr>) r (ai_id item) d' = (d', Inr ())"
proof -
  let ?cx = "cx\<lparr>cx_now := now\<rparr>"
  obtain e ids where "album_items cx e ids d = (d', Inr items)"
    using assms(2) by (auto simp: album_page_def Let_def split: if_splits option.splits json.splits sum.splits prod.splits)
  then have it: "d_kv d' = d_kv d" "ai_sig item = sign (cx_hmac cx) (ai_id item) (ai_exp item) (str_or (secret_of cx d) [])"
    using album_items_signed assms(3) by fastforce+
  obtain secret where sec: "secret_of cx d' = Some secret" "secret \<noteq> []" using assms(4) by (cases "secret_of cx d'") (simp_all add: truthy_str_def)
  have sig: "ai_sig item = sign (cx_hmac cx) (ai_id item) (ai_exp item) secret"
    using it(2) sec secret_kv [OF it(1), of cx] by (simp add: str_or_def)
  have "ai_sig item \<noteq> []" using assms(1) sig by (simp add: sign_def mac_ok_def)
  moreover have "verify_sig (cx_hmac cx) (ai_id item) (ai_exp item) (ai_sig item) secret = Inr True"
    unfolding sig by (rule verify_own [OF assms(1)]) (use assms(5) in simp)
  moreover have "secret_of ?cx d' = Some secret" using sec by (simp add: secret_of_def)
  ultimately have link: "check_link ?cx r (ai_id item) d' = Inr ()"
    using assms(5,6,9,10,12) sec by (simp add: check_link_def)
  have pw: "check_password ?cx r (ai_id item) d' = Inr ()" using assms(11) by (simp add: check_password_def)
  have qk: "\<not> query_key_ok ?cx r d'" using assms(8) by (simp add: query_key_ok_def)
  show ?thesis
  proof (cases "auth_on (cx_settings cx) d'")
    case True
    then show ?thesis using visitor_authenticate [OF assms(7) _ qk, of "ai_id item"] pw link by simp
  next
    case False
    then show ?thesis using visitor_role [OF assms(7)] pw by (simp add: authenticate_download_def)
  qed
qed

section \<open>An album that never expires\<close>

lemma prune_rows_none: "kv_get d k = None \<Longrightarrow> prune_rows cutoff rows n d = (d', x) \<Longrightarrow> kv_get d' k = None"
proof (induction rows arbitrary: n d)
  case (Cons kv rows)
  obtain a b where kv: "kv = (a, b)" by (cases kv)
  have "kv_get (kv_delete a d) k = None" using Cons.prems(1) by (simp add: kv_simps)
  then show ?case using Cons.prems Cons.IH by (auto simp: kv split: option.splits json.splits sum.splits if_splits)
qed simp

lemma prune_rows_deletes:
  assumes "(k, v) \<in> set rows" and "loads v = Some p" and "jget p ''_ts'' = Some (JInt t)" and "t < cutoff"
    and "prune_rows cutoff rows n d = (d', Inr m)"
  shows "kv_get d' k = None"
  using assms(1,5)
proof (induction rows arbitrary: n d)
  case (Cons kv rows)
  show ?case
  proof (cases "kv = (k, v)")
    case True
    then have "prune_rows cutoff rows (n + 1) (kv_delete k d) = (d', Inr m)"
      using Cons.prems(2) assms(2-4) by (simp add: json_int_def)
    then show ?thesis using prune_rows_none [of "kv_delete k d"] by (simp add: kv_simps)
  next
    case False
    then have m: "(k, v) \<in> set rows" using Cons.prems(1) by simp
    obtain a b where kv: "kv = (a, b)" by (cases kv)
    show ?thesis using Cons.prems(2) Cons.IH [OF m] by (auto simp: kv split: option.splits json.splits sum.splits if_splits)
  qed
qed simp

lemma update_member: "(k, v) \<in> set (AList.update k v al)"
  by (induction al) auto

text \<open>Also: an album made with a time to live of 0, which is to say forever, is gone with the first successful clean-up
  more than 31 days later.\<close>

theorem endless_album_pruned:
  assumes "album_create cx token r (Some (JObj kvs)) d = (d1, Inr reply)" and "map_of kvs ''ttl'' = Some (JInt 0)"
    and "cx_now cx + 86400 * 31 < t" and "kv_prune_prefix t ''album:'' (86400 * 31) d1 = (d2, Inr n)"
  shows "album_page (cx\<lparr>cx_now := t\<rparr>) token d2 = (d2, Inr NoAlbum)"
proof -
  obtain d0 clean title where d1: "d1 = kv_set (ALBUM_PREFIX @ token) (dumps_compact (album_json (cx_now cx) clean title 0)) d0"
    using assms(1,2) by (auto simp: album_create_def album_ttl_def json_int_def Let_def split: prod.splits sum.splits option.splits if_splits)
  have w: "jwf (album_json (cx_now cx) clean title 0)" by (auto simp: album_json_def)
  have m: "(ALBUM_PREFIX @ token, dumps_compact (album_json (cx_now cx) clean title 0)) \<in> set (filter (\<lambda>(k, v). like k (''album:'' @ ''%'')) (d_kv d1))"
    using like_prefix_complete [of "ALBUM_PREFIX @ token" "''album:''"] update_member by (simp add: d1 kv_set_def ALBUM_PREFIX_def startswith_def)
  have "kv_get d2 (ALBUM_PREFIX @ token) = None"
  proof (rule prune_rows_deletes [OF m])
    show "loads (dumps_compact (album_json (cx_now cx) clean title 0)) = Some (album_json (cx_now cx) clean title 0)"
      using w by (rule loads_dumps)
    show "jget (album_json (cx_now cx) clean title 0) ''_ts'' = Some (JInt (cx_now cx))" by (simp add: album_json_def jget_def)
    show "cx_now cx < t - 86400 * 31" using assms(3) by simp
    show "prune_rows (t - 86400 * 31) (filter (\<lambda>(k, v). like k (''album:'' @ ''%'')) (d_kv d1)) 0 d1 = (d2, Inr n)"
      using assms(4) unfolding kv_prune_prefix_def .
  qed
  then show ?thesis by (simp add: album_page_def truthy_str_def)
qed

section \<open>A link that is not registered\<close>

text \<open>Revoking all links touches the kv entries of albums and registered links, and what hangs on them.\<close>

lemma revoke_all_rows_kv:
  assumes "\<not> startswith k ''album:''" and "\<not> startswith k ''link:''" and "\<not> startswith k ''rev:''"
    and "\<not> startswith k ''pw:''" and "\<not> startswith k ''maxdl:''" and "\<not> startswith k ''dlc:''" and "\<not> startswith k ''slug:''"
  shows "kv_get (fst (revoke_all_rows now rows (d, n))) k = kv_get d k"
proof (induction rows arbitrary: d n)
  case (Cons kv rows)
  obtain a b where kv: "kv = (a, b)" by (cases kv)
  have del: "kv_get (kv_delete a d) k = kv_get d k" if "startswith a ''album:'' \<or> startswith a ''link:''"
    using that assms(1,2) by (auto simp: kv_simps)
  have rev: "kv_get (kv_set (rev_key i e) ''1'' d') k = kv_get d' k" for i e d'
    using assms(3) by (auto simp: kv_simps rev_key_def startswith_def)
  show ?case using Cons.IH del cleanup_keeps [OF assms(4-7)] rev by (auto simp: kv split: option.split)
qed simp

lemma revoke_all_rows_none:
  assumes "kv_get d k = None" and "\<And>i e. k = rev_key i e \<Longrightarrow> \<forall>(a, b) \<in> set rows. \<not> startswith a (''link:'' @ i @ '':'')"
  shows "kv_get (fst (revoke_all_rows now rows (d, n))) k = None"
  using assms
proof (induction rows arbitrary: d n)
  case (Cons kv rows)
  obtain a b where kv: "kv = (a, b)" by (cases kv)
  have del: "kv_get (kv_delete a d) k = None" using Cons.prems(1) by (simp add: kv_simps)
  have rows: "\<And>i e. k = rev_key i e \<Longrightarrow> \<forall>(a, b) \<in> set rows. \<not> startswith a (''link:'' @ i @ '':'')" using Cons.prems(2) by auto
  have rev: "k \<noteq> rev_key i e" if "startswith a ''link:''" "rsplit1 (CHR '':'') (drop 5 a) = Some (i, x)" for i e x
  proof
    assume "k = rev_key i e"
    then have "\<not> startswith a (''link:'' @ i @ '':'')" using Cons.prems(2) kv by auto
    moreover have "drop 5 a = i @ '':'' @ x" using rsplit1_Some [OF that(2)] by simp
    moreover have "a = ''link:'' @ drop 5 a"
    proof -
      have t: "take 5 a = ''link:''" using that(1) by (simp add: startswith_def numeral_eq_Suc)
      show ?thesis using append_take_drop_id [of 5 a] unfolding t by (rule sym)
    qed
    ultimately show False by (simp add: startswith_def)
  qed
  have step: "kv_get (cleanup_tags now i (kv_set (rev_key i e) ''1'' (kv_delete a d))) k = None"
    if "startswith a ''link:''" "rsplit1 (CHR '':'') (drop 5 a) = Some (i, x)" for i e x
    by (rule cleanup_None) (use rev [OF that, of e] del in \<open>simp add: kv_simps\<close>)
  show ?case using Cons.IH [OF _ rows] del step Cons.prems(1) by (auto simp: kv split: option.split)
qed simp

text \<open>Also: the link in a QR code is not registered: revoking all links leaves it valid for its seven days.\<close>

theorem qr_link_survives_revoke_all:
  assumes "mac_ok (cx_hmac cx)" and "0 \<le> cx_now cx" and "secret_of cx d = Some secret" and "secret \<noteq> []"
    and "qr_link cx secret i = (sig, e, url)"
    and "link_get d i e = None" and "kv_get d (rev_key i e) = None" and "\<forall>(a, b) \<in> set (d_kv d). \<not> startswith a (''link:'' @ i @ '':'')"
    and "kv_get d (''pw:'' @ i) = None"
    and "visitor r" and "query r ''k'' = None" and "query r ''sig'' = Some sig" and "query r ''exp'' = Some (str_of_int e)"
    and "now < cx_now cx + 7 * 86400"
  shows "authenticate_download (cx\<lparr>cx_now := now\<rparr>) r i (fst (revoke_all t d)) = (fst (revoke_all t d), Inr ())"
proof -
  let ?cx = "cx\<lparr>cx_now := now\<rparr>" and ?d = "fst (revoke_all t d)"
  have q: "e = cx_now cx + 7 * 86400" "sig = sign (cx_hmac cx) i e secret" using assms(5) by (auto simp: qr_link_def Let_def)
  obtain d1 n where d1: "link_revoke_all d = (d1, n)" by (cases "link_revoke_all d")
  have d1': "d_kv d1 = d_kv d" "d_links d1 = upd_where (\<lambda>r. \<not> l_revoked r) (\<lambda>r. r\<lparr>l_revoked := True\<rparr>) (d_links d)"
    using d1 by (auto simp: link_revoke_all_def)
  have kv1: "kv_get d1 k = kv_get d k" for k using d1'(1) by (simp add: kv_get_def)
  have d: "?d = fst (revoke_all_rows t (d_kv d) (d1, n))" by (simp add: revoke_all_def d1 kv_all_def d1'(1))
  have "kv_get ?d ''hmac_secret'' = kv_get d ''hmac_secret''"
    unfolding d by (subst revoke_all_rows_kv) (simp_all add: startswith_def kv1)
  then have sec: "secret_of ?cx ?d = Some secret" using assms(3) by (simp add: secret_of_def effective_hmac_secret_def split: if_splits)
  have rv: "kv_get ?d (rev_key i e) = None"
    unfolding d
  proof (rule revoke_all_rows_none)
    show "kv_get d1 (rev_key i e) = None" using assms(7) kv1 by simp
    fix i' e' assume "rev_key i e = rev_key i' e'"
    then have "i @ '':'' @ str_of_int e = i' @ '':'' @ str_of_int e'" by (simp add: rev_key_def)
    then have "i = i'" using colon_split by blast
    then show "\<forall>(a, b) \<in> set (d_kv d). \<not> startswith a (''link:'' @ i' @ '':'')" using assms(8) by simp
  qed
  have pwk: "kv_get ?d (''pw:'' @ i) = None"
    unfolding d by (rule revoke_all_rows_none) (use assms(9) kv1 in \<open>simp_all add: rev_key_def\<close>)
  have "link_get ?d i e = None"
  proof -
    have "link_get ?d i e = link_get d1 i e" by (rule link_get_links) (simp add: d revoke_all_rows_links)
    then show ?thesis using assms(6) by (auto simp: link_get_def d1'(2) find_None_iff set_upd_where link_is_def)
  qed
  then have "\<not> is_revoked ?d i e" using rv by (simp add: is_revoked_def link_is_revoked_def)
  moreover have "sig \<noteq> []" using assms(1) q(2) by (simp add: sign_def mac_ok_def)
  moreover have "verify_sig (cx_hmac cx) i e sig secret = Inr True"
    unfolding q(2) by (rule verify_own [OF assms(1)]) (use assms(2) q(1) in simp)
  ultimately have link: "check_link ?cx r i ?d = Inr ()" using sec assms(4,12,13,14) q(1) by (simp add: check_link_def)
  have pw: "check_password ?cx r i ?d = Inr ()" using pwk by (simp add: check_password_def)
  have qk: "\<not> query_key_ok ?cx r ?d" using assms(11) by (simp add: query_key_ok_def)
  show ?thesis
  proof (cases "auth_on (cx_settings cx) ?d")
    case True
    then show ?thesis using visitor_authenticate [OF assms(10) _ qk, of i] pw link by simp
  next
    case False
    then show ?thesis using visitor_role [OF assms(10)] pw by (simp add: authenticate_download_def)
  qed
qed

section \<open>Witnesses\<close>

definition demo_album :: db where
  "demo_album = kv_set (ALBUM_PREFIX @ ''t'') (dumps_compact (album_json 10 [''x''] [] 0)) demo_store"

lemma demo_album_json: "loads (dumps_compact (album_json now ids title ttl)) = Some (album_json now ids title ttl)"
  by (rule loads_dumps) (auto simp: album_json_def)

lemma demo_album_get: "get_object ''x'' False demo_album = (Some demo_purged, cache_put ''x'' demo_purged demo_album)"
  by (simp add: get_object_def demo_album_def kv_set_def demo_store_def demo_purged_def lru_get_def db_empty_def find_obj_def cache_put_def Let_def)

lemma demo_album_kv: "kv_get (cache_put ''x'' demo_purged demo_album) k = (if k = ''album:t'' then Some (dumps_compact (album_json 10 [''x''] [] 0)) else None)"
    "kv_get demo_album k = (if k = ''album:t'' then Some (dumps_compact (album_json 10 [''x''] [] 0)) else None)"
  by (auto simp: cache_put_def kv_get_def demo_album_def kv_set_def ALBUM_PREFIX_def demo_store_def db_empty_def)

lemma demo_album_page:
  "\<exists>title it. album_page demo_cx ''t'' demo_album = (cache_put ''x'' demo_purged demo_album, Inr (AlbumPage title [it]))
     \<and> ai_id it = ''x'' \<and> ai_exp it = 10 + 86400 * 30"
proof -
  have ne: "truthy_str (kv_get demo_album (ALBUM_PREFIX @ ''t''))"
    by (simp add: demo_album_kv ALBUM_PREFIX_def truthy_str_def dumps_compact_def)
  have v: "the (kv_get demo_album (ALBUM_PREFIX @ ''t'')) = dumps_compact (album_json 10 [''x''] [] 0)"
    by (simp add: demo_album_kv ALBUM_PREFIX_def)
  have tr: "load_tracks demo_album ''x'' = []" "load_tracks (cache_put ''x'' demo_purged demo_album) ''x'' = []"
    by (simp_all add: load_tracks_def demo_album_kv subs_key_def truthy_str_def)
  have ids: "album_ids 0 [(''ids'', JList [JStr ''x'']), (''title'', JStr []), (''created_at'', JInt 10), (''_ts'', JInt 10), (''exp'', JInt 0)]
      = Inr (10 + 86400 * 30, [''x''])"
    by (simp add: album_ids_def j_item_def json_int_def as_list_def as_str_def)
  show ?thesis
    unfolding album_page_def Let_def v demo_album_json
    using ne ids tr by (simp add: album_json_def int_or_0_def jtruthy_def album_subs_def demo_album_get Let_def)
qed

lemma demo_album_facts:
  "truthy_str (secret_of demo_cx (cache_put ''x'' demo_purged demo_album))" "kv_get (cache_put ''x'' demo_purged demo_album) (''pw:'' @ ''x'') = None"
  by (simp_all add: secret_of_def effective_hmac_secret_def demo_album_kv demo_cx_def truthy_str_def)

lemma demo_album_live: "\<not> is_revoked (cache_put ''x'' demo_purged demo_album) ''x'' e"
proof -
  have "d_links (cache_put ''x'' demo_purged demo_album) = []" by (simp add: cache_put_def demo_album_def kv_set_def demo_store_def db_empty_def)
  then show ?thesis by (simp add: is_revoked_def link_is_revoked_def link_get_def demo_album_kv rev_key_def)
qed

theorem album_items_open_witness:
  "\<exists>d title it. album_page demo_cx ''t'' demo_album = (d, Inr (AlbumPage title [it]))
     \<and> authenticate_download (demo_cx\<lparr>cx_now := 11\<rparr>) (demo_visit (ai_sig it) (str_of_int (ai_exp it))) (ai_id it) d = (d, Inr ())"
proof -
  obtain title it where p: "album_page demo_cx ''t'' demo_album = (cache_put ''x'' demo_purged demo_album, Inr (AlbumPage title [it]))"
     "ai_id it = ''x''" "ai_exp it = 10 + 86400 * 30" using demo_album_page by blast
  have m: "mac_ok (cx_hmac demo_cx)" by (simp add: demo_cx_def toy_mac_ok)
  have a: "authenticate_download (demo_cx\<lparr>cx_now := 11\<rparr>) (demo_visit (ai_sig it) (str_of_int (ai_exp it))) (ai_id it) (cache_put ''x'' demo_purged demo_album)
     = (cache_put ''x'' demo_purged demo_album, Inr ())"
    by (rule album_items_open [OF m p(1)]) (use p demo_album_facts demo_album_live demo_visitor demo_visit_query in simp_all)
  show ?thesis using p(1) a by blast
qed

theorem endless_album_pruned_witness:
  "\<exists>d1 d2. album_create demo_cx ''t'' demo_request (Some (JObj [(''ids'', JList [JStr ''x'']), (''ttl'', JInt 0)])) demo_store = (d1, Inr (''t'', 1, ''http://127.0.0.1:8567/f/a/t''))
     \<and> album_page (demo_cx\<lparr>cx_now := 11 + 86400 * 31\<rparr>) ''t'' d2 = (d2, Inr NoAlbum)"
proof -
  let ?body = "[(''ids'', JList [JStr ''x'']), (''ttl'', JInt 0)]"
  have r: "album_members [''x''] demo_store = (cache_put ''x'' demo_purged demo_store, [''x''])" by (simp add: demo_get)
  have b: "rstrip_by (\<lambda>c. c = CHR ''/'') (s_base_url (cx_settings demo_cx)) = ''http://127.0.0.1:8567''" by code_simp
  let ?d1 = "kv_set (ALBUM_PREFIX @ ''t'') (dumps_compact (album_json 10 [''x''] [] 0)) (cache_put ''x'' demo_purged demo_store)"
  have c: "album_create demo_cx ''t'' demo_request (Some (JObj ?body)) demo_store = (?d1, Inr (''t'', 1, ''http://127.0.0.1:8567/f/a/t''))"
    unfolding album_create_def demo_admin
    by (simp add: body_ids_def album_ttl_def json_int_def r b Let_def album_title_def del: album_members.simps)
      (simp add: demo_cx_def strip_by_def lstrip_by_def rstrip_by_def)
  have f: "filter (\<lambda>(k, v). like k (''album:'' @ ''%'')) (d_kv ?d1) = [(''album:t'', dumps_compact (album_json 10 [''x''] [] 0))]"
    using like_prefix_complete [of "''album:t''" "''album:''"]
    by (simp add: kv_set_def cache_put_def ALBUM_PREFIX_def demo_store_def db_empty_def startswith_def)
  have p: "kv_prune_prefix (11 + 86400 * 31) ''album:'' (86400 * 31) ?d1 = (kv_delete ''album:t'' ?d1, Inr 1)"
    unfolding kv_prune_prefix_def f by (simp add: demo_album_json) (simp add: album_json_def jget_def json_int_def)
  have t: "cx_now demo_cx + 86400 * 31 < 11 + 86400 * 31" by (simp add: demo_cx_def)
  have k: "map_of ?body ''ttl'' = Some (JInt 0)" by simp
  from c endless_album_pruned [OF c k t p] show ?thesis by blast
qed

theorem qr_link_survives_revoke_all_witness:
  "\<exists>sig e url. qr_link demo_cx ''s'' ''x'' = (sig, e, url)
     \<and> authenticate_download (demo_cx\<lparr>cx_now := 11\<rparr>) (demo_visit sig (str_of_int e)) ''x'' (fst (revoke_all 11 demo_store)) = (fst (revoke_all 11 demo_store), Inr ())"
proof -
  obtain sig e url where q: "qr_link demo_cx ''s'' ''x'' = (sig, e, url)" by (metis surj_pair)
  have "authenticate_download (demo_cx\<lparr>cx_now := 11\<rparr>) (demo_visit sig (str_of_int e)) ''x'' (fst (revoke_all 11 demo_store)) = (fst (revoke_all 11 demo_store), Inr ())"
    by (rule qr_link_survives_revoke_all [OF _ _ _ _ q])
      (simp_all add: demo_cx_def toy_mac_ok demo_visitor demo_visit_query secret_of_def effective_hmac_secret_def truthy_str_def link_get_def kv_get_def demo_store_def db_empty_def)
  then show ?thesis using q by blast
qed

end
