(* ===== verification/NetGuard.thy ===== *)
theory NetGuard
  imports Prelude PyJson "HOL-Library.Word"
begin

text \<open>
  The guard of the URL ingest against requests into private networks: \<^verbatim>\<open>is_ip_allowed\<close> and
  \<^verbatim>\<open>validate_url_target\<close> of \<^verbatim>\<open>src/src/anbar/api/ingest.py\<close>. Addresses are words of 32 and 128
  bits; the parsers and address classes of \<^verbatim>\<open>ipaddress\<close> and \<^verbatim>\<open>urllib.parse\<close> (Python 3.11) are
  written out for ASCII input. What a name resolves to is an argument, \<open>None\<close> for a failed lookup.
\<close>

section \<open>Addresses and networks\<close>

datatype ip = V4 "32 word" | V6 "128 word"

text \<open>\<open>in_net a p n\<close>: \<open>a\<close> agrees with \<open>p\<close> above its low \<open>n\<close> bits.\<close>

definition in_net :: "'a::len word \<Rightarrow> 'a word \<Rightarrow> nat \<Rightarrow> bool" where
  "in_net a p n = (drop_bit n a = drop_bit n p)"

definition v4 :: "int \<Rightarrow> int \<Rightarrow> int \<Rightarrow> int \<Rightarrow> 32 word" where
  "v4 a b c d = word_of_int (((a * 256 + b) * 256 + c) * 256 + d)"

definition v6 :: "int \<Rightarrow> int \<Rightarrow> int \<Rightarrow> int \<Rightarrow> 128 word" where
  "v6 a b c d = word_of_int ((((a * 65536 + b) * 65536 + c) * 65536 + d) * 0x10000000000000000)"

text \<open>The networks behind \<^verbatim>\<open>is_private\<close>, \<^verbatim>\<open>is_loopback\<close>, \<^verbatim>\<open>is_link_local\<close>, \<^verbatim>\<open>is_multicast\<close>,
  \<^verbatim>\<open>is_reserved\<close> and \<^verbatim>\<open>is_unspecified\<close>, and the exceptions to the first.\<close>

definition private4 :: "(32 word \<times> nat) list" where
  "private4 = [(v4 0 0 0 0, 24), (v4 10 0 0 0, 24), (v4 127 0 0 0, 24), (v4 169 254 0 0, 16), (v4 172 16 0 0, 20),
     (v4 192 0 0 0, 8), (v4 192 0 0 170, 1), (v4 192 0 2 0, 8), (v4 192 168 0 0, 16), (v4 198 18 0 0, 17),
     (v4 198 51 100 0, 8), (v4 203 0 113 0, 8), (v4 240 0 0 0, 28), (v4 255 255 255 255, 0)]"

definition private4_but :: "(32 word \<times> nat) list" where
  "private4_but = [(v4 192 0 0 9, 0), (v4 192 0 0 10, 0)]"

definition special4 :: "(32 word \<times> nat) list" where
  "special4 = [(v4 127 0 0 0, 24), (v4 169 254 0 0, 16), (v4 224 0 0 0, 28), (v4 240 0 0 0, 28), (v4 0 0 0 0, 0)]"

definition private6 :: "(128 word \<times> nat) list" where
  "private6 = [(1, 0), (0, 0), (0xffff00000000, 32), (v6 0x64 0xff9b 1 0, 80), (v6 0x100 0 0 0, 64),
     (v6 0x2001 0 0 0, 105), (v6 0x2001 0xdb8 0 0, 96), (v6 0x2002 0 0 0, 112), (v6 0xfc00 0 0 0, 121), (v6 0xfe80 0 0 0, 118)]"

definition private6_but :: "(128 word \<times> nat) list" where
  "private6_but = [(v6 0x2001 1 0 0 + 1, 0), (v6 0x2001 1 0 0 + 2, 0), (v6 0x2001 3 0 0, 96), (v6 0x2001 4 0x112 0, 80),
     (v6 0x2001 0x20 0 0, 100), (v6 0x2001 0x30 0 0, 100)]"

definition special6 :: "(128 word \<times> nat) list" where
  "special6 = [(1, 0), (v6 0xfe80 0 0 0, 118), (v6 0xff00 0 0 0, 120), (0, 0), (v6 0 0 0 0, 120), (v6 0x100 0 0 0, 120),
     (v6 0x200 0 0 0, 121), (v6 0x400 0 0 0, 122), (v6 0x800 0 0 0, 123), (v6 0x1000 0 0 0, 124), (v6 0x4000 0 0 0, 125),
     (v6 0x6000 0 0 0, 125), (v6 0x8000 0 0 0, 125), (v6 0xa000 0 0 0, 125), (v6 0xc000 0 0 0, 125), (v6 0xe000 0 0 0, 124),
     (v6 0xf000 0 0 0, 123), (v6 0xf800 0 0 0, 122), (v6 0xfe00 0 0 0, 119)]"

definition in_any :: "'a::len word \<Rightarrow> ('a word \<times> nat) list \<Rightarrow> bool" where
  "in_any a nets = list_ex (\<lambda>(p, n). in_net a p n) nets"

(* src: src/src/anbar/api/ingest.py 116-127 is_ip_allowed *)
fun addr_allowed :: "ip \<Rightarrow> bool" where
  "addr_allowed (V4 a) = (\<not> (in_any a private4 \<and> \<not> in_any a private4_but) \<and> \<not> in_any a special4 \<and> a \<noteq> v4 169 254 169 254)"
| "addr_allowed (V6 a) = (\<not> (in_any a private6 \<and> \<not> in_any a private6_but) \<and> \<not> in_any a special6)"

section \<open>Parsing addresses\<close>

text \<open>\<^verbatim>\<open>IPv4Address(s)\<close> and \<^verbatim>\<open>IPv6Address(s)\<close>; \<open>None\<close>: the ValueError.\<close>

definition octet :: "string \<Rightarrow> int option" where
  "octet s =
     (if s = [] \<or> \<not> list_all is_digit s \<or> length s > 3 \<or> (s \<noteq> ''0'' \<and> s ! 0 = CHR ''0'') \<or> digits_val s > 255 then None
      else Some (int (digits_val s)))"

definition parse_v4 :: "string \<Rightarrow> 32 word option" where
  "parse_v4 s =
     (case map octet (split_on (CHR ''.'') s) of
        [Some a, Some b, Some c, Some d] \<Rightarrow> Some (v4 a b c d)
      | _ \<Rightarrow> None)"

definition hextet :: "string \<Rightarrow> int option" where
  "hextet s =
     (if s = [] \<or> \<not> list_all (\<lambda>c. hex_val c \<noteq> None) s \<or> length s > 4 then None
      else Some (foldl (\<lambda>v c. 16 * v + int (the (hex_val c))) 0 s))"

fun to_hex :: "int \<Rightarrow> string" where
  "to_hex n = (if n < 16 then [hex_char (nat n)] else to_hex (n div 16) @ [hex_char (nat (n mod 16))])"

declare to_hex.simps [simp del]

definition split_scope :: "string \<Rightarrow> string option" where
  "split_scope s =
     (case split1 (CHR ''%'') s of
        None \<Rightarrow> Some s
      | Some (a, z) \<Rightarrow> if z = [] \<or> CHR ''%'' \<in> set z then None else Some a)"

text \<open>The parts between the colons, a dotted tail as two of them.\<close>

definition v6_parts :: "string \<Rightarrow> string list option" where
  "v6_parts s =
     (let ps = split_on (CHR '':'') s in
      if s = [] \<or> length ps < 3 then None
      else if CHR ''.'' \<in> set (last ps)
      then (case parse_v4 (last ps) of
              None \<Rightarrow> None
            | Some a \<Rightarrow> Some (butlast ps @ [to_hex (uint a div 65536), to_hex (uint a mod 65536)]))
      else Some ps)"

definition v6_value :: "string list \<Rightarrow> nat \<Rightarrow> string list \<Rightarrow> 128 word option" where
  "v6_value hi skipped lo =
     (if list_all (\<lambda>p. hextet p \<noteq> None) (hi @ lo)
      then Some (word_of_int (foldl (\<lambda>v p. 65536 * v + the (hextet p)) 0 (hi @ replicate skipped ''0'' @ lo))) else None)"

definition parse_v6 :: "string \<Rightarrow> 128 word option" where
  "parse_v6 s0 =
     (if CHR ''/'' \<in> set s0 then None else
      case split_scope s0 of None \<Rightarrow> None | Some s \<Rightarrow>
      (case v6_parts s of
         None \<Rightarrow> None
       | Some ps \<Rightarrow>
           if length ps > 9 then None else
           (case filter (\<lambda>i. ps ! i = []) [1 ..< length ps - 1] of
              [] \<Rightarrow> if length ps \<noteq> 8 then None else v6_value ps 0 []
            | [k] \<Rightarrow>
                let hi = (if ps ! 0 = [] then k - 1 else k); lo = (if last ps = [] then length ps - k - 2 else length ps - k - 1) in
                if (ps ! 0 = [] \<and> hi \<noteq> 0) \<or> (last ps = [] \<and> lo \<noteq> 0) \<or> hi + lo \<ge> 8 then None
                else v6_value (take hi ps) (8 - (hi + lo)) (drop (length ps - lo) ps)
            | _ \<Rightarrow> None)))"

definition ip_address :: "string \<Rightarrow> ip option" where
  "ip_address s = (case parse_v4 s of Some a \<Rightarrow> Some (V4 a) | None \<Rightarrow> map_option V6 (parse_v6 s))"

(* src: src/src/anbar/api/ingest.py auto is_ip_allowed *)
definition is_ip_allowed :: "string \<Rightarrow> bool" where
  "is_ip_allowed s = (case ip_address s of None \<Rightarrow> False | Some a \<Rightarrow> addr_allowed a)"

section \<open>The parts of a URL\<close>

text \<open>\<^verbatim>\<open>s.partition(c)\<close> with the separator as a flag.\<close>

definition cut_at :: "char \<Rightarrow> string \<Rightarrow> string \<times> bool \<times> string" where
  "cut_at c s = (case split1 c s of None \<Rightarrow> (s, False, []) | Some (a, b) \<Rightarrow> (a, True, b))"

definition scheme_char :: "char \<Rightarrow> bool" where
  "scheme_char c = (is_alnum c \<or> c \<in> {CHR ''+'', CHR ''-'', CHR ''.''})"

definition split_scheme :: "string \<Rightarrow> string \<times> string" where
  "split_scheme u =
     (case split1 (CHR '':'') u of
        None \<Rightarrow> ([], u)
      | Some (s, r) \<Rightarrow> if s \<noteq> [] \<and> is_alnum (s ! 0) \<and> \<not> is_digit (s ! 0) \<and> list_all scheme_char s then (lower s, r) else ([], u))"

definition netloc_of :: "string \<Rightarrow> string" where
  "netloc_of u = (if startswith u ''//'' then takeWhile (\<lambda>c. c \<noteq> CHR ''/'' \<and> c \<noteq> CHR ''?'' \<and> c \<noteq> CHR ''#'') (drop 2 u) else [])"

text \<open>\<^verbatim>\<open>_check_bracketed_host\<close>: an IPv6 address or \<^verbatim>\<open>v<hex>.<anything>\<close>.\<close>

definition bracketed_ok :: "string \<Rightarrow> bool" where
  "bracketed_ok h =
     (if startswith h ''v''
      then (case cut_at (CHR ''.'') (drop 1 h) of (a, dot, b) \<Rightarrow> a \<noteq> [] \<and> list_all (\<lambda>c. hex_val c \<noteq> None) a \<and> dot \<and> b \<noteq> [] \<and> CHR 0x0A \<notin> set b)
      else (case ip_address h of Some (V6 _) \<Rightarrow> True | _ \<Rightarrow> False))"

text \<open>Scheme and network location of \<^verbatim>\<open>urlparse(url)\<close>; \<open>None\<close>: the ValueError.\<close>

definition split_url :: "string \<Rightarrow> (string \<times> string) option" where
  "split_url url =
     (let u = filter (\<lambda>c. c \<notin> {CHR 0x09, CHR 0x0A, CHR 0x0D}) (dropWhile (\<lambda>c. code c \<le> 32) url);
          (scheme, r) = split_scheme u;
          n = netloc_of r
      in if (CHR ''['' \<in> set n) \<noteq> (CHR '']'' \<in> set n) then None
         else if CHR ''['' \<in> set n \<and> \<not> bracketed_ok (fst (cut_at (CHR '']'') (snd (snd (cut_at (CHR ''['') n))))) then None
         else Some (scheme, n))"

definition host_port :: "string \<Rightarrow> string \<times> string" where
  "host_port n =
     (let h = (case rsplit1 (CHR ''@'') n of None \<Rightarrow> n | Some (_, h) \<Rightarrow> h) in
      case cut_at (CHR ''['') h of
        (_, True, b) \<Rightarrow> (case cut_at (CHR '']'') b of (name, _, rest) \<Rightarrow> (name, snd (snd (cut_at (CHR '':'') rest))))
      | _ \<Rightarrow> (case cut_at (CHR '':'') h of (name, _, port) \<Rightarrow> (name, port)))"

definition url_hostname :: "string \<Rightarrow> string option" where
  "url_hostname n =
     (let h = fst (host_port n) in
      if h = [] then None else (case cut_at (CHR ''%'') h of (a, pc, z) \<Rightarrow> Some (lower a @ (if pc then CHR ''%'' # z else []))))"

text \<open>\<^verbatim>\<open>parsed.port\<close>: \<open>None\<close> inside for no port, an error for a bad one.\<close>

definition url_port :: "string \<Rightarrow> nat option res" where
  "url_port n =
     (let p = snd (host_port n) in
      if p = [] then Inr None
      else if \<not> list_all is_digit p then Inl (ValueError ''port could not be cast'')
      else if digits_val p > 65535 then Inl (ValueError ''port out of range'')
      else Inr (Some (digits_val p)))"

section \<open>The guard\<close>

text \<open>\<open>resolve host port\<close>: the addresses of \<^verbatim>\<open>getaddrinfo\<close>, \<open>None\<close> for \<^verbatim>\<open>gaierror\<close>.\<close>

type_synonym resolver = "string \<Rightarrow> nat \<Rightarrow> string list option"

(* src: src/src/anbar/api/ingest.py 154-164 validate_url_target *)
definition resolved_ok :: "resolver \<Rightarrow> string \<Rightarrow> string \<Rightarrow> nat option \<Rightarrow> unit res" where
  "resolved_ok resolve scheme hostname port =
     (let default_port = (if scheme = ''https'' then 443 else 80);
          p = (case port of None \<Rightarrow> default_port | Some p \<Rightarrow> if p = 0 then default_port else p)
      in case resolve hostname p of
           None \<Rightarrow> Inr ()
         | Some as \<Rightarrow> if list_all is_ip_allowed as then Inr () else Inl (ValueError ''Access to private/restricted IP is prohibited''))"

(* src: src/src/anbar/api/ingest.py auto validate_url_target *)
definition validate_url_target :: "resolver \<Rightarrow> string \<Rightarrow> unit res" where
  "validate_url_target resolve url =
     (case split_url url of
        None \<Rightarrow> Inl (ValueError ''Invalid URL'')
      | Some (scheme, n) \<Rightarrow>
          if lower scheme \<notin> {''http'', ''https''} then Inl (ValueError ''URL must be http(s)'')
          else (case url_hostname n of
            None \<Rightarrow> Inl (ValueError ''Invalid URL hostname'')
          | Some hostname \<Rightarrow>
              let h = lower hostname in
              if h \<in> {''localhost'', ''metadata.google.internal''} \<or> endswith h ''.localhost''
              then Inl (ValueError ''Access to host is prohibited'')
              else (case ip_address hostname of
                Some a \<Rightarrow> if addr_allowed a then Inr () else rbind (url_port n) (resolved_ok resolve scheme hostname)
              | None \<Rightarrow> rbind (url_port n) (resolved_ok resolve scheme hostname))))"

text \<open>
  The address literal is checked inside a \<^verbatim>\<open>try\<close> whose \<^verbatim>\<open>except ValueError\<close> also swallows the refusal:
  a private literal falls through to the name lookup, which refuses it because the lookup of a literal
  gives the literal back.
\<close>

section \<open>Which addresses pass\<close>

lemma take_bit_uint_eq: "take_bit LENGTH('a) (uint (w :: 'a::len word)) = uint w"
  by (rule take_bit_int_eq_self) simp_all

lemma in_net_int: "in_net a p n \<longleftrightarrow> uint a div 2 ^ n = uint p div 2 ^ n"
proof -
  have "uint (drop_bit n w) = uint w div 2 ^ n" for w :: "'a word"
    unfolding unsigned_drop_bit_eq by (simp only: take_bit_uint_eq drop_bit_eq_div)
  then show ?thesis by (simp only: in_net_def word_uint_eq_iff)
qed

lemma div_between: "(0::int) < m \<Longrightarrow> x div m = k \<longleftrightarrow> k * m \<le> x \<and> x < (k + 1) * m"
proof
  assume m: "0 < m" and k: "x div m = k"
  have "k * m + x mod m = x" unfolding k [symmetric] by (rule div_mult_mod_eq)
  with pos_mod_bound [OF m, of x] pos_mod_sign [OF m, of x]
  show "k * m \<le> x \<and> x < (k + 1) * m" unfolding distrib_right by linarith
next
  assume "0 < m" and "k * m \<le> x \<and> x < (k + 1) * m"
  then show "x div m = k"
    by (intro int_div_pos_eq [of _ _ _ "x - k * m"]) (auto simp: algebra_simps)
qed

lemma in_net_between: "in_net a p n \<longleftrightarrow> uint p div 2 ^ n * 2 ^ n \<le> uint a \<and> uint a < (uint p div 2 ^ n + 1) * 2 ^ n"
  by (simp add: in_net_int div_between)

definition dotted :: "nat \<Rightarrow> nat \<Rightarrow> nat \<Rightarrow> nat \<Rightarrow> string" where
  "dotted a b c d = join ''.'' (map str_of_nat [a, b, c, d])"

lemma uint_v4:
  assumes "a < 256" "b < 256" "c < 256" "d < 256" "0 \<le> a" "0 \<le> b" "0 \<le> c" "0 \<le> d"
  shows "uint (v4 a b c d) = ((a * 256 + b) * 256 + c) * 256 + d"
  unfolding v4_def uint_word_of_int using assms by (intro mod_pos_pos_trivial) auto

lemma octet_str_of_nat:
  assumes "n < 256" shows "octet (str_of_nat n) = Some (int n)"
proof -
  have "length (str_of_nat n) \<le> 3"
    using assms by (simp add: str_of_nat.simps [of n] str_of_nat.simps [of "n div 10"] str_of_nat.simps [of "n div 10 div 10"])
  moreover have "str_of_nat n \<noteq> ''0'' \<Longrightarrow> str_of_nat n ! 0 \<noteq> CHR ''0''"
    using str_of_nat_hd [of n] str_of_nat_0 by (cases "n = 0") (simp_all add: hd_conv_nth)
  ultimately show ?thesis using assms by (auto simp: octet_def)
qed

lemma parse_v4_dotted:
  assumes "a < 256" "b < 256" "c < 256" "d < 256"
  shows "parse_v4 (dotted a b c d) = Some (v4 (int a) (int b) (int c) (int d))"
proof -
  have no_dot: "CHR ''.'' \<notin> set (str_of_nat n)" for n
    using str_of_nat_digits' [of "CHR ''.''" n] by (auto simp: is_digit_def code_def)
  then have "split_on (CHR ''.'') (dotted a b c d) = map str_of_nat [a, b, c, d]"
    by (simp add: dotted_def split_on_join split_on_none)
  with assms show ?thesis by (simp add: parse_v4_def octet_str_of_nat)
qed

text \<open>The loopback, private, link-local, multicast and reserved IPv4 ranges.\<close>

definition inner :: "nat \<Rightarrow> nat \<Rightarrow> bool" where
  "inner a b = (a \<in> {0, 10, 127} \<or> a \<ge> 224 \<or> (a = 192 \<and> b = 168) \<or> (a = 172 \<and> 16 \<le> b \<and> b < 32) \<or> (a = 169 \<and> b = 254))"

lemmas net_simps = in_any_def in_net_between uint_v4 private4_def private4_but_def special4_def

lemma base_256:
  assumes "0 \<le> d" "d < 256" "0 \<le> s" "s < (256::int)"
  shows "x * 256 + d = y * 256 + s \<longleftrightarrow> x = y \<and> d = s"
  using assms by (cases "x < y"; cases "y < x") auto

lemma v4_inj:
  assumes "a < 256" "b < 256" "c < 256" "d < 256" "0 \<le> a" "0 \<le> b" "0 \<le> c" "0 \<le> d"
    and "p < 256" "q < 256" "r < 256" "s < 256" "0 \<le> p" "0 \<le> q" "0 \<le> r" "0 \<le> s"
  shows "v4 a b c d = v4 p q r s \<longleftrightarrow> a = p \<and> b = q \<and> c = r \<and> d = s"
proof
  assume "v4 a b c d = v4 p q r s"
  then have "uint (v4 a b c d) = uint (v4 p q r s)" by simp
  then have "((a * 256 + b) * 256 + c) * 256 + d = ((p * 256 + q) * 256 + r) * 256 + s"
    unfolding uint_v4 [OF assms(1-8)] uint_v4 [OF assms(9-16)] .
  then have "(a * 256 + b) * 256 + c = (p * 256 + q) * 256 + r \<and> d = s"
    using base_256 [OF assms(8,4,16,12)] by blast
  moreover from this have "a * 256 + b = p * 256 + q \<and> c = r" using base_256 [OF assms(7,3,15,11)] by blast
  moreover from this have "a = p \<and> b = q" using base_256 [OF assms(6,2,14,10)] by blast
  ultimately show "a = p \<and> b = q \<and> c = r \<and> d = s" by blast
qed simp

lemma in_net_0 [simp]: "in_net a p 0 \<longleftrightarrow> a = p"
  by (simp add: in_net_def)

lemma not_excepted:
  assumes "a < 256" "b < 256" "c < 256" "d < 256" and "inner a b"
  shows "\<not> in_any (v4 (int a) (int b) (int c) (int d)) private4_but"
  using assms by (auto simp: in_any_def private4_but_def v4_inj inner_def)

lemma in_any_mem: "(p, n) \<in> set nets \<Longrightarrow> in_net a p n \<Longrightarrow> in_any a nets"
  by (auto simp: in_any_def list_ex_iff)

lemma inner_listed:
  assumes "a < 256" "b < 256" "c < 256" "d < 256" and "inner a b"
  shows "\<exists>(p, n) \<in> set (private4 @ special4). in_net (v4 (int a) (int b) (int c) (int d)) p n"
proof -
  let ?p = "if a \<in> {0, 10, 127} then (v4 (int a) 0 0 0, 24) else if a = 192 then (v4 192 168 0 0, 16) else if a = 172 then (v4 172 16 0 0, 20)
    else if a = 169 then (v4 169 254 0 0, 16) else if a < 240 then (v4 224 0 0 0, 28) else (v4 240 0 0 0, 28::nat)"
  have "?p \<in> set (private4 @ special4)"
    using assms(5) by (auto simp: private4_def special4_def inner_def)
  moreover have "in_net (v4 (int a) (int b) (int c) (int d)) (fst ?p) (snd ?p)"
    using assms by (auto simp: in_net_between uint_v4 inner_def)
  ultimately show ?thesis by (intro bexI [of _ ?p]) (auto split del: if_split)
qed

lemma inner_refused:
  assumes b: "a < 256" "b < 256" "c < 256" "d < 256" and "inner a b"
  shows "\<not> is_ip_allowed (dotted a b c d)"
proof -
  have "in_any (v4 (int a) (int b) (int c) (int d)) private4 \<or> in_any (v4 (int a) (int b) (int c) (int d)) special4"
    using inner_listed [OF assms] by (auto intro: in_any_mem)
  with not_excepted [OF assms] show ?thesis
    using b by (auto simp: is_ip_allowed_def ip_address_def parse_v4_dotted)
qed

lemma carrier_range_allowed:
  assumes b: "b < 256" "c < 256" "d < 256" and "64 \<le> b" "b < 128"
  shows "is_ip_allowed (dotted 100 b c d)"
proof -
  have "\<not> in_any (v4 100 (int b) (int c) (int d)) (private4 @ special4)"
    using assms by (simp add: in_any_def private4_def special4_def in_net_between uint_v4)
  moreover have "v4 100 (int b) (int c) (int d) \<noteq> v4 169 254 169 254"
    using assms by (simp add: v4_inj)
  ultimately show ?thesis
    using b by (simp add: is_ip_allowed_def ip_address_def parse_v4_dotted in_any_def)
qed

section \<open>What the guard lets through\<close>

text \<open>
  Addresses of the open network, by their octets and leading bits and not by the tables of the guard: no IPv4 address of
  \<open>inner\<close>, and no IPv6 address that is unspecified, loopback, unique-local (fc00::/7), link-local (fe80::/10), multicast
  (ff00::/8) or a mapped IPv4 address. The shared space 100.64.0.0/10 counts as open here, as it does for the guard.
\<close>

definition open4 :: "32 word \<Rightarrow> bool" where
  "open4 w = (\<not> inner (nat (uint w div 16777216)) (nat (uint w div 65536 mod 256)))"

definition open6 :: "128 word \<Rightarrow> bool" where
  "open6 w = (uint w \<notin> {0, 1} \<and> uint w div 2 ^ 121 \<noteq> 0x7e \<and> uint w div 2 ^ 118 \<noteq> 0x3fa \<and> uint w div 2 ^ 120 \<noteq> 0xff
     \<and> uint w div 2 ^ 32 \<noteq> 0xffff)"

definition open_address :: "string \<Rightarrow> bool" where
  "open_address s = (case ip_address s of None \<Rightarrow> False | Some (V4 w) \<Rightarrow> open4 w | Some (V6 w) \<Rightarrow> open6 w)"

lemma v4_octets:
  fixes w :: "32 word"
  obtains a b c d where "a < 256" "b < 256" "c < 256" "d < 256" "w = v4 (int a) (int b) (int c) (int d)"
    "a = nat (uint w div 16777216)" "b = nat (uint w div 65536 mod 256)"
proof -
  have lt: "0 \<le> uint w" "uint w < 4294967296" using uint_ge_0 [of w] uint_lt2p [of w] by simp_all
  define a where "a = nat (uint w div 16777216)"
  define b where "b = nat (uint w div 65536 mod 256)"
  define c where "c = nat (uint w div 256 mod 256)"
  define d where "d = nat (uint w mod 256)"
  have i: "int a = uint w div 16777216" "int b = uint w div 65536 mod 256" "int c = uint w div 256 mod 256" "int d = uint w mod 256"
    using lt unfolding a_def b_def c_def d_def by (simp_all only: int_nat_eq pos_imp_zdiv_nonneg_iff pos_mod_sign zero_less_numeral if_True)
  have "uint w div 16777216 \<le> 4294967295 div 16777216" using lt by (intro zdiv_mono1) simp_all
  then have "int a < 256" unfolding i by simp
  moreover have "int b < 256" "int c < 256" "int d < 256" unfolding i by (rule pos_mod_bound, simp)+
  ultimately have l: "a < 256" "b < 256" "c < 256" "d < 256" by simp_all
  have "((int a * 256 + int b) * 256 + int c) * 256 + int d = uint w"
  proof -
    have e: "uint w div 65536 = uint w div 256 div 256" "uint w div 16777216 = uint w div 65536 div 256"
      by (simp_all add: zdiv_zmult2_eq [symmetric])
    show ?thesis unfolding i using div_mult_mod_eq [of "uint w" 256] div_mult_mod_eq [of "uint w div 256" 256]
      div_mult_mod_eq [of "uint w div 65536" 256] unfolding e by simp
  qed
  then have "w = v4 (int a) (int b) (int c) (int d)" unfolding v4_def by simp
  with l show ?thesis using that a_def b_def by blast
qed

lemma allowed_open4:
  assumes "addr_allowed (V4 w)"
  shows "open4 w"
proof (rule ccontr)
  obtain a b c d where o: "a < 256" "b < 256" "c < 256" "d < 256" "w = v4 (int a) (int b) (int c) (int d)"
    and ab: "a = nat (uint w div 16777216)" "b = nat (uint w div 65536 mod 256)" by (rule v4_octets)
  assume "\<not> open4 w"
  then have i: "inner a b" by (simp add: open4_def ab [symmetric])
  have "in_any w private4 \<or> in_any w special4" using inner_listed [OF o(1-4) i] unfolding o(5) by (auto intro: in_any_mem)
  then show False using assms not_excepted [OF o(1-4) i] unfolding o(5) by simp
qed

lemma in_net_coarser: "in_net a p n \<Longrightarrow> n \<le> m \<Longrightarrow> in_net a p m"
proof -
  assume n: "in_net a p n" and "n \<le> m"
  then have "(2::int) ^ m = 2 ^ n * 2 ^ (m - n)" by (simp add: power_add [symmetric])
  with n show ?thesis unfolding in_net_int by (simp add: zdiv_zmult2_eq)
qed

lemma exceptions6:
  assumes "in_any w private6_but"
  shows "uint w div 2 ^ 112 = 0x2001"
proof -
  obtain p n where pn: "(p, n) \<in> set private6_but" "in_net w p n" using assms by (auto simp: in_any_def list_ex_iff)
  then have "n \<le> 112" by (auto simp: private6_but_def)
  with pn(2) have "in_net w p 112" by (rule in_net_coarser)
  moreover have "uint p div 2 ^ 112 = 0x2001" using pn(1) by (auto simp: private6_but_def v6_def)
  ultimately show ?thesis unfolding in_net_int by simp
qed

lemma allowed_open6:
  assumes "addr_allowed (V6 w)"
  shows "open6 w"
proof -
  have n: "\<not> in_net w p n" if "(p, n) \<in> set special6" for p n using assms that in_any_mem by auto
  have b: "uint w div 2 ^ 112 = 0x2001" if "(p, n) \<in> set private6" "in_net w p n" for p n
    using assms in_any_mem [OF that] exceptions6 by auto
  have u: "uint (1 :: 128 word) = 1" "uint (v6 0xfe80 0 0 0) = 0xfe80 * 2 ^ 112" "uint (v6 0xff00 0 0 0) = 0xff00 * 2 ^ 112"
    "uint (v6 0xfc00 0 0 0) = 0xfc00 * 2 ^ 112" "uint (0xffff00000000 :: 128 word) = 0xffff00000000"
    by (simp_all add: v6_def)
  have "uint w \<notin> {0, 1}" using n [of 0 0] n [of 1 0] by (auto simp: special6_def word_uint_eq_iff)
  moreover have "uint w div 2 ^ 118 \<noteq> 0x3fa" using n [of "v6 0xfe80 0 0 0" 118] unfolding in_net_int u by (simp add: special6_def)
  moreover have "uint w div 2 ^ 120 \<noteq> 0xff" using n [of "v6 0xff00 0 0 0" 120] unfolding in_net_int u by (simp add: special6_def)
  moreover have "uint w div 2 ^ 121 \<noteq> 0x7e"
  proof
    assume e: "uint w div 2 ^ 121 = 0x7e"
    then have "in_net w (v6 0xfc00 0 0 0) 121" unfolding in_net_int u by simp
    from b [OF _ this] have "uint w div 2 ^ 112 = 0x2001" by (simp add: private6_def)
    moreover have "uint w div 2 ^ 121 = uint w div 2 ^ 112 div 512" by (simp add: zdiv_zmult2_eq [symmetric])
    ultimately show False using e by simp
  qed
  moreover have "uint w div 2 ^ 32 \<noteq> 0xffff"
  proof
    assume e: "uint w div 2 ^ 32 = 0xffff"
    then have "in_net w 0xffff00000000 32" unfolding in_net_int u by simp
    from b [OF _ this] have "uint w div 2 ^ 112 = 0x2001" by (simp add: private6_def)
    moreover have "uint w div 2 ^ 112 = uint w div 2 ^ 32 div 2 ^ 80" by (simp add: zdiv_zmult2_eq [symmetric])
    ultimately show False using e by simp
  qed
  ultimately show ?thesis by (simp add: open6_def)
qed

lemma allowed_open: "is_ip_allowed s \<Longrightarrow> open_address s"
  using allowed_open4 allowed_open6 by (auto simp: is_ip_allowed_def open_address_def split: option.splits ip.splits)

text \<open>The port the lookup is made for.\<close>

definition target_port :: "string \<Rightarrow> string \<Rightarrow> nat" where
  "target_port scheme n =
     (case url_port n of Inr (Some p) \<Rightarrow> if p = 0 then (if scheme = ''https'' then 443 else 80) else p
      | _ \<Rightarrow> if scheme = ''https'' then 443 else 80)"

text \<open>The lookup of an address literal gives that address.\<close>

definition literal_law :: "resolver \<Rightarrow> bool" where
  "literal_law resolve = (\<forall>h p. ip_address h \<noteq> None \<longrightarrow> (\<exists>s. resolve h p = Some [s] \<and> ip_address s = ip_address h))"

lemma is_ip_allowed_cong: "ip_address s = ip_address h \<Longrightarrow> is_ip_allowed s = is_ip_allowed h"
  by (simp add: is_ip_allowed_def)

lemma resolved_okD:
  assumes "rbind (url_port n) (resolved_ok resolve scheme h) = Inr ()" and "resolve h (target_port scheme n) = Some as"
  shows "list_all is_ip_allowed as"
proof -
  from assms(1) obtain p where p: "url_port n = Inr p" and r: "resolved_ok resolve scheme h p = Inr ()"
    by (rule rbind_InrE)
  have "target_port scheme n = (case p of None \<Rightarrow> (if scheme = ''https'' then 443 else 80)
      | Some p \<Rightarrow> if p = 0 then (if scheme = ''https'' then 443 else 80) else p)"
    using p by (simp add: target_port_def split: option.splits)
  with r assms(2) show ?thesis
    unfolding resolved_ok_def Let_def by (simp split: if_splits)
qed



lemma dotted_chars: "x \<in> set (dotted a b c d) \<Longrightarrow> is_digit x \<or> x = CHR ''.''"
  by (auto simp: dotted_def dest: str_of_nat_digits')

lemma dotted_free: "\<not> is_digit x \<Longrightarrow> x \<noteq> CHR ''.'' \<Longrightarrow> x \<notin> set (dotted a b c d)"
  using dotted_chars by blast

lemma dotted_keep: "(\<And>x. is_digit x \<or> x = CHR ''.'' \<Longrightarrow> P x) \<Longrightarrow> filter P (dotted a b c d) = dotted a b c d"
  using dotted_chars by (auto intro!: filter_True)

lemma lower_dotted: "lower (dotted a b c d) = dotted a b c d"
  unfolding lower_def by (rule map_idI) (auto dest!: dotted_chars simp: lower_char_def is_digit_def code_def)

lemma dotted_not_local: "lower (dotted a b c d) \<noteq> ''localhost''" "lower (dotted a b c d) \<noteq> ''metadata.google.internal''"
  "\<not> endswith (lower (dotted a b c d)) ''.localhost''"
proof -
  have "CHR ''l'' \<notin> set (lower (dotted a b c d))" unfolding lower_dotted by (rule dotted_free) (auto simp: is_digit_def code_def)
  then show "lower (dotted a b c d) \<noteq> ''localhost''" "lower (dotted a b c d) \<noteq> ''metadata.google.internal''"
    "\<not> endswith (lower (dotted a b c d)) ''.localhost''"
    by (auto simp: endswith_def startswith_iff dest: arg_cong [where f = rev])
qed

lemma split1_none: "c \<notin> set s \<Longrightarrow> split1 c s = None"
  by (simp add: split1_def)

lemma split_url_dotted: "split_url (''http://'' @ dotted a b c d @ ''/'' @ rest) = Some (''http'', dotted a b c d)"
proof -
  let ?x = "dotted a b c d" and ?P = "\<lambda>c. c \<notin> {CHR 0x09, CHR 0x0A, CHR 0x0D}"
  have k: "filter ?P ?x = ?x" by (rule dotted_keep) (auto simp: is_digit_def code_def)
  have f: "filter ?P (''http://'' @ ?x @ ''/'' @ rest) = ''http://'' @ ?x @ ''/'' @ filter ?P rest"
    using k by simp
  have w: "dropWhile (\<lambda>c. code c \<le> 32) (''http://'' @ ?x @ ''/'' @ rest) = ''http://'' @ ?x @ ''/'' @ rest"
    by (simp add: code_def)
  have s: "split_scheme (''http://'' @ t) = (''http'', ''//'' @ t)" for t
    by (simp add: split_scheme_def split1_def is_alnum_def is_digit_def code_def scheme_char_def lower_def lower_char_def)
  have "takeWhile (\<lambda>c. c \<noteq> CHR ''/'' \<and> c \<noteq> CHR ''?'' \<and> c \<noteq> CHR ''#'') (?x @ CHR ''/'' # t) = ?x" for t
    by (subst takeWhile_append2) (auto dest!: dotted_chars simp: is_digit_def code_def)
  then have n: "netloc_of (''//'' @ ?x @ ''/'' @ t) = ?x" for t
    by (simp add: netloc_of_def startswith_def)
  have b: "CHR ''['' \<notin> set ?x" "CHR '']'' \<notin> set ?x" by (auto dest!: dotted_chars simp: is_digit_def code_def)
  show ?thesis unfolding split_url_def w f s Let_def prod.case n using b by simp
qed

lemma host_dotted: "host_port (dotted a b c d) = (dotted a b c d, [])"
proof -
  have "CHR ''@'' \<notin> set (dotted a b c d)" "CHR ''['' \<notin> set (dotted a b c d)" "CHR '':'' \<notin> set (dotted a b c d)"
    by (auto dest!: dotted_chars simp: is_digit_def code_def)
  then show ?thesis by (simp add: host_port_def rsplit1_def cut_at_def split1_def)
qed

lemma hostname_dotted: "url_hostname (dotted a b c d) = Some (dotted a b c d)"
proof -
  have "CHR ''%'' \<notin> set (dotted a b c d)" by (rule dotted_free) (auto simp: is_digit_def code_def)
  moreover have "dotted a b c d \<noteq> []" by (simp add: dotted_def)
  ultimately show ?thesis by (simp add: url_hostname_def host_dotted cut_at_def split1_none lower_dotted)
qed

lemma validate_dotted:
  assumes "a < 256" "b < 256" "c < 256" "d < 256"
  shows "validate_url_target resolve (''http://'' @ dotted a b c d @ ''/'' @ rest) =
    (if is_ip_allowed (dotted a b c d) then Inr () else resolved_ok resolve ''http'' (dotted a b c d) None)"
proof -
  have "lower ''http'' \<in> {''http'', ''https''}" by (simp add: lower_def lower_char_def code_def)
  moreover have "url_port (dotted a b c d) = Inr None" by (simp add: url_port_def host_dotted)
  ultimately show ?thesis
    unfolding validate_url_target_def split_url_dotted option.case prod.case hostname_dotted Let_def
    using dotted_not_local [of a b c d] by (simp add: is_ip_allowed_def ip_address_def parse_v4_dotted [OF assms])
qed

text \<open>Also: A URL with a loopback, private, link-local, multicast or reserved IPv4 address is refused.\<close>

theorem private_address_refused:
  assumes "a < 256" "b < 256" "c < 256" "d < 256" and "inner a b" and "literal_law resolve"
  shows "validate_url_target resolve (''http://'' @ dotted a b c d @ ''/'' @ rest) = Inl (ValueError ''Access to private/restricted IP is prohibited'')"
proof -
  have "ip_address (dotted a b c d) \<noteq> None" using assms by (simp add: ip_address_def parse_v4_dotted)
  then obtain s where "resolve (dotted a b c d) 80 = Some [s]" and "ip_address s = ip_address (dotted a b c d)"
    using assms(6) unfolding literal_law_def by blast
  then show ?thesis
    using inner_refused [OF assms(1-5)] is_ip_allowed_cong [of s "dotted a b c d"]
    unfolding validate_dotted [OF assms(1-4)] by (simp add: resolved_ok_def)
qed

lemma private_address_refused_witness:
  "validate_url_target (\<lambda>h p. Some [h]) (''http://'' @ dotted 169 254 169 254 @ ''/'' @ ''latest'') = Inl (ValueError ''Access to private/restricted IP is prohibited'')"
  by (rule private_address_refused) (simp_all add: inner_def literal_law_def)

text \<open>Also: The shared address space of carrier-grade NAT, 100.64.0.0/10, passes the guard.\<close>

theorem carrier_nat_accepted:
  assumes "64 \<le> b" "b < 128" "c < 256" "d < 256"
  shows "validate_url_target resolve (''http://'' @ dotted 100 b c d @ ''/'' @ rest) = Inr ()"
proof -
  have "(100::nat) < 256" "b < 256" using assms by simp_all
  from validate_dotted [OF this assms(3,4)] carrier_range_allowed [of b c d] assms show ?thesis by simp
qed

lemma carrier_nat_accepted_witness:
  "validate_url_target (\<lambda>h p. None) (''http://'' @ dotted 100 100 100 200 @ ''/'' @ ''latest'') = Inr ()"
  by (rule carrier_nat_accepted) simp_all

text \<open>Also: The refusal of an address literal is swallowed: if the lookup of a private literal fails, it is accepted.\<close>

theorem failed_lookup_accepts_private:
  assumes "a < 256" "b < 256" "c < 256" "d < 256" and "inner a b" and "resolve (dotted a b c d) 80 = None"
  shows "validate_url_target resolve (''http://'' @ dotted a b c d @ ''/'' @ rest) = Inr ()"
  unfolding validate_dotted [OF assms(1-4)] using assms(6) inner_refused [OF assms(1-5)] by (simp add: resolved_ok_def)

lemma failed_lookup_accepts_private_witness:
  "validate_url_target (\<lambda>h p. None) (''http://'' @ dotted 10 0 0 1 @ ''/'' @ ''x'') = Inr ()"
  by (rule failed_lookup_accepts_private) (simp_all add: inner_def)

end
