(* ===== verification/IngestTasks.thy ===== *)
theory IngestTasks
  imports Prelude Complex_Main "HOL-Library.AList" "HOL-Library.Multiset"
begin

text \<open>
  The registry of running ingests, \<^verbatim>\<open>src/src/anbar/ingest_manager.py\<close>. A task is an object that the
  registry and the running job share, so the model keeps a heap of tasks and the registry maps ids to
  addresses in it. Clock readings and speeds are rationals; the registry keeps the order of the dict.
\<close>

section \<open>Tasks\<close>

(* src: src/src/anbar/ingest_manager.py 12-28 IngestTask *)
record ingest_task =
  it_id :: string
  it_source :: string
  it_filename :: string
  it_total :: "int option"
  it_bytes :: int
  it_speed :: rat
  it_eta :: "rat option"
  it_state :: string
  it_started :: rat
  it_updated :: rat
  it_error :: "string option"
  it_cancel :: bool
  it_history :: "(rat \<times> int) list"

(* src: src/src/anbar/ingest_manager.py 97-102 IngestTaskManager.create *)
definition new_task :: "rat \<Rightarrow> string \<Rightarrow> string \<Rightarrow> string \<Rightarrow> int option \<Rightarrow> ingest_task" where
  "new_task now i source filename tot =
     \<lparr>it_id = i, it_source = source, it_filename = filename, it_total = tot, it_bytes = 0, it_speed = 0, it_eta = None,
      it_state = ''pulling'', it_started = now, it_updated = now, it_error = None, it_cancel = False, it_history = []\<rparr>"

text \<open>A deque of at most 60 entries drops its oldest one.\<close>

definition push_history :: "rat \<times> int \<Rightarrow> (rat \<times> int) list \<Rightarrow> (rat \<times> int) list" where
  "push_history e h = (let h = h @ [e] in drop (length h - 60) h)"

(* src: src/src/anbar/ingest_manager.py 37-38 IngestTask.update_bytes *)
fun drop_old :: "rat \<Rightarrow> rat \<Rightarrow> (rat \<times> int) list \<Rightarrow> (rat \<times> int) list" where
  "drop_old now window (e # f # h) = (if now - fst e > window then drop_old now window (f # h) else e # f # h)"
| "drop_old now window h = h"

(* src: src/src/anbar/ingest_manager.py 40-50 IngestTask.update_bytes *)
definition rolling_speed :: "rat \<Rightarrow> rat \<Rightarrow> int \<Rightarrow> (rat \<times> int) list \<Rightarrow> rat" where
  "rolling_speed now started current h =
     (let average = of_int current / max (1/2) (now - started) in
      if length h \<ge> 2
      then let dt = fst (last h) - fst (h ! 0); db = snd (last h) - snd (h ! 0)
           in if dt > 3/10 \<and> db \<ge> 0 then of_int db / dt else average
      else average)"

(* src: src/src/anbar/ingest_manager.py 52-56 IngestTask.update_bytes *)
definition eta_of :: "int option \<Rightarrow> int \<Rightarrow> rat \<Rightarrow> rat option" where
  "eta_of tot current speed =
     (case tot of None \<Rightarrow> None
      | Some n \<Rightarrow> if n > 0 then (if speed > 0 then Some (of_int (max 0 (n - current)) / speed) else None) else None)"

(* src: src/src/anbar/ingest_manager.py auto IngestTask.update_bytes *)
definition update_bytes :: "rat \<Rightarrow> int \<Rightarrow> rat \<Rightarrow> ingest_task \<Rightarrow> ingest_task" where
  "update_bytes now current window t =
     (let h = drop_old now window (push_history (now, current) (it_history t));
          speed = rolling_speed now (it_started t) current h
      in t\<lparr>it_bytes := current, it_updated := now, it_history := h, it_speed := speed,
           it_eta := eta_of (it_total t) current speed\<rparr>)"

text \<open>\<^verbatim>\<open>round(x, k)\<close>: half to even, on exact values.\<close>

definition half_even :: "rat \<Rightarrow> int" where
  "half_even x = (let f = \<lfloor>x\<rfloor>; d = x - of_int f in if d < 1/2 then f else if d > 1/2 then f + 1 else if even f then f else f + 1)"

definition round_to :: "nat \<Rightarrow> rat \<Rightarrow> rat" where
  "round_to k x = of_int (half_even (x * 10 ^ k)) / 10 ^ k"

(* src: src/src/anbar/ingest_manager.py auto IngestTask.pct *)
definition pct :: "ingest_task \<Rightarrow> rat option" where
  "pct t = (case it_total t of None \<Rightarrow> None | Some n \<Rightarrow> if n > 0 then Some (round_to 1 (of_int (it_bytes t) / of_int n * 100)) else None)"

record task_view =
  tv_id :: string
  tv_source :: string
  tv_filename :: string
  tv_total :: "int option"
  tv_bytes :: int
  tv_pct :: "rat option"
  tv_speed :: rat
  tv_eta :: "rat option"
  tv_state :: string
  tv_started :: rat
  tv_elapsed :: rat
  tv_error :: "string option"

(* src: src/src/anbar/ingest_manager.py auto IngestTask.to_dict *)
definition to_dict :: "rat \<Rightarrow> ingest_task \<Rightarrow> task_view" where
  "to_dict now t =
     \<lparr>tv_id = it_id t, tv_source = it_source t, tv_filename = it_filename t, tv_total = it_total t, tv_bytes = it_bytes t,
      tv_pct = pct t, tv_speed = round_to 2 (it_speed t), tv_eta = map_option (round_to 1) (it_eta t), tv_state = it_state t,
      tv_started = it_started t, tv_elapsed = round_to 1 (now - it_started t), tv_error = it_error t\<rparr>"

section \<open>The registry\<close>

(* src: src/src/anbar/ingest_manager.py 84-87 IngestTaskManager.__init__ *)
record task_manager =
  tm_heap :: "ingest_task list"
  tm_tasks :: "(string \<times> nat) list"

definition tm_init :: task_manager where
  "tm_init = \<lparr>tm_heap = [], tm_tasks = []\<rparr>"

abbreviation task_at :: "task_manager \<Rightarrow> nat \<Rightarrow> ingest_task" where
  "task_at m a \<equiv> tm_heap m ! a"

definition set_task :: "nat \<Rightarrow> (ingest_task \<Rightarrow> ingest_task) \<Rightarrow> task_manager \<Rightarrow> task_manager" where
  "set_task a f m = m\<lparr>tm_heap := (tm_heap m)[a := f (task_at m a)]\<rparr>"

definition active :: "ingest_task \<Rightarrow> bool" where
  "active t = (it_state t \<in> {''pulling'', ''committing''})"

(* src: src/src/anbar/ingest_manager.py 132-137 IngestTaskManager.prune *)
definition stale_task :: "rat \<Rightarrow> ingest_task \<Rightarrow> bool" where
  "stale_task now t = (it_state t \<in> {''done'', ''error'', ''cancelled''} \<and> now - it_updated t > 3600)"

(* src: src/src/anbar/ingest_manager.py auto IngestTaskManager.prune *)
definition tm_prune :: "rat \<Rightarrow> task_manager \<Rightarrow> task_manager" where
  "tm_prune now m = m\<lparr>tm_tasks := filter (\<lambda>(_, a). \<not> stale_task now (task_at m a)) (tm_tasks m)\<rparr>"

(* src: src/src/anbar/ingest_manager.py auto IngestTaskManager.create *)
definition tm_create :: "rat \<Rightarrow> string \<Rightarrow> string \<Rightarrow> string \<Rightarrow> int option \<Rightarrow> task_manager \<Rightarrow> task_manager \<times> nat" where
  "tm_create now i source filename tot m =
     (let m = tm_prune now m; a = length (tm_heap m)
      in (m\<lparr>tm_heap := tm_heap m @ [new_task now i source filename tot], tm_tasks := AList.update i a (tm_tasks m)\<rparr>, a))"

(* src: src/src/anbar/ingest_manager.py auto IngestTaskManager.get *)
definition tm_get :: "string \<Rightarrow> task_manager \<Rightarrow> nat option" where
  "tm_get i m = map_of (tm_tasks m) i"

(* src: src/src/anbar/ingest_manager.py auto IngestTaskManager.cancel *)
definition tm_cancel :: "rat \<Rightarrow> string \<Rightarrow> task_manager \<Rightarrow> task_manager \<times> bool" where
  "tm_cancel now i m =
     (case tm_get i m of
        None \<Rightarrow> (m, False)
      | Some a \<Rightarrow> if active (task_at m a)
          then (set_task a (\<lambda>t. t\<lparr>it_state := ''cancelled'', it_cancel := True, it_updated := now\<rparr>) m, True) else (m, False))"

text \<open>\<^verbatim>\<open>sorted(..., reverse=True)\<close> is stable.\<close>

definition newest_first :: "ingest_task list \<Rightarrow> ingest_task list" where
  "newest_first ts = sort_key (\<lambda>t. - it_started t) ts"

(* src: src/src/anbar/ingest_manager.py auto IngestTaskManager.list_active *)
definition tm_list_active :: "rat \<Rightarrow> task_manager \<Rightarrow> task_manager \<times> task_view list" where
  "tm_list_active now m =
     (let m = tm_prune now m
      in (m, map (to_dict now) (filter active (newest_first (map (task_at m \<circ> snd) (tm_tasks m))))))"

(* src: src/src/anbar/ingest_manager.py auto IngestTaskManager.list_all *)
definition tm_list_all :: "rat \<Rightarrow> nat \<Rightarrow> task_manager \<Rightarrow> task_manager \<times> task_view list" where
  "tm_list_all now n m =
     (let m = tm_prune now m
      in (m, map (to_dict now) (take n (newest_first (map (task_at m \<circ> snd) (tm_tasks m))))))"

text \<open>What the jobs do to the tasks they hold: the progress hook and the ends of a run.\<close>

definition task_states :: "string set" where
  "task_states = {''pulling'', ''committing'', ''done'', ''error'', ''cancelled''}"

inductive tm_step :: "task_manager \<Rightarrow> task_manager \<Rightarrow> bool" where
  create: "tm_step m (fst (tm_create now i source filename tot m))"
| progress: "a < length (tm_heap m) \<Longrightarrow> 0 \<le> n \<Longrightarrow> tm_step m (set_task a (update_bytes now n window) m)"
| state: "a < length (tm_heap m) \<Longrightarrow> s \<in> task_states \<Longrightarrow> tm_step m (set_task a (\<lambda>t. t\<lparr>it_state := s\<rparr>) m)"
| cancel: "tm_step m (fst (tm_cancel now i m))"
| list_active: "tm_step m (fst (tm_list_active now m))"
| list_all: "tm_step m (fst (tm_list_all now n m))"

inductive tm_reachable :: "task_manager \<Rightarrow> bool" where
  boot: "tm_reachable tm_init"
| step: "tm_reachable m \<Longrightarrow> tm_step m m' \<Longrightarrow> tm_reachable m'"

inductive_cases tm_stepE: "tm_step m m'"

section \<open>The registry is well formed\<close>

text \<open>A well-formed task: one of the five states, a bounded history, no negative figure, and a
  set event unless it was never cancelled.\<close>

definition task_ok :: "ingest_task \<Rightarrow> bool" where
  "task_ok t = (it_state t \<in> task_states \<and> length (it_history t) \<le> 60 \<and> 0 \<le> it_bytes t \<and> 0 \<le> it_speed t
     \<and> (case it_eta t of None \<Rightarrow> True | Some e \<Rightarrow> 0 \<le> e) \<and> list_all (\<lambda>(_, n). 0 \<le> n) (it_history t))"

definition tm_ok :: "task_manager \<Rightarrow> bool" where
  "tm_ok m = (list_all task_ok (tm_heap m) \<and> distinct (map fst (tm_tasks m))
     \<and> list_all (\<lambda>(i, a). a < length (tm_heap m) \<and> it_id (task_at m a) = i) (tm_tasks m))"

lemma push_history_props:
  "length (push_history e h) \<le> 60" "list_all P h \<Longrightarrow> P e \<Longrightarrow> list_all P (push_history e h)" "push_history e h \<noteq> []"
  by (auto simp: push_history_def Let_def list_all_iff dest: in_set_dropD)

lemma drop_old_props:
  "length (drop_old now w h) \<le> length h" "list_all P h \<Longrightarrow> list_all P (drop_old now w h)" "h \<noteq> [] \<Longrightarrow> drop_old now w h \<noteq> []"
  by (induction now w h rule: drop_old.induct) auto

lemma drop_old_window:
  assumes "drop_old now w h = e # f # g" shows "now - fst e \<le> w"
  using assms by (induction now w h rule: drop_old.induct) (auto split: if_splits)

lemma rolling_speed_nonneg: "0 \<le> current \<Longrightarrow> 0 \<le> rolling_speed now started current h"
  by (auto simp: rolling_speed_def Let_def intro!: divide_nonneg_nonneg)

lemma eta_nonneg: "0 \<le> speed \<Longrightarrow> case eta_of tot current speed of None \<Rightarrow> True | Some e \<Rightarrow> 0 \<le> e"
  by (auto simp: eta_of_def split: option.splits)

lemma task_ok_new [simp]: "task_ok (new_task now i s f tot)"
  by (simp add: task_ok_def new_task_def task_states_def)

lemma update_bytes_keeps [simp]: "it_id (update_bytes now n w t) = it_id t" "it_cancel (update_bytes now n w t) = it_cancel t"
  by (simp_all add: update_bytes_def Let_def)

lemma task_ok_update: "task_ok t \<Longrightarrow> 0 \<le> n \<Longrightarrow> task_ok (update_bytes now n w t)"
  using rolling_speed_nonneg [of n] eta_nonneg push_history_props(1) [of "(now, n)" "it_history t"]
  by (auto simp: task_ok_def update_bytes_def Let_def intro: drop_old_props(2) push_history_props(2) order_trans [OF drop_old_props(1)])

lemma tm_ok_set_task:
  assumes "tm_ok m" and "\<And>t. task_ok t \<Longrightarrow> task_ok (f t)" and "\<And>t. it_id (f t) = it_id t"
  shows "tm_ok (set_task a f m)"
proof (cases "a < length (tm_heap m)")
  case True
  with assms have "task_ok (f (task_at m a))" by (auto simp: tm_ok_def list_all_length)
  with assms True show ?thesis
    by (auto simp: tm_ok_def set_task_def list_all_length nth_list_update list_all_iff split: prod.splits)
next
  case False
  then have "set_task a f m = m" by (cases m) (simp add: set_task_def list_update_beyond not_less)
  with assms(1) show ?thesis by simp
qed

lemma tm_ok_prune [simp]: "tm_ok m \<Longrightarrow> tm_ok (tm_prune now m)"
  by (auto simp: tm_ok_def tm_prune_def list_all_iff distinct_map_filter)

lemma update_mem: "(k, a) \<in> set (AList.update i b ps) \<Longrightarrow> (k = i \<and> a = b) \<or> (k, a) \<in> set ps"
  by (induction ps) (auto split: if_splits)

lemma tm_ok_create:
  assumes "tm_ok m" shows "tm_ok (fst (tm_create now i s f tot m))"
proof -
  let ?m = "tm_prune now m"
  let ?h = "tm_heap ?m @ [new_task now i s f tot]"
  have ok: "tm_ok ?m" using assms by simp
  have "a < length ?h \<and> it_id (?h ! a) = k" if "(k, a) \<in> set (AList.update i (length (tm_heap ?m)) (tm_tasks ?m))" for k a
    using update_mem [OF that] ok by (auto simp: tm_ok_def list_all_iff nth_append new_task_def)
  then show ?thesis
    using ok by (auto simp: tm_ok_def tm_create_def Let_def list_all_iff distinct_update)
qed

lemma tm_ok_cancel: "tm_ok m \<Longrightarrow> tm_ok (fst (tm_cancel now i m))"
  by (auto simp: tm_cancel_def task_ok_def task_states_def intro!: tm_ok_set_task split: option.splits)

lemma tm_ok_step: "tm_step m m' \<Longrightarrow> tm_ok m \<Longrightarrow> tm_ok m'"
proof (induction rule: tm_step.induct)
  case (progress a m n now window)
  then show ?case by (intro tm_ok_set_task) (simp_all add: task_ok_update)
next
  case (state a m s)
  then show ?case by (intro tm_ok_set_task) (auto simp: task_ok_def)
qed (simp_all add: tm_ok_create tm_ok_cancel tm_list_active_def tm_list_all_def Let_def)



section \<open>Cancelling\<close>

lemma active_not_stale: "active t \<Longrightarrow> \<not> stale_task now t"
  by (auto simp: active_def stale_task_def)

lemma heap_prune [simp]: "tm_heap (tm_prune now m) = tm_heap m"
  by (simp add: tm_prune_def)

lemma get_create: "tm_get i (fst (tm_create now i s f tot m)) = Some (length (tm_heap m))"
  by (simp add: tm_get_def tm_create_def Let_def update_conv')

text \<open>A cancelled task keeps its event under every step.\<close>

definition keeps_cancel :: "task_manager \<Rightarrow> task_manager \<Rightarrow> bool" where
  "keeps_cancel m m' = (\<forall>a < length (tm_heap m). it_cancel (task_at m a) \<longrightarrow> a < length (tm_heap m') \<and> it_cancel (task_at m' a))"

lemma set_task_cancel: "(\<And>t. it_cancel t \<Longrightarrow> it_cancel (f t)) \<Longrightarrow> keeps_cancel m (set_task b f m)"
  by (cases "b < length (tm_heap m)") (auto simp: keeps_cancel_def set_task_def nth_list_update)

lemma same_heap_cancel: "tm_heap m' = tm_heap m \<Longrightarrow> keeps_cancel m m'"
  by (simp add: keeps_cancel_def)

lemma cancel_kept_step: "tm_step m m' \<Longrightarrow> keeps_cancel m m'"
proof (induction rule: tm_step.induct)
  case (create m now i source filename tot)
  then show ?case by (simp add: keeps_cancel_def tm_create_def Let_def nth_append)
next
  case (cancel m now i)
  then show ?case by (auto simp: tm_cancel_def intro: set_task_cancel same_heap_cancel split: option.splits)
qed (auto simp: tm_list_active_def tm_list_all_def Let_def intro: set_task_cancel same_heap_cancel)

text \<open>Also: A cancel that answers True sets the event of the task the id names, and the event stays set in every later
  state of the registry.\<close>

theorem cancel_is_permanent:
  assumes "tm_cancel now i m = (m', True)" and "tm_ok m" and "tm_step\<^sup>*\<^sup>* m' m''"
  shows "\<exists>a. tm_get i m = Some a \<and> it_cancel (task_at m'' a)"
proof -
  from assms(1) obtain a where a: "tm_get i m = Some a" and m': "m' = set_task a (\<lambda>t. t\<lparr>it_state := ''cancelled'', it_cancel := True, it_updated := now\<rparr>) m"
    by (auto simp: tm_cancel_def split: option.splits if_splits)
  have len: "a < length (tm_heap m)" using a assms(2) by (auto simp: tm_ok_def tm_get_def list_all_iff dest!: map_of_SomeD)
  from assms(3) have "it_cancel (task_at m'' a) \<and> a < length (tm_heap m'')"
  proof (induction rule: rtranclp_induct)
    case base
    with m' len show ?case by (simp add: set_task_def)
  next
    case (step y z)
    then show ?case using cancel_kept_step [of y z] by (simp add: keeps_cancel_def)
  qed
  with a show ?thesis by blast
qed

definition demo_tasks :: task_manager where
  "demo_tasks = fst (tm_create 1 ''t'' ''url'' ''f'' None tm_init)"

lemma cancel_is_permanent_witness:
  "\<exists>a. tm_get ''t'' demo_tasks = Some a \<and> it_cancel (task_at (fst (tm_create 3 ''t'' ''url'' ''f'' None (fst (tm_cancel 2 ''t'' demo_tasks)))) a)"
proof (rule cancel_is_permanent)
  show "tm_cancel 2 ''t'' demo_tasks = (fst (tm_cancel 2 ''t'' demo_tasks), True)" by code_simp
  show "tm_ok demo_tasks" unfolding demo_tasks_def by (rule tm_ok_create) (simp add: tm_ok_def tm_init_def)
  show "tm_step\<^sup>*\<^sup>* (fst (tm_cancel 2 ''t'' demo_tasks)) (fst (tm_create 3 ''t'' ''url'' ''f'' None (fst (tm_cancel 2 ''t'' demo_tasks))))"
    by (rule r_into_rtranclp) (rule tm_step.create)
qed

text \<open>Also: When an id is registered a second time while its first task runs, a cancel reaches only the second task: the
  first keeps running uncancelled.\<close>

theorem reregistered_task_uncancellable:
  assumes "tm_ok m" and "tm_create t1 i s f tot m = (m1, a1)" and "tm_create t2 i s f tot m1 = (m2, a2)" and "tm_cancel t3 i m2 = (m3, ok)"
  shows "ok \<and> it_cancel (task_at m3 a2) \<and> \<not> it_cancel (task_at m3 a1) \<and> it_state (task_at m3 a1) = ''pulling''"
proof -
  have a1: "a1 = length (tm_heap m)" "tm_heap m1 = tm_heap m @ [new_task t1 i s f tot]"
    using assms(2) by (auto simp: tm_create_def Let_def)
  have a2: "a2 = length (tm_heap m1)" "tm_heap m2 = tm_heap m1 @ [new_task t2 i s f tot]" "tm_get i m2 = Some (length (tm_heap m1))"
    using assms(3) get_create [of i t2 s f tot m1] by (auto simp: tm_create_def Let_def)
  have "active (task_at m2 a2)" using a2 by (simp add: nth_append active_def new_task_def)
  with a2 assms(4) have "ok" and "m3 = set_task a2 (\<lambda>t. t\<lparr>it_state := ''cancelled'', it_cancel := True, it_updated := t3\<rparr>) m2"
    by (auto simp: tm_cancel_def)
  with a1 a2 show ?thesis by (simp add: set_task_def nth_append nth_list_update new_task_def)
qed

lemma reregistered_task_uncancellable_witness:
  "let (m1, a1) = tm_create 1 ''j'' ''url'' ''f'' None tm_init; (m2, a2) = tm_create 2 ''j'' ''url'' ''f'' None m1; (m3, ok) = tm_cancel 3 ''j'' m2
   in ok \<and> it_cancel (task_at m3 a2) \<and> \<not> it_cancel (task_at m3 a1) \<and> it_state (task_at m3 a1) = ''pulling''"
proof -
  have ok: "tm_ok tm_init" by (simp add: tm_ok_def tm_init_def)
  obtain m1 a1 where 1: "tm_create 1 ''j'' ''url'' ''f'' None tm_init = (m1, a1)" by (rule prod.exhaust)
  obtain m2 a2 where 2: "tm_create 2 ''j'' ''url'' ''f'' None m1 = (m2, a2)" by (rule prod.exhaust)
  obtain m3 k where 3: "tm_cancel 3 ''j'' m2 = (m3, k)" by (rule prod.exhaust)
  show ?thesis using reregistered_task_uncancellable [OF ok 1 2 3] unfolding 1 2 3 Let_def prod.case .
qed

section \<open>Listings and pruning\<close>

lemma filter_map_filter: "(\<And>x. P (f x) \<Longrightarrow> Q x) \<Longrightarrow> filter P (map f (filter Q xs)) = filter P (map f xs)"
  by (induction xs) auto

text \<open>Also: A listing of the running tasks shows every running task of the registry and nothing else, newest first.\<close>

theorem list_active_exact:
  "sorted (map (\<lambda>v. - tv_started v) (snd (tm_list_active now m))) \<and>
   mset (snd (tm_list_active now m)) = image_mset (to_dict now) (filter_mset active (image_mset (\<lambda>p. task_at m (snd p)) (mset (tm_tasks m))))"
proof -
  let ?f = "\<lambda>p. task_at m (snd p)" and ?ts = "tm_tasks (tm_prune now m)"
  have h: "tm_heap (tm_prune now m) = tm_heap m" by simp
  have "filter active (map ?f ?ts) = filter active (map ?f (tm_tasks m))"
    unfolding tm_prune_def by (simp, rule filter_map_filter) (auto dest: active_not_stale)
  moreover have "sorted (map (\<lambda>t. - it_started t) (filter active (newest_first ts)))" for ts
    unfolding newest_first_def by (intro sorted_filter) simp
  then have "sorted (map (\<lambda>v. - tv_started v) (map (to_dict now) (filter active (newest_first ts))))" for ts
    by (simp add: comp_def to_dict_def)
  moreover have "mset (snd (tm_list_active now m)) = image_mset (to_dict now) (mset (filter active (map ?f ?ts)))"
    by (simp add: tm_list_active_def Let_def newest_first_def comp_def h mset_filter)
  ultimately show ?thesis by (simp add: tm_list_active_def Let_def mset_filter)
qed

end
