(* ===== verification/Ingest.thy ===== *)
theory Ingest
  imports UploadFlow NetGuard IngestTasks Jobs
begin

text \<open>
  The URL ingest of \<^verbatim>\<open>src/src/anbar/api/ingest.py\<close>: the naming of the file, the job that pulls the remote
  body into storage, the table of jobs and the two routes. The HTTP client is an argument: the URLs it
  requests with what their hosts resolve to at that moment, a transport error, and the response. What
  other requests and the progress hook do while a job waits for bytes is an argument too.
\<close>

section \<open>Names and types\<close>

text \<open>What follows the first occurrence of \<open>sub\<close>.\<close>

fun after_str :: "string \<Rightarrow> string \<Rightarrow> string" where
  "after_str sub [] = []"
| "after_str sub (c # cs) = (if startswith (c # cs) sub then drop (length sub) (c # cs) else after_str sub cs)"

text \<open>The path of \<^verbatim>\<open>urlsplit\<close> and the name of a \<^verbatim>\<open>PurePosixPath\<close>.\<close>

definition url_path :: "string \<Rightarrow> string" where
  "url_path url =
     (let u = filter (\<lambda>c. c \<notin> {CHR 0x09, CHR 0x0A, CHR 0x0D}) (dropWhile (\<lambda>c. code c \<le> 32) url);
          r = snd (split_scheme u);
          p = (if startswith r ''//'' then drop (2 + length (netloc_of r)) r else r)
      in takeWhile (\<lambda>c. c \<noteq> CHR ''?'' \<and> c \<noteq> CHR ''#'') p)"

definition posix_name :: "string \<Rightarrow> string" where
  "posix_name p = (case filter (\<lambda>x. x \<noteq> [] \<and> x \<noteq> ''.'') (split_on (CHR ''/'') p) of [] \<Rightarrow> [] | xs \<Rightarrow> last xs)"

(* src: src/src/anbar/api/ingest.py auto _filename_from_url *)
definition filename_from_url :: "string \<Rightarrow> (string \<times> string) list \<Rightarrow> string" where
  "filename_from_url url headers =
     (let cd = (case map_of headers ''content-disposition'' of None \<Rightarrow> [] | Some v \<Rightarrow> v);
          raw = before (CHR '';'') (strip_by (\<lambda>c. c = CHR 0x22) (strip (after_str ''filename='' cd)));
          seg = strip (unquote (posix_name (url_path url)))
      in if contains_str ''filename='' cd \<and> strip raw \<noteq> [] then take 200 (unquote raw)
         else take 200 (if seg = [] then ''ingest.bin'' else seg))"

(* src: src/src/anbar/api/ingest.py auto _guess_content_type *)
definition guess_content_type :: "(string \<times> string) list \<Rightarrow> string \<Rightarrow> string" where
  "guess_content_type headers fallback =
     (let ct = strip (before (CHR '';'') (case map_of headers ''content-type'' of None \<Rightarrow> [] | Some v \<Rightarrow> v))
      in if ct \<noteq> [] \<and> ct \<noteq> ''application/octet-stream'' then ct else fallback)"

section \<open>The table of jobs\<close>

(* src: src/src/anbar/api/ingest.py 313-322 upload_url *)
record url_job =
  uj_state :: string
  uj_bytes :: int
  uj_chunks :: nat
  uj_total :: int
  uj_started :: time
  uj_object :: "json option"
  uj_error :: "string option"

definition new_job :: "time \<Rightarrow> url_job" where
  "new_job now = \<lparr>uj_state = ''pulling'', uj_bytes = 0, uj_chunks = 0, uj_total = 0, uj_started = now, uj_object = None, uj_error = None\<rparr>"

(* src: src/src/anbar/api/ingest.py auto _prune_jobs *)
definition prune_jobs :: "time \<Rightarrow> (string \<times> url_job) list \<Rightarrow> (string \<times> url_job) list \<times> nat" where
  "prune_jobs now jobs =
     (let stale = (\<lambda>(_, j). uj_state j \<in> {''done'', ''error''} \<and> now - uj_started j > 3600)
      in (filter (\<lambda>p. \<not> stale p) jobs, length (filter stale jobs)))"

record 'w ing =
  ig_db :: db
  ig_world :: 'w
  ig_jobs :: "(string \<times> url_job) list"
  ig_tasks :: task_manager
  ig_queue :: "jobq option"

definition set_job :: "string \<Rightarrow> (url_job \<Rightarrow> url_job) \<Rightarrow> 'w ing \<Rightarrow> 'w ing" where
  "set_job i f g = g\<lparr>ig_jobs := map (\<lambda>(k, j). (k, if k = i then f j else j)) (ig_jobs g)\<rparr>"

section \<open>One job\<close>

text \<open>What the client meets: the requests it sends, with the lookups of their hosts, and the answer.\<close>

record 'b origin =
  og_first :: resolver
  og_hops :: "(string \<times> resolver) list"
  og_broken :: "exc option"
  og_status :: int
  og_headers :: "(string \<times> string) list"
  og_body :: "'b arrival list"

text \<open>What happens while the job waits: whether the event of the task is set at the i-th read, what other
  requests and the hook do to the registry and the queue, and the last total the hook reported.\<close>

record during =
  du_event :: "nat \<Rightarrow> bool"
  du_tasks :: "nat \<Rightarrow> task_manager \<Rightarrow> task_manager"
  du_done :: int
  du_queue :: "jobq \<Rightarrow> jobq"

record 'b ingest_reader =
  ir_job :: "'b job_reader"
  ir_event :: "nat \<Rightarrow> bool"
  ir_reads :: nat

(* src: src/src/anbar/api/ingest.py 221-225 _JobReader.read *)
definition ingest_read :: "'b ingest_reader \<Rightarrow> nat \<Rightarrow> ('b list \<times> 'b ingest_reader) res" where
  "ingest_read r n =
     rbind (job_read ((ir_job r)\<lparr>jr_cancelled := ir_event r (ir_reads r)\<rparr>) n)
       (\<lambda>(data, j). Inr (data, r\<lparr>ir_job := j, ir_reads := ir_reads r + 1\<rparr>))"

definition ingest_reader_init :: "'b origin \<Rightarrow> during \<Rightarrow> 'b ingest_reader" where
  "ingest_reader_init og du =
     \<lparr>ir_job = \<lparr>jr_reader = body_reader_init (og_body og), jr_total_in = 0, jr_cancelled = False\<rparr>, ir_event = du_event du, ir_reads = 0\<rparr>"

text \<open>\<^verbatim>\<open>str(e)\<close> of the exceptions a job can meet.\<close>

fun exc_text :: "exc \<Rightarrow> string" where
  "exc_text (ValueError s) = s"
| "exc_text (RuntimeError s) = s"
| "exc_text (KeyError s) = s"
| "exc_text (HTTPException _ s) = s"
| "exc_text IndexError = ''list index out of range''"
| "exc_text IntegrityError = ''UNIQUE constraint failed''"
| "exc_text _ = ''error''"

text \<open>Up to the headers: the guard on the URL and on every request, the status and the declared length.\<close>

(* src: src/src/anbar/api/ingest.py 177-196 _run_job *)
definition origin_reply :: "settings \<Rightarrow> string \<Rightarrow> string option \<Rightarrow> 'b origin \<Rightarrow> (string \<times> string \<times> int) res" where
  "origin_reply s url filename og =
     rbind (validate_url_target (og_first og) url) (\<lambda>_.
     rbind (mapr (\<lambda>(u, dns). validate_url_target dns u) (og_hops og)) (\<lambda>_.
       case og_broken og of Some e \<Rightarrow> Inl e
       | None \<Rightarrow>
           if og_status og \<ge> 400 then Inl (RuntimeError (''origin returned HTTP '' @ str_of_int (og_status og)))
           else let fname = (if truthy_str filename then the filename else filename_from_url url (og_headers og));
                    ctype = guess_content_type (og_headers og) ''application/octet-stream'';
                    cl = (case map_of (og_headers og) ''content-length'' of None \<Rightarrow> [] | Some v \<Rightarrow> v)
                in case (if cl = [] then Some 0 else py_int cl) of
                     None \<Rightarrow> Inl (ValueError ''invalid content-length'')
                   | Some decl \<Rightarrow> if decl \<noteq> 0 \<and> decl > s_max_upload_mb s * 1024 * 1024 then Inl (RuntimeError ''remote file exceeds configured ceiling'')
                       else Inr (fname, ctype, decl)))"

(* src: src/src/anbar/api/ingest.py 249-256 _run_job *)
definition job_object :: "string \<Rightarrow> string \<Rightarrow> int \<Rightarrow> nat \<Rightarrow> string \<Rightarrow> json" where
  "job_object i fname n chunks sha_hex =
     JObj [(''id'', JStr i), (''url'', JStr (''/f/'' @ i)), (''filename'', JStr fname), (''size'', JInt n),
       (''chunks'', JInt (int chunks)), (''sha256'', JStr sha_hex)]"

(* src: src/src/anbar/api/ingest.py 221-235 _JobReader.read *)
definition while_pulling :: "string \<Rightarrow> nat \<Rightarrow> during \<Rightarrow> 'w ing \<Rightarrow> 'w ing" where
  "while_pulling i a du g =
     set_job i (\<lambda>j. j\<lparr>uj_bytes := du_done du\<rparr>) (g\<lparr>ig_tasks := du_tasks du a (ig_tasks g), ig_queue := map_option (du_queue du) (ig_queue g)\<rparr>)"

text \<open>The body of the \<^verbatim>\<open>try\<close>; \<open>None\<close>: the body never ends. A failed store has rolled back once already.\<close>

(* src: src/src/anbar/api/ingest.py 197-263 _run_job *)
definition pull_body :: "ctx \<Rightarrow> (string \<Rightarrow> 'b list \<Rightarrow> string \<Rightarrow> string option \<Rightarrow> 'w \<Rightarrow> 'w \<times> object_ref res)
    \<Rightarrow> (string \<Rightarrow> object_ref \<Rightarrow> 'w \<Rightarrow> 'w \<times> bool res) \<Rightarrow> ('b list \<Rightarrow> string) \<Rightarrow> env \<Rightarrow> pool option \<Rightarrow> handle \<Rightarrow> nat list
    \<Rightarrow> rat \<Rightarrow> during \<Rightarrow> 'b origin \<Rightarrow> string \<Rightarrow> string \<times> string \<times> int \<Rightarrow> 'w ing \<Rightarrow> ('w ing \<times> unit res) option" where
  "pull_body cx store delete sha env po backend draws clock du og i reply g =
     (case reply of (fname, ctype, decl) \<Rightarrow>
      let g = set_job i (\<lambda>j. j\<lparr>uj_total := decl\<rparr>) g;
          (tm, a) = tm_create clock i ''url'' fname (if decl = 0 then None else Some decl) (ig_tasks g);
          g = g\<lparr>ig_tasks := tm\<rparr>
      in case store_stream store delete sha ingest_read (service_env cx env) (ingest_reader_init og du)
            (svc_init backend (ig_db g) fname (Some ctype) None 0 ''upres'' po None (ig_world g)) of
           None \<Rightarrow> None
         | Some (s, x) \<Rightarrow>
             let g = while_pulling i a du g in
             (case x of
                Inl e \<Rightarrow>
                  let s = fst (rollback delete s);
                      end_state = (if it_cancel (task_at (ig_tasks g) a) then ''cancelled'' else ''error'')
                  in Some (g\<lparr>ig_db := sv_db s, ig_world := sv_world s, ig_tasks := set_task a (\<lambda>t. t\<lparr>it_state := end_state\<rparr>) (ig_tasks g)\<rparr>, Inl e)
              | Inr sha_hex \<Rightarrow>
                  let g = set_job i (\<lambda>j. j\<lparr>uj_chunks := length (sv_chunks s)\<rparr>) g in
                  (case commit (cx_now cx) draws sha_hex None s of
                     (s, Inl e) \<Rightarrow> Some (g\<lparr>ig_db := sv_db s, ig_world := sv_world s\<rparr>, Inl e)
                   | (s, Inr obj_id) \<Rightarrow>
                       let res = job_object obj_id fname (sv_total_size s) (length (sv_chunks s)) sha_hex;
                           g = g\<lparr>ig_db := sv_db s, ig_world := sv_world s, ig_tasks := set_task a (\<lambda>t. t\<lparr>it_state := ''done''\<rparr>) (ig_tasks g)\<rparr>;
                           g = set_job i (\<lambda>j. j\<lparr>uj_object := Some res, uj_state := ''done''\<rparr>) g
                       in Some (g\<lparr>ig_queue := map_option (jq_finish (cx_now cx) i (Some res) None) (ig_queue g)\<rparr>, Inr ()))))"

(* src: src/src/anbar/api/ingest.py 282-291 _run_job *)
definition job_failed :: "time \<Rightarrow> string \<Rightarrow> exc \<Rightarrow> 'w ing \<Rightarrow> 'w ing" where
  "job_failed now i e g =
     (let g = set_job i (\<lambda>j. j\<lparr>uj_state := ''error'', uj_error := Some (exc_text e)\<rparr>) g
      in g\<lparr>ig_queue := map_option (jq_finish now i None (Some (exc_text e))) (ig_queue g)\<rparr>)"

(* src: src/src/anbar/api/ingest.py auto _run_job *)
definition run_job :: "ctx \<Rightarrow> (string \<Rightarrow> 'b list \<Rightarrow> string \<Rightarrow> string option \<Rightarrow> 'w \<Rightarrow> 'w \<times> object_ref res)
    \<Rightarrow> (string \<Rightarrow> object_ref \<Rightarrow> 'w \<Rightarrow> 'w \<times> bool res) \<Rightarrow> ('b list \<Rightarrow> string) \<Rightarrow> env \<Rightarrow> pool option \<Rightarrow> handle \<Rightarrow> nat list
    \<Rightarrow> rat \<Rightarrow> during \<Rightarrow> 'b origin \<Rightarrow> string \<Rightarrow> string \<Rightarrow> string option \<Rightarrow> 'w ing \<Rightarrow> ('w ing \<times> unit res) option" where
  "run_job cx store delete sha env po backend draws clock du og i url filename g =
     (if map_of (ig_jobs g) i = None then Some (g, Inl (KeyError i))
      else case origin_reply (cx_settings cx) url filename og of
             Inl e \<Rightarrow> Some (job_failed (cx_now cx) i e g, Inr ())
           | Inr reply \<Rightarrow>
               (case pull_body cx store delete sha env po backend draws clock du og i reply g of
                  None \<Rightarrow> None
                | Some (g, Inl e) \<Rightarrow> Some (job_failed (cx_now cx) i e g, Inr ())
                | Some (g, Inr _) \<Rightarrow> Some (g, Inr ())))"

section \<open>The routes\<close>

(* src: src/src/anbar/api/ingest.py 301-302 upload_url *)
definition url_body :: "json option \<Rightarrow> (string \<times> string option) res" where
  "url_body body =
     (case body of
        None \<Rightarrow> Inl (HTTPException 400 ''expected JSON {url, filename?}'')
      | Some b \<Rightarrow>
          let kvs = (if jtruthy b then (case b of JObj kvs \<Rightarrow> Inr kvs | _ \<Rightarrow> Inl TypeError) else Inr []) in
          rbind kvs (\<lambda>kvs.
          rbind (case map_of kvs ''url'' of None \<Rightarrow> Inr [] | Some v \<Rightarrow> as_str v) (\<lambda>u.
          rbind (case map_of kvs ''filename'' of None \<Rightarrow> Inr [] | Some v \<Rightarrow> if jtruthy v then as_str v else Inr []) (\<lambda>f.
            Inr (strip u, if strip f = [] then None else Some (strip f))))))"

definition url_payload :: "string \<Rightarrow> string option \<Rightarrow> json" where
  "url_payload url filename = JObj [(''url'', JStr url), (''filename'', jstr_opt filename)]"

text \<open>The reply and the runs of the job the route starts itself; the queue starts its own.\<close>

(* src: src/src/anbar/api/ingest.py auto upload_url *)
definition upload_url :: "ctx \<Rightarrow> resolver \<Rightarrow> string \<Rightarrow> request \<Rightarrow> json option \<Rightarrow> 'w ing \<Rightarrow> 'w ing \<times> (string \<times> (string \<times> string \<times> string option) list) res" where
  "upload_url cx resolve job_id r body g =
     (case require_admin (cx_sha256 cx) (cx_hmac cx) (cx_now cx) (cx_tok cx) (cx_settings cx) r (ig_db g) of
        (Inl e, d) \<Rightarrow> (g\<lparr>ig_db := d\<rparr>, Inl e)
      | (Inr _, d) \<Rightarrow>
          let g = g\<lparr>ig_db := d\<rparr> in
          (case url_body body of
             Inl e \<Rightarrow> (g, Inl e)
           | Inr (url, filename) \<Rightarrow>
               if \<not> (startswith (lower url) ''http://'' \<or> startswith (lower url) ''https://'') then (g, Inl (HTTPException 400 ''url must be http(s)''))
               else if length url > 2048 then (g, Inl (HTTPException 400 ''url too long''))
               else (case validate_url_target resolve url of
                  Inl e \<Rightarrow> (g, Inl (HTTPException 400 (''Invalid URL target: '' @ exc_text e)))
                | Inr _ \<Rightarrow>
                    let g = g\<lparr>ig_jobs := AList.update job_id (new_job (cx_now cx)) (ig_jobs g)\<rparr>;
                        g = g\<lparr>ig_queue := map_option (\<lambda>q. fst (jq_submit (cx_now cx) ''ingest_url'' job_id (url_payload url filename) True q)) (ig_queue g)\<rparr>
                    in (g, Inr (job_id, [(job_id, url, filename)])))))"

record url_status =
  us_state :: string
  us_bytes :: int
  us_chunks :: nat
  us_total :: int
  us_started :: time
  us_object :: "json option"
  us_error :: "string option"
  us_elapsed :: time

text \<open>The durable row carries its result decoded already; \<^verbatim>\<open>json.loads\<close> is applied to it again.\<close>

(* src: src/src/anbar/api/ingest.py 354-366 upload_url_status *)
definition row_status :: "time \<Rightarrow> job \<times> json option \<Rightarrow> url_status res" where
  "row_status now row =
     (case row of (j, result) \<Rightarrow>
      rbind (case result of
               None \<Rightarrow> Inr None
             | Some v \<Rightarrow> if \<not> jtruthy v then Inr None
                 else (case v of JStr s \<Rightarrow> (case loads s of None \<Rightarrow> Inl (ValueError ''JSONDecodeError'') | Some u \<Rightarrow> Inr (Some u)) | _ \<Rightarrow> Inl TypeError))
        (\<lambda>object. Inr \<lparr>us_state = j_state j, us_bytes = j_progress j, us_chunks = 0, us_total = j_total j, us_started = j_created_at j,
           us_object = object, us_error = j_error j, us_elapsed = now - (if j_created_at j = 0 then now else j_created_at j)\<rparr>))"

(* src: src/src/anbar/api/ingest.py auto upload_url_status *)
definition upload_url_status :: "ctx \<Rightarrow> request \<Rightarrow> string \<Rightarrow> 'w ing \<Rightarrow> 'w ing \<times> url_status res" where
  "upload_url_status cx r job_id g =
     (case require_admin (cx_sha256 cx) (cx_hmac cx) (cx_now cx) (cx_tok cx) (cx_settings cx) r (ig_db g) of
        (Inl e, d) \<Rightarrow> (g\<lparr>ig_db := d\<rparr>, Inl e)
      | (Inr _, d) \<Rightarrow>
          let g = g\<lparr>ig_db := d, ig_jobs := fst (prune_jobs (cx_now cx) (ig_jobs g))\<rparr> in
          (case map_of (ig_jobs g) job_id of
             Some j \<Rightarrow> (g, Inr \<lparr>us_state = uj_state j, us_bytes = uj_bytes j, us_chunks = uj_chunks j, us_total = uj_total j,
                 us_started = uj_started j, us_object = uj_object j, us_error = uj_error j, us_elapsed = cx_now cx - uj_started j\<rparr>)
           | None \<Rightarrow>
               (case ig_queue g of
                  None \<Rightarrow> (g, Inl (HTTPException 404 ''unknown job''))
                | Some q \<Rightarrow>
                    (case js_get job_id (q_rows q) of
                       None \<Rightarrow> (g, Inl (HTTPException 404 ''unknown job''))
                     | Some row \<Rightarrow> if j_kind (fst row) = ''ingest_url'' then (g, row_status (cx_now cx) row)
                         else (g, Inl (HTTPException 404 ''unknown job''))))))"

end
