(* ===== verification/IngestFlow.thy ===== *)
theory IngestFlow
  imports Ingest
begin

text \<open>
  What the URL ingest of \<^verbatim>\<open>src/src/anbar/api/ingest.py\<close> promises: a pulled body is stored and readable, a
  blocked request stores nothing, a failed one leaves no blob; and where it falls short: a job is run
  twice, an empty body leaves its task running for good, a late cancel is overruled, and the status of
  a finished job breaks once it comes from the durable row.
\<close>

section \<open>The reader of a job\<close>

definition ir_good :: "'b ingest_reader \<Rightarrow> bool" where
  "ir_good r = (body_good (jr_reader (ir_job r)) \<and> (\<forall>k. \<not> ir_event r k))"

interpretation ing: byte_stream ingest_read "\<lambda>r. body_rest (jr_reader (ir_job r))" ir_good
proof unfold_locales
  fix s :: "'b ingest_reader" and n :: nat
  assume g: "ir_good s" and n: "0 < n"
  let ?j = "(ir_job s)\<lparr>jr_cancelled := ir_event s (ir_reads s)\<rparr>"
  have "body_good (jr_reader ?j) \<and> \<not> jr_cancelled ?j" using g by (simp add: ir_good_def)
  from job.read_delivers [OF this n] obtain p j where "job_read ?j n = Inr (p, j)" "body_good (jr_reader j) \<and> \<not> jr_cancelled j"
    "body_rest (jr_reader ?j) = p @ body_rest (jr_reader j)" "length p \<le> n" "p = [] \<longrightarrow> body_rest (jr_reader ?j) = []" by blast
  then show "\<exists>p s'. ingest_read s n = Inr (p, s') \<and> ir_good s' \<and> body_rest (jr_reader (ir_job s)) = p @ body_rest (jr_reader (ir_job s'))
      \<and> length p \<le> n \<and> (p = [] \<longrightarrow> body_rest (jr_reader (ir_job s)) = [])"
    using g by (simp add: ingest_read_def ir_good_def)
qed

lemma ingest_reader_props:
  assumes "calm (og_body og)" and "\<forall>k. \<not> du_event du k"
  shows "ir_good (ingest_reader_init og du)" "body_rest (jr_reader (ir_job (ingest_reader_init og du))) = bytes_of (og_body og)"
    "body_good (body_reader_init (og_body og))" "body_rest (body_reader_init (og_body og)) = bytes_of (og_body og)"
  using assms by (simp_all add: ir_good_def ingest_reader_init_def body_reader_init_def body_good_def body_rest_def)

text \<open>A calm body without a cancel is stored as if it were uploaded.\<close>

lemma ingest_as_upload:
  assumes "calm (og_body og)" and "\<forall>k. \<not> du_event du k" and "env_ok env"
  shows "store_stream store delete sha ingest_read env (ingest_reader_init og du) (svc_init backend d fn ct None 0 pre po None w) =
    store_stream store delete sha body_read env (body_reader_init (og_body og)) (svc_init backend d fn ct None 0 pre po None w)"
proof -
  let ?s = "svc_init backend d fn ct None 0 pre po None w"
  note r = ingest_reader_props [OF assms(1,2)]
  have s: "sv_resume_from ?s = 0" "sv_chunks ?s = []" "sv_max_bytes ?s = None" by (simp_all add: svc_init_def Let_def)
  have c: "0 < en_chunk_size env" using assms(3) by (simp add: env_ok_def)
  have m: "case None of None \<Rightarrow> True | Some m \<Rightarrow> length (body_rest (jr_reader (ir_job (ingest_reader_init og du)))) \<le> m"
    "case None of None \<Rightarrow> True | Some m \<Rightarrow> length (body_rest (body_reader_init (og_body og))) \<le> m" by simp_all
  show ?thesis
    unfolding store_stream_fresh [OF s(1,2)] s(3) ing.chunk_stream_feed [OF r(1) c m(1)] body.chunk_stream_feed [OF r(3) c m(2)] r(2,4) ..
qed

lemma map_of_set_job: "map_of (ig_jobs (set_job i f g)) k = (if k = i then map_option f (map_of (ig_jobs g) k) else map_of (ig_jobs g) k)"
proof -
  have "map_of (map (\<lambda>(k, j). (k, if k = i then f j else j)) xs) k = (if k = i then map_option f (map_of xs k) else map_of xs k)" for xs
    by (induction xs) auto
  then show ?thesis by (simp add: set_job_def)
qed

lemma set_job_fields [simp]:
  "ig_db (set_job i f g) = ig_db g" "ig_world (set_job i f g) = ig_world g" "ig_tasks (set_job i f g) = ig_tasks g" "ig_queue (set_job i f g) = ig_queue g"
  by (simp_all add: set_job_def)

lemma while_pulling_fields [simp]:
  "ig_db (while_pulling i a du g) = ig_db g" "ig_world (while_pulling i a du g) = ig_world g"
  "ig_tasks (while_pulling i a du g) = du_tasks du a (ig_tasks g)" "ig_queue (while_pulling i a du g) = map_option (du_queue du) (ig_queue g)"
  by (simp_all add: while_pulling_def)

lemma while_pulling_job: "map_of (ig_jobs g) i \<noteq> None \<Longrightarrow> map_of (ig_jobs (while_pulling i a du g)) i \<noteq> None"
  by (simp add: while_pulling_def map_of_set_job)

section \<open>A job that ends well\<close>

lemma run_job_done:
  fixes g :: "(string \<Rightarrow> 'b fake) ing"
  assumes "calm (og_body og)" and "\<forall>k. \<not> du_event du k" and "bytes_of (og_body og) \<noteq> []"
    and "env_ok (service_env cx env)" and "\<forall>m. fake_ok (ig_world g m)" and "po = None \<or> (\<exists>n. po = Some (pool_init n))"
    and "find_obj (ig_db g) (new_object_id draws) = None" and "map_of (ig_jobs g) i \<noteq> None"
    and "origin_reply (cx_settings cx) url filename og = Inr (fname, ctype, decl)"
  shows "\<exists>g' row m j res chunks. run_job cx fakes_store fakes_delete sha env po backend draws clock du og i url filename g = Some (g', Inr ())
     \<and> find_obj (ig_db g') (new_object_id draws) = Some row \<and> o_filename row = fname \<and> o_size row = int (length (bytes_of (og_body og)))
     \<and> o_sha256 row = Some (sha (bytes_of (og_body og))) \<and> from_json (the (o_manifest row)) = Inr m
     \<and> read_object fakes_open po backend (ig_world g') m = Inr (bytes_of (og_body og))
     \<and> map_of (ig_jobs g') i = Some j \<and> uj_state j = ''done''
     \<and> res = job_object (new_object_id draws) fname (o_size row) chunks (sha (bytes_of (og_body og)))
     \<and> ig_queue g' = map_option (\<lambda>q. jq_finish (cx_now cx) i (Some res) None (du_queue du q)) (ig_queue g)
     \<and> ig_tasks g' = (let (tm, a) = tm_create clock i ''url'' fname (if decl = 0 then None else Some decl) (ig_tasks g)
          in set_task a (\<lambda>t. t\<lparr>it_state := ''done''\<rparr>) (du_tasks du a tm))"
proof -
  let ?body = "bytes_of (og_body og)" and ?id = "new_object_id draws"
  let ?s = "svc_init backend (ig_db g) fname (Some ctype) None 0 ''upres'' po None (ig_world g) :: ('b, string \<Rightarrow> 'b fake) svc"
  have mx: "case None of None \<Rightarrow> True | Some m \<Rightarrow> length ?body \<le> m" by simp
  from upload_commits [OF assms(1) refl assms(3,4) mx assms(5,6,7), where backend = backend and fn = fname and ct = "Some ctype" and upload_id = None
    and sha = sha and now = "cx_now cx" and key = None]
  obtain s1 s2 row m where u: "store_stream fakes_store fakes_delete sha body_read (service_env cx env) (body_reader_init (og_body og)) ?s = Some (s1, Inr (sha ?body))"
     "commit (cx_now cx) draws (sha ?body) None s1 = (s2, Inr ?id)" "find_obj (sv_db s2) ?id = Some row" "o_filename row = fname"
     "o_size row = int (length ?body)" "o_sha256 row = Some (sha ?body)" "from_json (the (o_manifest row)) = Inr m"
     "read_object fakes_open po backend (sv_world s2) m = Inr ?body"
    by (elim exE conjE)
  have sz: "sv_total_size s2 = o_size row" using commit_row [OF u(2)] u(3) by auto
  obtain tm a where tm: "tm_create clock i ''url'' fname (if decl = 0 then None else Some decl) (ig_tasks g) = (tm, a)" by (rule prod.exhaust)
  obtain g' where r: "pull_body cx fakes_store fakes_delete sha env po backend draws clock du og i (fname, ctype, decl) g = Some (g', Inr ())"
    and g': "g' = (let res = job_object ?id fname (sv_total_size s2) (length (sv_chunks s2)) (sha ?body);
           g = set_job i (\<lambda>j. j\<lparr>uj_chunks := length (sv_chunks s1)\<rparr>) (while_pulling i a du ((set_job i (\<lambda>j. j\<lparr>uj_total := decl\<rparr>) g)\<lparr>ig_tasks := tm\<rparr>));
           g = g\<lparr>ig_db := sv_db s2, ig_world := sv_world s2, ig_tasks := set_task a (\<lambda>t. t\<lparr>it_state := ''done''\<rparr>) (ig_tasks g)\<rparr>;
           g = set_job i (\<lambda>j. j\<lparr>uj_object := Some res, uj_state := ''done''\<rparr>) g
       in g\<lparr>ig_queue := map_option (jq_finish (cx_now cx) i (Some res) None) (ig_queue g)\<rparr>)"
    unfolding pull_body_def prod.case Let_def set_job_fields tm ing.simps ingest_as_upload [OF assms(1,2,4)] u(1) u(2)
    by (simp add: ingest_as_upload [OF assms(1,2,4)] u(1) u(2))
  have run: "run_job cx fakes_store fakes_delete sha env po backend draws clock du og i url filename g = Some (g', Inr ())"
    using assms(8) unfolding run_job_def assms(9) by (simp add: r)
  obtain j where j: "map_of (ig_jobs g) i = Some j" using assms(8) by blast
  have f: "ig_db g' = sv_db s2" "ig_world g' = sv_world s2"
    "ig_tasks g' = set_task a (\<lambda>t. t\<lparr>it_state := ''done''\<rparr>) (du_tasks du a tm)"
    "ig_queue g' = map_option (\<lambda>q. jq_finish (cx_now cx) i (Some (job_object ?id fname (o_size row) (length (sv_chunks s2)) (sha ?body))) None (du_queue du q)) (ig_queue g)"
    unfolding g' Let_def by (simp_all add: sz option.map_comp comp_def)
  have jb: "\<exists>j. map_of (ig_jobs g') i = Some j \<and> uj_state j = ''done''"
    unfolding g' Let_def using j by (simp add: map_of_set_job while_pulling_def)
  then obtain j' where jb: "map_of (ig_jobs g') i = Some j'" "uj_state j' = ''done''" by blast
  show ?thesis
    unfolding tm Let_def prod.case
    by (intro exI conjI, rule run, simp only: f u(3), rule u(4), rule u(5), rule u(6), rule u(7), simp only: f u(8), rule jb(1), rule jb(2), rule refl, rule f(4), rule f(3))
qed

text \<open>C12: A job whose URL and requests pass the guard stores exactly the remote body under a new object with the
  name and type of the reply, without any ceiling when no length is declared, and its table entry is done.\<close>

theorem ingest_stores:
  fixes g :: "(string \<Rightarrow> 'b fake) ing"
  assumes "calm (og_body og)" and "\<forall>k. \<not> du_event du k" and "bytes_of (og_body og) \<noteq> []"
    and "env_ok (service_env cx env)" and "\<forall>m. fake_ok (ig_world g m)" and "po = None \<or> (\<exists>n. po = Some (pool_init n))"
    and "find_obj (ig_db g) (new_object_id draws) = None" and "map_of (ig_jobs g) i \<noteq> None"
    and "origin_reply (cx_settings cx) url filename og = Inr (fname, ctype, decl)"
  shows "\<exists>g' row m j. run_job cx fakes_store fakes_delete sha env po backend draws clock du og i url filename g = Some (g', Inr ())
     \<and> find_obj (ig_db g') (new_object_id draws) = Some row \<and> o_filename row = fname \<and> o_size row = int (length (bytes_of (og_body og)))
     \<and> from_json (the (o_manifest row)) = Inr m \<and> read_object fakes_open po backend (ig_world g') m = Inr (bytes_of (og_body og))
     \<and> map_of (ig_jobs g') i = Some j \<and> uj_state j = ''done''"
  using run_job_done [OF assms, where sha = sha and backend = backend and clock = clock]
  by (elim exE conjE) (intro exI conjI; assumption)


definition demo_origin :: "string \<Rightarrow> nat arrival list \<Rightarrow> nat origin" where
  "demo_origin u body = \<lparr>og_first = (\<lambda>h p. Some [h]), og_hops = [(u, \<lambda>h p. Some [h])], og_broken = None, og_status = 200,
     og_headers = [(''content-disposition'', ''attachment; filename=a.bin'')], og_body = body\<rparr>"

definition quiet :: during where
  "quiet = \<lparr>du_event = (\<lambda>_. False), du_tasks = (\<lambda>_ m. m), du_done = 0, du_queue = id\<rparr>"

definition demo_ing :: "(string \<Rightarrow> nat fake) ing" where
  "demo_ing = \<lparr>ig_db = db_empty, ig_world = (\<lambda>_. fake_init), ig_jobs = [(''j'', new_job 5)], ig_tasks = tm_init, ig_queue = Some (jq_init [])\<rparr>"

lemma demo_reply: "origin_reply s ''http://8.8.8.8/x'' None (demo_origin ''http://8.8.8.8/x'' body) = Inr (''a.bin'', ''application/octet-stream'', 0)"
proof -
  have "validate_url_target (\<lambda>h p. Some [h]) ''http://8.8.8.8/x'' = Inr ()" by code_simp
  moreover have "filename_from_url ''http://8.8.8.8/x'' [(''content-disposition'', ''attachment; filename=a.bin'')] = ''a.bin''" by code_simp
  ultimately show ?thesis by (simp add: origin_reply_def demo_origin_def guess_content_type_def before_def strip_by_def lstrip_by_def rstrip_by_def)
qed

theorem ingest_stores_witness:
  "\<exists>g' row m. run_job demo_up fakes_store fakes_delete (\<lambda>_. ''h'') (demo_env 1) None (Outside ''fake'') [0] 1 quiet (demo_origin ''http://8.8.8.8/x'' [Piece [1, 2], Piece [3]])
      ''j'' ''http://8.8.8.8/x'' None demo_ing = Some (g', Inr ())
    \<and> find_obj (ig_db g') (new_object_id [0]) = Some row \<and> o_filename row = ''a.bin'' \<and> o_size row = 3
    \<and> from_json (the (o_manifest row)) = Inr m \<and> read_object fakes_open None (Outside ''fake'') (ig_world g') m = Inr [1, 2, 3]"
proof -
  let ?og = "demo_origin ''http://8.8.8.8/x'' [Piece [1, 2], Piece [3]]"
  have b: "calm (og_body ?og)" "\<forall>k. \<not> du_event quiet k" "bytes_of (og_body ?og) \<noteq> []" and bo: "bytes_of (og_body ?og) = [1, 2, 3]"
    by (simp_all add: demo_origin_def quiet_def)
  have g: "\<forall>m. fake_ok (ig_world demo_ing m)" "find_obj (ig_db demo_ing) (new_object_id [0]) = None" "map_of (ig_jobs demo_ing) ''j'' \<noteq> None"
    using fakes_init_ok by (simp_all add: demo_ing_def find_obj_def db_empty_def)
  have po: "None = None \<or> (\<exists>n. None = Some (pool_init n))" by simp
  have r: "origin_reply (cx_settings demo_up) ''http://8.8.8.8/x'' None ?og = Inr (''a.bin'', ''application/octet-stream'', 0)"
    by (rule demo_reply)
  from ingest_stores [OF b up_env_ok g(1) po g(2,3) r, where sha = "\<lambda>_. ''h''" and backend = "Outside ''fake''" and clock = 1]
  show ?thesis unfolding bo by (elim exE conjE) (intro exI conjI; (assumption | simp))
qed

section \<open>A job that is refused\<close>

text \<open>C30: If any request of the client, redirects included, fails the guard, nothing is stored: database, backends and
  task registry are as before and the job ends with an error.\<close>

theorem blocked_request_stores_nothing:
  assumes "map_of (ig_jobs g) i \<noteq> None" and "(u, dns) \<in> set ((url, og_first og) # og_hops og)" and "validate_url_target dns u = Inl e"
  shows "\<exists>g' j. run_job cx store delete sha env po backend draws clock du og i url filename g = Some (g', Inr ())
    \<and> ig_db g' = ig_db g \<and> ig_world g' = ig_world g \<and> ig_tasks g' = ig_tasks g \<and> map_of (ig_jobs g') i = Some j \<and> uj_state j = ''error''"
proof -
  have m: "\<exists>e. mapr (\<lambda>(u, dns). validate_url_target dns u) hs = Inl e" if "(u, dns) \<in> set hs" for hs
    using that
  proof (induction hs)
    case (Cons h hs)
    show ?case
    proof (cases "h = (u, dns)")
      case True
      with assms(3) show ?thesis by simp
    next
      case False
      with Cons obtain e' where "mapr (\<lambda>(u, dns). validate_url_target dns u) hs = Inl e'" by auto
      then show ?thesis by (cases "(\<lambda>(u, dns). validate_url_target dns u) h") auto
    qed
  qed simp
  have "\<exists>e. origin_reply (cx_settings cx) url filename og = Inl e"
  proof (cases "validate_url_target (og_first og) url")
    case (Inr x)
    with assms(2,3) have "(u, dns) \<in> set (og_hops og)" by auto
    from m [OF this] Inr show ?thesis by (auto simp: origin_reply_def)
  qed (simp add: origin_reply_def)
  then obtain e' where "origin_reply (cx_settings cx) url filename og = Inl e'" ..
  with assms(1) show ?thesis by (auto simp: run_job_def job_failed_def Let_def map_of_set_job)
qed

theorem blocked_request_stores_nothing_witness:
  "\<exists>g'. run_job demo_up fakes_store fakes_delete (\<lambda>_. ''h'') (demo_env 1) None (Outside ''fake'') [0] 1 quiet (demo_origin ''http://10.0.0.1/x'' [Piece [1]])
      ''j'' ''http://8.8.8.8/x'' None demo_ing = Some (g', Inr ()) \<and> ig_db g' = ig_db demo_ing"
proof -
  have "map_of (ig_jobs demo_ing) ''j'' \<noteq> None" by (simp add: demo_ing_def)
  note a = this
  have b: "(''http://10.0.0.1/x'', \<lambda>h p. Some [h]) \<in> set ((''http://8.8.8.8/x'', og_first (demo_origin ''http://10.0.0.1/x'' [Piece [1]]))
      # og_hops (demo_origin ''http://10.0.0.1/x'' [Piece [1]]))" by (simp add: demo_origin_def)
  have c: "validate_url_target (\<lambda>h p. Some [h]) ''http://10.0.0.1/x'' = Inl (ValueError ''Access to private/restricted IP is prohibited'')" by code_simp
  from blocked_request_stores_nothing [OF a b c, where cx = demo_up and store = fakes_store and delete = fakes_delete and sha = "\<lambda>_. ''h''" and env = "demo_env 1"
    and po = None and backend = "Outside ''fake''" and draws = "[0]" and clock = 1 and du = quiet and filename = None]
  show ?thesis by (elim exE conjE) (intro exI conjI; assumption)
qed

section \<open>A job that fails while storing\<close>

text \<open>The service rolls back when its store fails, and whoever ingests once more.\<close>

lemma rolled_back_twice:
  fixes w :: "string \<Rightarrow> 'b fake"
  assumes "\<forall>m. fake_ok (w m)" and "po = None \<or> (\<exists>n. po = Some (pool_init n))" and "flaky st"
    and "store_stream st fakes_delete sha read env stream (svc_init backend d fn ct None 0 pre po None w) = Some (s, Inl e)"
  shows "blob (sv_world (fst (rollback fakes_delete s))) = blob w" "d_objects (sv_db (fst (rollback fakes_delete s))) = d_objects d"
proof -
  obtain s1 new k where u: "uploading w d (sv_ck_key (svc_init backend d fn ct None 0 pre po None w :: ('b, string \<Rightarrow> 'b fake) svc)) po backend [] new s1"
    and r1: "rollback_chunks fakes_delete (sv_chunks s1) s1 = (s, k)" using failing_upload [OF assms] by auto
  obtain s2 j where r2: "rollback_chunks fakes_delete (sv_chunks s) s = (s2, j)" by (rule prod.exhaust)
  note b1 = rollback_blobs [OF r1] and b2 = rollback_blobs [OF r2]
  have own: "chunk_at (sv_pool s) (sv_backend s) ` set (sv_chunks s) = chunk_at po backend ` set new"
    using b1 chunk_at_cong [OF uploading_fields(4) [OF u]] uploading_fields(3,7) [OF u] by simp
  have rb: "fst (rollback fakes_delete s) = s2" by (simp add: rollback_def r2)
  have a: "\<forall>p. blob (sv_world s2) p = (if p \<in> chunk_at po backend ` set new then None else blob (sv_world s) p)" using b2 own by simp
  have w: "blob (sv_world s) p = blob w p" for p using rolled_back [OF u r1] by simp
  show "blob (sv_world (fst (rollback fakes_delete s))) = blob w"
  proof
    show "blob (sv_world (fst (rollback fakes_delete s))) p = blob w p" for p
      using spec [OF a, of p] w [of p] conjunct1 [OF uploading_blobs [OF u]] unfolding rb
      by (cases "p \<in> chunk_at po backend ` set new") auto
  qed
  show "d_objects (sv_db (fst (rollback fakes_delete s))) = d_objects d" using b1 b2 uploading_fields(6) [OF u] unfolding rb by simp
qed

text \<open>Also: When storing fails (a stalled origin, a cancel, a backend error), the two rollbacks leave every backend with
  exactly the blobs it had and add no object row, and the task and the job say so.\<close>

theorem failed_ingest_leaves_no_blob:
  fixes g :: "(string \<Rightarrow> 'b fake) ing"
  assumes "\<forall>m. fake_ok (ig_world g m)" and "po = None \<or> (\<exists>n. po = Some (pool_init n))" and "flaky st" and "map_of (ig_jobs g) i \<noteq> None"
    and "origin_reply (cx_settings cx) url filename og = Inr (fname, ctype, decl)"
    and "store_stream st fakes_delete sha ingest_read (service_env cx env) (ingest_reader_init og du)
        (svc_init backend (ig_db g) fname (Some ctype) None 0 ''upres'' po None (ig_world g)) = Some (s, Inl e)"
  shows "\<exists>g' j. run_job cx st fakes_delete sha env po backend draws clock du og i url filename g = Some (g', Inr ())
     \<and> blob (ig_world g') = blob (ig_world g) \<and> d_objects (ig_db g') = d_objects (ig_db g) \<and> map_of (ig_jobs g') i = Some j \<and> uj_state j = ''error''"
proof -
  note rb = rolled_back_twice [OF assms(1,2,3,6)]
  obtain tm a where tm: "tm_create clock i ''url'' fname (if decl = 0 then None else Some decl) (ig_tasks g) = (tm, a)" by (rule prod.exhaust)
  have "\<exists>g'. pull_body cx st fakes_delete sha env po backend draws clock du og i (fname, ctype, decl) g = Some (g', Inl e)
      \<and> ig_db g' = sv_db (fst (rollback fakes_delete s)) \<and> ig_world g' = sv_world (fst (rollback fakes_delete s)) \<and> map_of (ig_jobs g') i \<noteq> None"
    unfolding pull_body_def prod.case Let_def set_job_fields tm ing.simps
    using assms(4,6) by (simp add: map_of_set_job while_pulling_def)
  then obtain g' where p: "pull_body cx st fakes_delete sha env po backend draws clock du og i (fname, ctype, decl) g = Some (g', Inl e)"
    "ig_db g' = sv_db (fst (rollback fakes_delete s))" "ig_world g' = sv_world (fst (rollback fakes_delete s))" "map_of (ig_jobs g') i \<noteq> None" by blast
  have "run_job cx st fakes_delete sha env po backend draws clock du og i url filename g = Some (job_failed (cx_now cx) i e g', Inr ())"
    using assms(4) unfolding run_job_def assms(5) by (simp add: p(1))
  then show ?thesis using p rb by (auto simp: job_failed_def Let_def map_of_set_job)
qed

lemma broken_stream:
  assumes "\<And>n. read st n = Inl e" and "0 < c"
  shows "chunk_stream sha read c cb media mx st s = Some (s, Inl e)"
  unfolding chunk_stream_def using assms by (subst chunk_loop.simps) (simp add: fill.simps)

text \<open>A cancel before the first read.\<close>

theorem failed_ingest_leaves_no_blob_witness:
  "\<exists>g' j. run_job demo_up fakes_store fakes_delete (\<lambda>_. ''h'') (demo_env 1) None (Outside ''fake'') [0] 1 (quiet\<lparr>du_event := \<lambda>_. True\<rparr>) (demo_origin ''http://8.8.8.8/x'' [Piece [1, 2]])
      ''j'' ''http://8.8.8.8/x'' None demo_ing = Some (g', Inr ()) \<and> blob (ig_world g') = blob (ig_world demo_ing) \<and> map_of (ig_jobs g') ''j'' = Some j \<and> uj_state j = ''error''"
proof -
  let ?og = "demo_origin ''http://8.8.8.8/x'' [Piece [1, 2]]" and ?du = "quiet\<lparr>du_event := \<lambda>_. True\<rparr>"
  let ?s = "svc_init (Outside ''fake'') (ig_db demo_ing) ''a.bin'' (Some ''application/octet-stream'') None 0 ''upres'' None None (ig_world demo_ing) :: (nat, string \<Rightarrow> nat fake) svc"
  have f: "sv_resume_from ?s = 0" "sv_chunks ?s = []" by (simp_all add: svc_init_def Let_def)
  have g: "\<forall>m. fake_ok (ig_world demo_ing m)" "map_of (ig_jobs demo_ing) ''j'' \<noteq> None" using fakes_init_ok by (simp_all add: demo_ing_def)
  have po: "None = None \<or> (\<exists>n. None = Some (pool_init n))" by simp
  have r: "origin_reply (cx_settings demo_up) ''http://8.8.8.8/x'' None ?og = Inr (''a.bin'', ''application/octet-stream'', 0)"
    by (rule demo_reply)
  have c: "0 < en_chunk_size (service_env demo_up (demo_env 1))" using up_env_ok by (simp add: env_ok_def)
  have rd: "ingest_read (ingest_reader_init ?og ?du) n = Inl (RuntimeError ''Ingest cancelled by admin'')" for n
    by (simp add: ingest_read_def ingest_reader_init_def job_read_def)
  have "store_stream fakes_store fakes_delete (\<lambda>_. ''h'') ingest_read (service_env demo_up (demo_env 1)) (ingest_reader_init ?og ?du) ?s
      = Some (fst (rollback fakes_delete ?s), Inl (RuntimeError ''Ingest cancelled by admin''))"
    unfolding store_stream_fresh [OF f] broken_stream [of ingest_read, OF rd c] by simp
  from failed_ingest_leaves_no_blob [OF g(1) po flaky_fakes g(2) r this, where draws = "[0]" and clock = 1] show ?thesis
    by (elim exE conjE) (intro exI conjI; assumption)
qed

section \<open>Where the job falls short\<close>

lemma empty_stream_commits:
  fixes w :: "string \<Rightarrow> 'e fake"
  assumes "calm pieces" and "bytes_of pieces = []" and "env_ok env"
  shows "\<exists>s1. store_stream fakes_store fakes_delete sha body_read env (body_reader_init pieces)
         (svc_init backend d fn ct upload_id 0 pre po max_bytes w) = Some (s1, Inr (sha []))
     \<and> (\<forall>now draws h key. snd (commit now draws h key s1) = Inl IndexError)"
proof -
  let ?s = "svc_init backend d fn ct upload_id 0 pre po max_bytes w :: ('e, string \<Rightarrow> 'e fake) svc"
  have s: "sv_resume_from ?s = 0" "sv_chunks ?s = []" by (simp_all add: svc_init_def Let_def)
  have rest: "body_rest (body_reader_init pieces) = []" "body_good (body_reader_init pieces)"
    using assms(1,2) by (simp_all add: body_rest_def body_good_def body_reader_init_def)
  have cs: "0 < en_chunk_size env" using assms(3) by (simp add: env_ok_def)
  have mx: "case sv_max_bytes ?s of None \<Rightarrow> True | Some m \<Rightarrow> length (body_rest (body_reader_init pieces)) \<le> m"
    unfolding rest by (simp split: option.split)
  have "store_stream fakes_store fakes_delete sha body_read env (body_reader_init pieces) ?s = Some (?s, Inr (sha []))"
    unfolding store_stream_fresh [OF s] body.chunk_stream_feed [OF rest(2) cs mx] rest by (simp add: chop.simps)
  then show ?thesis using s by (simp add: commit_def Let_def)
qed

text \<open>Also: A cancel that arrives after the last read answers True and is overruled: the object is stored and the state of
  the task goes from cancelled to done.\<close>

theorem late_cancel_overruled:
  fixes g :: "(string \<Rightarrow> 'b fake) ing"
  assumes "calm (og_body og)" and "\<forall>k. \<not> du_event du k" and "bytes_of (og_body og) \<noteq> []"
    and "env_ok (service_env cx env)" and "\<forall>m. fake_ok (ig_world g m)" and "po = None \<or> (\<exists>n. po = Some (pool_init n))"
    and "find_obj (ig_db g) (new_object_id draws) = None" and "map_of (ig_jobs g) i \<noteq> None"
    and "origin_reply (cx_settings cx) url filename og = Inr (fname, ctype, decl)"
    and "du_tasks du = (\<lambda>_ m. fst (tm_cancel t i m))"
  shows "\<exists>g' a. run_job cx fakes_store fakes_delete sha env po backend draws clock du og i url filename g = Some (g', Inr ())
     \<and> snd (tm_cancel t i (fst (tm_create clock i ''url'' fname (if decl = 0 then None else Some decl) (ig_tasks g))))
     \<and> tm_get i (ig_tasks g') = Some a \<and> it_cancel (task_at (ig_tasks g') a) \<and> it_state (task_at (ig_tasks g') a) = ''done''
     \<and> find_obj (ig_db g') (new_object_id draws) \<noteq> None"
proof -
  let ?tot = "if decl = 0 then None else Some decl"
  obtain tm a where tm: "tm_create clock i ''url'' fname ?tot (ig_tasks g) = (tm, a)" by (rule prod.exhaust)
  have t: "a = length (tm_heap (ig_tasks g))" "tm_heap tm = tm_heap (ig_tasks g) @ [new_task clock i ''url'' fname ?tot]" "tm_get i tm = Some a"
    using tm get_create [of i clock "''url''" fname ?tot "ig_tasks g"] by (auto simp: tm_create_def Let_def)
  then have act: "active (task_at tm a)" by (simp add: active_def new_task_def)
  let ?c = "set_task a (\<lambda>t'. t'\<lparr>it_state := ''cancelled'', it_cancel := True, it_updated := t\<rparr>) tm"
  have c: "tm_cancel t i tm = (?c, True)" unfolding tm_cancel_def t(3) using act by simp
  have fin: "task_at (set_task a (\<lambda>t. t\<lparr>it_state := ''done''\<rparr>) ?c) a = (task_at ?c a)\<lparr>it_state := ''done''\<rparr>" "it_cancel (task_at ?c a)"
    "tm_get i (set_task a (\<lambda>t. t\<lparr>it_state := ''done''\<rparr>) ?c) = Some a"
    using t by (simp_all add: set_task_def tm_get_def)
  from run_job_done [OF assms(1-9), where sha = sha and backend = backend and clock = clock]
  obtain g' row where r: "run_job cx fakes_store fakes_delete sha env po backend draws clock du og i url filename g = Some (g', Inr ())"
     "find_obj (ig_db g') (new_object_id draws) = Some row"
     "ig_tasks g' = (let (tm, a) = tm_create clock i ''url'' fname ?tot (ig_tasks g) in set_task a (\<lambda>t. t\<lparr>it_state := ''done''\<rparr>) (du_tasks du a tm))"
    by (elim exE conjE)
  have ts: "ig_tasks g' = set_task a (\<lambda>t. t\<lparr>it_state := ''done''\<rparr>) ?c" unfolding r(3) tm Let_def prod.case assms(10) c by simp
  have "snd (tm_cancel t i (fst (tm_create clock i ''url'' fname ?tot (ig_tasks g))))" unfolding tm fst_conv c by simp
  moreover have "it_cancel (task_at (ig_tasks g') a)" "it_state (task_at (ig_tasks g') a) = ''done''" "tm_get i (ig_tasks g') = Some a"
    unfolding ts fin(1) using fin(2,3) by simp_all
  ultimately show ?thesis using r(1,2) by blast
qed

theorem late_cancel_overruled_witness:
  "\<exists>g' a. run_job demo_up fakes_store fakes_delete (\<lambda>_. ''h'') (demo_env 1) None (Outside ''fake'') [0] 1 (quiet\<lparr>du_tasks := \<lambda>_ m. fst (tm_cancel 2 ''j'' m)\<rparr>)
      (demo_origin ''http://8.8.8.8/x'' [Piece [1, 2]]) ''j'' ''http://8.8.8.8/x'' None demo_ing = Some (g', Inr ())
    \<and> it_cancel (task_at (ig_tasks g') a) \<and> it_state (task_at (ig_tasks g') a) = ''done''"
proof -
  let ?og = "demo_origin ''http://8.8.8.8/x'' [Piece [1, 2]]" and ?du = "quiet\<lparr>du_tasks := \<lambda>_ m. fst (tm_cancel 2 ''j'' m)\<rparr>"
  have b: "calm (og_body ?og)" "\<forall>k. \<not> du_event ?du k" "bytes_of (og_body ?og) \<noteq> []" and du: "du_tasks ?du = (\<lambda>_ m. fst (tm_cancel 2 ''j'' m))"
    by (simp_all add: demo_origin_def quiet_def)
  have g: "\<forall>m. fake_ok (ig_world demo_ing m)" "find_obj (ig_db demo_ing) (new_object_id [0]) = None" "map_of (ig_jobs demo_ing) ''j'' \<noteq> None"
    using fakes_init_ok by (simp_all add: demo_ing_def find_obj_def db_empty_def)
  have po: "None = None \<or> (\<exists>n. None = Some (pool_init n))" by simp
  have r: "origin_reply (cx_settings demo_up) ''http://8.8.8.8/x'' None ?og = Inr (''a.bin'', ''application/octet-stream'', 0)" by (rule demo_reply)
  from late_cancel_overruled [OF b up_env_ok g(1) po g(2,3) r du, where sha = "\<lambda>_. ''h''" and backend = "Outside ''fake''" and clock = 1]
  show ?thesis by (elim exE conjE) (intro exI conjI; assumption)
qed

text \<open>Also: An empty remote body makes the job fail with an IndexError of the commit while its task stays in the state
  pulling, which no pruning ever removes.\<close>

theorem empty_body_task_stuck:
  fixes g :: "(string \<Rightarrow> 'b fake) ing"
  assumes "calm (og_body og)" and "\<forall>k. \<not> du_event du k" and "bytes_of (og_body og) = []" and "env_ok (service_env cx env)"
    and "\<forall>m. fake_ok (ig_world g m)" and "po = None \<or> (\<exists>n. po = Some (pool_init n))" and "map_of (ig_jobs g) i \<noteq> None"
    and "origin_reply (cx_settings cx) url filename og = Inr (fname, ctype, decl)" and "du_tasks du = (\<lambda>_ m. m)" and "tm_ok (ig_tasks g)"
  shows "\<exists>g' j a. run_job cx fakes_store fakes_delete sha env po backend draws clock du og i url filename g = Some (g', Inr ())
     \<and> map_of (ig_jobs g') i = Some j \<and> uj_state j = ''error'' \<and> uj_error j = Some ''list index out of range''
     \<and> it_state (task_at (ig_tasks g') a) = ''pulling'' \<and> tm_get i (tm_prune later (ig_tasks g')) = Some a"
proof -
  let ?tot = "if decl = 0 then None else Some decl"
  let ?s = "svc_init backend (ig_db g) fname (Some ctype) None 0 ''upres'' po None (ig_world g) :: ('b, string \<Rightarrow> 'b fake) svc"
  obtain tm a where tm: "tm_create clock i ''url'' fname ?tot (ig_tasks g) = (tm, a)" by (rule prod.exhaust)
  have t: "a = length (tm_heap (ig_tasks g))" "tm_heap tm = tm_heap (ig_tasks g) @ [new_task clock i ''url'' fname ?tot]" "tm_get i tm = Some a"
    using tm get_create [of i clock "''url''" fname ?tot "ig_tasks g"] by (auto simp: tm_create_def Let_def)
  have ok: "tm_ok tm" using tm_ok_create [OF assms(10), of clock i "''url''" fname ?tot] tm by simp
  have st: "it_state (task_at tm a) = ''pulling''" using t by (simp add: new_task_def)
  then have act: "active (task_at tm a)" by (simp add: active_def)
  have "(i, a) \<in> set (filter (\<lambda>(_, a). \<not> stale_task later (task_at tm a)) (tm_tasks tm))"
    using t(3) act by (auto simp: tm_get_def dest: map_of_SomeD active_not_stale)
  moreover have "distinct (map fst (filter (\<lambda>(_, a). \<not> stale_task later (task_at tm a)) (tm_tasks tm)))"
    using ok by (simp add: tm_ok_def distinct_map_filter)
  ultimately have pr: "tm_get i (tm_prune later tm) = Some a" by (simp add: tm_get_def tm_prune_def)
  from empty_stream_commits [OF assms(1,3,4), where backend = backend and d = "ig_db g" and fn = fname and ct = "Some ctype" and pre = "''upres''"
      and sha = sha and upload_id = None and max_bytes = None and po = po and w = "ig_world g"]
  obtain s1 where s1: "store_stream fakes_store fakes_delete sha body_read (service_env cx env) (body_reader_init (og_body og)) ?s = Some (s1, Inr (sha []))"
     and ix: "\<And>now draws h. snd (commit now draws h None s1) = Inl IndexError" by blast
  obtain s2 where c: "commit (cx_now cx) draws (sha []) None s1 = (s2, Inl IndexError)" using ix by (metis surj_pair snd_conv)
  have "\<exists>g'. pull_body cx fakes_store fakes_delete sha env po backend draws clock du og i (fname, ctype, decl) g = Some (g', Inl IndexError)
      \<and> ig_tasks g' = tm \<and> map_of (ig_jobs g') i \<noteq> None"
    unfolding pull_body_def prod.case Let_def set_job_fields tm ing.simps
    using assms(7,9) by (simp add: ingest_as_upload [OF assms(1,2,4)] s1 c map_of_set_job while_pulling_def)
  then obtain g' where p: "pull_body cx fakes_store fakes_delete sha env po backend draws clock du og i (fname, ctype, decl) g = Some (g', Inl IndexError)"
    "ig_tasks g' = tm" "map_of (ig_jobs g') i \<noteq> None" by blast
  have "run_job cx fakes_store fakes_delete sha env po backend draws clock du og i url filename g = Some (job_failed (cx_now cx) i IndexError g', Inr ())"
    using assms(7) unfolding run_job_def assms(8) by (simp add: p(1))
  moreover obtain j where "map_of (ig_jobs g') i = Some j" using p(3) by blast
  ultimately show ?thesis using p(2) st pr by (simp add: job_failed_def Let_def map_of_set_job)
qed

theorem empty_body_task_stuck_witness:
  "\<exists>g' j a. run_job demo_up fakes_store fakes_delete (\<lambda>_. ''h'') (demo_env 1) None (Outside ''fake'') [0] 1 quiet (demo_origin ''http://8.8.8.8/x'' [])
      ''j'' ''http://8.8.8.8/x'' None demo_ing = Some (g', Inr ()) \<and> map_of (ig_jobs g') ''j'' = Some j \<and> uj_state j = ''error''
    \<and> uj_error j = Some ''list index out of range'' \<and> it_state (task_at (ig_tasks g') a) = ''pulling'' \<and> tm_get ''j'' (tm_prune 1000000 (ig_tasks g')) = Some a"
proof -
  let ?og = "demo_origin ''http://8.8.8.8/x'' []"
  have b: "calm (og_body ?og)" "\<forall>k. \<not> du_event quiet k" "bytes_of (og_body ?og) = []" and du: "du_tasks quiet = (\<lambda>_ m. m)"
    by (simp_all add: demo_origin_def quiet_def)
  have g: "\<forall>m. fake_ok (ig_world demo_ing m)" "map_of (ig_jobs demo_ing) ''j'' \<noteq> None" and t: "tm_ok (ig_tasks demo_ing)"
    using fakes_init_ok by (simp_all add: demo_ing_def tm_ok_def tm_init_def)
  have po: "None = None \<or> (\<exists>n. None = Some (pool_init n))" by simp
  have r: "origin_reply (cx_settings demo_up) ''http://8.8.8.8/x'' None ?og = Inr (''a.bin'', ''application/octet-stream'', 0)" by (rule demo_reply)
  show ?thesis by (rule empty_body_task_stuck [OF b up_env_ok g(1) po g(2) r du t])
qed

lemma next_queued_submitted:
  assumes "\<not> has_queued k rows"
  shows "js_next_queued k (js_submit now i k payload rows) = Some (i, Some (dumps payload))"
proof -
  have "filter (queued_of k) rows = []" using assms by (auto simp: has_queued_def filter_empty_conv)
  then have "filter (queued_of k) (del_where (\<lambda>r. j_id r = i) rows) = []" by (auto simp: del_where_def filter_empty_conv)
  then show ?thesis by (simp add: js_next_queued_def js_submit_def queued_of_def)
qed

lemma wake_keeps_tasks: "t \<in> set (q_tasks q) \<Longrightarrow> t \<in> set (q_tasks (jq_wake now k q))"
proof (induction now k q rule: jq_wake.induct)
  case (1 now k q)
  then show ?case by (subst jq_wake.simps) (auto simp: start_task_def split: option.split)
qed

lemma submit_starts:
  assumes "k \<in> fst ` set KIND_CONCURRENCY" and "\<not> q_stopped q" and "q_running q k < cap k" and "\<not> has_queued k (q_rows q)"
  shows "(k, i, Some (dumps payload)) \<in> set (q_tasks (fst (jq_submit now k i payload h q)))"
proof -
  let ?q = "let q = q\<lparr>q_rows := js_submit now i k payload (q_rows q)\<rparr> in if h then q\<lparr>q_handlers := List.insert k (q_handlers q)\<rparr> else q"
  have f: "q_stopped ?q = q_stopped q" "q_running ?q = q_running q" "q_rows ?q = js_submit now i k payload (q_rows q)" by (simp_all add: Let_def)
  have n: "js_next_queued k (q_rows ?q) = Some (i, Some (dumps payload))" unfolding f(3) by (rule next_queued_submitted [OF assms(4)])
  have "jq_wake now k ?q = jq_wake now k (start_task now k i (Some (dumps payload)) ?q)"
    by (subst jq_wake.simps) (simp only: f(1,2) n assms(2,3) if_True if_False not_False_eq_True option.case prod.case)
  moreover have "(k, i, Some (dumps payload)) \<in> set (q_tasks (start_task now k i (Some (dumps payload)) ?q))" by (simp add: start_task_def)
  ultimately have "(k, i, Some (dumps payload)) \<in> set (q_tasks (jq_wake now k ?q))" using wake_keeps_tasks by metis
  with assms(1) show ?thesis by (simp add: jq_submit_def Let_def)
qed

text \<open>Also: An accepted URL is pulled twice: when a slot of the queue is free, the queue starts a task for the job and the
  route starts a second run of the same job itself.\<close>

theorem upload_url_runs_twice:
  assumes "require_admin (cx_sha256 cx) (cx_hmac cx) (cx_now cx) (cx_tok cx) (cx_settings cx) r (ig_db g) = (Inr rl, d)"
    and "url_body body = Inr (url, filename)" and "startswith (lower url) ''http://''" and "length url \<le> 2048" and "validate_url_target resolve url = Inr ()"
    and "ig_queue g = Some q" and "\<not> q_stopped q" and "q_running q ''ingest_url'' < cap ''ingest_url''" and "\<not> has_queued ''ingest_url'' (q_rows q)"
  shows "\<exists>g' q'. upload_url cx resolve job_id r body g = (g', Inr (job_id, [(job_id, url, filename)]))
     \<and> ig_queue g' = Some q' \<and> (''ingest_url'', job_id, Some (dumps (url_payload url filename))) \<in> set (q_tasks q')"
proof -
  have k: "''ingest_url'' \<in> fst ` set KIND_CONCURRENCY" by (simp add: KIND_CONCURRENCY_def)
  have s: "startswith (lower url) ''http://'' \<or> startswith (lower url) ''https://''" using assms(3) ..
  have l: "\<not> 2048 < length url" using assms(4) by simp
  show ?thesis
    unfolding upload_url_def assms(1) assms(2) prod.case sum.case Let_def assms(5)
    using s l assms(6) submit_starts [OF k assms(7-9), where i = job_id and payload = "url_payload url filename" and now = "cx_now cx" and h = True]
    by simp
qed

lemma up_admin: "require_admin (cx_sha256 demo_up) (cx_hmac demo_up) (cx_now demo_up) (cx_tok demo_up) (cx_settings demo_up) up_request d = (Inr Admin, d)"
  by (simp add: require_admin_def whoami_def up_presented demo_up_def demo_cx_def constant_time_equal_def)

theorem upload_url_runs_twice_witness:
  "\<exists>g' q'. upload_url demo_up (\<lambda>h p. Some [h]) ''k'' up_request (Some (JObj [(''url'', JStr ''http://8.8.8.8/x'')])) demo_ing
      = (g', Inr (''k'', [(''k'', ''http://8.8.8.8/x'', None)]))
     \<and> ig_queue g' = Some q' \<and> (''ingest_url'', ''k'', Some (dumps (url_payload ''http://8.8.8.8/x'' None))) \<in> set (q_tasks q')"
proof -
  have a: "require_admin (cx_sha256 demo_up) (cx_hmac demo_up) (cx_now demo_up) (cx_tok demo_up) (cx_settings demo_up) up_request (ig_db demo_ing) = (Inr Admin, ig_db demo_ing)"
    by (rule up_admin)
  have b: "url_body (Some (JObj [(''url'', JStr ''http://8.8.8.8/x'')])) = Inr (''http://8.8.8.8/x'', None)" by code_simp
  have u: "startswith (lower ''http://8.8.8.8/x'') ''http://''" "length ''http://8.8.8.8/x'' \<le> 2048" by code_simp+
  have v: "validate_url_target (\<lambda>h p. Some [h]) ''http://8.8.8.8/x'' = Inr ()" by code_simp
  have q: "ig_queue demo_ing = Some (jq_init [])" "\<not> q_stopped (jq_init [])" "q_running (jq_init []) ''ingest_url'' < cap ''ingest_url''" "\<not> has_queued ''ingest_url'' (q_rows (jq_init []))"
    by (simp_all add: demo_ing_def jq_init_def has_queued_def cap_def KIND_CONCURRENCY_def)
  show ?thesis by (rule upload_url_runs_twice [OF a b u v q])
qed

lemma find_upd_row:
  assumes "\<And>j. j_id (f j) = j_id j"
  shows "find (\<lambda>j. j_id j = i) (upd_where (\<lambda>j. j_id j = i) f rows) = map_option f (find (\<lambda>j. j_id j = i) rows)"
  using assms by (induction rows) (auto simp: upd_where_def)

text \<open>Also: Once the table entry of a finished job is gone (a restart, or an hour), its status cannot be read any more: the
  durable row holds a decoded object, and decoding it again raises a TypeError.\<close>

theorem finished_status_breaks:
  assumes "require_admin (cx_sha256 cx) (cx_hmac cx) (cx_now cx) (cx_tok cx) (cx_settings cx) r (ig_db g) = (Inr rl, d)"
    and "map_of (ig_jobs g) i = None" and "find (\<lambda>j. j_id j = i) (q_rows q) = Some row" and "j_kind row = ''ingest_url''"
    and "ig_queue g = Some (jq_finish now i (Some (job_object obj_id fname n chunks sha_hex)) None q)"
  shows "snd (upload_url_status cx r i g) = Inl TypeError"
proof -
  let ?res = "job_object obj_id fname n chunks sha_hex"
  let ?row = "row\<lparr>j_state := ''done'', j_error := None, j_result := Some (dumps_uni ?res), j_finished_at := Some now\<rparr>"
  have w: "jwf ?res" by (simp add: job_object_def)
  have l: "loads (dumps_uni ?res) = Some ?res" by (rule loads_dumps(2) [OF w])
  have ne: "dumps_uni ?res \<noteq> []" by (simp add: job_object_def dumps_uni_def)
  have "find (\<lambda>j. j_id j = i) (q_rows (jq_finish now i (Some ?res) None q)) =
      map_option (\<lambda>r. r\<lparr>j_state := ''done'', j_error := None, j_result := Some (dumps_uni ?res), j_finished_at := Some now\<rparr>) (find (\<lambda>j. j_id j = i) (q_rows q))"
    unfolding jq_finish_def js_finish_def by (simp add: find_upd_row)
  then have fr: "find (\<lambda>j. j_id j = i) (q_rows (jq_finish now i (Some ?res) None q)) = Some ?row"
    unfolding assms(3) by simp
  have js: "js_get i (q_rows (jq_finish now i (Some ?res) None q)) = Some (?row, Some ?res)"
    unfolding js_get_def fr using ne l by simp
  have pj: "map_of (fst (prune_jobs (cx_now cx) (ig_jobs g))) i = None"
    using assms(2) by (auto simp: prune_jobs_def Let_def map_of_eq_None_iff)
  have k: "j_kind (fst (?row, Some ?res)) = ''ingest_url''" using assms(4) by simp
  have rs: "row_status (cx_now cx) (?row, Some ?res) = Inl TypeError"
    by (simp add: row_status_def job_object_def jtruthy_def)
  show ?thesis
    unfolding upload_url_status_def assms(1) prod.case sum.case Let_def using k rs by (simp add: pj assms(5) js)
qed

text \<open>Also: A transport error without a text (as a read timeout of the client has) makes the job an error in the table of
  jobs and done in the durable row.\<close>

theorem silent_error_recorded_done:
  assumes "validate_url_target (og_first og) url = Inr ()" and "og_hops og = []" and "og_broken og = Some (RuntimeError [])" and "map_of (ig_jobs g) i = Some j0"
    and "ig_queue g = Some q" and "jq_state q i = Some st"
  shows "\<exists>g' j q'. run_job cx store delete sha env po backend draws clock du og i url filename g = Some (g', Inr ())
    \<and> map_of (ig_jobs g') i = Some j \<and> uj_state j = ''error'' \<and> ig_queue g' = Some q' \<and> jq_state q' i = Some ''done''"
proof -
  have r: "origin_reply (cx_settings cx) url filename og = Inl (RuntimeError [])" unfolding origin_reply_def assms(1-3) by simp
  have "jq_state (jq_finish (cx_now cx) i None (Some []) q) i = Some ''done''"
    using assms(6) by (auto simp: jq_state_def jq_finish_def js_finish_def find_upd_row)
  then show ?thesis
    using assms(4,5) unfolding run_job_def r by (simp add: job_failed_def Let_def map_of_set_job)
qed

theorem silent_error_recorded_done_witness:
  "\<exists>g' j q'. run_job demo_up fakes_store fakes_delete (\<lambda>_. ''h'') (demo_env 1) None (Outside ''fake'') [0] 1 quiet
      ((demo_origin ''http://8.8.8.8/x'' [])\<lparr>og_hops := [], og_broken := Some (RuntimeError [])\<rparr>) ''j'' ''http://8.8.8.8/x'' None
      (demo_ing\<lparr>ig_queue := Some (jq_init (js_submit 1 ''j'' ''ingest_url'' JNull []))\<rparr>) = Some (g', Inr ())
    \<and> map_of (ig_jobs g') ''j'' = Some j \<and> uj_state j = ''error'' \<and> ig_queue g' = Some q' \<and> jq_state q' ''j'' = Some ''done''"
proof (rule silent_error_recorded_done)
  show "validate_url_target (og_first ((demo_origin ''http://8.8.8.8/x'' [])\<lparr>og_hops := [], og_broken := Some (RuntimeError [])\<rparr>)) ''http://8.8.8.8/x'' = Inr ()"
    by code_simp
  show "jq_state (jq_init (js_submit 1 ''j'' ''ingest_url'' JNull [])) ''j'' = Some ''queued''"
    by (simp add: jq_state_def jq_init_def js_submit_def del_where_def)
qed (simp_all add: demo_ing_def)

theorem finished_status_breaks_witness:
  "snd (upload_url_status demo_up up_request ''j'' (demo_ing\<lparr>ig_jobs := [],
     ig_queue := Some (jq_finish 3 ''j'' (Some (job_object ''o'' ''f'' 2 1 ''h'')) None (jq_init (js_submit 1 ''j'' ''ingest_url'' JNull [])))\<rparr>)) = Inl TypeError"
proof (rule finished_status_breaks)
  show "find (\<lambda>j. j_id j = ''j'') (q_rows (jq_init (js_submit 1 ''j'' ''ingest_url'' JNull []))) = Some (hd (js_submit 1 ''j'' ''ingest_url'' JNull []))"
    by (simp add: jq_init_def js_submit_def del_where_def)
  show "j_kind (hd (js_submit 1 ''j'' ''ingest_url'' JNull [])) = ''ingest_url''" by (simp add: js_submit_def del_where_def)
qed (rule up_admin | simp)+

end
