(* ===== verification/Harvester.thy ===== *)
theory Harvester
  imports Auth Objects
begin

text \<open>
  The harvester of Bot API file ids, \<^verbatim>\<open>src/src/anbar/storage/bot_harvester.py\<close>, and the webhook that feeds it,
  \<^verbatim>\<open>src/src/anbar/api/tg_webhook.py\<close>. What \<^verbatim>\<open>getUpdates\<close> answers and which updates arrive while a lookup
  waits are arguments; file ids stay JSON values, as the code keeps whatever the update holds.
\<close>

section \<open>Updates\<close>

text \<open>\<^verbatim>\<open>d.get(k)\<close> on a JSON value; anything but an object has no \<^verbatim>\<open>get\<close>.\<close>

definition j_get :: "json \<Rightarrow> string \<Rightarrow> json option res" where
  "j_get v k = (case v of JObj kvs \<Rightarrow> Inr (map_of kvs k) | _ \<Rightarrow> Inl TypeError)"

definition falsy :: "json option \<Rightarrow> bool" where
  "falsy v = (case v of None \<Rightarrow> True | Some j \<Rightarrow> \<not> jtruthy j)"

text \<open>\<^verbatim>\<open>"file_id" in v and v["file_id"]\<close>: the value, if any.\<close>

definition file_id_in :: "json \<Rightarrow> json option res" where
  "file_id_in v =
     (case v of
        JObj kvs \<Rightarrow> Inr (map_of kvs ''file_id'')
      | JList vs \<Rightarrow> if JStr ''file_id'' \<in> set vs then Inl TypeError else Inr None
      | JStr s \<Rightarrow> if contains_str ''file_id'' s then Inl TypeError else Inr None
      | _ \<Rightarrow> Inl TypeError)"

text \<open>Only whole numbers are compared or converted: \<^verbatim>\<open>update_id\<close> is one in every update.\<close>

definition whole :: "json \<Rightarrow> int res" where
  "whole v = (case v of JInt i \<Rightarrow> Inr i | JBool b \<Rightarrow> Inr (if b then 1 else 0) | _ \<Rightarrow> Inl TypeError)"

(* src: src/src/anbar/storage/bot_harvester.py 66-69 BotHarvester._extract_file_id *)
fun first_file_id :: "string list \<Rightarrow> (string \<times> json) list \<Rightarrow> json option res" where
  "first_file_id [] msg = Inr None"
| "first_file_id (k # ks) msg =
     (case map_of msg k of
        None \<Rightarrow> first_file_id ks msg
      | Some v \<Rightarrow> rbind (file_id_in v) (\<lambda>f. case f of None \<Rightarrow> first_file_id ks msg | Some f \<Rightarrow> Inr (Some f)))"

(* src: src/src/anbar/storage/bot_harvester.py auto BotHarvester._extract_file_id *)
definition extract_file_id :: "(string \<times> json) list \<Rightarrow> (int \<times> json) option res" where
  "extract_file_id msg =
     (if falsy (map_of msg ''message_id'') then Inr None
      else rbind (first_file_id [''document'', ''video'', ''audio'', ''animation''] msg) (\<lambda>f.
        case f of None \<Rightarrow> Inr None | Some f \<Rightarrow> rbind (json_int (the (map_of msg ''message_id''))) (\<lambda>i. Inr (Some (i, f)))))"

section \<open>The harvester\<close>

text \<open>The files harvested, the lookups waiting (and whether their event is set), and the offset.\<close>

(* src: src/src/anbar/storage/bot_harvester.py 34-39 BotHarvester.__init__ *)
record harvester =
  hv_files :: "int \<rightharpoonup> json"
  hv_waiting :: "int \<rightharpoonup> bool"
  hv_offset :: int

(* src: src/src/anbar/storage/bot_harvester.py 39-43 BotHarvester.__init__ *)
definition harvester_init :: "db option \<Rightarrow> harvester" where
  "harvester_init db' =
     \<lparr>hv_files = Map.empty, hv_waiting = Map.empty,
      hv_offset = (case db' of None \<Rightarrow> 0
        | Some d \<Rightarrow> (case kv_get d ''bot_harvester_offset'' of
            Some s \<Rightarrow> if s \<noteq> [] \<and> isdigit s then the (py_int s) else 0 | None \<Rightarrow> 0))\<rparr>"

type_synonym hstate = "harvester \<times> db option"

(* src: src/src/anbar/storage/bot_harvester.py 73-76 BotHarvester._process_update *)
definition advance_offset :: "int \<Rightarrow> hstate \<Rightarrow> hstate" where
  "advance_offset u s =
     (case s of (h, db') \<Rightarrow>
        if u \<ge> hv_offset h then (h\<lparr>hv_offset := u + 1\<rparr>, map_option (kv_set ''bot_harvester_offset'' (str_of_int (u + 1))) db') else s)"

(* src: src/src/anbar/storage/bot_harvester.py 86-92 BotHarvester._process_update *)
definition capture :: "int \<Rightarrow> json \<Rightarrow> harvester \<Rightarrow> harvester" where
  "capture mid fid h =
     h\<lparr>hv_files := (hv_files h)(mid \<mapsto> fid), hv_waiting := (if hv_waiting h mid = None then hv_waiting h else (hv_waiting h)(mid \<mapsto> True))\<rparr>"

text \<open>The message id and file of the post of a channel or else of the message; the chat is read for the log only.\<close>

(* src: src/src/anbar/storage/bot_harvester.py 78-88 BotHarvester._process_update *)
definition harvested :: "json \<Rightarrow> (int \<times> json) option res" where
  "harvested update =
     rbind (rbind (j_get update ''channel_post'') (\<lambda>c. if falsy c then j_get update ''message'' else Inr c)) (\<lambda>m.
       if falsy m then Inr None
       else rbind (rbind (j_get (the m) ''chat'') (\<lambda>c. case c of None \<Rightarrow> Inr None | Some chat \<Rightarrow> j_get chat ''id'')) (\<lambda>_.
         extract_file_id (case the m of JObj kvs \<Rightarrow> kvs | _ \<Rightarrow> [])))"

(* src: src/src/anbar/storage/bot_harvester.py auto BotHarvester._process_update *)
definition process_update :: "json \<Rightarrow> hstate \<Rightarrow> hstate \<times> unit res" where
  "process_update update s =
     (case rbind (j_get update ''update_id'') (\<lambda>u. case u of None \<Rightarrow> Inr 0 | Some v \<Rightarrow> whole v) of
        Inl e \<Rightarrow> (s, Inl e)
      | Inr u \<Rightarrow>
          let s = advance_offset u s in
          (case harvested update of
             Inl e \<Rightarrow> (s, Inl e)
           | Inr None \<Rightarrow> (s, Inr ())
           | Inr (Some (mid, fid)) \<Rightarrow> ((capture mid fid (fst s), snd s), Inr ())))"

text \<open>The loop over the updates of one answer stops at the first that raises.\<close>

(* src: src/src/anbar/storage/bot_harvester.py 109-110 BotHarvester.poll_once *)
fun process_all :: "json list \<Rightarrow> hstate \<Rightarrow> hstate \<times> unit res" where
  "process_all [] s = (s, Inr ())"
| "process_all (u # us) s = (case process_update u s of (s, Inl e) \<Rightarrow> (s, Inl e) | (s, Inr _) \<Rightarrow> process_all us s)"

text \<open>An answer: status and body; \<open>None\<close>: the request or the decoding raised.\<close>

type_synonym tg_answer = "(int \<times> json) option"

definition updates_of :: "json \<Rightarrow> json list res" where
  "updates_of data =
     rbind (j_get data ''ok'') (\<lambda>ok. if falsy ok then Inr []
       else rbind (j_get data ''result'') (\<lambda>r. case r of None \<Rightarrow> Inr [] | Some v \<Rightarrow> as_list v))"

(* src: src/src/anbar/storage/bot_harvester.py auto BotHarvester.poll_once *)
definition poll_once :: "tg_answer \<Rightarrow> hstate \<Rightarrow> hstate \<times> nat" where
  "poll_once ans s =
     (case ans of
        None \<Rightarrow> (s, 0)
      | Some (status, data) \<Rightarrow>
          if status \<noteq> 200 then (s, 0)
          else (case updates_of data of
             Inl _ \<Rightarrow> (s, 0)
           | Inr us \<Rightarrow> (case process_all us s of (s, Inl _) \<Rightarrow> (s, 0) | (s, Inr _) \<Rightarrow> (s, length us))))"

text \<open>One round of the loop and the tenths of a second it sleeps.\<close>

(* src: src/src/anbar/storage/bot_harvester.py 118-143 BotHarvester._poll_loop *)
definition poll_round :: "tg_answer \<Rightarrow> hstate \<Rightarrow> hstate \<times> nat" where
  "poll_round ans s =
     (case ans of
        None \<Rightarrow> (s, 20)
      | Some (status, data) \<Rightarrow>
          if status = 200 then
            (case updates_of data of
               Inl _ \<Rightarrow> (s, 20)
             | Inr us \<Rightarrow> (case process_all us s of (s, Inl _) \<Rightarrow> (s, 20) | (s, Inr _) \<Rightarrow> (s, 1)))
          else if status = 409 then (s, 300) else (s, 10))"

text \<open>\<open>arrivals\<close>: the updates others process until the event is set or the wait ends.\<close>

(* src: src/src/anbar/storage/bot_harvester.py auto BotHarvester.get_file_id_for_message *)
definition get_file_id_for_message :: "tg_answer \<Rightarrow> json list \<Rightarrow> int \<Rightarrow> hstate \<Rightarrow> hstate \<times> json option" where
  "get_file_id_for_message ans arrivals mid s =
     (case s of (h, db') \<Rightarrow>
      if hv_files h mid \<noteq> None then (s, hv_files h mid)
      else
        let s = (h\<lparr>hv_waiting := (hv_waiting h)(mid \<mapsto> False)\<rparr>, db');
            (s, _) = poll_once ans s;
            drop_event = (\<lambda>(h, db'). (h\<lparr>hv_waiting := (hv_waiting h)(mid := None)\<rparr>, db'))
        in if hv_files (fst s) mid \<noteq> None then (drop_event s, hv_files (fst s) mid)
           else let s = fold (\<lambda>u s. fst (process_update u s)) arrivals s
                in (drop_event s, if hv_waiting (fst s) mid = Some True then hv_files (fst s) mid else None))"

section \<open>The webhook\<close>

(* src: src/src/anbar/api/tg_webhook.py 59-66 telegram_webhook *)
definition webhook_allowed :: "settings \<Rightarrow> db \<Rightarrow> int set" where
  "webhook_allowed st d =
     owner_tg_ids st \<union>
     (case kv_get d ''cfg_tg_owner_ids'' of
        None \<Rightarrow> {}
      | Some s \<Rightarrow> if s = [] then {} else set (map (\<lambda>p. the (py_int p)) (filter isdigit (map strip (split_on (CHR '','') s)))))"

(* src: src/src/anbar/api/tg_webhook.py 54-55 telegram_webhook *)
definition hook_sender :: "(string \<times> json) list \<Rightarrow> json option res" where
  "hook_sender msg = (case map_of msg ''from'' of None \<Rightarrow> Inr None | Some sender \<Rightarrow> j_get sender ''id'')"

text \<open>\<^verbatim>\<open>sender_id in allowed_ids\<close>: a list or an object cannot be looked up in a set.\<close>

(* src: src/src/anbar/api/tg_webhook.py 69-71 telegram_webhook *)
definition hook_allowed :: "json option \<Rightarrow> int set \<Rightarrow> bool res" where
  "hook_allowed i ids =
     (if ids = {} \<or> falsy i then Inr False
      else (case the i of JList _ \<Rightarrow> Inl TypeError | JObj _ \<Rightarrow> Inl TypeError
            | v \<Rightarrow> Inr (case whole v of Inr n \<Rightarrow> n \<in> ids | Inl _ \<Rightarrow> False)))"

datatype hook_reply = Ignored | Unauthorized | Enqueued "(string \<times> json) list"

text \<open>\<open>body\<close>: \<open>None\<close> when it is not JSON. A message that is accepted is handed to the ingest.\<close>

(* src: src/src/anbar/api/tg_webhook.py auto telegram_webhook *)
definition telegram_webhook :: "(string \<Rightarrow> string \<Rightarrow> string) \<Rightarrow> settings \<Rightarrow> request \<Rightarrow> json option \<Rightarrow> harvester option \<times> db
    \<Rightarrow> (harvester option \<times> db) \<times> hook_reply res" where
  "telegram_webhook hmac st r body s =
     (case compare_digest (header r ''x-telegram-bot-api-secret-token'') (effective_webhook_secret hmac st (Some (snd s))) of
        Inl e \<Rightarrow> (s, Inl e)
      | Inr False \<Rightarrow> (s, Inl (HTTPException 403 ''Invalid webhook secret token''))
      | Inr True \<Rightarrow>
          (case body of
             None \<Rightarrow> (s, Inl (HTTPException 400 ''Invalid JSON payload''))
           | Some update \<Rightarrow>
               let s = (case s of
                     (None, d) \<Rightarrow> s
                   | (Some h, d) \<Rightarrow> (case fst (process_update update (h, Some d)) of (h, db') \<Rightarrow> (Some h, the db')))
               in (case j_get update ''message'' of
                  Inl e \<Rightarrow> (s, Inl e)
                | Inr (Some (JObj (m # ms))) \<Rightarrow>
                    (case rbind (hook_sender (m # ms)) (\<lambda>i. hook_allowed i (webhook_allowed st (snd s))) of
                       Inl e \<Rightarrow> (s, Inl e)
                     | Inr ok \<Rightarrow> (s, Inr (if ok then Enqueued (m # ms) else Unauthorized)))
                | _ \<Rightarrow> (s, Inr Ignored))))"

section \<open>The offset\<close>

text \<open>The stored offset is the one in memory; none is stored while it is 0.\<close>

definition offset_saved :: "hstate \<Rightarrow> bool" where
  "offset_saved s = (case s of (h, db') \<Rightarrow> 0 \<le> hv_offset h \<and>
     (case db' of None \<Rightarrow> True | Some d \<Rightarrow> kv_get d ''bot_harvester_offset'' = (if hv_offset h = 0 then None else Some (str_of_int (hv_offset h)))))"

lemma advance_saved: "offset_saved s \<Longrightarrow> offset_saved (advance_offset u s) \<and> hv_offset (fst s) \<le> hv_offset (fst (advance_offset u s))"
  by (auto simp: offset_saved_def advance_offset_def kv_simps split: prod.splits option.splits)

lemma capture_offset [simp]: "hv_offset (capture m f h) = hv_offset h"
  by (simp add: capture_def)

lemma capture_saved: "offset_saved (capture m f (fst s), snd s) = offset_saved s"
  by (cases s) (simp add: offset_saved_def split: option.split)

lemma process_saved:
  assumes "offset_saved s"
  shows "offset_saved (fst (process_update v s)) \<and> hv_offset (fst s) \<le> hv_offset (fst (fst (process_update v s)))"
proof (cases "rbind (j_get v ''update_id'') (\<lambda>u. case u of None \<Rightarrow> Inr 0 | Some v \<Rightarrow> whole v)")
  case (Inl e)
  with assms show ?thesis by (simp add: process_update_def)
next
  case (Inr u)
  have "fst (process_update v s) = advance_offset u s \<or>
      (\<exists>m f. fst (process_update v s) = (capture m f (fst (advance_offset u s)), snd (advance_offset u s)))"
    unfolding process_update_def Inr Let_def
    by (cases "harvested v") (auto split: option.split)
  with advance_saved [OF assms, of u] show ?thesis
    by (elim disjE exE) (simp_all add: capture_saved)
qed

lemma process_all_saved:
  "offset_saved s \<Longrightarrow> offset_saved (fst (process_all us s)) \<and> hv_offset (fst s) \<le> hv_offset (fst (fst (process_all us s)))"
proof (induction us arbitrary: s)
  case (Cons u us)
  note p = process_saved [OF Cons.prems, of u]
  then show ?case using Cons.IH [of "fst (process_update u s)"] by (auto split: prod.split sum.split)
qed simp

lemma restart_offset: "offset_saved (h, Some d) \<Longrightarrow> hv_offset (harvester_init (Some d)) = hv_offset h"
proof -
  assume s: "offset_saved (h, Some d)"
  then have "hv_offset h \<noteq> 0 \<Longrightarrow> str_of_int (hv_offset h) = str_of_nat (nat (hv_offset h))" by (simp add: offset_saved_def str_of_int_def)
  moreover have "isdigit (str_of_nat n)" "py_int (str_of_nat n) = Some (int n)" for n by (simp_all add: isdigit_def py_int_str_of_nat)
  ultimately show ?thesis using s by (auto simp: harvester_init_def offset_saved_def split: if_splits)
qed

text \<open>Also: Whatever an answer of getUpdates holds, the offset never goes back, and a harvester started on the store
  afterwards resumes exactly there.\<close>

theorem offset_resumes:
  assumes "offset_saved (h, Some d)" and "poll_once ans (h, Some d) = ((h', Some d'), n)"
  shows "hv_offset h \<le> hv_offset h' \<and> hv_offset (harvester_init (Some d')) = hv_offset h'"
proof -
  have "offset_saved (h', Some d') \<and> hv_offset h \<le> hv_offset h'"
  proof (cases "\<exists>data us. ans = Some (200, data) \<and> updates_of data = Inr us")
    case True
    then obtain data us where u: "ans = Some (200, data)" "updates_of data = Inr us" by blast
    obtain s x where p: "process_all us (h, Some d) = (s, x)" by (rule prod.exhaust)
    have "s = (h', Some d')" using assms(2) u p by (cases x) (auto simp: poll_once_def)
    with process_all_saved [OF assms(1), of us] p show ?thesis by simp
  next
    case False
    then have "(h', Some d') = (h, Some d)" using assms(2) by (auto simp: poll_once_def split: option.splits prod.splits if_splits sum.splits)
    with assms(1) show ?thesis by simp
  qed
  with restart_offset show ?thesis by blast
qed

definition demo_update :: "int \<Rightarrow> int \<Rightarrow> int \<Rightarrow> string \<Rightarrow> json" where
  "demo_update u sender mid fid = JObj [(''update_id'', JInt u), (''message'', JObj [(''message_id'', JInt mid), (''from'', JObj [(''id'', JInt sender)]),
     (''chat'', JObj [(''id'', JInt sender)]), (''document'', JObj [(''file_id'', JStr fid)])])]"

lemma offset_resumes_witness:
  "hv_offset (harvester_init (snd (fst (poll_once (Some (200, JObj [(''ok'', JBool True), (''result'', JList [demo_update 41 7 3 ''f''])]))
      (harvester_init (Some db_empty), Some db_empty))))) = 42"
proof -
  let ?ans = "Some (200, JObj [(''ok'', JBool True), (''result'', JList [demo_update 41 7 3 ''f''])])"
  have s: "offset_saved (harvester_init (Some db_empty), Some db_empty)"
    by (simp add: offset_saved_def harvester_init_def kv_get_def db_empty_def)
  have p: "poll_once ?ans (harvester_init (Some db_empty), Some db_empty) =
      (((harvester_init (Some db_empty))\<lparr>hv_files := [3 \<mapsto> JStr ''f''], hv_offset := 42\<rparr>, Some (kv_set ''bot_harvester_offset'' (str_of_int 42) db_empty)), 1)"
    by (simp add: poll_once_def updates_of_def j_get_def falsy_def jtruthy_def as_list_def process_update_def harvested_def demo_update_def whole_def
        extract_file_id_def file_id_in_def json_int_def advance_offset_def capture_def harvester_init_def)
       (simp add: kv_get_def db_empty_def)
  from offset_resumes [OF s p] show ?thesis unfolding p by simp
qed

section \<open>Who reaches the ingest, and who the harvester\<close>

text \<open>Also: The webhook hands a message to the ingest only for a request that carries the secret and a sender who is an
  owner or listed in the store.\<close>

theorem webhook_serves_owners:
  assumes "telegram_webhook hmac st r body (ho, d) = (s', Inr (Enqueued msg))"
  shows "header r ''x-telegram-bot-api-secret-token'' = effective_webhook_secret hmac st (Some d) \<and>
    (\<exists>sender n. map_of msg ''from'' = Some sender \<and> j_get sender ''id'' = Inr (Some n) \<and> (\<exists>i \<in> webhook_allowed st (snd s'). whole n = Inr i))"
proof (intro conjI)
  have c: "compare_digest (header r ''x-telegram-bot-api-secret-token'') (effective_webhook_secret hmac st (Some d)) = Inr True"
  proof (cases "compare_digest (header r ''x-telegram-bot-api-secret-token'') (effective_webhook_secret hmac st (Some d))")
    case (Inr ok)
    with assms show ?thesis by (cases ok) (simp_all add: telegram_webhook_def)
  qed (use assms in \<open>simp add: telegram_webhook_def\<close>)
  then show "header r ''x-telegram-bot-api-secret-token'' = effective_webhook_secret hmac st (Some d)"
    by (simp add: compare_digest_def split: if_splits)
  have ids: "\<exists>sender n. map_of msg ''from'' = Some sender \<and> j_get sender ''id'' = Inr (Some n) \<and> (\<exists>i \<in> ids. whole n = Inr i)"
    if "rbind (hook_sender msg) (\<lambda>i. hook_allowed i ids) = Inr True" for msg ids
  proof -
    from that obtain i where i: "hook_sender msg = Inr i" "hook_allowed i ids = Inr True" by (rule rbind_InrE)
    then obtain n where n: "i = Some n" by (cases i) (auto simp: hook_allowed_def falsy_def split: if_splits)
    with i obtain sender where s: "map_of msg ''from'' = Some sender" "j_get sender ''id'' = Inr (Some n)"
      by (auto simp: hook_sender_def split: option.splits)
    have "\<exists>i \<in> ids. whole n = Inr i" using i(2) n by (auto simp: hook_allowed_def split: if_splits json.splits sum.splits)
    with s show ?thesis by blast
  qed
  show "\<exists>sender n. map_of msg ''from'' = Some sender \<and> j_get sender ''id'' = Inr (Some n) \<and> (\<exists>i \<in> webhook_allowed st (snd s'). whole n = Inr i)"
    using assms unfolding telegram_webhook_def prod.sel c sum.case bool.case Let_def
    by (intro ids) (auto split: option.splits sum.splits json.splits list.splits prod.splits if_splits)
qed

text \<open>Also: The harvester takes what the owner check refuses: a message anyone sends to the bot replaces the file id
  recorded for the message of the channel that has the same number, though the webhook answers unauthorized.\<close>

theorem foreign_message_harvested:
  assumes "header r ''x-telegram-bot-api-secret-token'' = effective_webhook_secret hmac st (Some d)"
    and "list_all (\<lambda>c. code c < 128) (effective_webhook_secret hmac st (Some d))"
    and "sender \<notin> webhook_allowed st d" and "mid \<noteq> 0"
  shows "\<exists>h' d'. telegram_webhook hmac st r (Some (demo_update u sender mid fid)) (Some h, d) = ((Some h', d'), Inr Unauthorized)
    \<and> hv_files h' mid = Some (JStr fid)"
proof -
  have c: "compare_digest (header r ''x-telegram-bot-api-secret-token'') (effective_webhook_secret hmac st (Some d)) = Inr True"
    using assms(1,2) by (simp add: compare_digest_def)
  have g: "harvested (demo_update u sender mid fid) = Inr (Some (mid, JStr fid))"
    using assms(4) by (simp add: harvested_def demo_update_def j_get_def falsy_def jtruthy_def extract_file_id_def file_id_in_def json_int_def)
  have i: "rbind (j_get (demo_update u sender mid fid) ''update_id'') (\<lambda>u. case u of None \<Rightarrow> Inr 0 | Some v \<Rightarrow> whole v) = Inr u"
    by (simp add: demo_update_def j_get_def whole_def)
  obtain h1 d1 where a: "advance_offset u (h, Some d) = (h1, Some d1)" "webhook_allowed st d1 = webhook_allowed st d"
    by (cases "u \<ge> hv_offset h") (auto simp: advance_offset_def webhook_allowed_def kv_simps)
  have p: "process_update (demo_update u sender mid fid) (h, Some d) = ((capture mid (JStr fid) h1, Some d1), Inr ())"
    unfolding process_update_def i g by (simp add: a(1))
  have m: "j_get (demo_update u sender mid fid) ''message'' = Inr (Some (JObj [(''message_id'', JInt mid), (''from'', JObj [(''id'', JInt sender)]),
     (''chat'', JObj [(''id'', JInt sender)]), (''document'', JObj [(''file_id'', JStr fid)])]))" by (simp add: demo_update_def j_get_def)
  have "sender \<notin> webhook_allowed st d1" using assms(3) a(2) by simp
  then have "telegram_webhook hmac st r (Some (demo_update u sender mid fid)) (Some h, d) = ((Some (capture mid (JStr fid) h1), d1), Inr Unauthorized)"
    unfolding telegram_webhook_def prod.sel c sum.case bool.case option.case Let_def prod.case p m
    by (simp add: hook_sender_def j_get_def hook_allowed_def whole_def)
  then show ?thesis by (simp add: capture_def)
qed

definition demo_hook_request :: request where
  "demo_hook_request = \<lparr>rq_peer = None, rq_headers = [(''x-telegram-bot-api-secret-token'', ''own'')], rq_query = []\<rparr>"

definition demo_hook_settings :: settings where
  "demo_hook_settings = default_settings\<lparr>s_tg_webhook_secret := Some ''own'', s_owner_tg_id := Some 7\<rparr>"

lemma demo_hook_secret: "effective_webhook_secret hmac demo_hook_settings (Some d) = ''own''"
  by (simp add: effective_webhook_secret_def demo_hook_settings_def strip_by_def lstrip_by_def rstrip_by_def is_space_def code_def)

lemma foreign_message_harvested_witness:
  "\<exists>h' d'. telegram_webhook toy_mac demo_hook_settings demo_hook_request (Some (demo_update 1 8 3 ''evil'')) (Some (harvester_init None), db_empty)
      = ((Some h', d'), Inr Unauthorized) \<and> hv_files h' 3 = Some (JStr ''evil'')"
proof (rule foreign_message_harvested)
  show "header demo_hook_request ''x-telegram-bot-api-secret-token'' = effective_webhook_secret toy_mac demo_hook_settings (Some db_empty)"
    by (simp add: demo_hook_secret demo_hook_request_def header_def)
  show "list_all (\<lambda>c. code c < 128) (effective_webhook_secret toy_mac demo_hook_settings (Some db_empty))"
    by (simp add: demo_hook_secret code_def)
  show "8 \<notin> webhook_allowed demo_hook_settings db_empty"
    by (simp add: webhook_allowed_def demo_hook_settings_def owner_tg_ids_def miniapp_allowed_users_def default_settings_def kv_get_def db_empty_def)
qed simp

lemma webhook_serves_owners_witness:
  "header demo_hook_request ''x-telegram-bot-api-secret-token'' = effective_webhook_secret toy_mac demo_hook_settings (Some db_empty)"
proof -
  have m: "7 \<in> webhook_allowed demo_hook_settings db_empty" by (simp add: webhook_allowed_def demo_hook_settings_def owner_tg_ids_def)
  then have ne: "webhook_allowed demo_hook_settings db_empty \<noteq> {}" by blast
  have "\<exists>s' msg. telegram_webhook toy_mac demo_hook_settings demo_hook_request (Some (demo_update 1 7 3 ''f'')) (None, db_empty) = (s', Inr (Enqueued msg))"
    using m ne by (simp add: Let_def telegram_webhook_def demo_hook_secret demo_hook_request_def header_def compare_digest_def code_def demo_update_def j_get_def falsy_def jtruthy_def hook_sender_def hook_allowed_def whole_def)
  with webhook_serves_owners show ?thesis by blast
qed

end
