(* ===== verification/WebUi.thy ===== *)
theory WebUi
  imports Access SubsImport
begin

text \<open>
  The web session routes of \<^verbatim>\<open>src/src/anbar/api/web.py\<close>: login with the admin key, logout, who am I, and the
  exchange of Telegram init data for a session. The keyed hash of the init data is an argument; the
  random tag of a cookie too. The pages themselves are files.
\<close>

section \<open>Cookies\<close>

text \<open>The scheme of the connection comes with the request.\<close>

(* src: src/src/anbar/api/web.py auto _is_https *)
definition is_https :: "bool \<Rightarrow> request \<Rightarrow> bool" where
  "is_https tls r = (lower (header r ''x-forwarded-proto'') = ''https'' \<or> tls)"

text \<open>All cookies are http-only and lax; \<open>None\<close> as value deletes the cookie.\<close>

(* src: src/src/anbar/api/web.py 38-49 _set_session *)
record cookie =
  ck_value :: "string option"
  ck_max_age :: int
  ck_secure :: bool

(* src: src/src/anbar/api/web.py auto _set_session *)
definition set_session :: "bool \<Rightarrow> request \<Rightarrow> string option \<Rightarrow> int \<Rightarrow> cookie" where
  "set_session tls r v max_age =
     (if truthy_str v then \<lparr>ck_value = v, ck_max_age = max_age, ck_secure = is_https tls r\<rparr>
      else \<lparr>ck_value = None, ck_max_age = 0, ck_secure = is_https tls r\<rparr>)"

section \<open>Login\<close>

text \<open>\<^verbatim>\<open>(body or {}).get(key, "")\<close> of a body that must be an object.\<close>

(* src: src/src/anbar/api/web.py 59-65 login *)
definition body_field :: "string \<Rightarrow> string \<Rightarrow> json option \<Rightarrow> json res" where
  "body_field detail k body =
     (case body of
        Some (JObj kvs) \<Rightarrow> Inr (case map_of kvs k of None \<Rightarrow> JStr [] | Some v \<Rightarrow> v)
      | _ \<Rightarrow> Inl (HTTPException 400 detail))"

(* src: src/src/anbar/api/web.py 66-68 login *)
definition admin_key_given :: "settings \<Rightarrow> json \<Rightarrow> bool res" where
  "admin_key_given st key =
     (if \<not> truthy_str (s_admin_key st) \<or> \<not> jtruthy key then Inr False
      else (case key of JStr k \<Rightarrow> Inr (constant_time_equal (Some k) (s_admin_key st)) | _ \<Rightarrow> Inl TypeError))"

text \<open>The time to live: the runtime key the code reads is not the one the settings page writes.\<close>

(* src: src/src/anbar/api/web.py 69-69 login *)
definition session_ttl :: "ctx \<Rightarrow> db \<Rightarrow> int" where
  "session_ttl cx d = get_int_setting d ''session_ttl'' (s_web_session_ttl (cx_settings cx))"

(* src: src/src/anbar/api/web.py 71-73 login *)
definition admin_cookie :: "ctx \<Rightarrow> bool \<Rightarrow> string \<Rightarrow> request \<Rightarrow> db \<Rightarrow> cookie \<times> db" where
  "admin_cookie cx tls tag r d =
     (let ttl = session_ttl cx d; (v, d) = issue_session (cx_hmac cx) (cx_now cx) (cx_tok cx) tag ttl Admin d
      in (set_session tls r (Some v) ttl, d))"

definition login_limit :: "ctx \<Rightarrow> request \<Rightarrow> db \<Rightarrow> db \<times> unit res" where
  "login_limit cx r d = limit_login (cx_now cx) r (get_int_setting d ''rate_login'' (s_rate_login_per_min (cx_settings cx))) d"

(* src: src/src/anbar/api/web.py auto login *)
definition login :: "ctx \<Rightarrow> bool \<Rightarrow> string \<Rightarrow> request \<Rightarrow> json option \<Rightarrow> db \<Rightarrow> db \<times> cookie res" where
  "login cx tls tag r body d =
     (case login_limit cx r d of
        (d, Inl e) \<Rightarrow> (d, Inl e)
      | (d, Inr _) \<Rightarrow>
          (case rbind (body_field ''expected JSON {key}'' ''key'' body) (admin_key_given (cx_settings cx)) of
             Inl e \<Rightarrow> (d, Inl e)
           | Inr False \<Rightarrow> (d, Inl (HTTPException 401 ''invalid key''))
           | Inr True \<Rightarrow>
               let (d, _) = log_audit (cx_now cx) ''auth.login'' ''admin'' None (rq_peer r) DNone d;
                   (c, d) = admin_cookie cx tls tag r d
               in (d, Inr c)))"

(* src: src/src/anbar/api/web.py auto logout *)
definition logout :: "bool \<Rightarrow> request \<Rightarrow> cookie" where
  "logout tls r = set_session tls r None 0"

(* src: src/src/anbar/api/web.py auto me *)
definition me :: "ctx \<Rightarrow> request \<Rightarrow> db \<Rightarrow> db \<times> bool \<times> role" where
  "me cx r d = (case role_of cx r d of (role, d) \<Rightarrow> (d, role \<in> {Admin, Uploader}, role))"

section \<open>The mini app\<close>

text \<open>The id of the first \<open>user\<close> field; anything that does not decode counts as none.\<close>

(* src: src/src/anbar/api/web.py 131-138 miniapp_session *)
definition tg_user :: "string \<Rightarrow> json option" where
  "tg_user init_data =
     (case find (\<lambda>kv. fst kv = ''user'') (parse_qsl init_data) of
        None \<Rightarrow> None
      | Some (_, v) \<Rightarrow> (case loads v of
          Some (JObj kvs) \<Rightarrow> (case map_of kvs ''id'' of Some JNull \<Rightarrow> None | x \<Rightarrow> x) | _ \<Rightarrow> None))"

(* src: src/src/anbar/api/web.py 140-141 miniapp_session *)
definition miniapp_allowed :: "settings \<Rightarrow> json option \<Rightarrow> bool res" where
  "miniapp_allowed st u =
     (if miniapp_allowed_users st = {} then Inr True
      else (case u of
         Some (JInt i) \<Rightarrow> Inr (i \<in> miniapp_allowed_users st)
       | Some (JBool b) \<Rightarrow> Inr ((if b then 1 else 0) \<in> miniapp_allowed_users st)
       | Some (JList _) \<Rightarrow> Inl TypeError
       | Some (JObj _) \<Rightarrow> Inl TypeError
       | _ \<Rightarrow> Inr False))"

text \<open>The reply carries the cookie and the user id.\<close>

(* src: src/src/anbar/api/web.py auto miniapp_session *)
definition miniapp_session :: "ctx \<Rightarrow> (string \<Rightarrow> string \<Rightarrow> string) \<Rightarrow> bool \<Rightarrow> string \<Rightarrow> request \<Rightarrow> json option \<Rightarrow> db \<Rightarrow> db \<times> (cookie \<times> json option) res" where
  "miniapp_session cx hmac_raw tls tag r body d =
     (case login_limit cx r d of
        (d, Inl e) \<Rightarrow> (d, Inl e)
      | (d, Inr _) \<Rightarrow>
          (case body_field ''expected JSON {init_data}'' ''init_data'' body of
             Inl e \<Rightarrow> (d, Inl e)
           | Inr (JStr (c # cs)) \<Rightarrow>
               (let init_data = c # cs; tokens = bot_tokens (cx_settings cx);
                   actor = (\<lambda>dflt. case tg_user init_data of None \<Rightarrow> dflt | Some u \<Rightarrow> py_str u)
               in if tokens = [] then (d, Inl (HTTPException 503 ''no bot token configured''))
                  else if \<not> list_ex (\<lambda>t. verify_telegram_init_data (cx_hmac cx) hmac_raw (cx_now cx) init_data t 86400) tokens
                  then (fst (log_audit (cx_now cx) ''auth.miniapp_denied'' ''anon'' None (rq_peer r) DNone d), Inl (HTTPException 401 ''invalid initData''))
                  else (case miniapp_allowed (cx_settings cx) (tg_user init_data) of
                     Inl e \<Rightarrow> (d, Inl e)
                   | Inr False \<Rightarrow> (fst (log_audit (cx_now cx) ''auth.miniapp_denied_allowlist'' (actor ''anon'') None (rq_peer r) DNone d),
                       Inl (HTTPException 403 ''Telegram user not in miniapp allowlist''))
                   | Inr True \<Rightarrow>
                       let (d, _) = log_audit (cx_now cx) ''auth.miniapp'' (actor ''telegram-user'') None (rq_peer r) DNone d;
                           (ck, d) = admin_cookie cx tls tag r d
                       in (d, Inr (ck, tg_user init_data))))
           | Inr _ \<Rightarrow> (d, Inl (HTTPException 400 ''init_data required''))))"

section \<open>Who gets a session\<close>

text \<open>C25: A login answers with a cookie only for a body whose key is the configured admin key, which is not empty.\<close>

theorem login_needs_admin_key:
  assumes "login cx tls tag r body d = (d', Inr c)"
  shows "\<exists>kvs k. body = Some (JObj kvs) \<and> map_of kvs ''key'' = Some (JStr k) \<and> k \<noteq> [] \<and> s_admin_key (cx_settings cx) = Some k"
proof -
  obtain d1 where l: "login_limit cx r d = (d1, Inr ())"
    using assms by (cases "login_limit cx r d") (auto simp: login_def split: sum.splits)
  from assms have "rbind (body_field ''expected JSON {key}'' ''key'' body) (admin_key_given (cx_settings cx)) = Inr True"
    unfolding login_def l by (auto split: sum.splits bool.splits)
  then obtain key where k: "body_field ''expected JSON {key}'' ''key'' body = Inr key" "admin_key_given (cx_settings cx) key = Inr True"
    by (rule rbind_InrE)
  then obtain kvs where b: "body = Some (JObj kvs)" "key = (case map_of kvs ''key'' of None \<Rightarrow> JStr [] | Some v \<Rightarrow> v)"
    by (auto simp: body_field_def split: option.splits json.splits)
  from k(2) obtain s where "key = JStr s" "s \<noteq> []" "s_admin_key (cx_settings cx) = Some s"
    by (auto simp: admin_key_given_def constant_time_equal_def jtruthy_def truthy_str_def split: if_splits json.splits option.splits)
  with b show ?thesis by (auto split: option.splits)
qed

text \<open>A bot, a listed user and somebody's init data, signed by the toy hash.\<close>

definition demo_bot :: ctx where
  "demo_bot = demo_cx\<lparr>cx_settings := default_settings\<lparr>s_bot_token := Some ''1:a'', s_admin_key := Some ''adm'', s_miniapp_allowed_users_raw := Some ''42''\<rparr>\<rparr>"

definition demo_init :: string where
  "demo_init = ''auth_date=5&user=x&hash='' @ toy_mac (toy_mac ''WebAppData'' ''1:a'') (''auth_date=5'' @ [CHR 0x0A] @ ''user=x'')"

lemma demo_limit: "login_limit demo_bot demo_request db_empty = (fst (login_limit demo_bot demo_request db_empty), Inr ())"
proof -
  have "snd (login_limit demo_bot demo_request db_empty) = Inr ()" by code_simp
  then show ?thesis by (cases "login_limit demo_bot demo_request db_empty") simp
qed

lemma login_needs_admin_key_witness:
  "(\<exists>d c. login demo_bot True ''g'' demo_request (Some (JObj [(''key'', JStr ''adm'')])) db_empty = (d, Inr c)) \<and> s_admin_key (cx_settings demo_bot) = Some ''adm''"
proof -
  let ?l = "login demo_bot True ''g'' demo_request (Some (JObj [(''key'', JStr ''adm'')])) db_empty"
  have "rbind (body_field ''expected JSON {key}'' ''key'' (Some (JObj [(''key'', JStr ''adm'')]))) (admin_key_given (cx_settings demo_bot)) = Inr True"
    by (simp add: body_field_def admin_key_given_def demo_bot_def constant_time_equal_def truthy_str_def jtruthy_def)
  then have "\<exists>d c. ?l = (d, Inr c)" unfolding login_def by (subst demo_limit) (simp add: split_beta)
  then obtain d c where l: "?l = (d, Inr c)" by (elim exE)
  from login_needs_admin_key [OF l] have "s_admin_key (cx_settings demo_bot) = Some ''adm''" by auto
  with l show ?thesis by blast
qed

section \<open>The time to live of a session\<close>

text \<open>Also: The session time an admin sets is never used: no value of the setting changes the time to live of a new session.\<close>

theorem session_ttl_setting_ignored:
  "session_ttl cx (fst (set_int ''web_session_ttl'' v d)) = session_ttl cx d \<and> snd (set_int ''session_ttl'' v d) = Inl (KeyError ''session_ttl'')"
proof
  have ne: "cfg_key ''web_session_ttl'' \<noteq> cfg_key ''session_ttl''" by (simp add: cfg_key_def)
  show "session_ttl cx (fst (set_int ''web_session_ttl'' v d)) = session_ttl cx d"
    using ne by (simp add: session_ttl_def get_int_setting_def set_int_def kv_simps split: json.split option.split prod.split)
  show "snd (set_int ''session_ttl'' v d) = Inl (KeyError ''session_ttl'')" by (simp add: set_int_def SPEC_def)
qed

section \<open>The allowlist of the mini app\<close>

text \<open>A field given twice: the last one counts for the signature.\<close>

lemma py_dict_fold: "py_dict kvs = fold (\<lambda>p d. AList.update (fst p) (snd p) d) kvs []"
  by (simp add: py_dict_def case_prod_unfold)

lemma fold_update_map: "map_of (fold (\<lambda>p d. AList.update (fst p) (snd p) d) ps d) k = (map_of d ++ map_of (rev ps)) k"
  by (induction ps arbitrary: d) (auto simp: update_conv' map_add_def split: option.splits)

lemma fold_update_distinct: "distinct (map fst d) \<Longrightarrow> distinct (map fst (fold (\<lambda>p d. AList.update (fst p) (snd p) d) ps d))"
  by (induction ps arbitrary: d) (auto simp: distinct_update)

lemma py_dict_map: "map_of (py_dict ps) = map_of (rev ps)"
  by (auto simp: py_dict_fold fold_update_map fun_eq_iff)

lemma py_dict_distinct: "distinct (map fst (py_dict ps))"
  by (simp add: py_dict_fold fold_update_distinct)

lemma py_dict_repeated:
  assumes "k \<in> fst ` set ps" shows "map_of (py_dict ((k, v) # ps)) = map_of (py_dict ps)"
proof
  fix x
  have "x = k \<Longrightarrow> map_of (rev ps) x \<noteq> None" using assms by (simp add: map_of_eq_None_iff)
  then show "map_of (py_dict ((k, v) # ps)) x = map_of (py_dict ps) x"
    by (auto simp: py_dict_map map_add_def split: option.split)
qed

lemma alist_same_set:
  assumes "map_of xs = map_of ys" and "distinct (map fst xs)" and "distinct (map fst ys)"
  shows "mset xs = mset ys"
proof -
  have "set xs = set ys"
    using assms by (metis map_of_is_SomeI map_of_SomeD subrelI subset_antisym surj_pair subsetI)
  moreover have "distinct xs" "distinct ys" using assms by (simp_all add: distinct_map)
  ultimately show ?thesis by (simp add: set_eq_iff_mset_eq_distinct)
qed

lemma data_check_cong:
  assumes "map_of xs = map_of ys" and "distinct (map fst xs)" and "distinct (map fst ys)"
  shows "data_check_string xs = data_check_string ys"
proof -
  have "mset xs = mset ys" by (rule alist_same_set [OF assms])
  then have "sort_key fst xs = sort_key fst ys"
    using assms(2) by (intro sort_key_inj_key_eq) (simp_all add: distinct_map)
  then show ?thesis by (simp add: data_check_string_def)
qed

lemma verify_repeated:
  assumes "parse_qsl q' = (k, v) # parse_qsl q" and "k \<in> fst ` set (parse_qsl q)"
  shows "verify_telegram_init_data hmac hmac_raw now q' tok age = verify_telegram_init_data hmac hmac_raw now q tok age"
proof -
  let ?p = "py_dict (parse_qsl q')" and ?q = "py_dict (parse_qsl q)"
  have m: "map_of ?p = map_of ?q" unfolding assms(1) by (rule py_dict_repeated [OF assms(2)])
  have r: "map_of (AList.delete ''hash'' ?p) = map_of (AList.delete ''hash'' ?q)" by (simp add: delete_conv' m)
  have d: "data_check_string (AList.delete ''hash'' ?p) = data_check_string (AList.delete ''hash'' ?q)"
    by (rule data_check_cong [OF r]) (simp_all add: py_dict_distinct distinct_delete)
  show ?thesis unfolding verify_telegram_init_data_def Let_def m r d ..
qed

definition forged_user :: "int \<Rightarrow> string" where
  "forged_user n = ''user='' @ dumps_compact (JObj [(''id'', JInt n)])"

lemma unquote_plain: "CHR ''%'' \<notin> set s \<Longrightarrow> unquote s = s"
  by (induction s) auto

lemma unquote_plus_plain: "CHR ''%'' \<notin> set s \<Longrightarrow> CHR ''+'' \<notin> set s \<Longrightarrow> unquote_plus s = s"
proof -
  assume p: "CHR ''%'' \<notin> set s" and "CHR ''+'' \<notin> set s"
  then have "map (\<lambda>c. if c = CHR ''+'' then CHR '' '' else c) s = s" by (intro map_idI) auto
  then show ?thesis by (simp add: unquote_plus_def unquote_plain [OF p])
qed

lemma user_json: "dumps_compact (JObj [(''id'', JInt n)]) = ''{'' @ [CHR 0x22] @ ''id'' @ [CHR 0x22] @ '':'' @ str_of_int n @ ''}''"
  by (simp add: dumps_compact_def dumps_str_def esc_char_def code_def)

lemma user_json_chars: "c \<in> {CHR ''%'', CHR ''+'', CHR ''&'', CHR ''=''} \<Longrightarrow> c \<notin> set (dumps_compact (JObj [(''id'', JInt n)]))"
  unfolding user_json by (auto simp: str_of_int_def dest!: str_of_nat_digits' split: if_splits simp: is_digit_def code_def)

lemma parse_forged: "parse_qsl (forged_user n @ ''&'' @ q) = (''user'', dumps_compact (JObj [(''id'', JInt n)])) # parse_qsl q"
proof -
  let ?j = "dumps_compact (JObj [(''id'', JInt n)])"
  have a: "CHR ''&'' \<notin> set (forged_user n)" "forged_user n \<noteq> []" using user_json_chars [of "CHR ''&''" n] by (simp_all add: forged_user_def)
  have s: "split1 (CHR ''='') (forged_user n) = Some (''user'', ?j)" by (simp add: forged_user_def split1_def)
  have u: "unquote_plus ?j = ?j" using user_json_chars [of _ n] by (intro unquote_plus_plain) auto
  have w: "unquote_plus ''user'' = ''user''" by (intro unquote_plus_plain) auto
  show ?thesis
    unfolding parse_qsl_def using a split_on_join [OF a(1), of q] by (simp add: s u w)
qed

lemma forged_tg_user: "tg_user (forged_user n @ ''&'' @ q) = Some (JInt n)"
proof -
  have "loads (dumps_compact (JObj [(''id'', JInt n)])) = Some (JObj [(''id'', JInt n)])" by (rule loads_dumps) simp
  then show ?thesis unfolding tg_user_def parse_forged by simp
qed

text \<open>A request that passes every check.\<close>

lemma miniapp_admits:
  assumes "login_limit cx r d = (d1, Inr ())" and "q \<noteq> []" and "tok \<in> set (bot_tokens (cx_settings cx))"
    and "verify_telegram_init_data (cx_hmac cx) hmac_raw (cx_now cx) q tok 86400" and "miniapp_allowed (cx_settings cx) (tg_user q) = Inr True"
  shows "miniapp_session cx hmac_raw tls tag r (Some (JObj [(''init_data'', JStr q)])) d =
    (let (c, d') = admin_cookie cx tls tag r (fst (log_audit (cx_now cx) ''auth.miniapp''
          (case tg_user q of None \<Rightarrow> ''telegram-user'' | Some u \<Rightarrow> py_str u) None (rq_peer r) DNone d1))
     in (d', Inr (c, tg_user q)))"
proof -
  have v: "list_ex (\<lambda>t. verify_telegram_init_data (cx_hmac cx) hmac_raw (cx_now cx) q t 86400) (bot_tokens (cx_settings cx)) \<and> bot_tokens (cx_settings cx) \<noteq> []"
    using assms(3,4) by (auto simp: list_ex_iff)
  obtain c cs where q: "q = c # cs" using assms(2) by (cases q) auto
  have b: "body_field ''expected JSON {init_data}'' ''init_data'' (Some (JObj [(''init_data'', JStr q)])) = Inr (JStr (c # cs))"
    unfolding q by (simp add: body_field_def)
  show ?thesis
    unfolding miniapp_session_def assms(1) prod.case sum.case b json.case list.case Let_def
    using v assms(5) unfolding q by (simp add: split_beta)
qed

lemma demo_init_ok: "verify_telegram_init_data (cx_hmac demo_bot) toy_mac (cx_now demo_bot) demo_init ''1:a'' 86400 \<and> ''user'' \<in> fst ` set (parse_qsl demo_init) \<and> demo_init \<noteq> []
  \<and> ''1:a'' \<in> set (bot_tokens (cx_settings demo_bot)) \<and> 42 \<in> miniapp_allowed_users (cx_settings demo_bot)"
  by code_simp

text \<open>C15: The allowlist of the mini app can be passed by anyone with valid init data: with a forged user field put in front
  of it the signature still verifies, over the last field, while the allowlist reads the first, so a request
  with the id of a listed user is answered with an admin session.\<close>

theorem allowlist_bypassed:
  assumes "tok \<in> set (bot_tokens (cx_settings cx))" and "verify_telegram_init_data (cx_hmac cx) hmac_raw (cx_now cx) q tok 86400"
    and "''user'' \<in> fst ` set (parse_qsl q)" and "n \<in> miniapp_allowed_users (cx_settings cx)" and "login_limit cx r d = (d1, Inr ())"
  shows "\<exists>d' c. miniapp_session cx hmac_raw tls tag r (Some (JObj [(''init_data'', JStr (forged_user n @ ''&'' @ q))])) d = (d', Inr (c, Some (JInt n)))
    \<and> c = fst (admin_cookie cx tls tag r (fst (log_audit (cx_now cx) ''auth.miniapp'' (py_str (JInt n)) None (rq_peer r) DNone d1)))"
proof -
  let ?q = "forged_user n @ ''&'' @ q"
  have v: "verify_telegram_init_data (cx_hmac cx) hmac_raw (cx_now cx) ?q tok 86400"
    unfolding verify_repeated [OF parse_forged assms(3)] by (rule assms(2))
  have a: "miniapp_allowed (cx_settings cx) (tg_user ?q) = Inr True"
    unfolding forged_tg_user using assms(4) by (simp add: miniapp_allowed_def)
  have "?q \<noteq> []" by (simp add: forged_user_def)
  from miniapp_admits [OF assms(5) this assms(1) v a] show ?thesis unfolding forged_tg_user by (simp add: split_beta)
qed

lemma allowlist_bypassed_witness:
  "\<exists>d' c. miniapp_session demo_bot toy_mac True ''g'' demo_request (Some (JObj [(''init_data'', JStr (forged_user 42 @ ''&'' @ demo_init))])) db_empty
     = (d', Inr (c, Some (JInt 42)))"
  using allowlist_bypassed [of "''1:a''" demo_bot toy_mac demo_init 42 demo_request db_empty "fst (login_limit demo_bot demo_request db_empty)" True "''g''",
      OF _ _ _ _ demo_limit] demo_init_ok by blast

text \<open>Also: With no allowlist configured any Telegram user whose init data verifies gets an admin session.\<close>

theorem no_allowlist_admits_all:
  assumes "tok \<in> set (bot_tokens (cx_settings cx))" and "verify_telegram_init_data (cx_hmac cx) hmac_raw (cx_now cx) q tok 86400" and "q \<noteq> []"
    and "\<not> truthy_str (s_miniapp_allowed_users_raw (cx_settings cx))" and "login_limit cx r d = (d1, Inr ())"
  shows "\<exists>d' c. miniapp_session cx hmac_raw tls tag r (Some (JObj [(''init_data'', JStr q)])) d = (d', Inr (c, tg_user q)) \<and> ck_value c \<noteq> None"
proof -
  have a: "miniapp_allowed (cx_settings cx) (tg_user q) = Inr True" using assms(4) by (simp add: miniapp_allowed_def miniapp_allowed_users_def)
  have k: "ck_value (fst (admin_cookie cx tls tag r d)) \<noteq> None" for d
    by (auto simp: admin_cookie_def issue_session_def set_session_def Let_def str_of_int_def split: prod.split)
  from miniapp_admits [OF assms(5,3,1,2) a] k show ?thesis by (simp add: split_beta)
qed

lemma no_allowlist_admits_all_witness:
  "\<exists>d' c. miniapp_session (demo_bot\<lparr>cx_settings := (cx_settings demo_bot)\<lparr>s_miniapp_allowed_users_raw := None\<rparr>\<rparr>) toy_mac True ''g'' demo_request
     (Some (JObj [(''init_data'', JStr demo_init)])) db_empty = (d', Inr (c, tg_user demo_init)) \<and> ck_value c \<noteq> None"
proof -
  let ?cx = "demo_bot\<lparr>cx_settings := (cx_settings demo_bot)\<lparr>s_miniapp_allowed_users_raw := None\<rparr>\<rparr>"
  have t: "''1:a'' \<in> set (bot_tokens (cx_settings ?cx))" by code_simp
  have v: "verify_telegram_init_data (cx_hmac ?cx) toy_mac (cx_now ?cx) demo_init ''1:a'' 86400" using demo_init_ok by simp
  have l: "login_limit ?cx demo_request db_empty = (fst (login_limit demo_bot demo_request db_empty), Inr ())"
    using demo_limit by (simp add: login_limit_def)
  show ?thesis by (rule no_allowlist_admits_all [OF t v _ _ l]) (simp_all add: demo_init_ok truthy_str_def)
qed

end
