(* ===== verification/Admin.thy ===== *)
theory Admin
  imports WebUi IngestTasks Jobs Captions
begin

text \<open>
  The settings half of \<^verbatim>\<open>src/src/anbar/api/admin.py\<close>: the runtime settings with the caches they rebuild, the
  authentication switch, the signing secret, uploader keys, links, albums, the running ingests and the
  job queue. Every route checks the caller itself, before it reads anything else.
\<close>

section \<open>The state behind the routes\<close>

text \<open>\<open>ap_conns\<close> is the number of download connections of a backend that lets it be set, \<open>ap_rebuild\<close> the limit and the
  secret in the handler the queue has for rebuilds. Events that are sent to the channel by a background task
  are collected in order.\<close>

record ('b, 'w) app =
  ap_db :: db
  ap_caches :: "'b caches"
  ap_world :: 'w
  ap_jobs :: "jobq option"
  ap_tasks :: task_manager
  ap_conns :: "int option"
  ap_rebuild :: "(int \<times> string option) option"
  ap_events :: "(string \<times> json) list list"

abbreviation on_db :: "(db \<Rightarrow> db) \<Rightarrow> ('b, 'w, 'z) app_scheme \<Rightarrow> ('b, 'w, 'z) app_scheme" where
  "on_db f a \<equiv> a\<lparr>ap_db := f (ap_db a)\<rparr>"

text \<open>The first line of every route.\<close>

definition as_admin :: "ctx \<Rightarrow> request \<Rightarrow> (('b, 'w, 'z) app_scheme \<Rightarrow> ('b, 'w, 'z) app_scheme \<times> 'a res) \<Rightarrow> ('b, 'w, 'z) app_scheme
    \<Rightarrow> ('b, 'w, 'z) app_scheme \<times> 'a res" where
  "as_admin cx r f a =
     (case require_admin (cx_sha256 cx) (cx_hmac cx) (cx_now cx) (cx_tok cx) (cx_settings cx) r (ap_db a) of
        (Inl e, d) \<Rightarrow> (a\<lparr>ap_db := d\<rparr>, Inl e)
      | (Inr _, d) \<Rightarrow> f (a\<lparr>ap_db := d\<rparr>))"

definition audit :: "ctx \<Rightarrow> string \<Rightarrow> string option \<Rightarrow> audit_details \<Rightarrow> db \<Rightarrow> db" where
  "audit cx event target details d = fst (log_audit (cx_now cx) event ''admin'' target None details d)"

section \<open>Request bodies\<close>

text \<open>\<^verbatim>\<open>body.get(k, "").strip() if isinstance(body, dict) else ""\<close>; a body that does not parse counts as empty.\<close>

definition body_text :: "string \<Rightarrow> json option \<Rightarrow> string res" where
  "body_text k body =
     (case body of
        Some (JObj kvs) \<Rightarrow> (case map_of kvs k of None \<Rightarrow> Inr [] | Some v \<Rightarrow> rbind (as_str v) (\<lambda>s. Inr (strip s)))
      | _ \<Rightarrow> Inr [])"

section \<open>Runtime settings\<close>

(* src: src/src/anbar/api/admin.py auto _env_defaults *)
definition env_defaults :: "settings \<Rightarrow> int \<Rightarrow> string \<Rightarrow> int" where
  "env_defaults s timeout_ms name =
     the (map_of
       [(''rate_download'', s_rate_download_per_min s), (''rate_upload'', s_rate_upload_per_min s),
        (''rate_login'', s_rate_login_per_min s), (''max_upload_mb'', s_max_upload_mb s),
        (''web_session_ttl'', s_web_session_ttl s), (''cache_mb'', s_cache_max_mb s),
        (''cache_enabled'', if s_cache_enabled s then 1 else 0), (''mtproto_export_conns'', s_mtproto_export_conns s),
        (''hybrid_enabled'', if s_hybrid_enabled s then 1 else 0), (''hybrid_bot_timeout_ms'', timeout_ms),
        (''encryption_enabled'', 0), (''auto_backup_enabled'', if s_auto_backup_enabled s then 1 else 0),
        (''seek_cache_mb'', s_seek_cache_mb s), (''subs_extract_enabled'', 1), (''tg_ingest_bot_only'', 0),
        (''tg_ingest_concurrency'', 4)] name)"

type_synonym settings_view = "(string \<times> int \<times> int \<times> bool) list"

definition settings_view :: "ctx \<Rightarrow> int \<Rightarrow> db \<Rightarrow> settings_view res" where
  "settings_view cx timeout_ms d = effective d (env_defaults (cx_settings cx) timeout_ms)"

text \<open>The public status: no check of the caller.\<close>

record status_view =
  sv_auth :: bool
  sv_objects_count :: nat
  sv_cache :: "(nat \<times> int \<times> int) option"
  sv_chunk_cache :: "(nat \<times> int \<times> nat \<times> nat) option"
  sv_cache_master :: bool
  sv_max_upload :: int
  sv_settings :: settings_view
  sv_time :: int

(* src: src/src/anbar/api/admin.py auto status *)
definition admin_status :: "ctx \<Rightarrow> int \<Rightarrow> ('b, 'w, 'z) app_scheme \<Rightarrow> status_view res" where
  "admin_status cx timeout_ms a =
     (let s = cx_settings cx; d = ap_db a in
      rbind (settings_view cx timeout_ms d) (\<lambda>v. Inr \<lparr>
        sv_auth = effective_auth_enabled d (s_auth_enabled s),
        sv_objects_count = count_objects False d,
        sv_cache = map_option (\<lambda>c. (length (dl_entries c), dl_bytes c, get_int_setting d ''cache_mb'' (s_cache_max_mb s) * 1024 * 1024)) (ca_disk (ap_caches a)),
        sv_chunk_cache = map_option (\<lambda>c. (length (mc_entries c), mc_bytes c, mc_hits c, mc_misses c)) (ca_chunks (ap_caches a)),
        sv_cache_master = (get_int_setting d ''cache_enabled'' (if s_cache_enabled s then 1 else 0) \<noteq> 0),
        sv_max_upload = get_int_setting d ''max_upload_mb'' (s_max_upload_mb s) * 1024 * 1024,
        sv_settings = v,
        sv_time = cx_now cx\<rparr>))"

(* src: src/src/anbar/api/admin.py auto settings_get *)
definition settings_get :: "ctx \<Rightarrow> int \<Rightarrow> request \<Rightarrow> ('b, 'w, 'z) app_scheme \<Rightarrow> ('b, 'w, 'z) app_scheme \<times> settings_view res" where
  "settings_get cx timeout_ms r = as_admin cx r (\<lambda>a. (a, settings_view cx timeout_ms (ap_db a)))"

text \<open>The disk cache is closed and replaced, the chunk cache likewise.\<close>

(* src: src/src/anbar/api/admin.py auto _sync_cache *)
definition sync_cache :: "settings \<Rightarrow> db \<Rightarrow> 'b caches \<Rightarrow> 'b caches" where
  "sync_cache s d c =
     (let cache_mb = get_int_setting d ''cache_mb'' (s_cache_max_mb s);
          enabled = (get_int_setting d ''cache_enabled'' (if s_cache_enabled s then 1 else 0) \<noteq> 0)
      in c\<lparr>ca_disk := (if enabled \<and> cache_mb \<noteq> 0
             then Some ((dl_init (cache_mb * 1024 * 1024))\<lparr>dl_files := (case ca_disk c of None \<Rightarrow> {} | Some old \<Rightarrow> dl_files (dl_close old))\<rparr>)
             else None)\<rparr>)"

(* src: src/src/anbar/api/admin.py auto _sync_chunk_cache *)
definition sync_chunk_cache :: "settings \<Rightarrow> db \<Rightarrow> 'b caches \<Rightarrow> 'b caches" where
  "sync_chunk_cache s d c =
     (let seek_mb = get_int_setting d ''seek_cache_mb'' (s_seek_cache_mb s)
      in c\<lparr>ca_chunks := (if seek_mb > 0 then Some (mc_init (seek_mb * 1024 * 1024) 120) else None)\<rparr>)"

text \<open>The loop over the body; what was stored before a bad entry stays stored.\<close>

(* src: src/src/anbar/api/admin.py 133-141 settings_update *)
fun set_each :: "(string \<times> json) list \<Rightarrow> (string \<times> int) list \<Rightarrow> db \<Rightarrow> db \<times> (string \<times> int) list res" where
  "set_each [] changed d = (d, Inr changed)"
| "set_each ((name, v) # rest) changed d =
     (if map_of SPEC name = None then (d, Inl (HTTPException 422 (''unknown setting: '' @ name)))
      else (case set_int name v d of
         (d, Inl (ValueError e)) \<Rightarrow> (d, Inl (HTTPException 422 e))
       | (d, Inl e) \<Rightarrow> (d, Inl e)
       | (d, Inr i) \<Rightarrow> set_each rest (AList.update name i changed) d))"

(* src: src/src/anbar/api/admin.py 142-148 settings_update *)
definition apply_changes :: "settings \<Rightarrow> (string \<times> int) list \<Rightarrow> ('b, 'w, 'z) app_scheme \<Rightarrow> ('b, 'w, 'z) app_scheme" where
  "apply_changes s changed a =
     (let touched = (\<lambda>k. map_of changed k \<noteq> None);
          c = ap_caches a;
          c = (if touched ''cache_mb'' \<or> touched ''cache_enabled'' then sync_cache s (ap_db a) c else c);
          c = (if touched ''seek_cache_mb'' then sync_chunk_cache s (ap_db a) c else c)
      in a\<lparr>ap_caches := c,
           ap_conns := (case map_of changed ''mtproto_export_conns'' of
              Some n \<Rightarrow> map_option (\<lambda>_. n) (ap_conns a) | None \<Rightarrow> ap_conns a)\<rparr>)"

(* src: src/src/anbar/api/admin.py auto settings_update *)
definition settings_update :: "ctx \<Rightarrow> int \<Rightarrow> request \<Rightarrow> json option \<Rightarrow> ('b, 'w, 'z) app_scheme
    \<Rightarrow> ('b, 'w, 'z) app_scheme \<times> ((string \<times> int) list \<times> settings_view) res" where
  "settings_update cx timeout_ms r body = as_admin cx r (\<lambda>a.
     (case body of
        None \<Rightarrow> (a, Inl (HTTPException 400 ''expected JSON object''))
      | Some (JObj (kv # kvs)) \<Rightarrow>
          (case set_each (kv # kvs) [] (ap_db a) of
             (d, Inl e) \<Rightarrow> (a\<lparr>ap_db := d\<rparr>, Inl e)
           | (d, Inr changed) \<Rightarrow>
               let a = apply_changes (cx_settings cx) changed (a\<lparr>ap_db := d\<rparr>);
                   a = on_db (audit cx ''settings.update'' None (DJson (JObj (map (\<lambda>(k, n). (k, JInt n)) changed)))) a
               in (a, rbind (settings_view cx timeout_ms (ap_db a)) (\<lambda>v. Inr (changed, v))))
      | _ \<Rightarrow> (a, Inl (HTTPException 400 ''expected non-empty JSON object''))))"

text \<open>The keys to reset: all of them unless the body names some. A string is walked by its characters.\<close>

(* src: src/src/anbar/api/admin.py 195-202 settings_reset *)
definition reset_names :: "json option \<Rightarrow> string list res" where
  "reset_names body =
     (let keys = (case body of None \<Rightarrow> None | Some b \<Rightarrow> jget b ''keys'')
      in case keys of
           Some (JList ks) \<Rightarrow> if ks = [] then Inr (map fst SPEC)
             else if list_all (\<lambda>k. case k of JStr _ \<Rightarrow> True | _ \<Rightarrow> False) ks
             then Inr (map (\<lambda>k. case k of JStr s \<Rightarrow> s | _ \<Rightarrow> []) ks) else Inl TypeError
         | Some (JStr s) \<Rightarrow> Inr (if s = [] then map fst SPEC else map (\<lambda>c. [c]) s)
         | Some (JObj kvs) \<Rightarrow> Inr (if kvs = [] then map fst SPEC else map fst kvs)
         | Some v \<Rightarrow> if jtruthy v then Inl TypeError else Inr (map fst SPEC)
         | None \<Rightarrow> Inr (map fst SPEC))"

fun reset_each :: "string list \<Rightarrow> db \<Rightarrow> db \<times> (string \<times> bool) list" where
  "reset_each [] d = (d, [])"
| "reset_each (k # ks) d = (case reset_setting k d of (d, b) \<Rightarrow> case reset_each ks d of (d, rs) \<Rightarrow> (d, (k, b) # rs))"

(* src: src/src/anbar/api/admin.py auto settings_reset *)
definition settings_reset :: "ctx \<Rightarrow> int \<Rightarrow> request \<Rightarrow> json option \<Rightarrow> ('b, 'w, 'z) app_scheme
    \<Rightarrow> ('b, 'w, 'z) app_scheme \<times> ((string \<times> bool) list \<times> settings_view) res" where
  "settings_reset cx timeout_ms r body = as_admin cx r (\<lambda>a.
     (case reset_names body of
        Inl e \<Rightarrow> (a, Inl e)
      | Inr names \<Rightarrow>
          if filter (\<lambda>k. map_of SPEC k = None) names \<noteq> []
          then (a, Inl (HTTPException 422 (''unknown setting: '' @ join '', '' (filter (\<lambda>k. map_of SPEC k = None) names))))
          else (case reset_each names (ap_db a) of
             (d, res) \<Rightarrow>
               let a = a\<lparr>ap_db := d\<rparr>;
                   a = (if ''cache_mb'' \<in> set names \<or> ''cache_enabled'' \<in> set names
                        then a\<lparr>ap_caches := sync_cache (cx_settings cx) d (ap_caches a)\<rparr> else a)
               in (a, rbind (settings_view cx timeout_ms d) (\<lambda>v. Inr (res, v))))))"

(* src: src/src/anbar/api/admin.py auto cache_purge *)
definition cache_purge :: "ctx \<Rightarrow> request \<Rightarrow> ('b, 'w, 'z) app_scheme \<Rightarrow> ('b, 'w, 'z) app_scheme \<times> nat res" where
  "cache_purge cx r = as_admin cx r (\<lambda>a.
     (a\<lparr>ap_caches := sync_cache (cx_settings cx) (ap_db a) (ap_caches a)\<rparr>,
      Inr (case ca_disk (ap_caches a) of None \<Rightarrow> 0 | Some c \<Rightarrow> length (dl_entries c))))"

section \<open>Authentication and the signing secret\<close>

(* src: src/src/anbar/api/admin.py auto auth_toggle *)
definition auth_toggle :: "ctx \<Rightarrow> request \<Rightarrow> ('b, 'w, 'z) app_scheme \<Rightarrow> ('b, 'w, 'z) app_scheme \<times> bool res" where
  "auth_toggle cx r = as_admin cx r (\<lambda>a.
     let current = effective_auth_enabled (ap_db a) (s_auth_enabled (cx_settings cx))
     in (on_db (\<lambda>d. audit cx ''auth.toggle'' None (DJson (JObj [(''auth_enabled'', JBool (\<not> current))]))
                 (kv_set ''auth_enabled'' (if current then ''0'' else ''1'') d)) a,
         Inr (\<not> current)))"

(* src: src/src/anbar/api/admin.py 241-245 secret_get *)
definition masked_secret :: "string \<Rightarrow> string" where
  "masked_secret s =
     (if length s \<ge> 8 then take 4 s @ ''...'' @ drop (length s - 4) s else replicate (length s) (CHR ''*''))"

(* src: src/src/anbar/api/admin.py auto secret_get *)
definition secret_get :: "ctx \<Rightarrow> request \<Rightarrow> ('b, 'w, 'z) app_scheme \<Rightarrow> ('b, 'w, 'z) app_scheme \<times> (bool \<times> string) res" where
  "secret_get cx r = as_admin cx r (\<lambda>a.
     let secret = secret_of cx (ap_db a)
     in (a, Inr (truthy_str secret, masked_secret (str_or secret []))))"

text \<open>The fresh secret is an argument.\<close>

(* src: src/src/anbar/api/admin.py auto rotate_secret *)
definition rotate_secret :: "ctx \<Rightarrow> string \<Rightarrow> request \<Rightarrow> json option \<Rightarrow> ('b, 'w, 'z) app_scheme \<Rightarrow> ('b, 'w, 'z) app_scheme \<times> string res" where
  "rotate_secret cx fresh r body = as_admin cx r (\<lambda>a.
     (case body_text ''secret'' body of
        Inl e \<Rightarrow> (a, Inl e)
      | Inr custom \<Rightarrow>
          if custom \<noteq> [] \<and> length custom < 8
          then (a, Inl (HTTPException 422 ''Secret key must be at least 8 characters long''))
          else let secret = (if custom \<noteq> [] then custom else fresh)
               in (on_db (\<lambda>d. audit cx ''secret.rotate'' None (DJson (JObj [(''custom'', JBool (custom \<noteq> []))]))
                         (kv_set ''hmac_secret'' secret d)) a,
                   Inr (masked_secret secret))))"

section \<open>Uploader keys\<close>

text \<open>The entries without the key material.\<close>

(* src: src/src/anbar/api/admin.py auto api_keys_list *)
definition api_keys_list :: "ctx \<Rightarrow> request \<Rightarrow> ('b, 'w, 'z) app_scheme \<Rightarrow> ('b, 'w, 'z) app_scheme \<times> (string \<times> json) list list res" where
  "api_keys_list cx r = as_admin cx r (\<lambda>a.
     (a, fold (\<lambda>k acc. rbind acc (\<lambda>ks. case k of
            JObj kvs \<Rightarrow> Inr (ks @ [filter (\<lambda>(n, _). n \<noteq> ''key'' \<and> n \<noteq> ''key_hash'') kvs]) | _ \<Rightarrow> Inl TypeError))
         (list_api_keys (ap_db a)) (Inr [])))"

text \<open>The raw key and the id are arguments; the reply is id, name and key.\<close>

(* src: src/src/anbar/api/admin.py auto api_keys_create *)
definition api_keys_create :: "ctx \<Rightarrow> string \<Rightarrow> string \<Rightarrow> request \<Rightarrow> json option \<Rightarrow> ('b, 'w, 'z) app_scheme \<Rightarrow> ('b, 'w, 'z) app_scheme \<times> (string \<times> string \<times> string) res" where
  "api_keys_create cx raw_key i r body = as_admin cx r (\<lambda>a.
     (case (case body of Some (JObj kvs) \<Rightarrow> (case map_of kvs ''name'' of None \<Rightarrow> JStr [] | Some v \<Rightarrow> v) | _ \<Rightarrow> JStr []) of
        v \<Rightarrow> (case (if jtruthy v then as_str v else Inr []) of
           Inl e \<Rightarrow> (a, Inl e)
         | Inr name \<Rightarrow>
             (case add_api_key (cx_sha256 cx) (cx_now cx) raw_key i name (ap_db a) of
                (d, (i, key, nm, _)) \<Rightarrow> (a\<lparr>ap_db := d\<rparr>, Inr (i, nm, key))))))"

(* src: src/src/anbar/api/admin.py auto api_keys_revoke *)
definition api_keys_revoke :: "ctx \<Rightarrow> request \<Rightarrow> string \<Rightarrow> ('b, 'w, 'z) app_scheme \<Rightarrow> ('b, 'w, 'z) app_scheme \<times> string res" where
  "api_keys_revoke cx r key_id = as_admin cx r (\<lambda>a.
     (case revoke_api_key key_id (ap_db a) of
        (d, ok) \<Rightarrow> (a\<lparr>ap_db := d\<rparr>, if ok then Inr key_id else Inl (HTTPException 404 ''unknown key id''))))"

section \<open>Logs, links and albums\<close>

(* src: src/src/anbar/api/admin.py auto audit_logs_list *)
definition audit_logs_list :: "ctx \<Rightarrow> request \<Rightarrow> int \<Rightarrow> int \<Rightarrow> ('b, 'w, 'z) app_scheme \<Rightarrow> ('b, 'w, 'z) app_scheme \<times> (audit_row \<times> json option) list res" where
  "audit_logs_list cx r lmt off = as_admin cx r (\<lambda>a. (a, Inr (list_audit_logs lmt off (ap_db a))))"

datatype link_row = Link link_view | AlbumLink album_view

(* src: src/src/anbar/api/admin.py 850-850 links_list *)
fun link_row_time :: "link_row \<Rightarrow> int" where
  "link_row_time (Link v) = (if v_created_at v \<noteq> 0 then v_created_at v else v_exp v)"
| "link_row_time (AlbumLink b) = (if b_created_at b \<noteq> 0 then b_created_at b else b_exp b)"

(* src: src/src/anbar/api/admin.py auto links_list *)
definition links_list :: "ctx \<Rightarrow> request \<Rightarrow> int \<Rightarrow> ('b, 'w, 'z) app_scheme \<Rightarrow> ('b, 'w, 'z) app_scheme \<times> link_row list res" where
  "links_list cx r lmt = as_admin cx r (\<lambda>a.
     (case list_links (cx_hmac cx) (s_hmac_secret (cx_settings cx)) (cx_now cx) lmt False (ap_db a) of
        (vs, d) \<Rightarrow> (case list_albums (cx_now cx) lmt d of
           (Inl e, d) \<Rightarrow> (a\<lparr>ap_db := d\<rparr>, Inl e)
         | (Inr bs, d) \<Rightarrow> (a\<lparr>ap_db := d\<rparr>, Inr (take (nat (max 1 lmt)) (order_desc link_row_time (map Link vs @ map AlbumLink bs)))))))"

(* src: src/src/anbar/api/admin.py auto links_revoke_all *)
definition links_revoke_all :: "ctx \<Rightarrow> request \<Rightarrow> ('b, 'w, 'z) app_scheme \<Rightarrow> ('b, 'w, 'z) app_scheme \<times> nat res" where
  "links_revoke_all cx r = as_admin cx r (\<lambda>a.
     (case revoke_all (cx_now cx) (ap_db a) of
        (d, n) \<Rightarrow> (a\<lparr>ap_db := audit cx ''link.revoke_all'' None (DJson (JObj [(''count'', JInt (int n))])) d\<rparr>, Inr n)))"

(* src: src/src/anbar/api/admin.py 1571-1581 link_revoke *)
definition link_revoke_route :: "ctx \<Rightarrow> request \<Rightarrow> string \<Rightarrow> int \<Rightarrow> ('b, 'w, 'z) app_scheme \<Rightarrow> ('b, 'w, 'z) app_scheme \<times> (string \<times> int) res" where
  "link_revoke_route cx r i e = as_admin cx r (\<lambda>a.
     (case revoke (cx_now cx) i e (ap_db a) of
        (d, False) \<Rightarrow> (a\<lparr>ap_db := d\<rparr>, Inl (HTTPException 404 ''unknown link''))
      | (d, True) \<Rightarrow> (a\<lparr>ap_db := audit cx ''link.revoke'' (Some i) DNone d\<rparr>, Inr (i, e))))"

(* src: src/src/anbar/api/admin.py auto link_info *)
definition link_info :: "ctx \<Rightarrow> request \<Rightarrow> string \<Rightarrow> ('b, 'w, 'z) app_scheme \<Rightarrow> ('b, 'w, 'z) app_scheme \<times> link_view list res" where
  "link_info cx r i = as_admin cx r (\<lambda>a.
     (case list_links (cx_hmac cx) (s_hmac_secret (cx_settings cx)) (cx_now cx) 500 False (ap_db a) of
        (vs, d) \<Rightarrow> (a\<lparr>ap_db := d\<rparr>, Inr (filter (\<lambda>v. v_obj_id v = i) vs))))"

text \<open>The manager page of one link shows its row.\<close>

(* src: src/src/anbar/api/admin.py 1595-1612 link_manage_page *)
definition link_manage_page :: "ctx \<Rightarrow> request \<Rightarrow> string \<Rightarrow> int \<Rightarrow> ('b, 'w, 'z) app_scheme \<Rightarrow> ('b, 'w, 'z) app_scheme \<times> link_view res" where
  "link_manage_page cx r i e = as_admin cx r (\<lambda>a.
     (case list_links (cx_hmac cx) (s_hmac_secret (cx_settings cx)) (cx_now cx) 500 False (ap_db a) of
        (vs, d) \<Rightarrow> (a\<lparr>ap_db := d\<rparr>, (case find (\<lambda>v. v_obj_id v = i \<and> v_exp v = e) vs of
           None \<Rightarrow> Inl (HTTPException 404 ''link not found'') | Some v \<Rightarrow> Inr v))))"

(* src: src/src/anbar/api/admin.py auto album_revoke *)
definition album_revoke :: "ctx \<Rightarrow> request \<Rightarrow> string \<Rightarrow> ('b, 'w, 'z) app_scheme \<Rightarrow> ('b, 'w, 'z) app_scheme \<times> string res" where
  "album_revoke cx r token = as_admin cx r (\<lambda>a.
     (if kv_get (ap_db a) (''album:'' @ token) = None then (a, Inl (HTTPException 404 ''unknown album''))
      else (on_db (\<lambda>d. audit cx ''album.revoke'' (Some token) DNone (kv_delete (''album:'' @ token) d)) a, Inr token)))"

(* src: src/src/anbar/api/admin.py 1536-1557 restart_service *)
definition restart_service :: "ctx \<Rightarrow> request \<Rightarrow> ('b, 'w, 'z) app_scheme \<Rightarrow> ('b, 'w, 'z) app_scheme \<times> unit res" where
  "restart_service cx r = as_admin cx r (\<lambda>a. (on_db (audit cx ''service.restart'' None DNone) a, Inr ()))"

section \<open>Running work\<close>

text \<open>The task clock is a float.\<close>

(* src: src/src/anbar/api/admin.py auto get_active_ingests *)
definition get_active_ingests :: "ctx \<Rightarrow> rat \<Rightarrow> request \<Rightarrow> ('b, 'w, 'z) app_scheme \<Rightarrow> ('b, 'w, 'z) app_scheme \<times> task_view list res" where
  "get_active_ingests cx t r = as_admin cx r (\<lambda>a.
     (case tm_list_active t (ap_tasks a) of (m, vs) \<Rightarrow> (a\<lparr>ap_tasks := m\<rparr>, Inr vs)))"

(* src: src/src/anbar/api/admin.py auto cancel_active_ingest *)
definition cancel_active_ingest :: "ctx \<Rightarrow> rat \<Rightarrow> request \<Rightarrow> string \<Rightarrow> ('b, 'w, 'z) app_scheme \<Rightarrow> ('b, 'w, 'z) app_scheme \<times> string res" where
  "cancel_active_ingest cx t r i = as_admin cx r (\<lambda>a.
     (case tm_cancel t i (ap_tasks a) of
        (m, True) \<Rightarrow> (a\<lparr>ap_tasks := m\<rparr>, Inr i)
      | (m, False) \<Rightarrow> (a\<lparr>ap_tasks := m\<rparr>, Inl (HTTPException 404 ''task not found or already finished''))))"

definition with_queue :: "(jobq \<Rightarrow> ('b, 'w, 'z) app_scheme \<Rightarrow> ('b, 'w, 'z) app_scheme \<times> 'a res) \<Rightarrow> ('b, 'w, 'z) app_scheme \<Rightarrow> ('b, 'w, 'z) app_scheme \<times> 'a res" where
  "with_queue f a = (case ap_jobs a of None \<Rightarrow> (a, Inl (HTTPException 503 ''job queue not available'')) | Some q \<Rightarrow> f q a)"

text \<open>The parsed result replaces the stored text where it parses.\<close>

(* src: src/src/anbar/api/admin.py 2000-2006 jobs_list *)
definition parsed_result :: "job \<Rightarrow> json option" where
  "parsed_result j =
     (if truthy_str (j_result j) then (case loads (the (j_result j)) of Some v \<Rightarrow> Some v | None \<Rightarrow> map_option JStr (j_result j))
      else map_option JStr (j_result j))"

(* src: src/src/anbar/api/admin.py auto jobs_list *)
definition jobs_list :: "ctx \<Rightarrow> request \<Rightarrow> string option \<Rightarrow> string option \<Rightarrow> int \<Rightarrow> ('b, 'w, 'z) app_scheme \<Rightarrow> ('b, 'w, 'z) app_scheme \<times> (job \<times> json option) list res" where
  "jobs_list cx r st kind lmt = as_admin cx r (with_queue (\<lambda>q a.
     (a, Inr (map (\<lambda>j. (j, parsed_result j)) (js_list st kind lmt (q_rows q))))))"

text \<open>The row comes with the result already parsed once; a result that is a string is parsed again.\<close>

(* src: src/src/anbar/api/admin.py auto jobs_get *)
definition jobs_get :: "ctx \<Rightarrow> request \<Rightarrow> string \<Rightarrow> ('b, 'w, 'z) app_scheme \<Rightarrow> ('b, 'w, 'z) app_scheme \<times> (job \<times> json option) res" where
  "jobs_get cx r i = as_admin cx r (with_queue (\<lambda>q a.
     (a, (case js_get i (q_rows q) of
        None \<Rightarrow> Inl (HTTPException 404 ''unknown job'')
      | Some (j, v) \<Rightarrow> Inr (j, (case v of
            Some (JStr s) \<Rightarrow> if s = [] then v else (case loads s of Some w \<Rightarrow> Some w | None \<Rightarrow> v)
          | _ \<Rightarrow> v))))))"

(* src: src/src/anbar/api/admin.py 2036-2041 jobs_cancel *)
definition job_refused :: "string \<Rightarrow> string \<Rightarrow> jobq \<Rightarrow> exc" where
  "job_refused only i q =
     (case jq_state q i of None \<Rightarrow> HTTPException 404 ''unknown job''
      | Some st \<Rightarrow> HTTPException 409 (''job is '' @ st @ ''; only '' @ only))"

(* src: src/src/anbar/api/admin.py auto jobs_cancel *)
definition jobs_cancel :: "ctx \<Rightarrow> request \<Rightarrow> string \<Rightarrow> ('b, 'w, 'z) app_scheme \<Rightarrow> ('b, 'w, 'z) app_scheme \<times> string res" where
  "jobs_cancel cx r i = as_admin cx r (with_queue (\<lambda>q a.
     (case jq_cancel (cx_now cx) i q of
        (q, True) \<Rightarrow> (on_db (audit cx ''job.cancel'' (Some i) DNone) (a\<lparr>ap_jobs := Some q\<rparr>), Inr i)
      | (q, False) \<Rightarrow> (a\<lparr>ap_jobs := Some q\<rparr>, Inl (job_refused ''queued jobs can be cancelled'' i q)))))"

(* src: src/src/anbar/api/admin.py auto jobs_delete *)
definition jobs_delete :: "ctx \<Rightarrow> request \<Rightarrow> string \<Rightarrow> ('b, 'w, 'z) app_scheme \<Rightarrow> ('b, 'w, 'z) app_scheme \<times> string res" where
  "jobs_delete cx r i = as_admin cx r (with_queue (\<lambda>q a.
     (case jq_delete i q of
        (q, True) \<Rightarrow> (a\<lparr>ap_jobs := Some q\<rparr>, Inr i)
      | (q, False) \<Rightarrow> (a\<lparr>ap_jobs := Some q\<rparr>, Inl (job_refused ''finished jobs can be deleted'' i q)))))"

section \<open>Only admins\<close>

lemma as_admin_denied:
  assumes "fst (require_admin (cx_sha256 cx) (cx_hmac cx) (cx_now cx) (cx_tok cx) (cx_settings cx) r (ap_db a)) = Inl e"
  shows "as_admin cx r f a = (a\<lparr>ap_db := snd (role_of cx r (ap_db a))\<rparr>, Inl e)"
  using assms by (auto simp: as_admin_def require_admin_def role_of_def split: prod.splits if_splits)

lemma as_admin_passes:
  assumes "role_of cx r (ap_db a) = (Admin, d)" shows "as_admin cx r f a = f (a\<lparr>ap_db := d\<rparr>)"
  using assms by (simp add: as_admin_def require_admin_def role_of_def)

section \<open>Settings\<close>

text \<open>What \<open>set_int\<close> accepts.\<close>

definition in_spec :: "string \<times> json \<Rightarrow> bool" where
  "in_spec kv = (case map_of SPEC (fst kv) of None \<Rightarrow> False
     | Some (lo, hi) \<Rightarrow> (case snd kv of JInt i \<Rightarrow> lo \<le> i \<and> i \<le> hi | _ \<Rightarrow> False))"

definition num :: "json \<Rightarrow> int" where
  "num v = (case v of JInt i \<Rightarrow> i | _ \<Rightarrow> 0)"

definition store_all :: "(string \<times> json) list \<Rightarrow> db \<Rightarrow> db" where
  "store_all kvs d = fold (\<lambda>(k, v). kv_set (cfg_key k) (str_of_int (num v))) kvs d"

lemma set_int_in_spec: "in_spec (k, v) \<Longrightarrow> set_int k v d = (kv_set (cfg_key k) (str_of_int (num v)) d, Inr (num v))"
    "in_spec (k, v) \<Longrightarrow> map_of SPEC k \<noteq> None"
  by (auto simp: in_spec_def set_int_def num_def split: option.splits json.splits)

lemma set_int_out: "\<not> in_spec (k, v) \<Longrightarrow> map_of SPEC k \<noteq> None \<Longrightarrow> set_int k v d = (d, Inl (ValueError k))"
  by (auto simp: in_spec_def set_int_def split: option.splits json.splits)

lemma set_each_good:
  "list_all in_spec good \<Longrightarrow> set_each (good @ rest) ch d
     = set_each rest (fold (\<lambda>(k, v). AList.update k (num v)) good ch) (store_all good d)"
  by (induction good arbitrary: ch d) (auto simp: store_all_def set_int_in_spec split: prod.split)

lemma set_each_bad:
  assumes "\<not> in_spec kv" shows "\<exists>t. set_each (kv # rest) ch d = (d, Inl (HTTPException 422 t))"
  using assms set_int_out [of "fst kv" "snd kv"] by (cases kv) auto

lemma set_each_accepts: "set_each kvs ch d = (d', Inr c) \<Longrightarrow> list_all in_spec kvs"
proof (induction kvs arbitrary: ch d)
  case (Cons kv kvs)
  then have "in_spec kv" using set_each_bad [of kv kvs ch d] by fastforce
  moreover obtain k v where "kv = (k, v)" by (cases kv)
  ultimately show ?case using Cons by (auto simp: set_int_in_spec)
qed simp

lemma cfg_key_inject [simp]: "cfg_key k = cfg_key k' \<longleftrightarrow> k = k'"
  by (simp add: cfg_key_def)

lemma store_all_other: "k \<notin> cfg_key ` fst ` set kvs \<Longrightarrow> kv_get (store_all kvs d) k = kv_get d k"
  by (induction kvs arbitrary: d) (auto simp: store_all_def kv_simps split: prod.splits)

lemma store_all_get: "(k, v) \<in> set kvs \<Longrightarrow> distinct (map fst kvs) \<Longrightarrow> get_int_setting (store_all kvs d) k dflt = num v"
proof (induction kvs arbitrary: d)
  case (Cons kv kvs)
  obtain k' v' where kv: "kv = (k', v')" by (cases kv)
  have s: "store_all (kv # kvs) d = store_all kvs (kv_set (cfg_key k') (str_of_int (num v')) d)" by (simp add: store_all_def kv)
  show ?case
  proof (cases "k = k'")
    case True
    then have "k \<notin> fst ` set kvs" "v = v'" using Cons.prems kv True by (auto simp: image_iff)
    then have "kv_get (store_all (kv # kvs) d) (cfg_key k) = Some (str_of_int (num v))"
      unfolding s by (subst store_all_other) (auto simp: kv_simps True image_iff)
    then show ?thesis by (simp add: get_int_setting_def)
  next
    case False
    then show ?thesis using Cons kv unfolding s by (intro Cons.IH) auto
  qed
qed simp

lemma store_all_rows: "d_audit (store_all kvs d) = d_audit d" "d_objects (store_all kvs d) = d_objects d"
  by (induction kvs arbitrary: d) (auto simp: store_all_def kv_set_def split: prod.splits)

text \<open>The admin of the witnesses sends the key; the store is empty.\<close>

definition demo_admin :: request where
  "demo_admin = \<lparr>rq_peer = None, rq_headers = [(''authorization'', ''Bearer adm'')], rq_query = []\<rparr>"

definition demo_app :: "(nat, unit) app" where
  "demo_app = \<lparr>ap_db = db_empty, ap_caches = \<lparr>ca_disk = None, ca_chunks = None\<rparr>, ap_world = (), ap_jobs = None, ap_tasks = tm_init,
     ap_conns = None, ap_rebuild = None, ap_events = []\<rparr>"

lemma demo_admin_role: "s_admin_key (cx_settings cx) = Some ''adm'' \<Longrightarrow> role_of cx demo_admin d = (Admin, d)"
proof -
  have k: "presented_key demo_admin = Some ''adm''" by code_simp
  assume "s_admin_key (cx_settings cx) = Some ''adm''"
  then show ?thesis by (simp add: role_of_def whoami_def k truthy_str_def constant_time_equal_def)
qed

lemma demo_bot_role: "role_of demo_bot demo_admin d = (Admin, d)"
  by (rule demo_admin_role) (simp add: demo_bot_def)

text \<open>Also: A settings update that is refused for one bad entry has already stored every entry before it; nothing is
  logged and the caches keep their old budgets.\<close>

theorem rejected_update_keeps_entries:
  assumes "role_of cx r (ap_db a) = (Admin, d)" and "list_all in_spec good" and "distinct (map fst good)" and "\<not> in_spec bad"
  shows "\<exists>a' t. settings_update cx ms r (Some (JObj (good @ bad # rest))) a = (a', Inl (HTTPException 422 t))
     \<and> list_all (\<lambda>(k, v). get_int_setting (ap_db a') k dflt = num v) good
     \<and> d_audit (ap_db a') = d_audit d \<and> ap_caches a' = ap_caches a"
proof -
  obtain t where t: "set_each (good @ bad # rest) [] d = (store_all good d, Inl (HTTPException 422 t))"
    using set_each_bad [OF assms(4), of rest] unfolding set_each_good [OF assms(2)] by blast
  obtain kv kvs where c: "good @ bad # rest = kv # kvs" by (cases good) auto
  have "settings_update cx ms r (Some (JObj (good @ bad # rest))) a = (a\<lparr>ap_db := store_all good d\<rparr>, Inl (HTTPException 422 t))"
    using t unfolding c settings_update_def as_admin_passes [OF assms(1)] by simp
  moreover have "list_all (\<lambda>(k, v). get_int_setting (store_all good d) k dflt = num v) good"
    using store_all_get [OF _ assms(3)] by (auto simp: list_all_iff)
  ultimately show ?thesis by (auto simp: store_all_rows)
qed

lemma rejected_update_keeps_entries_witness:
  "\<exists>a' t. settings_update demo_bot 1500 demo_admin (Some (JObj [(''rate_upload'', JInt 7), (''rate_login'', JInt (-1))])) demo_app = (a', Inl (HTTPException 422 t))
     \<and> get_int_setting (ap_db a') ''rate_upload'' 60 = 7"
proof -
  have "list_all in_spec [(''rate_upload'', JInt 7)]" "\<not> in_spec (''rate_login'', JInt (-1))" by (simp_all add: in_spec_def SPEC_def)
  from rejected_update_keeps_entries [where a = demo_app and ms = 1500 and rest = "[]" and dflt = 60, OF demo_bot_role this(1) _ this(2)]
  show ?thesis by (auto simp: num_def)
qed

lemma py_json_num: "in_spec (k, v) \<Longrightarrow> v = JInt (num v)"
  by (auto simp: in_spec_def num_def split: option.splits json.splits)

lemma update_fold_touched: "map_of (fold (\<lambda>(k, v). AList.update k (num v)) kvs ch) k \<noteq> None \<longleftrightarrow> k \<in> fst ` set kvs \<or> map_of ch k \<noteq> None"
  by (induction kvs arbitrary: ch) (auto simp: update_conv' split: if_splits)

lemma audit_settings: "get_int_setting (audit cx ev t det d) k dflt = get_int_setting d k dflt"
  by (simp add: audit_def log_audit_def get_int_setting_def kv_get_def Let_def)

text \<open>Also: A settings update whose entries are all known and in range stores every one of them, and when it names the budget
  of the disk cache the cache afterwards is empty with that budget, or absent when it is switched off.\<close>

theorem accepted_update_applies:
  assumes "role_of cx r (ap_db a) = (Admin, d)" and "list_all in_spec kvs" and "kvs \<noteq> []" and "distinct (map fst kvs)"
    and "fst (settings_update cx ms r (Some (JObj kvs)) a) = a'"
  shows "list_all (\<lambda>(k, v). v = JInt (get_int_setting (ap_db a') k dflt)) kvs
    \<and> (''cache_mb'' \<in> fst ` set kvs \<longrightarrow> map_option (\<lambda>c. (dl_max_bytes c, dl_entries c)) (ca_disk (ap_caches a'))
        = (if get_int_setting (ap_db a') ''cache_enabled'' (if s_cache_enabled (cx_settings cx) then 1 else 0) \<noteq> 0
              \<and> get_int_setting (ap_db a') ''cache_mb'' (s_cache_max_mb (cx_settings cx)) \<noteq> 0
           then Some (get_int_setting (ap_db a') ''cache_mb'' (s_cache_max_mb (cx_settings cx)) * 1024 * 1024, []) else None))"
proof -
  obtain kv kvs' where c: "kvs = kv # kvs'" using assms(3) by (cases kvs) auto
  define ch where "ch = fold (\<lambda>(k, v). AList.update k (num v)) kvs []"
  have s: "set_each kvs [] d = (store_all kvs d, Inr ch)" using set_each_good [OF assms(2), of "[]" "[]" d] by (simp add: ch_def)
  have a': "a' = on_db (audit cx ''settings.update'' None (DJson (JObj (map (\<lambda>(k, n). (k, JInt n)) ch))))
      (apply_changes (cx_settings cx) ch (a\<lparr>ap_db := store_all kvs d\<rparr>))"
    using assms(5) s unfolding settings_update_def as_admin_passes [OF assms(1)] c by (simp add: Let_def)
  have get: "get_int_setting (ap_db a') k x = get_int_setting (store_all kvs d) k x" for k x unfolding a' by (simp add: audit_settings apply_changes_def Let_def)
  have "list_all (\<lambda>(k, v). v = JInt (get_int_setting (ap_db a') k dflt)) kvs"
    unfolding list_all_iff get
  proof (clarify)
    fix k v assume m: "(k, v) \<in> set kvs"
    then have "in_spec (k, v)" using assms(2) by (simp add: list_all_iff)
    then show "v = JInt (get_int_setting (store_all kvs d) k dflt)" using store_all_get [OF m assms(4)] py_json_num by metis
  qed
  moreover have "''cache_mb'' \<in> fst ` set kvs \<Longrightarrow> map_of ch ''cache_mb'' \<noteq> None" unfolding ch_def update_fold_touched by simp
  ultimately show ?thesis unfolding get
    by (simp add: a' apply_changes_def sync_cache_def sync_chunk_cache_def dl_init_def Let_def)
qed

lemma accepted_update_applies_witness:
  "map_option dl_max_bytes (ca_disk (ap_caches (fst (settings_update demo_bot 1500 demo_admin
      (Some (JObj [(''cache_mb'', JInt 3), (''cache_enabled'', JInt 1)])) demo_app)))) = Some (3 * 1024 * 1024)"
proof -
  let ?a = "fst (settings_update demo_bot 1500 demo_admin (Some (JObj [(''cache_mb'', JInt 3), (''cache_enabled'', JInt 1)])) demo_app)"
  have "list_all in_spec [(''cache_mb'', JInt 3), (''cache_enabled'', JInt 1)]" by (simp add: in_spec_def SPEC_def)
  note u = accepted_update_applies [where a = demo_app and ms = 1500, OF demo_bot_role this _ _ refl]
  have s: "get_int_setting (ap_db ?a) ''cache_mb'' x = 3" "get_int_setting (ap_db ?a) ''cache_enabled'' x = 1" for x
    using u [of x] by simp_all
  show ?thesis using u by (simp add: s option.map_comp comp_def) (auto simp: map_option_case split: option.splits)
qed

text \<open>Also: A reset of all settings leaves the chunk cache as it is: the budget it was given at run time stays in force although
  the setting is gone.\<close>

theorem reset_keeps_chunk_cache:
  "ca_chunks (ap_caches (fst (settings_reset cx ms r body a))) = ca_chunks (ap_caches a)"
  by (auto simp: settings_reset_def as_admin_def sync_cache_def Let_def split: sum.split prod.split)

section \<open>Secrets\<close>

lemma audit_kv [simp]: "kv_get (audit cx ev t det d) k = kv_get d k"
  by (simp add: audit_def log_audit_def kv_get_def Let_def)

text \<open>Also: The masked form of a signing secret of eight characters, the shortest that can be set, shows all of it.\<close>

theorem short_secret_shown:
  assumes "role_of cx r (ap_db a) = (Admin, d)" and "secret_of cx d = Some s" and "length s = 8"
  shows "\<exists>t. secret_get cx r a = (a\<lparr>ap_db := d\<rparr>, Inr (True, t)) \<and> take 4 t @ drop 7 t = s"
proof -
  have "s \<noteq> []" "length (take 4 s) = 4" using assms(3) by auto
  then show ?thesis using assms(3) unfolding secret_get_def as_admin_passes [OF assms(1)]
    by (simp add: assms(2) truthy_str_def str_or_def masked_secret_def Let_def)
qed

lemma short_secret_shown_witness:
  "\<exists>t. secret_get demo_bot demo_admin (demo_app\<lparr>ap_db := kv_set ''hmac_secret'' ''abcdefgh'' db_empty\<rparr>)
      = (demo_app\<lparr>ap_db := kv_set ''hmac_secret'' ''abcdefgh'' db_empty\<rparr>, Inr (True, t)) \<and> take 4 t @ drop 7 t = ''abcdefgh''"
  using short_secret_shown [OF demo_bot_role, of "demo_app\<lparr>ap_db := kv_set ''hmac_secret'' ''abcdefgh'' db_empty\<rparr>" "''abcdefgh''"]
  by (simp add: secret_of_def effective_hmac_secret_def kv_simps truthy_str_def)

lemma rotate_stores:
  assumes "role_of cx r (ap_db a) = (Admin, d)" and "body_text ''secret'' body = Inr s" and "8 \<le> length s"
  shows "rotate_secret cx fresh r body a
     = (a\<lparr>ap_db := audit cx ''secret.rotate'' None (DJson (JObj [(''custom'', JBool True)])) (kv_set ''hmac_secret'' s d)\<rparr>, Inr (masked_secret s))"
  using assms(2,3) unfolding rotate_secret_def as_admin_passes [OF assms(1)] by auto

lemma compare_ascii: "list_all (\<lambda>c. code c < 128) (x @ y) \<Longrightarrow> compare_digest x y = Inr (x = y)"
  by (simp add: compare_digest_def)

lemma mac_ascii: "mac_ok hmac \<Longrightarrow> list_all (\<lambda>c. code c < 128) (hmac s m)"
  by (simp add: mac_ok_def list_all_iff)

text \<open>Also: Rotating the signing secret not only ends the links signed with the old one, as the reply says: the password of
  every protected object stops being accepted too, because its stored tag was made with the old secret.\<close>

theorem rotation_locks_passwords:
  assumes "role_of cx r (ap_db a) = (Admin, d)" and "body_text ''secret'' body = Inr s" and "8 \<le> length s"
    and "mac_ok (cx_hmac cx)" and "\<forall>m. take 32 (cx_hmac cx s m) \<noteq> take 32 (cx_hmac cx old m)"
    and "secret_of cx d = Some old" and "kv_get d (''pw:'' @ i) = Some (pw_tag cx old i p)" and "query v ''pw'' = Some p" and "e \<noteq> 0"
  shows "let d' = ap_db (fst (rotate_secret cx fresh r body a)) in
      check_password cx v i d = Inr () \<and> check_password cx v i d' = Inl (HTTPException 403 ''password required'')
      \<and> verify_sig (cx_hmac cx) i e (sign (cx_hmac cx) i e old) old = Inr True
      \<and> verify_sig (cx_hmac cx) i e (sign (cx_hmac cx) i e old) (the (secret_of cx d')) = Inr False"
proof -
  define d' where "d' = ap_db (fst (rotate_secret cx fresh r body a))"
  have sec: "secret_of cx d' = Some s" and pw: "kv_get d' (''pw:'' @ i) = Some (pw_tag cx old i p)"
    using assms(3,7) unfolding d'_def rotate_stores [OF assms(1-3)]
    by (auto simp: secret_of_def effective_hmac_secret_def kv_simps truthy_str_def)
  note asc = mac_ascii [OF assms(4)]
  have t: "list_all (\<lambda>c. code c < 128) (pw_tag cx x i y)" for x y using asc by (auto simp: pw_tag_def list_all_iff dest: in_set_takeD)
  have n: "pw_tag cx s i p \<noteq> pw_tag cx old i p" using assms(5) by (simp add: pw_tag_def)
  have ne: "pw_tag cx old i p \<noteq> []" using assms(4) by (simp add: pw_tag_def mac_ok_def)
  have h: "cx_hmac cx s m \<noteq> cx_hmac cx old m" for m using assms(5) by metis
  have z: "sign (cx_hmac cx) i e old \<noteq> []" using assms(4) by (simp add: sign_def mac_ok_def)
  have c: "compare_digest (cx_hmac cx x k) (cx_hmac cx y k) = Inr (cx_hmac cx x k = cx_hmac cx y k)" for x y k
    by (rule compare_ascii) (simp add: asc)
  have q: "compare_digest (pw_tag cx x i p) (pw_tag cx y i p) = Inr (pw_tag cx x i p = pw_tag cx y i p)" for x y
    by (rule compare_ascii) (simp add: t)
  show ?thesis
    unfolding d'_def [symmetric] Let_def check_password_def verify_sig_def sec pw assms(6,7,8)
    using n ne z assms(9) h by (auto simp: truthy_str_def str_or_def c q sign_def)
qed

text \<open>A hash that shows its key first.\<close>

definition key_mac :: "string \<Rightarrow> string \<Rightarrow> string" where
  "key_mac s m = toy_mac [] s @ toy_mac [] m"

lemma key_mac_ok: "mac_ok key_mac"
proof -
  have t: "toy_mac s m \<noteq> [] \<and> (\<forall>c \<in> set (toy_mac s m). code c < 128 \<and> c \<noteq> CHR '':'')" for s m
    by (rule toy_mac_ok [unfolded mac_ok_def, THEN conjunct1, THEN spec, THEN spec])
  have inj: "toy_mac s m = toy_mac s m' \<longrightarrow> m = m'" for s m m'
    by (rule toy_mac_ok [unfolded mac_ok_def, THEN conjunct2, THEN spec, THEN spec, THEN spec])
  have "\<forall>c \<in> set (key_mac s m). code c < 128 \<and> c \<noteq> CHR '':''" for s m unfolding key_mac_def set_append ball_Un by (rule conjI; rule t [THEN conjunct2])
  moreover have "key_mac s m = key_mac s m' \<longrightarrow> m = m'" for s m m' unfolding key_mac_def same_append_eq by (rule inj)
  moreover have "key_mac s m \<noteq> []" for s m unfolding key_mac_def append_is_Nil_conv using t [THEN conjunct1] by (rule contrapos_nn) (elim conjE)
  ultimately show ?thesis unfolding mac_ok_def by (intro conjI allI) assumption+
qed

lemma rotation_locks_passwords_witness:
  "let cx = demo_bot\<lparr>cx_hmac := key_mac, cx_settings := (cx_settings demo_bot)\<lparr>s_hmac_secret := Some ''oldsecret''\<rparr>\<rparr>;
       d = kv_set ''pw:x'' (pw_tag cx ''oldsecret'' ''x'' ''open'') db_empty;
       a = fst (rotate_secret cx [] demo_admin (Some (JObj [(''secret'', JStr ''newsecret'')])) (demo_app\<lparr>ap_db := d\<rparr>))
   in check_password cx \<lparr>rq_peer = None, rq_headers = [], rq_query = [(''pw'', ''open'')]\<rparr> ''x'' (ap_db a) = Inl (HTTPException 403 ''password required'')"
proof -
  define cx where "cx = demo_bot\<lparr>cx_hmac := key_mac, cx_settings := (cx_settings demo_bot)\<lparr>s_hmac_secret := Some ''oldsecret''\<rparr>\<rparr>"
  define d where "d = kv_set ''pw:x'' (pw_tag cx ''oldsecret'' ''x'' ''open'') db_empty"
  have f: "cx_hmac cx = key_mac" by (simp add: cx_def)
  have r: "role_of cx demo_admin (ap_db (demo_app\<lparr>ap_db := d\<rparr>)) = (Admin, d)" by (simp add: cx_def demo_bot_def demo_admin_role)
  have b: "body_text ''secret'' (Some (JObj [(''secret'', JStr ''newsecret'')])) = Inr ''newsecret''" by code_simp
  have m: "mac_ok (cx_hmac cx)" unfolding f by (rule key_mac_ok)
  have k: "\<forall>m. take 32 (cx_hmac cx ''newsecret'' m) \<noteq> take 32 (cx_hmac cx ''oldsecret'' m)"
    unfolding f by (simp add: key_mac_def toy_mac_def hex_char_def code_def)
  have "kv_get db_empty k = None" for k by (simp add: kv_get_def db_empty_def)
  then have s: "secret_of cx d = Some ''oldsecret''" by (simp add: secret_of_def effective_hmac_secret_def d_def cx_def kv_simps truthy_str_def)
  have p: "kv_get d (''pw:'' @ ''x'') = Some (pw_tag cx ''oldsecret'' ''x'' ''open'')" by (simp add: d_def kv_simps)
  show ?thesis
    using rotation_locks_passwords [OF r b _ m k s p, of "\<lparr>rq_peer = None, rq_headers = [], rq_query = [(''pw'', ''open'')]\<rparr>" 1 "[]"]
    unfolding cx_def [symmetric] d_def [symmetric] Let_def by (simp add: query_def)
qed

end
