(* ===== verification/AdminFiles.thy ===== *)
theory AdminFiles
  imports Admin SelfHealing Album
begin

text \<open>
  The file half of \<^verbatim>\<open>src/src/anbar/api/admin.py\<close>: listings and exports, the trash, folders, moving and copying
  objects, subtitle tracks, backups and the rebuild from the channel.
\<close>

section \<open>Listings\<close>

(* src: src/src/anbar/api/admin.py 292-303 objects *)
definition with_thumb :: "'c thumbs \<Rightarrow> obj \<times> nat \<Rightarrow> obj \<times> nat \<times> bool option" where
  "with_thumb th rn =
     (case rn of (o', n) \<Rightarrow>
        let ct = lower (str_or (o_content_type o') [])
        in (o'\<lparr>o_uploader_key := None\<rparr>, n, if ct \<in> set SUPPORTED then Some (has_thumb th (o_id o')) else None))"

text \<open>A folder listing gives the full rows; the plain listing a row without manifest and key, with its chunk count.\<close>

datatype listing = FolderRows "obj list" | Rows "(obj \<times> nat \<times> bool option) list"

(* src: src/src/anbar/api/admin.py auto objects *)
definition objects_route :: "ctx \<Rightarrow> 'c thumbs \<Rightarrow> request \<Rightarrow> int \<Rightarrow> int \<Rightarrow> string \<Rightarrow> ('b, 'w, 'z) app_scheme \<Rightarrow> ('b, 'w, 'z) app_scheme \<times> listing res" where
  "objects_route cx th r lmt offset pre = as_admin cx r (\<lambda>a.
     if pre \<noteq> [] then
       let folder = rstrip_slash pre @ ''/'';
           rows = filter (\<lambda>o'. o_filename o' \<noteq> folder) (list_objects_by_prefix folder False (ap_db a))
       in (a, Inr (FolderRows (take (nat (max 1 (min lmt 500))) rows)))
     else (a, Inr (Rows (map (with_thumb th) (list_objects (max 1 (min lmt 500)) (max 0 offset) False (ap_db a))))))"

text \<open>The CSV row counts the chunks by their file ids; the rows of the listing carry no manifest, so there is nothing to count.\<close>

fun count_f :: "string \<Rightarrow> nat" where
  "count_f [] = 0"
| "count_f (c # cs) = (if startswith (c # cs) [CHR 0x22, CHR ''f'', CHR 0x22] then Suc (count_f (drop 2 cs)) else count_f cs)"

(* src: src/src/anbar/api/admin.py 333-346 export_metadata *)
definition csv_row :: "obj \<Rightarrow> string list" where
  "csv_row o' = [o_id o', o_filename o', str_of_int (o_size o'),
     (case o_manifest o' of None \<Rightarrow> ''0'' | Some m \<Rightarrow> str_of_nat (count_f m)),
     str_of_int (o_downloaded o'), str_of_int (o_created_at o'), str_or (o_content_type o') [], take 16 (str_or (o_sha256 o') [])]"

record export_row =
  x_id :: string
  x_filename :: string
  x_size :: int
  x_downloaded :: int
  x_created_at :: int
  x_sha256 :: string

(* src: src/src/anbar/api/admin.py 352-362 export_metadata *)
definition export_row :: "obj \<Rightarrow> export_row" where
  "export_row o' = \<lparr>x_id = o_id o', x_filename = o_filename o', x_size = o_size o', x_downloaded = o_downloaded o',
     x_created_at = o_created_at o', x_sha256 = str_or (o_sha256 o') []\<rparr>"

datatype export = Csv "string list list" | Json "export_row list"

(* src: src/src/anbar/api/admin.py 306-367 export_metadata *)
definition export_metadata :: "ctx \<Rightarrow> request \<Rightarrow> string \<Rightarrow> ('b, 'w, 'z) app_scheme \<Rightarrow> ('b, 'w, 'z) app_scheme \<times> export res" where
  "export_metadata cx r fmt = as_admin cx r (\<lambda>a.
     let rows = map fst (list_objects 500 0 False (ap_db a))
     in (a, Inr (if fmt = ''csv''
          then Csv ([''id'', ''filename'', ''size'', ''chunks'', ''downloads'', ''created_at'', ''content_type'', ''sha256''] # map csv_row rows)
          else Json (map export_row rows))))"

text \<open>The totals, the breakdown, the two switches and the time of the last backup.\<close>

(* src: src/src/anbar/api/admin.py 774-774 system_stats_get *)
definition last_backup :: "db \<Rightarrow> int option res" where
  "last_backup d = (case kv_get d ''last_backup_time'' of
     Some t \<Rightarrow> if t = [] then Inr None else (case py_int t of None \<Rightarrow> Inl (ValueError ''int'') | Some i \<Rightarrow> Inr (Some i))
   | None \<Rightarrow> Inr None)"

(* src: src/src/anbar/api/admin.py 709-721 system_stats_get *)
definition system_stats_get :: "ctx \<Rightarrow> request \<Rightarrow> ('b, 'w, 'z) app_scheme
    \<Rightarrow> ('b, 'w, 'z) app_scheme \<times> ((nat \<times> int \<times> int \<times> (category \<Rightarrow> int)) \<times> bool \<times> bool \<times> int option) res" where
  "system_stats_get cx r = as_admin cx r (\<lambda>a.
     (a, rbind (last_backup (ap_db a)) (\<lambda>t. Inr (get_system_stats (ap_db a),
           get_int_setting (ap_db a) ''encryption_enabled'' 1 \<noteq> 0,
           get_int_setting (ap_db a) ''hybrid_enabled'' (if s_hybrid_enabled (cx_settings cx) then 1 else 0) \<noteq> 0, t))))"

section \<open>The trash\<close>

(* src: src/src/anbar/api/admin.py auto trash_list *)
definition trash_list :: "ctx \<Rightarrow> request \<Rightarrow> ('b, 'w, 'z) app_scheme \<Rightarrow> ('b, 'w, 'z) app_scheme \<times> (obj \<times> nat \<times> int) list res" where
  "trash_list cx r = as_admin cx r (\<lambda>a.
     (a, Inr (map (\<lambda>(o', n). let deleted_at = (case o_deleted_at o' of None \<Rightarrow> 0 | Some t \<Rightarrow> t)
          in (o', n, max 0 (TRASH_TTL_S - (cx_now cx - deleted_at)))) (list_objects 500 0 True (ap_db a)))))"

(* src: src/src/anbar/api/admin.py auto trash_restore *)
definition trash_restore :: "ctx \<Rightarrow> request \<Rightarrow> string \<Rightarrow> ('b, 'w, 'z) app_scheme \<Rightarrow> ('b, 'w, 'z) app_scheme \<times> string res" where
  "trash_restore cx r i = as_admin cx r (\<lambda>a.
     (case restore_object i (ap_db a) of
        (d, ok) \<Rightarrow> (a\<lparr>ap_db := d\<rparr>, if ok then Inr i else Inl (HTTPException 404 ''not in trash''))))"

definition queue_event :: "(string \<times> json) list option \<Rightarrow> ('b, 'w, 'z) app_scheme \<Rightarrow> ('b, 'w, 'z) app_scheme" where
  "queue_event evt a = (case evt of None \<Rightarrow> a | Some e \<Rightarrow> a\<lparr>ap_events := ap_events a @ [e]\<rparr>)"

(* src: src/src/anbar/api/admin.py auto trash_purge_one *)
definition trash_purge_one :: "ctx \<Rightarrow> (string \<Rightarrow> object_ref \<Rightarrow> 'w \<Rightarrow> 'w \<times> bool res) \<Rightarrow> pool option \<Rightarrow> handle \<Rightarrow> request \<Rightarrow> string
    \<Rightarrow> ('b, 'w, 'z) app_scheme \<Rightarrow> ('b, 'w, 'z) app_scheme \<times> (string \<times> nat) res" where
  "trash_purge_one cx delete po backend r i = as_admin cx r (\<lambda>a.
     (case get_object i True (ap_db a) of
        (None, d) \<Rightarrow> (a\<lparr>ap_db := d\<rparr>, Inl (HTTPException 404 ''object not found''))
      | (Some row, d) \<Rightarrow>
          (case purge_object_blobs delete po backend row d (ap_world a) of
             (d, w, Inl e) \<Rightarrow> (a\<lparr>ap_db := d, ap_world := w\<rparr>, Inl e)
           | (d, w, Inr (n, evt)) \<Rightarrow> (queue_event evt (a\<lparr>ap_db := audit cx ''file.purge'' (Some i) DNone d, ap_world := w\<rparr>), Inr (i, n)))))"

section \<open>Folders\<close>

text \<open>\<^verbatim>\<open>(await request.json()).get(k, "").strip("/")\<close>: a body that does not parse is an error.\<close>

definition body_path :: "string \<Rightarrow> json option \<Rightarrow> string res" where
  "body_path k body =
     (case body of
        None \<Rightarrow> Inl (ValueError ''json'')
      | Some (JObj kvs) \<Rightarrow> (case map_of kvs k of None \<Rightarrow> Inr [] | Some v \<Rightarrow> rbind (as_str v) (\<lambda>s. Inr (strip_slash s)))
      | Some _ \<Rightarrow> Inl TypeError)"

definition folder_manifest :: string where
  "folder_manifest = dumps (JObj [(''version'', JInt 1), (''total_size'', JInt 0), (''chunks'', JList [])])"

text \<open>The id is an argument; the reply is none when something is there already.\<close>

(* src: src/src/anbar/api/admin.py auto folder_create *)
definition folder_create :: "ctx \<Rightarrow> string \<Rightarrow> request \<Rightarrow> json option \<Rightarrow> ('b, 'w, 'z) app_scheme \<Rightarrow> ('b, 'w, 'z) app_scheme \<times> (string \<times> string option) res" where
  "folder_create cx i r body = as_admin cx r (\<lambda>a.
     (case body_path ''path'' body of
        Inl e \<Rightarrow> (a, Inl e)
      | Inr p \<Rightarrow>
          if p = [] then (a, Inl (HTTPException 400 ''folder path is required''))
          else let name = p @ ''/'' in
            if list_objects_by_prefix name False (ap_db a) \<noteq> [] then (a, Inr (name, None))
            else (case insert_object (cx_now cx) \<lparr>i_id = i, i_file_id = ''folder_'' @ i, i_backend = ''virtual'', i_filename = name, i_size = 0,
                      i_content_type = Some ''application/x-directory'', i_sha256 = None, i_manifest = Some folder_manifest,
                      i_uploader_key = None, i_created_at = Some (cx_now cx), i_downloaded = None\<rparr> (ap_db a) of
                    (d, Inl e) \<Rightarrow> (a\<lparr>ap_db := d\<rparr>, Inl e)
                  | (d, Inr _) \<Rightarrow> (a\<lparr>ap_db := d\<rparr>, Inr (name, Some i)))))"

text \<open>Two paths, neither empty.\<close>

(* src: src/src/anbar/api/admin.py 1718-1721 folder_rename *)
definition two_paths :: "string \<Rightarrow> string \<Rightarrow> json option \<Rightarrow> (string \<times> string) res" where
  "two_paths k1 k2 body =
     rbind (body_path k1 body) (\<lambda>p. rbind (body_path k2 body) (\<lambda>q.
       if p = [] \<or> q = [] then Inl (HTTPException 400 (''both '' @ k1 @ '' and '' @ k2 @ '' are required'')) else Inr (p, q)))"

(* src: src/src/anbar/api/admin.py auto folder_rename *)
definition folder_rename :: "ctx \<Rightarrow> request \<Rightarrow> json option \<Rightarrow> ('b, 'w, 'z) app_scheme \<Rightarrow> ('b, 'w, 'z) app_scheme \<times> (nat \<times> string) res" where
  "folder_rename cx r body = as_admin cx r (\<lambda>a.
     (case two_paths ''old_path'' ''new_path'' body of
        Inl e \<Rightarrow> (a, Inl e)
      | Inr (p, q) \<Rightarrow>
          if q = p \<or> startswith q (p @ ''/'') then (a, Inl (HTTPException 400 ''cannot move a folder into itself''))
          else (case rename_folder p q (ap_db a) of
             (d, n) \<Rightarrow> (queue_event (Some [(''op'', JStr ''rn_dir''), (''old'', JStr p), (''new'', JStr q)])
                         (a\<lparr>ap_db := audit cx ''folder.rename'' (Some (p @ '' -> '' @ q)) DNone d\<rparr>), Inr (n, q)))))"

text \<open>The ids of the copies are an argument.\<close>

(* src: src/src/anbar/api/admin.py auto folder_copy *)
definition folder_copy :: "ctx \<Rightarrow> (nat \<Rightarrow> string) \<Rightarrow> request \<Rightarrow> json option \<Rightarrow> ('b, 'w, 'z) app_scheme \<Rightarrow> ('b, 'w, 'z) app_scheme \<times> (nat \<times> string) res" where
  "folder_copy cx uuids r body = as_admin cx r (\<lambda>a.
     (case two_paths ''src_path'' ''dst_path'' body of
        Inl e \<Rightarrow> (a, Inl e)
      | Inr (p, q) \<Rightarrow>
          (case copy_folder (cx_now cx) uuids p q (ap_db a) of
             (d, Inl e) \<Rightarrow> (a\<lparr>ap_db := d\<rparr>, Inl e)
           | (d, Inr n) \<Rightarrow> (a\<lparr>ap_db := audit cx ''folder.copy'' (Some (p @ '' -> '' @ q)) DNone d\<rparr>, Inr (n, q)))))"

(* src: src/src/anbar/api/admin.py auto folder_delete *)
definition folder_delete :: "ctx \<Rightarrow> request \<Rightarrow> json option \<Rightarrow> ('b, 'w, 'z) app_scheme \<Rightarrow> ('b, 'w, 'z) app_scheme \<times> (nat \<times> string) res" where
  "folder_delete cx r body = as_admin cx r (\<lambda>a.
     (case body_path ''path'' body of
        Inl e \<Rightarrow> (a, Inl e)
      | Inr p \<Rightarrow>
          if p = [] then (a, Inl (HTTPException 400 ''folder path is required''))
          else (case soft_delete_folder (cx_now cx) p (ap_db a) of
             (d, n) \<Rightarrow> (a\<lparr>ap_db := audit cx ''folder.delete'' (Some p) DNone d\<rparr>, Inr (n, p)))))"

section \<open>Moving and copying objects\<close>

(* src: src/src/anbar/api/admin.py 1779-1789 objects_move *)
definition move_body :: "json option \<Rightarrow> (json list \<times> string) res" where
  "move_body body =
     (case body of
        None \<Rightarrow> Inl (HTTPException 400 ''expected JSON {ids, dest}'')
      | Some (JObj kvs) \<Rightarrow>
          rbind (case map_of kvs ''dest'' of None \<Rightarrow> Inr [] | Some v \<Rightarrow> if jtruthy v then rbind (as_str v) (\<lambda>s. Inr (strip s)) else Inr [])
            (\<lambda>dest. case map_of kvs ''ids'' of
               Some (JList (i # is)) \<Rightarrow>
                 let dest = strip_slash dest
                 in if CHR ''/'' \<notin> set dest \<and> list_ex (\<lambda>c. c \<in> set [CHR ''?'', CHR ''%'', CHR ''*'', CHR ''|'', CHR 0x22, CHR ''<'', CHR ''>'', CHR 0x5C]) dest
                    then Inl (HTTPException 400 ''invalid destination path'') else Inr (i # is, dest)
             | _ \<Rightarrow> Inl (HTTPException 400 ''ids must be a non-empty list''))
      | Some _ \<Rightarrow> Inl TypeError)"

(* src: src/src/anbar/api/admin.py auto objects_move *)
definition objects_move :: "ctx \<Rightarrow> request \<Rightarrow> json option \<Rightarrow> ('b, 'w, 'z) app_scheme \<Rightarrow> ('b, 'w, 'z) app_scheme \<times> (nat \<times> string list \<times> string) res" where
  "objects_move cx r body = as_admin cx r (\<lambda>a.
     (case move_body body of
        Inl e \<Rightarrow> (a, Inl e)
      | Inr (ids, dest) \<Rightarrow>
          (case move_objects_to_prefix (map py_str ids) dest (ap_db a) of
             (d, moved, skipped) \<Rightarrow>
               (queue_event (Some [(''op'', JStr ''mv_obj''), (''ids'', JList (map (JStr \<circ> py_str) ids)), (''dest'', JStr dest)])
                  (a\<lparr>ap_db := audit cx ''file.move'' (Some (str_of_nat (length ids) @ '' items -> '' @ dest)) DNone d\<rparr>),
                Inr (moved, skipped, if dest = [] then [] else dest @ ''/'')))))"

text \<open>The new name as the table stores it: a number becomes text, a list or an object cannot be bound.\<close>

(* src: src/src/anbar/api/admin.py 1952-1952 object_copy *)
definition copy_filename :: "json option \<Rightarrow> string option res" where
  "copy_filename v =
     (case v of
        Some (JStr s) \<Rightarrow> Inr (Some s)
      | Some (JInt n) \<Rightarrow> Inr (if n = 0 then None else Some (str_of_int n))
      | Some (JBool b) \<Rightarrow> Inr (if b then Some ''1'' else None)
      | Some (JList l) \<Rightarrow> if l = [] then Inr None else Inl TypeError
      | Some (JObj l) \<Rightarrow> if l = [] then Inr None else Inl TypeError
      | _ \<Rightarrow> Inr None)"

(* src: src/src/anbar/api/admin.py auto object_copy *)
definition object_copy :: "ctx \<Rightarrow> string \<Rightarrow> request \<Rightarrow> json option \<Rightarrow> ('b, 'w, 'z) app_scheme \<Rightarrow> ('b, 'w, 'z) app_scheme \<times> obj res" where
  "object_copy cx uuid r body = as_admin cx r (\<lambda>a.
     (case body of
        None \<Rightarrow> (a, Inl (HTTPException 400 ''expected JSON {id, filename?}''))
      | Some (JObj kvs) \<Rightarrow>
          (case map_of kvs ''id'' of
             None \<Rightarrow> (a, Inl (HTTPException 400 ''id is required''))
           | Some v \<Rightarrow>
               if \<not> jtruthy v then (a, Inl (HTTPException 400 ''id is required''))
               else (case copy_filename (map_of kvs ''filename'') of
                  Inl e \<Rightarrow> (a, Inl (if find (\<lambda>x. o_id x = py_str v \<and> untrashed x) (d_objects (ap_db a)) = None
                                     then HTTPException 404 ''object not found'' else e))
                | Inr fn \<Rightarrow>
                    (case copy_object (cx_now cx) uuid (py_str v) fn (ap_db a) of
                       (d, Inl e) \<Rightarrow> (a\<lparr>ap_db := d\<rparr>, Inl e)
                     | (d, Inr None) \<Rightarrow> (a\<lparr>ap_db := d\<rparr>, Inl (HTTPException 404 ''object not found''))
                     | (d, Inr (Some row)) \<Rightarrow> (a\<lparr>ap_db := audit cx ''file.copy'' (Some (py_str v)) DNone d\<rparr>, Inr row))))
      | Some _ \<Rightarrow> (a, Inl TypeError)))"

section \<open>Subtitle tracks\<close>

text \<open>The routes on the tracks of one object first look for the object.\<close>

definition of_object :: "string \<Rightarrow> (obj \<Rightarrow> ('b, 'w, 'z) app_scheme \<Rightarrow> ('b, 'w, 'z) app_scheme \<times> 'a res) \<Rightarrow> ('b, 'w, 'z) app_scheme \<Rightarrow> ('b, 'w, 'z) app_scheme \<times> 'a res" where
  "of_object i f a =
     (case get_object i False (ap_db a) of
        (None, d) \<Rightarrow> (a\<lparr>ap_db := d\<rparr>, Inl (HTTPException 404 ''object not found''))
      | (Some row, d) \<Rightarrow> f row (a\<lparr>ap_db := d\<rparr>))"

definition public_tracks :: "db \<Rightarrow> string \<Rightarrow> json list res" where
  "public_tracks d i = fold (\<lambda>t acc. rbind acc (\<lambda>vs. rbind (public_view t) (\<lambda>v. Inr (vs @ [v])))) (load_tracks d i) (Inr [])"

(* src: src/src/anbar/api/admin.py auto admin_subs_list *)
definition admin_subs_list :: "ctx \<Rightarrow> request \<Rightarrow> string \<Rightarrow> ('b, 'w, 'z) app_scheme \<Rightarrow> ('b, 'w, 'z) app_scheme \<times> json list res" where
  "admin_subs_list cx r i = as_admin cx r (of_object i (\<lambda>_ a. (a, public_tracks (ap_db a) i)))"

definition json_422 :: "exc \<Rightarrow> exc" where
  "json_422 e = (case e of ValueError t \<Rightarrow> HTTPException 422 t | _ \<Rightarrow> e)"

(* src: src/src/anbar/api/admin.py auto admin_subs_add *)
definition admin_subs_add :: "ctx \<Rightarrow> string \<Rightarrow> request \<Rightarrow> string \<Rightarrow> string option \<Rightarrow> string \<Rightarrow> ('b, 'w, 'z) app_scheme \<Rightarrow> ('b, 'w, 'z) app_scheme \<times> json res" where
  "admin_subs_add cx token r i filename data = as_admin cx r (of_object i (\<lambda>_ a.
     let dflt = lower (str_or (query r ''default'') []) \<in> {''1'', ''true'', ''yes''};
         lang = take 16 (lower (strip (str_or (query r ''lang'') [])))
     in (case add_track token i (str_or filename ''subtitle.vtt'') data dflt (if lang = [] then None else Some lang) (ap_db a) of
           (d, Inl e) \<Rightarrow> (a\<lparr>ap_db := d\<rparr>, Inl (json_422 e))
         | (d, Inr entry) \<Rightarrow>
             (a\<lparr>ap_db := audit cx ''subtitle.add'' (Some i)
                 (DJson (JObj [(''track'', the (jget entry ''id'')), (''label'', the (jget entry ''label'')), (''bytes'', JInt (int (length data)))])) d\<rparr>,
              Inr entry))))"

text \<open>Only label, lang and default, at least one of them. What is not text is turned into text; that of a list or an
  object is left out.\<close>

definition text_or_empty :: "json \<Rightarrow> string" where
  "text_or_empty v = (if jtruthy v then py_str v else [])"

(* src: src/src/anbar/api/admin.py 1862-1869 admin_subs_update *)
definition track_fields :: "json option \<Rightarrow> track_patch res" where
  "track_fields body =
     (case body of
        Some (JObj (kv # kvs)) \<Rightarrow>
          if set (map fst (kv # kvs)) \<subseteq> {''label'', ''lang'', ''default''}
          then Inr \<lparr>tp_label = map_option text_or_empty (map_of (kv # kvs) ''label''), tp_lang = map_option text_or_empty (map_of (kv # kvs) ''lang''),
                    tp_default = map_option jtruthy (map_of (kv # kvs) ''default'')\<rparr>
          else Inl (HTTPException 400 ''fields: label, lang, default'')
      | _ \<Rightarrow> Inl (HTTPException 400 ''expected JSON {label?, lang?, default?}''))"

(* src: src/src/anbar/api/admin.py auto admin_subs_update *)
definition admin_subs_update :: "ctx \<Rightarrow> request \<Rightarrow> string \<Rightarrow> string \<Rightarrow> json option \<Rightarrow> ('b, 'w, 'z) app_scheme \<Rightarrow> ('b, 'w, 'z) app_scheme \<times> json res" where
  "admin_subs_update cx r i tid body = as_admin cx r (of_object i (\<lambda>_ a.
     (case track_fields body of
        Inl e \<Rightarrow> (a, Inl e)
      | Inr p \<Rightarrow>
          (case update_track i tid p (ap_db a) of
             (d, Inl e) \<Rightarrow> (a\<lparr>ap_db := d\<rparr>, Inl (json_422 e))
           | (d, Inr None) \<Rightarrow> (a\<lparr>ap_db := d\<rparr>, Inl (HTTPException 404 ''track not found''))
           | (d, Inr (Some t)) \<Rightarrow> (a\<lparr>ap_db := audit cx ''subtitle.update'' (Some i) (DJson (JObj [(''track'', JStr tid)])) d\<rparr>, Inr t)))))"

(* src: src/src/anbar/api/admin.py auto admin_subs_delete *)
definition admin_subs_delete :: "ctx \<Rightarrow> request \<Rightarrow> string \<Rightarrow> string \<Rightarrow> ('b, 'w, 'z) app_scheme \<Rightarrow> ('b, 'w, 'z) app_scheme \<times> string res" where
  "admin_subs_delete cx r i tid = as_admin cx r (of_object i (\<lambda>_ a.
     (case delete_track i tid (ap_db a) of
        (d, False) \<Rightarrow> (a\<lparr>ap_db := d\<rparr>, Inl (HTTPException 404 ''track not found''))
      | (d, True) \<Rightarrow> (a\<lparr>ap_db := audit cx ''subtitle.delete'' (Some i) (DJson (JObj [(''track'', JStr tid)])) d\<rparr>, Inr tid))))"

text \<open>ffprobe, ffmpeg, the random ids and the reader of chunks are arguments, as for the upload.\<close>

(* src: src/src/anbar/api/admin.py auto admin_subs_import_embedded *)
definition admin_subs_import :: "ctx \<Rightarrow> bool \<Rightarrow> (string \<Rightarrow> json option) \<Rightarrow> (string \<Rightarrow> int \<Rightarrow> string option) \<Rightarrow> (nat \<Rightarrow> string)
    \<Rightarrow> (int \<Rightarrow> int \<Rightarrow> int \<Rightarrow> db \<times> 'w \<Rightarrow> (db \<times> 'w) \<times> string res) \<Rightarrow> request \<Rightarrow> string \<Rightarrow> ('b, 'w, 'z) app_scheme
    \<Rightarrow> ('b, 'w, 'z) app_scheme \<times> (json list \<times> json list \<times> bool) res" where
  "admin_subs_import cx available probe ext token fetch r i = as_admin cx r (of_object i (\<lambda>row a.
     if \<not> available then (a, Inl (HTTPException 503 ''ffmpeg/ffprobe not available on the server''))
     else if get_int_setting (ap_db a) ''subs_extract_enabled'' 1 = 0
     then (a, Inl (HTTPException 409 ''embedded subtitle extraction is disabled in settings''))
     else if \<not> video_ext (o_filename row) then (a, Inl (HTTPException 400 ''not a video object''))
     else (case (if truthy_str (o_manifest row) then from_json (the (o_manifest row)) else Inr \<lparr>m_chunks = [], m_total_size = 0\<rparr>) of
        Inl e \<Rightarrow> (a, Inl e)
      | Inr m \<Rightarrow>
          (case import_embedded available probe ext token fetch i (map (\<lambda>c. (c_index c, c_size c)) (m_chunks m)) True (ap_db a) (ap_world a) of
             ((d, w), added) \<Rightarrow>
               let d = audit cx ''subtitle.import_embedded'' (Some i) (DJson (JObj [(''added'', JInt (int (length added)))])) d;
                   a = a\<lparr>ap_db := d, ap_world := w\<rparr>
               in (a, rbind (public_tracks d i) (\<lambda>ts. Inr (added, ts, added = [] \<and> ts \<noteq> [])))))))"

section \<open>Backups\<close>

text \<open>The whole upload counts, in whatever pieces it is read; opening a database image is an argument.\<close>

definition MAX_BACKUP_BYTES :: nat where "MAX_BACKUP_BYTES = 256 * 1024 * 1024"

(* src: src/src/anbar/api/admin.py auto backup_import *)
definition backup_import :: "ctx \<Rightarrow> (string \<Rightarrow> image) \<Rightarrow> request \<Rightarrow> int option \<Rightarrow> string \<Rightarrow> ('b, 'w, 'z) app_scheme \<Rightarrow> ('b, 'w, 'z) app_scheme \<times> nat res" where
  "backup_import cx open_image r declared data = as_admin cx r (\<lambda>a.
     if (case declared of Some n \<Rightarrow> n > int MAX_BACKUP_BYTES | None \<Rightarrow> False) \<or> length data > MAX_BACKUP_BYTES
     then (a, Inl (HTTPException 413 ''backup file exceeds 256MB limit''))
     else (case restore_from_file open_image data (ap_db a) of
        (d, Inl (ValueError t)) \<Rightarrow> (a\<lparr>ap_db := d\<rparr>, Inl (HTTPException 400 t))
      | (d, Inl _) \<Rightarrow> (a\<lparr>ap_db := d\<rparr>, Inl (HTTPException 500 ''Database restore failed''))
      | (d, Inr n) \<Rightarrow> (a\<lparr>ap_db := audit cx ''backup.restore'' None (DJson (JObj [(''restored'', JBool True), (''objects_count'', JInt (int n))])) d\<rparr>, Inr n)))"

text \<open>The bytes of the database and the formatted time are arguments.\<close>

(* src: src/src/anbar/api/admin.py 408-417 backup_push_telegram *)
definition push_backup :: "ctx \<Rightarrow> (db \<Rightarrow> string) \<Rightarrow> (string \<Rightarrow> string \<Rightarrow> 'w \<Rightarrow> 'w \<times> object_ref res) \<Rightarrow> string \<Rightarrow> ('b, 'w, 'z) app_scheme
    \<Rightarrow> ('b, 'w, 'z) app_scheme \<times> (nat \<times> object_ref) res" where
  "push_backup cx dump store ts a =
     (let data = dump (ap_db a); name = ''backup_'' @ ts @ ''.db'' in
      case store data name (ap_world a) of
        (w, Inl e) \<Rightarrow> (a\<lparr>ap_world := w\<rparr>, Inl e)
      | (w, Inr ref) \<Rightarrow>
          (on_db (\<lambda>d. audit cx ''backup.telegram'' (Some name) (DJson (JObj [(''size'', JInt (int (length data)))]))
              (kv_set ''last_backup_ref'' (or_file_id ref) (kv_set ''last_backup_time'' (str_of_int (cx_now cx)) d))) (a\<lparr>ap_world := w\<rparr>),
           Inr (length data, ref)))"

(* src: src/src/anbar/api/admin.py 408-426 backup_push_telegram *)
definition backup_job :: "ctx \<Rightarrow> (db \<Rightarrow> string) \<Rightarrow> (string \<Rightarrow> string \<Rightarrow> 'w \<Rightarrow> 'w \<times> object_ref res) \<Rightarrow> string \<Rightarrow> string \<Rightarrow> ('b, 'w, 'z) app_scheme
    \<Rightarrow> ('b, 'w, 'z) app_scheme \<times> unit res" where
  "backup_job cx dump store ts jid a =
     (let a = a\<lparr>ap_jobs := map_option (jq_set_progress jid 0 (int (length (dump (ap_db a))))) (ap_jobs a)\<rparr> in
      case push_backup cx dump store ts a of
        (a, Inl e) \<Rightarrow> (a, Inl e)
      | (a, Inr (n, ref)) \<Rightarrow>
          (a\<lparr>ap_jobs := map_option (jq_finish (cx_now cx) jid (Some (JObj [(''size'', JInt (int n)), (''file_id'', JStr (or_file_id ref)),
               (''message_id'', case or_message_id ref of None \<Rightarrow> JNull | Some m \<Rightarrow> JInt m), (''backup_time'', JInt (cx_now cx))])) None) (ap_jobs a)\<rparr>, Inr ()))"

text \<open>The name of the file and its bytes; \<open>ts\<close> is the time as text.\<close>

(* src: src/src/anbar/api/admin.py auto backup_download *)
definition backup_download :: "ctx \<Rightarrow> (db \<Rightarrow> string) \<Rightarrow> string \<Rightarrow> request \<Rightarrow> ('b, 'w, 'z) app_scheme \<Rightarrow> ('b, 'w, 'z) app_scheme \<times> (string \<times> string) res" where
  "backup_download cx dump ts r = as_admin cx r (\<lambda>a. (a, Inr (''anbar_backup_'' @ ts @ ''.db'', dump (ap_db a))))"

text \<open>With a queue the answer is the id of the job, without one the backup is made at once.\<close>

(* src: src/src/anbar/api/admin.py auto backup_push_telegram *)
definition backup_push_telegram :: "ctx \<Rightarrow> (db \<Rightarrow> string) \<Rightarrow> (string \<Rightarrow> string \<Rightarrow> 'w \<Rightarrow> 'w \<times> object_ref res) \<Rightarrow> string \<Rightarrow> string \<Rightarrow> request
    \<Rightarrow> ('b, 'w, 'z) app_scheme \<Rightarrow> ('b, 'w, 'z) app_scheme \<times> (string \<times> string option) res" where
  "backup_push_telegram cx dump store ts jid r = as_admin cx r (\<lambda>a.
     (case ap_jobs a of
        None \<Rightarrow> (case push_backup cx dump store ts a of (a, res) \<Rightarrow> (a, rbind res (\<lambda>(_, ref). Inr (jid, Some (or_file_id ref)))))
      | Some q \<Rightarrow> (case jq_submit (cx_now cx) ''backup_now'' jid (JObj []) True q of
           (q, res) \<Rightarrow> (a\<lparr>ap_jobs := Some q\<rparr>, rbind res (\<lambda>_. Inr (jid, None))))))"

section \<open>Rebuilding from the channel\<close>

text \<open>A message of the channel: its text, its document as id and size, its number.\<close>

record ch_msg =
  cm_text :: string
  cm_doc :: "(int \<times> int) option"
  cm_id :: int

definition add_found :: "string \<Rightarrow> found \<Rightarrow> (string \<times> found list) list \<Rightarrow> (string \<times> found list) list" where
  "add_found i f groups = AList.update i ((case map_of groups i of None \<Rightarrow> [] | Some fs \<Rightarrow> fs) @ [f]) groups"

(* src: src/src/anbar/api/admin.py 692-692 _rebuild_scan *)
definition scan_id :: "json \<Rightarrow> string" where
  "scan_id m = (case (jget m ''id'', jget m ''fn'') of
     (Some v, w) \<Rightarrow> if jtruthy v then py_str v else (case w of Some f \<Rightarrow> if jtruthy f then py_str f else ''unk'' | None \<Rightarrow> ''unk'')
   | (None, Some f) \<Rightarrow> if jtruthy f then py_str f else ''unk''
   | (None, None) \<Rightarrow> ''unk'')"

(* src: src/src/anbar/api/admin.py 686-702 _rebuild_scan *)
definition scan_chunk :: "keys \<Rightarrow> string option \<Rightarrow> ch_msg \<Rightarrow> (string \<times> found list) list \<times> json list \<Rightarrow> (string \<times> found list) list \<times> json list" where
  "scan_chunk ks secret m acc =
     (case (cm_doc m, decode_chunk_caption ks (Some (cm_text m)) secret) of
        (Some (i, n), Some meta) \<Rightarrow>
          if jtruthy meta
          then (add_found (scan_id meta) \<lparr>f_meta = meta, f_size = n, f_file_id = str_of_int i, f_message_id = Some (cm_id m),
                  f_bot_file_id = None, f_backend = Some ''mtproto''\<rparr> (fst acc), snd acc)
          else acc
      | _ \<Rightarrow> acc)"

(* src: src/src/anbar/api/admin.py 675-685 _rebuild_scan *)
fun scan_messages :: "keys \<Rightarrow> string option \<Rightarrow> ch_msg list \<Rightarrow> (string \<times> found list) list \<times> json list \<Rightarrow> (string \<times> found list) list \<times> json list" where
  "scan_messages ks secret [] acc = acc"
| "scan_messages ks secret (m # ms) (groups, events) =
     scan_messages ks secret ms
      (case decode_meta_event ks (Some (cm_text m)) secret of
         Some e \<Rightarrow> if jtruthy e then (groups, events @ [e]) else scan_chunk ks secret m (groups, events)
       | None \<Rightarrow> scan_chunk ks secret m (groups, events))"

text \<open>The history of a backend that has a client, up to the limit.\<close>

(* src: src/src/anbar/api/admin.py auto _rebuild_scan *)
definition rebuild_scan :: "ctx \<Rightarrow> keys \<Rightarrow> (int \<Rightarrow> 'w \<Rightarrow> 'w \<times> ch_msg list res) option \<Rightarrow> int \<Rightarrow> string option \<Rightarrow> ('b, 'w, 'z) app_scheme \<Rightarrow> ('b, 'w, 'z) app_scheme \<times> (report \<times> nat \<times> nat) res" where
  "rebuild_scan cx ks history lmt secret a =
     (case (case history of None \<Rightarrow> (ap_world a, Inr []) | Some h \<Rightarrow> h lmt (ap_world a)) of
        (w, Inl e) \<Rightarrow> (a\<lparr>ap_world := w\<rparr>, Inl (HTTPException 502 ''Failed scanning MTProto channel history''))
      | (w, Inr msgs) \<Rightarrow>
          (case scan_messages ks secret msgs ([], []) of
             (groups, events) \<Rightarrow> (case rebuild_from_manifests (cx_now cx) groups events (ap_db a) of
                (d, res) \<Rightarrow> (a\<lparr>ap_db := d, ap_world := w\<rparr>, rbind res (\<lambda>rp. Inr (rp, length groups, sum_list (map (length \<circ> snd) groups)))))))"

(* src: src/src/anbar/api/admin.py 643-643 channel_rebuild *)
definition rebuild_limit :: "json option \<Rightarrow> int res" where
  "rebuild_limit body = (case body of
     Some (JObj kvs) \<Rightarrow> (case map_of kvs ''limit'' of
         None \<Rightarrow> Inr 1000
       | Some (JInt n) \<Rightarrow> Inr n
       | Some (JBool b) \<Rightarrow> Inr (if b then 1 else 0)
       | Some (JStr t) \<Rightarrow> (case py_int t of None \<Rightarrow> Inl (ValueError ''int'') | Some n \<Rightarrow> Inr n)
       | Some _ \<Rightarrow> Inl TypeError)
   | _ \<Rightarrow> Inr 1000)"

text \<open>The limit and the secret are not in the job: they are in the handler, of which the queue has one for the kind.\<close>

(* src: src/src/anbar/api/admin.py auto channel_rebuild *)
definition channel_rebuild :: "ctx \<Rightarrow> keys \<Rightarrow> (int \<Rightarrow> 'w \<Rightarrow> 'w \<times> ch_msg list res) option \<Rightarrow> string \<Rightarrow> request \<Rightarrow> json option
    \<Rightarrow> ('b, 'w, 'z) app_scheme \<Rightarrow> ('b, 'w, 'z) app_scheme \<times> (string \<times> (report \<times> nat \<times> nat) option) res" where
  "channel_rebuild cx ks history jid r body = as_admin cx r (\<lambda>a.
     (case rbind (rebuild_limit body) (\<lambda>n. rbind (body_text ''secret'' body) (\<lambda>s. Inr (n, s))) of
        Inl e \<Rightarrow> (a, Inl e)
      | Inr (lmt, custom) \<Rightarrow>
          let secret = (if custom \<noteq> [] then Some custom else secret_of cx (ap_db a)) in
          (case ap_jobs a of
             None \<Rightarrow> (case rebuild_scan cx ks history lmt secret a of (a, res) \<Rightarrow> (a, rbind res (\<lambda>rp. Inr (jid, Some rp))))
           | Some q \<Rightarrow> (case jq_submit (cx_now cx) ''channel_rebuild'' jid (JObj []) True q of
                (q, res) \<Rightarrow> (a\<lparr>ap_jobs := Some q, ap_rebuild := Some (lmt, secret)\<rparr>, rbind res (\<lambda>_. Inr (jid, None)))))))"

definition report_json :: "report \<times> nat \<times> nat \<Rightarrow> json" where
  "report_json rep = (case rep of (rp, groups, chunks) \<Rightarrow>
     JObj [(''recovered_objects'', JInt (int (rp_recovered rp))), (''skipped_existing'', JInt (int (rp_skipped rp))),
       (''incomplete_objects'', JInt (int (rp_incomplete rp))), (''events_replayed'', JInt (int (rp_events rp))),
       (''total_groups_scanned'', JInt (int groups)), (''total_chunks_scanned'', JInt (int chunks))])"

text \<open>What the queue runs for a rebuild job.\<close>

(* src: src/src/anbar/api/admin.py 655-658 channel_rebuild *)
definition rebuild_job :: "ctx \<Rightarrow> keys \<Rightarrow> (int \<Rightarrow> 'w \<Rightarrow> 'w \<times> ch_msg list res) option \<Rightarrow> string \<Rightarrow> ('b, 'w, 'z) app_scheme \<Rightarrow> ('b, 'w, 'z) app_scheme \<times> unit res" where
  "rebuild_job cx ks history jid a =
     (case ap_rebuild a of
        None \<Rightarrow> (a, Inl (RuntimeError ''no handler''))
      | Some (lmt, secret) \<Rightarrow>
          (case rebuild_scan cx ks history lmt secret a of
             (a, Inl e) \<Rightarrow> (a, Inl e)
           | (a, Inr rp) \<Rightarrow>
               (a\<lparr>ap_db := audit cx ''channel.rebuild'' None (DJson (report_json rp)) (ap_db a),
                  ap_jobs := map_option (jq_finish (cx_now cx) jid (Some (report_json rp)) None) (ap_jobs a)\<rparr>, Inr ())))"

section \<open>The caller\<close>

definition holds_admin_key :: "ctx \<Rightarrow> request \<Rightarrow> bool" where
  "holds_admin_key cx r = (truthy_str (presented_key r) \<and> presented_key r = s_admin_key (cx_settings cx))"

lemma key_role: "holds_admin_key cx r \<Longrightarrow> role_of cx r d = (Admin, d)"
  by (auto simp: holds_admin_key_def role_of_def whoami_def constant_time_equal_def Let_def)

lemma key_passes: "holds_admin_key cx r \<Longrightarrow> as_admin cx r f a = f a"
  by (simp add: as_admin_passes [OF key_role])

lemma audit_fields [simp]:
  "d_objects (audit cx e t det d) = d_objects d" "d_links (audit cx e t det d) = d_links d" "find_obj (audit cx e t det d) i = find_obj d i"
  "d_obj_cache (audit cx e t det d) = d_obj_cache d" "db_ok (audit cx e t det d) = db_ok d"
  by (simp_all add: audit_def log_audit_def find_obj_def db_ok_def Let_def)

section \<open>Copies share their blobs\<close>

lemma visible_copy:
  assumes "find_obj d u = None" and "o_id row = u" and "untrashed row"
  shows "visible u True (d\<lparr>d_objects := d_objects d @ [row]\<rparr>) = Some row"
  using assms by (auto simp: visible_def find_obj_def find_append split: option.split)

text \<open>C16: A copy of an object refers to the same blobs. Purging the copy, which the trash route does although it was never
  trashed, deletes every blob of the original, whose row stays.\<close>

theorem copy_purge_destroys_original:
  assumes "holds_admin_key cx r" and "db_ok (ap_db a)" and "find (\<lambda>x. o_id x = i \<and> untrashed x) (d_objects (ap_db a)) = Some row"
    and "o_manifest row = Some (to_json mf)" and "find_obj (ap_db a) u = None" and "i \<noteq> []"
  shows "let (a1, copied) = object_copy cx u r (Some (JObj [(''id'', JStr i)])) a;
           (a2, purged) = trash_purge_one cx fakes_delete po backend r u a1
     in \<not> isl copied \<and> \<not> isl purged \<and> row \<in> set (d_objects (ap_db a2)) \<and> untrashed row
        \<and> list_all (\<lambda>c. isl (snd (fakes_open (pool_name po (holder_of po backend (c_backend c))) (mk_ref (c_file_id c) mid nm) (ap_world a2)))) (m_chunks mf)"
proof -
  let ?d = "ap_db a"
  let ?copy = "copy_row (cx_now cx) u (copy_name (o_filename row)) row"
  let ?d1 = "audit cx ''file.copy'' (Some i) DNone (?d\<lparr>d_objects := d_objects ?d @ [?copy]\<rparr>)"
  have row: "row \<in> set (d_objects ?d)" "o_id row = i" "untrashed row" using assms(3) by (auto simp: find_Some_iff)
  have c: "object_copy cx u r (Some (JObj [(''id'', JStr i)])) a = (a\<lparr>ap_db := ?d1\<rparr>, Inr ?copy)"
    unfolding object_copy_def key_passes [OF assms(1)]
    using assms(3,5,6) by (simp add: copy_filename_def copy_object_def jtruthy_def truthy_str_def Let_def)
  have ok: "db_ok ?d1"
    using db_ok_copy_object [OF assms(2), of "cx_now cx" u i None] assms(3,5) by (simp add: copy_object_def truthy_str_def Let_def)
  have v: "fst (get_object u True ?d1) = Some ?copy"
    unfolding get_object_visible [OF ok] using visible_copy [OF assms(5), of ?copy] by (simp add: visible_def copy_row_def untrashed_def)
  then obtain d2 where g: "get_object u True ?d1 = (Some ?copy, d2)" by (cases "get_object u True ?d1") auto
  have d2: "d_objects d2 = d_objects ?d1" using g by (auto simp: get_object_def Let_def split: prod.splits option.splits if_splits)
  have m: "o_manifest ?copy = Some (to_json mf)" "o_id ?copy = u" using assms(4) by (simp_all add: copy_row_def)
  obtain w' n evt where p: "purge_object_blobs fakes_delete po backend ?copy d2 (ap_world a) = (purge_rows_of u d2, w', Inr (n, evt))"
      "\<forall>p. blob w' p = (if p \<in> chunk_at po backend ` set (m_chunks mf) then None else blob (ap_world a) p)"
    using object_purge [OF m(1), of po backend d2 "ap_world a"] unfolding m(2) by blast
  have t: "\<exists>a2. trash_purge_one cx fakes_delete po backend r u (a\<lparr>ap_db := ?d1\<rparr>) = (a2, Inr (u, n))
      \<and> ap_world a2 = w' \<and> d_objects (ap_db a2) = d_objects (purge_rows_of u d2)"
    unfolding trash_purge_one_def key_passes [OF assms(1)] using g p(1) by (simp add: queue_event_def split: option.split)
  have ne: "i \<noteq> u" using assms(5) row by (auto simp: find_obj_None)
  have "list_all (\<lambda>c. isl (snd (fakes_open (pool_name po (holder_of po backend (c_backend c))) (mk_ref (c_file_id c) mid nm) w'))) (m_chunks mf)"
    unfolding list_all_iff using p(2) by (auto simp: fakes_open_blob chunk_at_def image_iff)
  moreover have "row \<in> set (d_objects (purge_rows_of u d2))" unfolding purge_rows_fields d2 using row ne by simp
  ultimately show ?thesis using t row(3) unfolding c by auto
qed

definition demo_copies :: "(nat, string \<Rightarrow> nat fake) app" where
  "demo_copies = \<lparr>ap_db = db_empty\<lparr>d_objects := [demo_purged]\<rparr>, ap_caches = \<lparr>ca_disk = None, ca_chunks = None\<rparr>,
     ap_world = (\<lambda>_. fst (fake_store [7 :: nat, 8] [] None fake_init)), ap_jobs = None, ap_tasks = tm_init, ap_conns = None, ap_rebuild = None,
     ap_events = []\<rparr>"

lemma demo_admin_key: "holds_admin_key demo_bot demo_admin"
proof -
  have "presented_key demo_admin = Some ''adm''" by code_simp
  then show ?thesis by (simp add: holds_admin_key_def demo_bot_def truthy_str_def)
qed

lemma copy_purge_destroys_original_witness:
  "let (a1, copied) = object_copy demo_bot ''y'' demo_admin (Some (JObj [(''id'', JStr ''x'')])) demo_copies;
       (a2, purged) = trash_purge_one demo_bot fakes_delete None (Outside ''fake'') demo_admin ''y'' a1
   in \<not> isl copied \<and> demo_purged \<in> set (d_objects (ap_db a2)) \<and> isl (snd (fakes_open ''fake'' (mk_ref ''fake-0'' None ''f'') (ap_world a2)))
      \<and> snd (fakes_open ''fake'' (mk_ref ''fake-0'' None ''f'') (ap_world demo_copies)) = Inr [7, 8]"
proof -
  have o: "snd (fakes_open ''fake'' (mk_ref ''fake-0'' None ''f'') (ap_world demo_copies)) = Inr [7, 8]" by code_simp
  have f: "find (\<lambda>x. o_id x = ''x'' \<and> untrashed x) (d_objects (ap_db demo_copies)) = Some demo_purged"
    by (simp add: demo_copies_def demo_purged_def untrashed_def)
  have n: "find_obj (ap_db demo_copies) ''y'' = None" by (simp add: demo_copies_def demo_purged_def find_obj_def)
  have k: "db_ok (ap_db demo_copies)" by (simp add: demo_copies_def db_empty_def db_ok_def cache_ok_def)
  have p: "pool_name None (holder_of None (Outside ''fake'') None) = ''fake''" by code_simp
  show ?thesis
    using copy_purge_destroys_original [OF demo_admin_key k f _ n, where mf = "\<lparr>m_chunks = [\<lparr>c_index = 0, c_size = 2, c_file_id = ''fake-0'',
      c_message_id = None, c_bot_file_id = None, c_backend = None\<rparr>], m_total_size = 2\<rparr>" and po = None and backend = "Outside ''fake''" and mid = None and nm = "''f''"]
    by (simp add: demo_purged_def [symmetric] p o split_beta Let_def) (simp add: demo_purged_def)
qed

section \<open>Exports and rebuilds\<close>

text \<open>Also: The chunk column of a CSV export is 0 in every row, however many chunks an object has.\<close>

theorem export_counts_no_chunks:
  assumes "holds_admin_key cx r"
  shows "\<exists>rows. snd (export_metadata cx r ''csv'' a) = Inr (Csv ([''id'', ''filename'', ''size'', ''chunks'', ''downloads'', ''created_at'', ''content_type'', ''sha256''] # rows))
    \<and> length rows = min 500 (length (filter untrashed (d_objects (ap_db a)))) \<and> list_all (\<lambda>row. row ! 3 = ''0'') rows"
proof -
  have l: "length (list_objects 500 0 False (ap_db a)) = min 500 (length (filter untrashed (d_objects (ap_db a))))"
    by (simp add: list_objects_def sql_limit_def order_desc_def)
  have "list_all (\<lambda>row. row ! 3 = ''0'') (map csv_row (map fst (list_objects 500 0 False (ap_db a))))"
    by (auto simp: list_all_iff list_objects_def csv_row_def numeral_3_eq_3)
  then show ?thesis unfolding export_metadata_def key_passes [OF assms] using l by (simp add: Let_def)
qed

lemma export_counts_no_chunks_witness:
  "\<exists>rows. snd (export_metadata demo_bot demo_admin ''csv'' demo_copies) = Inr (Csv ([''id'', ''filename'', ''size'', ''chunks'', ''downloads'', ''created_at'', ''content_type'', ''sha256''] # rows))
    \<and> length rows = 1"
  using export_counts_no_chunks [OF demo_admin_key, of demo_copies] by (auto simp: demo_copies_def demo_purged_def untrashed_def)

text \<open>Also: A rebuild that waits in the queue runs with the limit and the secret of whatever rebuild was requested last, not with
  its own: the queue has one handler for the kind.\<close>

theorem queued_rebuild_uses_last_request:
  assumes "holds_admin_key cx r" and "ap_jobs a = Some q" and "jq_state q j1 = Some ''queued''" and "ap_rebuild a = Some (lmt1, secret1)"
    and "rebuild_limit body = Inr lmt" and "body_text ''secret'' body = Inr s" and "s \<noteq> []"
    and "rebuild_scan cx ks h lmt (Some s) a = (b, res)"
  shows "let a1 = fst (channel_rebuild cx ks h j2 r body a); a2 = fst (rebuild_job cx ks h j1 a1)
     in ap_world a2 = ap_world b \<and> d_objects (ap_db a2) = d_objects (ap_db b)"
proof -
  obtain q1 x where q1: "jq_submit (cx_now cx) ''channel_rebuild'' j2 (JObj []) True q = (q1, x)" by (rule prod.exhaust)
  have a1: "fst (channel_rebuild cx ks h j2 r body a) = a\<lparr>ap_jobs := Some q1, ap_rebuild := Some (lmt, Some s)\<rparr>"
    unfolding channel_rebuild_def key_passes [OF assms(1)] using assms(2,5-7) q1 by simp
  have "rebuild_scan cx ks h lmt (Some s) (a\<lparr>ap_jobs := Some q1, ap_rebuild := Some (lmt, Some s)\<rparr>)
      = (b\<lparr>ap_jobs := Some q1, ap_rebuild := Some (lmt, Some s)\<rparr>, res)"
    using assms(8) by (auto simp: rebuild_scan_def split: option.splits prod.splits sum.splits)
  then show ?thesis unfolding a1 Let_def rebuild_job_def by (auto split: sum.split)
qed

definition demo_history :: "int \<Rightarrow> int list \<Rightarrow> int list \<times> ch_msg list res" where
  "demo_history n asked = (asked @ [n], Inr [])"

definition demo_waiting :: "(nat, int list) app" where
  "demo_waiting = \<lparr>ap_db = db_empty, ap_caches = \<lparr>ca_disk = None, ca_chunks = None\<rparr>, ap_world = [],
     ap_jobs = Some (fst (jq_submit 5 ''channel_rebuild'' ''b'' (JObj []) True (fst (jq_submit 5 ''channel_rebuild'' ''a'' (JObj []) True (jq_init []))))),
     ap_tasks = tm_init, ap_conns = None, ap_rebuild = Some (20, Some ''secret-b''), ap_events = []\<rparr>"

lemma queued_rebuild_uses_last_request_witness:
  "let a1 = fst (channel_rebuild demo_bot toy_keys (Some demo_history) ''c'' demo_admin (Some (JObj [(''limit'', JInt 30), (''secret'', JStr ''secret-c'')])) demo_waiting)
   in ap_world (fst (rebuild_job demo_bot toy_keys (Some demo_history) ''b'' a1)) = [30]"
proof -
  have q: "ap_jobs demo_waiting = Some (the (ap_jobs demo_waiting))" by (simp add: demo_waiting_def)
  have s: "jq_state (the (ap_jobs demo_waiting)) ''b'' = Some ''queued''" by code_simp
  have r: "ap_rebuild demo_waiting = Some (20, Some ''secret-b'')" by (simp add: demo_waiting_def)
  have l: "rebuild_limit (Some (JObj [(''limit'', JInt 30), (''secret'', JStr ''secret-c'')])) = Inr 30"
    and b: "body_text ''secret'' (Some (JObj [(''limit'', JInt 30), (''secret'', JStr ''secret-c'')])) = Inr ''secret-c''" by code_simp+
  obtain a2 res where c: "rebuild_scan demo_bot toy_keys (Some demo_history) 30 (Some ''secret-c'') demo_waiting = (a2, res)" by (rule prod.exhaust)
  have w: "ap_world a2 = [30]" using c by (auto simp: rebuild_scan_def demo_history_def demo_waiting_def split: prod.splits)
  show ?thesis using queued_rebuild_uses_last_request [OF demo_admin_key q s r l b _ c] w by (simp add: Let_def)
qed

end
