(* ===== verification/AdminEnv.thy ===== *)
theory AdminEnv
  imports AdminFiles
begin

text \<open>
  The configuration half of \<^verbatim>\<open>src/src/anbar/api/admin.py\<close>: masking of secrets, the \<^verbatim>\<open>.env\<close> file with its atomic and
  its in-place rewrite, the Telegram configuration and the interactive login. Characters are Latin-1, so the
  bullet of a masked secret is a stand-in.
\<close>

section \<open>Masking\<close>

definition bullet :: char where "bullet = CHR 0x95"

(* src: src/src/anbar/api/admin.py auto _mask_secret *)
definition mask_secret :: "string option \<Rightarrow> nat \<Rightarrow> string" where
  "mask_secret v vis =
     (if \<not> truthy_str v then []
      else let t = strip (the v)
           in if length t \<le> vis * 2 then ''****''
              else take vis t @ replicate (length t - vis * 2) bullet @ drop (length t - vis) t)"

section \<open>The environment file\<close>

text \<open>\<^verbatim>\<open>str.splitlines\<close>.\<close>

definition line_break :: "char \<Rightarrow> bool" where
  "line_break c = (code c \<in> {10, 11, 12, 13, 28, 29, 30, 133})"

function splitlines :: "string \<Rightarrow> string list" where
  "splitlines s =
     (if s = [] then []
      else takeWhile (\<lambda>c. \<not> line_break c) s #
        (case dropWhile (\<lambda>c. \<not> line_break c) s of
           [] \<Rightarrow> []
         | b # r \<Rightarrow> splitlines (if b = CHR 0x0D \<and> startswith r [CHR 0x0A] then tl r else r)))"
  by pat_completeness auto
termination
proof (relation "measure length")
  fix s :: string and b r
  assume "dropWhile (\<lambda>c. \<not> line_break c) s = b # r"
  then have "length (b # r) \<le> length s" by (metis length_dropWhile_le)
  then show "(if b = CHR 0x0D \<and> startswith r [CHR 0x0A] then tl r else r, s) \<in> measure length" by auto
qed simp

text \<open>The key and the value of a line that has them.\<close>

(* src: src/src/anbar/api/admin.py 878-884 _read_env_dict *)
definition env_line :: "string \<Rightarrow> (string \<times> string) option" where
  "env_line l =
     (let l = strip l in
      if l = [] \<or> startswith l ''#'' then None
      else (case split1 (CHR ''='') l of
         None \<Rightarrow> None
       | Some (k, v) \<Rightarrow> Some (strip k, strip_by (\<lambda>c. c = CHR 0x27 \<or> c = CHR 0x22) (strip v))))"

(* src: src/src/anbar/api/admin.py 877-884 _read_env_dict *)
definition read_env :: "string list \<Rightarrow> (string \<times> string) list" where
  "read_env ls = fold (\<lambda>l d. case env_line l of None \<Rightarrow> d | Some (k, v) \<Rightarrow> AList.update k v d) ls []"

(* src: src/src/anbar/api/admin.py auto _read_env_dict *)
definition read_env_dict :: "string option \<Rightarrow> (string \<times> string) list" where
  "read_env_dict content = (case content of None \<Rightarrow> [] | Some t \<Rightarrow> read_env (splitlines t))"

text \<open>The old lines with the updated keys replaced, then the keys that had no line.\<close>

(* src: src/src/anbar/api/admin.py 893-903 _write_env_dict *)
definition new_line :: "(string \<times> string) list \<Rightarrow> string \<Rightarrow> string \<times> string list" where
  "new_line upd l =
     (case env_line l of
        None \<Rightarrow> (l, [])
      | Some (k, _) \<Rightarrow> (case map_of upd k of None \<Rightarrow> (l, []) | Some v \<Rightarrow> (k @ ''='' @ v, [k])))"

(* src: src/src/anbar/api/admin.py 888-909 _write_env_dict *)
definition env_content :: "string option \<Rightarrow> (string \<times> string) list \<Rightarrow> string" where
  "env_content old upd =
     (let ls = (case old of None \<Rightarrow> [] | Some t \<Rightarrow> splitlines t);
          new = map (fst \<circ> new_line upd) ls;
          seen = concat (map (snd \<circ> new_line upd) ls);
          rest = map (\<lambda>(k, v). k @ ''='' @ v) (filter (\<lambda>(k, _). k \<notin> set seen) upd)
      in join [CHR 0x0A] (new @ rest) @ [CHR 0x0A])"

text \<open>The file, the one-shot backup beside it, and the system calls that fail in one run. A write that fails half-way
  leaves what it got to.\<close>

record envfs =
  fs_env :: "string option"
  fs_bak :: "string option"

record faults =
  no_temp :: bool
  no_rename_away :: bool
  no_replace :: bool
  no_backup :: bool
  no_open :: bool
  short_write :: "string option"

(* src: src/src/anbar/api/admin.py 940-974 _write_env_dict *)
definition write_in_place :: "faults \<Rightarrow> string \<Rightarrow> envfs \<Rightarrow> envfs \<times> bool" where
  "write_in_place f content fs =
     (case fs_env fs of
        None \<Rightarrow> (fs, False)
      | Some old \<Rightarrow>
          let fs = (if no_backup f then fs else fs\<lparr>fs_bak := Some old\<rparr>)
          in if no_open f then (fs, False)
             else (case short_write f of
                None \<Rightarrow> (fs\<lparr>fs_env := Some content\<rparr>, True)
              | Some part \<Rightarrow> (case fs_bak fs of
                   None \<Rightarrow> (fs\<lparr>fs_env := Some part\<rparr>, False)
                 | Some b \<Rightarrow> (\<lparr>fs_env = Some b, fs_bak = None\<rparr>, False))))"

text \<open>The states of the file the atomic path goes through, for a crash in between, and the end.\<close>

(* src: src/src/anbar/api/admin.py 924-931 _write_env_dict *)
definition moved_away :: "faults \<Rightarrow> envfs \<Rightarrow> envfs" where
  "moved_away f fs = (case fs_env fs of None \<Rightarrow> fs
     | Some old \<Rightarrow> if no_rename_away f then fs else \<lparr>fs_env = None, fs_bak = Some old\<rparr>)"

(* src: src/src/anbar/api/admin.py auto _write_env_dict *)
definition write_env_dict :: "faults \<Rightarrow> (string \<times> string) list \<Rightarrow> envfs \<Rightarrow> envfs \<times> bool" where
  "write_env_dict f upd fs =
     (let content = env_content (fs_env fs) upd in
      if no_temp f then write_in_place f content fs
      else let fs = moved_away f fs
           in if no_replace f then write_in_place f content fs else (fs\<lparr>fs_env := Some content\<rparr>, True))"

section \<open>The Telegram configuration\<close>

text \<open>The settings object and the file beside the state of the other routes.\<close>

record ('b, 'w) env_app = "('b, 'w) app" +
  ea_settings :: settings
  ea_fs :: envfs

text \<open>One field of the body: it adds entries for the file and may change the store or the settings at once.\<close>

type_synonym ('b, 'w) conf = "(string \<times> string) list \<times> ('b, 'w) env_app"

definition put :: "string \<Rightarrow> string \<Rightarrow> ('b, 'w) conf \<Rightarrow> ('b, 'w) conf" where
  "put k v c = (AList.update k v (fst c), snd c)"

definition set_flag :: "string \<Rightarrow> int \<Rightarrow> ('b, 'w) conf \<Rightarrow> ('b, 'w) conf" where
  "set_flag k n c = (fst c, on_db (\<lambda>d. fst (set_int k (JInt n) d)) (snd c))"

definition conf_text :: "json \<Rightarrow> string" where
  "conf_text v = strip (py_str v)"

text \<open>\<^verbatim>\<open>int(v)\<close>\<close>

definition conf_int :: "json \<Rightarrow> int res" where
  "conf_int v = (case v of
     JInt n \<Rightarrow> Inr n
   | JBool b \<Rightarrow> Inr (if b then 1 else 0)
   | JStr t \<Rightarrow> (case py_int t of None \<Rightarrow> Inl (ValueError ''int'') | Some n \<Rightarrow> Inr n)
   | _ \<Rightarrow> Inl TypeError)"

(* src: src/src/anbar/api/admin.py 1273-1285 telegram_config_update *)
definition conf_backend :: "json \<Rightarrow> ('b, 'w) conf \<Rightarrow> ('b, 'w) conf \<times> unit res" where
  "conf_backend v c =
     (let b = lower (conf_text v) in
      if b = ''hybrid'' then (set_flag ''hybrid_enabled'' 1 (put ''ANBAR_HYBRID_ENABLED'' ''true'' (put ''ANBAR_BACKEND'' ''mtproto'' c)), Inr ())
      else if b = ''bot'' then (set_flag ''hybrid_enabled'' 0 (put ''ANBAR_HYBRID_ENABLED'' ''false'' (put ''ANBAR_BACKEND'' b c)), Inr ())
      else if b \<in> {''mtproto'', ''fake''} then (put ''ANBAR_BACKEND'' b c, Inr ())
      else (c, Inl (HTTPException 422 ''invalid backend (must be hybrid, bot, or mtproto)'')))"

(* src: src/src/anbar/api/admin.py 1287-1290 telegram_config_update *)
definition conf_hybrid :: "json \<Rightarrow> ('b, 'w) conf \<Rightarrow> ('b, 'w) conf \<times> unit res" where
  "conf_hybrid v c =
     (set_flag ''hybrid_enabled'' (if jtruthy v then 1 else 0) (put ''ANBAR_HYBRID_ENABLED'' (if jtruthy v then ''true'' else ''false'') c), Inr ())"

(* src: src/src/anbar/api/admin.py 1292-1297 telegram_config_update *)
definition conf_tokens :: "json \<Rightarrow> ('b, 'w) conf \<Rightarrow> ('b, 'w) conf \<times> unit res" where
  "conf_tokens v c =
     (let t = conf_text v; first = (if t = [] then [] else strip (hd (split_on (CHR '','') t)));
          c = put ''ANBAR_BOT_TOKENS'' t c
      in (if first \<noteq> [] then put ''ANBAR_BOT_TOKEN'' first c else c, Inr ()))"

text \<open>The tokens of the file, not of the entries collected so far.\<close>

(* src: src/src/anbar/api/admin.py 1305-1306 telegram_config_update *)
definition file_tokens :: "('b, 'w) conf \<Rightarrow> string list" where
  "file_tokens c =
     filter (\<lambda>t. t \<noteq> []) (map strip (split_on (CHR '','') (case map_of (read_env_dict (fs_env (ea_fs (snd c)))) ''ANBAR_BOT_TOKENS'' of
        None \<Rightarrow> [] | Some t \<Rightarrow> t)))"

(* src: src/src/anbar/api/admin.py 1299-1311 telegram_config_update *)
definition conf_add_token :: "json \<Rightarrow> ('b, 'w) conf \<Rightarrow> ('b, 'w) conf \<times> unit res" where
  "conf_add_token v c =
     (let add = conf_text v; toks = file_tokens c in
      if add = [] \<or> bullet \<in> set add \<or> add \<in> set toks then (c, Inr ())
      else let toks = toks @ [add]; c = put ''ANBAR_BOT_TOKENS'' (join '', '' toks) c
           in (if truthy_str (map_of (fst c) ''ANBAR_BOT_TOKEN'') then c else put ''ANBAR_BOT_TOKEN'' (hd toks) c, Inr ()))"

(* src: src/src/anbar/api/admin.py 1313-1329 telegram_config_update *)
definition conf_remove_token :: "json \<Rightarrow> ('b, 'w) conf \<Rightarrow> ('b, 'w) conf \<times> unit res" where
  "conf_remove_token v c =
     (case conf_int v of
        Inl _ \<Rightarrow> (c, Inl (HTTPException 422 ''bot_remove_index must be an integer''))
      | Inr i \<Rightarrow>
          let toks = file_tokens c in
          if 0 \<le> i \<and> i < int (length toks)
          then let toks = take (nat i) toks @ drop (Suc (nat i)) toks
               in (put ''ANBAR_BOT_TOKEN'' (case toks of [] \<Rightarrow> [] | t # _ \<Rightarrow> t) (put ''ANBAR_BOT_TOKENS'' (join '', '' toks) c), Inr ())
          else (c, Inl (HTTPException 404 ''token index out of range'')))"

(* src: src/src/anbar/api/admin.py 1331-1337 telegram_config_update *)
definition conf_plain :: "string \<Rightarrow> json \<Rightarrow> ('b, 'w) conf \<Rightarrow> ('b, 'w) conf \<times> unit res" where
  "conf_plain k v c = (put k (conf_text v) c, Inr ())"

(* src: src/src/anbar/api/admin.py 1339-1343 telegram_config_update *)
definition conf_api_id :: "json \<Rightarrow> ('b, 'w) conf \<Rightarrow> ('b, 'w) conf \<times> unit res" where
  "conf_api_id v c =
     (let t = conf_text v in
      if t \<noteq> [] \<and> \<not> isdigit t then (c, Inl (HTTPException 422 ''api_id must be a numeric integer'')) else (put ''ANBAR_API_ID'' t c, Inr ()))"

text \<open>A masked value is not taken over.\<close>

definition unmasked :: "string \<Rightarrow> bool" where
  "unmasked t = (t \<noteq> [] \<and> bullet \<notin> set t \<and> CHR ''*'' \<notin> set t)"

(* src: src/src/anbar/api/admin.py 1345-1348 telegram_config_update *)
definition conf_api_hash :: "json \<Rightarrow> ('b, 'w) conf \<Rightarrow> ('b, 'w) conf \<times> unit res" where
  "conf_api_hash v c = (if unmasked (conf_text v) then put ''ANBAR_API_HASH'' (conf_text v) c else c, Inr ())"

(* src: src/src/anbar/api/admin.py 1354-1361 telegram_config_update *)
definition conf_chunk_size :: "json \<Rightarrow> ('b, 'w) conf \<Rightarrow> ('b, 'w) conf \<times> unit res" where
  "conf_chunk_size v c =
     (case conf_int v of
        Inl (ValueError _) \<Rightarrow> (c, Inl (HTTPException 422 ''chunk_size_mb must be integer''))
      | Inl e \<Rightarrow> (c, Inl e)
      | Inr n \<Rightarrow> if n < 1 \<or> n > 49 then (c, Inl (HTTPException 422 ''chunk_size_mb must be between 1 and 49''))
                 else (put ''ANBAR_CHUNK_SIZE_MB'' (str_of_int n) c, Inr ()))"

(* src: src/src/anbar/api/admin.py 1363-1368 telegram_config_update *)
definition conf_owners :: "json \<Rightarrow> ('b, 'w) conf \<Rightarrow> ('b, 'w) conf \<times> unit res" where
  "conf_owners v c =
     (case put ''ANBAR_OWNER_TG_IDS'' (conf_text v) c of
        (u, a) \<Rightarrow> ((u, on_db (kv_set ''cfg_tg_owner_ids'' (conf_text v)) (a\<lparr>ea_settings := (ea_settings a)\<lparr>s_owner_tg_ids_raw := Some (conf_text v)\<rparr>\<rparr>)), Inr ()))"

(* src: src/src/anbar/api/admin.py 1370-1378 telegram_config_update *)
definition conf_webhook_secret :: "json \<Rightarrow> ('b, 'w) conf \<Rightarrow> ('b, 'w) conf \<times> unit res" where
  "conf_webhook_secret v c =
     (if \<not> unmasked (conf_text v) then (c, Inr ())
      else (case put ''ANBAR_TG_WEBHOOK_SECRET'' (conf_text v) c of
        (u, a) \<Rightarrow> ((u, on_db (kv_set ''cfg_tg_webhook_secret'' (conf_text v)) (a\<lparr>ea_settings := (ea_settings a)\<lparr>s_tg_webhook_secret := Some (conf_text v)\<rparr>\<rparr>)), Inr ())))"

(* src: src/src/anbar/api/admin.py 1380-1384 telegram_config_update *)
definition conf_strategy :: "json \<Rightarrow> ('b, 'w) conf \<Rightarrow> ('b, 'w) conf \<times> unit res" where
  "conf_strategy v c =
     (let t = lower (conf_text v)
      in (put ''tg_ingest_storage_strategy'' t (set_flag ''tg_ingest_bot_only'' (if t \<in> {''bot_only'', ''bot''} then 1 else 0) c), Inr ()))"

(* src: src/src/anbar/api/admin.py 1386-1392 telegram_config_update *)
definition conf_concurrency :: "json \<Rightarrow> ('b, 'w) conf \<Rightarrow> ('b, 'w) conf \<times> unit res" where
  "conf_concurrency v c =
     (case conf_int v of
        Inl _ \<Rightarrow> (c, Inr ())
      | Inr n \<Rightarrow> let m = max 1 (min 8 n)
          in (put ''tg_ingest_concurrency'' (str_of_int m) (set_flag ''tg_ingest_concurrency'' m c), Inr ()))"

text \<open>The fields in the order the code looks at them, whatever the order of the body.\<close>

definition conf_fields :: "(string \<times> (json \<Rightarrow> ('b, 'w) conf \<Rightarrow> ('b, 'w) conf \<times> unit res)) list" where
  "conf_fields =
     [(''backend'', conf_backend), (''hybrid_enabled'', conf_hybrid), (''bot_tokens'', conf_tokens), (''bot_add_token'', conf_add_token),
      (''bot_remove_index'', conf_remove_token), (''channel_id'', conf_plain ''ANBAR_CHANNEL_ID''),
      (''channel_thread_id'', conf_plain ''ANBAR_CHANNEL_THREAD_ID''), (''api_id'', conf_api_id), (''api_hash'', conf_api_hash),
      (''mtproto_peer'', conf_plain ''ANBAR_MTPROTO_PEER''), (''chunk_size_mb'', conf_chunk_size), (''owner_tg_ids'', conf_owners),
      (''tg_webhook_secret'', conf_webhook_secret), (''tg_ingest_storage_strategy'', conf_strategy), (''tg_ingest_concurrency'', conf_concurrency)]"

fun conf_each :: "(string \<times> json) list \<Rightarrow> (string \<times> (json \<Rightarrow> ('b, 'w) conf \<Rightarrow> ('b, 'w) conf \<times> unit res)) list
    \<Rightarrow> ('b, 'w) conf \<Rightarrow> ('b, 'w) conf \<times> unit res" where
  "conf_each kvs [] c = (c, Inr ())"
| "conf_each kvs ((k, f) # fs) c =
     (case map_of kvs k of
        None \<Rightarrow> conf_each kvs fs c
      | Some v \<Rightarrow> (case f v c of (c, Inl e) \<Rightarrow> (c, Inl e) | (c, Inr _) \<Rightarrow> conf_each kvs fs c))"

text \<open>The reply names the keys written.\<close>

(* src: src/src/anbar/api/admin.py auto telegram_config_update *)
definition telegram_config_update :: "ctx \<Rightarrow> faults \<Rightarrow> request \<Rightarrow> json option \<Rightarrow> ('b, 'w) env_app \<Rightarrow> ('b, 'w) env_app \<times> string list res" where
  "telegram_config_update cx f r body = as_admin cx r (\<lambda>a.
     (case body of
        None \<Rightarrow> (a, Inl (HTTPException 400 ''expected JSON body''))
      | Some (JObj kvs) \<Rightarrow>
          (case conf_each kvs conf_fields ([], a) of
             ((u, a), Inl e) \<Rightarrow> (a, Inl e)
           | ((u, a), Inr _) \<Rightarrow>
               if u = [] then (a, Inr [])
               else (case write_env_dict f u (ea_fs a) of
                  (fs, True) \<Rightarrow> (a\<lparr>ea_fs := fs\<rparr>, Inr (map fst u))
                | (fs, False) \<Rightarrow> (a\<lparr>ea_fs := fs\<rparr>, Inl (HTTPException 500 ''could not persist settings''))))
      | Some _ \<Rightarrow> (a, Inl (HTTPException 400 ''expected JSON object''))))"

text \<open>What the configuration page gets; the raw tokens, the hash and the webhook secret only as masks.\<close>

record conf_view =
  cv_backend :: string
  cv_hybrid :: bool
  cv_tokens :: "string list"
  cv_channel :: string
  cv_thread :: string
  cv_api_id :: string
  cv_peer :: string
  cv_session :: bool
  cv_api_hash :: string
  cv_api_hash_set :: bool
  cv_chunk_mb :: int
  cv_owners :: string
  cv_webhook_secret :: string
  cv_webhook_url :: string
  cv_bot_only :: bool
  cv_concurrency :: int

definition first_text :: "string option list \<Rightarrow> string" where
  "first_text vs = (case find truthy_str vs of Some (Some t) \<Rightarrow> t | _ \<Rightarrow> [])"

(* src: src/src/anbar/api/admin.py 1175-1180 telegram_config_get *)
definition shown_tokens :: "settings \<Rightarrow> (string \<times> string) list \<Rightarrow> string list" where
  "shown_tokens s env =
     filter (\<lambda>t. t \<noteq> []) (map strip (split_on (CHR '','') (first_text [map_of env ''ANBAR_BOT_TOKENS'', s_bot_tokens_raw s, s_bot_token s])))"

text \<open>\<open>cfg\<close> gives the texts of the settings that \<^verbatim>\<open>config.py\<close> holds besides the record, \<open>online\<close> says that the
  back-end has a connected client. The test of the credentials that can be asked for is left out.\<close>

(* src: src/src/anbar/api/admin.py 1166-1245 telegram_config_get *)
definition telegram_config_get :: "ctx \<Rightarrow> (string \<Rightarrow> string) \<Rightarrow> bool \<Rightarrow> request \<Rightarrow> ('b, 'w) env_app \<Rightarrow> ('b, 'w) env_app \<times> conf_view res" where
  "telegram_config_get cx cfg online r = as_admin cx r (\<lambda>a.
     let s = ea_settings a; d = ap_db a; env = read_env_dict (fs_env (ea_fs a));
         raw = first_text [map_of env ''ANBAR_API_HASH'', Some (cfg ''api_hash'')];
         or_cfg = (\<lambda>k c. case map_of env k of Some t \<Rightarrow> t | None \<Rightarrow> cfg c)
     in (a, Inr \<lparr>
          cv_backend = or_cfg ''ANBAR_BACKEND'' ''backend'',
          cv_hybrid = (get_int_setting d ''hybrid_enabled'' (if s_hybrid_enabled s then 1 else 0) \<noteq> 0
            \<or> lower (case map_of env ''ANBAR_HYBRID_ENABLED'' of Some b \<Rightarrow> b | None \<Rightarrow> []) \<in> {''true'', ''1'', ''yes''}),
          cv_tokens = map (\<lambda>t. mask_secret (Some t) 6) (shown_tokens s env),
          cv_channel = (case map_of env ''ANBAR_CHANNEL_ID'' of Some c \<Rightarrow> c | None \<Rightarrow> s_channel_id s),
          cv_thread = or_cfg ''ANBAR_CHANNEL_THREAD_ID'' ''channel_thread_id'',
          cv_api_id = first_text [map_of env ''ANBAR_API_ID'', Some (cfg ''api_id'')],
          cv_peer = or_cfg ''ANBAR_MTPROTO_PEER'' ''mtproto_peer'',
          cv_session = (truthy_str (kv_get d ''cfg_tg_session'') \<or> online),
          cv_api_hash = mask_secret (Some raw) 4,
          cv_api_hash_set = (raw \<noteq> []),
          cv_chunk_mb = (case map_of env ''ANBAR_CHUNK_SIZE_MB'' of
             Some t \<Rightarrow> if t = [] then s_chunk_size_mb s else (case py_int t of Some n \<Rightarrow> n | None \<Rightarrow> s_chunk_size_mb s)
           | None \<Rightarrow> s_chunk_size_mb s),
          cv_owners = first_text [kv_get d ''cfg_tg_owner_ids'', map_of env ''ANBAR_OWNER_TG_IDS'', map_of env ''ANBAR_OWNER_TG_ID'',
            s_owner_tg_ids_raw s, Some (cfg ''owner_tg_ids'')],
          cv_webhook_secret = mask_secret (Some (first_text [kv_get d ''cfg_tg_webhook_secret'', map_of env ''ANBAR_TG_WEBHOOK_SECRET'', s_tg_webhook_secret s])) 4,
          cv_webhook_url = rstrip_slash (s_base_url s) @ ''/api/v1/tg/webhook'',
          cv_bot_only = (get_int_setting d ''tg_ingest_bot_only'' 0 \<noteq> 0),
          cv_concurrency = get_int_setting d ''tg_ingest_concurrency'' 4\<rparr>))"

text \<open>The one route that shows the hash, and logs that it did.\<close>

(* src: src/src/anbar/api/admin.py auto telegram_config_reveal_api_hash *)
definition reveal_api_hash :: "ctx \<Rightarrow> string option \<Rightarrow> string option \<Rightarrow> request \<Rightarrow> ('b, 'w) env_app \<Rightarrow> ('b, 'w) env_app \<times> string res" where
  "reveal_api_hash cx os_hash api_hash r = as_admin cx r (\<lambda>a.
     let raw = first_text [map_of (read_env_dict (fs_env (ea_fs a))) ''ANBAR_API_HASH'', os_hash, api_hash]
     in (on_db (\<lambda>d. fst (log_audit (cx_now cx) ''cfg.reveal_api_hash'' ''admin'' None (rq_peer r) DNone d)) a, Inr raw))"

section \<open>The webhook of the bot\<close>

text \<open>One call of the Bot API: method and payload to the decoded answer.\<close>

(* src: src/src/anbar/api/admin.py auto telegram_webhook_set *)
definition telegram_webhook_set :: "ctx \<Rightarrow> (string \<Rightarrow> string \<Rightarrow> (string \<times> json) list \<Rightarrow> json) \<Rightarrow> request \<Rightarrow> json option \<Rightarrow> ('b, 'w) env_app \<Rightarrow> ('b, 'w) env_app \<times> string res" where
  "telegram_webhook_set cx bot_api r body = as_admin cx r (\<lambda>a.
     (case bot_tokens (ea_settings a) of
        [] \<Rightarrow> (a, Inl (HTTPException 400 ''No Telegram Bot Token configured''))
      | token # _ \<Rightarrow>
          (case (case body of None \<Rightarrow> Inr [] | Some (JObj kvs) \<Rightarrow> Inr kvs | Some _ \<Rightarrow> Inl TypeError) of
             Inl e \<Rightarrow> (a, Inl e)
           | Inr kvs \<Rightarrow>
               let given = (\<lambda>k dflt. case map_of kvs k of Some v \<Rightarrow> if jtruthy v then v else JStr dflt | None \<Rightarrow> JStr dflt);
                   url = given ''url'' (rstrip_slash (s_base_url (ea_settings a)) @ ''/api/v1/tg/webhook'');
                   secret = given ''secret'' (effective_webhook_secret (cx_hmac cx) (ea_settings a) (Some (ap_db a)));
                   answer = bot_api token ''setWebhook'' [(''url'', url), (''allowed_updates'', JList [JStr ''message'']), (''secret_token'', secret)]
               in if (case jget answer ''ok'' of Some v \<Rightarrow> jtruthy v | None \<Rightarrow> False) then (a, Inr (py_str url))
                  else (a, Inl (HTTPException 400 ''Telegram API error'')))))"

section \<open>Logging in to Telegram\<close>

text \<open>What the client answers to a code request and to the two sign-ins.\<close>

datatype tg_fault = BadPhone | Flood int | BadCode | CodeExpired | NeedsPassword | BadPassword | OtherFault

text \<open>\<^verbatim>\<open>(body or {}).get(k, "").strip()\<close>\<close>

definition given_text :: "string \<Rightarrow> json option \<Rightarrow> string res" where
  "given_text k body =
     (case body of None \<Rightarrow> Inr [] | Some b \<Rightarrow> if jtruthy b \<and> (case b of JObj _ \<Rightarrow> False | _ \<Rightarrow> True) then Inl TypeError else body_text k body)"

(* src: src/src/anbar/api/admin.py auto telegram_send_code *)
definition telegram_send_code :: "ctx \<Rightarrow> int option \<Rightarrow> string option \<Rightarrow> (string \<Rightarrow> tg_fault + string \<times> string) \<Rightarrow> request \<Rightarrow> json option
    \<Rightarrow> ('b, 'w, 'z) app_scheme \<Rightarrow> ('b, 'w, 'z) app_scheme \<times> string res" where
  "telegram_send_code cx api_id api_hash request_code r body = as_admin cx r (\<lambda>a.
     (case given_text ''phone'' body of
        Inl e \<Rightarrow> (a, Inl e)
      | Inr phone \<Rightarrow>
          if phone = [] then (a, Inl (HTTPException 400 ''Phone number is required''))
          else if \<not> truthy_int api_id \<or> \<not> truthy_str api_hash then (a, Inl (HTTPException 400 ''Telegram API ID and API Hash must be configured first''))
          else (case request_code phone of
             Inr (hash, session) \<Rightarrow>
               (on_db (\<lambda>d. kv_set ''tg_temp_phone'' phone (kv_set ''tg_temp_session'' session (kv_set ''tg_temp_phone_hash'' hash d))) a, Inr hash)
           | Inl BadPhone \<Rightarrow> (a, Inl (HTTPException 400 ''phone number invalid''))
           | Inl (Flood n) \<Rightarrow> (a, Inl (HTTPException 429 (str_of_int n)))
           | Inl _ \<Rightarrow> (a, Inl (HTTPException 500 ''Failed sending code'')))))"

definition sign_in_error :: "tg_fault \<Rightarrow> exc" where
  "sign_in_error f = HTTPException 400 (case f of BadCode \<Rightarrow> ''code'' | CodeExpired \<Rightarrow> ''expired'' | BadPhone \<Rightarrow> ''phone'' | BadPassword \<Rightarrow> ''password''
     | _ \<Rightarrow> ''Verification failed'')"

text \<open>The reply is whether the login is complete or wants the password.\<close>

(* src: src/src/anbar/api/admin.py auto telegram_verify_code *)
definition telegram_verify_code :: "ctx \<Rightarrow> (string \<Rightarrow> string \<Rightarrow> string \<Rightarrow> string \<Rightarrow> tg_fault + string) \<Rightarrow> (string \<Rightarrow> string \<Rightarrow> tg_fault + string)
    \<Rightarrow> request \<Rightarrow> json option \<Rightarrow> ('b, 'w, 'z) app_scheme \<Rightarrow> ('b, 'w, 'z) app_scheme \<times> bool res" where
  "telegram_verify_code cx sign_in sign_in_password r body = as_admin cx r (\<lambda>a.
     (case rbind (given_text ''code'' body) (\<lambda>c. rbind (given_text ''password'' body) (\<lambda>p. rbind (given_text ''phone'' body) (\<lambda>t.
          rbind (given_text ''phone_code_hash'' body) (\<lambda>h. Inr (c, p, t, h))))) of
        Inl e \<Rightarrow> (a, Inl e)
      | Inr (c, p, t, h) \<Rightarrow>
          let phone = (if t \<noteq> [] then t else str_or (kv_get (ap_db a) ''tg_temp_phone'') []);
              hash = (if h \<noteq> [] then h else str_or (kv_get (ap_db a) ''tg_temp_phone_hash'') []);
              session = str_or (kv_get (ap_db a) ''tg_temp_session'') [];
              finish = (\<lambda>s. (on_db (\<lambda>d. audit cx ''auth.telegram_mtproto'' None (DJson (JObj [(''phone'', JStr phone)])) (kv_set ''cfg_tg_session'' s d)) a, Inr True))
          in if c = [] \<or> phone = [] \<or> hash = [] \<or> session = [] then (a, Inl (HTTPException 400 ''Missing required verification data''))
             else (case sign_in session phone c hash of
                Inr s \<Rightarrow> finish s
              | Inl NeedsPassword \<Rightarrow>
                  if p = [] then (a, Inr False)
                  else (case sign_in_password session p of Inr s \<Rightarrow> finish s | Inl f \<Rightarrow> (a, Inl (sign_in_error f)))
              | Inl f \<Rightarrow> (a, Inl (sign_in_error f)))))"

(* src: src/src/anbar/api/admin.py auto telegram_logout *)
definition telegram_logout :: "ctx \<Rightarrow> request \<Rightarrow> ('b, 'w, 'z) app_scheme \<Rightarrow> ('b, 'w, 'z) app_scheme \<times> unit res" where
  "telegram_logout cx r = as_admin cx r (\<lambda>a.
     (on_db (\<lambda>d. audit cx ''auth.telegram_mtproto_logout'' None DNone
        (fold (\<lambda>k. kv_set k []) [''cfg_tg_session'', ''tg_temp_session'', ''tg_temp_phone'', ''tg_temp_phone_hash''] d)) a, Inr ()))"

section \<open>What the file keeps\<close>

declare splitlines.simps [simp del]

abbreviation one_line :: "string \<Rightarrow> bool" where
  "one_line l \<equiv> list_all (\<lambda>c. \<not> line_break c) l"

lemma splitlines_Nil [simp]: "splitlines [] = []"
  by (simp add: splitlines.simps)

lemma newline_break: "line_break (CHR 0x0A)"
  by (simp add: line_break_def code_def)

lemma splitlines_line: "one_line l \<Longrightarrow> splitlines (l @ CHR 0x0A # r) = l # splitlines r"
proof -
  assume "one_line l"
  then have "takeWhile (\<lambda>c. \<not> line_break c) (l @ CHR 0x0A # r) = l" "dropWhile (\<lambda>c. \<not> line_break c) (l @ CHR 0x0A # r) = CHR 0x0A # r"
    by (simp_all add: list_all_iff newline_break)
  then show ?thesis by (subst splitlines.simps) simp
qed

lemma splitlines_join: "list_all one_line ls \<Longrightarrow> ls \<noteq> [] \<Longrightarrow> splitlines (join [CHR 0x0A] ls @ [CHR 0x0A]) = ls"
  by (induction "[CHR 0x0A]" ls rule: join.induct) (simp_all add: splitlines_line)

lemma splitlines_one_line: "list_all one_line (splitlines s)"
proof (induction s rule: splitlines.induct)
  case (1 s)
  show ?case
  proof (cases "s = []")
    case False
    have t: "one_line (takeWhile (\<lambda>c. \<not> line_break c) s)" by (auto simp: list_all_iff dest: set_takeWhileD)
    show ?thesis
    proof (cases "dropWhile (\<lambda>c. \<not> line_break c) s")
      case Nil
      with False t show ?thesis by (subst splitlines.simps) (simp only: list.case if_False list.pred_inject simp_thms)
    next
      case (Cons b r)
      with False t 1 [OF False Cons] show ?thesis by (subst splitlines.simps) (simp only: list.case if_False list.pred_inject simp_thms)
    qed
  qed simp
qed

text \<open>Keys and values that a line can carry.\<close>

definition clean_key :: "string \<Rightarrow> bool" where
  "clean_key k = (k \<noteq> [] \<and> strip k = k \<and> CHR ''='' \<notin> set k \<and> one_line k \<and> \<not> startswith k ''#'')"

definition clean_value :: "string \<Rightarrow> bool" where
  "clean_value v = (strip v = v \<and> one_line v \<and> strip_by (\<lambda>c. c = CHR 0x27 \<or> c = CHR 0x22) v = v)"

definition clean_entry :: "string \<times> string \<Rightarrow> bool" where
  "clean_entry kv = (clean_key (fst kv) \<and> clean_value (snd kv))"

lemma env_line_entry: "clean_entry (k, v) \<Longrightarrow> env_line (k @ ''='' @ v) = Some (k, v)"
proof -
  assume c: "clean_entry (k, v)"
  then have k: "k \<noteq> []" "\<not> is_space (hd k)" "CHR ''='' \<notin> set k" "\<not> startswith k ''#''" "strip k = k"
    using strip_by_ends [of is_space k] by (auto simp: clean_entry_def clean_key_def)
  have v: "strip v = v" "strip_by (\<lambda>c. c = CHR 0x27 \<or> c = CHR 0x22) v = v" "v = [] \<or> \<not> is_space (last v)"
    using c strip_by_ends [of is_space v] by (auto simp: clean_entry_def clean_value_def)
  have "\<not> is_space (last (k @ ''='' @ v))" using v(3) by (auto simp: is_space_def code_def)
  then have s: "strip (k @ ''='' @ v) = k @ ''='' @ v" using k(1,2) by (subst strip_by_ends) simp
  have h: "startswith (k @ ''='' @ v) ''#'' = startswith k ''#''" using k(1) by (cases k) (simp_all add: startswith_def)
  have p: "split1 (CHR ''='') (k @ ''='' @ v) = Some (k, v)" using split1_append [OF k(3), of v] by simp
  show ?thesis unfolding env_line_def s h Let_def p using k v by simp
qed

text \<open>The entries of some lines, in order.\<close>

definition entries :: "string list \<Rightarrow> (string \<times> string) list" where
  "entries ls = List.map_filter env_line ls"

lemma entries_simps [simp]:
  "entries [] = []" "entries (l # ls) = (case env_line l of None \<Rightarrow> entries ls | Some e \<Rightarrow> e # entries ls)" "entries (ls @ ms) = entries ls @ entries ms"
  by (simp_all add: entries_def map_filter_def split: option.split)

lemma read_env_entries: "map_of (read_env ls) = map_of (rev (entries ls))"
proof -
  have "fold (\<lambda>l d. case env_line l of None \<Rightarrow> d | Some (k, v) \<Rightarrow> AList.update k v d) ls d = fold (\<lambda>p d. AList.update (fst p) (snd p) d) (entries ls) d" for d
    by (induction ls arbitrary: d) (auto split: option.split)
  then show ?thesis by (auto simp: read_env_def fold_update_map fun_eq_iff)
qed

lemma entries_new_line:
  assumes "list_all clean_entry upd"
  shows "entries (map (fst \<circ> new_line upd) ls) = map (\<lambda>(k, v). (k, case map_of upd k of None \<Rightarrow> v | Some w \<Rightarrow> w)) (entries ls)"
    and "set (concat (map (snd \<circ> new_line upd) ls)) = fst ` set (entries ls) \<inter> dom (map_of upd)"
proof -
  have e: "env_line (k @ ''='' @ w) = Some (k, w)" if "map_of upd k = Some w" for k w
    by (rule env_line_entry) (use assms that in \<open>auto simp: list_all_iff dest: map_of_SomeD\<close>)
  show "entries (map (fst \<circ> new_line upd) ls) = map (\<lambda>(k, v). (k, case map_of upd k of None \<Rightarrow> v | Some w \<Rightarrow> w)) (entries ls)"
    by (induction ls) (auto simp: new_line_def e simp del: append.simps split: option.split)
  show "set (concat (map (snd \<circ> new_line upd) ls)) = fst ` set (entries ls) \<inter> dom (map_of upd)"
    by (induction ls) (auto simp: new_line_def split: option.splits)
qed

lemma entries_rest:
  assumes "list_all clean_entry upd" shows "entries (map (\<lambda>(k, v). k @ ''='' @ v) upd) = upd"
  using assms by (induction upd) (auto simp: env_line_entry simp del: append.simps)

lemma content_entries:
  assumes "list_all clean_entry upd" and "list_all one_line ls"
    and "new = map (fst \<circ> new_line upd) ls @ map (\<lambda>(k, v). k @ ''='' @ v) (filter (\<lambda>(k, _). k \<notin> set (concat (map (snd \<circ> new_line upd) ls))) upd)"
  shows "entries (splitlines (join [CHR 0x0A] new @ [CHR 0x0A])) = entries new"
proof (cases "new = []")
  case True
  then show ?thesis using splitlines_line [of "[]" "[]"] by (simp add: env_line_def strip_by_def lstrip_by_def rstrip_by_def)
next
  case False
  have e: "one_line (k @ ''='' @ w)" if "(k, w) \<in> set upd" for k w
    using assms(1) that by (auto simp: list_all_iff clean_entry_def clean_key_def clean_value_def line_break_def code_def)
  have n: "one_line (fst (new_line upd l))" if "one_line l" for l
  proof (cases "env_line l")
    case (Some kv)
    show ?thesis
    proof (cases "map_of upd (fst kv)")
      case (Some w)
      then show ?thesis using e [OF map_of_SomeD [OF Some]] \<open>env_line l = Some kv\<close> by (cases kv) (simp add: new_line_def)
    qed (use that \<open>env_line l = Some kv\<close> in \<open>cases kv; simp add: new_line_def\<close>)
  qed (simp add: new_line_def that)
  have "list_all one_line new" unfolding assms(3) using n assms(2) e by (auto simp: list_all_iff)
  then show ?thesis by (simp only: splitlines_join [OF _ False])
qed

lemma map_of_rev_values:
  "map_of (rev (map (\<lambda>(k, v). (k, f k v)) es)) k = map_option (f k) (map_of (rev es) k)"
  by (induction es) (auto simp: map_add_def split: option.split)

lemma map_of_rev_distinct: "distinct (map fst xs) \<Longrightarrow> map_of (rev xs) k = map_of xs k"
proof (induction xs)
  case (Cons x xs)
  moreover have "fst x \<notin> fst ` set xs" using Cons.prems by simp
  then have "map_of xs (fst x) = None" by (simp add: map_of_eq_None_iff)
  ultimately show ?case by (cases x) (auto simp: map_add_def split: option.split)
qed simp

lemma map_of_keys_filter: "map_of (filter (\<lambda>(k, _). k \<notin> S) xs) k = (if k \<in> S then None else map_of xs k)"
  by (induction xs) auto

lemma env_content_reads:
  assumes "list_all clean_entry upd" and "distinct (map fst upd)"
  shows "map_of (read_env_dict (Some (env_content old upd))) k = (case map_of upd k of Some v \<Rightarrow> Some v | None \<Rightarrow> map_of (read_env_dict old) k)"
proof -
  define ls where "ls = (case old of None \<Rightarrow> [] | Some t \<Rightarrow> splitlines t)"
  have o: "list_all one_line ls" "map_of (read_env_dict old) = map_of (rev (entries ls))"
    by (auto simp: ls_def read_env_dict_def read_env_entries splitlines_one_line split: option.split)
  define rest where "rest = filter (\<lambda>(k, _). k \<notin> set (concat (map (snd \<circ> new_line upd) ls))) upd"
  have c: "list_all clean_entry rest" using assms(1) by (auto simp: rest_def list_all_iff)
  have r: "map_of (read_env_dict (Some (env_content old upd))) = map_of (rev (entries (map (fst \<circ> new_line upd) ls) @ rest) )"
    unfolding env_content_def read_env_dict_def option.case read_env_entries Let_def ls_def [symmetric]
      rest_def [symmetric] content_entries [OF assms(1) o(1) refl, folded rest_def] entries_simps(3) entries_rest [OF c] ..
  have d: "distinct (map fst rest)" using assms(2) unfolding rest_def by (rule distinct_map_filter)
  have s: "map_of rest k = (if k \<in> fst ` set (entries ls) then None else map_of upd k)"
    unfolding rest_def entries_new_line(2) [OF assms(1)] map_of_keys_filter by auto
  have m: "map_of (rev (entries ls)) k = None \<longleftrightarrow> k \<notin> fst ` set (entries ls)" by (simp add: map_of_eq_None_iff)
  show ?thesis
    unfolding r o(2) entries_new_line(1) [OF assms(1)] rev_append map_of_append map_add_def map_of_rev_values
    using d s m by (auto simp: map_of_rev_distinct split: option.split)
qed


definition no_faults :: faults where
  "no_faults = \<lparr>no_temp = False, no_rename_away = False, no_replace = False, no_backup = False, no_open = False, short_write = None\<rparr>"


text \<open>Also: A rewrite that fails can leave no environment file at all: once the old file is moved to its backup, a failure of
  the final rename also defeats the in-place rewrite, which wants an existing file. A crash between the two renames does
  the same.\<close>

theorem failed_rewrite_loses_file:
  assumes "fs_env fs = Some t" and "\<not> no_temp f" and "\<not> no_rename_away f"
  shows "moved_away f fs = \<lparr>fs_env = None, fs_bak = Some t\<rparr>
    \<and> (no_replace f \<longrightarrow> write_env_dict f upd fs = (\<lparr>fs_env = None, fs_bak = Some t\<rparr>, False))"
  using assms by (simp add: moved_away_def write_env_dict_def write_in_place_def Let_def)

lemma failed_rewrite_loses_file_witness:
  "write_env_dict (no_faults\<lparr>no_replace := True\<rparr>) [(''A'', ''2'')] \<lparr>fs_env = Some ''A=1'', fs_bak = None\<rparr> = (\<lparr>fs_env = None, fs_bak = Some ''A=1''\<rparr>, False)"
  using failed_rewrite_loses_file [of "\<lparr>fs_env = Some ''A=1'', fs_bak = None\<rparr>" "''A=1''" "no_faults\<lparr>no_replace := True\<rparr>" "[(''A'', ''2'')]"]
  by (simp add: no_faults_def)

section \<open>Configuration updates\<close>

lemma update_needs_admin:
  assumes "holds_admin_key cx r"
  shows "telegram_config_update cx f r (Some (JObj kvs)) a =
    (case conf_each kvs conf_fields ([], a) of
       ((u, a), Inl e) \<Rightarrow> (a, Inl e)
     | ((u, a), Inr _) \<Rightarrow>
         if u = [] then (a, Inr [])
         else (case write_env_dict f u (ea_fs a) of
            (fs, True) \<Rightarrow> (a\<lparr>ea_fs := fs\<rparr>, Inr (map fst u))
          | (fs, False) \<Rightarrow> (a\<lparr>ea_fs := fs\<rparr>, Inl (HTTPException 500 ''could not persist settings''))))"
  unfolding telegram_config_update_def key_passes [OF assms] by simp

text \<open>Also: A line break in a value sets other keys: a channel id with one more line in it writes that line into the environment
  file, where it configures whatever it names.\<close>

theorem config_value_sets_other_key:
  assumes "holds_admin_key cx r" and "fs_env (ea_fs a) = None" and "\<not> no_temp f" and "\<not> no_replace f" and "clean_entry (k, v)"
    and "k \<noteq> ''ANBAR_CHANNEL_ID''"
  shows "\<exists>a'. telegram_config_update cx f r (Some (JObj [(''channel_id'', JStr (''1'' @ [CHR 0x0A] @ k @ ''='' @ v))])) a = (a', Inr [''ANBAR_CHANNEL_ID''])
     \<and> map_of (read_env_dict (fs_env (ea_fs a'))) k = Some v"
proof -
  let ?t = "''1'' @ [CHR 0x0A] @ k @ ''='' @ v"
  have c: "env_line (k @ ''='' @ v) = Some (k, v)" by (rule env_line_entry [OF assms(5)])
  have kv: "k \<noteq> []" "one_line (k @ ''='' @ v)" "v = [] \<or> \<not> is_space (last v)"
    using assms(5) strip_by_ends [of is_space v] by (auto simp: clean_entry_def clean_key_def clean_value_def line_break_def code_def)
  have "\<not> is_space (last ?t)" using kv(3) by (auto simp: is_space_def code_def)
  then have t: "strip ?t = ?t" by (subst strip_by_ends) (simp add: is_space_def code_def)
  have e: "conf_each [(''channel_id'', JStr ?t)] conf_fields ([], a) = (([(''ANBAR_CHANNEL_ID'', ?t)], a), Inr ())"
    by (simp add: conf_fields_def conf_plain_def put_def conf_text_def t del: append.simps)
  let ?l = "''ANBAR_CHANNEL_ID=1''"
  have content: "env_content None [(''ANBAR_CHANNEL_ID'', ?t)] = ?l @ CHR 0x0A # ((k @ ''='' @ v) @ CHR 0x0A # [])" by (simp add: env_content_def)
  have l: "one_line ?l" "env_line ?l = Some (''ANBAR_CHANNEL_ID'', ''1'')" by code_simp+
  have "splitlines (env_content None [(''ANBAR_CHANNEL_ID'', ?t)]) = [?l, k @ ''='' @ v]"
    unfolding content splitlines_line [OF l(1)] splitlines_line [OF kv(2)] by simp
  then have "map_of (read_env_dict (Some (env_content None [(''ANBAR_CHANNEL_ID'', ?t)]))) k = Some v"
    unfolding read_env_dict_def option.case read_env_entries by (simp add: c l(2) del: append.simps)
  moreover have w: "write_env_dict f [(''ANBAR_CHANNEL_ID'', ?t)] (ea_fs a) = ((ea_fs a)\<lparr>fs_env := Some (env_content None [(''ANBAR_CHANNEL_ID'', ?t)])\<rparr>, True)"
    using assms(2-4) by (simp add: write_env_dict_def moved_away_def Let_def)
  ultimately show ?thesis unfolding update_needs_admin [OF assms(1)] e by (simp add: w del: append.simps)
qed

definition demo_env :: "(nat, unit) env_app" where
  "demo_env = \<lparr>ap_db = db_empty, ap_caches = \<lparr>ca_disk = None, ca_chunks = None\<rparr>, ap_world = (), ap_jobs = None, ap_tasks = tm_init,
     ap_conns = None, ap_rebuild = None, ap_events = [], ea_settings = default_settings, ea_fs = \<lparr>fs_env = None, fs_bak = None\<rparr>\<rparr>"

lemma config_value_sets_other_key_witness:
  "\<exists>a'. telegram_config_update demo_bot no_faults demo_admin
       (Some (JObj [(''channel_id'', JStr (''1'' @ [CHR 0x0A] @ ''ANBAR_ADMIN_KEY'' @ ''='' @ ''mine''))])) demo_env = (a', Inr [''ANBAR_CHANNEL_ID''])
     \<and> map_of (read_env_dict (fs_env (ea_fs a'))) ''ANBAR_ADMIN_KEY'' = Some ''mine''"
proof (rule config_value_sets_other_key [OF demo_admin_key])
  show "clean_entry (''ANBAR_ADMIN_KEY'', ''mine'')" by code_simp
qed (simp_all add: demo_env_def no_faults_def)

text \<open>Also: A configuration update that is refused has changed the running service already: the switch of the hybrid back-end
  is stored, the file is not written, and after a restart the file says something else.\<close>

theorem rejected_config_changes_service:
  assumes "holds_admin_key cx r" and "n < 1 \<or> 49 < n"
  shows "\<exists>a'. telegram_config_update cx f r (Some (JObj [(''backend'', JStr ''hybrid''), (''chunk_size_mb'', JInt n)])) a
        = (a', Inl (HTTPException 422 ''chunk_size_mb must be between 1 and 49''))
     \<and> get_int_setting (ap_db a') ''hybrid_enabled'' 0 = 1 \<and> ea_fs a' = ea_fs a"
proof -
  have b: "lower (conf_text (JStr ''hybrid'')) = ''hybrid''" by code_simp
  have s: "set_int ''hybrid_enabled'' (JInt 1) d = (kv_set (cfg_key ''hybrid_enabled'') (str_of_int 1) d, Inr 1)" for d
    by (simp add: set_int_def SPEC_def)
  show ?thesis unfolding update_needs_admin [OF assms(1)]
    using assms(2) by (auto simp: conf_fields_def conf_backend_def b put_def set_flag_def s conf_chunk_size_def conf_int_def Let_def get_int_setting_def kv_simps)
qed

lemma rejected_config_changes_service_witness:
  "\<exists>a'. telegram_config_update demo_bot no_faults demo_admin (Some (JObj [(''backend'', JStr ''hybrid''), (''chunk_size_mb'', JInt 50)])) demo_env
        = (a', Inl (HTTPException 422 ''chunk_size_mb must be between 1 and 49''))
     \<and> get_int_setting (ap_db a') ''hybrid_enabled'' 0 = 1 \<and> ea_fs a' = ea_fs demo_env"
  by (rule rejected_config_changes_service [OF demo_admin_key]) simp

end
