(* ===== verification/AdminTest.thy ===== *)
theory AdminTest
  imports AdminEnv
begin

text \<open>
  The routes of \<^verbatim>\<open>src/src/anbar/api/admin.py\<close> that ask Telegram: the test of the bot tokens and of the session, and what
  the Bot API says of the webhook. The answers of the Bot API and of the Telegram client are arguments.
\<close>

section \<open>The test of the credentials\<close>

text \<open>An answer of the Bot API to \<^verbatim>\<open>getMe\<close>: the text of a transport error, or a status and the decoded body.\<close>

datatype web_answer = NoAnswer string | Answer nat "json option"

datatype bot_check =
    Working nat string "json option" "json option" "json option"
  | Broken nat string json

(* src: src/src/anbar/api/admin.py 1003-1055 _test_telegram_credentials *)
definition check_bot :: "nat \<Rightarrow> string \<Rightarrow> web_answer \<Rightarrow> bot_check" where
  "check_bot i token ans =
     (let masked = mask_secret (Some token) 6; undecodable = Broken i masked (JStr ''JSON decode error'') in
      case ans of
        NoAnswer e \<Rightarrow> Broken i masked (JStr e)
      | Answer st body \<Rightarrow>
          if st = 200 then
            (case body of
               Some (JObj kvs) \<Rightarrow>
                 if (case map_of kvs ''ok'' of Some v \<Rightarrow> jtruthy v | None \<Rightarrow> False)
                 then (case map_of kvs ''result'' of
                         None \<Rightarrow> Working i masked None None None
                       | Some (JObj u) \<Rightarrow> Working i masked (map_of u ''username'') (map_of u ''first_name'') (map_of u ''id'')
                       | Some _ \<Rightarrow> undecodable)
                 else Broken i masked (case map_of kvs ''description'' of Some v \<Rightarrow> v | None \<Rightarrow> JStr ''Error from Bot API'')
             | _ \<Rightarrow> undecodable)
          else
            (let plain = Broken i masked (JStr (''HTTP '' @ str_of_nat st)) in
             case body of
               Some (JObj kvs) \<Rightarrow> (case map_of kvs ''description'' of Some v \<Rightarrow> if jtruthy v then Broken i masked v else plain | None \<Rightarrow> plain)
             | _ \<Rightarrow> plain))"

text \<open>Which session is tested, and what the Telegram client answers.\<close>

datatype session_source = LiveClient | StoredSession string | SessionFile string | NoSession

datatype client_answer = LoggedIn "(string \<times> json) list" | LoggedOut | ClientError string

record session_check =
  sc_available :: bool
  sc_working :: bool
  sc_details :: "(string \<times> json) list option"
  sc_error :: "string option"

(* src: src/src/anbar/api/admin.py 1068-1095 _test_telegram_credentials *)
definition pick_session :: "bool \<Rightarrow> string option \<Rightarrow> string \<Rightarrow> string \<Rightarrow> string \<Rightarrow> bool \<Rightarrow> session_source" where
  "pick_session online raw api_id api_hash session_file file_exists =
     (if online then LiveClient
      else if truthy_str raw \<and> api_id \<noteq> [] \<and> api_hash \<noteq> [] then StoredSession (the raw)
      else if session_file \<noteq> [] \<and> file_exists \<and> api_id \<noteq> [] \<and> api_hash \<noteq> [] then SessionFile session_file
      else NoSession)"

(* src: src/src/anbar/api/admin.py 1059-1148 _test_telegram_credentials *)
definition check_session :: "(session_source \<Rightarrow> client_answer) \<Rightarrow> session_source \<Rightarrow> session_check" where
  "check_session ask src =
     (if src = NoSession then \<lparr>sc_available = False, sc_working = False, sc_details = None, sc_error = None\<rparr>
      else case ask src of
          LoggedIn who \<Rightarrow> \<lparr>sc_available = True, sc_working = True, sc_details = Some who, sc_error = None\<rparr>
        | LoggedOut \<Rightarrow> \<lparr>sc_available = True, sc_working = False, sc_details = None,
            sc_error = Some (case src of SessionFile _ \<Rightarrow> ''Session file is not authorized'' | _ \<Rightarrow> ''Session is not authorized'')\<rparr>
        | ClientError e \<Rightarrow> \<lparr>sc_available = True, sc_working = False, sc_details = None, sc_error = Some e\<rparr>)"

text \<open>A client is built with the API id as a number, outside the guarded block.\<close>

(* src: src/src/anbar/api/admin.py 977-1163 telegram_test_connection *)
definition telegram_test_connection :: "ctx \<Rightarrow> (string \<Rightarrow> string) \<Rightarrow> bool \<Rightarrow> (string \<Rightarrow> bool) \<Rightarrow> (string \<Rightarrow> web_answer) \<Rightarrow> (session_source \<Rightarrow> client_answer)
    \<Rightarrow> request \<Rightarrow> ('b, 'w) env_app \<Rightarrow> ('b, 'w) env_app \<times> (bot_check list \<times> session_check) res" where
  "telegram_test_connection cx cfg online file_exists web ask r = as_admin cx r (\<lambda>a.
     let env = read_env_dict (fs_env (ea_fs a));
         bots = map (\<lambda>(i, token). check_bot i token (web token)) (enumerate 0 (shown_tokens (ea_settings a) env));
         api_id = first_text [map_of env ''ANBAR_API_ID'', Some (cfg ''api_id'')];
         api_hash = first_text [map_of env ''ANBAR_API_HASH'', Some (cfg ''api_hash'')];
         src = pick_session online (kv_get (ap_db a) ''cfg_tg_session'') api_id api_hash (cfg ''session_file'') (file_exists (cfg ''session_file''))
     in if src \<notin> {LiveClient, NoSession} \<and> py_int api_id = None then (a, Inl (ValueError ''int''))
        else (a, Inr (bots, check_session ask src)))"

section \<open>What the Bot API says of the webhook\<close>

(* src: src/src/anbar/api/admin.py auto telegram_webhook_info *)
definition telegram_webhook_info :: "ctx \<Rightarrow> (string \<Rightarrow> string \<Rightarrow> (string \<times> json) list \<Rightarrow> json) \<Rightarrow> request \<Rightarrow> ('b, 'w) env_app \<Rightarrow> ('b, 'w) env_app \<times> json res" where
  "telegram_webhook_info cx bot_api r = as_admin cx r (\<lambda>a.
     (case bot_tokens (ea_settings a) of
        [] \<Rightarrow> (a, Inl (HTTPException 400 ''No Telegram Bot Token configured''))
      | token # _ \<Rightarrow>
          let answer = bot_api token ''getWebhookInfo'' []
          in if (case jget answer ''ok'' of Some v \<Rightarrow> jtruthy v | None \<Rightarrow> False)
             then (a, Inr (case jget answer ''result'' of Some v \<Rightarrow> v | None \<Rightarrow> JObj []))
             else (a, Inl (HTTPException 400 ''Telegram API error''))))"

(* src: src/src/anbar/api/admin.py auto telegram_webhook_delete *)
definition telegram_webhook_delete :: "ctx \<Rightarrow> (string \<Rightarrow> string \<Rightarrow> (string \<times> json) list \<Rightarrow> json) \<Rightarrow> request \<Rightarrow> ('b, 'w) env_app \<Rightarrow> ('b, 'w) env_app \<times> json res" where
  "telegram_webhook_delete cx bot_api r = as_admin cx r (\<lambda>a.
     (case bot_tokens (ea_settings a) of
        [] \<Rightarrow> (a, Inl (HTTPException 400 ''No Telegram Bot Token configured''))
      | token # _ \<Rightarrow>
          let answer = bot_api token ''deleteWebhook'' []
          in if (case jget answer ''ok'' of Some v \<Rightarrow> jtruthy v | None \<Rightarrow> False)
             then (a, Inr (case jget answer ''description'' of Some v \<Rightarrow> v | None \<Rightarrow> JStr ''Webhook deleted''))
             else (a, Inl (HTTPException 400 ''Telegram API error''))))"

section \<open>What the test shows\<close>

text \<open>Also: the test reports one entry per configured token, in order, and shows of a token of more than 12 characters its
  first and its last six and of a shorter one nothing.\<close>

fun shown_of :: "bot_check \<Rightarrow> nat \<times> string" where
  "shown_of (Working i m _ _ _) = (i, m)"
| "shown_of (Broken i m _) = (i, m)"

lemma check_bot_shows: "shown_of (check_bot i token ans) = (i, mask_secret (Some token) 6)"
  by (simp add: check_bot_def Let_def split: web_answer.split option.split json.split)

lemma stripped_again: "strip (strip s) = strip s"
  unfolding strip_by_ends using strip_by_clean [of is_space s] by (auto simp: neq_Nil_conv)

lemma shown_token: "t \<in> set (shown_tokens s env) \<Longrightarrow> t \<noteq> [] \<and> strip t = t"
  by (auto simp: shown_tokens_def stripped_again)

lemma enumerate_map_shown: "map (\<lambda>(i, t). (i, f t)) (enumerate n ts) = enumerate n (map f ts)"
  by (induction ts arbitrary: n) simp_all

theorem test_masks_tokens:
  assumes "telegram_test_connection cx cfg online file_exists web ask r a = (a', Inr (bots, sess))"
  shows "map shown_of bots = enumerate 0 (map (\<lambda>t. if length t \<le> 12 then ''****'' else take 6 t @ replicate (length t - 12) bullet @ drop (length t - 6) t)
      (shown_tokens (ea_settings a) (read_env_dict (fs_env (ea_fs a)))))"
proof -
  let ?ts = "shown_tokens (ea_settings a) (read_env_dict (fs_env (ea_fs a)))"
  let ?shown = "\<lambda>t. if length t \<le> 12 then ''****'' else take 6 t @ replicate (length t - 12) bullet @ drop (length t - 6) t"
  have "bots = map (\<lambda>(i, token). check_bot i token (web token)) (enumerate 0 ?ts)"
    using assms by (auto simp: telegram_test_connection_def as_admin_def Let_def split: prod.splits sum.splits if_splits)
  then have "map shown_of bots = enumerate 0 (map (\<lambda>t. mask_secret (Some t) 6) ?ts)"
    by (simp add: o_def split_beta check_bot_shows flip: enumerate_map_shown)
  moreover have "map (\<lambda>t. mask_secret (Some t) 6) ?ts = map ?shown ?ts"
    using shown_token [of _ "ea_settings a" "read_env_dict (fs_env (ea_fs a))"] by (intro map_cong) (simp_all add: mask_secret_def truthy_str_def)
  ultimately show ?thesis by simp
qed

end
