(* ===== verification/AdminRoutes.thy ===== *)
theory AdminRoutes
  imports AdminTest
begin

text \<open>
  All administration routes of \<^verbatim>\<open>src/src/anbar/api/admin.py\<close> as one type of calls, to state what holds of every one of
  them: who may make it.
\<close>

section \<open>The calls\<close>

text \<open>What the routes use besides the state: the back-end, the pool, files, ffmpeg, the Telegram client.\<close>

record ('w, 'c) outside =
  x_delete :: "string \<Rightarrow> object_ref \<Rightarrow> 'w \<Rightarrow> 'w \<times> bool res"
  x_pool :: "pool option"
  x_backend :: handle
  x_thumbs :: "'c thumbs"
  x_image :: "string \<Rightarrow> image"
  x_available :: bool
  x_probe :: "string \<Rightarrow> json option"
  x_extract :: "string \<Rightarrow> int \<Rightarrow> string option"
  x_fetch :: "int \<Rightarrow> int \<Rightarrow> int \<Rightarrow> db \<times> 'w \<Rightarrow> (db \<times> 'w) \<times> string res"
  x_dump :: "db \<Rightarrow> string"
  x_store :: "string \<Rightarrow> string \<Rightarrow> 'w \<Rightarrow> 'w \<times> object_ref res"
  x_keys :: keys
  x_history :: "(int \<Rightarrow> 'w \<Rightarrow> 'w \<times> ch_msg list res) option"
  x_api :: "string \<Rightarrow> string \<Rightarrow> (string \<times> json) list \<Rightarrow> json"
  x_cfg :: "string \<Rightarrow> string"
  x_online :: bool
  x_exists :: "string \<Rightarrow> bool"
  x_web :: "string \<Rightarrow> web_answer"
  x_session :: "session_source \<Rightarrow> client_answer"
  x_api_id :: "int option"
  x_request_code :: "string \<Rightarrow> tg_fault + string \<times> string"
  x_sign_in :: "string \<Rightarrow> string \<Rightarrow> string \<Rightarrow> string \<Rightarrow> tg_fault + string"
  x_password :: "string \<Rightarrow> string \<Rightarrow> tg_fault + string"
  x_faults :: faults
  x_ids :: "nat \<Rightarrow> string"
  x_timeout :: int
  x_clock :: rat

datatype admin_call =
    SettingsGet | SettingsUpdate "json option" | SettingsReset "json option" | CachePurge | AuthToggle | SecretGet
  | RotateSecret "json option" | KeysList | KeysCreate "json option" | KeysRevoke string | AuditLogs int int | LinksList int
  | LinksRevokeAll | LinkRevoke string int | LinkInfo string | LinkManage string int | AlbumRevoke string | Restart
  | IngestActive | IngestCancel string | JobsList "string option" "string option" int | JobsGet string | JobsCancel string | JobsDelete string
  | ObjectsList int int string | Export string | SystemStats | TrashList | TrashRestore string | TrashPurge string
  | FolderCreate "json option" | FolderRename "json option" | FolderCopy "json option" | FolderDelete "json option"
  | ObjectsMove "json option" | ObjectCopy "json option" | SubsList string | SubsAdd string "string option" string
  | SubsUpdate string string "json option" | SubsDelete string string | SubsImport string | BackupImport "int option" string
  | BackupPush string | Rebuild "json option" | ConfigGet | ConfigUpdate "json option" | RevealHash | WebhookSet "json option"
  | SendCode "json option" | VerifyCode "json option" | Logout
  | BackupDownload string | TelegramTest | WebhookInfo | WebhookDelete | Status

text \<open>State and error of a route, without its reply.\<close>

definition outcome_of :: "'s \<times> 'a res \<Rightarrow> 's \<times> exc option" where
  "outcome_of x = (fst x, case snd x of Inl e \<Rightarrow> Some e | Inr _ \<Rightarrow> None)"

fun run_call :: "('w, 'c) outside \<Rightarrow> ctx \<Rightarrow> request \<Rightarrow> admin_call \<Rightarrow> ('b, 'w) env_app \<Rightarrow> ('b, 'w) env_app \<times> exc option" where
  "run_call x cx r SettingsGet a = outcome_of (settings_get cx (x_timeout x) r a)"
| "run_call x cx r (SettingsUpdate b) a = outcome_of (settings_update cx (x_timeout x) r b a)"
| "run_call x cx r (SettingsReset b) a = outcome_of (settings_reset cx (x_timeout x) r b a)"
| "run_call x cx r CachePurge a = outcome_of (cache_purge cx r a)"
| "run_call x cx r AuthToggle a = outcome_of (auth_toggle cx r a)"
| "run_call x cx r SecretGet a = outcome_of (secret_get cx r a)"
| "run_call x cx r (RotateSecret b) a = outcome_of (rotate_secret cx (x_ids x 0) r b a)"
| "run_call x cx r KeysList a = outcome_of (api_keys_list cx r a)"
| "run_call x cx r (KeysCreate b) a = outcome_of (api_keys_create cx (x_ids x 0) (x_ids x 1) r b a)"
| "run_call x cx r (KeysRevoke i) a = outcome_of (api_keys_revoke cx r i a)"
| "run_call x cx r (AuditLogs n m) a = outcome_of (audit_logs_list cx r n m a)"
| "run_call x cx r (LinksList n) a = outcome_of (links_list cx r n a)"
| "run_call x cx r LinksRevokeAll a = outcome_of (links_revoke_all cx r a)"
| "run_call x cx r (LinkRevoke i e) a = outcome_of (link_revoke_route cx r i e a)"
| "run_call x cx r (LinkInfo i) a = outcome_of (link_info cx r i a)"
| "run_call x cx r (LinkManage i e) a = outcome_of (link_manage_page cx r i e a)"
| "run_call x cx r (AlbumRevoke t) a = outcome_of (album_revoke cx r t a)"
| "run_call x cx r Restart a = outcome_of (restart_service cx r a)"
| "run_call x cx r IngestActive a = outcome_of (get_active_ingests cx (x_clock x) r a)"
| "run_call x cx r (IngestCancel i) a = outcome_of (cancel_active_ingest cx (x_clock x) r i a)"
| "run_call x cx r (JobsList st k n) a = outcome_of (jobs_list cx r st k n a)"
| "run_call x cx r (JobsGet i) a = outcome_of (jobs_get cx r i a)"
| "run_call x cx r (JobsCancel i) a = outcome_of (jobs_cancel cx r i a)"
| "run_call x cx r (JobsDelete i) a = outcome_of (jobs_delete cx r i a)"
| "run_call x cx r (ObjectsList n m p) a = outcome_of (objects_route cx (x_thumbs x) r n m p a)"
| "run_call x cx r (Export f) a = outcome_of (export_metadata cx r f a)"
| "run_call x cx r SystemStats a = outcome_of (system_stats_get cx r a)"
| "run_call x cx r TrashList a = outcome_of (trash_list cx r a)"
| "run_call x cx r (TrashRestore i) a = outcome_of (trash_restore cx r i a)"
| "run_call x cx r (TrashPurge i) a = outcome_of (trash_purge_one cx (x_delete x) (x_pool x) (x_backend x) r i a)"
| "run_call x cx r (FolderCreate b) a = outcome_of (folder_create cx (x_ids x 0) r b a)"
| "run_call x cx r (FolderRename b) a = outcome_of (folder_rename cx r b a)"
| "run_call x cx r (FolderCopy b) a = outcome_of (folder_copy cx (x_ids x) r b a)"
| "run_call x cx r (FolderDelete b) a = outcome_of (folder_delete cx r b a)"
| "run_call x cx r (ObjectsMove b) a = outcome_of (objects_move cx r b a)"
| "run_call x cx r (ObjectCopy b) a = outcome_of (object_copy cx (x_ids x 0) r b a)"
| "run_call x cx r (SubsList i) a = outcome_of (admin_subs_list cx r i a)"
| "run_call x cx r (SubsAdd i fn t) a = outcome_of (admin_subs_add cx (x_ids x 0) r i fn t a)"
| "run_call x cx r (SubsUpdate i t b) a = outcome_of (admin_subs_update cx r i t b a)"
| "run_call x cx r (SubsDelete i t) a = outcome_of (admin_subs_delete cx r i t a)"
| "run_call x cx r (SubsImport i) a = outcome_of (admin_subs_import cx (x_available x) (x_probe x) (x_extract x) (x_ids x) (x_fetch x) r i a)"
| "run_call x cx r (BackupImport n t) a = outcome_of (backup_import cx (x_image x) r n t a)"
| "run_call x cx r (BackupPush t) a = outcome_of (backup_push_telegram cx (x_dump x) (x_store x) t (x_ids x 0) r a)"
| "run_call x cx r (Rebuild b) a = outcome_of (channel_rebuild cx (x_keys x) (x_history x) (x_ids x 0) r b a)"
| "run_call x cx r ConfigGet a = outcome_of (telegram_config_get cx (x_cfg x) (x_online x) r a)"
| "run_call x cx r (ConfigUpdate b) a = outcome_of (telegram_config_update cx (x_faults x) r b a)"
| "run_call x cx r RevealHash a = outcome_of (reveal_api_hash cx None (Some (x_cfg x ''api_hash'')) r a)"
| "run_call x cx r (WebhookSet b) a = outcome_of (telegram_webhook_set cx (x_api x) r b a)"
| "run_call x cx r (SendCode b) a = outcome_of (telegram_send_code cx (x_api_id x) (Some (x_cfg x ''api_hash'')) (x_request_code x) r b a)"
| "run_call x cx r (VerifyCode b) a = outcome_of (telegram_verify_code cx (x_sign_in x) (x_password x) r b a)"
| "run_call x cx r Logout a = outcome_of (telegram_logout cx r a)"
| "run_call x cx r (BackupDownload t) a = outcome_of (backup_download cx (x_dump x) t r a)"
| "run_call x cx r TelegramTest a = outcome_of (telegram_test_connection cx (x_cfg x) (x_online x) (x_exists x) (x_web x) (x_session x) r a)"
| "run_call x cx r WebhookInfo a = outcome_of (telegram_webhook_info cx (x_api x) r a)"
| "run_call x cx r WebhookDelete a = outcome_of (telegram_webhook_delete cx (x_api x) r a)"
| "run_call x cx r Status a = outcome_of (a, admin_status cx (x_timeout x) a)"

section \<open>Who may call\<close>

definition refused :: "ctx \<Rightarrow> role \<Rightarrow> db \<Rightarrow> exc" where
  "refused cx ro d = (if auth_on (cx_settings cx) d \<and> ro = Anon then HTTPException 401 ''authentication required''
     else HTTPException 403 ''admin key required'')"

lemma denied_outcome:
  assumes "role_of cx r (ap_db a) = (ro, d)" and "ro \<noteq> Admin"
  shows "outcome_of (as_admin cx r f a) = (a\<lparr>ap_db := d\<rparr>, Some (refused cx ro d))"
  using assms by (auto simp: as_admin_def require_admin_def role_of_def outcome_of_def refused_def)

lemmas route_defs =
  settings_get_def settings_update_def settings_reset_def cache_purge_def auth_toggle_def secret_get_def rotate_secret_def api_keys_list_def
  api_keys_create_def api_keys_revoke_def audit_logs_list_def links_list_def links_revoke_all_def link_revoke_route_def link_info_def
  link_manage_page_def album_revoke_def restart_service_def get_active_ingests_def cancel_active_ingest_def jobs_list_def jobs_get_def
  jobs_cancel_def jobs_delete_def objects_route_def export_metadata_def system_stats_get_def trash_list_def trash_restore_def
  trash_purge_one_def folder_create_def folder_rename_def folder_copy_def folder_delete_def objects_move_def object_copy_def
  admin_subs_list_def admin_subs_add_def admin_subs_update_def admin_subs_delete_def admin_subs_import_def backup_import_def
  backup_push_telegram_def channel_rebuild_def telegram_config_get_def telegram_config_update_def reveal_api_hash_def
  telegram_webhook_set_def telegram_send_code_def telegram_verify_code_def telegram_logout_def
  backup_download_def telegram_test_connection_def telegram_webhook_info_def telegram_webhook_delete_def

text \<open>Finding out who calls makes the session secret when there is none, and changes nothing else.\<close>

lemma secret_made: "snd (session_secret tok d) \<in> {d, kv_set ''ui_session_secret'' tok d}"
  by (simp add: session_secret_def)

lemma update_twice: "AList.update k v (AList.update k v kvs) = AList.update k v kvs"
  by (induction kvs) auto

lemma kv_set_twice: "kv_set k v (kv_set k v d) = kv_set k v d"
  by (simp add: kv_set_def update_twice)

lemma secret_kept: "d' \<in> {d, kv_set ''ui_session_secret'' tok d} \<Longrightarrow> snd (session_secret tok d') \<in> {d, kv_set ''ui_session_secret'' tok d}"
  by (auto simp: session_secret_def kv_simps kv_set_twice truthy_str_def)

lemma verify_made: "snd (verify_session hmac now tok v d) \<in> {d, snd (session_secret tok d)}"
  by (auto simp: verify_session_def split_beta Let_def split: list.split option.split)

lemma cookie_made:
  "d' \<in> {d, kv_set ''ui_session_secret'' tok d} \<Longrightarrow> snd (cookie_role hmac now tok ps d') \<in> {d, kv_set ''ui_session_secret'' tok d}"
proof (induction ps arbitrary: d')
  case (Cons p ps)
  have v: "snd (verify_session hmac now tok (drop 14 (strip p)) d') \<in> {d, kv_set ''ui_session_secret'' tok d}"
    using verify_made [of hmac now tok "drop 14 (strip p)" d'] secret_kept [OF Cons.prems] Cons.prems by auto
  show ?case using Cons.IH [OF v] Cons.IH [OF Cons.prems] v Cons.prems
    by (auto simp: Let_def split_beta split: option.splits sum.splits)
qed simp

lemma role_made: "role_of cx r d = (ro, d') \<Longrightarrow> d' \<in> {d, kv_set ''ui_session_secret'' (cx_tok cx) d}"
  using cookie_made [of d d "cx_tok cx" "cx_hmac cx" "cx_now cx" "split_on (CHR '';'') (header r ''cookie'')"]
  by (auto simp: role_of_def whoami_def Let_def split: if_splits)


definition demo_nobody :: request where
  "demo_nobody = \<lparr>rq_peer = None, rq_headers = [], rq_query = []\<rparr>"

lemma demo_nobody_visits: "visitor demo_nobody"
  by code_simp


text \<open>Also: The public status hands everybody the settings that the settings route refuses to a visitor and shows to the admin.\<close>

theorem status_shows_settings:
  assumes "visitor v" and "holds_admin_key cx r"
  shows "isl (snd (settings_get cx ms v a)) \<and> rbind (admin_status cx ms a) (\<lambda>s. Inr (sv_settings s)) = snd (settings_get cx ms r a)"
proof
  have "snd (outcome_of (settings_get cx ms v a)) \<noteq> None"
    unfolding settings_get_def by (subst denied_outcome [OF visitor_role [OF assms(1)]]) simp_all
  then show "isl (snd (settings_get cx ms v a))" by (auto simp: outcome_of_def split: sum.splits)
  show "rbind (admin_status cx ms a) (\<lambda>s. Inr (sv_settings s)) = snd (settings_get cx ms r a)"
    unfolding settings_get_def key_passes [OF assms(2)] by (cases "settings_view cx ms (ap_db a)") (simp_all add: admin_status_def Let_def)
qed

lemma status_shows_settings_witness:
  "isl (snd (settings_get demo_bot 1500 demo_nobody demo_env)) \<and> rbind (admin_status demo_bot 1500 demo_env) (\<lambda>s. Inr (sv_settings s)) = snd (settings_get demo_bot 1500 demo_admin demo_env)"
  by (rule status_shows_settings [OF demo_nobody_visits demo_admin_key])

end
