(* ===== verification/TgMessages.thy ===== *)
theory TgMessages
  imports Harvester IngestTasks
begin

text \<open>
  What the Telegram ingest of \<^verbatim>\<open>src/src/anbar/telegram_ingest.py\<close> reads and writes: sizes, times and the progress
  bar, links in a message, the media attached to it, and the progress report. Quotients are exact where the code has
  floats; the bar is a list of full and empty cells.
\<close>

section \<open>Figures\<close>

text \<open>\<^verbatim>\<open>f"{x:.2f}"\<close> of a figure that is not negative.\<close>

definition pad2 :: "nat \<Rightarrow> string" where
  "pad2 n = (if n < 10 then ''0'' @ str_of_nat n else str_of_nat n)"

definition fixed2 :: "rat \<Rightarrow> string" where
  "fixed2 x = (let h = nat (half_even (x * 100)) in str_of_nat (h div 100) @ ''.'' @ pad2 (h mod 100))"

definition size_units :: "string list" where
  "size_units = [''B'', ''KB'', ''MB'', ''GB'', ''TB'']"

(* src: src/src/anbar/telegram_ingest.py 46-48 format_size *)
fun unit_loop :: "rat \<Rightarrow> nat \<Rightarrow> nat \<Rightarrow> rat \<times> nat" where
  "unit_loop b idx 0 = (b, idx)"
| "unit_loop b idx (Suc n) = (if b \<ge> 1024 then unit_loop (b / 1024) (Suc idx) n else (b, idx))"

(* src: src/src/anbar/telegram_ingest.py auto format_size *)
definition format_size :: "rat option \<Rightarrow> string" where
  "format_size x =
     (case x of None \<Rightarrow> ''0 B''
      | Some n \<Rightarrow>
          if n \<le> 0 then ''0 B''
          else (case unit_loop n 0 (length size_units - 1) of
                  (b, idx) \<Rightarrow> if idx > 0 then fixed2 b @ '' '' @ size_units ! idx else str_of_int \<lfloor>b\<rfloor> @ '' B''))"

(* src: src/src/anbar/telegram_ingest.py auto format_eta *)
definition format_eta :: "rat option \<Rightarrow> string" where
  "format_eta x =
     (case x of None \<Rightarrow> ''calculating...''
      | Some t \<Rightarrow>
          if t < 0 then ''calculating...''
          else let s = nat \<lfloor>t\<rfloor>; m = s div 60; h = m div 60
               in if s < 60 then str_of_nat s @ ''s''
                  else if m < 60 then str_of_nat m @ ''m '' @ pad2 (s mod 60) @ ''s''
                  else str_of_nat h @ ''h '' @ pad2 (m mod 60) @ ''m'')"

(* src: src/src/anbar/telegram_ingest.py auto render_progress_bar *)
definition render_progress_bar :: "rat \<Rightarrow> nat \<Rightarrow> bool list" where
  "render_progress_bar percent width =
     (let filled = nat (max 0 (min (int width) (half_even (of_nat width * percent / 100))))
      in replicate filled True @ replicate (width - filled) False)"

section \<open>Links\<close>

text \<open>\<^verbatim>\<open>re.search\<close> of a prefix, a name of at least \<open>least\<close> characters of a class without the slash, a slash and
  digits: the first place where it matches.\<close>

definition post_at :: "string \<Rightarrow> (char \<Rightarrow> bool) \<Rightarrow> nat \<Rightarrow> string \<Rightarrow> (string \<times> string) option" where
  "post_at pfx ok least s =
     (if startswith s pfx
      then let r = drop (length pfx) s; name = takeWhile ok r; ds = takeWhile is_digit (tl (dropWhile ok r))
           in if least \<le> length name \<and> startswith (dropWhile ok r) ''/'' \<and> ds \<noteq> [] then Some (name, ds) else None
      else None)"

fun post_search :: "string \<Rightarrow> (char \<Rightarrow> bool) \<Rightarrow> nat \<Rightarrow> string \<Rightarrow> (string \<times> string) option" where
  "post_search pfx ok least [] = None"
| "post_search pfx ok least (c # cs) =
     (case post_at pfx ok least (c # cs) of Some m \<Rightarrow> Some m | None \<Rightarrow> post_search pfx ok least cs)"

definition name_char :: "char \<Rightarrow> bool" where
  "name_char c = (is_alnum c \<or> c = CHR ''_'')"

(* src: src/src/anbar/telegram_ingest.py 36 RE_PRIVATE_POST *)
definition private_post :: "string \<Rightarrow> (string \<times> string) option" where
  "private_post = post_search ''t.me/c/'' is_digit 1"

(* src: src/src/anbar/telegram_ingest.py 37 RE_PUBLIC_POST *)
definition public_post :: "string \<Rightarrow> (string \<times> string) option" where
  "public_post = post_search ''t.me/'' name_char 4"

text \<open>A chat is given by its number or its name.\<close>

datatype entity = Chat int | Named string

(* src: src/src/anbar/telegram_ingest.py auto parse_telegram_post_link *)
definition parse_telegram_post_link :: "string \<Rightarrow> (entity \<times> int) option" where
  "parse_telegram_post_link t =
     (case private_post t of
        Some (cid, mid) \<Rightarrow> Some (Chat (the (py_int (''-100'' @ cid))), the (py_int mid))
      | None \<Rightarrow>
          (case public_post t of
             Some (name, mid) \<Rightarrow>
               if lower name \<notin> {''joinchat'', ''share'', ''addstickers'', ''invoice'', ''c''} then Some (Named name, the (py_int mid)) else None
           | None \<Rightarrow> None))"

(* src: src/src/anbar/telegram_ingest.py 38 RE_WEB_URL *)
definition web_at :: "string \<Rightarrow> string option" where
  "web_at s =
     (let k = (if startswith (lower (drop 4 s)) ''s'' then 5 else 4); rest = takeWhile (\<lambda>c. \<not> is_space c) (drop (k + 3) s)
      in if startswith (lower s) ''http'' \<and> startswith (drop k s) ''://'' \<and> rest \<noteq> [] then Some (take (k + 3) s @ rest) else None)"

fun web_search :: "string \<Rightarrow> string option" where
  "web_search [] = None"
| "web_search (c # cs) = (case web_at (c # cs) of Some m \<Rightarrow> Some m | None \<Rightarrow> web_search cs)"

(* src: src/src/anbar/telegram_ingest.py auto parse_web_url *)
definition parse_web_url :: "string \<Rightarrow> string option" where
  "parse_web_url t =
     (case web_search t of None \<Rightarrow> None
      | Some m \<Rightarrow>
          let url = strip_by (\<lambda>c. c \<in> set '')>],.;'' \<or> c = CHR 0x22 \<or> c = CHR 0x27) m
          in if contains_str ''t.me/'' (lower url) \<or> contains_str ''telegram.me/'' (lower url) then None else Some url)"

section \<open>Attached media\<close>

record media_info =
  mi_file_id :: string
  mi_filename :: string
  mi_size :: int
  mi_content_type :: string

text \<open>Texts and sizes have the types the Bot API documents; \<open>fid\<close> is cut although it may be missing.\<close>

definition text_or :: "json option \<Rightarrow> string \<Rightarrow> string" where
  "text_or v alt = (case v of Some (JStr s) \<Rightarrow> if s = [] then alt else s | _ \<Rightarrow> alt)"

definition size_or_0 :: "json option \<Rightarrow> int" where
  "size_or_0 v = (case v of Some (JInt n) \<Rightarrow> n | _ \<Rightarrow> 0)"

(* src: src/src/anbar/telegram_ingest.py 744-779 _extract_direct_media *)
definition attached_of :: "string \<Rightarrow> string \<Rightarrow> string \<Rightarrow> json \<Rightarrow> media_info res" where
  "attached_of kind ext mime v =
     rbind (j_get v ''file_id'') (\<lambda>f. rbind (j_get v ''file_name'') (\<lambda>n. rbind (j_get v ''file_size'') (\<lambda>z. rbind (j_get v ''mime_type'') (\<lambda>t.
       case f of
         Some (JStr fid) \<Rightarrow> Inr \<lparr>mi_file_id = fid, mi_filename = text_or n (kind @ take 8 fid @ ext), mi_size = size_or_0 z, mi_content_type = text_or t mime\<rparr>
       | _ \<Rightarrow> Inl TypeError))))"

(* src: src/src/anbar/telegram_ingest.py 780-790 _extract_direct_media *)
definition photo_of :: "json \<Rightarrow> media_info res" where
  "photo_of v =
     rbind (j_get v ''file_id'') (\<lambda>f. rbind (j_get v ''file_size'') (\<lambda>z.
       case f of
         Some (JStr fid) \<Rightarrow> Inr \<lparr>mi_file_id = fid, mi_filename = ''photo_'' @ take 8 fid @ ''.jpg'', mi_size = size_or_0 z, mi_content_type = ''image/jpeg''\<rparr>
       | _ \<Rightarrow> Inl TypeError))"

(* src: src/src/anbar/telegram_ingest.py auto _extract_direct_media *)
definition extract_direct_media :: "(string \<times> json) list \<Rightarrow> media_info option res" where
  "extract_direct_media msg =
     (case map_of msg ''document'' of Some v \<Rightarrow> rbind (attached_of ''doc_'' ''.bin'' ''application/octet-stream'' v) (\<lambda>m. Inr (Some m))
      | None \<Rightarrow>
     (case map_of msg ''video'' of Some v \<Rightarrow> rbind (attached_of ''video_'' ''.mp4'' ''video/mp4'' v) (\<lambda>m. Inr (Some m))
      | None \<Rightarrow>
     (case map_of msg ''audio'' of Some v \<Rightarrow> rbind (attached_of ''audio_'' ''.mp3'' ''audio/mpeg'' v) (\<lambda>m. Inr (Some m))
      | None \<Rightarrow>
     (case map_of msg ''photo'' of
        Some (JList (p # ps)) \<Rightarrow> rbind (photo_of (last (p # ps))) (\<lambda>m. Inr (Some m))
      | _ \<Rightarrow> Inr None))))"

section \<open>The progress report\<close>

text \<open>The place of a file in an album.\<close>

(* src: src/src/anbar/telegram_ingest.py 589-594 _process_album_batch *)
record album_context =
  ac_index :: nat
  ac_files :: nat
  ac_completed :: int
  ac_total :: "int option"

(* src: src/src/anbar/telegram_ingest.py 202-231 ProgressReporter.__init__ *)
record reporter =
  pr_total :: "int option"
  pr_start :: rat
  pr_last :: rat
  pr_task :: nat
  pr_album :: "album_context option"

text \<open>A file of an album reports to the task of the album, if that is still registered. \<open>fresh\<close> is the random id.\<close>

(* src: src/src/anbar/telegram_ingest.py auto ProgressReporter.__init__ *)
definition reporter_init :: "rat \<Rightarrow> string \<Rightarrow> string \<Rightarrow> int option \<Rightarrow> string option \<Rightarrow> string \<Rightarrow> album_context option \<Rightarrow> task_manager
    \<Rightarrow> task_manager \<times> reporter" where
  "reporter_init now fresh filename tot task_id source album m =
     (let i = (if truthy_str task_id then the task_id else fresh);
          r = (\<lambda>a. \<lparr>pr_total = tot, pr_start = now, pr_last = now, pr_task = a, pr_album = album\<rparr>)
      in case (album, tm_get i m) of
           (Some c, Some a) \<Rightarrow>
             (set_task a (\<lambda>t. t\<lparr>it_filename := ''Album ('' @ str_of_nat (ac_index c) @ ''/'' @ str_of_nat (ac_files c) @ ''): '' @ filename\<rparr>) m, r a)
         | _ \<Rightarrow> (case tm_create now i source filename tot m of (m, a) \<Rightarrow> (m, r a)))"

text \<open>The figures of a report; the file's are there when its size is known, the album's when it is part of one.\<close>

record report =
  rp_bar :: "bool list option"
  rp_pct :: "rat option"
  rp_current :: string
  rp_total :: "string option"
  rp_speed :: string
  rp_eta :: "string option"
  rp_album :: "(nat \<times> nat \<times> (rat \<times> string \<times> string) option) option"

(* src: src/src/anbar/telegram_ingest.py 281-288 ProgressReporter.update *)
definition album_line :: "album_context \<Rightarrow> int \<Rightarrow> nat \<times> nat \<times> (rat \<times> string \<times> string) option" where
  "album_line c eff =
     (ac_index c - 1, ac_files c,
      case ac_total c of
        Some n \<Rightarrow> if n > 0 then Some (round_to 1 (min (999/10) (of_int eff / of_int n * 100)), format_size (Some (of_int eff)), format_size (Some (of_int n))) else None
      | None \<Rightarrow> None)"

(* src: src/src/anbar/telegram_ingest.py 255-312 ProgressReporter.update *)
definition progress_report :: "reporter \<Rightarrow> ingest_task \<Rightarrow> int \<Rightarrow> int \<Rightarrow> report" where
  "progress_report r t current eff =
     (let known = (case pr_total r of Some n \<Rightarrow> n > 0 | None \<Rightarrow> False);
          n = the (pr_total r);
          percent = min (999/10) (of_int current / of_int n * 100);
          speed = it_speed t;
          eta = (if pr_album r = None then it_eta t else if speed > 0 then Some (of_int (max 0 (n - current)) / speed) else None)
      in \<lparr>rp_bar = (if known then Some (render_progress_bar percent 10) else None), rp_pct = (if known then Some (round_to 1 percent) else None),
          rp_current = format_size (Some (of_int current)), rp_total = (if known then Some (format_size (Some (of_int n))) else None),
          rp_speed = format_size (Some speed) @ ''/s'', rp_eta = (if known then Some (format_eta eta) else None),
          rp_album = map_option (\<lambda>c. album_line c eff) (pr_album r)\<rparr>)"

text \<open>Every piece updates the task, and at most every three and a half seconds a report is sent.\<close>

(* src: src/src/anbar/telegram_ingest.py auto ProgressReporter.update *)
definition report_update :: "rat \<Rightarrow> int \<Rightarrow> reporter \<times> task_manager \<Rightarrow> (reporter \<times> task_manager) \<times> report option" where
  "report_update now current s =
     (case s of (r, m) \<Rightarrow>
      let eff = (case pr_album r of None \<Rightarrow> 0 | Some c \<Rightarrow> ac_completed c) + current;
          m = set_task (pr_task r) (update_bytes now eff 10) m
      in if now - pr_last r < 7/2 \<or> now - pr_start r \<le> 0 then ((r, m), None)
         else ((r\<lparr>pr_last := now\<rparr>, m), Some (progress_report r (task_at m (pr_task r)) current eff)))"

section \<open>The figures are right\<close>

lemma unit_loop_spec:
  "unit_loop b i n = (b', j) \<Longrightarrow> i \<le> j \<and> j \<le> i + n \<and> b = b' * 1024 ^ (j - i) \<and> (j < i + n \<longrightarrow> b' < 1024) \<and> (i < j \<longrightarrow> 1 \<le> b')"
proof (induction b i n rule: unit_loop.induct)
  case (2 b idx n)
  show ?case
  proof (cases "1024 \<le> b")
    case True
    then have l: "unit_loop (b / 1024) (Suc idx) n = (b', j)" using 2(2) by simp
    note ih = 2(1) [OF True l]
    have "b = b' * 1024 ^ Suc (j - Suc idx)" using ih by simp
    moreover have "Suc (j - Suc idx) = j - idx" using ih by (intro Suc_diff_Suc) linarith
    moreover have "1 \<le> b'"
    proof (cases "j = Suc idx")
      case True
      then show ?thesis using ih \<open>1024 \<le> b\<close> by simp
    qed (use ih in simp)
    ultimately show ?thesis using ih by simp
  next
    case False
    then show ?thesis using 2(2) by simp
  qed
qed simp

text \<open>Also: A size of at least 1 KB and less than 1024 TB is shown as a figure from 1 up to 1024 in the unit that fits.\<close>

theorem size_shown_in_unit:
  assumes "1024 \<le> n" and "n < 1024 ^ 5"
  shows "\<exists>k x. k \<in> {1, 2, 3, 4} \<and> n = x * 1024 ^ k \<and> 1 \<le> x \<and> x < 1024 \<and> format_size (Some n) = fixed2 x @ '' '' @ size_units ! k"
proof -
  obtain x k where u: "unit_loop n 0 4 = (x, k)" by (rule prod.exhaust)
  note sp = unit_loop_spec [OF u]
  have k: "0 < k"
  proof (rule ccontr)
    assume "\<not> 0 < k"
    then show False using sp assms(1) by simp
  qed
  have x: "x < 1024"
  proof (cases "k < 4")
    case False
    then have "k = 4" using sp by simp
    then have "x * 1024 ^ 4 < 1024 * 1024 ^ 4" using sp assms(2) by simp
    then show ?thesis by (simp only: mult_less_cancel_right_pos zero_less_power zero_less_numeral)
  qed (use sp in simp)
  have "format_size (Some n) = fixed2 x @ '' '' @ size_units ! k"
  proof -
    have "length size_units - 1 = 4" by (simp add: size_units_def)
    then show ?thesis unfolding format_size_def option.case using assms(1) k u by simp
  qed
  then show ?thesis using sp k x by (intro exI [of _ k] exI [of _ x]) auto
qed

lemma size_shown_in_unit_witness: "\<exists>k x. k \<in> {1, 2, 3, 4} \<and> (1536 :: rat) = x * 1024 ^ k \<and> format_size (Some 1536) = fixed2 x @ '' '' @ size_units ! k"
  using size_shown_in_unit [of 1536] by auto

section \<open>Links are recognised\<close>

lemma digits_str_of_nat: "list_all is_digit (str_of_nat n)"
proof (induction n rule: str_of_nat.induct)
  case (1 n)
  then show ?case by (subst str_of_nat.simps) simp
qed

lemma span_class:
  assumes "list_all P xs" and "\<not> P y"
  shows "takeWhile P (xs @ y # zs) = xs" "dropWhile P (xs @ y # zs) = y # zs"
  using assms by (induction xs) auto

lemma takeWhile_number [simp]: "takeWhile is_digit (str_of_nat n) = str_of_nat n"
  using digits_str_of_nat [of n] by (simp add: list_all_iff)

lemma post_at_match:
  assumes "list_all ok name" and "least \<le> length name" and "\<not> ok (CHR ''/'')"
  shows "post_at pfx ok least (pfx @ name @ ''/'' @ str_of_nat m) = Some (name, str_of_nat m)"
  using assms str_of_nat_nonempty [of m] by (simp add: post_at_def span_class)

lemma post_search_first:
  "post_at pfx ok least s = Some x \<Longrightarrow> post_search pfx ok least s = Some x"
  by (cases s) (auto simp: post_at_def Let_def split: if_splits)

text \<open>The eight characters in front of a link start no match.\<close>

lemma post_search_skip:
  assumes "post_search pfx ok least s = x" and "\<And>k. k < length u \<Longrightarrow> \<not> startswith (drop k u @ s) pfx"
  shows "post_search pfx ok least (u @ s) = x"
  using assms
proof (induction u)
  case (Cons c u)
  have "post_at pfx ok least (c # u @ s) = None" using Cons.prems(2) [of 0] by (simp add: post_at_def)
  moreover have "post_search pfx ok least (u @ s) = x" using Cons.prems(2) [of "Suc _"] by (intro Cons.IH [OF Cons.prems(1)]) auto
  ultimately show ?case by simp
qed simp

lemma https_skips:
  assumes "\<not> startswith s ''/'' " and "startswith pfx ''t.me/''"
  shows "k < length ''https://'' \<Longrightarrow> \<not> startswith (drop k ''https://'' @ s) pfx"
proof -
  obtain q where q: "pfx = ''t.me/'' @ q" using assms(2) by (auto simp: startswith_iff)
  assume "k < length ''https://''"
  then have "k \<in> {0, 1, 2, 3, 4, 5, 6, 7}" by auto
  then show ?thesis unfolding q by (elim insertE emptyE) (simp_all add: numeral_eq_Suc)
qed

lemma post_search_link:
  assumes "startswith pfx ''t.me/''" and "post_at pfx ok least (''t.me/'' @ s) = Some x"
  shows "post_search pfx ok least (''https://t.me/'' @ s) = Some x"
proof -
  have "post_search pfx ok least (''https://'' @ ''t.me/'' @ s) = Some x"
    by (rule post_search_skip [OF post_search_first [OF assms(2)] https_skips [OF _ assms(1)]]) (simp_all)
  then show ?thesis by simp
qed

lemma py_int_digits:
  assumes "list_all is_digit ds" and "ds \<noteq> []"
  shows "py_int ds = Some (int (digits_val ds))" "py_int (''-'' @ ds) = Some (- int (digits_val ds))"
proof -
  have sp: "is_digit c \<Longrightarrow> \<not> is_space c" for c by (auto simp: is_digit_def is_space_def)
  have us: "list_all is_digit xs \<Longrightarrow> xs \<noteq> [] \<or> p \<Longrightarrow> digits_us p xs" for p xs
    by (induction xs arbitrary: p) auto
  have f: "filter is_digit ds = ds" using assms(1) by (simp add: list_all_iff filter_True)
  obtain c cs where c: "ds = c # cs" "is_digit c" using assms by (cases ds) auto
  have "is_digit (last ds)" using assms by (simp add: list_all_iff)
  then have s: "strip ds = ds" "strip (''-'' @ ds) = ''-'' @ ds"
    unfolding strip_by_ends using sp c by (auto simp: is_space_def code_def)
  have m: "c \<noteq> CHR ''-''" "c \<noteq> CHR ''+''" using c(2) by (auto simp: is_digit_def code_def)
  show "py_int ds = Some (int (digits_val ds))" using us [of ds False] m assms f unfolding py_int_def s(1) by (simp add: c(1) Let_def)
  show "py_int (''-'' @ ds) = Some (- int (digits_val ds))" using us [of ds False] assms f unfolding py_int_def s(2) by (simp add: Let_def)
qed

text \<open>Also: A link to a post of a private chat is read as the chat with its number behind -100 and the message number.\<close>

theorem private_link_parses:
  "parse_telegram_post_link (''https://t.me/c/'' @ str_of_nat c @ ''/'' @ str_of_nat m)
     = Some (Chat (- int (digits_val (''100'' @ str_of_nat c))), int m)"
proof -
  have at: "post_at ''t.me/c/'' is_digit 1 (''t.me/'' @ ''c/'' @ str_of_nat c @ ''/'' @ str_of_nat m) = Some (str_of_nat c, str_of_nat m)"
    using post_at_match [of is_digit "str_of_nat c" 1 "''t.me/c/''" m] digits_str_of_nat [of c] str_of_nat_nonempty [of c]
    by (cases "str_of_nat c") (simp_all add: is_digit_def code_def)
  have p: "private_post (''https://t.me/c/'' @ str_of_nat c @ ''/'' @ str_of_nat m) = Some (str_of_nat c, str_of_nat m)"
    using post_search_link [OF _ at] by (simp add: private_post_def)
  have d: "list_all is_digit (''100'' @ str_of_nat c)" using digits_str_of_nat [of c] by (simp add: is_digit_def code_def)
  have "py_int (''-100'' @ str_of_nat c) = Some (- int (digits_val (''100'' @ str_of_nat c)))"
    using py_int_digits(2) [OF d] by simp
  then show ?thesis
    unfolding parse_telegram_post_link_def p using py_int_digits(1) [OF digits_str_of_nat str_of_nat_nonempty, of m] by simp
qed

lemma post_search_none:
  assumes "CHR ''.'' \<notin> set (tl s)" shows "post_search (c # ''.'' @ q) ok least s = None"
  using assms
proof (induction s)
  case (Cons x xs)
  have "\<not> startswith (x # xs) (c # ''.'' @ q)" using Cons.prems by (cases xs) auto
  then have n: "post_at (c # ''.'' @ q) ok least (x # xs) = None" unfolding post_at_def by (simp only: if_False)
  have "CHR ''.'' \<notin> set (tl xs)" using Cons.prems by (cases xs) auto
  from Cons.IH [OF this] show ?case unfolding post_search.simps n by simp
qed simp

lemma digits_no: "is_digit c = False \<Longrightarrow> c \<notin> set (str_of_nat n)"
  using digits_str_of_nat [of n] by (auto simp: list_all_iff)

text \<open>Also: A link to a post of a public chat is read as the name of the chat and the message number.\<close>

theorem public_link_parses:
  assumes "list_all name_char name" and "4 \<le> length name" and "lower name \<notin> {''joinchat'', ''share'', ''addstickers'', ''invoice'', ''c''}"
  shows "parse_telegram_post_link (''https://t.me/'' @ name @ ''/'' @ str_of_nat m) = Some (Named name, int m)"
proof -
  have slash: "\<not> name_char (CHR ''/'')" by (simp add: name_char_def is_alnum_def is_digit_def code_def)
  have at: "post_at ''t.me/'' name_char 4 (''t.me/'' @ name @ ''/'' @ str_of_nat m) = Some (name, str_of_nat m)"
    by (rule post_at_match [OF assms(1,2) slash])
  then have q: "public_post (''https://t.me/'' @ name @ ''/'' @ str_of_nat m) = Some (name, str_of_nat m)"
    using post_search_link by (simp add: public_post_def)
  have "private_post (''https://t.me/'' @ name @ ''/'' @ str_of_nat m) = None"
  proof -
    let ?s = "name @ ''/'' @ str_of_nat m"
    have dot: "CHR ''.'' \<notin> set name" using assms(1) by (auto simp: list_all_iff name_char_def is_alnum_def is_digit_def code_def)
    have "CHR ''.'' \<notin> set (str_of_nat m)" by (rule digits_no) (simp add: is_digit_def code_def)
    then have t: "post_search ''t.me/c/'' is_digit 1 (''.me/'' @ ?s) = None"
      using post_search_none [where s = "''.me/'' @ ?s" and c = "CHR ''t''" and q = "''me/c/''" and ok = is_digit and least = 1] dot by simp
    obtain a b n2 where n: "name = a # b # n2" using assms(2) by (cases name; cases "tl name") auto
    then have "b \<noteq> CHR ''/''" using assms(1) slash by auto
    then have "post_at ''t.me/c/'' is_digit 1 (''t.me/'' @ ?s) = None" by (simp add: post_at_def n)
    then have "post_search ''t.me/c/'' is_digit 1 (''t.me/'' @ ?s) = None" using t by simp
    have "post_search ''t.me/c/'' is_digit 1 (''https://'' @ ''t.me/'' @ ?s) = None"
      by (rule post_search_skip [OF \<open>post_search ''t.me/c/'' is_digit 1 (''t.me/'' @ ?s) = None\<close> https_skips]) simp_all
    then show ?thesis by (simp add: private_post_def)
  qed
  then show ?thesis
    unfolding parse_telegram_post_link_def using q assms(3) py_int_digits(1) [OF digits_str_of_nat str_of_nat_nonempty, of m] by simp
qed

lemma public_link_parses_witness: "parse_telegram_post_link (''https://t.me/'' @ ''durov'' @ ''/'' @ str_of_nat 7) = Some (Named ''durov'', int 7)"
  by (rule public_link_parses) (simp_all add: name_char_def is_alnum_def is_digit_def lower_def lower_char_def code_def)

text \<open>Also: any web site whose host ends in t.me is taken for Telegram: its addresses are not fetched, and one with a
  number below a name is read as a post.\<close>

theorem lookalike_host_refused:
  "parse_web_url ''https://about.me/jane.jpg'' = None \<and> parse_telegram_post_link ''https://about.me/jane/12'' = Some (Named ''jane'', 12)"
  by code_simp

end
