(* ===== verification/TgAlbum.thy ===== *)
theory TgAlbum
  imports TgMessages
begin

text \<open>
  The collection of albums in \<^verbatim>\<open>src/src/anbar/telegram_ingest.py\<close>: messages that share a media group are
  buffered until none has come for a while, and then handed over as one batch. The buffers, the timers of the groups
  and the timers still sleeping are the state; the messages that came and the batches handed over are recorded.
\<close>

section \<open>Buffers and timers\<close>

(* src: src/src/anbar/telegram_ingest.py 499 ALBUM_BUFFERS *)
record 'm albums =
  al_buffers :: "(string \<times> 'm list) list"
  al_timers :: "(string \<times> nat) list"
  al_asleep :: "(nat \<times> string) set"
  al_next :: nat
  al_seen :: "(string \<times> 'm) list"
  al_batches :: "(string \<times> 'm list) list"

definition albums_init :: "'m albums" where
  "albums_init = \<lparr>al_buffers = [], al_timers = [], al_asleep = {}, al_next = 0, al_seen = [], al_batches = []\<rparr>"

text \<open>A message is put behind the others of its group, the timer of the group is cancelled unless it is done, and a new
  one starts. Cancelling a timer that is done changes nothing.\<close>

(* src: src/src/anbar/telegram_ingest.py auto _enqueue_album_item *)
definition enqueue_album_item :: "string \<Rightarrow> 'm \<Rightarrow> 'm albums \<Rightarrow> 'm albums" where
  "enqueue_album_item g m s =
     (let s = (if map_of (al_buffers s) g = None then s\<lparr>al_buffers := AList.update g [] (al_buffers s)\<rparr> else s);
          s = s\<lparr>al_buffers := AList.update g (the (map_of (al_buffers s) g) @ [m]) (al_buffers s)\<rparr>;
          s = (case map_of (al_timers s) g of None \<Rightarrow> s | Some t \<Rightarrow> s\<lparr>al_asleep := al_asleep s - {(t, g)}\<rparr>)
      in s\<lparr>al_timers := AList.update g (al_next s) (al_timers s), al_asleep := insert (al_next s, g) (al_asleep s), al_next := al_next s + 1,
           al_seen := al_seen s @ [(g, m)]\<rparr>)"

text \<open>A timer that wakes takes the buffer of its group, whatever timer the group has now.\<close>

(* src: src/src/anbar/telegram_ingest.py 515-527 _enqueue_album_item *)
definition timer_wakes :: "nat \<Rightarrow> string \<Rightarrow> 'm albums \<Rightarrow> 'm albums" where
  "timer_wakes t g s =
     (let items = (case map_of (al_buffers s) g of None \<Rightarrow> [] | Some ms \<Rightarrow> ms);
          s = s\<lparr>al_asleep := al_asleep s - {(t, g)}, al_buffers := AList.delete g (al_buffers s), al_timers := AList.delete g (al_timers s)\<rparr>
      in if items \<noteq> [] then s\<lparr>al_batches := al_batches s @ [(g, items)]\<rparr> else s)"

inductive album_step :: "'m albums \<Rightarrow> 'm albums \<Rightarrow> bool" where
  message: "album_step s (enqueue_album_item g m s)"
| wake: "(t, g) \<in> al_asleep s \<Longrightarrow> album_step s (timer_wakes t g s)"

section \<open>No message is lost\<close>

definition of_group :: "string \<Rightarrow> (string \<times> 'm) list \<Rightarrow> 'm list" where
  "of_group g xs = map snd (filter (\<lambda>(k, _). k = g) xs)"

definition batched :: "string \<Rightarrow> 'm albums \<Rightarrow> 'm list" where
  "batched g s = concat (of_group g (al_batches s))"

definition waiting :: "string \<Rightarrow> 'm albums \<Rightarrow> 'm list" where
  "waiting g s = (case map_of (al_buffers s) g of None \<Rightarrow> [] | Some ms \<Rightarrow> ms)"

definition albums_ok :: "'m albums \<Rightarrow> bool" where
  "albums_ok s =
     ((\<forall>g. batched g s @ waiting g s = of_group g (al_seen s))
      \<and> (\<forall>t g. (t, g) \<in> al_asleep s \<longleftrightarrow> map_of (al_timers s) g = Some t)
      \<and> (\<forall>g. map_of (al_buffers s) g \<noteq> None \<longleftrightarrow> map_of (al_timers s) g \<noteq> None))"

lemma of_group_snoc: "of_group g (xs @ [(k, m)]) = of_group g xs @ (if k = g then [m] else [])"
  by (simp add: of_group_def)

lemma albums_ok_init: "albums_ok albums_init"
  by (simp add: albums_ok_def albums_init_def batched_def waiting_def of_group_def)

lemma enqueue_fields:
  "map_of (al_buffers (enqueue_album_item g m s)) k = (if k = g then Some (waiting g s @ [m]) else map_of (al_buffers s) k)"
  "map_of (al_timers (enqueue_album_item g m s)) k = (if k = g then Some (al_next s) else map_of (al_timers s) k)"
  "al_asleep (enqueue_album_item g m s) = insert (al_next s, g) (case map_of (al_timers s) g of None \<Rightarrow> al_asleep s | Some t \<Rightarrow> al_asleep s - {(t, g)})"
  "al_next (enqueue_album_item g m s) = al_next s + 1" "al_seen (enqueue_album_item g m s) = al_seen s @ [(g, m)]"
  "al_batches (enqueue_album_item g m s) = al_batches s"
  by (auto simp: enqueue_album_item_def Let_def update_conv' waiting_def split: option.split)

lemma wake_fields:
  "map_of (al_buffers (timer_wakes t g s)) k = (if k = g then None else map_of (al_buffers s) k)"
  "map_of (al_timers (timer_wakes t g s)) k = (if k = g then None else map_of (al_timers s) k)"
  "al_asleep (timer_wakes t g s) = al_asleep s - {(t, g)}" "al_next (timer_wakes t g s) = al_next s" "al_seen (timer_wakes t g s) = al_seen s"
  "al_batches (timer_wakes t g s) = al_batches s @ (if waiting g s = [] then [] else [(g, waiting g s)])"
  by (auto simp: timer_wakes_def Let_def delete_conv' waiting_def split: option.split)

lemma albums_ok_step: "album_step s s' \<Longrightarrow> albums_ok s \<Longrightarrow> albums_ok s'"
proof (induction rule: album_step.induct)
  case (message s g m)
  let ?s = "enqueue_album_item g m s"
  have ok: "batched k s @ waiting k s = of_group k (al_seen s)" "(t, k) \<in> al_asleep s \<longleftrightarrow> map_of (al_timers s) k = Some t"
    "map_of (al_buffers s) k \<noteq> None \<longleftrightarrow> map_of (al_timers s) k \<noteq> None" for t k
    using message by (simp_all add: albums_ok_def)
  have w: "waiting k ?s = waiting k s @ (if k = g then [m] else [])" for k by (simp add: waiting_def enqueue_fields)
  have b: "batched k ?s = batched k s" for k by (simp add: batched_def enqueue_fields)
  have "batched k ?s @ waiting k ?s = of_group k (al_seen ?s)" for k
    unfolding w b enqueue_fields(5) of_group_snoc using ok(1) [of k] by simp
  moreover have "(t, k) \<in> al_asleep ?s \<longleftrightarrow> map_of (al_timers ?s) k = Some t" for t k
    unfolding enqueue_fields using ok(2) by (cases "map_of (al_timers s) g") auto
  moreover have "map_of (al_buffers ?s) k \<noteq> None \<longleftrightarrow> map_of (al_timers ?s) k \<noteq> None" for k
    unfolding enqueue_fields using ok(3) [of k] by simp
  ultimately show ?case unfolding albums_ok_def by blast
next
  case (wake t g s)
  let ?s = "timer_wakes t g s"
  have ok: "batched k s @ waiting k s = of_group k (al_seen s)" "(u, k) \<in> al_asleep s \<longleftrightarrow> map_of (al_timers s) k = Some u"
    "map_of (al_buffers s) k \<noteq> None \<longleftrightarrow> map_of (al_timers s) k \<noteq> None" for u k
    using wake by (simp_all add: albums_ok_def)
  have w: "waiting k ?s = (if k = g then [] else waiting k s)" for k by (simp add: waiting_def wake_fields)
  have b: "batched k ?s = batched k s @ (if k = g then waiting k s else [])" for k
    by (simp add: batched_def wake_fields of_group_snoc)
  have "batched k ?s @ waiting k ?s = of_group k (al_seen ?s)" for k
    unfolding w b wake_fields(5) using ok(1) [of k] by (cases "k = g") simp_all
  moreover have "(u, k) \<in> al_asleep ?s \<longleftrightarrow> map_of (al_timers ?s) k = Some u" for u k
    unfolding wake_fields using ok(2) wake.hyps by auto
  moreover have "map_of (al_buffers ?s) k \<noteq> None \<longleftrightarrow> map_of (al_timers ?s) k \<noteq> None" for k
    unfolding wake_fields using ok(3) [of k] by simp
  ultimately show ?case unfolding albums_ok_def by blast
qed

lemma albums_reachable: "(album_step)\<^sup>*\<^sup>* albums_init s \<Longrightarrow> albums_ok s"
  by (induction rule: rtranclp_induct) (auto intro: albums_ok_init albums_ok_step)

text \<open>C36: Whatever order messages and timers come in, the messages of a group are, in order, those handed over in its
  batches and those that wait; so none is lost, repeated or put into another album.\<close>

theorem album_messages_kept:
  assumes "(album_step)\<^sup>*\<^sup>* albums_init s"
  shows "of_group g (al_seen s) = batched g s @ waiting g s"
  using albums_reachable [OF assms] by (simp add: albums_ok_def)

definition demo_albums :: "nat albums" where
  "demo_albums = enqueue_album_item ''g'' 3 (timer_wakes 1 ''g'' (enqueue_album_item ''g'' 2 (enqueue_album_item ''g'' 1 albums_init)))"

lemma demo_albums_run: "album_step\<^sup>*\<^sup>* albums_init demo_albums"
proof -
  let ?s1 = "enqueue_album_item ''g'' (1 :: nat) albums_init"
  let ?s2 = "enqueue_album_item ''g'' 2 ?s1"
  let ?s3 = "timer_wakes 1 ''g'' ?s2"
  note go = rtranclp.rtrancl_into_rtrancl [where r = album_step]
  have "album_step\<^sup>*\<^sup>* albums_init ?s1" by (rule go [OF rtranclp.rtrancl_refl message])
  then have "album_step\<^sup>*\<^sup>* albums_init ?s2" by (rule go [OF _ message])
  then have "album_step\<^sup>*\<^sup>* albums_init ?s3"
    by (rule go [OF _ wake]) (simp add: enqueue_fields albums_init_def)
  then show ?thesis unfolding demo_albums_def by (rule go [OF _ message])
qed

lemma album_messages_kept_witness: "batched ''g'' demo_albums @ waiting ''g'' demo_albums = [1, 2, 3]"
proof -
  have "of_group ''g'' (al_seen demo_albums) = [1, 2, 3]" by (simp add: demo_albums_def enqueue_fields wake_fields of_group_def albums_init_def)
  then show ?thesis using album_messages_kept [OF demo_albums_run, of "''g''"] by simp
qed

text \<open>Also: A message that waits has a sleeping timer of its group, so it is handed over with the batch that timer starts.\<close>

theorem waiting_album_has_timer:
  assumes "album_step\<^sup>*\<^sup>* albums_init s" and "waiting g s \<noteq> []"
  shows "\<exists>t. (t, g) \<in> al_asleep s \<and> al_batches (timer_wakes t g s) = al_batches s @ [(g, waiting g s)] \<and> waiting g (timer_wakes t g s) = []"
proof -
  have ok: "albums_ok s" by (rule albums_reachable [OF assms(1)])
  have "map_of (al_buffers s) g \<noteq> None" using assms(2) by (auto simp: waiting_def split: option.splits)
  then obtain t where "map_of (al_timers s) g = Some t" using ok unfolding albums_ok_def by blast
  then have "(t, g) \<in> al_asleep s" using ok by (simp add: albums_ok_def)
  then show ?thesis using assms(2) by (intro exI [of _ t]) (simp add: wake_fields, simp add: waiting_def wake_fields)
qed

lemma waiting_album_has_timer_witness: "\<exists>t. (t, ''g'') \<in> al_asleep demo_albums \<and> waiting ''g'' (timer_wakes t ''g'' demo_albums) = []"
proof -
  have "waiting ''g'' demo_albums \<noteq> []" by (simp add: demo_albums_def waiting_def enqueue_fields)
  from waiting_album_has_timer [OF demo_albums_run this] show ?thesis by blast
qed

end
