(* ===== verification/TgStream.thy ===== *)
theory TgStream
  imports DbCoherence Runtime Storage
begin

text \<open>
  The download of Telegram media in \<^verbatim>\<open>src/src/anbar/telegram_ingest.py\<close>: the single stream that resumes where it
  broke off, and the parallel one, whose workers fetch parts of a fixed size in any order while the
  consumer puts them back in order. Telethon is an argument, waiting takes no time.
\<close>

section \<open>The resuming stream\<close>

text \<open>How one continuous download ends; a flood wait is obeyed without counting as a failure.\<close>

datatype stream_end = Finished | FloodWait | Broken

datatype dl_status = Complete | GaveUp | Waiting

text \<open>Each attempt is the pieces it delivered from the offset and its end. The result is the pieces yielded, and whether the
  stream is complete, gave up after more than ten failures in a row without a piece, or waits for the next attempt.\<close>

(* src: src/src/anbar/telegram_ingest.py 1030-1085 _stream_telethon_media *)
fun resilient :: "nat \<Rightarrow> ('b list list \<times> stream_end) list \<Rightarrow> nat \<Rightarrow> nat \<Rightarrow> 'b list list \<times> dl_status" where
  "resilient tot atts offset retries =
     (if tot \<noteq> 0 \<and> tot \<le> offset then ([], Complete)
      else (case atts of
         [] \<Rightarrow> ([], Waiting)
       | (pieces, e) # atts \<Rightarrow>
           let got = filter (\<lambda>p. p \<noteq> []) pieces;
               offset = offset + length (concat got);
               retries = (if got = [] then retries else 0)
           in (case e of
                 Finished \<Rightarrow> (got, Complete)
               | FloodWait \<Rightarrow> (case resilient tot atts offset retries of (out, s) \<Rightarrow> (got @ out, s))
               | Broken \<Rightarrow> if Suc retries > 10 then (got, GaveUp)
                           else (case resilient tot atts offset (Suc retries) of (out, s) \<Rightarrow> (got @ out, s)))))"

text \<open>An attempt at an offset delivers what the file has there, and ends normally only at its end.\<close>

fun honest :: "'b list \<Rightarrow> ('b list list \<times> stream_end) list \<Rightarrow> nat \<Rightarrow> bool" where
  "honest file_bytes [] offset = True"
| "honest file_bytes ((pieces, e) # atts) offset =
     (concat pieces = take (length (concat pieces)) (drop offset file_bytes)
      \<and> (e = Finished \<longrightarrow> offset + length (concat pieces) = length file_bytes)
      \<and> offset + length (concat pieces) \<le> length file_bytes
      \<and> honest file_bytes atts (offset + length (concat pieces)))"

declare resilient.simps [simp del]

lemma concat_nonempty: "concat (filter (\<lambda>p. p \<noteq> []) ps) = concat ps"
  by (induction ps) auto

lemma take_append_drop_take: "take n (drop k xs) @ take m (drop (k + n) xs) = take (n + m) (drop k xs)"
  by (simp add: take_add add.commute [of n k])

lemma take_own_length: "x = take m d \<Longrightarrow> x = take (length x) d"
  by (simp add: min_def)

lemma resilient_prefix:
  assumes "resilient tot atts offset retries = (out, s)" and "honest file_bytes atts offset" and "tot = 0 \<or> tot = length file_bytes"
    and "offset \<le> length file_bytes"
  shows "concat out = take (length (concat out)) (drop offset file_bytes) \<and> (s = Complete \<longrightarrow> concat out = drop offset file_bytes)"
  using assms
proof (induction atts arbitrary: offset retries out)
  case Nil
  then show ?case by (auto simp: resilient.simps split: if_splits)
next
  case (Cons a atts)
  obtain pieces e where a: "a = (pieces, e)" by (cases a)
  let ?n = "length (concat pieces)"
  show ?case
  proof (cases "tot \<noteq> 0 \<and> tot \<le> offset")
    case True
    then show ?thesis using Cons.prems by (auto simp: resilient.simps)
  next
    case False
    have h: "concat pieces = take ?n (drop offset file_bytes)" "e = Finished \<longrightarrow> offset + ?n = length file_bytes"
      "offset + ?n \<le> length file_bytes" "honest file_bytes atts (offset + ?n)"
      using Cons.prems(2) by (simp_all add: a)
    let ?got = "filter (\<lambda>p. p \<noteq> []) pieces"
    have step: "concat (?got @ out') = take (length (concat (?got @ out'))) (drop offset file_bytes) \<and> (s = Complete \<longrightarrow> concat (?got @ out') = drop offset file_bytes)"
      if "resilient tot atts (offset + ?n) r = (out', s)" for r out'
    proof -
      from Cons.IH [OF that h(4) Cons.prems(3) h(3)]
      have i: "concat out' = take (length (concat out')) (drop (offset + ?n) file_bytes)" "s = Complete \<longrightarrow> concat out' = drop (offset + ?n) file_bytes" by simp_all
      have "concat (?got @ out') = take ?n (drop offset file_bytes) @ take (length (concat out')) (drop (offset + ?n) file_bytes)"
        using h(1) i(1) by (simp add: concat_nonempty)
      then have "concat (?got @ out') = take (?n + length (concat out')) (drop offset file_bytes)" by (simp only: take_append_drop_take)
      moreover have "s = Complete \<Longrightarrow> concat (?got @ out') = drop offset file_bytes"
        using h(1) i(2) by (simp add: concat_nonempty) (metis append_take_drop_id drop_drop add.commute)
      ultimately show ?thesis using take_own_length by blast
    qed
    note r = Cons.prems(1) [unfolded a resilient.simps [of tot "(pieces, e) # atts"]]
    show ?thesis
    proof (cases e)
      case Finished
      then show ?thesis using r False h by (auto simp: concat_nonempty Let_def)
    next
      case FloodWait
      then obtain out' rr where o: "resilient tot atts (offset + ?n) rr = (out', s)" "out = ?got @ out'"
        using r False by (auto simp: concat_nonempty Let_def split: prod.splits)
      show ?thesis unfolding o(2) by (rule step [OF o(1)])
    next
      case Broken
      show ?thesis
      proof (cases "s = GaveUp \<and> out = ?got")
        case True
        then show ?thesis using h(1) by (simp add: concat_nonempty)
      next
        case f: False
        then obtain out' rr where o: "resilient tot atts (offset + ?n) rr = (out', s)" "out = ?got @ out'"
          using r False Broken by (auto simp: concat_nonempty Let_def split: prod.splits if_splits)
        show ?thesis unfolding o(2) by (rule step [OF o(1)])
      qed
    qed
  qed
qed

text \<open>Also: However often a download breaks off, what the resuming stream yields is the file from its start, without a gap or a
  repetition, and when the stream is complete it is the whole file.\<close>

theorem resumed_download_exact:
  assumes "resilient tot atts 0 0 = (out, s)" and "honest file_bytes atts 0" and "tot = 0 \<or> tot = length file_bytes"
  shows "concat out = take (length (concat out)) file_bytes \<and> (s = Complete \<longrightarrow> concat out = file_bytes)"
  using resilient_prefix [OF assms] by simp

lemma resumed_download_exact_witness:
  "let atts = [([[1], [2 :: nat]], Broken), ([], FloodWait), ([[], [3]], Finished)]
   in concat (fst (resilient 3 atts 0 0)) = [1, 2, 3] \<and> snd (resilient 3 atts 0 0) = Complete"
proof -
  let ?a = "[([[1], [2 :: nat]], Broken), ([], FloodWait), ([[], [3]], Finished)]"
  have s: "snd (resilient 3 ?a 0 0) = Complete" by code_simp
  have "honest [1, 2, 3] ?a 0" by simp
  from resumed_download_exact [OF _ this, of 3 "fst (resilient 3 ?a 0 0)" Complete] s
  have "concat (fst (resilient 3 ?a 0 0)) = [1, 2, 3]" by (cases "resilient 3 ?a 0 0") simp
  with s show ?thesis by (simp add: Let_def)
qed

lemma resilient_ends:
  assumes "honest file_bytes atts offset" and "FloodWait \<notin> snd ` set atts" and "tot = 0 \<or> tot = length file_bytes" and "retries \<le> 10"
    and "(10 - retries) + 11 * (length file_bytes - offset) < length atts"
  shows "snd (resilient tot atts offset retries) \<noteq> Waiting"
  using assms
proof (induction atts arbitrary: offset retries)
  case (Cons a atts)
  obtain pieces e where a: "a = (pieces, e)" by (cases a)
  let ?n = "length (concat pieces)" and ?got = "filter (\<lambda>p. p \<noteq> []) pieces"
  have h: "offset + ?n \<le> length file_bytes" "honest file_bytes atts (offset + ?n)" "FloodWait \<notin> snd ` set atts" "e \<noteq> FloodWait"
    using Cons.prems(1,2) by (auto simp: a)
  note u = resilient.simps [of tot "(pieces, e) # atts" offset retries]
  show ?case
  proof (cases "e = Broken \<and> \<not> (tot \<noteq> 0 \<and> tot \<le> offset)")
    case False
    then show ?thesis using h(4) unfolding a u by (cases e) (auto simp: Let_def)
  next
    case True
    define r where "r = (if ?got = [] then retries else 0)"
    show ?thesis
    proof (cases "r = 10")
      case True
      with \<open>e = Broken \<and> _\<close> show ?thesis unfolding a u by (auto simp: Let_def r_def)
    next
      case False
      have n: "?got \<noteq> [] \<Longrightarrow> 0 < ?n" by (auto simp: filter_empty_conv)
      have r: "Suc r \<le> 10" using False Cons.prems(4) by (auto simp: r_def)
      have "(10 - Suc r) + 11 * (length file_bytes - (offset + ?n)) < length atts"
      proof (cases "?got = []")
        case True
        then have "?n = 0" by (metis concat_nonempty concat.simps(1) list.size(3))
        then show ?thesis using Cons.prems(4,5) r True by (simp add: r_def)
      next
        case False
        obtain m where m: "length file_bytes = offset + ?n + m" using h(1) le_Suc_ex by blast
        obtain k where k: "?n = Suc k" using n [OF False] gr0_implies_Suc by blast
        have "r = 0" using False by (simp add: r_def)
        then show ?thesis using Cons.prems(4,5) unfolding m k by simp
      qed
      from Cons.IH [OF h(2,3) Cons.prems(3) r this]
      show ?thesis using True r unfolding a u by (auto simp: Let_def r_def [symmetric] concat_nonempty split: prod.split)
    qed
  qed
qed simp

text \<open>Also: Without flood waits the resuming stream ends: after more than eleven attempts for every byte of the file and for the
  end it is complete or has given up.\<close>

theorem resumed_download_ends:
  assumes "honest file_bytes atts 0" and "FloodWait \<notin> snd ` set atts" and "tot = 0 \<or> tot = length file_bytes"
    and "11 * (length file_bytes + 1) \<le> length atts"
  shows "snd (resilient tot atts 0 0) \<in> {Complete, GaveUp}"
proof -
  have "snd (resilient tot atts 0 0) \<noteq> Waiting" using assms(4) by (intro resilient_ends [OF assms(1-3)]) simp_all
  then show ?thesis by (cases "snd (resilient tot atts 0 0)") auto
qed

lemma resumed_download_ends_witness:
  "snd (resilient 1 (([[7 :: nat]], Finished) # replicate 21 ([], Broken)) 0 0) \<in> {Complete, GaveUp}"
proof -
  have "honest [7 :: nat] (([[7]], Finished) # replicate n ([], Broken)) 0" for n
  proof -
    have "honest [7 :: nat] (replicate n ([], Broken)) 1" by (induction n) auto
    then show ?thesis by simp
  qed
  then show ?thesis by (rule resumed_download_ends) auto
qed

section \<open>The parallel stream\<close>

text \<open>What travels from the workers to the consumer: a part, an error, and the mark that all workers have returned.\<close>

datatype 'b item = Part nat "'b list" | Fail | Sentinel

text \<open>A worker is at the head of its loop, or has taken a part that is in flight until it is queued, or has returned.\<close>

record 'b par =
  pa_workers :: nat
  pa_next :: nat
  pa_flight :: "nat set"
  pa_queue :: "'b item list"
  pa_expected :: nat
  pa_buf :: "(nat \<times> 'b list) list"
  pa_out :: "'b list list"
  pa_failed :: bool
  pa_ended :: bool
  pa_marked :: bool

text \<open>\<open>conc\<close>: the setting \<^verbatim>\<open>tg_ingest_concurrency\<close>.\<close>

(* src: src/src/anbar/telegram_ingest.py 1172-1182 _stream_telethon_media *)
definition par_init :: "int \<Rightarrow> nat \<Rightarrow> 'b par" where
  "par_init conc tot = \<lparr>pa_workers = min (nat (max 1 (min 8 conc))) tot, pa_next = 0, pa_flight = {}, pa_queue = [], pa_expected = 0,
     pa_buf = [], pa_out = [], pa_failed = False, pa_ended = False, pa_marked = False\<rparr>"

(* src: src/src/anbar/telegram_ingest.py 1275-1277 _stream_telethon_media *)
function drain :: "nat \<Rightarrow> (nat \<times> 'b list) list \<Rightarrow> nat \<times> (nat \<times> 'b list) list \<times> 'b list list" where
  "drain e buf =
     (case map_of buf e of
        None \<Rightarrow> (e, buf, [])
      | Some d \<Rightarrow> (case drain (Suc e) (AList.delete e buf) of (e', buf', out) \<Rightarrow> (e', buf', d # out)))"
  by pat_completeness auto
termination
  by (relation "measure (length \<circ> snd)") (auto intro: length_delete)

(* src: src/src/anbar/telegram_ingest.py 1257-1277 _stream_telethon_media *)
fun consume_item :: "'b item \<Rightarrow> 'b par \<Rightarrow> 'b par" where
  "consume_item Fail s = s\<lparr>pa_failed := True\<rparr>"
| "consume_item Sentinel s = s\<lparr>pa_ended := True\<rparr>"
| "consume_item (Part i d) s =
     (case drain (pa_expected s) (AList.update i d (pa_buf s)) of
        (e, buf, out) \<Rightarrow> s\<lparr>pa_expected := e, pa_buf := buf, pa_out := pa_out s @ out\<rparr>)"

text \<open>The steps, in any order: a worker takes the next part or finds none and returns, queues what it got, or queues an error and
  returns; once all workers have returned, for whatever reason, the mark of the end is queued; the consumer takes an item. The
  queue holds 16 items.\<close>

(* src: src/src/anbar/telegram_ingest.py 1184-1277 _stream_telethon_media *)
inductive par_step :: "nat \<Rightarrow> (nat \<Rightarrow> 'b list) \<Rightarrow> 'b par \<Rightarrow> 'b par \<Rightarrow> bool" for tot :: nat and part :: "nat \<Rightarrow> 'b list" where
  take_part: "0 < pa_workers s \<Longrightarrow> pa_next s < tot \<Longrightarrow>
    par_step tot part s (s\<lparr>pa_workers := pa_workers s - 1, pa_flight := insert (pa_next s) (pa_flight s), pa_next := Suc (pa_next s)\<rparr>)"
| worker_done: "0 < pa_workers s \<Longrightarrow> tot \<le> pa_next s \<Longrightarrow> par_step tot part s (s\<lparr>pa_workers := pa_workers s - 1\<rparr>)"
| queue_part: "i \<in> pa_flight s \<Longrightarrow> length (pa_queue s) < 16 \<Longrightarrow>
    par_step tot part s (s\<lparr>pa_workers := Suc (pa_workers s), pa_flight := pa_flight s - {i}, pa_queue := pa_queue s @ [Part i (part i)]\<rparr>)"
| queue_error: "i \<in> pa_flight s \<Longrightarrow> length (pa_queue s) < 16 \<Longrightarrow>
    par_step tot part s (s\<lparr>pa_flight := pa_flight s - {i}, pa_queue := pa_queue s @ [Fail]\<rparr>)"
| queue_end: "pa_workers s = 0 \<Longrightarrow> pa_flight s = {} \<Longrightarrow> \<not> pa_marked s \<Longrightarrow> length (pa_queue s) < 16 \<Longrightarrow>
    par_step tot part s (s\<lparr>pa_marked := True, pa_queue := pa_queue s @ [Sentinel]\<rparr>)"
| consume: "pa_queue s = x # q \<Longrightarrow> pa_expected s < tot \<Longrightarrow> \<not> pa_failed s \<Longrightarrow> \<not> pa_ended s \<Longrightarrow>
    par_step tot part s (consume_item x (s\<lparr>pa_queue := q\<rparr>))"

declare drain.simps [simp del]

lemma drain_spec:
  assumes "drain e buf = (e', buf', out)"
  shows "e \<le> e' \<and> out = map (the \<circ> map_of buf) [e..<e'] \<and> map_of buf' e' = None
    \<and> (\<forall>i. map_of buf' i = (if e \<le> i \<and> i < e' then None else map_of buf i)) \<and> (\<forall>i. e \<le> i \<and> i < e' \<longrightarrow> map_of buf i \<noteq> None)"
  using assms
proof (induction e buf arbitrary: e' buf' out rule: drain.induct)
  case (1 e buf)
  show ?case
  proof (cases "map_of buf e")
    case None
    then show ?thesis using 1(2) by (auto simp: drain.simps [of e buf])
  next
    case (Some d)
    obtain e2 buf2 out2 where d: "drain (Suc e) (AList.delete e buf) = (e2, buf2, out2)" by (metis prod_cases3)
    then have eq: "e' = e2" "buf' = buf2" "out = d # out2" using 1(2) Some by (simp_all add: drain.simps [of e buf])
    from 1(1) [OF Some d] have ih: "Suc e \<le> e2" "out2 = map (the \<circ> map_of (AList.delete e buf)) [Suc e..<e2]" "map_of buf2 e2 = None"
      "\<forall>i. map_of buf2 i = (if Suc e \<le> i \<and> i < e2 then None else map_of (AList.delete e buf) i)"
      "\<forall>i. Suc e \<le> i \<and> i < e2 \<longrightarrow> map_of (AList.delete e buf) i \<noteq> None" by blast+
    have m: "map (the \<circ> map_of (AList.delete e buf)) [Suc e..<e2] = map (the \<circ> map_of buf) [Suc e..<e2]"
      by (rule map_cong) (auto simp: delete_conv')
    have "out = map (the \<circ> map_of buf) [e..<e2]"
      using ih(1) Some unfolding eq ih(2) m by (simp add: upt_conv_Cons)
    moreover have "map_of buf2 i = (if e \<le> i \<and> i < e2 then None else map_of buf i)" for i
      using ih(1) spec [OF ih(4), of i] by (cases "i = e") (auto simp: delete_conv')
    moreover have "e \<le> i \<and> i < e2 \<Longrightarrow> map_of buf i \<noteq> None" for i
      using Some spec [OF ih(5), of i] by (cases "i = e") (auto simp: delete_conv')
    ultimately show ?thesis using ih(1,3) unfolding eq by auto
  qed
qed

text \<open>Every part below the next one is somewhere, and while parts are left some worker is there, unless an error is on its way.\<close>

definition covered :: "(nat \<Rightarrow> 'b list) \<Rightarrow> 'b par \<Rightarrow> bool" where
  "covered part s = (\<forall>i. pa_expected s \<le> i \<and> i < pa_next s \<longrightarrow>
     i \<in> pa_flight s \<or> Part i (part i) \<in> set (pa_queue s) \<or> map_of (pa_buf s) i \<noteq> None)"

definition staffed :: "nat \<Rightarrow> 'b par \<Rightarrow> bool" where
  "staffed tot s = (tot \<le> pa_next s \<or> 0 < pa_workers s \<or> pa_flight s \<noteq> {})"

definition par_ok :: "nat \<Rightarrow> (nat \<Rightarrow> 'b list) \<Rightarrow> 'b par \<Rightarrow> bool" where
  "par_ok tot part s =
     (pa_out s = map part [0..<pa_expected s] \<and> pa_expected s \<le> pa_next s \<and> pa_next s \<le> tot
      \<and> map_of (pa_buf s) (pa_expected s) = None
      \<and> (\<forall>i d. map_of (pa_buf s) i = Some d \<longrightarrow> d = part i \<and> i < pa_next s)
      \<and> (\<forall>i d. Part i d \<in> set (pa_queue s) \<longrightarrow> d = part i \<and> i < pa_next s)
      \<and> (\<forall>i \<in> pa_flight s. i < pa_next s)
      \<and> (pa_failed s \<or> Fail \<in> set (pa_queue s) \<or> covered part s \<and> staffed tot s)
      \<and> (Sentinel \<in> set (pa_queue s) \<longrightarrow> pa_marked s) \<and> (pa_marked s \<longrightarrow> pa_workers s = 0 \<and> pa_flight s = {})
      \<and> Sentinel \<notin> set (butlast (pa_queue s))
      \<and> \<not> pa_ended s)"

lemma par_ok_init: "par_ok tot part (par_init conc tot)"
  by (auto simp: par_ok_def par_init_def covered_def staffed_def)

lemma par_ok_consume:
  assumes ok: "par_ok tot part s" and q: "pa_queue s = x # q" and "pa_expected s < tot" and "\<not> pa_failed s"
  shows "par_ok tot part (consume_item x (s\<lparr>pa_queue := q\<rparr>))"
proof (cases x)
  case (Part i d)
  let ?b = "AList.update i d (pa_buf s)"
  obtain e buf out where d: "drain (pa_expected s) ?b = (e, buf, out)" by (metis prod_cases3)
  note sp = drain_spec [OF d]
  have di: "d = part i" "i < pa_next s" using ok q Part by (auto simp: par_ok_def)
  have b: "map_of ?b j = Some w \<Longrightarrow> w = part j \<and> j < pa_next s" for j w
    using ok di by (auto simp: par_ok_def update_conv' split: if_splits)
  have out: "out = map part [pa_expected s..<e]"
  proof -
    have "the (map_of ?b j) = part j" if "pa_expected s \<le> j" "j < e" for j using sp b that by (metis option.collapse)
    then show ?thesis using sp by (auto intro!: map_cong)
  qed
  have e: "pa_expected s \<le> e" "map_of buf e = None" using sp by blast+
  have en: "e \<le> pa_next s"
  proof (cases "e = pa_expected s")
    case False
    then have "pa_expected s \<le> e - 1" "e - 1 < e" using e(1) by auto
    then obtain w where "map_of ?b (e - 1) = Some w" using sp by (metis option.collapse)
    from b [OF this] show ?thesis by linarith
  qed (use ok in \<open>simp add: par_ok_def\<close>)
  have buf: "map_of buf j = (if pa_expected s \<le> j \<and> j < e then None else map_of ?b j)" for j using sp by blast
  have o: "map part [0..<pa_expected s] @ map part [pa_expected s..<e] = map part [0..<e]"
    using e(1) by (simp add: map_append [symmetric] upt_add_eq_append [symmetric] del: map_append) (metis le_add_diff_inverse upt_add_eq_append zero_le)
  let ?s = "consume_item x (s\<lparr>pa_queue := q\<rparr>)"
  have s: "?s = s\<lparr>pa_queue := q, pa_expected := e, pa_buf := buf, pa_out := pa_out s @ out\<rparr>" by (simp add: Part d)
  have staff: "Fail \<in> set q \<or> staffed tot ?s"
    using ok assms(4) q Part unfolding s by (auto simp: par_ok_def staffed_def)
  have cov: "Fail \<in> set q \<or> covered part ?s"
  proof (cases "Fail \<in> set q")
    case False
    then have "covered part s" using ok assms(4) q Part by (auto simp: par_ok_def)
    then have c: "j \<in> pa_flight s \<or> Part j (part j) \<in> set (pa_queue s) \<or> map_of (pa_buf s) j \<noteq> None"
      if "pa_expected s \<le> j" "j < pa_next s" for j using that by (auto simp: covered_def)
    have "j \<in> pa_flight s \<or> Part j (part j) \<in> set q \<or> map_of buf j \<noteq> None" if "e \<le> j" "j < pa_next s" for j
    proof (cases "j = i")
      case True
      then show ?thesis using that buf [of j] by (simp add: update_conv')
    next
      case False
      then have "map_of buf j = map_of (pa_buf s) j" using that buf [of j] by (simp add: update_conv')
      then show ?thesis using c [of j] that e(1) False q Part by auto
    qed
    then show ?thesis unfolding s covered_def by simp
  qed simp
  have sen: "Sentinel \<notin> set (butlast q)" "Sentinel \<in> set q \<Longrightarrow> pa_marked s"
    using ok q Part by (cases q, auto simp: par_ok_def)+
  show ?thesis
    using ok cov staff sen b en e(2) buf o out q unfolding s par_ok_def by (auto split: if_splits)
next
  case Fail
  then show ?thesis using ok q unfolding par_ok_def by (cases q) auto
next
  case Sentinel
  then have q': "q = []" using ok q by (cases q) (auto simp: par_ok_def)
  then have "covered part s" "pa_flight s = {}" "pa_next s = tot" using ok q Sentinel assms(4) by (auto simp: par_ok_def staffed_def)
  then have "map_of (pa_buf s) (pa_expected s) \<noteq> None" using assms(3) q q' Sentinel by (auto simp: covered_def)
  then show ?thesis using ok by (simp add: par_ok_def)
qed

lemma par_ok_step: "par_step tot part s s' \<Longrightarrow> par_ok tot part s \<Longrightarrow> par_ok tot part s'"
proof (induction rule: par_step.induct)
  case (take_part s)
  then show ?case by (auto simp: par_ok_def covered_def staffed_def less_Suc_eq)
next
  case (worker_done s)
  then show ?case by (auto simp: par_ok_def covered_def staffed_def)
next
  case (queue_part i s)
  then show ?case by (auto simp: par_ok_def covered_def staffed_def butlast_append)
next
  case (queue_error i s)
  then show ?case by (auto simp: par_ok_def butlast_append)
next
  case (queue_end s)
  then show ?case by (auto simp: par_ok_def covered_def staffed_def butlast_append)
next
  case (consume s x q)
  then show ?case by (intro par_ok_consume)
qed

text \<open>C34: In whatever order the workers finish their parts or give up, what the parallel download has yielded is always the first
  parts of the file in order; and the consumer never takes the mark of the end for the end of the file while parts are missing:
  the mark is queued as soon as all workers have returned, but behind the error of a worker that gave up.\<close>

theorem parallel_download_in_order:
  assumes "(par_step tot part)\<^sup>*\<^sup>* (par_init conc tot) s"
  shows "pa_out s = map part [0..<pa_expected s] \<and> pa_expected s \<le> tot \<and> \<not> pa_ended s"
proof -
  have "par_ok tot part s" using assms by (induction rule: rtranclp_induct) (auto intro: par_ok_init par_ok_step)
  then show ?thesis by (auto simp: par_ok_def)
qed

definition two_parts :: "nat \<Rightarrow> nat list" where
  "two_parts i = (if i = 0 then [1, 2] else [3])"

lemma parallel_download_in_order_witness:
  "\<exists>s. (par_step 2 two_parts)\<^sup>*\<^sup>* (par_init 4 2) s \<and> pa_out s = [[1, 2], [3]] \<and> pa_expected s = 2"
proof -
  let ?s0 = "par_init 4 2 :: nat par"
  let ?s1 = "?s0\<lparr>pa_workers := 1, pa_flight := {0}, pa_next := 1\<rparr>"
  let ?s2 = "?s1\<lparr>pa_workers := 0, pa_flight := {0, 1}, pa_next := 2\<rparr>"
  let ?s3 = "?s2\<lparr>pa_workers := 1, pa_flight := {0}, pa_queue := [Part 1 [3]]\<rparr>"
  let ?s4 = "?s3\<lparr>pa_workers := 2, pa_flight := {}, pa_queue := [Part 1 [3], Part 0 [1, 2]]\<rparr>"
  let ?s5 = "consume_item (Part 1 [3]) (?s4\<lparr>pa_queue := [Part 0 [1, 2]]\<rparr>)"
  let ?s6 = "consume_item (Part 0 [1, 2]) (?s5\<lparr>pa_queue := []\<rparr>)"
  have st1: "par_step 2 two_parts ?s0 ?s1" using take_part [of ?s0 2 two_parts] by (simp add: par_init_def)
  have st2: "par_step 2 two_parts ?s1 ?s2" using take_part [of ?s1 2 two_parts] by (simp add: par_init_def insert_commute numeral_2_eq_2)
  have st3: "par_step 2 two_parts ?s2 ?s3" using queue_part [of 1 ?s2 2 two_parts] by (simp add: par_init_def two_parts_def insert_Diff_if)
  have st4: "par_step 2 two_parts ?s3 ?s4" using queue_part [of 0 ?s3 2 two_parts] by (simp add: par_init_def two_parts_def numeral_2_eq_2)
  have st5: "par_step 2 two_parts ?s4 ?s5" using consume [of ?s4 "Part 1 [3]" "[Part 0 [1, 2]]" 2 two_parts] by (simp add: par_init_def)
  have st6: "par_step 2 two_parts ?s5 ?s6"
    using consume [of ?s5 "Part 0 [1, 2]" "[]" 2 two_parts] by (simp add: par_init_def drain.simps)
  note go = rtranclp.rtrancl_into_rtrancl [where r = "par_step 2 two_parts"]
  have "(par_step 2 two_parts)\<^sup>*\<^sup>* ?s0 ?s1" by (rule go [OF rtranclp.rtrancl_refl st1])
  then have "(par_step 2 two_parts)\<^sup>*\<^sup>* ?s0 ?s2" by (rule go [OF _ st2])
  then have "(par_step 2 two_parts)\<^sup>*\<^sup>* ?s0 ?s3" by (rule go [OF _ st3])
  then have "(par_step 2 two_parts)\<^sup>*\<^sup>* ?s0 ?s4" by (rule go [OF _ st4])
  then have "(par_step 2 two_parts)\<^sup>*\<^sup>* ?s0 ?s5" by (rule go [OF _ st5])
  then have run: "(par_step 2 two_parts)\<^sup>*\<^sup>* ?s0 ?s6" by (rule go [OF _ st6])
  have e: "pa_expected ?s6 = 2" by (simp add: par_init_def drain.simps)
  have "pa_out ?s6 = map two_parts [0..<2]" using parallel_download_in_order [OF run] unfolding e by blast
  then show ?thesis using run e by (auto simp: two_parts_def upt_rec)
qed

text \<open>Also: The parallel download is never stuck: until every part has been yielded or an error was reported, a worker or the
  consumer can go on, whatever the order so far and although the queue is bounded.\<close>

theorem parallel_download_never_stuck:
  assumes "(par_step tot part)\<^sup>*\<^sup>* (par_init conc tot) s"
  shows "pa_expected s = tot \<or> pa_failed s \<or> (\<exists>s'. par_step tot part s s')"
proof -
  have ok: "par_ok tot part s" using assms by (induction rule: rtranclp_induct) (auto intro: par_ok_init par_ok_step)
  show ?thesis
  proof (cases "pa_queue s")
    case (Cons x q)
    then show ?thesis using ok consume [of s x q tot part] by (auto simp: par_ok_def)
  next
    case Nil
    consider "0 < pa_workers s" | i where "i \<in> pa_flight s" | "pa_workers s = 0" "pa_flight s = {}" by blast
    then show ?thesis
    proof cases
      case 1
      then show ?thesis by (cases "pa_next s < tot") (blast intro: take_part, metis worker_done not_less)
    next
      case 2
      then show ?thesis using Nil queue_part [of i s tot part] by auto
    next
      case 3
      then show ?thesis using ok Nil by (auto simp: par_ok_def covered_def staffed_def le_less)
    qed
  qed
qed

lemma parallel_download_never_stuck_witness:
  "\<exists>s :: nat par. par_step 2 two_parts (par_init 4 2) s"
  using parallel_download_never_stuck [of 2 two_parts 4 "par_init 4 2"] by (simp add: par_init_def)

end
