(* ===== verification/TgIngest.thy ===== *)
theory TgIngest
  imports TgAlbum TgStream IngestFlow SubsImport
begin

text \<open>
  The Telegram ingest of \<^verbatim>\<open>src/src/anbar/telegram_ingest.py\<close>: what a message of the owner starts. Attached
  media, posts behind a link and web addresses are streamed into the object service; the media of an album go one after
  the other under one task; commands answer at once. Telegram, Telethon and the HTTP client are arguments: what they
  answer, and the bytes they deliver. The texts of the messages sent back are left out, what they say is kept.
\<close>

section \<open>State and surroundings\<close>

text \<open>What the bot says.\<close>

datatype notice =
    Guide
  | NothingFound
  | NoActiveTask
  | CancelledTasks "string list"
  | StatusOf nat int int string bool nat bool
  | BreakdownOf "(string \<times> int) list" int nat
  | Starting string
  | SavedAs string
  | IngestFailed exc
  | AlbumCancelled nat nat
  | AlbumDone "(string \<times> int \<times> string) list" "(string \<times> exc) list"

type_synonym message = "(string \<times> json) list"

record 'w tg =
  tg_db :: db
  tg_world :: 'w
  tg_tasks :: task_manager
  tg_albums :: "message albums"
  tg_notices :: "notice list"

definition say :: "notice \<Rightarrow> 'w tg \<Rightarrow> 'w tg" where
  "say n g = g\<lparr>tg_notices := tg_notices g @ [n]\<rparr>"

text \<open>A message fetched through Telethon, with the bytes of its media.\<close>

record 'b tg_message =
  tm_media :: "'b arrival list option"
  tm_name :: "string option"
  tm_mime :: "string option"
  tm_size :: "int option"
  tm_ext :: "string option"

text \<open>The answers of the outside to one ingest: \<^verbatim>\<open>getFile\<close> with its status and body, the
  download, the Telethon client if there is one with its two lookups, and the web server.\<close>

record 'b tg_net =
  tn_get_file :: "(int \<times> json) res"
  tn_download :: "(int \<times> 'b arrival list) res"
  tn_client :: bool
  tn_message :: "entity \<Rightarrow> int \<Rightarrow> 'b tg_message option res"
  tn_recent :: "'b tg_message list res"
  tn_web :: "(int \<times> string \<times> (string \<times> string) list \<times> 'b arrival list) res"
  tn_status :: "int option"

text \<open>The draws of one transfer: the id of the object and of a task, the clock, and what happens to the tasks meanwhile.\<close>

record run =
  rn_draws :: "nat list"
  rn_fresh :: string
  rn_clock :: rat
  rn_tasks :: "nat \<Rightarrow> task_manager \<Rightarrow> task_manager"

text \<open>The application around the state.\<close>

record ('b, 'w) tg_app =
  ta_cx :: ctx
  ta_store :: "string \<Rightarrow> 'b list \<Rightarrow> string \<Rightarrow> string option \<Rightarrow> 'w \<Rightarrow> 'w \<times> object_ref res"
  ta_delete :: "string \<Rightarrow> object_ref \<Rightarrow> 'w \<Rightarrow> 'w \<times> bool res"
  ta_sha :: "'b list \<Rightarrow> string"
  ta_env :: env
  ta_pool :: "pool option"
  ta_backend :: handle
  ta_new_bot :: handle

section \<open>Storage of an ingest\<close>

(* src: src/src/anbar/telegram_ingest.py auto get_bot_storage_backend *)
definition get_bot_storage_backend :: "('b, 'w) tg_app \<Rightarrow> handle \<times> pool option" where
  "get_bot_storage_backend x =
     (if (case ta_pool x of None \<Rightarrow> False | Some p \<Rightarrow> pool_size p > 0) then (Member 0, ta_pool x)
      else if pool_name (ta_pool x) (ta_backend x) = ''bot'' then (ta_backend x, ta_pool x)
      else if bot_tokens (cx_settings (ta_cx x)) \<noteq> [] \<and> s_channel_id (cx_settings (ta_cx x)) \<noteq> [] then (ta_new_bot x, ta_pool x)
      else (ta_backend x, ta_pool x))"

(* src: src/src/anbar/telegram_ingest.py auto get_ingest_storage_backend *)
definition get_ingest_storage_backend :: "('b, 'w) tg_app \<Rightarrow> db \<Rightarrow> handle \<times> pool option" where
  "get_ingest_storage_backend x d =
     (if get_int_setting d ''tg_ingest_bot_only'' 0 \<noteq> 0 then get_bot_storage_backend x else (ta_backend x, ta_pool x))"

section \<open>One transfer\<close>

text \<open>Where a transfer reports to: the message it edits, a task given by the caller, and the album it belongs to.\<close>

record reporting =
  ro_status :: "int option"
  ro_task :: "string option"
  ro_album :: "album_context option"

definition reports :: "reporting \<Rightarrow> bool" where
  "reports o' = (truthy_int (ro_status o') \<or> truthy_str (ro_task o'))"

(* src: src/src/anbar/telegram_ingest.py 1016-1028 _stream_telethon_media *)
definition open_report :: "run \<Rightarrow> reporting \<Rightarrow> string \<Rightarrow> int option \<Rightarrow> string \<Rightarrow> task_manager \<Rightarrow> task_manager \<times> nat option" where
  "open_report rn o' fname tot source m =
     (if reports o' then (case reporter_init (rn_clock rn) (rn_fresh rn) fname tot (ro_task o') source (ro_album o') m of (m, r) \<Rightarrow> (m, Some (pr_task r)))
      else (m, None))"

text \<open>Without a task nothing can cancel the reader; with one, an event already set stops it at its first read. An error
  of the iterator counts as a stall.\<close>

(* src: src/src/anbar/telegram_ingest.py 1289-1294 _stream_telethon_media *)
definition open_reader :: "nat option \<Rightarrow> task_manager \<Rightarrow> 'b arrival list \<Rightarrow> 'b air" where
  "open_reader a m as =
     (case a of
        None \<Rightarrow> \<lparr>ar_aiter = filter (\<lambda>x. x \<noteq> Cancel) as, ar_buf = [], ar_eof = False, ar_bytes_read = 0, ar_cancelled = False\<rparr>
      | Some a \<Rightarrow> \<lparr>ar_aiter = as, ar_buf = [], ar_eof = False, ar_bytes_read = 0, ar_cancelled = it_cancel (task_at m a)\<rparr>)"

definition end_task :: "nat option \<Rightarrow> (ingest_task \<Rightarrow> string) \<Rightarrow> task_manager \<Rightarrow> task_manager" where
  "end_task a f m = (case a of None \<Rightarrow> m | Some a \<Rightarrow> set_task a (\<lambda>t. t\<lparr>it_state := f t\<rparr>) m)"

text \<open>The steps the three ingests share; \<open>None\<close>: the stream never ends. A failed store has rolled back once already.\<close>

(* src: src/src/anbar/telegram_ingest.py 1295-1327 _stream_telethon_media *)
definition store_media :: "('b, 'w) tg_app \<Rightarrow> run \<Rightarrow> handle \<times> pool option \<Rightarrow> string \<Rightarrow> string \<Rightarrow> string \<Rightarrow> reporting \<Rightarrow> nat option \<Rightarrow> 'b arrival list
    \<Rightarrow> 'w tg \<Rightarrow> ('w tg \<times> string res) option" where
  "store_media x rn target key fname ctype o' a as g =
     (case target of (backend, po) \<Rightarrow>
      case store_stream (ta_store x) (ta_delete x) (ta_sha x) air_read (service_env (ta_cx x) (ta_env x)) (open_reader a (tg_tasks g) as)
            (svc_init backend (tg_db g) fname (Some ctype) None 0 ''upres'' po None (tg_world g)) of
        None \<Rightarrow> None
      | Some (s, r) \<Rightarrow>
          let g = g\<lparr>tg_tasks := (case a of None \<Rightarrow> tg_tasks g | Some a \<Rightarrow> rn_tasks rn a (tg_tasks g))\<rparr> in
          (case r of
             Inl e \<Rightarrow>
               let s = fst (rollback (ta_delete x) s);
                   m = end_task a (\<lambda>t. if it_cancel t then ''cancelled'' else ''error'') (tg_tasks g)
               in Some (g\<lparr>tg_db := sv_db s, tg_world := sv_world s, tg_tasks := m\<rparr>, Inl e)
           | Inr sha_hex \<Rightarrow>
               (case commit (cx_now (ta_cx x)) (rn_draws rn) sha_hex (Some key) s of
                  (s, Inl e) \<Rightarrow> Some (g\<lparr>tg_db := sv_db s, tg_world := sv_world s\<rparr>, Inl e)
                | (s, Inr obj_id) \<Rightarrow>
                    let s = drop_checkpoint s;
                        g = g\<lparr>tg_db := sv_db s, tg_world := sv_world s, tg_tasks := end_task a (\<lambda>_. ''done'') (tg_tasks g)\<rparr>
                    in Some (if ro_album o' = None \<and> ro_status o' \<noteq> None then say (SavedAs obj_id) g else g, Inr obj_id))))"

text \<open>The Telethon stream; the bytes come as \<open>TgStream\<close> describes.\<close>

(* src: src/src/anbar/telegram_ingest.py 1010-1028 _stream_telethon_media *)
definition stream_telethon_media :: "('b, 'w) tg_app \<Rightarrow> run \<Rightarrow> 'b arrival list \<Rightarrow> string \<Rightarrow> int option \<Rightarrow> string \<Rightarrow> reporting
    \<Rightarrow> 'w tg \<Rightarrow> ('w tg \<times> string res) option" where
  "stream_telethon_media x rn as fname fsize ctype o' g =
     (case open_report rn o' fname fsize ''telegram'' (tg_tasks g) of
        (m, a) \<Rightarrow> store_media x rn (get_ingest_storage_backend x (tg_db g)) ''tg_webhook_mtproto'' fname ctype o' a as (g\<lparr>tg_tasks := m\<rparr>))"

(* src: src/src/anbar/telegram_ingest.py auto _ingest_protected_post *)
definition ingest_protected_post :: "('b, 'w) tg_app \<Rightarrow> run \<Rightarrow> 'b tg_net \<Rightarrow> entity \<Rightarrow> int \<Rightarrow> reporting \<Rightarrow> 'w tg \<Rightarrow> ('w tg \<times> string res) option" where
  "ingest_protected_post x rn net chat mid o' g =
     (if \<not> tn_client net then Some (g, Inl (RuntimeError ''MTProto client is not active or authorized''))
      else case tn_message net chat mid of
        Inl e \<Rightarrow> Some (g, Inl (RuntimeError ''Could not fetch message''))
      | Inr None \<Rightarrow> Some (g, Inl (RuntimeError ''Message not found''))
      | Inr (Some msg) \<Rightarrow>
          (case tm_media msg of
             None \<Rightarrow> Some (g, Inl (RuntimeError ''Message does not contain any downloadable media''))
           | Some as \<Rightarrow>
               let fname = (if truthy_str (tm_name msg) then the (tm_name msg)
                            else ''post_'' @ str_of_int mid @ (if truthy_str (tm_ext msg) then the (tm_ext msg) else ''.bin''));
                   ctype = (if truthy_str (tm_mime msg) then the (tm_mime msg) else ''application/octet-stream'')
               in stream_telethon_media x rn as fname (tm_size msg) ctype o' g))"

section \<open>Attached media\<close>

(* src: src/src/anbar/telegram_ingest.py 823-825 _ingest_direct_media *)
definition file_path_of :: "json \<Rightarrow> json option res" where
  "file_path_of data =
     rbind (j_get data ''ok'') (\<lambda>ok. if falsy ok then Inr None
       else rbind (j_get data ''result'') (\<lambda>r. j_get (case r of None \<Rightarrow> JObj [] | Some r \<Rightarrow> r) ''file_path''))"

text \<open>Whether the Bot API hands the file out: not above 20 MB, and not when it answers that it is too big.\<close>

(* src: src/src/anbar/telegram_ingest.py 815-828 _ingest_direct_media *)
definition bot_api_path :: "int \<Rightarrow> 'b tg_net \<Rightarrow> json option res" where
  "bot_api_path fsize net =
     (if fsize > 20 * 1024 * 1024 then Inr None
      else rbind (tn_get_file net) (\<lambda>(status, data). if status = 200 then file_path_of data else Inr None))"

(* src: src/src/anbar/telegram_ingest.py 894-897 _ingest_direct_media *)
definition forwarded_from :: "message \<Rightarrow> (entity \<times> int) option res" where
  "forwarded_from msg =
     (if falsy (map_of msg ''forward_from_chat'') then Inr None
      else rbind (j_get (the (map_of msg ''forward_from_chat'')) ''id'') (\<lambda>i.
        if falsy i \<or> falsy (map_of msg ''forward_from_message_id'') then Inr None
        else rbind (whole (the i)) (\<lambda>c. rbind (whole (the (map_of msg ''forward_from_message_id''))) (\<lambda>m. Inr (Some (Chat c, m))))))"

(* src: src/src/anbar/telegram_ingest.py auto _ingest_direct_media *)
definition ingest_direct_media :: "('b, 'w) tg_app \<Rightarrow> run \<Rightarrow> 'b tg_net \<Rightarrow> message \<Rightarrow> media_info \<Rightarrow> reporting \<Rightarrow> 'w tg \<Rightarrow> ('w tg \<times> string res) option" where
  "ingest_direct_media x rn net msg mi o' g =
     (case bot_api_path (mi_size mi) net of
        Inl e \<Rightarrow> Some (g, Inl e)
      | Inr path \<Rightarrow>
          if \<not> falsy path then
            (case open_report rn o' (mi_filename mi) (Some (mi_size mi)) ''telegram'' (tg_tasks g) of
               (m, a) \<Rightarrow>
                 case tn_download net of
                   Inl e \<Rightarrow> Some (g\<lparr>tg_tasks := m\<rparr>, Inl e)
                 | Inr (status, as) \<Rightarrow>
                 if status \<noteq> 200 then Some (g\<lparr>tg_tasks := m\<rparr>, Inl (RuntimeError ''Failed to stream file''))
                 else store_media x rn (get_ingest_storage_backend x (tg_db g)) ''tg_webhook'' (mi_filename mi) (mi_content_type mi) o' a
                        as (g\<lparr>tg_tasks := m\<rparr>))
          else (case forwarded_from msg of
             Inl e \<Rightarrow> Some (g, Inl e)
           | Inr (Some (chat, mid)) \<Rightarrow> ingest_protected_post x rn net chat mid o' g
           | Inr None \<Rightarrow>
               if \<not> tn_client net then Some (g, Inl (RuntimeError ''MTProto client is not authenticated''))
               else (case tn_recent net of
                  Inl e \<Rightarrow> Some (g, Inl (RuntimeError ''Could not retrieve messages''))
                | Inr recent \<Rightarrow>
                    (case find (\<lambda>m. tm_media m \<noteq> None) recent of
                       None \<Rightarrow> Some (g, Inl (RuntimeError ''File exceeds 20MB Bot API limit''))
                     | Some m \<Rightarrow> stream_telethon_media x rn (the (tm_media m)) (mi_filename mi) (Some (mi_size mi)) (mi_content_type mi) o' g))))"

section \<open>Web addresses\<close>

text \<open>The URL and the headers are those of the last answer, after redirects.\<close>

(* src: src/src/anbar/telegram_ingest.py auto _ingest_web_url *)
definition ingest_web_url :: "('b, 'w) tg_app \<Rightarrow> run \<Rightarrow> 'b tg_net \<Rightarrow> reporting \<Rightarrow> 'w tg \<Rightarrow> ('w tg \<times> string res) option" where
  "ingest_web_url x rn net o' g =
     (case tn_web net of
        Inl e \<Rightarrow> Some (g, Inl e)
      | Inr (status, url, headers, as) \<Rightarrow>
          if status \<ge> 400 then Some (g, Inl (RuntimeError (''Origin returned HTTP '' @ str_of_int status)))
          else let fname = filename_from_url url headers;
                   ctype = guess_content_type headers ''application/octet-stream'';
                   tot = (case map_of headers ''content-length'' of None \<Rightarrow> None | Some cl \<Rightarrow> if isdigit cl then py_int cl else None)
               in (case open_report rn (o'\<lparr>ro_album := None\<rparr>) fname tot ''url'' (tg_tasks g) of
                     (m, a) \<Rightarrow> store_media x rn (ta_backend x, ta_pool x) ''tg_webhook_url'' fname ctype (o'\<lparr>ro_album := None\<rparr>) a as (g\<lparr>tg_tasks := m\<rparr>)))"

section \<open>Commands\<close>

(* src: src/src/anbar/telegram_ingest.py 410-413 handle_bot_command *)
fun cancel_each :: "rat \<Rightarrow> task_view list \<Rightarrow> task_manager \<Rightarrow> task_manager \<times> string list" where
  "cancel_each now [] m = (m, [])"
| "cancel_each now (v # vs) m =
     (case tm_cancel now (tv_id v) m of (m, done') \<Rightarrow>
      case cancel_each now vs m of (m, names) \<Rightarrow>
        (m, (if done' then [if tv_filename v = [] then tv_id v else tv_filename v] else []) @ names))"

definition command_of :: "string \<Rightarrow> string" where
  "command_of t = lower (takeWhile (\<lambda>c. c \<noteq> CHR ''@'') (takeWhile (\<lambda>c. \<not> is_space c) (strip t)))"

definition upper_backend :: "('b, 'w) tg_app \<Rightarrow> string" where
  "upper_backend x = map (\<lambda>c. if 97 \<le> code c \<and> code c \<le> 122 then char_of (code c - 32) else c) (pool_name (ta_pool x) (ta_backend x))"

(* src: src/src/anbar/telegram_ingest.py 423-474 handle_bot_command *)
definition status_notice :: "('b, 'w) tg_app \<Rightarrow> bool \<Rightarrow> 'w tg \<Rightarrow> notice" where
  "status_notice x authorized g =
     (let s = cx_settings (ta_cx x); d = tg_db g;
          bots = (case ta_pool x of None \<Rightarrow> length (bot_tokens s) | Some p \<Rightarrow> pool_size p);
          hybrid = get_int_setting d ''hybrid_enabled'' (if s_hybrid_enabled s then 1 else 0) \<noteq> 0;
          shown = (if hybrid \<and> upper_backend x = ''MTPROTO'' then ''HYBRID (MTProto + Bot CDN)'' else upper_backend x)
      in case get_system_stats d of (n, tot, downloads, _) \<Rightarrow>
           StatusOf n tot downloads shown (get_int_setting d ''tg_ingest_bot_only'' 0 \<noteq> 0) bots authorized)"

(* src: src/src/anbar/telegram_ingest.py 476-493 handle_bot_command *)
definition stats_notice :: "'w tg \<Rightarrow> notice" where
  "stats_notice g =
     (case get_system_stats (tg_db g) of (n, tot, _, by) \<Rightarrow>
      BreakdownOf [(''Videos'', by Video), (''Audio'', by Audio), (''Images'', by Image), (''Documents'', by Text), (''Archives'', by Archive), (''Other'', by Other)]
        tot n)"

(* src: src/src/anbar/telegram_ingest.py auto handle_bot_command *)
definition handle_bot_command :: "('b, 'w) tg_app \<Rightarrow> rat \<Rightarrow> bool \<Rightarrow> string \<Rightarrow> 'w tg \<Rightarrow> 'w tg \<times> bool" where
  "handle_bot_command x now authorized t g =
     (let cmd = command_of t in
      if cmd \<in> {''/start'', ''/help''} then (say Guide g, True)
      else if cmd \<in> {''/cancel'', ''/stop''} then
        (case tm_list_active now (tg_tasks g) of (m, active') \<Rightarrow>
         if active' = [] then (say NoActiveTask (g\<lparr>tg_tasks := m\<rparr>), True)
         else (case cancel_each now active' m of (m, names) \<Rightarrow> (say (CancelledTasks names) (g\<lparr>tg_tasks := m\<rparr>), True)))
      else if cmd = ''/status'' then (say (status_notice x authorized g) g, True)
      else if cmd = ''/stats'' then (say (stats_notice g) g, True)
      else (g, False))"

section \<open>A message\<close>

text \<open>What a message asks for, in the order the code looks. A malformed attachment is only logged: there is no message
  to edit yet.\<close>

(* src: src/src/anbar/telegram_ingest.py 656-728 execute_telegram_ingest *)
definition ingest_one :: "('b, 'w) tg_app \<Rightarrow> run \<Rightarrow> 'b tg_net \<Rightarrow> message \<Rightarrow> string \<Rightarrow> 'w tg \<Rightarrow> ('w tg \<times> string option res) option" where
  "ingest_one x rn net msg t g =
     (let o' = \<lparr>ro_status = tn_status net, ro_task = None, ro_album = None\<rparr>;
          wrap = map_option (map_prod id (map_sum id Some))
      in case parse_telegram_post_link t of
           Some (chat, mid) \<Rightarrow> wrap (ingest_protected_post x rn net chat mid o' (say (Starting t) g))
         | None \<Rightarrow>
             (case parse_web_url t of
                Some url \<Rightarrow> wrap (ingest_web_url x rn net o' (say (Starting url) g))
              | None \<Rightarrow>
                  (case extract_direct_media msg of
                     Inl e \<Rightarrow> Some (g, Inr None)
                   | Inr None \<Rightarrow> Some (say NothingFound g, Inr None)
                   | Inr (Some mi) \<Rightarrow> wrap (ingest_direct_media x rn net msg mi o' (say (Starting (mi_filename mi)) g)))))"

definition message_text :: "message \<Rightarrow> string res" where
  "message_text msg =
     (if \<not> falsy (map_of msg ''text'') then as_str (the (map_of msg ''text''))
      else if \<not> falsy (map_of msg ''caption'') then as_str (the (map_of msg ''caption'')) else Inr [])"

definition message_chat :: "message \<Rightarrow> json option res" where
  "message_chat msg = j_get (case map_of msg ''chat'' of None \<Rightarrow> JObj [] | Some c \<Rightarrow> c) ''id''"

text \<open>The failure is told to the chat when the ingest had answered before; errors outside the \<^verbatim>\<open>try\<close> end the task.\<close>

(* src: src/src/anbar/telegram_ingest.py auto execute_telegram_ingest *)
definition execute_telegram_ingest :: "('b, 'w) tg_app \<Rightarrow> run \<Rightarrow> 'b tg_net \<Rightarrow> bool \<Rightarrow> message \<Rightarrow> 'w tg \<Rightarrow> ('w tg \<times> unit res) option" where
  "execute_telegram_ingest x rn net authorized msg g =
     (case rbind (message_chat msg) (\<lambda>c. rbind (message_text msg) (\<lambda>t. Inr (c, t))) of
        Inl e \<Rightarrow> Some (g, Inl e)
      | Inr (chat, t) \<Rightarrow>
          if falsy chat \<or> bot_tokens (cx_settings (ta_cx x)) = [] then Some (g, Inr ())
          else (case (if startswith (strip t) ''/'' then handle_bot_command x (rn_clock rn) authorized t g else (g, False)) of
             (g, True) \<Rightarrow> Some (g, Inr ())
           | (g, False) \<Rightarrow>
               if falsy (map_of msg ''media_group_id'') then
                 (case ingest_one x rn net msg t g of
                    None \<Rightarrow> None
                  | Some (g, Inl e) \<Rightarrow> Some (if tn_status net = None then g else say (IngestFailed e) g, Inr ())
                  | Some (g, Inr _) \<Rightarrow> Some (g, Inr ()))
               else Some (g\<lparr>tg_albums := enqueue_album_item (py_str (the (map_of msg ''media_group_id''))) msg (tg_albums g)\<rparr>, Inr ())))"

section \<open>An album\<close>

text \<open>The files of an album, one after the other, all under the task at \<open>a\<close>.\<close>

(* src: src/src/anbar/telegram_ingest.py 570-611 _process_album_batch *)
fun album_files :: "('b, 'w) tg_app \<Rightarrow> string \<Rightarrow> nat \<Rightarrow> int option \<Rightarrow> nat \<Rightarrow> nat \<Rightarrow> int
    \<Rightarrow> (message \<times> media_info option \<times> run \<times> 'b tg_net) list \<Rightarrow> int option \<Rightarrow> (string \<times> int \<times> string) list \<Rightarrow> (string \<times> exc) list
    \<Rightarrow> 'w tg \<Rightarrow> ('w tg \<times> ((string \<times> int \<times> string) list \<times> (string \<times> exc) list) option) option" where
  "album_files x tid n tot a i bytes [] status completed failed g = Some (g, Some (completed, failed))"
| "album_files x tid n tot a i bytes ((msg, mi, rn, net) # rest) status completed failed g =
     (if it_cancel (task_at (tg_tasks g) a) then
        Some ((if truthy_int status then say (AlbumCancelled (length completed) n) else id)
                (g\<lparr>tg_tasks := set_task a (\<lambda>t. t\<lparr>it_state := ''cancelled''\<rparr>) (tg_tasks g)\<rparr>), None)
      else (case mi of
         None \<Rightarrow> album_files x tid n tot a (Suc i) bytes rest status completed failed g
       | Some mi \<Rightarrow>
           let g = g\<lparr>tg_tasks := set_task a (\<lambda>t. t\<lparr>it_filename := ''Album ('' @ str_of_nat i @ ''/'' @ str_of_nat n @ ''): '' @ mi_filename mi\<rparr>) (tg_tasks g)\<rparr>;
               o' = \<lparr>ro_status = status, ro_task = Some tid, ro_album = Some \<lparr>ac_index = i, ac_files = n, ac_completed = bytes, ac_total = tot\<rparr>\<rparr>
           in (case ingest_direct_media x rn net msg mi o' g of
                 None \<Rightarrow> None
               | Some (g, Inl e) \<Rightarrow> album_files x tid n tot a (Suc i) bytes rest status completed (failed @ [(mi_filename mi, e)]) g
               | Some (g, Inr oid) \<Rightarrow>
                   album_files x tid n tot a (Suc i) (bytes + mi_size mi) rest status (completed @ [(mi_filename mi, mi_size mi, oid)]) failed g)))"

(* src: src/src/anbar/telegram_ingest.py auto _process_album_batch *)
definition process_album_batch :: "('b, 'w) tg_app \<Rightarrow> rat \<Rightarrow> string \<Rightarrow> (message \<times> run \<times> 'b tg_net) list \<Rightarrow> int option \<Rightarrow> 'w tg \<Rightarrow> ('w tg \<times> unit res) option" where
  "process_album_batch x now group_id items status g =
     (if bot_tokens (cx_settings (ta_cx x)) = [] \<or> items = [] then Some (g, Inr ())
      else case message_chat (fst (hd items)) of
        Inl e \<Rightarrow> Some (g, Inl e)
      | Inr chat \<Rightarrow>
          if falsy chat then Some (g, Inr ())
          else (case mapr (\<lambda>(msg, rn, net). rbind (extract_direct_media msg) (\<lambda>mi. Inr (msg, mi, rn, net))) items of
             Inl e \<Rightarrow> Some (g, Inl e)
           | Inr files \<Rightarrow>
               let valid = List.map_filter (\<lambda>(_, mi, _, _). mi) files; n = length items;
                   tot = (if valid = [] then None else Some (sum_list (map mi_size valid)));
                   tid = ''alb_'' @ take 8 group_id;
                   g = say (Starting group_id) g
               in (case tm_create now tid ''telegram_album'' (''Album ('' @ str_of_nat n @ '' files)'') tot (tg_tasks g) of
                     (m, a) \<Rightarrow>
                       (case album_files x tid n tot a 1 0 files status [] [] (g\<lparr>tg_tasks := m\<rparr>) of
                          None \<Rightarrow> None
                        | Some (g, None) \<Rightarrow> Some (g, Inr ())
                        | Some (g, Some (completed, failed)) \<Rightarrow>
                            let g = g\<lparr>tg_tasks := set_task a (\<lambda>t. t\<lparr>it_state := if failed = [] then ''done'' else ''error''\<rparr>) (tg_tasks g)\<rparr>
                            in Some (if truthy_int status then say (AlbumDone completed failed) g else g, Inr ())))))"

section \<open>What is stored\<close>

lemma say_fields [simp]: "tg_db (say n g) = tg_db g" "tg_world (say n g) = tg_world g" "tg_tasks (say n g) = tg_tasks g" "tg_albums (say n g) = tg_albums g"
  by (simp_all add: say_def)

lemma target_pool: "snd (get_ingest_storage_backend x d) = ta_pool x"
  by (simp add: get_ingest_storage_backend_def get_bot_storage_backend_def)

text \<open>A reader nobody has cancelled.\<close>

definition uncancelled :: "nat option \<Rightarrow> task_manager \<Rightarrow> bool" where
  "uncancelled a m = (case a of None \<Rightarrow> True | Some a \<Rightarrow> \<not> it_cancel (task_at m a))"

lemma reader_props:
  assumes "calm as" and "uncancelled a m"
  shows "air_good (open_reader a m as)" "air_rest (open_reader a m as) = bytes_of as"
proof -
  have "filter (\<lambda>x. x \<noteq> Cancel) as = as" using assms(1) by (induction as) auto
  then show "air_good (open_reader a m as)" "air_rest (open_reader a m as) = bytes_of as"
    using assms by (auto simp: open_reader_def air_good_def air_rest_def uncancelled_def split: option.splits)
qed

lemma media_as_upload:
  assumes "calm as" and "uncancelled a m" and "env_ok env"
  shows "store_stream store delete sha air_read env (open_reader a m as) (svc_init backend d fn ct None 0 pre po None w) =
    store_stream store delete sha body_read env (body_reader_init as) (svc_init backend d fn ct None 0 pre po None w)"
proof -
  let ?s = "svc_init backend d fn ct None 0 pre po None w"
  note r = reader_props [OF assms(1,2)]
  have b: "body_good (body_reader_init as)" "body_rest (body_reader_init as) = bytes_of as"
    using assms(1) by (simp_all add: body_reader_init_def body_good_def body_rest_def)
  have s: "sv_resume_from ?s = 0" "sv_chunks ?s = []" "sv_max_bytes ?s = None" by (simp_all add: svc_init_def Let_def)
  have c: "0 < en_chunk_size env" using assms(3) by (simp add: env_ok_def)
  have m: "case None of None \<Rightarrow> True | Some n \<Rightarrow> length (air_rest (open_reader a m as)) \<le> n"
    "case None of None \<Rightarrow> True | Some n \<Rightarrow> length (body_rest (body_reader_init as)) \<le> n" by simp_all
  show ?thesis
    unfolding store_stream_fresh [OF s(1,2)] s(3) air.chunk_stream_feed [OF r(1) c m(1)] body.chunk_stream_feed [OF b(1) c m(2)] r(2) b(2) ..
qed

lemma fresh_report: "ro_album o' = None \<Longrightarrow> open_report rn o' fname tot source m = (m', a) \<Longrightarrow> uncancelled a m'"
  by (auto simp: open_report_def reporter_init_def tm_create_def uncancelled_def Let_def new_task_def split: if_splits option.splits)

text \<open>The application over the backends in memory.\<close>

definition on_fakes :: "('b, string \<Rightarrow> 'b fake) tg_app \<Rightarrow> bool" where
  "on_fakes x = (ta_store x = fakes_store \<and> ta_delete x = fakes_delete \<and> env_ok (service_env (ta_cx x) (ta_env x))
     \<and> (ta_pool x = None \<or> (\<exists>n. ta_pool x = Some (pool_init n))))"

text \<open>The object of a body: its row, and the backends it reads back from.\<close>

definition stored_as :: "('b, string \<Rightarrow> 'b fake) tg_app \<Rightarrow> handle \<Rightarrow> string \<Rightarrow> string \<Rightarrow> 'b list \<Rightarrow> (string \<Rightarrow> 'b fake) tg \<Rightarrow> bool" where
  "stored_as x backend i fname body g =
     (\<exists>row m. find_obj (tg_db g) i = Some row \<and> o_filename row = fname \<and> o_size row = int (length body) \<and> o_sha256 row = Some (ta_sha x body)
        \<and> from_json (the (o_manifest row)) = Inr m \<and> read_object fakes_open (ta_pool x) backend (tg_world g) m = Inr body)"

lemma stored_say [simp]: "stored_as x backend i fname body (say n g) = stored_as x backend i fname body g"
  by (simp add: stored_as_def)

lemma store_media_done:
  fixes g :: "(string \<Rightarrow> 'b fake) tg"
  assumes "on_fakes x" and "calm as" and "bytes_of as \<noteq> []" and "\<forall>m. fake_ok (tg_world g m)" and "find_obj (tg_db g) (new_object_id (rn_draws rn)) = None"
    and "uncancelled a (tg_tasks g)"
  shows "\<exists>g'. store_media x rn (backend, ta_pool x) key fname ctype o' a as g = Some (g', Inr (new_object_id (rn_draws rn)))
     \<and> stored_as x backend (new_object_id (rn_draws rn)) fname (bytes_of as) g'
     \<and> tg_tasks g' = end_task a (\<lambda>_. ''done'') (case a of None \<Rightarrow> tg_tasks g | Some a \<Rightarrow> rn_tasks rn a (tg_tasks g))"
proof -
  let ?id = "new_object_id (rn_draws rn)" and ?env = "service_env (ta_cx x) (ta_env x)"
  have x: "ta_store x = fakes_store" "ta_delete x = fakes_delete" "env_ok ?env" "ta_pool x = None \<or> (\<exists>n. ta_pool x = Some (pool_init n))"
    using assms(1) by (simp_all add: on_fakes_def)
  have mx: "case None of None \<Rightarrow> True | Some m \<Rightarrow> length (bytes_of as) \<le> m" by simp
  from upload_commits [OF assms(2) refl assms(3) x(3) mx assms(4) x(4) assms(5), where backend = backend and fn = fname and ct = "Some ctype" and upload_id = None
    and sha = "ta_sha x" and now = "cx_now (ta_cx x)" and key = "Some key"]
  obtain s1 s2 row m where u: "store_stream fakes_store fakes_delete (ta_sha x) body_read ?env (body_reader_init as)
        (svc_init backend (tg_db g) fname (Some ctype) None 0 ''upres'' (ta_pool x) None (tg_world g)) = Some (s1, Inr (ta_sha x (bytes_of as)))"
     "commit (cx_now (ta_cx x)) (rn_draws rn) (ta_sha x (bytes_of as)) (Some key) s1 = (s2, Inr ?id)" "find_obj (sv_db s2) ?id = Some row" "o_filename row = fname"
     "o_size row = int (length (bytes_of as))" "o_sha256 row = Some (ta_sha x (bytes_of as))" "from_json (the (o_manifest row)) = Inr m"
     "read_object fakes_open (ta_pool x) backend (sv_world s2) m = Inr (bytes_of as)"
    by (elim exE conjE)
  let ?g = "g\<lparr>tg_db := sv_db (drop_checkpoint s2), tg_world := sv_world (drop_checkpoint s2),
       tg_tasks := end_task a (\<lambda>_. ''done'') (case a of None \<Rightarrow> tg_tasks g | Some a \<Rightarrow> rn_tasks rn a (tg_tasks g))\<rparr>"
  have st: "stored_as x backend ?id fname (bytes_of as) ?g"
    unfolding stored_as_def using u(3-8) by (intro exI [of _ row] exI [of _ m]) simp
  have run: "store_media x rn (backend, ta_pool x) key fname ctype o' a as g
      = Some (if ro_album o' = None \<and> ro_status o' \<noteq> None then say (SavedAs ?id) ?g else ?g, Inr ?id)"
    unfolding store_media_def prod.case x(1,2) media_as_upload [OF assms(2,6) x(3)] u(1) using u(2) by (simp add: Let_def)
  show ?thesis unfolding run using st by auto
qed

text \<open>C13: A message with an attachment that the Bot API hands out, without a link or a command in its text, is stored: the
  new object has the name of the attachment and reads back as exactly the downloaded bytes.\<close>

theorem attachment_stored:
  fixes g :: "(string \<Rightarrow> 'b fake) tg"
  assumes "on_fakes x" and "\<forall>m. fake_ok (tg_world g m)" and "find_obj (tg_db g) (new_object_id (rn_draws rn)) = None"
    and "bot_tokens (cx_settings (ta_cx x)) \<noteq> []" and "message_chat msg = Inr chat" "\<not> falsy chat" and "message_text msg = Inr t" "\<not> startswith (strip t) ''/''"
    and "falsy (map_of msg ''media_group_id'')" and "parse_telegram_post_link t = None" "parse_web_url t = None"
    and "extract_direct_media msg = Inr (Some mi)" and "bot_api_path (mi_size mi) net = Inr path" "\<not> falsy path"
    and "tn_download net = Inr (200, as)" and "calm as" and "bytes_of as \<noteq> []"
  shows "\<exists>g'. execute_telegram_ingest x rn net authorized msg g = Some (g', Inr ())
     \<and> stored_as x (fst (get_ingest_storage_backend x (tg_db g))) (new_object_id (rn_draws rn)) (mi_filename mi) (bytes_of as) g'"
proof -
  let ?o = "\<lparr>ro_status = tn_status net, ro_task = None, ro_album = None\<rparr>"
  let ?g = "say (Starting (mi_filename mi)) g"
  obtain backend where tg: "get_ingest_storage_backend x (tg_db g) = (backend, ta_pool x)" by (metis target_pool prod.collapse)
  obtain m a where rep: "open_report rn ?o (mi_filename mi) (Some (mi_size mi)) ''telegram'' (tg_tasks g) = (m, a)" by (rule prod.exhaust)
  have un: "uncancelled a (tg_tasks (?g\<lparr>tg_tasks := m\<rparr>))" using fresh_report [OF _ rep] by simp
  have w: "\<forall>n. fake_ok (tg_world (?g\<lparr>tg_tasks := m\<rparr>) n)" "find_obj (tg_db (?g\<lparr>tg_tasks := m\<rparr>)) (new_object_id (rn_draws rn)) = None" using assms(2,3) by simp_all
  from store_media_done [OF assms(1,16,17) w un, where backend = backend and key = "''tg_webhook''" and fname = "mi_filename mi"
    and ctype = "mi_content_type mi" and o' = ?o]
  obtain g' where g': "store_media x rn (backend, ta_pool x) ''tg_webhook'' (mi_filename mi) (mi_content_type mi) ?o a as (?g\<lparr>tg_tasks := m\<rparr>)
      = Some (g', Inr (new_object_id (rn_draws rn)))" "stored_as x backend (new_object_id (rn_draws rn)) (mi_filename mi) (bytes_of as) g'" by blast
  have "ingest_direct_media x rn net msg mi ?o ?g = Some (g', Inr (new_object_id (rn_draws rn)))"
    unfolding ingest_direct_media_def assms(13) sum.case using assms(14) by (simp add: rep assms(15) tg g'(1))
  then have "ingest_one x rn net msg t g = Some (g', Inr (Some (new_object_id (rn_draws rn))))"
    unfolding ingest_one_def Let_def assms(10,11,12) by simp
  then have "execute_telegram_ingest x rn net authorized msg g = Some (g', Inr ())"
    unfolding execute_telegram_ingest_def using assms(4-9) by simp
  then show ?thesis using g'(2) unfolding tg by simp
qed

section \<open>What fails leaves nothing\<close>

text \<open>Also: A transfer that fails while it stores, because the download stalls, is cancelled or a backend fails, leaves every
  backend with exactly the blobs it had and adds no object, and its task says error or cancelled.\<close>

theorem failed_transfer_leaves_no_blob:
  fixes g :: "(string \<Rightarrow> 'b fake) tg"
  assumes "flaky (ta_store x)" and "ta_delete x = fakes_delete" and "ta_pool x = None \<or> (\<exists>n. ta_pool x = Some (pool_init n))" and "\<forall>m. fake_ok (tg_world g m)"
    and "store_stream (ta_store x) fakes_delete (ta_sha x) air_read (service_env (ta_cx x) (ta_env x)) (open_reader a (tg_tasks g) as)
        (svc_init backend (tg_db g) fname (Some ctype) None 0 ''upres'' (ta_pool x) None (tg_world g)) = Some (s, Inl e)"
  shows "\<exists>g'. store_media x rn (backend, ta_pool x) key fname ctype o' a as g = Some (g', Inl e)
     \<and> blob (tg_world g') = blob (tg_world g) \<and> d_objects (tg_db g') = d_objects (tg_db g) \<and> tg_notices g' = tg_notices g"
  unfolding store_media_def prod.case assms(2,5) using rolled_back_twice [OF assms(4,3,1,5)] by (simp add: Let_def)

section \<open>Links come first\<close>

text \<open>The media keys of a message.\<close>

definition media_keys :: "string set" where
  "media_keys = {''document'', ''video'', ''audio'', ''photo''}"

text \<open>Also: A post link or a web address in the caption takes the place of the attached media: the message is handled exactly
  as if nothing were attached, and the attachment is not stored.\<close>

theorem caption_link_hides_media:
  assumes "message_text msg = Inr t" and "parse_telegram_post_link t \<noteq> None \<or> parse_web_url t \<noteq> None" and "falsy (map_of msg ''media_group_id'')"
  shows "execute_telegram_ingest x rn net authorized msg g
    = execute_telegram_ingest x rn net authorized (filter (\<lambda>(k, _). k \<notin> media_keys) msg) g"
proof -
  have m: "map_of (filter (\<lambda>(k, _). k \<notin> media_keys) msg) k = map_of msg k" if "k \<notin> media_keys" for k
    using that by (induction msg) auto
  have k: "''text'' \<notin> media_keys" "''caption'' \<notin> media_keys" "''chat'' \<notin> media_keys" "''media_group_id'' \<notin> media_keys"
    by (simp_all add: media_keys_def)
  have f: "message_text (filter (\<lambda>(k, _). k \<notin> media_keys) msg) = message_text msg" "message_chat (filter (\<lambda>(k, _). k \<notin> media_keys) msg) = message_chat msg"
    by (simp_all only: message_text_def message_chat_def m [OF k(1)] m [OF k(2)] m [OF k(3)])
  have "ingest_one x rn net (filter (\<lambda>(k, _). k \<notin> media_keys) msg) t g = ingest_one x rn net msg t g" for g
    using assms(2) unfolding ingest_one_def Let_def by (cases "parse_telegram_post_link t") (auto split: option.split)
  then show ?thesis
    unfolding execute_telegram_ingest_def f m [OF k(4)] assms(1)
    using assms(3) by (cases "message_chat msg") (simp_all cong: if_cong)
qed

section \<open>Cancelling\<close>

lemma tm_cancel_fields:
  "tm_tasks (fst (tm_cancel now i m)) = tm_tasks m" "length (tm_heap (fst (tm_cancel now i m))) = length (tm_heap m)"
  by (simp_all add: tm_cancel_def set_task_def split: option.split)

lemma tm_cancel_active:
  assumes "active (task_at (fst (tm_cancel now i m)) b)" shows "active (task_at m b)"
proof -
  have n: "(tm_heap m)[a := y] ! b = (if a = b \<and> b < length (tm_heap m) then y else task_at m b)" for a y
    by (cases "a = b"; cases "b < length (tm_heap m)") (auto simp: list_update_beyond)
  show ?thesis using assms by (simp add: tm_cancel_def set_task_def n active_def split: option.splits if_splits)
qed

lemma tm_cancel_hits:
  assumes "tm_get i m = Some a" and "a < length (tm_heap m)" shows "\<not> active (task_at (fst (tm_cancel now i m)) a)"
  using assms by (auto simp: tm_cancel_def set_task_def active_def)

lemma cancel_each_spec:
  "cancel_each now vs m = (m', names) \<Longrightarrow> tm_tasks m' = tm_tasks m \<and> length (tm_heap m') = length (tm_heap m)
     \<and> (\<forall>b. active (task_at m' b) \<longrightarrow> active (task_at m b))
     \<and> (\<forall>v \<in> set vs. \<forall>a. tm_get (tv_id v) m = Some a \<longrightarrow> a < length (tm_heap m) \<longrightarrow> \<not> active (task_at m' a))"
proof (induction vs arbitrary: m m' names)
  case (Cons v vs)
  obtain m1 d where c: "tm_cancel now (tv_id v) m = (m1, d)" by (rule prod.exhaust)
  obtain m2 ns where e: "cancel_each now vs m1 = (m2, ns)" by (rule prod.exhaust)
  have m': "m' = m2" using Cons.prems c e by simp
  have m1: "m1 = fst (tm_cancel now (tv_id v) m)" by (simp add: c)
  note f = tm_cancel_fields [of now "tv_id v" m, folded m1]
  note ih = Cons.IH [OF e]
  have g: "tm_get i m1 = tm_get i m" for i by (simp add: tm_get_def f)
  have "\<not> active (task_at m2 a)" if "u \<in> set (v # vs)" "tm_get (tv_id u) m = Some a" "a < length (tm_heap m)" for u a
  proof (cases "u \<in> set vs")
    case True
    then show ?thesis using ih that g f by simp
  next
    case False
    then have "u = v" using that(1) by simp
    then have "\<not> active (task_at m1 a)" using tm_cancel_hits [of "tv_id v" m a now] that unfolding m1 by simp
    then show ?thesis using ih by blast
  qed
  moreover have "active (task_at m2 b) \<longrightarrow> active (task_at m b)" for b using ih tm_cancel_active [of now "tv_id v" m b] unfolding m1 by blast
  ultimately show ?case using ih f unfolding m' by simp
qed simp

text \<open>C38: After the command /cancel no registered task is running any more.\<close>

theorem cancel_command_stops_all:
  assumes "tm_ok (tg_tasks g)" and "command_of t \<in> {''/cancel'', ''/stop''}"
  shows "snd (handle_bot_command x now authorized t g)
    \<and> (\<forall>(i, a) \<in> set (tm_tasks (tg_tasks (fst (handle_bot_command x now authorized t g)))).
         \<not> active (task_at (tg_tasks (fst (handle_bot_command x now authorized t g))) a))"
proof -
  let ?m = "tm_prune now (tg_tasks g)"
  let ?vs = "map (to_dict now) (filter active (newest_first (map (task_at ?m \<circ> snd) (tm_tasks ?m))))"
  have ok: "tm_ok ?m" using assms(1) by simp
  have la: "tm_list_active now (tg_tasks g) = (?m, ?vs)" by (simp add: tm_list_active_def Let_def)
  have cmd: "command_of t \<notin> {''/start'', ''/help''}" using assms(2) by auto
  have entry: "a < length (tm_heap ?m) \<and> it_id (task_at ?m a) = i \<and> tm_get i ?m = Some a" if "(i, a) \<in> set (tm_tasks ?m)" for i a
    using ok that by (auto simp: tm_ok_def list_all_iff tm_get_def)
  have ids: "to_dict now (task_at ?m a) \<in> set ?vs" if "(i, a) \<in> set (tm_tasks ?m)" "active (task_at ?m a)" for i a
    using that by (force simp: newest_first_def)
  obtain m' names where ce: "cancel_each now ?vs ?m = (m', names)" by (rule prod.exhaust)
  note sp = cancel_each_spec [OF ce]
  have no: "\<not> active (task_at m' a)" if "(i, a) \<in> set (tm_tasks ?m)" for i a
  proof
    assume "active (task_at m' a)"
    then have "to_dict now (task_at ?m a) \<in> set ?vs" using sp ids [OF that] by blast
    moreover have "tv_id (to_dict now (task_at ?m a)) = i" using entry [OF that] by (simp add: to_dict_def)
    ultimately show False using sp entry [OF that] \<open>active (task_at m' a)\<close> by metis
  qed
  show ?thesis
  proof (cases "?vs = []")
    case True
    then have h: "handle_bot_command x now authorized t g = (say NoActiveTask (g\<lparr>tg_tasks := ?m\<rparr>), True)"
      using assms(2) cmd unfolding handle_bot_command_def Let_def la by simp
    have "\<not> active (task_at ?m a)" if "(i, a) \<in> set (tm_tasks ?m)" for i a using ids [OF that] True by fastforce
    then show ?thesis unfolding h by auto
  next
    case False
    then have h: "handle_bot_command x now authorized t g = (say (CancelledTasks names) (g\<lparr>tg_tasks := m'\<rparr>), True)"
      using assms(2) cmd unfolding handle_bot_command_def Let_def la prod.case ce by simp
    show ?thesis unfolding h using no sp by auto
  qed
qed

text \<open>Also: Once the first file of an album is stored the task of the album says done, so a cancel is answered with False, sets
  no event, and the files that follow are ingested all the same.\<close>

theorem album_uncancellable_after_first_file:
  fixes g :: "(string \<Rightarrow> 'b fake) tg"
  assumes "on_fakes x" and "calm as" and "bytes_of as \<noteq> []" and "\<forall>m. fake_ok (tg_world g m)" and "find_obj (tg_db g) (new_object_id (rn_draws rn)) = None"
    and "\<not> it_cancel (task_at (tg_tasks g) a)" and "tm_get tid (rn_tasks rn a (tg_tasks g)) = Some a" and "a < length (tm_heap (rn_tasks rn a (tg_tasks g)))"
  shows "\<exists>g'. store_media x rn (backend, ta_pool x) key fname ctype o' (Some a) as g = Some (g', Inr (new_object_id (rn_draws rn)))
     \<and> tm_cancel now tid (tg_tasks g') = (tg_tasks g', False)"
proof -
  have un: "uncancelled (Some a) (tg_tasks g)" using assms(6) by (simp add: uncancelled_def)
  from store_media_done [OF assms(1-5) un, where backend = backend and key = key and fname = fname and ctype = ctype and o' = o']
  obtain g' where g': "store_media x rn (backend, ta_pool x) key fname ctype o' (Some a) as g = Some (g', Inr (new_object_id (rn_draws rn)))"
    "tg_tasks g' = set_task a (\<lambda>t. t\<lparr>it_state := ''done''\<rparr>) (rn_tasks rn a (tg_tasks g))" by (auto simp: end_task_def)
  have "tm_get tid (tg_tasks g') = Some a" "it_state (task_at (tg_tasks g') a) = ''done''"
    using assms(7,8) unfolding g'(2) by (simp_all add: tm_get_def set_task_def)
  then show ?thesis using g'(1) by (simp add: tm_cancel_def active_def)
qed

section \<open>Posts through the parallel download\<close>

definition part_of :: "nat \<Rightarrow> 'b list \<Rightarrow> nat \<Rightarrow> 'b list" where
  "part_of n f i = take n (drop (i * n) f)"

lemma concat_parts: "concat (map (part_of n f) [0..<k]) = take (k * n) f"
proof (induction k)
  case (Suc k)
  have "Suc k * n = k * n + n" by simp
  then show ?case using Suc by (simp only: take_add) (simp add: part_of_def)
qed simp

lemma parallel_complete:
  assumes "(par_step k (part_of n f))\<^sup>*\<^sup>* (par_init conc k) s" and "pa_expected s = k" and "length f \<le> k * n"
  shows "concat (pa_out s) = f"
proof -
  have "par_ok k (part_of n f) s" using assms(1) by (induction rule: rtranclp_induct) (auto intro: par_ok_init par_ok_step)
  then have "pa_out s = map (part_of n f) [0..<k]" using assms(2) by (simp add: par_ok_def)
  then show ?thesis using concat_parts [of n f k] assms(3) by simp
qed

text \<open>C33: A post whose media come complete out of the parallel download, in whatever order its parts arrived, is stored as
  exactly the file, under the name the post gives it.\<close>

theorem post_stored:
  fixes g :: "(string \<Rightarrow> 'b fake) tg"
  assumes "on_fakes x" and "\<forall>m. fake_ok (tg_world g m)" and "find_obj (tg_db g) (new_object_id (rn_draws rn)) = None"
    and "tn_client net" and "tn_message net chat mid = Inr (Some msg)" and "tm_media msg = Some (map Piece (pa_out s))" and "tm_name msg = Some fname" "fname \<noteq> []"
    and "(par_step k (part_of n f))\<^sup>*\<^sup>* (par_init conc k) s" and "pa_expected s = k" and "length f \<le> k * n" and "f \<noteq> []" and "ro_album o' = None"
  shows "\<exists>g'. ingest_protected_post x rn net chat mid o' g = Some (g', Inr (new_object_id (rn_draws rn)))
     \<and> stored_as x (fst (get_ingest_storage_backend x (tg_db g))) (new_object_id (rn_draws rn)) fname f g'"
proof -
  have f: "concat (pa_out s) = f" by (rule parallel_complete [OF assms(9-11)])
  let ?ct = "if truthy_str (tm_mime msg) then the (tm_mime msg) else ''application/octet-stream''"
  obtain backend where tg: "get_ingest_storage_backend x (tg_db g) = (backend, ta_pool x)" by (metis target_pool prod.collapse)
  obtain m a where rep: "open_report rn o' fname (tm_size msg) ''telegram'' (tg_tasks g) = (m, a)" by (rule prod.exhaust)
  have un: "uncancelled a (tg_tasks (g\<lparr>tg_tasks := m\<rparr>))" using fresh_report [OF assms(13) rep] by simp
  have b: "calm (map Piece (pa_out s))" "bytes_of (map Piece (pa_out s)) \<noteq> []" using assms(12) by (simp_all add: f)
  have w: "\<forall>n. fake_ok (tg_world (g\<lparr>tg_tasks := m\<rparr>) n)" "find_obj (tg_db (g\<lparr>tg_tasks := m\<rparr>)) (new_object_id (rn_draws rn)) = None" using assms(2,3) by simp_all
  from store_media_done [OF assms(1) b w un, where backend = backend and key = "''tg_webhook_mtproto''" and fname = fname and ctype = ?ct and o' = o']
  obtain g' where g': "store_media x rn (backend, ta_pool x) ''tg_webhook_mtproto'' fname ?ct o' a (map Piece (pa_out s)) (g\<lparr>tg_tasks := m\<rparr>)
      = Some (g', Inr (new_object_id (rn_draws rn)))" "stored_as x backend (new_object_id (rn_draws rn)) fname f g'" unfolding bytes_of_pieces f by blast
  have "ingest_protected_post x rn net chat mid o' g = Some (g', Inr (new_object_id (rn_draws rn)))"
    unfolding ingest_protected_post_def assms(5,7) sum.case option.case assms(6) Let_def using assms(4,8) g'(1)
    by (simp add: truthy_str_def stream_telethon_media_def rep tg)
  then show ?thesis using g'(2) unfolding tg by simp
qed

section \<open>Witnesses\<close>

definition demo_owner :: ctx where
  "demo_owner = demo_up\<lparr>cx_settings := (cx_settings demo_up)\<lparr>s_bot_token := Some ''1:a'', s_bot_tokens_raw := None\<rparr>\<rparr>"

definition demo_tg_app :: "(nat, string \<Rightarrow> nat fake) tg_app" where
  "demo_tg_app = \<lparr>ta_cx = demo_owner, ta_store = fakes_store, ta_delete = fakes_delete, ta_sha = (\<lambda>_. ''h''), ta_env = demo_env 1, ta_pool = None,
     ta_backend = Outside ''fake'', ta_new_bot = Outside ''bot''\<rparr>"

definition demo_tg :: "(string \<Rightarrow> nat fake) tg" where
  "demo_tg = \<lparr>tg_db = db_empty, tg_world = (\<lambda>_. fake_init), tg_tasks = tm_init, tg_albums = albums_init, tg_notices = []\<rparr>"

definition demo_net :: "nat arrival list \<Rightarrow> nat tg_net" where
  "demo_net as = \<lparr>tn_get_file = Inr (200, JObj [(''ok'', JBool True), (''result'', JObj [(''file_path'', JStr ''documents/f'')])]), tn_download = Inr (200, as),
     tn_client = True, tn_message = (\<lambda>c i. Inr (Some \<lparr>tm_media = Some as, tm_name = Some ''post.bin'', tm_mime = None, tm_size = None, tm_ext = None\<rparr>)),
     tn_recent = Inr [], tn_web = Inr (200, ''https://h/x'', [], as), tn_status = Some 7\<rparr>"

definition demo_rn :: run where
  "demo_rn = \<lparr>rn_draws = [0], rn_fresh = ''t'', rn_clock = 1, rn_tasks = (\<lambda>_ m. m)\<rparr>"

definition demo_message :: "(string \<times> json) list \<Rightarrow> message" where
  "demo_message ks = [(''message_id'', JInt 5), (''chat'', JObj [(''id'', JInt 42)]), (''document'', JObj [(''file_id'', JStr ''abcdefghij''), (''file_size'', JInt 3)])] @ ks"

lemma demo_on_fakes: "on_fakes demo_tg_app"
  by (simp add: on_fakes_def demo_tg_app_def env_ok_def service_env_def demo_env_def toy_keys_def chunk_size_def demo_owner_def demo_up_def demo_cx_def default_settings_def)

lemma demo_tg_fresh: "\<forall>m. fake_ok (tg_world demo_tg m)" "find_obj (tg_db demo_tg) (new_object_id (rn_draws demo_rn)) = None"
  using fakes_init_ok by (simp_all add: demo_tg_def find_obj_def db_empty_def)

lemma demo_tokens: "bot_tokens (cx_settings (ta_cx demo_tg_app)) = [''1:a'']"
  by code_simp

lemma demo_parsed:
  "message_chat (demo_message ks) = Inr (Some (JInt 42))" "message_text (demo_message []) = Inr []"
  "extract_direct_media (demo_message []) = Inr (Some \<lparr>mi_file_id = ''abcdefghij'', mi_filename = ''doc_abcdefgh.bin'', mi_size = 3, mi_content_type = ''application/octet-stream''\<rparr>)"
  "bot_api_path 3 (demo_net as) = Inr (Some (JStr ''documents/f''))"
  by (simp_all add: message_chat_def message_text_def demo_message_def j_get_def falsy_def jtruthy_def extract_direct_media_def attached_of_def text_or_def size_or_0_def
     bot_api_path_def demo_net_def file_path_of_def)

lemma attachment_stored_witness:
  "\<exists>g'. execute_telegram_ingest demo_tg_app demo_rn (demo_net [Piece [1, 2], Piece [3]]) False (demo_message []) demo_tg = Some (g', Inr ())
     \<and> stored_as demo_tg_app (fst (get_ingest_storage_backend demo_tg_app (tg_db demo_tg))) (new_object_id (rn_draws demo_rn)) ''doc_abcdefgh.bin'' [1, 2, 3] g'"
proof -
  let ?net = "demo_net [Piece [1, 2], Piece [3]]"
  have a: "bot_tokens (cx_settings (ta_cx demo_tg_app)) \<noteq> []" "\<not> falsy (Some (JInt 42))" "\<not> startswith (strip []) ''/''" "falsy (map_of (demo_message []) ''media_group_id'')"
    "parse_telegram_post_link [] = None" "parse_web_url [] = None" "\<not> falsy (Some (JStr ''documents/f''))" "tn_download ?net = Inr (200, [Piece [1, 2], Piece [3]])"
    "calm [Piece [1, 2], Piece [3 :: nat]]" "bytes_of [Piece [1, 2], Piece [3 :: nat]] \<noteq> []"
    by (simp_all add: demo_tokens falsy_def jtruthy_def strip_by_def lstrip_by_def rstrip_by_def demo_message_def parse_telegram_post_link_def private_post_def
      public_post_def parse_web_url_def demo_net_def)
  have p: "bot_api_path (mi_size \<lparr>mi_file_id = ''abcdefghij'', mi_filename = ''doc_abcdefgh.bin'', mi_size = 3, mi_content_type = ''application/octet-stream''\<rparr>) ?net
     = Inr (Some (JStr ''documents/f''))" using demo_parsed(4) by simp
  from attachment_stored [OF demo_on_fakes demo_tg_fresh a(1) demo_parsed(1) a(2) demo_parsed(2) a(3,4,5,6) demo_parsed(3) p a(7,8,9,10), where authorized = False]
  show ?thesis by simp
qed

lemma failed_transfer_leaves_no_blob_witness:
  "\<exists>g'. store_media demo_tg_app demo_rn (Outside ''fake'', None) ''tg_webhook'' ''f'' ''text/plain'' \<lparr>ro_status = None, ro_task = None, ro_album = None\<rparr> None [Stall :: nat arrival] demo_tg
      = Some (g', Inl (RuntimeError ''Download stream stalled'')) \<and> blob (tg_world g') = blob (tg_world demo_tg)"
proof -
  let ?s = "svc_init (Outside ''fake'') (tg_db demo_tg) ''f'' (Some ''text/plain'') None 0 ''upres'' (ta_pool demo_tg_app) None (tg_world demo_tg) :: (nat, string \<Rightarrow> nat fake) svc"
  let ?env = "service_env (ta_cx demo_tg_app) (ta_env demo_tg_app)"
  have f: "sv_resume_from ?s = 0" "sv_chunks ?s = []" by (simp_all add: svc_init_def Let_def)
  have c: "0 < en_chunk_size ?env" using demo_on_fakes by (simp add: on_fakes_def env_ok_def)
  have rd: "air_read (open_reader None (tg_tasks demo_tg) [Stall :: nat arrival]) n = Inl (RuntimeError ''Download stream stalled'')" if "0 < n" for n
    using that by (simp add: air_read_def open_reader_def)
  have "chunk_stream (\<lambda>_. ''h'') air_read (en_chunk_size ?env) cb media mx (open_reader None (tg_tasks demo_tg) [Stall :: nat arrival]) st = Some (st, Inl (RuntimeError ''Download stream stalled''))"
    for cb media mx and st :: "(nat, string \<Rightarrow> nat fake) svc"
    unfolding chunk_stream_def using c by (subst chunk_loop.simps) (simp add: fill.simps rd [OF c])
  then have "store_stream fakes_store fakes_delete (ta_sha demo_tg_app) air_read ?env (open_reader None (tg_tasks demo_tg) [Stall]) ?s
      = Some (fst (rollback fakes_delete ?s), Inl (RuntimeError ''Download stream stalled''))"
    unfolding store_stream_fresh [OF f] by (simp add: demo_tg_app_def)
  then have st: "store_stream (ta_store demo_tg_app) fakes_delete (ta_sha demo_tg_app) air_read (service_env (ta_cx demo_tg_app) (ta_env demo_tg_app))
      (open_reader None (tg_tasks demo_tg) [Stall]) (svc_init (Outside ''fake'') (tg_db demo_tg) ''f'' (Some ''text/plain'') None 0 ''upres'' (ta_pool demo_tg_app) None
        (tg_world demo_tg)) = Some (fst (rollback fakes_delete ?s), Inl (RuntimeError ''Download stream stalled''))"
    by (simp add: demo_tg_app_def)
  have x: "flaky (ta_store demo_tg_app)" "ta_delete demo_tg_app = fakes_delete" "ta_pool demo_tg_app = None \<or> (\<exists>n. ta_pool demo_tg_app = Some (pool_init n))"
    by (simp_all add: demo_tg_app_def)
  from failed_transfer_leaves_no_blob [OF x demo_tg_fresh(1) st] show ?thesis by (force simp: demo_tg_app_def)
qed

lemma caption_link_hides_media_witness:
  "execute_telegram_ingest demo_tg_app demo_rn (demo_net [Piece [1]]) False (demo_message [(''caption'', JStr ''https://h/x'')]) demo_tg
   = execute_telegram_ingest demo_tg_app demo_rn (demo_net [Piece [1]]) False
       [(''message_id'', JInt 5), (''chat'', JObj [(''id'', JInt 42)]), (''caption'', JStr ''https://h/x'')] demo_tg"
proof -
  let ?m = "demo_message [(''caption'', JStr ''https://h/x'')]"
  have "message_text ?m = Inr ''https://h/x''" by (simp add: message_text_def demo_message_def falsy_def jtruthy_def as_str_def)
  moreover have "parse_web_url ''https://h/x'' \<noteq> None" by code_simp
  moreover have "falsy (map_of ?m ''media_group_id'')" by (simp add: demo_message_def falsy_def)
  moreover have "filter (\<lambda>(k, _). k \<notin> media_keys) ?m = [(''message_id'', JInt 5), (''chat'', JObj [(''id'', JInt 42)]), (''caption'', JStr ''https://h/x'')]"
    by (simp add: demo_message_def media_keys_def)
  ultimately show ?thesis using caption_link_hides_media [of ?m "''https://h/x''" demo_tg_app demo_rn "demo_net [Piece [1]]" False demo_tg] by simp
qed

lemma cancel_command_stops_all_witness:
  "\<not> active (task_at (tg_tasks (fst (handle_bot_command demo_tg_app 2 False ''/cancel'' (demo_tg\<lparr>tg_tasks := demo_tasks\<rparr>)))) 0)"
proof -
  let ?g = "demo_tg\<lparr>tg_tasks := demo_tasks\<rparr>"
  have ok: "tm_ok (tg_tasks ?g)" using tm_ok_create [of tm_init] by (simp add: demo_tasks_def tm_ok_def tm_init_def)
  have c: "command_of ''/cancel'' \<in> {''/cancel'', ''/stop''}" by code_simp
  have m: "(''t'', 0) \<in> set (tm_tasks (tg_tasks (fst (handle_bot_command demo_tg_app 2 False ''/cancel'' ?g))))" by code_simp
  from cancel_command_stops_all [OF ok c, of demo_tg_app 2 False] m show ?thesis by blast
qed

lemma album_uncancellable_after_first_file_witness:
  "\<exists>g'. store_media demo_tg_app demo_rn (Outside ''fake'', None) ''tg_webhook'' ''f'' ''text/plain'' \<lparr>ro_status = None, ro_task = Some ''t'', ro_album = None\<rparr> (Some 0) [Piece [1]]
      (demo_tg\<lparr>tg_tasks := demo_tasks\<rparr>) = Some (g', Inr (new_object_id (rn_draws demo_rn))) \<and> tm_cancel 2 ''t'' (tg_tasks g') = (tg_tasks g', False)"
proof -
  let ?g = "demo_tg\<lparr>tg_tasks := demo_tasks\<rparr>"
  have a: "calm [Piece [1 :: nat]]" "bytes_of [Piece [1 :: nat]] \<noteq> []" "\<forall>m. fake_ok (tg_world ?g m)" "find_obj (tg_db ?g) (new_object_id (rn_draws demo_rn)) = None"
    using demo_tg_fresh by simp_all
  have b: "\<not> it_cancel (task_at (tg_tasks ?g) 0)" "tm_get ''t'' (rn_tasks demo_rn 0 (tg_tasks ?g)) = Some 0" "0 < length (tm_heap (rn_tasks demo_rn 0 (tg_tasks ?g)))"
    by (simp_all add: demo_rn_def demo_tasks_def tm_create_def tm_init_def tm_prune_def tm_get_def new_task_def Let_def)
  from album_uncancellable_after_first_file [OF demo_on_fakes a b, where now = 2 and backend = "Outside ''fake''" and key = "''tg_webhook''" and fname = "''f''" and ctype = "''text/plain''"
    and o' = "\<lparr>ro_status = None, ro_task = Some ''t'', ro_album = None\<rparr>"] show ?thesis by (simp add: demo_tg_app_def)
qed

lemma post_stored_witness:
  "\<exists>s g'. (par_step 1 (part_of 4 [1, 2, 3]))\<^sup>*\<^sup>* (par_init 4 1) s \<and> ingest_protected_post demo_tg_app demo_rn (demo_net (map Piece (pa_out s))) (Chat 1) 2
      \<lparr>ro_status = None, ro_task = None, ro_album = None\<rparr> demo_tg = Some (g', Inr (new_object_id (rn_draws demo_rn)))
     \<and> stored_as demo_tg_app (fst (get_ingest_storage_backend demo_tg_app (tg_db demo_tg))) (new_object_id (rn_draws demo_rn)) ''post.bin'' [1, 2, 3] g'"
proof -
  let ?p = "part_of 4 [1, 2, 3 :: nat]"
  let ?s0 = "par_init 4 1 :: nat par"
  let ?s1 = "?s0\<lparr>pa_workers := 0, pa_flight := {0}, pa_next := 1\<rparr>"
  let ?s2 = "?s1\<lparr>pa_workers := 1, pa_flight := {}, pa_queue := [Part 0 [1, 2, 3]]\<rparr>"
  let ?s3 = "consume_item (Part 0 [1, 2, 3]) (?s2\<lparr>pa_queue := []\<rparr>)"
  have st1: "par_step 1 ?p ?s0 ?s1" using take_part [of ?s0 1 ?p] by (simp add: par_init_def)
  have st2: "par_step 1 ?p ?s1 ?s2" using queue_part [of 0 ?s1 1 ?p] by (simp add: par_init_def part_of_def)
  have st3: "par_step 1 ?p ?s2 ?s3" using consume [of ?s2 "Part 0 [1, 2, 3]" "[]" 1 ?p] by (simp add: par_init_def)
  note go = rtranclp.rtrancl_into_rtrancl [where r = "par_step 1 ?p"]
  have "(par_step 1 ?p)\<^sup>*\<^sup>* ?s0 ?s1" by (rule go [OF rtranclp.rtrancl_refl st1])
  then have "(par_step 1 ?p)\<^sup>*\<^sup>* ?s0 ?s2" by (rule go [OF _ st2])
  then have run: "(par_step 1 ?p)\<^sup>*\<^sup>* ?s0 ?s3" by (rule go [OF _ st3])
  let ?net = "demo_net (map Piece (pa_out ?s3))"
  let ?msg = "\<lparr>tm_media = Some (map Piece (pa_out ?s3)), tm_name = Some ''post.bin'', tm_mime = None, tm_size = None, tm_ext = None\<rparr> :: nat tg_message"
  have a: "tn_client ?net" "tn_message ?net (Chat 1) 2 = Inr (Some ?msg)" "tm_media ?msg = Some (map Piece (pa_out ?s3))" "tm_name ?msg = Some ''post.bin''" "''post.bin'' \<noteq> []"
    by (simp_all add: demo_net_def)
  have b: "pa_expected ?s3 = 1" "length [1, 2, 3 :: nat] \<le> 1 * 4" "[1, 2, 3 :: nat] \<noteq> []" "ro_album \<lparr>ro_status = None, ro_task = None, ro_album = None\<rparr> = None"
    by (simp_all add: par_init_def drain.simps)
  from post_stored [OF demo_on_fakes demo_tg_fresh a run b] run show ?thesis by blast
qed

end
