(* ===== verification/AppMain.thy ===== *)
theory AppMain
  imports Admin
begin

text \<open>
  The application around the components, \<^verbatim>\<open>src/src/anbar/main.py\<close>: the choice of the backend, what a start builds
  out of the stored state, the round of clean-ups every ten minutes, the daily backup, the security headers and the
  metrics. The connection of the backend, the harvester task and the routers are plain calls; FastAPI is outside.
\<close>

section \<open>Start\<close>

datatype wired = WiredFake | WiredBot string string | WiredMtproto int

text \<open>\<open>api\<close>: whether the API id and hash are configured.\<close>

(* src: src/src/anbar/main.py auto _default_backend *)
definition default_backend :: "settings \<Rightarrow> bool \<Rightarrow> wired res" where
  "default_backend s api =
     (case s_backend s of
        FAKE \<Rightarrow> Inr WiredFake
      | BOT \<Rightarrow> if \<not> truthy_str (s_bot_token s) \<or> s_channel_id s = [] then Inl (RuntimeError ''backend=bot requires ANBAR_BOT_TOKEN and ANBAR_CHANNEL_ID'')
          else Inr (WiredBot (the (s_bot_token s)) (s_channel_id s))
      | MTPROTO \<Rightarrow> if \<not> api then Inl (RuntimeError ''backend=mtproto requires ANBAR_API_ID and ANBAR_API_HASH'')
          else Inr (WiredMtproto (s_mtproto_export_conns s)))"

(* src: src/src/anbar/main.py auto _build_cache *)
definition build_cache :: "settings \<Rightarrow> db option \<Rightarrow> disk_lru option" where
  "build_cache s d =
     (if (case d of Some d \<Rightarrow> get_int_setting d ''cache_enabled'' (if s_cache_enabled s then 1 else 0) = 0 | None \<Rightarrow> \<not> s_cache_enabled s) then None
      else let budget_mb = (case d of Some d \<Rightarrow> get_int_setting d ''cache_mb'' (s_cache_max_mb s) | None \<Rightarrow> s_cache_max_mb s)
           in if budget_mb \<le> 0 then None else Some (dl_init (budget_mb * 1024 * 1024)))"

text \<open>The state a start builds: caches, queue and pool. Jobs in flight died with the old process.\<close>

record 'b started =
  sd_cache :: "disk_lru option"
  sd_chunks :: "'b micro option"
  sd_jobs :: jobq
  sd_pool :: "pool option"

(* src: src/src/anbar/main.py 45-90 create_app *)
definition start_up :: "settings \<Rightarrow> time \<Rightarrow> db \<Rightarrow> job list \<Rightarrow> 'b started" where
  "start_up s now d rows =
     (let seek_mb = get_int_setting d ''seek_cache_mb'' (s_seek_cache_mb s)
      in \<lparr>sd_cache = build_cache s (Some d), sd_chunks = (if seek_mb > 0 then Some (mc_init (seek_mb * 1024 * 1024) 120) else None),
          sd_jobs = jq_boot now rows,
          sd_pool = (if bot_tokens s \<noteq> [] \<and> s_channel_id s \<noteq> [] then Some (pool_init (length (bot_tokens s))) else None)\<rparr>)"

text \<open>Also: After a start no job is queued or running and nothing runs in the queue, and the disk cache is the one the settings
  API would build from the stored settings.\<close>

theorem start_is_clean:
  "(\<forall>j \<in> set (q_rows (sd_jobs (start_up s now d rows))). \<not> in_flight j) \<and> q_tasks (sd_jobs (start_up s now d rows)) = []
   \<and> (0 \<le> get_int_setting d ''cache_mb'' (s_cache_max_mb s) \<longrightarrow>
        sd_cache (start_up s now d rows) = ca_disk (sync_cache s d (c\<lparr>ca_disk := None\<rparr>)))"
  by (auto simp: start_up_def Let_def jq_boot_def jq_init_def js_mark_interrupted_def in_flight_def upd_where_def build_cache_def sync_cache_def dl_init_def)

section \<open>The round of clean-ups\<close>

text \<open>The steps in their order; \<open>fails i\<close>: the i-th step meets a database error and changes nothing. A step that fails skips the
  rest of the round.\<close>

(* src: src/src/anbar/main.py 92-152 create_app *)
definition prune_round :: "(nat \<Rightarrow> bool) \<Rightarrow> time \<Rightarrow> db \<times> jobq \<Rightarrow> db \<times> jobq" where
  "prune_round fails now st =
     (case st of (d, q) \<Rightarrow>
      if fails 0 then (d, q)
      else let d = fst (rate_prune now 3600 d) in
      if fails 1 then (d, q)
      else (case kv_prune_prefix now ''upres:'' 86400 d of
        (d, Inl e) \<Rightarrow> (d, q)
      | (d, Inr _) \<Rightarrow>
      if fails 2 then (d, q)
      else (case kv_prune_prefix now ''album:'' (86400 * 31) d of
        (d, Inl e) \<Rightarrow> (d, q)
      | (d, Inr _) \<Rightarrow>
      if fails 3 then (d, q)
      else let d = fst (audit_prune now (90 * 86400) d) in
      if fails 4 then (d, q)
      else let d = fst (purge_expired now None d) in
      if fails 5 then (d, q) else (d, fst (jq_prune now q)))))"

lemma prune_rows_objects: "d_objects (fst (prune_rows c0 rows n d)) = d_objects d"
  by (induction c0 rows n d rule: prune_rows.induct) (auto split: option.split sum.split json.split)

lemma fold_delete_objects:
  "d_objects (fold kv_delete ks d) = d_objects d" "d_objects (fold (\<lambda>(k, v) d. if P k v then kv_delete k d else d) rows d) = d_objects d"
  by (induction ks arbitrary: d, simp_all) (induction rows arbitrary: d, auto)

lemma cleanup_objects [simp]: "d_objects (cleanup_tags now i d) = d_objects d"
  unfolding cleanup_tags_def Let_def by (simp add: fold_delete_objects)

lemma purge_rows_objects: "d_objects (fst (purge_rows clock t rows st)) = d_objects (fst st)"
  by (induction clock t rows st rule: purge_rows.induct) (auto split: option.split prod.split)

lemma purge_expired_objects: "d_objects (fst (purge_expired clock now d)) = d_objects d"
  by (simp add: purge_expired_def link_purge_expired_def Let_def purge_rows_objects)

text \<open>Also: Whatever fails in it, a round of clean-ups touches no object and no job that is queued or
  running; in particular nothing ever empties the trash, whatever its age.\<close>

theorem clean_up_keeps_objects:
  "d_objects (fst (prune_round fails now (d, q))) = d_objects d
   \<and> filter in_flight (q_rows (snd (prune_round fails now (d, q)))) = filter in_flight (q_rows q)"
proof -
  have a: "d_objects (fst (rate_prune now m d)) = d_objects d" for m d by (simp add: rate_prune_def Let_def)
  have b: "d_objects (fst (kv_prune_prefix now p m d)) = d_objects d" for p m d by (simp add: kv_prune_prefix_def prune_rows_objects)
  have c: "d_objects (fst (audit_prune now m d)) = d_objects d" for m d by (simp add: audit_prune_def Let_def)
  have e: "d_objects (fst (purge_expired now None d)) = d_objects d" for d by (rule purge_expired_objects)
  have f: "filter in_flight (q_rows (fst (jq_prune now q))) = filter in_flight (q_rows q)"
    by (auto simp: jq_prune_def js_prune_def del_where_def prunable_def terminal_def in_flight_def intro: filter_cong)
  define d1 where "d1 = fst (rate_prune now 3600 d)"
  obtain d2 r2 where k2: "kv_prune_prefix now ''upres:'' 86400 d1 = (d2, r2)" by fastforce
  obtain d3 r3 where k3: "kv_prune_prefix now ''album:'' (86400 * 31) d2 = (d3, r3)" by fastforce
  have "d_objects d1 = d_objects d" unfolding d1_def by (rule a)
  moreover have "d_objects d2 = d_objects d1" using b [of "''upres:''" 86400 d1] unfolding k2 by (simp only: fst_conv)
  moreover have "d_objects d3 = d_objects d2" using b [of "''album:''" "86400 * 31" d2] unfolding k3 by (simp only: fst_conv)
  ultimately have o: "d_objects d1 = d_objects d" "d_objects d2 = d_objects d" "d_objects d3 = d_objects d" by simp_all
  have shape: "prune_round fails now (d, q) \<in> {(d, q), (d1, q), (d2, q), (d3, q), (fst (audit_prune now (90 * 86400) d3), q),
      (fst (purge_expired now None (fst (audit_prune now (90 * 86400) d3))), q),
      (fst (purge_expired now None (fst (audit_prune now (90 * 86400) d3))), fst (jq_prune now q))}"
    unfolding prune_round_def prod.case Let_def d1_def [symmetric] k2 k3 by (cases r2; cases r3; simp only: sum.case prod.case) simp_all
  show ?thesis using shape by (elim insertE emptyE; simp only: fst_conv snd_conv o c e f)
qed

section \<open>The daily backup\<close>

text \<open>One turn of the loop. The snapshot is what \<open>dump\<close> makes of the database; errors are swallowed.\<close>

(* src: src/src/anbar/main.py 154-189 create_app *)
definition backup_turn :: "settings \<Rightarrow> time \<Rightarrow> string \<Rightarrow> (db \<Rightarrow> string) \<Rightarrow> (string \<Rightarrow> string \<Rightarrow> 'w \<Rightarrow> 'w \<times> object_ref res) \<Rightarrow> db \<times> 'w \<Rightarrow> db \<times> 'w" where
  "backup_turn s now ts dump store st =
     (case st of (d, w) \<Rightarrow>
      if get_int_setting d ''auto_backup_enabled'' (if s_auto_backup_enabled s then 1 else 0) = 0 then (d, w)
      else let due = (case kv_get d ''last_backup_time'' of None \<Rightarrow> Some True
              | Some t \<Rightarrow> if t = [] then Some True else map_option (\<lambda>l. now - l \<ge> 86400) (py_int t));
            filename = ''anbar_autobackup_'' @ ts @ ''.db''
        in if due \<noteq> Some True then (d, w)
           else (case store (dump d) filename w of
              (w, Inl e) \<Rightarrow> (d, w)
            | (w, Inr _) \<Rightarrow>
                (fst (log_audit now ''backup.auto'' ''system'' (Some filename) None (DJson (JObj [(''size'', JInt (int (length (dump d))))]))
                   (kv_set ''last_backup_time'' (str_of_int now) d)), w)))"

text \<open>Also: After a backup that was stored, no turn within the next day makes another one.\<close>

theorem one_backup_a_day:
  assumes "backup_turn s now ts dump store (d, w) = (d', w')" and "d' \<noteq> d" and "now \<le> later" "later < now + 86400"
  shows "backup_turn s later ts' dump' store' (d', w'') = (d', w'')"
proof -
  have logged: "kv_get (fst (log_audit t e a g p x d)) k = kv_get d k" for t e a g p x d k by (simp add: log_audit_def kv_get_def Let_def)
  have "kv_get d' ''last_backup_time'' = Some (str_of_int now)"
    using assms(1,2) by (auto simp: backup_turn_def Let_def kv_simps logged split: if_splits prod.splits sum.splits)
  then show ?thesis using assms(3,4) by (simp add: backup_turn_def Let_def)
qed

definition demo_keep :: "string \<Rightarrow> string \<Rightarrow> nat \<Rightarrow> nat \<times> object_ref res" where
  "demo_keep data fn n = (n + 1, Inr (mk_ref ''f'' None ''fake''))"

lemma one_backup_a_day_witness:
  "let (d', w') = backup_turn default_settings 90000 ''t'' (\<lambda>_. ''db'') demo_keep (db_empty, 0)
   in w' = 1 \<and> backup_turn default_settings 100000 ''u'' (\<lambda>_. ''db'') demo_keep (d', w') = (d', w')"
proof -
  obtain d' w' where r: "backup_turn default_settings 90000 ''t'' (\<lambda>_. ''db'') demo_keep (db_empty, 0) = (d', w')" by fastforce
  have w: "w' = 1" and d: "d_kv d' \<noteq> d_kv db_empty"
    using r by (auto simp: backup_turn_def get_int_setting_def kv_get_def db_empty_def default_settings_def demo_keep_def kv_set_def log_audit_def Let_def)
  have "d' \<noteq> db_empty" using d by auto
  then have "backup_turn default_settings 100000 ''u'' (\<lambda>_. ''db'') demo_keep (d', w') = (d', w')"
    by (rule one_backup_a_day [OF r]) simp_all
  then show ?thesis by (simp add: r w)
qed

section \<open>Security headers\<close>

text \<open>\<^verbatim>\<open>headers.setdefault\<close>: a header that is there stays. Names are in lower case.\<close>

definition set_default :: "string \<Rightarrow> string \<Rightarrow> (string \<times> string) list \<Rightarrow> (string \<times> string) list" where
  "set_default k v hs = (if map_of hs k = None then hs @ [(k, v)] else hs)"

definition content_policy :: string where
  "content_policy = ''default-src 'self'; script-src 'self' 'unsafe-inline' https://telegram.org; style-src 'self' 'unsafe-inline' https://fonts.googleapis.com; ''
     @ ''font-src 'self' https://fonts.gstatic.com data:; img-src 'self' data: blob:; media-src 'self' blob:; connect-src 'self'; ''
     @ ''frame-ancestors 'self' https://web.telegram.org;''"

(* src: src/src/anbar/main.py 252-282 create_app *)
definition secure_headers :: "string \<Rightarrow> (string \<times> string) list \<Rightarrow> (string \<times> string) list" where
  "secure_headers path hs =
     (let hs = set_default ''x-content-type-options'' ''nosniff'' hs;
          hs = set_default ''referrer-policy'' ''strict-origin-when-cross-origin'' hs;
          hs = (if startswith path ''/ui/miniapp'' then hs else set_default ''x-frame-options'' ''SAMEORIGIN'' hs);
          ctype = (case map_of hs ''content-type'' of None \<Rightarrow> [] | Some t \<Rightarrow> t)
      in if contains_str ''text/html'' ctype then set_default ''content-security-policy'' content_policy hs else hs)"

(* src: src/src/anbar/main.py 229-239 create_app *)
definition compressible :: "string \<Rightarrow> bool" where
  "compressible path = (\<not> (startswith path ''/f/'' \<or> startswith path ''/s3/''))"

lemma default_keeps: "map_of hs k = Some v \<Longrightarrow> map_of (set_default j w hs) k = Some v"
  by (simp add: set_default_def)

lemma default_set: "map_of (set_default k v hs) k \<noteq> None"
  by (auto simp: set_default_def map_add_def)

lemma default_stays: "map_of hs k \<noteq> None \<Longrightarrow> map_of (set_default j w hs) k \<noteq> None"
  using default_keeps by fastforce

lemmas default_facts = default_set default_stays [OF default_set] default_stays [OF default_stays [OF default_set]]
  default_stays [OF default_stays [OF default_stays [OF default_set]]]

text \<open>Also: Every response forbids sniffing its type, and every page outside the mini app forbids framing by other sites and has a
  content policy, unless the route has set that header itself; no header a route sets is changed.\<close>

theorem responses_are_guarded:
  "map_of (secure_headers path hs) ''x-content-type-options'' \<noteq> None
   \<and> (\<not> startswith path ''/ui/miniapp'' \<longrightarrow> map_of (secure_headers path hs) ''x-frame-options'' \<noteq> None)
   \<and> (map_of hs ''content-type'' = Some ''text/html; charset=utf-8'' \<longrightarrow> map_of (secure_headers path hs) ''content-security-policy'' \<noteq> None)
   \<and> (\<forall>k v. map_of hs k = Some v \<longrightarrow> map_of (secure_headers path hs) k = Some v)"
proof -
  have html: "contains_str ''text/html'' ''text/html; charset=utf-8''" by simp
  have "map_of (secure_headers path hs) ''x-content-type-options'' \<noteq> None"
    unfolding secure_headers_def Let_def by (simp only: default_facts split: if_split) simp
  moreover have "map_of (secure_headers path hs) ''x-frame-options'' \<noteq> None" if "\<not> startswith path ''/ui/miniapp''"
    unfolding secure_headers_def Let_def by (simp only: that if_False default_facts split: if_split) simp
  moreover have "map_of (secure_headers path hs) ''content-security-policy'' \<noteq> None"
    if "map_of hs ''content-type'' = Some ''text/html; charset=utf-8''"
    unfolding secure_headers_def Let_def
    by (simp only: default_keeps [OF that] default_keeps [OF default_keeps [OF that]] default_keeps [OF default_keeps [OF default_keeps [OF that]]]
        option.case html if_True default_set if_cancel if_P if_not_P split: if_split) simp
  moreover have "map_of (secure_headers path hs) k = Some v" if "map_of hs k = Some v" for k v
    unfolding secure_headers_def Let_def
    by (simp only: default_keeps [OF that] default_keeps [OF default_keeps [OF that]] default_keeps [OF default_keeps [OF default_keeps [OF that]]]
        default_keeps [OF default_keeps [OF default_keeps [OF default_keeps [OF that]]]] split: if_split) simp
  ultimately show ?thesis by blast
qed

section \<open>Health and metrics\<close>

(* src: src/src/anbar/main.py 287-300 create_app *)
definition healthz :: "bool \<Rightarrow> bool \<Rightarrow> int \<times> string \<times> string option" where
  "healthz reach full = (if reach then 200 else 503, if reach then ''ok'' else ''unhealthy'', if full then Some (if reach then ''ok'' else ''error'') else None)"

text \<open>The figures of \<^verbatim>\<open>/metrics\<close>. The chunk cache has neither an attribute \<open>entries\<close> nor \<open>used_bytes\<close>, so the default 0 is read.\<close>

(* src: src/src/anbar/main.py 303-360 create_app *)
definition metrics :: "bool \<Rightarrow> db \<Rightarrow> 'b micro option \<Rightarrow> jobq option \<Rightarrow> (string \<times> int) list" where
  "metrics reach d cc q =
     (let live = filter untrashed (d_objects d)
      in [(''anbar_objects_total'', if reach then int (length live) else 0), (''anbar_objects_bytes_total'', if reach then sum_list (map o_size live) else 0),
          (''anbar_chunk_cache_hits_total'', case cc of None \<Rightarrow> 0 | Some c \<Rightarrow> int (mc_hits c)),
          (''anbar_chunk_cache_misses_total'', case cc of None \<Rightarrow> 0 | Some c \<Rightarrow> int (mc_misses c)),
          (''anbar_chunk_cache_entries'', 0), (''anbar_chunk_cache_bytes'', 0)]
         @ (case q of None \<Rightarrow> [] | Some q \<Rightarrow> map (\<lambda>(st, n). (''anbar_jobs_total'' @ ''{state='' @ st @ ''}'', int n)) (js_stats (q_rows q))))"

text \<open>Also: the metrics show an empty chunk cache whatever it holds.\<close>

theorem metrics_show_empty_cache:
  "map_of (metrics reach d (Some c) q) ''anbar_chunk_cache_entries'' = Some 0 \<and> map_of (metrics reach d (Some c) q) ''anbar_chunk_cache_bytes'' = Some 0"
  by (simp add: metrics_def Let_def)

end
