(* ===== verification/Spec2Isabelle.thy ===== *)
theory Spec2Isabelle
  imports Readers DbFolders Links Cache Pool Mtproto Jobs SelfHealing Recover S3Store UploadFlow Album IngestFlow Harvester AdminRoutes TgIngest AppMain
begin

text \<open>
  A verification library for Anbar, a service that keeps no files of its own: what is uploaded is cut into chunks, the
  chunks are sent to a Telegram channel, and a database row with a manifest says how to put them together again. The
  sources are \<^verbatim>\<open>src/src/anbar/\<close> and \<^verbatim>\<open>src/scripts/recover.py\<close>. Every definition that models code carries a comment
  with the file, the lines and the symbol it translates.

  \<^bold>\<open>How the program is put together.\<close> A request meets the access rules (sessions, API keys, signed links), is limited by
  address, and ends in a route. An upload drains a byte stream through the chunker into the object service, which
  encrypts each chunk, sends it with a self-describing caption to a member of the bot pool or to the user-account
  backend, records it in a checkpoint and finally commits the row. A download plans its byte range over the chunks of
  the manifest and serves them out of a disk cache, a memory cache or the backend. The S3 endpoints, the URL ingest, the
  Telegram ingest and the archive of several files are built on the same two paths. A job queue runs long tasks, the
  administration routes change settings, keys, links, folders and files, the self-healing rebuilds rows from the
  captions of the channel, and an offline script recovers files without a server.

  \<^bold>\<open>Common ground.\<close> \<open>Prelude\<close> has the exceptions and the result type \<open>exc + 'a\<close> (a raise is \<open>Inl\<close>, an uncaught one ends the
  route), with \<open>rbind\<close> and \<open>mapr\<close> and their rules; \<open>PyStr\<close> Python's string operations with the round trip of \<open>str(int)\<close>
  and \<open>int(str)\<close>; \<open>PyJson\<close> \<^verbatim>\<open>json.dumps\<close> and \<^verbatim>\<open>json.loads\<close> with their round trip; \<open>Sql\<close> what SQLite does to a list of
  rows and \<^verbatim>\<open>LIKE\<close>. Strings are lists of characters up to U+00FF; times are integers handed in as arguments; figures that
  are floats in the code are exact rationals.

  \<^bold>\<open>Storage.\<close>
  \<^item> \<open>Objects\<close> (\<^verbatim>\<open>objects.py\<close>): ids, manifests, \<open>map_range\<close>, and the chunker over any reader that satisfies the locale
    \<open>byte_stream\<close>; the locale proves once that the pieces of the stream reach the callback cut at the chunk size, or up to
    the ceiling. \<open>Readers\<close> interprets it on the readers of the upload, the URL ingest, the multipart file and the Telegram
    download.
  \<^item> \<open>DbCore\<close>, \<open>DbCoherence\<close>, \<open>DbFolders\<close>, \<open>DbTables\<close> (\<^verbatim>\<open>db.py\<close>): the objects table with its row cache and the invariant
    that the cache agrees with the table, folders and trash, and the tables for keys and values, links, rates and audit.
  \<^item> \<open>Storage\<close> (\<^verbatim>\<open>storage/base.py\<close>): the contract of a backend as a locale, interpreted on \<open>FakeBackend\<close>; \<open>BotBackend\<close>, \<open>Pool\<close> and
    \<open>Mtproto\<close> the real backends with their retry, flood and healing loops over arguments for HTTP and Telethon.
  \<^item> \<open>Captions\<close> the captions, meta events and encryption frames; \<open>ObjectService\<close> (\<^verbatim>\<open>object_service.py\<close>) store, checkpoint,
    rollback, commit and purge; \<open>Cache\<close> (\<^verbatim>\<open>cache.py\<close>) both caches with their budgets.
  \<^item> \<open>SelfHealing\<close> and \<open>Recover\<close>: replaying events and rebuilding rows, and the offline script.

  \<^bold>\<open>Access and settings.\<close> \<open>Config\<close>, \<open>Runtime\<close> (settings and run-time overrides), \<open>Auth\<close> (signatures, API keys, sessions,
  roles, Telegram init data), \<open>Links\<close> (the registry of links), \<open>Access\<close> (who may open or change an object), \<open>NetGuard\<close> (which
  addresses a URL ingest may reach), \<open>WebUi\<close> (login and the mini app), \<open>Harvester\<close> (file ids and the webhook).

  \<^bold>\<open>Routes.\<close>
  \<^item> \<open>UploadApi\<close> has the upload routes and \<open>UploadFlow\<close> what they promise; \<open>Download\<close> the plan of a download and \<open>Serving\<close> its
    promises; \<open>Gallery\<close>, \<open>Album\<close>, \<open>ZipStream\<close>, \<open>Subtitles\<close>, \<open>SubsImport\<close> the remaining routes of the download API with
    archives, albums, thumbnails, subtitles; \<open>QrField\<close> and \<open>QrMatrix\<close> the QR code.
  \<^item> \<open>S3Api\<close> the S3 endpoints and \<open>S3Store\<close> what they do.
  \<^item> \<open>Jobs\<close> the durable queue as a step relation over all interleavings of submissions, task ends, cancels and clean-ups.
  \<^item> \<open>IngestTasks\<close> the registry of running ingests, a heap of shared tasks; \<open>Ingest\<close> and \<open>IngestFlow\<close> the URL ingest.
  \<^item> \<open>TgStream\<close> (\<^verbatim>\<open>telegram_ingest.py\<close>) the resuming download and the parallel one as a step relation; \<open>TgMessages\<close> links, figures and
    progress; \<open>TgAlbum\<close> the collection of albums as a step relation over messages and timers; \<open>TgIngest\<close> the three ingests,
    the commands, the batch of an album and the dispatch of a message.
  \<^item> \<open>Admin\<close>, \<open>AdminFiles\<close>, \<open>AdminEnv\<close> the administration routes for settings, files and configuration; \<open>AdminRoutes\<close> makes one type
    of all of them to prove that each asks for the admin first. \<open>AppMain\<close> the start, the clean-up round, backups, headers.

  \<^bold>\<open>State and interaction.\<close> A component's state is a record (\<open>db\<close>, \<open>obj_lru\<close>, \<open>pool\<close>, \<open>disk_lru\<close>, \<open>micro\<close>, \<open>svc\<close>, \<open>jobq\<close>,
  \<open>task_manager\<close>, \<open>ing\<close>, \<open>tg\<close>, \<open>app\<close>) that its operations take and return; a route returns the new state and its result,
  so what a failing route has already changed is visible. Backends are a function from member names to their state, the
  \<open>world\<close>, so that the theorems about uploads speak of every blob of every backend. What happens while a coroutine waits is
  an argument (\<open>during\<close>, \<open>run\<close>) or a step of a relation (\<open>jstep\<close>, \<open>tm_step\<close>, \<open>par_step\<close>, \<open>album_step\<close>).

  \<^bold>\<open>What the lemmas show.\<close>
  \<^item> Round trips: manifests, captions and events, sessions, settings, QR data, environment file, links of posts; and the long ones, that
    an upload is read back by every range of a download, by S3, in an archive, and after a URL or Telegram ingest.
  \<^item> Invariants of reachable states: the row cache, the disk cache, the job queue, the registry of ingests, revocation of
    links, the parallel download, the buffers of albums.
  \<^item> Failure: a failed upload or ingest leaves every backend with the blobs it had and no row; every storage error is mapped
    to its status; a blocked request stores nothing; the stores of the bot backend always return.
  \<^item> Safety: who passes the role checks, which signatures open an object, what a guard lets through, that each administration
    route refuses visitors.
  \<^item> Equivalences: chunker against cutting the whole body, the Reed-Solomon encoder against its defining equation, the folder
    operations against one update of the table, replay in any order of distinct time stamps.

  \<^bold>\<open>What does not hold\<close> is stated as theorems as well, among them: \<open>allowlist_bypassed\<close>, \<open>copy_purge_destroys_original\<close>,
  \<open>unlock_renews_link\<close>, \<open>folder_pattern_overreach\<close>, \<open>rate_limit_lost\<close>, \<open>resume_after_failure\<close>, \<open>s3_suffix_range_is_a_prefix\<close>,
  \<open>upload_url_runs_twice\<close>, \<open>late_cancel_overruled\<close>, \<open>documented_error_misread\<close>, \<open>rebuilt_from_upload_captions_is_empty\<close>,
  \<open>sanitizer_bypassed\<close>, \<open>entry_name_hangs\<close>, \<open>qr_stream_is_misaligned\<close>, \<open>config_value_sets_other_key\<close>, \<open>caption_link_hides_media\<close>,
  \<open>album_uncancellable_after_first_file\<close>.

  \<^bold>\<open>Bounds and termination.\<close> No definition uses fuel. Other loops are structural or have a measure; \<open>chunk_loop\<close>, \<open>flood_loop\<close> and the entry
  names that may run forever are \<open>partial_function (option)\<close>, where \<open>None\<close> is a run that never returns, and the theorems
  prove \<open>Some\<close> where the code returns (\<open>entry_name_hangs\<close> is one place where it does not). Constants are those of the code:
  chunk sizes, ten retries, sixteen queued parts, 4000 cached rows, sixty history entries. The bytes of the QR code and the
  addresses of the URL guard are machine words; Python's integers are \<open>int\<close>.

  \<^bold>\<open>Assumptions.\<close> HMAC, SHA-256, AES and scrypt are arguments; where a theorem needs more than their being functions it is a named
  hypothesis (\<open>mac_ok\<close>: the tag is not empty and distinct messages have distinct tags). The backends of the end-to-end theorems are
  pools of \<open>FakeBackend\<close>, the program's own in-memory backend, with hypotheses that hold of it from the start (\<open>fake_ok\<close>). Bodies
  are finite lists of arrivals. SQLite statements succeed unless a step says that they fail.

  \<^bold>\<open>Not modelled.\<close> The HTML of the pages and \<^verbatim>\<open>templates.py\<close>, the command line \<^verbatim>\<open>cli.py\<close> (terminal interaction around HTTP calls),
  \<^verbatim>\<open>mtproto_provider.py\<close> (builds the Telethon client), \<^verbatim>\<open>tasks.py\<close> (keeps references to asyncio tasks), the notification
  socket, and the benchmark scripts. Inside modelled files: the SQLite connection, its pragmas and migrations, the
  snapshot of a backup, the XML and ZIP encoders, ffmpeg, ffprobe and Pillow, webhook registration and the active test of
  bots, log lines and the texts of messages. Times spent waiting do not pass, so timeouts appear as the stall of a stream.
\<close>

end
